(* ===== verification/Prelude.thy ===== *)
theory Prelude
  imports Main "HOL-Library.List_Lexorder" "HOL-Library.Char_ord"
    "HOL-Library.Product_Lexorder" "HOL-Library.Multiset" "HOL-Library.Sublist"
begin

text \<open>
  What every component of the development shares: the conventions for Go values, the
  string operations of Go's \<open>strings\<close> package the components call, comparison-driven
  sorting (Go's \<open>sort.SliceStable\<close>), strict weak orders with the combinators a Go
  comparator is written from, and small facts on lists and maps.

  Conventions. A Go \<open>string\<close> is HOL's \<open>string\<close>, a list of bytes; Go's \<open><\<close> on strings
  is bytewise lexicographic, which is \<open><\<close> of List_Lexorder over Char_ord.  A \<open>time.Time\<close>
  is an instant, an \<open>int\<close> whose zero is Go's zero time.  A Go \<open>error\<close> result is a sum
  with \<open>Inl\<close> the error.  A Go map that is only ever read by key is a HOL map.
\<close>

named_theorems swo_intros \<open>rules that build a strict weak order from the keys of a comparator\<close>
named_theorems go_string \<open>equations for Go's string operations\<close>

type_synonym instant = int

abbreviation (input) zero_time :: instant where
  "zero_time \<equiv> 0"

subsection \<open>Go strings\<close>

definition HasPrefix :: "string \<Rightarrow> string \<Rightarrow> bool" where
  "HasPrefix s p = prefix p s"

definition HasSuffix :: "string \<Rightarrow> string \<Rightarrow> bool" where
  "HasSuffix s p = suffix p s"

definition TrimPrefix :: "string \<Rightarrow> string \<Rightarrow> string" where
  "TrimPrefix s p = (if HasPrefix s p then drop (length p) s else s)"

definition TrimSuffix :: "string \<Rightarrow> string \<Rightarrow> string" where
  "TrimSuffix s p = (if HasSuffix s p then take (length s - length p) s else s)"

definition CutPrefix :: "string \<Rightarrow> string \<Rightarrow> string \<times> bool" where
  "CutPrefix s p = (if HasPrefix s p then (drop (length p) s, True) else (s, False))"

text \<open>\<open>strings.Cut\<close> at a one-byte separator: the part before, the part after, and found.\<close>

definition Cut :: "string \<Rightarrow> char \<Rightarrow> string \<times> string \<times> bool" where
  "Cut s c = (if c \<in> set s then (takeWhile (\<lambda>x. x \<noteq> c) s, tl (dropWhile (\<lambda>x. x \<noteq> c) s), True)
              else (s, [], False))"

text \<open>\<open>strings.Split\<close> at a one-byte separator.\<close>

fun Split :: "string \<Rightarrow> char \<Rightarrow> string list" where
  "Split [] c = [[]]"
| "Split (x # xs) c =
     (if x = c then [] # Split xs c
      else (case Split xs c of [] \<Rightarrow> [[x]] | w # ws \<Rightarrow> (x # w) # ws))"

fun Join :: "string list \<Rightarrow> string \<Rightarrow> string" where
  "Join [] sep = []"
| "Join [w] sep = w"
| "Join (w # ws) sep = w @ sep @ Join ws sep"

text \<open>\<open>strings.Contains\<close>, and \<open>strings.Index\<close> as an option.\<close>

fun StrIndex :: "string \<Rightarrow> string \<Rightarrow> nat option" where
  "StrIndex [] p = (if p = [] then Some 0 else None)"
| "StrIndex (x # xs) p = (if prefix p (x # xs) then Some 0 else map_option Suc (StrIndex xs p))"

definition Contains :: "string \<Rightarrow> string \<Rightarrow> bool" where
  "Contains s p = (StrIndex s p \<noteq> None)"

definition TrimLeft :: "string \<Rightarrow> char \<Rightarrow> string" where
  "TrimLeft s c = dropWhile (\<lambda>x. x = c) s"

text \<open>\<open>strings.TrimSpace\<close> on bytes: the ASCII white space Go's \<open>unicode.IsSpace\<close> names.\<close>

definition is_space :: "char \<Rightarrow> bool" where
  "is_space c = (of_char c \<in> {9::nat, 10, 11, 12, 13, 32})"

definition TrimSpace :: "string \<Rightarrow> string" where
  "TrimSpace s = rev (dropWhile is_space (rev (dropWhile is_space s)))"

text \<open>\<open>strings.Compare\<close>: -1, 0 or 1.\<close>

definition Compare :: "'a::linorder \<Rightarrow> 'a \<Rightarrow> int" where
  "Compare a b = (if a < b then -1 else if a = b then 0 else 1)"

text \<open>\<open>strconv.Itoa\<close>: decimal digits, with a sign for a negative number.\<close>

fun decimal :: "nat \<Rightarrow> string" where
  "decimal n = (if n < 10 then [char_of (48 + n)] else decimal (n div 10) @ [char_of (48 + n mod 10)])"

declare decimal.simps [simp del]

definition Itoa :: "int \<Rightarrow> string" where
  "Itoa i = (if i < 0 then ''-'' @ decimal (nat (- i)) else decimal (nat i))"

text \<open>UTF-8 bytes of the em dash and of the ellipsis, which some messages contain.\<close>

definition em_dash :: string where
  "em_dash = [CHR 0xE2, CHR 0x80, CHR 0x94]"

definition ellipsis :: string where
  "ellipsis = [CHR 0xE2, CHR 0x80, CHR 0xA6]"

lemma Cut_no_sep: "c \<notin> set a \<Longrightarrow> Cut (a @ c # b) c = (a, b, True)"
  by (simp add: Cut_def takeWhile_append dropWhile_append)

lemma Cut_found: "Cut s c = (a, b, True) \<Longrightarrow> s = a @ c # b \<and> c \<notin> set a"
proof -
  assume h: "Cut s c = (a, b, True)"
  then have c: "c \<in> set s" and a: "a = takeWhile (\<lambda>x. x \<noteq> c) s"
    and b: "b = tl (dropWhile (\<lambda>x. x \<noteq> c) s)"
    by (auto simp: Cut_def split: if_splits)
  obtain u v where s: "s = u @ c # v" and u: "c \<notin> set u"
    using c by (metis split_list_first)
  from a s u have "a = u" by (simp add: takeWhile_append)
  moreover from b s u have "b = v" by (simp add: dropWhile_append)
  ultimately show ?thesis using s u by simp
qed

lemma Cut_missing: "Cut s c = (a, b, False) \<longleftrightarrow> c \<notin> set s \<and> a = s \<and> b = []"
  by (auto simp: Cut_def)

lemma Split_nonempty [simp]: "Split s c \<noteq> []"
  by (induction s c rule: Split.induct) (auto split: list.splits)

lemma Split_no_sep: "c \<notin> set s \<Longrightarrow> Split s c = [s]"
  by (induction s) auto

lemma Split_append_sep: "c \<notin> set a \<Longrightarrow> Split (a @ c # b) c = a # Split b c"
  by (induction a) auto

lemma Join_Split: "Join (Split s c) [c] = s"
proof (induction s c rule: Split.induct)
  case (1 c)
  then show ?case by simp
next
  case (2 x xs c)
  obtain w ws where ws: "Split xs c = w # ws"
    by (cases "Split xs c") auto
  with 2 show ?case by (cases ws) auto
qed

lemma Split_Join:
  "ws \<noteq> [] \<Longrightarrow> (\<And>w. w \<in> set ws \<Longrightarrow> c \<notin> set w) \<Longrightarrow> Split (Join ws [c]) c = ws"
proof (induction ws "[c]" rule: Join.induct)
  case 1
  then show ?case by simp
next
  case (2 w)
  then show ?case by (simp add: Split_no_sep)
next
  case (3 w v ws)
  then show ?case by (simp add: Split_append_sep)
qed

lemma HasPrefix_append [simp, go_string]: "HasPrefix (p @ s) p"
  by (simp add: HasPrefix_def)

lemma TrimPrefix_append [simp, go_string]: "TrimPrefix (p @ s) p = s"
  by (simp add: TrimPrefix_def)

lemma CutPrefix_append [simp, go_string]: "CutPrefix (p @ s) p = (s, True)"
  by (simp add: CutPrefix_def)

lemma CutPrefix_found: "CutPrefix s p = (r, True) \<longleftrightarrow> s = p @ r"
  by (auto simp: CutPrefix_def HasPrefix_def prefix_def)

lemma TrimSuffix_append [simp, go_string]: "TrimSuffix (s @ p) p = s"
  by (simp add: TrimSuffix_def HasSuffix_def suffix_def)

lemma Index_Some_split: "StrIndex s p = Some i \<Longrightarrow> \<exists>u v. s = u @ p @ v \<and> length u = i"
proof (induction s p arbitrary: i rule: StrIndex.induct)
  case (1 p)
  then show ?case by (auto split: if_splits)
next
  case (2 x xs p)
  show ?case
  proof (cases "prefix p (x # xs)")
    case True
    with 2 show ?thesis by (auto simp: prefix_def)
  next
    case False
    with "2.prems" obtain j where j: "StrIndex xs p = Some j" "i = Suc j" by auto
    from "2.IH" [OF False j(1)] obtain u v where "xs = u @ p @ v" "length u = j" by blast
    with j have "x # xs = (x # u) @ p @ v \<and> length (x # u) = i" by simp
    then show ?thesis by blast
  qed
qed

lemma Contains_iff: "Contains s p \<longleftrightarrow> (\<exists>u v. s = u @ p @ v)"
proof
  show "Contains s p \<Longrightarrow> \<exists>u v. s = u @ p @ v"
    unfolding Contains_def using Index_Some_split by blast
next
  assume "\<exists>u v. s = u @ p @ v"
  then obtain u v where s: "s = u @ p @ v" by blast
  have "StrIndex (u @ p @ v) p \<noteq> None"
  proof (induction u)
    case Nil
    have "prefix p (p @ v)" by simp
    then show ?case by (cases "p @ v") simp_all
  next
    case (Cons a u)
    then show ?case by auto
  qed
  with s show "Contains s p" by (simp add: Contains_def)
qed

lemma Contains_char: "Contains s [c] \<longleftrightarrow> c \<in> set s"
  by (auto simp: Contains_iff dest: split_list)

subsection \<open>Strict weak orders\<close>

text \<open>
  What \<open>sort.SliceStable\<close> requires of its comparator: irreflexive, transitive, and with a
  transitive incomparability.  A Go comparator is a chain of
  \<open>if k(a) != k(b) { return k(a) < k(b) }\<close>; the rules \<open>swo_intros\<close> follow that shape.
\<close>

definition swo :: "('a \<Rightarrow> 'a \<Rightarrow> bool) \<Rightarrow> bool" where
  "swo r \<longleftrightarrow> (\<forall>x. \<not> r x x) \<and> (\<forall>x y z. r x y \<longrightarrow> r y z \<longrightarrow> r x z)
           \<and> (\<forall>x y z. \<not> r x y \<longrightarrow> \<not> r y z \<longrightarrow> \<not> r x z)"

lemma swoI:
  assumes "\<And>x. \<not> r x x" "\<And>x y z. r x y \<Longrightarrow> r y z \<Longrightarrow> r x z"
    "\<And>x y z. r x z \<Longrightarrow> r x y \<or> r y z"
  shows "swo r"
  using assms unfolding swo_def by blast

lemma swo_irrefl: "swo r \<Longrightarrow> \<not> r x x"
  by (simp add: swo_def)

lemma swo_trans: "swo r \<Longrightarrow> r x y \<Longrightarrow> r y z \<Longrightarrow> r x z"
  unfolding swo_def by blast

lemma swo_negtrans: "swo r \<Longrightarrow> \<not> r x y \<Longrightarrow> \<not> r y z \<Longrightarrow> \<not> r x z"
  unfolding swo_def by blast

lemma swo_asym: "swo r \<Longrightarrow> r x y \<Longrightarrow> \<not> r y x"
  unfolding swo_def by blast

lemma swo_key [swo_intros]: "swo (\<lambda>a b. k a < (k b :: 'k::linorder))"
  by (rule swoI) auto

lemma swo_key_desc [swo_intros]: "swo (\<lambda>a b. (k b :: 'k::linorder) < k a)"
  by (rule swoI) auto

lemma swo_never [swo_intros]: "swo (\<lambda>a b. False)"
  by (rule swoI) auto

text \<open>Two comparators in sequence: the second decides where the first ties.\<close>

lemma swo_lex:
  assumes r: "swo r" and s: "swo s"
  shows "swo (\<lambda>a b. r a b \<or> (\<not> r b a \<and> s a b))"
proof (rule swoI)
  show "\<not> (r x x \<or> (\<not> r x x \<and> s x x))" for x
    using swo_irrefl [OF r] swo_irrefl [OF s] by simp
next
  fix x y z
  assume "r x y \<or> (\<not> r y x \<and> s x y)" "r y z \<or> (\<not> r z y \<and> s y z)"
  then show "r x z \<or> (\<not> r z x \<and> s x z)"
    by (meson swo_trans [OF r] swo_trans [OF s] swo_negtrans [OF r])
next
  fix x y z
  assume "r x z \<or> (\<not> r z x \<and> s x z)"
  then show "(r x y \<or> (\<not> r y x \<and> s x y)) \<or> (r y z \<or> (\<not> r z y \<and> s y z))"
    by (meson swo_trans [OF r] swo_negtrans [OF r] swo_negtrans [OF s])
qed

lemma swo_flag: "swo (\<lambda>a b. k a \<and> \<not> k b)"
  by (rule swoI) auto

lemma swo_then [swo_intros]:
  assumes "swo r"
  shows "swo (\<lambda>a b. if k a \<noteq> (k b :: 'k::linorder) then k a < k b else r a b)"
  by (rule back_subst [of swo, OF swo_lex [OF swo_key [of k] assms]]) (auto simp: fun_eq_iff)

lemma swo_then_desc [swo_intros]:
  assumes "swo r"
  shows "swo (\<lambda>a b. if k a \<noteq> (k b :: 'k::linorder) then k b < k a else r a b)"
  by (rule back_subst [of swo, OF swo_lex [OF swo_key_desc [of k] assms]]) (auto simp: fun_eq_iff)

lemma swo_then_true [swo_intros]:
  assumes "swo r"
  shows "swo (\<lambda>a b. if k a \<noteq> k b then k a else r a b)"
  by (rule back_subst [of swo, OF swo_lex [OF swo_flag [of k] assms]]) (auto simp: fun_eq_iff)

lemma swo_then_false [swo_intros]:
  assumes "swo r"
  shows "swo (\<lambda>a b. if k a \<noteq> k b then \<not> k a else r a b)"
  by (rule back_subst [of swo, OF swo_lex [OF swo_flag [of "\<lambda>x. \<not> k x"] assms]])
    (auto simp: fun_eq_iff)

lemma swo_then_other [swo_intros]:
  assumes "swo r"
  shows "swo (\<lambda>a b. if k a \<noteq> k b then k b else r a b)"
  by (rule back_subst [of swo, OF swo_lex [OF swo_flag [of "\<lambda>x. \<not> k x"] assms]])
    (auto simp: fun_eq_iff)

end
