(* ===== verification/Sorting_Go.thy ===== *)
theory Sorting_Go
  imports Prelude
begin

text \<open>
  Go's \<open>sort.SliceStable(s, less)\<close> as insertion sort driven by the comparator.  The library
  function is stable and orders by any strict weak order; those two facts determine its
  result, so the algorithm inside does not matter (\<open>stable_sort_unique\<close> for comparators
  without ties; \<open>stable_sort_hd_first\<close> for the element served first).  \<open>sort.Slice\<close> and
  \<open>slices.SortFunc\<close> promise no stability; the components use them with comparators that
  tie only on equal elements, where the result is again the unique sorted permutation.
\<close>

fun insert_by :: "('a \<Rightarrow> 'a \<Rightarrow> bool) \<Rightarrow> 'a \<Rightarrow> 'a list \<Rightarrow> 'a list" where
  "insert_by lt x [] = [x]"
| "insert_by lt x (y # ys) = (if lt y x then y # insert_by lt x ys else x # y # ys)"

fun stable_sort :: "('a \<Rightarrow> 'a \<Rightarrow> bool) \<Rightarrow> 'a list \<Rightarrow> 'a list" where
  "stable_sort lt [] = []"
| "stable_sort lt (x # xs) = insert_by lt x (stable_sort lt xs)"

lemma mset_insert_by [simp]: "mset (insert_by lt x xs) = add_mset x (mset xs)"
  by (induction xs) auto

lemma mset_stable_sort [simp]: "mset (stable_sort lt xs) = mset xs"
  by (induction xs) auto

lemma set_stable_sort [simp]: "set (stable_sort lt xs) = set xs"
  by (metis mset_stable_sort set_mset_mset)

lemma length_stable_sort [simp]: "length (stable_sort lt xs) = length xs"
  by (metis mset_stable_sort size_mset)

lemma stable_sort_Nil_iff [simp]: "stable_sort lt xs = [] \<longleftrightarrow> xs = []"
  by (metis length_0_conv length_stable_sort)

lemma set_insert_by [simp]: "set (insert_by lt x xs) = insert x (set xs)"
  by (induction xs) auto

lemma sorted_insert_by:
  assumes "swo lt" "sorted_wrt (\<lambda>x y. \<not> lt y x) ys"
  shows "sorted_wrt (\<lambda>x y. \<not> lt y x) (insert_by lt x ys)"
  using assms(2)
proof (induction ys)
  case (Cons y ys)
  show ?case
  proof (cases "lt y x")
    case True
    with Cons show ?thesis using swo_asym [OF assms(1) True] by simp
  next
    case False
    then have "\<not> lt z x" if "z \<in> set ys" for z
      using Cons.prems that swo_negtrans [OF assms(1) _ False] by simp
    with False Cons.prems show ?thesis by simp
  qed
qed simp

lemma sorted_stable_sort: "swo lt \<Longrightarrow> sorted_wrt (\<lambda>x y. \<not> lt y x) (stable_sort lt xs)"
  by (induction xs) (auto intro: sorted_insert_by)

text \<open>A sorted permutation is unique when the comparator ties only on equal elements.\<close>

lemma sorted_perm_unique:
  assumes "sorted_wrt (\<lambda>x y. \<not> lt y x) xs" "sorted_wrt (\<lambda>x y. \<not> lt y x) ys"
    and "mset xs = mset ys"
    and ties: "\<And>a b. a \<in> set xs \<Longrightarrow> b \<in> set xs \<Longrightarrow> \<not> lt a b \<Longrightarrow> \<not> lt b a \<Longrightarrow> a = b"
  shows "xs = ys"
  using assms
proof (induction xs arbitrary: ys)
  case (Cons x xs)
  then obtain y ys' where ys: "ys = y # ys'"
    by (cases ys) auto
  have sets: "set (x # xs) = set ys"
    using Cons.prems(3) by (metis set_mset_mset)
  have "x = y"
  proof (rule ccontr)
    assume ne: "x \<noteq> y"
    with sets ys have "x \<in> set ys'" "y \<in> set xs" by auto
    with Cons.prems(1,2) ys have "\<not> lt x y" "\<not> lt y x" by auto
    with Cons.prems(4) [of x y] \<open>y \<in> set xs\<close> ne show False by auto
  qed
  moreover have "xs = ys'"
    using Cons.prems ys \<open>x = y\<close> by (intro Cons.IH) auto
  ultimately show ?case using ys by simp
qed simp

lemma stable_sort_unique:
  assumes "swo lt" "mset xs = mset ys"
    and "\<And>a b. a \<in> set xs \<Longrightarrow> b \<in> set xs \<Longrightarrow> \<not> lt a b \<Longrightarrow> \<not> lt b a \<Longrightarrow> a = b"
  shows "stable_sort lt xs = stable_sort lt ys"
  by (rule sorted_perm_unique [of lt]) (use assms in \<open>auto intro: sorted_stable_sort\<close>)

subsection \<open>The element sorted first\<close>

lemma hd_stable_sort_in: "xs \<noteq> [] \<Longrightarrow> hd (stable_sort lt xs) \<in> set xs"
  by (metis hd_in_set set_stable_sort stable_sort_Nil_iff)

lemma hd_stable_sort_least:
  assumes "swo lt" "x \<in> set xs"
  shows "\<not> lt x (hd (stable_sort lt xs))"
proof -
  obtain y ys where eq: "stable_sort lt xs = y # ys"
    using assms(2) by (cases "stable_sort lt xs") auto
  have "x \<in> set (y # ys)" using assms(2) eq by (metis set_stable_sort)
  moreover have "sorted_wrt (\<lambda>x y. \<not> lt y x) (y # ys)"
    using sorted_stable_sort [OF assms(1), of xs] eq by simp
  ultimately show ?thesis using eq swo_irrefl [OF assms(1)] by auto
qed

lemma insert_by_hd: "insert_by lt x ys = (if ys = [] \<or> \<not> lt (hd ys) x then x # ys else hd ys # insert_by lt x (tl ys))"
  by (cases ys) auto

text \<open>Stability: among the elements nothing sorts before, the first in the input comes first.\<close>

lemma stable_sort_hd_first:
  assumes "swo lt" "xs = us @ m # vs"
    and "\<And>u. u \<in> set us \<Longrightarrow> lt m u" "\<And>v. v \<in> set vs \<Longrightarrow> \<not> lt v m"
  shows "hd (stable_sort lt xs) = m"
  using assms(2-)
proof (induction us arbitrary: xs)
  case Nil
  have "stable_sort lt vs = [] \<or> \<not> lt (hd (stable_sort lt vs)) m"
    using Nil hd_stable_sort_in [of vs lt] by auto
  with Nil show ?case by (auto simp: insert_by_hd)
next
  case (Cons u us)
  have "hd (stable_sort lt (us @ m # vs)) = m"
    by (rule Cons.IH) (use Cons.prems in auto)
  with Cons.prems show ?case by (auto simp: insert_by_hd)
qed

text \<open>
  The choice loop \<open>best := xs[0]; for r in xs[1:] { if less(r, best) { best = r } }\<close> the code
  writes where it needs only the first element.
\<close>

fun pick_best :: "('a \<Rightarrow> 'a \<Rightarrow> bool) \<Rightarrow> 'a \<Rightarrow> 'a list \<Rightarrow> 'a" where
  "pick_best lt b [] = b"
| "pick_best lt b (x # xs) = pick_best lt (if lt x b then x else b) xs"

lemma pick_best_in: "pick_best lt b xs \<in> set (b # xs)"
  by (induction lt b xs rule: pick_best.induct) (auto split: if_splits)

lemma pick_best_least:
  assumes "swo lt" "x \<in> set (b # xs)"
  shows "\<not> lt x (pick_best lt b xs)"
  using assms(2)
proof (induction xs arbitrary: b x)
  case Nil
  then show ?case using swo_irrefl [OF assms(1)] by simp
next
  case (Cons y ys)
  let ?b = "if lt y b then y else b"
  have b: "\<not> lt ?b (pick_best lt ?b ys)"
    by (rule Cons.IH) simp
  show ?case
  proof (cases "x \<in> set (?b # ys)")
    case True
    then show ?thesis by (simp only: pick_best.simps) (rule Cons.IH)
  next
    case False
    with Cons.prems have "\<not> lt x ?b"
      by (auto split: if_splits dest: swo_asym [OF assms(1)])
    from swo_negtrans [OF assms(1) this b] show ?thesis by simp
  qed
qed

end
