(* ===== verification/Version_Order.thy ===== *)
theory Version_Order
  imports Sorting_Go "HOL-Library.Option_ord"
begin

text \<open>
  \<open>internal/versionorder/versionorder.go\<close>: the two version comparisons of the program.
  Pipeline versions ("v19", "0.4.1") are compared as the numbers they state; the comparison is
  proved equal to the order of the generations they denote (\<open>generation\<close>), which is what makes
  "v10" newer than "v9".  Module versions are compared by \<open>golang.org/x/mod/semver\<close>, code that
  is not in the repository: \<open>semver.IsValid\<close> and \<open>semver.Compare\<close> are parameters, and what the
  code relies on of the second is the three-way contract of the locale \<open>three_way\<close>.
\<close>

subsection \<open>The contract of a three-way comparison\<close>

locale three_way =
  fixes cmp :: "'a \<Rightarrow> 'a \<Rightarrow> int"
  assumes anti: "cmp b a = - cmp a b"
    and le_trans: "cmp a b \<le> 0 \<Longrightarrow> cmp b c \<le> 0 \<Longrightarrow> cmp a c \<le> 0"
begin

lemma cmp_refl: "cmp a a = 0"
  using anti [of a a] by simp

lemma total: "cmp a b \<le> 0 \<or> cmp b a \<le> 0"
  using anti [of a b] by linarith

lemma before_swo: "swo (\<lambda>a b. cmp a b < 0)"
proof (rule swoI)
  show "\<not> cmp x x < 0" for x by (simp add: cmp_refl)
  show "cmp x z < 0" if "cmp x y < 0" "cmp y z < 0" for x y z
  proof (rule ccontr)
    assume "\<not> cmp x z < 0"
    then have "cmp z x \<le> 0" using anti [of x z] by linarith
    with that(1) have "cmp z y \<le> 0" using le_trans [of z x y] by simp
    with that(2) anti [of y z] show False by simp
  qed
  show "cmp x y < 0 \<or> cmp y z < 0" if "cmp x z < 0" for x y z
  proof (rule ccontr)
    assume "\<not> (cmp x y < 0 \<or> cmp y z < 0)"
    then have "cmp y x \<le> 0" "cmp z y \<le> 0" using anti [of x y] anti [of y z] by linarith+
    then have "cmp z x \<le> 0" using le_trans by blast
    with that anti [of x z] show False by simp
  qed
qed

lemma same_trans: "cmp a b = 0 \<Longrightarrow> cmp b c = 0 \<Longrightarrow> cmp a c = 0"
  using le_trans [of a b c] le_trans [of c b a] anti [of a b] anti [of b c] anti [of a c] by simp

end

lemma Compare_simps:
  "Compare a b < 0 \<longleftrightarrow> a < b" "Compare a b \<le> 0 \<longleftrightarrow> a \<le> b" "Compare a b = 0 \<longleftrightarrow> a = b"
  "Compare a a = 0" "Compare a b = -1 \<longleftrightarrow> a < b" "Compare a b = 1 \<longleftrightarrow> b < a"
  by (auto simp: Compare_def)

lemma Compare_Cons: "Compare (x # xs) (x # ys) = Compare xs ys"
  by (simp add: Compare_def)

lemma Compare_add: "Compare (k + m) (k + n) = Compare m (n :: nat)"
  by (simp add: Compare_def)

lemma Nil_less_iff: "[] < (ys :: 'a::linorder list) \<longleftrightarrow> ys \<noteq> []"
  by (cases ys) auto

lemma three_way_key: "three_way (\<lambda>a b. Compare (k a) (k b))"
  by unfold_locales (auto simp: Compare_def split: if_splits)

subsection \<open>Pipeline versions\<close>

definition is_digit :: "char \<Rightarrow> bool" where
  "is_digit c \<longleftrightarrow> \<not> (c < CHR ''0'' \<or> c > CHR ''9'')"

definition pipelineComponents :: "string \<Rightarrow> string list option" where
  "pipelineComponents v0 =
     (let v = TrimPrefix v0 ''v'' in
      if v = [] then None
      else let parts = Split v CHR ''.'' in
           if list_ex (\<lambda>p. p = [] \<or> list_ex (\<lambda>c. \<not> is_digit c) p) parts then None
           else Some parts)"

definition componentAt :: "string list \<Rightarrow> nat \<Rightarrow> string" where
  "componentAt parts i = (if i < length parts then parts ! i else ''0'')"

definition compareNumeral :: "string \<Rightarrow> string \<Rightarrow> int" where
  "compareNumeral a0 b0 =
     (let a = TrimLeft a0 CHR ''0''; b = TrimLeft b0 CHR ''0'' in
      if length a \<noteq> length b then (if length a < length b then -1 else 1)
      else Compare a b)"

text \<open>The loop \<open>for i := range max(len(na), len(nb))\<close> over the remaining indices.\<close>

fun compareComponents :: "string list \<Rightarrow> string list \<Rightarrow> nat list \<Rightarrow> int" where
  "compareComponents na nb [] = 0"
| "compareComponents na nb (i # is) =
     (let c = compareNumeral (componentAt na i) (componentAt nb i) in
      if c \<noteq> 0 then c else compareComponents na nb is)"

definition ComparePipelineVersions :: "string \<Rightarrow> string \<Rightarrow> int" where
  "ComparePipelineVersions a b =
     (case (pipelineComponents a, pipelineComponents b) of
        (None, None) \<Rightarrow> 0
      | (None, Some _) \<Rightarrow> -1
      | (Some _, None) \<Rightarrow> 1
      | (Some na, Some nb) \<Rightarrow> compareComponents na nb [0..<max (length na) (length nb)])"

subsection \<open>What a pipeline version states\<close>

definition digit_val :: "char \<Rightarrow> nat" where
  "digit_val c = of_char c - 48"

fun num_val :: "string \<Rightarrow> nat" where
  "num_val [] = 0"
| "num_val (c # cs) = digit_val c * 10 ^ length cs + num_val cs"

fun strip_zeros :: "nat list \<Rightarrow> nat list" where
  "strip_zeros [] = []"
| "strip_zeros (x # xs) = (let r = strip_zeros xs in if x = 0 \<and> r = [] then [] else x # r)"

text \<open>
  The generation a version names: its components as numbers, absent trailing components zero.
  A version that cannot state its number names no generation, \<open>None\<close>, which Option_ord puts
  below every generation.
\<close>

definition generation :: "string \<Rightarrow> nat list option" where
  "generation v = map_option (\<lambda>ps. strip_zeros (map num_val ps)) (pipelineComponents v)"

lemma is_digit_code: "is_digit c \<longleftrightarrow> 48 \<le> (of_char c :: nat) \<and> (of_char c :: nat) \<le> 57"
  by (auto simp: is_digit_def less_char_def)

lemma digit_val_bound: "is_digit c \<Longrightarrow> digit_val c < 10"
  by (auto simp: is_digit_code digit_val_def)

lemma digit_val_less: "is_digit c \<Longrightarrow> is_digit d \<Longrightarrow> digit_val c < digit_val d \<longleftrightarrow> c < d"
  by (auto simp: is_digit_code digit_val_def less_char_def)

lemma digit_val_eq: "is_digit c \<Longrightarrow> is_digit d \<Longrightarrow> digit_val c = digit_val d \<longleftrightarrow> c = d"
  by (metis digit_val_less linorder_neqE_nat not_less_iff_gr_or_eq)

lemma num_val_bound: "list_all is_digit cs \<Longrightarrow> num_val cs < 10 ^ length cs"
proof (induction cs)
  case (Cons c cs)
  then have "digit_val c \<le> 9" "num_val cs < 10 ^ length cs"
    using digit_val_bound [of c] by auto
  moreover have "digit_val c * 10 ^ length cs \<le> 9 * 10 ^ length cs"
    using calculation(1) by (rule mult_le_mono1)
  ultimately have "digit_val c * 10 ^ length cs + num_val cs < 10 * 10 ^ length cs" by linarith
  then show ?case by simp
qed simp

lemma num_val_TrimLeft: "num_val (TrimLeft cs CHR ''0'') = num_val cs"
  by (induction cs) (auto simp: TrimLeft_def digit_val_def)

lemma num_val_no_lead:
  assumes "list_all is_digit (c # cs)" "c \<noteq> CHR ''0''"
  shows "10 ^ length cs \<le> num_val (c # cs)"
proof -
  have "digit_val c \<noteq> digit_val CHR ''0''"
    using assms digit_val_eq [of c "CHR ''0''"] by (simp add: is_digit_code)
  then have "1 \<le> digit_val c" by (simp add: digit_val_def)
  then have "1 * 10 ^ length cs \<le> digit_val c * 10 ^ length cs" by (rule mult_le_mono1)
  then show ?thesis unfolding num_val.simps by linarith
qed

lemma num_val_same_length:
  assumes "length a = length b" "list_all is_digit a" "list_all is_digit b"
  shows "Compare a b = Compare (num_val a) (num_val b)"
  using assms
proof (induction a b rule: list_induct2)
  case (Cons x xs y ys)
  let ?p = "10 ^ length xs :: nat"
  have bx: "num_val xs < ?p" and by1: "num_val ys < ?p"
    using Cons num_val_bound [of xs] num_val_bound [of ys] by auto
  have step: "Suc u * ?p + w > v' * ?p + w'" if "v' \<le> u" "w' < ?p" for u v' w w' :: nat
    unfolding mult_Suc using that(2) mult_le_mono1 [OF that(1), of ?p] by linarith
  consider "x < y" | "x = y" | "y < x" by force
  then show ?case
  proof cases
    case 1
    then obtain u where "digit_val y = Suc u" "digit_val x \<le> u"
      using Cons digit_val_less [of x y] by (cases "digit_val y") auto
    with 1 step [of "digit_val x" u "num_val xs" "num_val ys"] bx Cons(1) show ?thesis
      by (simp add: Compare_def)
  next
    case 2
    with Cons show ?thesis by (simp add: Compare_Cons Compare_add)
  next
    case 3
    then obtain u where "digit_val x = Suc u" "digit_val y \<le> u"
      using Cons digit_val_less [of y x] by (cases "digit_val x") auto
    with 3 step [of "digit_val y" u "num_val ys" "num_val xs"] by1 Cons(1) show ?thesis
      by (auto simp: Compare_def)
  qed
qed (simp add: Compare_def)

lemma list_all_TrimLeft: "list_all P cs \<Longrightarrow> list_all P (TrimLeft cs c)"
  by (auto simp: TrimLeft_def list_all_iff dest: set_dropWhileD)

lemma shorter_numeral:
  assumes "list_all is_digit a" "list_all is_digit b" "length a < length b"
    and "b \<noteq> [] \<Longrightarrow> hd b \<noteq> CHR ''0''"
  shows "num_val a < num_val b"
proof -
  obtain c cs where b: "b = c # cs" using assms(3) by (cases b) auto
  have "num_val a < 10 ^ length a" by (rule num_val_bound [OF assms(1)])
  also have "\<dots> \<le> 10 ^ length cs" using assms(3) b by (intro power_increasing) auto
  also have "\<dots> \<le> num_val b" using assms b num_val_no_lead by simp
  finally show ?thesis .
qed

text \<open>Numerals of any width are compared as the numbers they write, without an integer type.\<close>

lemma compareNumeral_value:
  assumes "list_all is_digit a" "list_all is_digit b"
  shows "compareNumeral a b = Compare (num_val a) (num_val b)"
proof -
  let ?a = "TrimLeft a CHR ''0''" and ?b = "TrimLeft b CHR ''0''"
  have lead: "hd (TrimLeft s CHR ''0'') \<noteq> CHR ''0''" if "TrimLeft s CHR ''0'' \<noteq> []" for s
    using that hd_dropWhile [of "\<lambda>x. x = CHR ''0''" s] by (simp add: TrimLeft_def)
  have da: "list_all is_digit ?a" and db: "list_all is_digit ?b"
    using assms by (simp_all add: list_all_TrimLeft)
  have v: "num_val ?a = num_val a" "num_val ?b = num_val b" by (simp_all add: num_val_TrimLeft)
  consider "length ?a = length ?b" | "length ?a < length ?b" | "length ?b < length ?a" by linarith
  then show ?thesis
  proof cases
    case 1
    then show ?thesis
      using num_val_same_length [OF 1 da db] v by (simp add: compareNumeral_def)
  next
    case 2
    from shorter_numeral [OF da db 2 lead] 2 v show ?thesis
      by (simp add: compareNumeral_def Compare_def)
  next
    case 3
    from shorter_numeral [OF db da 3 lead] 3 v show ?thesis
      by (simp add: compareNumeral_def Compare_def)
  qed
qed

subsection \<open>Comparison of the components, and of the versions\<close>

fun compare_padded :: "nat list \<Rightarrow> nat list \<Rightarrow> int" where
  "compare_padded [] [] = 0"
| "compare_padded [] (y # ys) = (if y \<noteq> 0 then -1 else compare_padded [] ys)"
| "compare_padded (x # xs) [] = (if x \<noteq> 0 then 1 else compare_padded xs [])"
| "compare_padded (x # xs) (y # ys) = (if x \<noteq> y then Compare x y else compare_padded xs ys)"

lemma compare_padded_strip: "compare_padded xs ys = Compare (strip_zeros xs) (strip_zeros ys)"
  by (induction xs ys rule: compare_padded.induct) (auto simp: Compare_def Nil_less_iff Let_def split: if_splits)

text \<open>Shifting the index window of the loop by one component.\<close>

lemma compareComponents_shift:
  "compareComponents na nb (map Suc is) = compareComponents (tl na) (tl nb) is"
proof (induction "is")
  case (Cons i "is")
  have at: "componentAt ps (Suc i) = componentAt (tl ps) i" for ps
    by (cases ps) (auto simp: componentAt_def)
  with Cons show ?case by (simp add: at Let_def)
qed simp

lemma compareComponents_padded:
  assumes "\<forall>p \<in> set na \<union> set nb. list_all is_digit p"
  shows "compareComponents na nb [0..<max (length na) (length nb)]
       = compare_padded (map num_val na) (map num_val nb)"
  using assms
proof (induction "map num_val na" "map num_val nb" arbitrary: na nb rule: compare_padded.induct)
  case 1
  then show ?case by simp
next
  have zero: "list_all is_digit ''0''" "num_val ''0'' = 0"
    by (simp_all add: is_digit_code digit_val_def)
  have window: "[0..<Suc n] = 0 # map Suc [0..<n]" for n
    by (simp add: upt_conv_Cons map_Suc_upt del: upt_Suc)
  {
    case (2 y ys)
    then obtain n1 nb' where nb: "nb = n1 # nb'" "na = []" by (cases nb) auto
    have "compareNumeral ''0'' n1 = Compare 0 (num_val n1)"
      using compareNumeral_value [of "''0''" n1] 2 nb zero by simp
    with 2 nb show ?case
      by (auto simp: window compareComponents_shift componentAt_def Compare_def Let_def
          simp del: upt_Suc)
  next
    case (3 x xs)
    then obtain n1 na' where na: "na = n1 # na'" "nb = []" by (cases na) auto
    have "compareNumeral n1 ''0'' = Compare (num_val n1) 0"
      using compareNumeral_value [of n1 "''0''"] 3 na zero by simp
    with 3 na show ?case
      by (auto simp: window compareComponents_shift componentAt_def Compare_def Let_def
          simp del: upt_Suc)
  next
    case (4 x xs y ys)
    then obtain n1 na' m1 nb' where na: "na = n1 # na'" "nb = m1 # nb'"
      by (cases na; cases nb) auto
    have "compareNumeral n1 m1 = Compare (num_val n1) (num_val m1)"
      using compareNumeral_value [of n1 m1] 4 na by simp
    with 4 na show ?case
      by (auto simp: window compareComponents_shift componentAt_def Compare_simps Let_def
          simp del: upt_Suc)
  }
qed

lemma pipelineComponents_digits:
  "pipelineComponents v = Some ps \<Longrightarrow> p \<in> set ps \<Longrightarrow> p \<noteq> [] \<and> list_all is_digit p"
  by (auto simp: pipelineComponents_def Let_def list_ex_iff list_all_iff split: if_splits)

lemma ComparePipelineVersions_generation:
  "ComparePipelineVersions a b = Compare (generation a) (generation b)"
proof (cases "pipelineComponents a"; cases "pipelineComponents b")
  fix na nb
  assume ab: "pipelineComponents a = Some na" "pipelineComponents b = Some nb"
  then have "\<forall>p \<in> set na \<union> set nb. list_all is_digit p"
    using pipelineComponents_digits by blast
  from compareComponents_padded [OF this] ab show ?thesis
    by (simp add: ComparePipelineVersions_def generation_def compare_padded_strip Compare_def)
qed (simp_all add: ComparePipelineVersions_def generation_def Compare_def)

interpretation pipeline_versions: three_way ComparePipelineVersions
  using three_way_key [of generation] by (simp add: ComparePipelineVersions_generation [abs_def])

subsection \<open>Module versions\<close>

definition CompareModuleVersions ::
  "(string \<Rightarrow> bool) \<Rightarrow> (string \<Rightarrow> string \<Rightarrow> int) \<Rightarrow> string \<Rightarrow> string \<Rightarrow> int" where
  "CompareModuleVersions semver_IsValid semver_Compare a b =
     (let av = semver_IsValid a; bv = semver_IsValid b in
      if av \<and> bv then semver_Compare a b
      else if av then 1
      else if bv then -1
      else Compare a b)"

lemma CompareModuleVersions_three_way:
  assumes "three_way semver_Compare"
  shows "three_way (CompareModuleVersions semver_IsValid semver_Compare)"
proof (unfold_locales, goal_cases)
  case (1 b a)
  then show ?case
    using three_way.anti [OF assms, of b a] three_way.anti [OF three_way_key [of id], of b a]
    by (auto simp: CompareModuleVersions_def Let_def)
next
  case (2 a b c)
  then show ?case
    using three_way.le_trans [OF assms, of a b c] three_way.le_trans [OF three_way_key [of id], of a b c]
    by (auto simp: CompareModuleVersions_def Let_def split: if_splits)
qed

text \<open>
  C36: pipeline versions order by the numbers they state.  For all strings, of any length, the
  three-way comparison is the order of the generations the two versions denote: components
  compared as numbers (so "v10" is newer than "v9"), missing trailing components zero, an
  optional "v" ignored, and a version that states no number older than every one that does.
  It is therefore antisymmetric and transitive, as the sorts that use it need.
\<close>

theorem pipeline_versions_order:
  "ComparePipelineVersions a b = Compare (generation a) (generation b)
   \<and> ComparePipelineVersions b a = - ComparePipelineVersions a b
   \<and> (\<not> ComparePipelineVersions a b \<le> 0 \<or> \<not> ComparePipelineVersions b c \<le> 0
      \<or> ComparePipelineVersions a c \<le> 0)
   \<and> (generation ''v10'' = Some [10] \<and> generation ''9.0'' = Some [9])"
proof -
  have "generation ''v10'' = Some [10] \<and> generation ''9.0'' = Some [9]"
    by (simp add: generation_def pipelineComponents_def TrimPrefix_def HasPrefix_def is_digit_code
        digit_val_def Let_def)
  then show ?thesis
    using ComparePipelineVersions_generation pipeline_versions.anti pipeline_versions.le_trans
    by blast
qed

theorem pipeline_versions_order_witness: "ComparePipelineVersions ''v9'' ''v10'' = -1"
  using pipeline_versions_order [of "''v9''" "''v10''" "''v11''"]
  by (simp add: Compare_def generation_def pipelineComponents_def TrimPrefix_def HasPrefix_def is_digit_code
        digit_val_def Let_def)

text \<open>
  Module versions are totally preordered.  Given a semver comparison that is itself a
  total preorder, \<open>CompareModuleVersions\<close> is one over every string, valid or not, with every
  valid version above every invalid one and invalid ones compared as text.
\<close>

theorem module_versions_preorder:
  assumes "three_way semver_Compare"
  shows "(let cmp = CompareModuleVersions semver_IsValid semver_Compare in
      cmp b a = - cmp a b
      \<and> (cmp a b \<le> 0 \<and> cmp b c \<le> 0 \<longrightarrow> cmp a c \<le> 0)
      \<and> (semver_IsValid a \<and> \<not> semver_IsValid b \<longrightarrow> cmp b a < 0)
      \<and> (\<not> semver_IsValid a \<and> \<not> semver_IsValid b \<longrightarrow> cmp a b = Compare a b))"
proof -
  have "CompareModuleVersions semver_IsValid semver_Compare b a < 0"
    if "semver_IsValid a" "\<not> semver_IsValid b"
    using that by (simp add: CompareModuleVersions_def)
  moreover have "CompareModuleVersions semver_IsValid semver_Compare a b = Compare a b"
    if "\<not> semver_IsValid a" "\<not> semver_IsValid b"
    using that by (simp add: CompareModuleVersions_def)
  ultimately show ?thesis
    using three_way.anti [OF CompareModuleVersions_three_way [OF assms], of semver_IsValid b a]
      three_way.le_trans [OF CompareModuleVersions_three_way [OF assms], of semver_IsValid a b c]
    unfolding Let_def by blast
qed

theorem module_versions_preorder_witness:
  "CompareModuleVersions (\<lambda>s. hd s = CHR ''v'') (\<lambda>a b. Compare (length a) (length b)) ''x1'' ''v12'' < 0"
  using module_versions_preorder [OF three_way_key [of length],
      of "\<lambda>s. hd s = CHR ''v''" "''x1''" "''v12''" "''x''"]
  by (simp add: Let_def)

end
