(* ===== verification/Merkle.thy ===== *)
theory Merkle
  imports Prelude "HOL-Library.Word"
begin

text \<open>
  \<open>internal/fetch/domain/merkle.go\<close>: the RFC 6962 Merkle tree over the canonical digests of a
  selected record set, its inclusion proofs and their verification.

  The hash function (\<open>crypto/sha256\<close>) is the parameter \<open>H\<close>: the code uses only that it maps
  byte strings to 32-byte digests, and the theorems need no more of it, except that a soundness
  statement is about the absence of a collision among the byte strings actually hashed.  Go's
  \<open>int\<close> is \<open>int\<close> here: a slice of 24-byte headers has fewer than \<open>2 ^ 60\<close> elements, so neither
  the doubling in \<open>largestPowerOfTwoBelow\<close> nor the index arithmetic wraps.  The shifting loop
  of the verification stops only on a non-zero index, so it is a partial function, and that
  verification returns on every proof is a theorem.
\<close>

type_synonym byte = "8 word"
type_synonym bytes = "byte list"

definition merkleLeafPrefix :: byte where
  "merkleLeafPrefix = 0"

definition merkleNodePrefix :: byte where
  "merkleNodePrefix = 1"

datatype merkle_error = ErrEmptyMerkleSet | IndexOutOfRange int nat

record MerkleProof =
  Index :: int
  Size :: int
  Siblings :: "bytes list"

definition merkleLeafHash :: "(bytes \<Rightarrow> bytes) \<Rightarrow> bytes \<Rightarrow> bytes" where
  "merkleLeafHash H entry = H (merkleLeafPrefix # entry)"

definition merkleNodeHash :: "(bytes \<Rightarrow> bytes) \<Rightarrow> bytes \<Rightarrow> bytes \<Rightarrow> bytes" where
  "merkleNodeHash H left right = H (merkleNodePrefix # left @ right)"

text \<open>The loop \<open>for k<<1 < n { k <<= 1 }\<close>; it starts from 1.\<close>

function doubleBelow :: "nat \<Rightarrow> nat \<Rightarrow> nat" where
  "doubleBelow n k = (if 0 < k \<and> 2 * k < n then doubleBelow n (2 * k) else k)"
  by pat_completeness auto
termination
  by (relation "measure (\<lambda>(n, k). n - k)") auto

declare doubleBelow.simps [simp del]

definition largestPowerOfTwoBelow :: "nat \<Rightarrow> nat" where
  "largestPowerOfTwoBelow n = doubleBelow n 1"

lemma doubleBelow_power:
  assumes "2 ^ i < n"
  shows "\<exists>j. doubleBelow n (2 ^ i) = 2 ^ j \<and> 2 ^ j < n \<and> n \<le> 2 ^ Suc j"
  using assms
proof (induction "n - 2 ^ i" arbitrary: i rule: less_induct)
  case less
  show ?case
  proof (cases "2 ^ Suc i < n")
    case True
    have "n - 2 ^ Suc i < n - 2 ^ i"
      by (rule diff_less_mono2) (use True in \<open>auto intro: less_trans\<close>)
    from less.hyps [OF this True] True show ?thesis
      by (subst doubleBelow.simps) (simp add: mult.commute)
  next
    case False
    with less.prems show ?thesis
      by (subst doubleBelow.simps) (auto intro!: exI [of _ i])
  qed
qed

lemma largestPowerOfTwoBelow_power:
  "2 \<le> n \<Longrightarrow> \<exists>j. largestPowerOfTwoBelow n = 2 ^ j \<and> 2 ^ j < n \<and> n \<le> 2 ^ Suc j"
  using doubleBelow_power [of 0 n] by (simp add: largestPowerOfTwoBelow_def)

lemma largestPowerOfTwoBelow_bounds:
  assumes "2 \<le> n"
  shows "0 < largestPowerOfTwoBelow n" "largestPowerOfTwoBelow n < n"
  using largestPowerOfTwoBelow_power [OF assms] by auto

lemma split_shrinks:
  "\<not> n \<le> Suc 0 \<Longrightarrow> min n (largestPowerOfTwoBelow n) < n"
  "\<not> n \<le> Suc 0 \<Longrightarrow> n - largestPowerOfTwoBelow n < n"
  using largestPowerOfTwoBelow_bounds [of n] by auto

subsection \<open>The tree hash and the audit path\<close>

text \<open>
  \<open>merkleTreeHash\<close> and \<open>auditPath\<close> are reached with non-empty leaves only (\<open>MerkleRoot\<close> and
  \<open>BuildMerkleProof\<close> refuse the empty set first), so their value at \<open>[]\<close> is never read.
\<close>

function merkleTreeHash :: "(bytes \<Rightarrow> bytes) \<Rightarrow> bytes list \<Rightarrow> bytes" where
  "merkleTreeHash H leaves =
     (if length leaves \<le> 1 then merkleLeafHash H (hd leaves)
      else let k = largestPowerOfTwoBelow (length leaves) in
           merkleNodeHash H (merkleTreeHash H (take k leaves)) (merkleTreeHash H (drop k leaves)))"
  by pat_completeness auto
termination
  by (relation "measure (\<lambda>(H, leaves). length leaves)") (use split_shrinks in auto)

function auditPath :: "(bytes \<Rightarrow> bytes) \<Rightarrow> nat \<Rightarrow> bytes list \<Rightarrow> bytes list" where
  "auditPath H m leaves =
     (if length leaves \<le> 1 then []
      else let k = largestPowerOfTwoBelow (length leaves) in
           if m < k then auditPath H m (take k leaves) @ [merkleTreeHash H (drop k leaves)]
           else auditPath H (m - k) (drop k leaves) @ [merkleTreeHash H (take k leaves)])"
  by pat_completeness auto
termination
  by (relation "measure (\<lambda>(H, m, leaves). length leaves)") (use split_shrinks in auto)

declare merkleTreeHash.simps [simp del] auditPath.simps [simp del]

definition MerkleRoot :: "(bytes \<Rightarrow> bytes) \<Rightarrow> bytes list \<Rightarrow> merkle_error + bytes" where
  "MerkleRoot H leaves =
     (if leaves = [] then Inl ErrEmptyMerkleSet else Inr (merkleTreeHash H leaves))"

definition BuildMerkleProof ::
  "(bytes \<Rightarrow> bytes) \<Rightarrow> bytes list \<Rightarrow> int \<Rightarrow> merkle_error + MerkleProof" where
  "BuildMerkleProof H leaves index =
     (if leaves = [] then Inl ErrEmptyMerkleSet
      else if index < 0 \<or> index \<ge> int (length leaves)
      then Inl (IndexOutOfRange index (length leaves))
      else Inr \<lparr>Index = index, Size = int (length leaves),
                Siblings = auditPath H (nat index) leaves\<rparr>)"

subsection \<open>Verification\<close>

text \<open>The inner loop \<open>for fn%2 == 0 { fn >>= 1; sn >>= 1 }\<close>: it does not return at \<open>fn = 0\<close>.\<close>

partial_function (option) evenShift :: "int \<Rightarrow> int \<Rightarrow> (int \<times> int) option" where
  "evenShift fn sn = (if fn mod 2 = 0 then evenShift (fn div 2) (sn div 2) else Some (fn, sn))"

text \<open>
  The loop over the siblings: \<open>TooMany\<close> is its early return, \<open>Replayed fn sn r\<close> the variables
  after it.
\<close>

datatype replay = TooMany | Replayed int int bytes

fun merkleReplay ::
  "(bytes \<Rightarrow> bytes) \<Rightarrow> bytes list \<Rightarrow> int \<Rightarrow> int \<Rightarrow> bytes \<Rightarrow> replay option" where
  "merkleReplay H [] fn sn r = Some (Replayed fn sn r)"
| "merkleReplay H (sib # sibs) fn sn r =
     (if sn = 0 then Some TooMany
      else if fn mod 2 = 1 \<or> fn = sn
      then (case evenShift fn sn of
              None \<Rightarrow> None
            | Some (fn', sn') \<Rightarrow>
                merkleReplay H sibs (fn' div 2) (sn' div 2) (merkleNodeHash H sib r))
      else merkleReplay H sibs (fn div 2) (sn div 2) (merkleNodeHash H r sib))"

definition VerifyMerkleProof ::
  "(bytes \<Rightarrow> bytes) \<Rightarrow> bytes \<Rightarrow> MerkleProof \<Rightarrow> bytes \<Rightarrow> bool option" where
  "VerifyMerkleProof H entry proof root =
     (if Index proof < 0 \<or> Index proof \<ge> Size proof then Some False
      else case merkleReplay H (Siblings proof) (Index proof) (Size proof - 1) (merkleLeafHash H entry) of
             None \<Rightarrow> None
           | Some TooMany \<Rightarrow> Some False
           | Some (Replayed fn sn r) \<Rightarrow> Some (sn = 0 \<and> r = root))"

subsection \<open>Verification returns\<close>

lemma evenShift_odd: "fn mod 2 = 1 \<Longrightarrow> evenShift fn sn = Some (fn, sn)"
  by (subst evenShift.simps) simp

lemma evenShift_double: "evenShift (2 * fn) (2 * sn) = evenShift fn sn"
  by (subst evenShift.simps) simp

lemma evenShift_power: "q mod 2 = 1 \<Longrightarrow> evenShift (2 ^ e * q) (2 ^ e * q) = Some (q, q)"
  by (induction e) (auto simp: evenShift_odd evenShift_double mult.assoc)

lemma evenShift_returns:
  assumes "fn \<noteq> 0"
  shows "\<exists>fn' sn'. evenShift fn sn = Some (fn', sn')"
  using assms
proof (induction "nat \<bar>fn\<bar>" arbitrary: fn sn rule: less_induct)
  case less
  show ?case
  proof (cases "fn mod 2 = 0")
    case True
    then obtain h where h: "fn = 2 * h" by (metis mod_0_imp_dvd dvdE)
    with less.prems have "fn div 2 \<noteq> 0" "nat \<bar>fn div 2\<bar> < nat \<bar>fn\<bar>" by auto
    from less.hyps [OF this(2,1)] True show ?thesis by (subst evenShift.simps) simp
  next
    case False
    then show ?thesis by (subst evenShift.simps) simp
  qed
qed

lemma merkleReplay_returns: "\<exists>z. merkleReplay H sibs fn sn r = Some z"
proof (induction sibs arbitrary: fn sn r)
  case (Cons sib sibs)
  show ?case
  proof (cases "sn = 0 \<or> \<not> (fn mod 2 = 1 \<or> fn = sn)")
    case True
    with Cons show ?thesis by auto
  next
    case False
    then have "fn \<noteq> 0" by auto
    then obtain f s where "evenShift fn sn = Some (f, s)" using evenShift_returns by blast
    with False Cons show ?thesis by auto
  qed
qed simp

text \<open>
  C39: verification is total.  On every entry, every proof (any index, size and siblings, as an
  untrusted party may send them) and every root, \<open>VerifyMerkleProof\<close> returns an answer.
\<close>

theorem verify_returns: "\<exists>b. VerifyMerkleProof H entry prf root = Some b"
  using merkleReplay_returns [of H "Siblings prf" "Index prf" "Size prf - 1" "merkleLeafHash H entry"]
  by (auto simp: VerifyMerkleProof_def split: replay.splits)

subsection \<open>Completeness\<close>

lemma merkleReplay_append:
  "merkleReplay H xs fn sn r = Some (Replayed f s z) \<Longrightarrow>
   merkleReplay H (xs @ ys) fn sn r = merkleReplay H ys f s z"
  by (induction H xs fn sn r rule: merkleReplay.induct) (auto split: if_splits option.splits)

lemma tree_single: "merkleTreeHash H [x] = merkleLeafHash H x" "auditPath H m [x] = []"
  by (simp_all add: merkleTreeHash.simps auditPath.simps)

lemma tree_split:
  assumes "largestPowerOfTwoBelow (length D) = k" "2 \<le> length D"
  shows "merkleTreeHash H D = merkleNodeHash H (merkleTreeHash H (take k D)) (merkleTreeHash H (drop k D))"
    and "auditPath H m D = (if m < k then auditPath H m (take k D) @ [merkleTreeHash H (drop k D)]
           else auditPath H (m - k) (drop k D) @ [merkleTreeHash H (take k D)])"
  using assms merkleTreeHash.simps [of H D] auditPath.simps [of H m D] by (simp_all add: Let_def)

lemma largestPowerOfTwoBelow_unique:
  assumes "2 ^ j < n" "n \<le> 2 ^ Suc j"
  shows "largestPowerOfTwoBelow n = 2 ^ j"
proof -
  have "2 \<le> n" using assms(1) one_le_power [of "2 :: nat" j] by linarith
  then obtain i where i: "largestPowerOfTwoBelow n = 2 ^ i" "2 ^ i < n" "n \<le> 2 ^ Suc i"
    using largestPowerOfTwoBelow_power by blast
  then have "(2::nat) ^ i < 2 ^ Suc j" "(2::nat) ^ j < 2 ^ Suc i" using assms by linarith+
  then have "i < Suc j" "j < Suc i" by (auto dest!: power_less_imp_less_exp [rotated] simp del: power_Suc)
  then have "i = j" by simp
  with i show ?thesis by simp
qed

text \<open>Inside a complete subtree the index stays strictly left of the last one.\<close>

lemma replay_complete:
  assumes "length D = 2 ^ j" "m < 2 ^ j" "0 \<le> a" "a < b" "0 \<le> s" "s < 2 ^ j"
  shows "merkleReplay H (auditPath H m D) (int m + 2 ^ j * a) (s + 2 ^ j * b) (merkleLeafHash H (D ! m))
       = Some (Replayed a b (merkleTreeHash H D))"
  using assms
proof (induction j arbitrary: D m a b s)
  case 0
  then obtain x where "D = [x]" by (auto simp: length_Suc_conv)
  with 0 show ?case by (simp add: tree_single)
next
  case (Suc j)
  let ?k = "2 ^ j :: nat"
  let ?L = "take ?k D" and ?R = "drop ?k D"
  have k: "largestPowerOfTwoBelow (length D) = ?k" "2 \<le> length D"
    using Suc.prems(1) largestPowerOfTwoBelow_unique [of j "length D"] one_le_power [of "2 :: nat" j]
    by auto
  note split = tree_split [OF k]
  have len: "length ?L = ?k" "length ?R = ?k" using Suc.prems(1) by simp_all
  define s0 where "s0 = s mod 2 ^ j"
  define s1 where "s1 = s div 2 ^ j"
  have s: "s = s0 + 2 ^ j * s1" "0 \<le> s0" "s0 < 2 ^ j" by (simp_all add: s0_def s1_def)
  have "s1 < 2"
  proof (rule ccontr)
    assume "\<not> s1 < 2"
    then have "2 ^ j * 2 \<le> 2 ^ j * s1" by (intro mult_left_mono) auto
    with s Suc.prems(6) show False by simp
  qed
  then have s1: "0 \<le> s1" "s1 \<le> 1" using Suc.prems(5) by (simp_all add: s1_def pos_imp_zdiv_nonneg_iff)
  have sn: "s + 2 ^ Suc j * b = s0 + 2 ^ j * (2 * b + s1)" using s by (simp add: algebra_simps)
  have half: "(2 * b + s1) div 2 = b" using s1 by presburger
  show ?case
  proof (cases "m < ?k")
    case True
    have "merkleReplay H (auditPath H m ?L) (int m + 2 ^ j * (2 * a)) (s0 + 2 ^ j * (2 * b + s1))
        (merkleLeafHash H (?L ! m)) = Some (Replayed (2 * a) (2 * b + s1) (merkleTreeHash H ?L))"
      by (rule Suc.IH) (use Suc.prems len True s s1 in auto)
    note left = merkleReplay_append [OF this]
    have fn: "int m + 2 ^ Suc j * a = int m + 2 ^ j * (2 * a)" by simp
    have leaf: "?L ! m = D ! m" using True by simp
    show ?thesis
      unfolding split(2) fn sn if_P [OF True] left [unfolded leaf]
      using Suc.prems(3,4) s1 half by (auto simp: split(1))
  next
    case False
    have at: "?R ! (m - ?k) = D ! m" using False Suc.prems by simp
    have fn: "int m + 2 ^ Suc j * a = int (m - ?k) + 2 ^ j * (2 * a + 1)"
      using False by (simp add: algebra_simps of_nat_diff)
    have "merkleReplay H (auditPath H (m - ?k) ?R) (int (m - ?k) + 2 ^ j * (2 * a + 1))
        (s0 + 2 ^ j * (2 * b + s1)) (merkleLeafHash H (?R ! (m - ?k)))
        = Some (Replayed (2 * a + 1) (2 * b + s1) (merkleTreeHash H ?R))"
      by (rule Suc.IH) (use Suc.prems len False s s1 in auto)
    note right = merkleReplay_append [OF this]
    show ?thesis
      unfolding split(2) fn sn if_not_P [OF False] right [unfolded at]
      using Suc.prems(3,4) s1 half by (auto simp: split(1) evenShift_odd)
  qed
qed


text \<open>On the right edge the index and the last index coincide, up to the shifts still pending.\<close>

lemma replay_edge:
  assumes "0 < length D" "length D \<le> 2 ^ j" "m < length D" "0 \<le> a"
  shows "\<exists>e. merkleReplay H (auditPath H m D) (int m + 2 ^ j * a) (int (length D) - 1 + 2 ^ j * a)
           (merkleLeafHash H (D ! m)) = Some (Replayed (2 ^ e * a) (2 ^ e * a) (merkleTreeHash H D))"
  using assms
proof (induction j arbitrary: D m a)
  case 0
  then obtain x where "D = [x]" by (cases D) auto
  with 0 show ?case by (auto simp: tree_single intro: exI [of _ 0])
next
  case (Suc j)
  let ?k = "2 ^ j :: nat"
  let ?L = "take ?k D" and ?R = "drop ?k D"
  have pull: "x + 2 ^ Suc j * a = x + 2 ^ j * (2 * a)" for x :: int by simp
  show ?case
  proof (cases "length D \<le> ?k")
    case True
    have "0 \<le> 2 * a" using Suc.prems(4) by simp
    from Suc.IH [OF Suc.prems(1) True Suc.prems(3) this] obtain e where
      "merkleReplay H (auditPath H m D) (int m + 2 ^ j * (2 * a))
         (int (length D) - 1 + 2 ^ j * (2 * a)) (merkleLeafHash H (D ! m))
       = Some (Replayed (2 ^ e * (2 * a)) (2 ^ e * (2 * a)) (merkleTreeHash H D))" by blast
    then show ?thesis unfolding pull by (intro exI [of _ "Suc e"]) simp
  next
    case False
    then have k: "largestPowerOfTwoBelow (length D) = ?k" "2 \<le> length D"
      using Suc.prems(2) largestPowerOfTwoBelow_unique [of j "length D"] one_le_power [of "2 :: nat" j]
      by auto
    note split = tree_split [OF k]
    have "int (length D) \<le> int (2 ^ Suc j)" using Suc.prems(2) by (simp only: of_nat_le_iff)
    then have len: "int (length D) \<le> 2 * 2 ^ j" by simp
    show ?thesis
    proof (cases "m < ?k")
      case True
      have leaf: "?L ! m = D ! m" using True by simp
      have sn: "int (length D) - 1 + 2 ^ Suc j * a = int (length D - ?k) - 1 + 2 ^ j * (2 * a + 1)"
        using False by (simp add: algebra_simps of_nat_diff)
      have "merkleReplay H (auditPath H m ?L) (int m + 2 ^ j * (2 * a))
          (int (length D - ?k) - 1 + 2 ^ j * (2 * a + 1)) (merkleLeafHash H (?L ! m))
        = Some (Replayed (2 * a) (2 * a + 1) (merkleTreeHash H ?L))"
        by (rule replay_complete) (use Suc.prems False True len in \<open>auto simp: of_nat_diff\<close>)
      note left = merkleReplay_append [OF this]
      show ?thesis
        unfolding split(2) sn if_P [OF True] left [unfolded leaf] unfolding pull left [unfolded leaf]
        using Suc.prems(4) by (intro exI [of _ 0]) (auto simp: split(1))
    next
      case right: False
      have leaf: "?R ! (m - ?k) = D ! m" using right Suc.prems by simp
      have fn: "int m + 2 ^ Suc j * a = int (m - ?k) + 2 ^ j * (2 * a + 1)"
        using right by (simp add: algebra_simps of_nat_diff)
      have sn: "int (length D) - 1 + 2 ^ Suc j * a = int (length ?R) - 1 + 2 ^ j * (2 * a + 1)"
        using False by (simp add: algebra_simps of_nat_diff)
      have "\<exists>e. merkleReplay H (auditPath H (m - ?k) ?R) (int (m - ?k) + 2 ^ j * (2 * a + 1))
          (int (length ?R) - 1 + 2 ^ j * (2 * a + 1)) (merkleLeafHash H (?R ! (m - ?k)))
        = Some (Replayed (2 ^ e * (2 * a + 1)) (2 ^ e * (2 * a + 1)) (merkleTreeHash H ?R))"
        by (rule Suc.IH) (use Suc.prems False right in auto)
      then obtain e where e: "merkleReplay H (auditPath H (m - ?k) ?R) (int (m - ?k) + 2 ^ j * (2 * a + 1))
          (int (length ?R) - 1 + 2 ^ j * (2 * a + 1)) (merkleLeafHash H (D ! m))
        = Some (Replayed (2 ^ e * (2 * a + 1)) (2 ^ e * (2 * a + 1)) (merkleTreeHash H ?R))"
        unfolding leaf by blast
      have shift: "evenShift (2 ^ e * (2 * a + 1)) (2 ^ e * (2 * a + 1)) = Some (2 * a + 1, 2 * a + 1)"
        by (rule evenShift_power) simp
      have "2 ^ e * (2 * a + 1) \<noteq> 0" using Suc.prems(4) by simp
      then show ?thesis
        unfolding split(2) fn sn if_not_P [OF right] merkleReplay_append [OF e]
        by (intro exI [of _ 0]) (simp add: shift split(1))
    qed
  qed
qed

lemma less_exp: "n \<le> 2 ^ n" for n :: nat
  using less_exp [of n] by (rule less_imp_le)

lemma replay_honest:
  assumes "m < length D"
  shows "merkleReplay H (auditPath H m D) (int m) (int (length D) - 1) (merkleLeafHash H (D ! m))
       = Some (Replayed 0 0 (merkleTreeHash H D))"
proof -
  have "0 < length D" using assms by linarith
  from replay_edge [OF this less_exp assms, of 0 H] show ?thesis by simp
qed

text \<open>
  C1: completeness of inclusion proofs.  For every non-empty leaf list and every index in range,
  the proof \<open>BuildMerkleProof\<close> returns verifies, for the leaf at that index, against the root
  \<open>MerkleRoot\<close> returns; whatever the hash function.
\<close>

theorem merkle_proof_complete:
  assumes "BuildMerkleProof H leaves i = Inr p"
  shows "\<exists>root. MerkleRoot H leaves = Inr root
           \<and> VerifyMerkleProof H (leaves ! nat i) p root = Some True"
proof -
  from assms have i: "leaves \<noteq> []" "0 \<le> i" "nat i < length leaves"
    and p: "p = \<lparr>Index = i, Size = int (length leaves), Siblings = auditPath H (nat i) leaves\<rparr>"
    by (auto simp: BuildMerkleProof_def split: if_splits)
  with replay_honest [of "nat i" leaves H] show ?thesis
    by (simp add: MerkleRoot_def VerifyMerkleProof_def)
qed

definition sha_stub :: "bytes \<Rightarrow> bytes" where
  "sha_stub x = take 32 (x @ replicate 32 7)"

theorem merkle_proof_complete_witness:
  "\<exists>root. MerkleRoot sha_stub [[1], [2], [3]] = Inr root
     \<and> VerifyMerkleProof sha_stub ([[1], [2], [3]] ! nat 1)
         \<lparr>Index = 1, Size = 3, Siblings = auditPath sha_stub 1 [[1], [2], [3]]\<rparr> root = Some True"
  by (rule merkle_proof_complete) (simp add: BuildMerkleProof_def)

subsection \<open>Soundness\<close>

text \<open>
  The byte strings a verification hashes.  Second-preimage resistance is used in this form: the
  hash has no collision among the strings hashed by the proof at hand and by the honest one.
\<close>

fun replayHashed ::
  "(bytes \<Rightarrow> bytes) \<Rightarrow> bytes list \<Rightarrow> int \<Rightarrow> int \<Rightarrow> bytes \<Rightarrow> bytes set" where
  "replayHashed H [] fn sn r = {}"
| "replayHashed H (sib # sibs) fn sn r =
     (if sn = 0 then {}
      else if fn mod 2 = 1 \<or> fn = sn
      then (case evenShift fn sn of
              None \<Rightarrow> {}
            | Some (fn', sn') \<Rightarrow> insert (merkleNodePrefix # sib @ r)
                (replayHashed H sibs (fn' div 2) (sn' div 2) (merkleNodeHash H sib r)))
      else insert (merkleNodePrefix # r @ sib)
             (replayHashed H sibs (fn div 2) (sn div 2) (merkleNodeHash H r sib)))"

definition hashedBy :: "(bytes \<Rightarrow> bytes) \<Rightarrow> bytes \<Rightarrow> MerkleProof \<Rightarrow> bytes set" where
  "hashedBy H entry p = insert (merkleLeafPrefix # entry)
     (replayHashed H (Siblings p) (Index p) (Size p - 1) (merkleLeafHash H entry))"

text \<open>The control flow does not look at the hashes: which step runs depends on the indices alone.\<close>

lemma replay_counts:
  assumes "merkleReplay H xs fn sn r = Some (Replayed f 0 z)"
    and "merkleReplay H ys fn sn r' = Some (Replayed f' 0 z')"
  shows "length xs = length ys"
  using assms
proof (induction H xs fn sn r arbitrary: ys r' rule: merkleReplay.induct)
  case (1 H fn sn r)
  then show ?case by (cases ys) auto
next
  case (2 H x xs fn sn r)
  then show ?case by (cases ys) (auto split: if_splits option.splits)
qed

lemma replay_injective:
  assumes "length xs = length ys" "length r = length r'" "\<And>x. length (H x) = length r"
    and "merkleReplay H xs fn sn r = Some (Replayed f s z)"
    and "merkleReplay H ys fn sn r' = Some (Replayed f' s' z)"
    and "inj_on H (replayHashed H xs fn sn r \<union> replayHashed H ys fn sn r')"
  shows "xs = ys \<and> r = r'"
  using assms
proof (induction xs ys arbitrary: fn sn r r' rule: list_induct2)
  case (Cons x xs y ys)
  have sn: "sn \<noteq> 0" using Cons.prems(3) by (auto split: if_splits)
  show ?case
  proof (cases "fn mod 2 = 1 \<or> fn = sn")
    case True
    then have "fn \<noteq> 0" using sn by auto
    then obtain f1 s1 where e: "evenShift fn sn = Some (f1, s1)" using evenShift_returns by blast
    let ?r = "merkleNodeHash H x r" and ?r' = "merkleNodeHash H y r'"
    let ?S = "replayHashed H xs (f1 div 2) (s1 div 2) ?r \<union> replayHashed H ys (f1 div 2) (s1 div 2) ?r'"
    have inj: "inj_on H (insert (merkleNodePrefix # x @ r) (insert (merkleNodePrefix # y @ r') ?S))"
      by (rule inj_on_subset [OF Cons.prems(5)]) (use sn True e in auto)
    have "xs = ys \<and> ?r = ?r'"
    proof (rule Cons.IH)
      show "merkleReplay H xs (f1 div 2) (s1 div 2) ?r = Some (Replayed f s z)"
        "merkleReplay H ys (f1 div 2) (s1 div 2) ?r' = Some (Replayed f' s' z)"
        using Cons.prems(3,4) sn True e by simp_all
      show "inj_on H ?S" using inj by (rule inj_on_subset) blast
    qed (simp_all only: merkleNodeHash_def Cons.prems(2))
    then have "xs = ys" "merkleNodePrefix # x @ r = merkleNodePrefix # y @ r'"
      using inj_onD [OF inj, of "merkleNodePrefix # x @ r" "merkleNodePrefix # y @ r'"]
      by (simp_all only: merkleNodeHash_def insertI1 insertI2 simp_thms)
    then show ?thesis using Cons.prems(1) by simp
  next
    case False
    let ?r = "merkleNodeHash H r x" and ?r' = "merkleNodeHash H r' y"
    let ?S = "replayHashed H xs (fn div 2) (sn div 2) ?r \<union> replayHashed H ys (fn div 2) (sn div 2) ?r'"
    have inj: "inj_on H (insert (merkleNodePrefix # r @ x) (insert (merkleNodePrefix # r' @ y) ?S))"
      by (rule inj_on_subset [OF Cons.prems(5)]) (use sn False in auto)
    have "xs = ys \<and> ?r = ?r'"
    proof (rule Cons.IH)
      show "merkleReplay H xs (fn div 2) (sn div 2) ?r = Some (Replayed f s z)"
        "merkleReplay H ys (fn div 2) (sn div 2) ?r' = Some (Replayed f' s' z)"
        using Cons.prems(3,4) sn False by simp_all
      show "inj_on H ?S" using inj by (rule inj_on_subset) blast
    qed (simp_all only: merkleNodeHash_def Cons.prems(2))
    then have "xs = ys" "merkleNodePrefix # r @ x = merkleNodePrefix # r' @ y"
      using inj_onD [OF inj, of "merkleNodePrefix # r @ x" "merkleNodePrefix # r' @ y"]
      by (simp_all only: merkleNodeHash_def insertI1 insertI2 simp_thms)
    then show ?thesis using Cons.prems(1) by simp
  qed
qed simp

text \<open>
  C2: soundness of inclusion proofs whose size is that of the list the root was computed over.  If an entry verifies
  against the root of a leaf list, with a proof whose stated size is the number of those leaves, then
  the entry is the leaf at the claimed index and the proof's siblings are the honest ones, as
  long as the hash returns 32 bytes and does not collide on the strings the two
  verifications hash.  A verifier has to know the size from elsewhere: \<open>proof_replayed\<close> below shows a
  proof accepted at another index when the size is the proof's own claim.
\<close>

theorem merkle_proof_sound:
  assumes "MerkleRoot H leaves = Inr root" "VerifyMerkleProof H entry p root = Some True"
    and "Size p = int (length leaves)" "\<And>x. length (H x) = 32"
    and "BuildMerkleProof H leaves (Index p) = Inr q"
    and "inj_on H (hashedBy H entry p \<union> hashedBy H (leaves ! nat (Index p)) q)"
  shows "entry = leaves ! nat (Index p) \<and> p = q"
proof -
  let ?m = "nat (Index p)"
  have i: "0 \<le> Index p" "?m < length leaves"
    and q: "q = \<lparr>Index = Index p, Size = int (length leaves), Siblings = auditPath H ?m leaves\<rparr>"
    and root: "root = merkleTreeHash H leaves"
    using assms(1,5) by (auto simp: MerkleRoot_def BuildMerkleProof_def split: if_splits)
  obtain f where run: "merkleReplay H (Siblings p) (Index p) (int (length leaves) - 1)
      (merkleLeafHash H entry) = Some (Replayed f 0 root)"
    using assms(2,3) by (auto simp: VerifyMerkleProof_def split: if_splits option.splits replay.splits)
  have honest: "merkleReplay H (auditPath H ?m leaves) (Index p) (int (length leaves) - 1)
      (merkleLeafHash H (leaves ! ?m)) = Some (Replayed 0 0 root)"
    using replay_honest [OF i(2), of H] i root by simp
  have hashed: "hashedBy H entry p = insert (merkleLeafPrefix # entry)
        (replayHashed H (Siblings p) (Index p) (int (length leaves) - 1) (merkleLeafHash H entry))"
    "hashedBy H (leaves ! ?m) q = insert (merkleLeafPrefix # leaves ! ?m)
        (replayHashed H (auditPath H ?m leaves) (Index p) (int (length leaves) - 1)
          (merkleLeafHash H (leaves ! ?m)))"
    using assms(3) by (simp_all add: hashedBy_def q)
  have "inj_on H (replayHashed H (Siblings p) (Index p) (int (length leaves) - 1) (merkleLeafHash H entry)
      \<union> replayHashed H (auditPath H ?m leaves) (Index p) (int (length leaves) - 1)
          (merkleLeafHash H (leaves ! ?m)))"
    by (rule inj_on_subset [OF assms(6)]) (simp only: hashed, blast)
  note inj = replay_injective [OF replay_counts [OF run honest] _ _ run honest this]
  have "length (merkleLeafHash H entry) = length (merkleLeafHash H (leaves ! ?m))"
    "\<And>x. length (H x) = length (merkleLeafHash H entry)"
    by (simp_all only: merkleLeafHash_def assms(4))
  note same = inj [OF this]
  then have "H (merkleLeafPrefix # entry) = H (merkleLeafPrefix # leaves ! ?m)"
    by (simp only: merkleLeafHash_def)
  from inj_onD [OF assms(6) this] have "merkleLeafPrefix # entry = merkleLeafPrefix # leaves ! ?m"
    by (simp only: hashed Un_iff insert_iff simp_thms)
  moreover have "p = q" using same assms(3) q by simp
  ultimately show ?thesis by simp
qed

theorem merkle_proof_sound_witness:
  "([2] :: bytes) = [[1], [2]] ! nat (Index \<lparr>Index = 1, Size = 2, Siblings = [sha_stub [0, 1]]\<rparr>)
   \<and> \<lparr>Index = 1, Size = 2, Siblings = [sha_stub [0, 1]]\<rparr>
     = \<lparr>Index = 1, Size = 2, Siblings = [sha_stub [0, 1]]\<rparr>"
proof (rule merkle_proof_sound [where H = sha_stub and root = "sha_stub (1 # sha_stub [0, 1] @ sha_stub [0, 2])"])
  have k: "largestPowerOfTwoBelow 2 = 1"
    by (simp add: largestPowerOfTwoBelow_def doubleBelow.simps)
  note defs = merkleTreeHash.simps auditPath.simps merkleLeafHash_def merkleNodeHash_def
    merkleLeafPrefix_def merkleNodePrefix_def k numeral_2_eq_2 [symmetric]
  show "MerkleRoot sha_stub [[1], [2]] = Inr (sha_stub (1 # sha_stub [0, 1] @ sha_stub [0, 2]))"
    by (simp add: MerkleRoot_def defs)
  show "BuildMerkleProof sha_stub [[1], [2]] (Index \<lparr>Index = 1, Size = 2, Siblings = [sha_stub [0, 1]]\<rparr>)
      = Inr \<lparr>Index = 1, Size = 2, Siblings = [sha_stub [0, 1]]\<rparr>"
    by (simp add: BuildMerkleProof_def defs)
  show "VerifyMerkleProof sha_stub [2] \<lparr>Index = 1, Size = 2, Siblings = [sha_stub [0, 1]]\<rparr>
      (sha_stub (1 # sha_stub [0, 1] @ sha_stub [0, 2])) = Some True"
    by (simp add: VerifyMerkleProof_def evenShift_odd defs)
  show "length (sha_stub x) = 32" for x by (simp add: sha_stub_def)
  show "inj_on sha_stub (hashedBy sha_stub [2] \<lparr>Index = 1, Size = 2, Siblings = [sha_stub [0, 1]]\<rparr>
      \<union> hashedBy sha_stub ([[1], [2]] ! nat (Index \<lparr>Index = 1, Size = 2, Siblings = [sha_stub [0, 1]]\<rparr>))
          \<lparr>Index = 1, Size = 2, Siblings = [sha_stub [0, 1]]\<rparr>)"
    by (simp add: hashedBy_def evenShift_odd defs) (simp add: sha_stub_def)
qed simp_all

subsection \<open>A proof at another position\<close>

text \<open>
  The size a proof states is not bound by the root.  Whatever the hash is, the proof of the third of
  three leaves, restated as the proof of the second of two, verifies against the same root.
\<close>

theorem proof_replayed:
  assumes "BuildMerkleProof H [a, b, c] 2 = Inr p" "MerkleRoot H [a, b, c] = Inr root"
  shows "Index p = 2 \<and> Size p = 3 \<and> VerifyMerkleProof H c p root = Some True
    \<and> VerifyMerkleProof H c (p\<lparr>Index := 1, Size := 2\<rparr>) root = Some True"
proof -
  have k: "largestPowerOfTwoBelow 3 = 2" "largestPowerOfTwoBelow 2 = 1"
    by (simp_all add: largestPowerOfTwoBelow_def doubleBelow.simps)
  note defs = merkleTreeHash.simps auditPath.simps k numeral_2_eq_2 [symmetric] numeral_3_eq_3 [symmetric]
  have p: "p = \<lparr>Index = 2, Size = 3, Siblings = [merkleNodeHash H (merkleLeafHash H a) (merkleLeafHash H b)]\<rparr>"
    using assms(1) by (simp add: BuildMerkleProof_def defs)
  have root: "root = merkleNodeHash H (merkleNodeHash H (merkleLeafHash H a) (merkleLeafHash H b)) (merkleLeafHash H c)"
    using assms(2) by (simp add: MerkleRoot_def defs)
  have "evenShift 2 2 = Some (1, 1)" using evenShift_double [of 1 1] by (simp add: evenShift_odd)
  then show ?thesis unfolding p root by (simp add: VerifyMerkleProof_def evenShift_odd)
qed

theorem proof_replayed_witness:
  "VerifyMerkleProof sha_stub [3] (\<lparr>Index = 2, Size = 3, Siblings = auditPath sha_stub 2 [[1], [2], [3]]\<rparr>\<lparr>Index := 1, Size := 2\<rparr>)
     (merkleTreeHash sha_stub [[1], [2], [3]]) = Some True"
  using proof_replayed [of sha_stub "[1]" "[2]" "[3]" "\<lparr>Index = 2, Size = 3, Siblings = auditPath sha_stub 2 [[1], [2], [3]]\<rparr>"
      "merkleTreeHash sha_stub [[1], [2], [3]]"]
  by (simp add: BuildMerkleProof_def MerkleRoot_def)

subsection \<open>Proofs are logarithmic\<close>

lemma auditPath_length:
  "0 < length D \<Longrightarrow> length D \<le> 2 ^ j \<Longrightarrow> length (auditPath H m D) \<le> j"
proof (induction j arbitrary: D m)
  case 0
  then show ?case by (simp add: auditPath.simps)
next
  case (Suc j)
  show ?case
  proof (cases "length D \<le> 2 ^ j")
    case True
    with Suc.IH [of D m] Suc.prems show ?thesis by simp
  next
    case False
    then have k: "largestPowerOfTwoBelow (length D) = 2 ^ j" "2 \<le> length D"
      using Suc.prems(2) largestPowerOfTwoBelow_unique [of j "length D"] one_le_power [of "2 :: nat" j]
      by auto
    have "length (auditPath H i (take (2 ^ j) D)) \<le> j" "length (auditPath H i (drop (2 ^ j) D)) \<le> j" for i
      by (rule Suc.IH; use False Suc.prems in auto)+
    then show ?thesis by (simp add: tree_split(2) [OF k])
  qed
qed

text \<open>
  C40: inclusion proofs are logarithmic.  A proof over at most \<open>2 ^ j\<close> leaves carries at most
  \<open>j\<close> sibling hashes.
\<close>

theorem merkle_proof_size:
  assumes "BuildMerkleProof H leaves i = Inr p" "length leaves \<le> 2 ^ j"
  shows "length (Siblings p) \<le> j"
  using assms auditPath_length [of leaves j H "nat i"]
  by (auto simp: BuildMerkleProof_def split: if_splits)

theorem merkle_proof_size_witness:
  "length (Siblings \<lparr>Index = 1, Size = 3, Siblings = auditPath sha_stub 1 [[1], [2], [3]]\<rparr>) \<le> 2"
  by (rule merkle_proof_size [of sha_stub "[[1], [2], [3]]" 1]) (simp_all add: BuildMerkleProof_def)

end
