(* ===== verification/Ledger.thy ===== *)
theory Ledger
  imports Sorting_Go
begin

text \<open>
  Every ledger of the program is append-only and holds several records of one subject; a read
  orders them by the ledger's \<open>servesBefore\<close> and serves the first.  The locale \<open>serving\<close> states
  what a composition asks of its comparator and proves once what it may then promise of the
  record served; \<open>sealed_serving\<close> adds that records the comparator cannot tell apart carry the same
  seal (their content hash), which makes the answer independent of the order the rows are read
  in.  Each ledger interprets the locale on its own comparator.
\<close>

definition serve :: "('a \<Rightarrow> 'a \<Rightarrow> bool) \<Rightarrow> 'a list \<Rightarrow> 'a" where
  "serve before records = hd (stable_sort before records)"

locale serving =
  fixes before :: "'a \<Rightarrow> 'a \<Rightarrow> bool"
  assumes order: "swo before"
begin

lemma served_in: "records \<noteq> [] \<Longrightarrow> serve before records \<in> set records"
  unfolding serve_def by (rule hd_stable_sort_in)

lemma nothing_before_served: "r \<in> set records \<Longrightarrow> \<not> before r (serve before records)"
  unfolding serve_def by (rule hd_stable_sort_least [OF order])

text \<open>A property the comparator ranks first is served whenever some record has it.\<close>

lemma served_prefers:
  assumes "\<And>a b. P a \<Longrightarrow> \<not> P b \<Longrightarrow> before a b" "r \<in> set records" "P r"
  shows "P (serve before records)"
  using assms nothing_before_served [OF assms(2)] by blast

end

locale sealed_serving = serving before for before :: "'a \<Rightarrow> 'a \<Rightarrow> bool" +
  fixes seal :: "'a \<Rightarrow> 'k"
  assumes tie: "\<not> before a b \<Longrightarrow> \<not> before b a \<Longrightarrow> seal a = seal b"
begin

lemma served_any_order:
  assumes "set records = set records'" "records \<noteq> []" "inj_on seal (set records)"
  shows "serve before records = serve before records'"
proof -
  have ne: "records' \<noteq> []" using assms(1,2) by (metis set_empty)
  let ?a = "serve before records" and ?b = "serve before records'"
  have "?a \<in> set records" "?b \<in> set records" using served_in [OF assms(2)] served_in [OF ne] assms(1) by simp_all
  moreover have "\<not> before ?a ?b" "\<not> before ?b ?a"
    using nothing_before_served calculation assms(1) by simp_all
  ultimately show ?thesis using tie assms(3) by (meson inj_onD)
qed

end

end
