(* ===== verification/Coordinate.thy ===== *)
theory Coordinate
  imports Sorting_Go
begin

text \<open>
  \<open>internal/coordinate\<close>: the module coordinate every record of the program is keyed on, its
  constructors, its text form and the set of coordinates of one build.

  The struct's fields are unexported and read through \<open>Path()\<close> and \<open>Version()\<close>, which are the
  selectors of the datatype here.  \<open>semver.IsValid\<close> of golang.org/x/mod is not in the
  repository and is the parameter \<open>semver_IsValid\<close>.
\<close>

definition LocalVersion :: string where
  "LocalVersion = ''local''"

definition StdlibPath :: string where
  "StdlibPath = ''stdlib''"

datatype ModuleCoordinate = ModuleCoordinate (Path: string) (Version: string)

datatype coordinate_error =
    EmptyPath
  | EmptyVersion
  | InvalidSemver string
  | MissingAt string

text \<open>The canonical order: path, then version (\<open>CoordinateLess\<close> of \<open>walk/domain/ordering.go\<close>).\<close>

instantiation ModuleCoordinate :: linorder
begin

definition less_ModuleCoordinate :: "ModuleCoordinate \<Rightarrow> ModuleCoordinate \<Rightarrow> bool" where
  "less_ModuleCoordinate a b \<longleftrightarrow>
     (if Path a \<noteq> Path b then Path a < Path b else Version a < Version b)"

definition less_eq_ModuleCoordinate :: "ModuleCoordinate \<Rightarrow> ModuleCoordinate \<Rightarrow> bool" where
  "less_eq_ModuleCoordinate a b \<longleftrightarrow> a < b \<or> a = b"

instance
  by standard
    (auto simp: less_ModuleCoordinate_def less_eq_ModuleCoordinate_def intro: ModuleCoordinate.expand
      split: if_splits)

end

subsection \<open>Constructors\<close>

definition zero_coordinate :: ModuleCoordinate where
  "zero_coordinate = ModuleCoordinate [] []"

definition IsZero :: "ModuleCoordinate \<Rightarrow> bool" where
  "IsZero c \<longleftrightarrow> Path c = [] \<and> Version c = []"

definition NewModuleCoordinate ::
  "(string \<Rightarrow> bool) \<Rightarrow> string \<Rightarrow> string \<Rightarrow> coordinate_error + ModuleCoordinate" where
  "NewModuleCoordinate semver_IsValid path version =
     (if path = [] then Inl EmptyPath
      else if version = [] then Inl EmptyVersion
      else if version \<noteq> LocalVersion \<and> \<not> semver_IsValid version then Inl (InvalidSemver version)
      else Inr (ModuleCoordinate path version))"

definition NewLocalCoordinate ::
  "(string \<Rightarrow> bool) \<Rightarrow> string \<Rightarrow> coordinate_error + ModuleCoordinate" where
  "NewLocalCoordinate semver_IsValid path = NewModuleCoordinate semver_IsValid path LocalVersion"

definition NewPathOnlyCoordinate :: "string \<Rightarrow> coordinate_error + ModuleCoordinate" where
  "NewPathOnlyCoordinate path =
     (if path = [] then Inl EmptyPath else Inr (ModuleCoordinate path []))"

definition HasVersion :: "ModuleCoordinate \<Rightarrow> bool" where
  "HasVersion c \<longleftrightarrow> Version c \<noteq> []"

definition NewStdlibCoordinate :: ModuleCoordinate where
  "NewStdlibCoordinate = ModuleCoordinate StdlibPath []"

definition NewStdlibCoordinateAt ::
  "(string \<Rightarrow> bool) \<Rightarrow> string \<Rightarrow> coordinate_error + ModuleCoordinate" where
  "NewStdlibCoordinateAt semver_IsValid version =
     NewModuleCoordinate semver_IsValid StdlibPath version"

subsection \<open>The text form\<close>

definition ParseModuleCoordinate ::
  "(string \<Rightarrow> bool) \<Rightarrow> string \<Rightarrow> coordinate_error + ModuleCoordinate" where
  "ParseModuleCoordinate semver_IsValid s =
     (case Cut s CHR ''@'' of
        (path, version, ok) \<Rightarrow>
          if \<not> ok then Inl (MissingAt s) else NewModuleCoordinate semver_IsValid path version)"

definition coord_String :: "ModuleCoordinate \<Rightarrow> string" where
  "coord_String c = Path c @ ''@'' @ Version c"

definition MarshalText :: "ModuleCoordinate \<Rightarrow> string" where
  "MarshalText c = coord_String c"

text \<open>\<open>UnmarshalText\<close> assigns through its receiver: the old value is kept on an error.\<close>

definition UnmarshalText ::
  "(string \<Rightarrow> bool) \<Rightarrow> ModuleCoordinate \<Rightarrow> string \<Rightarrow> coordinate_error option \<times> ModuleCoordinate" where
  "UnmarshalText semver_IsValid c text =
     (case ParseModuleCoordinate semver_IsValid text of
        Inl e \<Rightarrow> (Some e, c)
      | Inr coord \<Rightarrow> (None, coord))"

subsection \<open>Questions about a coordinate\<close>

definition IsLocal :: "ModuleCoordinate \<Rightarrow> bool" where
  "IsLocal c \<longleftrightarrow> Version c = LocalVersion"

definition IsStdlib :: "ModuleCoordinate \<Rightarrow> bool" where
  "IsStdlib c \<longleftrightarrow> Path c = StdlibPath"

definition incompatibleSuffix :: string where
  "incompatibleSuffix = ''+incompatible''"

definition IsPreModulesIncompatible :: "ModuleCoordinate \<Rightarrow> bool" where
  "IsPreModulesIncompatible c = HasSuffix (Version c) incompatibleSuffix"

definition GitTagVersion :: "ModuleCoordinate \<Rightarrow> string" where
  "GitTagVersion c = TrimSuffix (Version c) incompatibleSuffix"

subsection \<open>What a constructed coordinate guarantees\<close>

text \<open>The evidence the type carries: a path, and a version that is semver, local or absent.\<close>

definition coordinate_ok :: "(string \<Rightarrow> bool) \<Rightarrow> ModuleCoordinate \<Rightarrow> bool" where
  "coordinate_ok semver_IsValid c \<longleftrightarrow>
     Path c \<noteq> [] \<and> (Version c = [] \<or> Version c = LocalVersion \<or> semver_IsValid (Version c))"

lemma NewModuleCoordinate_Inr:
  "NewModuleCoordinate v p s = Inr c \<longleftrightarrow>
     p \<noteq> [] \<and> s \<noteq> [] \<and> (s = LocalVersion \<or> v s) \<and> c = ModuleCoordinate p s"
  by (auto simp: NewModuleCoordinate_def)

lemma NewModuleCoordinate_ok:
  "NewModuleCoordinate v p s = Inr c \<Longrightarrow> coordinate_ok v c \<and> HasVersion c \<and> \<not> IsZero c"
  by (auto simp: NewModuleCoordinate_Inr coordinate_ok_def HasVersion_def IsZero_def)

lemma constructors_ok:
  "NewLocalCoordinate v p = Inr c \<Longrightarrow> coordinate_ok v c \<and> IsLocal c"
  "NewPathOnlyCoordinate p = Inr c \<Longrightarrow> coordinate_ok v c \<and> \<not> HasVersion c"
  "coordinate_ok v NewStdlibCoordinate \<and> IsStdlib NewStdlibCoordinate"
  "NewStdlibCoordinateAt v s = Inr c \<Longrightarrow> coordinate_ok v c \<and> IsStdlib c \<and> HasVersion c"
  by (auto simp: NewLocalCoordinate_def NewPathOnlyCoordinate_def NewStdlibCoordinate_def
      NewStdlibCoordinateAt_def NewModuleCoordinate_Inr coordinate_ok_def IsLocal_def IsStdlib_def
      HasVersion_def StdlibPath_def split: if_splits)

lemma Parse_String:
  assumes "NewModuleCoordinate v p s = Inr c" "CHR ''@'' \<notin> set p"
  shows "ParseModuleCoordinate v (coord_String c) = Inr c"
proof -
  have c: "c = ModuleCoordinate p s" using assms(1) by (simp add: NewModuleCoordinate_Inr)
  have "Cut (coord_String c) CHR ''@'' = (p, s, True)"
    using Cut_no_sep [OF assms(2), of s] c by (simp add: coord_String_def)
  with assms(1) show ?thesis by (simp add: ParseModuleCoordinate_def)
qed

lemma String_Parse:
  assumes "ParseModuleCoordinate v s = Inr c"
  shows "coord_String c = s \<and> CHR ''@'' \<notin> set (Path c) \<and> coordinate_ok v c"
proof -
  obtain p w ok where cut: "Cut s CHR ''@'' = (p, w, ok)" by (cases "Cut s CHR ''@''")
  with assms have ok: "ok" "NewModuleCoordinate v p w = Inr c"
    by (auto simp: ParseModuleCoordinate_def split: if_splits)
  with cut have "s = p @ CHR ''@'' # w \<and> CHR ''@'' \<notin> set p" by (auto dest: Cut_found)
  moreover have "coordinate_ok v c" using NewModuleCoordinate_ok ok(2) by blast
  ultimately show ?thesis
    using ok(2) by (auto simp: coord_String_def NewModuleCoordinate_Inr)
qed

text \<open>
  Reading the printed form of any coordinate back: the coordinate itself when its constructor
  took a path without \<open>@\<close>, and whatever a successful read yields prints as what was read.
  The version-less forms print as \<open>path@\<close>, which is refused.
\<close>

text \<open>
  The text form of a coordinate round-trips.  A coordinate built by the validating
  constructor from a path without \<open>@\<close> is read back unchanged from what \<open>MarshalText\<close> printed,
  and \<open>UnmarshalText\<close> accepts only texts that print back to themselves, leaving the receiver
  alone on every other.
\<close>

theorem coordinate_text_roundtrip:
  "(NewModuleCoordinate v p s = Inr c \<and> CHR ''@'' \<notin> set p \<longrightarrow>
      UnmarshalText v old (MarshalText c) = (None, c)) \<and>
   (case UnmarshalText v old str of
      (None, c') \<Rightarrow> MarshalText c' = str \<and> coordinate_ok v c' \<and> HasVersion c'
    | (Some _, c') \<Rightarrow> c' = old)"
proof -
  have "HasVersion c'" if "ParseModuleCoordinate v str = Inr c'" for c'
    using that by (auto simp: ParseModuleCoordinate_def dest: NewModuleCoordinate_ok
        split: prod.splits if_splits)
  then show ?thesis
    using Parse_String [of v p s c] String_Parse [of v str]
    by (auto simp: UnmarshalText_def MarshalText_def split: sum.splits)
qed

theorem coordinate_text_roundtrip_witness:
  "UnmarshalText (\<lambda>s. s = ''v1.8.1'') zero_coordinate (MarshalText (ModuleCoordinate ''a/mux'' ''v1.8.1''))
     = (None, ModuleCoordinate ''a/mux'' ''v1.8.1'')"
  using coordinate_text_roundtrip [of "\<lambda>s. s = ''v1.8.1''" "''a/mux''" "''v1.8.1''"
      "ModuleCoordinate ''a/mux'' ''v1.8.1''" zero_coordinate]
  by (simp add: NewModuleCoordinate_def)

lemma GitTagVersion_incompatible:
  "IsPreModulesIncompatible c \<Longrightarrow> Version c = GitTagVersion c @ incompatibleSuffix"
  by (auto simp: IsPreModulesIncompatible_def GitTagVersion_def TrimSuffix_def HasSuffix_def suffix_def)

lemma GitTagVersion_plain: "\<not> IsPreModulesIncompatible c \<Longrightarrow> GitTagVersion c = Version c"
  by (simp add: IsPreModulesIncompatible_def GitTagVersion_def TrimSuffix_def)

subsection \<open>The module set of a build\<close>

record ModuleSet =
  restricted :: bool
  members :: "ModuleCoordinate set"

definition unrestricted_set :: ModuleSet where
  "unrestricted_set = \<lparr>restricted = False, members = {}\<rparr>"

definition NewModuleSet :: "ModuleCoordinate list \<Rightarrow> ModuleSet" where
  "NewModuleSet coords = \<lparr>restricted = True, members = set (filter (\<lambda>c. \<not> IsZero c) coords)\<rparr>"

definition IsRestricted :: "ModuleSet \<Rightarrow> bool" where
  "IsRestricted s = restricted s"

definition Len :: "ModuleSet \<Rightarrow> nat" where
  "Len s = card (members s)"

definition set_Contains :: "ModuleSet \<Rightarrow> ModuleCoordinate \<Rightarrow> bool" where
  "set_Contains s c = (if \<not> restricted s then True else c \<in> members s)"

definition ContainsPathVersion :: "ModuleSet \<Rightarrow> string \<Rightarrow> string \<Rightarrow> bool" where
  "ContainsPathVersion s path version =
     (if \<not> restricted s then True else ModuleCoordinate path version \<in> members s)"

definition Coordinates :: "ModuleSet \<Rightarrow> ModuleCoordinate list" where
  "Coordinates s = sorted_list_of_set (members s)"

definition HasPath :: "ModuleSet \<Rightarrow> string \<Rightarrow> bool" where
  "HasPath s path = (if \<not> restricted s then True else path \<in> Path ` members s)"

definition VersionsOf :: "ModuleSet \<Rightarrow> string \<Rightarrow> string list" where
  "VersionsOf s path = sort (map Version (filter (\<lambda>c. Path c = path) (Coordinates s)))"

text \<open>The sets the program can hold: the zero value and what \<open>NewModuleSet\<close> builds.\<close>

definition module_set_ok :: "ModuleSet \<Rightarrow> bool" where
  "module_set_ok s \<longleftrightarrow> finite (members s) \<and> (\<forall>c \<in> members s. \<not> IsZero c)
     \<and> (restricted s \<or> members s = {})"

lemma module_set_ok_new [simp]: "module_set_ok (NewModuleSet cs)" "module_set_ok unrestricted_set"
  by (auto simp: module_set_ok_def NewModuleSet_def unrestricted_set_def)

lemma VersionsOf_set: "finite (members s) \<Longrightarrow> set (VersionsOf s p) = {w. ModuleCoordinate p w \<in> members s}"
  by (force simp: VersionsOf_def Coordinates_def)

text \<open>
  A restricted set is not the unrestricted one however empty it is.  \<open>NewModuleSet\<close> admits
  exactly the named non-zero coordinates, whichever way the question is put, \<open>HasPath\<close> answers
  whether \<open>VersionsOf\<close> lists anything, and \<open>Coordinates\<close> lists the members once each in order;
  the zero value admits every coordinate and lists none.
\<close>

theorem module_set_membership:
  "(set_Contains (NewModuleSet cs) c \<longleftrightarrow> c \<in> set cs \<and> \<not> IsZero c) \<and>
   (ContainsPathVersion (NewModuleSet cs) p w \<longleftrightarrow> set_Contains (NewModuleSet cs) (ModuleCoordinate p w)) \<and>
   (HasPath (NewModuleSet cs) p \<longleftrightarrow> VersionsOf (NewModuleSet cs) p \<noteq> []) \<and>
   (set (Coordinates (NewModuleSet cs)) = {c. set_Contains (NewModuleSet cs) c}) \<and>
   sorted (Coordinates (NewModuleSet cs)) \<and> distinct (Coordinates (NewModuleSet cs)) \<and>
   length (Coordinates (NewModuleSet cs)) = Len (NewModuleSet cs) \<and>
   set_Contains unrestricted_set c \<and> Coordinates unrestricted_set = []"
proof -
  let ?s = "NewModuleSet cs"
  have fin: "finite (members ?s)" by (simp add: NewModuleSet_def)
  have "HasPath ?s p \<longleftrightarrow> (\<exists>c \<in> members ?s. Path c = p)"
    by (auto simp: HasPath_def NewModuleSet_def)
  also have "\<dots> \<longleftrightarrow> set (VersionsOf ?s p) \<noteq> {}"
    unfolding VersionsOf_set [OF fin] by (auto, metis ModuleCoordinate.collapse, metis ModuleCoordinate.sel(1))
  finally have "HasPath ?s p \<longleftrightarrow> VersionsOf ?s p \<noteq> []" by simp
  then show ?thesis
    using fin
    by (simp add: set_Contains_def ContainsPathVersion_def Coordinates_def Len_def
        unrestricted_set_def NewModuleSet_def)
qed

end
