(* ===== verification/Record_Stamp.thy ===== *)
theory Record_Stamp
  imports Sorting_Go
begin

text \<open>
  \<open>internal/recordstamp/recordstamp.go\<close>: the one shape a record's timestamp takes.  An instant is
  the number of nanoseconds since Go's zero time, 1 January of year 1, 00:00:00 UTC; \<open>Format\<close>
  renders it as RFC 3339 in UTC, with nine fractional digits unless the instant is a whole
  second.  \<open>time.Time.Format\<close> is the standard library's and is written out here for the two
  layouts the code uses: the proleptic Gregorian calendar and zero-padded decimal fields.

  The ledgers compare stamps as text, and so does the composition of the validation legs.  The
  theorems say where that is comparison of times (\<open>stamp_order\<close>) and where it is not
  (\<open>stamp_order_mixed\<close>).
\<close>

subsection \<open>Decimal fields\<close>

definition digit_char :: "int \<Rightarrow> char" where
  "digit_char n = char_of (nat (48 + n))"

fun pad :: "nat \<Rightarrow> int \<Rightarrow> string" where
  "pad 0 n = []"
| "pad (Suc w) n = pad w (n div 10) @ [digit_char (n mod 10)]"

lemma length_pad [simp]: "length (pad w n) = w"
  by (induction w arbitrary: n) auto

lemma digit_char_code: "0 \<le> n \<Longrightarrow> n < 10 \<Longrightarrow> (of_char (digit_char n) :: nat) = nat (48 + n)"
  by (simp add: digit_char_def)

lemma digit_char_less:
  assumes "0 \<le> m" "m < 10" "0 \<le> n" "n < 10"
  shows "digit_char m < digit_char n \<longleftrightarrow> m < n"
  using assms by (simp add: less_char_def digit_char_code)

lemma append_less_iff:
  fixes a b x y :: string
  assumes "length a = length b"
  shows "a @ x < b @ y \<longleftrightarrow> a < b \<or> (a = b \<and> x < y)"
  using assms by (induction a b rule: list_induct2) auto

text \<open>Comparing numbers by quotient, then remainder.\<close>

lemma split_less:
  assumes "0 < (k :: int)"
  shows "m < n \<longleftrightarrow> m div k < n div k \<or> (m div k = n div k \<and> m mod k < n mod k)"
proof -
  have m: "m = k * (m div k) + m mod k" and n: "n = k * (n div k) + n mod k" by simp_all
  have "m div k \<le> n div k" if "m < n" using assms that by (simp add: zdiv_mono1)
  moreover have "n div k \<le> m div k" if "n \<le> m" using assms that by (simp add: zdiv_mono1)
  ultimately show ?thesis
    using m n by (metis add_less_cancel_left linorder_less_linear not_less order_less_le)
qed

lemma split_eq: "m = n \<longleftrightarrow> m div k = n div k \<and> m mod k = n mod (k :: int)"
  by (metis mult_div_mod_eq)

lemma pad_less:
  assumes "0 \<le> m" "m < 10 ^ w" "0 \<le> n" "n < 10 ^ w"
  shows "(pad w m < pad w n \<longleftrightarrow> m < n) \<and> (pad w m = pad w n \<longleftrightarrow> m = n)"
  using assms
proof (induction w arbitrary: m n)
  case (Suc w)
  have d: "digit_char (m mod 10) < digit_char (n mod 10) \<longleftrightarrow> m mod 10 < n mod 10"
    "digit_char (n mod 10) < digit_char (m mod 10) \<longleftrightarrow> n mod 10 < m mod 10"
    by (simp_all add: digit_char_less)
  then have e: "digit_char (m mod 10) = digit_char (n mod 10) \<longleftrightarrow> m mod 10 = n mod 10"
    by (metis linorder_less_linear order_less_irrefl)
  have "m div 10 < 10 ^ w" "n div 10 < 10 ^ w" using Suc.prems by auto
  with Suc.IH [of "m div 10" "n div 10"] Suc.prems
  have IH: "(pad w (m div 10) < pad w (n div 10) \<longleftrightarrow> m div 10 < n div 10)
      \<and> (pad w (m div 10) = pad w (n div 10) \<longleftrightarrow> m div 10 = n div 10)"
    by (simp add: pos_imp_zdiv_nonneg_iff)
  note split_less [of 10 m n] split_eq [of m n 10]
  with IH d e show ?case by (simp add: append_less_iff)
qed simp

subsection \<open>The calendar\<close>

text \<open>Days before 1 January of a year, counted from 1 January of year 1.\<close>

definition year_start :: "int \<Rightarrow> int" where
  "year_start y = 365 * (y - 1) + (y - 1) div 4 - (y - 1) div 100 + (y - 1) div 400"

definition leap :: "int \<Rightarrow> bool" where
  "leap y \<longleftrightarrow> y mod 4 = 0 \<and> (y mod 100 \<noteq> 0 \<or> y mod 400 = 0)"

text \<open>Year and day of the year: whole 400-, 100-, 4- and 1-year cycles are cut off in turn.\<close>

definition year_day :: "int \<Rightarrow> int \<times> int" where
  "year_day d =
     (let n400 = d div 146097; d1 = d mod 146097;
          n100 = min 3 (d1 div 36524); d2 = d1 - 36524 * n100;
          n4 = d2 div 1461; d3 = d2 mod 1461;
          n1 = min 3 (d3 div 365)
      in (400 * n400 + 100 * n100 + 4 * n4 + n1 + 1, d3 - 365 * n1))"

text \<open>Month and day of the month.\<close>

definition month_day :: "bool \<Rightarrow> int \<Rightarrow> int \<times> int" where
  "month_day lp n =
     (let l = (if lp then 1 else 0) in
      if n < 31 then (1, n + 1) else if n < 59 + l then (2, n - 30)
      else if n < 90 + l then (3, n - 58 - l) else if n < 120 + l then (4, n - 89 - l)
      else if n < 151 + l then (5, n - 119 - l) else if n < 181 + l then (6, n - 150 - l)
      else if n < 212 + l then (7, n - 180 - l) else if n < 243 + l then (8, n - 211 - l)
      else if n < 273 + l then (9, n - 242 - l) else if n < 304 + l then (10, n - 272 - l)
      else if n < 334 + l then (11, n - 303 - l) else (12, n - 333 - l))"

lemma div_plus1:
  assumes "0 < (k :: int)"
  shows "(z + 1) div k = z div k + (if (z + 1) mod k = 0 then 1 else 0)"
proof -
  define q where "q = z div k"
  define r where "r = z mod k"
  have z: "z = k * q + r" "0 \<le> r" "r < k" using assms by (simp_all add: q_def r_def)
  show ?thesis
  proof (cases "r = k - 1")
    case True
    then have "z + 1 = k * (q + 1)" using z by (simp add: algebra_simps)
    then have "(z + 1) div k = q + 1" "(z + 1) mod k = 0" using assms by simp_all
    then show ?thesis by (simp add: q_def)
  next
    case False
    have "(z + 1) div k = q" by (rule int_div_pos_eq [of _ _ _ "r + 1"]) (use z False in auto)
    moreover have "(z + 1) mod k = r + 1" by (rule int_mod_pos_eq [of _ _ q]) (use z False in auto)
    ultimately show ?thesis using z(2) by (simp add: q_def)
  qed
qed

lemma leap_days:
  assumes "r \<Longrightarrow> q" "q \<Longrightarrow> p"
  shows "(if p \<and> (\<not> q \<or> r) then 366 else 365) =
    365 + (if p then 1 else 0) - (if q then 1 else 0) + (if r then 1 else (0 :: int))"
  using assms by (cases p; cases q; cases r) simp_all

lemma year_start_step: "year_start (y + 1) = year_start y + (if leap y then 366 else 365)"
proof -
  have "(100 :: int) dvd 400" "(4 :: int) dvd 100" by simp_all
  then have dvd: "y mod 400 = 0 \<Longrightarrow> y mod 100 = 0" "y mod 100 = 0 \<Longrightarrow> y mod 4 = 0"
    by (meson dvd_trans dvd_imp_mod_0 mod_0_imp_dvd)+
  have days: "(if leap y then 366 else 365) = 365 + (if y mod 4 = 0 then 1 else 0)
      - (if y mod 100 = 0 then 1 else 0) + (if y mod 400 = 0 then 1 else (0 :: int))"
    unfolding leap_def by (rule leap_days [OF dvd])
  have "y div 4 = (y - 1) div 4 + (if y mod 4 = 0 then 1 else 0)"
    "y div 100 = (y - 1) div 100 + (if y mod 100 = 0 then 1 else 0)"
    "y div 400 = (y - 1) div 400 + (if y mod 400 = 0 then 1 else 0)"
    by (rule div_plus1 [of _ "y - 1", unfolded diff_add_cancel], simp)+
  then show ?thesis
    unfolding year_start_def days add_diff_cancel_right' by (simp only: algebra_simps)
qed

lemma year_start_mono: "x \<le> y \<Longrightarrow> year_start x \<le> year_start y"
  by (induction rule: int_ge_induct) (simp_all add: year_start_step)

lemma cycle:
  fixes k x :: int
  assumes "0 \<le> x" "x < 4 * k + 1" "0 < k"
  defines "q \<equiv> min 3 (x div k)"
  shows "0 \<le> q" "q \<le> 3" "0 \<le> x - k * q" "q < 3 \<longrightarrow> x - k * q < k" "x - k * q \<le> k"
proof -
  define h where "h = x div k"
  define r where "r = x mod k"
  have x: "x = k * h + r" "0 \<le> r" "r < k" using assms by (simp_all add: h_def r_def)
  have h: "0 \<le> h" using assms by (simp add: h_def pos_imp_zdiv_nonneg_iff)
  have q: "q = min 3 h" by (simp add: q_def h_def)
  have big: "k * 3 \<le> k * h" if "3 \<le> h" using that assms by (intro mult_left_mono) auto
  show "0 \<le> q" "q \<le> 3" using h q by auto
  show "0 \<le> x - k * q" using x big assms unfolding q min_def by (auto; linarith)
  show "q < 3 \<longrightarrow> x - k * q < k" using x unfolding q min_def by auto
  show "x - k * q \<le> k" using x assms unfolding q min_def by (auto; linarith)
qed

lemma year_day_ok:
  assumes "year_day d = (y, n)"
  shows "year_start y + n = d \<and> 0 \<le> n \<and> n < (if leap y then 366 else 365)"
proof -
  define a where "a = d div 146097"
  define d1 where "d1 = d mod 146097"
  define b where "b = min 3 (d1 div 36524)"
  define d2 where "d2 = d1 - 36524 * b"
  define c where "c = d2 div 1461"
  define d3 where "d3 = d2 mod 1461"
  define e where "e = min 3 (d3 div 365)"
  have y: "y = 400 * a + 100 * b + 4 * c + e + 1" and n: "n = d3 - 365 * e"
    using assms unfolding year_day_def Let_def prod.inject a_def d1_def b_def d2_def c_def d3_def e_def
    by (simp_all only: simp_thms)
  have d: "d = 146097 * a + d1" "0 \<le> d1" "d1 < 146097" by (simp_all add: a_def d1_def)
  have b: "0 \<le> b" "b \<le> 3" "0 \<le> d2" "b < 3 \<longrightarrow> d2 < 36524" "d2 \<le> 36524"
    using cycle [of d1 36524] d unfolding b_def d2_def by simp_all
  have c: "d2 = 1461 * c + d3" "0 \<le> d3" "d3 < 1461" by (simp_all add: c_def d3_def)
  have c24: "0 \<le> c" "c \<le> 24" using b c by linarith+
  have e: "0 \<le> e" "e \<le> 3" "0 \<le> n" "e < 3 \<longrightarrow> n < 365" "n \<le> 365"
    using cycle [of d3 365] c unfolding e_def n by simp_all
  have "(y - 1) div 4 = 100 * a + 25 * b + c"
    by (rule int_div_pos_eq [where r = e]) (use e in \<open>simp_all add: y\<close>)
  moreover have "(y - 1) div 100 = 4 * a + b"
    by (rule int_div_pos_eq [where r = "4 * c + e"]) (use c24 e in \<open>simp_all add: y\<close>)
  moreover have "(y - 1) div 400 = a"
    by (rule int_div_pos_eq [where r = "100 * b + 4 * c + e"]) (use b c24 e in \<open>simp_all add: y\<close>)
  ultimately have q: "(y - 1) div 4 = 100 * a + 25 * b + c" "(y - 1) div 100 = 4 * a + b"
    "(y - 1) div 400 = a" by blast+
  have "year_start y + n = d"
    unfolding year_start_def q using y n d c by (simp add: d2_def)
  moreover have "n < (if leap y then 366 else 365)"
  proof (cases "n = 365")
    case True
    then have "e = 3" "d3 = 1460" using e n c by linarith+
    then have "c < 24 \<or> b = 3" using b c c24 by linarith
    moreover have "y = 4 * (100 * a + 25 * b + c + 1)" using y \<open>e = 3\<close> by simp
    then have "y mod 4 = 0" by simp
    moreover have "y mod 400 = 0" if "c = 24" "b = 3"
    proof -
      have "y = 400 * (a + 1)" using y \<open>e = 3\<close> that by simp
      then show ?thesis by simp
    qed
    moreover have "y mod 100 \<noteq> 0" if "c < 24"
    proof -
      have "y mod 100 = 4 * (c + 1)"
        by (rule int_mod_pos_eq [where q = "4 * a + b"]) (use y \<open>e = 3\<close> c24 that in simp_all)
      then show ?thesis using c24 by simp
    qed
    ultimately have "leap y" unfolding leap_def using c24 by linarith
    then show ?thesis using True by simp
  next
    case False
    with e show ?thesis by auto
  qed
  ultimately show ?thesis using e by simp
qed

lemma year_day_mono:
  assumes "year_day d = (y, n)" "year_day d' = (y', n')"
  shows "d < d' \<longleftrightarrow> y < y' \<or> (y = y' \<and> n < n')"
proof -
  have ok: "year_start y + n = d" "0 \<le> n" "n < (if leap y then 366 else 365)"
    "year_start y' + n' = d'" "0 \<le> n'" "n' < (if leap y' then 366 else 365)"
    using year_day_ok assms by blast+
  have lt: "d < year_start y'" if "y < y'"
    using ok year_start_step [of y] year_start_mono [of "y + 1" y'] that by simp
  have gt: "d' < year_start y" if "y' < y"
    using ok year_start_step [of y'] year_start_mono [of "y' + 1" y] that by simp
  consider "y < y'" | "y = y'" | "y' < y" by linarith
  then show ?thesis using ok lt gt by cases auto
qed

lemma month_day_mono:
  assumes "month_day lp n = (m, k)" "month_day lp n' = (m', k')" "0 \<le> n" "0 \<le> n'"
  shows "n < n' \<longleftrightarrow> m < m' \<or> (m = m' \<and> k < k')"
  using assms by (cases lp) (auto simp: month_day_def Let_def split: if_splits)

lemma month_day_range:
  assumes "month_day lp n = (m, k)" "0 \<le> n" "n < 366"
  shows "1 \<le> m \<and> m \<le> 12 \<and> 1 \<le> k \<and> k \<le> 34"
  using assms by (cases lp) (auto simp: month_day_def Let_def split: if_splits)

subsection \<open>Format\<close>

definition nanosecond :: "instant \<Rightarrow> int" where
  "nanosecond t = t mod 1000000000"

text \<open>\<open>t.UTC().Format(time.RFC3339)\<close>, without and with the nine-digit fraction.\<close>

definition date_time :: "instant \<Rightarrow> string" where
  "date_time t =
     (let secs = t div 1000000000; sod = secs mod 86400;
          (y, n) = year_day (secs div 86400); (m, d) = month_day (leap y) n
      in pad 4 y @ ''-'' @ pad 2 m @ ''-'' @ pad 2 d @ ''T'' @ pad 2 (sod div 3600) @ '':''
         @ pad 2 (sod mod 3600 div 60) @ '':'' @ pad 2 (sod mod 60))"

definition Format :: "instant \<Rightarrow> string" where
  "Format t = (if nanosecond t = 0 then date_time t @ ''Z''
               else date_time t @ ''.'' @ pad 9 (nanosecond t) @ ''Z'')"

text \<open>The instants a four-digit year can write: years 1 to 9999.\<close>

definition stampable :: "instant \<Rightarrow> bool" where
  "stampable t \<longleftrightarrow> 0 \<le> t \<and> t < 1000000000 * 86400 * year_start 10000"

subsection \<open>Text order and time order\<close>

lemma length_date_time [simp]: "length (date_time t) = 19"
  by (simp add: date_time_def Let_def split: prod.split)

lemma int_div_less:
  assumes "t < c * k" "0 < (k :: int)"
  shows "t div k < c"
proof (rule ccontr)
  assume "\<not> t div k < c"
  then have "k * c \<le> k * (t div k)" using assms(2) by (intro mult_left_mono) auto
  also have "\<dots> \<le> t" using pos_mod_sign [OF assms(2), of t] mult_div_mod_eq [of k t] by linarith
  finally show False using assms(1) by (simp add: mult.commute)
qed

lemma stampable_year:
  assumes "stampable t" "year_day (t div 1000000000 div 86400) = (y, n)"
  shows "1 \<le> y \<and> y < 10000 \<and> 0 \<le> n \<and> n < 366"
proof -
  define D where "D = t div 1000000000 div 86400"
  have "0 \<le> D" using assms(1) by (simp add: D_def stampable_def pos_imp_zdiv_nonneg_iff)
  have "t div (1000000000 * 86400) < year_start 10000"
    by (rule int_div_less) (use assms(1) in \<open>simp_all add: stampable_def mult.commute\<close>)
  then have "D < year_start 10000" by (simp add: D_def zdiv_zmult2_eq)
  have ok: "year_start y + n = D" "0 \<le> n" "n < (if leap y then 366 else 365)"
    using year_day_ok assms(2) by (auto simp: D_def)
  have "1 \<le> y"
  proof (rule ccontr)
    assume "\<not> 1 \<le> y"
    then have "year_start (y + 1) \<le> year_start 1" by (intro year_start_mono) simp
    moreover have "year_start 1 = 0" by (simp add: year_start_def)
    ultimately show False using ok \<open>0 \<le> D\<close> year_start_step [of y] by simp
  qed
  moreover have "y < 10000"
    using ok \<open>D < year_start 10000\<close> year_start_mono [of 10000 y] by linarith
  ultimately show ?thesis using ok by (simp split: if_splits)
qed

lemma date_time_less:
  assumes "stampable t" "stampable u"
  shows "date_time t < date_time u \<longleftrightarrow> t div 1000000000 < u div 1000000000"
proof -
  let ?S = "t div 1000000000" and ?S' = "u div 1000000000"
  obtain y n where yn: "year_day (?S div 86400) = (y, n)" by fastforce
  obtain y' n' where yn': "year_day (?S' div 86400) = (y', n')" by fastforce
  obtain m d where md: "month_day (leap y) n = (m, d)" by fastforce
  obtain m' d' where md': "month_day (leap y') n' = (m', d')" by fastforce
  define s where "s = ?S mod 86400"
  define s' where "s' = ?S' mod 86400"
  note ry = stampable_year [OF assms(1) yn] stampable_year [OF assms(2) yn']
  have rm: "1 \<le> m \<and> m \<le> 12 \<and> 1 \<le> d \<and> d \<le> 34" "1 \<le> m' \<and> m' \<le> 12 \<and> 1 \<le> d' \<and> d' \<le> 34"
    using month_day_range md md' ry by blast+
  have rs: "0 \<le> s" "s < 86400" "0 \<le> s'" "s' < 86400" by (simp_all add: s_def s'_def)
  have p4: "(pad 4 y < pad 4 y' \<longleftrightarrow> y < y') \<and> (pad 4 y = pad 4 y' \<longleftrightarrow> y = y')"
    by (rule pad_less) (use ry in simp_all)
  have p2: "(pad 2 a < pad 2 b \<longleftrightarrow> a < b) \<and> (pad 2 a = pad 2 b \<longleftrightarrow> a = b)"
    if "0 \<le> a" "a < 100" "0 \<le> b" "b < 100" for a b
    by (rule pad_less) (use that in simp_all)
  have h: "0 \<le> x div 3600" "x div 3600 < 100" if "0 \<le> x" "x < 86400" for x :: int
    using that by (simp add: pos_imp_zdiv_nonneg_iff) (rule int_div_less, use that in simp_all)
  have mi: "0 \<le> x mod 3600 div 60" "x mod 3600 div 60 < 100" for x :: int
  proof -
    have "x mod 3600 < 3600" by simp
    then show "x mod 3600 div 60 < 100" by (intro int_div_less) simp_all
  qed (simp add: pos_imp_zdiv_nonneg_iff)
  have mm: "x mod 3600 mod 60 = x mod 60" for x :: int by (simp add: mod_mod_cancel)
  have se: "0 \<le> x mod 60" "x mod 60 < 100" for x :: int
    using pos_mod_bound [of 60 x] by (simp, linarith)
  have days: "?S div 86400 < ?S' div 86400 \<longleftrightarrow> y < y' \<or> (y = y' \<and> (m < m' \<or> (m = m' \<and> d < d')))"
    "?S div 86400 = ?S' div 86400 \<longleftrightarrow> y = y' \<and> m = m' \<and> d = d'"
  proof -
    have n: "n < n' \<longleftrightarrow> m < m' \<or> (m = m' \<and> d < d')" "n' < n \<longleftrightarrow> m' < m \<or> (m' = m \<and> d' < d)" if "y = y'"
      using month_day_mono [of "leap y" n m d n' m' d'] month_day_mono [of "leap y" n' m' d' n m d]
        md md' ry that by simp_all
    show lt: "?S div 86400 < ?S' div 86400 \<longleftrightarrow> y < y' \<or> (y = y' \<and> (m < m' \<or> (m = m' \<and> d < d')))"
      using year_day_mono [OF yn yn'] n(1) by blast
    have gt: "?S' div 86400 < ?S div 86400 \<longleftrightarrow> y' < y \<or> (y' = y \<and> (m' < m \<or> (m' = m \<and> d' < d)))"
      using year_day_mono [OF yn' yn] n(2) by blast
    show "?S div 86400 = ?S' div 86400 \<longleftrightarrow> y = y' \<and> m = m' \<and> d = d'"
      using lt gt by (metis linorder_less_linear order_less_irrefl)
  qed
  have time: "s < s' \<longleftrightarrow> s div 3600 < s' div 3600 \<or> (s div 3600 = s' div 3600 \<and>
      (s mod 3600 div 60 < s' mod 3600 div 60 \<or> (s mod 3600 div 60 = s' mod 3600 div 60 \<and>
        s mod 60 < s' mod 60)))"
    using split_less [of 3600 s s'] split_less [of 60 "s mod 3600" "s' mod 3600"] by (simp only: mm simp_thms zero_less_numeral)
  have split: "?S < ?S' \<longleftrightarrow> ?S div 86400 < ?S' div 86400 \<or> (?S div 86400 = ?S' div 86400 \<and> s < s')"
    unfolding s_def s'_def by (rule split_less) simp
  have eqs: "date_time t = pad 4 y @ ''-'' @ pad 2 m @ ''-'' @ pad 2 d @ ''T'' @ pad 2 (s div 3600)
      @ '':'' @ pad 2 (s mod 3600 div 60) @ '':'' @ pad 2 (s mod 60)"
    "date_time u = pad 4 y' @ ''-'' @ pad 2 m' @ ''-'' @ pad 2 d' @ ''T'' @ pad 2 (s' div 3600)
      @ '':'' @ pad 2 (s' mod 3600 div 60) @ '':'' @ pad 2 (s' mod 60)"
    by (simp_all only: date_time_def Let_def yn yn' md md' prod.case s_def s'_def)
  note p = p2 [of m m'] p2 [of d d'] p2 [OF h [OF rs(1,2)] h [OF rs(3,4)]] p2 [OF mi mi, of s s']
    p2 [OF se se, of s s']
  show ?thesis
    unfolding eqs split days time using p4 p rm
    by (simp add: append_less_iff) blast
qed

lemma date_time_eq:
  assumes "stampable t" "stampable u"
  shows "date_time t = date_time u \<longleftrightarrow> t div 1000000000 = u div 1000000000"
  using date_time_less [OF assms] date_time_less [OF assms(2,1)]
  by (metis linorder_less_linear order_less_irrefl)

lemma nanosecond_range: "0 \<le> nanosecond t \<and> nanosecond t < 10 ^ 9"
  by (simp add: nanosecond_def)

lemma instant_less: "t < u \<longleftrightarrow> t div 1000000000 < u div 1000000000
    \<or> (t div 1000000000 = u div 1000000000 \<and> nanosecond t < nanosecond u)"
  unfolding nanosecond_def by (rule split_less) simp

text \<open>
  Text order is time order within one precision.  For instants of the years 1 to 9999 that
  both carry a fraction, or are both whole seconds, the stamp of one is less as text, which is
  how the ledgers order their rows, exactly when it is earlier; and a stamp determines its
  instant.
\<close>

theorem stamp_order:
  assumes "stampable t" "stampable u"
  shows "((nanosecond t = 0 \<longleftrightarrow> nanosecond u = 0) \<longrightarrow> (Format t < Format u \<longleftrightarrow> t < u))
       \<and> (Format t = Format u \<longleftrightarrow> t = u)"
proof (intro conjI impI)
  note order = date_time_less [OF assms] date_time_eq [OF assms]
  note frac = pad_less [of "nanosecond t" 9 "nanosecond u"]
  show "Format t < Format u \<longleftrightarrow> t < u" if "nanosecond t = 0 \<longleftrightarrow> nanosecond u = 0"
    using that frac order nanosecond_range unfolding instant_less [of t u]
    by (cases "nanosecond t = 0") (simp_all add: Format_def append_less_iff)
  have len: "length (Format x) = (if nanosecond x = 0 then 20 else 30)" for x
    by (simp add: Format_def)
  have "t = u" if eq: "Format t = Format u"
  proof -
    have "nanosecond t = 0 \<longleftrightarrow> nanosecond u = 0"
      using len [of t] len [of u] eq by (simp split: if_splits)
    then have "t div 1000000000 = u div 1000000000 \<and> nanosecond t = nanosecond u"
      using eq frac order(2) nanosecond_range
      by (cases "nanosecond t = 0") (auto simp: Format_def append_eq_append_conv)
    then show ?thesis unfolding nanosecond_def by (metis mult_div_mod_eq)
  qed
  then show "Format t = Format u \<longleftrightarrow> t = u" by blast
qed

theorem stamp_order_witness:
  "Format 1500000000 < Format 2500000000 \<and> Format 1500000000 \<noteq> Format 2000000000"
  using stamp_order [of 1500000000 2500000000] stamp_order [of 1500000000 2000000000]
  by (simp add: stampable_def year_start_def nanosecond_def)

text \<open>
  C38: across the two precisions text order is not time order.  Within every stampable second, the
  whole-second stamp sorts after every sub-second stamp of that second, though it is the
  earliest instant of it: the fixed width the package promises stops at the whole second.
\<close>

theorem stamp_order_mixed:
  assumes "nanosecond t = 0" "0 < k" "k < 1000000000"
  shows "t < t + k \<and> Format (t + k) < Format t"
proof -
  have sec: "(t + k) div 1000000000 = t div 1000000000" "nanosecond (t + k) = k"
    using assms mult_div_mod_eq [of 1000000000 t] unfolding nanosecond_def
    by (auto intro!: int_div_pos_eq [where r = k] int_mod_pos_eq [where q = "t div 1000000000"])
  then have "date_time (t + k) = date_time t" by (simp only: date_time_def)
  then show ?thesis
    using assms sec by (simp add: Format_def append_less_iff less_char_def)
qed

theorem stamp_order_mixed_witness: "Format (5000000000 + 500000000) < Format 5000000000"
  using stamp_order_mixed [of 5000000000 500000000] by (simp add: nanosecond_def)

end
