(* ===== verification/Fetch_Identity.thy ===== *)
theory Fetch_Identity
  imports Coordinate Record_Stamp
begin

text \<open>
  \<open>internal/fetch/domain\<close>, the values of the fetch ledger: module hashes (\<open>hash.go\<close>), the fact
  record and its derived questions (\<open>factrecord.go\<close>, \<open>digests.go\<close>, \<open>acquisitionmode.go\<close>,
  \<open>module.go\<close>), and the artefact identity every other domain keys on (\<open>identity.go\<close>).

  Go's string-typed enumerations are cast from stored text without a check, so they are strings
  here, with the source's constants; an error value is a constructor of \<open>fetch_error\<close>.
\<close>

datatype fetch_error =
    InvalidModuleHash string string
  | InvalidHashAlgorithm string
  | InvalidHashText string
  | ErrZeroIdentity
  | InvalidIdentity string
  | UnknownDepth string string
  | NoRecordsToCompose

subsection \<open>Module hashes\<close>

record ModuleHash =
  algorithm :: string
  hvalue :: string

definition zero_hash :: ModuleHash where
  "zero_hash = \<lparr>algorithm = [], hvalue = []\<rparr>"

definition ZeroString :: string where
  "ZeroString = '':''"

definition NewModuleHash :: "string \<Rightarrow> string \<Rightarrow> fetch_error + ModuleHash" where
  "NewModuleHash alg val =
     (if alg = [] \<or> val = [] then Inl (InvalidModuleHash alg val)
      else if Contains alg '':'' then Inl (InvalidHashAlgorithm alg)
      else Inr \<lparr>algorithm = alg, hvalue = val\<rparr>)"

definition ParseModuleHash :: "string \<Rightarrow> fetch_error + ModuleHash" where
  "ParseModuleHash s =
     (if s = ZeroString then Inr zero_hash
      else case Cut s CHR '':'' of
             (alg, val, ok) \<Rightarrow>
               if \<not> ok then Inl (InvalidHashText s)
               else case NewModuleHash alg val of
                      Inl _ \<Rightarrow> Inl (InvalidHashText s)
                    | Inr h \<Rightarrow> Inr h)"

definition hash_String :: "ModuleHash \<Rightarrow> string" where
  "hash_String h = algorithm h @ '':'' @ hvalue h"

definition hash_Equal :: "ModuleHash \<Rightarrow> ModuleHash \<Rightarrow> bool" where
  "hash_Equal h other \<longleftrightarrow> algorithm h = algorithm other \<and> hvalue h = hvalue other"

definition hash_IsZero :: "ModuleHash \<Rightarrow> bool" where
  "hash_IsZero h \<longleftrightarrow> algorithm h = [] \<and> hvalue h = []"

text \<open>The hashes the program can hold: the fields are unexported, so zero or constructed.\<close>

definition hash_ok :: "ModuleHash \<Rightarrow> bool" where
  "hash_ok h \<longleftrightarrow> hash_IsZero h \<or> (algorithm h \<noteq> [] \<and> hvalue h \<noteq> [] \<and> CHR '':'' \<notin> set (algorithm h))"

lemma hash_IsZero_iff: "hash_IsZero h \<longleftrightarrow> h = zero_hash"
  by (cases h) (auto simp: hash_IsZero_def zero_hash_def)

lemma hash_Equal_iff [simp]: "hash_Equal h k \<longleftrightarrow> h = k"
  by (cases h; cases k) (auto simp: hash_Equal_def)

lemma NewModuleHash_Inr:
  "NewModuleHash a v = Inr h \<longleftrightarrow>
     a \<noteq> [] \<and> v \<noteq> [] \<and> CHR '':'' \<notin> set a \<and> h = \<lparr>algorithm = a, hvalue = v\<rparr>"
  by (auto simp: NewModuleHash_def Contains_char)

lemma ParseModuleHash_String:
  assumes "hash_ok h"
  shows "ParseModuleHash (hash_String h) = Inr h"
proof (cases "hash_IsZero h")
  case True
  then show ?thesis
    by (simp add: hash_IsZero_iff zero_hash_def hash_String_def ParseModuleHash_def ZeroString_def)
next
  case False
  then have ok: "algorithm h \<noteq> []" "hvalue h \<noteq> []" "CHR '':'' \<notin> set (algorithm h)"
    using assms by (auto simp: hash_ok_def)
  then have "hash_String h \<noteq> ZeroString" by (cases "algorithm h") (auto simp: hash_String_def ZeroString_def)
  moreover have "NewModuleHash (algorithm h) (hvalue h) = Inr h"
    using ok by (simp add: NewModuleHash_Inr)
  ultimately show ?thesis
    using Cut_no_sep [OF ok(3), of "hvalue h"] by (simp add: ParseModuleHash_def hash_String_def)
qed

lemma ParseModuleHash_Inr:
  assumes "ParseModuleHash s = Inr h"
  shows "hash_String h = s \<and> hash_ok h"
proof (cases "s = ZeroString")
  case True
  with assms show ?thesis
    by (auto simp: ParseModuleHash_def hash_String_def zero_hash_def ZeroString_def hash_ok_def hash_IsZero_def)
next
  case False
  obtain a v ok where cut: "Cut s CHR '':'' = (a, v, ok)" by (cases "Cut s CHR '':''")
  with assms False have new: "ok" "NewModuleHash a v = Inr h"
    by (auto simp: ParseModuleHash_def split: if_splits sum.splits)
  then have "s = a @ CHR '':'' # v" using cut by (auto dest: Cut_found)
  with new(2) show ?thesis by (auto simp: NewModuleHash_Inr hash_String_def hash_ok_def)
qed

text \<open>The read form of a stored hash column, where the empty string is the absent value.\<close>

definition StoredModuleHash :: "string \<Rightarrow> fetch_error + ModuleHash" where
  "StoredModuleHash s = (if s = [] then Inr zero_hash else ParseModuleHash s)"

lemma StoredModuleHash_ok: "StoredModuleHash s = Inr h \<Longrightarrow> hash_ok h"
  using ParseModuleHash_Inr by (auto simp: StoredModuleHash_def hash_ok_def hash_IsZero_iff split: if_splits)

lemma StoredModuleHash_absent: "s = [] \<or> s = ZeroString \<Longrightarrow> StoredModuleHash s = Inr zero_hash"
  by (auto simp: StoredModuleHash_def ParseModuleHash_def ZeroString_def)

subsection \<open>Verification status\<close>

type_synonym VerificationStatus = string

definition Verified :: VerificationStatus where [simp]: "Verified = ''Verified''"
definition VerifiedBySumDBOnly :: VerificationStatus where [simp]: "VerifiedBySumDBOnly = ''VerifiedBySumDBOnly''"
definition VerifiedByGoSum :: VerificationStatus where [simp]: "VerifiedByGoSum = ''VerifiedByGoSum''"
definition LocalSource :: VerificationStatus where [simp]: "LocalSource = ''LocalSource''"

definition IsVerified :: "VerificationStatus \<Rightarrow> bool" where
  "IsVerified s \<longleftrightarrow> s \<in> {Verified, VerifiedBySumDBOnly, VerifiedByGoSum, LocalSource}"

definition ConfirmsVCSOrigin :: "VerificationStatus \<Rightarrow> bool" where
  "ConfirmsVCSOrigin s \<longleftrightarrow> s = Verified"

definition verificationStrength :: "VerificationStatus \<Rightarrow> int" where
  "verificationStrength s =
     (if s = Verified then 4 else if s = VerifiedBySumDBOnly then 3
      else if s = VerifiedByGoSum then 2 else if s = LocalSource then 1 else 0)"

lemma verificationStrength_verified: "IsVerified s \<longleftrightarrow> 0 < verificationStrength s"
  by (auto simp: IsVerified_def verificationStrength_def)

subsection \<open>The fact record\<close>

type_synonym LegProvenance = string

definition LegAbsent :: LegProvenance where [simp]: "LegAbsent = ''''"
definition LegRechecked :: LegProvenance where [simp]: "LegRechecked = ''rechecked''"
definition LegInherited :: LegProvenance where [simp]: "LegInherited = ''inherited''"
definition LegUnavailable :: LegProvenance where [simp]: "LegUnavailable = ''unavailable''"
definition LegPrivateModule :: LegProvenance where [simp]: "LegPrivateModule = ''private_module''"

record FactRecord =
  fr_SchemaVersion :: string
  fr_Ecosystem :: string
  fr_ModulePath :: string
  fr_ModuleVersion :: string
  fr_ModuleHash :: string
  fr_GoModHash :: string
  fr_ZipSHA256 :: string
  fr_ZipSHA384 :: string
  fr_ZipSHA512 :: string
  fr_GitURL :: string
  fr_GitRef :: string
  fr_GitCommitHash :: string
  fr_VerificationStatus :: VerificationStatus
  fr_VerificationDetail :: string
  fr_FetchedAt :: instant
  fr_PipelineVersion :: string
  fr_ContentLocation :: string
  fr_GoModLocation :: string
  fr_ContentHash :: string
  fr_Retracted :: bool
  fr_SumDBLookupFailed :: bool
  fr_AcquisitionMode :: string
  fr_MeasurementKind :: string
  fr_SumDBCheck :: LegProvenance
  fr_SumDBCheckSource :: string
  fr_VCSCheck :: LegProvenance
  fr_VCSCheckSource :: string
  fr_VCSURLBinding :: string
  fr_GitSubdir :: string
  fr_VersionTime :: string

text \<open>The coordinate of a record, the zero coordinate when its columns name none.\<close>

definition fr_Coordinate :: "(string \<Rightarrow> bool) \<Rightarrow> FactRecord \<Rightarrow> ModuleCoordinate" where
  "fr_Coordinate semver_IsValid r =
     (case NewModuleCoordinate semver_IsValid (fr_ModulePath r) (fr_ModuleVersion r) of
        Inl _ \<Rightarrow> zero_coordinate
      | Inr c \<Rightarrow> c)"

definition IsGoModOnly :: "FactRecord \<Rightarrow> bool" where
  "IsGoModOnly r =
     (case (StoredModuleHash (fr_ModuleHash r), StoredModuleHash (fr_GoModHash r)) of
        (Inr m, Inr g) \<Rightarrow> hash_IsZero m \<and> \<not> hash_IsZero g
      | _ \<Rightarrow> False)"

definition re_space :: "char \<Rightarrow> bool" where
  "re_space c \<longleftrightarrow> of_char c \<in> {9::nat, 10, 12, 13, 32}"

text \<open>
  The compiled expression \<open>exceeded the \S+ fetch bound\<close>, matched anywhere in a detail.  What
  follows \<open>\S+\<close> begins with a blank, so the run of non-blanks matched is the longest one.
\<close>

fun vcsBoundExceeded :: "string \<Rightarrow> bool" where
  "vcsBoundExceeded [] = False"
| "vcsBoundExceeded (c # cs) =
     ((HasPrefix (c # cs) ''exceeded the '' \<and>
       (let rest = TrimPrefix (c # cs) ''exceeded the '';
            w = takeWhile (\<lambda>x. \<not> re_space x) rest
        in w \<noteq> [] \<and> HasPrefix (drop (length w) rest) '' fetch bound''))
      \<or> vcsBoundExceeded cs)"

definition RecordIsCacheable :: "FactRecord \<Rightarrow> bool" where
  "RecordIsCacheable r \<longleftrightarrow>
     \<not> fr_SumDBLookupFailed r \<and> fr_VCSCheck r \<noteq> LegUnavailable \<and>
     (fr_VCSCheck r \<noteq> LegRechecked \<or> \<not> vcsBoundExceeded (fr_VerificationDetail r))"

definition ReplacementWeakensAnchor :: "FactRecord \<Rightarrow> FactRecord \<Rightarrow> bool" where
  "ReplacementWeakensAnchor existing incoming \<longleftrightarrow>
     verificationStrength (fr_VerificationStatus incoming)
       < verificationStrength (fr_VerificationStatus existing)"

record ArtifactDigests =
  SHA256 :: string
  SHA384 :: string
  SHA512 :: string

definition RecordDigests :: "FactRecord \<Rightarrow> ArtifactDigests" where
  "RecordDigests r = \<lparr>SHA256 = fr_ZipSHA256 r, SHA384 = fr_ZipSHA384 r, SHA512 = fr_ZipSHA512 r\<rparr>"

subsection \<open>Artefact identity\<close>

record ArtefactIdentity =
  hash :: ModuleHash
  goModOnly :: bool

definition zero_identity :: ArtefactIdentity where
  "zero_identity = \<lparr>hash = zero_hash, goModOnly = False\<rparr>"

definition identityPrefixZip :: string where [simp]: "identityPrefixZip = ''zip''"
definition identityPrefixGoMod :: string where [simp]: "identityPrefixGoMod = ''gomod''"

definition identity_IsZero :: "ArtefactIdentity \<Rightarrow> bool" where
  "identity_IsZero a = hash_IsZero (hash a)"

definition identity_String :: "ArtefactIdentity \<Rightarrow> string" where
  "identity_String a =
     (if identity_IsZero a then []
      else if goModOnly a then identityPrefixGoMod @ '':'' @ hash_String (hash a)
      else identityPrefixZip @ '':'' @ hash_String (hash a))"

definition identity_Equal :: "ArtefactIdentity \<Rightarrow> ArtefactIdentity \<Rightarrow> bool" where
  "identity_Equal a other \<longleftrightarrow> goModOnly a = goModOnly other \<and> hash_Equal (hash a) (hash other)"

definition ArtefactIdentityOf :: "FactRecord \<Rightarrow> fetch_error + ArtefactIdentity" where
  "ArtefactIdentityOf r =
     (case StoredModuleHash (fr_ModuleHash r) of
        Inl e \<Rightarrow> Inl e
      | Inr m \<Rightarrow>
          if \<not> hash_IsZero m then Inr \<lparr>hash = m, goModOnly = False\<rparr>
          else case StoredModuleHash (fr_GoModHash r) of
                 Inl e \<Rightarrow> Inl e
               | Inr g \<Rightarrow> Inr \<lparr>hash = g, goModOnly = True\<rparr>)"

definition ParseArtefactIdentity :: "string \<Rightarrow> fetch_error + ArtefactIdentity" where
  "ParseArtefactIdentity s =
     (if s = [] then Inl ErrZeroIdentity
      else case Cut s CHR '':'' of
        (pre, rest, ok) \<Rightarrow>
          if \<not> ok then Inl (InvalidIdentity s)
          else if pre \<noteq> identityPrefixZip \<and> pre \<noteq> identityPrefixGoMod then Inl (UnknownDepth s pre)
          else case ParseModuleHash rest of
                 Inl e \<Rightarrow> Inl e
               | Inr h \<Rightarrow> if hash_IsZero h then Inl ErrZeroIdentity
                          else Inr \<lparr>hash = h, goModOnly = (pre = identityPrefixGoMod)\<rparr>)"

definition StoredArtefactIdentity :: "string \<Rightarrow> fetch_error + ArtefactIdentity" where
  "StoredArtefactIdentity s = (if s = [] then Inr zero_identity else ParseArtefactIdentity s)"

definition identity_ok :: "ArtefactIdentity \<Rightarrow> bool" where
  "identity_ok a \<longleftrightarrow> hash_ok (hash a)"

lemma ArtefactIdentityOf_ok: "ArtefactIdentityOf r = Inr a \<Longrightarrow> identity_ok a"
  by (auto simp: ArtefactIdentityOf_def identity_ok_def dest: StoredModuleHash_ok split: sum.splits if_splits)

lemma ParseArtefactIdentity_String:
  assumes "identity_ok a" "\<not> identity_IsZero a"
  shows "ParseArtefactIdentity (identity_String a) = Inr a"
proof -
  have h: "ParseModuleHash (hash_String (hash a)) = Inr (hash a)" "\<not> hash_IsZero (hash a)"
    using assms ParseModuleHash_String by (auto simp: identity_ok_def identity_IsZero_def)
  show ?thesis
    using assms(2) h Cut_no_sep [of "CHR '':''" identityPrefixZip "hash_String (hash a)"]
      Cut_no_sep [of "CHR '':''" identityPrefixGoMod "hash_String (hash a)"]
    by (cases "goModOnly a") (simp_all add: identity_String_def ParseArtefactIdentity_def)
qed

lemma ParseArtefactIdentity_Inr:
  assumes "ParseArtefactIdentity s = Inr a"
  shows "identity_String a = s \<and> \<not> identity_IsZero a \<and> identity_ok a"
proof -
  obtain pre rest ok where cut: "Cut s CHR '':'' = (pre, rest, ok)" by (cases "Cut s CHR '':''")
  with assms obtain h where a: "ok" "pre = identityPrefixZip \<or> pre = identityPrefixGoMod"
      "ParseModuleHash rest = Inr h" "\<not> hash_IsZero h"
      "a = \<lparr>hash = h, goModOnly = (pre = identityPrefixGoMod)\<rparr>"
    by (fastforce simp: ParseArtefactIdentity_def split: if_splits sum.splits)
  then have "s = pre @ CHR '':'' # rest" using cut by (auto dest: Cut_found)
  with a ParseModuleHash_Inr [OF a(3)] show ?thesis
    by (auto simp: identity_String_def identity_IsZero_def identity_ok_def)
qed

text \<open>
  C37: the stored form of an artefact identity round-trips and fails closed.  Every identity a
  record can be given is read back from its text as itself; a text that is accepted prints back
  unchanged and never names the zero identity, at either depth; and the two depths never share
  a text, so a go.mod-only record cannot stand in for the zip of the same hash.
\<close>

theorem identity_text_roundtrip:
  "(ArtefactIdentityOf r = Inr a \<longrightarrow> StoredArtefactIdentity (identity_String a) =
      Inr (if identity_IsZero a then zero_identity else a))
   \<and> (ParseArtefactIdentity s = Inr b \<longrightarrow> identity_String b = s \<and> \<not> identity_IsZero b)
   \<and> (ArtefactIdentityOf r = Inr a \<and> ArtefactIdentityOf r' = Inr a' \<and> \<not> identity_IsZero a
      \<and> identity_String a = identity_String a' \<longrightarrow> a = a' \<and> goModOnly a = goModOnly a')"
proof -
  have inj: "a = a'" if "identity_ok a" "identity_ok a'" "\<not> identity_IsZero a"
    "identity_String a = identity_String a'"
  proof -
    have "\<not> identity_IsZero a'" using that(3,4) by (auto simp: identity_String_def split: if_splits)
    then show ?thesis using ParseArtefactIdentity_String that by (metis Inr_inject)
  qed
  have stored: "StoredArtefactIdentity (identity_String a) =
      Inr (if identity_IsZero a then zero_identity else a)" if "identity_ok a"
    using ParseArtefactIdentity_String [OF that]
    by (auto simp: StoredArtefactIdentity_def identity_String_def)
  show ?thesis
    using stored inj ArtefactIdentityOf_ok ParseArtefactIdentity_Inr by blast
qed

definition example_record :: FactRecord where
  "example_record =
     \<lparr>fr_SchemaVersion = ''4'', fr_Ecosystem = ''go'', fr_ModulePath = ''a/mux'',
      fr_ModuleVersion = ''v1.8.1'', fr_ModuleHash = ''h1:aa'', fr_GoModHash = ''h1:bb'',
      fr_ZipSHA256 = [], fr_ZipSHA384 = [], fr_ZipSHA512 = [], fr_GitURL = [], fr_GitRef = [],
      fr_GitCommitHash = [], fr_VerificationStatus = Verified, fr_VerificationDetail = [],
      fr_FetchedAt = 1000000000, fr_PipelineVersion = ''v1'', fr_ContentLocation = [],
      fr_GoModLocation = [], fr_ContentHash = ''sha256:01'', fr_Retracted = False,
      fr_SumDBLookupFailed = False, fr_AcquisitionMode = ''proxy'', fr_MeasurementKind = [],
      fr_SumDBCheck = LegRechecked, fr_SumDBCheckSource = [], fr_VCSCheck = LegAbsent,
      fr_VCSCheckSource = [], fr_VCSURLBinding = [], fr_GitSubdir = [], fr_VersionTime = []\<rparr>"

lemma example_record_identity:
  "ArtefactIdentityOf example_record = Inr \<lparr>hash = \<lparr>algorithm = ''h1'', hvalue = ''aa''\<rparr>, goModOnly = False\<rparr>"
  by (simp add: example_record_def ArtefactIdentityOf_def StoredModuleHash_def ParseModuleHash_def
      ZeroString_def Cut_def NewModuleHash_def Contains_char hash_IsZero_def)

theorem identity_text_roundtrip_witness:
  "StoredArtefactIdentity ''zip:h1:aa'' =
     Inr \<lparr>hash = \<lparr>algorithm = ''h1'', hvalue = ''aa''\<rparr>, goModOnly = False\<rparr>"
  using identity_text_roundtrip [THEN conjunct1, of example_record, rule_format, OF example_record_identity]
  by (simp add: identity_String_def identity_IsZero_def hash_IsZero_def hash_String_def)

end
