(* ===== verification/Fetch_Compose.thy ===== *)
theory Fetch_Compose
  imports Ledger Fetch_Identity
begin

text \<open>
  \<open>internal/fetch/domain/composite.go\<close>, \<open>divergence.go\<close> and \<open>localgeneration.go\<close>: how the rows of one
  artefact are folded into the record a reader gets, how the validation legs of the rows are
  united, when the rows of one coordinate diverge, and which rows a published coordinate's read
  leaves out.  The JSON form of the composite is not modelled.
\<close>

subsection \<open>The order records are served in\<close>

definition servesBefore :: "FactRecord \<Rightarrow> FactRecord \<Rightarrow> bool" where
  "servesBefore a b =
     (if RecordIsCacheable a \<noteq> RecordIsCacheable b then RecordIsCacheable a
      else if IsGoModOnly a \<noteq> IsGoModOnly b then \<not> IsGoModOnly a
      else if verificationStrength (fr_VerificationStatus a) \<noteq> verificationStrength (fr_VerificationStatus b)
      then verificationStrength (fr_VerificationStatus a) > verificationStrength (fr_VerificationStatus b)
      else if fr_SchemaVersion a \<noteq> fr_SchemaVersion b then fr_SchemaVersion a > fr_SchemaVersion b
      else if fr_FetchedAt a \<noteq> fr_FetchedAt b then fr_FetchedAt a > fr_FetchedAt b
      else fr_ContentHash a < fr_ContentHash b)"

interpretation fetch: sealed_serving servesBefore fr_ContentHash
proof unfold_locales
  show "swo servesBefore"
    unfolding servesBefore_def [abs_def]
    by (intro swo_then_true swo_then_false [of _ IsGoModOnly] swo_then_desc swo_key)
qed (auto simp: servesBefore_def split: if_splits)

subsection \<open>Validation legs\<close>

type_synonym ValidationLegKind = string

definition LegSumDB :: ValidationLegKind where [simp]: "LegSumDB = ''sumdb''"
definition LegVCS :: ValidationLegKind where [simp]: "LegVCS = ''vcs''"

record ValidationLeg =
  Kind :: ValidationLegKind
  Provenance :: LegProvenance
  Source :: string
  EstablishedAt :: string

text \<open>The body of the loop over the two legs, then the loop.\<close>

definition dateLeg :: "string \<Rightarrow> ValidationLeg \<Rightarrow> ValidationLeg list" where
  "dateLeg at l =
     (if Provenance l = LegAbsent then []
      else if Provenance l = LegInherited then [l]
      else if Provenance l \<in> {LegRechecked, LegUnavailable, LegPrivateModule}
      then [l\<lparr>EstablishedAt := at\<rparr>]
      else [l])"

definition RecordLegs :: "FactRecord \<Rightarrow> ValidationLeg list" where
  "RecordLegs r = concat (map (dateLeg (Format (fr_FetchedAt r)))
     [\<lparr>Kind = LegSumDB, Provenance = fr_SumDBCheck r, Source = fr_SumDBCheckSource r, EstablishedAt = []\<rparr>,
      \<lparr>Kind = LegVCS, Provenance = fr_VCSCheck r, Source = fr_VCSCheckSource r, EstablishedAt = []\<rparr>])"

text \<open>The map \<open>byHash\<close> of \<open>composeLegs\<close>: a later record replaces an earlier one of the same hash.\<close>

definition byHash :: "FactRecord list \<Rightarrow> string \<Rightarrow> FactRecord option" where
  "byHash records h = find (\<lambda>r. fr_ContentHash r = h) (rev records)"

definition legOfKind :: "ValidationLegKind \<Rightarrow> FactRecord \<Rightarrow> (LegProvenance \<times> string) option" where
  "legOfKind kind r =
     (if kind = LegSumDB then Some (fr_SumDBCheck r, fr_SumDBCheckSource r)
      else if kind = LegVCS then Some (fr_VCSCheck r, fr_VCSCheckSource r)
      else None)"

lemma byHash_in: "byHash records h = Some r \<Longrightarrow> r \<in> set records \<and> fr_ContentHash r = h"
  by (auto simp: byHash_def find_Some_iff in_set_conv_nth rev_nth)
    (metis Suc_diff_Suc diff_less length_greater_0_conv length_rev list.size(3) not_less_zero nth_mem set_rev zero_less_Suc)

text \<open>
  The walk back through inherited legs.  \<open>seen\<close> grows by a hash of the ledger at every turn, so
  the walk ends even where the sources form a cycle.
\<close>

function establishedAtOfSource ::
  "FactRecord list \<Rightarrow> ValidationLegKind \<Rightarrow> string set \<Rightarrow> string \<Rightarrow> string" where
  "establishedAtOfSource records kind seen source =
     (if source \<noteq> [] \<and> source \<notin> seen then
        case byHash records source of
          None \<Rightarrow> []
        | Some r \<Rightarrow>
            (case legOfKind kind r of
               None \<Rightarrow> []
             | Some (provenance, next_source) \<Rightarrow>
                 if provenance \<noteq> LegInherited then Format (fr_FetchedAt r)
                 else establishedAtOfSource records kind (insert source seen) next_source)
      else [])"
  by pat_completeness auto
termination
proof (relation "measure (\<lambda>(records, kind, seen, source). card (fr_ContentHash ` set records - seen))",
    goal_cases)
  case (2 records kind seen source r p _ next_source)
  then have "source \<in> fr_ContentHash ` set records - seen" by (auto dest: byHash_in)
  then have "card (fr_ContentHash ` set records - insert source seen) < card (fr_ContentHash ` set records - seen)"
    by (intro psubset_card_mono) auto
  then show ?case by simp
qed simp

declare establishedAtOfSource.simps [simp del]

definition establishedNothing :: "ValidationLeg \<Rightarrow> bool" where
  "establishedNothing l \<longleftrightarrow> Provenance l = LegUnavailable \<or> Provenance l = LegPrivateModule"

definition legIsBetter :: "ValidationLeg \<Rightarrow> ValidationLeg \<Rightarrow> bool" where
  "legIsBetter candidate current =
     (if establishedNothing candidate \<noteq> establishedNothing current then establishedNothing current
      else if EstablishedAt candidate \<noteq> EstablishedAt current
      then EstablishedAt candidate > EstablishedAt current
      else Provenance candidate = LegRechecked \<and> Provenance current = LegInherited)"

definition resolveLeg :: "FactRecord list \<Rightarrow> ValidationLeg \<Rightarrow> ValidationLeg" where
  "resolveLeg records leg =
     (if Provenance leg = LegInherited
      then leg\<lparr>EstablishedAt := establishedAtOfSource records (Kind leg) {} (Source leg)\<rparr> else leg)"

definition offerLeg ::
  "(ValidationLegKind \<Rightarrow> ValidationLeg option) \<Rightarrow> ValidationLeg \<Rightarrow> (ValidationLegKind \<Rightarrow> ValidationLeg option)" where
  "offerLeg best leg =
     (case best (Kind leg) of
        None \<Rightarrow> best(Kind leg \<mapsto> leg)
      | Some cur \<Rightarrow> if legIsBetter leg cur then best(Kind leg \<mapsto> leg) else best)"

definition composeLegs :: "FactRecord list \<Rightarrow> ValidationLeg list" where
  "composeLegs records =
     (let best = foldl offerLeg Map.empty (concat (map (\<lambda>r. map (resolveLeg records) (RecordLegs r)) records))
      in List.map_filter best [LegSumDB, LegVCS])"

subsection \<open>Composition\<close>

record CompositeRecord =
  Served :: FactRecord
  Identity :: ArtefactIdentity
  FirstFetchedAt :: instant
  LatestFetchedAt :: instant
  Legs :: "ValidationLeg list"
  MeasurementCount :: nat
  LeftOutLocalGenerations :: nat

text \<open>The choice among the observations of a local tree: the last row, unless one is newer.\<close>

fun latestObservation :: "FactRecord \<Rightarrow> FactRecord list \<Rightarrow> FactRecord" where
  "latestObservation served [] = served"
| "latestObservation served (r # rs) =
     latestObservation (if fr_FetchedAt r > fr_FetchedAt served then r else served) rs"

definition servedRecord :: "(string \<Rightarrow> bool) \<Rightarrow> FactRecord list \<Rightarrow> FactRecord" where
  "servedRecord v records =
     (if IsLocal (fr_Coordinate v (hd records)) then latestObservation (last records) records
      else serve servesBefore records)"

definition Compose :: "(string \<Rightarrow> bool) \<Rightarrow> FactRecord list \<Rightarrow> fetch_error + CompositeRecord" where
  "Compose v records =
     (case records of
        [] \<Rightarrow> Inl NoRecordsToCompose
      | r0 # rest \<Rightarrow>
          (let served = servedRecord v records in
           case ArtefactIdentityOf served of
             Inl e \<Rightarrow> Inl e
           | Inr identity \<Rightarrow>
               Inr \<lparr>Served = served, Identity = identity,
                    FirstFetchedAt = foldl (\<lambda>t r. if fr_FetchedAt r < t then fr_FetchedAt r else t) (fr_FetchedAt r0) rest,
                    LatestFetchedAt = foldl (\<lambda>t r. if fr_FetchedAt r > t then fr_FetchedAt r else t) (fr_FetchedAt r0) rest,
                    Legs = composeLegs records, MeasurementCount = length records,
                    LeftOutLocalGenerations = 0\<rparr>))"

lemma foldl_first:
  "foldl (\<lambda>t r. if f r < t then f r else t) t0 rs = Min (insert t0 (f ` set rs))" for f :: "'a \<Rightarrow> int"
proof (induction rs arbitrary: t0)
  case (Cons r rs)
  have "Min (insert (if f r < t0 then f r else t0) (f ` set rs)) = Min (insert t0 (insert (f r) (f ` set rs)))"
    by (cases "set rs = {}") (auto simp: min_def)
  with Cons show ?case by simp
qed simp

lemma foldl_latest:
  "foldl (\<lambda>t r. if f r > t then f r else t) t0 rs = Max (insert t0 (f ` set rs))" for f :: "'a \<Rightarrow> int"
proof (induction rs arbitrary: t0)
  case (Cons r rs)
  have "Max (insert (if f r > t0 then f r else t0) (f ` set rs)) = Max (insert t0 (insert (f r) (f ` set rs)))"
    by (cases "set rs = {}") (auto simp: max_def)
  with Cons show ?case by simp
qed simp

lemma latestObservation_in: "latestObservation s rs \<in> insert s (set rs)"
  by (induction rs arbitrary: s) (auto split: if_splits)

lemma latestObservation_newest:
  "r \<in> insert s (set rs) \<Longrightarrow> fr_FetchedAt r \<le> fr_FetchedAt (latestObservation s rs)"
proof (induction rs arbitrary: s r)
  case (Cons x rs)
  define s' where "s' = (if fr_FetchedAt x > fr_FetchedAt s then x else s)"
  have "fr_FetchedAt s' \<le> fr_FetchedAt (latestObservation s' rs)" by (rule Cons.IH) simp
  moreover have "fr_FetchedAt x \<le> fr_FetchedAt s'" "fr_FetchedAt s \<le> fr_FetchedAt s'"
    by (simp_all add: s'_def)
  moreover have "latestObservation s (x # rs) = latestObservation s' rs" by (simp add: s'_def)
  moreover have "fr_FetchedAt r \<le> fr_FetchedAt (latestObservation s' rs)" if "r \<in> set rs"
    using Cons.IH [of r s'] that by simp
  ultimately show ?case using Cons.prems by auto
qed simp

lemma servedRecord_in: "records \<noteq> [] \<Longrightarrow> servedRecord v records \<in> set records"
  using latestObservation_in [of "last records" records] fetch.served_in [of records]
  by (auto simp: servedRecord_def)

lemma Compose_Inr:
  assumes "Compose v records = Inr c"
  shows "records \<noteq> []" "Served c = servedRecord v records" "ArtefactIdentityOf (Served c) = Inr (Identity c)"
    "FirstFetchedAt c = Min (fr_FetchedAt ` set records)"
    "LatestFetchedAt c = Max (fr_FetchedAt ` set records)"
    "Legs c = composeLegs records" "MeasurementCount c = length records" "LeftOutLocalGenerations c = 0"
  using assms
  by (auto simp: Compose_def foldl_first foldl_latest Let_def split: list.splits sum.splits)

text \<open>
  C3: a reader is served the strongest eligible measurement.  A composition of a published
  coordinate serves one of the rows unaltered, none of them should be served before it, and it
  is cache-eligible whenever any row is (so a failed checksum lookup never displaces a good
  measurement), and a full record whenever an eligible full record exists.  Its identity is the
  served row's own and its dates span exactly the rows composed.
\<close>

theorem compose_serves_strongest:
  assumes "Compose v records = Inr c" "\<not> IsLocal (fr_Coordinate v (hd records))"
  shows "Served c \<in> set records \<and> (\<forall>r \<in> set records. \<not> servesBefore r (Served c))
    \<and> ((\<exists>r \<in> set records. RecordIsCacheable r) \<longrightarrow> RecordIsCacheable (Served c))
    \<and> ((\<exists>r \<in> set records. RecordIsCacheable r \<and> \<not> IsGoModOnly r) \<longrightarrow> \<not> IsGoModOnly (Served c))
    \<and> ArtefactIdentityOf (Served c) = Inr (Identity c)
    \<and> (\<forall>r \<in> set records. FirstFetchedAt c \<le> fr_FetchedAt r \<and> fr_FetchedAt r \<le> LatestFetchedAt c)
    \<and> FirstFetchedAt c \<in> fr_FetchedAt ` set records \<and> LatestFetchedAt c \<in> fr_FetchedAt ` set records
    \<and> MeasurementCount c = length records"
proof -
  note c = Compose_Inr [OF assms(1)]
  have served: "Served c = serve servesBefore records" using c(2) assms(2) by (simp add: servedRecord_def)
  note first = fetch.nothing_before_served [of _ records, folded served]
  have eligible: "RecordIsCacheable (Served c)" if "r \<in> set records" "RecordIsCacheable r" for r
    unfolding served by (rule fetch.served_prefers [of RecordIsCacheable, OF _ that]) (simp add: servesBefore_def)
  have "\<not> IsGoModOnly (Served c)" if "r \<in> set records" "RecordIsCacheable r" "\<not> IsGoModOnly r" for r
    using first [OF that(1)] eligible [OF that(1,2)] that by (auto simp: servesBefore_def)
  then show ?thesis
    using c first eligible servedRecord_in [OF c(1), of v] by auto
qed

lemma same_hashes:
  "fr_ModuleHash r = fr_ModuleHash q \<Longrightarrow> fr_GoModHash r = fr_GoModHash q \<Longrightarrow>
   ArtefactIdentityOf r = ArtefactIdentityOf q"
  unfolding ArtefactIdentityOf_def by (simp split: sum.split)

theorem compose_serves_strongest_witness:
  "\<exists>c. Compose (\<lambda>s. True) [example_record\<lparr>fr_SumDBLookupFailed := True, fr_FetchedAt := 2000000000\<rparr>, example_record] = Inr c
     \<and> RecordIsCacheable (Served c) \<and> FirstFetchedAt c \<le> 1000000000"
proof -
  let ?rs = "[example_record\<lparr>fr_SumDBLookupFailed := True, fr_FetchedAt := 2000000000\<rparr>, example_record]"
  have id: "ArtefactIdentityOf r = ArtefactIdentityOf example_record" if "r \<in> set ?rs" for r
    by (rule same_hashes) (use that in auto)
  have "ArtefactIdentityOf (servedRecord (\<lambda>s. True) ?rs) = ArtefactIdentityOf example_record"
    by (rule id, rule servedRecord_in) simp
  then obtain c where c: "Compose (\<lambda>s. True) ?rs = Inr c"
    by (simp add: Compose_def example_record_identity Let_def)
  have "\<not> IsLocal (fr_Coordinate (\<lambda>s. True) (hd ?rs))"
    by (simp add: example_record_def fr_Coordinate_def NewModuleCoordinate_def IsLocal_def LocalVersion_def)
  from compose_serves_strongest [OF c this] c show ?thesis
    by (auto simp: example_record_def RecordIsCacheable_def)
qed

text \<open>
  The answer does not depend on the order the rows are read in.  For rows of a published
  coordinate that are distinct records (distinct content hashes), any two listings of the same
  rows give the same served record, identity, dates and count.
\<close>

theorem compose_any_order:
  assumes "Compose v records = Inr c" "mset records = mset records'"
    and "inj_on fr_ContentHash (set records)"
    and "\<forall>r \<in> set records. \<not> IsLocal (fr_Coordinate v r)"
  shows "\<exists>c'. Compose v records' = Inr c' \<and> c'\<lparr>Legs := Legs c\<rparr> = c"
proof -
  note c = Compose_Inr [OF assms(1)]
  have sets: "set records = set records'" and len: "length records = length records'"
    using assms(2) by (metis set_mset_mset, metis size_mset)
  have ne: "records' \<noteq> []" using c(1) sets by auto
  have "servedRecord v records' = servedRecord v records"
    using fetch.served_any_order [OF sets c(1) assms(3)] assms(4) hd_in_set [OF c(1)]
      hd_in_set [OF ne] sets
    by (simp add: servedRecord_def)
  with c(2,3) ne obtain c' where c': "Compose v records' = Inr c'"
    by (auto simp: Compose_def Let_def neq_Nil_conv)
  note d = Compose_Inr [OF c']
  have "Identity c' = Identity c"
    using c(2,3) d(2,3) \<open>servedRecord v records' = servedRecord v records\<close> by simp
  then have "c'\<lparr>Legs := Legs c\<rparr> = c"
    using c d sets len \<open>servedRecord v records' = servedRecord v records\<close> by (cases c; cases c') simp
  with c' show ?thesis by blast
qed

theorem compose_any_order_witness:
  "\<exists>c'. Compose (\<lambda>s. True) [example_record\<lparr>fr_ContentHash := ''sha256:00''\<rparr>, example_record] = Inr c'"
proof -
  let ?x = "example_record\<lparr>fr_ContentHash := ''sha256:00''\<rparr>"
  have id: "ArtefactIdentityOf r = ArtefactIdentityOf example_record" if "r \<in> set [example_record, ?x]" for r
    by (rule same_hashes) (use that in auto)
  have "ArtefactIdentityOf (servedRecord (\<lambda>s. True) [example_record, ?x]) = ArtefactIdentityOf example_record"
    by (rule id, rule servedRecord_in) simp
  then obtain c where c: "Compose (\<lambda>s. True) [example_record, ?x] = Inr c"
    by (simp add: Compose_def example_record_identity Let_def)
  show ?thesis
    using compose_any_order [OF c, of "[?x, example_record]"]
    by (auto simp: example_record_def fr_Coordinate_def NewModuleCoordinate_def IsLocal_def LocalVersion_def)
qed

subsection \<open>What the united legs say\<close>

lemma establishedAtOfSource_from:
  "establishedAtOfSource records kind seen source \<noteq> [] \<Longrightarrow>
   \<exists>r \<in> set records. \<exists>p n. legOfKind kind r = Some (p, n) \<and> p \<noteq> LegInherited
     \<and> establishedAtOfSource records kind seen source = Format (fr_FetchedAt r)"
proof (induction records kind seen source rule: establishedAtOfSource.induct)
  case (1 records kind seen source)
  then obtain r p n where r: "source \<noteq> [] \<and> source \<notin> seen" "byHash records source = Some r"
      "legOfKind kind r = Some (p, n)"
    by (subst (asm) establishedAtOfSource.simps) (auto split: if_splits option.splits)
  have step: "establishedAtOfSource records kind seen source = (if p \<noteq> LegInherited
      then Format (fr_FetchedAt r) else establishedAtOfSource records kind (insert source seen) n)"
    using r by (subst establishedAtOfSource.simps) simp
  show ?case
  proof (cases "p = LegInherited")
    case True
    then show ?thesis
      using "1.IH" [OF r(1,2,3) refl] "1.prems" step by simp
  next
    case False
    then show ?thesis using r step byHash_in by auto
  qed
qed

text \<open>The key \<open>legIsBetter\<close> compares by, for the provenances the code names.\<close>

definition legKey :: "ValidationLeg \<Rightarrow> bool \<times> string \<times> bool" where
  "legKey l = (\<not> establishedNothing l, EstablishedAt l, Provenance l = LegRechecked)"

definition namedProvenance :: "ValidationLeg \<Rightarrow> bool" where
  "namedProvenance l \<longleftrightarrow> Provenance l \<in> {LegRechecked, LegInherited, LegUnavailable, LegPrivateModule}"

lemma legIsBetter_key:
  "namedProvenance a \<Longrightarrow> namedProvenance b \<Longrightarrow> legIsBetter a b \<longleftrightarrow> legKey b < legKey a"
  by (auto simp: legIsBetter_def legKey_def namedProvenance_def establishedNothing_def less_prod_def
      split: if_splits)

lemma offerLeg_at:
  "offerLeg best leg k = (if Kind leg = k then (case best k of None \<Rightarrow> Some leg
     | Some cur \<Rightarrow> if legIsBetter leg cur then Some leg else Some cur) else best k)"
  by (auto simp: offerLeg_def split: option.splits)

lemma offerLeg_best:
  assumes "\<forall>l \<in> set ls. namedProvenance l"
  shows "case foldl offerLeg Map.empty ls k of
      None \<Rightarrow> \<forall>l \<in> set ls. Kind l \<noteq> k
    | Some m \<Rightarrow> m \<in> set ls \<and> Kind m = k \<and> (\<forall>l \<in> set ls. Kind l = k \<longrightarrow> \<not> legIsBetter l m)"
  using assms
proof (induction ls rule: rev_induct)
  case (snoc x ls)
  define b where "b = foldl offerLeg Map.empty ls"
  have b: "foldl offerLeg Map.empty (ls @ [x]) k = offerLeg b x k" by (simp add: b_def)
  have IH: "case b k of None \<Rightarrow> \<forall>l \<in> set ls. Kind l \<noteq> k
    | Some m \<Rightarrow> m \<in> set ls \<and> Kind m = k \<and> (\<forall>l \<in> set ls. Kind l = k \<longrightarrow> \<not> legIsBetter l m)"
    unfolding b_def by (rule snoc.IH) (use snoc.prems in simp)
  have irrefl: "\<not> legIsBetter x x" by (simp add: legIsBetter_def)
  show ?case
  proof (cases "Kind x = k")
    case False
    with IH show ?thesis unfolding b by (auto simp: offerLeg_at split: option.splits)
  next
    case True
    show ?thesis
    proof (cases "b k")
      case None
      with True IH irrefl show ?thesis unfolding b by (auto simp: offerLeg_at)
    next
      case (Some m)
      with IH have m: "m \<in> set ls" "Kind m = k" "\<forall>l \<in> set ls. Kind l = k \<longrightarrow> \<not> legIsBetter l m" by auto
      have "\<not> legIsBetter l x" if "legIsBetter x m" "l \<in> set ls" "Kind l = k" for l
        using that m snoc.prems legIsBetter_key [of x m] legIsBetter_key [of l m] legIsBetter_key [of l x]
        by (auto dest: order.strict_trans)
      with True Some m irrefl show ?thesis unfolding b by (auto simp: offerLeg_at)
    qed
  qed
qed simp

lemma resolveLeg_fields [simp]:
  "Kind (resolveLeg rs l) = Kind l" "Provenance (resolveLeg rs l) = Provenance l"
  "namedProvenance (resolveLeg rs l) = namedProvenance l"
  by (simp_all add: resolveLeg_def namedProvenance_def)

definition namedChecks :: "FactRecord \<Rightarrow> bool" where
  "namedChecks r \<longleftrightarrow> {fr_SumDBCheck r, fr_VCSCheck r} \<subseteq>
     {LegAbsent, LegRechecked, LegInherited, LegUnavailable, LegPrivateModule}"

lemma RecordLegs_named: "namedChecks r \<Longrightarrow> l \<in> set (RecordLegs r) \<Longrightarrow> namedProvenance l"
  by (auto simp: namedChecks_def RecordLegs_def dateLeg_def namedProvenance_def split: if_splits)

lemma RecordLegs_kind: "l \<in> set (RecordLegs r) \<Longrightarrow> Kind l = LegSumDB \<or> Kind l = LegVCS"
  by (auto simp: RecordLegs_def dateLeg_def split: if_splits)

definition statedLegs :: "FactRecord list \<Rightarrow> ValidationLeg set" where
  "statedLegs records = (\<Union>r \<in> set records. resolveLeg records ` set (RecordLegs r))"

text \<open>
  The legs of a composite are the best the rows establish.  Every reported leg is one a row
  states, with its date resolved; a leg of a kind is reported exactly when some row states it,
  and no stated leg of that kind is better; and the date of an inherited leg is empty or the
  measurement date of a row that performed the check itself, never of a row that inherited it.
\<close>

theorem compose_legs_best:
  assumes "\<forall>r \<in> set records. namedChecks r"
  shows "(\<forall>m \<in> set (composeLegs records). m \<in> statedLegs records
      \<and> (\<forall>l \<in> statedLegs records. Kind l = Kind m \<longrightarrow> \<not> legIsBetter l m)
      \<and> (Provenance m = LegInherited \<longrightarrow> EstablishedAt m = [] \<or>
          (\<exists>r \<in> set records. \<exists>p n. legOfKind (Kind m) r = Some (p, n) \<and> p \<noteq> LegInherited
             \<and> EstablishedAt m = Format (fr_FetchedAt r))))
    \<and> Kind ` set (composeLegs records) = Kind ` statedLegs records
    \<and> distinct (map Kind (composeLegs records))"
proof -
  define ls where "ls = concat (map (\<lambda>r. map (resolveLeg records) (RecordLegs r)) records)"
  have set_ls: "set ls = statedLegs records" by (auto simp: ls_def statedLegs_def)
  have named: "\<forall>l \<in> set ls. namedProvenance l"
    using assms RecordLegs_named by (auto simp: ls_def)
  define best where "best = foldl offerLeg Map.empty ls"
  note best = offerLeg_best [OF named, folded best_def]
  have out: "composeLegs records = List.map_filter best [LegSumDB, LegVCS]"
    by (simp add: composeLegs_def best_def ls_def Let_def)
  have member: "m \<in> set (composeLegs records) \<longleftrightarrow> best (Kind m) = Some m \<and> Kind m \<in> {LegSumDB, LegVCS}" for m
    using best [of LegSumDB] best [of LegVCS] unfolding out
    by (auto simp: map_filter_simps split: option.splits)
  have kinds: "Kind l \<in> {LegSumDB, LegVCS}" if "l \<in> statedLegs records" for l
    using that by (auto simp: statedLegs_def dest: RecordLegs_kind)
  have stated: "m \<in> statedLegs records \<and> (\<forall>l \<in> statedLegs records. Kind l = Kind m \<longrightarrow> \<not> legIsBetter l m)"
    if "m \<in> set (composeLegs records)" for m
    using best [of "Kind m"] member that set_ls by auto
  have "Kind l \<in> Kind ` set (composeLegs records)" if "l \<in> statedLegs records" for l
  proof (cases "best (Kind l)")
    case None
    with best [of "Kind l"] that set_ls show ?thesis by auto
  next
    case (Some m)
    with best [of "Kind l"] kinds [OF that] member [of m] show ?thesis by (auto intro!: image_eqI [of _ _ m])
  qed
  then have "Kind ` set (composeLegs records) = Kind ` statedLegs records" using stated by blast
  moreover have "distinct (map Kind (composeLegs records))"
    using best [of LegSumDB] best [of LegVCS] unfolding out
    by (auto simp: map_filter_simps split: option.splits)
  moreover have "EstablishedAt m = [] \<or> (\<exists>r \<in> set records. \<exists>p n. legOfKind (Kind m) r = Some (p, n)
      \<and> p \<noteq> LegInherited \<and> EstablishedAt m = Format (fr_FetchedAt r))"
    if "m \<in> statedLegs records" "Provenance m = LegInherited" for m
  proof -
    from that obtain l where "m = resolveLeg records l" "Provenance l = LegInherited"
      by (auto simp: statedLegs_def)
    then have "EstablishedAt m = establishedAtOfSource records (Kind m) {} (Source l)"
      by (simp add: resolveLeg_def)
    then show ?thesis using establishedAtOfSource_from [of records "Kind m" "{}" "Source l"] by auto
  qed
  ultimately show ?thesis using stated by blast
qed

theorem compose_legs_best_witness:
  "Kind ` set (composeLegs [example_record]) = Kind ` statedLegs [example_record]"
  using compose_legs_best [of "[example_record]"]
  by (simp add: namedChecks_def example_record_def)

subsection \<open>Divergence\<close>

record Divergence =
  Coordinate :: ModuleCoordinate
  PipelineVersion :: string
  Field :: string
  Values :: "string list"
  ContentHashes :: "string list"

definition pipelineVersionsOf :: "FactRecord list \<Rightarrow> string" where
  "pipelineVersionsOf records = Join (sort (remdups (map fr_PipelineVersion records))) '', ''"

text \<open>The value a field states: the empty string and the zero hash state nothing.\<close>

definition statedValues :: "(FactRecord \<Rightarrow> string) \<Rightarrow> FactRecord list \<Rightarrow> string list" where
  "statedValues field records = filter (\<lambda>v. \<not> (v = [] \<or> v = ZeroString)) (map field records)"

definition divergenceIn ::
  "(string \<Rightarrow> bool) \<Rightarrow> FactRecord list \<Rightarrow> string \<times> (FactRecord \<Rightarrow> string) \<Rightarrow> Divergence option" where
  "divergenceIn v records nf =
     (case nf of (name, field) \<Rightarrow>
        (let values = sort (remdups (statedValues field records)) in
         if length values < 2 then None
         else Some \<lparr>Coordinate = fr_Coordinate v (hd records), PipelineVersion = pipelineVersionsOf records,
                    Field = name, Values = values,
                    ContentHashes = map (\<lambda>x. fr_ContentHash (the (find (\<lambda>r. field r = x) records))) values\<rparr>))"

definition FindDivergence :: "(string \<Rightarrow> bool) \<Rightarrow> FactRecord list \<Rightarrow> Divergence option" where
  "FindDivergence v records =
     (if length records < 2 then None
      else if IsLocal (fr_Coordinate v (hd records)) then None
      else case divergenceIn v records (''module_hash'', fr_ModuleHash) of
             Some d \<Rightarrow> Some d
           | None \<Rightarrow> divergenceIn v records (''go_mod_hash'', fr_GoModHash))"

text \<open>The rows agree on a field when any two values they state for it are equal.\<close>

definition agreeOn :: "(FactRecord \<Rightarrow> string) \<Rightarrow> FactRecord list \<Rightarrow> bool" where
  "agreeOn field records \<longleftrightarrow> (\<forall>a \<in> set (statedValues field records).
     \<forall>b \<in> set (statedValues field records). a = b)"

lemma length_remdups_less_2: "length (remdups xs) < 2 \<longleftrightarrow> (\<forall>a \<in> set xs. \<forall>b \<in> set xs. a = b)"
proof -
  have "length (remdups xs) < 2 \<longleftrightarrow> card (set xs) \<le> Suc 0"
    unfolding length_remdups_card_conv by linarith
  then show ?thesis using card_le_Suc0_iff_eq [of "set xs"] by blast
qed

lemma divergenceIn_None: "divergenceIn v records (name, field) = None \<longleftrightarrow> agreeOn field records"
  using length_remdups_less_2 [of "statedValues field records"]
  by (simp add: divergenceIn_def Let_def agreeOn_def)

lemma agreeOn_short:
  assumes "length records < 2"
  shows "agreeOn field records"
proof -
  have "records = [] \<or> (\<exists>r. records = [r])"
    using assms by (cases records; cases "tl records") auto
  then show ?thesis by (auto simp: agreeOn_def statedValues_def split: if_splits)
qed

lemma agreeOn_subset:
  assumes "set records \<subseteq> set records'" "agreeOn field records'"
  shows "agreeOn field records"
proof -
  have "set (statedValues field records) \<subseteq> set (statedValues field records')"
    using assms(1) by (auto simp: statedValues_def)
  with assms(2) show ?thesis unfolding agreeOn_def by blast
qed

text \<open>
  A divergence is reported exactly when two rows of a published coordinate state different
  hashes for one field.  The report names a field, lists at least two distinct stated values in
  order, and gives for each the content hash of a row that states it; a depth a row does not
  measure never counts as a disagreement; and reading more rows never makes one disappear.
\<close>

theorem divergence_iff_disagreement:
  assumes "\<forall>r \<in> set records'. fr_Coordinate v r = coord" "\<not> IsLocal coord"
    and "set records \<subseteq> set records'"
  shows "(FindDivergence v records = None \<longleftrightarrow>
            agreeOn fr_ModuleHash records \<and> agreeOn fr_GoModHash records)
    \<and> (FindDivergence v records \<noteq> None \<longrightarrow> FindDivergence v records' \<noteq> None)
    \<and> (FindDivergence v records = Some d \<longrightarrow> Coordinate d = coord \<and> 2 \<le> length (Values d)
        \<and> sorted (Values d) \<and> distinct (Values d) \<and> length (ContentHashes d) = length (Values d)
        \<and> (\<exists>field \<in> {fr_ModuleHash, fr_GoModHash}. \<forall>i < length (Values d). Values d ! i \<notin> {[], ZeroString}
             \<and> (\<exists>r \<in> set records. field r = Values d ! i \<and> fr_ContentHash r = ContentHashes d ! i)))"
proof -
  have none: "FindDivergence v rs = None \<longleftrightarrow> agreeOn fr_ModuleHash rs \<and> agreeOn fr_GoModHash rs"
    if "set rs \<subseteq> set records'" for rs
  proof (cases "length rs < 2")
    case True
    then show ?thesis using agreeOn_short [OF True] by (simp add: FindDivergence_def)
  next
    case False
    then have "hd rs \<in> set records'" using that by (cases rs) auto
    then show ?thesis
      using False assms(1,2) divergenceIn_None [of v rs "''module_hash''" fr_ModuleHash]
        divergenceIn_None [of v rs "''go_mod_hash''" fr_GoModHash]
      by (auto simp: FindDivergence_def split: option.split)
  qed
  have found: "2 \<le> length (Values d) \<and> sorted (Values d) \<and> distinct (Values d)
      \<and> length (ContentHashes d) = length (Values d) \<and> Coordinate d = fr_Coordinate v (hd records)
      \<and> (\<forall>i < length (Values d). Values d ! i \<notin> {[], ZeroString}
             \<and> (\<exists>r \<in> set records. field r = Values d ! i \<and> fr_ContentHash r = ContentHashes d ! i))"
    if "divergenceIn v records (name, field) = Some d" for name field
  proof -
    have d: "Values d = sort (remdups (statedValues field records))" "2 \<le> length (Values d)"
      "Coordinate d = fr_Coordinate v (hd records)"
      "ContentHashes d = map (\<lambda>x. fr_ContentHash (the (find (\<lambda>r. field r = x) records))) (Values d)"
      using that by (auto simp: divergenceIn_def Let_def split: if_splits)
    have "x \<notin> {[], ZeroString} \<and> (\<exists>r \<in> set records. field r = x
        \<and> fr_ContentHash r = fr_ContentHash (the (find (\<lambda>r. field r = x) records)))"
      if "x \<in> set (Values d)" for x
    proof -
      have x: "x \<in> set (statedValues field records)" using that d(1) by simp
      then have "find (\<lambda>r. field r = x) records \<noteq> None"
        by (auto simp: find_None_iff statedValues_def)
      then obtain r where r: "find (\<lambda>r. field r = x) records = Some r" by blast
      then have "r \<in> set records" "field r = x"
        by (auto simp: find_Some_iff in_set_conv_nth)
      with r x show ?thesis by (auto simp: statedValues_def)
    qed
    from this [OF nth_mem] have "\<forall>i < length (Values d). Values d ! i \<notin> {[], ZeroString}
        \<and> (\<exists>r \<in> set records. field r = Values d ! i \<and> fr_ContentHash r = ContentHashes d ! i)"
      unfolding d(4) by (intro allI impI) (subst nth_map, assumption, blast)
    moreover have "sorted (Values d)" "distinct (Values d)" by (simp_all add: d(1))
    ultimately show ?thesis using d(2,3,4) by simp
  qed
  have report: "Coordinate d = coord \<and> (\<exists>field \<in> {fr_ModuleHash, fr_GoModHash}. \<exists>name.
      divergenceIn v records (name, field) = Some d)" if "FindDivergence v records = Some d"
  proof -
    have "records \<noteq> []" using that by (auto simp: FindDivergence_def)
    then have "fr_Coordinate v (hd records) = coord" using assms(1,3) hd_in_set by blast
    moreover from that obtain name field where f: "field \<in> {fr_ModuleHash, fr_GoModHash}"
        "divergenceIn v records (name, field) = Some d"
      by (auto simp: FindDivergence_def split: if_splits option.splits)
    ultimately show ?thesis using found [OF f(2)] by auto
  qed
  have grows: "FindDivergence v records' \<noteq> None" if "FindDivergence v records \<noteq> None"
    using that none [OF assms(3)] none [OF order.refl] agreeOn_subset [OF assms(3), of fr_ModuleHash]
      agreeOn_subset [OF assms(3), of fr_GoModHash] by auto
  show ?thesis
    using none [OF assms(3)] grows report found by meson
qed

theorem divergence_iff_disagreement_witness:
  "FindDivergence (\<lambda>s. True) [example_record, example_record\<lparr>fr_ModuleHash := ''h1:cc''\<rparr>] \<noteq> None"
  using divergence_iff_disagreement [of "[example_record, example_record\<lparr>fr_ModuleHash := ''h1:cc''\<rparr>]"
      "\<lambda>s. True" "ModuleCoordinate ''a/mux'' ''v1.8.1''"
      "[example_record, example_record\<lparr>fr_ModuleHash := ''h1:cc''\<rparr>]"]
  by (auto simp: example_record_def fr_Coordinate_def NewModuleCoordinate_def IsLocal_def LocalVersion_def
      agreeOn_def statedValues_def ZeroString_def)

subsection \<open>Superseded local generations\<close>

definition SupersededLocalGenerations ::
  "ModuleCoordinate \<Rightarrow> FactRecord list \<Rightarrow> FactRecord list \<times> FactRecord list" where
  "SupersededLocalGenerations coord records =
     (if IsLocal coord then (records, [])
      else (filter (\<lambda>r. fr_VerificationStatus r \<noteq> LocalSource) records,
            filter (\<lambda>r. fr_VerificationStatus r = LocalSource) records))"

text \<open>The loop that collects the identities of rows, stopping at the first unparsable one.\<close>

fun identitiesOf :: "FactRecord list \<Rightarrow> fetch_error + string list" where
  "identitiesOf [] = Inr []"
| "identitiesOf (r # rs) =
     (case ArtefactIdentityOf r of
        Inl e \<Rightarrow> Inl e
      | Inr a \<Rightarrow> (case identitiesOf rs of Inl e \<Rightarrow> Inl e | Inr ids \<Rightarrow> Inr (identity_String a # ids)))"

definition SupersededLocalArtefacts ::
  "ModuleCoordinate \<Rightarrow> FactRecord list \<Rightarrow> fetch_error + string set" where
  "SupersededLocalArtefacts coord records =
     (case SupersededLocalGenerations coord records of
        (kept, superseded) \<Rightarrow>
          if superseded = [] then Inr {}
          else case identitiesOf kept of
                 Inl e \<Rightarrow> Inl e
               | Inr published \<Rightarrow>
                   (case identitiesOf superseded of
                      Inl e \<Rightarrow> Inl e
                    | Inr ids \<Rightarrow> Inr {i \<in> set ids. i \<notin> set published}))"

lemma identitiesOf_Inr:
  "identitiesOf rs = Inr ids \<Longrightarrow> set ids = {identity_String a | a r. r \<in> set rs \<and> ArtefactIdentityOf r = Inr a}"
proof (induction rs arbitrary: ids)
  case (Cons r rs)
  then obtain a ss where a: "ArtefactIdentityOf r = Inr a" "identitiesOf rs = Inr ss"
      "ids = identity_String a # ss" by (auto split: sum.splits)
  with Cons.IH [OF a(2)] show ?case by fastforce
qed simp

text \<open>
  A published coordinate's read leaves out exactly the directory-derived rows.  Kept and
  left-out rows partition the listing in order; a local coordinate keeps everything; and an
  artefact is reported as superseded only when some left-out row has it and no kept row does, so
  a published artefact is never withdrawn for having also been seen in a directory.
\<close>

theorem superseded_local_partition:
  assumes "SupersededLocalGenerations coord records = (kept, superseded)"
  shows "mset records = mset kept + mset superseded
    \<and> (IsLocal coord \<longrightarrow> kept = records)
    \<and> (\<not> IsLocal coord \<longrightarrow> (\<forall>r \<in> set records. r \<in> set superseded \<longleftrightarrow> fr_VerificationStatus r = LocalSource))
    \<and> (\<forall>ids. SupersededLocalArtefacts coord records = Inr ids \<longrightarrow>
         ids = {identity_String a | a r. r \<in> set superseded \<and> ArtefactIdentityOf r = Inr a
                  \<and> (\<forall>k \<in> set kept. \<forall>b. ArtefactIdentityOf k = Inr b \<longrightarrow> identity_String b \<noteq> identity_String a)})"
proof -
  have "ids = {identity_String a | a r. r \<in> set superseded \<and> ArtefactIdentityOf r = Inr a
      \<and> (\<forall>k \<in> set kept. \<forall>b. ArtefactIdentityOf k = Inr b \<longrightarrow> identity_String b \<noteq> identity_String a)}"
    if "SupersededLocalArtefacts coord records = Inr ids" for ids
  proof (cases "superseded = []")
    case True
    with that assms show ?thesis by (simp add: SupersededLocalArtefacts_def)
  next
    case False
    with that assms obtain ps ss where "identitiesOf kept = Inr ps" "identitiesOf superseded = Inr ss"
        "ids = {i \<in> set ss. i \<notin> set ps}"
      by (auto simp: SupersededLocalArtefacts_def split: sum.splits)
    then have "i \<in> ids \<longleftrightarrow> i \<in> set ss \<and> i \<notin> set ps" "i \<in> set ps \<longleftrightarrow> (\<exists>k \<in> set kept. \<exists>b.
        ArtefactIdentityOf k = Inr b \<and> i = identity_String b)"
      "i \<in> set ss \<longleftrightarrow> (\<exists>r \<in> set superseded. \<exists>a. ArtefactIdentityOf r = Inr a \<and> i = identity_String a)" for i
      using identitiesOf_Inr [of kept ps] identitiesOf_Inr [of superseded ss] by auto
    then show ?thesis by (intro set_eqI) (auto, metis)
  qed
  moreover have "mset records = mset kept + mset superseded"
    using assms multiset_partition [of "mset records" "\<lambda>r. fr_VerificationStatus r \<noteq> LocalSource"]
    by (auto simp: SupersededLocalGenerations_def split: if_splits)
  ultimately show ?thesis
    using assms by (auto simp: SupersededLocalGenerations_def split: if_splits)
qed

theorem superseded_local_partition_witness:
  "mset [example_record] = mset [example_record] + mset ([] :: FactRecord list)"
  using superseded_local_partition [of "ModuleCoordinate ''a/mux'' ''v1.8.1''" "[example_record]" "[example_record]" "[]"]
  by (simp add: SupersededLocalGenerations_def IsLocal_def LocalVersion_def example_record_def)

end
