(* ===== verification/Walk_TinyGo.thy ===== *)
theory Walk_TinyGo
  imports Fetch_Identity
begin

text \<open>
  \<open>internal/walk/domain/tinygocustody.go\<close>: the custody verdict on the standard-library files a
  TinyGo toolchain supplies.  Each file is anchored to the TinyGo module zip, or, when the zip
  does not hold it, to the published release archive.  The verdict is built by a loop over the
  files that fills one record; the theorems say which file lands where.  \<open>quote\<close> is
  \<open>strconv.Quote\<close> (the verb \<open>%q\<close>); only its text depends on it.
\<close>

record TinyGoSourceFile =
  sf_Path :: string
  sf_SHA256 :: string

type_synonym TinyGoAnchor = string

definition TinyGoAnchorModule :: TinyGoAnchor where [simp]: "TinyGoAnchorModule = ''module''"
definition TinyGoAnchorRelease :: TinyGoAnchor where [simp]: "TinyGoAnchorRelease = ''release''"

type_synonym TinyGoReleaseOutcome = string

definition TinyGoReleaseDigestMatched :: TinyGoReleaseOutcome where
  [simp]: "TinyGoReleaseDigestMatched = ''digest_matched''"
definition TinyGoReleaseDigestMismatch :: TinyGoReleaseOutcome where
  [simp]: "TinyGoReleaseDigestMismatch = ''digest_mismatch''"

record TinyGoRelease =
  rel_Asset :: string
  rel_PublishedDigest :: string
  rel_ObservedDigest :: string
  rel_Outcome :: TinyGoReleaseOutcome
  rel_Reason :: string
  rel_MeasuredAt :: instant
  rel_Manifest :: "string \<Rightarrow> string option"

record TinyGoFileDiffers =
  df_Path :: string
  df_Anchor :: TinyGoAnchor

record TinyGoFileNotEstablished =
  ne_Path :: string
  ne_Reason :: string

record TinyGoCustody =
  tc_Module :: string
  tc_ModuleVerification :: string
  tc_ReleaseAsset :: string
  tc_ReleaseOutcome :: TinyGoReleaseOutcome
  tc_ReleasePublishedDigest :: string
  tc_ReleaseObservedDigest :: string
  tc_ReleaseMeasuredAt :: instant
  tc_VerifiedByModule :: nat
  tc_VerifiedByRelease :: nat
  tc_Differs :: "TinyGoFileDiffers list"
  tc_NotEstablished :: "TinyGoFileNotEstablished list"

record TinyGoCustodyInput =
  in_Module :: string
  in_ModuleVerification :: string
  in_ModuleFailure :: string
  in_ModuleFiles :: "string \<Rightarrow> string option"
  in_Release :: "TinyGoRelease option"
  in_Files :: "TinyGoSourceFile list"

definition AbsentFromModule :: "TinyGoCustodyInput \<Rightarrow> TinyGoSourceFile list" where
  "AbsentFromModule i = filter (\<lambda>f. in_ModuleFiles i (sf_Path f) = None) (in_Files i)"

definition notEstablished :: "TinyGoCustody \<Rightarrow> TinyGoSourceFile \<Rightarrow> string \<Rightarrow> TinyGoCustody" where
  "notEstablished c f reason =
     c\<lparr>tc_NotEstablished := tc_NotEstablished c @ [\<lparr>ne_Path = sf_Path f, ne_Reason = reason\<rparr>]\<rparr>"

definition judgeAgainstRelease :: "TinyGoCustody \<Rightarrow> TinyGoSourceFile \<Rightarrow> TinyGoRelease option \<Rightarrow> TinyGoCustody" where
  "judgeAgainstRelease c f rel =
     (case rel of
        None \<Rightarrow> notEstablished c f ''absent from the module zip and no release archive was consulted''
      | Some r \<Rightarrow>
          if rel_Outcome r = TinyGoReleaseDigestMatched then
            (case rel_Manifest r (sf_Path f) of
               None \<Rightarrow> notEstablished c f (''absent from both the module zip and the release archive '' @ rel_Asset r)
             | Some h \<Rightarrow>
                 if h = sf_SHA256 f then c\<lparr>tc_VerifiedByRelease := tc_VerifiedByRelease c + 1\<rparr>
                 else c\<lparr>tc_Differs := tc_Differs c @ [\<lparr>df_Path = sf_Path f, df_Anchor = TinyGoAnchorRelease\<rparr>]\<rparr>)
          else if rel_Outcome r = TinyGoReleaseDigestMismatch then
            notEstablished c f (''the release archive '' @ rel_Asset r @
              '' did not match its published digest (published '' @ rel_PublishedDigest r @
              '', observed '' @ rel_ObservedDigest r @ '')'')
          else if rel_Reason r \<noteq> [] then notEstablished c f (rel_Reason r)
          else notEstablished c f (''the release archive '' @ rel_Asset r @ '': '' @ rel_Outcome r))"

definition differsLess :: "TinyGoFileDiffers \<Rightarrow> TinyGoFileDiffers \<Rightarrow> bool" where
  "differsLess a b = (if df_Path a \<noteq> df_Path b then df_Path a < df_Path b else df_Anchor a < df_Anchor b)"

definition notEstablishedLess :: "TinyGoFileNotEstablished \<Rightarrow> TinyGoFileNotEstablished \<Rightarrow> bool" where
  "notEstablishedLess a b = (if ne_Path a \<noteq> ne_Path b then ne_Path a < ne_Path b else ne_Reason a < ne_Reason b)"

definition custody_Sort :: "TinyGoCustody \<Rightarrow> TinyGoCustody" where
  "custody_Sort c = c\<lparr>tc_Differs := stable_sort differsLess (tc_Differs c),
                     tc_NotEstablished := stable_sort notEstablishedLess (tc_NotEstablished c)\<rparr>"

text \<open>One turn of the loop over the files.\<close>

definition classifyFile ::
  "(string \<Rightarrow> string) \<Rightarrow> TinyGoCustodyInput \<Rightarrow> TinyGoCustody \<Rightarrow> TinyGoSourceFile \<Rightarrow> TinyGoCustody" where
  "classifyFile quote i out f =
     (if in_ModuleFailure i \<noteq> [] then
        notEstablished out f (''the module zip '' @ in_Module i @ '' could not be read: '' @ in_ModuleFailure i)
      else case in_ModuleFiles i (sf_Path f) of
        Some h \<Rightarrow>
          if \<not> IsVerified (in_ModuleVerification i) then
            notEstablished out f (''the module zip '' @ in_Module i @ '' is not verified (status '' @
              quote (in_ModuleVerification i) @ '')'')
          else if h = sf_SHA256 f then out\<lparr>tc_VerifiedByModule := tc_VerifiedByModule out + 1\<rparr>
          else out\<lparr>tc_Differs := tc_Differs out @ [\<lparr>df_Path = sf_Path f, df_Anchor = TinyGoAnchorModule\<rparr>]\<rparr>
      | None \<Rightarrow> judgeAgainstRelease out f (in_Release i))"

definition custodyStart :: "TinyGoCustodyInput \<Rightarrow> TinyGoCustody" where
  "custodyStart i =
     (let c = \<lparr>tc_Module = in_Module i, tc_ModuleVerification = in_ModuleVerification i,
              tc_ReleaseAsset = [], tc_ReleaseOutcome = [], tc_ReleasePublishedDigest = [],
              tc_ReleaseObservedDigest = [], tc_ReleaseMeasuredAt = zero_time, tc_VerifiedByModule = 0,
              tc_VerifiedByRelease = 0, tc_Differs = [], tc_NotEstablished = []\<rparr>
      in case in_Release i of
           None \<Rightarrow> c
         | Some r \<Rightarrow> c\<lparr>tc_ReleaseAsset := rel_Asset r, tc_ReleaseOutcome := rel_Outcome r,
                       tc_ReleasePublishedDigest := rel_PublishedDigest r,
                       tc_ReleaseObservedDigest := rel_ObservedDigest r,
                       tc_ReleaseMeasuredAt := rel_MeasuredAt r\<rparr>)"

definition ClassifyTinyGoCustody :: "(string \<Rightarrow> string) \<Rightarrow> TinyGoCustodyInput \<Rightarrow> TinyGoCustody" where
  "ClassifyTinyGoCustody quote i = custody_Sort (foldl (classifyFile quote i) (custodyStart i) (in_Files i))"

subsection \<open>What the verdict promises of each file\<close>

text \<open>The claim a file needs to be called verified by an anchor, or to be called different.\<close>

definition moduleSays :: "TinyGoCustodyInput \<Rightarrow> TinyGoSourceFile \<Rightarrow> string option" where
  "moduleSays i f = (if in_ModuleFailure i = [] \<and> IsVerified (in_ModuleVerification i)
                     then in_ModuleFiles i (sf_Path f) else None)"

definition releaseSays :: "TinyGoCustodyInput \<Rightarrow> TinyGoSourceFile \<Rightarrow> string option" where
  "releaseSays i f =
     (case in_Release i of
        None \<Rightarrow> None
      | Some r \<Rightarrow> if in_ModuleFailure i = [] \<and> in_ModuleFiles i (sf_Path f) = None
                     \<and> rel_Outcome r = TinyGoReleaseDigestMatched
                  then rel_Manifest r (sf_Path f) else None)"

definition differing :: "TinyGoCustodyInput \<Rightarrow> TinyGoSourceFile \<Rightarrow> TinyGoFileDiffers list" where
  "differing i f =
     (if moduleSays i f \<noteq> None \<and> moduleSays i f \<noteq> Some (sf_SHA256 f)
      then [\<lparr>df_Path = sf_Path f, df_Anchor = TinyGoAnchorModule\<rparr>]
      else if releaseSays i f \<noteq> None \<and> releaseSays i f \<noteq> Some (sf_SHA256 f)
      then [\<lparr>df_Path = sf_Path f, df_Anchor = TinyGoAnchorRelease\<rparr>] else [])"

definition unanchored :: "TinyGoCustodyInput \<Rightarrow> TinyGoSourceFile \<Rightarrow> bool" where
  "unanchored i f \<longleftrightarrow> moduleSays i f = None \<and> releaseSays i f = None"

lemma classifyFile_counts:
  "tc_VerifiedByModule (classifyFile q i c f) =
     tc_VerifiedByModule c + (if moduleSays i f = Some (sf_SHA256 f) then 1 else 0)"
  "tc_VerifiedByRelease (classifyFile q i c f) =
     tc_VerifiedByRelease c + (if releaseSays i f = Some (sf_SHA256 f) then 1 else 0)"
  "tc_Differs (classifyFile q i c f) = tc_Differs c @ differing i f"
  "map ne_Path (tc_NotEstablished (classifyFile q i c f)) =
     map ne_Path (tc_NotEstablished c) @ (if unanchored i f then [sf_Path f] else [])"
  by (auto simp: classifyFile_def judgeAgainstRelease_def notEstablished_def moduleSays_def
      releaseSays_def differing_def unanchored_def split: option.splits)

lemma classify_fold:
  "tc_VerifiedByModule (foldl (classifyFile q i) c fs) =
     tc_VerifiedByModule c + length (filter (\<lambda>f. moduleSays i f = Some (sf_SHA256 f)) fs)"
  "tc_VerifiedByRelease (foldl (classifyFile q i) c fs) =
     tc_VerifiedByRelease c + length (filter (\<lambda>f. releaseSays i f = Some (sf_SHA256 f)) fs)"
  "tc_Differs (foldl (classifyFile q i) c fs) = tc_Differs c @ concat (map (differing i) fs)"
  "map ne_Path (tc_NotEstablished (foldl (classifyFile q i) c fs)) =
     map ne_Path (tc_NotEstablished c) @ map sf_Path (filter (unanchored i) fs)"
  by (induction fs arbitrary: c) (simp_all add: classifyFile_counts)

lemma one_bucket:
  "(if moduleSays i f = Some (sf_SHA256 f) then 1 else 0)
     + (if releaseSays i f = Some (sf_SHA256 f) then 1 else 0)
     + length (differing i f) + (if unanchored i f then 1 else 0) = (1 :: nat)"
  by (auto simp: moduleSays_def releaseSays_def differing_def unanchored_def split: option.splits)

lemma buckets:
  "length (filter (\<lambda>f. moduleSays i f = Some (sf_SHA256 f)) fs)
     + length (filter (\<lambda>f. releaseSays i f = Some (sf_SHA256 f)) fs)
     + length (concat (map (differing i) fs)) + length (filter (unanchored i) fs) = length fs"
proof (induction fs)
  case (Cons f fs)
  with one_bucket [of i f] show ?case by (simp split: if_splits)
qed simp

text \<open>
  C20: every file is accounted for once, and verified only on a matching digest.  The counts and
  the two lists of the verdict add up to the number of files; the verified counts are the
  numbers of files whose digest equals the one a verified module zip, or for files absent from
  it a digest-matched release, states; the differing list names exactly the files an anchor
  contradicts, with that anchor; and the not-established list names exactly the files no anchor
  vouches for.
\<close>

theorem custody_accounts_for_every_file:
  "let c = ClassifyTinyGoCustody quote i in
   tc_VerifiedByModule c + tc_VerifiedByRelease c + length (tc_Differs c) + length (tc_NotEstablished c)
     = length (in_Files i)
   \<and> tc_VerifiedByModule c = length (filter (\<lambda>f. moduleSays i f = Some (sf_SHA256 f)) (in_Files i))
   \<and> tc_VerifiedByRelease c = length (filter (\<lambda>f. releaseSays i f = Some (sf_SHA256 f)) (in_Files i))
   \<and> mset (tc_Differs c) = mset (concat (map (differing i) (in_Files i)))
   \<and> image_mset ne_Path (mset (tc_NotEstablished c)) = mset (map sf_Path (filter (unanchored i) (in_Files i)))"
proof -
  define w where "w = foldl (classifyFile quote i) (custodyStart i) (in_Files i)"
  have start: "tc_VerifiedByModule (custodyStart i) = 0" "tc_VerifiedByRelease (custodyStart i) = 0"
    "tc_Differs (custodyStart i) = []" "tc_NotEstablished (custodyStart i) = []"
    by (simp_all add: custodyStart_def Let_def split: option.split)
  note fold = classify_fold [of quote i "custodyStart i" "in_Files i", folded w_def, unfolded start]
  have ne: "length (tc_NotEstablished w) = length (filter (unanchored i) (in_Files i))"
    using arg_cong [OF fold(4), of length] by simp
  have "image_mset ne_Path (mset (tc_NotEstablished w)) = mset (map sf_Path (filter (unanchored i) (in_Files i)))"
    using arg_cong [OF fold(4), of mset] by simp
  moreover have "ClassifyTinyGoCustody quote i = custody_Sort w" by (simp add: ClassifyTinyGoCustody_def w_def)
  ultimately show ?thesis
    using fold ne buckets [of i "in_Files i"] by (simp add: custody_Sort_def Let_def)
qed

subsection \<open>The canonical form\<close>

text \<open>Reasons in order, each with its paths in order: the map \<open>byReason\<close> as a lookup.\<close>

definition NotEstablishedByReason :: "TinyGoCustody \<Rightarrow> string list \<times> (string \<Rightarrow> string list)" where
  "NotEstablishedByReason c =
     (sort (remdups (map ne_Reason (tc_NotEstablished c))),
      \<lambda>r. sort (map ne_Path (filter (\<lambda>n. ne_Reason n = r) (tc_NotEstablished c))))"

text \<open>The groups written, and the loop that reads them back.\<close>

definition groupNotEstablished :: "TinyGoCustody \<Rightarrow> (string list \<times> string) list" where
  "groupNotEstablished c =
     (case NotEstablishedByReason (custody_Sort c) of
        (reasons, byReason) \<Rightarrow> map (\<lambda>r. (byReason r, r)) reasons)"

definition ungroupNotEstablished :: "(string list \<times> string) list \<Rightarrow> TinyGoFileNotEstablished list" where
  "ungroupNotEstablished gs =
     stable_sort notEstablishedLess
       (concat (map (\<lambda>(paths, reason). map (\<lambda>p. \<lparr>ne_Path = p, ne_Reason = reason\<rparr>) paths) gs))"

lemma swo_notEstablishedLess: "swo notEstablishedLess"
  unfolding notEstablishedLess_def [abs_def] by (intro swo_intros)

lemma group_mset:
  "mset (concat (map (\<lambda>r. filter (\<lambda>n. k n = r) xs) (remdups (map k xs)))) = mset xs"
proof (rule multiset_eqI)
  fix x
  have single: "sum_list (map (\<lambda>r. count (mset (filter (\<lambda>n. k n = r) xs)) x) rs)
      = (if k x \<in> set rs then count (mset xs) x else 0)" if "distinct rs" for rs
    using that by (induction rs) auto
  have "count (mset (concat (map (\<lambda>r. filter (\<lambda>n. k n = r) xs) rs))) x
      = sum_list (map (\<lambda>r. count (mset (filter (\<lambda>n. k n = r) xs)) x) rs)" for rs
    by (induction rs) auto
  then show "count (mset (concat (map (\<lambda>r. filter (\<lambda>n. k n = r) xs) (remdups (map k xs))))) x = count (mset xs) x"
    using single [of "remdups (map k xs)"] by (auto simp: count_eq_zero_iff)
qed

text \<open>
  grouping the not-established files by reason loses nothing.  Writing the canonical groups
  and reading them back gives the sorted list of the same files with the same reasons.
\<close>

theorem not_established_roundtrip:
  "ungroupNotEstablished (groupNotEstablished c) = tc_NotEstablished (custody_Sort c)"
proof -
  define xs where "xs = tc_NotEstablished (custody_Sort c)"
  define groups where "groups = (\<lambda>r. map (\<lambda>p. \<lparr>ne_Path = p, ne_Reason = r\<rparr>)
      (sort (map ne_Path (filter (\<lambda>n. ne_Reason n = r) xs))))"
  have group: "mset (groups r) = mset (filter (\<lambda>n. ne_Reason n = r) xs)" for r
  proof -
    have "mset (groups r) = mset (map (\<lambda>n. \<lparr>ne_Path = ne_Path n, ne_Reason = r\<rparr>) (filter (\<lambda>n. ne_Reason n = r) xs))"
      by (simp add: groups_def image_mset.compositionality comp_def)
    also have "map (\<lambda>n. \<lparr>ne_Path = ne_Path n, ne_Reason = r\<rparr>) (filter (\<lambda>n. ne_Reason n = r) xs)
        = filter (\<lambda>n. ne_Reason n = r) xs" by (rule map_idI) auto
    finally show ?thesis .
  qed
  have concats: "mset (concat (map groups rs)) = mset (concat (map (\<lambda>r. filter (\<lambda>n. ne_Reason n = r) xs) rs))" for rs
    by (induction rs) (simp_all add: group)
  have perm: "mset (concat (map f (sort rs))) = mset (concat (map f rs))" for f :: "string \<Rightarrow> TinyGoFileNotEstablished list" and rs
    unfolding mset_concat by (metis mset_map mset_sort sum_mset_sum_list)
  have "ungroupNotEstablished (groupNotEstablished c)
      = stable_sort notEstablishedLess (concat (map groups (sort (remdups (map ne_Reason xs)))))"
    by (simp add: ungroupNotEstablished_def groupNotEstablished_def NotEstablishedByReason_def xs_def
        groups_def comp_def)
  also have "\<dots> = stable_sort notEstablishedLess xs"
    by (rule stable_sort_unique [OF swo_notEstablishedLess])
      (simp_all add: perm concats group_mset notEstablishedLess_def split: if_splits)
  also have "\<dots> = xs"
  proof (rule sorted_perm_unique [of notEstablishedLess, OF sorted_stable_sort [OF swo_notEstablishedLess]])
    show "sorted_wrt (\<lambda>x y. \<not> notEstablishedLess y x) xs"
      unfolding xs_def custody_Sort_def by (simp add: sorted_stable_sort swo_notEstablishedLess)
  qed (auto simp: notEstablishedLess_def split: if_splits)
  finally show ?thesis by (simp add: xs_def)
qed

end
