(* ===== verification/Walk_Graph.thy ===== *)
theory Walk_Graph
  imports Walk_TinyGo
begin

text \<open>
  \<open>internal/walk/domain\<close>: the dependency graph a walk resolves (\<open>graph.go\<close>), its canonical order
  (\<open>ordering.go\<close>), its restriction to a scope (\<open>scope.go\<close>) and its comparison with a manifest
  (\<open>manifestagreement.go\<close>).  A Go map used as a set is a HOL set; a Go map that is ranged over is
  an association list with distinct keys, in the order the range visits it.
\<close>

subsection \<open>Graph, nodes and edges\<close>

type_synonym ResolutionSource = string

definition ResolutionLocalMainModule :: ResolutionSource where [simp]: "ResolutionLocalMainModule = ''local_main_module''"
definition ResolutionLocalReplace :: ResolutionSource where [simp]: "ResolutionLocalReplace = ''local_replace''"
definition ResolutionLocalWorkspaceMember :: ResolutionSource where
  [simp]: "ResolutionLocalWorkspaceMember = ''local_workspace_member''"
definition ResolutionDepthBounded :: ResolutionSource where [simp]: "ResolutionDepthBounded = ''depth_bounded''"
definition ResolutionStdlib :: ResolutionSource where [simp]: "ResolutionStdlib = ''stdlib''"
definition ResolutionTinyGo :: ResolutionSource where [simp]: "ResolutionTinyGo = ''tinygo''"

definition HasFetchedArtefact :: "ResolutionSource \<Rightarrow> bool" where
  "HasFetchedArtefact s \<longleftrightarrow> s \<notin> {ResolutionLocalMainModule, ResolutionLocalReplace,
     ResolutionLocalWorkspaceMember, ResolutionStdlib, ResolutionTinyGo, ResolutionDepthBounded}"

definition ArtefactAbsenceNoun :: "ResolutionSource \<Rightarrow> string" where
  "ArtefactAbsenceNoun s =
     (if s = ResolutionLocalMainModule then ''local main module''
      else if s = ResolutionLocalReplace then ''local replace''
      else if s = ResolutionLocalWorkspaceMember then ''workspace member''
      else if s = ResolutionStdlib then ''Go standard library''
      else if s = ResolutionTinyGo then ''TinyGo toolchain''
      else if s = ResolutionDepthBounded then ''requirement beyond the depth bound''
      else [])"

lemma noun_iff_no_artefact: "ArtefactAbsenceNoun s \<noteq> [] \<longleftrightarrow> \<not> HasFetchedArtefact s"
  by (simp add: ArtefactAbsenceNoun_def HasFetchedArtefact_def)

record StdlibFacts =
  sl_LicenseSPDX :: string
  sl_VerificationStatus :: string
  sl_VerificationDetail :: string
  sl_PublishedSHA256 :: string
  sl_SourceURL :: string
  sl_VCSURL :: string
  sl_VCSRef :: string
  sl_VCSCommit :: string

record TinyGoFacts =
  tg_Target :: string
  tg_Packages :: "string list"
  tg_Mixed :: "string \<Rightarrow> string list option"
  tg_Custody :: "TinyGoCustody option"

record GraphNode =
  n_Coordinate :: ModuleCoordinate
  n_DirectDependency :: bool
  n_ResolutionSource :: ResolutionSource
  n_ErrorDetail :: string
  n_Retracted :: bool
  n_OriginalCoordinate :: ModuleCoordinate
  n_LocalPath :: string
  n_Digests :: ArtifactDigests
  n_Stdlib :: "StdlibFacts option"
  n_Packages :: "string list"
  n_TinyGo :: "TinyGoFacts option"

record GraphEdge =
  e_From :: ModuleCoordinate
  e_To :: ModuleCoordinate
  e_ConstraintVersion :: string

record BuildEnv =
  GOOS :: string
  GOARCH :: string
  GoVersion :: string
  GOARM :: string
  TinyGoTarget :: string
  TinyGoVersion :: string
  TinyGoTags :: "string list"

record Graph =
  g_Target :: ModuleCoordinate
  g_Nodes :: "GraphNode list"
  g_Edges :: "GraphEdge list"
  g_ResolvedAt :: instant
  g_PipelineVersion :: string
  g_Partial :: bool
  g_PartialReason :: string
  g_BuildListUnavailable :: string
  g_HasLocalReplace :: bool
  g_BuildEnv :: BuildEnv

definition zero_digests :: ArtifactDigests where
  "zero_digests = \<lparr>SHA256 = [], SHA384 = [], SHA512 = []\<rparr>"

definition zero_node :: GraphNode where
  "zero_node = \<lparr>n_Coordinate = zero_coordinate, n_DirectDependency = False, n_ResolutionSource = [],
     n_ErrorDetail = [], n_Retracted = False, n_OriginalCoordinate = zero_coordinate, n_LocalPath = [],
     n_Digests = zero_digests, n_Stdlib = None, n_Packages = [], n_TinyGo = None\<rparr>"

subsection \<open>Frames and toolchain nodes\<close>

definition env_IsZero :: "BuildEnv \<Rightarrow> bool" where
  "env_IsZero e \<longleftrightarrow> GOOS e = [] \<and> GOARCH e = [] \<and> GoVersion e = [] \<and> TinyGoTarget e = []"

datatype FrameBasis = FrameBasisPlatform | FrameBasisNotPlatformScoped | FrameBasisUnrecorded

record WalkFrame =
  Text :: string
  Basis :: FrameBasis

definition TinyGoFrameText :: "string \<Rightarrow> string \<Rightarrow> string \<Rightarrow> string" where
  "TinyGoFrameText target goos goarch = ''tinygo/'' @ target @ '' ('' @ goos @ ''/'' @ goarch @ '')''"

definition FrameOf :: "ModuleCoordinate \<Rightarrow> BuildEnv \<Rightarrow> WalkFrame" where
  "FrameOf target env =
     (if TinyGoTarget env \<noteq> [] then
        \<lparr>Text = TinyGoFrameText (TinyGoTarget env) (GOOS env) (GOARCH env), Basis = FrameBasisPlatform\<rparr>
      else if GOOS env \<noteq> [] \<or> GOARCH env \<noteq> [] then
        \<lparr>Text = GOOS env @ ''/'' @ GOARCH env, Basis = FrameBasisPlatform\<rparr>
      else if \<not> IsZero target \<and> \<not> IsLocal target then
        \<lparr>Text = ''not-platform-scoped'', Basis = FrameBasisNotPlatformScoped\<rparr>
      else \<lparr>Text = ''unrecorded'', Basis = FrameBasisUnrecorded\<rparr>)"

definition NormaliseStdlibVersion :: "string \<Rightarrow> string" where
  "NormaliseStdlibVersion v0 =
     (let v = TrimSpace v0 in
      if v = [] then []
      else let v = TrimPrefix v ''go'' in if \<not> HasPrefix v ''v'' then ''v'' @ v else v)"

definition StdlibNode :: "(string \<Rightarrow> bool) \<Rightarrow> string \<Rightarrow> GraphNode option" where
  "StdlibNode semver_IsValid goVersion =
     (let version = NormaliseStdlibVersion goVersion in
      if version = [] then None
      else case NewStdlibCoordinateAt semver_IsValid version of
             Inl _ \<Rightarrow> None
           | Inr coord \<Rightarrow> Some (zero_node\<lparr>n_Coordinate := coord, n_DirectDependency := True,
                                  n_ResolutionSource := ResolutionStdlib\<rparr>))"

definition TinyGoModulePath :: string where
  "TinyGoModulePath = ''github.com/tinygo-org/tinygo''"

definition TinyGoNode :: "(string \<Rightarrow> bool) \<Rightarrow> string \<Rightarrow> TinyGoFacts \<Rightarrow> GraphNode option" where
  "TinyGoNode semver_IsValid tinygoVersion facts =
     (let v0 = TrimSpace tinygoVersion in
      if v0 = [] then None
      else let v = (if \<not> HasPrefix v0 ''v'' then ''v'' @ v0 else v0) in
           case NewModuleCoordinate semver_IsValid TinyGoModulePath v of
             Inl _ \<Rightarrow> None
           | Inr coord \<Rightarrow> Some (zero_node\<lparr>n_Coordinate := coord, n_ResolutionSource := ResolutionTinyGo,
                                  n_TinyGo := Some facts\<rparr>))"

text \<open>The packages a TinyGo build takes from TinyGo and from Go; later nodes overwrite earlier ones.\<close>

record TinyGoPartition =
  p_Node :: ModuleCoordinate
  p_Version :: string
  p_Target :: string
  p_TinyGo :: "string list"
  p_Go :: "string list"
  p_Mixed :: "string \<Rightarrow> string list option"
  p_StdlibAt :: ModuleCoordinate

definition partitionStep :: "TinyGoPartition \<times> bool \<Rightarrow> GraphNode \<Rightarrow> TinyGoPartition \<times> bool" where
  "partitionStep pf n =
     (case pf of (p, found) \<Rightarrow>
        (case n_TinyGo n of
           Some t \<Rightarrow> (p\<lparr>p_Node := n_Coordinate n, p_Version := Version (n_Coordinate n), p_Target := tg_Target t,
                      p_TinyGo := tg_Packages t, p_Mixed := tg_Mixed t\<rparr>, True)
         | None \<Rightarrow> if n_ResolutionSource n = ResolutionStdlib
                   then (p\<lparr>p_StdlibAt := n_Coordinate n, p_Go := n_Packages n\<rparr>, found) else (p, found)))"

definition graph_TinyGoPartition :: "Graph \<Rightarrow> TinyGoPartition \<times> bool" where
  "graph_TinyGoPartition g = foldl partitionStep
     (\<lparr>p_Node = zero_coordinate, p_Version = [], p_Target = [], p_TinyGo = [], p_Go = [], p_Mixed = Map.empty,
       p_StdlibAt = zero_coordinate\<rparr>, False) (g_Nodes g)"

subsection \<open>The canonical order\<close>

definition CoordinateLess :: "ModuleCoordinate \<Rightarrow> ModuleCoordinate \<Rightarrow> bool" where
  "CoordinateLess a b =
     (if Path a \<noteq> Path b then Path a < Path b
      else if Version a \<noteq> Version b then Version a < Version b else False)"

definition stdlibFactsLess :: "StdlibFacts option \<Rightarrow> StdlibFacts option \<Rightarrow> bool" where
  "stdlibFactsLess x y =
     (case (x, y) of
        (None, None) \<Rightarrow> False
      | (None, Some _) \<Rightarrow> True
      | (Some _, None) \<Rightarrow> False
      | (Some a, Some b) \<Rightarrow>
          if sl_LicenseSPDX a \<noteq> sl_LicenseSPDX b then sl_LicenseSPDX a < sl_LicenseSPDX b
          else if sl_VerificationStatus a \<noteq> sl_VerificationStatus b then sl_VerificationStatus a < sl_VerificationStatus b
          else if sl_VerificationDetail a \<noteq> sl_VerificationDetail b then sl_VerificationDetail a < sl_VerificationDetail b
          else if sl_PublishedSHA256 a \<noteq> sl_PublishedSHA256 b then sl_PublishedSHA256 a < sl_PublishedSHA256 b
          else if sl_SourceURL a \<noteq> sl_SourceURL b then sl_SourceURL a < sl_SourceURL b
          else if sl_VCSURL a \<noteq> sl_VCSURL b then sl_VCSURL a < sl_VCSURL b
          else if sl_VCSRef a \<noteq> sl_VCSRef b then sl_VCSRef a < sl_VCSRef b
          else sl_VCSCommit a < sl_VCSCommit b)"

definition GraphNodeLess :: "GraphNode \<Rightarrow> GraphNode \<Rightarrow> bool" where
  "GraphNodeLess a b =
     (if n_Coordinate a \<noteq> n_Coordinate b then CoordinateLess (n_Coordinate a) (n_Coordinate b)
      else if n_OriginalCoordinate a \<noteq> n_OriginalCoordinate b
      then CoordinateLess (n_OriginalCoordinate a) (n_OriginalCoordinate b)
      else if n_ResolutionSource a \<noteq> n_ResolutionSource b then n_ResolutionSource a < n_ResolutionSource b
      else if n_DirectDependency a \<noteq> n_DirectDependency b then \<not> n_DirectDependency a
      else if n_Retracted a \<noteq> n_Retracted b then \<not> n_Retracted a
      else if n_LocalPath a \<noteq> n_LocalPath b then n_LocalPath a < n_LocalPath b
      else if n_ErrorDetail a \<noteq> n_ErrorDetail b then n_ErrorDetail a < n_ErrorDetail b
      else if SHA256 (n_Digests a) \<noteq> SHA256 (n_Digests b) then SHA256 (n_Digests a) < SHA256 (n_Digests b)
      else if SHA384 (n_Digests a) \<noteq> SHA384 (n_Digests b) then SHA384 (n_Digests a) < SHA384 (n_Digests b)
      else if SHA512 (n_Digests a) \<noteq> SHA512 (n_Digests b) then SHA512 (n_Digests a) < SHA512 (n_Digests b)
      else stdlibFactsLess (n_Stdlib a) (n_Stdlib b))"

definition GraphEdgeLess :: "GraphEdge \<Rightarrow> GraphEdge \<Rightarrow> bool" where
  "GraphEdgeLess a b =
     (if e_From a \<noteq> e_From b then CoordinateLess (e_From a) (e_From b)
      else if e_To a \<noteq> e_To b then CoordinateLess (e_To a) (e_To b)
      else e_ConstraintVersion a < e_ConstraintVersion b)"

definition graph_Sort :: "Graph \<Rightarrow> Graph" where
  "graph_Sort g = g\<lparr>g_Nodes := stable_sort GraphNodeLess (g_Nodes g), g_Edges := stable_sort GraphEdgeLess (g_Edges g)\<rparr>"

lemma CoordinateLess_less: "CoordinateLess a b \<longleftrightarrow> a < b"
  by (auto simp: CoordinateLess_def less_ModuleCoordinate_def)

lemma swo_GraphEdgeLess: "swo GraphEdgeLess"
  unfolding GraphEdgeLess_def [abs_def] CoordinateLess_less by (intro swo_intros)

lemma GraphEdgeLess_tie: "\<not> GraphEdgeLess a b \<Longrightarrow> \<not> GraphEdgeLess b a \<Longrightarrow> a = b"
  by (auto simp: GraphEdgeLess_def CoordinateLess_less split: if_splits)

lemma swo_stdlibFactsLess: "swo stdlibFactsLess"
proof -
  have some: "swo (\<lambda>a b. stdlibFactsLess (Some a) (Some b))"
    unfolding stdlibFactsLess_def prod.case option.case by (intro swo_intros)
  have none [simp]: "\<not> stdlibFactsLess None None" "stdlibFactsLess None (Some a)" "\<not> stdlibFactsLess (Some a) None" for a
    by (simp_all add: stdlibFactsLess_def)
  show ?thesis
  proof (rule swoI)
    fix x y z
    show "\<not> stdlibFactsLess x x" using swo_irrefl [OF some] by (cases x) simp_all
    show "stdlibFactsLess x z" if "stdlibFactsLess x y" "stdlibFactsLess y z"
      using that by (cases x; cases y; cases z) (simp_all, rule swo_trans [OF some])
    show "stdlibFactsLess x y \<or> stdlibFactsLess y z" if "stdlibFactsLess x z"
    proof (cases "x = None \<or> y = None \<or> z = None")
      case True
      then show ?thesis using that by (cases x; cases y; cases z) simp_all
    next
      case False
      then show ?thesis using that swo_negtrans [OF some] by auto
    qed
  qed
qed

end
