(* ===== verification/Walk_Query.thy ===== *)
theory Walk_Query
  imports Walk_Graph
begin

text \<open>
  \<open>internal/walk/domain\<close>: the questions asked of a resolved graph.  Reachability from a module
  and the superseded requirements (\<open>graph.go\<close>), the restriction to a scope (\<open>scope.go\<close>) and the
  agreement of a manifest with a walk (\<open>manifestagreement.go\<close>); each against a declarative
  reading of the same question.
\<close>

subsection \<open>Reachability\<close>

definition adjacent :: "Graph \<Rightarrow> ModuleCoordinate \<Rightarrow> ModuleCoordinate list" where
  "adjacent g c = map e_To (filter (\<lambda>e. e_From e = c) (g_Edges g))"

text \<open>
  The loop over the stack, whose top is the last element.  A turn either shortens the stack or
  adds a coordinate to \<open>reached\<close> that was on it.
\<close>

function reachLoop ::
  "Graph \<Rightarrow> ModuleCoordinate \<Rightarrow> ModuleCoordinate set \<Rightarrow> ModuleCoordinate list \<Rightarrow> ModuleCoordinate set" where
  "reachLoop g origin reached stack =
     (if stack = [] then reached
      else let cur = last stack; rest = butlast stack in
           if cur = origin then reachLoop g origin reached rest
           else if cur \<in> reached then reachLoop g origin reached rest
           else reachLoop g origin (insert cur reached) (rest @ adjacent g cur))"
  by pat_completeness auto
termination
proof (relation "inv_image (less_than <*lex*> less_than) (\<lambda>(g, origin, reached, stack).
    (card ((e_To ` set (g_Edges g) \<union> set stack) - reached), length stack))", goal_cases)
  case (2 g origin reached stack cur rest)
  have "set rest \<subseteq> set stack" using 2 by (auto dest: in_set_butlastD)
  then have "card ((e_To ` set (g_Edges g) \<union> set rest) - reached) \<le> card ((e_To ` set (g_Edges g) \<union> set stack) - reached)"
    by (intro card_mono) auto
  then show ?case using 2 by (auto simp: le_less)
next
  case (3 g origin reached stack cur rest)
  have "set rest \<subseteq> set stack" using 3 by (auto dest: in_set_butlastD)
  then have "card ((e_To ` set (g_Edges g) \<union> set rest) - reached) \<le> card ((e_To ` set (g_Edges g) \<union> set stack) - reached)"
    by (intro card_mono) auto
  then show ?case using 3 by (auto simp: le_less)
next
  case (4 g origin reached stack cur rest)
  have sub: "set rest \<subseteq> set stack" and cur: "cur \<in> set stack"
    using 4 by (auto dest: in_set_butlastD)
  have "set (adjacent g cur) \<subseteq> e_To ` set (g_Edges g)" by (auto simp: adjacent_def)
  then have "card ((e_To ` set (g_Edges g) \<union> set (rest @ adjacent g cur)) - insert cur reached)
      < card ((e_To ` set (g_Edges g) \<union> set stack) - reached)"
    using sub cur 4 by (intro psubset_card_mono) auto
  then show ?case by simp
qed (auto intro!: wf_inv_image)

declare reachLoop.simps [simp del]

definition ReachableFrom :: "Graph \<Rightarrow> ModuleCoordinate \<Rightarrow> ModuleCoordinate set" where
  "ReachableFrom g origin = reachLoop g origin {} (adjacent g origin)"

definition edge_rel :: "Graph \<Rightarrow> (ModuleCoordinate \<times> ModuleCoordinate) set" where
  "edge_rel g = (\<lambda>e. (e_From e, e_To e)) ` set (g_Edges g)"

lemma adjacent_edge: "d \<in> set (adjacent g c) \<longleftrightarrow> (c, d) \<in> edge_rel g"
  by (auto simp: adjacent_def edge_rel_def)

lemma reachLoop_sound:
  assumes "set stack \<subseteq> (edge_rel g)\<^sup>+ `` {origin}" "reached \<subseteq> (edge_rel g)\<^sup>+ `` {origin} - {origin}"
  shows "reachLoop g origin reached stack \<subseteq> (edge_rel g)\<^sup>+ `` {origin} - {origin}"
  using assms
proof (induction g origin reached stack rule: reachLoop.induct)
  case (1 g origin reached stack)
  show ?case
  proof (cases "stack = []")
    case True
    with 1 show ?thesis by (simp add: reachLoop.simps)
  next
    case False
    let ?cur = "last stack" and ?rest = "butlast stack"
    have rest: "set ?rest \<subseteq> (edge_rel g)\<^sup>+ `` {origin}" and cur: "(origin, ?cur) \<in> (edge_rel g)\<^sup>+"
      using 1(4) last_in_set [OF False] by (auto dest: in_set_butlastD)
    have "set (adjacent g ?cur) \<subseteq> (edge_rel g)\<^sup>+ `` {origin}"
      using cur by (auto simp: adjacent_edge intro: trancl_into_trancl)
    then show ?thesis
      using 1(1-3) [OF False refl refl] rest cur 1(5) False
      by (subst reachLoop.simps) (simp add: Let_def)
  qed
qed

text \<open>What is reached stays; the origin and everything reached is expanded, or still stacked.\<close>

lemma reachLoop_closed:
  assumes "\<And>x y. x \<in> insert origin reached \<Longrightarrow> (x, y) \<in> edge_rel g \<Longrightarrow> y \<in> insert origin reached \<union> set stack"
  shows "reached \<subseteq> reachLoop g origin reached stack
    \<and> (\<forall>x y. x \<in> insert origin (reachLoop g origin reached stack) \<longrightarrow> (x, y) \<in> edge_rel g \<longrightarrow>
         y \<in> insert origin (reachLoop g origin reached stack))"
  using assms
proof (induction g origin reached stack rule: reachLoop.induct)
  case (1 g origin reached stack)
  show ?case
  proof (cases "stack = []")
    case True
    with 1(4) show ?thesis by (auto simp: reachLoop.simps)
  next
    case False
    let ?cur = "last stack" and ?rest = "butlast stack"
    have stack: "set stack = insert ?cur (set ?rest)"
      using False by (metis append_butlast_last_id list.set(2) rotate1.simps(2) set_rotate1)
    show ?thesis
    proof (cases "?cur = origin \<or> ?cur \<in> reached")
      case True
      have "reachLoop g origin reached stack = reachLoop g origin reached ?rest"
        using False True by (subst reachLoop.simps) (auto simp: Let_def)
      moreover have "y \<in> insert origin reached \<union> set ?rest"
        if "x \<in> insert origin reached" "(x, y) \<in> edge_rel g" for x y
        using 1(4) [OF that] stack True by auto
      ultimately show ?thesis
        using True 1(1) [OF False refl refl] 1(2) [OF False refl refl] by metis
    next
      case new: False
      have "reachLoop g origin reached stack = reachLoop g origin (insert ?cur reached) (?rest @ adjacent g ?cur)"
        using False new by (subst reachLoop.simps) (auto simp: Let_def)
      moreover have "y \<in> insert origin (insert ?cur reached) \<union> set (?rest @ adjacent g ?cur)"
        if "x \<in> insert origin (insert ?cur reached)" "(x, y) \<in> edge_rel g" for x y
        using 1(4) [of x y] that stack by (auto simp: adjacent_edge)
      ultimately show ?thesis
        using new 1(3) [OF False refl refl] by auto
    qed
  qed
qed

text \<open>
  C18: the search returns what is reachable.  On every graph, cyclic or not, the stack loop ends and
  returns exactly the coordinates that some non-empty path of edges leads to from the origin, the
  origin itself always left out, also when a cycle leads back to it.
\<close>

theorem reachable_from_exact:
  "ReachableFrom g origin = {c. (origin, c) \<in> (edge_rel g)\<^sup>+} - {origin}"
proof
  have "set (adjacent g origin) \<subseteq> (edge_rel g)\<^sup>+ `` {origin}" by (auto simp: adjacent_edge)
  from reachLoop_sound [OF this, of "{}"] show "ReachableFrom g origin \<subseteq> {c. (origin, c) \<in> (edge_rel g)\<^sup>+} - {origin}"
    by (auto simp: ReachableFrom_def)
  have closed: "y \<in> insert origin (ReachableFrom g origin)"
    if "x \<in> insert origin (ReachableFrom g origin)" "(x, y) \<in> edge_rel g" for x y
  proof -
    have "\<forall>x y. x \<in> insert origin (ReachableFrom g origin) \<longrightarrow> (x, y) \<in> edge_rel g \<longrightarrow>
        y \<in> insert origin (ReachableFrom g origin)"
      unfolding ReachableFrom_def
      by (rule conjunct2 [OF reachLoop_closed]) (simp add: adjacent_edge)
    with that show ?thesis by blast
  qed
  have "c \<in> insert origin (ReachableFrom g origin)" if "(origin, c) \<in> (edge_rel g)\<^sup>+" for c
    using that
  proof (induction rule: trancl_induct)
    case (base y)
    show ?case by (rule closed [OF insertI1 base])
  next
    case (step y z)
    show ?case by (rule closed [OF step.IH step.hyps(2)])
  qed
  then show "{c. (origin, c) \<in> (edge_rel g)\<^sup>+} - {origin} \<subseteq> ReachableFrom g origin" by blast
qed

subsection \<open>Superseded requirements and the versions of a graph\<close>

definition replacedTargets :: "Graph \<Rightarrow> string set" where
  "replacedTargets g = (coord_String \<circ> n_Coordinate) ` {n \<in> set (g_Nodes g). Path (n_OriginalCoordinate n) \<noteq> []}"

definition supersededBy ::
  "(string \<Rightarrow> bool) \<Rightarrow> Graph \<Rightarrow> ModuleCoordinate set option \<Rightarrow> GraphEdge \<Rightarrow> ModuleCoordinate option" where
  "supersededBy v g from_set e =
     (if (case from_set of None \<Rightarrow> False | Some s \<Rightarrow> e_From e \<notin> s) then None
      else if e_ConstraintVersion e = [] \<or> e_ConstraintVersion e = Version (e_To e) then None
      else if coord_String (e_To e) \<in> replacedTargets g then None
      else case NewModuleCoordinate v (Path (e_To e)) (e_ConstraintVersion e) of
             Inl _ \<Rightarrow> None
           | Inr coord \<Rightarrow> Some coord)"

definition supersededRequirements ::
  "(string \<Rightarrow> bool) \<Rightarrow> Graph \<Rightarrow> ModuleCoordinate set option \<Rightarrow> ModuleCoordinate list" where
  "supersededRequirements v g from_set =
     stable_sort CoordinateLess (remdups (List.map_filter (supersededBy v g from_set) (g_Edges g)))"

definition SupersededRequirements :: "(string \<Rightarrow> bool) \<Rightarrow> Graph \<Rightarrow> ModuleCoordinate list" where
  "SupersededRequirements v g = supersededRequirements v g None"

definition SupersededRequirementsFrom ::
  "(string \<Rightarrow> bool) \<Rightarrow> Graph \<Rightarrow> ModuleCoordinate set \<Rightarrow> ModuleCoordinate list" where
  "SupersededRequirementsFrom v g from_set = supersededRequirements v g (Some from_set)"

definition KnownVersions :: "Graph \<Rightarrow> ModuleCoordinate set" where
  "KnownVersions g = n_Coordinate ` set (g_Nodes g)
     \<union> n_OriginalCoordinate ` {n \<in> set (g_Nodes g). Path (n_OriginalCoordinate n) \<noteq> []}"

definition SelectedVersions :: "Graph \<Rightarrow> ModuleCoordinate set" where
  "SelectedVersions g = n_Coordinate ` {n \<in> set (g_Nodes g).
     \<not> (n_ResolutionSource n = ResolutionStdlib \<or> n_ResolutionSource n = ResolutionTinyGo \<or> IsLocal (n_Coordinate n))}"

lemma stable_sort_CoordinateLess: "stable_sort CoordinateLess xs = sort xs"
proof (rule sorted_perm_unique [of CoordinateLess])
  have less: "(\<lambda>x y. \<not> CoordinateLess y x) = (\<le>)" by (auto simp: fun_eq_iff CoordinateLess_less)
  show "sorted_wrt (\<lambda>x y. \<not> CoordinateLess y x) (stable_sort CoordinateLess xs)"
    by (rule sorted_stable_sort) (simp add: CoordinateLess_less [abs_def] swo_key [of id, simplified])
  show "sorted_wrt (\<lambda>x y. \<not> CoordinateLess y x) (sort xs)" unfolding less by simp
qed (auto simp: CoordinateLess_less)

lemma map_filter_set: "set (List.map_filter f xs) = {y. \<exists>x \<in> set xs. f x = Some y}"
  by (induction xs) (auto simp: map_filter_simps split: option.splits)

text \<open>
  A requirement is superseded exactly when the resolution moved past it.  A coordinate is
  listed when some edge (from the modules asked about) demands its version of a module that was
  resolved to another one, and the resolved module does not stand in for a replaced one; the
  list is in strict order, restricting to more modules only adds, and asking about every module
  is asking without restriction.
\<close>

theorem superseded_requirements_iff:
  "(set (SupersededRequirementsFrom v g s) =
      {ModuleCoordinate (Path (e_To e)) (e_ConstraintVersion e) | e. e \<in> set (g_Edges g) \<and> e_From e \<in> s
         \<and> e_ConstraintVersion e \<noteq> [] \<and> e_ConstraintVersion e \<noteq> Version (e_To e)
         \<and> coord_String (e_To e) \<notin> replacedTargets g \<and> Path (e_To e) \<noteq> []
         \<and> (e_ConstraintVersion e = LocalVersion \<or> v (e_ConstraintVersion e))})
   \<and> sorted (SupersededRequirementsFrom v g s) \<and> distinct (SupersededRequirementsFrom v g s)
   \<and> set (SupersededRequirementsFrom v g s) \<subseteq> set (SupersededRequirementsFrom v g (s \<union> t))
   \<and> SupersededRequirementsFrom v g UNIV = SupersededRequirements v g"
proof -
  have by1: "supersededBy v g (Some s) e = Some c \<longleftrightarrow> e_From e \<in> s
         \<and> e_ConstraintVersion e \<noteq> [] \<and> e_ConstraintVersion e \<noteq> Version (e_To e)
         \<and> coord_String (e_To e) \<notin> replacedTargets g \<and> Path (e_To e) \<noteq> []
         \<and> (e_ConstraintVersion e = LocalVersion \<or> v (e_ConstraintVersion e))
         \<and> c = ModuleCoordinate (Path (e_To e)) (e_ConstraintVersion e)" for s e c
    by (auto simp: supersededBy_def NewModuleCoordinate_def)
  have all: "supersededBy v g (Some UNIV) = supersededBy v g None"
    by (simp add: supersededBy_def fun_eq_iff)
  show ?thesis
    unfolding SupersededRequirementsFrom_def SupersededRequirements_def supersededRequirements_def all
      stable_sort_CoordinateLess set_sort set_remdups map_filter_set by1
    by (auto simp: by1)
qed

definition DirectDependenciesOf :: "Graph \<Rightarrow> ModuleCoordinate \<Rightarrow> ModuleCoordinate list \<times> bool" where
  "DirectDependenciesOf g m =
     (if m = g_Target g then (map n_Coordinate (filter n_DirectDependency (g_Nodes g)), True)
      else if \<not> list_ex (\<lambda>n. n_Coordinate n = m) (g_Nodes g) then ([], False)
      else (rev (remdups (rev (adjacent g m))), True))"

subsection \<open>Restriction to a scope\<close>

definition nodeInScope :: "(ModuleCoordinate \<Rightarrow> bool) \<Rightarrow> GraphNode \<Rightarrow> bool" where
  "nodeInScope inScope n \<longleftrightarrow>
     \<not> (\<not> inScope (n_Coordinate n) \<and> (Path (n_OriginalCoordinate n) = [] \<or> \<not> inScope (n_OriginalCoordinate n)))"

definition effectiveKeep ::
  "(ModuleCoordinate \<Rightarrow> bool) \<Rightarrow> (ModuleCoordinate \<Rightarrow> 'k) \<Rightarrow> 'k list \<Rightarrow> GraphNode list \<Rightarrow> 'k set" where
  "effectiveKeep inScope ident seed nodes =
     set seed \<union> (ident \<circ> n_Coordinate) ` {n \<in> set nodes. nodeInScope inScope n}
       \<union> (ident \<circ> n_OriginalCoordinate) ` {n \<in> set nodes. nodeInScope inScope n \<and> Path (n_OriginalCoordinate n) \<noteq> []}"

definition FilterGraph ::
  "Graph \<Rightarrow> (ModuleCoordinate \<Rightarrow> bool) \<Rightarrow> (ModuleCoordinate \<Rightarrow> 'k) \<Rightarrow> 'k list \<Rightarrow> GraphNode list \<times> GraphEdge list" where
  "FilterGraph g inScope ident seed =
     (filter (nodeInScope inScope) (g_Nodes g),
      filter (\<lambda>e. ident (e_From e) \<in> effectiveKeep inScope ident seed (g_Nodes g)
                \<and> ident (e_To e) \<in> effectiveKeep inScope ident seed (g_Nodes g)) (g_Edges g))"

definition FilterGraphToScope :: "Graph \<Rightarrow> string \<Rightarrow> string list \<Rightarrow> Graph" where
  "FilterGraphToScope g mainPath keep =
     (let inScope = (\<lambda>p. p = mainPath \<or> p \<in> set keep) in
      case FilterGraph g (\<lambda>c. inScope (Path c)) Path [mainPath] of
        (nodes, edges) \<Rightarrow> graph_Sort (g\<lparr>g_Nodes := nodes, g_Edges := edges\<rparr>))"

definition touchesScope :: "string set \<Rightarrow> GraphNode \<Rightarrow> bool" where
  "touchesScope S n \<longleftrightarrow> Path (n_Coordinate n) \<in> S
     \<or> (Path (n_OriginalCoordinate n) \<noteq> [] \<and> Path (n_OriginalCoordinate n) \<in> S)"

text \<open>
  Restricting a graph to a scope keeps the nodes that touch it and no dangling edge.  A node
  survives exactly when its path, or the path it replaces, is in scope; an edge survives exactly
  when both its ends are paths of surviving nodes, or replaced by them, or the main module;
  nothing but nodes and edges changes, and restricting twice is restricting once.
\<close>

theorem filter_to_scope:
  "let S = insert mainPath (set keep); h = FilterGraphToScope g mainPath keep;
       named = insert mainPath (\<Union>n \<in> set (g_Nodes h). {Path (n_Coordinate n)}
                  \<union> {p. p = Path (n_OriginalCoordinate n) \<and> p \<noteq> []}) in
   set (g_Nodes h) = {n \<in> set (g_Nodes g). touchesScope S n}
   \<and> set (g_Edges h) = {e \<in> set (g_Edges g). Path (e_From e) \<in> named \<and> Path (e_To e) \<in> named}
   \<and> h\<lparr>g_Nodes := g_Nodes g, g_Edges := g_Edges g\<rparr> = g
   \<and> set (g_Nodes (FilterGraphToScope h mainPath keep)) = set (g_Nodes h)
   \<and> set (g_Edges (FilterGraphToScope h mainPath keep)) = set (g_Edges h)"
proof -
  let ?S = "insert mainPath (set keep)"
  let ?named = "\<lambda>h. insert mainPath (\<Union>n \<in> set (g_Nodes h). {Path (n_Coordinate n)}
                  \<union> {p. p = Path (n_OriginalCoordinate n) \<and> p \<noteq> []})"
  have keep: "nodeInScope (\<lambda>c. Path c = mainPath \<or> Path c \<in> set keep) n \<longleftrightarrow> touchesScope ?S n" for n
    by (auto simp: nodeInScope_def touchesScope_def)
  have nodes: "set (g_Nodes (FilterGraphToScope x mainPath keep)) = {n \<in> set (g_Nodes x). touchesScope ?S n}" for x
    by (auto simp: FilterGraphToScope_def FilterGraph_def graph_Sort_def Let_def keep)
  have eff: "effectiveKeep (\<lambda>c. Path c = mainPath \<or> Path c \<in> set keep) Path [mainPath] (g_Nodes x)
      = ?named (FilterGraphToScope x mainPath keep)" for x
    unfolding nodes by (auto simp: effectiveKeep_def keep)
  have edges: "set (g_Edges (FilterGraphToScope x mainPath keep)) =
      {e \<in> set (g_Edges x). Path (e_From e) \<in> ?named (FilterGraphToScope x mainPath keep)
         \<and> Path (e_To e) \<in> ?named (FilterGraphToScope x mainPath keep)}" for x
    unfolding eff [symmetric]
    by (simp add: FilterGraphToScope_def FilterGraph_def graph_Sort_def Let_def)
  have "(FilterGraphToScope g mainPath keep)\<lparr>g_Nodes := g_Nodes g, g_Edges := g_Edges g\<rparr> = g"
    by (cases g) (simp add: FilterGraphToScope_def FilterGraph_def graph_Sort_def Let_def)
  then show ?thesis
    unfolding Let_def edges nodes by auto
qed

subsection \<open>Agreement with a manifest\<close>

text \<open>The walk's \<open>map[string]string\<close>, built by assignment in node order.\<close>

definition namedStep :: "(string \<Rightarrow> string option) \<Rightarrow> GraphNode \<Rightarrow> (string \<Rightarrow> string option)" where
  "namedStep walked n =
     (if n_ResolutionSource n = ResolutionStdlib \<or> n_ResolutionSource n = ResolutionTinyGo then walked
      else let named = (if \<not> IsZero (n_OriginalCoordinate n) then n_OriginalCoordinate n else n_Coordinate n) in
           if IsLocal named then walked else walked(Path named \<mapsto> Version named))"

definition NamedVersions :: "Graph \<Rightarrow> string \<Rightarrow> string option" where
  "NamedVersions g = foldl namedStep Map.empty (g_Nodes g)"

definition RequireDisagreement :: "(string \<times> string) list \<Rightarrow> Graph \<Rightarrow> string list option" where
  "RequireDisagreement required g =
     (let walked = NamedVersions g;
          compared = filter (\<lambda>(path, version). walked path \<noteq> None) required;
          disagreements = List.map_filter (\<lambda>(path, version). case walked path of
              None \<Rightarrow> None
            | Some w \<Rightarrow> if w \<noteq> version then Some (path @ '' '' @ w @ '' -> '' @ version) else None) required
      in if length compared = 0 then None else Some (sort disagreements))"

text \<open>
  A manifest agrees with a walk exactly when no shared module is at another version.  The
  comparison is refused (the error, \<open>None\<close>) exactly when the two share no module, and otherwise
  its list is empty exactly when every module both name is named at one version; the list has
  one entry per disagreeing module and does not depend on the order the manifest map is visited.
\<close>

theorem require_disagreement_iff:
  assumes "distinct (map fst required)"
  shows "(RequireDisagreement required g = None \<longleftrightarrow> (\<forall>(p, v) \<in> set required. NamedVersions g p = None))
    \<and> (RequireDisagreement required g = Some [] \<longleftrightarrow>
         (\<exists>(p, v) \<in> set required. NamedVersions g p \<noteq> None)
         \<and> (\<forall>(p, v) \<in> set required. NamedVersions g p = None \<or> NamedVersions g p = Some v))
    \<and> (\<forall>ds. RequireDisagreement required g = Some ds \<longrightarrow>
         length ds = card {p. \<exists>v w. (p, v) \<in> set required \<and> NamedVersions g p = Some w \<and> w \<noteq> v})
    \<and> (mset required = mset required' \<longrightarrow> RequireDisagreement required g = RequireDisagreement required' g)"
proof -
  define f where "f = (\<lambda>(path, version). case NamedVersions g path of
              None \<Rightarrow> None
            | Some w \<Rightarrow> if w \<noteq> version then Some (path @ '' '' @ w @ '' -> '' @ version) else None)"
  have def: "RequireDisagreement rs g = (if \<forall>(p, v) \<in> set rs. NamedVersions g p = None then None
      else Some (sort (List.map_filter f rs)))" for rs
    by (simp add: RequireDisagreement_def Let_def f_def filter_empty_conv case_prod_unfold)
  have len: "length (List.map_filter f rs) = card {p. \<exists>v w. (p, v) \<in> set rs \<and> NamedVersions g p = Some w \<and> w \<noteq> v}"
    if "distinct (map fst rs)" for rs
    using that
  proof (induction rs)
    case (Cons r rs)
    obtain p v where r: "r = (p, v)" by (cases r)
    let ?S = "\<lambda>rs. {p. \<exists>v w. (p, v) \<in> set rs \<and> NamedVersions g p = Some w \<and> w \<noteq> v}"
    have fin: "finite (?S rs)" by (rule finite_subset [of _ "fst ` set rs"]) force+
    have "p \<notin> fst ` set rs" using Cons.prems r by simp
    then have "p \<notin> ?S rs" by force
    moreover have "?S (r # rs) = (if f r = None then ?S rs else insert p (?S rs))"
      by (auto simp: r f_def split: option.splits if_splits)
    ultimately show ?case using Cons fin by (auto simp: map_filter_simps split: option.splits)
  qed (simp add: map_filter_simps)
  have none: "set (List.map_filter f required) = {} \<longleftrightarrow>
      (\<forall>(p, v) \<in> set required. NamedVersions g p = None \<or> NamedVersions g p = Some v)"
  proof -
    have "f (p, v) = None \<longleftrightarrow> NamedVersions g p = None \<or> NamedVersions g p = Some v" for p v
      by (auto simp: f_def split: option.splits)
    moreover have "set (List.map_filter f rs) = {} \<longleftrightarrow> (\<forall>x \<in> set rs. f x = None)" for rs
      by (induction rs) (simp_all add: map_filter_simps split: option.splits)
    ultimately show ?thesis by auto
  qed
  have perm: "sort (List.map_filter f required) = sort (List.map_filter f required')" "set required = set required'"
    if "mset required = mset required'"
    using that by (auto simp: map_filter_def intro!: properties_for_sort dest: mset_eq_setD)
  have empty: "sort (List.map_filter f required) = [] \<longleftrightarrow> set (List.map_filter f required) = {}"
    by (metis set_empty set_sort)
  show ?thesis
  proof (intro conjI impI allI)
    show "RequireDisagreement required g = Some [] \<longleftrightarrow>
         (\<exists>(p, v) \<in> set required. NamedVersions g p \<noteq> None)
         \<and> (\<forall>(p, v) \<in> set required. NamedVersions g p = None \<or> NamedVersions g p = Some v)"
      unfolding def none [symmetric] empty [symmetric] by (auto simp: case_prod_unfold)
    show "length ds = card {p. \<exists>v w. (p, v) \<in> set required \<and> NamedVersions g p = Some w \<and> w \<noteq> v}"
      if "RequireDisagreement required g = Some ds" for ds
      using that len [OF assms] by (auto simp: def split: if_splits)
    show "RequireDisagreement required g = RequireDisagreement required' g" if "mset required = mset required'"
      unfolding def perm [OF that] ..
  qed (simp add: def)
qed

theorem require_disagreement_iff_witness:
  "RequireDisagreement [(''a/mux'', ''v1.0.0'')]
     (\<lparr>g_Target = zero_coordinate, g_Nodes = [zero_node\<lparr>n_Coordinate := ModuleCoordinate ''a/mux'' ''v1.0.0''\<rparr>],
       g_Edges = [], g_ResolvedAt = 0, g_PipelineVersion = [], g_Partial = False, g_PartialReason = [],
       g_BuildListUnavailable = [], g_HasLocalReplace = False,
       g_BuildEnv = \<lparr>GOOS = [], GOARCH = [], GoVersion = [], GOARM = [], TinyGoTarget = [], TinyGoVersion = [], TinyGoTags = []\<rparr>\<rparr>)
   = Some []"
  by (subst require_disagreement_iff [THEN conjunct2, THEN conjunct1])
    (auto simp: NamedVersions_def namedStep_def zero_node_def zero_coordinate_def IsZero_def IsLocal_def LocalVersion_def)

end
