(* ===== verification/Vuln_Types.thy ===== *)
theory Vuln_Types
  imports Coordinate Complex_Main
begin

text \<open>
  \<open>internal/vuln/domain\<close>, the values of the vulnerability ledger: findings and records
  (\<open>types.go\<close>, \<open>reachability.go\<close>, \<open>dispatch.go\<close>), the two axes a record is judged on, the
  database snapshot (\<open>snapshot.go\<close>), the frame a scan was rooted in (\<open>rooting.go\<close>) and the
  reachability state of a finding (\<open>reachability_state.go\<close>).

  A pointer is an option, a slice a list; a severity score, a finite \<open>float64\<close> that is only ever
  compared, is a rational number.
\<close>

subsection \<open>Snapshots\<close>

record DatabaseSnapshot =
  ss_source :: string
  ss_version :: string
  ss_retrievedAt :: instant
  ss_contentHash :: string
  ss_advisoryCount :: int
  ss_origin :: string

datatype snapshot_error =
    ErrZeroSnapshot
  | SnapshotSeparator string string
  | SnapshotHashPrefix string
  | SnapshotHashLength string
  | SnapshotHashNotHex string
  | SnapshotCount int
  | SnapshotOriginEmpty

definition zero_snapshot :: DatabaseSnapshot where
  "zero_snapshot = \<lparr>ss_source = [], ss_version = [], ss_retrievedAt = zero_time, ss_contentHash = [],
                    ss_advisoryCount = 0, ss_origin = []\<rparr>"

definition is_hex :: "char \<Rightarrow> bool" where
  "is_hex c \<longleftrightarrow> c \<in> set ''0123456789abcdefABCDEF''"

definition validateSnapshotContentHash :: "string \<Rightarrow> snapshot_error option" where
  "validateSnapshotContentHash h =
     (if h = [] then None
      else case CutPrefix h ''sha256:'' of
        (digits, ok) \<Rightarrow>
          if \<not> ok then Some (SnapshotHashPrefix h)
          else if length digits \<noteq> 64 then Some (SnapshotHashLength h)
          else if \<not> list_all is_hex digits then Some (SnapshotHashNotHex h)
          else None)"

definition NewDatabaseSnapshot ::
  "string \<Rightarrow> string \<Rightarrow> instant \<Rightarrow> string \<Rightarrow> snapshot_error + DatabaseSnapshot" where
  "NewDatabaseSnapshot source version retrievedAt contentHash =
     (if source = [] \<or> version = [] then Inl ErrZeroSnapshot
      else if Contains source ''@'' \<or> Contains version ''@'' then Inl (SnapshotSeparator source version)
      else case validateSnapshotContentHash contentHash of
             Some e \<Rightarrow> Inl e
           | None \<Rightarrow> Inr (zero_snapshot\<lparr>ss_source := source, ss_version := version,
                       ss_retrievedAt := retrievedAt, ss_contentHash := contentHash\<rparr>))"

definition snapshot_IsZero :: "DatabaseSnapshot \<Rightarrow> bool" where
  "snapshot_IsZero s \<longleftrightarrow> ss_source s = [] \<or> ss_version s = []"

definition WithAdvisoryCount :: "DatabaseSnapshot \<Rightarrow> int \<Rightarrow> snapshot_error + DatabaseSnapshot" where
  "WithAdvisoryCount s n =
     (if snapshot_IsZero s then Inl ErrZeroSnapshot
      else if n \<le> 0 then Inl (SnapshotCount n)
      else Inr (s\<lparr>ss_advisoryCount := n\<rparr>))"

definition WithOrigin :: "DatabaseSnapshot \<Rightarrow> string \<Rightarrow> snapshot_error + DatabaseSnapshot" where
  "WithOrigin s origin =
     (if snapshot_IsZero s then Inl ErrZeroSnapshot
      else if origin = [] then Inl SnapshotOriginEmpty
      else Inr (s\<lparr>ss_origin := origin\<rparr>))"

definition WithContentHash :: "DatabaseSnapshot \<Rightarrow> string \<Rightarrow> snapshot_error + DatabaseSnapshot" where
  "WithContentHash s contentHash =
     (if snapshot_IsZero s then Inl ErrZeroSnapshot
      else case validateSnapshotContentHash contentHash of
             Some e \<Rightarrow> Inl e
           | None \<Rightarrow> Inr (s\<lparr>ss_contentHash := contentHash\<rparr>))"

definition snapshot_Equal :: "DatabaseSnapshot \<Rightarrow> DatabaseSnapshot \<Rightarrow> bool" where
  "snapshot_Equal s t \<longleftrightarrow> ss_source s = ss_source t \<and> ss_version s = ss_version t
     \<and> ss_retrievedAt s = ss_retrievedAt t \<and> ss_contentHash s = ss_contentHash t"

definition snapshot_ok :: "DatabaseSnapshot \<Rightarrow> bool" where
  "snapshot_ok s \<longleftrightarrow> \<not> snapshot_IsZero s \<and> CHR ''@'' \<notin> set (ss_source s) \<and> CHR ''@'' \<notin> set (ss_version s)
     \<and> validateSnapshotContentHash (ss_contentHash s) = None"

lemma snapshot_constructed:
  "NewDatabaseSnapshot a b t h = Inr s \<Longrightarrow> snapshot_ok s"
  "snapshot_ok s \<Longrightarrow> WithAdvisoryCount s n = Inr s' \<Longrightarrow> snapshot_ok s' \<and> snapshot_Equal s s'"
  "snapshot_ok s \<Longrightarrow> WithOrigin s org = Inr s' \<Longrightarrow> snapshot_ok s' \<and> snapshot_Equal s s'"
  "snapshot_ok s \<Longrightarrow> WithContentHash s h = Inr s' \<Longrightarrow> snapshot_ok s'"
  by (auto simp: NewDatabaseSnapshot_def WithAdvisoryCount_def WithOrigin_def WithContentHash_def
      snapshot_ok_def snapshot_IsZero_def snapshot_Equal_def Contains_char zero_snapshot_def
      split: if_splits option.splits)

subsection \<open>Rooting\<close>

type_synonym Rooting = string

definition RootingUnrecorded :: Rooting where [simp]: "RootingUnrecorded = []"
definition RootingIsolated :: Rooting where [simp]: "RootingIsolated = ''isolated''"
definition RootingTargetRooted :: Rooting where [simp]: "RootingTargetRooted = ''target-rooted''"
definition rootingTargetPrefix :: string where [simp]: "rootingTargetPrefix = ''target-rooted:''"

definition TargetRootedAt :: "ModuleCoordinate \<Rightarrow> Rooting" where
  "TargetRootedAt target = rootingTargetPrefix @ coord_String target"

definition rooting_IsRecorded :: "Rooting \<Rightarrow> bool" where
  "rooting_IsRecorded r \<longleftrightarrow> r \<noteq> RootingUnrecorded"

definition IsTargetRooted :: "Rooting \<Rightarrow> bool" where
  "IsTargetRooted r \<longleftrightarrow> r = RootingTargetRooted \<or> HasPrefix r rootingTargetPrefix"

definition RootTarget :: "Rooting \<Rightarrow> string" where
  "RootTarget r = (case CutPrefix r rootingTargetPrefix of (target, ok) \<Rightarrow> if \<not> ok then [] else target)"

definition IsRootedAtPath :: "Rooting \<Rightarrow> string \<Rightarrow> bool" where
  "IsRootedAtPath r path =
     (let target = RootTarget r in
      if target = [] \<or> path = [] then False else fst (Cut target CHR ''@'') = path)"

definition IsRootedAt :: "Rooting \<Rightarrow> ModuleCoordinate \<Rightarrow> bool" where
  "IsRootedAt r coord \<longleftrightarrow> RootTarget r \<noteq> [] \<and> RootTarget r = coord_String coord"

lemma RootTarget_TargetRootedAt [simp]: "RootTarget (TargetRootedAt c) = coord_String c"
  by (simp add: RootTarget_def TargetRootedAt_def CutPrefix_def HasPrefix_def)

text \<open>
  A target-rooted frame names its root and nothing else.  For coordinates whose path has no
  \<open>@\<close>, the frame rooted at one is recorded and target-rooted, is not the isolated frame, is rooted
  at exactly that coordinate and exactly that path, and two targets share a frame only when they
  are the same coordinate.
\<close>

theorem target_frame_names_its_root:
  assumes "CHR ''@'' \<notin> set (Path c)" "CHR ''@'' \<notin> set (Path d)" "Path c \<noteq> []"
  shows "rooting_IsRecorded (TargetRootedAt c) \<and> IsTargetRooted (TargetRootedAt c)
    \<and> TargetRootedAt c \<noteq> RootingIsolated
    \<and> (IsRootedAt (TargetRootedAt c) d \<longleftrightarrow> d = c)
    \<and> (IsRootedAtPath (TargetRootedAt c) p \<longleftrightarrow> p = Path c)
    \<and> (TargetRootedAt c = TargetRootedAt d \<longleftrightarrow> c = d)"
proof -
  have ne: "coord_String x \<noteq> []" for x by (simp add: coord_String_def)
  have cut: "Cut (coord_String x) CHR ''@'' = (Path x, Version x, True)" if "CHR ''@'' \<notin> set (Path x)" for x
    using Cut_no_sep [OF that, of "Version x"] by (simp add: coord_String_def)
  have inj: "coord_String c = coord_String d \<longleftrightarrow> c = d"
    using cut [OF assms(1)] cut [OF assms(2)] by (metis ModuleCoordinate.expand prod.inject)
  have "TargetRootedAt c = TargetRootedAt d \<longleftrightarrow> c = d"
    using inj by (simp add: TargetRootedAt_def)
  moreover have "IsTargetRooted (TargetRootedAt c)"
    unfolding IsTargetRooted_def TargetRootedAt_def HasPrefix_def by (metis prefixI)
  ultimately show ?thesis
    using inj cut [OF assms(1)] ne [of c] assms(3)
    by (auto simp: rooting_IsRecorded_def IsRootedAt_def IsRootedAtPath_def Let_def)
      (auto simp: TargetRootedAt_def)
qed

theorem target_frame_names_its_root_witness:
  "IsRootedAtPath (TargetRootedAt (ModuleCoordinate ''a/mux'' ''v1.8.1'')) ''a/mux''"
  using target_frame_names_its_root [of "ModuleCoordinate ''a/mux'' ''v1.8.1''" "ModuleCoordinate ''a'' ''v1''" "''a/mux''"]
  by simp

subsection \<open>Findings\<close>

type_synonym DispatchKind = string

definition DispatchDirect :: DispatchKind where [simp]: "DispatchDirect = ''direct''"
definition DispatchInterface :: DispatchKind where [simp]: "DispatchInterface = ''interface''"
definition DispatchReflect :: DispatchKind where [simp]: "DispatchReflect = ''reflect''"
definition DispatchFramework :: DispatchKind where [simp]: "DispatchFramework = ''framework''"
definition DispatchUnresolved :: DispatchKind where [simp]: "DispatchUnresolved = ''unresolved''"
definition DispatchReference :: DispatchKind where [simp]: "DispatchReference = ''reference''"

definition dispatch_IsAnnotated :: "DispatchKind \<Rightarrow> bool" where
  "dispatch_IsAnnotated k \<longleftrightarrow> k \<in> {DispatchDirect, DispatchInterface, DispatchReflect, DispatchFramework,
     DispatchUnresolved, DispatchReference}"

record HopDispatch =
  hd_Kind :: DispatchKind
  hd_Confidence :: string
  hd_Reason :: string
  hd_Graph :: string
  hd_GraphCompleteness :: string
  hd_CallSite :: string
  hd_Interface :: string
  hd_ImplementationModule :: string
  hd_Implementers :: int
  hd_ImplementersQuery :: string

definition IsReflectDispatcher :: "string \<Rightarrow> bool" where
  "IsReflectDispatcher calleeID \<longleftrightarrow> calleeID \<in> {''reflect.(Value).Call'', ''reflect.(Value).CallSlice'',
     ''reflect.(Value).Method'', ''reflect.(Value).MethodByName'', ''reflect.(Value).FieldByName''}"

definition DispatchKindOfEdge :: "string \<Rightarrow> string \<Rightarrow> bool \<Rightarrow> bool \<Rightarrow> DispatchKind" where
  "DispatchKindOfEdge calleeID confidence reflectDispatch reference =
     (if reference then DispatchReference
      else if reflectDispatch \<and> IsReflectDispatcher calleeID then DispatchReflect
      else if confidence = ''Direct'' then DispatchDirect
      else if confidence = ''CHA-overapprox'' \<or> confidence = ''VTA'' then DispatchInterface
      else if confidence = ''Framework'' then DispatchFramework
      else DispatchUnresolved)"

record ReachabilityFrame =
  rf_ModulePath :: string
  rf_ModuleVersion :: string
  rf_Package :: string
  rf_Receiver :: string
  rf_Symbol :: string
  rf_Dispatch :: HopDispatch

type_synonym ReachabilityRoute = "ReachabilityFrame list"

record ReachabilityDerivation =
  rd_Analyser :: string
  rd_Fidelity :: string
  rd_Rooting :: Rooting
  rd_RootSelection :: string
  rd_GraphPipeline :: string

definition AnalyserGovulncheck :: string where [simp]: "AnalyserGovulncheck = ''govulncheck''"
definition AnalyserCallGraphBFS :: string where [simp]: "AnalyserCallGraphBFS = ''callgraph-bfs''"
definition ConfidenceUnknown :: string where [simp]: "ConfidenceUnknown = ''Unknown''"

record Severity =
  sv_Vector :: string
  sv_Score :: rat
  sv_Label :: string

record ReachabilityResult =
  rr_IsReachable :: bool
  rr_Confidence :: string
  rr_Routes :: "ReachabilityRoute list"
  rr_DerivedBy :: ReachabilityDerivation

record ReflectiveDispatchSite =
  rs_Caller :: string
  rs_Callee :: string
  rs_CallSite :: string
  rs_ReachableFromEntryPoint :: bool

record NegativeSearch =
  ns_NotSearched :: string
  ns_Fidelity :: string
  ns_EntryPointRoots :: int
  ns_ArtifactKind :: string
  ns_PathFound :: bool
  ns_Route :: ReachabilityRoute
  ns_ShippedCodePathFound :: bool
  ns_ShippedCodeRoute :: ReachabilityRoute
  ns_ReflectiveDispatch :: "ReflectiveDispatchSite list"
  ns_GraphsSearched :: "string list"
  ns_InRecordedFrame :: bool
  ns_NotJoined :: string
  ns_UnjoinedCalls :: "string list"

record AdvisoryReference =
  ar_Type :: string
  ar_URL :: string

record VulnerabilityFinding =
  f_ID :: string
  f_Aliases :: "string list"
  f_Summary :: string
  f_Details :: string
  f_AffectedRange :: string
  f_FixedIn :: string
  f_Severity :: "Severity option"
  f_AffectedSymbols :: "string list"
  f_AffectedPackages :: "string list"
  f_Reachable :: "ReachabilityResult option"
  f_NegativeSearch :: "NegativeSearch option"
  f_AdvisoryNamesNoSymbols :: bool
  f_ReachabilityNote :: string
  f_NotEstablished :: bool
  f_TinyGoNote :: string
  f_References :: "AdvisoryReference list"
  f_PublishedAt :: instant
  f_ModifiedAt :: instant
  f_WithdrawnAt :: instant

definition IsWithdrawn :: "VulnerabilityFinding \<Rightarrow> bool" where
  "IsWithdrawn f \<longleftrightarrow> f_WithdrawnAt f \<noteq> zero_time"

definition ReachabilityAttemptFailed :: "VulnerabilityFinding \<Rightarrow> bool" where
  "ReachabilityAttemptFailed f \<longleftrightarrow> f_Reachable f = None \<and> f_ReachabilityNote f \<noteq> []"

definition FixDisplay :: "VulnerabilityFinding \<Rightarrow> string" where
  "FixDisplay f = (if f_FixedIn f \<noteq> [] then ''fixed in '' @ f_FixedIn f else ''no fix available'')"

definition NodeID :: "ReachabilityFrame \<Rightarrow> string" where
  "NodeID f =
     (if rf_Package f = [] \<or> rf_Symbol f = [] then []
      else if rf_Receiver f \<noteq> [] then rf_Package f @ ''.('' @ rf_Receiver f @ '').'' @ rf_Symbol f
      else rf_Package f @ ''.'' @ rf_Symbol f)"

definition frame_String :: "ReachabilityFrame \<Rightarrow> string" where
  "frame_String f = TrimSpace
     ((if rf_ModulePath f \<noteq> [] then rf_ModulePath f @
         (if rf_ModuleVersion f \<noteq> [] then ''@'' @ rf_ModuleVersion f else []) @ '' '' else [])
      @ (if rf_Package f \<noteq> [] \<and> rf_Package f \<noteq> rf_ModulePath f then rf_Package f @ ''.'' else [])
      @ (if rf_Receiver f \<noteq> [] then ''('' @ rf_Receiver f @ '').'' else [])
      @ rf_Symbol f)"

text \<open>The loop of \<open>IsVersioned\<close> over the hops after the first.\<close>

fun versionedHops :: "string \<Rightarrow> bool \<Rightarrow> ReachabilityRoute \<Rightarrow> bool" where
  "versionedHops base crossed [] = crossed"
| "versionedHops base crossed (f # fs) =
     (if rf_ModulePath f = base then versionedHops base crossed fs
      else if rf_ModuleVersion f = [] then False else versionedHops base True fs)"

definition IsVersioned :: "ReachabilityRoute \<Rightarrow> bool" where
  "IsVersioned r = (if length r < 2 then False else versionedHops (rf_ModulePath (hd r)) False (tl r))"

lemma versionedHops_iff:
  "versionedHops base crossed fs \<longleftrightarrow>
     (\<forall>f \<in> set fs. rf_ModulePath f = base \<or> rf_ModuleVersion f \<noteq> []) \<and>
     (crossed \<or> (\<exists>f \<in> set fs. rf_ModulePath f \<noteq> base))"
  by (induction fs arbitrary: crossed) auto

definition route_String :: "ReachabilityRoute \<Rightarrow> string" where
  "route_String r =
     (let frames = map frame_String r in
      if length frames > 6 then
        Join (take 5 frames) '' -> '' @ '' -> '' @ ellipsis @ '' ('' @ Itoa (int (length frames) - 6)
          @ '' more) -> '' @ last frames
      else Join frames '' -> '')"

subsection \<open>The reachability state of a finding\<close>

datatype ReachabilityState =
    StateNotAnalysed | StateReachable | StateNotReachable | StatePackageLevelOnly | StateWithdrawn
  | StateNotDetermined | StateNotComputed | StateNotAffected

definition FindingReachabilityState :: "VulnerabilityFinding \<Rightarrow> ReachabilityState" where
  "FindingReachabilityState f =
     (if IsWithdrawn f then StateWithdrawn
      else if f_NotEstablished f then StateNotDetermined
      else case f_Reachable f of
        None \<Rightarrow> if ReachabilityAttemptFailed f then StateNotComputed else StateNotAnalysed
      | Some r \<Rightarrow>
          if f_AdvisoryNamesNoSymbols f then StatePackageLevelOnly
          else if rr_Confidence r = ConfidenceUnknown then StateNotDetermined
          else if rr_IsReachable r then StateReachable else StateNotReachable)"

definition state_String :: "ReachabilityState \<Rightarrow> string" where
  "state_String s =
     (case s of
        StateNotAnalysed \<Rightarrow> ''not_analysed'' | StateReachable \<Rightarrow> ''reachable''
      | StateNotReachable \<Rightarrow> ''not_reachable'' | StatePackageLevelOnly \<Rightarrow> ''package_level_only''
      | StateWithdrawn \<Rightarrow> ''withdrawn'' | StateNotDetermined \<Rightarrow> ''not_determined''
      | StateNotComputed \<Rightarrow> ''not_computed'' | StateNotAffected \<Rightarrow> ''not_affected'')"

definition IsAnswered :: "ReachabilityState \<Rightarrow> bool" where
  "IsAnswered s \<longleftrightarrow> s = StateReachable \<or> s = StateNotReachable"

lemma state_String_inj: "state_String a = state_String b \<longleftrightarrow> a = b"
  by (cases a; cases b) (simp_all add: state_String_def)

end
