(* ===== verification/Vuln_Record.thy ===== *)
theory Vuln_Record
  imports Vuln_Types
begin

text \<open>
  \<open>internal/vuln/domain/types.go\<close> and \<open>walk_scan_status.go\<close>: the vulnerability record and the two
  axes it is judged on, what was covered and what was found, with the single status that
  projects them; and the same judgement for a whole walk.
\<close>

type_synonym VulnerabilityStatus = string

definition StatusClean :: VulnerabilityStatus where [simp]: "StatusClean = ''Clean''"
definition StatusAffected :: VulnerabilityStatus where [simp]: "StatusAffected = ''Affected''"
definition StatusWithdrawn :: VulnerabilityStatus where [simp]: "StatusWithdrawn = ''Withdrawn''"
definition StatusUnscannable :: VulnerabilityStatus where [simp]: "StatusUnscannable = ''Unscannable''"
definition StatusScanFailed :: VulnerabilityStatus where [simp]: "StatusScanFailed = ''ScanFailed''"
definition StatusInconclusive :: VulnerabilityStatus where [simp]: "StatusInconclusive = ''Inconclusive''"

type_synonym RecordCoverageStatus = string

definition CoverageAnalysed :: RecordCoverageStatus where [simp]: "CoverageAnalysed = ''Analysed''"
definition CoverageUnscannable :: RecordCoverageStatus where [simp]: "CoverageUnscannable = ''Unscannable''"
definition CoverageFailedScan :: RecordCoverageStatus where [simp]: "CoverageFailedScan = ''Failed''"

type_synonym RecordFindingsStatus = string

definition FindingsRecordAffected :: RecordFindingsStatus where [simp]: "FindingsRecordAffected = ''Affected''"
definition FindingsRecordWithdrawn :: RecordFindingsStatus where [simp]: "FindingsRecordWithdrawn = ''Withdrawn''"
definition FindingsRecordClean :: RecordFindingsStatus where [simp]: "FindingsRecordClean = ''Clean''"
definition FindingsRecordInconclusive :: RecordFindingsStatus where
  [simp]: "FindingsRecordInconclusive = ''Inconclusive''"

record VulnerabilityRecord =
  vr_Ecosystem :: string
  vr_Coordinate :: ModuleCoordinate
  vr_WalkID :: string
  vr_Findings :: "VulnerabilityFinding list"
  vr_OverallStatus :: VulnerabilityStatus
  vr_CoverageStatus :: RecordCoverageStatus
  vr_FindingsStatus :: RecordFindingsStatus
  vr_UnscanReason :: string
  vr_UnscannableReason :: string
  vr_ErrorDetail :: string
  vr_FailureCause :: string
  vr_DatabaseSnapshot :: DatabaseSnapshot
  vr_ScannedAt :: instant
  vr_FirstScannedAt :: instant
  vr_PipelineVersion :: string
  vr_CallGraphCompleteness :: string
  vr_CallGraphAlgorithm :: string
  vr_Rooting :: Rooting
  vr_AnalysisSurface :: string
  vr_Toolchain :: string
  vr_ContentHash :: string
  vr_ArtefactIdentity :: string
  vr_SourceContentHash :: string
  vr_Reused :: bool

definition RecordRooting :: "VulnerabilityRecord \<Rightarrow> Rooting" where
  "RecordRooting r = vr_Rooting r"

definition RecordAnalysisSurface :: "VulnerabilityRecord \<Rightarrow> string" where
  "RecordAnalysisSurface r = (if vr_AnalysisSurface r = [] then ''fetched'' else vr_AnalysisSurface r)"

subsection \<open>The two axes\<close>

definition DetermineRecordCoverageStatus :: "VulnerabilityStatus \<Rightarrow> RecordCoverageStatus" where
  "DetermineRecordCoverageStatus status =
     (if status = StatusUnscannable then CoverageUnscannable
      else if status = StatusScanFailed then CoverageFailedScan
      else if status \<in> {StatusClean, StatusAffected, StatusWithdrawn, StatusInconclusive} then CoverageAnalysed
      else CoverageFailedScan)"

definition DetermineRecordCoverage :: "VulnerabilityRecord \<Rightarrow> RecordCoverageStatus" where
  "DetermineRecordCoverage r =
     (if vr_UnscanReason r \<noteq> [] \<or> vr_UnscannableReason r \<noteq> [] then CoverageUnscannable
      else if vr_ErrorDetail r \<noteq> [] then CoverageFailedScan
      else DetermineRecordCoverageStatus (vr_OverallStatus r))"

definition DetermineRecordFindingsStatus :: "VulnerabilityStatus \<Rightarrow> RecordFindingsStatus" where
  "DetermineRecordFindingsStatus status =
     (if status = StatusAffected then FindingsRecordAffected
      else if status = StatusWithdrawn then FindingsRecordWithdrawn
      else if status = StatusInconclusive then FindingsRecordInconclusive
      else FindingsRecordClean)"

text \<open>The loop of \<open>DetermineFindingsAxis\<close>, with its flag.\<close>

fun findingsAxis :: "bool \<Rightarrow> VulnerabilityFinding list \<Rightarrow> RecordFindingsStatus" where
  "findingsAxis inconclusive [] = (if inconclusive then FindingsRecordInconclusive else FindingsRecordWithdrawn)"
| "findingsAxis inconclusive (f # fs) =
     (if IsWithdrawn f then findingsAxis inconclusive fs
      else if f_NotEstablished f then findingsAxis True fs
      else FindingsRecordAffected)"

definition DetermineFindingsAxis :: "VulnerabilityFinding list \<Rightarrow> RecordFindingsStatus" where
  "DetermineFindingsAxis findings = (if findings = [] then FindingsRecordClean else findingsAxis False findings)"

definition DetermineRecordFindings :: "VulnerabilityRecord \<Rightarrow> RecordFindingsStatus" where
  "DetermineRecordFindings r =
     (if length (vr_Findings r) > 0 then DetermineFindingsAxis (vr_Findings r)
      else DetermineRecordFindingsStatus (vr_OverallStatus r))"

definition DetermineRecordOverallStatus :: "RecordCoverageStatus \<Rightarrow> RecordFindingsStatus \<Rightarrow> VulnerabilityStatus" where
  "DetermineRecordOverallStatus coverage findings =
     (if coverage = CoverageUnscannable then StatusUnscannable
      else if coverage = CoverageFailedScan then StatusScanFailed
      else if coverage = CoverageAnalysed then
        (if findings = FindingsRecordAffected then StatusAffected
         else if findings = FindingsRecordWithdrawn then StatusWithdrawn
         else if findings = FindingsRecordInconclusive then StatusInconclusive
         else StatusClean)
      else StatusScanFailed)"

definition RecordAxes :: "VulnerabilityRecord \<Rightarrow> RecordCoverageStatus \<times> RecordFindingsStatus" where
  "RecordAxes r =
     (if vr_CoverageStatus r = [] then DetermineRecordCoverage r else vr_CoverageStatus r,
      if vr_FindingsStatus r = [] then DetermineRecordFindings r else vr_FindingsStatus r)"

definition reportsAdvisory :: "RecordFindingsStatus \<Rightarrow> bool" where
  "reportsAdvisory f \<longleftrightarrow> f = FindingsRecordAffected \<or> f = FindingsRecordWithdrawn \<or> f = FindingsRecordInconclusive"

lemma findingsAxis_iff:
  "findingsAxis b fs =
     (if \<exists>f \<in> set fs. \<not> IsWithdrawn f \<and> \<not> f_NotEstablished f then FindingsRecordAffected
      else if b \<or> (\<exists>f \<in> set fs. \<not> IsWithdrawn f) then FindingsRecordInconclusive
      else FindingsRecordWithdrawn)"
  by (induction fs arbitrary: b) auto

lemma DetermineFindingsAxis_iff:
  "DetermineFindingsAxis fs =
     (if fs = [] then FindingsRecordClean
      else if \<exists>f \<in> set fs. \<not> IsWithdrawn f \<and> \<not> f_NotEstablished f then FindingsRecordAffected
      else if \<exists>f \<in> set fs. \<not> IsWithdrawn f then FindingsRecordInconclusive
      else FindingsRecordWithdrawn)"
  by (auto simp: DetermineFindingsAxis_def findingsAxis_iff)

text \<open>
  What is read of a record that stores no axis of its own.  Projecting a status word to both axes and
  back gives the word again, except that an unknown one reads as a failed scan; the findings axis of
  a record with findings is affected exactly when some finding is neither withdrawn nor
  unestablished, and never clean; a record with a diagnostic is not read as analysed, whatever
  its status says.
\<close>

theorem record_axes_read:
  "DetermineRecordOverallStatus (DetermineRecordCoverageStatus s) (DetermineRecordFindingsStatus s) =
     (if s \<in> {StatusClean, StatusAffected, StatusWithdrawn, StatusUnscannable, StatusScanFailed, StatusInconclusive}
      then s else StatusScanFailed)
   \<and> (vr_FindingsStatus r = [] \<and> vr_Findings r \<noteq> [] \<longrightarrow>
        reportsAdvisory (snd (RecordAxes r))
        \<and> (snd (RecordAxes r) = FindingsRecordAffected \<longleftrightarrow>
             (\<exists>f \<in> set (vr_Findings r). \<not> IsWithdrawn f \<and> \<not> f_NotEstablished f))
        \<and> (mset (vr_Findings r') = mset (vr_Findings r) \<and> vr_FindingsStatus r' = [] \<longrightarrow>
             snd (RecordAxes r') = snd (RecordAxes r)))
   \<and> (vr_CoverageStatus r = [] \<and> (vr_UnscanReason r \<noteq> [] \<or> vr_UnscannableReason r \<noteq> [] \<or> vr_ErrorDetail r \<noteq> [])
        \<longrightarrow> fst (RecordAxes r) \<noteq> CoverageAnalysed)"
proof (intro conjI impI)
  show "DetermineRecordOverallStatus (DetermineRecordCoverageStatus s) (DetermineRecordFindingsStatus s) =
     (if s \<in> {StatusClean, StatusAffected, StatusWithdrawn, StatusUnscannable, StatusScanFailed, StatusInconclusive}
      then s else StatusScanFailed)"
    by (simp add: DetermineRecordOverallStatus_def DetermineRecordCoverageStatus_def DetermineRecordFindingsStatus_def)
next
  assume r: "vr_FindingsStatus r = [] \<and> vr_Findings r \<noteq> []"
  then have axis: "snd (RecordAxes r) = DetermineFindingsAxis (vr_Findings r)"
    by (simp add: RecordAxes_def DetermineRecordFindings_def)
  show "reportsAdvisory (snd (RecordAxes r))"
    unfolding axis DetermineFindingsAxis_iff using r by (simp add: reportsAdvisory_def)
  show "snd (RecordAxes r) = FindingsRecordAffected \<longleftrightarrow>
      (\<exists>f \<in> set (vr_Findings r). \<not> IsWithdrawn f \<and> \<not> f_NotEstablished f)"
    unfolding axis DetermineFindingsAxis_iff using r by simp
  assume r': "mset (vr_Findings r') = mset (vr_Findings r) \<and> vr_FindingsStatus r' = []"
  then have sets: "set (vr_Findings r') = set (vr_Findings r)" "vr_Findings r' \<noteq> []"
    using r by (auto dest: mset_eq_setD)
  then have axis': "snd (RecordAxes r') = DetermineFindingsAxis (vr_Findings r')"
    using r' by (simp add: RecordAxes_def DetermineRecordFindings_def)
  show "snd (RecordAxes r') = snd (RecordAxes r)"
    unfolding axis axis' DetermineFindingsAxis_iff sets(1) using sets(2) r by simp
next
  assume "vr_CoverageStatus r = [] \<and> (vr_UnscanReason r \<noteq> [] \<or> vr_UnscannableReason r \<noteq> [] \<or> vr_ErrorDetail r \<noteq> [])"
  then show "fst (RecordAxes r) \<noteq> CoverageAnalysed"
    by (auto simp: RecordAxes_def DetermineRecordCoverage_def)
qed

definition example_finding :: VulnerabilityFinding where
  "example_finding = \<lparr>f_ID = ''GO-2024-0001'', f_Aliases = [], f_Summary = ''s'', f_Details = [],
     f_AffectedRange = [], f_FixedIn = [], f_Severity = None, f_AffectedSymbols = [], f_AffectedPackages = [],
     f_Reachable = None, f_NegativeSearch = None, f_AdvisoryNamesNoSymbols = False, f_ReachabilityNote = [],
     f_NotEstablished = False, f_TinyGoNote = [], f_References = [], f_PublishedAt = 1, f_ModifiedAt = 1,
     f_WithdrawnAt = 0\<rparr>"

definition example_vuln_record :: VulnerabilityRecord where
  "example_vuln_record = \<lparr>vr_Ecosystem = ''go'', vr_Coordinate = ModuleCoordinate ''a/mux'' ''v1.8.1'',
     vr_WalkID = ''w1'', vr_Findings = [], vr_OverallStatus = StatusClean, vr_CoverageStatus = [],
     vr_FindingsStatus = [], vr_UnscanReason = [], vr_UnscannableReason = [], vr_ErrorDetail = [],
     vr_FailureCause = [], vr_DatabaseSnapshot = zero_snapshot\<lparr>ss_source := ''db'', ss_version := ''1''\<rparr>,
     vr_ScannedAt = 5, vr_FirstScannedAt = 5, vr_PipelineVersion = ''v1'', vr_CallGraphCompleteness = [],
     vr_CallGraphAlgorithm = [], vr_Rooting = RootingIsolated, vr_AnalysisSurface = [], vr_Toolchain = ''go1.22'',
     vr_ContentHash = ''sha256:01'', vr_ArtefactIdentity = [], vr_SourceContentHash = [], vr_Reused = False\<rparr>"

theorem record_axes_read_witness:
  "reportsAdvisory (snd (RecordAxes (example_vuln_record\<lparr>vr_Findings := [example_finding]\<rparr>)))"
  using record_axes_read [of StatusClean "example_vuln_record\<lparr>vr_Findings := [example_finding]\<rparr>" example_vuln_record]
  by (simp add: example_vuln_record_def)

subsection \<open>The status of a walk\<close>

type_synonym WalkScanStatus = string

definition DetermineWalkScanStatus :: "int \<Rightarrow> int \<Rightarrow> int \<Rightarrow> int \<Rightarrow> int \<Rightarrow> WalkScanStatus" where
  "DetermineWalkScanStatus failed affected inconclusive unscannable all =
     (if failed = all then ''ScanFailed''
      else if failed > 0 \<or> unscannable > 0 then ''Partial''
      else if affected > 0 then ''Affected''
      else if inconclusive > 0 then ''Inconclusive''
      else ''AllClean'')"

definition DetermineCoverageStatus :: "int \<Rightarrow> int \<Rightarrow> int \<Rightarrow> string" where
  "DetermineCoverageStatus failed unscannable all =
     (if failed = all then ''Failed''
      else if failed > 0 \<or> unscannable > 0 then ''Partial''
      else ''Complete'')"

definition DetermineFindingsStatus :: "int \<Rightarrow> int \<Rightarrow> string" where
  "DetermineFindingsStatus affected inconclusive =
     (if affected > 0 then ''Affected'' else if inconclusive > 0 then ''Inconclusive'' else ''Clean'')"

lemma walk_status_projects_axes:
  "DetermineWalkScanStatus f a i u t = ''AllClean'' \<longleftrightarrow>
     DetermineCoverageStatus f u t = ''Complete'' \<and> DetermineFindingsStatus a i = ''Clean''"
  "DetermineWalkScanStatus f a i u t = ''ScanFailed'' \<longleftrightarrow> DetermineCoverageStatus f u t = ''Failed''"
  "DetermineWalkScanStatus f a i u t = ''Partial'' \<longleftrightarrow> DetermineCoverageStatus f u t = ''Partial''"
  by (auto simp: DetermineWalkScanStatus_def DetermineCoverageStatus_def DetermineFindingsStatus_def)

end
