(* ===== verification/Vuln_Compose.thy ===== *)
theory Vuln_Compose
  imports Ledger Vuln_Record
begin

text \<open>
  \<open>internal/vuln/domain/compose.go\<close>, \<open>toolchain_conflict.go\<close> and \<open>finding_conflict.go\<close>: which record of a
  module answers a question, in the frame the question is asked in, and when the ledger refuses
  to answer because two records contradict each other.

  A conflict is reported as a Go error value; it is the left side of the sum here.  A map that
  collects representatives is folded in record order, as the code assigns it.
\<close>

subsection \<open>The order records are served in\<close>

definition completenessRung :: "string \<Rightarrow> int" where
  "completenessRung level =
     (if level = ''BUILT_WITH_BODIES'' then 4 else if level = ''TYPE_ONLY'' then 3
      else if level = ''METADATA_ONLY'' then 2 else if level = ''FAILED'' then 1 else 0)"

definition servesBefore_vuln :: "VulnerabilityRecord \<Rightarrow> VulnerabilityRecord \<Rightarrow> bool" where
  "servesBefore_vuln a b =
     (if reportsAdvisory (snd (RecordAxes a)) \<noteq> reportsAdvisory (snd (RecordAxes b))
      then reportsAdvisory (snd (RecordAxes a))
      else if (fst (RecordAxes a) = CoverageAnalysed) \<noteq> (fst (RecordAxes b) = CoverageAnalysed)
      then fst (RecordAxes a) = CoverageAnalysed
      else if completenessRung (vr_CallGraphCompleteness a) \<noteq> completenessRung (vr_CallGraphCompleteness b)
      then completenessRung (vr_CallGraphCompleteness a) > completenessRung (vr_CallGraphCompleteness b)
      else if ss_retrievedAt (vr_DatabaseSnapshot a) \<noteq> ss_retrievedAt (vr_DatabaseSnapshot b)
      then ss_retrievedAt (vr_DatabaseSnapshot a) > ss_retrievedAt (vr_DatabaseSnapshot b)
      else if ss_version (vr_DatabaseSnapshot a) \<noteq> ss_version (vr_DatabaseSnapshot b)
      then ss_version (vr_DatabaseSnapshot a) > ss_version (vr_DatabaseSnapshot b)
      else if vr_ScannedAt a \<noteq> vr_ScannedAt b then vr_ScannedAt a > vr_ScannedAt b
      else vr_ContentHash a < vr_ContentHash b)"

interpretation vuln: sealed_serving servesBefore_vuln vr_ContentHash
proof unfold_locales
  show "swo servesBefore_vuln"
    unfolding servesBefore_vuln_def [abs_def]
    by (intro swo_then_true [of _ "\<lambda>r. reportsAdvisory (snd (RecordAxes r))"]
        swo_then_true [of _ "\<lambda>r. fst (RecordAxes r) = CoverageAnalysed"] swo_then_desc swo_key)
qed (auto simp: servesBefore_vuln_def split: if_splits)

definition best :: "VulnerabilityRecord list \<Rightarrow> VulnerabilityRecord" where
  "best records = serve servesBefore_vuln records"

subsection \<open>Conflicts\<close>

record ToolchainConflict =
  tcf_Coordinate :: ModuleCoordinate
  tcf_Values :: "string list"
  tcf_ContentHashes :: "string list"
  tcf_NewestWalkID :: string

record FindingConflict =
  fcf_Coordinate :: ModuleCoordinate
  fcf_ContentHashes :: "string list"
  fcf_ScannedAt :: "instant list"
  fcf_Only :: "string list list"
  fcf_members :: "VulnerabilityRecord list"

datatype compose_error =
    NoVulnRecords
  | ConflictToolchain ToolchainConflict
  | ConflictFinding FindingConflict

definition claimsAVerdict :: "VulnerabilityRecord \<Rightarrow> bool" where
  "claimsAVerdict r \<longleftrightarrow> fst (RecordAxes r) = CoverageAnalysed \<or> reportsAdvisory (snd (RecordAxes r))"

definition claimsFindings :: "VulnerabilityRecord \<Rightarrow> bool" where
  "claimsFindings r \<longleftrightarrow> fst (RecordAxes r) = CoverageAnalysed \<and> reportsAdvisory (snd (RecordAxes r))"

definition sameSnapshot :: "DatabaseSnapshot \<Rightarrow> DatabaseSnapshot \<Rightarrow> bool" where
  "sameSnapshot a b \<longleftrightarrow>
     \<not> (ss_source a \<noteq> ss_source b \<or> ss_version a \<noteq> ss_version b)
     \<and> (ss_contentHash a = [] \<or> ss_contentHash b = [] \<or> ss_contentHash a = ss_contentHash b)"

definition newerScan :: "VulnerabilityRecord \<Rightarrow> VulnerabilityRecord \<Rightarrow> bool" where
  "newerScan a b =
     (if vr_ScannedAt a \<noteq> vr_ScannedAt b then vr_ScannedAt a > vr_ScannedAt b
      else vr_ContentHash a < vr_ContentHash b)"

definition bool_text :: "bool \<Rightarrow> string" where
  "bool_text b = (if b then ''true'' else ''false'')"

definition verdictDigest :: "VulnerabilityRecord \<Rightarrow> string" where
  "verdictDigest r =
     Join ([vr_OverallStatus r, vr_CoverageStatus r, vr_FindingsStatus r, vr_UnscanReason r, vr_UnscannableReason r]
           @ sort (map (\<lambda>f. f_ID f @ ''|'' @ f_FixedIn f @ ''|'' @
               (case f_Reachable f of None \<Rightarrow> ''unrecorded''
                | Some x \<Rightarrow> bool_text (rr_IsReachable x) @ ''/'' @ rr_Confidence x)) (vr_Findings r)))
       [CHR 0x00]"

definition findingIDs :: "VulnerabilityRecord \<Rightarrow> string list" where
  "findingIDs r = sort (remdups (map f_ID (vr_Findings r)))"

definition sameQuestion :: "VulnerabilityRecord \<Rightarrow> VulnerabilityRecord \<Rightarrow> bool" where
  "sameQuestion a b \<longleftrightarrow> vr_PipelineVersion a = vr_PipelineVersion b
     \<and> sameSnapshot (vr_DatabaseSnapshot a) (vr_DatabaseSnapshot b)
     \<and> RecordRooting a = RecordRooting b \<and> vr_Toolchain a = vr_Toolchain b"

text \<open>
  The map \<open>rep\<close> of both searches: for each key the best record seen with it, kept as an
  association list in the order the keys first appear.
\<close>

fun offerRep ::
  "(VulnerabilityRecord \<Rightarrow> 'k) \<Rightarrow> ('k \<times> VulnerabilityRecord) list \<Rightarrow> VulnerabilityRecord
     \<Rightarrow> ('k \<times> VulnerabilityRecord) list" where
  "offerRep key [] r = [(key r, r)]"
| "offerRep key ((k, cur) # rest) r =
     (if k = key r then (k, if servesBefore_vuln r cur then r else cur) # rest
      else (k, cur) # offerRep key rest r)"

definition representatives ::
  "(VulnerabilityRecord \<Rightarrow> 'k) \<Rightarrow> VulnerabilityRecord list \<Rightarrow> ('k \<times> VulnerabilityRecord) list" where
  "representatives key rs = foldl (offerRep key) [] rs"

text \<open>The newest record: the first, replaced by each that is newer.\<close>

definition newestOf :: "VulnerabilityRecord list \<Rightarrow> VulnerabilityRecord option" where
  "newestOf rs = (case rs of [] \<Rightarrow> None | r # rs' \<Rightarrow> Some (pick_best newerScan r rs'))"

definition findToolchainConflict :: "VulnerabilityRecord list \<Rightarrow> ToolchainConflict option" where
  "findToolchainConflict records =
     (if length records < 2 then None
      else let served = vr_DatabaseSnapshot (best records);
               judged = filter (\<lambda>r. \<not> (vr_Toolchain r = [] \<or> \<not> sameSnapshot (vr_DatabaseSnapshot r) served
                                     \<or> \<not> claimsAVerdict r)) records;
               rep = representatives vr_Toolchain judged;
               digests = map (verdictDigest \<circ> snd) rep
           in if length rep < 2 \<or> (\<forall>d \<in> set digests. d = hd digests) then None
              else Some \<lparr>tcf_Coordinate = vr_Coordinate (hd records), tcf_Values = sort (map fst rep),
                         tcf_ContentHashes = map (\<lambda>v. vr_ContentHash (the (map_of rep v))) (sort (map fst rep)),
                         tcf_NewestWalkID = (case newestOf judged of None \<Rightarrow> [] | Some n \<Rightarrow> vr_WalkID n)\<rparr>)"

definition findFindingConflict :: "VulnerabilityRecord list \<Rightarrow> FindingConflict option" where
  "findFindingConflict records =
     (if length records < 2 then None
      else let served = best records in
        if \<not> claimsFindings served then None
        else let members = filter (\<lambda>r. \<not> (\<not> claimsFindings r \<or> \<not> sameQuestion r served)) records;
                 key = (\<lambda>r. Join (findingIDs r) [CHR 0x00]);
                 rep = representatives key members
             in if length rep < 2 then None
                else let keys = sort (map fst rep);
                         ids = (\<lambda>k. findingIDs (the (map_of rep k)));
                         common = (\<lambda>x. length (filter (\<lambda>k. x \<in> set (ids k)) keys))
                     in Some \<lparr>fcf_Coordinate = vr_Coordinate served,
                              fcf_ContentHashes = map (\<lambda>k. vr_ContentHash (the (map_of rep k))) keys,
                              fcf_ScannedAt = map (\<lambda>k. vr_ScannedAt (the (map_of rep k))) keys,
                              fcf_Only = map (\<lambda>k. filter (\<lambda>x. common x < length keys) (ids k)) keys,
                              fcf_members = members\<rparr>)"

definition compositionRefusal :: "VulnerabilityRecord list \<Rightarrow> compose_error option" where
  "compositionRefusal records =
     (case findToolchainConflict records of
        Some c \<Rightarrow> Some (ConflictToolchain c)
      | None \<Rightarrow> (case findFindingConflict records of
                  Some c \<Rightarrow> Some (ConflictFinding c)
                | None \<Rightarrow> None))"

subsection \<open>Composition\<close>

definition Compose_vuln :: "VulnerabilityRecord list \<Rightarrow> compose_error + VulnerabilityRecord" where
  "Compose_vuln records =
     (if records = [] then Inl NoVulnRecords
      else case compositionRefusal records of
             Some e \<Rightarrow> Inl e
           | None \<Rightarrow> Inr (best records))"

definition atRooting :: "VulnerabilityRecord list \<Rightarrow> Rooting \<Rightarrow> VulnerabilityRecord list" where
  "atRooting records rooting =
     (if \<not> list_ex (\<lambda>r. rooting_IsRecorded (RecordRooting r)) records then records
      else filter (\<lambda>r. RecordRooting r = rooting) records)"

definition ComposeAt ::
  "VulnerabilityRecord list \<Rightarrow> Rooting \<Rightarrow> compose_error + VulnerabilityRecord option" where
  "ComposeAt records rooting =
     (let candidates = atRooting records rooting in
      if candidates = [] then Inr None
      else case compositionRefusal candidates of
             Some e \<Rightarrow> Inl e
           | None \<Rightarrow> Inr (Some (best candidates)))"

definition newestToolchain :: "VulnerabilityRecord list \<Rightarrow> string" where
  "newestToolchain records =
     (case newestOf (filter (\<lambda>r. vr_Toolchain r \<noteq> []) records) of None \<Rightarrow> [] | Some n \<Rightarrow> vr_Toolchain n)"

definition ComposeForIndex ::
  "VulnerabilityRecord list \<Rightarrow> Rooting \<Rightarrow> compose_error + VulnerabilityRecord option" where
  "ComposeForIndex records rooting =
     (case ComposeAt records rooting of
        Inl (ConflictToolchain c) \<Rightarrow>
          ComposeAt (filter (\<lambda>r. vr_Toolchain r = newestToolchain (atRooting records rooting)) records) rooting
      | result \<Rightarrow> result)"

definition isolatedOnly :: "VulnerabilityRecord list \<Rightarrow> VulnerabilityRecord list" where
  "isolatedOnly recs = filter (\<lambda>r. RecordRooting r = RootingIsolated) recs"

text \<open>The answer in a frame and, beside it, the isolated-frame record where there is one.\<close>

definition ComposeInFrame ::
  "VulnerabilityRecord list \<Rightarrow> Rooting
     \<Rightarrow> compose_error + (VulnerabilityRecord \<times> VulnerabilityRecord option) option" where
  "ComposeInFrame recs rooting =
     (if recs = [] then Inr None
      else case ComposeAt recs rooting of
        Inl e \<Rightarrow> Inl e
      | Inr None \<Rightarrow>
          (case ComposeAt (isolatedOnly recs) RootingIsolated of
             Inl e \<Rightarrow> Inl e
           | Inr None \<Rightarrow> Inr None
           | Inr (Some isolated) \<Rightarrow> Inr (Some (isolated, None)))
      | Inr (Some rec) \<Rightarrow>
          if RecordRooting rec = RootingIsolated then Inr (Some (rec, None))
          else (case ComposeAt (isolatedOnly recs) RootingIsolated of
                  Inl e \<Rightarrow> Inr (Some (rec, None))
                | Inr isolated \<Rightarrow> Inr (Some (rec, isolated))))"

definition ComposeForConsumer ::
  "VulnerabilityRecord list \<Rightarrow> ModuleCoordinate
     \<Rightarrow> compose_error + VulnerabilityRecord \<times> VulnerabilityRecord option" where
  "ComposeForConsumer records coord =
     (if records = [] then Inl NoVulnRecords
      else let isConsumer = (\<lambda>r. IsTargetRooted (RecordRooting r) \<and> \<not> IsRootedAt (RecordRooting r) coord);
               consumer = filter isConsumer records;
               isolated = filter (\<lambda>r. \<not> isConsumer r \<and> RecordRooting r = RootingIsolated) records
           in if consumer = [] then
                (case compositionRefusal records of
                   Some e \<Rightarrow> Inl e
                 | None \<Rightarrow> Inr (best records, None))
              else case compositionRefusal consumer of
                     Some e \<Rightarrow> Inl e
                   | None \<Rightarrow> if isolated = [] then Inr (best consumer, None)
                             else Inr (best consumer, Some (best isolated)))"

definition ComposeForTree ::
  "VulnerabilityRecord list \<Rightarrow> string \<Rightarrow> compose_error + VulnerabilityRecord option" where
  "ComposeForTree records modulePath =
     (if records = [] then Inl NoVulnRecords
      else let own = filter (\<lambda>r. IsRootedAtPath (RecordRooting r) modulePath) records;
               isolated = filter (\<lambda>r. \<not> IsRootedAtPath (RecordRooting r) modulePath
                                     \<and> RecordRooting r = RootingIsolated) records;
               anyStated = list_ex (\<lambda>r. rooting_IsRecorded (RecordRooting r)) records;
               answer = (\<lambda>group. case compositionRefusal group of
                                   Some e \<Rightarrow> Inl e
                                 | None \<Rightarrow> Inr (Some (best group)))
           in if own \<noteq> [] then answer own
              else if isolated \<noteq> [] then answer isolated
              else if \<not> anyStated then answer records
              else Inr None)"

definition IndexedAt ::
  "VulnerabilityRecord list \<Rightarrow> Rooting \<Rightarrow> compose_error + VulnerabilityRecord list option" where
  "IndexedAt records rooting =
     (case ComposeForIndex records rooting of
        Inl (ConflictFinding c) \<Rightarrow> Inr (Some (fcf_members c))
      | Inl e \<Rightarrow> Inl e
      | Inr None \<Rightarrow> Inr None
      | Inr (Some rec) \<Rightarrow> Inr (Some [rec]))"

subsection \<open>Representatives\<close>

definition isRep :: "(VulnerabilityRecord \<Rightarrow> 'k) \<Rightarrow> VulnerabilityRecord set \<Rightarrow> 'k \<Rightarrow> VulnerabilityRecord \<Rightarrow> bool" where
  "isRep key S k r \<longleftrightarrow> r \<in> S \<and> key r = k \<and> (\<forall>x \<in> S. key x = k \<longrightarrow> \<not> servesBefore_vuln x r)"

lemma offerRep_keys:
  "set (map fst (offerRep key acc r)) = insert (key r) (set (map fst acc))"
  "distinct (map fst acc) \<Longrightarrow> distinct (map fst (offerRep key acc r))"
  by (induction key acc r rule: offerRep.induct) auto

lemma offerRep_reps:
  assumes "\<forall>(k, c) \<in> set acc. isRep key S k c" "key ` S = set (map fst acc)" "distinct (map fst acc)"
    and "(k, c) \<in> set (offerRep key acc r)"
  shows "isRep key (insert r S) k c"
proof -
  have other: "(k, c) \<in> set acc \<and> k \<noteq> key r \<or> k = key r \<and> (c = r \<and> (\<forall>c'. (k, c') \<in> set acc \<longrightarrow> servesBefore_vuln r c')
      \<or> (k, c) \<in> set acc \<and> \<not> servesBefore_vuln r c)"
    using assms(3,4) by (induction key acc r rule: offerRep.induct) (auto split: if_splits simp: rev_image_eqI)
  have irr: "\<not> servesBefore_vuln r r" by (rule swo_irrefl [OF vuln.order])
  from other consider "(k, c) \<in> set acc" "k \<noteq> key r"
    | "k = key r" "c = r" "\<forall>c'. (k, c') \<in> set acc \<longrightarrow> servesBefore_vuln r c'"
    | "k = key r" "(k, c) \<in> set acc" "\<not> servesBefore_vuln r c" by blast
  then show ?thesis
  proof cases
    case 1
    then show ?thesis using assms(1) by (auto simp: isRep_def)
  next
    case 2
    have "\<not> servesBefore_vuln x r" if "x \<in> S" "key x = key r" for x
    proof -
      have "key r \<in> set (map fst acc)" using that assms(2) by (metis imageI)
      then obtain c' where c': "(key r, c') \<in> set acc" by auto
      then have "isRep key S (key r) c'" using assms(1) by auto
      then have "\<not> servesBefore_vuln x c'" using that by (simp add: isRep_def)
      moreover have "servesBefore_vuln r c'" using 2 c' by simp
      ultimately show ?thesis using swo_trans [OF vuln.order] by blast
    qed
    then show ?thesis using 2 irr by (auto simp: isRep_def)
  next
    case 3
    then show ?thesis using assms(1) by (auto simp: isRep_def)
  qed
qed

lemma representatives_ok:
  "distinct (map fst (representatives key rs)) \<and> set (map fst (representatives key rs)) = key ` set rs
   \<and> (\<forall>(k, c) \<in> set (representatives key rs). isRep key (set rs) k c)"
proof (induction rs rule: rev_induct)
  case Nil
  then show ?case by (simp add: representatives_def)
next
  case (snoc r rs)
  let ?acc = "representatives key rs"
  have step: "representatives key (rs @ [r]) = offerRep key ?acc r" by (simp add: representatives_def)
  have "isRep key (insert r (set rs)) k c" if "(k, c) \<in> set (offerRep key ?acc r)" for k c
    by (rule offerRep_reps [OF _ _ _ that]) (use snoc in auto)
  then show ?case
    unfolding step using snoc offerRep_keys(1) [of key _ r] offerRep_keys(2) by auto
qed

lemma representatives_set:
  assumes "inj_on vr_ContentHash (set rs)"
  shows "set (representatives key rs) = {(k, c). isRep key (set rs) k c}"
proof (intro set_eqI iffI)
  fix kc assume "kc \<in> set (representatives key rs)"
  then show "kc \<in> {(k, c). isRep key (set rs) k c}" using representatives_ok [of key rs] by auto
next
  fix kc assume "kc \<in> {(k, c). isRep key (set rs) k c}"
  then obtain k c where kc: "kc = (k, c)" "isRep key (set rs) k c" by auto
  then have "k \<in> set (map fst (representatives key rs))"
    using representatives_ok [of key rs] by (auto simp: isRep_def)
  then obtain c' where c': "(k, c') \<in> set (representatives key rs)" by auto
  then have "isRep key (set rs) k c'" using representatives_ok [of key rs] by auto
  then have "\<not> servesBefore_vuln c c'" "\<not> servesBefore_vuln c' c" "c \<in> set rs" "c' \<in> set rs"
    using kc(2) by (auto simp: isRep_def)
  then have "c = c'" using vuln.tie assms by (meson inj_onD)
  then show "kc \<in> set (representatives key rs)" using c' kc(1) by simp
qed

lemma length_representatives: "length (representatives key rs) = card (key ` set rs)"
  using representatives_ok [of key rs] by (metis distinct_card length_map)

subsection \<open>When a composition is refused\<close>

definition judgedAgainst :: "VulnerabilityRecord list \<Rightarrow> VulnerabilityRecord set" where
  "judgedAgainst records = {r \<in> set records. vr_Toolchain r \<noteq> []
     \<and> sameSnapshot (vr_DatabaseSnapshot r) (vr_DatabaseSnapshot (best records)) \<and> claimsAVerdict r}"

lemma findToolchainConflict_iff:
  assumes "inj_on vr_ContentHash (set records)"
  shows "findToolchainConflict records \<noteq> None \<longleftrightarrow> 2 \<le> length records \<and>
    (\<exists>k c k' c'. isRep vr_Toolchain (judgedAgainst records) k c \<and> isRep vr_Toolchain (judgedAgainst records) k' c'
       \<and> k \<noteq> k' \<and> verdictDigest c \<noteq> verdictDigest c')"
proof -
  define judged where "judged = filter (\<lambda>r. \<not> (vr_Toolchain r = [] \<or> \<not> sameSnapshot (vr_DatabaseSnapshot r)
      (vr_DatabaseSnapshot (best records)) \<or> \<not> claimsAVerdict r)) records"
  have judged: "set judged = judgedAgainst records" by (auto simp: judged_def judgedAgainst_def)
  define rep where "rep = representatives vr_Toolchain judged"
  have rep: "set rep = {(k, c). isRep vr_Toolchain (judgedAgainst records) k c}"
    unfolding rep_def judged [symmetric]
    by (rule representatives_set) (use assms judged in \<open>auto simp: judgedAgainst_def inj_on_def\<close>)
  have keys: "distinct (map fst rep)" using representatives_ok [of vr_Toolchain judged] by (simp add: rep_def)
  have "findToolchainConflict records \<noteq> None \<longleftrightarrow> 2 \<le> length records \<and> 2 \<le> length rep \<and>
      \<not> (\<forall>d \<in> set (map (verdictDigest \<circ> snd) rep). d = hd (map (verdictDigest \<circ> snd) rep))"
    by (auto simp: findToolchainConflict_def Let_def judged_def rep_def)
  also have "\<dots> \<longleftrightarrow> 2 \<le> length records \<and> (\<exists>k c k' c'. (k, c) \<in> set rep \<and> (k', c') \<in> set rep \<and> k \<noteq> k'
      \<and> verdictDigest c \<noteq> verdictDigest c')"
  proof (cases rep)
    case (Cons kc rest)
    obtain k c where kc: "kc = (k, c)" by (cases kc)
    have ne: "k' \<noteq> k" if "(k', c') \<in> set rest" for k' c' using that keys Cons kc by force
    have "(\<exists>k c k' c'. (k, c) \<in> set rep \<and> (k', c') \<in> set rep \<and> k \<noteq> k' \<and> verdictDigest c \<noteq> verdictDigest c')
        \<longleftrightarrow> (\<exists>(k', c') \<in> set rest. verdictDigest c' \<noteq> verdictDigest c)"
    proof
      assume differ: "\<exists>k c k' c'. (k, c) \<in> set rep \<and> (k', c') \<in> set rep \<and> k \<noteq> k' \<and> verdictDigest c \<noteq> verdictDigest c'"
      show "\<exists>(k', c') \<in> set rest. verdictDigest c' \<noteq> verdictDigest c"
      proof (rule ccontr)
        assume "\<not> ?thesis"
        then have "verdictDigest x = verdictDigest c" if "(j, x) \<in> set rep" for j x
          using that Cons kc by auto
        with differ show False by metis
      qed
    next
      assume "\<exists>(k', c') \<in> set rest. verdictDigest c' \<noteq> verdictDigest c"
      then obtain k' c' where "(k', c') \<in> set rest" "verdictDigest c' \<noteq> verdictDigest c" by auto
      with ne Cons kc show "\<exists>k c k' c'. (k, c) \<in> set rep \<and> (k', c') \<in> set rep \<and> k \<noteq> k'
          \<and> verdictDigest c \<noteq> verdictDigest c'" by (metis list.set_intros)
    qed
    moreover have "(\<forall>d \<in> set (map (verdictDigest \<circ> snd) rep). d = hd (map (verdictDigest \<circ> snd) rep))
        \<longleftrightarrow> \<not> (\<exists>(k', c') \<in> set rest. verdictDigest c' \<noteq> verdictDigest c)"
      unfolding Cons kc by (simp add: case_prod_unfold)
    moreover have "2 \<le> length rep" if "\<exists>(k', c') \<in> set rest. verdictDigest c' \<noteq> verdictDigest c"
      using that Cons by (cases rest) auto
    ultimately show ?thesis by blast
  qed simp
  finally show ?thesis by (simp add: rep)
qed

definition memberIDs :: "VulnerabilityRecord list \<Rightarrow> VulnerabilityRecord set" where
  "memberIDs records = {r \<in> set records. claimsFindings r \<and> sameQuestion r (best records)}"

lemma Join_NUL_inj:
  assumes "\<forall>w \<in> set xs \<union> set ys. w \<noteq> [] \<and> c \<notin> set w" "Join xs [c] = Join ys [c]"
  shows "xs = ys"
proof -
  have empty: "zs = []" if "Join zs [c] = []" "\<forall>w \<in> set zs. w \<noteq> []" for zs :: "string list"
    using that by (cases zs rule: remdups_adj.cases) auto
  show ?thesis
  proof (cases "xs = [] \<or> ys = []")
    case True
    then show ?thesis using assms empty [of xs] empty [of ys] by auto
  next
    case False
    have "Split (Join xs [c]) c = xs" by (rule Split_Join) (use False assms(1) in blast)+
    moreover have "Split (Join ys [c]) c = ys" by (rule Split_Join) (use False assms(1) in blast)+
    ultimately show ?thesis using assms(2) by metis
  qed
qed

definition cleanIDs :: "VulnerabilityRecord \<Rightarrow> bool" where
  "cleanIDs r \<longleftrightarrow> (\<forall>f \<in> set (vr_Findings r). f_ID f \<noteq> [] \<and> CHR 0x00 \<notin> set (f_ID f))"

lemma findingIDs_inj:
  "cleanIDs a \<Longrightarrow> cleanIDs b \<Longrightarrow>
   Join (findingIDs a) [CHR 0x00] = Join (findingIDs b) [CHR 0x00] \<longleftrightarrow>
   f_ID ` set (vr_Findings a) = f_ID ` set (vr_Findings b)"
proof
  assume clean: "cleanIDs a" "cleanIDs b" and eq: "Join (findingIDs a) [CHR 0x00] = Join (findingIDs b) [CHR 0x00]"
  have "findingIDs a = findingIDs b"
    by (rule Join_NUL_inj [OF _ eq]) (use clean in \<open>auto simp: findingIDs_def cleanIDs_def\<close>)
  then show "f_ID ` set (vr_Findings a) = f_ID ` set (vr_Findings b)"
    by (metis findingIDs_def list.set_map set_remdups set_sort)
next
  assume "f_ID ` set (vr_Findings a) = f_ID ` set (vr_Findings b)"
  then have "findingIDs a = findingIDs b"
    unfolding findingIDs_def by (intro sorted_distinct_set_unique) auto
  then show "Join (findingIDs a) [CHR 0x00] = Join (findingIDs b) [CHR 0x00]" by simp
qed

lemma findFindingConflict_iff:
  assumes "\<forall>r \<in> set records. cleanIDs r"
  shows "findFindingConflict records \<noteq> None \<longleftrightarrow> 2 \<le> length records \<and> claimsFindings (best records) \<and>
    (\<exists>a \<in> memberIDs records. \<exists>b \<in> memberIDs records. f_ID ` set (vr_Findings a) \<noteq> f_ID ` set (vr_Findings b))"
proof -
  let ?key = "\<lambda>r. Join (findingIDs r) [CHR 0x00]"
  define members where "members = filter (\<lambda>r. \<not> (\<not> claimsFindings r \<or> \<not> sameQuestion r (best records))) records"
  have members: "set members = memberIDs records" by (auto simp: members_def memberIDs_def)
  have "findFindingConflict records \<noteq> None \<longleftrightarrow> 2 \<le> length records \<and> claimsFindings (best records)
      \<and> 2 \<le> length (representatives ?key members)"
    by (auto simp: findFindingConflict_def Let_def members_def)
  also have "2 \<le> length (representatives ?key members) \<longleftrightarrow> \<not> card (?key ` memberIDs records) \<le> Suc 0"
    unfolding length_representatives members by linarith
  also have "\<dots> \<longleftrightarrow> (\<exists>a \<in> memberIDs records. \<exists>b \<in> memberIDs records. ?key a \<noteq> ?key b)"
    by (subst card_le_Suc0_iff_eq) (auto simp: memberIDs_def)
  also have "\<dots> \<longleftrightarrow> (\<exists>a \<in> memberIDs records. \<exists>b \<in> memberIDs records.
      f_ID ` set (vr_Findings a) \<noteq> f_ID ` set (vr_Findings b))"
  proof -
    have "?key a = ?key b \<longleftrightarrow> f_ID ` set (vr_Findings a) = f_ID ` set (vr_Findings b)"
      if "a \<in> memberIDs records" "b \<in> memberIDs records" for a b
    proof -
      have "a \<in> set records" "b \<in> set records" using that by (simp_all add: memberIDs_def)
      then show ?thesis by (intro findingIDs_inj) (use assms in blast)+
    qed
    then show ?thesis by (simp cong: bex_cong)
  qed
  finally show ?thesis .
qed

lemma best_in: "records \<noteq> [] \<Longrightarrow> best records \<in> set records"
  unfolding best_def by (rule vuln.served_in)

lemma best_any_order:
  "set records = set records' \<Longrightarrow> records \<noteq> [] \<Longrightarrow> inj_on vr_ContentHash (set records) \<Longrightarrow>
   best records = best records'"
  unfolding best_def by (rule vuln.served_any_order)

text \<open>Two records of one question that report different advisories.\<close>

definition advisoriesDisagree :: "VulnerabilityRecord list \<Rightarrow> bool" where
  "advisoriesDisagree records \<longleftrightarrow> claimsFindings (best records) \<and>
     (\<exists>a \<in> memberIDs records. \<exists>b \<in> memberIDs records. f_ID ` set (vr_Findings a) \<noteq> f_ID ` set (vr_Findings b))"

text \<open>Two toolchains whose best records of the served snapshot reach different verdicts.\<close>

definition toolchainsDisagree :: "VulnerabilityRecord list \<Rightarrow> bool" where
  "toolchainsDisagree records \<longleftrightarrow> (\<exists>k c k' c'. isRep vr_Toolchain (judgedAgainst records) k c
     \<and> isRep vr_Toolchain (judgedAgainst records) k' c' \<and> k \<noteq> k' \<and> verdictDigest c \<noteq> verdictDigest c')"

lemma disagreement_needs_two:
  "advisoriesDisagree records \<or> toolchainsDisagree records \<Longrightarrow> 2 \<le> length records"
proof -
  assume "advisoriesDisagree records \<or> toolchainsDisagree records"
  then obtain a b where "a \<in> set records" "b \<in> set records" "a \<noteq> b"
    by (auto simp: advisoriesDisagree_def toolchainsDisagree_def memberIDs_def judgedAgainst_def isRep_def)
  then show ?thesis by (cases records; cases "tl records") auto
qed

lemma compositionRefusal_iff:
  assumes "inj_on vr_ContentHash (set records)" "\<forall>r \<in> set records. cleanIDs r"
  shows "compositionRefusal records \<noteq> None \<longleftrightarrow> advisoriesDisagree records \<or> toolchainsDisagree records"
proof -
  have "compositionRefusal records \<noteq> None \<longleftrightarrow>
      findToolchainConflict records \<noteq> None \<or> findFindingConflict records \<noteq> None"
    by (simp add: compositionRefusal_def split: option.split)
  then show ?thesis
    using findToolchainConflict_iff [OF assms(1), folded toolchainsDisagree_def]
      findFindingConflict_iff [OF assms(2), folded advisoriesDisagree_def]
      disagreement_needs_two [of records] by blast
qed

text \<open>
  C4: a composition serves the strongest record or refuses a contradiction.  For distinct sealed
  records, \<open>Compose_vuln\<close> answers exactly when no two records of the served record's question report
  different advisories and no two toolchains reach different verdicts on the served snapshot; the
  answer is then a record of the ledger nothing serves before, and when any record reports an
  advisory the answer reports one: a finding is never composed away by a clean record.
\<close>

theorem vuln_compose_serves_or_refuses:
  assumes "records \<noteq> []" "inj_on vr_ContentHash (set records)" "\<forall>r \<in> set records. cleanIDs r"
  shows "((\<exists>r. Compose_vuln records = Inr r) \<longleftrightarrow> \<not> advisoriesDisagree records \<and> \<not> toolchainsDisagree records)
    \<and> (\<forall>r. Compose_vuln records = Inr r \<longrightarrow> r \<in> set records \<and> (\<forall>x \<in> set records. \<not> servesBefore_vuln x r)
         \<and> ((\<exists>x \<in> set records. reportsAdvisory (snd (RecordAxes x))) \<longrightarrow> reportsAdvisory (snd (RecordAxes r))))"
proof -
  have "Compose_vuln records = Inr r \<longleftrightarrow> compositionRefusal records = None \<and> r = best records" for r
    using assms(1) by (auto simp: Compose_vuln_def split: option.split)
  moreover have "reportsAdvisory (snd (RecordAxes (best records)))"
    if "x \<in> set records" "reportsAdvisory (snd (RecordAxes x))" for x
    unfolding best_def
    by (rule vuln.served_prefers [of "\<lambda>r. reportsAdvisory (snd (RecordAxes r))", OF _ that])
      (simp add: servesBefore_vuln_def)
  moreover have "\<not> servesBefore_vuln x (best records)" if "x \<in> set records" for x
    unfolding best_def by (rule vuln.nothing_before_served [OF that])
  ultimately show ?thesis
    using compositionRefusal_iff [OF assms(2,3)] best_in [OF assms(1)] by auto
qed

theorem vuln_compose_serves_or_refuses_witness:
  "Compose_vuln [example_vuln_record, example_vuln_record\<lparr>vr_ContentHash := ''sha256:02'', vr_ScannedAt := 6\<rparr>]
     = Inr (example_vuln_record\<lparr>vr_ContentHash := ''sha256:02'', vr_ScannedAt := 6\<rparr>)"
proof -
  let ?y = "example_vuln_record\<lparr>vr_ContentHash := ''sha256:02'', vr_ScannedAt := 6\<rparr>"
  let ?rs = "[example_vuln_record, ?y]"
  have clean: "\<forall>r \<in> set ?rs. cleanIDs r" by (simp add: cleanIDs_def example_vuln_record_def)
  have inj: "inj_on vr_ContentHash (set ?rs)" by (simp add: example_vuln_record_def)
  have no: "\<not> advisoriesDisagree ?rs"
    by (auto simp: advisoriesDisagree_def memberIDs_def example_vuln_record_def)
  have "vr_Toolchain r = ''go1.22''" if "r \<in> judgedAgainst ?rs" for r
    using that by (auto simp: judgedAgainst_def example_vuln_record_def)
  then have "\<not> toolchainsDisagree ?rs" by (auto simp: toolchainsDisagree_def isRep_def)
  with no obtain r where r: "Compose_vuln ?rs = Inr r" "r \<in> set ?rs" "\<not> servesBefore_vuln ?y r"
    using vuln_compose_serves_or_refuses [OF _ inj clean] by auto
  have "servesBefore_vuln ?y example_vuln_record"
    by (simp add: servesBefore_vuln_def RecordAxes_def DetermineRecordCoverage_def DetermineRecordFindings_def
        example_vuln_record_def)
  with r show ?thesis by auto
qed

text \<open>
  The answer of a composition is independent of the order rows are read in.  Two listings of
  the same distinct sealed records are answered alike: both refused, or both served the same record.
\<close>

theorem vuln_compose_any_order:
  assumes "set records = set records'" "length records = length records'"
    and "inj_on vr_ContentHash (set records)" "\<forall>r \<in> set records. cleanIDs r"
  shows "Compose_vuln records = Inr r \<longleftrightarrow> Compose_vuln records' = Inr r"
proof (cases "records = []")
  case True
  then show ?thesis using assms by (simp add: Compose_vuln_def)
next
  case False
  then have ne: "records' \<noteq> []" using assms(1) by auto
  have best: "best records = best records'" by (rule best_any_order [OF assms(1) False assms(3)])
  have "advisoriesDisagree records = advisoriesDisagree records'"
    "toolchainsDisagree records = toolchainsDisagree records'"
    unfolding advisoriesDisagree_def toolchainsDisagree_def memberIDs_def judgedAgainst_def best assms(1)
    by (rule refl)+
  then have "(compositionRefusal records = None) = (compositionRefusal records' = None)"
    using compositionRefusal_iff [OF assms(3,4)] compositionRefusal_iff [of records'] assms by auto
  then show ?thesis
    using False ne best by (auto simp: Compose_vuln_def split: option.split)
qed

theorem vuln_compose_any_order_witness:
  "Compose_vuln [example_vuln_record, example_vuln_record\<lparr>vr_ContentHash := ''sha256:02''\<rparr>] = Inr example_vuln_record
   \<longleftrightarrow> Compose_vuln [example_vuln_record\<lparr>vr_ContentHash := ''sha256:02''\<rparr>, example_vuln_record] = Inr example_vuln_record"
  by (rule vuln_compose_any_order) (auto simp: example_vuln_record_def cleanIDs_def)

subsection \<open>Frames\<close>

lemma atRooting_in: "set (atRooting records rooting) \<subseteq> set records"
  by (auto simp: atRooting_def)

lemma atRooting_frame:
  "r \<in> set (atRooting records rooting) \<Longrightarrow>
     RecordRooting r = rooting \<or> (\<forall>x \<in> set records. \<not> rooting_IsRecorded (RecordRooting x))"
  by (auto simp: atRooting_def list_ex_iff split: if_splits)

lemma ComposeAt_Some:
  assumes "ComposeAt records rooting = Inr (Some r)"
  shows "r \<in> set records \<and> r = best (atRooting records rooting)
    \<and> (RecordRooting r = rooting \<or> (\<forall>x \<in> set records. \<not> rooting_IsRecorded (RecordRooting x)))"
proof -
  have r: "atRooting records rooting \<noteq> []" "r = best (atRooting records rooting)"
    using assms by (auto simp: ComposeAt_def Let_def split: if_splits option.splits)
  then have "r \<in> set (atRooting records rooting)" using best_in by simp
  then show ?thesis using atRooting_in atRooting_frame r(2) by fastforce
qed

lemma ComposeAt_None:
  "ComposeAt records rooting = Inr None \<longleftrightarrow> atRooting records rooting = []"
  by (simp add: ComposeAt_def Let_def split: option.split)

lemma isolated_at:
  assumes "ComposeAt (isolatedOnly recs) RootingIsolated = Inr (Some i)"
  shows "i \<in> set recs \<and> RecordRooting i = RootingIsolated"
proof -
  have "i \<in> set (isolatedOnly recs)" using ComposeAt_Some [OF assms] by blast
  then show ?thesis by (auto simp: isolatedOnly_def)
qed

text \<open>
  An answer never crosses frames.  Where some record states its frame, the record
  \<open>ComposeInFrame\<close> answers with was measured in the frame asked about, or, only when no record was,
  in isolation; what it hands back beside it was measured in isolation; it never answers with a
  record of another target's build, and it says nothing only when neither frame holds a record.
\<close>

theorem compose_in_frame_isolated:
  assumes "x \<in> set recs" "rooting_IsRecorded (RecordRooting x)"
  shows "(\<forall>r i. ComposeInFrame recs rooting = Inr (Some (r, i)) \<longrightarrow>
      r \<in> set recs
      \<and> (RecordRooting r = rooting \<or> RecordRooting r = RootingIsolated \<and> (\<forall>y \<in> set recs. RecordRooting y \<noteq> rooting))
      \<and> (\<forall>j. i = Some j \<longrightarrow> j \<in> set recs \<and> RecordRooting j = RootingIsolated))
    \<and> (ComposeInFrame recs rooting = Inr None \<longleftrightarrow>
         (\<forall>y \<in> set recs. RecordRooting y \<noteq> rooting \<and> RecordRooting y \<noteq> RootingIsolated))"
proof -
  have ne: "recs \<noteq> []" using assms(1) by auto
  have at: "atRooting recs rooting = filter (\<lambda>r. RecordRooting r = rooting) recs"
    using assms by (auto simp: atRooting_def list_ex_iff)
  have iso: "atRooting (isolatedOnly recs) RootingIsolated = isolatedOnly recs"
    by (auto simp: atRooting_def isolatedOnly_def)
  have none: "ComposeAt recs rooting = Inr None \<longleftrightarrow> (\<forall>y \<in> set recs. RecordRooting y \<noteq> rooting)"
    by (simp add: ComposeAt_None at filter_empty_conv)
  have iso_none: "ComposeAt (isolatedOnly recs) RootingIsolated = Inr None \<longleftrightarrow>
      (\<forall>y \<in> set recs. RecordRooting y \<noteq> RootingIsolated)"
    unfolding ComposeAt_None iso by (simp add: isolatedOnly_def filter_empty_conv)
  show ?thesis
  proof (cases "ComposeAt recs rooting")
    case (Inl e)
    then show ?thesis using none ne by (auto simp: ComposeInFrame_def)
  next
    case (Inr answer)
    show ?thesis
    proof (cases answer)
      case None
      with Inr have "ComposeAt recs rooting = Inr None" by simp
      with none iso_none isolated_at [of recs] ne show ?thesis
        by (auto simp: ComposeInFrame_def split: sum.splits option.splits)
    next
      case (Some r)
      with Inr have r: "ComposeAt recs rooting = Inr (Some r)" by simp
      have "r \<in> set recs" "RecordRooting r = rooting" using ComposeAt_Some [OF r] assms by auto
      with r none isolated_at [of recs] ne show ?thesis
        by (auto simp: ComposeInFrame_def split: sum.splits)
    qed
  qed
qed

theorem compose_in_frame_isolated_witness:
  "ComposeInFrame [example_vuln_record] ''target-rooted:b@v1'' \<noteq> Inr None"
  using compose_in_frame_isolated [of example_vuln_record "[example_vuln_record]" "''target-rooted:b@v1''"]
  by (simp add: example_vuln_record_def RecordRooting_def rooting_IsRecorded_def)

text \<open>
  The answer for a tree is the tree's own, else an isolated one, never another project's.  Of a
  ledger where some record states its frame, \<open>ComposeForTree\<close> answers with a record rooted at that
  module's path whenever there is one; otherwise with an isolated record; otherwise with nothing.
  \<open>ComposeForConsumer\<close> prefers records of other targets' builds to the module's own scan.
\<close>

theorem compose_for_tree_and_consumer:
  assumes "x \<in> set records" "rooting_IsRecorded (RecordRooting x)"
  shows "(\<forall>r. ComposeForTree records path = Inr (Some r) \<longrightarrow> r \<in> set records
         \<and> (IsRootedAtPath (RecordRooting r) path
            \<or> RecordRooting r = RootingIsolated \<and> (\<forall>y \<in> set records. \<not> IsRootedAtPath (RecordRooting y) path)))
    \<and> (ComposeForTree records path = Inr None \<longleftrightarrow>
         (\<forall>y \<in> set records. \<not> IsRootedAtPath (RecordRooting y) path \<and> RecordRooting y \<noteq> RootingIsolated))
    \<and> (\<forall>r i. ComposeForConsumer records coord = Inr (r, i) \<longrightarrow> r \<in> set records
         \<and> ((\<exists>y \<in> set records. IsTargetRooted (RecordRooting y) \<and> \<not> IsRootedAt (RecordRooting y) coord) \<longrightarrow>
              IsTargetRooted (RecordRooting r) \<and> \<not> IsRootedAt (RecordRooting r) coord)
         \<and> (\<forall>j. i = Some j \<longrightarrow> j \<in> set records \<and> RecordRooting j = RootingIsolated))"
proof -
  have ne: "records \<noteq> []" using assms(1) by auto
  define own where "own = filter (\<lambda>r. IsRootedAtPath (RecordRooting r) path) records"
  define iso where "iso = filter (\<lambda>r. \<not> IsRootedAtPath (RecordRooting r) path
      \<and> RecordRooting r = RootingIsolated) records"
  define isC where "isC = (\<lambda>r. IsTargetRooted (RecordRooting r) \<and> \<not> IsRootedAt (RecordRooting r) coord)"
  define cons where "cons = filter isC records"
  define ciso where "ciso = filter (\<lambda>r. \<not> isC r \<and> RecordRooting r = RootingIsolated) records"
  have stated: "list_ex (\<lambda>r. rooting_IsRecorded (RecordRooting r)) records"
    using assms by (auto simp: list_ex_iff)
  have own: "best own \<in> set records \<and> IsRootedAtPath (RecordRooting (best own)) path" if "own \<noteq> []"
    using best_in [OF that] by (auto simp: own_def)
  have iso: "best iso \<in> set records \<and> RecordRooting (best iso) = RootingIsolated" if "iso \<noteq> []"
    using best_in [OF that] by (auto simp: iso_def)
  have cons: "best cons \<in> set records \<and> isC (best cons)" if "cons \<noteq> []"
    using best_in [OF that] by (auto simp: cons_def)
  have ciso: "best ciso \<in> set records \<and> RecordRooting (best ciso) = RootingIsolated" if "ciso \<noteq> []"
    using best_in [OF that] by (auto simp: ciso_def)
  have tree: "ComposeForTree records path = (if own \<noteq> [] then
        (case compositionRefusal own of Some e \<Rightarrow> Inl e | None \<Rightarrow> Inr (Some (best own)))
      else if iso \<noteq> [] then
        (case compositionRefusal iso of Some e \<Rightarrow> Inl e | None \<Rightarrow> Inr (Some (best iso)))
      else Inr None)"
    unfolding ComposeForTree_def Let_def own_def [symmetric] iso_def [symmetric] using ne stated by simp
  have consumer: "ComposeForConsumer records coord = (if cons = [] then
        (case compositionRefusal records of Some e \<Rightarrow> Inl e | None \<Rightarrow> Inr (best records, None))
      else case compositionRefusal cons of Some e \<Rightarrow> Inl e
         | None \<Rightarrow> if ciso = [] then Inr (best cons, None) else Inr (best cons, Some (best ciso)))"
    unfolding ComposeForConsumer_def Let_def isC_def [symmetric] cons_def [symmetric] ciso_def [symmetric]
    using ne by simp
  have empty: "own = [] \<longleftrightarrow> (\<forall>y \<in> set records. \<not> IsRootedAtPath (RecordRooting y) path)"
    "cons = [] \<longleftrightarrow> \<not> (\<exists>y \<in> set records. isC y)"
    by (simp_all add: own_def cons_def filter_empty_conv)
  have empty_iso: "iso = [] \<longleftrightarrow> (\<forall>y \<in> set records. \<not> (\<not> IsRootedAtPath (RecordRooting y) path \<and> RecordRooting y = RootingIsolated))"
    by (simp add: iso_def filter_empty_conv)
  show ?thesis
  proof (intro conjI allI impI)
    fix r assume "ComposeForTree records path = Inr (Some r)"
    then have "own \<noteq> [] \<and> r = best own \<or> own = [] \<and> iso \<noteq> [] \<and> r = best iso"
      unfolding tree by (auto split: if_splits option.splits)
    then show "r \<in> set records" "IsRootedAtPath (RecordRooting r) path
        \<or> RecordRooting r = RootingIsolated \<and> (\<forall>y \<in> set records. \<not> IsRootedAtPath (RecordRooting y) path)"
      using own iso empty(1) by auto
  next
    show "ComposeForTree records path = Inr None \<longleftrightarrow>
        (\<forall>y \<in> set records. \<not> IsRootedAtPath (RecordRooting y) path \<and> RecordRooting y \<noteq> RootingIsolated)"
      unfolding tree using empty(1) empty_iso by (auto split: option.splits)
  next
    fix r i assume "ComposeForConsumer records coord = Inr (r, i)"
    then have r: "cons = [] \<and> r = best records \<and> i = None
        \<or> cons \<noteq> [] \<and> r = best cons \<and> (i = None \<or> ciso \<noteq> [] \<and> i = Some (best ciso))"
      unfolding consumer by (auto split: if_splits option.splits)
    then show "r \<in> set records" using best_in [OF ne] cons by auto
    show "j \<in> set records" "RecordRooting j = RootingIsolated" if "i = Some j" for j
      using r that ciso by auto
    assume "\<exists>y \<in> set records. IsTargetRooted (RecordRooting y) \<and> \<not> IsRootedAt (RecordRooting y) coord"
    then show "IsTargetRooted (RecordRooting r)" "\<not> IsRootedAt (RecordRooting r) coord"
      using r cons empty(2) by (auto simp: isC_def)
  qed
qed

theorem compose_for_tree_and_consumer_witness:
  "ComposeForTree [example_vuln_record] ''a/mux'' \<noteq> Inr None"
  using compose_for_tree_and_consumer [of example_vuln_record "[example_vuln_record]" "''a/mux''"]
  by (auto simp: example_vuln_record_def RecordRooting_def rooting_IsRecorded_def IsRootedAtPath_def RootTarget_def
      CutPrefix_def HasPrefix_def)

end
