(* ===== verification/Vuln_Merge.thy ===== *)
theory Vuln_Merge
  imports Version_Order Vuln_Record
begin

text \<open>
  \<open>internal/vuln/domain/ordering.go\<close> and \<open>mergefindings.go\<close>: the canonical order of findings and of
  their inner collections, and the merge of the findings an analysis reported with the
  advisories matched on the module's coordinate alone.

  \<open>cmp.Compare\<close> is \<open>Compare\<close>; the comparators are interpreted as three-way comparisons, which is
  what \<open>slices.SortFunc\<close> asks of them.  Distinct findings may still compare equal
  (\<open>compare_finding_blind\<close>).
\<close>

subsection \<open>Three-way comparison by parts\<close>

definition then_by :: "('a \<Rightarrow> 'a \<Rightarrow> int) \<Rightarrow> ('a \<Rightarrow> 'a \<Rightarrow> int) \<Rightarrow> 'a \<Rightarrow> 'a \<Rightarrow> int" where
  "then_by f g a b = (if f a b \<noteq> 0 then f a b else g a b)"

named_theorems three_way_intros \<open>rules that build a three-way comparison\<close>

lemma three_wayI:
  assumes "\<And>a b. cmp b a = - cmp a b" "\<And>a b c. cmp a b \<le> 0 \<Longrightarrow> cmp b c \<le> 0 \<Longrightarrow> cmp a c \<le> 0"
  shows "three_way cmp"
  by unfold_locales (fact assms)+

lemma three_way_then [three_way_intros]:
  assumes f: "three_way f" and g: "three_way g"
  shows "three_way (then_by f g)"
proof (rule three_wayI)
  show "then_by f g b a = - then_by f g a b" for a b
    using three_way.anti [OF f, of b a] three_way.anti [OF g, of b a] by (auto simp: then_by_def)
  show "then_by f g a c \<le> 0" if ab: "then_by f g a b \<le> 0" and bc: "then_by f g b c \<le> 0" for a b c
  proof -
    have le: "f a b \<le> 0" "f b c \<le> 0" using ab bc by (auto simp: then_by_def split: if_splits)
    then have ac: "f a c \<le> 0" using three_way.le_trans [OF f] by blast
    have "f a b = 0 \<and> f b c = 0" if "f a c = 0"
    proof -
      have "f c a \<le> 0" using that three_way.anti [OF f, of c a] by simp
      then have "f c b \<le> 0" "f b a \<le> 0" using le three_way.le_trans [OF f] by blast+
      then show ?thesis using le three_way.anti [OF f, of b a] three_way.anti [OF f, of c b] by simp
    qed
    then show ?thesis
      using ab bc ac three_way.le_trans [OF g, of a b c] by (auto simp: then_by_def split: if_splits)
  qed
qed

lemma three_way_compare [three_way_intros]: "three_way (\<lambda>a b. Compare (k a) (k b))"
  by (rule three_way_key)

lemma three_way_via:
  assumes "three_way f"
  shows "three_way (\<lambda>a b. f (k a) (k b))"
  using assms unfolding three_way_def by blast

text \<open>\<open>slices.CompareFunc\<close>: element by element, a proper prefix first.\<close>

fun CompareFunc :: "('a \<Rightarrow> 'a \<Rightarrow> int) \<Rightarrow> 'a list \<Rightarrow> 'a list \<Rightarrow> int" where
  "CompareFunc cmp [] [] = 0"
| "CompareFunc cmp [] (y # ys) = -1"
| "CompareFunc cmp (x # xs) [] = 1"
| "CompareFunc cmp (x # xs) (y # ys) = (if cmp x y \<noteq> 0 then cmp x y else CompareFunc cmp xs ys)"

lemma three_way_CompareFunc:
  assumes "three_way cmp"
  shows "three_way (CompareFunc cmp)"
proof (rule three_wayI)
  show "CompareFunc cmp ys xs = - CompareFunc cmp xs ys" for xs ys
  proof (induction xs arbitrary: ys)
    case Nil
    then show ?case by (cases ys) simp_all
  next
    case (Cons x xs)
    show ?case
    proof (cases ys)
      case (Cons y ys')
      then show ?thesis using Cons.IH [of ys'] three_way.anti [OF assms, of y x] by simp
    qed simp
  qed
  show "CompareFunc cmp xs zs \<le> 0" if "CompareFunc cmp xs ys \<le> 0" "CompareFunc cmp ys zs \<le> 0" for xs ys zs
    using that
  proof (induction xs arbitrary: ys zs)
    case Nil
    then show ?case by (cases ys; cases zs) auto
  next
    case (Cons x xs)
    then obtain y ys' where ys: "ys = y # ys'" by (cases ys) auto
    with Cons obtain z zs' where zs: "zs = z # zs'" by (cases zs) auto
    have le: "cmp x y \<le> 0" "cmp y z \<le> 0" using Cons.prems ys zs by (auto split: if_splits)
    then have xz: "cmp x z \<le> 0" by (rule three_way.le_trans [OF assms])
    have "cmp x y = 0 \<and> cmp y z = 0" if "cmp x z = 0"
    proof -
      have "cmp z x \<le> 0" using that three_way.anti [OF assms, of z x] by simp
      then have "cmp z y \<le> 0" "cmp y x \<le> 0" using le three_way.le_trans [OF assms] by blast+
      then show ?thesis using le three_way.anti [OF assms, of y x] three_way.anti [OF assms, of z y] by simp
    qed
    then show ?case using Cons ys zs xz by (auto split: if_splits)
  qed
qed

text \<open>Optional values: an absent one first, as \<open>compareBool(a != nil, b != nil)\<close> has it.\<close>

definition compareBool :: "bool \<Rightarrow> bool \<Rightarrow> int" where
  "compareBool a b = (if a = b then 0 else if b then -1 else 1)"

lemma three_way_bool [three_way_intros]: "three_way (\<lambda>a b. compareBool (k a) (k b))"
  by (rule three_wayI) (auto simp: compareBool_def split: if_splits)

definition compareOption :: "('a \<Rightarrow> 'a \<Rightarrow> int) \<Rightarrow> 'a option \<Rightarrow> 'a option \<Rightarrow> int" where
  "compareOption cmp a b =
     (case (a, b) of (Some x, Some y) \<Rightarrow> cmp x y | _ \<Rightarrow> compareBool (a \<noteq> None) (b \<noteq> None))"

lemma three_way_option:
  assumes "three_way cmp"
  shows "three_way (compareOption cmp)"
proof (rule three_wayI)
  show "compareOption cmp b a = - compareOption cmp a b" for a b
  proof -
    have "cmp x y = - cmp y x" for x y by (rule three_way.anti [OF assms])
    from this [of "the b" "the a"] show ?thesis
      by (cases a; cases b) (simp_all add: compareOption_def compareBool_def)
  qed
  show "compareOption cmp a c \<le> 0" if "compareOption cmp a b \<le> 0" "compareOption cmp b c \<le> 0" for a b c
    using that three_way.le_trans [OF assms, of "the a" "the b" "the c"]
    by (cases a; cases b; cases c) (simp_all add: compareOption_def compareBool_def)
qed

subsection \<open>The order of findings\<close>

definition CompareAdvisoryReference :: "AdvisoryReference \<Rightarrow> AdvisoryReference \<Rightarrow> int" where
  "CompareAdvisoryReference = then_by (\<lambda>a b. Compare (ar_Type a) (ar_Type b)) (\<lambda>a b. Compare (ar_URL a) (ar_URL b))"

definition compareReachabilityFrame :: "ReachabilityFrame \<Rightarrow> ReachabilityFrame \<Rightarrow> int" where
  "compareReachabilityFrame =
     then_by (\<lambda>a b. Compare (rf_ModulePath a) (rf_ModulePath b))
     (then_by (\<lambda>a b. Compare (rf_ModuleVersion a) (rf_ModuleVersion b))
     (then_by (\<lambda>a b. Compare (rf_Package a) (rf_Package b))
     (then_by (\<lambda>a b. Compare (rf_Receiver a) (rf_Receiver b))
              (\<lambda>a b. Compare (rf_Symbol a) (rf_Symbol b)))))"

definition CompareReachabilityRoute :: "ReachabilityRoute \<Rightarrow> ReachabilityRoute \<Rightarrow> int" where
  "CompareReachabilityRoute a b = CompareFunc compareReachabilityFrame a b"

definition compareSeverity :: "Severity option \<Rightarrow> Severity option \<Rightarrow> int" where
  "compareSeverity = compareOption
     (then_by (\<lambda>a b. Compare (sv_Label a) (sv_Label b))
     (then_by (\<lambda>a b. Compare (sv_Score a) (sv_Score b))
              (\<lambda>a b. Compare (sv_Vector a) (sv_Vector b))))"

definition compareReachability :: "ReachabilityResult option \<Rightarrow> ReachabilityResult option \<Rightarrow> int" where
  "compareReachability = compareOption
     (then_by (\<lambda>a b. compareBool (rr_IsReachable a) (rr_IsReachable b))
     (then_by (\<lambda>a b. Compare (rr_Confidence a) (rr_Confidence b))
     (then_by (\<lambda>a b. Compare (rd_Analyser (rr_DerivedBy a)) (rd_Analyser (rr_DerivedBy b)))
     (then_by (\<lambda>a b. Compare (rd_Fidelity (rr_DerivedBy a)) (rd_Fidelity (rr_DerivedBy b)))
     (then_by (\<lambda>a b. Compare (rd_Rooting (rr_DerivedBy a)) (rd_Rooting (rr_DerivedBy b)))
              (\<lambda>a b. CompareFunc CompareReachabilityRoute (rr_Routes a) (rr_Routes b)))))))"

definition CompareFinding :: "VulnerabilityFinding \<Rightarrow> VulnerabilityFinding \<Rightarrow> int" where
  "CompareFinding =
     then_by (\<lambda>a b. Compare (f_ID a) (f_ID b))
     (then_by (\<lambda>a b. Compare (f_AffectedRange a) (f_AffectedRange b))
     (then_by (\<lambda>a b. Compare (f_FixedIn a) (f_FixedIn b))
     (then_by (\<lambda>a b. Compare (f_Summary a) (f_Summary b))
     (then_by (\<lambda>a b. Compare (f_Details a) (f_Details b))
     (then_by (\<lambda>a b. compareSeverity (f_Severity a) (f_Severity b))
     (then_by (\<lambda>a b. Compare (f_AffectedSymbols a) (f_AffectedSymbols b))
     (then_by (\<lambda>a b. Compare (f_Aliases a) (f_Aliases b))
     (then_by (\<lambda>a b. CompareFunc CompareAdvisoryReference (f_References a) (f_References b))
     (then_by (\<lambda>a b. compareBool (f_AdvisoryNamesNoSymbols a) (f_AdvisoryNamesNoSymbols b))
     (then_by (\<lambda>a b. Compare (f_ReachabilityNote a) (f_ReachabilityNote b))
     (then_by (\<lambda>a b. Compare (f_PublishedAt a) (f_PublishedAt b))
     (then_by (\<lambda>a b. Compare (f_ModifiedAt a) (f_ModifiedAt b))
     (then_by (\<lambda>a b. Compare (f_WithdrawnAt a) (f_WithdrawnAt b))
              (\<lambda>a b. compareReachability (f_Reachable a) (f_Reachable b)))))))))))))))"

definition SortFindings :: "VulnerabilityFinding list \<Rightarrow> VulnerabilityFinding list" where
  "SortFindings findings = stable_sort (\<lambda>a b. CompareFinding a b < 0) findings"

interpretation reference_order: three_way CompareAdvisoryReference
  unfolding CompareAdvisoryReference_def by (intro three_way_intros)

interpretation route_order: three_way CompareReachabilityRoute
  unfolding CompareReachabilityRoute_def [abs_def] compareReachabilityFrame_def
  by (intro three_way_CompareFunc three_way_intros)

interpretation severity_order: three_way compareSeverity
  unfolding compareSeverity_def by (intro three_way_option three_way_intros)

interpretation reachability_order: three_way compareReachability
  unfolding compareReachability_def
  by (intro three_way_option three_way_then three_way_bool three_way_compare
      three_way_via [OF three_way_CompareFunc [OF route_order.three_way_axioms]])

interpretation finding_order: three_way CompareFinding
  unfolding CompareFinding_def
  by (intro three_way_then three_way_bool three_way_compare
      three_way_via [OF severity_order.three_way_axioms] three_way_via [OF reachability_order.three_way_axioms]
      three_way_via [OF three_way_CompareFunc [OF reference_order.three_way_axioms]])

lemma swo_CompareFinding: "swo (\<lambda>a b. CompareFinding a b < 0)"
  by (rule finding_order.before_swo)

lemma CompareFinding_ID: "CompareFinding a b = 0 \<Longrightarrow> f_ID a = f_ID b"
  by (simp add: CompareFinding_def then_by_def Compare_simps split: if_splits)

lemma set_SortFindings [simp]: "set (SortFindings fs) = set fs" "length (SortFindings fs) = length fs"
  "mset (SortFindings fs) = mset fs"
  by (simp_all add: SortFindings_def)

text \<open>The canonical form a record is sealed in.\<close>

definition canonicalFinding :: "VulnerabilityFinding \<Rightarrow> VulnerabilityFinding" where
  "canonicalFinding f = f
     \<lparr>f_AffectedSymbols := sort (f_AffectedSymbols f), f_AffectedPackages := sort (f_AffectedPackages f),
      f_Aliases := sort (f_Aliases f),
      f_References := stable_sort (\<lambda>a b. CompareAdvisoryReference a b < 0) (f_References f),
      f_Reachable := map_option (\<lambda>r. r\<lparr>rr_Routes :=
        stable_sort (\<lambda>a b. CompareReachabilityRoute a b < 0) (rr_Routes r)\<rparr>) (f_Reachable f)\<rparr>"

definition canonicalOrder :: "VulnerabilityRecord \<Rightarrow> VulnerabilityRecord" where
  "canonicalOrder r = (if vr_Findings r = [] then r
     else r\<lparr>vr_Findings := SortFindings (map canonicalFinding (vr_Findings r))\<rparr>)"

text \<open>
  The canonical order of findings is a total preorder, and the seal does not depend on the
  arrangement of findings with distinct IDs.  \<open>CompareFinding\<close> is antisymmetric and transitive; two
  records that hold the same findings in any order, no two of one ID, have one canonical form.
\<close>

theorem canonical_order_of_findings:
  assumes "mset (vr_Findings r) = mset (vr_Findings r')" "distinct (map f_ID (vr_Findings r))"
    and "r\<lparr>vr_Findings := []\<rparr> = r'\<lparr>vr_Findings := []\<rparr>"
  shows "CompareFinding b a = - CompareFinding a b
    \<and> (CompareFinding a b \<le> 0 \<and> CompareFinding b c \<le> 0 \<longrightarrow> CompareFinding a c \<le> 0)
    \<and> canonicalOrder r = canonicalOrder r'"
proof -
  have sorted: "SortFindings (map canonicalFinding (vr_Findings r)) = SortFindings (map canonicalFinding (vr_Findings r'))"
    unfolding SortFindings_def
  proof (rule stable_sort_unique [OF swo_CompareFinding])
    show "mset (map canonicalFinding (vr_Findings r)) = mset (map canonicalFinding (vr_Findings r'))"
      using assms(1) by simp
    fix x y
    assume x: "x \<in> set (map canonicalFinding (vr_Findings r))" and y: "y \<in> set (map canonicalFinding (vr_Findings r))"
      and tie: "\<not> CompareFinding x y < 0" "\<not> CompareFinding y x < 0"
    then have "f_ID x = f_ID y" using finding_order.anti [of x y] CompareFinding_ID [of x y] by simp
    moreover have "inj_on f_ID (set (map canonicalFinding (vr_Findings r)))"
      using assms(2) by (auto simp: distinct_map canonicalFinding_def inj_on_def)
    ultimately show "x = y" using x y by (blast dest: inj_onD)
  qed
  have "vr_Findings r = [] \<longleftrightarrow> vr_Findings r' = []" using assms(1) by auto
  then have "canonicalOrder r = canonicalOrder r'"
    using assms(3) sorted by (cases r; cases r') (auto simp: canonicalOrder_def)
  then show ?thesis using finding_order.anti finding_order.le_trans by blast
qed

theorem canonical_order_of_findings_witness:
  "canonicalOrder (example_vuln_record\<lparr>vr_Findings := [example_finding, example_finding\<lparr>f_ID := ''A''\<rparr>]\<rparr>)
   = canonicalOrder (example_vuln_record\<lparr>vr_Findings := [example_finding\<lparr>f_ID := ''A''\<rparr>, example_finding]\<rparr>)"
  using canonical_order_of_findings
    [of "example_vuln_record\<lparr>vr_Findings := [example_finding, example_finding\<lparr>f_ID := ''A''\<rparr>]\<rparr>"
        "example_vuln_record\<lparr>vr_Findings := [example_finding\<lparr>f_ID := ''A''\<rparr>, example_finding]\<rparr>"]
  by (simp add: add_mset_commute) (simp add: example_finding_def)

text \<open>
  Findings of one ID can tie though they differ on the wire.  The comparator does not read the
  affected packages, so two findings that differ in nothing else compare equal and the canonical
  form of a record keeps the order they were given in.
\<close>

theorem compare_finding_blind:
  assumes "sort ps \<noteq> sort qs"
  shows "CompareFinding (f\<lparr>f_AffectedPackages := ps\<rparr>) (f\<lparr>f_AffectedPackages := qs\<rparr>) = 0
    \<and> canonicalOrder (r\<lparr>vr_Findings := [f\<lparr>f_AffectedPackages := ps\<rparr>, f\<lparr>f_AffectedPackages := qs\<rparr>]\<rparr>)
      \<noteq> canonicalOrder (r\<lparr>vr_Findings := [f\<lparr>f_AffectedPackages := qs\<rparr>, f\<lparr>f_AffectedPackages := ps\<rparr>]\<rparr>)"
proof -
  have tie: "CompareFinding (g\<lparr>f_AffectedPackages := ps\<rparr>) (g\<lparr>f_AffectedPackages := qs\<rparr>) = 0" for g ps qs
    using severity_order.cmp_refl reachability_order.cmp_refl
      three_way.cmp_refl [OF three_way_CompareFunc [OF reference_order.three_way_axioms]]
    by (simp add: CompareFinding_def then_by_def Compare_simps compareBool_def)
  obtain g where g: "canonicalFinding (f\<lparr>f_AffectedPackages := xs\<rparr>) = g\<lparr>f_AffectedPackages := sort xs\<rparr>" for xs
    by (rule that [of "canonicalFinding f"]) (cases f, simp add: canonicalFinding_def)
  have keep: "vr_Findings (canonicalOrder (r\<lparr>vr_Findings := [f\<lparr>f_AffectedPackages := xs\<rparr>, f\<lparr>f_AffectedPackages := ys\<rparr>]\<rparr>))
      = [g\<lparr>f_AffectedPackages := sort xs\<rparr>, g\<lparr>f_AffectedPackages := sort ys\<rparr>]" for xs ys
    by (simp add: canonicalOrder_def SortFindings_def g tie)
  have "g\<lparr>f_AffectedPackages := sort ps\<rparr> \<noteq> g\<lparr>f_AffectedPackages := sort qs\<rparr>"
    using assms by (metis VulnerabilityFinding.select_convs(9) VulnerabilityFinding.surjective VulnerabilityFinding.update_convs(9))
  then show ?thesis using tie keep by (metis list.inject)
qed

theorem compare_finding_blind_witness:
  "CompareFinding (example_finding\<lparr>f_AffectedPackages := [''a'']\<rparr>) (example_finding\<lparr>f_AffectedPackages := [''b'']\<rparr>) = 0"
  using compare_finding_blind [of "[''a'']" "[''b'']" example_finding] by simp

subsection \<open>Merging a coordinate match into what an analysis reported\<close>

definition WithdrawSymbolLevelClaim :: "VulnerabilityFinding \<Rightarrow> VulnerabilityFinding" where
  "WithdrawSymbolLevelClaim f =
     (if \<not> f_AdvisoryNamesNoSymbols f then f
      else f\<lparr>f_AffectedSymbols := [],
             f_Reachable := map_option (\<lambda>r. r\<lparr>rr_IsReachable := False, rr_Confidence := ConfidenceUnknown\<rparr>) (f_Reachable f)\<rparr>)"

definition mergeCoordinateMatch :: "VulnerabilityFinding \<Rightarrow> VulnerabilityFinding \<Rightarrow> VulnerabilityFinding" where
  "mergeCoordinateMatch a m =
     (let f = a\<lparr>f_AffectedRange := if f_AffectedRange a = [] then f_AffectedRange m else f_AffectedRange a,
                f_FixedIn := if f_FixedIn a = [] then f_FixedIn m else f_FixedIn a,
                f_Summary := if f_Summary a = [] then f_Summary m else f_Summary a,
                f_Details := if f_Details a = [] then f_Details m else f_Details a,
                f_Aliases := if f_Aliases a = [] then f_Aliases m else f_Aliases a,
                f_References := if f_References a = [] then f_References m else f_References a,
                f_Severity := if f_Severity a = None then f_Severity m else f_Severity a,
                f_PublishedAt := if f_PublishedAt a = zero_time then f_PublishedAt m else f_PublishedAt a,
                f_ModifiedAt := if f_ModifiedAt a = zero_time then f_ModifiedAt m else f_ModifiedAt a,
                f_WithdrawnAt := if f_WithdrawnAt a = zero_time then f_WithdrawnAt m else f_WithdrawnAt a\<rparr>
      in if f_AdvisoryNamesNoSymbols m then WithdrawSymbolLevelClaim (f\<lparr>f_AdvisoryNamesNoSymbols := True\<rparr>)
         else f)"

type_synonym on_add = "(VulnerabilityFinding \<Rightarrow> VulnerabilityFinding) option"

text \<open>The index of each ID's first occurrence, as the first loop builds it.\<close>

fun indexByID :: "nat \<Rightarrow> VulnerabilityFinding list \<Rightarrow> (string \<rightharpoonup> nat) \<Rightarrow> (string \<rightharpoonup> nat)" where
  "indexByID i [] byID = byID"
| "indexByID i (f # fs) byID =
     indexByID (Suc i) fs (case byID (f_ID f) of None \<Rightarrow> byID(f_ID f \<mapsto> i) | Some _ \<Rightarrow> byID)"

type_synonym merge_state = "VulnerabilityFinding list \<times> (string \<rightharpoonup> nat) \<times> nat"

definition mergeStep :: "on_add \<Rightarrow> merge_state \<Rightarrow> VulnerabilityFinding \<Rightarrow> merge_state" where
  "mergeStep onAdd s m =
     (case s of (merged, byID, added) \<Rightarrow>
        case byID (f_ID m) of
          Some i \<Rightarrow> (merged[i := mergeCoordinateMatch (merged ! i) m], byID, added)
        | None \<Rightarrow>
            let m' = WithdrawSymbolLevelClaim (case onAdd of None \<Rightarrow> m | Some g \<Rightarrow> g m) in
            (merged @ [m'], byID(f_ID m' \<mapsto> length merged), added + 1))"

definition MergeCoordinateMatches ::
    "VulnerabilityFinding list \<Rightarrow> VulnerabilityFinding list \<Rightarrow> on_add \<Rightarrow> VulnerabilityFinding list \<times> nat" where
  "MergeCoordinateMatches analysis matched onAdd =
     (case foldl (mergeStep onAdd) (analysis, indexByID 0 analysis Map.empty, 0) (SortFindings matched) of
        (merged, byID, added) \<Rightarrow> (SortFindings merged, added))"

subsection \<open>What a merged finding states\<close>

text \<open>
  An advisory that names no symbol supports no statement about symbols, and its finding makes none.  A
  finding reported by an analysis and by coordinate matches states of each descriptive field what
  the first of them that states it does; its symbol-level answer is the analysis's own unless a match
  says that the advisory names no symbol.
\<close>

definition unclaimed :: "VulnerabilityFinding \<Rightarrow> VulnerabilityFinding" where
  "unclaimed f = f\<lparr>f_AdvisoryNamesNoSymbols := True, f_AffectedSymbols := [],
     f_Reachable := (case f_Reachable f of None \<Rightarrow> None
       | Some r \<Rightarrow> Some (r\<lparr>rr_IsReachable := False, rr_Confidence := ''Unknown''\<rparr>))\<rparr>"

definition firstStated :: "(VulnerabilityFinding \<Rightarrow> 'v) \<Rightarrow> 'v \<Rightarrow> VulnerabilityFinding list \<Rightarrow> 'v" where
  "firstStated sel silent fs = (case find (\<lambda>f. sel f \<noteq> silent) fs of None \<Rightarrow> silent | Some f \<Rightarrow> sel f)"

definition completed :: "VulnerabilityFinding \<Rightarrow> VulnerabilityFinding list \<Rightarrow> VulnerabilityFinding" where
  "completed a ms =
     (let f = a\<lparr>f_AffectedRange := firstStated f_AffectedRange [] (a # ms), f_FixedIn := firstStated f_FixedIn [] (a # ms),
        f_Summary := firstStated f_Summary [] (a # ms), f_Details := firstStated f_Details [] (a # ms),
        f_Aliases := firstStated f_Aliases [] (a # ms), f_References := firstStated f_References [] (a # ms),
        f_Severity := firstStated f_Severity None (a # ms), f_PublishedAt := firstStated f_PublishedAt zero_time (a # ms),
        f_ModifiedAt := firstStated f_ModifiedAt zero_time (a # ms), f_WithdrawnAt := firstStated f_WithdrawnAt zero_time (a # ms)\<rparr>
      in if \<exists>m \<in> set ms. f_AdvisoryNamesNoSymbols m then unclaimed f else f)"

text \<open>A finding that only matches report: the first of them, as the caller completes it.\<close>

definition reported :: "on_add \<Rightarrow> VulnerabilityFinding \<Rightarrow> VulnerabilityFinding" where
  "reported onAdd m = (let f = (case onAdd of None \<Rightarrow> m | Some g \<Rightarrow> g m) in if f_AdvisoryNamesNoSymbols f then unclaimed f else f)"

text \<open>
  The merged set: each advisory of the analysis once completed from its matches, in the
  analysis's order (a repeated one takes its matches at its first finding), then each advisory only matches report.
\<close>

function (sequential) mergedWith :: "on_add \<Rightarrow> VulnerabilityFinding list \<Rightarrow> VulnerabilityFinding list \<Rightarrow> VulnerabilityFinding list" where
  "mergedWith onAdd (a # as) ms =
     completed a (filter (\<lambda>m. f_ID m = f_ID a) ms) # mergedWith onAdd as (filter (\<lambda>m. f_ID m \<noteq> f_ID a) ms)"
| "mergedWith onAdd [] (m # ms) =
     completed (reported onAdd m) (filter (\<lambda>x. f_ID x = f_ID m) ms) # mergedWith onAdd [] (filter (\<lambda>x. f_ID x \<noteq> f_ID m) ms)"
| "mergedWith onAdd [] [] = []"
  by pat_completeness auto
termination
  by (relation "measure (\<lambda>(g, as, ms). length as + length ms)") (auto simp: less_Suc_eq_le intro: order_trans [OF length_filter_le] add_mono)

lemma firstStated_Cons: "firstStated sel silent (f # fs) = (if sel f = silent then firstStated sel silent fs else sel f)"
  by (simp add: firstStated_def)

lemma firstStated_snoc:
  "firstStated sel silent (fs @ [m]) = (if firstStated sel silent fs = silent then sel m else firstStated sel silent fs)"
  by (induction fs) (simp_all add: firstStated_Cons, simp add: firstStated_def)

lemma merge_as_completed: "mergeCoordinateMatch (completed a ms) m = completed a (ms @ [m])"
proof -
  have first: "firstStated sel silent (a # ms @ [m])
      = (if firstStated sel silent (a # ms) = silent then sel m else firstStated sel silent (a # ms))"
    for sel :: "VulnerabilityFinding \<Rightarrow> 'v" and silent
    using firstStated_snoc [of sel silent "a # ms" m] by simp
  show ?thesis
    unfolding completed_def mergeCoordinateMatch_def WithdrawSymbolLevelClaim_def unclaimed_def Let_def set_append bex_Un first
    by (cases a; cases "\<exists>m \<in> set ms. f_AdvisoryNamesNoSymbols m"; cases "f_AdvisoryNamesNoSymbols m")
      (auto split: option.split)
qed

lemma completed_Nil [simp]: "completed a [] = a"
  by (cases a) (simp add: completed_def firstStated_def)

lemma merges_as_completed: "foldl mergeCoordinateMatch a ms = completed a ms"
  by (induction ms rule: rev_induct) (simp_all add: merge_as_completed)

lemma completed_ID [simp]: "f_ID (completed a ms) = f_ID a"
  by (simp add: completed_def unclaimed_def Let_def)

lemma reported_withdraws: "reported onAdd m = WithdrawSymbolLevelClaim (case onAdd of None \<Rightarrow> m | Some g \<Rightarrow> g m)"
  by (cases "case onAdd of None \<Rightarrow> m | Some g \<Rightarrow> g m")
    (auto simp: reported_def WithdrawSymbolLevelClaim_def unclaimed_def Let_def split: option.split)

subsection \<open>The loop merges each match at the first finding of its advisory\<close>

lemma merge_ID [simp]: "f_ID (mergeCoordinateMatch a m) = f_ID a"
  by (simp add: mergeCoordinateMatch_def WithdrawSymbolLevelClaim_def Let_def)

fun mergeOne :: "on_add \<Rightarrow> VulnerabilityFinding list \<Rightarrow> VulnerabilityFinding \<Rightarrow> VulnerabilityFinding list" where
  "mergeOne onAdd [] m = [reported onAdd m]"
| "mergeOne onAdd (f # fs) m = (if f_ID f = f_ID m then mergeCoordinateMatch f m # fs else f # mergeOne onAdd fs m)"

definition keeps_ID :: "on_add \<Rightarrow> bool" where
  "keeps_ID onAdd \<longleftrightarrow> (\<forall>g. onAdd = Some g \<longrightarrow> (\<forall>m. f_ID (g m) = f_ID m))"

lemma reported_ID: "keeps_ID onAdd \<Longrightarrow> f_ID (reported onAdd m) = f_ID m"
  by (auto simp: keeps_ID_def reported_def unclaimed_def Let_def split: option.split)

text \<open>The index of a merged set: of each ID it has, the first position.\<close>

definition first_index :: "VulnerabilityFinding list \<Rightarrow> string \<Rightarrow> nat option" where
  "first_index fs k = (if k \<in> f_ID ` set fs then Some (length (takeWhile (\<lambda>f. f_ID f \<noteq> k) fs)) else None)"

lemma first_index_simps [simp]:
  "first_index [] = Map.empty"
  "first_index (f # fs) k = (if f_ID f = k then Some 0 else map_option Suc (first_index fs k))"
  by (auto simp: first_index_def fun_eq_iff)

lemma first_index_snoc:
  "first_index (fs @ [f]) = (if f_ID f \<in> f_ID ` set fs then first_index fs else (first_index fs)(f_ID f \<mapsto> length fs))"
proof
  fix k
  show "first_index (fs @ [f]) k = (if f_ID f \<in> f_ID ` set fs then first_index fs else (first_index fs)(f_ID f \<mapsto> length fs)) k"
    by (induction fs) auto
qed

lemma indexByID_first: "indexByID (length pre) fs (first_index pre) = first_index (pre @ fs)"
proof (induction fs arbitrary: pre)
  case (Cons f fs)
  have "(case first_index pre (f_ID f) of None \<Rightarrow> (first_index pre)(f_ID f \<mapsto> length pre) | Some _ \<Rightarrow> first_index pre)
      = first_index (pre @ [f])"
    unfolding first_index_snoc by (simp add: first_index_def)
  then show ?case using Cons.IH [of "pre @ [f]"] by simp
qed simp

lemma mergeOne_at:
  "mergeOne onAdd fs m = (case first_index fs (f_ID m) of None \<Rightarrow> fs @ [reported onAdd m]
     | Some i \<Rightarrow> fs[i := mergeCoordinateMatch (fs ! i) m])"
  by (induction fs) (auto split: option.split)

lemma mergeOne_index:
  "first_index (mergeOne onAdd fs m) = (if f_ID m \<in> f_ID ` set fs then first_index fs else first_index (fs @ [reported onAdd m]))"
proof
  fix k
  show "first_index (mergeOne onAdd fs m) k
      = (if f_ID m \<in> f_ID ` set fs then first_index fs else first_index (fs @ [reported onAdd m])) k"
    by (induction fs) auto
qed

lemma mergeStep_one:
  assumes "keeps_ID onAdd"
  shows "\<exists>n'. mergeStep onAdd (fs, first_index fs, n) m = (mergeOne onAdd fs m, first_index (mergeOne onAdd fs m), n')
    \<and> n' + length fs = n + length (mergeOne onAdd fs m)"
proof (cases "f_ID m \<in> f_ID ` set fs")
  case True
  then obtain i where i: "first_index fs (f_ID m) = Some i" by (simp add: first_index_def)
  then show ?thesis using True mergeOne_index [of onAdd fs m] mergeOne_at [of onAdd fs m] by (simp add: mergeStep_def)
next
  case False
  then have "first_index fs (f_ID m) = None" by (simp add: first_index_def)
  then show ?thesis using False reported_ID [OF assms, of m]
    by (simp add: mergeStep_def mergeOne_at first_index_snoc reported_withdraws [symmetric] Let_def)
qed

lemma merge_loop:
  assumes "keeps_ID onAdd"
  shows "\<exists>n'. foldl (mergeStep onAdd) (fs, first_index fs, n) ms
      = (foldl (mergeOne onAdd) fs ms, first_index (foldl (mergeOne onAdd) fs ms), n')
    \<and> n' + length fs = n + length (foldl (mergeOne onAdd) fs ms)"
proof (induction ms arbitrary: fs n)
  case (Cons m ms)
  obtain n1 where n1: "mergeStep onAdd (fs, first_index fs, n) m = (mergeOne onAdd fs m, first_index (mergeOne onAdd fs m), n1)"
    "n1 + length fs = n + length (mergeOne onAdd fs m)" using mergeStep_one [OF assms] by blast
  from Cons.IH [of "mergeOne onAdd fs m" n1] n1 show ?case by auto
qed simp

lemma mergeOnes_Cons:
  "foldl (mergeOne onAdd) (f # fs) ms = foldl mergeCoordinateMatch f (filter (\<lambda>m. f_ID m = f_ID f) ms)
     # foldl (mergeOne onAdd) fs (filter (\<lambda>m. f_ID m \<noteq> f_ID f) ms)"
  by (induction ms arbitrary: f fs) auto

lemma mergeOnes_merged:
  assumes "keeps_ID onAdd"
  shows "foldl (mergeOne onAdd) fs ms = mergedWith onAdd fs ms"
  using assms
proof (induction onAdd fs ms rule: mergedWith.induct)
  case (1 onAdd a as ms)
  then show ?case by (simp add: mergeOnes_Cons merges_as_completed)
next
  case (2 onAdd m ms)
  then show ?case by (simp add: mergeOnes_Cons merges_as_completed reported_ID)
qed simp

lemma merged_IDs:
  assumes "keeps_ID onAdd"
  shows "f_ID ` set (mergedWith onAdd fs ms) = f_ID ` set fs \<union> f_ID ` set ms
    \<and> length (mergedWith onAdd fs ms) = length fs + card (f_ID ` set ms - f_ID ` set fs)"
  using assms
proof (induction onAdd fs ms rule: mergedWith.induct)
  case (1 onAdd a as ms)
  have "f_ID ` set (filter (\<lambda>m. f_ID m \<noteq> f_ID a) ms) - f_ID ` set as = f_ID ` set ms - f_ID ` set (a # as)" by auto
  with 1 show ?case by auto
next
  case (2 onAdd m ms)
  have "f_ID ` set (filter (\<lambda>x. f_ID x \<noteq> f_ID m) ms) = f_ID ` set ms - {f_ID m}" by auto
  moreover have "card (insert (f_ID m) (f_ID ` set ms)) = Suc (card (f_ID ` set ms - {f_ID m}))" by (simp add: card.insert_remove)
  ultimately show ?case using 2 reported_ID [OF 2(2), of m] by auto
qed simp

text \<open>
  C13: merging coordinate matches into what an analysis reported yields exactly the merged set, in the
  canonical order, and the number of advisories added to it, for a caller whose \<open>onAdd\<close> keeps the advisory's
  identity.  The set has the IDs of both inputs.  The first finding of an ID takes its matches, in
  canonical order, and states of each descriptive field what the first of them that states it does; its
  symbols and reachability answer stay the analysis's own unless one of the matches says that the
  advisory names no symbol, and then it claims none; a finding no match names stays as it was.
  An ID only matches report starts from the first of them, as \<open>onAdd\<close> completes it.
\<close>

theorem merge_coordinate_matches:
  assumes "keeps_ID onAdd"
  shows "MergeCoordinateMatches analysis matched onAdd
      = (SortFindings (mergedWith onAdd analysis (SortFindings matched)), card (f_ID ` set matched - f_ID ` set analysis))
    \<and> f_ID ` set (mergedWith onAdd analysis (SortFindings matched)) = f_ID ` set analysis \<union> f_ID ` set matched
    \<and> (\<forall>a before after. analysis = before @ a # after \<and> f_ID a \<notin> f_ID ` set before \<longrightarrow>
        completed a (filter (\<lambda>m. f_ID m = f_ID a) (SortFindings matched)) \<in> set (fst (MergeCoordinateMatches analysis matched onAdd)))"
proof -
  have "indexByID 0 analysis Map.empty = first_index analysis"
    using indexByID_first [of "[]" analysis] by simp
  with merge_loop [OF assms, of analysis 0 "SortFindings matched"] merged_IDs [OF assms, of analysis "SortFindings matched"]
  have eq: "MergeCoordinateMatches analysis matched onAdd
      = (SortFindings (mergedWith onAdd analysis (SortFindings matched)), card (f_ID ` set matched - f_ID ` set analysis))"
    by (auto simp: MergeCoordinateMatches_def mergeOnes_merged [OF assms])
  have "completed a (filter (\<lambda>m. f_ID m = f_ID a) ms) \<in> set (mergedWith onAdd (before @ a # after) ms)"
    if "f_ID a \<notin> f_ID ` set before" for a before after ms
    using that
  proof (induction before arbitrary: ms)
    case (Cons b before)
    then have "filter (\<lambda>m. f_ID m = f_ID a) (filter (\<lambda>m. f_ID m \<noteq> f_ID b) ms) = filter (\<lambda>m. f_ID m = f_ID a) ms"
      by (auto intro: filter_cong)
    with Cons.IH [of "filter (\<lambda>m. f_ID m \<noteq> f_ID b) ms"] Cons.prems show ?case by simp
  qed simp
  then show ?thesis unfolding eq using merged_IDs [OF assms, of analysis "SortFindings matched"] by auto
qed

text \<open>A summary is filled in, and the symbols the analysis named are withdrawn when the match says the advisory names none.\<close>

theorem merge_coordinate_matches_witness:
  "MergeCoordinateMatches [example_finding\<lparr>f_Summary := [], f_AffectedSymbols := [''F'']\<rparr>] [example_finding\<lparr>f_Summary := ''s''\<rparr>] None
     = ([example_finding\<lparr>f_Summary := ''s'', f_AffectedSymbols := [''F'']\<rparr>], 0)
   \<and> MergeCoordinateMatches [example_finding\<lparr>f_AffectedSymbols := [''F'']\<rparr>] [example_finding\<lparr>f_AdvisoryNamesNoSymbols := True\<rparr>] None
     = ([example_finding\<lparr>f_AffectedSymbols := [], f_AdvisoryNamesNoSymbols := True\<rparr>], 0)"
proof -
  have k: "keeps_ID None" by (simp add: keeps_ID_def)
  show ?thesis
    using merge_coordinate_matches [OF k, of "[example_finding\<lparr>f_Summary := [], f_AffectedSymbols := [''F'']\<rparr>]" "[example_finding\<lparr>f_Summary := ''s''\<rparr>]"]
      merge_coordinate_matches [OF k, of "[example_finding\<lparr>f_AffectedSymbols := [''F'']\<rparr>]" "[example_finding\<lparr>f_AdvisoryNamesNoSymbols := True\<rparr>]"]
    by (simp add: SortFindings_def completed_def firstStated_def unclaimed_def example_finding_def)
qed

end
