(* ===== verification/Vuln_Soundness.thy ===== *)
theory Vuln_Soundness
  imports Vuln_Record
begin

text \<open>
  How far a recorded "not reachable" can be trusted: the rungs of \<open>soundness.go\<close>, the rung and its
  reason (\<open>NegativeSoundness\<close> of \<open>reachability.go\<close>), the rooting stamp of a record, and what TinyGo's
  supply of packages does to findings (\<open>tinygo.go\<close>).  Reasons are text and are modelled as such.
\<close>

subsection \<open>Rungs\<close>

type_synonym ReachabilitySoundness = string

definition SoundnessNotStated :: ReachabilitySoundness where [simp]: "SoundnessNotStated = []"
definition SoundnessConfirmed :: ReachabilitySoundness where [simp]: "SoundnessConfirmed = ''confirmed''"
definition SoundnessInferred :: ReachabilitySoundness where [simp]: "SoundnessInferred = ''inferred''"
definition SoundnessUnconfirmed :: ReachabilitySoundness where [simp]: "SoundnessUnconfirmed = ''unconfirmed''"
definition SoundnessUnsearchable :: ReachabilitySoundness where [simp]: "SoundnessUnsearchable = ''unsearchable''"
definition SoundnessDisputed :: ReachabilitySoundness where [simp]: "SoundnessDisputed = ''disputed''"

definition ReachabilitySoundnessLevels :: "ReachabilitySoundness list" where
  "ReachabilitySoundnessLevels = [SoundnessConfirmed, SoundnessInferred, SoundnessUnconfirmed,
     SoundnessUnsearchable, SoundnessDisputed, SoundnessNotStated]"

definition soundness_String :: "ReachabilitySoundness \<Rightarrow> string" where
  "soundness_String s = (if s = SoundnessNotStated then ''not stated'' else s)"

definition Statement :: "ReachabilitySoundness \<Rightarrow> string" where
  "Statement s =
     (if s = SoundnessConfirmed then ''a search ran at a fidelity that can support a negative and found no route''
      else if s = SoundnessInferred then ''no search ran; the negative reads a source-fidelity analysis's silence''
      else if s = SoundnessUnconfirmed then ''an analysis ran that could not have found a route even if one existed''
      else if s = SoundnessUnsearchable then ''the advisory names no symbol for this module path, so no search was ever possible''
      else if s = SoundnessDisputed then
        ''a search found a path the recorded negative denies: contradicted, not weak, and the one rung no negative may be read off''
      else if s = SoundnessNotStated then ''no reachability answer was recorded for these''
      else [])"

definition Rank :: "ReachabilitySoundness \<Rightarrow> int" where
  "Rank s =
     (if s = SoundnessConfirmed then 5 else if s = SoundnessInferred then 4
      else if s = SoundnessUnconfirmed then 3 else if s = SoundnessUnsearchable then 2
      else if s = SoundnessDisputed then 1 else 0)"

definition IsConfirmed :: "ReachabilitySoundness \<Rightarrow> bool" where
  "IsConfirmed s \<longleftrightarrow> s = SoundnessConfirmed"

subsection \<open>Derivations\<close>

definition zero_derivation :: ReachabilityDerivation where
  "zero_derivation = \<lparr>rd_Analyser = [], rd_Fidelity = [], rd_Rooting = [], rd_RootSelection = [], rd_GraphPipeline = []\<rparr>"

definition analyser_String :: "string \<Rightarrow> string" where
  "analyser_String a = (if a = [] then ''not recorded'' else a)"

definition derivation_IsRecorded :: "ReachabilityDerivation \<Rightarrow> bool" where
  "derivation_IsRecorded d \<longleftrightarrow> d \<noteq> zero_derivation"

definition rooting_String :: "Rooting \<Rightarrow> string" where
  "rooting_String r = (if r = RootingUnrecorded then ''not recorded'' else r)"

definition derivation_String :: "ReachabilityDerivation \<Rightarrow> string" where
  "derivation_String d =
     (if \<not> derivation_IsRecorded d then ''derivation not recorded''
      else Join ([''by '' @ analyser_String (rd_Analyser d)]
        @ (if rd_Fidelity d \<noteq> [] then [''fidelity '' @ rd_Fidelity d] else [])
        @ (if rd_GraphPipeline d \<noteq> [] then [''call-graph pipeline '' @ rd_GraphPipeline d] else [])
        @ (if rooting_IsRecorded (rd_Rooting d) then [''rooted at '' @ rooting_String (rd_Rooting d)] else [])
        @ (if rd_RootSelection d \<noteq> [] then [''root selection: '' @ rd_RootSelection d] else [])) '', '')"

definition stampFinding :: "Rooting \<Rightarrow> VulnerabilityFinding \<Rightarrow> VulnerabilityFinding" where
  "stampFinding rooting f =
     f\<lparr>f_Reachable := map_option (\<lambda>r. if rooting_IsRecorded (rd_Rooting (rr_DerivedBy r)) then r
        else r\<lparr>rr_DerivedBy := (rr_DerivedBy r)\<lparr>rd_Rooting := rooting\<rparr>\<rparr>) (f_Reachable f)\<rparr>"

definition StampReachabilityRooting :: "VulnerabilityRecord \<Rightarrow> VulnerabilityRecord" where
  "StampReachabilityRooting r = r\<lparr>vr_Findings := map (stampFinding (vr_Rooting r)) (vr_Findings r)\<rparr>"

subsection \<open>The notes of a search\<close>

definition ReachableReflectiveDispatch :: "NegativeSearch option \<Rightarrow> int" where
  "ReachableReflectiveDispatch s =
     (case s of None \<Rightarrow> 0 | Some s \<Rightarrow> int (length (filter rs_ReachableFromEntryPoint (ns_ReflectiveDispatch s))))"

definition plural :: "int \<Rightarrow> string \<Rightarrow> string" where
  "plural n noun = (if n = 1 then ''1 '' @ noun else Itoa n @ '' '' @ noun @ ''s'')"

definition disputedReason :: "ReachabilityDerivation \<Rightarrow> NegativeSearch \<Rightarrow> string" where
  "disputedReason recorded s =
     ''the negative was recorded by '' @ analyser_String (rd_Analyser recorded)
     @ (if rd_Fidelity recorded \<noteq> [] then '' at fidelity '' @ rd_Fidelity recorded else [])
     @ '', but a call-graph search over kanonarion's own '' @ ns_Fidelity s
     @ '' graph reaches the vulnerable symbol''
     @ (if length (ns_Route s) = 1 then '' as a traversal root: '' @ frame_String (hd (ns_Route s))
          @ '' is itself an entry point of the analysed module's graph, not a symbol behind one''
        else if route_String (ns_Route s) \<noteq> [] then '' along '' @ route_String (ns_Route s) else [])
     @ ''. The two disagree '' @ em_dash @ '' the recorded answer is about the build that analyser saw, ''
     @ ''the search is about the graph this store holds '' @ em_dash @ '' so the negative is reported as measured ''
     @ ''and is NOT confirmed; treat it as open until one of the two is explained''"

text \<open>\<open>strings.ToUpper\<close> of one byte: a byte that is no ASCII character becomes U+FFFD.\<close>

definition upper_byte :: "char \<Rightarrow> string" where
  "upper_byte c = (let n = of_char c :: nat in
     if 97 \<le> n \<and> n \<le> 122 then [char_of (n - 32)] else if n < 128 then [c]
     else [CHR 0xEF, CHR 0xBF, CHR 0xBD])"

definition notJoinedNote :: "NegativeSearch \<Rightarrow> string" where
  "notJoinedNote s =
     (case ns_NotJoined s of [] \<Rightarrow> [] | c # cs \<Rightarrow> ''. '' @ upper_byte c @ cs)"

definition unsearchedReason :: "NegativeSearch \<Rightarrow> string" where
  "unsearchedReason s =
     (if ns_NotSearched s \<noteq> [] then ns_NotSearched s
      else if ns_EntryPointRoots s = 0 then
        ''the call graph names no entry point at all '' @ em_dash @ '' no public API, no package initialiser, no command, no export directive, no http.Handler '' @ em_dash @ '' so a traversal over it would start nowhere and could only come back empty''
      else [])"

definition entryPointRootingNote :: "NegativeSearch \<Rightarrow> string" where
  "entryPointRootingNote s =
     (let note = '', rooted at the '' @ plural (ns_EntryPointRoots s) ''entry point''
            @ '' the analysis can name '' @ em_dash @ '' the public API, package init, the process entry point, export directives and''
            @ '' http.Handler methods''
            @ (if ns_ArtifactKind s \<noteq> [] then ''; the graph is '' @ ns_ArtifactKind s else [])
      in if \<not> ns_ShippedCodePathFound s then note
         else note @ ''. Separately, rooting the whole graph '' @ em_dash @ '' every function the module ships, on the premise that an''
           @ '' application is entered in ways no static analysis enumerates '' @ em_dash @ '' DOES reach the vulnerable symbol''
           @ (if route_String (ns_ShippedCodeRoute s) \<noteq> [] \<and> length (ns_ShippedCodeRoute s) > 1
              then '' along '' @ route_String (ns_ShippedCodeRoute s) else [])
           @ ''. That is a different claim from this one, made from roots nothing established are entered,''
           @ '' and it is stated so the reader can weigh it rather than discover it later'')"

definition searchedGraphsNote :: "NegativeSearch \<Rightarrow> string" where
  "searchedGraphsNote s =
     (case ns_GraphsSearched s of [] \<Rightarrow> []
      | [g] \<Rightarrow> ''. The search ran over the stored call graph of '' @ g
      | gs \<Rightarrow> ''. The search ran over the stored call graph of '' @ Join (butlast gs) '', ''
          @ '', joined at the call sites where it leaves its own module to that of '' @ last gs)"

definition crossFrameNote :: "NegativeSearch \<Rightarrow> string" where
  "crossFrameNote s =
     '' '' @ em_dash @ '' separately, a call-graph search over this module's own '' @ ns_Fidelity s
     @ '' graph does reach the vulnerable symbol from that module's own entry points''
     @ (if route_String (ns_Route s) \<noteq> [] \<and> length (ns_Route s) > 1 then '' along '' @ route_String (ns_Route s) else [])
     @ ''. That is a different question from the one this record answers, so it does not contradict the negative;''
     @ '' it is stated because a route found and not reported is worse than one reported with its frame named''"

subsection \<open>The rung of a negative\<close>

definition completenessBuiltWithBodies :: string where [simp]: "completenessBuiltWithBodies = ''BUILT_WITH_BODIES''"
definition ScanModeSource :: string where [simp]: "ScanModeSource = ''source''"
definition ScanModeBinary :: string where [simp]: "ScanModeBinary = ''binary''"
definition ScanModeModule :: string where [simp]: "ScanModeModule = ''module''"

definition soundnessFromDerivation :: "ReachabilityDerivation \<Rightarrow> ReachabilitySoundness \<times> string" where
  "soundnessFromDerivation d =
     (if rd_Analyser d = AnalyserCallGraphBFS then
        if rd_Fidelity d = completenessBuiltWithBodies then (SoundnessConfirmed,
          ''a call-graph search ran over a graph built with function bodies and found no path from an entry point to the vulnerable symbol'')
        else if rd_Fidelity d = [] then (SoundnessUnconfirmed,
          ''a call-graph search ran, but the graph does not state the fidelity it was built at, so the absence of a path cannot be weighed'')
        else (SoundnessUnconfirmed, ''the call graph was '' @ rd_Fidelity d @ '', not '' @ completenessBuiltWithBodies
          @ '' '' @ em_dash @ '' call edges out of unbuilt bodies are absent, so a route may exist that this search could not see'')
      else if rd_Analyser d = AnalyserGovulncheck then
        if rd_Fidelity d = ScanModeSource then (SoundnessInferred,
          ''govulncheck analysed this build from source and reported no route to the vulnerable symbol; the negative reads that silence, not a search over a call graph that ran and came back empty'')
        else if rd_Fidelity d = ScanModeBinary then (SoundnessUnconfirmed,
          ''govulncheck inspected a symbol table in binary mode; no call graph existed, so no route could have been found whether or not one exists'')
        else if rd_Fidelity d = ScanModeModule then (SoundnessUnconfirmed,
          ''govulncheck ran at module level because the TinyGo closure compiles C that the host toolchain cannot load; no package or symbol was examined, so reachability is not established'')
        else (SoundnessUnconfirmed,
          ''the answer came from govulncheck but does not state the mode it ran in, so it cannot be told from a binary-mode one'')
      else (SoundnessUnconfirmed,
        ''the answer does not name the analyser that produced it, so the search behind it cannot be weighed''))"

definition searchedSoundness :: "ReachabilityDerivation \<Rightarrow> NegativeSearch \<Rightarrow> ReachabilitySoundness \<times> string" where
  "searchedSoundness d s =
     (case soundnessFromDerivation d of (rung, reason) \<Rightarrow>
      if unsearchedReason s \<noteq> [] then
        (rung, reason @ ''. No call-graph search stands behind this rung: '' @ unsearchedReason s)
      else if ns_PathFound s \<and> ns_InRecordedFrame s then
        (SoundnessDisputed, disputedReason d s @ searchedGraphsNote s)
      else if ns_PathFound s then (rung, reason @ crossFrameNote s @ searchedGraphsNote s)
      else if ns_UnjoinedCalls s \<noteq> [] then
        (rung, reason @ ''. A call-graph search from the entry points found no path''
           @ entryPointRootingNote s @ searchedGraphsNote s)
      else
        (case soundnessFromDerivation (zero_derivation\<lparr>rd_Analyser := AnalyserCallGraphBFS,
                rd_Fidelity := ns_Fidelity s, rd_Rooting := rd_Rooting d\<rparr>) of (rung, reason) \<Rightarrow>
           (rung, reason @ entryPointRootingNote s @ searchedGraphsNote s)))"

definition NegativeSoundness :: "VulnerabilityFinding \<Rightarrow> ReachabilitySoundness \<times> string" where
  "NegativeSoundness f =
     (if f_NotEstablished f then (SoundnessUnconfirmed, f_TinyGoNote f)
      else case f_Reachable f of
        None \<Rightarrow> (SoundnessNotStated, [])
      | Some r \<Rightarrow>
          if rr_IsReachable r then (SoundnessNotStated, [])
          else if f_AdvisoryNamesNoSymbols f then (SoundnessUnsearchable,
            ''the advisory names no symbols for this module path, so there was never a symbol for a search to look for; no fidelity and no re-scan changes that'')
          else let d = rr_DerivedBy r in
            if rd_Analyser d = AnalyserGovulncheck \<and> rd_Fidelity d = ScanModeModule then soundnessFromDerivation d
            else case f_NegativeSearch f of
              Some s \<Rightarrow> (case searchedSoundness d s of (rung, reason) \<Rightarrow> (rung, reason @ notJoinedNote s))
            | None \<Rightarrow> soundnessFromDerivation d)"

text \<open>
  What the rungs mean, said from the fields: a search that ran (it was not waived and had roots to
  start from), and a negative the finding records.
\<close>

definition search_ran :: "NegativeSearch \<Rightarrow> bool" where
  "search_ran s \<longleftrightarrow> ns_NotSearched s = [] \<and> ns_EntryPointRoots s \<noteq> 0"

definition records_negative :: "VulnerabilityFinding \<Rightarrow> ReachabilityResult \<Rightarrow> bool" where
  "records_negative f r \<longleftrightarrow> f_Reachable f = Some r \<and> \<not> rr_IsReachable r \<and> \<not> f_NotEstablished f
     \<and> \<not> f_AdvisoryNamesNoSymbols f"

definition module_level :: "ReachabilityDerivation \<Rightarrow> bool" where
  "module_level d \<longleftrightarrow> rd_Analyser d = AnalyserGovulncheck \<and> rd_Fidelity d = ScanModeModule"

definition full_search :: "ReachabilityDerivation \<Rightarrow> bool" where
  "full_search d \<longleftrightarrow> rd_Analyser d = AnalyserCallGraphBFS \<and> rd_Fidelity d = completenessBuiltWithBodies"

lemma soundnessFromDerivation_rung:
  "fst (soundnessFromDerivation d) =
     (if full_search d then SoundnessConfirmed
      else if rd_Analyser d = AnalyserGovulncheck \<and> rd_Fidelity d = ScanModeSource then SoundnessInferred
      else SoundnessUnconfirmed)"
  by (auto simp: soundnessFromDerivation_def full_search_def)

lemma unsearchedReason_iff: "unsearchedReason s \<noteq> [] \<longleftrightarrow> \<not> search_ran s"
  by (simp add: unsearchedReason_def search_ran_def)

lemma searchedSoundness_rung:
  "fst (searchedSoundness d s) =
     (if search_ran s \<and> ns_PathFound s \<and> ns_InRecordedFrame s then SoundnessDisputed
      else if search_ran s \<and> \<not> ns_PathFound s \<and> ns_UnjoinedCalls s = [] then
        (if ns_Fidelity s = completenessBuiltWithBodies then SoundnessConfirmed else SoundnessUnconfirmed)
      else fst (soundnessFromDerivation d))"
  unfolding searchedSoundness_def unsearchedReason_iff
  by (simp add: split_beta) (simp add: soundnessFromDerivation_rung full_search_def)

lemma NegativeSoundness_rung:
  "fst (NegativeSoundness f) =
     (if f_NotEstablished f then SoundnessUnconfirmed
      else case f_Reachable f of None \<Rightarrow> SoundnessNotStated
      | Some r \<Rightarrow> if rr_IsReachable r then SoundnessNotStated
          else if f_AdvisoryNamesNoSymbols f then SoundnessUnsearchable
          else case f_NegativeSearch f of
            Some s \<Rightarrow> if module_level (rr_DerivedBy r) then SoundnessUnconfirmed
                      else fst (searchedSoundness (rr_DerivedBy r) s)
          | None \<Rightarrow> fst (soundnessFromDerivation (rr_DerivedBy r)))"
  unfolding NegativeSoundness_def module_level_def
  by (simp add: Let_def split_beta split: option.split) (simp add: soundnessFromDerivation_def)

text \<open>
  C15: a negative is confirmed only by a search that could have found a route.  The confirmed rung
  needs a recorded negative of an advisory that names symbols, derived by or backed by a search that
  ran to the end over a graph built with bodies and found nothing, and never one that
  \<open>govulncheck\<close> made at module level.
\<close>

theorem negative_confirmed_iff:
  "IsConfirmed (fst (NegativeSoundness f)) \<longleftrightarrow>
     (\<exists>r. records_negative f r \<and>
        (case f_NegativeSearch f of
           None \<Rightarrow> full_search (rr_DerivedBy r)
         | Some s \<Rightarrow> \<not> module_level (rr_DerivedBy r) \<and>
             (if search_ran s \<and> \<not> ns_PathFound s \<and> ns_UnjoinedCalls s = []
              then ns_Fidelity s = completenessBuiltWithBodies
              else full_search (rr_DerivedBy r) \<and> \<not> (search_ran s \<and> ns_PathFound s \<and> ns_InRecordedFrame s))))"
proof -
  have ne: "SoundnessConfirmed \<noteq> SoundnessUnconfirmed" "SoundnessConfirmed \<noteq> SoundnessInferred"
    "SoundnessConfirmed \<noteq> SoundnessDisputed" "SoundnessConfirmed \<noteq> SoundnessNotStated"
    "SoundnessConfirmed \<noteq> SoundnessUnsearchable" by simp_all
  have derived: "fst (soundnessFromDerivation d) = SoundnessConfirmed \<longleftrightarrow> full_search d" for d
    unfolding soundnessFromDerivation_rung by simp
  have searched: "fst (searchedSoundness d s) = SoundnessConfirmed \<longleftrightarrow>
      (if search_ran s \<and> \<not> ns_PathFound s \<and> ns_UnjoinedCalls s = [] then ns_Fidelity s = completenessBuiltWithBodies
       else full_search d \<and> \<not> (search_ran s \<and> ns_PathFound s \<and> ns_InRecordedFrame s))" for d s
    unfolding searchedSoundness_rung using derived [of d] ne by (auto simp del: SoundnessConfirmed_def SoundnessDisputed_def SoundnessUnconfirmed_def)
  show ?thesis
    unfolding IsConfirmed_def NegativeSoundness_rung records_negative_def
    by (cases "f_Reachable f"; cases "f_NegativeSearch f") (auto simp: derived searched simp del: SoundnessConfirmed_def SoundnessDisputed_def SoundnessUnconfirmed_def SoundnessUnsearchable_def SoundnessNotStated_def simp: ne ne [symmetric])
qed

text \<open>
  A contradicted negative is never reported as a weak or a strong one.  The disputed rung is
  given exactly when the search ran and found a path in the frame the record answers in, whatever
  the analyser claimed; and no rung but that one is given a negative that such a search denies.
\<close>

theorem negative_disputed_iff:
  "fst (NegativeSoundness f) = SoundnessDisputed \<longleftrightarrow>
     (\<exists>r s. records_negative f r \<and> \<not> module_level (rr_DerivedBy r) \<and> f_NegativeSearch f = Some s
        \<and> search_ran s \<and> ns_PathFound s \<and> ns_InRecordedFrame s)"
proof -
  have derived: "fst (soundnessFromDerivation d) \<noteq> SoundnessDisputed" for d
    unfolding soundnessFromDerivation_rung by simp
  have searched: "fst (searchedSoundness d s) = SoundnessDisputed \<longleftrightarrow>
      search_ran s \<and> ns_PathFound s \<and> ns_InRecordedFrame s" for d s
    unfolding searchedSoundness_rung using derived [of d] by simp
  show ?thesis
    unfolding NegativeSoundness_rung records_negative_def
    by (cases "f_Reachable f") (auto simp: derived [simplified] searched [simplified] split: option.splits)
qed

subsection \<open>Code that TinyGo supplies\<close>

definition NoPackageNote :: string where
  "NoPackageNote = ''the advisory names no package, so it cannot be told whether Go or TinyGo supplies the code''"

definition notEstablishedFinding :: "VulnerabilityFinding \<Rightarrow> string \<Rightarrow> VulnerabilityFinding" where
  "notEstablishedFinding f note =
     f\<lparr>f_NotEstablished := True, f_TinyGoNote := note,
       f_Reachable := map_option (\<lambda>r. r\<lparr>rr_IsReachable := False, rr_Confidence := ConfidenceUnknown\<rparr>) (f_Reachable f)\<rparr>"

definition partitionFinding :: "string list \<Rightarrow> VulnerabilityFinding \<Rightarrow> VulnerabilityFinding" where
  "partitionFinding supplied f =
     (let tinygo = filter (\<lambda>p. p \<in> set supplied) (f_AffectedPackages f);
          other = filter (\<lambda>p. p \<notin> set supplied) (f_AffectedPackages f)
      in if f_AffectedPackages f = [] then notEstablishedFinding f NoPackageNote
         else if other = [] then notEstablishedFinding f
           (''TinyGo supplies '' @ Join tinygo '', '' @ ''; Go's affected range describes Go's code'')
         else if tinygo \<noteq> [] then f\<lparr>f_TinyGoNote := ''judged on '' @ Join other '', ''
           @ '', which TinyGo does not supply; TinyGo supplies '' @ Join tinygo '', ''
           @ '', which Go's affected range does not describe''\<rparr>
         else f)"

definition PartitionTinyGoFindings :: "VulnerabilityFinding list \<Rightarrow> string list \<Rightarrow> VulnerabilityFinding list" where
  "PartitionTinyGoFindings findings supplied = map (partitionFinding supplied) findings"

text \<open>
  No verdict survives on code TinyGo supplies.  A finding keeps its verdict and its reachability
  answer exactly when some package it affects is not TinyGo's; otherwise it is not established,
  claims no reachability, and its reachability state is undetermined unless it was withdrawn.
\<close>

theorem tinygo_findings_established_iff:
  "map f_ID (PartitionTinyGoFindings fs supplied) = map f_ID fs
   \<and> (\<forall>f \<in> set fs. \<not> f_NotEstablished f \<longrightarrow>
        (let g = partitionFinding supplied f in
          (\<not> f_NotEstablished g \<longleftrightarrow> (\<exists>p \<in> set (f_AffectedPackages f). p \<notin> set supplied))
          \<and> (\<not> f_NotEstablished g \<longrightarrow> f_Reachable g = f_Reachable f \<and>
                FindingReachabilityState g = FindingReachabilityState f)
          \<and> (f_NotEstablished g \<longrightarrow> fst (NegativeSoundness g) = SoundnessUnconfirmed
              \<and> FindingReachabilityState g = (if IsWithdrawn f then StateWithdrawn else StateNotDetermined))))"
proof -
  have ids: "f_ID (partitionFinding supplied f) = f_ID f" for f
    by (simp add: partitionFinding_def Let_def notEstablishedFinding_def)
  have "(let g = partitionFinding supplied f in
          (\<not> f_NotEstablished g \<longleftrightarrow> (\<exists>p \<in> set (f_AffectedPackages f). p \<notin> set supplied))
          \<and> (\<not> f_NotEstablished g \<longrightarrow> f_Reachable g = f_Reachable f \<and>
                FindingReachabilityState g = FindingReachabilityState f)
          \<and> (f_NotEstablished g \<longrightarrow> fst (NegativeSoundness g) = SoundnessUnconfirmed
              \<and> FindingReachabilityState g = (if IsWithdrawn f then StateWithdrawn else StateNotDetermined)))"
    if not: "\<not> f_NotEstablished f" for f
  proof (cases "\<exists>p \<in> set (f_AffectedPackages f). p \<notin> set supplied")
    case True
    then have "f_AffectedPackages f \<noteq> []" "filter (\<lambda>p. p \<notin> set supplied) (f_AffectedPackages f) \<noteq> []"
      by (auto simp: filter_empty_conv)
    then have "partitionFinding supplied f \<in> {f, f\<lparr>f_TinyGoNote := f_TinyGoNote (partitionFinding supplied f)\<rparr>}"
      unfolding partitionFinding_def Let_def by simp
    then obtain n where "partitionFinding supplied f = f\<lparr>f_TinyGoNote := n\<rparr>"
      by (metis VulnerabilityFinding.surjective VulnerabilityFinding.update_convs(15) insertE singletonD)
    then show ?thesis using True not
      by (simp add: FindingReachabilityState_def IsWithdrawn_def ReachabilityAttemptFailed_def cong: option.case_cong)
  next
    case False
    then have "f_AffectedPackages f = [] \<or> filter (\<lambda>p. p \<notin> set supplied) (f_AffectedPackages f) = []"
      by (auto simp: filter_empty_conv)
    then obtain n where "partitionFinding supplied f = notEstablishedFinding f n"
      unfolding partitionFinding_def Let_def by metis
    then show ?thesis using False
      by (simp add: notEstablishedFinding_def NegativeSoundness_def FindingReachabilityState_def IsWithdrawn_def)
  qed
  then show ?thesis unfolding PartitionTinyGoFindings_def using ids by (auto simp: Let_def)
qed

theorem tinygo_findings_established_iff_witness:
  "f_NotEstablished (partitionFinding [''runtime''] (example_finding\<lparr>f_AffectedPackages := [''runtime''], f_NotEstablished := False\<rparr>))"
  using tinygo_findings_established_iff
    [of "[example_finding\<lparr>f_AffectedPackages := [''runtime''], f_NotEstablished := False\<rparr>]" "[''runtime'']"]
  by (simp add: Let_def)

end
