(* ===== verification/Vuln_Diff.thy ===== *)
theory Vuln_Diff
  imports Version_Order Vuln_Record
begin

text \<open>
  The difference of two scan runs (\<open>scan_run_diff.go\<close>, \<open>diff_scan_runs.go\<close>).  Go iterates a map in an
  unspecified order: the order in which each side's coordinates are visited is an argument of the
  model, and the properties hold for every such order.
\<close>

subsection \<open>Runs and their difference\<close>

record WalkScanCounts =
  wc_Total :: int
  wc_Analysed :: int
  wc_Affected :: int
  wc_Unscannable :: int
  wc_Failed :: int
  wc_Inconclusive :: int

record WalkScanRun =
  ws_ID :: string
  ws_WalkID :: string
  ws_Snapshot :: DatabaseSnapshot
  ws_PerModuleResults :: "ModuleCoordinate \<rightharpoonup> string"
  ws_StartedAt :: instant
  ws_CompletedAt :: instant
  ws_OverallStatus :: WalkScanStatus
  ws_CoverageStatus :: string
  ws_FindingsStatus :: string
  ws_Counts :: WalkScanCounts
  ws_PipelineVersion :: string
  ws_Operator :: string
  ws_ContentHash :: string

record FindingDelta =
  fd_Coordinate :: ModuleCoordinate
  fd_Finding :: VulnerabilityFinding

record ReachabilityChange =
  rc_Coordinate :: ModuleCoordinate
  rc_Finding :: VulnerabilityFinding
  rc_WasReachable :: bool
  rc_IsReachable :: bool

record UnresolvedFinding =
  uf_Coordinate :: ModuleCoordinate
  uf_Finding :: VulnerabilityFinding
  uf_Kind :: string
  uf_Reason :: string

definition UnresolvedKindResolved :: string where [simp]: "UnresolvedKindResolved = ''resolved''"
definition UnresolvedKindReachability :: string where [simp]: "UnresolvedKindReachability = ''reachability''"

record ScanRunDiff =
  RunA :: WalkScanRun
  RunB :: WalkScanRun
  NewFindings :: "FindingDelta list"
  ResolvedFindings :: "FindingDelta list"
  WithdrawnFindings :: "FindingDelta list"
  ReachabilityChanges :: "ReachabilityChange list"
  UnresolvedFindings :: "UnresolvedFinding list"

subsection \<open>Operations\<close>

definition indexByCoordinate :: "VulnerabilityRecord list \<Rightarrow> (ModuleCoordinate \<rightharpoonup> VulnerabilityRecord)" where
  "indexByCoordinate recs = foldl (\<lambda>m r. m(vr_Coordinate r \<mapsto> r)) Map.empty recs"

definition containsFinding :: "VulnerabilityFinding list \<Rightarrow> string \<Rightarrow> bool" where
  "containsFinding findings ident = (\<exists>f \<in> set findings. f_ID f = ident)"

definition findByID :: "VulnerabilityFinding list \<Rightarrow> string \<Rightarrow> VulnerabilityFinding option" where
  "findByID findings ident = find (\<lambda>f. f_ID f = ident) findings"

definition completenessName :: "string \<Rightarrow> string" where
  "completenessName s = (if s = [] then ''Unknown'' else s)"

definition completenessMismatch :: "VulnerabilityRecord \<Rightarrow> VulnerabilityRecord \<Rightarrow> bool \<times> string" where
  "completenessMismatch a b =
     (if vr_CallGraphCompleteness a \<noteq> vr_CallGraphCompleteness b then
        (True, ''completeness level differs: before='' @ completenessName (vr_CallGraphCompleteness a)
           @ '' after='' @ completenessName (vr_CallGraphCompleteness b))
      else if vr_CallGraphAlgorithm a \<noteq> vr_CallGraphAlgorithm b then
        (True, ''algorithm/devirt tier differs: before='' @ completenessName (vr_CallGraphAlgorithm a)
           @ '' after='' @ completenessName (vr_CallGraphAlgorithm b))
      else (False, []))"

definition reachabilityChanged :: "VulnerabilityFinding \<Rightarrow> VulnerabilityFinding \<Rightarrow> bool" where
  "reachabilityChanged a b =
     (case (f_Reachable a, f_Reachable b) of
        (None, None) \<Rightarrow> False
      | (Some x, Some y) \<Rightarrow> rr_IsReachable x \<noteq> rr_IsReachable y
      | _ \<Rightarrow> True)"

definition reachableFlag :: "VulnerabilityFinding \<Rightarrow> bool" where
  "reachableFlag f = (case f_Reachable f of None \<Rightarrow> False | Some r \<Rightarrow> rr_IsReachable r)"

definition CompareFindingDelta :: "FindingDelta \<Rightarrow> FindingDelta \<Rightarrow> int" where
  "CompareFindingDelta a b =
     (if Path (fd_Coordinate a) \<noteq> Path (fd_Coordinate b) then
        if Path (fd_Coordinate a) < Path (fd_Coordinate b) then -1 else 1
      else if Version (fd_Coordinate a) \<noteq> Version (fd_Coordinate b) then
        if Version (fd_Coordinate a) < Version (fd_Coordinate b) then -1 else 1
      else if f_ID (fd_Finding a) < f_ID (fd_Finding b) then -1
      else if f_ID (fd_Finding a) > f_ID (fd_Finding b) then 1
      else 0)"

definition diffCommonFinding ::
    "ScanRunDiff \<Rightarrow> ModuleCoordinate \<Rightarrow> VulnerabilityRecord \<Rightarrow> VulnerabilityRecord \<Rightarrow> VulnerabilityFinding \<Rightarrow> ScanRunDiff" where
  "diffCommonFinding d coord recA recB fB =
     (case findByID (vr_Findings recA) (f_ID fB) of
        None \<Rightarrow> d
      | Some fA \<Rightarrow>
          if \<not> IsWithdrawn fA \<and> IsWithdrawn fB then
            d\<lparr>WithdrawnFindings := WithdrawnFindings d @ [\<lparr>fd_Coordinate = coord, fd_Finding = fB\<rparr>]\<rparr>
          else if reachabilityChanged fA fB then
            (let was = reachableFlag fA; now = reachableFlag fB; (mismatch, reason) = completenessMismatch recA recB in
             if was \<and> \<not> now \<and> mismatch then
               d\<lparr>UnresolvedFindings := UnresolvedFindings d @ [\<lparr>uf_Coordinate = coord, uf_Finding = fB,
                   uf_Kind = UnresolvedKindReachability, uf_Reason = reason\<rparr>]\<rparr>
             else d\<lparr>ReachabilityChanges := ReachabilityChanges d @ [\<lparr>rc_Coordinate = coord, rc_Finding = fB,
                   rc_WasReachable = was, rc_IsReachable = now\<rparr>]\<rparr>)
          else d)"

text \<open>The bodies of the two loops of \<open>DiffScanRuns\<close>, for one finding.\<close>

definition diffNew ::
    "(ModuleCoordinate \<rightharpoonup> VulnerabilityRecord) \<Rightarrow> ModuleCoordinate \<Rightarrow> VulnerabilityRecord \<Rightarrow> ScanRunDiff \<Rightarrow> VulnerabilityFinding \<Rightarrow> ScanRunDiff" where
  "diffNew indexA coord recB d fB =
     (case indexA coord of
        None \<Rightarrow> d\<lparr>NewFindings := NewFindings d @ [\<lparr>fd_Coordinate = coord, fd_Finding = fB\<rparr>]\<rparr>
      | Some recA \<Rightarrow>
          if \<not> containsFinding (vr_Findings recA) (f_ID fB) then
            d\<lparr>NewFindings := NewFindings d @ [\<lparr>fd_Coordinate = coord, fd_Finding = fB\<rparr>]\<rparr>
          else diffCommonFinding d coord recA recB fB)"

definition diffGone ::
    "(ModuleCoordinate \<rightharpoonup> VulnerabilityRecord) \<Rightarrow> ModuleCoordinate \<Rightarrow> VulnerabilityRecord \<Rightarrow> ScanRunDiff \<Rightarrow> VulnerabilityFinding \<Rightarrow> ScanRunDiff" where
  "diffGone indexB coord recA d fA =
     (let there = indexB coord in
      if there \<noteq> None \<and> containsFinding (vr_Findings (the there)) (f_ID fA) then d
      else if IsWithdrawn fA then
        d\<lparr>WithdrawnFindings := WithdrawnFindings d @ [\<lparr>fd_Coordinate = coord, fd_Finding = fA\<rparr>]\<rparr>
      else if there \<noteq> None \<and> fst (completenessMismatch recA (the there)) then
        d\<lparr>UnresolvedFindings := UnresolvedFindings d @ [\<lparr>uf_Coordinate = coord, uf_Finding = fA,
            uf_Kind = UnresolvedKindResolved, uf_Reason = snd (completenessMismatch recA (the there))\<rparr>]\<rparr>
      else d\<lparr>ResolvedFindings := ResolvedFindings d @ [\<lparr>fd_Coordinate = coord, fd_Finding = fA\<rparr>]\<rparr>)"

definition overIndex ::
    "ModuleCoordinate list \<Rightarrow> (ModuleCoordinate \<rightharpoonup> VulnerabilityRecord)
     \<Rightarrow> (ModuleCoordinate \<Rightarrow> VulnerabilityRecord \<Rightarrow> ScanRunDiff \<Rightarrow> VulnerabilityFinding \<Rightarrow> ScanRunDiff) \<Rightarrow> ScanRunDiff \<Rightarrow> ScanRunDiff" where
  "overIndex order index body d =
     foldl (\<lambda>d coord. case index coord of None \<Rightarrow> d | Some r \<Rightarrow> foldl (body coord r) d (vr_Findings r)) d order"

definition unresolvedDelta :: "UnresolvedFinding \<Rightarrow> FindingDelta" where
  "unresolvedDelta u = \<lparr>fd_Coordinate = uf_Coordinate u, fd_Finding = uf_Finding u\<rparr>"

definition changeDelta :: "ReachabilityChange \<Rightarrow> FindingDelta" where
  "changeDelta c = \<lparr>fd_Coordinate = rc_Coordinate c, fd_Finding = rc_Finding c\<rparr>"

definition sortDeltas :: "('d \<Rightarrow> FindingDelta) \<Rightarrow> 'd list \<Rightarrow> 'd list" where
  "sortDeltas k xs = stable_sort (\<lambda>a b. CompareFindingDelta (k a) (k b) < 0) xs"

definition DiffScanRuns ::
    "ModuleCoordinate list \<Rightarrow> ModuleCoordinate list \<Rightarrow> WalkScanRun \<Rightarrow> WalkScanRun
     \<Rightarrow> VulnerabilityRecord list \<Rightarrow> VulnerabilityRecord list \<Rightarrow> ScanRunDiff" where
  "DiffScanRuns orderA orderB runA runB recsA recsB =
     (let indexA = indexByCoordinate recsA; indexB = indexByCoordinate recsB;
          d0 = \<lparr>RunA = runA, RunB = runB, NewFindings = [], ResolvedFindings = [], WithdrawnFindings = [],
                ReachabilityChanges = [], UnresolvedFindings = []\<rparr>;
          d1 = overIndex orderB indexB (diffNew indexA) d0;
          d2 = overIndex orderA indexA (diffGone indexB) d1
      in d2\<lparr>NewFindings := sortDeltas id (NewFindings d2),
            ResolvedFindings := sortDeltas id (ResolvedFindings d2),
            WithdrawnFindings := sortDeltas id (WithdrawnFindings d2),
            UnresolvedFindings := sortDeltas unresolvedDelta (UnresolvedFindings d2),
            ReachabilityChanges := sortDeltas changeDelta (ReachabilityChanges d2)\<rparr>)"

text \<open>Any order in which a map's keys may be visited.\<close>

definition visits :: "'k list \<Rightarrow> ('k \<rightharpoonup> 'v) \<Rightarrow> bool" where
  "visits ks m \<longleftrightarrow> distinct ks \<and> set ks = dom m"

subsection \<open>The order of deltas\<close>

definition deltaKey :: "FindingDelta \<Rightarrow> string \<times> string \<times> string" where
  "deltaKey a = (Path (fd_Coordinate a), Version (fd_Coordinate a), f_ID (fd_Finding a))"

lemma CompareFindingDelta_key: "CompareFindingDelta = (\<lambda>a b. Compare (deltaKey a) (deltaKey b))"
  by (auto simp: fun_eq_iff CompareFindingDelta_def Compare_def deltaKey_def)

interpretation delta_order: three_way CompareFindingDelta
  unfolding CompareFindingDelta_key by (rule three_way_key)

lemma sortDeltas_simps [simp]: "set (sortDeltas k xs) = set xs" "mset (sortDeltas k xs) = mset xs"
  by (simp_all add: sortDeltas_def)

subsection \<open>What each list holds\<close>

lemma indexByCoordinate_coord:
  "indexByCoordinate recs c = Some r \<Longrightarrow> r \<in> set recs \<and> vr_Coordinate r = c"
proof -
  have "foldl (\<lambda>m r. m(vr_Coordinate r \<mapsto> r)) m0 recs = m0 ++ map_of (rev (map (\<lambda>r. (vr_Coordinate r, r)) recs))" for m0
    by (induction recs arbitrary: m0) (simp_all add: map_add_def fun_eq_iff split: option.split)
  then have "indexByCoordinate recs = map_of (rev (map (\<lambda>r. (vr_Coordinate r, r)) recs))"
    by (simp add: indexByCoordinate_def)
  then show "indexByCoordinate recs c = Some r \<Longrightarrow> r \<in> set recs \<and> vr_Coordinate r = c"
    by (auto dest: map_of_SomeD)
qed

text \<open>A list of the difference grows by what the body adds for each finding, in the order visited.\<close>

lemma foldl_appends:
  assumes "\<And>d x. F (step d x) = F d @ g x"
  shows "F (foldl step d xs) = F d @ concat (map g xs)"
  using assms by (induction xs arbitrary: d) simp_all

lemma overIndex_appends:
  assumes "\<And>c r d f. F (body c r d f) = F d @ g c r f"
  shows "F (overIndex order index body d) =
    F d @ concat (map (\<lambda>c. case index c of None \<Rightarrow> [] | Some r \<Rightarrow> concat (map (g c r) (vr_Findings r))) order)"
  unfolding overIndex_def
  by (rule foldl_appends) (auto split: option.split intro: foldl_appends assms)

definition goneFrom :: "(ModuleCoordinate \<rightharpoonup> VulnerabilityRecord) \<Rightarrow> ModuleCoordinate \<Rightarrow> string \<Rightarrow> bool" where
  "goneFrom index c i \<longleftrightarrow> (\<forall>r. index c = Some r \<longrightarrow> (\<forall>f \<in> set (vr_Findings r). f_ID f \<noteq> i))"

lemma goneFrom_contains: "goneFrom index c i \<longleftrightarrow> (\<forall>r. index c = Some r \<longrightarrow> \<not> containsFinding (vr_Findings r) i)"
  by (auto simp: goneFrom_def containsFinding_def)

definition comparable_at :: "(ModuleCoordinate \<rightharpoonup> VulnerabilityRecord) \<Rightarrow> ModuleCoordinate \<Rightarrow> VulnerabilityRecord \<Rightarrow> bool" where
  "comparable_at index c a \<longleftrightarrow> (\<forall>b. index c = Some b \<longrightarrow>
     vr_CallGraphCompleteness a = vr_CallGraphCompleteness b \<and> vr_CallGraphAlgorithm a = vr_CallGraphAlgorithm b)"

lemma mismatch_iff: "fst (completenessMismatch a b) \<longleftrightarrow>
    \<not> (vr_CallGraphCompleteness a = vr_CallGraphCompleteness b \<and> vr_CallGraphAlgorithm a = vr_CallGraphAlgorithm b)"
  by (simp add: completenessMismatch_def)

definition addNew where
  "addNew indexA c r f = (if goneFrom indexA c (f_ID f) then [\<lparr>fd_Coordinate = c, fd_Finding = f\<rparr>] else [])"

definition addResolved where
  "addResolved indexB c r f = (if goneFrom indexB c (f_ID f) \<and> \<not> IsWithdrawn f \<and> comparable_at indexB c r
     then [\<lparr>fd_Coordinate = c, fd_Finding = f\<rparr>] else [])"

definition addGoneWithdrawn where
  "addGoneWithdrawn indexB c r f = (if goneFrom indexB c (f_ID f) \<and> IsWithdrawn f
     then [\<lparr>fd_Coordinate = c, fd_Finding = f\<rparr>] else [])"

definition addGoneUnresolved where
  "addGoneUnresolved indexB c r f = (if goneFrom indexB c (f_ID f) \<and> \<not> IsWithdrawn f \<and> \<not> comparable_at indexB c r
     then [\<lparr>uf_Coordinate = c, uf_Finding = f, uf_Kind = UnresolvedKindResolved,
            uf_Reason = snd (completenessMismatch r (the (indexB c)))\<rparr>] else [])"

text \<open>The finding of the earlier run that a finding of the later one is compared with.\<close>

definition before_of ::
    "(ModuleCoordinate \<rightharpoonup> VulnerabilityRecord) \<Rightarrow> ModuleCoordinate \<Rightarrow> VulnerabilityFinding
     \<Rightarrow> (VulnerabilityRecord \<times> VulnerabilityFinding) option" where
  "before_of indexA c f = (case indexA c of None \<Rightarrow> None
     | Some a \<Rightarrow> (case findByID (vr_Findings a) (f_ID f) of None \<Rightarrow> None | Some fA \<Rightarrow> Some (a, fA)))"

definition lost_at_fidelity :: "VulnerabilityRecord \<Rightarrow> VulnerabilityRecord \<Rightarrow> VulnerabilityFinding \<Rightarrow> VulnerabilityFinding \<Rightarrow> bool" where
  "lost_at_fidelity a b fA fB \<longleftrightarrow> reachableFlag fA \<and> \<not> reachableFlag fB \<and> fst (completenessMismatch a b)"

definition addWithdrawn where
  "addWithdrawn indexA c r f = (case before_of indexA c f of None \<Rightarrow> [] | Some (a, fA) \<Rightarrow>
     if \<not> IsWithdrawn fA \<and> IsWithdrawn f then [\<lparr>fd_Coordinate = c, fd_Finding = f\<rparr>] else [])"

definition addUnresolved where
  "addUnresolved indexA c r f = (case before_of indexA c f of None \<Rightarrow> [] | Some (a, fA) \<Rightarrow>
     if \<not> (\<not> IsWithdrawn fA \<and> IsWithdrawn f) \<and> reachabilityChanged fA f \<and> lost_at_fidelity a r fA f then
       [\<lparr>uf_Coordinate = c, uf_Finding = f, uf_Kind = UnresolvedKindReachability,
         uf_Reason = snd (completenessMismatch a r)\<rparr>] else [])"

definition addChange where
  "addChange indexA c r f = (case before_of indexA c f of None \<Rightarrow> [] | Some (a, fA) \<Rightarrow>
     if \<not> (\<not> IsWithdrawn fA \<and> IsWithdrawn f) \<and> reachabilityChanged fA f \<and> \<not> lost_at_fidelity a r fA f then
       [\<lparr>rc_Coordinate = c, rc_Finding = f, rc_WasReachable = reachableFlag fA, rc_IsReachable = reachableFlag f\<rparr>]
     else [])"

lemma findByID_Some: "findByID fs i = Some f \<Longrightarrow> f \<in> set fs \<and> f_ID f = i"
  by (auto simp: findByID_def find_Some_iff)

lemma findByID_None: "findByID fs i = None \<longleftrightarrow> \<not> containsFinding fs i"
  by (auto simp: findByID_def containsFinding_def find_None_iff)

lemma goneFrom_before: "goneFrom indexA c (f_ID f) \<longleftrightarrow> before_of indexA c f = None"
  by (auto simp: goneFrom_contains before_of_def findByID_None [symmetric] split: option.splits)

lemma diffNew_adds:
  "NewFindings (diffNew indexA c r d f) = NewFindings d @ addNew indexA c r f"
  "ResolvedFindings (diffNew indexA c r d f) = ResolvedFindings d"
  "WithdrawnFindings (diffNew indexA c r d f) = WithdrawnFindings d @ addWithdrawn indexA c r f"
  "UnresolvedFindings (diffNew indexA c r d f) = UnresolvedFindings d @ addUnresolved indexA c r f"
  "ReachabilityChanges (diffNew indexA c r d f) = ReachabilityChanges d @ addChange indexA c r f"
proof -
  have new: "diffNew indexA c r d f = d\<lparr>NewFindings := NewFindings d @ [\<lparr>fd_Coordinate = c, fd_Finding = f\<rparr>]\<rparr>"
    if "before_of indexA c f = None"
    using that by (cases "indexA c") (auto simp: diffNew_def before_of_def findByID_None split: option.splits)
  have common: "diffNew indexA c r d f = diffCommonFinding d c a r f \<and> findByID (vr_Findings a) (f_ID f) = Some fA"
    if "before_of indexA c f = Some (a, fA)" for a fA
    using that findByID_None [of "vr_Findings a" "f_ID f"] by (auto simp: diffNew_def before_of_def split: option.splits)
  show "NewFindings (diffNew indexA c r d f) = NewFindings d @ addNew indexA c r f"
    "ResolvedFindings (diffNew indexA c r d f) = ResolvedFindings d"
    "WithdrawnFindings (diffNew indexA c r d f) = WithdrawnFindings d @ addWithdrawn indexA c r f"
    "UnresolvedFindings (diffNew indexA c r d f) = UnresolvedFindings d @ addUnresolved indexA c r f"
    "ReachabilityChanges (diffNew indexA c r d f) = ReachabilityChanges d @ addChange indexA c r f"
    unfolding addNew_def addWithdrawn_def addUnresolved_def addChange_def goneFrom_before
    by (cases "before_of indexA c f"; (simp add: new; fail)?;
        clarsimp simp: common diffCommonFinding_def lost_at_fidelity_def Let_def split_beta)+
qed

lemma diffGone_adds:
  "NewFindings (diffGone indexB c r d f) = NewFindings d"
  "ResolvedFindings (diffGone indexB c r d f) = ResolvedFindings d @ addResolved indexB c r f"
  "WithdrawnFindings (diffGone indexB c r d f) = WithdrawnFindings d @ addGoneWithdrawn indexB c r f"
  "UnresolvedFindings (diffGone indexB c r d f) = UnresolvedFindings d @ addGoneUnresolved indexB c r f"
  "ReachabilityChanges (diffGone indexB c r d f) = ReachabilityChanges d"
proof -
  have gone: "(\<exists>b. indexB c = Some b) \<and> containsFinding (vr_Findings (the (indexB c))) i \<longleftrightarrow> \<not> goneFrom indexB c i" for i
    by (auto simp: goneFrom_contains)
  have mis: "indexB c \<noteq> None \<and> fst (completenessMismatch r (the (indexB c))) \<longleftrightarrow> \<not> comparable_at indexB c r"
    by (auto simp: comparable_at_def mismatch_iff)
  show "NewFindings (diffGone indexB c r d f) = NewFindings d"
    "ResolvedFindings (diffGone indexB c r d f) = ResolvedFindings d @ addResolved indexB c r f"
    "WithdrawnFindings (diffGone indexB c r d f) = WithdrawnFindings d @ addGoneWithdrawn indexB c r f"
    "UnresolvedFindings (diffGone indexB c r d f) = UnresolvedFindings d @ addGoneUnresolved indexB c r f"
    "ReachabilityChanges (diffGone indexB c r d f) = ReachabilityChanges d"
    unfolding diffGone_def Let_def mis using gone [of "f_ID f"]
    by (simp_all add: addResolved_def addGoneWithdrawn_def addGoneUnresolved_def)
qed

text \<open>The findings an index holds, in the order visited, each run through what it contributes.\<close>

definition collect ::
    "ModuleCoordinate list \<Rightarrow> (ModuleCoordinate \<rightharpoonup> VulnerabilityRecord)
     \<Rightarrow> (ModuleCoordinate \<Rightarrow> VulnerabilityRecord \<Rightarrow> VulnerabilityFinding \<Rightarrow> 'd list) \<Rightarrow> 'd list" where
  "collect order index g =
     concat (map (\<lambda>c. case index c of None \<Rightarrow> [] | Some r \<Rightarrow> concat (map (g c r) (vr_Findings r))) order)"

lemma set_collect:
  "visits order index \<Longrightarrow>
     x \<in> set (collect order index g) \<longleftrightarrow> (\<exists>c r f. index c = Some r \<and> f \<in> set (vr_Findings r) \<and> x \<in> set (g c r f))"
  by (force simp: collect_def visits_def split: option.splits)

lemma mset_collect:
  fixes g :: "ModuleCoordinate \<Rightarrow> VulnerabilityRecord \<Rightarrow> VulnerabilityFinding \<Rightarrow> 'd list"
  assumes "visits order index" "visits order' index"
  shows "mset (collect order index g) = mset (collect order' index g)"
proof -
  have "mset order = mset order'" using assms by (metis visits_def set_eq_iff_mset_eq_distinct)
  then have "mset (map h order) = mset (map h order')" for h :: "ModuleCoordinate \<Rightarrow> 'd multiset" by simp
  then have "sum_list (map h order) = sum_list (map h order')" for h :: "ModuleCoordinate \<Rightarrow> 'd multiset"
    by (metis sum_mset_sum_list)
  then show ?thesis by (simp add: collect_def mset_concat comp_def)
qed

lemma diff_lists:
  fixes orderA orderB runA runB recsA recsB
  defines "d \<equiv> DiffScanRuns orderA orderB runA runB recsA recsB"
    and "A \<equiv> indexByCoordinate recsA" and "B \<equiv> indexByCoordinate recsB"
  shows "NewFindings d = sortDeltas id (collect orderB B (addNew A))"
    "ResolvedFindings d = sortDeltas id (collect orderA A (addResolved B))"
    "WithdrawnFindings d = sortDeltas id (collect orderB B (addWithdrawn A) @ collect orderA A (addGoneWithdrawn B))"
    "UnresolvedFindings d = sortDeltas unresolvedDelta (collect orderB B (addUnresolved A) @ collect orderA A (addGoneUnresolved B))"
    "ReachabilityChanges d = sortDeltas changeDelta (collect orderB B (addChange A))"
proof -
  have none: "F (overIndex order index body d) = F d" if "\<And>c r d f. F (body c r d f) = F d" for F :: "ScanRunDiff \<Rightarrow> 'z list" and order index body d
    using overIndex_appends [of F body "\<lambda>c r f. []" order index d] that
    by (simp add: concat_eq_Nil_conv split: option.split)
  note news = overIndex_appends [of NewFindings, OF diffNew_adds(1)] overIndex_appends [of WithdrawnFindings, OF diffNew_adds(3)]
    overIndex_appends [of UnresolvedFindings, OF diffNew_adds(4)] overIndex_appends [of ReachabilityChanges, OF diffNew_adds(5)]
  note gones = overIndex_appends [of ResolvedFindings, OF diffGone_adds(2)] overIndex_appends [of WithdrawnFindings, OF diffGone_adds(3)]
    overIndex_appends [of UnresolvedFindings, OF diffGone_adds(4)]
  show "NewFindings d = sortDeltas id (collect orderB B (addNew A))"
    "ResolvedFindings d = sortDeltas id (collect orderA A (addResolved B))"
    "WithdrawnFindings d = sortDeltas id (collect orderB B (addWithdrawn A) @ collect orderA A (addGoneWithdrawn B))"
    "UnresolvedFindings d = sortDeltas unresolvedDelta (collect orderB B (addUnresolved A) @ collect orderA A (addGoneUnresolved B))"
    "ReachabilityChanges d = sortDeltas changeDelta (collect orderB B (addChange A))"
    unfolding d_def DiffScanRuns_def Let_def A_def [symmetric] B_def [symmetric]
    by (simp_all add: news gones none [of NewFindings, OF diffGone_adds(1)] none [of ReachabilityChanges, OF diffGone_adds(5)]
        none [of ResolvedFindings, OF diffNew_adds(2)] collect_def)
qed

lemma diff_runs:
  "RunA (DiffScanRuns orderA orderB runA runB recsA recsB) = runA"
  "RunB (DiffScanRuns orderA orderB runA runB recsA recsB) = runB"
proof -
  have run: "RunA (diffNew indexA c r d f) = RunA d" "RunB (diffNew indexA c r d f) = RunB d"
    "RunA (diffGone indexA c r d f) = RunA d" "RunB (diffGone indexA c r d f) = RunB d" for indexA c r d f
    by (auto simp: diffNew_def diffGone_def diffCommonFinding_def Let_def split_beta split: option.split)
  have fold: "F (foldl step d xs) = F d" if "\<And>d x. F (step d x) = F d" for F :: "ScanRunDiff \<Rightarrow> WalkScanRun" and step d and xs :: "'z list"
    using that by (induction xs arbitrary: d) simp_all
  have over: "F (overIndex order index body d) = F d" if "\<And>c r d f. F (body c r d f) = F d" for F :: "ScanRunDiff \<Rightarrow> WalkScanRun" and order index body d
    unfolding overIndex_def by (rule fold) (auto split: option.split intro: fold that)
  show "RunA (DiffScanRuns orderA orderB runA runB recsA recsB) = runA"
    "RunB (DiffScanRuns orderA orderB runA runB recsA recsB) = runB"
    by (simp_all add: DiffScanRuns_def Let_def run over [of RunA] over [of RunB])
qed

subsection \<open>Independence of the order visited\<close>

text \<open>A contribution that names the module and the finding it is about, one entry at most.\<close>

definition tagged ::
    "('d \<Rightarrow> FindingDelta) \<Rightarrow> (ModuleCoordinate \<Rightarrow> VulnerabilityRecord \<Rightarrow> VulnerabilityFinding \<Rightarrow> 'd list) \<Rightarrow> bool" where
  "tagged k g \<longleftrightarrow> (\<forall>c r f x. x \<in> set (g c r f) \<longrightarrow> k x = \<lparr>fd_Coordinate = c, fd_Finding = f\<rparr> \<and> g c r f = [x])"

lemma tagged_adds:
  "tagged id (addNew A)" "tagged id (addResolved A)" "tagged id (addWithdrawn A)" "tagged id (addGoneWithdrawn A)"
  "tagged unresolvedDelta (addUnresolved A)" "tagged unresolvedDelta (addGoneUnresolved A)" "tagged changeDelta (addChange A)"
  by (auto simp: tagged_def addNew_def addResolved_def addWithdrawn_def addGoneWithdrawn_def addUnresolved_def
      addGoneUnresolved_def addChange_def unresolvedDelta_def changeDelta_def split: option.splits if_splits)

definition ids_distinct :: "(ModuleCoordinate \<rightharpoonup> VulnerabilityRecord) \<Rightarrow> bool" where
  "ids_distinct index \<longleftrightarrow> (\<forall>c r. index c = Some r \<longrightarrow> distinct (map f_ID (vr_Findings r)))"

lemma deltaKey_eq:
  "deltaKey \<lparr>fd_Coordinate = c, fd_Finding = f\<rparr> = deltaKey \<lparr>fd_Coordinate = c', fd_Finding = f'\<rparr> \<longleftrightarrow> c = c' \<and> f_ID f = f_ID f'"
  by (cases c; cases c') (simp add: deltaKey_def)

definition keyed :: "('d \<Rightarrow> FindingDelta) \<Rightarrow> 'd list \<Rightarrow> bool" where
  "keyed k xs \<longleftrightarrow> distinct (map (\<lambda>x. deltaKey (k x)) xs)"

lemma tagged_key:
  "tagged k g \<Longrightarrow> x \<in> set (g c r f) \<Longrightarrow> deltaKey (k x) = (Path c, Version c, f_ID f) \<and> g c r f = [x]"
  by (force simp: tagged_def deltaKey_def)

lemma keyed_record:
  assumes "tagged k g" "distinct (map f_ID fs)"
  shows "keyed k (concat (map (g c r) fs))"
  using assms(2)
proof (induction fs)
  case (Cons f fs)
  then have IH: "keyed k (concat (map (g c r) fs))" by simp
  show ?case
  proof (cases "g c r f")
    case (Cons x xs)
    then have x: "g c r f = [x]" "deltaKey (k x) = (Path c, Version c, f_ID f)" using tagged_key [OF assms(1), of x c r f] by auto
    moreover have "deltaKey (k y) \<noteq> deltaKey (k x)" if "y \<in> set (concat (map (g c r) fs))" for y
      using that \<open>distinct (map f_ID (f # fs))\<close> x(2) tagged_key [OF assms(1)] by (fastforce simp: image_iff)
    ultimately show ?thesis using IH by (force simp: keyed_def)
  qed (use IH in simp)
qed (simp add: keyed_def)

lemma keyed_collect:
  assumes "visits order index" "ids_distinct index" "tagged k g"
  shows "keyed k (collect order index g)"
proof -
  have "distinct order" using assms(1) by (simp add: visits_def)
  then show ?thesis
  proof (induction order)
    case (Cons c cs)
    let ?here = "case index c of None \<Rightarrow> [] | Some r \<Rightarrow> concat (map (g c r) (vr_Findings r))"
    have key: "\<exists>i. deltaKey (k x) = (Path c', Version c', i)" if "x \<in> set (g c' r f)" for x c' r f
      using tagged_key [OF assms(3) that] by blast
    have here: "keyed k ?here"
      using assms(2) keyed_record [OF assms(3)] by (auto simp: ids_distinct_def keyed_def split: option.split)
    have apart: "deltaKey (k x) \<noteq> deltaKey (k y)" if at: "x \<in> set ?here" "y \<in> set (collect cs index g)" for x y
    proof -
      obtain r f where x: "x \<in> set (g c r f)" using at(1) by (auto split: option.splits)
      obtain c' r' f' where y: "c' \<in> set cs" "y \<in> set (g c' r' f')" using at(2) by (auto simp: collect_def split: option.splits)
      then have "c \<noteq> c'" using Cons.prems by auto
      then show ?thesis using key [OF x] key [OF y(2)] by (cases c; cases c') auto
    qed
    then show ?case using here Cons by (force simp: collect_def keyed_def)
  qed (simp add: collect_def keyed_def)
qed

lemma keyed_append:
  assumes "keyed k xs" "keyed k ys" "\<And>x y. x \<in> set xs \<Longrightarrow> y \<in> set ys \<Longrightarrow> deltaKey (k x) \<noteq> deltaKey (k y)"
  shows "keyed k (xs @ ys)"
  using assms by (force simp: keyed_def)

lemma sortDeltas_unique:
  assumes "mset xs = mset ys" "keyed k xs"
  shows "sortDeltas k xs = sortDeltas k ys"
  unfolding sortDeltas_def
proof (rule stable_sort_unique)
  show "swo (\<lambda>a b. CompareFindingDelta (k a) (k b) < 0)"
    unfolding CompareFindingDelta_key Compare_simps by (rule swo_key)
  fix x y
  assume "x \<in> set xs" "y \<in> set xs" "\<not> CompareFindingDelta (k x) (k y) < 0" "\<not> CompareFindingDelta (k y) (k x) < 0"
  then show "x = y" using assms(2) unfolding keyed_def CompareFindingDelta_key Compare_simps
    by (metis distinct_map inj_onD linorder_neqE)
qed (fact assms(1))

lemma tagged_key_neq:
  assumes "visits orderA A" "visits orderB B" "tagged k g" "tagged k h"
    and gone: "\<And>c r f x. x \<in> set (h c r f) \<Longrightarrow> goneFrom B c (f_ID f)"
    and "x \<in> set (collect orderB B g)" "y \<in> set (collect orderA A h)"
  shows "deltaKey (k x) \<noteq> deltaKey (k y)"
proof
  assume key: "deltaKey (k x) = deltaKey (k y)"
  obtain c r f where x: "B c = Some r" "f \<in> set (vr_Findings r)" "x \<in> set (g c r f)"
    using assms(6) set_collect [OF assms(2)] by metis
  obtain c' r' f' where y: "y \<in> set (h c' r' f')" using assms(7) set_collect [OF assms(1)] by metis
  have "c = c'" "f_ID f = f_ID f'" using key x(3) y assms(3,4) deltaKey_eq unfolding tagged_def by metis+
  with gone [OF y] x show False by (auto simp: goneFrom_def containsFinding_def)
qed

text \<open>
  The difference does not depend on the order the maps are visited in.  When no record reports
  one advisory twice, the whole difference is the same whatever orders the two loops take.
\<close>

theorem scan_diff_any_order:
  assumes visits: "visits orderA (indexByCoordinate recsA)" "visits orderB (indexByCoordinate recsB)"
      "visits orderA' (indexByCoordinate recsA)" "visits orderB' (indexByCoordinate recsB)"
    and ids: "\<forall>r \<in> set recsA \<union> set recsB. distinct (map f_ID (vr_Findings r))"
  shows "DiffScanRuns orderA orderB runA runB recsA recsB = DiffScanRuns orderA' orderB' runA runB recsA recsB"
proof -
  let ?A = "indexByCoordinate recsA" and ?B = "indexByCoordinate recsB"
  let ?d = "DiffScanRuns orderA orderB runA runB recsA recsB" and ?e = "DiffScanRuns orderA' orderB' runA runB recsA recsB"
  have dist: "ids_distinct ?A" "ids_distinct ?B"
    using ids indexByCoordinate_coord unfolding ids_distinct_def by blast+
  note lists = diff_lists [of orderA orderB runA runB recsA recsB] diff_lists [of orderA' orderB' runA runB recsA recsB]
  note one = keyed_collect [OF visits(1) dist(1)] keyed_collect [OF visits(2) dist(2)]
  note msets = mset_collect [OF visits(1,3)] mset_collect [OF visits(2,4)]
  have gone: "goneFrom ?B c (f_ID f)" if "x \<in> set (addGoneWithdrawn ?B c r f)" for c r f x
    using that by (simp add: addGoneWithdrawn_def split: if_splits)
  have gone': "goneFrom ?B c (f_ID f)" if "x \<in> set (addGoneUnresolved ?B c r f)" for c r f x
    using that by (simp add: addGoneUnresolved_def split: if_splits)
  have "NewFindings ?d = NewFindings ?e"
    unfolding lists by (intro sortDeltas_unique msets one tagged_adds)
  moreover have "ResolvedFindings ?d = ResolvedFindings ?e"
    unfolding lists by (intro sortDeltas_unique msets one tagged_adds)
  moreover have "ReachabilityChanges ?d = ReachabilityChanges ?e"
    unfolding lists by (intro sortDeltas_unique msets one tagged_adds)
  moreover have "WithdrawnFindings ?d = WithdrawnFindings ?e"
    unfolding lists
  proof (rule sortDeltas_unique)
    show "keyed id (collect orderB ?B (addWithdrawn ?A) @ collect orderA ?A (addGoneWithdrawn ?B))"
      by (intro keyed_append one tagged_adds) (rule tagged_key_neq [OF visits(1,2) tagged_adds(3) tagged_adds(4) gone])
  qed (simp add: msets)
  moreover have "UnresolvedFindings ?d = UnresolvedFindings ?e"
    unfolding lists
  proof (rule sortDeltas_unique)
    show "keyed unresolvedDelta (collect orderB ?B (addUnresolved ?A) @ collect orderA ?A (addGoneUnresolved ?B))"
      by (intro keyed_append one tagged_adds) (rule tagged_key_neq [OF visits(1,2) tagged_adds(5) tagged_adds(6) gone'])
  qed (simp add: msets)
  moreover have "RunA ?d = RunA ?e" "RunB ?d = RunB ?e" by (simp_all add: diff_runs)
  ultimately show ?thesis by (simp add: ScanRunDiff.equality)
qed

definition diff_example :: "VulnerabilityRecord list" where
  "diff_example = [example_vuln_record\<lparr>vr_Findings := [example_finding]\<rparr>,
     example_vuln_record\<lparr>vr_Coordinate := ModuleCoordinate ''b'' ''v1'', vr_Findings := [example_finding]\<rparr>]"

definition example_run :: WalkScanRun where
  "example_run = \<lparr>ws_ID = ''r1'', ws_WalkID = ''w1'', ws_Snapshot = zero_snapshot, ws_PerModuleResults = Map.empty,
     ws_StartedAt = 1, ws_CompletedAt = 2, ws_OverallStatus = ''AllClean'', ws_CoverageStatus = ''Complete'',
     ws_FindingsStatus = ''Clean'', ws_Counts = \<lparr>wc_Total = 1, wc_Analysed = 1, wc_Affected = 0, wc_Unscannable = 0,
     wc_Failed = 0, wc_Inconclusive = 0\<rparr>, ws_PipelineVersion = ''v1'', ws_Operator = [], ws_ContentHash = []\<rparr>"

lemma diff_example_visits:
  "visits [ModuleCoordinate ''b'' ''v1'', ModuleCoordinate ''a/mux'' ''v1.8.1''] (indexByCoordinate diff_example)"
  "visits [ModuleCoordinate ''a/mux'' ''v1.8.1'', ModuleCoordinate ''b'' ''v1''] (indexByCoordinate diff_example)"
  "visits [] (indexByCoordinate [])"
  by (auto simp: visits_def indexByCoordinate_def diff_example_def example_vuln_record_def)

theorem scan_diff_any_order_witness:
  "DiffScanRuns [] [ModuleCoordinate ''b'' ''v1'', ModuleCoordinate ''a/mux'' ''v1.8.1''] example_run example_run [] diff_example
   = DiffScanRuns [] [ModuleCoordinate ''a/mux'' ''v1.8.1'', ModuleCoordinate ''b'' ''v1''] example_run example_run [] diff_example"
  by (rule scan_diff_any_order [OF diff_example_visits(3,1,3,2)]) (simp add: diff_example_def)

subsection \<open>What the difference says\<close>

text \<open>A finding of the later run that the earlier one has too: both records and the earlier finding.\<close>

definition inBoth where
  "inBoth A B c a b fA f \<longleftrightarrow> A c = Some a \<and> B c = Some b \<and> f \<in> set (vr_Findings b)
     \<and> find (\<lambda>g. f_ID g = f_ID f) (vr_Findings a) = Some fA"

definition reachAnswer :: "VulnerabilityFinding \<Rightarrow> bool option" where
  "reachAnswer f = map_option rr_IsReachable (f_Reachable f)"

definition newlyWithdrawn :: "VulnerabilityFinding \<Rightarrow> VulnerabilityFinding \<Rightarrow> bool" where
  "newlyWithdrawn before after \<longleftrightarrow> f_WithdrawnAt before = zero_time \<and> f_WithdrawnAt after \<noteq> zero_time"

text \<open>A call found at one fidelity and missed at another is no change of the program.\<close>

definition lostAtFidelity :: "VulnerabilityRecord \<Rightarrow> VulnerabilityRecord \<Rightarrow> VulnerabilityFinding \<Rightarrow> VulnerabilityFinding \<Rightarrow> bool" where
  "lostAtFidelity a b fA f \<longleftrightarrow> reachAnswer fA = Some True \<and> reachAnswer f \<noteq> Some True
     \<and> (vr_CallGraphCompleteness a \<noteq> vr_CallGraphCompleteness b \<or> vr_CallGraphAlgorithm a \<noteq> vr_CallGraphAlgorithm b)"

definition orUnknown :: "string \<Rightarrow> string" where
  "orUnknown s = (case s of [] \<Rightarrow> ''Unknown'' | _ \<Rightarrow> s)"

definition statesGap :: "VulnerabilityRecord \<Rightarrow> VulnerabilityRecord \<Rightarrow> string \<Rightarrow> bool" where
  "statesGap a b reason \<longleftrightarrow>
     (vr_CallGraphCompleteness a \<noteq> vr_CallGraphCompleteness b \<and>
        reason = ''completeness level differs: before='' @ orUnknown (vr_CallGraphCompleteness a)
          @ '' after='' @ orUnknown (vr_CallGraphCompleteness b))
   \<or> (vr_CallGraphCompleteness a = vr_CallGraphCompleteness b \<and> vr_CallGraphAlgorithm a \<noteq> vr_CallGraphAlgorithm b \<and>
        reason = ''algorithm/devirt tier differs: before='' @ orUnknown (vr_CallGraphAlgorithm a)
          @ '' after='' @ orUnknown (vr_CallGraphAlgorithm b))"

lemma inBoth_before: "inBoth A B c a b fA f \<longleftrightarrow> before_of A c f = Some (a, fA) \<and> B c = Some b \<and> f \<in> set (vr_Findings b)"
  by (auto simp: inBoth_def before_of_def findByID_def split: option.splits)

lemma newlyWithdrawn_iff: "newlyWithdrawn fA f \<longleftrightarrow> \<not> IsWithdrawn fA \<and> IsWithdrawn f"
  by (simp add: newlyWithdrawn_def IsWithdrawn_def)

lemma reachableFlag_answer: "reachableFlag f \<longleftrightarrow> reachAnswer f = Some True"
  by (auto simp: reachableFlag_def reachAnswer_def split: option.split)

lemma reachabilityChanged_answer: "reachabilityChanged fA f \<longleftrightarrow> reachAnswer fA \<noteq> reachAnswer f"
  by (auto simp: reachabilityChanged_def reachAnswer_def split: option.split)

lemma lost_at_fidelity_iff: "lost_at_fidelity a b fA f \<longleftrightarrow> lostAtFidelity a b fA f"
  by (auto simp: lost_at_fidelity_def lostAtFidelity_def reachableFlag_answer mismatch_iff)

lemma statesGap_reason: "statesGap a b reason \<longleftrightarrow> fst (completenessMismatch a b) \<and> reason = snd (completenessMismatch a b)"
proof -
  have "completenessName s = orUnknown s" for s by (simp add: completenessName_def orUnknown_def split: list.split)
  then show ?thesis unfolding statesGap_def completenessMismatch_def by simp
qed

lemma mem_addWithdrawn: "x \<in> set (addWithdrawn A c b f) \<longleftrightarrow> (\<exists>a fA. before_of A c f = Some (a, fA) \<and> newlyWithdrawn fA f
    \<and> x = \<lparr>fd_Coordinate = c, fd_Finding = f\<rparr>)"
  unfolding addWithdrawn_def newlyWithdrawn_iff by (cases "before_of A c f") auto

lemma mem_addChange: "x \<in> set (addChange A c b f) \<longleftrightarrow> (\<exists>a fA. before_of A c f = Some (a, fA) \<and> \<not> newlyWithdrawn fA f
    \<and> reachAnswer fA \<noteq> reachAnswer f \<and> \<not> lostAtFidelity a b fA f
    \<and> x = \<lparr>rc_Coordinate = c, rc_Finding = f, rc_WasReachable = (reachAnswer fA = Some True),
        rc_IsReachable = (reachAnswer f = Some True)\<rparr>)"
  unfolding addChange_def newlyWithdrawn_iff lost_at_fidelity_iff reachabilityChanged_answer reachableFlag_answer
  by (cases "before_of A c f") auto

lemma mem_addUnresolved: "x \<in> set (addUnresolved A c b f) \<longleftrightarrow> (\<exists>a fA. before_of A c f = Some (a, fA) \<and> \<not> newlyWithdrawn fA f
    \<and> lostAtFidelity a b fA f \<and> uf_Coordinate x = c \<and> uf_Finding x = f \<and> uf_Kind x = ''reachability'' \<and> statesGap a b (uf_Reason x))"
proof -
  have "lostAtFidelity a b fA f \<Longrightarrow> reachAnswer fA \<noteq> reachAnswer f" for a fA by (auto simp: lostAtFidelity_def)
  moreover have "lostAtFidelity a b fA f \<Longrightarrow> fst (completenessMismatch a b)" for a fA
    by (simp add: lost_at_fidelity_iff [symmetric] lost_at_fidelity_def)
  ultimately show ?thesis
    unfolding addUnresolved_def newlyWithdrawn_iff lost_at_fidelity_iff reachabilityChanged_answer statesGap_reason
    by (cases x; cases "before_of A c f") auto
qed

lemma mem_addGoneUnresolved: "x \<in> set (addGoneUnresolved B c a f) \<longleftrightarrow> goneFrom B c (f_ID f) \<and> \<not> IsWithdrawn f
    \<and> (\<exists>b. B c = Some b \<and> uf_Coordinate x = c \<and> uf_Finding x = f \<and> uf_Kind x = ''resolved'' \<and> statesGap a b (uf_Reason x))"
  unfolding addGoneUnresolved_def statesGap_reason mismatch_iff
  by (cases x) (auto simp: comparable_at_def)

lemma mem_addGoneWithdrawn: "x \<in> set (addGoneWithdrawn B c a f) \<longleftrightarrow>
    goneFrom B c (f_ID f) \<and> IsWithdrawn f \<and> x = \<lparr>fd_Coordinate = c, fd_Finding = f\<rparr>"
  by (auto simp: addGoneWithdrawn_def)

text \<open>The five lists, each by what it holds.\<close>

lemma diff_holds:
  fixes orderA orderB recsA recsB runA runB
  defines "A \<equiv> indexByCoordinate recsA" and "B \<equiv> indexByCoordinate recsB"
    and "d \<equiv> DiffScanRuns orderA orderB runA runB recsA recsB"
  assumes visits: "visits orderA A" "visits orderB B"
  shows diff_new: "\<lparr>fd_Coordinate = c, fd_Finding = f\<rparr> \<in> set (NewFindings d) \<longleftrightarrow>
      (\<exists>b. B c = Some b \<and> f \<in> set (vr_Findings b)) \<and> goneFrom A c (f_ID f)"
    and diff_resolved: "\<lparr>fd_Coordinate = c, fd_Finding = f\<rparr> \<in> set (ResolvedFindings d) \<longleftrightarrow>
      (\<exists>a. A c = Some a \<and> f \<in> set (vr_Findings a) \<and> goneFrom B c (f_ID f) \<and> \<not> IsWithdrawn f \<and> comparable_at B c a)"
    and diff_withdrawn: "\<lparr>fd_Coordinate = c, fd_Finding = f\<rparr> \<in> set (WithdrawnFindings d) \<longleftrightarrow>
      (\<exists>a. A c = Some a \<and> f \<in> set (vr_Findings a) \<and> goneFrom B c (f_ID f) \<and> IsWithdrawn f)
      \<or> (\<exists>a b fA. inBoth A B c a b fA f \<and> newlyWithdrawn fA f)"
    and diff_changes: "x \<in> set (ReachabilityChanges d) \<longleftrightarrow>
      (\<exists>c a b fA f. inBoth A B c a b fA f \<and> \<not> newlyWithdrawn fA f \<and> reachAnswer fA \<noteq> reachAnswer f \<and> \<not> lostAtFidelity a b fA f
        \<and> x = \<lparr>rc_Coordinate = c, rc_Finding = f, rc_WasReachable = (reachAnswer fA = Some True),
            rc_IsReachable = (reachAnswer f = Some True)\<rparr>)"
    and diff_unresolved: "u \<in> set (UnresolvedFindings d) \<longleftrightarrow>
      (\<exists>a b. A (uf_Coordinate u) = Some a \<and> B (uf_Coordinate u) = Some b \<and> statesGap a b (uf_Reason u)
        \<and> (uf_Kind u = ''resolved'' \<and> uf_Finding u \<in> set (vr_Findings a) \<and> goneFrom B (uf_Coordinate u) (f_ID (uf_Finding u))
              \<and> \<not> IsWithdrawn (uf_Finding u)
          \<or> uf_Kind u = ''reachability'' \<and> (\<exists>fA. inBoth A B (uf_Coordinate u) a b fA (uf_Finding u)
              \<and> \<not> newlyWithdrawn fA (uf_Finding u) \<and> lostAtFidelity a b fA (uf_Finding u))))"
proof -
  note lists = diff_lists [of orderA orderB runA runB recsA recsB, folded A_def B_def d_def]
  note sets = set_collect [OF visits(1)] set_collect [OF visits(2)]
  have both: "before_of A c f = Some (a, fA) \<Longrightarrow> A c = Some a" for c f a fA by (auto simp: before_of_def split: option.splits)
  show "\<lparr>fd_Coordinate = c, fd_Finding = f\<rparr> \<in> set (NewFindings d) \<longleftrightarrow>
      (\<exists>b. B c = Some b \<and> f \<in> set (vr_Findings b)) \<and> goneFrom A c (f_ID f)"
    by (auto simp: lists sets addNew_def split: if_splits)
  show "\<lparr>fd_Coordinate = c, fd_Finding = f\<rparr> \<in> set (ResolvedFindings d) \<longleftrightarrow>
      (\<exists>a. A c = Some a \<and> f \<in> set (vr_Findings a) \<and> goneFrom B c (f_ID f) \<and> \<not> IsWithdrawn f \<and> comparable_at B c a)"
    by (auto simp: lists sets addResolved_def split: if_splits)
  show "\<lparr>fd_Coordinate = c, fd_Finding = f\<rparr> \<in> set (WithdrawnFindings d) \<longleftrightarrow>
      (\<exists>a. A c = Some a \<and> f \<in> set (vr_Findings a) \<and> goneFrom B c (f_ID f) \<and> IsWithdrawn f)
      \<or> (\<exists>a b fA. inBoth A B c a b fA f \<and> newlyWithdrawn fA f)"
    unfolding inBoth_before lists sortDeltas_simps set_append Un_iff sets mem_addWithdrawn mem_addGoneWithdrawn by blast
  show "x \<in> set (ReachabilityChanges d) \<longleftrightarrow>
      (\<exists>c a b fA f. inBoth A B c a b fA f \<and> \<not> newlyWithdrawn fA f \<and> reachAnswer fA \<noteq> reachAnswer f \<and> \<not> lostAtFidelity a b fA f
        \<and> x = \<lparr>rc_Coordinate = c, rc_Finding = f, rc_WasReachable = (reachAnswer fA = Some True),
            rc_IsReachable = (reachAnswer f = Some True)\<rparr>)"
    unfolding inBoth_before lists sortDeltas_simps sets mem_addChange by blast
  show "u \<in> set (UnresolvedFindings d) \<longleftrightarrow>
      (\<exists>a b. A (uf_Coordinate u) = Some a \<and> B (uf_Coordinate u) = Some b \<and> statesGap a b (uf_Reason u)
        \<and> (uf_Kind u = ''resolved'' \<and> uf_Finding u \<in> set (vr_Findings a) \<and> goneFrom B (uf_Coordinate u) (f_ID (uf_Finding u))
              \<and> \<not> IsWithdrawn (uf_Finding u)
          \<or> uf_Kind u = ''reachability'' \<and> (\<exists>fA. inBoth A B (uf_Coordinate u) a b fA (uf_Finding u)
              \<and> \<not> newlyWithdrawn fA (uf_Finding u) \<and> lostAtFidelity a b fA (uf_Finding u))))"
    unfolding inBoth_before lists sortDeltas_simps set_append Un_iff sets mem_addUnresolved mem_addGoneUnresolved
    using both by blast
qed

lemma sortDeltas_sorted: "sorted (map (\<lambda>x. deltaKey (k x)) (sortDeltas k xs))"
proof -
  have "sorted_wrt (\<lambda>a b. \<not> deltaKey (k b) < deltaKey (k a)) (sortDeltas k xs)"
    unfolding sortDeltas_def CompareFindingDelta_key Compare_simps by (rule sorted_stable_sort) (rule swo_key)
  then show ?thesis by (simp add: sorted_map not_less)
qed

definition inDeltaOrder :: "(string \<times> string \<times> string \<Rightarrow> string \<times> string \<times> string \<Rightarrow> bool) \<Rightarrow> ScanRunDiff \<Rightarrow> bool" where
  "inDeltaOrder R d \<longleftrightarrow> sorted_wrt R (map deltaKey (NewFindings d)) \<and> sorted_wrt R (map deltaKey (ResolvedFindings d))
     \<and> sorted_wrt R (map deltaKey (WithdrawnFindings d))
     \<and> sorted_wrt R (map (\<lambda>u. deltaKey \<lparr>fd_Coordinate = uf_Coordinate u, fd_Finding = uf_Finding u\<rparr>) (UnresolvedFindings d))
     \<and> sorted_wrt R (map (\<lambda>x. deltaKey \<lparr>fd_Coordinate = rc_Coordinate x, fd_Finding = rc_Finding x\<rparr>) (ReachabilityChanges d))"

lemma diff_ordered: "inDeltaOrder (\<le>) (DiffScanRuns orderA orderB runA runB recsA recsB)"
  using sortDeltas_sorted [of id] sortDeltas_sorted [of unresolvedDelta] sortDeltas_sorted [of changeDelta]
  by (simp add: inDeltaOrder_def diff_lists unresolvedDelta_def changeDelta_def)

lemma diff_keyed:
  fixes orderA orderB recsA recsB runA runB
  defines "d \<equiv> DiffScanRuns orderA orderB runA runB recsA recsB"
  assumes visits: "visits orderA (indexByCoordinate recsA)" "visits orderB (indexByCoordinate recsB)"
    and ids: "\<forall>r \<in> set recsA \<union> set recsB. distinct (map f_ID (vr_Findings r))"
  shows "keyed id (NewFindings d)" "keyed id (ResolvedFindings d)" "keyed id (WithdrawnFindings d)"
    "keyed unresolvedDelta (UnresolvedFindings d)" "keyed changeDelta (ReachabilityChanges d)"
proof -
  let ?A = "indexByCoordinate recsA" and ?B = "indexByCoordinate recsB"
  have dist: "ids_distinct ?A" "ids_distinct ?B" using ids indexByCoordinate_coord unfolding ids_distinct_def by blast+
  have sort: "keyed k xs \<Longrightarrow> keyed k (sortDeltas k xs)" for k :: "'z \<Rightarrow> FindingDelta" and xs
    unfolding keyed_def by (metis mset_eq_imp_distinct_iff mset_map sortDeltas_simps(2))
  note one = keyed_collect [OF visits(1) dist(1)] keyed_collect [OF visits(2) dist(2)]
  have gone: "goneFrom ?B c (f_ID f)" if "x \<in> set (addGoneWithdrawn ?B c r f)" for c r f x
    using that by (simp add: addGoneWithdrawn_def split: if_splits)
  have gone': "goneFrom ?B c (f_ID f)" if "x \<in> set (addGoneUnresolved ?B c r f)" for c r f x
    using that by (simp add: addGoneUnresolved_def split: if_splits)
  show "keyed id (NewFindings d)" "keyed id (ResolvedFindings d)" "keyed changeDelta (ReachabilityChanges d)"
    unfolding d_def diff_lists by (intro sort one tagged_adds)+
  show "keyed id (WithdrawnFindings d)" unfolding d_def diff_lists
    by (intro sort keyed_append one tagged_adds) (rule tagged_key_neq [OF visits tagged_adds(3) tagged_adds(4) gone])
  show "keyed unresolvedDelta (UnresolvedFindings d)" unfolding d_def diff_lists
    by (intro sort keyed_append one tagged_adds) (rule tagged_key_neq [OF visits tagged_adds(5) tagged_adds(6) gone'])
qed

lemma diff_ordered_strictly:
  assumes "visits orderA (indexByCoordinate recsA)" "visits orderB (indexByCoordinate recsB)"
    and "\<forall>r \<in> set recsA \<union> set recsB. distinct (map f_ID (vr_Findings r))"
  shows "inDeltaOrder (<) (DiffScanRuns orderA orderB runA runB recsA recsB)"
  using diff_ordered [of orderA orderB runA runB recsA recsB] diff_keyed [OF assms, of runA runB]
  by (simp add: inDeltaOrder_def strict_sorted_iff keyed_def unresolvedDelta_def changeDelta_def)

text \<open>
  C8: the five lists of the difference of two runs hold exactly what they should, whatever order the maps are
  visited in.  A finding is new exactly when the earlier run does not hold its advisory at that module.  A
  finding the later run lacks is withdrawn if its advisory was, otherwise resolved if the module is not in the
  later run at all or both records state the same completeness and algorithm, otherwise unresolved.  A finding
  both runs have is withdrawn if its advisory has been withdrawn since, and otherwise a reachability change
  exactly when its answer differs (with the answers before and after), unless a reachable one was lost between
  records of different fidelity, which is unresolved.  An unresolved entry states which of the two
  fidelities differs and how.  Every list is ordered by module, version and advisory, and strictly when no
  record reports one advisory twice, so each finding is then listed once.  The difference names the runs it was asked about.
\<close>

theorem scan_diff_accounts:
  assumes "visits orderA (indexByCoordinate recsA)" "visits orderB (indexByCoordinate recsB)"
  shows "let A = indexByCoordinate recsA; B = indexByCoordinate recsB; d = DiffScanRuns orderA orderB runA runB recsA recsB in
    (\<forall>c f. \<lparr>fd_Coordinate = c, fd_Finding = f\<rparr> \<in> set (NewFindings d) \<longleftrightarrow>
        (\<exists>b. B c = Some b \<and> f \<in> set (vr_Findings b)) \<and> goneFrom A c (f_ID f))
    \<and> (\<forall>c f. \<lparr>fd_Coordinate = c, fd_Finding = f\<rparr> \<in> set (ResolvedFindings d) \<longleftrightarrow>
        (\<exists>a. A c = Some a \<and> f \<in> set (vr_Findings a) \<and> goneFrom B c (f_ID f) \<and> \<not> IsWithdrawn f \<and> comparable_at B c a))
    \<and> (\<forall>c f. \<lparr>fd_Coordinate = c, fd_Finding = f\<rparr> \<in> set (WithdrawnFindings d) \<longleftrightarrow>
        (\<exists>a. A c = Some a \<and> f \<in> set (vr_Findings a) \<and> goneFrom B c (f_ID f) \<and> IsWithdrawn f)
        \<or> (\<exists>a b fA. inBoth A B c a b fA f \<and> newlyWithdrawn fA f))
    \<and> (\<forall>x. x \<in> set (ReachabilityChanges d) \<longleftrightarrow>
        (\<exists>c a b fA f. inBoth A B c a b fA f \<and> \<not> newlyWithdrawn fA f \<and> reachAnswer fA \<noteq> reachAnswer f \<and> \<not> lostAtFidelity a b fA f
          \<and> x = \<lparr>rc_Coordinate = c, rc_Finding = f, rc_WasReachable = (reachAnswer fA = Some True),
              rc_IsReachable = (reachAnswer f = Some True)\<rparr>))
    \<and> (\<forall>u. u \<in> set (UnresolvedFindings d) \<longleftrightarrow>
        (\<exists>a b. A (uf_Coordinate u) = Some a \<and> B (uf_Coordinate u) = Some b \<and> statesGap a b (uf_Reason u)
          \<and> (uf_Kind u = ''resolved'' \<and> uf_Finding u \<in> set (vr_Findings a) \<and> goneFrom B (uf_Coordinate u) (f_ID (uf_Finding u))
                \<and> \<not> IsWithdrawn (uf_Finding u)
            \<or> uf_Kind u = ''reachability'' \<and> (\<exists>fA. inBoth A B (uf_Coordinate u) a b fA (uf_Finding u)
                \<and> \<not> newlyWithdrawn fA (uf_Finding u) \<and> lostAtFidelity a b fA (uf_Finding u)))))
    \<and> inDeltaOrder (\<le>) d
    \<and> ((\<forall>r \<in> set recsA \<union> set recsB. distinct (map f_ID (vr_Findings r))) \<longrightarrow> inDeltaOrder (<) d)
    \<and> RunA d = runA \<and> RunB d = runB"
  unfolding Let_def
  by (intro conjI allI impI diff_new diff_resolved diff_withdrawn diff_changes diff_unresolved diff_ordered diff_ordered_strictly diff_runs assms)

definition diff_example_later :: "VulnerabilityRecord list" where
  "diff_example_later = [example_vuln_record\<lparr>vr_Findings := []\<rparr>,
     example_vuln_record\<lparr>vr_Coordinate := ModuleCoordinate ''b'' ''v1'', vr_Findings := [example_finding\<lparr>f_WithdrawnAt := 7\<rparr>]\<rparr>]"

lemma diff_example_later_visits:
  "visits [ModuleCoordinate ''b'' ''v1'', ModuleCoordinate ''a/mux'' ''v1.8.1''] (indexByCoordinate diff_example_later)"
  by (auto simp: visits_def indexByCoordinate_def diff_example_later_def example_vuln_record_def)

text \<open>At one module the finding is resolved, at the other its advisory has been withdrawn since.\<close>

theorem scan_diff_accounts_witness:
  "let d = DiffScanRuns [ModuleCoordinate ''b'' ''v1'', ModuleCoordinate ''a/mux'' ''v1.8.1'']
     [ModuleCoordinate ''b'' ''v1'', ModuleCoordinate ''a/mux'' ''v1.8.1''] example_run example_run diff_example diff_example_later in
    \<lparr>fd_Coordinate = ModuleCoordinate ''b'' ''v1'', fd_Finding = example_finding\<lparr>f_WithdrawnAt := 7\<rparr>\<rparr> \<in> set (WithdrawnFindings d)
    \<and> \<lparr>fd_Coordinate = ModuleCoordinate ''a/mux'' ''v1.8.1'', fd_Finding = example_finding\<rparr> \<in> set (ResolvedFindings d)
    \<and> inDeltaOrder (<) d"
proof -
  note t = scan_diff_accounts [OF diff_example_visits(1) diff_example_later_visits, of example_run example_run, unfolded Let_def]
  note withdrawn = t [THEN conjunct2, THEN conjunct2, THEN conjunct1, rule_format, THEN iffD2, OF disjI2]
    and resolved = t [THEN conjunct2, THEN conjunct1, rule_format, THEN iffD2]
    and strictly = t [THEN conjunct2, THEN conjunct2, THEN conjunct2, THEN conjunct2, THEN conjunct2, THEN conjunct2, THEN conjunct1, THEN mp]
  have at: "indexByCoordinate diff_example (ModuleCoordinate ''b'' ''v1'') = Some (diff_example ! 1)"
    "indexByCoordinate diff_example_later (ModuleCoordinate ''b'' ''v1'') = Some (diff_example_later ! 1)"
    "indexByCoordinate diff_example (ModuleCoordinate ''a/mux'' ''v1.8.1'') = Some (diff_example ! 0)"
    "indexByCoordinate diff_example_later (ModuleCoordinate ''a/mux'' ''v1.8.1'') = Some (diff_example_later ! 0)"
    by (simp_all add: indexByCoordinate_def diff_example_def diff_example_later_def example_vuln_record_def)
  have "inBoth (indexByCoordinate diff_example) (indexByCoordinate diff_example_later) (ModuleCoordinate ''b'' ''v1'')
      (diff_example ! 1) (diff_example_later ! 1) example_finding (example_finding\<lparr>f_WithdrawnAt := 7\<rparr>)"
    unfolding inBoth_def at by (simp add: diff_example_def diff_example_later_def)
  moreover have "newlyWithdrawn example_finding (example_finding\<lparr>f_WithdrawnAt := 7\<rparr>)"
    by (simp add: newlyWithdrawn_def example_finding_def)
  moreover have "goneFrom (indexByCoordinate diff_example_later) (ModuleCoordinate ''a/mux'' ''v1.8.1'') (f_ID example_finding)"
    unfolding goneFrom_def at by (simp add: diff_example_later_def containsFinding_def)
  moreover have "comparable_at (indexByCoordinate diff_example_later) (ModuleCoordinate ''a/mux'' ''v1.8.1'') (diff_example ! 0)"
    unfolding comparable_at_def at by (simp add: diff_example_def diff_example_later_def)
  moreover have "example_finding \<in> set (vr_Findings (diff_example ! 0)) \<and> \<not> IsWithdrawn example_finding"
    by (simp add: diff_example_def IsWithdrawn_def example_finding_def)
  moreover have "\<forall>r \<in> set diff_example \<union> set diff_example_later. distinct (map f_ID (vr_Findings r))"
    by (simp add: diff_example_def diff_example_later_def)
  ultimately show ?thesis unfolding Let_def
    by (intro conjI withdrawn resolved strictly) (use at(3) in blast)+
qed

end
