(* ===== verification/Vuln_Timeline.thy ===== *)
theory Vuln_Timeline
  imports Sorting_Go Vuln_Record
begin

text \<open>
  The timeline of one advisory over the stored records of a coordinate (\<open>timeline.go\<close>): which records
  report it, what changed between adjacent records and why, and when it was first and last reported.
  The snapshot check reads a file and is a parameter that may fail.
\<close>

subsection \<open>States, points and entries\<close>

type_synonym TimelineStateKind = string

definition TimelineNotReported :: TimelineStateKind where [simp]: "TimelineNotReported = ''not_reported''"
definition TimelineReported :: TimelineStateKind where [simp]: "TimelineReported = ''reported''"
definition TimelineWithdrawn :: TimelineStateKind where [simp]: "TimelineWithdrawn = ''withdrawn''"

record TimelineState =
  ts_Kind :: TimelineStateKind
  ts_Reachability :: "ReachabilityState option"

definition timeline_String :: "TimelineState \<Rightarrow> string" where
  "timeline_String s =
     (if ts_Kind s = TimelineReported then ''reported ('' @ state_String (the (ts_Reachability s)) @ '')''
      else if ts_Kind s = TimelineWithdrawn then ''withdrawn'' else ''not reported'')"

type_synonym TimelineReason = string

definition ReasonWithdrawn :: TimelineReason where [simp]: "ReasonWithdrawn = ''withdrawn''"
definition ReasonReachabilityCorrected :: TimelineReason where [simp]: "ReasonReachabilityCorrected = ''reachability-corrected''"
definition ReasonCoverageLost :: TimelineReason where [simp]: "ReasonCoverageLost = ''coverage-lost''"
definition ReasonAdvisoryAdded :: TimelineReason where [simp]: "ReasonAdvisoryAdded = ''advisory-added''"
definition ReasonUnattributed :: TimelineReason where [simp]: "ReasonUnattributed = ''unattributed''"

type_synonym TimelineEntryKind = string

definition TimelineChange :: TimelineEntryKind where [simp]: "TimelineChange = ''change''"
definition TimelineGenerationDisagreement :: TimelineEntryKind where
  [simp]: "TimelineGenerationDisagreement = ''generation-disagreement''"

record TimelinePoint =
  tp_ScannedAt :: instant
  tp_PipelineVersion :: string
  tp_Snapshot :: DatabaseSnapshot
  tp_Coverage :: RecordCoverageStatus
  tp_ContentHash :: string

record TimelineEntry =
  te_Kind :: TimelineEntryKind
  te_Reason :: TimelineReason
  te_From :: TimelineState
  te_To :: TimelineState
  te_FromRecord :: TimelinePoint
  te_ToRecord :: TimelinePoint
  te_WithdrawnAt :: instant

record TimelineBoundary =
  tb_Record :: TimelinePoint
  tb_Previous :: "TimelinePoint option"
  tb_AtOrBefore :: bool
  tb_Established :: bool
  tb_Reason :: TimelineReason
  tb_EntryKind :: TimelineEntryKind

record FindingTimeline =
  ft_Coordinate :: ModuleCoordinate
  ft_Rooting :: Rooting
  ft_RecordCount :: nat
  ft_State :: TimelineState
  ft_FirstReported :: "TimelineBoundary option"
  ft_NoLongerReported :: "TimelineBoundary option"
  ft_Entries :: "TimelineEntry list"

text \<open>The check of a snapshot: it fails, or says whether the snapshot is held and lists the advisory.\<close>

type_synonym 'e snapshot_check = "DatabaseSnapshot \<Rightarrow> string \<Rightarrow> 'e + bool \<times> bool"

datatype 'e timeline_error = ReadingAdvisory string DatabaseSnapshot 'e

definition zero_finding :: VulnerabilityFinding where
  "zero_finding = \<lparr>f_ID = [], f_Aliases = [], f_Summary = [], f_Details = [], f_AffectedRange = [], f_FixedIn = [],
     f_Severity = None, f_AffectedSymbols = [], f_AffectedPackages = [], f_Reachable = None, f_NegativeSearch = None,
     f_AdvisoryNamesNoSymbols = False, f_ReachabilityNote = [], f_NotEstablished = False, f_TinyGoNote = [],
     f_References = [], f_PublishedAt = 0, f_ModifiedAt = 0, f_WithdrawnAt = 0\<rparr>"

definition zero_point :: TimelinePoint where
  "zero_point = \<lparr>tp_ScannedAt = 0, tp_PipelineVersion = [], tp_Snapshot = zero_snapshot, tp_Coverage = [], tp_ContentHash = []\<rparr>"

definition zero_entry :: TimelineEntry where
  "zero_entry = \<lparr>te_Kind = [], te_Reason = [], te_From = \<lparr>ts_Kind = [], ts_Reachability = None\<rparr>,
     te_To = \<lparr>ts_Kind = [], ts_Reachability = None\<rparr>, te_FromRecord = zero_point, te_ToRecord = zero_point, te_WithdrawnAt = 0\<rparr>"

subsection \<open>The state of an advisory in a record\<close>

text \<open>\<open>timelineOrder(a, b) < 0\<close>.\<close>

definition timelineOrder :: "VulnerabilityRecord \<Rightarrow> VulnerabilityRecord \<Rightarrow> bool" where
  "timelineOrder a b = (if vr_ScannedAt a \<noteq> vr_ScannedAt b then vr_ScannedAt a < vr_ScannedAt b
     else vr_ContentHash a < vr_ContentHash b)"

fun advisoryLoop ::
    "string \<Rightarrow> VulnerabilityFinding option \<Rightarrow> VulnerabilityFinding list \<Rightarrow> TimelineState \<times> VulnerabilityFinding" where
  "advisoryLoop fid withdrawn [] =
     (case withdrawn of Some w \<Rightarrow> (\<lparr>ts_Kind = TimelineWithdrawn, ts_Reachability = None\<rparr>, w)
      | None \<Rightarrow> (\<lparr>ts_Kind = TimelineNotReported, ts_Reachability = None\<rparr>, zero_finding))"
| "advisoryLoop fid withdrawn (f # fs) =
     (if f_ID f \<noteq> fid \<and> fid \<notin> set (f_Aliases f) then advisoryLoop fid withdrawn fs
      else if IsWithdrawn f then advisoryLoop fid (if withdrawn = None then Some f else withdrawn) fs
      else (\<lparr>ts_Kind = TimelineReported, ts_Reachability = Some (FindingReachabilityState f)\<rparr>, f))"

definition advisoryState :: "VulnerabilityRecord \<Rightarrow> string \<Rightarrow> TimelineState \<times> VulnerabilityFinding" where
  "advisoryState r fid = advisoryLoop fid None (vr_Findings r)"

definition timelinePoint :: "VulnerabilityRecord \<Rightarrow> TimelinePoint" where
  "timelinePoint r = \<lparr>tp_ScannedAt = vr_ScannedAt r, tp_PipelineVersion = vr_PipelineVersion r,
     tp_Snapshot = vr_DatabaseSnapshot r, tp_Coverage = fst (RecordAxes r), tp_ContentHash = vr_ContentHash r\<rparr>"

subsection \<open>Entries\<close>

definition advisoryAdded :: "DatabaseSnapshot \<Rightarrow> string \<Rightarrow> 'e snapshot_check \<Rightarrow> 'e timeline_error + bool" where
  "advisoryAdded snap advisory check =
     (if snapshot_IsZero snap \<or> ss_contentHash snap = [] then Inr False
      else case check snap advisory of
        Inl e \<Rightarrow> Inl (ReadingAdvisory advisory snap e)
      | Inr (held, listed) \<Rightarrow> Inr (held \<and> \<not> listed))"

definition timelineEntry ::
    "string \<Rightarrow> VulnerabilityRecord \<Rightarrow> VulnerabilityRecord \<Rightarrow> TimelineState \<Rightarrow> TimelineState \<Rightarrow> 'e snapshot_check
     \<Rightarrow> 'e timeline_error + TimelineEntry" where
  "timelineEntry fid prev cur from to check =
     (let e = zero_entry\<lparr>te_From := from, te_To := to, te_FromRecord := timelinePoint prev, te_ToRecord := timelinePoint cur\<rparr> in
      if vr_PipelineVersion prev \<noteq> vr_PipelineVersion cur then Inr (e\<lparr>te_Kind := TimelineGenerationDisagreement\<rparr>)
      else let e = e\<lparr>te_Kind := TimelineChange\<rparr>; finding = snd (advisoryState cur fid) in
        if ts_Kind to = TimelineWithdrawn then
          Inr (e\<lparr>te_Reason := ReasonWithdrawn, te_WithdrawnAt := f_WithdrawnAt finding\<rparr>)
        else if tp_Coverage (te_ToRecord e) \<noteq> CoverageAnalysed then Inr (e\<lparr>te_Reason := ReasonCoverageLost\<rparr>)
        else if ts_Kind from = TimelineReported \<and> ts_Kind to = TimelineReported then
          Inr (e\<lparr>te_Reason := ReasonReachabilityCorrected\<rparr>)
        else if ts_Kind from = TimelineNotReported \<and> ts_Kind to = TimelineReported then
          (case advisoryAdded (vr_DatabaseSnapshot prev) (f_ID finding) check of
             Inl err \<Rightarrow> Inl err
           | Inr added \<Rightarrow> Inr (e\<lparr>te_Reason := if added then ReasonAdvisoryAdded else ReasonUnattributed\<rparr>))
        else Inr (e\<lparr>te_Reason := ReasonUnattributed\<rparr>))"

text \<open>The loop over adjacent records, with the index each entry is filed under.\<close>

fun timelineEntries ::
    "string \<Rightarrow> 'e snapshot_check \<Rightarrow> nat \<Rightarrow> VulnerabilityRecord \<Rightarrow> TimelineState \<Rightarrow> (VulnerabilityRecord \<times> TimelineState) list
     \<Rightarrow> 'e timeline_error + (nat \<times> TimelineEntry) list" where
  "timelineEntries fid check i prev from [] = Inr []"
| "timelineEntries fid check i prev from ((cur, to) # rest) =
     (if timeline_String to = timeline_String from then timelineEntries fid check (Suc i) cur to rest
      else case timelineEntry fid prev cur from to check of
        Inl err \<Rightarrow> Inl err
      | Inr e \<Rightarrow> (case timelineEntries fid check (Suc i) cur to rest of
                  Inl err \<Rightarrow> Inl err | Inr es \<Rightarrow> Inr ((i, e) # es)))"

subsection \<open>Boundaries\<close>

fun firstReported :: "VulnerabilityRecord option \<Rightarrow> (VulnerabilityRecord \<times> TimelineState) list \<Rightarrow> TimelineBoundary option" where
  "firstReported prev [] = None"
| "firstReported prev ((r, s) # rest) =
     (if ts_Kind s \<noteq> TimelineReported then firstReported (Some r) rest
      else let b = \<lparr>tb_Record = timelinePoint r, tb_Previous = None, tb_AtOrBefore = True, tb_Established = True,
                    tb_Reason = [], tb_EntryKind = []\<rparr> in
        (case prev of
           Some p \<Rightarrow> if vr_PipelineVersion p = vr_PipelineVersion r \<and> tp_Coverage (timelinePoint p) = CoverageAnalysed
                     then Some (b\<lparr>tb_Previous := Some (timelinePoint p), tb_AtOrBefore := False\<rparr>) else Some b
         | None \<Rightarrow> Some b))"

fun lastReported :: "nat \<Rightarrow> nat option \<Rightarrow> TimelineState list \<Rightarrow> nat option" where
  "lastReported i found [] = found"
| "lastReported i found (s # ss) = lastReported (Suc i) (if ts_Kind s = TimelineReported then Some i else found) ss"

definition noLongerReported :: "TimelineState list \<Rightarrow> (nat \<rightharpoonup> TimelineEntry) \<Rightarrow> TimelineBoundary option" where
  "noLongerReported states entryAt =
     (case lastReported 0 None states of
        None \<Rightarrow> None
      | Some l \<Rightarrow> if l = length states - 1 then None
          else let e = (case entryAt (l + 1) of None \<Rightarrow> zero_entry | Some e \<Rightarrow> e) in
            Some \<lparr>tb_Record = te_ToRecord e, tb_Previous = None, tb_AtOrBefore = False,
                  tb_Established = (te_Kind e = TimelineChange \<and> te_Reason e \<noteq> ReasonCoverageLost),
                  tb_Reason = te_Reason e, tb_EntryKind = te_Kind e\<rparr>)"

subsection \<open>Timelines\<close>

definition buildOneTimeline ::
    "string \<Rightarrow> VulnerabilityRecord list \<Rightarrow> 'e snapshot_check \<Rightarrow> 'e timeline_error + FindingTimeline \<times> bool" where
  "buildOneTimeline fid records check =
     (let recs = stable_sort timelineOrder records;
          states = map (\<lambda>r. fst (advisoryState r fid)) recs;
          carried = (\<exists>s \<in> set states. ts_Kind s \<noteq> TimelineNotReported)
      in case timelineEntries fid check 1 (hd recs) (hd states) (tl (zip recs states)) of
           Inl err \<Rightarrow> Inl err
         | Inr entries \<Rightarrow> Inr (\<lparr>ft_Coordinate = vr_Coordinate (hd recs), ft_Rooting = vr_Rooting (hd recs),
               ft_RecordCount = length recs, ft_State = last states,
               ft_FirstReported = firstReported None (zip recs states),
               ft_NoLongerReported = noLongerReported states (map_of entries),
               ft_Entries = map snd entries\<rparr>, carried))"

definition timelineKey :: "VulnerabilityRecord \<Rightarrow> string" where
  "timelineKey r = coord_String (vr_Coordinate r) @ [CHR 0x00] @ vr_Rooting r"

fun timelinesOf ::
    "string \<Rightarrow> (string \<Rightarrow> VulnerabilityRecord list) \<Rightarrow> 'e snapshot_check \<Rightarrow> string list
     \<Rightarrow> 'e timeline_error + FindingTimeline list" where
  "timelinesOf fid groups check [] = Inr []"
| "timelinesOf fid groups check (k # ks) =
     (case buildOneTimeline fid (groups k) check of
        Inl err \<Rightarrow> Inl err
      | Inr (line, carried) \<Rightarrow> (case timelinesOf fid groups check ks of
          Inl err \<Rightarrow> Inl err
        | Inr out \<Rightarrow> Inr (if carried then line # out else out)))"

definition BuildFindingTimelines ::
    "string \<Rightarrow> VulnerabilityRecord list \<Rightarrow> 'e snapshot_check \<Rightarrow> 'e timeline_error + FindingTimeline list" where
  "BuildFindingTimelines fid records check =
     timelinesOf fid (\<lambda>k. filter (\<lambda>r. timelineKey r = k) records) check (sort (remdups (map timelineKey records)))"

subsection \<open>Facts on states\<close>

definition wf_state :: "TimelineState \<Rightarrow> bool" where
  "wf_state s \<longleftrightarrow> ts_Kind s \<in> {TimelineNotReported, TimelineReported, TimelineWithdrawn}
     \<and> (ts_Kind s = TimelineReported \<longleftrightarrow> ts_Reachability s \<noteq> None)"

lemma advisoryLoop_wf: "wf_state (fst (advisoryLoop fid w fs))"
  by (induction fid w fs rule: advisoryLoop.induct) (auto simp: wf_state_def split: option.split)

lemma advisoryState_wf [simp]: "wf_state (fst (advisoryState r fid))"
  by (simp add: advisoryState_def advisoryLoop_wf)

lemma timeline_String_inj:
  assumes "wf_state s" "wf_state t"
  shows "timeline_String s = timeline_String t \<longleftrightarrow> s = t"
proof -
  have forms: "u = \<lparr>ts_Kind = TimelineNotReported, ts_Reachability = None\<rparr>
      \<or> u = \<lparr>ts_Kind = TimelineWithdrawn, ts_Reachability = None\<rparr>
      \<or> (\<exists>r. u = \<lparr>ts_Kind = TimelineReported, ts_Reachability = Some r\<rparr>)" if "wf_state u" for u
    using that by (cases u) (auto simp: wf_state_def)
  have strings: "timeline_String \<lparr>ts_Kind = TimelineNotReported, ts_Reachability = None\<rparr> = ''not reported''"
    "timeline_String \<lparr>ts_Kind = TimelineWithdrawn, ts_Reachability = None\<rparr> = ''withdrawn''"
    "timeline_String \<lparr>ts_Kind = TimelineReported, ts_Reachability = Some r\<rparr> = ''reported ('' @ state_String r @ '')''" for r
    by (simp_all add: timeline_String_def)
  show ?thesis
    using forms [OF assms(1)] forms [OF assms(2)] by (elim disjE exE) (simp_all add: strings [simplified] state_String_inj)
qed

lemma advisoryLoop_reported:
  "ts_Kind (fst (advisoryLoop fid w fs)) = TimelineReported \<longleftrightarrow>
     (\<exists>f \<in> set fs. (f_ID f = fid \<or> fid \<in> set (f_Aliases f)) \<and> \<not> IsWithdrawn f)"
  by (induction fid w fs rule: advisoryLoop.induct) (auto split: option.split)

lemma advisoryLoop_not_reported:
  "ts_Kind (fst (advisoryLoop fid w fs)) = TimelineNotReported \<longleftrightarrow>
     w = None \<and> (\<forall>f \<in> set fs. f_ID f \<noteq> fid \<and> fid \<notin> set (f_Aliases f))"
  by (induction fid w fs rule: advisoryLoop.induct) (auto split: option.split)

subsection \<open>The story the entries tell\<close>

text \<open>Entries that lead from one state to another, each a real change.\<close>

fun leads :: "TimelineState \<Rightarrow> TimelineEntry list \<Rightarrow> TimelineState \<Rightarrow> bool" where
  "leads s [] t \<longleftrightarrow> s = t"
| "leads s (e # es) t \<longleftrightarrow> te_From e = s \<and> te_To e \<noteq> s \<and> leads (te_To e) es t"

definition sound_entry :: "string \<Rightarrow> 'e snapshot_check \<Rightarrow> VulnerabilityRecord \<Rightarrow> VulnerabilityRecord \<Rightarrow> TimelineEntry \<Rightarrow> bool" where
  "sound_entry fid check prev cur e \<longleftrightarrow>
     te_From e = fst (advisoryState prev fid) \<and> te_To e = fst (advisoryState cur fid)
     \<and> te_FromRecord e = timelinePoint prev \<and> te_ToRecord e = timelinePoint cur
     \<and> (te_Kind e = TimelineChange \<longleftrightarrow> vr_PipelineVersion prev = vr_PipelineVersion cur)
     \<and> (te_Reason e = ReasonCoverageLost \<longleftrightarrow> te_Kind e = TimelineChange \<and> ts_Kind (te_To e) \<noteq> TimelineWithdrawn
          \<and> fst (RecordAxes cur) \<noteq> CoverageAnalysed)
     \<and> (te_Reason e = ReasonAdvisoryAdded \<longrightarrow> ts_Kind (te_From e) = TimelineNotReported \<and> ts_Kind (te_To e) = TimelineReported
          \<and> fst (RecordAxes cur) = CoverageAnalysed
          \<and> (\<exists>i. check (vr_DatabaseSnapshot prev) i = Inr (True, False)))"

lemma zero_entry_reason [simp]: "te_Reason zero_entry = []"
  by (simp add: zero_entry_def)

lemma timelineEntry_cases:
  assumes "timelineEntry fid prev cur from to check = Inr e"
  shows "te_From e = from \<and> te_To e = to \<and> te_FromRecord e = timelinePoint prev \<and> te_ToRecord e = timelinePoint cur
    \<and> te_Kind e = (if vr_PipelineVersion prev = vr_PipelineVersion cur then TimelineChange else TimelineGenerationDisagreement)"
    (is ?fields)
    and "te_Reason e = ReasonCoverageLost \<longleftrightarrow> vr_PipelineVersion prev = vr_PipelineVersion cur
      \<and> ts_Kind to \<noteq> TimelineWithdrawn \<and> fst (RecordAxes cur) \<noteq> CoverageAnalysed" (is ?lost)
    and "te_Reason e = ReasonAdvisoryAdded \<longrightarrow> ts_Kind from = TimelineNotReported \<and> ts_Kind to = TimelineReported
      \<and> fst (RecordAxes cur) = CoverageAnalysed \<and> advisoryAdded (vr_DatabaseSnapshot prev) (f_ID (snd (advisoryState cur fid))) check = Inr True"
    (is ?added)
proof -
  define c where "c = fst (RecordAxes cur)"
  define id where "id = f_ID (snd (advisoryState cur fid))"
  define w where "w = f_WithdrawnAt (snd (advisoryState cur fid))"
  note code = assms [unfolded timelineEntry_def Let_def, folded id_def w_def]
  have point: "tp_Coverage (timelinePoint cur) = c" by (simp add: timelinePoint_def c_def)
  have "?fields \<and> ?lost \<and> ?added"
  proof (cases "vr_PipelineVersion prev = vr_PipelineVersion cur")
    case False
    then show ?thesis using code by auto
  next
    case same: True
    show ?thesis unfolding c_def [symmetric] id_def [symmetric]
    proof (cases "ts_Kind to = TimelineWithdrawn \<or> c \<noteq> CoverageAnalysed \<or> ts_Kind from \<noteq> TimelineNotReported \<or> ts_Kind to \<noteq> TimelineReported")
      case True
      then show "?fields \<and> (te_Reason e = ReasonCoverageLost \<longleftrightarrow> vr_PipelineVersion prev = vr_PipelineVersion cur
          \<and> ts_Kind to \<noteq> TimelineWithdrawn \<and> c \<noteq> CoverageAnalysed) \<and>
        (te_Reason e = ReasonAdvisoryAdded \<longrightarrow> ts_Kind from = TimelineNotReported \<and> ts_Kind to = TimelineReported
          \<and> c = CoverageAnalysed \<and> advisoryAdded (vr_DatabaseSnapshot prev) id check = Inr True)"
        using code same point by (auto split: if_splits)
    next
      case False
      then show "?fields \<and> (te_Reason e = ReasonCoverageLost \<longleftrightarrow> vr_PipelineVersion prev = vr_PipelineVersion cur
          \<and> ts_Kind to \<noteq> TimelineWithdrawn \<and> c \<noteq> CoverageAnalysed) \<and>
        (te_Reason e = ReasonAdvisoryAdded \<longrightarrow> ts_Kind from = TimelineNotReported \<and> ts_Kind to = TimelineReported
          \<and> c = CoverageAnalysed \<and> advisoryAdded (vr_DatabaseSnapshot prev) id check = Inr True)"
        using code same point by (auto split: sum.splits if_splits)
    qed
  qed
  then show ?fields ?lost ?added by blast+
qed

lemma advisoryAdded_held: "advisoryAdded snap i check = Inr True \<Longrightarrow> check snap i = Inr (True, False)"
  by (auto simp: advisoryAdded_def split: if_splits sum.splits prod.splits)

lemma timelineEntry_sound:
  assumes "timelineEntry fid prev cur (fst (advisoryState prev fid)) (fst (advisoryState cur fid)) check = Inr e"
  shows "sound_entry fid check prev cur e"
  using timelineEntry_cases [OF assms] advisoryAdded_held unfolding sound_entry_def by (auto split: if_splits)

definition state_in :: "string \<Rightarrow> VulnerabilityRecord \<Rightarrow> TimelineState" where
  "state_in fid r = fst (advisoryState r fid)"

text \<open>What the entries filed from index \<open>i\<close> on say of the records after \<open>p\<close>.\<close>

definition told ::
    "string \<Rightarrow> 'e snapshot_check \<Rightarrow> nat \<Rightarrow> VulnerabilityRecord \<Rightarrow> VulnerabilityRecord list \<Rightarrow> (nat \<times> TimelineEntry) list \<Rightarrow> bool" where
  "told fid check i p rs es \<longleftrightarrow>
     leads (state_in fid p) (map snd es) (state_in fid (last (p # rs)))
     \<and> distinct (map fst es)
     \<and> (\<forall>(k, e) \<in> set es. \<exists>j < length rs. k = i + j)
     \<and> (\<forall>j < length rs. (state_in fid (rs ! j) = state_in fid ((p # rs) ! j) \<longrightarrow> (\<forall>e. (i + j, e) \<notin> set es))
          \<and> (state_in fid (rs ! j) \<noteq> state_in fid ((p # rs) ! j) \<longrightarrow>
               (\<exists>e. (i + j, e) \<in> set es \<and> sound_entry fid check ((p # rs) ! j) (rs ! j) e)))"

lemma told_skip:
  assumes "told fid check (Suc i) r rs es" "state_in fid r = state_in fid p"
  shows "told fid check i p (r # rs) es"
  unfolding told_def
proof (intro conjI allI impI ballI)
  have below: "(i, e) \<notin> set es" for e using assms(1) by (fastforce simp: told_def)
  fix j assume j: "j < length (r # rs)"
  show "(i + j, e) \<notin> set es" if "state_in fid ((r # rs) ! j) = state_in fid ((p # r # rs) ! j)" for e
    using assms below j that by (cases j) (auto simp: told_def)
  show "\<exists>e. (i + j, e) \<in> set es \<and> sound_entry fid check ((p # r # rs) ! j) ((r # rs) ! j) e"
    if "state_in fid ((r # rs) ! j) \<noteq> state_in fid ((p # r # rs) ! j)"
    using that
    using assms j by (cases j) (auto simp: told_def)
next
  fix x assume "x \<in> set es"
  then obtain j where "j < length rs" "fst x = Suc i + j" using assms(1) by (fastforce simp: told_def)
  then have "Suc j < length (r # rs) \<and> fst x = i + Suc j" by simp
  then show "case x of (k, e) \<Rightarrow> \<exists>j<length (r # rs). k = i + j" by (auto simp: split_beta)
qed (use assms in \<open>auto simp: told_def\<close>)

lemma told_entry:
  assumes "told fid check (Suc i) r rs es" "state_in fid r \<noteq> state_in fid p" "sound_entry fid check p r e"
  shows "told fid check i p (r # rs) ((i, e) # es)"
  unfolding told_def
proof (intro conjI allI impI ballI)
  have below: "(i, e) \<notin> set es" for e using assms(1) by (fastforce simp: told_def)
  then show "distinct (map fst ((i, e) # es))" using assms(1) by (auto simp: told_def)
  show "leads (state_in fid p) (map snd ((i, e) # es)) (state_in fid (last (p # r # rs)))"
    using assms by (auto simp: told_def sound_entry_def state_in_def)
  fix j assume j: "j < length (r # rs)"
  show "(i + j, e') \<notin> set ((i, e) # es)" if "state_in fid ((r # rs) ! j) = state_in fid ((p # r # rs) ! j)" for e'
    using assms below j that by (cases j) (auto simp: told_def)
  show "\<exists>e'. (i + j, e') \<in> set ((i, e) # es) \<and> sound_entry fid check ((p # r # rs) ! j) ((r # rs) ! j) e'"
    if "state_in fid ((r # rs) ! j) \<noteq> state_in fid ((p # r # rs) ! j)"
    using that
    using assms j by (cases j) (auto simp: told_def)
next
  fix x assume "x \<in> set ((i, e) # es)"
  then have "x = (i, e) \<or> (\<exists>j < length rs. fst x = Suc i + j)" using assms(1) by (fastforce simp: told_def)
  then have "\<exists>j < length (r # rs). fst x = i + j"
  proof
    assume "\<exists>j < length rs. fst x = Suc i + j"
    then obtain j where "j < length rs" "fst x = Suc i + j" by blast
    then have "Suc j < length (r # rs) \<and> fst x = i + Suc j" by simp
    then show ?thesis by blast
  qed auto
  then show "case x of (k, e) \<Rightarrow> \<exists>j<length (r # rs). k = i + j" by (auto simp: split_beta)
qed

lemma timelineEntries_told:
  assumes "timelineEntries fid check i p (state_in fid p) (map (\<lambda>r. (r, state_in fid r)) rs) = Inr es"
  shows "told fid check i p rs es"
  using assms
proof (induction rs arbitrary: i p es)
  case Nil
  then show ?case by (simp add: told_def)
next
  case (Cons r rs)
  have str: "timeline_String (state_in fid r) = timeline_String (state_in fid p) \<longleftrightarrow> state_in fid r = state_in fid p"
    by (rule timeline_String_inj) (simp_all add: state_in_def)
  show ?case
  proof (cases "state_in fid r = state_in fid p")
    case True
    then have "timelineEntries fid check (Suc i) r (state_in fid r) (map (\<lambda>r. (r, state_in fid r)) rs) = Inr es"
      using Cons.prems by simp
    then show ?thesis using Cons.IH told_skip True by blast
  next
    case False
    then obtain e es' where e: "timelineEntry fid p r (state_in fid p) (state_in fid r) check = Inr e"
      and es': "timelineEntries fid check (Suc i) r (state_in fid r) (map (\<lambda>r. (r, state_in fid r)) rs) = Inr es'"
      and es: "es = (i, e) # es'"
      using Cons.prems str by (auto split: sum.splits)
    have "sound_entry fid check p r e" using timelineEntry_sound e unfolding state_in_def by blast
    then show ?thesis unfolding es using told_entry [OF Cons.IH [OF es'] False] by blast
  qed
qed

abbreviation reported :: "TimelineState \<Rightarrow> bool" where
  "reported s \<equiv> ts_Kind s = TimelineReported"

lemma lastReported_None: "\<forall>s \<in> set ss. \<not> reported s \<Longrightarrow> lastReported i found ss = found"
  by (induction i found ss rule: lastReported.induct) auto

lemma lastReported_Some:
  "\<exists>s \<in> set ss. reported s \<Longrightarrow> \<exists>j < length ss. lastReported i found ss = Some (i + j) \<and> reported (ss ! j)
     \<and> (\<forall>k. j < k \<and> k < length ss \<longrightarrow> \<not> reported (ss ! k))"
proof (induction ss arbitrary: i found)
  case Nil
  then show ?case by simp
next
  case (Cons s ss)
  show ?case
  proof (cases "\<exists>s \<in> set ss. reported s")
    case True
    from Cons.IH [OF True, of "Suc i" "if reported s then Some i else found"] obtain j where
      "j < length ss" "lastReported i found (s # ss) = Some (i + Suc j)" "reported (ss ! j)"
      "\<forall>k. j < k \<and> k < length ss \<longrightarrow> \<not> reported (ss ! k)" by auto
    then show ?thesis by (intro exI [of _ "Suc j"]) (auto simp: nth_Cons split: nat.split)
  next
    case False
    then have "reported s" using Cons.prems by simp
    with False lastReported_None [of ss "Suc i" "Some i"] show ?thesis
      by (intro exI [of _ 0]) (auto simp: nth_Cons split: nat.split)
  qed
qed

lemma firstReported_spec:
  "firstReported prev (map (\<lambda>r. (r, state_in fid r)) rs) = Some b \<Longrightarrow>
     \<exists>us r vs. rs = us @ r # vs \<and> (\<forall>u \<in> set us. \<not> reported (state_in fid u)) \<and> reported (state_in fid r)
       \<and> tb_Record b = timelinePoint r
       \<and> (\<not> tb_AtOrBefore b \<longrightarrow> (us \<noteq> [] \<or> prev \<noteq> None) \<and> (let p = (if us = [] then the prev else last us) in
            vr_PipelineVersion p = vr_PipelineVersion r \<and> fst (RecordAxes p) = CoverageAnalysed
            \<and> tb_Previous b = Some (timelinePoint p)))"
proof (induction rs arbitrary: prev)
  case Nil
  then show ?case by simp
next
  case (Cons r rs)
  show ?case
  proof (cases "reported (state_in fid r)")
    case True
    then have "tb_Record b = timelinePoint r \<and> (\<not> tb_AtOrBefore b \<longrightarrow> prev \<noteq> None \<and>
        vr_PipelineVersion (the prev) = vr_PipelineVersion r \<and> fst (RecordAxes (the prev)) = CoverageAnalysed
        \<and> tb_Previous b = Some (timelinePoint (the prev)))"
      using Cons.prems by (cases prev) (auto simp: Let_def timelinePoint_def split: if_splits)
    with True show ?thesis by (intro exI [of _ "[]"] exI [of _ r] exI [of _ rs]) simp
  next
    case False
    then have "firstReported (Some r) (map (\<lambda>r. (r, state_in fid r)) rs) = Some b" using Cons.prems by simp
    from Cons.IH [OF this] obtain us r' vs where ih: "rs = us @ r' # vs" "\<forall>u \<in> set us. \<not> reported (state_in fid u)"
      "reported (state_in fid r')" "tb_Record b = timelinePoint r'"
      "\<not> tb_AtOrBefore b \<longrightarrow> (let p = (if us = [] then r else last us) in
            vr_PipelineVersion p = vr_PipelineVersion r' \<and> fst (RecordAxes p) = CoverageAnalysed
            \<and> tb_Previous b = Some (timelinePoint p))" by (metis option.sel)
    then show ?thesis using False by (intro exI [of _ "r # us"] exI [of _ r'] exI [of _ vs]) (auto simp: Let_def)
  qed
qed

lemma noLongerReported_spec:
  fixes st rs fid es
  defines "n \<equiv> length rs" and "st \<equiv> \<lambda>i. state_in fid (rs ! i)"
  assumes told: "told fid check 1 (hd rs) (tl rs) es" and ne: "rs \<noteq> []"
    and b: "B = noLongerReported (map (state_in fid) rs) (map_of es)"
  shows "B = None \<longleftrightarrow> (\<forall>j < n. \<not> reported (st j)) \<or> reported (st (n - 1))"
    and "B = Some b \<Longrightarrow>
       \<exists>i. Suc i < n \<and> reported (st i) \<and> (\<forall>j. i < j \<and> j < n \<longrightarrow> \<not> reported (st j)) \<and> tb_Record b = timelinePoint (rs ! Suc i)
             \<and> (tb_Established b \<longleftrightarrow> vr_PipelineVersion (rs ! i) = vr_PipelineVersion (rs ! Suc i)
                  \<and> (ts_Kind (st (Suc i)) = TimelineWithdrawn \<or> fst (RecordAxes (rs ! Suc i)) = CoverageAnalysed))"
proof -
  have some: "(\<exists>s \<in> set (map (state_in fid) rs). reported s) \<longleftrightarrow> (\<exists>j < n. reported (st j))"
    unfolding n_def st_def by (metis length_map in_set_conv_nth nth_map)
  have "(B = None \<longleftrightarrow> (\<forall>j < n. \<not> reported (st j)) \<or> reported (st (n - 1))) \<and> (\<forall>b. B = Some b \<longrightarrow>
       (\<exists>i. Suc i < n \<and> reported (st i) \<and> (\<forall>j. i < j \<and> j < n \<longrightarrow> \<not> reported (st j)) \<and> tb_Record b = timelinePoint (rs ! Suc i)
             \<and> (tb_Established b \<longleftrightarrow> vr_PipelineVersion (rs ! i) = vr_PipelineVersion (rs ! Suc i)
                  \<and> (ts_Kind (st (Suc i)) = TimelineWithdrawn \<or> fst (RecordAxes (rs ! Suc i)) = CoverageAnalysed))))"
  proof (cases "\<exists>j < n. reported (st j)")
    case False
    then have "lastReported 0 None (map (state_in fid) rs) = None" using lastReported_None some by blast
    then have "B = None" by (simp add: b noLongerReported_def)
    then show ?thesis using False by blast
  next
    case True
    then obtain i where i: "i < n" "lastReported 0 None (map (state_in fid) rs) = Some i" "reported (st i)"
      "\<forall>k. i < k \<and> k < n \<longrightarrow> \<not> reported (st k)"
      using lastReported_Some [of "map (state_in fid) rs" 0 None] some by (auto simp: n_def st_def)
    show ?thesis
    proof (cases "i = n - 1")
      case True
      then have "B = None" unfolding b noLongerReported_def by (simp add: i(2)) (simp add: n_def)
      then show ?thesis using True i by blast
    next
      case False
      then have Si: "Suc i < n" using i(1) by simp
      then have j: "i < length (tl rs)" "tl rs ! i = rs ! Suc i" "(hd rs # tl rs) ! i = rs ! i"
        using ne by (simp_all add: n_def nth_tl)
      have "\<not> reported (st (Suc i))" using i(4) Si by simp
      then have "state_in fid (tl rs ! i) \<noteq> state_in fid ((hd rs # tl rs) ! i)" using i(3) j by (auto simp: st_def)
      then obtain e where e: "(1 + i, e) \<in> set es" "sound_entry fid check (rs ! i) (rs ! Suc i) e"
        using told j unfolding told_def by metis
      have "map_of es (Suc i) = Some e" using e(1) told unfolding told_def by (metis map_of_is_SomeI plus_1_eq_Suc)
      then have B: "B = Some \<lparr>tb_Record = te_ToRecord e, tb_Previous = None, tb_AtOrBefore = False,
                  tb_Established = (te_Kind e = TimelineChange \<and> te_Reason e \<noteq> ReasonCoverageLost),
                  tb_Reason = te_Reason e, tb_EntryKind = te_Kind e\<rparr>"
        unfolding b noLongerReported_def using False by (simp add: i(2)) (simp add: n_def)
      have est: "te_Kind e = TimelineChange \<and> te_Reason e \<noteq> ReasonCoverageLost \<longleftrightarrow>
          vr_PipelineVersion (rs ! i) = vr_PipelineVersion (rs ! Suc i)
          \<and> (ts_Kind (st (Suc i)) = TimelineWithdrawn \<or> fst (RecordAxes (rs ! Suc i)) = CoverageAnalysed)"
        using e(2) unfolding sound_entry_def st_def state_in_def by metis
      have "te_ToRecord e = timelinePoint (rs ! Suc i)" using e(2) unfolding sound_entry_def by blast
      then have fields: "tb_Record b' = timelinePoint (rs ! Suc i)
          \<and> (tb_Established b' \<longleftrightarrow> vr_PipelineVersion (rs ! i) = vr_PipelineVersion (rs ! Suc i)
             \<and> (ts_Kind (st (Suc i)) = TimelineWithdrawn \<or> fst (RecordAxes (rs ! Suc i)) = CoverageAnalysed))"
        if "B = Some b'" for b'
        using that unfolding B option.inject by (elim subst) (use est in \<open>simp only: TimelineBoundary.select_convs\<close>)
      have "\<not> reported (st (n - 1))" "B \<noteq> None" using i(4) Si False B by simp_all
      then show ?thesis using fields i Si by blast
    qed
  qed
  then show "B = None \<longleftrightarrow> (\<forall>j < n. \<not> reported (st j)) \<or> reported (st (n - 1))"
    "B = Some b \<Longrightarrow>
       \<exists>i. Suc i < n \<and> reported (st i) \<and> (\<forall>j. i < j \<and> j < n \<longrightarrow> \<not> reported (st j)) \<and> tb_Record b = timelinePoint (rs ! Suc i)
             \<and> (tb_Established b \<longleftrightarrow> vr_PipelineVersion (rs ! i) = vr_PipelineVersion (rs ! Suc i)
                  \<and> (ts_Kind (st (Suc i)) = TimelineWithdrawn \<or> fst (RecordAxes (rs ! Suc i)) = CoverageAnalysed))"
    by blast+
qed

lemma buildOneTimeline_carried:
  assumes "buildOneTimeline fid records check = Inr (line, carried)"
  shows "carried \<longleftrightarrow> (\<exists>r \<in> set records. \<exists>f \<in> set (vr_Findings r). f_ID f = fid \<or> fid \<in> set (f_Aliases f))"
proof -
  have "carried \<longleftrightarrow> (\<exists>r \<in> set (stable_sort timelineOrder records). ts_Kind (fst (advisoryState r fid)) \<noteq> TimelineNotReported)"
    using assms unfolding buildOneTimeline_def Let_def by (auto simp del: TimelineNotReported_def split: sum.splits)
  then show ?thesis unfolding advisoryState_def advisoryLoop_not_reported by simp
qed

text \<open>
  C12: a timeline tells the whole story of an advisory and overstates nothing.  Over the records in
  scan order, its entries lead from the first record's state to the last's, one for each adjacent
  pair that differs; a first report that is not "at or before" follows an analysed record of the
  same pipeline; a "no longer reported" boundary exists exactly when the advisory was reported and
  no longer is, at the record after the last report, and is established only when that record is of
  the same pipeline and either withdraws the advisory or was analysed.
\<close>

theorem timeline_tells_the_story:
  assumes "records \<noteq> []" "buildOneTimeline fid records check = Inr (line, carried)"
  shows "let rs = stable_sort timelineOrder records; st = (\<lambda>i. state_in fid (rs ! i)); n = length rs in
     leads (st 0) (ft_Entries line) (ft_State line)
     \<and> ft_State line = st (n - 1)
     \<and> length (ft_Entries line) = card {j. Suc j < n \<and> st (Suc j) \<noteq> st j}
     \<and> (carried \<longleftrightarrow> (\<exists>r \<in> set records. \<exists>f \<in> set (vr_Findings r). f_ID f = fid \<or> fid \<in> set (f_Aliases f)))
     \<and> (\<forall>b. ft_FirstReported line = Some b \<and> \<not> tb_AtOrBefore b \<longrightarrow>
          (\<exists>i. Suc i < n \<and> (\<forall>j \<le> i. \<not> reported (st j)) \<and> reported (st (Suc i)) \<and> tb_Record b = timelinePoint (rs ! Suc i)
             \<and> vr_PipelineVersion (rs ! i) = vr_PipelineVersion (rs ! Suc i) \<and> fst (RecordAxes (rs ! i)) = CoverageAnalysed))
     \<and> (ft_NoLongerReported line = None \<longleftrightarrow> (\<forall>j < n. \<not> reported (st j)) \<or> reported (st (n - 1)))
     \<and> (\<forall>b. ft_NoLongerReported line = Some b \<longrightarrow>
          (\<exists>i. Suc i < n \<and> reported (st i) \<and> (\<forall>j. i < j \<and> j < n \<longrightarrow> \<not> reported (st j)) \<and> tb_Record b = timelinePoint (rs ! Suc i)
             \<and> (tb_Established b \<longleftrightarrow> vr_PipelineVersion (rs ! i) = vr_PipelineVersion (rs ! Suc i)
                  \<and> (ts_Kind (st (Suc i)) = TimelineWithdrawn \<or> fst (RecordAxes (rs ! Suc i)) = CoverageAnalysed))))"
proof -
  define rs where "rs = stable_sort timelineOrder records"
  define st where "st = (\<lambda>i. state_in fid (rs ! i))"
  define n where "n = length rs"
  have ne: "rs \<noteq> []" using assms(1) by (simp add: rs_def)
  then obtain p rest where rs: "rs = p # rest" by (cases rs) auto
  have states: "map (\<lambda>r. fst (advisoryState r fid)) rs = map (state_in fid) rs" by (simp add: state_in_def)
  have zip: "zip rs (map (state_in fid) rs) = map (\<lambda>r. (r, state_in fid r)) rs" by (simp add: zip_map2 zip_same_conv_map)
  obtain es where es: "timelineEntries fid check 1 p (state_in fid p) (map (\<lambda>r. (r, state_in fid r)) rest) = Inr es"
    and line: "ft_State line = last (map (state_in fid) rs)" "ft_Entries line = map snd es"
      "ft_FirstReported line = firstReported None (map (\<lambda>r. (r, state_in fid r)) rs)"
      "ft_NoLongerReported line = noLongerReported (map (state_in fid) rs) (map_of es)"
      "carried = (\<exists>s \<in> set (map (state_in fid) rs). ts_Kind s \<noteq> TimelineNotReported)"
    using assms(2) unfolding buildOneTimeline_def Let_def rs_def [symmetric] states zip
    by (auto simp: rs split: sum.splits)
  note told = timelineEntries_told [OF es, unfolded told_def]
  have nth: "st (Suc j) = state_in fid (rest ! j)" "st j = state_in fid ((p # rest) ! j)" if "j < length rest" for j
    using that by (simp_all add: st_def rs)
  have n: "n = Suc (length rest)" by (simp add: n_def rs)
  have last: "ft_State line = st (n - 1)"
    by (simp add: line st_def n_def last_map ne last_conv_nth)
  have "last (p # rest) = rs ! (n - 1)" by (simp add: rs n_def last_conv_nth)
  then have leads: "leads (st 0) (ft_Entries line) (ft_State line)"
    using told last by (simp add: line st_def rs n_def)
  have entry: "(\<exists>e. (Suc j, e) \<in> set es) \<longleftrightarrow> st (Suc j) \<noteq> st j" if "j < length rest" for j
  proof -
    have "state_in fid (rest ! j) = state_in fid ((p # rest) ! j) \<Longrightarrow> \<forall>e. (1 + j, e) \<notin> set es"
      "state_in fid (rest ! j) \<noteq> state_in fid ((p # rest) ! j) \<Longrightarrow> \<exists>e. (1 + j, e) \<in> set es"
      using told that by blast+
    then show ?thesis using nth [OF that] by auto
  qed
  have "fst ` set es = Suc ` {j. Suc j < n \<and> st (Suc j) \<noteq> st j}"
  proof (rule set_eqI)
    fix k
    have "k \<in> fst ` set es \<longleftrightarrow> (\<exists>e. (k, e) \<in> set es)" by force
    also have "\<dots> \<longleftrightarrow> (\<exists>j < length rest. k = Suc j \<and> (\<exists>e. (Suc j, e) \<in> set es))" using told by fastforce
    also have "\<dots> \<longleftrightarrow> k \<in> Suc ` {j. Suc j < n \<and> st (Suc j) \<noteq> st j}" using entry n by auto
    finally show "k \<in> fst ` set es \<longleftrightarrow> k \<in> Suc ` {j. Suc j < n \<and> st (Suc j) \<noteq> st j}" .
  qed
  moreover have "length (ft_Entries line) = card (fst ` set es)"
    using told distinct_card [of "map fst es"] by (simp add: line)
  ultimately have count: "length (ft_Entries line) = card {j. Suc j < n \<and> st (Suc j) \<noteq> st j}"
    by (simp add: card_image)
  have carried: "carried \<longleftrightarrow> (\<exists>r \<in> set records. \<exists>f \<in> set (vr_Findings r). f_ID f = fid \<or> fid \<in> set (f_Aliases f))"
    by (rule buildOneTimeline_carried [OF assms(2)])
  have first: "\<exists>i. Suc i < n \<and> (\<forall>j \<le> i. \<not> reported (st j)) \<and> reported (st (Suc i)) \<and> tb_Record b = timelinePoint (rs ! Suc i)
             \<and> vr_PipelineVersion (rs ! i) = vr_PipelineVersion (rs ! Suc i) \<and> fst (RecordAxes (rs ! i)) = CoverageAnalysed"
    if h: "ft_FirstReported line = Some b" "\<not> tb_AtOrBefore b" for b
  proof -
    obtain us r vs where f: "rs = us @ r # vs" "\<forall>u \<in> set us. \<not> reported (state_in fid u)" "reported (state_in fid r)"
      "tb_Record b = timelinePoint r"
      and at: "\<not> tb_AtOrBefore b \<longrightarrow> (us \<noteq> [] \<or> (None :: VulnerabilityRecord option) \<noteq> None) \<and> (let p = (if us = [] then the None else last us) in
            vr_PipelineVersion p = vr_PipelineVersion r \<and> fst (RecordAxes p) = CoverageAnalysed
            \<and> tb_Previous b = Some (timelinePoint p))"
      using firstReported_spec [OF h(1) [unfolded line(3)]] by blast
    from at h(2) have us: "us \<noteq> []" "vr_PipelineVersion (last us) = vr_PipelineVersion r"
      "fst (RecordAxes (last us)) = CoverageAnalysed" by (auto simp: Let_def split: if_splits)
    note f = f us
    from us(1) obtain i where i: "length us = Suc i" by (cases us) auto
    have "rs ! i = last us" "rs ! Suc i = r" "Suc i < n"
      using f(1,5) i by (simp_all add: nth_append last_conv_nth n_def)
    moreover have "\<forall>j \<le> i. \<not> reported (st j)"
      using f(1,2) i by (auto simp: st_def nth_append)
    ultimately show ?thesis using f by (intro exI [of _ i]) (simp add: st_def)
  qed
  have "told fid check 1 (hd rs) (tl rs) es" using timelineEntries_told [OF es] by (simp add: rs)
  note boundary = noLongerReported_spec [OF this ne line(4), folded n_def st_def]
  show ?thesis
    unfolding Let_def rs_def [symmetric] n_def [symmetric]
    using leads last count carried first boundary unfolding st_def by blast
qed

definition timeline_records :: "VulnerabilityRecord list" where
  "timeline_records =
     [example_vuln_record\<lparr>vr_Findings := [example_finding], vr_ScannedAt := 6, vr_ContentHash := ''sha256:02''\<rparr>,
      example_vuln_record]"

theorem timeline_tells_the_story_witness:
  "case buildOneTimeline ''GO-2024-0001'' timeline_records (\<lambda>s i. Inr (True, False) :: unit + bool \<times> bool) of
     Inl e \<Rightarrow> False | Inr (line, carried) \<Rightarrow> carried \<and> length (ft_Entries line) = card {j. Suc j < 2 \<and> j = (0::nat)}"
proof -
  let ?check = "\<lambda>s i. Inr (True, False) :: unit + bool \<times> bool"
  have sorted: "stable_sort timelineOrder timeline_records = rev timeline_records"
    by (simp add: timeline_records_def timelineOrder_def example_vuln_record_def)
  have states: "state_in ''GO-2024-0001'' (rev timeline_records ! 0) = \<lparr>ts_Kind = ''not_reported'', ts_Reachability = None\<rparr>"
    "ts_Kind (state_in ''GO-2024-0001'' (rev timeline_records ! Suc 0)) = ''reported''"
    by (simp_all add: state_in_def advisoryState_def timeline_records_def example_vuln_record_def example_finding_def IsWithdrawn_def)
  obtain line carried where built: "buildOneTimeline ''GO-2024-0001'' timeline_records ?check = Inr (line, carried)"
    unfolding buildOneTimeline_def Let_def sorted
    by (cases "timelineEntries ''GO-2024-0001'' ?check 1 (hd (rev timeline_records))
          (hd (map (\<lambda>r. fst (advisoryState r ''GO-2024-0001'')) (rev timeline_records)))
          (tl (zip (rev timeline_records) (map (\<lambda>r. fst (advisoryState r ''GO-2024-0001'')) (rev timeline_records))))")
      (auto simp: timeline_records_def timelineEntry_def advisoryAdded_def Let_def split: if_splits)
  have two: "length timeline_records = 2" "timeline_records \<noteq> []" by (simp_all add: timeline_records_def)
  have "carried" using timeline_tells_the_story [OF two(2) built]
    by (simp add: Let_def sorted two) (simp add: timeline_records_def example_finding_def)
  moreover have "{j. Suc j < 2 \<and> state_in ''GO-2024-0001'' (rev timeline_records ! Suc j) \<noteq> state_in ''GO-2024-0001'' (rev timeline_records ! j)}
      = {j. Suc j < 2 \<and> j = (0::nat)}"
    using states by (auto simp: less_Suc_eq)
  ultimately show ?thesis using timeline_tells_the_story [OF two(2) built] built
    by (simp add: Let_def sorted two)
qed

text \<open>
  One timeline per coordinate and frame that ever carried the advisory.  When the snapshot checks
  answer, the timelines are those of the groups of records of one key some record of which names
  the advisory, one each, in key order.
\<close>

theorem one_timeline_per_carrier:
  assumes "BuildFindingTimelines fid records check = Inr lines"
  shows "map Inr lines = map (\<lambda>k. map_sum id fst (buildOneTimeline fid (filter (\<lambda>r. timelineKey r = k) records) check))
      (filter (\<lambda>k. \<exists>r \<in> set records. timelineKey r = k \<and>
          (\<exists>f \<in> set (vr_Findings r). f_ID f = fid \<or> fid \<in> set (f_Aliases f)))
        (sort (remdups (map timelineKey records))))"
proof -
  have gen: "timelinesOf fid (\<lambda>k. filter (\<lambda>r. timelineKey r = k) records) check ks = Inr out \<Longrightarrow>
      set ks \<subseteq> timelineKey ` set records \<Longrightarrow>
      map Inr out = map (\<lambda>k. map_sum id fst (buildOneTimeline fid (filter (\<lambda>r. timelineKey r = k) records) check))
      (filter (\<lambda>k. \<exists>r \<in> set records. timelineKey r = k \<and>
          (\<exists>f \<in> set (vr_Findings r). f_ID f = fid \<or> fid \<in> set (f_Aliases f))) ks)" for ks out
  proof (induction ks arbitrary: out)
    case Nil
    then show ?case by simp
  next
    case (Cons k ks)
    let ?rs = "filter (\<lambda>r. timelineKey r = k) records"
    from Cons.prems obtain line c out' where one: "buildOneTimeline fid ?rs check = Inr (line, c)"
      and rest: "timelinesOf fid (\<lambda>k. filter (\<lambda>r. timelineKey r = k) records) check ks = Inr out'"
      and out: "out = (if c then line # out' else out')"
      by (auto split: sum.splits prod.splits)
    have "c \<longleftrightarrow> (\<exists>r \<in> set records. timelineKey r = k \<and> (\<exists>f \<in> set (vr_Findings r). f_ID f = fid \<or> fid \<in> set (f_Aliases f)))"
      unfolding buildOneTimeline_carried [OF one] by auto
    then show ?case using Cons.IH [OF rest] Cons.prems(2) out one by simp
  qed
  have keys: "set (sort (remdups (map timelineKey records))) \<subseteq> timelineKey ` set records" by simp
  show ?thesis by (rule gen [OF assms [unfolded BuildFindingTimelines_def] keys])
qed

theorem one_timeline_per_carrier_witness:
  "BuildFindingTimelines ''X'' [example_vuln_record] (\<lambda>s i. Inl () :: unit + bool \<times> bool) = Inr []"
proof -
  obtain lines where l: "BuildFindingTimelines ''X'' [example_vuln_record] (\<lambda>s i. Inl () :: unit + bool \<times> bool) = Inr lines"
    by (simp add: BuildFindingTimelines_def buildOneTimeline_def Let_def)
  have "map Inr lines = ([] :: (unit timeline_error + FindingTimeline) list)"
    using one_timeline_per_carrier [OF l] by (simp add: example_vuln_record_def)
  with l show ?thesis by simp
qed

end
