(* ===== verification/Vuln_Toolchain.thy ===== *)
theory Vuln_Toolchain
  imports Version_Order Vuln_Types
begin

text \<open>
  The judgment of a build toolchain's version against the advisories of a snapshot (\<open>toolchain.go\<close>).
  \<open>golang.org/x/mod/semver\<close> is not in the repository: \<open>IsValid\<close> and \<open>Compare\<close> are parameters.
\<close>

subsection \<open>Advisories and judgments\<close>

record ToolchainRange =
  tr_Introduced :: string
  tr_Fixed :: string

record ToolchainAdvisory =
  ta_ID :: string
  ta_Summary :: string
  ta_Ranges :: "ToolchainRange list"
  ta_WithdrawnAt :: instant

definition toolchain_IsWithdrawn :: "ToolchainAdvisory \<Rightarrow> bool" where
  "toolchain_IsWithdrawn a \<longleftrightarrow> ta_WithdrawnAt a \<noteq> zero_time"

record ToolchainAdvisorySet =
  as_KeyPresent :: bool
  as_Advisories :: "ToolchainAdvisory list"

type_synonym ToolchainJudgmentStatus = string

definition ToolchainClear :: ToolchainJudgmentStatus where [simp]: "ToolchainClear = ''clear''"
definition ToolchainAffected :: ToolchainJudgmentStatus where [simp]: "ToolchainAffected = ''affected''"
definition ToolchainWithdrawn :: ToolchainJudgmentStatus where [simp]: "ToolchainWithdrawn = ''withdrawn''"
definition ToolchainUnjudged :: ToolchainJudgmentStatus where [simp]: "ToolchainUnjudged = ''unjudged''"

record TinyGoToolchain =
  tt_Version :: string
  tt_TinyGoPackages :: int
  tt_StandardPackages :: int

record ToolchainJudgment =
  tj_Version :: string
  tj_Snapshot :: DatabaseSnapshot
  tj_Status :: ToolchainJudgmentStatus
  tj_Covering :: "ToolchainAdvisory list"
  tj_WithdrawnCovering :: "ToolchainAdvisory list"
  tj_Judged :: nat
  tj_Reason :: string
  tj_TinyGo :: "TinyGoToolchain option"

definition ToolchainReasonNoVersion :: string where
  [simp]: "ToolchainReasonNoVersion = ''the walk recorded no build toolchain version''"
definition ToolchainReasonNoSnapshot :: string where
  [simp]: "ToolchainReasonNoSnapshot = ''no advisory database snapshot is stored''"
definition ToolchainReasonNoKey :: string where
  [simp]: "ToolchainReasonNoKey = ''the snapshot's module index carries no toolchain key''"
definition ToolchainReasonUncomparable :: string where
  [simp]: "ToolchainReasonUncomparable = ''the recorded toolchain version is not comparable to the database's version ranges''"

subsection \<open>Coverage of a version by ranges\<close>

definition toolchainSemver :: "string \<Rightarrow> string" where
  "toolchainSemver v0 =
     (let v = TrimPrefix (TrimSpace v0) ''go'' in
      if v = [] then [] else if \<not> HasPrefix v ''v'' then ''v'' @ v else v)"

fun toolchainCovered ::
    "(string \<Rightarrow> bool) \<Rightarrow> (string \<Rightarrow> string \<Rightarrow> int) \<Rightarrow> string \<Rightarrow> ToolchainRange list \<Rightarrow> bool" where
  "toolchainCovered semver_IsValid semver_Compare v [] = False"
| "toolchainCovered semver_IsValid semver_Compare v (r # rs) =
     (if tr_Introduced r \<noteq> [] \<and> tr_Introduced r \<noteq> ''0''
         \<and> (\<not> semver_IsValid (toolchainSemver (tr_Introduced r)) \<or> semver_Compare v (toolchainSemver (tr_Introduced r)) < 0)
      then toolchainCovered semver_IsValid semver_Compare v rs
      else if tr_Fixed r = [] then True
      else if \<not> semver_IsValid (toolchainSemver (tr_Fixed r)) then toolchainCovered semver_IsValid semver_Compare v rs
      else if semver_Compare v (toolchainSemver (tr_Fixed r)) < 0 then True
      else toolchainCovered semver_IsValid semver_Compare v rs)"

definition FixedFor ::
    "(string \<Rightarrow> bool) \<Rightarrow> (string \<Rightarrow> string \<Rightarrow> int) \<Rightarrow> ToolchainAdvisory \<Rightarrow> string \<Rightarrow> string" where
  "FixedFor semver_IsValid semver_Compare a version =
     (let v = toolchainSemver version in
      if \<not> semver_IsValid v then []
      else case find (\<lambda>r. toolchainCovered semver_IsValid semver_Compare v [r]) (ta_Ranges a) of
        None \<Rightarrow> [] | Some r \<Rightarrow> tr_Fixed r)"

subsection \<open>The order advisories are listed in\<close>

fun rangesLess :: "ToolchainRange list \<Rightarrow> ToolchainRange list \<Rightarrow> bool" where
  "rangesLess (a # as) (b # bs) =
     (if tr_Introduced a \<noteq> tr_Introduced b then tr_Introduced a < tr_Introduced b
      else if tr_Fixed a \<noteq> tr_Fixed b then tr_Fixed a < tr_Fixed b
      else rangesLess as bs)"
| "rangesLess _ _ = False"

definition ToolchainAdvisoryLess :: "ToolchainAdvisory \<Rightarrow> ToolchainAdvisory \<Rightarrow> bool" where
  "ToolchainAdvisoryLess a b =
     (if ta_ID a \<noteq> ta_ID b then ta_ID a < ta_ID b
      else if ta_Summary a \<noteq> ta_Summary b then ta_Summary a < ta_Summary b
      else if ta_WithdrawnAt a \<noteq> ta_WithdrawnAt b then ta_WithdrawnAt a < ta_WithdrawnAt b
      else if length (ta_Ranges a) \<noteq> length (ta_Ranges b) then length (ta_Ranges a) < length (ta_Ranges b)
      else rangesLess (ta_Ranges a) (ta_Ranges b))"

definition sortToolchainAdvisories :: "ToolchainAdvisory list \<Rightarrow> ToolchainAdvisory list" where
  "sortToolchainAdvisories advs = stable_sort ToolchainAdvisoryLess advs"

definition advisoryKey :: "ToolchainAdvisory \<Rightarrow> string \<times> string \<times> instant \<times> nat \<times> (string \<times> string) list" where
  "advisoryKey a = (ta_ID a, ta_Summary a, ta_WithdrawnAt a, length (ta_Ranges a),
     map (\<lambda>r. (tr_Introduced r, tr_Fixed r)) (ta_Ranges a))"

lemma rangesLess_lex:
  "length as = length bs \<Longrightarrow> rangesLess as bs \<longleftrightarrow>
     map (\<lambda>r. (tr_Introduced r, tr_Fixed r)) as < map (\<lambda>r. (tr_Introduced r, tr_Fixed r)) bs"
  by (induction as bs rule: list_induct2) (auto simp: less_prod_def)

lemma ToolchainAdvisoryLess_key: "ToolchainAdvisoryLess = (\<lambda>a b. advisoryKey a < advisoryKey b)"
  by (auto simp: fun_eq_iff ToolchainAdvisoryLess_def advisoryKey_def less_prod_def' rangesLess_lex)

lemma advisoryKey_inj: "advisoryKey a = advisoryKey b \<Longrightarrow> a = b"
proof -
  have ranges: "map (\<lambda>r. (tr_Introduced r, tr_Fixed r)) as = map (\<lambda>r. (tr_Introduced r, tr_Fixed r)) bs \<Longrightarrow> as = bs" for as bs :: "ToolchainRange list"
  proof -
    have "inj (\<lambda>r :: ToolchainRange. (tr_Introduced r, tr_Fixed r))"
      by (rule injI) (simp add: ToolchainRange.equality)
    then show "map (\<lambda>r. (tr_Introduced r, tr_Fixed r)) as = map (\<lambda>r. (tr_Introduced r, tr_Fixed r)) bs \<Longrightarrow> as = bs"
      by (simp add: inj_map_eq_map)
  qed
  show "advisoryKey a = advisoryKey b \<Longrightarrow> a = b"
    using ranges by (cases a; cases b) (auto simp: advisoryKey_def)
qed

lemma sortToolchainAdvisories_perm:
  "mset xs = mset ys \<Longrightarrow> sortToolchainAdvisories xs = sortToolchainAdvisories ys"
  unfolding sortToolchainAdvisories_def ToolchainAdvisoryLess_key
  by (rule stable_sort_unique) (auto intro: swo_key advisoryKey_inj)

subsection \<open>The judgment\<close>

definition JudgeToolchain ::
    "(string \<Rightarrow> bool) \<Rightarrow> (string \<Rightarrow> string \<Rightarrow> int) \<Rightarrow> string \<Rightarrow> DatabaseSnapshot \<Rightarrow> ToolchainAdvisorySet \<Rightarrow> ToolchainJudgment" where
  "JudgeToolchain semver_IsValid semver_Compare version snapshot advs =
     (let j = \<lparr>tj_Version = version, tj_Snapshot = snapshot, tj_Status = [], tj_Covering = [], tj_WithdrawnCovering = [],
               tj_Judged = length (as_Advisories advs), tj_Reason = [], tj_TinyGo = None\<rparr> in
      if TrimSpace version = [] then j\<lparr>tj_Status := ToolchainUnjudged, tj_Reason := ToolchainReasonNoVersion\<rparr>
      else if snapshot_IsZero snapshot then j\<lparr>tj_Status := ToolchainUnjudged, tj_Reason := ToolchainReasonNoSnapshot\<rparr>
      else if \<not> as_KeyPresent advs then j\<lparr>tj_Status := ToolchainUnjudged, tj_Reason := ToolchainReasonNoKey\<rparr>
      else let v = toolchainSemver version in
        if \<not> semver_IsValid v then j\<lparr>tj_Status := ToolchainUnjudged, tj_Reason := ToolchainReasonUncomparable\<rparr>
        else let covering = filter (\<lambda>a. toolchainCovered semver_IsValid semver_Compare v (ta_Ranges a)) (as_Advisories advs);
                 live = filter (\<lambda>a. \<not> toolchain_IsWithdrawn a) covering;
                 gone = filter toolchain_IsWithdrawn covering
          in j\<lparr>tj_Covering := sortToolchainAdvisories live, tj_WithdrawnCovering := sortToolchainAdvisories gone,
               tj_Status := (if live \<noteq> [] then ToolchainAffected else if gone \<noteq> [] then ToolchainWithdrawn
                             else ToolchainClear)\<rparr>)"

text \<open>A range covers a version that is not before its introduction and is before its fix.\<close>

definition in_range :: "(string \<Rightarrow> bool) \<Rightarrow> (string \<Rightarrow> string \<Rightarrow> int) \<Rightarrow> string \<Rightarrow> ToolchainRange \<Rightarrow> bool" where
  "in_range semver_IsValid semver_Compare v r \<longleftrightarrow>
     (tr_Introduced r \<in> {[], ''0''} \<or> semver_IsValid (toolchainSemver (tr_Introduced r))
        \<and> semver_Compare v (toolchainSemver (tr_Introduced r)) \<ge> 0)
     \<and> (tr_Fixed r = [] \<or> semver_IsValid (toolchainSemver (tr_Fixed r)) \<and> semver_Compare v (toolchainSemver (tr_Fixed r)) < 0)"

lemma toolchainCovered_iff:
  "toolchainCovered V C v rs \<longleftrightarrow> (\<exists>r \<in> set rs. in_range V C v r)"
proof (induction rs)
  case (Cons r rs)
  have one: "toolchainCovered V C v (r # rs) \<longleftrightarrow>
      (\<not> (tr_Introduced r \<noteq> [] \<and> tr_Introduced r \<noteq> ''0''
          \<and> (\<not> V (toolchainSemver (tr_Introduced r)) \<or> C v (toolchainSemver (tr_Introduced r)) < 0))
        \<and> (tr_Fixed r = [] \<or> V (toolchainSemver (tr_Fixed r)) \<and> C v (toolchainSemver (tr_Fixed r)) < 0))
      \<or> toolchainCovered V C v rs"
    unfolding toolchainCovered.simps(2) by meson
  have "in_range V C v r \<longleftrightarrow> \<not> (tr_Introduced r \<noteq> [] \<and> tr_Introduced r \<noteq> ''0''
          \<and> (\<not> V (toolchainSemver (tr_Introduced r)) \<or> C v (toolchainSemver (tr_Introduced r)) < 0))
        \<and> (tr_Fixed r = [] \<or> V (toolchainSemver (tr_Fixed r)) \<and> C v (toolchainSemver (tr_Fixed r)) < 0)"
    unfolding in_range_def not_less [symmetric] by blast
  with one Cons.IH show ?case by simp
qed simp

definition judgeable :: "(string \<Rightarrow> bool) \<Rightarrow> string \<Rightarrow> DatabaseSnapshot \<Rightarrow> ToolchainAdvisorySet \<Rightarrow> bool" where
  "judgeable V version snapshot advs \<longleftrightarrow> TrimSpace version \<noteq> [] \<and> \<not> snapshot_IsZero snapshot \<and> as_KeyPresent advs
     \<and> V (toolchainSemver version)"

text \<open>
  C35: a toolchain is judged clear only by a judgment that was made.  Without a version, a snapshot, a
  toolchain key or a comparable version the judgment is "unjudged" with a reason; otherwise the
  covering lists are exactly the live and the withdrawn advisories with a range that holds the
  version, the status is the strongest of them and clear exactly when there is none, the fix named
  for a covering advisory is that of a range holding the version, and the order the snapshot lists
  its advisories in does not matter.
\<close>

theorem toolchain_judgment:
  assumes "mset (as_Advisories advs') = mset (as_Advisories advs)" "as_KeyPresent advs' = as_KeyPresent advs"
  shows "let j = JudgeToolchain V C version snapshot advs; covers = (\<lambda>a. \<exists>r \<in> set (ta_Ranges a). in_range V C (toolchainSemver version) r) in
     JudgeToolchain V C version snapshot advs' = j
     \<and> (tj_Status j = ToolchainUnjudged \<longleftrightarrow> \<not> judgeable V version snapshot advs)
     \<and> (tj_Reason j \<noteq> [] \<longleftrightarrow> tj_Status j = ToolchainUnjudged)
     \<and> (judgeable V version snapshot advs \<longrightarrow>
          set (tj_Covering j) = {a \<in> set (as_Advisories advs). covers a \<and> \<not> toolchain_IsWithdrawn a}
        \<and> set (tj_WithdrawnCovering j) = {a \<in> set (as_Advisories advs). covers a \<and> toolchain_IsWithdrawn a}
        \<and> (tj_Status j = ToolchainAffected \<longleftrightarrow> tj_Covering j \<noteq> [])
        \<and> (tj_Status j = ToolchainClear \<longleftrightarrow> (\<forall>a \<in> set (as_Advisories advs). \<not> covers a))
        \<and> (\<forall>a \<in> set (tj_Covering j). \<exists>r \<in> set (ta_Ranges a). in_range V C (toolchainSemver version) r \<and> FixedFor V C a version = tr_Fixed r))"
proof -
  let ?v = "toolchainSemver version"
  let ?covers = "\<lambda>a. \<exists>r \<in> set (ta_Ranges a). in_range V C ?v r"
  define live where "live as = filter (\<lambda>a. \<not> toolchain_IsWithdrawn a) (filter (\<lambda>a. ?covers a) as)" for as
  define gone where "gone as = filter toolchain_IsWithdrawn (filter (\<lambda>a. ?covers a) as)" for as
  have judge: "JudgeToolchain V C version snapshot a =
      (if judgeable V version snapshot a then
         \<lparr>tj_Version = version, tj_Snapshot = snapshot,
          tj_Status = (if live (as_Advisories a) \<noteq> [] then ToolchainAffected else if gone (as_Advisories a) \<noteq> [] then ToolchainWithdrawn else ToolchainClear),
          tj_Covering = sortToolchainAdvisories (live (as_Advisories a)),
          tj_WithdrawnCovering = sortToolchainAdvisories (gone (as_Advisories a)),
          tj_Judged = length (as_Advisories a), tj_Reason = [], tj_TinyGo = None\<rparr>
       else \<lparr>tj_Version = version, tj_Snapshot = snapshot, tj_Status = ToolchainUnjudged, tj_Covering = [], tj_WithdrawnCovering = [],
          tj_Judged = length (as_Advisories a),
          tj_Reason = (if TrimSpace version = [] then ToolchainReasonNoVersion else if snapshot_IsZero snapshot then ToolchainReasonNoSnapshot
             else if \<not> as_KeyPresent a then ToolchainReasonNoKey else ToolchainReasonUncomparable), tj_TinyGo = None\<rparr>)" for a
    unfolding JudgeToolchain_def judgeable_def Let_def live_def gone_def toolchainCovered_iff by simp
  have perm: "mset (filter P (as_Advisories advs')) = mset (filter P (as_Advisories advs))" for P
    using assms(1) by simp
  have len: "length (as_Advisories advs') = length (as_Advisories advs)" using assms(1) by (metis size_mset)
  have lists: "sortToolchainAdvisories (live (as_Advisories advs')) = sortToolchainAdvisories (live (as_Advisories advs))"
    "sortToolchainAdvisories (gone (as_Advisories advs')) = sortToolchainAdvisories (gone (as_Advisories advs))"
    "live (as_Advisories advs') = [] \<longleftrightarrow> live (as_Advisories advs) = []"
    "gone (as_Advisories advs') = [] \<longleftrightarrow> gone (as_Advisories advs) = []"
  proof -
    have l: "mset (live (as_Advisories advs')) = mset (live (as_Advisories advs))"
      and g: "mset (gone (as_Advisories advs')) = mset (gone (as_Advisories advs))"
      unfolding live_def gone_def filter_filter by (rule perm)+
    show "sortToolchainAdvisories (live (as_Advisories advs')) = sortToolchainAdvisories (live (as_Advisories advs))"
      "sortToolchainAdvisories (gone (as_Advisories advs')) = sortToolchainAdvisories (gone (as_Advisories advs))"
      using l g sortToolchainAdvisories_perm by blast+
    show "live (as_Advisories advs') = [] \<longleftrightarrow> live (as_Advisories advs) = []"
      "gone (as_Advisories advs') = [] \<longleftrightarrow> gone (as_Advisories advs) = []"
      using l g by (metis mset_zero_iff)+
  qed
  have "judgeable V version snapshot advs' = judgeable V version snapshot advs"
    using assms(2) by (simp add: judgeable_def)
  then have any: "JudgeToolchain V C version snapshot advs' = JudgeToolchain V C version snapshot advs"
    unfolding judge lists len using assms(2) by simp
  have sets: "set (sortToolchainAdvisories as) = set as" "sortToolchainAdvisories as = [] \<longleftrightarrow> as = []" for as
    by (simp_all add: sortToolchainAdvisories_def)
  have fixed: "\<exists>r \<in> set (ta_Ranges a). in_range V C ?v r \<and> FixedFor V C a version = tr_Fixed r"
    if h: "V ?v" "?covers a" for a
  proof -
    obtain r where r: "find (\<lambda>r. toolchainCovered V C ?v [r]) (ta_Ranges a) = Some r"
      using h(2) by (cases "find (\<lambda>r. toolchainCovered V C ?v [r]) (ta_Ranges a)")
        (auto simp: find_None_iff toolchainCovered_iff)
    then have "r \<in> set (ta_Ranges a)" "in_range V C ?v r"
      by (auto simp: find_Some_iff toolchainCovered_iff)
    with r h(1) show ?thesis by (auto simp: FixedFor_def Let_def)
  qed
  have members: "set (live (as_Advisories advs)) = {a \<in> set (as_Advisories advs). ?covers a \<and> \<not> toolchain_IsWithdrawn a}"
    "set (gone (as_Advisories advs)) = {a \<in> set (as_Advisories advs). ?covers a \<and> toolchain_IsWithdrawn a}"
    "live (as_Advisories advs) = [] \<and> gone (as_Advisories advs) = [] \<longleftrightarrow> (\<forall>a \<in> set (as_Advisories advs). \<not> ?covers a)"
    unfolding live_def gone_def filter_filter by (simp_all add: filter_empty_conv) blast+
  show ?thesis
  proof (cases "judgeable V version snapshot advs")
    case True
    then have "V ?v" by (simp add: judgeable_def)
    then have "\<forall>a \<in> set (live (as_Advisories advs)). \<exists>r \<in> set (ta_Ranges a). in_range V C ?v r \<and> FixedFor V C a version = tr_Fixed r"
      using fixed unfolding members(1) by blast
    then show ?thesis unfolding Let_def any unfolding judge using True members(1,2) members(3) [symmetric]
      by (cases "live (as_Advisories advs) = []"; cases "gone (as_Advisories advs) = []") (simp_all add: sets)
  next
    case False
    then show ?thesis unfolding Let_def any unfolding judge by simp
  qed
qed

theorem toolchain_judgment_witness:
  "tj_Status (JudgeToolchain (\<lambda>v. v \<noteq> []) Compare ''go1.22'' (zero_snapshot\<lparr>ss_source := ''db'', ss_version := ''1''\<rparr>)
     \<lparr>as_KeyPresent = True, as_Advisories = [\<lparr>ta_ID = ''GO-1'', ta_Summary = [], ta_Ranges =
        [\<lparr>tr_Introduced = ''1.30'', tr_Fixed = []\<rparr>], ta_WithdrawnAt = 0\<rparr>]\<rparr>) = ToolchainClear"
proof -
  let ?advs = "\<lparr>as_KeyPresent = True, as_Advisories = [\<lparr>ta_ID = ''GO-1'', ta_Summary = [], ta_Ranges =
        [\<lparr>tr_Introduced = ''1.30'', tr_Fixed = []\<rparr>], ta_WithdrawnAt = 0\<rparr>]\<rparr>"
  let ?s = "zero_snapshot\<lparr>ss_source := ''db'', ss_version := ''1''\<rparr>"
  have sem: "toolchainSemver ''go1.22'' = ''v1.22''" "toolchainSemver ''1.30'' = ''v1.30''"
    by (simp_all add: toolchainSemver_def TrimSpace_def is_space_def TrimPrefix_def HasPrefix_def)
  have ok: "judgeable (\<lambda>v. v \<noteq> []) ''go1.22'' ?s ?advs"
    by (simp add: judgeable_def sem) (simp add: snapshot_IsZero_def TrimSpace_def is_space_def)
  have out: "\<not> in_range (\<lambda>v. v \<noteq> []) Compare ''v1.22'' \<lparr>tr_Introduced = ''1.30'', tr_Fixed = []\<rparr>"
    by (simp add: in_range_def sem) (simp add: Compare_def)
  show ?thesis
    using toolchain_judgment [of ?advs ?advs "\<lambda>v. v \<noteq> []" Compare "''go1.22''" ?s] ok out
    unfolding Let_def sem by simp
qed

end
