(* ===== verification/Go_Strings.thy ===== *)
theory Go_Strings
  imports Prelude
begin

text \<open>
  More of Go's \<open>strings\<close> package: case mapping, the last occurrence of a substring, and splitting at a
  separator of several bytes.  Case mapping is that of ASCII; bytes of other characters are kept.
  Every phrase, tag and extension the code looks for is ASCII.
\<close>

definition lower_char :: "char \<Rightarrow> char" where
  "lower_char c = (let n = of_char c :: nat in if 65 \<le> n \<and> n \<le> 90 then char_of (n + 32) else c)"

definition upper_char :: "char \<Rightarrow> char" where
  "upper_char c = (let n = of_char c :: nat in if 97 \<le> n \<and> n \<le> 122 then char_of (n - 32) else c)"

definition ToLower :: "string \<Rightarrow> string" where
  "ToLower s = map lower_char s"

definition ToUpper :: "string \<Rightarrow> string" where
  "ToUpper s = map upper_char s"

definition EqualFold :: "string \<Rightarrow> string \<Rightarrow> bool" where
  "EqualFold s t \<longleftrightarrow> ToLower s = ToLower t"

fun LastIndex :: "string \<Rightarrow> string \<Rightarrow> nat option" where
  "LastIndex [] p = (if p = [] then Some 0 else None)"
| "LastIndex (x # xs) p =
     (case LastIndex xs p of Some i \<Rightarrow> Some (Suc i) | None \<Rightarrow> if prefix p (x # xs) then Some 0 else None)"

lemma LastIndex_split: "LastIndex s p = Some i \<Longrightarrow> \<exists>u v. s = u @ p @ v \<and> length u = i"
proof (induction s arbitrary: i)
  case Nil
  then show ?case by (auto split: if_splits)
next
  case (Cons x xs)
  show ?case
  proof (cases "LastIndex xs p")
    case None
    with Cons.prems show ?thesis by (auto simp: prefix_def split: if_splits)
  next
    case (Some j)
    with Cons.IH obtain u v where "xs = u @ p @ v" "length u = j" by blast
    then have "x # xs = (x # u) @ p @ v \<and> length (x # u) = i" using Cons.prems Some by simp
    then show ?thesis by blast
  qed
qed

lemma LastIndex_less: "LastIndex s p = Some i \<Longrightarrow> p \<noteq> [] \<Longrightarrow> i < length s"
  using LastIndex_split [of s p i] by auto

lemma StrIndex_less: "StrIndex s p = Some i \<Longrightarrow> p \<noteq> [] \<Longrightarrow> i < length s"
  using Index_Some_split [of s p i] by auto

lemma LastIndex_absent: "c \<notin> set w \<Longrightarrow> LastIndex w (c # p) = None"
  by (induction w) auto

lemma LastIndex_tail:
  assumes "HasPrefix w p" "LastIndex (tl w) p = None" "p \<noteq> []"
  shows "LastIndex (x @ w) p = Some (length x)"
proof (induction x)
  case Nil
  from assms show ?case by (cases w) (auto simp: HasPrefix_def)
qed simp

text \<open>\<open>s[a:b]\<close>.\<close>

definition slice :: "string \<Rightarrow> nat \<Rightarrow> nat \<Rightarrow> string" where
  "slice s a b = take (b - a) (drop a s)"

text \<open>\<open>strings.Split\<close> at a separator; the code never gives an empty one.\<close>

function SplitStr :: "string \<Rightarrow> string \<Rightarrow> string list" where
  "SplitStr s sep =
     (if sep = [] then map (\<lambda>c. [c]) s
      else case StrIndex s sep of
        None \<Rightarrow> [s]
      | Some i \<Rightarrow> take i s # SplitStr (drop (i + length sep) s) sep)"
  by pat_completeness auto
termination
proof (relation "measure (\<lambda>(s, sep). length s)")
  fix s sep :: string and i
  assume "sep \<noteq> []" "StrIndex s sep = Some i"
  then show "((drop (i + length sep) s, sep), s, sep) \<in> measure (\<lambda>(s, sep). length s)"
    using StrIndex_less [of s sep i] by (cases sep) auto
qed simp

declare SplitStr.simps [simp del]

text \<open>A separator whose first byte the parts do not contain is found where it stands.\<close>

lemma StrIndex_absent: "c \<notin> set w \<Longrightarrow> StrIndex w (c # p) = None"
  by (induction w) auto

lemma StrIndex_first: "c \<notin> set w \<Longrightarrow> StrIndex (w @ (c # p) @ r) (c # p) = Some (length w)"
proof (induction w)
  case Nil
  have "prefix (c # p) ((c # p) @ r)" by simp
  then show ?case by simp
next
  case (Cons a w)
  then show ?case by (auto simp: prefix_def)
qed

lemma SplitStr_part: "c \<notin> set w \<Longrightarrow> SplitStr w (c # p) = [w]"
  by (simp add: SplitStr.simps StrIndex_absent)

lemma SplitStr_Join:
  assumes "ws \<noteq> []" "\<forall>w \<in> set ws. c \<notin> set w"
  shows "SplitStr (Join ws (c # p)) (c # p) = ws"
  using assms
proof (induction ws "c # p" rule: Join.induct)
  case (3 w v vs)
  have "StrIndex (w @ (c # p) @ Join (v # vs) (c # p)) (c # p) = Some (length w)"
    by (rule StrIndex_first) (use 3 in simp)
  then have "SplitStr (Join (w # v # vs) (c # p)) (c # p)
      = w # SplitStr (Join (v # vs) (c # p)) (c # p)"
    by (subst SplitStr.simps) simp
  with 3 show ?case by simp
qed (simp_all add: SplitStr_part)

lemma TrimSpace_id: "\<forall>c \<in> set w. \<not> is_space c \<Longrightarrow> TrimSpace w = w"
proof -
  assume "\<forall>c \<in> set w. \<not> is_space c"
  then have d: "dropWhile is_space v = v" if "set v = set w" for v using that by (cases v) auto
  then show ?thesis by (simp add: TrimSpace_def)
qed

text \<open>\<open>dedupeSorted\<close> and every other loop that collects the distinct members of a list and sorts them.\<close>

definition sorted_distinct :: "'a::linorder list \<Rightarrow> 'a list" where
  "sorted_distinct xs = sort (remdups xs)"

lemma sorted_distinct_simps [simp]:
  "set (sorted_distinct xs) = set xs" "distinct (sorted_distinct xs)" "sorted (sorted_distinct xs)"
  "sorted_distinct xs = [] \<longleftrightarrow> xs = []" "length (sorted_distinct xs) = card (set xs)"
  by (simp_all add: sorted_distinct_def length_remdups_card_conv)
    (metis remdups_eq_nil_iff set_empty set_sort)

lemma sorted_distinct_cong: "set xs = set ys \<Longrightarrow> sorted_distinct xs = sorted_distinct ys"
  by (simp add: sorted_distinct_set_unique)

lemma sorted_distinct_id: "sorted xs \<Longrightarrow> distinct xs \<Longrightarrow> sorted_distinct xs = xs"
  by (simp add: sorted_distinct_def distinct_remdups_id sorted_sort_id)

end
