(* ===== verification/License_Compat.thy ===== *)
theory License_Compat
  imports Go_Strings Sorting_Go "HOL-Library.AList"
begin

text \<open>
  Licence compatibility of a closure with a target (\<open>internal/license/domain/compatibility.go\<close>,
  \<open>spdxalias.go\<close>): the dataset, the verdict on a pair, the evaluation of an election, and the report
  over the modules of a closure with the identifiers the dataset does not cover.
\<close>

subsection \<open>Identifiers and strengths\<close>

definition deprecatedSPDXAliases :: "(string \<times> string) list" where
  "deprecatedSPDXAliases =
     [(''AGPL-3.0'', ''AGPL-3.0-only''), (''GPL-2.0'', ''GPL-2.0-only''), (''GPL-3.0'', ''GPL-3.0-only''),
      (''LGPL-2.0'', ''LGPL-2.0-only''), (''LGPL-2.1'', ''LGPL-2.1-only''), (''LGPL-3.0'', ''LGPL-3.0-only'')]"

definition CanonicalSPDXID :: "string \<Rightarrow> string" where
  "CanonicalSPDXID spdx = (case map_of deprecatedSPDXAliases spdx of Some c \<Rightarrow> c | None \<Rightarrow> spdx)"

datatype CopyleftStrength = CopyleftNone | CopyleftWeak | CopyleftStrong | CopyleftNetwork

definition strength_String :: "CopyleftStrength \<Rightarrow> string" where
  "strength_String s = (case s of CopyleftNone \<Rightarrow> ''none'' | CopyleftWeak \<Rightarrow> ''weak'' | CopyleftStrong \<Rightarrow> ''strong''
     | CopyleftNetwork \<Rightarrow> ''network'')"

datatype CompatibilityVerdict = VerdictCompatible | VerdictIncompatible | VerdictUnknownPair | VerdictElectable

definition verdict_String :: "CompatibilityVerdict \<Rightarrow> string" where
  "verdict_String v = (case v of VerdictCompatible \<Rightarrow> ''compatible'' | VerdictIncompatible \<Rightarrow> ''incompatible''
     | VerdictUnknownPair \<Rightarrow> ''unknown_pair'' | VerdictElectable \<Rightarrow> ''electable'')"

datatype ConflictKind =
  ConflictPairIncompatible | ConflictCopyleftPropagation | ConflictNetworkTrigger | ConflictUnknownPair
  | ConflictElectionRequired

definition conflict_String :: "ConflictKind \<Rightarrow> string" where
  "conflict_String k = (case k of ConflictPairIncompatible \<Rightarrow> ''pair_incompatible''
     | ConflictCopyleftPropagation \<Rightarrow> ''copyleft_propagation'' | ConflictNetworkTrigger \<Rightarrow> ''network_trigger''
     | ConflictUnknownPair \<Rightarrow> ''unknown_pair'' | ConflictElectionRequired \<Rightarrow> ''election_required'')"

datatype LicenceOrigin = OriginModuleRoot | OriginBundledComponent

definition origin_String :: "LicenceOrigin \<Rightarrow> string" where
  "origin_String x = (if x = OriginBundledComponent then ''bundled_component'' else ''module_root'')"

datatype LicenceMeasurement = MeasurementUnmeasured | MeasurementUnclassifiable | MeasurementClassified

definition measurement_String :: "LicenceMeasurement \<Rightarrow> string" where
  "measurement_String m = (case m of MeasurementUnclassifiable \<Rightarrow> ''unclassifiable''
     | MeasurementClassified \<Rightarrow> ''classified'' | MeasurementUnmeasured \<Rightarrow> ''unmeasured'')"

record CompatibilityConflict =
  cc_ModulePath :: string
  cc_ModuleVersion :: string
  cc_DepSPDX :: string
  cc_TargetSPDX :: string
  cc_Verdict :: CompatibilityVerdict
  cc_Kind :: ConflictKind
  cc_Origin :: LicenceOrigin
  cc_OriginPath :: string
  cc_ModuleExpression :: string
  cc_ElectableArms :: "string list"
  cc_Measurement :: LicenceMeasurement

record CompatibilityInput =
  ci_ModulePath :: string
  ci_ModuleVersion :: string
  ci_SPDX :: string
  ci_ElectiveArms :: "string list"
  ci_Origin :: LicenceOrigin
  ci_OriginPath :: string
  ci_ModuleExpression :: string
  ci_Measurement :: LicenceMeasurement

record CoverageHole =
  ch_SPDX :: string
  ch_Modules :: nat
  ch_Deliberate :: bool
  ch_Reason :: string

record ClosureCompatibilityReport =
  cr_TargetSPDX :: string
  cr_DataVersion :: string
  cr_Conflicts :: "CompatibilityConflict list"
  cr_Clean :: bool
  cr_CoverageHoles :: "CoverageHole list"
  cr_TargetModelled :: bool

definition CompatibilityDataVersion :: string where
  "CompatibilityDataVersion = ''1.1.0''"

definition copyleftStrengths :: "(string \<times> CopyleftStrength) list" where
  "copyleftStrengths =
     [(''Apache-2.0'', CopyleftNone), (''MIT'', CopyleftNone), (''BSD-2-Clause'', CopyleftNone),
      (''BSD-3-Clause'', CopyleftNone), (''ISC'', CopyleftNone), (''Zlib'', CopyleftNone), (''0BSD'', CopyleftNone),
      (''Unlicense'', CopyleftNone), (''CC0-1.0'', CopyleftNone), (''BlueOak-1.0.0'', CopyleftNone),
      (''BSD-4-Clause'', CopyleftNone), (''BSL-1.0'', CopyleftNone), (''Python-2.0'', CopyleftNone),
      (''WTFPL'', CopyleftNone), (''BSD-2-Clause-Views'', CopyleftNone), (''MPL-2.0'', CopyleftWeak),
      (''LGPL-2.0-only'', CopyleftWeak), (''LGPL-2.0-or-later'', CopyleftWeak), (''LGPL-2.1-only'', CopyleftWeak),
      (''LGPL-2.1-or-later'', CopyleftWeak), (''LGPL-3.0-only'', CopyleftWeak),
      (''LGPL-3.0-or-later'', CopyleftWeak), (''EPL-1.0'', CopyleftWeak), (''EPL-2.0'', CopyleftWeak),
      (''EUPL-1.2'', CopyleftWeak), (''CDDL-1.0'', CopyleftWeak), (''GPL-2.0-only'', CopyleftStrong),
      (''GPL-2.0-or-later'', CopyleftStrong), (''GPL-3.0-only'', CopyleftStrong),
      (''GPL-3.0-or-later'', CopyleftStrong), (''EUPL-1.1'', CopyleftStrong), (''AGPL-3.0-only'', CopyleftNetwork),
      (''AGPL-3.0-or-later'', CopyleftNetwork), (''OSL-3.0'', CopyleftNetwork), (''BUSL-1.1'', CopyleftStrong),
      (''SSPL-1.0'', CopyleftStrong), (''Elastic-2.0'', CopyleftStrong)]"

definition unmodelledDeliberately :: "(string \<times> string) list" where
  "unmodelledDeliberately =
     [(''CC-BY-4.0'',
       ''Creative Commons attribution licence for content, not code; its obligations attach to the covered material (docs, data, media), not to a linked Go package''),
      (''CC-BY-SA-3.0'',
       ''Creative Commons share-alike for content; the reciprocity arm has no settled reading against software redistribution, so the pair is a legal question rather than a dataset entry''),
      (''CC-BY-SA-4.0'',
       ''Creative Commons share-alike for content; same reasoning as CC-BY-SA-3.0. Commonly seen on a module's LICENSE.docs alongside a permissive code licence''),
      (''OFL-1.1'',
       ''SIL Open Font Licence; its reciprocity applies to the font files, not to software that merely ships them'')]"

definition UnmodelledReason :: "string \<Rightarrow> string \<times> bool" where
  "UnmodelledReason spdx = (case map_of unmodelledDeliberately (CanonicalSPDXID spdx) of
     Some reason \<Rightarrow> (reason, True) | None \<Rightarrow> ([], False))"

definition ModelledSPDXIDs :: "string list" where
  "ModelledSPDXIDs = sort (map fst copyleftStrengths)"

definition DeliberatelyUnmodelledSPDXIDs :: "string list" where
  "DeliberatelyUnmodelledSPDXIDs = sort (map fst unmodelledDeliberately)"

definition permissiveTargets :: "string set" where
  "permissiveTargets = {''Apache-2.0'', ''MIT'', ''BSD-2-Clause'', ''BSD-3-Clause'', ''ISC'', ''0BSD''}"

definition CopyleftStrengthOf :: "string \<Rightarrow> CopyleftStrength option" where
  "CopyleftStrengthOf spdx = map_of copyleftStrengths (CanonicalSPDXID spdx)"

subsection \<open>The verdict on a pair\<close>

definition CheckPairCompatibility :: "string \<Rightarrow> string \<Rightarrow> CompatibilityVerdict" where
  "CheckPairCompatibility depSPDX targetSPDX =
     (case CopyleftStrengthOf depSPDX of
        None \<Rightarrow> VerdictUnknownPair
      | Some depStrength \<Rightarrow>
          if CopyleftStrengthOf targetSPDX = None then VerdictUnknownPair
          else if depStrength = CopyleftNone then VerdictCompatible
          else if depStrength = CopyleftWeak then VerdictCompatible
          else if targetSPDX \<in> permissiveTargets then VerdictIncompatible
          else if depSPDX = targetSPDX then VerdictCompatible
          else if (targetSPDX = ''GPL-3.0-only'' \<or> targetSPDX = ''GPL-3.0-or-later'') \<and> depSPDX = ''GPL-2.0-or-later''
            then VerdictCompatible
          else VerdictUnknownPair)"

definition conflictKindFor :: "string \<Rightarrow> ConflictKind" where
  "conflictKindFor depSPDX =
     (case CopyleftStrengthOf depSPDX of
        Some CopyleftNetwork \<Rightarrow> ConflictNetworkTrigger
      | Some CopyleftStrong \<Rightarrow> ConflictCopyleftPropagation
      | _ \<Rightarrow> ConflictPairIncompatible)"

definition measurementOf :: "CompatibilityInput \<Rightarrow> LicenceMeasurement" where
  "measurementOf m = (if length (ci_ElectiveArms m) \<ge> 2 \<or> ci_SPDX m \<noteq> [] then MeasurementClassified else ci_Measurement m)"

definition conflictOf ::
    "CompatibilityInput \<Rightarrow> string \<Rightarrow> string \<Rightarrow> CompatibilityVerdict \<Rightarrow> ConflictKind \<Rightarrow> string list \<Rightarrow> CompatibilityConflict" where
  "conflictOf m targetSPDX dep verdict kind arms =
     \<lparr>cc_ModulePath = ci_ModulePath m, cc_ModuleVersion = ci_ModuleVersion m, cc_DepSPDX = dep,
      cc_TargetSPDX = targetSPDX, cc_Verdict = verdict, cc_Kind = kind, cc_Origin = ci_Origin m,
      cc_OriginPath = ci_OriginPath m, cc_ModuleExpression = ci_ModuleExpression m, cc_ElectableArms = arms,
      cc_Measurement = measurementOf m\<rparr>"

definition evaluateElection :: "CompatibilityInput \<Rightarrow> string \<Rightarrow> CompatibilityConflict option" where
  "evaluateElection m targetSPDX =
     (let arms = ci_ElectiveArms m; dep = Join arms '' OR '';
          compatible = filter (\<lambda>arm. CheckPairCompatibility arm targetSPDX = VerdictCompatible) arms;
          anyUnknown = (\<exists>arm \<in> set arms. CheckPairCompatibility arm targetSPDX = VerdictUnknownPair)
      in if length compatible = length arms then None
         else Some
           (if compatible \<noteq> [] then conflictOf m targetSPDX dep VerdictElectable ConflictElectionRequired compatible
            else if anyUnknown then conflictOf m targetSPDX dep VerdictUnknownPair ConflictUnknownPair []
            else conflictOf m targetSPDX dep VerdictIncompatible (conflictKindFor (hd arms)) []))"

subsection \<open>Coverage holes\<close>

type_synonym hole_tally = "(string \<times> string set) list"

definition holeIDs :: "CompatibilityInput \<Rightarrow> string list" where
  "holeIDs m = (if length (ci_ElectiveArms m) < 2 then (if ci_SPDX m \<noteq> [] then [ci_SPDX m] else []) else ci_ElectiveArms m)"

definition moduleName :: "CompatibilityInput \<Rightarrow> string" where
  "moduleName m = ci_ModulePath m @ ''@'' @ ci_ModuleVersion m"

definition tallyAdd :: "string \<Rightarrow> hole_tally \<Rightarrow> string \<Rightarrow> hole_tally" where
  "tallyAdd name t spdx = (if CopyleftStrengthOf spdx \<noteq> None then t
     else AList.update spdx (insert name (case map_of t spdx of None \<Rightarrow> {} | Some s \<Rightarrow> s)) t)"

definition observe :: "hole_tally \<Rightarrow> CompatibilityInput \<Rightarrow> hole_tally" where
  "observe t m = foldl (tallyAdd (moduleName m)) t (holeIDs m)"

definition holesResult :: "hole_tally \<Rightarrow> CoverageHole list" where
  "holesResult t = map (\<lambda>spdx. case UnmodelledReason spdx of (reason, deliberate) \<Rightarrow>
     \<lparr>ch_SPDX = spdx, ch_Modules = card (the (map_of t spdx)), ch_Deliberate = deliberate, ch_Reason = reason\<rparr>)
     (sort (map fst t))"

subsection \<open>The report\<close>

definition moduleConflict :: "string \<Rightarrow> CompatibilityInput \<Rightarrow> CompatibilityConflict option" where
  "moduleConflict targetSPDX m =
     (if length (ci_ElectiveArms m) \<ge> 2 then evaluateElection m targetSPDX
      else if ci_SPDX m = [] then Some (conflictOf m targetSPDX [] VerdictUnknownPair ConflictUnknownPair [])
      else let verdict = CheckPairCompatibility (ci_SPDX m) targetSPDX in
        if verdict = VerdictCompatible then None
        else Some (conflictOf m targetSPDX (ci_SPDX m) verdict
          (if verdict = VerdictIncompatible then conflictKindFor (ci_SPDX m) else ConflictUnknownPair) []))"

definition conflictLess :: "CompatibilityConflict \<Rightarrow> CompatibilityConflict \<Rightarrow> bool" where
  "conflictLess a b =
     (if cc_ModulePath a \<noteq> cc_ModulePath b then cc_ModulePath a < cc_ModulePath b
      else if cc_ModuleVersion a \<noteq> cc_ModuleVersion b then cc_ModuleVersion a < cc_ModuleVersion b
      else cc_DepSPDX a < cc_DepSPDX b)"

definition CheckClosureCompatibility :: "CompatibilityInput list \<Rightarrow> string \<Rightarrow> ClosureCompatibilityReport" where
  "CheckClosureCompatibility modules targetSPDX =
     (let (conflicts, holes) = foldl (\<lambda>(cs, t) m.
            ((case moduleConflict targetSPDX m of None \<Rightarrow> cs | Some c \<Rightarrow> cs @ [c]), observe t m)) ([], []) modules
      in \<lparr>cr_TargetSPDX = targetSPDX, cr_DataVersion = CompatibilityDataVersion,
          cr_Conflicts = stable_sort conflictLess conflicts, cr_Clean = (conflicts = []),
          cr_CoverageHoles = holesResult holes, cr_TargetModelled = (CopyleftStrengthOf targetSPDX \<noteq> None)\<rparr>)"

subsection \<open>Facts on pairs and the report\<close>

lemma CheckPair_not_electable: "CheckPairCompatibility d t \<noteq> VerdictElectable"
  by (simp add: CheckPairCompatibility_def split: option.split)

lemma CheckPair_unknown: "CopyleftStrengthOf d = None \<or> CopyleftStrengthOf t = None \<Longrightarrow> CheckPairCompatibility d t = VerdictUnknownPair"
  by (elim disjE) (simp_all add: CheckPairCompatibility_def split: option.split)

definition conflict_lists :: "CompatibilityInput list \<Rightarrow> string \<Rightarrow> CompatibilityConflict list" where
  "conflict_lists modules t = concat (map (\<lambda>m. case moduleConflict t m of None \<Rightarrow> [] | Some c \<Rightarrow> [c]) modules)"

lemma closure_fold:
  "foldl (\<lambda>(cs, h) m. ((case moduleConflict t m of None \<Rightarrow> cs | Some c \<Rightarrow> cs @ [c]), observe h m)) (cs, h) modules
   = (cs @ conflict_lists modules t, foldl observe h modules)"
  by (induction modules arbitrary: cs h) (simp_all add: conflict_lists_def split: option.split)

lemma CheckClosure_eq:
  "CheckClosureCompatibility modules t =
     \<lparr>cr_TargetSPDX = t, cr_DataVersion = CompatibilityDataVersion,
      cr_Conflicts = stable_sort conflictLess (conflict_lists modules t), cr_Clean = (conflict_lists modules t = []),
      cr_CoverageHoles = holesResult (foldl observe [] modules), cr_TargetModelled = (CopyleftStrengthOf t \<noteq> None)\<rparr>"
  by (simp add: CheckClosureCompatibility_def closure_fold)

text \<open>The identifiers a module may be taken under, all of which must do when it offers a choice.\<close>

definition offers :: "CompatibilityInput \<Rightarrow> string list" where
  "offers m = (if length (ci_ElectiveArms m) \<ge> 2 then ci_ElectiveArms m else [ci_SPDX m])"

lemma no_empty_strength: "CopyleftStrengthOf [] = None"
  by (simp add: CopyleftStrengthOf_def CanonicalSPDXID_def deprecatedSPDXAliases_def copyleftStrengths_def)

lemma length_filter_all: "length (filter P xs) = length xs \<longleftrightarrow> (\<forall>x \<in> set xs. P x)"
proof (induction xs)
  case (Cons x xs)
  have "length (filter P xs) \<noteq> Suc (length xs)" using length_filter_le [of P xs] by linarith
  with Cons show ?case by simp
qed simp

lemma moduleConflict_None:
  "moduleConflict t m = None \<longleftrightarrow> (\<forall>s \<in> set (offers m). CheckPairCompatibility s t = VerdictCompatible)"
proof (cases "length (ci_ElectiveArms m) \<ge> 2")
  case True
  then show ?thesis by (simp add: moduleConflict_def offers_def evaluateElection_def Let_def length_filter_all)
next
  case False
  then show ?thesis
    using CheckPair_unknown [of "[]" t] no_empty_strength by (auto simp: moduleConflict_def offers_def Let_def)
qed

lemma moduleConflict_Some:
  assumes "moduleConflict t m = Some c"
  shows "cc_ModulePath c = ci_ModulePath m \<and> cc_ModuleVersion c = ci_ModuleVersion m
    \<and> (cc_Verdict c = VerdictElectable \<longleftrightarrow> (\<exists>s \<in> set (offers m). CheckPairCompatibility s t = VerdictCompatible))
    \<and> (cc_Verdict c = VerdictIncompatible \<longleftrightarrow> (\<forall>s \<in> set (offers m). CheckPairCompatibility s t = VerdictIncompatible))
    \<and> set (cc_ElectableArms c) = (if cc_Verdict c = VerdictElectable
        then {s \<in> set (offers m). CheckPairCompatibility s t = VerdictCompatible} else {})
    \<and> cc_Verdict c \<noteq> VerdictCompatible"
proof (cases "length (ci_ElectiveArms m) \<ge> 2")
  case True
  let ?v = "\<lambda>s. CheckPairCompatibility s t"
  have three: "?v s = VerdictCompatible \<or> ?v s = VerdictIncompatible \<or> ?v s = VerdictUnknownPair" for s
    using CheckPair_not_electable [of s t] by (cases "?v s") auto
  have offers: "offers m = ci_ElectiveArms m" "ci_ElectiveArms m \<noteq> []" using True by (auto simp: offers_def)
  show ?thesis
  proof (cases "\<exists>s \<in> set (ci_ElectiveArms m). ?v s = VerdictCompatible")
    case some: True
    then have "filter (\<lambda>s. ?v s = VerdictCompatible) (ci_ElectiveArms m) \<noteq> []"
        "\<exists>s \<in> set (ci_ElectiveArms m). ?v s \<noteq> VerdictIncompatible" by (auto simp: filter_empty_conv intro!: bexI)
    then show ?thesis using assms True some offers
      by (auto simp: moduleConflict_def evaluateElection_def Let_def conflictOf_def length_filter_all split: if_splits)
  next
    case none: False
    then have "filter (\<lambda>s. ?v s = VerdictCompatible) (ci_ElectiveArms m) = []" by (auto simp: filter_empty_conv)
    moreover have "(\<exists>s \<in> set (ci_ElectiveArms m). ?v s = VerdictUnknownPair) \<longleftrightarrow>
        \<not> (\<forall>s \<in> set (ci_ElectiveArms m). ?v s = VerdictIncompatible)" using three none by force
    ultimately show ?thesis using assms True none offers
      by (auto simp: moduleConflict_def evaluateElection_def Let_def conflictOf_def split: if_splits)
  qed
next
  case False
  then have offers: "offers m = [ci_SPDX m]" by (simp add: offers_def)
  show ?thesis
    using assms False CheckPair_unknown [of "[]" t] no_empty_strength CheckPair_not_electable [of "ci_SPDX m" t]
    by (auto simp: moduleConflict_def offers Let_def conflictOf_def split: if_splits)
qed

lemma conflict_lists_iff:
  "c \<in> set (conflict_lists modules t) \<longleftrightarrow> (\<exists>m \<in> set modules. moduleConflict t m = Some c)"
proof -
  have "c \<in> set (case x of None \<Rightarrow> [] | Some c \<Rightarrow> [c]) \<longleftrightarrow> x = Some c" for x by (cases x) auto
  then show ?thesis by (simp add: conflict_lists_def)
qed

lemma conflict_lists_length:
  "length (conflict_lists modules t) = length (filter (\<lambda>m. moduleConflict t m \<noteq> None) modules)"
  by (induction modules) (auto simp: conflict_lists_def)

text \<open>
  C14: an unknown licence never passes.  A closure is clean exactly when every module's licence, or
  every arm it offers, is compatible with the target; each other module gives exactly one open item;
  a licence or a target outside the dataset is never part of a clean report; an open item is
  electable exactly when some arm is compatible and then lists those arms, and is incompatible only
  when every offer is.
\<close>

theorem closure_clean_iff:
  "cr_Clean (CheckClosureCompatibility modules t) =
     (\<forall>m \<in> set modules. \<forall>s \<in> set (offers m). CheckPairCompatibility s t = VerdictCompatible)
   \<and> length (cr_Conflicts (CheckClosureCompatibility modules t)) =
       length (filter (\<lambda>m. \<exists>s \<in> set (offers m). CheckPairCompatibility s t \<noteq> VerdictCompatible) modules)
   \<and> (cr_Clean (CheckClosureCompatibility modules t) \<and> modules \<noteq> [] \<longrightarrow>
        cr_TargetModelled (CheckClosureCompatibility modules t)
        \<and> (\<forall>m \<in> set modules. \<forall>s \<in> set (offers m). CopyleftStrengthOf s \<noteq> None))
   \<and> (\<forall>c \<in> set (cr_Conflicts (CheckClosureCompatibility modules t)). \<exists>m \<in> set modules.
        cc_ModulePath c = ci_ModulePath m \<and> cc_ModuleVersion c = ci_ModuleVersion m
        \<and> (cc_Verdict c = VerdictElectable \<longleftrightarrow> (\<exists>s \<in> set (offers m). CheckPairCompatibility s t = VerdictCompatible))
        \<and> (cc_Verdict c = VerdictIncompatible \<longleftrightarrow> (\<forall>s \<in> set (offers m). CheckPairCompatibility s t = VerdictIncompatible))
        \<and> set (cc_ElectableArms c) = (if cc_Verdict c = VerdictElectable
            then {s \<in> set (offers m). CheckPairCompatibility s t = VerdictCompatible} else {}))"
proof -
  let ?r = "CheckClosureCompatibility modules t"
  have some: "moduleConflict t m \<noteq> None \<longleftrightarrow> (\<exists>s \<in> set (offers m). CheckPairCompatibility s t \<noteq> VerdictCompatible)" for m
    using moduleConflict_None [of t m] by auto
  have clean: "cr_Clean ?r = (\<forall>m \<in> set modules. \<forall>s \<in> set (offers m). CheckPairCompatibility s t = VerdictCompatible)"
    unfolding CheckClosure_eq by (simp add: conflict_lists_def moduleConflict_None concat_eq_Nil_conv split: option.split)
  moreover have "length (cr_Conflicts ?r) =
      length (filter (\<lambda>m. \<exists>s \<in> set (offers m). CheckPairCompatibility s t \<noteq> VerdictCompatible) modules)"
    unfolding CheckClosure_eq by (simp only: ClosureCompatibilityReport.select_convs length_stable_sort conflict_lists_length some)
  moreover have "cr_TargetModelled ?r \<and> (\<forall>m \<in> set modules. \<forall>s \<in> set (offers m). CopyleftStrengthOf s \<noteq> None)"
    if c: "cr_Clean ?r" "modules \<noteq> []"
  proof -
    have each: "CopyleftStrengthOf s \<noteq> None \<and> CopyleftStrengthOf t \<noteq> None" if "m \<in> set modules" "s \<in> set (offers m)" for m s
      using c(1) that CheckPair_unknown [of s t] unfolding clean by force
    obtain m where "m \<in> set modules" using c(2) by (cases modules) auto
    moreover then obtain s where "s \<in> set (offers m)" by (cases "offers m") (auto simp: offers_def split: if_splits)
    ultimately show ?thesis using each by (simp add: CheckClosure_eq)
  qed
  moreover have "\<exists>m \<in> set modules. cc_ModulePath c = ci_ModulePath m \<and> cc_ModuleVersion c = ci_ModuleVersion m
        \<and> (cc_Verdict c = VerdictElectable \<longleftrightarrow> (\<exists>s \<in> set (offers m). CheckPairCompatibility s t = VerdictCompatible))
        \<and> (cc_Verdict c = VerdictIncompatible \<longleftrightarrow> (\<forall>s \<in> set (offers m). CheckPairCompatibility s t = VerdictIncompatible))
        \<and> set (cc_ElectableArms c) = (if cc_Verdict c = VerdictElectable
            then {s \<in> set (offers m). CheckPairCompatibility s t = VerdictCompatible} else {})"
    if h: "c \<in> set (cr_Conflicts ?r)" for c
  proof -
    obtain m where "m \<in> set modules" "moduleConflict t m = Some c"
      using h by (auto simp: CheckClosure_eq conflict_lists_iff)
    then show ?thesis using moduleConflict_Some by blast
  qed
  ultimately show ?thesis by blast
qed

definition unmodelled_users :: "CompatibilityInput list \<Rightarrow> string \<Rightarrow> string set" where
  "unmodelled_users modules s = (if CopyleftStrengthOf s = None then moduleName ` {m \<in> set modules. s \<in> set (holeIDs m)} else {})"

definition tally_ok :: "hole_tally \<Rightarrow> (string \<Rightarrow> string set) \<Rightarrow> bool" where
  "tally_ok t users \<longleftrightarrow> distinct (map fst t) \<and> (\<forall>s. map_of t s = (if users s = {} then None else Some (users s)))"

lemma tallyAdd_ok:
  assumes "tally_ok t users"
  shows "tally_ok (tallyAdd n t s) (if CopyleftStrengthOf s = None then users(s := insert n (users s)) else users)"
  using assms by (auto simp: tally_ok_def tallyAdd_def distinct_update update_conv')

lemma observe_ok:
  assumes "tally_ok t users"
  shows "tally_ok (observe t m) (\<lambda>s. users s \<union> (if CopyleftStrengthOf s = None \<and> s \<in> set (holeIDs m) then {moduleName m} else {}))"
proof -
  have "tally_ok (foldl (tallyAdd n) t ids) (\<lambda>s. users s \<union> (if CopyleftStrengthOf s = None \<and> s \<in> set ids then {n} else {}))"
    if "tally_ok t users" for n ids t users
    using that
  proof (induction ids arbitrary: t users)
    case (Cons i ids)
    note step = Cons.IH [OF tallyAdd_ok [OF Cons.prems, of n i]]
    have "(\<lambda>s. (if CopyleftStrengthOf i = None then users(i := insert n (users i)) else users) s \<union>
          (if CopyleftStrengthOf s = None \<and> s \<in> set ids then {n} else {}))
        = (\<lambda>s. users s \<union> (if CopyleftStrengthOf s = None \<and> s \<in> set (i # ids) then {n} else {}))"
      by (auto simp: fun_eq_iff)
    with step show ?case by simp
  qed simp
  from this [OF assms] show ?thesis by (simp add: observe_def)
qed

lemma tally_modules: "tally_ok (foldl observe [] modules) (unmodelled_users modules)"
proof -
  have "tally_ok t users \<Longrightarrow> tally_ok (foldl observe t modules) (\<lambda>s. users s \<union> unmodelled_users modules s)" for t users
  proof (induction modules arbitrary: t users)
    case Nil
    have "unmodelled_users [] = (\<lambda>s. {})" by (simp add: unmodelled_users_def fun_eq_iff)
    with Nil show ?case by simp
  next
    case (Cons m modules)
    have "(\<lambda>s. users s \<union> (if CopyleftStrengthOf s = None \<and> s \<in> set (holeIDs m) then {moduleName m} else {}) \<union> unmodelled_users modules s)
        = (\<lambda>s. users s \<union> unmodelled_users (m # modules) s)"
      by (auto simp: fun_eq_iff unmodelled_users_def)
    with Cons.IH [OF observe_ok [OF Cons.prems, of m]] show ?case by simp
  qed
  from this [of "[]" "\<lambda>s. {}"] show ?thesis by (simp add: tally_ok_def)
qed

definition example_input :: CompatibilityInput where
  "example_input = \<lparr>ci_ModulePath = ''a/mux'', ci_ModuleVersion = ''v1.8.1'', ci_SPDX = ''MIT'', ci_ElectiveArms = [],
     ci_Origin = OriginModuleRoot, ci_OriginPath = [], ci_ModuleExpression = ''MIT'', ci_Measurement = MeasurementClassified\<rparr>"

theorem closure_clean_iff_witness:
  "cr_Clean (CheckClosureCompatibility [example_input] ''Apache-2.0'')
   \<and> CopyleftStrengthOf ''MIT'' \<noteq> None"
proof -
  have offers: "offers example_input = [''MIT'']" by (simp add: offers_def example_input_def)
  have pair: "CheckPairCompatibility ''MIT'' ''Apache-2.0'' = VerdictCompatible"
    by (simp add: CheckPairCompatibility_def CopyleftStrengthOf_def CanonicalSPDXID_def deprecatedSPDXAliases_def copyleftStrengths_def)
  show ?thesis using closure_clean_iff [of "[example_input]" "''Apache-2.0''"] offers pair by simp
qed

text \<open>
  The coverage holes are exactly the identifiers in use the dataset does not model, sorted, each with
  the number of modules it is used by and the reason recorded for leaving it out, if there is one.
\<close>

lemma coverage_holes_exact:
  fixes modules :: "CompatibilityInput list" and t :: string
  defines "holes \<equiv> cr_CoverageHoles (CheckClosureCompatibility modules t)"
  shows "set (map ch_SPDX holes) = {s. unmodelled_users modules s \<noteq> {}}" "sorted (map ch_SPDX holes)" "distinct (map ch_SPDX holes)"
    "h \<in> set holes \<Longrightarrow> ch_Modules h = card (unmodelled_users modules (ch_SPDX h))"
    "h \<in> set holes \<Longrightarrow> ch_Deliberate h \<longleftrightarrow> CanonicalSPDXID (ch_SPDX h) \<in> fst ` set unmodelledDeliberately"
proof -
  let ?t = "foldl observe [] modules"
  have ok: "distinct (map fst ?t)" "\<And>s. map_of ?t s = (if unmodelled_users modules s = {} then None else Some (unmodelled_users modules s))"
    using tally_modules unfolding tally_ok_def by blast+
  have keys: "set (map fst ?t) = {s. unmodelled_users modules s \<noteq> {}}"
  proof -
    have "s \<in> set (map fst ?t) \<longleftrightarrow> unmodelled_users modules s \<noteq> {}" for s
      using ok(2) [of s] map_of_eq_None_iff [of ?t s] by (simp split: if_splits)
    then show ?thesis by blast
  qed
  have "map ch_SPDX holes = sort (map fst ?t)"
    unfolding holes_def CheckClosure_eq by (simp add: holesResult_def comp_def split_beta)
  then show "set (map ch_SPDX holes) = {s. unmodelled_users modules s \<noteq> {}}" "sorted (map ch_SPDX holes)" "distinct (map ch_SPDX holes)"
    using keys ok(1) by simp_all
  assume "h \<in> set holes"
  then obtain s where s: "s \<in> set (map fst ?t)" "h = (case UnmodelledReason s of (reason, deliberate) \<Rightarrow>
     \<lparr>ch_SPDX = s, ch_Modules = card (the (map_of ?t s)), ch_Deliberate = deliberate, ch_Reason = reason\<rparr>)"
    unfolding holes_def CheckClosure_eq by (auto simp: holesResult_def)
  then show "ch_Modules h = card (unmodelled_users modules (ch_SPDX h))" using keys ok(2) by (auto simp: split_beta)
  show "ch_Deliberate h \<longleftrightarrow> CanonicalSPDXID (ch_SPDX h) \<in> fst ` set unmodelledDeliberately"
    using s(2) map_of_eq_None_iff [of unmodelledDeliberately "CanonicalSPDXID s"]
    by (cases "map_of unmodelledDeliberately (CanonicalSPDXID s)") (simp_all add: UnmodelledReason_def)
qed

text \<open>
  The deprecated spelling of a licence is not its own licence.  A strong licence that some
  detectors still spell without "-only" is the same licence in the dataset, and compatible with
  itself under one spelling, but the pair of its two spellings is reported as unknown.
\<close>

theorem pair_alias_gap:
  "CanonicalSPDXID ''GPL-3.0'' = CanonicalSPDXID ''GPL-3.0-only''
   \<and> CheckPairCompatibility ''GPL-3.0-only'' ''GPL-3.0-only'' = VerdictCompatible
   \<and> CheckPairCompatibility ''GPL-3.0'' ''GPL-3.0-only'' = VerdictUnknownPair
   \<and> CheckPairCompatibility ''GPL-2.0-or-later'' ''GPL-3.0'' = VerdictUnknownPair
   \<and> CheckPairCompatibility ''GPL-2.0-or-later'' ''GPL-3.0-only'' = VerdictCompatible"
  by (simp add: CheckPairCompatibility_def CopyleftStrengthOf_def CanonicalSPDXID_def deprecatedSPDXAliases_def
      copyleftStrengths_def permissiveTargets_def)

end
