(* ===== verification/Order_Keys.thy ===== *)
theory Order_Keys
  imports Sorting_Go
begin

text \<open>
  The contract of a canonical ordering: a strict weak order that ties only on equal elements.
  A comparator that compares the fields of a record in turn meets it when the tuple of those
  fields determines the record.
\<close>

text \<open>The scan that finds the first neighbour out of order.\<close>

fun inOrder :: "('a \<Rightarrow> 'a \<Rightarrow> bool) \<Rightarrow> 'a list \<Rightarrow> bool" where
  "inOrder lt (x # y # r) = (if lt y x then False else inOrder lt (y # r))"
| "inOrder lt _ = True"

locale canonical_less =
  fixes lt :: "'a \<Rightarrow> 'a \<Rightarrow> bool"
  assumes order: "swo lt" and tie: "\<not> lt a b \<Longrightarrow> \<not> lt b a \<Longrightarrow> a = b"
begin

lemma sort_arrangement: "mset xs = mset ys \<Longrightarrow> stable_sort lt xs = stable_sort lt ys"
  by (rule stable_sort_unique [OF order]) (auto intro: tie)

lemma sort_fixed: "sorted_wrt (\<lambda>x y. \<not> lt y x) xs \<Longrightarrow> stable_sort lt xs = xs"
  by (rule sorted_perm_unique [of lt]) (auto intro: tie sorted_stable_sort order)

lemma sort_idem: "stable_sort lt (stable_sort lt xs) = stable_sort lt xs"
  by (rule sort_fixed) (rule sorted_stable_sort [OF order])

text \<open>Two neighbours are out of order if any two elements are.\<close>

lemma inOrder_sorted: "inOrder lt xs \<longleftrightarrow> sorted_wrt (\<lambda>x y. \<not> lt y x) xs"
  by (induction xs rule: induct_list012) (auto dest: swo_negtrans [OF order])

lemma skip_sort: "(if inOrder lt xs then xs else stable_sort lt xs) = stable_sort lt xs"
  by (simp add: inOrder_sorted sort_fixed)

end

text \<open>A comparator that is the order of an injective key.\<close>

lemma canonical_by_key:
  assumes "\<And>a b. lt a b \<longleftrightarrow> k a < (k b :: 'k::linorder)" "\<And>a b. k a = k b \<Longrightarrow> a = b"
  shows "canonical_less lt"
proof
  have "lt = (\<lambda>a b. k a < k b)" using assms(1) by (intro ext) simp
  then show "swo lt" by (simp add: swo_key)
  show "a = b" if "\<not> lt a b" "\<not> lt b a" for a b
    using that assms by (metis linorder_neqE)
qed

text \<open>The steps of a comparator chain, read as steps of a tuple's order.\<close>

lemma less_pair: "(a, b) < (c, d) \<longleftrightarrow> (if a \<noteq> c then a < c else b < d)"
  for a c :: "'a::linorder" and b d :: "'b::linorder"
  by auto

lemma less_flag: "(if x \<noteq> y then \<not> x else P) = (if x \<noteq> y then x < y else P)"
  by auto

lemma less_flag_last: "(if x \<noteq> y then \<not> x else False) \<longleftrightarrow> x < y"
  by auto

text \<open>Lists compared by length and then by the first element that differs.\<close>

fun firstDiff :: "('a \<Rightarrow> 'a \<Rightarrow> bool) \<Rightarrow> 'a list \<Rightarrow> 'a list \<Rightarrow> bool" where
  "firstDiff lt (x # xs) (y # ys) = (if x \<noteq> y then lt x y else firstDiff lt xs ys)"
| "firstDiff lt _ _ = False"

definition listLess :: "('a \<Rightarrow> 'a \<Rightarrow> bool) \<Rightarrow> 'a list \<Rightarrow> 'a list \<Rightarrow> bool" where
  "listLess lt a b = (if length a \<noteq> length b then length a < length b else firstDiff lt a b)"

lemma listLess_key:
  assumes "\<And>a b. lt a b \<longleftrightarrow> k a < (k b :: 'k::linorder)" "\<And>a b. k a = k b \<Longrightarrow> a = b"
  shows "listLess lt a b \<longleftrightarrow> (length a, map k a) < (length b, map k b)"
proof -
  have "length a = length b \<Longrightarrow> firstDiff lt a b \<longleftrightarrow> map k a < map k b"
  proof (induction a b rule: list_induct2)
    case (Cons x xs y ys)
    then show ?case using assms by (auto split: if_splits)
  qed simp
  then show ?thesis by (auto simp: listLess_def)
qed

text \<open>
  The loop that compares two slices, shorter first and then element by element, and says whether it
  decided.  Where the comparator of the elements is the order of an injective key, so is this one.
\<close>

fun sliceLoop :: "('a \<Rightarrow> 'a \<Rightarrow> bool) \<Rightarrow> 'a list \<Rightarrow> 'a list \<Rightarrow> bool \<times> bool" where
  "sliceLoop lt (x # xs) (y # ys) =
     (if lt x y then (True, True) else if lt y x then (False, True) else sliceLoop lt xs ys)"
| "sliceLoop lt _ _ = (False, False)"

definition sliceLess :: "'a list \<Rightarrow> 'a list \<Rightarrow> ('a \<Rightarrow> 'a \<Rightarrow> bool) \<Rightarrow> bool \<times> bool" where
  "sliceLess a b lt =
     (if length a \<noteq> length b then (length a < length b, True) else sliceLoop lt a b)"

definition sliceKey :: "('a \<Rightarrow> 'k) \<Rightarrow> 'a list \<Rightarrow> nat \<times> 'k list" where
  "sliceKey k xs = (length xs, map k xs)"

lemma sliceKey_inj:
  assumes "\<And>a b. k a = k b \<Longrightarrow> a = b" "sliceKey k xs = sliceKey k ys"
  shows "xs = ys"
proof -
  have "inj k" using assms(1) by (rule injI)
  with assms(2) show ?thesis unfolding sliceKey_def by (auto dest: map_injective)
qed

lemma sliceLess_key:
  assumes "\<And>a b. lt a b \<longleftrightarrow> k a < (k b :: 'k::linorder)" "\<And>a b. k a = k b \<Longrightarrow> a = b"
  shows "fst (sliceLess a b lt) \<longleftrightarrow> sliceKey k a < sliceKey k b" "snd (sliceLess a b lt) \<longleftrightarrow> sliceKey k a \<noteq> sliceKey k b"
proof -
  have loop: "length a = length b \<Longrightarrow> sliceLoop lt a b = (map k a < map k b, map k a \<noteq> map k b)"
  proof (induction a b rule: list_induct2)
    case (Cons x xs y ys)
    then show ?case using assms(1) by (cases "k x" "k y" rule: linorder_cases) auto
  qed simp
  then show "fst (sliceLess a b lt) \<longleftrightarrow> sliceKey k a < sliceKey k b"
    by (auto simp: sliceLess_def sliceKey_def)
  show "snd (sliceLess a b lt) \<longleftrightarrow> sliceKey k a \<noteq> sliceKey k b"
    using loop by (auto simp: sliceLess_def sliceKey_def)
qed

section \<open>One collection in any arrangement\<close>

text \<open>The same collection in another order, its members in another arrangement.\<close>

definition rearranged :: "('a \<Rightarrow> 'a \<Rightarrow> bool) \<Rightarrow> 'a list \<Rightarrow> 'a list \<Rightarrow> bool" where
  "rearranged same xs ys \<longleftrightarrow> (\<exists>zs. mset xs = mset zs \<and> list_all2 same zs ys)"

lemma rearranged_mset:
  assumes "rearranged same xs ys" "\<And>a b. same a b \<Longrightarrow> f a = f b"
  shows "mset (map f xs) = mset (map f ys)"
proof -
  obtain zs where zs: "mset xs = mset zs" "list_all2 same zs ys" using assms(1) by (auto simp: rearranged_def)
  have "map f zs = map f ys" using zs(2) by (induction rule: list_all2_induct) (auto intro: assms(2))
  with zs(1) show ?thesis by (metis mset_map)
qed

end
