(* ===== verification/License_Types.thy ===== *)
theory License_Types
  imports Complex_Main Coordinate Order_Keys Go_Strings
begin

text \<open>
  The licence record and its parts (\<open>internal/license/domain/types.go\<close>, \<open>copyright.go\<close>,
  \<open>provenance.go\<close>, \<open>licensecoverage.go\<close>) and the canonical order of each of its collections
  (\<open>ordering.go\<close>).

  A confidence is a \<open>float64\<close>: a rational number or NaN.  Infinities are left out, because a confidence
  is a coverage fraction; so is the sign of zero, which no comparison tells apart.
\<close>

subsection \<open>Confidences\<close>

datatype float64 = NaN | Num rat

fun IsNaN :: "float64 \<Rightarrow> bool" where
  "IsNaN NaN = True"
| "IsNaN (Num x) = False"

text \<open>Go's \<open><\<close> and \<open>==\<close> on \<open>float64\<close>: no comparison with NaN holds.\<close>

fun float_less :: "float64 \<Rightarrow> float64 \<Rightarrow> bool" where
  "float_less (Num x) (Num y) = (x < y)"
| "float_less _ _ = False"

fun float_eq :: "float64 \<Rightarrow> float64 \<Rightarrow> bool" where
  "float_eq (Num x) (Num y) = (x = y)"
| "float_eq _ _ = False"

subsection \<open>Types\<close>

datatype LicenseStatus =
    LicenceStatusUnknown | LicenseStatusDetected | LicenceStatusAmbiguous | LicenseStatusMultiple
  | LicenseStatusNone | LicenseStatusUnclassified | LicenseStatusExtractionFailed
  | LicenseStatusCancelled | LicenseStatusPerFile

fun status_String :: "LicenseStatus \<Rightarrow> string" where
  "status_String LicenseStatusDetected = ''Detected''"
| "status_String LicenceStatusAmbiguous = ''Ambiguous''"
| "status_String LicenseStatusMultiple = ''Multiple''"
| "status_String LicenseStatusNone = ''None''"
| "status_String LicenseStatusUnclassified = ''Unclassified''"
| "status_String LicenseStatusExtractionFailed = ''ExtractionFailed''"
| "status_String LicenseStatusCancelled = ''Cancelled''"
| "status_String LicenseStatusPerFile = ''PerFile''"
| "status_String LicenceStatusUnknown = ''Unknown''"

text \<open>The decoding switch of \<open>UnmarshalJSON\<close>, after the JSON string has been read.\<close>

definition status_Parse :: "string \<Rightarrow> LicenseStatus option" where
  "status_Parse s =
     (if s = ''Unknown'' then Some LicenceStatusUnknown
      else if s = ''Detected'' then Some LicenseStatusDetected
      else if s = ''Ambiguous'' then Some LicenceStatusAmbiguous
      else if s = ''Multiple'' then Some LicenseStatusMultiple
      else if s = ''None'' then Some LicenseStatusNone
      else if s = ''Unclassified'' then Some LicenseStatusUnclassified
      else if s = ''ExtractionFailed'' then Some LicenseStatusExtractionFailed
      else if s = ''Cancelled'' then Some LicenseStatusCancelled
      else if s = ''PerFile'' then Some LicenseStatusPerFile
      else None)"

datatype CopyrightStatus =
    CopyrightStatusNotAnalysed | CopyrightStatusFound | CopyrightStatusNoneFound | CopyrightStatusExtractionFailed

datatype LicenseCoverage =
    CoverageNotDetermined | CoverageModuleCode | CoverageDocumentation | CoverageBundledComponent
  | CoverageAttributionOnly

fun coverage_String :: "LicenseCoverage \<Rightarrow> string" where
  "coverage_String CoverageModuleCode = ''ModuleCode''"
| "coverage_String CoverageDocumentation = ''Documentation''"
| "coverage_String CoverageBundledComponent = ''BundledComponent''"
| "coverage_String CoverageAttributionOnly = ''AttributionOnly''"
| "coverage_String CoverageNotDetermined = ''NotDetermined''"

fun Covers :: "LicenseCoverage \<Rightarrow> string" where
  "Covers CoverageModuleCode = ''covers this module'' @ [CHR 0x27] @ ''s code''"
| "Covers CoverageDocumentation = ''covers documentation''"
| "Covers CoverageBundledComponent = ''covers a bundled component''"
| "Covers CoverageAttributionOnly = ''grants nothing: an attribution document''"
| "Covers CoverageNotDetermined = ''covers something this artefact does not establish''"

record CopyrightStatement =
  cs_Verbatim :: string
  cs_Holders :: "string list"
  cs_Years :: string
  cs_Source :: string

record AltMatch =
  am_SPDX :: string
  am_Confidence :: float64

record LicenseFileEntry =
  le_Path :: string
  le_SPDX :: string
  le_Confidence :: float64
  le_FileHash :: string
  le_FileSize :: int
  le_IsVendored :: bool
  le_IsPerFile :: bool
  le_AltMatches :: "AltMatch list"
  le_CopyrightStatements :: "CopyrightStatement list"
  le_LowConfidenceSPDX :: string
  le_LowConfidenceCoverage :: float64
  le_Coverage :: LicenseCoverage

record EmbeddedComponent =
  ec_PathPrefix :: string
  ec_SPDXs :: "string list"

record EffectiveLicenseSet =
  ef_RootSPDXs :: "string list"
  ef_Components :: "EmbeddedComponent list"
  ef_AllSPDXs :: "string list"

record PackageLicense =
  pl_PackagePath :: string
  pl_SPDX :: string
  pl_Confidence :: float64
  pl_SourceFile :: string

datatype ProvenanceSignal =
    ProvenanceSignalInboundOutbound | ProvenanceSignalCLARequired | ProvenanceSignalDCORequired
  | ProvenanceSignalAuthorsFile | ProvenanceSignalContributorsFile | ProvenanceSignalPatentsFile

datatype ChainOfTitleConfidence =
    ChainOfTitleNotAnalysed | ChainOfTitleHigh | ChainOfTitleMedium | ChainOfTitleLow

record ProvenanceSummary =
  ps_Signals :: "ProvenanceSignal list"
  ps_Confidence :: ChainOfTitleConfidence

record LicenseRecord =
  lr_SchemaVersion :: string
  lr_Ecosystem :: string
  lr_Coordinate :: ModuleCoordinate
  lr_Role :: string
  lr_PrimarySPDX :: string
  lr_Expression :: string
  lr_ExpressionBasis :: string
  lr_BundledSPDXs :: "string list"
  lr_PrimaryConfidence :: float64
  lr_LicenseFiles :: "LicenseFileEntry list"
  lr_EffectiveSet :: EffectiveLicenseSet
  lr_PackageLicenses :: "PackageLicense list"
  lr_OverallStatus :: LicenseStatus
  lr_CopyrightStatus :: CopyrightStatus
  lr_Provenance :: ProvenanceSummary
  lr_FailureDetail :: string
  lr_ExtractedAt :: instant
  lr_PipelineVersion :: string
  lr_ContentHash :: string
  lr_ArtefactIdentity :: string
  lr_SourceContentHash :: string

lemma status_Parse_String: "status_Parse (status_String x) = Some x"
  by (cases x) (simp_all add: status_Parse_def)

subsection \<open>Chain of title\<close>

definition HasSignal :: "ProvenanceSummary \<Rightarrow> ProvenanceSignal \<Rightarrow> bool" where
  "HasSignal p s = List.member (ps_Signals p) s"

definition hasContributionLicensingStatement :: "ProvenanceSummary \<Rightarrow> bool" where
  "hasContributionLicensingStatement p =
     (HasSignal p ProvenanceSignalInboundOutbound \<or> HasSignal p ProvenanceSignalCLARequired
      \<or> HasSignal p ProvenanceSignalDCORequired)"

definition DeriveProvenanceConfidence :: "ProvenanceSummary \<Rightarrow> CopyrightStatus \<Rightarrow> ChainOfTitleConfidence" where
  "DeriveProvenanceConfidence p copyright =
     (if hasContributionLicensingStatement p then ChainOfTitleHigh
      else if copyright = CopyrightStatusFound
        \<or> HasSignal p ProvenanceSignalAuthorsFile \<or> HasSignal p ProvenanceSignalContributorsFile
        \<or> HasSignal p ProvenanceSignalPatentsFile then ChainOfTitleMedium
      else ChainOfTitleLow)"

subsection \<open>Canonical orders\<close>

text \<open>
  A comparison by one key is a pair: the answer, and whether the key decided.  A key that does not
  decide lets the caller fall through to the next one.
\<close>

fun confidenceAsc :: "float64 \<Rightarrow> float64 \<Rightarrow> bool \<times> bool" where
  "confidenceAsc NaN NaN = (False, False)"
| "confidenceAsc NaN (Num y) = (False, True)"
| "confidenceAsc (Num x) NaN = (True, True)"
| "confidenceAsc (Num x) (Num y) = (if x \<noteq> y then (x < y, True) else (False, False))"

fun confidenceDesc :: "float64 \<Rightarrow> float64 \<Rightarrow> bool \<times> bool" where
  "confidenceDesc NaN NaN = (False, False)"
| "confidenceDesc NaN (Num y) = (False, True)"
| "confidenceDesc (Num x) NaN = (True, True)"
| "confidenceDesc (Num x) (Num y) = (if x \<noteq> y then (x > y, True) else (False, False))"

definition AltMatchLess :: "AltMatch \<Rightarrow> AltMatch \<Rightarrow> bool" where
  "AltMatchLess a b =
     (if snd (confidenceDesc (am_Confidence a) (am_Confidence b))
      then fst (confidenceDesc (am_Confidence a) (am_Confidence b))
      else am_SPDX a < am_SPDX b)"

definition stringLess :: "string \<Rightarrow> string \<Rightarrow> bool" where
  "stringLess a b = (a < b)"

definition CopyrightStatementLess :: "CopyrightStatement \<Rightarrow> CopyrightStatement \<Rightarrow> bool" where
  "CopyrightStatementLess a b =
     (if cs_Verbatim a \<noteq> cs_Verbatim b then cs_Verbatim a < cs_Verbatim b
      else if cs_Source a \<noteq> cs_Source b then cs_Source a < cs_Source b
      else if cs_Years a \<noteq> cs_Years b then cs_Years a < cs_Years b
      else fst (sliceLess (cs_Holders a) (cs_Holders b) stringLess))"

definition LicenseFileEntryLess :: "LicenseFileEntry \<Rightarrow> LicenseFileEntry \<Rightarrow> bool" where
  "LicenseFileEntryLess a b =
     (if le_Path a \<noteq> le_Path b then le_Path a < le_Path b
      else if le_SPDX a \<noteq> le_SPDX b then le_SPDX a < le_SPDX b
      else if snd (confidenceAsc (le_Confidence a) (le_Confidence b))
        then fst (confidenceAsc (le_Confidence a) (le_Confidence b))
      else if le_FileHash a \<noteq> le_FileHash b then le_FileHash a < le_FileHash b
      else if le_FileSize a \<noteq> le_FileSize b then le_FileSize a < le_FileSize b
      else if le_IsVendored a \<noteq> le_IsVendored b then \<not> le_IsVendored a
      else if le_IsPerFile a \<noteq> le_IsPerFile b then \<not> le_IsPerFile a
      else if le_LowConfidenceSPDX a \<noteq> le_LowConfidenceSPDX b
        then le_LowConfidenceSPDX a < le_LowConfidenceSPDX b
      else if snd (confidenceAsc (le_LowConfidenceCoverage a) (le_LowConfidenceCoverage b))
        then fst (confidenceAsc (le_LowConfidenceCoverage a) (le_LowConfidenceCoverage b))
      else if snd (sliceLess (le_AltMatches a) (le_AltMatches b) AltMatchLess)
        then fst (sliceLess (le_AltMatches a) (le_AltMatches b) AltMatchLess)
      else fst (sliceLess (le_CopyrightStatements a) (le_CopyrightStatements b) CopyrightStatementLess))"

definition RootCandidateLess :: "LicenseFileEntry \<Rightarrow> LicenseFileEntry \<Rightarrow> bool" where
  "RootCandidateLess a b =
     (if snd (confidenceDesc (le_Confidence a) (le_Confidence b))
      then fst (confidenceDesc (le_Confidence a) (le_Confidence b))
      else if le_Path a \<noteq> le_Path b then le_Path a < le_Path b
      else le_SPDX a < le_SPDX b)"

text \<open>
  \<open>sortSlice\<close> is \<open>sort.Slice\<close>, which promises no stability; the comparators above tie only on elements
  that agree on every field they carry, so the stable sort is as good as any.
\<close>

definition sortSlice :: "'a list \<Rightarrow> ('a \<Rightarrow> 'a \<Rightarrow> bool) \<Rightarrow> 'a list" where
  "sortSlice s lt = stable_sort lt s"

definition sortEntryLists :: "LicenseFileEntry \<Rightarrow> LicenseFileEntry" where
  "sortEntryLists f =
     f\<lparr>le_AltMatches := sortSlice (le_AltMatches f) AltMatchLess,
       le_CopyrightStatements := sortSlice (le_CopyrightStatements f) CopyrightStatementLess\<rparr>"

definition sortLicenseFiles :: "LicenseFileEntry list \<Rightarrow> LicenseFileEntry list" where
  "sortLicenseFiles files = sortSlice (map sortEntryLists files) LicenseFileEntryLess"

definition SortFiles :: "LicenseRecord \<Rightarrow> LicenseRecord" where
  "SortFiles r = r\<lparr>lr_LicenseFiles := sortLicenseFiles (lr_LicenseFiles r)\<rparr>"

subsection \<open>Keys that decide\<close>

text \<open>
  A decided comparison: the answer is a strict weak order, and the key decides exactly when one side
  comes first.
\<close>

definition decides :: "('k \<Rightarrow> 'k \<Rightarrow> bool \<times> bool) \<Rightarrow> bool" where
  "decides f \<longleftrightarrow> swo (\<lambda>a b. fst (f a b)) \<and> (\<forall>a b. snd (f a b) \<longleftrightarrow> fst (f a b) \<or> fst (f b a))"

lemma swo_image: "swo r \<Longrightarrow> swo (\<lambda>a b. r (k a) (k b))"
  by (rule swoI) (metis swo_irrefl, metis swo_trans, metis swo_negtrans)

lemma decides_iff: "decides f \<Longrightarrow> snd (f a b) \<longleftrightarrow> fst (f a b) \<or> fst (f b a)"
  by (simp add: decides_def)

lemma swo_decided [swo_intros]:
  assumes f: "decides f" and r: "swo r"
  shows "swo (\<lambda>a b. if snd (f (k a) (k b)) then fst (f (k a) (k b)) else r a b)"
proof -
  have "swo (\<lambda>a b. fst (f (k a) (k b)))"
    by (rule swo_image [of "\<lambda>a b. fst (f a b)"]) (use f in \<open>simp add: decides_def\<close>)
  moreover have "(\<lambda>a b. if snd (f (k a) (k b)) then fst (f (k a) (k b)) else r a b)
      = (\<lambda>a b. fst (f (k a) (k b)) \<or> (\<not> fst (f (k b) (k a)) \<and> r a b))"
    using decides_iff [OF f] swo_asym [OF calculation] by (intro ext) auto
  ultimately show ?thesis using swo_lex [OF _ r] by simp
qed

lemma swo_decided_last [swo_intros]: "decides f \<Longrightarrow> swo (\<lambda>a b. fst (f (k a) (k b)))"
  by (rule swo_image [of "\<lambda>a b. fst (f a b)"]) (simp add: decides_def)

lemma swo_confidence: "swo (\<lambda>a b. fst (confidenceAsc a b))" "swo (\<lambda>a b. fst (confidenceDesc a b))"
proof -
  show "swo (\<lambda>a b. fst (confidenceAsc a b))"
  proof (rule swoI)
    show "\<not> fst (confidenceAsc x x)" for x by (cases x) simp_all
    show "fst (confidenceAsc x y) \<Longrightarrow> fst (confidenceAsc y z) \<Longrightarrow> fst (confidenceAsc x z)" for x y z
      by (cases x; cases y; cases z) (auto split: if_splits)
    show "fst (confidenceAsc x z) \<Longrightarrow> fst (confidenceAsc x y) \<or> fst (confidenceAsc y z)" for x y z
      by (cases x; cases y; cases z) (auto split: if_splits)
  qed
  show "swo (\<lambda>a b. fst (confidenceDesc a b))"
  proof (rule swoI)
    show "\<not> fst (confidenceDesc x x)" for x by (cases x) simp_all
    show "fst (confidenceDesc x y) \<Longrightarrow> fst (confidenceDesc y z) \<Longrightarrow> fst (confidenceDesc x z)" for x y z
      by (cases x; cases y; cases z) (auto split: if_splits)
    show "fst (confidenceDesc x z) \<Longrightarrow> fst (confidenceDesc x y) \<or> fst (confidenceDesc y z)" for x y z
      by (cases x; cases y; cases z) (auto split: if_splits)
  qed
qed

lemma decides_confidence [swo_intros]: "decides confidenceAsc" "decides confidenceDesc"
proof -
  have "snd (confidenceAsc a b) \<longleftrightarrow> fst (confidenceAsc a b) \<or> fst (confidenceAsc b a)" for a b
    by (cases a; cases b) auto
  then show "decides confidenceAsc" using swo_confidence(1) unfolding decides_def by blast
  have "snd (confidenceDesc a b) \<longleftrightarrow> fst (confidenceDesc a b) \<or> fst (confidenceDesc b a)" for a b
    by (cases a; cases b) auto
  then show "decides confidenceDesc" using swo_confidence(2) unfolding decides_def by blast
qed

lemma confidence_tie: "\<not> snd (confidenceAsc a b) \<longleftrightarrow> a = b" "\<not> snd (confidenceDesc a b) \<longleftrightarrow> a = b"
  by (cases a; cases b; simp)+

lemma sliceLoop_refl: "swo lt \<Longrightarrow> sliceLoop lt a a = (False, False)"
  by (induction a) (auto simp: swo_irrefl)

lemma sliceLoop_decides:
  assumes "swo lt" "length a = length b"
  shows "snd (sliceLoop lt a b) \<longleftrightarrow> fst (sliceLoop lt a b) \<or> fst (sliceLoop lt b a)"
  using assms(2) by (induction a b rule: list_induct2) (auto dest: swo_asym [OF assms(1)])

lemma sliceLoop_fst:
  "swo lt \<Longrightarrow> fst (sliceLoop lt (x # xs) (y # ys)) \<longleftrightarrow> lt x y \<or> \<not> lt y x \<and> fst (sliceLoop lt xs ys)"
  by (auto dest: swo_asym)

lemma sliceLoop_trans:
  assumes "swo lt" "length a = length b" "length b = length c"
  shows "(fst (sliceLoop lt a b) \<longrightarrow> fst (sliceLoop lt b c) \<longrightarrow> fst (sliceLoop lt a c))
    \<and> (fst (sliceLoop lt a c) \<longrightarrow> fst (sliceLoop lt a b) \<or> fst (sliceLoop lt b c))"
  using assms(2,3)
proof (induction a b c rule: list_induct3)
  case (Cons x xs y ys z zs)
  have "lt x y \<Longrightarrow> \<not> lt z y \<Longrightarrow> lt x z" "\<not> lt y x \<Longrightarrow> lt y z \<Longrightarrow> lt x z"
    "lt x y \<Longrightarrow> lt y z \<Longrightarrow> lt x z" "lt x z \<Longrightarrow> lt x y \<or> lt y z" "lt z x \<Longrightarrow> lt z y \<or> lt y x"
    "lt y x \<Longrightarrow> lt y z \<or> lt z x" "lt z y \<Longrightarrow> lt z x \<or> lt x y"
    "lt x z \<Longrightarrow> \<not> lt z x" "lt x y \<Longrightarrow> \<not> lt y x" "lt y z \<Longrightarrow> \<not> lt z y"
    by (meson swo_trans [OF assms(1)] swo_negtrans [OF assms(1)] swo_asym [OF assms(1)])+
  with Cons.IH show ?case unfolding sliceLoop_fst [OF assms(1)] by argo
qed simp

lemma sliceLess_decides [swo_intros]:
  assumes "swo lt"
  shows "decides (\<lambda>a b. sliceLess a b lt)"
  unfolding decides_def
proof (intro conjI allI)
  show "swo (\<lambda>a b. fst (sliceLess a b lt))"
  proof (rule swoI)
    show "\<not> fst (sliceLess x x lt)" for x by (simp add: sliceLess_def sliceLoop_refl [OF assms])
    show "fst (sliceLess x y lt) \<Longrightarrow> fst (sliceLess y z lt) \<Longrightarrow> fst (sliceLess x z lt)" for x y z
      using sliceLoop_trans [OF assms, of x y z] by (auto simp: sliceLess_def split: if_splits)
    show "fst (sliceLess x z lt) \<Longrightarrow> fst (sliceLess x y lt) \<or> fst (sliceLess y z lt)" for x y z
      using sliceLoop_trans [OF assms, of x y z] by (auto simp: sliceLess_def split: if_splits)
  qed
  show "snd (sliceLess a b lt) \<longleftrightarrow> fst (sliceLess a b lt) \<or> fst (sliceLess b a lt)" for a b
    using sliceLoop_decides [OF assms, of a b] by (auto simp: sliceLess_def)
qed

lemma sliceLess_tie:
  assumes "\<And>x y. \<not> lt x y \<Longrightarrow> \<not> lt y x \<Longrightarrow> x = y" "\<not> snd (sliceLess a b lt)"
  shows "a = b"
proof -
  have len: "length a = length b" and l: "\<not> snd (sliceLoop lt a b)"
    using assms(2) by (auto simp: sliceLess_def split: if_splits)
  from len l show ?thesis
    by (induction a b rule: list_induct2) (auto split: if_splits intro: assms(1))
qed

lemma swo_stringLess: "swo stringLess"
  unfolding stringLess_def [abs_def] by (rule swo_key)

lemma swo_AltMatchLess: "swo AltMatchLess"
  unfolding AltMatchLess_def [abs_def] by (intro swo_intros)

lemma swo_CopyrightStatementLess: "swo CopyrightStatementLess"
  unfolding CopyrightStatementLess_def [abs_def] by (intro swo_intros swo_stringLess)

lemma swo_LicenseFileEntryLess: "swo LicenseFileEntryLess"
  unfolding LicenseFileEntryLess_def [abs_def]
  by (intro swo_intros swo_AltMatchLess swo_CopyrightStatementLess)

lemma swo_RootCandidateLess: "swo RootCandidateLess"
  unfolding RootCandidateLess_def [abs_def] by (intro swo_intros)

text \<open>Ties: two elements no comparator separates agree on every field it reads.\<close>

lemma tie_key:
  "\<not> (if x \<noteq> y then x < (y :: 'k::linorder) else P) \<Longrightarrow> \<not> (if y \<noteq> x then y < x else Q) \<Longrightarrow> x = y \<and> \<not> P \<and> \<not> Q"
  by (auto split: if_splits)

lemma tie_flag: "\<not> (if x \<noteq> y then \<not> x else P) \<Longrightarrow> \<not> (if y \<noteq> x then \<not> y else Q) \<Longrightarrow> x = y \<and> \<not> P \<and> \<not> Q"
  by (auto split: if_splits)

lemma tie_decided:
  assumes "decides f" "\<And>u v. \<not> snd (f u v) \<Longrightarrow> u = v"
    and "\<not> (if snd (f x y) then fst (f x y) else P)" "\<not> (if snd (f y x) then fst (f y x) else Q)"
  shows "x = y \<and> \<not> P \<and> \<not> Q"
proof -
  have "\<not> snd (f x y)" "\<not> snd (f y x)" using assms(3,4) decides_iff [OF assms(1), of x y]
    decides_iff [OF assms(1), of y x] by (auto split: if_splits)
  with assms(2-4) show ?thesis by auto
qed

lemma tie_last:
  assumes "decides f" "\<And>u v. \<not> snd (f u v) \<Longrightarrow> u = v" "\<not> fst (f x y)" "\<not> fst (f y x)"
  shows "x = y"
  using assms(2-4) decides_iff [OF assms(1), of x y] by auto

lemma confidence_ties: "\<not> snd (confidenceAsc u v) \<Longrightarrow> u = v" "\<not> snd (confidenceDesc u v) \<Longrightarrow> u = v"
  by (simp_all add: confidence_tie)

lemma AltMatchLess_tie:
  assumes "\<not> AltMatchLess a b" "\<not> AltMatchLess b a"
  shows "a = b"
  using tie_decided [OF decides_confidence(2) confidence_ties(2) assms [unfolded AltMatchLess_def]] by auto

lemma CopyrightStatementLess_tie:
  assumes "\<not> CopyrightStatementLess a b" "\<not> CopyrightStatementLess b a"
  shows "a = b"
proof -
  note h = assms [unfolded CopyrightStatementLess_def]
  note v = tie_key [OF h]
  note s = tie_key [OF v [THEN conjunct2, THEN conjunct1] v [THEN conjunct2, THEN conjunct2]]
  note y = tie_key [OF s [THEN conjunct2, THEN conjunct1] s [THEN conjunct2, THEN conjunct2]]
  have "cs_Holders a = cs_Holders b"
    by (rule tie_last [OF sliceLess_decides [OF swo_stringLess] sliceLess_tie])
      (use y in \<open>auto simp: stringLess_def\<close>)
  with v s y show ?thesis by simp
qed

text \<open>Two entries that tie differ at most in their derived coverage.\<close>

lemma LicenseFileEntryLess_tie:
  assumes "\<not> LicenseFileEntryLess a b" "\<not> LicenseFileEntryLess b a"
  shows "a = b\<lparr>le_Coverage := le_Coverage a\<rparr>"
proof -
  note n = conjunct2 [THEN conjunct1] and m = conjunct2 [THEN conjunct2]
  note h = assms [unfolded LicenseFileEntryLess_def]
  note k1 = tie_key [OF h]
  note k2 = tie_key [OF n [OF k1] m [OF k1]]
  note k3 = tie_decided [OF decides_confidence(1) confidence_ties(1) n [OF k2] m [OF k2]]
  note k4 = tie_key [OF n [OF k3] m [OF k3]]
  note k5 = tie_key [OF n [OF k4] m [OF k4]]
  note k6 = tie_flag [OF n [OF k5] m [OF k5]]
  note k7 = tie_flag [OF n [OF k6] m [OF k6]]
  note k8 = tie_key [OF n [OF k7] m [OF k7]]
  note k9 = tie_decided [OF decides_confidence(1) confidence_ties(1) n [OF k8] m [OF k8]]
  note k10 = tie_decided [OF sliceLess_decides [OF swo_AltMatchLess] sliceLess_tie [OF AltMatchLess_tie]
    n [OF k9] m [OF k9]]
  have "le_CopyrightStatements a = le_CopyrightStatements b"
    by (rule tie_last [OF sliceLess_decides [OF swo_CopyrightStatementLess]
        sliceLess_tie [OF CopyrightStatementLess_tie] n [OF k10] m [OF k10]])
  with k1 k2 k3 k4 k5 k6 k7 k8 k9 k10 show ?thesis by simp
qed

lemma RootCandidateLess_tie:
  assumes "\<not> RootCandidateLess a b" "\<not> RootCandidateLess b a"
  shows "le_Confidence a = le_Confidence b \<and> le_Path a = le_Path b \<and> le_SPDX a = le_SPDX b"
proof -
  note h = assms [unfolded RootCandidateLess_def]
  note k1 = tie_decided [OF decides_confidence(2) confidence_ties(2) h]
  note k2 = tie_key [OF k1 [THEN conjunct2, THEN conjunct1] k1 [THEN conjunct2, THEN conjunct2]]
  from k1 k2 show ?thesis by auto
qed

subsection \<open>The canonical form of the licence files\<close>

lemma sortSlice_unique:
  assumes "swo lt" "mset xs = mset ys"
    "\<And>a b. a \<in> set xs \<Longrightarrow> b \<in> set xs \<Longrightarrow> \<not> lt a b \<Longrightarrow> \<not> lt b a \<Longrightarrow> a = b"
  shows "sortSlice xs lt = sortSlice ys lt"
  unfolding sortSlice_def by (rule stable_sort_unique [OF assms])

lemma sortEntryLists_fields [simp]:
  "le_Coverage (sortEntryLists f) = le_Coverage f" "le_Path (sortEntryLists f) = le_Path f"
  by (simp_all add: sortEntryLists_def)

text \<open>One file described twice, with its alternative matches and its copyright lines in any order.\<close>

definition sameFileContents :: "LicenseFileEntry \<Rightarrow> LicenseFileEntry \<Rightarrow> bool" where
  "sameFileContents a b \<longleftrightarrow>
     mset (le_AltMatches a) = mset (le_AltMatches b)
     \<and> mset (le_CopyrightStatements a) = mset (le_CopyrightStatements b)
     \<and> a\<lparr>le_AltMatches := [], le_CopyrightStatements := []\<rparr> = b\<lparr>le_AltMatches := [], le_CopyrightStatements := []\<rparr>"

lemma sortEntryLists_same:
  assumes "sameFileContents a b"
  shows "sortEntryLists a = sortEntryLists b"
proof -
  have "sortSlice (le_AltMatches a) AltMatchLess = sortSlice (le_AltMatches b) AltMatchLess"
    "sortSlice (le_CopyrightStatements a) CopyrightStatementLess
      = sortSlice (le_CopyrightStatements b) CopyrightStatementLess"
    using assms swo_AltMatchLess swo_CopyrightStatementLess AltMatchLess_tie CopyrightStatementLess_tie
    unfolding sameFileContents_def by (blast intro: sortSlice_unique)+
  moreover obtain p s c h z v f al cs ls lc g where a: "a = \<lparr>le_Path = p, le_SPDX = s, le_Confidence = c,
      le_FileHash = h, le_FileSize = z, le_IsVendored = v, le_IsPerFile = f, le_AltMatches = al,
      le_CopyrightStatements = cs, le_LowConfidenceSPDX = ls, le_LowConfidenceCoverage = lc, le_Coverage = g\<rparr>"
    by (cases a) auto
  ultimately show ?thesis using assms unfolding sameFileContents_def sortEntryLists_def
    by (cases b) simp
qed

lemma sortLicenseFiles_same:
  assumes "mset files = mset arranged" "list_all2 sameFileContents arranged others"
    "\<forall>f \<in> set files. le_Coverage f = CoverageNotDetermined"
  shows "sortLicenseFiles files = sortLicenseFiles others"
proof -
  have eq: "map sortEntryLists arranged = map sortEntryLists others"
    using assms(2) by (induction rule: list_all2_induct) (auto intro: sortEntryLists_same)
  then have ms: "mset (map sortEntryLists files) = mset (map sortEntryLists others)"
    using assms(1) by (metis mset_map)
  have tie: "a = b" if "a \<in> set (map sortEntryLists files)" "b \<in> set (map sortEntryLists files)"
    "\<not> LicenseFileEntryLess a b" "\<not> LicenseFileEntryLess b a" for a b
    using LicenseFileEntryLess_tie [OF that(3,4)] that(1,2) assms(3) by auto
  show ?thesis
    unfolding sortLicenseFiles_def by (rule sortSlice_unique [OF swo_LicenseFileEntryLess ms tie])
qed

text \<open>
  Rearranging the files of a record, or the alternative matches and copyright lines inside a file,
  leaves the sorted list as it was: the sealed bytes do not depend on the order the archive was walked
  in.  Coverage is not part of the sealed form and is still at its zero value when files are sorted.
\<close>

theorem license_files_canonical:
  assumes "mset files = mset arranged" "list_all2 sameFileContents arranged others"
    "\<forall>f \<in> set files. le_Coverage f = CoverageNotDetermined"
  shows "sortLicenseFiles files = sortLicenseFiles others
    \<and> mset (sortLicenseFiles files) = mset (map sortEntryLists files)
    \<and> sorted_wrt (\<lambda>a b. LicenseFileEntryLess a b \<or> a = b) (sortLicenseFiles files)"
proof -
  have tie: "a = b" if "a \<in> set (map sortEntryLists files)" "b \<in> set (map sortEntryLists files)"
    "\<not> LicenseFileEntryLess a b" "\<not> LicenseFileEntryLess b a" for a b
    using LicenseFileEntryLess_tie [OF that(3,4)] that(1,2) assms(3) by auto
  have "sortLicenseFiles files = sortLicenseFiles others"
    by (rule sortLicenseFiles_same [OF assms])
  moreover have perm: "mset (sortLicenseFiles files) = mset (map sortEntryLists files)"
    by (simp add: sortLicenseFiles_def sortSlice_def)
  moreover have "sorted_wrt (\<lambda>a b. \<not> LicenseFileEntryLess b a) (sortLicenseFiles files)"
    unfolding sortLicenseFiles_def sortSlice_def by (rule sorted_stable_sort [OF swo_LicenseFileEntryLess])
  then have "sorted_wrt (\<lambda>a b. LicenseFileEntryLess a b \<or> a = b) (sortLicenseFiles files)"
    by (elim sorted_wrt_mono_rel [rotated])
      (use tie in \<open>simp add: sortLicenseFiles_def sortSlice_def; blast\<close>)
  ultimately show ?thesis by blast
qed

definition exampleEntry :: "string \<Rightarrow> string \<Rightarrow> LicenseFileEntry" where
  "exampleEntry path spdx =
     \<lparr>le_Path = path, le_SPDX = spdx, le_Confidence = Num 1, le_FileHash = ''sha256:'' @ path, le_FileSize = 11,
      le_IsVendored = False, le_IsPerFile = False,
      le_AltMatches = [\<lparr>am_SPDX = ''MIT'', am_Confidence = Num (1 / 2)\<rparr>, \<lparr>am_SPDX = ''ISC'', am_Confidence = NaN\<rparr>],
      le_CopyrightStatements = [], le_LowConfidenceSPDX = [], le_LowConfidenceCoverage = Num 0,
      le_Coverage = CoverageNotDetermined\<rparr>"

theorem license_files_canonical_witness:
  "sortLicenseFiles [exampleEntry ''LICENSE'' ''MIT'', exampleEntry ''COPYING'' ''MIT'']
     = sortLicenseFiles [exampleEntry ''COPYING'' ''MIT'',
         (exampleEntry ''LICENSE'' ''MIT'')\<lparr>le_AltMatches := rev (le_AltMatches (exampleEntry ''LICENSE'' ''MIT''))\<rparr>]"
  by (rule license_files_canonical [THEN conjunct1,
        where arranged1 = "[exampleEntry ''COPYING'' ''MIT'', exampleEntry ''LICENSE'' ''MIT'']"])
    (simp_all add: exampleEntry_def sameFileContents_def)

end
