(* ===== verification/License_Compound.thy ===== *)
theory License_Compound
  imports Go_Strings Sorting_Go
begin

text \<open>
  How the prose of one licence file relates the several grants the file carries
  (\<open>internal/license/domain/compound.go\<close>): an election, a split, a bundled grant, or unstated.  A
  \<open>(string, bool)\<close> result whose string is read only when the flag is set is an option.
\<close>

subsection \<open>Shapes, readings and phrases\<close>

datatype CompoundShape = ShapeUnstated | ShapeElection | ShapeSplit | ShapeBundledGrant

fun shape_String :: "CompoundShape \<Rightarrow> string" where
  "shape_String ShapeElection = ''election''"
| "shape_String ShapeSplit = ''split''"
| "shape_String ShapeBundledGrant = ''bundled-grant''"
| "shape_String ShapeUnstated = ''unstated''"

record CompoundReading =
  cr_Shape :: CompoundShape
  cr_Own :: "string list"
  cr_Bundled :: "string list"
  cr_Evidence :: string

definition electionPhrases :: "string list" where
  "electionPhrases =
     [''under the terms of either'', ''at your option'', ''either license'', ''either licence'',
      ''dual-licensed'', ''dual licensed'', ''you may choose either'', ''choice of either'']"

definition splitPhrases :: "string list" where
  "splitPhrases =
     [''covered by two different licenses'', ''covered by two different licences'', ''the following files'',
      ''all the remaining'', ''remain licensed under'', ''are licensed under'', ''is licensed under'',
      ''the remaining files'', ''remaining project files'']"

definition licenceTextAnchors :: "(string \<times> string) list" where
  "licenceTextAnchors =
     [(''MIT'', ''permission is hereby granted, free of charge''),
      (''Apache-2.0'', ''terms and conditions for use, reproduction, and distribution''),
      (''BSD-3-Clause'', ''redistribution and use in source and binary forms''),
      (''BSD-2-Clause'', ''redistribution and use in source and binary forms''),
      (''ISC'', ''permission to use, copy, modify, and/or distribute this software''),
      (''Unlicense'', ''free and unencumbered software released into the public domain''),
      (''MPL-2.0'', ''mozilla public license''),
      (''CC-BY-4.0'', ''creative commons attribution 4.0''),
      (''CC-BY-SA-4.0'', ''creative commons attribution-sharealike 4.0''),
      (''CC-BY-SA-3.0'', ''creative commons attribution-sharealike 3.0''),
      (''OFL-1.1'', ''sil open font license''),
      (''Zlib'', ''this software is provided '' @ [CHR 0x27] @ ''as-is'' @ [CHR 0x27] @ '', without any express''),
      (''BSL-1.0'', ''boost software license''),
      (''GPL-2.0'', ''gnu general public license''),
      (''GPL-3.0'', ''gnu general public license''),
      (''AGPL-3.0'', ''gnu affero general public license''),
      (''LGPL-3.0'', ''gnu lesser general public license''),
      (''Python-2.0'', ''python software foundation license''),
      (''BSD-3-Clause-New'', ''redistribution and use in source and binary forms'')]"

definition bundledCopyrightWindow :: nat where
  "bundledCopyrightWindow = 600"

definition apachePlaceholderCopyright :: string where
  "apachePlaceholderCopyright = ''copyright [yyyy]''"

subsection \<open>Elections and splits\<close>

text \<open>The text up to the first line break, or all of it.\<close>

definition firstLine :: "string \<Rightarrow> string" where
  "firstLine s = takeWhile (\<lambda>c. c \<noteq> CHR 0x0A) s"

definition offerPhrase :: "string \<Rightarrow> (string \<times> nat) option \<Rightarrow> string \<Rightarrow> (string \<times> nat) option" where
  "offerPhrase s best p =
     (case StrIndex s p of
        None \<Rightarrow> best
      | Some at \<Rightarrow>
          (case best of
             None \<Rightarrow> Some (p, at)
           | Some (q, bestAt) \<Rightarrow> if at < bestAt then Some (p, at) else best))"

definition firstPhrase :: "string \<Rightarrow> string list \<Rightarrow> string option" where
  "firstPhrase s phrases = map_option fst (foldl (offerPhrase s) None phrases)"

definition spdxTag :: string where
  "spdxTag = ''spdx-license-identifier:''"

definition declaredElection :: "string \<Rightarrow> string option" where
  "declaredElection s =
     (case StrIndex s spdxTag of
        None \<Rightarrow> firstPhrase s electionPhrases
      | Some idx \<Rightarrow>
          (let line = firstLine (drop (idx + length spdxTag) s)
           in if Contains line '' or '' then Some (spdxTag @ line) else firstPhrase s electionPhrases))"

subsection \<open>Bundled grants\<close>

fun yearRun :: "string \<Rightarrow> nat \<Rightarrow> bool" where
  "yearRun [] digits = False"
| "yearRun (c # cs) digits =
     (if of_char c \<ge> (48 :: nat) \<and> of_char c \<le> (57 :: nat)
      then digits + 1 = 4 \<or> yearRun cs (digits + 1)
      else yearRun cs 0)"

definition containsYear :: "string \<Rightarrow> bool" where
  "containsYear s = yearRun s 0"

definition windowBefore :: "string \<Rightarrow> nat \<Rightarrow> string" where
  "windowBefore s offset = drop (offset - bundledCopyrightWindow) (take offset s)"

function noticeIn :: "string \<Rightarrow> string option" where
  "noticeIn window =
     (case LastIndex window ''copyright'' of
        None \<Rightarrow> None
      | Some at \<Rightarrow>
          (let line = TrimSpace (firstLine (drop at window))
           in if \<not> HasPrefix line apachePlaceholderCopyright \<and> containsYear line then Some line
              else noticeIn (take at window)))"
  by pat_completeness auto
termination
  by (relation "measure length") (auto dest: LastIndex_less)

declare noticeIn.simps [simp del]

definition introducingCopyright :: "string \<Rightarrow> nat \<Rightarrow> string option" where
  "introducingCopyright s offset = noticeIn (windowBefore s offset)"

definition introducingFilesStanza :: "string \<Rightarrow> nat \<Rightarrow> string option" where
  "introducingFilesStanza s offset =
     (let window = windowBefore s offset
      in case LastIndex window (CHR 0x0A # ''files:'') of
           None \<Rightarrow> None
         | Some at \<Rightarrow>
             (let line = firstLine (TrimSpace (drop (at + 1) window))
              in if length line \<le> length ''files:'' then None else Some line))"

text \<open>\<open>strings.LastIndex\<close> as Go's int, for the comparison of two positions.\<close>

definition lastIndexInt :: "string \<Rightarrow> string \<Rightarrow> int" where
  "lastIndexInt s p = (case LastIndex s p of None \<Rightarrow> -1 | Some i \<Rightarrow> int i)"

definition grantIntroduction :: "string \<Rightarrow> nat \<Rightarrow> string option" where
  "grantIntroduction s offset =
     (case introducingCopyright s offset of
        Some notice \<Rightarrow>
          (case introducingFilesStanza s offset of
             Some stanza \<Rightarrow>
               if lastIndexInt (take offset s) notice < lastIndexInt (take offset s) stanza
               then Some stanza else Some notice
           | None \<Rightarrow> Some notice)
      | None \<Rightarrow> introducingFilesStanza s offset)"

fun anchorOffsets :: "string \<Rightarrow> nat list \<Rightarrow> string list \<Rightarrow> (string \<times> nat) list option" where
  "anchorOffsets s used [] = Some []"
| "anchorOffsets s used (i # ids) =
     (case map_of licenceTextAnchors i of
        None \<Rightarrow> None
      | Some anchor \<Rightarrow>
          (case StrIndex s anchor of
             None \<Rightarrow> None
           | Some at \<Rightarrow>
               if at \<in> set used then None
               else map_option ((#) (i, at)) (anchorOffsets s (at # used) ids)))"

definition offsetLess :: "string \<times> nat \<Rightarrow> string \<times> nat \<Rightarrow> bool" where
  "offsetLess a b = (if snd a \<noteq> snd b then snd a < snd b else fst a < fst b)"

text \<open>The later grants in order, with the first introduction met kept as the evidence.\<close>

fun laterGrants :: "string \<Rightarrow> (string \<times> nat) list \<Rightarrow> string list \<Rightarrow> string \<Rightarrow> (string list \<times> string) option" where
  "laterGrants s [] bundled evidence = Some (bundled, evidence)"
| "laterGrants s ((i, at) # rest) bundled evidence =
     (case grantIntroduction s at of
        None \<Rightarrow> None
      | Some notice \<Rightarrow>
          laterGrants s rest (bundled @ [i]) (if evidence = [] then notice else evidence))"

definition bundledGrant :: "string \<Rightarrow> string list \<Rightarrow> CompoundReading option" where
  "bundledGrant s ids =
     (case anchorOffsets s [] ids of
        None \<Rightarrow> None
      | Some offsets \<Rightarrow>
          (case stable_sort offsetLess offsets of
             [] \<Rightarrow> None
           | own # later \<Rightarrow>
               (case laterGrants s later [] [] of
                  None \<Rightarrow> None
                | Some (bundled, evidence) \<Rightarrow>
                    if bundled = [] then None
                    else Some \<lparr>cr_Shape = ShapeBundledGrant, cr_Own = [fst own],
                               cr_Bundled = sorted_distinct bundled, cr_Evidence = evidence\<rparr>)))"

definition ReadCompoundFile :: "string \<Rightarrow> string list \<Rightarrow> CompoundReading" where
  "ReadCompoundFile prose ids0 =
     (let ids = sorted_distinct ids0; s = ToLower prose
      in if length ids < 2
         then \<lparr>cr_Shape = ShapeUnstated, cr_Own = ids, cr_Bundled = [], cr_Evidence = ''single grant''\<rparr>
         else case declaredElection s of
                Some phrase \<Rightarrow>
                  \<lparr>cr_Shape = ShapeElection, cr_Own = ids, cr_Bundled = [], cr_Evidence = phrase\<rparr>
              | None \<Rightarrow>
                  (case firstPhrase s splitPhrases of
                     Some phrase \<Rightarrow>
                       \<lparr>cr_Shape = ShapeSplit, cr_Own = ids, cr_Bundled = [], cr_Evidence = phrase\<rparr>
                   | None \<Rightarrow>
                       (case bundledGrant s ids of
                          Some reading \<Rightarrow> reading
                        | None \<Rightarrow>
                            \<lparr>cr_Shape = ShapeUnstated, cr_Own = ids, cr_Bundled = [],
                             cr_Evidence = ''no statement of how the grants relate''\<rparr>)))"

subsection \<open>Phrases that occur\<close>

lemma offerPhrase_some: "foldl (offerPhrase s) (Some b) ps \<noteq> None"
proof (induction ps arbitrary: b)
  case (Cons p ps)
  have "\<exists>b'. offerPhrase s (Some b) p = Some b'" by (auto simp: offerPhrase_def split: option.splits prod.splits)
  with Cons show ?case by fastforce
qed simp

lemma offerPhrase_none: "foldl (offerPhrase s) None ps = None \<longleftrightarrow> (\<forall>p \<in> set ps. \<not> Contains s p)"
proof (induction ps)
  case (Cons p ps)
  show ?case
  proof (cases "StrIndex s p")
    case None
    then have "offerPhrase s None p = None" by (simp add: offerPhrase_def)
    with Cons None show ?thesis by (simp add: Contains_def)
  next
    case (Some at)
    then have "offerPhrase s None p = Some (p, at)" by (simp add: offerPhrase_def)
    with Some show ?thesis using offerPhrase_some [of s "(p, at)" ps] by (simp add: Contains_def)
  qed
qed simp

lemma firstPhrase_None: "firstPhrase s ps = None \<longleftrightarrow> (\<forall>p \<in> set ps. \<not> Contains s p)"
  by (simp add: firstPhrase_def offerPhrase_none)

text \<open>The phrase found is one of the list, at the earliest position any of them occurs.\<close>

lemma offerPhrase_fold:
  assumes "foldl (offerPhrase s) best ps = Some (p, at)"
    and "\<And>q b. best = Some (q, b) \<Longrightarrow> StrIndex s q = Some b"
  shows "StrIndex s p = Some at \<and> (p \<in> set ps \<or> best = Some (p, at))
    \<and> (\<forall>q \<in> set ps. \<forall>b. StrIndex s q = Some b \<longrightarrow> at \<le> b)
    \<and> (\<forall>q b. best = Some (q, b) \<longrightarrow> at \<le> b)"
  using assms
proof (induction ps arbitrary: best)
  case (Cons r ps)
  let ?best = "offerPhrase s best r"
  have step: "foldl (offerPhrase s) ?best ps = Some (p, at)" using Cons.prems(1) by simp
  have inv: "\<And>q b. ?best = Some (q, b) \<Longrightarrow> StrIndex s q = Some b"
    using Cons.prems(2) by (auto simp: offerPhrase_def split: option.splits if_splits prod.splits)
  note ih = Cons.IH [OF step inv]
  have old: "at \<le> b" if "best = Some (q, b)" for q b
    using ih that by (auto simp: offerPhrase_def split: option.splits if_splits)
  have new: "at \<le> b" if "StrIndex s r = Some b" for b
    using ih that by (auto simp: offerPhrase_def split: option.splits if_splits)
  have src: "?best = Some (p, at) \<Longrightarrow> p = r \<or> best = Some (p, at)"
    by (auto simp: offerPhrase_def split: option.splits if_splits prod.splits)
  from ih old new src show ?case by simp blast
qed auto

lemma firstPhrase_Some:
  assumes "firstPhrase s ps = Some p"
  shows "p \<in> set ps" "Contains s p"
    "\<exists>at. StrIndex s p = Some at \<and> (\<forall>q \<in> set ps. \<forall>b. StrIndex s q = Some b \<longrightarrow> at \<le> b)"
proof -
  from assms obtain at where "foldl (offerPhrase s) None ps = Some (p, at)"
    by (auto simp: firstPhrase_def)
  from offerPhrase_fold [OF this] show "p \<in> set ps" "Contains s p"
    "\<exists>at. StrIndex s p = Some at \<and> (\<forall>q \<in> set ps. \<forall>b. StrIndex s q = Some b \<longrightarrow> at \<le> b)"
    by (auto simp: Contains_def)
qed


subsection \<open>What introduces a grant\<close>

lemma TrimSpace_sub: "\<exists>u v. s = u @ TrimSpace s @ v"
proof -
  let ?t = "dropWhile is_space s"
  have "s = takeWhile is_space s @ ?t" by simp
  moreover have "rev ?t = takeWhile is_space (rev ?t) @ dropWhile is_space (rev ?t)" by simp
  then have "?t = TrimSpace s @ rev (takeWhile is_space (rev ?t))"
    unfolding TrimSpace_def by (metis rev_append rev_rev_ident)
  ultimately show ?thesis by metis
qed

lemma firstLine_sub: "\<exists>v. s = firstLine s @ v"
  unfolding firstLine_def by (metis takeWhile_dropWhile_id)

lemma Contains_self [simp]: "Contains s s"
  unfolding Contains_iff by (rule exI [of _ "[]"], rule exI [of _ "[]"]) simp

lemma Contains_trans: "Contains s t \<Longrightarrow> Contains t u \<Longrightarrow> Contains s u"
  unfolding Contains_iff by (metis append.assoc)

lemma Contains_parts: "Contains s (take n s)" "Contains s (drop n s)" "Contains s (TrimSpace s)" "Contains s (firstLine s)"
proof -
  show "Contains s (take n s)" unfolding Contains_iff by (metis append_Nil append_take_drop_id)
  show "Contains s (drop n s)" unfolding Contains_iff by (metis append_Nil2 append_take_drop_id)
  show "Contains s (TrimSpace s)" unfolding Contains_iff by (rule TrimSpace_sub)
  show "Contains s (firstLine s)" unfolding Contains_iff using firstLine_sub by (metis append_Nil)
qed

lemma windowBefore_in: "Contains (windowBefore s n) t \<Longrightarrow> Contains s t"
  unfolding windowBefore_def by (meson Contains_parts(1,2) Contains_trans)

lemma yearRun_Nil [simp]: "\<not> containsYear []"
  by (simp add: containsYear_def)

lemma TrimSpace_front:
  assumes "p \<noteq> []" "\<not> is_space (hd p)" "\<not> is_space (last p)"
  shows "\<exists>v' z. TrimSpace (p @ v) = p @ v' \<and> v = v' @ z"
proof -
  have "dropWhile is_space (p @ v) = p @ v" using assms by (cases p) simp_all
  moreover have "dropWhile is_space (rev p) = rev p" using assms by (cases p rule: rev_cases) simp_all
  ultimately have "TrimSpace (p @ v) = p @ rev (dropWhile is_space (rev v))"
    by (simp add: TrimSpace_def dropWhile_append)
  moreover have "v = rev (dropWhile is_space (rev v)) @ rev (takeWhile is_space (rev v))"
    by (metis rev_append rev_rev_ident takeWhile_dropWhile_id)
  ultimately show ?thesis by blast
qed

lemma firstLine_front: "CHR 0x0A \<notin> set p \<Longrightarrow> firstLine (p @ v) = p @ firstLine v"
  unfolding firstLine_def by (induction p) auto

lemma firstLine_no_break: "CHR 0x0A \<notin> set (firstLine s)"
  unfolding firstLine_def using set_takeWhileD by fastforce

text \<open>Four digits in a row.\<close>

definition statesYear :: "string \<Rightarrow> bool" where
  "statesYear s \<longleftrightarrow> (\<exists>u ds v. s = u @ ds @ v \<and> length ds = 4 \<and> set ds \<subseteq> set ''0123456789'')"

lemma digit_range: "48 \<le> (of_char c :: nat) \<and> (of_char c :: nat) \<le> 57 \<longleftrightarrow> c \<in> set ''0123456789''"
proof
  assume h: "48 \<le> (of_char c :: nat) \<and> (of_char c :: nat) \<le> 57"
  then have "of_char c = (48 :: nat) \<or> of_char c = (49 :: nat) \<or> of_char c = (50 :: nat) \<or> of_char c = (51 :: nat)
      \<or> of_char c = (52 :: nat) \<or> of_char c = (53 :: nat) \<or> of_char c = (54 :: nat) \<or> of_char c = (55 :: nat)
      \<or> of_char c = (56 :: nat) \<or> of_char c = (57 :: nat)" by presburger
  then have "(of_char c :: nat) \<in> of_char ` set ''0123456789''" by simp
  then show "c \<in> set ''0123456789''" unfolding image_iff of_char_eq_iff by blast
qed auto

lemma yearRun_year:
  "yearRun s k \<Longrightarrow> k < 4 \<Longrightarrow> (\<exists>ds v. s = ds @ v \<and> length ds = 4 - k \<and> set ds \<subseteq> set ''0123456789'') \<or> statesYear s"
proof (induction s arbitrary: k)
  case (Cons c cs)
  have later: "statesYear cs \<Longrightarrow> statesYear (c # cs)" unfolding statesYear_def by (metis append_Cons)
  show ?case
  proof (cases "c \<in> set ''0123456789''")
    case digit: True
    show ?thesis
    proof (cases "k + 1 = 4")
      case True
      then have "c # cs = [c] @ cs \<and> length [c] = 4 - k \<and> set [c] \<subseteq> set ''0123456789''" using digit by simp
      then show ?thesis by blast
    next
      case False
      then have "yearRun cs (k + 1)" "k + 1 < 4" using Cons.prems digit digit_range [of c] by auto
      from Cons.IH [OF this] show ?thesis
      proof (elim disjE exE conjE)
        fix ds v assume "cs = ds @ v" "length ds = 4 - (k + 1)" "set ds \<subseteq> set ''0123456789''"
        then have "c # cs = (c # ds) @ v \<and> length (c # ds) = 4 - k \<and> set (c # ds) \<subseteq> set ''0123456789''"
          using digit Cons.prems(2) by simp
        then show ?thesis by blast
      qed (use later in blast)
    qed
  next
    case False
    then have "yearRun cs 0" using Cons.prems digit_range [of c] by (auto split: if_splits)
    from Cons.IH [OF this] have "statesYear cs"
      unfolding statesYear_def by (metis append_Nil diff_zero zero_less_numeral)
    then show ?thesis using later by blast
  qed
qed simp

lemma containsYear_states: "containsYear s \<Longrightarrow> statesYear s"
  using yearRun_year [of s 0] unfolding containsYear_def statesYear_def by (metis append_Nil diff_zero zero_less_numeral)

text \<open>
  The two markers, as text that stands at most 600 bytes before a position: a copyright notice is
  the rest of a line from the word on that states a year and is not the Apache placeholder; a
  stanza is the rest of a line that begins with \<open>Files:\<close> and goes on.
\<close>

definition standsBefore :: "string \<Rightarrow> nat \<Rightarrow> string \<Rightarrow> bool" where
  "standsBefore s at mark \<longleftrightarrow> (\<exists>u v w. take at s = u @ v @ mark @ w \<and> length (v @ mark @ w) \<le> 600)"

definition copyrightNotice :: "string \<Rightarrow> bool" where
  "copyrightNotice mark \<longleftrightarrow> prefix ''copyright'' mark \<and> CHR 0x0A \<notin> set mark \<and> statesYear mark
     \<and> \<not> prefix ''copyright [yyyy]'' mark"

definition filesStanza :: "string \<Rightarrow> bool" where
  "filesStanza mark \<longleftrightarrow> (\<exists>c rest. mark = ''files:'' @ c # rest) \<and> CHR 0x0A \<notin> set mark"

definition introduces :: "string \<Rightarrow> nat \<Rightarrow> string \<Rightarrow> bool" where
  "introduces s at mark \<longleftrightarrow>
     copyrightNotice mark \<and> standsBefore s at mark \<or> filesStanza mark \<and> standsBefore s at (CHR 0x0A # mark)"

lemma standsBefore_window: "Contains (windowBefore s at) mark \<Longrightarrow> standsBefore s at mark"
proof -
  assume "Contains (windowBefore s at) mark"
  then obtain v w where w: "windowBefore s at = v @ mark @ w" unfolding Contains_iff by blast
  have "take at s = take (at - 600) (take at s) @ windowBefore s at"
    unfolding windowBefore_def bundledCopyrightWindow_def by (simp only: append_take_drop_id)
  moreover have "length (windowBefore s at) \<le> 600" by (simp add: windowBefore_def bundledCopyrightWindow_def)
  ultimately show ?thesis unfolding standsBefore_def w by blast
qed

lemma notice_line:
  assumes "LastIndex w ''copyright'' = Some at"
  shows "prefix ''copyright'' (TrimSpace (firstLine (drop at w))) \<and> CHR 0x0A \<notin> set (TrimSpace (firstLine (drop at w)))"
proof -
  obtain u v where w: "w = u @ ''copyright'' @ v" "length u = at" using LastIndex_split [OF assms] by blast
  then have "firstLine (drop at w) = ''copyright'' @ firstLine v" using firstLine_front [of "''copyright''" v] by simp
  moreover obtain v' z where v': "TrimSpace (''copyright'' @ firstLine v) = ''copyright'' @ v'" "firstLine v = v' @ z"
    using TrimSpace_front [of "''copyright''" "firstLine v"] by (auto simp: is_space_def)
  ultimately show ?thesis using firstLine_no_break [of v] by auto
qed

lemma noticeIn_line: "noticeIn w = Some n \<Longrightarrow> prefix ''copyright'' n \<and> CHR 0x0A \<notin> set n"
proof (induction w rule: noticeIn.induct)
  case (1 w)
  show ?case
  proof (cases "LastIndex w ''copyright''")
    case None
    with "1.prems" show ?thesis by (subst (asm) noticeIn.simps) simp
  next
    case (Some at)
    let ?line = "TrimSpace (firstLine (drop at w))"
    show ?thesis
    proof (cases "\<not> HasPrefix ?line apachePlaceholderCopyright \<and> containsYear ?line")
      case True
      with "1.prems" Some have "n = ?line" by (subst (asm) noticeIn.simps) (simp add: Let_def)
      then show ?thesis using notice_line [OF Some] by simp
    next
      case False
      with "1.prems" Some have "noticeIn (take at w) = Some n"
        by (subst (asm) noticeIn.simps) (simp only: option.case Let_def if_False)
      from "1.IH" [OF Some refl False this] show ?thesis .
    qed
  qed
qed

lemma noticeIn_some: "noticeIn w = Some n \<Longrightarrow> Contains w n \<and> containsYear n \<and> \<not> HasPrefix n apachePlaceholderCopyright"
proof (induction w rule: noticeIn.induct)
  case (1 w)
  show ?case
  proof (cases "LastIndex w ''copyright''")
    case None
    with "1.prems" show ?thesis by (subst (asm) noticeIn.simps) simp
  next
    case (Some at)
    let ?line = "TrimSpace (firstLine (drop at w))"
    show ?thesis
    proof (cases "\<not> HasPrefix ?line apachePlaceholderCopyright \<and> containsYear ?line")
      case True
      with "1.prems" Some have "n = ?line" by (subst (asm) noticeIn.simps) (simp add: Let_def)
      then show ?thesis using True by (meson Contains_parts(2-4) Contains_trans)
    next
      case False
      with "1.prems" Some have "noticeIn (take at w) = Some n"
        by (subst (asm) noticeIn.simps) (simp only: option.case Let_def if_False)
      from "1.IH" [OF Some refl False this] show ?thesis by (meson Contains_parts(1) Contains_trans)
    qed
  qed
qed

lemma introducingFilesStanza_some:
  "introducingFilesStanza s n = Some l \<Longrightarrow> Contains (windowBefore s n) l \<and> length ''files:'' < length l"
  unfolding introducingFilesStanza_def Let_def
  by (auto split: option.splits if_splits) (meson Contains_parts(2-4) Contains_trans)

lemma stanza_stands:
  assumes "introducingFilesStanza s n = Some l"
  shows "filesStanza l \<and> standsBefore s n (CHR 0x0A # l)"
proof -
  let ?w = "windowBefore s n"
  obtain at where at: "LastIndex ?w (CHR 0x0A # ''files:'') = Some at"
      "l = firstLine (TrimSpace (drop (at + 1) ?w))" "length ''files:'' < length l"
    using assms unfolding introducingFilesStanza_def Let_def by (auto split: option.splits if_splits)
  obtain u v where w: "?w = u @ (CHR 0x0A # ''files:'') @ v" "length u = at" using LastIndex_split [OF at(1)] by blast
  then have "drop (at + 1) ?w = ''files:'' @ v" by simp
  moreover obtain v' z where v': "TrimSpace (''files:'' @ v) = ''files:'' @ v'" "v = v' @ z"
    using TrimSpace_front [of "''files:''" v] by (auto simp: is_space_def)
  ultimately have l: "l = ''files:'' @ firstLine v'" using at(2) firstLine_front [of "''files:''" v'] by simp
  moreover have "firstLine v' \<noteq> []" using at(3) unfolding l by auto
  ultimately have "\<exists>c rest. l = ''files:'' @ c # rest" by (cases "firstLine v'") auto
  moreover have "CHR 0x0A \<notin> set l" unfolding at(2) by (rule firstLine_no_break)
  moreover obtain y where "v' = firstLine v' @ y" using firstLine_sub by blast
  then have "?w = u @ (CHR 0x0A # l) @ y @ z" using w(1) v'(2) l by (metis append.assoc append_Cons)
  then have "Contains ?w (CHR 0x0A # l)" unfolding Contains_iff by blast
  ultimately show ?thesis using standsBefore_window by (simp add: filesStanza_def)
qed

lemma grantIntroduction_cases:
  "grantIntroduction s n = Some l \<Longrightarrow> introducingCopyright s n = Some l \<or> introducingFilesStanza s n = Some l"
  unfolding grantIntroduction_def by (auto split: option.splits if_splits)

lemma grantIntroduction_introduces:
  assumes "grantIntroduction s n = Some l"
  shows "introduces s n l"
  using grantIntroduction_cases [OF assms]
proof
  assume "introducingCopyright s n = Some l"
  then have n: "noticeIn (windowBefore s n) = Some l" by (simp add: introducingCopyright_def)
  then show ?thesis using noticeIn_line [OF n] noticeIn_some [OF n] containsYear_states standsBefore_window
    unfolding introduces_def copyrightNotice_def apachePlaceholderCopyright_def by (simp add: HasPrefix_def)
next
  assume "introducingFilesStanza s n = Some l"
  from stanza_stands [OF this] show ?thesis by (simp add: introduces_def)
qed

lemma grantIntroduction_None:
  "grantIntroduction s n = None \<longleftrightarrow> introducingCopyright s n = None \<and> introducingFilesStanza s n = None"
  unfolding grantIntroduction_def by (auto split: option.splits)

lemma grantIntroduction_some:
  assumes "grantIntroduction s n = Some l"
  shows "Contains (windowBefore s n) l" "l \<noteq> []" "Contains s l"
proof -
  show w: "Contains (windowBefore s n) l"
    using grantIntroduction_cases [OF assms] noticeIn_some introducingFilesStanza_some
    unfolding introducingCopyright_def by blast
  show "l \<noteq> []"
    using grantIntroduction_cases [OF assms] noticeIn_some introducingFilesStanza_some [of s n l]
    unfolding introducingCopyright_def by fastforce
  from w show "Contains s l" by (rule windowBefore_in)
qed

subsection \<open>The order of the grants\<close>

lemma anchorOffsets_some:
  "anchorOffsets s used ids = Some offs \<Longrightarrow>
     map fst offs = ids
     \<and> (\<forall>(i, at) \<in> set offs. \<exists>anchor. map_of licenceTextAnchors i = Some anchor \<and> StrIndex s anchor = Some at)
     \<and> distinct (map snd offs) \<and> set used \<inter> snd ` set offs = {}"
proof (induction s used ids arbitrary: offs rule: anchorOffsets.induct)
  case (2 s used i ids)
  then obtain anchor at rest where e: "map_of licenceTextAnchors i = Some anchor" "StrIndex s anchor = Some at"
      "at \<notin> set used" "anchorOffsets s (at # used) ids = Some rest" "offs = (i, at) # rest"
    by (auto split: option.splits if_splits)
  note ih = "2.IH" [OF e(1) e(2) e(3) e(4)]
  then have "at \<notin> snd ` set rest" "set used \<inter> snd ` set rest = {}" by auto
  with ih e show ?case by simp
qed simp

lemma laterGrants_some:
  "laterGrants s later bundled e = Some (bs, e') \<Longrightarrow>
     bs = bundled @ map fst later \<and> (\<forall>(i, at) \<in> set later. grantIntroduction s at \<noteq> None)
     \<and> (e' = e \<or> Contains s e') \<and> (later \<noteq> [] \<longrightarrow> e' \<noteq> [])"
proof (induction s later bundled e rule: laterGrants.induct)
  case (2 s i at rest bundled e)
  then obtain n where n: "grantIntroduction s at = Some n" by (auto split: option.splits)
  with "2.prems" have "laterGrants s rest (bundled @ [i]) (if e = [] then n else e) = Some (bs, e')" by simp
  from "2.IH" [OF n this] show ?case using n grantIntroduction_some [OF n]
    by (cases "rest = []") (use \<open>laterGrants s rest _ _ = _\<close> in \<open>auto split: if_splits\<close>)
qed simp

lemma laterGrants_evidence:
  "laterGrants s later bundled e = Some (bs, e') \<Longrightarrow> later \<noteq> [] \<Longrightarrow> e = [] \<Longrightarrow>
     grantIntroduction s (snd (hd later)) = Some e'"
proof -
  have keep: "laterGrants s later bundled e = Some (bs, e') \<Longrightarrow> e \<noteq> [] \<Longrightarrow> e' = e" for later bundled e bs e'
    by (induction s later bundled e rule: laterGrants.induct) (auto split: option.splits if_splits)
  assume h: "laterGrants s later bundled e = Some (bs, e')" "later \<noteq> []" "e = []"
  then obtain i at rest where later: "later = (i, at) # rest" by (cases later) auto
  then obtain n where n: "grantIntroduction s at = Some n" using h(1) by (auto split: option.splits)
  then have "laterGrants s rest (bundled @ [i]) n = Some (bs, e')" using h(1,3) later by simp
  from keep [OF this grantIntroduction_some(2) [OF n]] n later show ?thesis by simp
qed

lemma swo_offsetLess: "swo offsetLess"
  unfolding offsetLess_def [abs_def] by (intro swo_intros)

text \<open>What a bundled reading says: the first grant is the module's, every later one is introduced.\<close>

lemma bundledGrant_some:
  assumes "bundledGrant s ids = Some r" "distinct ids"
  obtains own at later where
    "stable_sort offsetLess ((own, at) # later) = (own, at) # later"
    "anchorOffsets s [] ids \<noteq> None" "mset (map fst ((own, at) # later)) = mset ids"
    "\<forall>(i, a) \<in> set ((own, at) # later). \<exists>anchor. map_of licenceTextAnchors i = Some anchor \<and> StrIndex s anchor = Some a"
    "\<forall>(i, a) \<in> set later. at < a \<and> grantIntroduction s a \<noteq> None" "later \<noteq> []"
    "cr_Shape r = ShapeBundledGrant" "cr_Own r = [own]" "cr_Bundled r = sorted_distinct (map fst later)"
    "cr_Evidence r \<noteq> []" "Contains s (cr_Evidence r)" "grantIntroduction s (snd (hd later)) = Some (cr_Evidence r)"
proof -
  from assms(1) obtain offs p later bs e where o: "anchorOffsets s [] ids = Some offs"
      "stable_sort offsetLess offs = p # later" "laterGrants s later [] [] = Some (bs, e)" "bs \<noteq> []"
      "r = \<lparr>cr_Shape = ShapeBundledGrant, cr_Own = [fst p], cr_Bundled = sorted_distinct bs, cr_Evidence = e\<rparr>"
    unfolding bundledGrant_def by (auto split: option.splits list.splits if_splits prod.splits)
  obtain own at where p: "p = (own, at)" by force
  have ms: "mset ((own, at) # later) = mset offs" using o(2) p by (metis mset_stable_sort)
  note an = anchorOffsets_some [OF o(1)]
  have ids: "mset (map fst ((own, at) # later)) = mset ids" using ms an by (metis mset_map)
  have set: "set ((own, at) # later) = set offs" using ms by (metis set_mset_mset)
  have "distinct (map snd ((own, at) # later))" using ms an by (metis mset_map mset_eq_imp_distinct_iff)
  then have ne: "\<forall>(i, a) \<in> set later. a \<noteq> at" by (auto simp: image_iff)
  have sw: "sorted_wrt (\<lambda>x y. \<not> offsetLess y x) ((own, at) # later)"
    using sorted_stable_sort [OF swo_offsetLess, of offs] o(2) p by simp
  then have "\<forall>(i, a) \<in> set later. at < a" using ne by (fastforce simp: offsetLess_def)
  note lg = laterGrants_some [OF o(3)]
  have "later \<noteq> []" using lg o(4) by auto
  note ev = laterGrants_evidence [OF o(3) this refl]
  have idem: "stable_sort offsetLess ((own, at) # later) = (own, at) # later"
    by (rule sorted_perm_unique [OF sorted_stable_sort [OF swo_offsetLess] sw])
      (auto simp: offsetLess_def split: if_splits)
  show thesis
    by (rule that [of own at later])
      (use idem o p ids an set lg ev \<open>\<forall>(i, a) \<in> set later. at < a\<close> in \<open>auto\<close>)
qed


subsection \<open>What a reading says\<close>

definition offersChoice :: "string \<Rightarrow> bool" where
  "offersChoice s \<longleftrightarrow>
     (\<exists>idx. StrIndex s spdxTag = Some idx \<and> Contains (firstLine (drop (idx + length spdxTag) s)) '' or '')
     \<or> (\<exists>p \<in> set electionPhrases. Contains s p)"

lemma declaredElection_None: "declaredElection s = None \<longleftrightarrow> \<not> offersChoice s"
  unfolding declaredElection_def offersChoice_def
  by (auto simp: Let_def firstPhrase_None split: option.splits if_splits)

lemma declaredElection_in: "declaredElection s = Some p \<Longrightarrow> Contains s p \<and> p \<noteq> []"
proof -
  assume h: "declaredElection s = Some p"
  show ?thesis
  proof (cases "firstPhrase s electionPhrases = Some p")
    case True
    then show ?thesis using firstPhrase_Some [of s electionPhrases p] by (auto simp: electionPhrases_def)
  next
    case False
    with h obtain idx where idx: "StrIndex s spdxTag = Some idx"
        "p = spdxTag @ firstLine (drop (idx + length spdxTag) s)"
      unfolding declaredElection_def by (auto simp: Let_def split: option.splits if_splits)
    obtain u v where s: "s = u @ spdxTag @ v" "length u = idx" using Index_Some_split [OF idx(1)] by blast
    then have "p = spdxTag @ firstLine v" using idx(2) by simp
    then have "p \<noteq> []" by (simp add: spdxTag_def)
    with s \<open>p = spdxTag @ firstLine v\<close> show ?thesis
      unfolding Contains_iff using firstLine_sub [of v] by (metis append.assoc)
  qed
qed

text \<open>The four ways a reading comes about.\<close>

lemma ReadCompoundFile_cases:
  obtains
    (single) "card (set ids) < 2" "ReadCompoundFile prose ids =
      \<lparr>cr_Shape = ShapeUnstated, cr_Own = sorted_distinct ids, cr_Bundled = [], cr_Evidence = ''single grant''\<rparr>"
  | (election) p where "2 \<le> card (set ids)" "offersChoice (ToLower prose)" "Contains (ToLower prose) p" "p \<noteq> []"
      "ReadCompoundFile prose ids =
        \<lparr>cr_Shape = ShapeElection, cr_Own = sorted_distinct ids, cr_Bundled = [], cr_Evidence = p\<rparr>"
  | (split) p where "2 \<le> card (set ids)" "\<not> offersChoice (ToLower prose)" "p \<in> set splitPhrases"
      "Contains (ToLower prose) p" "ReadCompoundFile prose ids =
        \<lparr>cr_Shape = ShapeSplit, cr_Own = sorted_distinct ids, cr_Bundled = [], cr_Evidence = p\<rparr>"
  | (bundled) "2 \<le> card (set ids)" "\<not> offersChoice (ToLower prose)"
      "\<forall>p \<in> set splitPhrases. \<not> Contains (ToLower prose) p"
      "bundledGrant (ToLower prose) (sorted_distinct ids) = Some (ReadCompoundFile prose ids)"
  | (unstated) "2 \<le> card (set ids)" "\<not> offersChoice (ToLower prose)"
      "\<forall>p \<in> set splitPhrases. \<not> Contains (ToLower prose) p"
      "bundledGrant (ToLower prose) (sorted_distinct ids) = None"
      "ReadCompoundFile prose ids = \<lparr>cr_Shape = ShapeUnstated, cr_Own = sorted_distinct ids, cr_Bundled = [],
        cr_Evidence = ''no statement of how the grants relate''\<rparr>"
proof -
  let ?s = "ToLower prose" and ?ids = "sorted_distinct ids"
  note R = ReadCompoundFile_def [of prose ids, unfolded Let_def]
  show thesis
  proof (cases "card (set ids) < 2")
    case True
    then show thesis by (intro single) (simp_all add: R)
  next
    case many: False
    show thesis
    proof (cases "declaredElection ?s")
      case (Some p)
      then have "offersChoice ?s" using declaredElection_None [of ?s] by auto
      moreover have "Contains ?s p" "p \<noteq> []" using declaredElection_in [OF Some] by auto
      ultimately show thesis using many Some by (intro election [of p]) (simp_all add: R)
    next
      case n: None
      then have no: "\<not> offersChoice ?s" using declaredElection_None by blast
      show thesis
      proof (cases "firstPhrase ?s splitPhrases")
        case (Some p)
        from firstPhrase_Some(1,2) [OF this] show thesis
          using many n no Some by (intro split [of p]) (simp_all add: R)
      next
        case None
        then have np: "\<forall>p \<in> set splitPhrases. \<not> Contains ?s p" by (simp add: firstPhrase_None)
        show thesis
        proof (cases "bundledGrant ?s ?ids")
          case n3: None
          show thesis by (rule unstated) (use many n None no np n3 in \<open>simp_all add: R\<close>)
        next
          case (Some r)
          show thesis by (rule bundled) (use many n None no np Some in \<open>simp_all add: R\<close>)
        qed
      qed
    qed
  qed
qed

lemma ReadCompoundFile_ids:
  "set (cr_Own (ReadCompoundFile prose ids)) \<union> set (cr_Bundled (ReadCompoundFile prose ids)) = set ids
   \<and> set (cr_Own (ReadCompoundFile prose ids)) \<inter> set (cr_Bundled (ReadCompoundFile prose ids)) = {}
   \<and> sorted (cr_Own (ReadCompoundFile prose ids)) \<and> distinct (cr_Own (ReadCompoundFile prose ids))
   \<and> sorted (cr_Bundled (ReadCompoundFile prose ids)) \<and> distinct (cr_Bundled (ReadCompoundFile prose ids))
   \<and> (cr_Own (ReadCompoundFile prose ids) = [] \<longleftrightarrow> ids = [])"
proof (cases rule: ReadCompoundFile_cases [of ids prose])
  case bundled
  obtain own and at :: nat and later where b: "mset (map fst ((own, at) # later)) = mset (sorted_distinct ids)"
      "cr_Own (ReadCompoundFile prose ids) = [own]"
      "cr_Bundled (ReadCompoundFile prose ids) = sorted_distinct (map fst later)"
    by (rule bundledGrant_some [OF bundled(4) sorted_distinct_simps(2)]) (rule that, assumption+)
  have "set (own # map fst later) = set ids" using b(1) by (metis fst_conv list.simps(9) set_mset_mset sorted_distinct_simps(1))
  moreover have "distinct (own # map fst later)"
    using b(1) by (metis fst_conv list.simps(9) mset_eq_imp_distinct_iff sorted_distinct_simps(2))
  ultimately show ?thesis using b(2,3) by auto
qed simp_all

lemma ReadCompoundFile_shape:
  "(cr_Bundled (ReadCompoundFile prose ids) = [] \<longleftrightarrow> cr_Shape (ReadCompoundFile prose ids) \<noteq> ShapeBundledGrant)
   \<and> (cr_Shape (ReadCompoundFile prose ids) = ShapeElection \<longleftrightarrow> 2 \<le> card (set ids) \<and> offersChoice (ToLower prose))"
proof (cases rule: ReadCompoundFile_cases [of ids prose])
  case bundled
  obtain own and later :: "(string \<times> nat) list" where "later \<noteq> []" "cr_Shape (ReadCompoundFile prose ids) = ShapeBundledGrant"
      "cr_Bundled (ReadCompoundFile prose ids) = sorted_distinct (map fst later)"
    by (rule bundledGrant_some [OF bundled(4) sorted_distinct_simps(2)]) (rule that, assumption+)
  then show ?thesis using bundled(2) by auto
qed simp_all

text \<open>
  A reading accounts for every identifier the detector found, exactly once: each is granted for the
  module's own code or carried for somebody else's.  Something is carried exactly when the shape is a
  bundled grant, an election is read exactly when the prose offers one, and a reading that is not
  unstated quotes the file.
\<close>

theorem compound_reading_accounts:
  "set (cr_Own (ReadCompoundFile prose ids)) \<union> set (cr_Bundled (ReadCompoundFile prose ids)) = set ids
   \<and> set (cr_Own (ReadCompoundFile prose ids)) \<inter> set (cr_Bundled (ReadCompoundFile prose ids)) = {}
   \<and> (cr_Bundled (ReadCompoundFile prose ids) = []
        \<longleftrightarrow> cr_Shape (ReadCompoundFile prose ids) \<noteq> ShapeBundledGrant)
   \<and> (cr_Shape (ReadCompoundFile prose ids) = ShapeElection
        \<longleftrightarrow> 2 \<le> card (set ids) \<and> offersChoice (ToLower prose))
   \<and> (cr_Shape (ReadCompoundFile prose ids) = ShapeUnstated
        \<or> cr_Evidence (ReadCompoundFile prose ids) \<noteq> []
          \<and> Contains (ToLower prose) (cr_Evidence (ReadCompoundFile prose ids)))"
proof -
  have "cr_Shape (ReadCompoundFile prose ids) = ShapeUnstated
      \<or> cr_Evidence (ReadCompoundFile prose ids) \<noteq> []
        \<and> Contains (ToLower prose) (cr_Evidence (ReadCompoundFile prose ids))"
  proof (cases rule: ReadCompoundFile_cases [of ids prose])
    case bundled
    show ?thesis by (rule bundledGrant_some [OF bundled(4) sorted_distinct_simps(2)]) (intro disjI2 conjI, assumption+)
  qed (auto simp: splitPhrases_def)
  with ReadCompoundFile_ids [of prose ids] ReadCompoundFile_shape [of prose ids] show ?thesis
    by (elim conjE) (intro conjI; assumption)
qed

lemma later_nearest:
  assumes "stable_sort offsetLess ((own, at) # later) = (own, at) # later" "(i, a) \<in> set later"
  shows "snd (hd later) \<le> a"
proof -
  have "sorted_wrt (\<lambda>x y. \<not> offsetLess y x) ((own, at) # later)" using sorted_stable_sort [OF swo_offsetLess] assms(1) by metis
  then show ?thesis using assms(2) by (cases later) (auto simp: offsetLess_def split: if_splits)
qed

text \<open>
  C24: A bundled reading is evidenced.  The file's identifiers are the module's own one and the bundled ones;
  each has its licence's words in the text, the own ones before all others.  Before the words of every bundled
  licence, within the 600 bytes up to them, stands what introduces it: a copyright notice (the
  rest of a line from that word on) that states a year of four digits and is not the Apache
  placeholder, or a line that begins with \<open>Files:\<close> and goes on.  The evidence reported is the marker of the first
  of them.
\<close>

theorem bundled_grant_evidenced:
  assumes "cr_Shape (ReadCompoundFile prose ids) = ShapeBundledGrant"
  shows "\<exists>own at anchor first. cr_Own (ReadCompoundFile prose ids) = [own]
    \<and> insert own (set (cr_Bundled (ReadCompoundFile prose ids))) = set ids \<and> own \<notin> set (cr_Bundled (ReadCompoundFile prose ids))
    \<and> map_of licenceTextAnchors own = Some anchor \<and> StrIndex (ToLower prose) anchor = Some at
    \<and> (\<forall>i \<in> set (cr_Bundled (ReadCompoundFile prose ids)). \<exists>a words mark.
         map_of licenceTextAnchors i = Some words \<and> StrIndex (ToLower prose) words = Some a \<and> at < a \<and> first \<le> a
         \<and> introduces (ToLower prose) a mark)
    \<and> (\<exists>i \<in> set (cr_Bundled (ReadCompoundFile prose ids)). \<exists>words. map_of licenceTextAnchors i = Some words
         \<and> StrIndex (ToLower prose) words = Some first)
    \<and> introduces (ToLower prose) first (cr_Evidence (ReadCompoundFile prose ids))"
  using assms
proof (cases rule: ReadCompoundFile_cases [of ids prose])
  case bundled
  let ?s = "ToLower prose" and ?r = "ReadCompoundFile prose ids"
  obtain own at later where b: "cr_Own ?r = [own]" "cr_Bundled ?r = sorted_distinct (map fst later)"
      "stable_sort offsetLess ((own, at) # later) = (own, at) # later" "mset (map fst ((own, at) # later)) = mset (sorted_distinct ids)"
      "\<forall>(i, a) \<in> set ((own, at) # later). \<exists>anchor. map_of licenceTextAnchors i = Some anchor \<and> StrIndex ?s anchor = Some a"
      "\<forall>(i, a) \<in> set later. at < a \<and> grantIntroduction ?s a \<noteq> None" "later \<noteq> []"
      "grantIntroduction ?s (snd (hd later)) = Some (cr_Evidence ?r)"
    by (rule bundledGrant_some [OF bundled(4) sorted_distinct_simps(2)]) (rule that, assumption+)
  have ids: "insert own (set (cr_Bundled ?r)) = set ids" using arg_cong [OF b(4), of set_mset] b(2) by simp
  have "distinct (map fst ((own, at) # later))" using b(4) sorted_distinct_simps(2) by (metis mset_eq_imp_distinct_iff)
  then have own: "own \<notin> set (cr_Bundled ?r)" using b(2) by simp
  have each: "\<exists>a words mark. map_of licenceTextAnchors i = Some words \<and> StrIndex ?s words = Some a \<and> at < a
      \<and> snd (hd later) \<le> a \<and> introduces ?s a mark" if "i \<in> set (cr_Bundled ?r)" for i
  proof -
    from that b(2) obtain a where a: "(i, a) \<in> set later" by auto
    with b(5,6) obtain words mark where "map_of licenceTextAnchors i = Some words" "StrIndex ?s words = Some a"
        "at < a" "grantIntroduction ?s a = Some mark" by fastforce
    then show ?thesis using later_nearest [OF b(3) a] grantIntroduction_introduces by blast
  qed
  obtain i a rest where later: "later = (i, a) # rest" using b(7) by (cases later) auto
  have first: "\<exists>i \<in> set (cr_Bundled ?r). \<exists>words. map_of licenceTextAnchors i = Some words \<and> StrIndex ?s words = Some (snd (hd later))"
    using b(2,5) later by auto
  obtain anchor where "map_of licenceTextAnchors own = Some anchor" "StrIndex ?s anchor = Some at" using b(5) by auto
  then show ?thesis using b(1) ids own first grantIntroduction_introduces [OF b(8)] each
    by - (rule exI [of _ own], rule exI [of _ at], rule exI [of _ anchor], rule exI [of _ "snd (hd later)"], intro conjI ballI)
qed simp_all

definition exampleBundle :: string where
  "exampleBundle = ''Permission is hereby granted, free of charge. (c) Copyright 2019 Acme''
     @ [CHR 0x0A] @ ''Redistribution and use in source and binary forms''"

lemma bundled_grant_evidenced_witness:
  "cr_Shape (ReadCompoundFile exampleBundle [''MIT'', ''BSD-3-Clause'']) = ShapeBundledGrant
   \<and> cr_Own (ReadCompoundFile exampleBundle [''MIT'', ''BSD-3-Clause'']) = [''MIT'']"
proof -
  have h: "cr_Shape (ReadCompoundFile exampleBundle [''MIT'', ''BSD-3-Clause'']) = ShapeBundledGrant"
    by code_simp
  have "cr_Own (ReadCompoundFile exampleBundle [''MIT'', ''BSD-3-Clause'']) = [''MIT'']" by code_simp
  with bundled_grant_evidenced [OF h] h show ?thesis by blast
qed

text \<open>A \<open>Files:\<close> line that names no path introduces a grant too when a blank follows the colon and text the line.\<close>

lemma blank_stanza_introduces:
  "introducingFilesStanza (CHR 0x0A # ''files: '' @ CHR 0x0A # ''x'') 10 = Some ''files: ''"
  by code_simp

end
