(* ===== verification/License_Expression.thy ===== *)
theory License_Expression
  imports License_Types License_Compound
begin

text \<open>
  The licence expression of a module (\<open>internal/license/domain/expression.go\<close>): which root files
  grant a licence, how their names or the prose of a compound file relate the grants, and the arms an
  expression names.  \<open>texts\<close> is the map from a licence file's path to its content; a missing path reads
  as empty text.
\<close>

subsection \<open>Names\<close>

definition exprIsRootLevel :: "string \<Rightarrow> bool" where
  "exprIsRootLevel relPath = (\<not> Contains relPath ''/'')"

definition baseName :: "string \<Rightarrow> string" where
  "baseName relPath =
     (case LastIndex relPath ''/'' of None \<Rightarrow> relPath | Some idx \<Rightarrow> drop (idx + 1) relPath)"

definition exprIsNoticeName :: "string \<Rightarrow> bool" where
  "exprIsNoticeName relPath =
     (EqualFold (baseName relPath) ''NOTICE'' \<or> EqualFold (baseName relPath) ''NOTICE.txt''
      \<or> EqualFold (baseName relPath) ''NOTICE.md'')"

definition IsNoticeFileName :: "string \<Rightarrow> bool" where
  "IsNoticeFileName relPath = exprIsNoticeName relPath"

definition licenceFileGenericNames :: "string set" where
  "licenceFileGenericNames = {''LICENSE'', ''LICENCE'', ''COPYING'', ''COPYRIGHT'', ''UNLICENSE''}"

definition licenceFileTextExtensions :: "string list" where
  "licenceFileTextExtensions = [''.TXT'', ''.MD'', ''.MARKDOWN'', ''.RST'', ''.TEXT'', ''.HTML'']"

definition licenceNameAliases :: "(string \<times> string) list" where
  "licenceNameAliases =
     [(''APACHE'', ''APACHE20''), (''APACHE2'', ''APACHE20''), (''APACHE20'', ''APACHE20''),
      (''APLV2'', ''APACHE20''), (''BSD'', ''BSD3CLAUSE''), (''BSD3'', ''BSD3CLAUSE''),
      (''BSD3CLAUSE'', ''BSD3CLAUSE''), (''BSD2'', ''BSD2CLAUSE''), (''BSD2CLAUSE'', ''BSD2CLAUSE''),
      (''GPLV2'', ''GPL20''), (''GPLV3'', ''GPL30''), (''GO'', ''BSD3CLAUSE''), (''SIL'', ''OFL11''),
      (''OFL'', ''OFL11'')]"

definition normaliseLicenceToken :: "string \<Rightarrow> string" where
  "normaliseLicenceToken s = filter (\<lambda>c. c \<notin> {CHR ''-'', CHR ''_'', CHR ''.'', CHR '' ''}) (ToUpper s)"

definition resolveLicenceNameToken :: "string \<Rightarrow> string" where
  "resolveLicenceNameToken token =
     (let n = normaliseLicenceToken token
      in case map_of licenceNameAliases n of Some i \<Rightarrow> i | None \<Rightarrow> n)"

text \<open>The first extension of the list the name ends in is taken off.\<close>

fun dropExtension :: "string list \<Rightarrow> string \<Rightarrow> string" where
  "dropExtension [] upper = upper"
| "dropExtension (ext # exts) upper =
     (if HasSuffix upper ext then take (length upper - length ext) upper else dropExtension exts upper)"

fun stemPrefix :: "string list \<Rightarrow> string \<Rightarrow> string option" where
  "stemPrefix [] upper = None"
| "stemPrefix (stem # stems) upper =
     (if HasPrefix upper stem then Some (drop (length stem) upper) else stemPrefix stems upper)"

fun stemInside :: "string list \<Rightarrow> string \<Rightarrow> string option" where
  "stemInside [] upper = None"
| "stemInside (stem # stems) upper =
     (case StrIndex upper stem of
        Some idx \<Rightarrow>
          if idx > 0 then Some (take idx upper @ drop (idx + length stem) upper) else stemInside stems upper
      | None \<Rightarrow> stemInside stems upper)"

definition licenceNameToken :: "string \<Rightarrow> string \<times> bool" where
  "licenceNameToken fileName =
     (let upper = dropExtension licenceFileTextExtensions (ToUpper fileName)
      in if upper \<in> licenceFileGenericNames then ([], False)
         else case stemPrefix [''LICENSE-'', ''LICENCE-'', ''COPYING-''] upper of
                Some token \<Rightarrow> (token, True)
              | None \<Rightarrow>
                  (case stemInside [''-LICENSE'', ''-LICENCE''] upper of
                     Some token \<Rightarrow> (token, True)
                   | None \<Rightarrow> (upper, False)))"

definition fileNameNamesItsLicence :: "LicenseFileEntry \<Rightarrow> bool" where
  "fileNameNamesItsLicence e =
     (let token = fst (licenceNameToken (le_Path e))
      in if token = [] \<or> le_SPDX e = [] then False
         else resolveLicenceNameToken token = normaliseLicenceToken (le_SPDX e))"

fun electsLoop :: "bool \<Rightarrow> LicenseFileEntry list \<Rightarrow> bool" where
  "electsLoop elects [] = elects"
| "electsLoop elects (e # es) =
     (if fileNameNamesItsLicence e then electsLoop True es
      else if snd (licenceNameToken (le_Path e)) then False
      else electsLoop elects es)"

definition fileNamesElectLicence :: "LicenseFileEntry list \<Rightarrow> bool" where
  "fileNamesElectLicence entries = electsLoop False entries"

subsection \<open>Arms of an expression\<close>

fun armsLoop :: "string list \<Rightarrow> string list \<Rightarrow> string list" where
  "armsLoop seen [] = []"
| "armsLoop seen (p # ps) =
     (let q = TrimSpace p
      in if q = [] \<or> q \<in> set seen then armsLoop seen ps else q # armsLoop (q # seen) ps)"

definition armsOf :: "string \<Rightarrow> string \<Rightarrow> string list" where
  "armsOf expr sep =
     (let arms = armsLoop [] (SplitStr expr sep) in if length arms < 2 then [] else sort arms)"

definition DisjunctionArms :: "string \<Rightarrow> string list" where
  "DisjunctionArms expr =
     (if expr = [] \<or> Contains expr '' AND '' \<or> Contains expr '' WITH '' then [] else armsOf expr '' OR '')"

definition ConjunctionArms :: "string \<Rightarrow> string list" where
  "ConjunctionArms expr =
     (if expr = [] \<or> Contains expr '' OR '' \<or> Contains expr '' WITH '' then [] else armsOf expr '' AND '')"

definition SoleIdentifier :: "string \<Rightarrow> string" where
  "SoleIdentifier expr0 =
     (let expr = TrimSpace expr0
      in if expr = [] \<or> Contains expr '' OR '' \<or> Contains expr '' AND '' \<or> Contains expr '' WITH '' then []
         else expr)"

subsection \<open>Deriving the expression\<close>

record ExpressionResult =
  er_Expression :: string
  er_PrimarySPDX :: string
  er_Basis :: string
  er_BundledSPDXs :: "string list"

definition justExpression :: "string \<Rightarrow> ExpressionResult" where
  "justExpression expr = \<lparr>er_Expression = expr, er_PrimarySPDX = [], er_Basis = [], er_BundledSPDXs = []\<rparr>"

text \<open>
  \<open>exprCompoundDelta\<close>, 0.005 as a \<open>float64\<close>, and the test \<open>a - b <= exprCompoundDelta\<close>.  The
  \<open>float64\<close> difference of two confidences is their exact difference rounded to even; the constant has an
  odd significand and unit \<open>2^-60\<close>, so the rounded difference is at most the constant exactly when the
  exact one is less than half a unit above it.
\<close>

definition exprCompoundDelta :: rat where
  "exprCompoundDelta = 5764607523034235 / 1152921504606846976"

definition withinDelta :: "rat \<Rightarrow> rat \<Rightarrow> bool" where
  "withinDelta x y \<longleftrightarrow> x - y < exprCompoundDelta + 1 / 2305843009213693952"

fun nearEqual :: "float64 \<Rightarrow> float64 \<Rightarrow> bool" where
  "nearEqual (Num x) (Num y) = withinDelta x y"
| "nearEqual _ _ = False"

definition licenseCheckPseudoIDs :: "string set" where
  "licenseCheckPseudoIDs = {''GooglePatentClause''}"

definition filterRealSPDX :: "AltMatch list \<Rightarrow> AltMatch list" where
  "filterRealSPDX alts = filter (\<lambda>a. am_SPDX a \<noteq> [] \<and> am_SPDX a \<notin> licenseCheckPseudoIDs) alts"

definition readCompoundResult :: "LicenseFileEntry \<Rightarrow> AltMatch list \<Rightarrow> string \<Rightarrow> ExpressionResult" where
  "readCompoundResult primary alts prose =
     (let ids = le_SPDX primary # map am_SPDX alts
      in if length (sorted_distinct ids) < 2 then justExpression (le_SPDX primary)
         else if prose = [] then
           (justExpression (Join (sorted_distinct ids) '' AND ''))
             \<lparr>er_Basis := ''conservative: several grants, file text unavailable to read''\<rparr>
         else
           (let reading = ReadCompoundFile prose ids;
                basis = shape_String (cr_Shape reading) @ '': '' @ cr_Evidence reading
            in case cr_Shape reading of
                 ShapeElection \<Rightarrow>
                   (justExpression (Join (cr_Own reading) '' OR ''))\<lparr>er_Basis := basis\<rparr>
               | ShapeBundledGrant \<Rightarrow>
                   (let res = (justExpression (Join (cr_Own reading) '' AND ''))
                                \<lparr>er_Basis := basis @ '' '' @ em_dash @ '' bundled: '' @ Join (cr_Bundled reading) '', '',
                                 er_BundledSPDXs := cr_Bundled reading\<rparr>
                    in if length (cr_Own reading) = 1 \<and> hd (cr_Own reading) \<noteq> le_SPDX primary
                       then res\<lparr>er_PrimarySPDX := hd (cr_Own reading)\<rparr> else res)
               | ShapeSplit \<Rightarrow>
                   (justExpression (Join (cr_Own reading) '' AND ''))\<lparr>er_Basis := basis\<rparr>
               | ShapeUnstated \<Rightarrow>
                   (justExpression (Join (cr_Own reading) '' AND ''))
                     \<lparr>er_Basis := ''conservative: '' @ cr_Evidence reading\<rparr>))"

definition rootPaths :: "LicenseFileEntry list \<Rightarrow> string list" where
  "rootPaths roots = sort (map le_Path roots)"

definition BasisSeparateGrants :: string where
  "BasisSeparateGrants = ''split: one file per licence, none naming a choice''"

definition isRootGrant :: "LicenseFileEntry \<Rightarrow> bool" where
  "isRootGrant e =
     (\<not> le_IsVendored e \<and> exprIsRootLevel (le_Path e) \<and> \<not> exprIsNoticeName (le_Path e) \<and> le_SPDX e \<noteq> [])"

text \<open>
  The distinct identifiers of several root files are used only for their number, when single, and in
  sorted order, so they are collected sorted.
\<close>

definition DeriveExpressionResult ::
  "LicenseFileEntry list \<Rightarrow> (string \<Rightarrow> string option) \<Rightarrow> ExpressionResult" where
  "DeriveExpressionResult entries texts =
     (case sortSlice (filter isRootGrant entries) RootCandidateLess of
        [] \<Rightarrow> justExpression []
      | [primary] \<Rightarrow>
          (case filterRealSPDX (le_AltMatches primary) of
             [] \<Rightarrow> justExpression (le_SPDX primary)
           | alt # alts \<Rightarrow>
               if nearEqual (le_Confidence primary) (am_Confidence alt)
               then readCompoundResult primary (alt # alts)
                      (case texts (le_Path primary) of Some t \<Rightarrow> t | None \<Rightarrow> [])
               else justExpression (le_SPDX primary))
      | roots \<Rightarrow>
          (let distinctIDs = sorted_distinct (map le_SPDX roots)
           in if length distinctIDs = 1 then justExpression (hd distinctIDs)
              else if fileNamesElectLicence roots then
                (justExpression (Join distinctIDs '' OR ''))
                  \<lparr>er_Basis := ''election: one file per licence ('' @ Join (rootPaths roots) '', '' @ '')''\<rparr>
              else (justExpression (Join distinctIDs '' AND ''))\<lparr>er_Basis := BasisSeparateGrants\<rparr>))"

definition DeriveExpression :: "LicenseFileEntry list \<Rightarrow> (string \<Rightarrow> string option) \<Rightarrow> string" where
  "DeriveExpression entries texts = er_Expression (DeriveExpressionResult entries texts)"

definition ArmsAreSeparatelyGranted :: "string \<Rightarrow> bool" where
  "ArmsAreSeparatelyGranted basis \<longleftrightarrow> basis = BasisSeparateGrants"

text \<open>The paths that grant each arm; an arm no root file accounts for is absent from the map.\<close>

definition ArmGrants :: "string \<Rightarrow> LicenseFileEntry list \<Rightarrow> (string \<Rightarrow> string list option)" where
  "ArmGrants expr entries =
     (let arms = ConjunctionArms expr
      in (\<lambda>a. (let paths = map le_Path (filter (\<lambda>e. isRootGrant e \<and> le_SPDX e = a) entries)
              in if a \<notin> set arms \<or> paths = [] then None else Some (sort paths))))"


subsection \<open>Words of an expression\<close>

lemma Split_sep: "Split (a @ c # b) c = Split a c @ Split b c"
proof (induction a c rule: Split.induct)
  case (2 x xs c)
  then show ?case by (cases "Split xs c") auto
qed simp

lemma Contains_word: "Contains s (c # w @ [c]) \<Longrightarrow> c \<notin> set w \<Longrightarrow> w \<in> set (Split s c)"
proof -
  assume h: "Contains s (c # w @ [c])" "c \<notin> set w"
  then obtain u v where "s = u @ c # (w @ c # v)" unfolding Contains_iff by auto
  then have "Split s c = Split u c @ Split w c @ Split v c" by (simp add: Split_sep)
  with h(2) show ?thesis by (simp add: Split_no_sep)
qed

lemma words_of_Join:
  assumes "ws \<noteq> []" "\<forall>w \<in> set ws. c \<notin> set w" "c \<notin> set op"
  shows "set (Split (Join ws (c # op @ [c])) c) \<subseteq> set ws \<union> {op}"
  using assms(1,2)
proof (induction ws "c # op @ [c]" rule: Join.induct)
  case (2 w)
  then show ?case by (simp add: Split_no_sep)
next
  case (3 w v vs)
  then show ?case by (auto simp: Split_sep Split_no_sep assms(3))
qed simp

lemma no_operator:
  assumes "ws \<noteq> []" "\<forall>w \<in> set ws. c \<notin> set w" "c \<notin> set op" "c \<notin> set q" "q \<noteq> op" "q \<notin> set ws"
  shows "\<not> Contains (Join ws (c # op @ [c])) (c # q @ [c])"
  using Contains_word [of "Join ws (c # op @ [c])" c q] words_of_Join [OF assms(1-3)] assms(4-6) by blast

text \<open>An identifier as SPDX writes them: one word that is not an operator.\<close>

definition spdx_id :: "string \<Rightarrow> bool" where
  "spdx_id w \<longleftrightarrow> w \<noteq> [] \<and> (\<forall>c \<in> set w. \<not> is_space c) \<and> w \<notin> {''AND'', ''OR'', ''WITH''}"

lemma spdx_id_facts:
  assumes "spdx_id w"
  shows "CHR '' '' \<notin> set w" "TrimSpace w = w" "w \<noteq> []" "w \<noteq> ''AND''" "w \<noteq> ''OR''" "w \<noteq> ''WITH''"
proof -
  show "CHR '' '' \<notin> set w" using assms by (auto simp: spdx_id_def is_space_def)
  show "TrimSpace w = w" using assms by (auto simp: spdx_id_def intro: TrimSpace_id)
qed (use assms in \<open>auto simp: spdx_id_def\<close>)

lemma armsLoop_words:
  "distinct ws \<Longrightarrow> set seen \<inter> set ws = {} \<Longrightarrow> \<forall>w \<in> set ws. TrimSpace w = w \<and> w \<noteq> [] \<Longrightarrow> armsLoop seen ws = ws"
  by (induction ws arbitrary: seen) (auto simp: Let_def)

lemma Join_no_operator:
  assumes "ws \<noteq> []" "\<forall>w \<in> set ws. spdx_id w"
  shows "\<not> Contains (Join ws '' OR '') '' AND ''" "\<not> Contains (Join ws '' OR '') '' WITH ''"
    "\<not> Contains (Join ws '' AND '') '' OR ''" "\<not> Contains (Join ws '' AND '') '' WITH ''"
proof -
  have ws: "\<forall>w \<in> set ws. CHR '' '' \<notin> set w" "''AND'' \<notin> set ws" "''OR'' \<notin> set ws" "''WITH'' \<notin> set ws"
    using assms(2) spdx_id_facts by blast+
  note n = no_operator [OF assms(1) ws(1)]
  show "\<not> Contains (Join ws '' OR '') '' AND ''" using n [of "''OR''" "''AND''"] ws by simp
  show "\<not> Contains (Join ws '' OR '') '' WITH ''" using n [of "''OR''" "''WITH''"] ws by simp
  show "\<not> Contains (Join ws '' AND '') '' OR ''" using n [of "''AND''" "''OR''"] ws by simp
  show "\<not> Contains (Join ws '' AND '') '' WITH ''" using n [of "''AND''" "''WITH''"] ws by simp
qed

lemma armsOf_Join:
  assumes "sorted ws" "distinct ws" "\<forall>w \<in> set ws. spdx_id w" "2 \<le> length ws"
  shows "armsOf (Join ws (CHR '' '' # op)) (CHR '' '' # op) = ws"
proof -
  have "SplitStr (Join ws (CHR '' '' # op)) (CHR '' '' # op) = ws"
    by (rule SplitStr_Join) (use assms(3,4) spdx_id_facts(1) in auto)
  moreover have "armsLoop [] ws = ws" by (rule armsLoop_words) (use assms spdx_id_facts in auto)
  ultimately show ?thesis using assms(1,4) by (simp add: armsOf_def sorted_sort_id)
qed

lemma armsOf_one: "\<not> Contains expr sep \<Longrightarrow> sep \<noteq> [] \<Longrightarrow> armsOf expr sep = []"
  by (simp add: armsOf_def SplitStr.simps Contains_def Let_def)

lemma Contains_Join: "2 \<le> length ws \<Longrightarrow> Contains (Join ws sep) sep"
  by (cases "(ws, sep)" rule: Join.cases) (auto simp: Contains_iff)

lemma Join_nonempty: "ws \<noteq> [] \<Longrightarrow> \<forall>w \<in> set ws. w \<noteq> [] \<Longrightarrow> Join ws sep \<noteq> []"
  by (cases "(ws, sep)" rule: Join.cases) auto

text \<open>
  C29: Reading an expression back: the identifiers joined by an operator are its arms, and they are arms
  of that operator only.  No expression at all has arms of both kinds.
\<close>

theorem expression_arms_roundtrip:
  assumes "sorted ids" "distinct ids" "\<forall>w \<in> set ids. spdx_id w" "2 \<le> length ids"
  shows "DisjunctionArms (Join ids '' OR '') = ids \<and> ConjunctionArms (Join ids '' AND '') = ids
    \<and> ConjunctionArms (Join ids '' OR '') = [] \<and> DisjunctionArms (Join ids '' AND '') = []
    \<and> (DisjunctionArms expr = [] \<or> ConjunctionArms expr = [])"
proof -
  have ne: "ids \<noteq> []" using assms(4) by auto
  note no = Join_no_operator [OF ne assms(3)]
  have nil: "Join ids sep \<noteq> []" for sep
    by (rule Join_nonempty [OF ne]) (use assms(3) spdx_id_facts in blast)
  have "DisjunctionArms expr = [] \<or> ConjunctionArms expr = []"
    by (cases "Contains expr '' AND ''") (simp_all add: DisjunctionArms_def ConjunctionArms_def armsOf_one)
  then show ?thesis
    using no nil armsOf_Join [OF assms] Contains_Join [OF assms(4)]
    by (simp add: DisjunctionArms_def ConjunctionArms_def)
qed

lemma expression_arms_roundtrip_witness:
  "DisjunctionArms (Join [''Apache-2.0'', ''MIT''] '' OR '') = [''Apache-2.0'', ''MIT'']"
proof -
  have "sorted [''Apache-2.0'', ''MIT'']" by code_simp
  moreover have "\<forall>w \<in> set [''Apache-2.0'', ''MIT'']. spdx_id w"
    by (simp add: spdx_id_def is_space_def)
  ultimately show ?thesis using expression_arms_roundtrip [of "[''Apache-2.0'', ''MIT'']"] by simp
qed

subsection \<open>What an expression accounts for\<close>

lemma electsLoop_iff:
  "electsLoop b es \<longleftrightarrow> (b \<or> (\<exists>e \<in> set es. fileNameNamesItsLicence e))
     \<and> (\<forall>e \<in> set es. fileNameNamesItsLicence e \<or> \<not> snd (licenceNameToken (le_Path e)))"
  by (induction b es rule: electsLoop.induct) auto

text \<open>An election by file names needs a file that names its licence, and no file that names a component.\<close>

lemma fileNamesElectLicence_iff:
  "fileNamesElectLicence es \<longleftrightarrow> (\<exists>e \<in> set es. fileNameNamesItsLicence e)
     \<and> (\<forall>e \<in> set es. fileNameNamesItsLicence e \<or> \<not> snd (licenceNameToken (le_Path e)))"
  by (auto simp: fileNamesElectLicence_def electsLoop_iff)

text \<open>The identifiers the root files grant: with one file, also what a near-equal match adds to it.\<close>

definition grantedIDs :: "LicenseFileEntry list \<Rightarrow> string set" where
  "grantedIDs entries =
     (case filter isRootGrant entries of
        [p] \<Rightarrow> (case filterRealSPDX (le_AltMatches p) of
                 a # as \<Rightarrow> if nearEqual (le_Confidence p) (am_Confidence a)
                           then insert (le_SPDX p) (am_SPDX ` set (a # as)) else {le_SPDX p}
               | [] \<Rightarrow> {le_SPDX p})
      | roots \<Rightarrow> le_SPDX ` set roots)"

definition choiceOffered :: "LicenseFileEntry list \<Rightarrow> (string \<Rightarrow> string option) \<Rightarrow> bool" where
  "choiceOffered entries texts \<longleftrightarrow>
     (case filter isRootGrant entries of
        [p] \<Rightarrow> (\<exists>t. texts (le_Path p) = Some t \<and> offersChoice (ToLower t))
      | roots \<Rightarrow> fileNamesElectLicence roots)"

definition accounted :: "ExpressionResult \<Rightarrow> string set \<Rightarrow> bool \<Rightarrow> bool" where
  "accounted r granted choice \<longleftrightarrow>
     (\<exists>ids op. er_Expression r = Join ids op \<and> (op = '' AND '' \<or> op = '' OR '' \<and> choice)
        \<and> ids \<noteq> [] \<and> sorted ids \<and> distinct ids \<and> set ids \<union> set (er_BundledSPDXs r) = granted
        \<and> set ids \<inter> set (er_BundledSPDXs r) = {})"

lemma accountedI:
  assumes "er_Expression r = Join ids op" "op = '' AND '' \<or> op = '' OR '' \<and> choice" "ids \<noteq> []" "sorted ids"
    "distinct ids" "set ids \<union> set (er_BundledSPDXs r) = granted" "set ids \<inter> set (er_BundledSPDXs r) = {}"
  shows "accounted r granted choice"
  unfolding accounted_def using assms by blast

lemma accounted_single: "accounted (justExpression x) {x} choice"
  by (rule accountedI [of _ "[x]" "'' AND ''"]) (simp_all add: justExpression_def)


lemma accounted_compound:
  assumes "choice \<longleftrightarrow> offersChoice (ToLower prose)"
  shows "accounted (readCompoundResult p alts prose) (insert (le_SPDX p) (am_SPDX ` set alts)) choice"
proof -
  let ?ids = "le_SPDX p # map am_SPDX alts"
  let ?r = "ReadCompoundFile prose ?ids"
  have g: "insert (le_SPDX p) (am_SPDX ` set alts) = set ?ids" by simp
  show ?thesis unfolding g
  proof (cases "length (sorted_distinct ?ids) < 2")
    case True
    then have "card (set ?ids) \<le> Suc 0" by simp
    then have "set ?ids = {le_SPDX p}"
      by (metis List.finite_set card_le_Suc0_iff_eq insertI1 is_singletonI' is_singleton_the_elem list.simps(15) singletonD empty_iff)
    moreover have "readCompoundResult p alts prose = justExpression (le_SPDX p)"
      using True by (simp only: readCompoundResult_def Let_def if_True)
    ultimately show "accounted (readCompoundResult p alts prose) (set ?ids) choice" using accounted_single by metis
  next
    case many: False
    then have two: "2 \<le> card (set ?ids)" by simp
    note d = readCompoundResult_def [of p alts prose, unfolded Let_def if_not_P [OF many]]
    note ids = ReadCompoundFile_ids [of prose ?ids] and shape = ReadCompoundFile_shape [of prose ?ids]
    show "accounted (readCompoundResult p alts prose) (set ?ids) choice"
    proof (cases "prose = []")
      case True
      note d = d [unfolded if_P [OF True]]
      show ?thesis
        by (rule accountedI [of _ "sorted_distinct ?ids" "'' AND ''"]) (simp_all add: d justExpression_def)
    next
      case False
      note d = d [unfolded if_not_P [OF False]]
      show ?thesis
      proof (rule accountedI [of _ "cr_Own ?r" "if cr_Shape ?r = ShapeElection then '' OR '' else '' AND ''"])
        show "er_Expression (readCompoundResult p alts prose)
            = Join (cr_Own ?r) (if cr_Shape ?r = ShapeElection then '' OR '' else '' AND '')"
          by (cases "cr_Shape ?r") (simp_all add: d justExpression_def)
        have "er_BundledSPDXs (readCompoundResult p alts prose) = cr_Bundled ?r"
          using shape by (cases "cr_Shape ?r") (simp_all add: d justExpression_def)
        then show "set (cr_Own ?r) \<union> set (er_BundledSPDXs (readCompoundResult p alts prose)) = set ?ids"
          "set (cr_Own ?r) \<inter> set (er_BundledSPDXs (readCompoundResult p alts prose)) = {}"
          using ids by simp_all
      qed (use ids shape two assms in \<open>simp_all del: list.set\<close>)
    qed
  qed
qed

text \<open>
  The derived expression accounts for every licence the root files grant, exactly once: as an arm, or
  as a grant carried for third-party code.  It offers an election only where the file names or the
  prose of the one file do, and it is empty exactly when no root file grants anything.
\<close>

theorem derived_expression_accounts:
  "if filter isRootGrant entries = [] then DeriveExpressionResult entries texts = justExpression []
   else er_Expression (DeriveExpressionResult entries texts) \<noteq> []
     \<and> accounted (DeriveExpressionResult entries texts) (grantedIDs entries) (choiceOffered entries texts)"
proof -
  let ?r = "DeriveExpressionResult entries texts" and ?roots = "filter isRootGrant entries"
  have ms: "mset (sortSlice ?roots RootCandidateLess) = mset ?roots" by (simp add: sortSlice_def)
  show ?thesis
  proof (cases "?roots = []")
    case True
    then show ?thesis by (simp add: DeriveExpressionResult_def sortSlice_def)
  next
    case ne: False
    have spdx: "le_SPDX e \<noteq> []" if "e \<in> set ?roots" for e using that by (simp add: isRootGrant_def)
    have acc: "accounted ?r (grantedIDs entries) (choiceOffered entries texts)"
    proof (cases "\<exists>p. ?roots = [p]")
      case True
      then obtain p where p: "?roots = [p]" by blast
      then have s: "sortSlice ?roots RootCandidateLess = [p]" by (simp add: sortSlice_def)
      show ?thesis
      proof (cases "filterRealSPDX (le_AltMatches p)")
        case Nil
        then show ?thesis using accounted_single [of "le_SPDX p"] p s by (simp add: DeriveExpressionResult_def grantedIDs_def)
      next
        case (Cons a as)
        let ?t = "case texts (le_Path p) of Some t \<Rightarrow> t | None \<Rightarrow> []"
        have "offersChoice (ToLower []) = False"
          by (simp add: offersChoice_def ToLower_def spdxTag_def electionPhrases_def Contains_def)
        then have c: "choiceOffered entries texts \<longleftrightarrow> offersChoice (ToLower ?t)"
          using p by (auto simp: choiceOffered_def split: option.splits)
        show ?thesis
        proof (cases "nearEqual (le_Confidence p) (am_Confidence a)")
          case True
          have "?r = readCompoundResult p (a # as) ?t"
            using p s Cons True by (simp add: DeriveExpressionResult_def)
          moreover have "grantedIDs entries = insert (le_SPDX p) (am_SPDX ` set (a # as))"
            using p Cons True by (simp add: grantedIDs_def)
          ultimately show ?thesis using accounted_compound [OF c, of p "a # as"] by simp
        next
          case False
          then show ?thesis using accounted_single [of "le_SPDX p"] p s Cons
            by (simp add: DeriveExpressionResult_def grantedIDs_def)
        qed
      qed
    next
      case many: False
      let ?s = "sortSlice ?roots RootCandidateLess"
      have st: "set ?s = set ?roots" by (simp add: sortSlice_def)
      obtain x y zs where s: "?s = x # y # zs"
        using ms ne many by (metis (no_types) list.exhaust mset.simps(1) mset_single_iff_right mset_zero_iff_right mset.simps)
      obtain x' y' zs' where r: "?roots = x' # y' # zs'"
        using ne many by (metis list.exhaust)
      have g: "grantedIDs entries = le_SPDX ` set ?roots"
        "choiceOffered entries texts = fileNamesElectLicence ?roots"
        by (simp_all add: grantedIDs_def choiceOffered_def r)
      have e: "fileNamesElectLicence ?s = fileNamesElectLicence ?roots"
        by (simp add: fileNamesElectLicence_iff st)
      let ?ids = "sorted_distinct (map le_SPDX ?s)"
      have ids: "set ?ids = le_SPDX ` set ?roots" by (simp add: st)
      have ne': "?ids \<noteq> []" using s by simp
      have d: "?r = (if length ?ids = 1 then justExpression (hd ?ids)
          else if fileNamesElectLicence ?s then
            (justExpression (Join ?ids '' OR ''))\<lparr>er_Basis := ''election: one file per licence ('' @ Join (rootPaths ?s) '', '' @ '')''\<rparr>
          else (justExpression (Join ?ids '' AND ''))\<lparr>er_Basis := BasisSeparateGrants\<rparr>)"
        unfolding DeriveExpressionResult_def s by (simp add: Let_def)
      show ?thesis
      proof (rule accountedI [of _ ?ids "if length ?ids \<noteq> 1 \<and> fileNamesElectLicence ?s then '' OR '' else '' AND ''"])
        show "er_Expression ?r = Join ?ids (if length ?ids \<noteq> 1 \<and> fileNamesElectLicence ?s then '' OR '' else '' AND '')"
        proof (cases "length ?ids = 1")
          case True
          then obtain w where "?ids = [w]" by (metis One_nat_def length_0_conv length_Suc_conv)
          then show ?thesis using d True by (simp add: justExpression_def)
        qed (use d in \<open>simp add: justExpression_def\<close>)
        have "er_BundledSPDXs ?r = []" using d by (simp add: justExpression_def)
        then show "set ?ids \<union> set (er_BundledSPDXs ?r) = grantedIDs entries" "set ?ids \<inter> set (er_BundledSPDXs ?r) = {}"
          using ids g by simp_all
      qed (use ne' e g in simp_all)
    qed
    obtain e es where roots: "?roots = e # es" using ne by (cases ?roots) auto
    have "\<forall>w \<in> grantedIDs entries. w \<noteq> []"
      using spdx roots by (auto simp: grantedIDs_def filterRealSPDX_def split: list.splits if_splits dest!: filter_eq_ConsD)
    moreover obtain ids op where "er_Expression ?r = Join ids op" "ids \<noteq> []" "set ids \<subseteq> grantedIDs entries"
      using acc unfolding accounted_def by blast
    ultimately have "er_Expression ?r \<noteq> []" using Join_nonempty [of ids op] by auto
    with acc ne show ?thesis by simp
  qed
qed

end
