(* ===== verification/License_Effective.thy ===== *)
theory License_Effective
  imports License_Expression
begin

text \<open>
  What the licence files of a module add up to (\<open>internal/license/domain/effective.go\<close>,
  \<open>packagelicense.go\<close>) and what an operator has recorded beside them (\<open>override.go\<close>,
  \<open>copyrightdeclaration.go\<close>).  A Go map from directories to sets or candidates is read back in sorted
  key order, so it is a function together with the sorted list of its keys.
\<close>

subsection \<open>The effective set\<close>

definition embeddedComponentPrefix :: "string \<Rightarrow> string" where
  "embeddedComponentPrefix relPath =
     (case LastIndex relPath ''/'' of None \<Rightarrow> relPath | Some idx \<Rightarrow> take idx relPath)"

definition declaresLicence :: "LicenseFileEntry \<Rightarrow> bool" where
  "declaresLicence e = (\<not> (le_SPDX e = [] \<or> exprIsNoticeName (le_Path e)))"

definition rootDeclared :: "LicenseFileEntry \<Rightarrow> bool" where
  "rootDeclared e = (declaresLicence e \<and> \<not> le_IsVendored e \<and> exprIsRootLevel (le_Path e))"

definition embeddedDeclared :: "LicenseFileEntry \<Rightarrow> bool" where
  "embeddedDeclared e = (declaresLicence e \<and> \<not> exprIsRootLevel (le_Path e))"

definition embeddedComponents :: "LicenseFileEntry list \<Rightarrow> EmbeddedComponent list" where
  "embeddedComponents entries =
     map (\<lambda>p. \<lparr>ec_PathPrefix = p,
               ec_SPDXs = sorted_distinct (map le_SPDX (filter (\<lambda>e. embeddedComponentPrefix (le_Path e) = p) entries))\<rparr>)
       (sorted_distinct (map (\<lambda>e. embeddedComponentPrefix (le_Path e)) entries))"

fun unionLoop :: "string list \<Rightarrow> string list \<Rightarrow> string list" where
  "unionLoop allSPDXs [] = allSPDXs"
| "unionLoop allSPDXs (s # ss) = unionLoop (if s \<in> set allSPDXs then allSPDXs else allSPDXs @ [s]) ss"

definition DeriveEffectiveLicenseSet :: "LicenseFileEntry list \<Rightarrow> EffectiveLicenseSet" where
  "DeriveEffectiveLicenseSet entries =
     (let rootSPDXs = sorted_distinct (map le_SPDX (filter rootDeclared entries));
          components = embeddedComponents (filter embeddedDeclared entries)
      in \<lparr>ef_RootSPDXs = rootSPDXs, ef_Components = components,
          ef_AllSPDXs = sort (unionLoop rootSPDXs (concat (map ec_SPDXs components)))\<rparr>)"

definition IsUnbuiltPath :: "string \<Rightarrow> bool" where
  "IsUnbuiltPath pre =
     (\<exists>seg \<in> set (Split pre CHR ''/'').
        seg = ''testdata'' \<or> (length seg > 1 \<and> (hd seg = CHR ''_'' \<or> hd seg = CHR ''.'')))"

subsection \<open>Package licences\<close>

definition packageDir :: "string \<Rightarrow> string" where
  "packageDir relPath =
     (case LastIndex relPath ''/'' of None \<Rightarrow> relPath | Some idx \<Rightarrow> take idx relPath)"

definition packageCandidate :: "LicenseFileEntry \<Rightarrow> bool" where
  "packageCandidate e =
     (\<not> le_IsVendored e \<and> \<not> exprIsRootLevel (le_Path e) \<and> \<not> exprIsNoticeName (le_Path e))"

definition bestStep ::
  "(string \<Rightarrow> LicenseFileEntry option) \<Rightarrow> LicenseFileEntry \<Rightarrow> (string \<Rightarrow> LicenseFileEntry option)" where
  "bestStep best e =
     (if \<not> packageCandidate e then best
      else case best (packageDir (le_Path e)) of
             None \<Rightarrow> best(packageDir (le_Path e) \<mapsto> e)
           | Some cur \<Rightarrow>
               if float_less (le_Confidence cur) (le_Confidence e) then best(packageDir (le_Path e) \<mapsto> e) else best)"

definition packageLicence :: "string \<Rightarrow> LicenseFileEntry \<Rightarrow> PackageLicense" where
  "packageLicence d e =
     \<lparr>pl_PackagePath = d, pl_SPDX = le_SPDX e, pl_Confidence = le_Confidence e, pl_SourceFile = le_Path e\<rparr>"

definition DerivePackageLicenses :: "LicenseFileEntry list \<Rightarrow> PackageLicense list" where
  "DerivePackageLicenses entries =
     (let best = foldl bestStep (\<lambda>d. None) entries
      in map (\<lambda>d. packageLicence d (the (best d)))
           (sorted_distinct (map (\<lambda>e. packageDir (le_Path e)) (filter packageCandidate entries))))"

subsection \<open>Operator determinations\<close>

record LicenseOverride =
  lo_SPDX :: string
  lo_DeclaredBy :: string
  lo_DeclaredOn :: string
  lo_Basis :: string
  lo_Key :: string
  lo_VersionPinned :: bool

definition Attributed :: "LicenseOverride \<Rightarrow> bool" where
  "Attributed x = (lo_DeclaredBy x \<noteq> [] \<and> lo_DeclaredOn x \<noteq> [] \<and> lo_Basis x \<noteq> [])"

record CopyrightDeclaration =
  cd_Copyright :: string
  cd_DeclaredBy :: string
  cd_DeclaredOn :: string
  cd_Basis :: string
  cd_Key :: string
  cd_VersionPinned :: bool

definition pinnedKey :: "ModuleCoordinate \<Rightarrow> string" where
  "pinnedKey c = Path c @ ''@'' @ Version c"

definition override_Resolve ::
  "(string \<Rightarrow> LicenseOverride option) \<Rightarrow> ModuleCoordinate \<Rightarrow> LicenseOverride option" where
  "override_Resolve entries c =
     (let named = (\<lambda>key. case entries key of Some x \<Rightarrow> if lo_SPDX x \<noteq> [] then Some x else None | None \<Rightarrow> None)
      in case named (pinnedKey c) of
           Some x \<Rightarrow> Some (x\<lparr>lo_Key := pinnedKey c, lo_VersionPinned := True\<rparr>)
         | None \<Rightarrow>
             (case named (Path c) of
                Some x \<Rightarrow> Some (x\<lparr>lo_Key := Path c, lo_VersionPinned := False\<rparr>)
              | None \<Rightarrow> None))"

definition declaration_Resolve ::
  "(string \<Rightarrow> CopyrightDeclaration option) \<Rightarrow> ModuleCoordinate \<Rightarrow> CopyrightDeclaration option" where
  "declaration_Resolve entries c =
     (let named = (\<lambda>key. case entries key of Some x \<Rightarrow> if cd_Copyright x \<noteq> [] then Some x else None | None \<Rightarrow> None)
      in case named (pinnedKey c) of
           Some x \<Rightarrow> Some (x\<lparr>cd_Key := pinnedKey c, cd_VersionPinned := True\<rparr>)
         | None \<Rightarrow>
             (case named (Path c) of
                Some x \<Rightarrow> Some (x\<lparr>cd_Key := Path c, cd_VersionPinned := False\<rparr>)
              | None \<Rightarrow> None))"

text \<open>What an override answers: the entry that matched, stamped with the key it matched under.\<close>

lemma override_Resolve_sound:
  assumes "override_Resolve entries c = Some x"
  shows "lo_SPDX x \<noteq> []" "lo_VersionPinned x \<longleftrightarrow> lo_Key x = pinnedKey c" "\<exists>y. entries (lo_Key x) = Some y \<and> lo_SPDX y = lo_SPDX x"
proof -
  have ne: "Path c \<noteq> pinnedKey c" by (simp add: pinnedKey_def)
  show "lo_SPDX x \<noteq> []" "lo_VersionPinned x \<longleftrightarrow> lo_Key x = pinnedKey c" "\<exists>y. entries (lo_Key x) = Some y \<and> lo_SPDX y = lo_SPDX x"
    using assms ne by (auto simp: override_Resolve_def Let_def split: option.splits if_splits)
qed

subsection \<open>The effective set accounts for every declaration\<close>

lemma set_unionLoop [simp]: "set (unionLoop xs ys) = set xs \<union> set ys"
  by (induction xs ys rule: unionLoop.induct) auto

lemma distinct_unionLoop: "distinct xs \<Longrightarrow> distinct (unionLoop xs ys)"
  by (induction xs ys rule: unionLoop.induct) auto

lemma embeddedComponents_in:
  "c \<in> set (embeddedComponents es) \<longleftrightarrow>
     (\<exists>e \<in> set es. ec_PathPrefix c = embeddedComponentPrefix (le_Path e))
     \<and> ec_SPDXs c = sorted_distinct (map le_SPDX (filter (\<lambda>e. embeddedComponentPrefix (le_Path e) = ec_PathPrefix c) es))"
  by (cases c) (auto simp: embeddedComponents_def)

lemma embeddedComponents_spdxs: "(\<Union>c \<in> set (embeddedComponents es). set (ec_SPDXs c)) = le_SPDX ` set es"
  by (auto simp: embeddedComponents_def)

lemma embeddedComponents_pairs:
  "{(ec_PathPrefix c, i) | c i. c \<in> set (embeddedComponents es) \<and> i \<in> set (ec_SPDXs c)}
     = {(embeddedComponentPrefix (le_Path e), le_SPDX e) | e. e \<in> set es}"
proof (intro subset_antisym subsetI)
  fix p assume "p \<in> {(embeddedComponentPrefix (le_Path e), le_SPDX e) | e. e \<in> set es}"
  then obtain e where e: "e \<in> set es" "p = (embeddedComponentPrefix (le_Path e), le_SPDX e)" by blast
  let ?c = "\<lparr>ec_PathPrefix = embeddedComponentPrefix (le_Path e), ec_SPDXs = sorted_distinct (map le_SPDX
    (filter (\<lambda>x. embeddedComponentPrefix (le_Path x) = embeddedComponentPrefix (le_Path e)) es))\<rparr>"
  have "?c \<in> set (embeddedComponents es)" using e(1) by (simp add: embeddedComponents_def)
  moreover have "le_SPDX e \<in> set (ec_SPDXs ?c)" "p = (ec_PathPrefix ?c, le_SPDX e)" using e by simp_all
  ultimately show "p \<in> {(ec_PathPrefix c, i) | c i. c \<in> set (embeddedComponents es) \<and> i \<in> set (ec_SPDXs c)}"
    by blast
next
  fix p assume "p \<in> {(ec_PathPrefix c, i) | c i. c \<in> set (embeddedComponents es) \<and> i \<in> set (ec_SPDXs c)}"
  then obtain c i where c: "p = (ec_PathPrefix c, i)" "c \<in> set (embeddedComponents es)" "i \<in> set (ec_SPDXs c)" by blast
  then obtain e where "e \<in> set es" "embeddedComponentPrefix (le_Path e) = ec_PathPrefix c" "le_SPDX e = i"
    by (auto simp: embeddedComponents_in)
  with c(1) show "p \<in> {(embeddedComponentPrefix (le_Path e), le_SPDX e) | e. e \<in> set es}" by force
qed

text \<open>
  The effective set names every identifier a licence file of the module declares and no other, each
  once and in order; an identifier under a component is one a file under its directory declares.
\<close>

theorem effective_set_accounts:
  "(let s = DeriveEffectiveLicenseSet entries in
     set (ef_AllSPDXs s) = {le_SPDX e | e. e \<in> set entries \<and> (rootDeclared e \<or> embeddedDeclared e)}
     \<and> sorted (ef_AllSPDXs s) \<and> distinct (ef_AllSPDXs s)
     \<and> set (ef_AllSPDXs s) = set (ef_RootSPDXs s) \<union> (\<Union>c \<in> set (ef_Components s). set (ec_SPDXs c))
     \<and> set (ef_RootSPDXs s) = {le_SPDX e | e. e \<in> set entries \<and> rootDeclared e}
     \<and> sorted (map ec_PathPrefix (ef_Components s)) \<and> distinct (map ec_PathPrefix (ef_Components s))
     \<and> {(ec_PathPrefix c, i) | c i. c \<in> set (ef_Components s) \<and> i \<in> set (ec_SPDXs c)}
         = {(embeddedComponentPrefix (le_Path e), le_SPDX e) | e. e \<in> set entries \<and> embeddedDeclared e})"
proof -
  let ?roots = "sorted_distinct (map le_SPDX (filter rootDeclared entries))"
  let ?es = "filter embeddedDeclared entries"
  have pre: "map ec_PathPrefix (embeddedComponents ?es)
      = sorted_distinct (map (\<lambda>e. embeddedComponentPrefix (le_Path e)) ?es)"
    by (simp add: embeddedComponents_def comp_def)
  have "{(ec_PathPrefix c, i) | c i. c \<in> set (embeddedComponents ?es) \<and> i \<in> set (ec_SPDXs c)}
      = {(embeddedComponentPrefix (le_Path e), le_SPDX e) | e. e \<in> set entries \<and> embeddedDeclared e}"
    using embeddedComponents_pairs [of ?es] by auto
  moreover have "distinct (unionLoop ?roots (concat (map ec_SPDXs (embeddedComponents ?es))))"
    by (rule distinct_unionLoop) simp
  ultimately show ?thesis
    unfolding DeriveEffectiveLicenseSet_def Let_def
    using embeddedComponents_spdxs [of ?es] by (simp add: pre) auto
qed

subsection \<open>The best licence file of a package\<close>

lemma bestStep_none:
  "foldl bestStep best es d = None \<longleftrightarrow> best d = None \<and> (\<forall>e \<in> set es. packageCandidate e \<longrightarrow> packageDir (le_Path e) \<noteq> d)"
  by (induction es arbitrary: best) (auto simp: bestStep_def split: option.splits if_splits)

text \<open>Float order is transitive and nothing exceeds NaN or is exceeded by it.\<close>

lemma float_less_trans: "float_less a b \<Longrightarrow> float_less b c \<Longrightarrow> float_less a c"
  by (cases a; cases b; cases c) auto

lemma float_less_irrefl [simp]: "\<not> float_less a a"
  by (cases a) auto

lemma float_not_less_trans: "\<not> float_less a b \<Longrightarrow> \<not> float_less b c \<Longrightarrow> \<not> IsNaN b \<Longrightarrow> \<not> float_less a c"
  by (cases a; cases b; cases c) auto

lemma bestStep_some:
  "foldl bestStep best es d = Some x \<Longrightarrow>
     (best d = Some x \<or> x \<in> set es \<and> packageCandidate x \<and> packageDir (le_Path x) = d)
     \<and> (\<forall>e \<in> set es. packageCandidate e \<and> packageDir (le_Path e) = d \<longrightarrow> \<not> float_less (le_Confidence x) (le_Confidence e))
     \<and> (\<forall>b. best d = Some b \<longrightarrow> \<not> float_less (le_Confidence x) (le_Confidence b)
          \<and> (IsNaN (le_Confidence b) \<longrightarrow> x = b))"
proof (induction es arbitrary: best)
  case (Cons e es)
  note ih = Cons.IH [of "bestStep best e"]
  show ?case
  proof (cases "packageCandidate e \<and> packageDir (le_Path e) = d")
    case False
    then have "bestStep best e d = best d" by (auto simp: bestStep_def split: option.splits)
    then show ?thesis using ih Cons.prems False by auto
  next
    case True
    show ?thesis
    proof (cases "best d = None \<or> (\<exists>b. best d = Some b \<and> float_less (le_Confidence b) (le_Confidence e))")
      case up: True
      then have "bestStep best e d = Some e" using True by (auto simp: bestStep_def)
      then have x: "x = e \<or> x \<in> set es \<and> packageCandidate x \<and> packageDir (le_Path x) = d"
        "\<not> float_less (le_Confidence x) (le_Confidence e)"
        "\<forall>e \<in> set es. packageCandidate e \<and> packageDir (le_Path e) = d \<longrightarrow> \<not> float_less (le_Confidence x) (le_Confidence e)"
        using ih Cons.prems by auto
      moreover have "\<not> float_less (le_Confidence x) (le_Confidence b) \<and> \<not> IsNaN (le_Confidence b)"
        if "best d = Some b" for b
      proof
        show "\<not> IsNaN (le_Confidence b)" using up that by (cases "le_Confidence b") auto
        show "\<not> float_less (le_Confidence x) (le_Confidence b)"
        proof
        assume "float_less (le_Confidence x) (le_Confidence b)"
        moreover have "float_less (le_Confidence b) (le_Confidence e)" using up that by auto
        ultimately show False using x(2) float_less_trans by blast
        qed
      qed
      ultimately show ?thesis using True by auto
    next
      case False
      then obtain b where b: "best d = Some b" "\<not> float_less (le_Confidence b) (le_Confidence e)" by auto
      then have "bestStep best e d = Some b" using True by (auto simp: bestStep_def)
      then have x: "x = b \<or> x \<in> set es \<and> packageCandidate x \<and> packageDir (le_Path x) = d"
        "\<not> float_less (le_Confidence x) (le_Confidence b)"
        "\<forall>e \<in> set es. packageCandidate e \<and> packageDir (le_Path e) = d \<longrightarrow> \<not> float_less (le_Confidence x) (le_Confidence e)"
        using ih Cons.prems by auto
      have nan: "IsNaN (le_Confidence b) \<Longrightarrow> x = b" using ih Cons.prems \<open>bestStep best e d = Some b\<close> by auto
      have "\<not> float_less (le_Confidence x) (le_Confidence e)"
        using float_not_less_trans [OF x(2) b(2)] nan b(2) by blast
      then show ?thesis using x b nan True by auto
    qed
  qed
qed simp


text \<open>
  A package has an entry exactly when a licence file that is neither vendored nor at the root nor a
  notice stands in its directory; the entry is one of those files, and none of them has a higher
  confidence.
\<close>

theorem package_licences_best:
  "map pl_PackagePath (DerivePackageLicenses entries)
       = sorted_distinct (map (\<lambda>e. packageDir (le_Path e)) (filter packageCandidate entries))
   \<and> (\<forall>p \<in> set (DerivePackageLicenses entries). \<exists>x \<in> set entries.
        packageCandidate x \<and> packageDir (le_Path x) = pl_PackagePath p \<and> p = packageLicence (pl_PackagePath p) x
        \<and> (\<forall>e \<in> set entries. packageCandidate e \<and> packageDir (le_Path e) = pl_PackagePath p
             \<longrightarrow> \<not> float_less (pl_Confidence p) (le_Confidence e)))"
proof (intro conjI ballI)
  let ?best = "foldl bestStep (\<lambda>d. None) entries"
  show "map pl_PackagePath (DerivePackageLicenses entries)
       = sorted_distinct (map (\<lambda>e. packageDir (le_Path e)) (filter packageCandidate entries))"
    by (simp add: DerivePackageLicenses_def packageLicence_def Let_def comp_def)
  fix p
  assume "p \<in> set (DerivePackageLicenses entries)"
  then obtain e d where e: "e \<in> set entries" "packageCandidate e" "packageDir (le_Path e) = d"
      "p = packageLicence d (the (?best d))"
    by (auto simp: DerivePackageLicenses_def)
  then obtain x where x: "?best d = Some x"
    using bestStep_none [of "\<lambda>d. None" entries d] by auto
  then have "p = packageLicence d x" using e by simp
  then show "\<exists>x \<in> set entries. packageCandidate x \<and> packageDir (le_Path x) = pl_PackagePath p
        \<and> p = packageLicence (pl_PackagePath p) x
        \<and> (\<forall>e \<in> set entries. packageCandidate e \<and> packageDir (le_Path e) = pl_PackagePath p
             \<longrightarrow> \<not> float_less (pl_Confidence p) (le_Confidence e))"
    using bestStep_some [OF x] by (intro bexI [of _ x]) (auto simp: packageLicence_def)
qed

definition examplePackageFiles :: "LicenseFileEntry list" where
  "examplePackageFiles =
     [exampleEntry ''LICENSE'' ''MIT'', (exampleEntry ''cmd/x/COPYING'' ''ISC'')\<lparr>le_Confidence := Num (1 / 2)\<rparr>,
      exampleEntry ''cmd/x/LICENSE'' ''Apache-2.0'']"

lemma package_licences_best_witness:
  "map pl_PackagePath (DerivePackageLicenses examplePackageFiles) = [''cmd/x'']"
proof -
  have "sorted_distinct (map (\<lambda>e. packageDir (le_Path e)) (filter packageCandidate examplePackageFiles)) = [''cmd/x'']"
    by code_simp
  then show ?thesis using package_licences_best [of examplePackageFiles] by simp
qed

end
