(* ===== verification/License_Coverage.thy ===== *)
theory License_Coverage
  imports License_Effective
begin

text \<open>
  What each licence of a module governs (\<open>internal/license/domain/licensecoverage.go\<close>): the module's
  code, documentation, or material it carries.  Coverage is derived from the licence files and the
  expression; the reading of a record through it sets aside the grants that do not reach the code.
\<close>

subsection \<open>Instruments\<close>

datatype licenceSubject = subjectUnknown | subjectSoftware | subjectFontSoftware | subjectContent

definition softwareLicenceInstruments :: "string list" where
  "softwareLicenceInstruments =
     [''0BSD'', ''AFL-3.0'', ''AGPL-3.0'', ''AGPL-3.0-only'', ''AGPL-3.0-or-later'', ''Apache-1.1'',
      ''Apache-2.0'', ''Artistic-2.0'', ''BSD-1-Clause'', ''BSD-2-Clause'', ''BSD-2-Clause-Views'',
      ''BSD-3-Clause'', ''BSD-3-Clause-Clear'', ''BSD-3-Clause-New'', ''BSD-4-Clause'', ''BSL-1.0'',
      ''BlueOak-1.0.0'', ''CC0-1.0'', ''CDDL-1.0'', ''CDDL-1.1'', ''EPL-1.0'', ''EPL-2.0'', ''GPL-2.0'',
      ''GPL-2.0-only'', ''GPL-2.0-or-later'', ''GPL-3.0'', ''GPL-3.0-only'', ''GPL-3.0-or-later'',
      ''ISC'', ''LGPL-2.1'', ''LGPL-2.1-only'', ''LGPL-2.1-or-later'', ''LGPL-3.0'', ''LGPL-3.0-only'',
      ''LGPL-3.0-or-later'', ''MIT'', ''MIT-0'', ''MPL-1.1'', ''MPL-2.0'', ''MS-PL'', ''MS-RL'',
      ''MulanPSL-2.0'', ''NCSA'', ''OpenSSL'', ''PostgreSQL'', ''PSF-2.0'', ''Python-2.0'', ''Ruby'',
      ''UPL-1.0'', ''Unlicense'', ''WTFPL'', ''X11'', ''Zend-2.0'', ''Zlib'', ''Zope-Public-License'']"

definition nonSoftwareInstrumentFamilies :: "(string \<times> licenceSubject) list" where
  "nonSoftwareInstrumentFamilies =
     [(''OFL-'', subjectFontSoftware), (''CC-BY'', subjectContent), (''GFDL-'', subjectContent)]"

fun familyOf :: "(string \<times> licenceSubject) list \<Rightarrow> string \<Rightarrow> licenceSubject" where
  "familyOf [] spdx = subjectUnknown"
| "familyOf ((pre, subject) # fs) spdx = (if HasPrefix spdx pre then subject else familyOf fs spdx)"

definition subjectOf :: "string \<Rightarrow> licenceSubject" where
  "subjectOf spdx =
     (if spdx \<in> set softwareLicenceInstruments then subjectSoftware
      else familyOf nonSoftwareInstrumentFamilies spdx)"

subsection \<open>Grants and what they cover\<close>

text \<open>\<open>a - b > exprCompoundDelta\<close>, which like every comparison with NaN is false there.\<close>

fun farApart :: "float64 \<Rightarrow> float64 \<Rightarrow> bool" where
  "farApart (Num x) (Num y) = (\<not> nearEqual (Num x) (Num y))"
| "farApart _ _ = False"

definition fileGrants :: "LicenseFileEntry \<Rightarrow> string list" where
  "fileGrants e =
     le_SPDX e #
     (case filterRealSPDX (le_AltMatches e) of
        [] \<Rightarrow> []
      | alt # alts \<Rightarrow>
          if farApart (le_Confidence e) (am_Confidence alt) then []
          else map am_SPDX (filter (\<lambda>a. nearEqual (le_Confidence e) (am_Confidence a)) (alt # alts)))"

definition rootGrants :: "LicenseFileEntry list \<Rightarrow> string list" where
  "rootGrants entries = sorted_distinct (concat (map fileGrants (filter isRootGrant entries)))"

definition grantCoverage :: "bool \<Rightarrow> string \<Rightarrow> LicenseCoverage" where
  "grantCoverage codePresent g =
     (case subjectOf g of
        subjectSoftware \<Rightarrow> CoverageModuleCode
      | subjectFontSoftware \<Rightarrow> if codePresent then CoverageBundledComponent else CoverageNotDetermined
      | subjectContent \<Rightarrow> if codePresent then CoverageDocumentation else CoverageNotDetermined
      | subjectUnknown \<Rightarrow> CoverageNotDetermined)"

definition DeriveGrantCoverage ::
  "LicenseFileEntry list \<Rightarrow> string \<Rightarrow> (string \<Rightarrow> LicenseCoverage option)" where
  "DeriveGrantCoverage entries expression =
     (let grants = rootGrants entries; elected = DisjunctionArms expression
      in if grants = [] then (\<lambda>g. None)
         else if length elected \<ge> 2 then
           (\<lambda>g. if g \<in> set elected then Some CoverageModuleCode
                else if g \<in> set grants then Some CoverageNotDetermined else None)
         else
           (let codePresent = (\<exists>g \<in> set grants. subjectOf g = subjectSoftware)
            in (\<lambda>g. if g \<in> set grants then Some (grantCoverage codePresent g) else None)))"

text \<open>Reading a Go map: the zero value, not determined, for an absent key.\<close>

definition coverageAt :: "(string \<Rightarrow> LicenseCoverage option) \<Rightarrow> string \<Rightarrow> LicenseCoverage" where
  "coverageAt grants g = (case grants g of Some c \<Rightarrow> c | None \<Rightarrow> CoverageNotDetermined)"

definition coverageOfEntry :: "LicenseFileEntry \<Rightarrow> (string \<Rightarrow> LicenseCoverage option) \<Rightarrow> LicenseCoverage" where
  "coverageOfEntry e grants =
     (if exprIsNoticeName (le_Path e) then CoverageAttributionOnly
      else if le_SPDX e = [] then CoverageNotDetermined
      else if le_IsVendored e then CoverageBundledComponent
      else if le_IsPerFile e then CoverageModuleCode
      else if \<not> exprIsRootLevel (le_Path e) then CoverageModuleCode
      else coverageAt grants (le_SPDX e))"

definition SetLicenseCoverage :: "LicenseRecord \<Rightarrow> LicenseRecord" where
  "SetLicenseCoverage r =
     (let grants = DeriveGrantCoverage (lr_LicenseFiles r) (lr_Expression r)
      in r\<lparr>lr_LicenseFiles := map (\<lambda>e. e\<lparr>le_Coverage := coverageOfEntry e grants\<rparr>) (lr_LicenseFiles r)\<rparr>)"

definition coverageByPath ::
  "LicenseFileEntry list \<Rightarrow> (string \<Rightarrow> LicenseCoverage option) \<Rightarrow> (string \<Rightarrow> LicenseCoverage option)" where
  "coverageByPath entries grants =
     foldl (\<lambda>out e. out(le_Path e \<mapsto> coverageOfEntry e grants)) (\<lambda>p. None) entries"

subsection \<open>Reading a record through coverage\<close>

record SetAsideGrant =
  sa_SPDX :: string
  sa_Coverage :: LicenseCoverage

record CoverageReading =
  cv_Expression :: string
  cv_Basis :: string
  cv_PrimarySPDX :: string
  cv_SetAside :: "SetAsideGrant list"
  cv_ByPath :: "string \<Rightarrow> LicenseCoverage option"

definition coverageBasis :: "SetAsideGrant list \<Rightarrow> string \<Rightarrow> string" where
  "coverageBasis aside recorded =
     (let clauses = map (\<lambda>a. sa_SPDX a @ '' '' @ Covers (sa_Coverage a)) aside;
          basis = ''coverage: '' @ Join clauses ''; '' @ '', not this module'' @ [CHR 0x27] @ ''s code''
      in if recorded \<noteq> [] then basis @ ''; set aside from the recorded reading: '' @ recorded else basis)"

definition primaryAmong :: "string list \<Rightarrow> LicenseFileEntry list \<Rightarrow> string" where
  "primaryAmong keep entries =
     (let candidates = filter (\<lambda>e. \<not> le_IsVendored e \<and> exprIsRootLevel (le_Path e)
                                  \<and> \<not> exprIsNoticeName (le_Path e) \<and> le_SPDX e \<in> set keep) entries
      in if candidates \<noteq> [] then le_SPDX (hd (sortSlice candidates RootCandidateLess)) else hd (sort keep))"

definition setsAside :: "LicenseCoverage \<Rightarrow> bool" where
  "setsAside c \<longleftrightarrow> c = CoverageDocumentation \<or> c = CoverageBundledComponent"

definition ReadCoverage :: "LicenseRecord \<Rightarrow> CoverageReading" where
  "ReadCoverage r =
     (let grants = DeriveGrantCoverage (lr_LicenseFiles r) (lr_Expression r);
          as = \<lparr>cv_Expression = lr_Expression r, cv_Basis = lr_ExpressionBasis r, cv_PrimarySPDX = lr_PrimarySPDX r,
                cv_SetAside = [], cv_ByPath = coverageByPath (lr_LicenseFiles r) grants\<rparr>;
          arms = ConjunctionArms (lr_Expression r);
          aside = map (\<lambda>arm. \<lparr>sa_SPDX = arm, sa_Coverage = coverageAt grants arm\<rparr>)
                    (filter (\<lambda>arm. setsAside (coverageAt grants arm)) arms);
          keep = filter (\<lambda>arm. \<not> setsAside (coverageAt grants arm)) arms
      in if length arms < 2 \<or> aside = [] \<or> keep = [] then as
         else as\<lparr>cv_Expression := Join keep '' AND '',
                 cv_Basis := coverageBasis aside (lr_ExpressionBasis r),
                 cv_SetAside := aside,
                 cv_PrimarySPDX := (if setsAside (coverageAt grants (lr_PrimarySPDX r))
                                    then primaryAmong keep (lr_LicenseFiles r) else lr_PrimarySPDX r)\<rparr>)"

subsection \<open>What is set aside\<close>

lemma rootGrants_in: "g \<in> set (rootGrants entries) \<longleftrightarrow> (\<exists>e \<in> set entries. isRootGrant e \<and> g \<in> set (fileGrants e))"
  by (auto simp: rootGrants_def)

lemma coverageAt_aside:
  assumes "setsAside (coverageAt (DeriveGrantCoverage entries expression) g)"
  shows "g \<in> set (rootGrants entries)" "\<exists>h \<in> set (rootGrants entries). subjectOf h = subjectSoftware"
    "DisjunctionArms expression = []" "subjectOf g = subjectFontSoftware \<or> subjectOf g = subjectContent"
proof -
  have "length (DisjunctionArms expression) \<noteq> 1"
    by (auto simp: DisjunctionArms_def armsOf_def Let_def)
  then show "g \<in> set (rootGrants entries)" "\<exists>h \<in> set (rootGrants entries). subjectOf h = subjectSoftware"
    "DisjunctionArms expression = []" "subjectOf g = subjectFontSoftware \<or> subjectOf g = subjectContent"
    using assms
    by (auto simp: coverageAt_def DeriveGrantCoverage_def Let_def setsAside_def grantCoverage_def not_le less_Suc_eq
        numeral_2_eq_2 split: if_splits licenceSubject.splits)
qed

lemma hd_sorted_in: "xs \<noteq> [] \<Longrightarrow> hd (sort xs) \<in> set xs"
  by (metis hd_in_set set_empty set_sort)

lemma primaryAmong_in: "keep \<noteq> [] \<Longrightarrow> primaryAmong keep entries \<in> set keep"
proof -
  assume k: "keep \<noteq> []"
  let ?cs = "filter (\<lambda>e. \<not> le_IsVendored e \<and> exprIsRootLevel (le_Path e) \<and> \<not> exprIsNoticeName (le_Path e)
    \<and> le_SPDX e \<in> set keep) entries"
  show ?thesis
  proof (cases "?cs = []")
    case True
    then show ?thesis using hd_sorted_in [OF k] by (simp add: primaryAmong_def)
  next
    case False
    from hd_stable_sort_in [OF this, of RootCandidateLess] show ?thesis
      using False by (simp add: primaryAmong_def sortSlice_def Let_def)
  qed
qed

text \<open>
  C23: Nothing is set aside on a guess: a grant is read as covering documentation or carried material only
  where the expression offers no election, the root files grant the identifier and also a licence over
  software, and the grant's own instrument is a font or a content licence.
\<close>

theorem set_aside_needs_code_grant:
  assumes "a \<in> set (cv_SetAside (ReadCoverage r))"
  shows "sa_SPDX a \<in> set (rootGrants (lr_LicenseFiles r))
    \<and> (\<exists>g \<in> set (rootGrants (lr_LicenseFiles r)). subjectOf g = subjectSoftware)
    \<and> DisjunctionArms (lr_Expression r) = []
    \<and> sa_Coverage a = (if subjectOf (sa_SPDX a) = subjectFontSoftware then CoverageBundledComponent else CoverageDocumentation)
    \<and> subjectOf (sa_SPDX a) \<in> {subjectFontSoftware, subjectContent}"
proof -
  let ?g = "DeriveGrantCoverage (lr_LicenseFiles r) (lr_Expression r)"
  have a: "setsAside (coverageAt ?g (sa_SPDX a))" "sa_Coverage a = coverageAt ?g (sa_SPDX a)"
    using assms by (auto simp: ReadCoverage_def Let_def split: if_splits)
  note f = coverageAt_aside [OF a(1)]
  have "coverageAt ?g (sa_SPDX a) = grantCoverage True (sa_SPDX a)"
    using f by (auto simp: coverageAt_def DeriveGrantCoverage_def Let_def)
  then show ?thesis using f a(2) by (auto simp: grantCoverage_def)
qed

text \<open>
  A reading either leaves the record's expression and primary licence as they were and sets nothing
  aside, or partitions the arms of its conjunction: the arms kept form the expression read, in order,
  at least one is kept and one set aside, and the primary licence is not one that was set aside.
\<close>

theorem coverage_reading_partitions:
  "(cv_SetAside (ReadCoverage r) = [] \<and> cv_Expression (ReadCoverage r) = lr_Expression r
      \<and> cv_Basis (ReadCoverage r) = lr_ExpressionBasis r \<and> cv_PrimarySPDX (ReadCoverage r) = lr_PrimarySPDX r)
   \<or> (\<exists>keep. keep \<noteq> [] \<and> cv_SetAside (ReadCoverage r) \<noteq> [] \<and> sorted keep \<and> sorted (map sa_SPDX (cv_SetAside (ReadCoverage r)))
        \<and> cv_Expression (ReadCoverage r) = Join keep '' AND ''
        \<and> mset (keep @ map sa_SPDX (cv_SetAside (ReadCoverage r))) = mset (ConjunctionArms (lr_Expression r))
        \<and> cv_PrimarySPDX (ReadCoverage r) \<notin> set (map sa_SPDX (cv_SetAside (ReadCoverage r)))
        \<and> (cv_PrimarySPDX (ReadCoverage r) = lr_PrimarySPDX r \<or> cv_PrimarySPDX (ReadCoverage r) \<in> set keep))"
proof -
  let ?g = "DeriveGrantCoverage (lr_LicenseFiles r) (lr_Expression r)"
  let ?arms = "ConjunctionArms (lr_Expression r)"
  let ?keep = "filter (\<lambda>arm. \<not> setsAside (coverageAt ?g arm)) ?arms"
  let ?away = "filter (\<lambda>arm. setsAside (coverageAt ?g arm)) ?arms"
  have arms: "sorted ?arms" by (simp add: ConjunctionArms_def armsOf_def Let_def)
  show ?thesis
  proof (cases "length ?arms < 2 \<or> ?away = [] \<or> ?keep = []")
    case True
    then show ?thesis by (auto simp: ReadCoverage_def Let_def)
  next
    case False
    then have s: "map sa_SPDX (cv_SetAside (ReadCoverage r)) = ?away" "cv_SetAside (ReadCoverage r) \<noteq> []"
      "cv_Expression (ReadCoverage r) = Join ?keep '' AND ''"
      "cv_PrimarySPDX (ReadCoverage r) = (if setsAside (coverageAt ?g (lr_PrimarySPDX r))
         then primaryAmong ?keep (lr_LicenseFiles r) else lr_PrimarySPDX r)"
      by (simp_all add: ReadCoverage_def Let_def comp_def)
    have k: "?keep \<noteq> []" using False by blast
    have "primaryAmong ?keep (lr_LicenseFiles r) \<in> set ?keep" by (rule primaryAmong_in [OF k])
    then have p: "cv_PrimarySPDX (ReadCoverage r) \<notin> set ?away"
      "cv_PrimarySPDX (ReadCoverage r) = lr_PrimarySPDX r \<or> cv_PrimarySPDX (ReadCoverage r) \<in> set ?keep"
      using s(4) by (auto split: if_splits)
    have "mset (?keep @ ?away) = mset ?arms" by (simp add: union_commute)
    then show ?thesis using s p k arms by (intro disjI2 exI [of _ ?keep]) (simp add: sorted_filter [of id, simplified])
  qed
qed

text \<open>The coverage a record's files carry and the reading by path are one answer.\<close>

lemma coverageByPath_at:
  "e \<in> set entries \<Longrightarrow> distinct (map le_Path entries) \<Longrightarrow> coverageByPath entries grants (le_Path e) = Some (coverageOfEntry e grants)"
proof -
  have "foldl (\<lambda>out e. out(le_Path e \<mapsto> coverageOfEntry e grants)) m es p
      = (case find (\<lambda>e. le_Path e = p) (rev es) of Some e \<Rightarrow> Some (coverageOfEntry e grants) | None \<Rightarrow> m p)" for m es p
    by (induction es rule: rev_induct) auto
  moreover assume "e \<in> set entries" "distinct (map le_Path entries)"
  then have "find (\<lambda>x. le_Path x = le_Path e) (rev entries) = Some e"
    by (induction entries rule: rev_induct) (auto simp: image_iff)
  ultimately show ?thesis by (simp add: coverageByPath_def)
qed

lemma coverage_ignores_coverage [simp]:
  "isRootGrant (e\<lparr>le_Coverage := c\<rparr>) = isRootGrant e" "fileGrants (e\<lparr>le_Coverage := c\<rparr>) = fileGrants e"
  "coverageOfEntry (e\<lparr>le_Coverage := c\<rparr>) grants = coverageOfEntry e grants"
  by (simp_all add: isRootGrant_def fileGrants_def coverageOfEntry_def split: list.split)

lemma DeriveGrantCoverage_SetCoverage:
  "DeriveGrantCoverage (lr_LicenseFiles (SetLicenseCoverage r)) x = DeriveGrantCoverage (lr_LicenseFiles r) x"
proof -
  have "set (rootGrants (lr_LicenseFiles (SetLicenseCoverage r))) = set (rootGrants (lr_LicenseFiles r))"
    by (auto simp: rootGrants_in SetLicenseCoverage_def Let_def)
  then have "rootGrants (lr_LicenseFiles (SetLicenseCoverage r)) = rootGrants (lr_LicenseFiles r)"
    unfolding rootGrants_def by (metis rootGrants_def sorted_distinct_cong sorted_distinct_id sorted_distinct_simps(2,3))
  then show ?thesis by (simp add: DeriveGrantCoverage_def)
qed

lemma SetLicenseCoverage_idem: "SetLicenseCoverage (SetLicenseCoverage r) = SetLicenseCoverage r"
proof -
  have "lr_Expression (SetLicenseCoverage r) = lr_Expression r" by (simp add: SetLicenseCoverage_def Let_def)
  with DeriveGrantCoverage_SetCoverage [of r "lr_Expression r"] show ?thesis
    by (simp add: SetLicenseCoverage_def [of "SetLicenseCoverage r"]) (simp add: SetLicenseCoverage_def Let_def comp_def)
qed

lemma entry_coverage_by_path:
  assumes "e \<in> set (lr_LicenseFiles (SetLicenseCoverage r))" "distinct (map le_Path (lr_LicenseFiles r))"
  shows "cv_ByPath (ReadCoverage r) (le_Path e) = Some (le_Coverage e)"
proof -
  let ?g = "DeriveGrantCoverage (lr_LicenseFiles r) (lr_Expression r)"
  obtain x where x: "x \<in> set (lr_LicenseFiles r)" "e = x\<lparr>le_Coverage := coverageOfEntry x ?g\<rparr>"
    using assms(1) by (auto simp: SetLicenseCoverage_def Let_def)
  have "cv_ByPath (ReadCoverage r) = coverageByPath (lr_LicenseFiles r) ?g" by (simp add: ReadCoverage_def Let_def)
  with coverageByPath_at [OF x(1) assms(2), of ?g] x(2) show ?thesis by simp
qed


definition exampleLicenseRecord :: LicenseRecord where
  "exampleLicenseRecord =
     \<lparr>lr_SchemaVersion = ''5'', lr_Ecosystem = ''go'', lr_Coordinate = ModuleCoordinate ''a/b'' ''v1.0.0'', lr_Role = [],
      lr_PrimarySPDX = ''OFL-1.1'', lr_Expression = ''MIT AND OFL-1.1'', lr_ExpressionBasis = BasisSeparateGrants,
      lr_BundledSPDXs = [], lr_PrimaryConfidence = Num 1,
      lr_LicenseFiles = [(exampleEntry ''LICENSE'' ''MIT'')\<lparr>le_AltMatches := []\<rparr>,
                         (exampleEntry ''LICENSE.font'' ''OFL-1.1'')\<lparr>le_AltMatches := []\<rparr>],
      lr_EffectiveSet = \<lparr>ef_RootSPDXs = [], ef_Components = [], ef_AllSPDXs = []\<rparr>, lr_PackageLicenses = [],
      lr_OverallStatus = LicenseStatusMultiple, lr_CopyrightStatus = CopyrightStatusNoneFound,
      lr_Provenance = \<lparr>ps_Signals = [], ps_Confidence = ChainOfTitleLow\<rparr>, lr_FailureDetail = [],
      lr_ExtractedAt = 1, lr_PipelineVersion = ''v1'', lr_ContentHash = ''h'', lr_ArtefactIdentity = ''zip:h1:x'',
      lr_SourceContentHash = ''f''\<rparr>"

lemma exampleLicenseRecord_facts:
  "ConjunctionArms (lr_Expression exampleLicenseRecord) = [''MIT'', ''OFL-1.1'']"
  "DisjunctionArms (lr_Expression exampleLicenseRecord) = []"
  "rootGrants (lr_LicenseFiles exampleLicenseRecord) = [''MIT'', ''OFL-1.1'']"
  "subjectOf ''MIT'' = subjectSoftware" "subjectOf ''OFL-1.1'' = subjectFontSoftware"
  by code_simp+

lemma set_aside_needs_code_grant_witness:
  "\<lparr>sa_SPDX = ''OFL-1.1'', sa_Coverage = CoverageBundledComponent\<rparr> \<in> set (cv_SetAside (ReadCoverage exampleLicenseRecord))
   \<and> DisjunctionArms (lr_Expression exampleLicenseRecord) = []"
proof -
  have "coverageAt (DeriveGrantCoverage (lr_LicenseFiles exampleLicenseRecord) (lr_Expression exampleLicenseRecord)) g
      = (if g \<in> {''MIT'', ''OFL-1.1''} then grantCoverage True g else CoverageNotDetermined)" for g
    by (simp add: coverageAt_def DeriveGrantCoverage_def exampleLicenseRecord_facts)
  then have h: "\<lparr>sa_SPDX = ''OFL-1.1'', sa_Coverage = CoverageBundledComponent\<rparr>
      \<in> set (cv_SetAside (ReadCoverage exampleLicenseRecord))"
    by (simp add: ReadCoverage_def exampleLicenseRecord_facts grantCoverage_def setsAside_def Let_def)
  from set_aside_needs_code_grant [OF h] h show ?thesis by blast
qed

text \<open>
  The two readings of one file part where a file carries a near-equal match and a partial one.  The
  expression makes an arm of the partial match, because only the first alternative is held to the
  delta; the grants hold each alternative to it, so no coverage is derived for that arm.
\<close>

definition examplePartial :: "LicenseFileEntry" where
  "examplePartial =
     (exampleEntry ''LICENSE'' ''MIT'')\<lparr>le_AltMatches :=
        [\<lparr>am_SPDX = ''Apache-2.0'', am_Confidence = Num 1\<rparr>, \<lparr>am_SPDX = ''OFL-1.1'', am_Confidence = Num (3 / 10)\<rparr>]\<rparr>"

lemma examplePartial_facts:
  "filter isRootGrant [examplePartial] = [examplePartial]"
  "filterRealSPDX (le_AltMatches examplePartial)
     = [\<lparr>am_SPDX = ''Apache-2.0'', am_Confidence = Num 1\<rparr>, \<lparr>am_SPDX = ''OFL-1.1'', am_Confidence = Num (3 / 10)\<rparr>]"
  "sorted_distinct [''MIT'', ''Apache-2.0'', ''OFL-1.1''] = [''Apache-2.0'', ''MIT'', ''OFL-1.1'']"
  "sorted_distinct [''MIT'', ''Apache-2.0''] = [''Apache-2.0'', ''MIT'']"
  "ConjunctionArms ''Apache-2.0 AND MIT AND OFL-1.1'' = [''Apache-2.0'', ''MIT'', ''OFL-1.1'']"
  "DisjunctionArms ''Apache-2.0 AND MIT AND OFL-1.1'' = []"
  by code_simp+

lemma examplePartial_near:
  "nearEqual (le_Confidence examplePartial) (Num 1)" "\<not> nearEqual (le_Confidence examplePartial) (Num (3 / 10))"
  "\<not> farApart (le_Confidence examplePartial) (Num 1)" "le_SPDX examplePartial = ''MIT''"
  by (simp_all add: examplePartial_def exampleEntry_def withinDelta_def exprCompoundDelta_def)

theorem partial_match_is_an_arm:
  "ConjunctionArms (DeriveExpression [examplePartial] (\<lambda>p. None)) = [''Apache-2.0'', ''MIT'', ''OFL-1.1'']
   \<and> rootGrants [examplePartial] = [''Apache-2.0'', ''MIT'']
   \<and> DeriveGrantCoverage [examplePartial] (DeriveExpression [examplePartial] (\<lambda>p. None)) ''OFL-1.1'' = None"
proof -
  have e: "DeriveExpression [examplePartial] (\<lambda>p. None) = ''Apache-2.0 AND MIT AND OFL-1.1''"
    unfolding DeriveExpression_def DeriveExpressionResult_def examplePartial_facts
    by (simp add: sortSlice_def examplePartial_facts examplePartial_near readCompoundResult_def justExpression_def
        del: sorted_distinct_simps(5))
  have g: "rootGrants [examplePartial] = [''Apache-2.0'', ''MIT'']"
    unfolding rootGrants_def examplePartial_facts
    by (simp add: fileGrants_def examplePartial_facts examplePartial_near)
  show ?thesis unfolding e g by (simp add: examplePartial_facts DeriveGrantCoverage_def g)
qed

end
