(* ===== verification/Disagreement.thy ===== *)
theory Disagreement
  imports Go_Strings Ledger
begin

text \<open>
  The disagreement of the records of a ledger on one field: the values the records state, each with
  the content hash of the first record that states it.  An empty value states nothing.  The ledgers
  that refuse by it share these definitions and wrap the result in the conflict of their own package.
\<close>

definition statedValuesOf :: "('r \<Rightarrow> string) \<Rightarrow> 'r list \<Rightarrow> string list" where
  "statedValuesOf f records = sorted_distinct (filter (\<lambda>v. v \<noteq> []) (map f records))"

text \<open>The first record carrying a value stands for it.\<close>

definition carriedBy :: "('r \<Rightarrow> string) \<Rightarrow> ('r \<Rightarrow> string) \<Rightarrow> 'r list \<Rightarrow> string \<Rightarrow> string" where
  "carriedBy hash f records v = (case find (\<lambda>r. f r = v) records of Some r \<Rightarrow> hash r | None \<Rightarrow> [])"

definition disagreeing :: "('r \<Rightarrow> string) \<Rightarrow> ('r \<Rightarrow> string) \<Rightarrow> 'r list \<Rightarrow> (string list \<times> string list) option" where
  "disagreeing hash f records =
     (let seen = statedValuesOf f records
      in if length records < 2 \<or> length seen < 2 then None
         else Some (seen, map (carriedBy hash f records) seen))"

lemma two_values: "length (sorted_distinct vs) < 2 \<longleftrightarrow> (\<forall>a \<in> set vs. \<forall>b \<in> set vs. a = b)"
proof -
  have "(n < 2) = (n \<le> Suc 0)" for n :: nat by linarith
  then show ?thesis using card_le_Suc0_iff_eq [of "set vs"] by simp
qed

lemma find_some: "find P xs = Some x \<Longrightarrow> x \<in> set xs \<and> P x"
  by (induction xs) (auto split: if_splits)

lemma disagreeing_None:
  "disagreeing hash f records = None \<longleftrightarrow> (\<forall>a \<in> set records. \<forall>b \<in> set records. f a = [] \<or> f b = [] \<or> f a = f b)"
proof -
  have two: "disagreeing hash f records = None
      \<longleftrightarrow> length records < 2 \<or> (\<forall>a \<in> set (filter (\<lambda>v. v \<noteq> []) (map f records)).
            \<forall>b \<in> set (filter (\<lambda>v. v \<noteq> []) (map f records)). a = b)"
    unfolding disagreeing_def statedValuesOf_def Let_def two_values [symmetric] by simp
  show ?thesis
  proof (cases "length records < 2")
    case True
    then have "a \<in> set records \<Longrightarrow> b \<in> set records \<Longrightarrow> a = b" for a b
      by (cases records; cases "tl records") auto
    then have "\<forall>a \<in> set records. \<forall>b \<in> set records. f a = [] \<or> f b = [] \<or> f a = f b" by metis
    with True two show ?thesis by simp
  next
    case False
    have "(\<forall>a \<in> set (filter (\<lambda>v. v \<noteq> []) (map f records)). \<forall>b \<in> set (filter (\<lambda>v. v \<noteq> []) (map f records)). a = b)
        \<longleftrightarrow> (\<forall>a \<in> set records. f a \<noteq> [] \<longrightarrow> (\<forall>b \<in> set records. f b \<noteq> [] \<longrightarrow> f a = f b))"
      unfolding set_filter set_map by fast
    also have "\<dots> \<longleftrightarrow> (\<forall>a \<in> set records. \<forall>b \<in> set records. f a = [] \<or> f b = [] \<or> f a = f b)"
      by (intro ball_cong refl) (simp add: imp_conv_disj)
    finally show ?thesis using two False by simp
  qed
qed

text \<open>What a conflict reports: two values at least, in order, each carried by a record with the hash beside it.\<close>

definition reports :: "('r \<Rightarrow> string) \<Rightarrow> ('r \<Rightarrow> string) \<Rightarrow> 'r set \<Rightarrow> string list \<Rightarrow> string list \<Rightarrow> bool" where
  "reports hash f records vs hs \<longleftrightarrow> 2 \<le> length vs \<and> sorted vs \<and> distinct vs \<and> set vs = f ` records - {[]}
     \<and> list_all2 (\<lambda>v h. \<exists>r \<in> records. f r = v \<and> hash r = h) vs hs"

lemma carriedBy_carrier: "v \<in> f ` set records \<Longrightarrow> \<exists>r \<in> set records. f r = v \<and> hash r = carriedBy hash f records v"
proof -
  assume "v \<in> f ` set records"
  then have "find (\<lambda>r. f r = v) records \<noteq> None" by (auto simp: find_None_iff)
  then obtain x where x: "find (\<lambda>r. f r = v) records = Some x" by blast
  with find_some [OF this] show ?thesis by (intro bexI [of _ x]) (auto simp: carriedBy_def)
qed

lemma disagreeing_Some:
  assumes "disagreeing hash f records = Some (vs, hs)"
  shows "reports hash f (set records) vs hs"
proof -
  have vs: "vs = statedValuesOf f records" "hs = map (carriedBy hash f records) vs" "2 \<le> length vs"
    using assms by (auto simp: disagreeing_def Let_def split: if_splits)
  have set: "set vs = f ` set records - {[]}" unfolding vs(1) by (auto simp: statedValuesOf_def)
  have "list_all2 (\<lambda>v h. \<exists>r \<in> set records. f r = v \<and> hash r = h) vs hs"
    unfolding vs(2) list.rel_map
  proof (rule list.rel_refl_strong)
    fix v assume "v \<in> set vs"
    then have "v \<in> f ` set records" using set by blast
    then show "\<exists>r \<in> set records. f r = v \<and> hash r = carriedBy hash f records v" by (rule carriedBy_carrier)
  qed
  with vs set show ?thesis unfolding reports_def by (simp add: statedValuesOf_def)
qed

text \<open>The refusal does not depend on the order of the records, but for which of two hashes stands for a value.\<close>

lemma disagreeing_same_values:
  assumes "set records = set others" "disagreeing hash f records = Some (vs, hs)"
  shows "\<exists>ks. disagreeing hash f others = Some (vs, ks)"
proof (cases "disagreeing hash f others")
  case None
  with assms show ?thesis by (metis disagreeing_None option.distinct(1))
next
  case (Some p)
  obtain ws ks where p: "p = (ws, ks)" by (cases p)
  have "reports hash f (set records) vs hs" "reports hash f (set others) ws ks"
    using disagreeing_Some assms(2) Some p by blast+
  then have "ws = vs" using assms(1) unfolding reports_def by (metis sorted_distinct_set_unique)
  with Some p show ?thesis by simp
qed

text \<open>Records that name no artefact do not compete with records that name one.\<close>

definition identifiedFirst :: "('r \<Rightarrow> string) \<Rightarrow> 'r list \<Rightarrow> 'r list" where
  "identifiedFirst artefact records =
     (let identified = filter (\<lambda>r. artefact r \<noteq> []) records in if identified = [] then records else identified)"

lemma identifiedFirst_nonempty: "records \<noteq> [] \<Longrightarrow> identifiedFirst a records \<noteq> []"
  by (auto simp: identifiedFirst_def Let_def)

definition competing :: "('r \<Rightarrow> string) \<Rightarrow> 'r set \<Rightarrow> 'r set" where
  "competing artefact records = (if \<exists>r \<in> records. artefact r \<noteq> [] then {r \<in> records. artefact r \<noteq> []} else records)"

lemma identifiedFirst_set: "set (identifiedFirst a records) = competing a (set records)"
  by (auto simp: identifiedFirst_def competing_def Let_def filter_empty_conv)

end
