(* ===== verification/License_Compose.thy ===== *)
theory License_Compose
  imports License_Coverage Fetch_Identity Disagreement
begin

text \<open>
  Which licence record answers for a coordinate (\<open>internal/license/domain/compose.go\<close>): highest
  confidence, then recency, unless the records at the top contradict each other.  The error result is
  the left side of the sum.
\<close>

subsection \<open>Which records compete\<close>

record LicenceConflict =
  lc_Coordinate :: ModuleCoordinate
  lc_PipelineVersion :: string
  lc_Field :: string
  lc_Values :: "string list"
  lc_ContentHashes :: "string list"

datatype licence_compose_error = NoRecordsToCompose | ConflictingLicences LicenceConflict

definition RecordArtefactIdentity :: "LicenseRecord \<Rightarrow> fetch_error + ArtefactIdentity" where
  "RecordArtefactIdentity r = StoredArtefactIdentity (lr_ArtefactIdentity r)"

definition NamesAnalysedContent :: "LicenseRecord \<Rightarrow> bool" where
  "NamesAnalysedContent r =
     (case RecordArtefactIdentity r of Inl err \<Rightarrow> False | Inr i \<Rightarrow> \<not> identity_IsZero i)"

definition identifiedOrAll :: "LicenseRecord list \<Rightarrow> LicenseRecord list" where
  "identifiedOrAll records = identifiedFirst lr_ArtefactIdentity records"

subsection \<open>Conflicts\<close>

definition disagreement ::
  "LicenseRecord list \<Rightarrow> string \<Rightarrow> (LicenseRecord \<Rightarrow> string) \<Rightarrow> LicenceConflict option" where
  "disagreement records field f = map_option (\<lambda>(vs, hs).
     \<lparr>lc_Coordinate = lr_Coordinate (hd records), lc_PipelineVersion = lr_PipelineVersion (hd records),
      lc_Field = field, lc_Values = vs, lc_ContentHashes = hs\<rparr>) (disagreeing lr_ContentHash f records)"

fun topConfidence :: "float64 \<Rightarrow> LicenseRecord list \<Rightarrow> float64" where
  "topConfidence highest [] = highest"
| "topConfidence highest (r # rs) =
     topConfidence (if float_less highest (lr_PrimaryConfidence r) then lr_PrimaryConfidence r else highest) rs"

definition tiedAtTop :: "LicenseRecord list \<Rightarrow> LicenseRecord list" where
  "tiedAtTop records =
     (let highest = topConfidence (lr_PrimaryConfidence (hd records)) (tl records)
      in filter (\<lambda>r. nearEqual highest (lr_PrimaryConfidence r) \<and> lr_PrimarySPDX r \<noteq> []) records)"

definition findConflict :: "LicenseRecord list \<Rightarrow> LicenceConflict option" where
  "findConflict records =
     (if length records < 2 then None
      else case disagreement records ''artefact_identity'' lr_ArtefactIdentity of
             Some c \<Rightarrow> Some c
           | None \<Rightarrow> disagreement (tiedAtTop records) ''primary_spdx'' lr_PrimarySPDX)"

subsection \<open>Composition\<close>

definition servesBefore_licence :: "LicenseRecord \<Rightarrow> LicenseRecord \<Rightarrow> bool" where
  "servesBefore_licence a b =
     (if \<not> float_eq (lr_PrimaryConfidence a) (lr_PrimaryConfidence b)
      then float_less (lr_PrimaryConfidence b) (lr_PrimaryConfidence a)
      else if lr_ExtractedAt a \<noteq> lr_ExtractedAt b then lr_ExtractedAt b < lr_ExtractedAt a
      else lr_ContentHash a < lr_ContentHash b)"

definition Compose_licence :: "LicenseRecord list \<Rightarrow> licence_compose_error + LicenseRecord" where
  "Compose_licence records =
     (if records = [] then Inl NoRecordsToCompose
      else if IsLocal (lr_Coordinate (hd records)) then Inr (last records)
      else let candidates = identifiedOrAll records
           in case findConflict candidates of
                Some c \<Rightarrow> Inl (ConflictingLicences c)
              | None \<Rightarrow> Inr (serve servesBefore_licence candidates))"

definition forMeasurementComparison :: "LicenseRecord \<Rightarrow> LicenseRecord" where
  "forMeasurementComparison r = r\<lparr>lr_ExtractedAt := zero_time, lr_ContentHash := [], lr_SourceContentHash := []\<rparr>"

subsection \<open>The serving order on numbers\<close>

text \<open>
  The comparator is a strict weak order on records whose confidence is a number.  \<open>servesByNumber\<close> is
  that order with a NaN read as zero; on numbers the two agree, and the locale's facts carry over.
\<close>

fun number :: "float64 \<Rightarrow> rat" where
  "number (Num x) = x"
| "number NaN = 0"

definition servesByNumber :: "LicenseRecord \<Rightarrow> LicenseRecord \<Rightarrow> bool" where
  "servesByNumber a b =
     (if number (lr_PrimaryConfidence a) \<noteq> number (lr_PrimaryConfidence b)
      then number (lr_PrimaryConfidence b) < number (lr_PrimaryConfidence a)
      else if lr_ExtractedAt a \<noteq> lr_ExtractedAt b then lr_ExtractedAt b < lr_ExtractedAt a
      else lr_ContentHash a < lr_ContentHash b)"

definition numbered :: "LicenseRecord list \<Rightarrow> bool" where
  "numbered records \<longleftrightarrow> (\<forall>r \<in> set records. \<not> IsNaN (lr_PrimaryConfidence r))"

lemma swo_servesByNumber: "swo servesByNumber"
  unfolding servesByNumber_def [abs_def] by (intro swo_intros)

interpretation licence: sealed_serving servesByNumber lr_ContentHash
  by unfold_locales (auto simp: swo_servesByNumber, auto simp: servesByNumber_def split: if_splits)

lemma servesBefore_number:
  "\<not> IsNaN (lr_PrimaryConfidence a) \<Longrightarrow> \<not> IsNaN (lr_PrimaryConfidence b) \<Longrightarrow>
     servesBefore_licence a b = servesByNumber a b"
  by (cases "lr_PrimaryConfidence a"; cases "lr_PrimaryConfidence b")
    (auto simp: servesBefore_licence_def servesByNumber_def)

lemma insert_by_cong: "\<forall>y \<in> set ys. lt y x = lt' y x \<Longrightarrow> insert_by lt x ys = insert_by lt' x ys"
  by (induction ys) auto

lemma stable_sort_cong: "\<forall>x \<in> set xs. \<forall>y \<in> set xs. lt x y = lt' x y \<Longrightarrow> stable_sort lt xs = stable_sort lt' xs"
proof (induction xs)
  case (Cons x xs)
  then have "stable_sort lt xs = stable_sort lt' xs" by simp
  then show ?case using Cons.prems insert_by_cong [of "stable_sort lt' xs" lt x lt'] by simp
qed simp

lemma serve_number: "numbered records \<Longrightarrow> serve servesBefore_licence records = serve servesByNumber records"
  unfolding serve_def numbered_def
  by (subst stable_sort_cong [of records servesBefore_licence servesByNumber]) (simp_all add: servesBefore_number)

subsection \<open>Facts about conflicts\<close>

lemma disagreement_None:
  "disagreement records field f = None \<longleftrightarrow> (\<forall>a \<in> set records. \<forall>b \<in> set records. f a = [] \<or> f b = [] \<or> f a = f b)"
  by (simp add: disagreement_def disagreeing_None)

lemma disagreement_Some:
  assumes "disagreement records field f = Some c"
  shows "lc_Field c = field" "reports lr_ContentHash f (set records) (lc_Values c) (lc_ContentHashes c)"
  using assms by (auto simp: disagreement_def intro: disagreeing_Some)

lemma topConfidence_max:
  "\<not> IsNaN t \<Longrightarrow> numbered rs \<Longrightarrow> \<not> IsNaN (topConfidence t rs)
     \<and> number (topConfidence t rs) = Max (insert (number t) (number ` lr_PrimaryConfidence ` set rs))"
proof (induction rs arbitrary: t)
  case (Cons r rs)
  let ?t = "if float_less t (lr_PrimaryConfidence r) then lr_PrimaryConfidence r else t"
  have t: "\<not> IsNaN ?t" "number ?t = max (number t) (number (lr_PrimaryConfidence r))" "numbered rs"
    using Cons.prems by (cases t; cases "lr_PrimaryConfidence r"; auto simp: numbered_def)+
  have "Max (insert (max a b) A) = Max (insert a (insert b A))" if "finite A" for a b :: rat and A
    using that by (cases "A = {}") (auto simp: max.assoc)
  with Cons.IH [OF t(1,3)] t(2) show ?case by simp
qed simp

lemma identifiedOrAll_nonempty: "records \<noteq> [] \<Longrightarrow> identifiedOrAll records \<noteq> []"
  unfolding identifiedOrAll_def by (rule identifiedFirst_nonempty)

lemma identifiedOrAll_set: "set (identifiedOrAll records) = competing lr_ArtefactIdentity (set records)"
  unfolding identifiedOrAll_def by (rule identifiedFirst_set)

lemma numbered_identified: "numbered records \<Longrightarrow> numbered (identifiedOrAll records)"
  by (auto simp: numbered_def identifiedOrAll_set competing_def split: if_splits)

lemma Num_number: "\<not> IsNaN x \<Longrightarrow> Num (number x) = x"
  by (cases x) auto

lemma tiedAtTop_set:
  assumes "numbered records" "records \<noteq> []"
  shows "set (tiedAtTop records) = {r \<in> set records. lr_PrimarySPDX r \<noteq> []
      \<and> withinDelta (Max (number ` lr_PrimaryConfidence ` set records)) (number (lr_PrimaryConfidence r))}"
proof -
  let ?t = "topConfidence (lr_PrimaryConfidence (hd records)) (tl records)"
  obtain x xs where r: "records = x # xs" using assms(2) by (cases records) auto
  have t: "\<not> IsNaN ?t" "number ?t = Max (number ` lr_PrimaryConfidence ` set records)"
    using topConfidence_max [of "lr_PrimaryConfidence x" xs] assms(1) r by (auto simp: numbered_def)
  have near: "nearEqual ?t (lr_PrimaryConfidence c) \<longleftrightarrow>
      withinDelta (number ?t) (number (lr_PrimaryConfidence c))"
    if "c \<in> set records" for c
  proof -
    have "\<not> IsNaN (lr_PrimaryConfidence c)" using assms(1) that by (simp add: numbered_def)
    then show ?thesis using Num_number [OF t(1)] Num_number nearEqual.simps(1) by metis
  qed
  show ?thesis unfolding tiedAtTop_def Let_def set_filter t(2) [symmetric]
    by (rule Collect_cong) (auto simp only: near)
qed

text \<open>What the ledger promises of the record it serves.\<close>

definition best_evidenced :: "LicenseRecord list \<Rightarrow> LicenseRecord set" where
  "best_evidenced records = competing lr_ArtefactIdentity (set records)"

definition near_top :: "LicenseRecord set \<Rightarrow> LicenseRecord \<Rightarrow> bool" where
  "near_top A r \<longleftrightarrow> withinDelta (Max (number ` lr_PrimaryConfidence ` A)) (number (lr_PrimaryConfidence r))"

text \<open>No two of them name different artefacts, and none of those near the top name different licences.\<close>

definition consistent :: "LicenseRecord set \<Rightarrow> bool" where
  "consistent A \<longleftrightarrow>
     (\<forall>a \<in> A. \<forall>b \<in> A. lr_ArtefactIdentity a = [] \<or> lr_ArtefactIdentity b = []
        \<or> lr_ArtefactIdentity a = lr_ArtefactIdentity b)
     \<and> (\<forall>a \<in> A. \<forall>b \<in> A. \<not> near_top A a \<or> \<not> near_top A b \<or> lr_PrimarySPDX a = [] \<or> lr_PrimarySPDX b = []
        \<or> lr_PrimarySPDX a = lr_PrimarySPDX b)"

lemma near_pairs:
  "(\<forall>a \<in> {r \<in> A. P r \<and> N r}. \<forall>b \<in> {r \<in> A. P r \<and> N r}. \<not> P a \<or> \<not> P b \<or> E a b)
     \<longleftrightarrow> (\<forall>a \<in> A. \<forall>b \<in> A. \<not> N a \<or> \<not> N b \<or> \<not> P a \<or> \<not> P b \<or> E a b)"
  by blast

lemma servesByNumber_not:
  "\<not> servesByNumber b r \<Longrightarrow> \<not> number (lr_PrimaryConfidence r) < number (lr_PrimaryConfidence b)
     \<and> (number (lr_PrimaryConfidence r) \<noteq> number (lr_PrimaryConfidence b) \<or> lr_ExtractedAt b < lr_ExtractedAt r
        \<or> lr_ExtractedAt b = lr_ExtractedAt r \<and> lr_ContentHash r \<le> lr_ContentHash b)"
  by (auto simp: servesByNumber_def split: if_splits)

lemma findConflict_None:
  assumes "numbered records" "records \<noteq> []"
  shows "findConflict records = None \<longleftrightarrow> consistent (set records)"
proof (cases "length records < 2")
  case True
  then obtain x where "records = [x]" using assms(2) by (cases records; cases "tl records") auto
  then show ?thesis by (simp add: findConflict_def consistent_def)
next
  case False
  have t: "set (tiedAtTop records) = {r \<in> set records. lr_PrimarySPDX r \<noteq> [] \<and> near_top (set records) r}"
    using tiedAtTop_set [OF assms] by (simp add: near_top_def)
  have "disagreement (tiedAtTop records) ''primary_spdx'' lr_PrimarySPDX = None
      \<longleftrightarrow> (\<forall>a \<in> set records. \<forall>b \<in> set records. \<not> near_top (set records) a \<or> \<not> near_top (set records) b
            \<or> lr_PrimarySPDX a = [] \<or> lr_PrimarySPDX b = [] \<or> lr_PrimarySPDX a = lr_PrimarySPDX b)"
    unfolding disagreement_None t
    using near_pairs [of "set records" "\<lambda>r. lr_PrimarySPDX r \<noteq> []" "near_top (set records)"
        "\<lambda>a b. lr_PrimarySPDX a = lr_PrimarySPDX b"] by (simp only: not_not)
  moreover have "findConflict records = None \<longleftrightarrow> disagreement records ''artefact_identity'' lr_ArtefactIdentity = None
      \<and> disagreement (tiedAtTop records) ''primary_spdx'' lr_PrimarySPDX = None"
    using False by (simp add: findConflict_def split: option.split)
  ultimately show ?thesis unfolding consistent_def disagreement_None by simp
qed

text \<open>
  C21: A coordinate that pins content is answered by a record of the best evidenced ones exactly when those
  are consistent; the record has the highest confidence of them, the latest time among equals, and the
  least content hash after that.  Otherwise the answer is a refusal that names two values at least,
  each carried by a row.
\<close>

theorem licence_compose_serves_or_refuses:
  assumes "records \<noteq> []" "\<not> IsLocal (lr_Coordinate (hd records))" "numbered records"
  shows "case Compose_licence records of
      Inr r \<Rightarrow> consistent (best_evidenced records) \<and> r \<in> best_evidenced records
        \<and> (\<forall>b \<in> best_evidenced records.
             \<not> number (lr_PrimaryConfidence r) < number (lr_PrimaryConfidence b)
             \<and> (number (lr_PrimaryConfidence r) \<noteq> number (lr_PrimaryConfidence b)
                \<or> lr_ExtractedAt b < lr_ExtractedAt r
                \<or> lr_ExtractedAt b = lr_ExtractedAt r \<and> lr_ContentHash r \<le> lr_ContentHash b))
    | Inl NoRecordsToCompose \<Rightarrow> False
    | Inl (ConflictingLicences c) \<Rightarrow> \<not> consistent (best_evidenced records) \<and> 2 \<le> length (lc_Values c)
        \<and> distinct (lc_Values c) \<and> list_all2 (\<lambda>v h. \<exists>r \<in> best_evidenced records. lr_ContentHash r = h
             \<and> (v = lr_ArtefactIdentity r \<or> v = lr_PrimarySPDX r)) (lc_Values c) (lc_ContentHashes c)"
proof -
  let ?cs = "identifiedOrAll records"
  have set: "set ?cs = best_evidenced records" by (simp add: identifiedOrAll_set best_evidenced_def)
  note num = numbered_identified [OF assms(3)] and ne = identifiedOrAll_nonempty [OF assms(1)]
  show ?thesis
  proof (cases "findConflict ?cs")
    case None
    then have c: "Compose_licence records = Inr (serve servesByNumber ?cs)"
      using assms serve_number [OF num] by (simp add: Compose_licence_def)
    moreover have "consistent (best_evidenced records)" using None findConflict_None [OF num ne] set by simp
    moreover have "serve servesByNumber ?cs \<in> best_evidenced records" using licence.served_in [OF ne] set by simp
    moreover have "\<not> servesByNumber b (serve servesByNumber ?cs)" if "b \<in> best_evidenced records" for b
      using licence.nothing_before_served that set by blast
    ultimately show ?thesis using servesByNumber_not by simp
  next
    case (Some c)
    then have "Compose_licence records = Inl (ConflictingLicences c)" using assms by (simp add: Compose_licence_def)
    moreover have "\<not> consistent (best_evidenced records)" using Some findConflict_None [OF num ne] set by auto
    moreover have "\<exists>rs f. disagreement rs (lc_Field c) f = Some c \<and> set rs \<subseteq> set ?cs \<and> (f = lr_ArtefactIdentity \<or> f = lr_PrimarySPDX)"
    proof -
      consider "disagreement ?cs ''artefact_identity'' lr_ArtefactIdentity = Some c"
        | "disagreement (tiedAtTop ?cs) ''primary_spdx'' lr_PrimarySPDX = Some c"
        using Some by (auto simp: findConflict_def split: if_splits option.splits)
      then show ?thesis
      proof cases
        case 1
        show ?thesis by (intro exI [of _ ?cs] exI [of _ lr_ArtefactIdentity]) (simp add: 1 disagreement_Some(1) [OF 1])
      next
        case 2
        have "set (tiedAtTop ?cs) \<subseteq> set ?cs" by (auto simp: tiedAtTop_def Let_def)
        then show ?thesis
          by (intro exI [of _ "tiedAtTop ?cs"] exI [of _ lr_PrimarySPDX]) (simp add: 2 disagreement_Some(1) [OF 2])
      qed
    qed
    then obtain rs f where rf: "disagreement rs (lc_Field c) f = Some c" "set rs \<subseteq> set ?cs"
        "f = lr_ArtefactIdentity \<or> f = lr_PrimarySPDX" by blast
    note d = disagreement_Some(2) [OF rf(1)]
    have "list_all2 (\<lambda>v h. \<exists>r \<in> best_evidenced records. lr_ContentHash r = h
             \<and> (v = lr_ArtefactIdentity r \<or> v = lr_PrimarySPDX r)) (lc_Values c) (lc_ContentHashes c)"
      by (rule list_all2_mono [of "\<lambda>v h. \<exists>r \<in> set rs. f r = v \<and> lr_ContentHash r = h"])
        (use d rf(2,3) set in \<open>auto simp: reports_def\<close>)
    ultimately show ?thesis using d by (simp add: reports_def)
  qed
qed

lemma licence_compose_serves_or_refuses_witness:
  "Compose_licence [exampleLicenseRecord] = Inr exampleLicenseRecord \<and> consistent (best_evidenced [exampleLicenseRecord])"
proof -
  have c: "Compose_licence [exampleLicenseRecord] = Inr exampleLicenseRecord"
    by (simp add: Compose_licence_def identifiedOrAll_def identifiedFirst_def findConflict_def serve_def exampleLicenseRecord_def
        IsLocal_def LocalVersion_def)
  have "\<not> IsLocal (lr_Coordinate (hd [exampleLicenseRecord]))" "numbered [exampleLicenseRecord]"
    by (simp_all add: exampleLicenseRecord_def IsLocal_def LocalVersion_def numbered_def)
  from licence_compose_serves_or_refuses [OF _ this] c show ?thesis by simp
qed

text \<open>
  The order rows are listed in does not change the answer: the same record, or a refusal either way.
\<close>

theorem licence_compose_any_order:
  assumes "set records = set others" "records \<noteq> []" "numbered records" "inj_on lr_ContentHash (set records)"
    "\<not> IsLocal (lr_Coordinate (hd records))" "\<not> IsLocal (lr_Coordinate (hd others))"
  shows "(\<exists>r. Compose_licence records = Inr r \<and> Compose_licence others = Inr r)
    \<or> (\<exists>c d. Compose_licence records = Inl (ConflictingLicences c) \<and> Compose_licence others = Inl (ConflictingLicences d))"
proof -
  let ?a = "identifiedOrAll records" and ?b = "identifiedOrAll others"
  have ne: "others \<noteq> []" using assms(1,2) by (metis set_empty)
  have num: "numbered others" using assms(1,3) by (simp add: numbered_def)
  have set: "set ?a = set ?b" using assms(1) by (simp add: identifiedOrAll_set)
  have inj: "inj_on lr_ContentHash (set ?a)"
    using assms(4) by (rule inj_on_subset) (auto simp: identifiedOrAll_set competing_def split: if_splits)
  have "findConflict ?a = None \<longleftrightarrow> findConflict ?b = None"
    using findConflict_None numbered_identified identifiedOrAll_nonempty assms(2,3) ne num set by simp
  moreover have "serve servesByNumber ?a = serve servesByNumber ?b"
    by (rule licence.served_any_order [OF set identifiedOrAll_nonempty [OF assms(2)] inj])
  then have "serve servesBefore_licence ?a = serve servesBefore_licence ?b"
    using serve_number numbered_identified assms(3) num by simp
  ultimately show ?thesis
    using assms ne by (cases "findConflict ?a"; cases "findConflict ?b") (auto simp: Compose_licence_def)
qed

lemma licence_compose_any_order_witness:
  "(\<exists>r. Compose_licence [exampleLicenseRecord, exampleLicenseRecord\<lparr>lr_ContentHash := ''g'', lr_ExtractedAt := 2\<rparr>] = Inr r
      \<and> Compose_licence [exampleLicenseRecord\<lparr>lr_ContentHash := ''g'', lr_ExtractedAt := 2\<rparr>, exampleLicenseRecord] = Inr r)
   \<or> (\<exists>c d. Compose_licence [exampleLicenseRecord, exampleLicenseRecord\<lparr>lr_ContentHash := ''g'', lr_ExtractedAt := 2\<rparr>]
          = Inl (ConflictingLicences c)
      \<and> Compose_licence [exampleLicenseRecord\<lparr>lr_ContentHash := ''g'', lr_ExtractedAt := 2\<rparr>, exampleLicenseRecord]
          = Inl (ConflictingLicences d))"
  by (rule licence_compose_any_order)
    (auto simp: exampleLicenseRecord_def IsLocal_def LocalVersion_def numbered_def)

text \<open>
  A NaN takes the order away: the two records below tie, so the one listed first is served, whatever
  the confidence, the time and the content hash of the other.
\<close>

lemma nan_is_served_by_position:
  assumes "lr_PrimaryConfidence a = NaN"
  shows "serve servesBefore_licence [a, b] = a \<and> serve servesBefore_licence [b, a] = b"
  using assms by (cases "lr_PrimaryConfidence b") (simp_all add: serve_def servesBefore_licence_def)

end
