(* ===== verification/Go_Encoding.thy ===== *)
theory Go_Encoding
  imports Go_Strings
begin

text \<open>
  Byte encodings of the standard library: encoding/hex and the writer of encoding/json. A JSON
  value is a tree; a struct is an object with its fields in declaration order, an omitted field
  is left out of the list. Strings are bytes: well-formed UTF-8 is written as it is, a byte that
  is not part of it as the replacement character's escape.
\<close>

section \<open>Hexadecimal text\<close>

definition hexDigit :: "nat \<Rightarrow> char" where
  "hexDigit n = (if n < 10 then char_of (48 + n) else char_of (87 + n))"

definition hexByte :: "char \<Rightarrow> string" where
  "hexByte c = (let n = of_char c :: nat in [hexDigit (n div 16), hexDigit (n mod 16)])"

definition EncodeToString :: "string \<Rightarrow> string" where
  "EncodeToString bs = concat (map hexByte bs)"

lemma hexDigit_inj: "m < 16 \<Longrightarrow> n < 16 \<Longrightarrow> hexDigit m = hexDigit n \<Longrightarrow> m = n"
proof -
  assume b: "m < 16" "n < 16" "hexDigit m = hexDigit n"
  have "(of_char (hexDigit k) :: nat) = (if k < 10 then 48 + k else 87 + k)" if "k < 16" for k
    using that by (simp add: hexDigit_def)
  with b have "(if m < 10 then 48 + m else 87 + m) = (if n < 10 then 48 + n else 87 + n)" by metis
  with b(1,2) show ?thesis by (auto split: if_splits)
qed

lemma hexByte_inj: "hexByte a = hexByte b \<Longrightarrow> a = b"
proof -
  assume "hexByte a = hexByte b"
  moreover have "(of_char c :: nat) div 16 < 16" for c :: char
    using nat_of_char_less_256 [of c] by (simp add: less_mult_imp_div_less)
  ultimately have "(of_char a :: nat) div 16 = of_char b div 16" "(of_char a :: nat) mod 16 = of_char b mod 16"
    by (auto simp: hexByte_def Let_def intro: hexDigit_inj)
  then have "(of_char a :: nat) = of_char b" by (metis div_mult_mod_eq)
  then show ?thesis by simp
qed

lemma EncodeToString_inj: "EncodeToString xs = EncodeToString ys \<Longrightarrow> xs = ys"
proof (induction xs arbitrary: ys)
  case Nil
  then show ?case by (cases ys) (auto simp: EncodeToString_def hexByte_def Let_def)
next
  case (Cons x xs)
  then obtain y zs where ys: "ys = y # zs" by (cases ys) (auto simp: EncodeToString_def hexByte_def Let_def)
  have "hexByte x = hexByte y \<and> EncodeToString xs = EncodeToString zs"
    using Cons.prems unfolding ys by (simp add: EncodeToString_def hexByte_def Let_def)
  then show ?case using Cons.IH hexByte_inj ys by blast
qed

section \<open>UTF-8\<close>

definition byte :: "char \<Rightarrow> nat" where
  "byte c = of_char c"

definition continues :: "char \<Rightarrow> bool" where
  "continues c \<longleftrightarrow> 128 \<le> byte c \<and> byte c < 192"

definition second_ok :: "char \<Rightarrow> char \<Rightarrow> bool" where
  "second_ok a b \<longleftrightarrow> continues b
     \<and> (byte a = 224 \<longrightarrow> 160 \<le> byte b) \<and> (byte a = 237 \<longrightarrow> byte b < 160)
     \<and> (byte a = 240 \<longrightarrow> 144 \<le> byte b) \<and> (byte a = 244 \<longrightarrow> byte b < 144)"

text \<open>How many bytes follow the first one of a multi-byte character at the front of the text.\<close>

definition runeTail :: "char \<Rightarrow> string \<Rightarrow> nat option" where
  "runeTail a r =
     (if 194 \<le> byte a \<and> byte a < 224 then
        (case r of b # _ \<Rightarrow> if second_ok a b then Some 1 else None | _ \<Rightarrow> None)
      else if 224 \<le> byte a \<and> byte a < 240 then
        (case r of b # c # _ \<Rightarrow> if second_ok a b \<and> continues c then Some 2 else None | _ \<Rightarrow> None)
      else if 240 \<le> byte a \<and> byte a < 245 then
        (case r of b # c # d # _ \<Rightarrow> if second_ok a b \<and> continues c \<and> continues d then Some 3 else None | _ \<Rightarrow> None)
      else None)"

section \<open>JSON\<close>

datatype json =
    JNull
  | JBool bool
  | JInt int
  | JStr string
  | JArr "json list"
  | JObj "(string \<times> json) list"

definition backslash :: char where "backslash = CHR 0x5C"
definition quoteMark :: char where "quoteMark = CHR 0x22"

text \<open>The escape of one byte of ASCII, HTML characters included.\<close>

definition escapeByte :: "char \<Rightarrow> string" where
  "escapeByte c =
     (if c = backslash \<or> c = quoteMark then [backslash, c]
      else if c = CHR 0x08 then [backslash, CHR ''b'']
      else if c = CHR 0x0C then [backslash, CHR ''f'']
      else if c = CHR 0x0A then [backslash, CHR ''n'']
      else if c = CHR 0x0D then [backslash, CHR ''r'']
      else if c = CHR 0x09 then [backslash, CHR ''t'']
      else if byte c < 32 \<or> c \<in> {CHR ''<'', CHR ''>'', CHR ''&''} then [backslash] @ ''u00'' @ hexByte c
      else [c])"

text \<open>The line separators are escaped, other characters above ASCII are not.\<close>

definition escapeRune :: "string \<Rightarrow> string" where
  "escapeRune u =
     (if u = [CHR 0xE2, CHR 0x80, CHR 0xA8] then [backslash] @ ''u2028''
      else if u = [CHR 0xE2, CHR 0x80, CHR 0xA9] then [backslash] @ ''u2029''
      else u)"

function quoteBody :: "string \<Rightarrow> string" where
  "quoteBody [] = []"
| "quoteBody (c # r) =
     (if byte c < 128 then escapeByte c @ quoteBody r
      else case runeTail c r of
          None \<Rightarrow> [backslash] @ ''ufffd'' @ quoteBody r
        | Some n \<Rightarrow> escapeRune (c # take n r) @ quoteBody (drop n r))"
  by pat_completeness auto
termination by (relation "measure length") auto

text \<open>What a string reads back as: a byte that is not part of UTF-8 has become the replacement character.\<close>

function validText :: "string \<Rightarrow> string" where
  "validText [] = []"
| "validText (c # r) =
     (if byte c < 128 then c # validText r
      else case runeTail c r of
          None \<Rightarrow> [CHR 0xEF, CHR 0xBF, CHR 0xBD] @ validText r
        | Some n \<Rightarrow> c # take n r @ validText (drop n r))"
  by pat_completeness auto
termination by (relation "measure length") auto

definition quote :: "string \<Rightarrow> string" where
  "quote s = [quoteMark] @ quoteBody s @ [quoteMark]"

fun print :: "json \<Rightarrow> string"
and printAll :: "json list \<Rightarrow> string list"
and printFields :: "(string \<times> json) list \<Rightarrow> string list" where
  "print JNull = ''null''"
| "print (JBool b) = (if b then ''true'' else ''false'')"
| "print (JInt i) = Itoa i"
| "print (JStr s) = quote s"
| "print (JArr js) = ''['' @ Join (printAll js) '','' @ '']''"
| "print (JObj fs) = ''{'' @ Join (printFields fs) '','' @ ''}''"
| "printAll [] = []"
| "printAll (j # js) = print j # printAll js"
| "printFields [] = []"
| "printFields ((k, v) # fs) = (quote k @ '':'' @ print v) # printFields fs"

lemma printAll_map: "printAll js = map print js"
  by (induction js) auto

lemma printFields_map: "printFields fs = map (\<lambda>(k, v). quote k @ '':'' @ print v) fs"
  by (induction fs) auto

lemma Join_append: "xs \<noteq> [] \<Longrightarrow> ys \<noteq> [] \<Longrightarrow> Join (xs @ ys) sep = Join xs sep @ sep @ Join ys sep"
proof (induction xs)
  case (Cons x xs)
  then show ?case by (cases xs; cases ys) auto
qed simp

section \<open>Where a field name can occur in the text\<close>

lemma Contains_mid [intro]: "Contains (u @ q @ v) q"
  by (auto simp: Contains_iff)

lemma Contains_set: "Contains s q \<Longrightarrow> set q \<subseteq> set s"
  by (auto simp: Contains_iff)

lemma Contains_append:
  assumes "Contains (a @ b) q"
  shows "Contains a q \<or> Contains b q \<or> (\<exists>u v. u \<noteq> [] \<and> v \<noteq> [] \<and> q = u @ v \<and> suffix u a \<and> prefix v b)"
proof -
  obtain x y where xy: "a @ b = x @ q @ y" using assms by (auto simp: Contains_iff)
  then consider (late) us where "a @ us = x" "b = us @ q @ y" | (early) us where "a = x @ us" "us @ b = q @ y"
    by (auto simp: append_eq_append_conv2)
  then show ?thesis
  proof cases
    case late
    then show ?thesis by (auto simp: Contains_iff)
  next
    case early
    then consider vs where "us = q @ vs" | vs where "us @ vs = q" "b = vs @ y"
      by (auto simp: append_eq_append_conv2)
    then show ?thesis
    proof cases
      case 1
      with early show ?thesis by (auto simp: Contains_iff)
    next
      case 2
      show ?thesis
      proof (cases "us = [] \<or> vs = []")
        case True
        with 2 early have "b = [] @ q @ y \<or> a = x @ q @ []" by auto
        then show ?thesis by (metis Contains_mid)
      next
        case False
        with 2 early show ?thesis by (auto simp: suffix_def prefix_def)
      qed
    qed
  qed
qed

lemma no_sep:
  assumes "c \<notin> set q" "\<not> Contains a q" "\<not> Contains b q"
  shows "\<not> Contains (a @ [c] @ b) q"
proof
  assume "Contains (a @ [c] @ b) q"
  then consider "Contains ([c] @ b) q" | u v where "v \<noteq> []" "q = u @ v" "prefix v ([c] @ b)"
    using assms(2) by (auto dest!: Contains_append)
  then show False
  proof cases
    case 1
    have "q \<noteq> []" using assms(2) Contains_mid [of "[]" "[]" a] by auto
    moreover from Contains_append [OF 1] assms(1,3) have "Contains [c] q"
      by (auto simp: suffix_Cons)
    from Contains_set [OF this] have "set q \<subseteq> {c}" by simp
    ultimately show False using assms(1) by (cases q) auto
  next
    case 2
    then have "hd v = c" "hd v \<in> set q" by (auto simp: prefix_def neq_Nil_conv)
    with assms(1) show False by simp
  qed
qed

lemma no_Join:
  assumes "sep \<notin> set q" "q \<noteq> []" "\<forall>p \<in> set ps. \<not> Contains p q"
  shows "\<not> Contains (Join ps [sep]) q"
  using assms(3)
proof (induction ps rule: induct_list012)
  case 1
  show ?case using assms(2) by (simp add: Contains_iff)
next
  case (3 x y zs)
  then show ?case using no_sep [OF assms(1), of x "Join (y # zs) [sep]"] by simp
qed simp

text \<open>A quotation mark inside a quoted string always follows a backslash.\<close>

definition escaped :: "string \<Rightarrow> bool" where
  "escaped t \<longleftrightarrow> (\<forall>u v. t = u @ quoteMark # v \<longrightarrow> u \<noteq> [] \<and> last u = backslash)"

lemma escaped_append: "escaped a \<Longrightarrow> escaped b \<Longrightarrow> escaped (a @ b)"
proof (unfold escaped_def, intro allI impI)
  fix u v
  assume a: "\<forall>u v. a = u @ quoteMark # v \<longrightarrow> u \<noteq> [] \<and> last u = backslash"
    and b: "\<forall>u v. b = u @ quoteMark # v \<longrightarrow> u \<noteq> [] \<and> last u = backslash"
    and "a @ b = u @ quoteMark # v"
  then consider w where "a @ w = u" "b = w @ quoteMark # v" | w where "a = u @ quoteMark # w"
    by (auto simp: append_eq_append_conv2 append_eq_Cons_conv)
  then show "u \<noteq> [] \<and> last u = backslash"
  proof cases
    case 1
    with b have "w \<noteq> []" "last w = backslash" by auto
    with 1 show ?thesis by auto
  next
    case 2
    with a show ?thesis by blast
  qed
qed

lemma escaped_plain: "quoteMark \<notin> set t \<Longrightarrow> escaped t"
  by (auto simp: escaped_def)

lemma escaped_byte: "escaped (escapeByte c)"
proof (cases "c = quoteMark")
  case True
  then have "escapeByte c = [backslash, quoteMark]" by (simp add: escapeByte_def)
  then show ?thesis by (auto simp: escaped_def Cons_eq_append_conv backslash_def quoteMark_def)
next
  case False
  have "hexDigit n \<noteq> quoteMark" if "n < 16" for n
  proof -
    have "(of_char (hexDigit n) :: nat) = (if n < 10 then 48 + n else 87 + n)" using that by (simp add: hexDigit_def)
    moreover have "(of_char quoteMark :: nat) = 34" by (simp add: quoteMark_def)
    ultimately show ?thesis by (auto split: if_splits)
  qed
  moreover have "(of_char c :: nat) div 16 < 16" using nat_of_char_less_256 [of c] by (simp add: less_mult_imp_div_less)
  moreover have "(of_char c :: nat) mod 16 < 16" by simp
  ultimately have "quoteMark \<notin> set (hexByte c)" by (metis empty_iff empty_set hexByte_def set_ConsD)
  with False have "quoteMark \<notin> set (escapeByte c)"
    by (auto simp: escapeByte_def backslash_def quoteMark_def)
  then show ?thesis by (rule escaped_plain)
qed

lemma runeTail_bytes: "runeTail c r = Some n \<Longrightarrow> \<forall>b \<in> set (take n r). continues b"
  by (auto simp: runeTail_def second_ok_def split: if_splits list.splits)

lemma not_quote: "128 \<le> byte c \<Longrightarrow> c \<noteq> quoteMark"
  by (auto simp: byte_def quoteMark_def)

lemma escaped_body: "escaped (quoteBody s)"
proof (induction s rule: quoteBody.induct)
  case (2 c r)
  show ?case
  proof (cases "byte c < 128")
    case True
    with 2 show ?thesis by (simp add: escaped_append escaped_byte)
  next
    case high: False
    show ?thesis
    proof (cases "runeTail c r")
      case None
      have "escaped ([backslash] @ ''ufffd'')" by (rule escaped_plain) (simp add: backslash_def quoteMark_def)
      with 2(2) [OF high None] high None show ?thesis using escaped_append by fastforce
    next
      case (Some n)
      have "quoteMark \<notin> set (c # take n r)"
        using high runeTail_bytes [OF Some] not_quote [of c] not_quote [of quoteMark] by (auto simp: continues_def)
      then have "quoteMark \<notin> set (escapeRune (c # take n r))"
        by (auto simp: escapeRune_def backslash_def quoteMark_def)
      with 2(3) [OF high Some] high Some show ?thesis by (auto intro: escaped_append escaped_plain)
    qed
  qed
qed (simp add: escaped_def)

section \<open>A field is named once\<close>

fun fieldNames :: "json \<Rightarrow> string list" where
  "fieldNames (JArr js) = concat (map fieldNames js)"
| "fieldNames (JObj fs) = concat (map (\<lambda>(k, v). k # fieldNames v) fs)"
| "fieldNames _ = []"

text \<open>A name of lower-case letters and underscores, which is written as it is.\<close>

definition plainName :: "string \<Rightarrow> bool" where
  "plainName k \<longleftrightarrow> k \<noteq> [] \<and> (\<forall>c \<in> set k. CHR ''a'' \<le> c \<and> c \<le> CHR ''z'' \<or> c = CHR ''_'')"

lemma plain_chars:
  assumes "plainName k"
  shows "quoteMark \<notin> set k" "CHR '':'' \<notin> set k" "CHR '','' \<notin> set k" "CHR ''['' \<notin> set k" "CHR '']'' \<notin> set k"
    "CHR ''{'' \<notin> set k" "CHR ''}'' \<notin> set k" "backslash \<notin> set k"
  using assms by (auto simp: plainName_def quoteMark_def backslash_def)

lemma plain_byte: "CHR ''a'' \<le> c \<and> c \<le> CHR ''z'' \<or> c = CHR ''_'' \<Longrightarrow> byte c < 128 \<and> escapeByte c = [c]"
proof -
  assume "CHR ''a'' \<le> c \<and> c \<le> CHR ''z'' \<or> c = CHR ''_''"
  then have "95 \<le> byte c \<and> byte c \<le> 122"
    by (auto simp: byte_def less_eq_char_def)
  moreover from this have "c \<noteq> d" if "byte d < 95" for d using that by auto
  ultimately show ?thesis by (simp add: escapeByte_def backslash_def quoteMark_def byte_def)
qed

lemma quote_plain: "plainName k \<Longrightarrow> quote k = [quoteMark] @ k @ [quoteMark]"
proof -
  assume "plainName k"
  then have "\<forall>c \<in> set k. byte c < 128 \<and> escapeByte c = [c]"
    unfolding plainName_def using plain_byte by blast
  then have "quoteBody k = k" by (induction k) auto
  then show ?thesis by (simp add: quote_def)
qed

definition fieldMark :: "string \<Rightarrow> string" where
  "fieldMark k = k @ [quoteMark, CHR '':'']"

lemma mark_quoted:
  assumes "plainName k"
  shows "\<not> Contains (quote s) (fieldMark k)"
proof
  assume c: "Contains (quote s) (fieldMark k)"
  have ne: "k \<noteq> []" using assms by (simp add: plainName_def)
  with plain_chars(1,8) [OF assms] have hd: "hd k \<noteq> quoteMark" "last k \<noteq> backslash" "k \<noteq> []"
    by (metis hd_in_set, metis last_in_set, blast)
  have colon: "\<not> Contains [quoteMark] (fieldMark k)"
    using Contains_set [of "[quoteMark]" "fieldMark k"] by (auto simp: fieldMark_def quoteMark_def)
  have "\<not> Contains (quoteBody s) (fieldMark k)"
  proof
    assume "Contains (quoteBody s) (fieldMark k)"
    then obtain x y where "quoteBody s = (x @ k) @ quoteMark # CHR '':'' # y"
      by (auto simp: Contains_iff fieldMark_def)
    with escaped_body [of s] have "last (x @ k) = backslash" unfolding escaped_def by blast
    with hd show False by simp
  qed
  moreover have "\<not> prefix v [quoteMark]" if "fieldMark k = u @ v" "v \<noteq> []" for u v
  proof
    assume "prefix v [quoteMark]"
    with that(2) have "last v = quoteMark" by (cases v) auto
    moreover have "last (u @ v) = CHR '':''" unfolding that(1) [symmetric] by (simp add: fieldMark_def)
    ultimately show False using that(2) by (simp add: quoteMark_def)
  qed
  ultimately have "\<not> Contains (quoteBody s @ [quoteMark]) (fieldMark k)"
    using Contains_append [of "quoteBody s" "[quoteMark]"] colon by blast
  moreover have "\<not> suffix u [quoteMark]" if "fieldMark k = u @ v" "u \<noteq> []" for u v
    using that hd(1,3) by (cases u; cases k) (auto simp: fieldMark_def suffix_Cons)
  ultimately show False
    using Contains_append [OF c [unfolded quote_def]] colon by blast
qed

lemma mark_field:
  assumes k: "plainName k" and x: "plainName x" "\<not> suffix k x" and v: "\<not> Contains (print v) (fieldMark k)"
  shows "\<not> Contains (quote x @ '':'' @ print v) (fieldMark k)"
proof
  let ?a = "[quoteMark] @ x @ [quoteMark, CHR '':'']"
  assume "Contains (quote x @ '':'' @ print v) (fieldMark k)"
  then have "Contains (?a @ print v) (fieldMark k)" by (simp add: quote_plain [OF x(1)])
  then consider "Contains ?a (fieldMark k)" | u w where "u \<noteq> []" "w \<noteq> []" "fieldMark k = u @ w" "suffix u ?a"
    using v Contains_append by blast
  then show False
  proof cases
    case 1
    then obtain p s where ps: "?a = p @ k @ [quoteMark, CHR '':''] @ s" by (auto simp: Contains_iff fieldMark_def)
    have "s = []"
    proof (rule ccontr)
      assume "s \<noteq> []"
      with ps have "CHR '':'' \<in> set ([quoteMark] @ x @ [quoteMark])" by (cases s rule: rev_cases) auto
      with plain_chars(2) [OF x(1)] show False by (simp add: quoteMark_def)
    qed
    with ps have "[quoteMark] @ x = p @ k" by simp
    then show False using plain_chars(1) [OF k] x(2) k
      by (cases p) (auto simp: suffix_def plainName_def Cons_eq_append_conv)
  next
    case 2
    from 2(4) obtain ys where ys: "?a = ys @ u" by (auto simp: suffix_def)
    have "last u = last ?a" unfolding ys using 2(1) by simp
    then have "last u = CHR '':''" by simp
    moreover have "butlast (u @ w) = k @ [quoteMark]" unfolding 2(3) [symmetric] by (simp add: fieldMark_def butlast_append)
    then have "u @ butlast w = k @ [quoteMark]" using 2(2) by (simp add: butlast_append)
    then have "set u \<subseteq> set (k @ [quoteMark])" by (metis set_append sup_ge1)
    ultimately show False using last_in_set [OF 2(1)] plain_chars(2) [OF k] by (auto simp: quoteMark_def)
  qed
qed

lemma mark_chars: "plainName k \<Longrightarrow> c \<in> set '',[]{}'' \<Longrightarrow> c \<notin> set (fieldMark k)"
  using plain_chars [of k] by (auto simp: fieldMark_def quoteMark_def)

lemma set_decimal: "c \<in> set (decimal n) \<Longrightarrow> 48 \<le> byte c \<and> byte c < 58"
proof (induction n rule: decimal.induct)
  case (1 n)
  then show ?case by (subst (asm) (2) decimal.simps) (auto simp: byte_def split: if_splits)
qed

lemma mark_wrapped:
  assumes "plainName k" "b \<in> set '',[]{}''" "e \<in> set '',[]{}''" "\<not> Contains t (fieldMark k)"
  shows "\<not> Contains ([b] @ t @ [e]) (fieldMark k)"
proof -
  have ne: "\<not> Contains [] (fieldMark k)" by (simp add: Contains_iff fieldMark_def)
  have "\<not> Contains (t @ [e] @ []) (fieldMark k)" by (rule no_sep [OF mark_chars [OF assms(1,3)] assms(4) ne])
  then show ?thesis using no_sep [OF mark_chars [OF assms(1,2)] ne, of "t @ [e]"] by simp
qed

text \<open>A value none of whose fields ends in a name does not hold that name as a field's anywhere.\<close>

theorem no_mark:
  assumes "plainName k" "\<forall>x \<in> set (fieldNames j). plainName x \<and> \<not> suffix k x"
  shows "\<not> Contains (print j) (fieldMark k)"
  using assms(2)
proof (induction j)
  case (JInt i)
  have "quoteMark \<notin> set (Itoa i)" using set_decimal [of quoteMark] by (auto simp: Itoa_def byte_def quoteMark_def)
  then show ?case by (auto dest!: Contains_set simp: fieldMark_def)
next
  case (JStr s)
  show ?case by (simp add: mark_quoted [OF assms(1)])
next
  case (JArr js)
  have "\<not> Contains (Join (map print js) '','') (fieldMark k)"
    by (rule no_Join) (use JArr mark_chars [OF assms(1)] in \<open>auto simp: fieldMark_def\<close>)
  from mark_wrapped [OF assms(1) _ _ this] show ?case by (simp add: printAll_map)
next
  case (JObj fs)
  have "\<not> Contains (Join (printFields fs) '','') (fieldMark k)"
  proof (rule no_Join)
    show "\<forall>p \<in> set (printFields fs). \<not> Contains p (fieldMark k)"
    proof
      fix p assume "p \<in> set (printFields fs)"
      then obtain x v where xv: "(x, v) \<in> set fs" "p = quote x @ '':'' @ print v" by (auto simp: printFields_map)
      with JObj.prems have "plainName x" "\<not> suffix k x" "\<forall>y \<in> set (fieldNames v). plainName y \<and> \<not> suffix k y" by force+
      moreover from JObj.IH [OF xv(1), of v] this(3) have "\<not> Contains (print v) (fieldMark k)" by simp
      ultimately show "\<not> Contains p (fieldMark k)" unfolding xv(2) by (intro mark_field [OF assms(1)])
    qed
  qed (use mark_chars [OF assms(1)] in \<open>auto simp: fieldMark_def\<close>)
  from mark_wrapped [OF assms(1) _ _ this] show ?case by simp
qed (auto dest!: Contains_set simp: fieldMark_def quoteMark_def)

section \<open>The place of a field\<close>

text \<open>The text of an object around one of its fields.\<close>

definition textBefore :: "(string \<times> json) list \<Rightarrow> string" where
  "textBefore fs = (if fs = [] then ''{'' else ''{'' @ Join (printFields fs) '','' @ '','')"

definition textAfter :: "(string \<times> json) list \<Rightarrow> string" where
  "textAfter fs = (if fs = [] then ''}'' else '','' @ Join (printFields fs) '','' @ ''}'')"

lemma printFields_append: "printFields (fs @ gs) = printFields fs @ printFields gs"
  by (simp add: printFields_map)

lemma printFields_Nil: "printFields fs = [] \<longleftrightarrow> fs = []"
  by (simp add: printFields_map)

lemma Join_Cons: "ys \<noteq> [] \<Longrightarrow> Join (x # ys) sep = x @ sep @ Join ys sep"
  by (cases ys) auto

lemma print_around:
  "print (JObj (B @ [(k, v)] @ A)) = textBefore B @ (quote k @ '':'' @ print v) @ textAfter A"
  by (cases "B = []"; cases "A = []")
    (simp_all add: textBefore_def textAfter_def printFields_append printFields_Nil Join_append Join_Cons)

definition unnamed :: "string \<Rightarrow> (string \<times> json) list \<Rightarrow> bool" where
  "unnamed k fs \<longleftrightarrow> (\<forall>x \<in> set (fieldNames (JObj fs)). plainName x \<and> \<not> suffix k x)"

lemma unnamed_append: "unnamed k (B @ A) \<longleftrightarrow> unnamed k B \<and> unnamed k A"
  by (simp only: unnamed_def fieldNames.simps map_append concat_append set_append ball_Un)

lemma mark_in_fields:
  assumes k: "plainName k" and fs: "unnamed k fs"
  shows "\<not> Contains (Join (printFields fs) '','') (fieldMark k)"
proof
  assume "Contains (Join (printFields fs) '','') (fieldMark k)"
  then obtain u v where "Join (printFields fs) '','' = u @ fieldMark k @ v" by (auto simp: Contains_iff)
  then have "print (JObj fs) = (''{'' @ u) @ fieldMark k @ (v @ ''}'')" by simp
  moreover have "\<not> Contains (print (JObj fs)) (fieldMark k)" by (rule no_mark [OF k fs [unfolded unnamed_def]])
  ultimately show False using Contains_mid by metis
qed

lemma mark_length: "plainName k \<Longrightarrow> 3 \<le> length (fieldMark k)"
  by (cases k) (auto simp: fieldMark_def plainName_def)

lemma mark_around:
  assumes "plainName k" "unnamed k fs"
  shows "\<not> Contains (textBefore fs) (fieldMark k)" "\<not> Contains (textAfter fs) (fieldMark k)"
proof -
  have "\<not> Contains [c] (fieldMark k)" for c
    using mark_length [OF assms(1)] by (auto simp: Contains_iff dest!: arg_cong [where f = length])
  then show "\<not> Contains (textBefore fs) (fieldMark k)" "\<not> Contains (textAfter fs) (fieldMark k)"
    using mark_wrapped [OF assms(1) _ _ mark_in_fields [OF assms]] by (auto simp: textBefore_def textAfter_def)
qed

lemma StrIndex_least: "StrIndex (u @ p @ v) p = Some i \<Longrightarrow> i \<le> length u"
proof (induction u arbitrary: i)
  case Nil
  then show ?case by (cases p; cases v) (auto split: if_splits)
next
  case (Cons x u)
  then show ?case by (auto split: if_splits)
qed

lemma mark_first:
  assumes k: "plainName k" and X: "\<not> Contains X (fieldMark k)"
  shows "StrIndex (X @ (quote k @ '':'' @ t) @ Y) (quote k @ '':'' @ t) = Some (length X)"
proof -
  let ?P = "quote k @ '':'' @ t"
  have P: "?P = quoteMark # fieldMark k @ t" by (simp add: quote_plain [OF k] fieldMark_def)
  have "Contains (X @ ?P @ Y) ?P" by (rule Contains_mid)
  then obtain i where i: "StrIndex (X @ ?P @ Y) ?P = Some i" by (auto simp: Contains_def)
  obtain u w where uw: "X @ ?P @ Y = u @ ?P @ w" "length u = i" using Index_Some_split [OF i] by blast
  have "\<not> length u < length X"
  proof
    assume l: "length u < length X"
    from uw(1) obtain us where "X = u @ us \<and> us @ ?P @ Y = ?P @ w \<or> X @ us = u"
      unfolding append_eq_append_conv2 by blast
    with l have us: "X = u @ us" "us @ ?P @ Y = ?P @ w" "us \<noteq> []" by auto
    then obtain c Z where "us = c # Z" by (cases us) auto
    with us have X': "X = u @ c # Z" "(c # Z) @ ?P @ Y = ?P @ w" by simp_all
    from X'(2) have "c = quoteMark" "Z @ ?P @ Y = fieldMark k @ t @ w" unfolding P by auto
    then obtain us where us: "Z = fieldMark k @ us \<or> Z @ us = fieldMark k \<and> ?P @ Y = us @ t @ w"
      unfolding append_eq_append_conv2 by blast
    consider zs where "Z = fieldMark k @ zs" | zs where "Z @ zs = fieldMark k" "zs \<noteq> []" "?P @ Y = zs @ t @ w"
    proof (cases "us = []")
      case True
      with us have "Z = fieldMark k @ []" by auto
      then show thesis by (rule that(1))
    next
      case False
      with us that show thesis by blast
    qed
    then show False
    proof cases
      case 1
      with X' X Contains_mid [of "u @ [c]" "fieldMark k" zs] show False by simp
    next
      case 2
      obtain z zs' where zs: "zs = z # zs'" using 2(2) by (cases zs) auto
      with 2(3) have z: "z = quoteMark" "fieldMark k @ t @ Y = zs' @ t @ w" unfolding P by auto
      have "k @ quoteMark # [CHR '':''] = Z @ quoteMark # zs'" using 2(1) unfolding zs fieldMark_def z(1) by simp
      moreover have "quoteMark \<notin> set k" "quoteMark \<notin> set [CHR '':'']" using plain_chars(1) [OF k] by (simp_all add: quoteMark_def)
      ultimately have "zs' = [CHR '':'']" by (simp add: append_Cons_eq_iff)
      with z(2) have "hd (fieldMark k @ t @ Y) = CHR '':''" by simp
      moreover have "hd (fieldMark k @ t @ Y) = hd k" "k \<noteq> []" using k by (auto simp: fieldMark_def plainName_def)
      ultimately show False using plain_chars(2) [OF k] by (metis hd_in_set)
    qed
  qed
  with StrIndex_least [OF i] uw(2) i show ?thesis by simp
qed

lemma field_place:
  assumes "plainName k" "unnamed k (B @ A)"
  shows "StrIndex (print (JObj (B @ [(k, v)] @ A))) (quote k @ '':'' @ print v) = Some (length (textBefore B))"
    and "\<not> Contains (textAfter A) (quote k @ '':'' @ print v)"
proof -
  have BA: "unnamed k B" "unnamed k A" using assms(2) by (simp_all add: unnamed_append)
  show "StrIndex (print (JObj (B @ [(k, v)] @ A))) (quote k @ '':'' @ print v) = Some (length (textBefore B))"
    unfolding print_around by (rule mark_first [OF assms(1) mark_around(1) [OF assms(1) BA(1)]])
  have "Contains s (fieldMark k)" if "Contains s (quote k @ '':'' @ print v)" for s
  proof -
    from that obtain a b where "s = a @ (quote k @ '':'' @ print v) @ b" by (auto simp: Contains_iff)
    then have "s = (a @ [quoteMark]) @ fieldMark k @ (print v @ b)" by (simp add: quote_plain [OF assms(1)] fieldMark_def)
    then show ?thesis by (metis Contains_mid)
  qed
  with mark_around(2) [OF assms(1) BA(2)] show "\<not> Contains (textAfter A) (quote k @ '':'' @ print v)" by blast
qed

end
