(* ===== verification/License_Seal.thy ===== *)
theory License_Seal
  imports License_Compose Record_Stamp Go_Encoding
begin

text \<open>
  The seal of a licence record (\<open>internal/license/domain/hasher.go\<close>): the canonical shape of a record,
  its content hash, and when a stored record verifies.  \<open>json.Marshal\<close> is the parameter \<open>json\<close>, which
  may fail (it refuses NaN), and \<open>sha256.Sum256\<close> the parameter \<open>H\<close>; bytes are characters.
\<close>

subsection \<open>The canonical shape\<close>

record canonicalProvenanceSummary =
  cp_Confidence :: int
  cp_Signals :: "int list"

record canonicalCoord =
  cc_Path :: string
  cc_Version :: string

record canonicalCopyrightStatement =
  cx_Holders :: "string list"
  cx_Source :: string
  cx_Verbatim :: string
  cx_Years :: string

record canonicalAltMatch =
  ca_Confidence :: float64
  ca_SPDX :: string

record canonicalFileEntry =
  cf_AltMatches :: "canonicalAltMatch list"
  cf_Confidence :: float64
  cf_CopyrightStatements :: "canonicalCopyrightStatement list"
  cf_FileHash :: string
  cf_FileSize :: int
  cf_IsPerFile :: bool
  cf_IsVendored :: bool
  cf_LowConfidenceCoverage :: float64
  cf_LowConfidenceSPDX :: string
  cf_Path :: string
  cf_SPDX :: string

record canonicalLicenseRecord =
  cl_ArtefactIdentity :: string
  cl_BundledSPDXs :: "string list"
  cl_ContentHash :: string
  cl_Coordinate :: canonicalCoord
  cl_CopyrightStatus :: int
  cl_Ecosystem :: string
  cl_Expression :: string
  cl_ExpressionBasis :: string
  cl_ExtractedAt :: string
  cl_FailureDetail :: string
  cl_LicenseFiles :: "canonicalFileEntry list"
  cl_OverallStatus :: int
  cl_PipelineVersion :: string
  cl_PrimaryConfidence :: float64
  cl_PrimarySPDX :: string
  cl_Provenance :: canonicalProvenanceSummary
  cl_Role :: string
  cl_SchemaVersion :: string
  cl_SourceContentHash :: string

text \<open>The positions of the constants in their blocks; the signals start at one.\<close>

fun status_int :: "LicenseStatus \<Rightarrow> int" where
  "status_int LicenceStatusUnknown = 0"
| "status_int LicenseStatusDetected = 1"
| "status_int LicenceStatusAmbiguous = 2"
| "status_int LicenseStatusMultiple = 3"
| "status_int LicenseStatusNone = 4"
| "status_int LicenseStatusUnclassified = 5"
| "status_int LicenseStatusExtractionFailed = 6"
| "status_int LicenseStatusCancelled = 7"
| "status_int LicenseStatusPerFile = 8"

fun copyright_int :: "CopyrightStatus \<Rightarrow> int" where
  "copyright_int CopyrightStatusNotAnalysed = 0"
| "copyright_int CopyrightStatusFound = 1"
| "copyright_int CopyrightStatusNoneFound = 2"
| "copyright_int CopyrightStatusExtractionFailed = 3"

fun signal_int :: "ProvenanceSignal \<Rightarrow> int" where
  "signal_int ProvenanceSignalInboundOutbound = 1"
| "signal_int ProvenanceSignalCLARequired = 2"
| "signal_int ProvenanceSignalDCORequired = 3"
| "signal_int ProvenanceSignalAuthorsFile = 4"
| "signal_int ProvenanceSignalContributorsFile = 5"
| "signal_int ProvenanceSignalPatentsFile = 6"

fun title_int :: "ChainOfTitleConfidence \<Rightarrow> int" where
  "title_int ChainOfTitleNotAnalysed = 0"
| "title_int ChainOfTitleHigh = 1"
| "title_int ChainOfTitleMedium = 2"
| "title_int ChainOfTitleLow = 3"

definition canonicalAlt :: "AltMatch \<Rightarrow> canonicalAltMatch" where
  "canonicalAlt a = \<lparr>ca_Confidence = am_Confidence a, ca_SPDX = am_SPDX a\<rparr>"

definition canonicalCopyright :: "CopyrightStatement \<Rightarrow> canonicalCopyrightStatement" where
  "canonicalCopyright s = \<lparr>cx_Holders = cs_Holders s, cx_Source = cs_Source s, cx_Verbatim = cs_Verbatim s, cx_Years = cs_Years s\<rparr>"

definition canonicalFile :: "LicenseFileEntry \<Rightarrow> canonicalFileEntry" where
  "canonicalFile f =
     \<lparr>cf_AltMatches = map canonicalAlt (sortSlice (le_AltMatches f) AltMatchLess), cf_Confidence = le_Confidence f,
      cf_CopyrightStatements = map canonicalCopyright (sortSlice (le_CopyrightStatements f) CopyrightStatementLess),
      cf_FileHash = le_FileHash f, cf_FileSize = le_FileSize f, cf_IsPerFile = le_IsPerFile f,
      cf_IsVendored = le_IsVendored f, cf_LowConfidenceCoverage = le_LowConfidenceCoverage f,
      cf_LowConfidenceSPDX = le_LowConfidenceSPDX f, cf_Path = le_Path f, cf_SPDX = le_SPDX f\<rparr>"

definition canonicalOf :: "LicenseRecord \<Rightarrow> canonicalLicenseRecord" where
  "canonicalOf r =
     \<lparr>cl_ArtefactIdentity = lr_ArtefactIdentity r, cl_BundledSPDXs = sort (lr_BundledSPDXs r),
      cl_ContentHash = lr_ContentHash r,
      cl_Coordinate = \<lparr>cc_Path = Path (lr_Coordinate r), cc_Version = Version (lr_Coordinate r)\<rparr>,
      cl_CopyrightStatus = copyright_int (lr_CopyrightStatus r), cl_Ecosystem = lr_Ecosystem r,
      cl_Expression = lr_Expression r, cl_ExpressionBasis = lr_ExpressionBasis r,
      cl_ExtractedAt = Format (lr_ExtractedAt r), cl_FailureDetail = lr_FailureDetail r,
      cl_LicenseFiles = map canonicalFile (sortLicenseFiles (lr_LicenseFiles r)),
      cl_OverallStatus = status_int (lr_OverallStatus r), cl_PipelineVersion = lr_PipelineVersion r,
      cl_PrimaryConfidence = lr_PrimaryConfidence r, cl_PrimarySPDX = lr_PrimarySPDX r,
      cl_Provenance = \<lparr>cp_Confidence = title_int (ps_Confidence (lr_Provenance r)),
                       cp_Signals = sort (map signal_int (ps_Signals (lr_Provenance r)))\<rparr>,
      cl_Role = lr_Role r, cl_SchemaVersion = lr_SchemaVersion r, cl_SourceContentHash = lr_SourceContentHash r\<rparr>"

subsection \<open>The content hash\<close>

datatype hash_error = MarshalFailed | HashMismatch string string

definition marshalCanonicalLicense ::
  "(canonicalLicenseRecord \<Rightarrow> string option) \<Rightarrow> LicenseRecord \<Rightarrow> string option" where
  "marshalCanonicalLicense json r = json (canonicalOf r)"

definition SetContentHash ::
  "(canonicalLicenseRecord \<Rightarrow> string option) \<Rightarrow> (string \<Rightarrow> string) \<Rightarrow> LicenseRecord \<Rightarrow> hash_error + LicenseRecord" where
  "SetContentHash json H r0 =
     (let r = r0\<lparr>lr_ContentHash := []\<rparr>
      in case marshalCanonicalLicense json r of
           None \<Rightarrow> Inl MarshalFailed
         | Some data \<Rightarrow> Inr (r\<lparr>lr_ContentHash := ''sha256:'' @ EncodeToString (H data)\<rparr>))"

definition VerifyContentHash ::
  "(canonicalLicenseRecord \<Rightarrow> string option) \<Rightarrow> (string \<Rightarrow> string) \<Rightarrow> LicenseRecord \<Rightarrow> hash_error option" where
  "VerifyContentHash json H r0 =
     (let saved = lr_ContentHash r0; r = r0\<lparr>lr_ContentHash := []\<rparr>
      in case marshalCanonicalLicense json r of
           None \<Rightarrow> Some MarshalFailed
         | Some data \<Rightarrow>
             (let expected = ''sha256:'' @ EncodeToString (H data)
              in if saved \<noteq> expected then Some (HashMismatch saved expected) else None))"

text \<open>
  Two records state one measurement when they name what they analysed and agree on the canonical
  shape, leaving aside when they were taken and which fetch supplied the bytes.
\<close>

definition SameMeasurement ::
  "(canonicalLicenseRecord \<Rightarrow> string option) \<Rightarrow> LicenseRecord \<Rightarrow> LicenseRecord \<Rightarrow> bool option" where
  "SameMeasurement json a b =
     (if \<not> NamesAnalysedContent a \<or> \<not> NamesAnalysedContent b then Some False
      else case marshalCanonicalLicense json (forMeasurementComparison a) of
             None \<Rightarrow> None
           | Some ab \<Rightarrow>
               (case marshalCanonicalLicense json (forMeasurementComparison b) of
                  None \<Rightarrow> None
                | Some bb \<Rightarrow> Some (ab = bb)))"

subsection \<open>Sealing and verifying\<close>

text \<open>
  A sealed record verifies, differs from the record given only in its hash, and is sealed again to
  itself; sealing fails exactly when the canonical shape cannot be marshalled.
\<close>

theorem seal_verifies:
  "case SetContentHash json H r of
     Inr s \<Rightarrow> VerifyContentHash json H s = None \<and> s\<lparr>lr_ContentHash := lr_ContentHash r\<rparr> = r
       \<and> SetContentHash json H s = Inr s
   | Inl err \<Rightarrow> err = MarshalFailed \<and> json (canonicalOf (r\<lparr>lr_ContentHash := []\<rparr>)) = None"
  by (cases "json (canonicalOf (r\<lparr>lr_ContentHash := []\<rparr>))")
    (simp_all add: SetContentHash_def VerifyContentHash_def marshalCanonicalLicense_def)

lemma Verify_hash:
  "VerifyContentHash json H r = None \<Longrightarrow>
     \<exists>data. json (canonicalOf (r\<lparr>lr_ContentHash := []\<rparr>)) = Some data
       \<and> lr_ContentHash r = ''sha256:'' @ EncodeToString (H data)"
  by (auto simp: VerifyContentHash_def marshalCanonicalLicense_def Let_def split: option.splits if_splits)

lemma canonicalOf_hash: "canonicalOf (r\<lparr>lr_ContentHash := h\<rparr>) = (canonicalOf r)\<lparr>cl_ContentHash := h\<rparr>"
  by (simp add: canonicalOf_def)

text \<open>
  What a seal covers: everything a record states but the order of its files, of their lists, of the
  signals and of the bundled identifiers; the coverage of a file, the effective set and the package
  licences, which are derived; and of the time of extraction anything below what its stamp says.
\<close>

definition fileStated :: "LicenseFileEntry \<Rightarrow> LicenseFileEntry \<times> AltMatch multiset \<times> CopyrightStatement multiset" where
  "fileStated f = (f\<lparr>le_AltMatches := [], le_CopyrightStatements := [], le_Coverage := CoverageNotDetermined\<rparr>,
     mset (le_AltMatches f), mset (le_CopyrightStatements f))"

definition statesTheSame :: "LicenseRecord \<Rightarrow> LicenseRecord \<Rightarrow> bool" where
  "statesTheSame a b \<longleftrightarrow>
     lr_SchemaVersion a = lr_SchemaVersion b \<and> lr_Ecosystem a = lr_Ecosystem b \<and> lr_Coordinate a = lr_Coordinate b
     \<and> lr_Role a = lr_Role b \<and> lr_PrimarySPDX a = lr_PrimarySPDX b \<and> lr_Expression a = lr_Expression b
     \<and> lr_ExpressionBasis a = lr_ExpressionBasis b \<and> mset (lr_BundledSPDXs a) = mset (lr_BundledSPDXs b)
     \<and> lr_PrimaryConfidence a = lr_PrimaryConfidence b
     \<and> image_mset fileStated (mset (lr_LicenseFiles a)) = image_mset fileStated (mset (lr_LicenseFiles b))
     \<and> lr_OverallStatus a = lr_OverallStatus b \<and> lr_CopyrightStatus a = lr_CopyrightStatus b
     \<and> ps_Confidence (lr_Provenance a) = ps_Confidence (lr_Provenance b)
     \<and> mset (ps_Signals (lr_Provenance a)) = mset (ps_Signals (lr_Provenance b))
     \<and> lr_FailureDetail a = lr_FailureDetail b \<and> Format (lr_ExtractedAt a) = Format (lr_ExtractedAt b)
     \<and> lr_PipelineVersion a = lr_PipelineVersion b \<and> lr_ArtefactIdentity a = lr_ArtefactIdentity b
     \<and> lr_SourceContentHash a = lr_SourceContentHash b"

lemma const_int_inj: "status_int x = status_int y \<Longrightarrow> x = y" "copyright_int c = copyright_int d \<Longrightarrow> c = d"
  "title_int t = title_int u \<Longrightarrow> t = u" "inj signal_int"
proof -
  show "status_int x = status_int y \<Longrightarrow> x = y" by (cases x; cases y; simp)
  show "copyright_int c = copyright_int d \<Longrightarrow> c = d" by (cases c; cases d; simp)
  show "title_int t = title_int u \<Longrightarrow> t = u" by (cases t; cases u; simp)
  show "inj signal_int"
  proof (rule injI)
    fix p q show "signal_int p = signal_int q \<Longrightarrow> p = q" by (cases p; cases q; simp)
  qed
qed

lemma mset_map_inj: "inj f \<Longrightarrow> mset (map f xs) = mset (map f ys) \<Longrightarrow> mset xs = mset ys"
  by (metis injD mset_map multiset.inj_map)

text \<open>The canonical form of a file determines what the file states.\<close>

lemma fileStated_canonical:
  assumes "canonicalFile f = canonicalFile g"
  shows "fileStated f = fileStated g"
proof -
  have alt: "inj canonicalAlt" "inj canonicalCopyright"
    by (rule injI, rule AltMatch.equality CopyrightStatement.equality; simp add: canonicalAlt_def canonicalCopyright_def)+
  have lists: "map canonicalAlt (sortSlice (le_AltMatches f) AltMatchLess) = map canonicalAlt (sortSlice (le_AltMatches g) AltMatchLess)"
    "map canonicalCopyright (sortSlice (le_CopyrightStatements f) CopyrightStatementLess)
      = map canonicalCopyright (sortSlice (le_CopyrightStatements g) CopyrightStatementLess)"
    using assms by (simp_all add: canonicalFile_def)
  then have "mset (le_AltMatches f) = mset (le_AltMatches g)" "mset (le_CopyrightStatements f) = mset (le_CopyrightStatements g)"
    using alt by (metis inj_map_eq_map mset_stable_sort sortSlice_def)+
  then show ?thesis using assms by (cases f; cases g) (simp add: fileStated_def canonicalFile_def)
qed

lemma files_canonical:
  assumes "map canonicalFile (sortLicenseFiles fs) = map canonicalFile (sortLicenseFiles gs)"
  shows "image_mset fileStated (mset fs) = image_mset fileStated (mset gs)"
proof -
  have same: "map fileStated xs = map fileStated ys" if "map canonicalFile xs = map canonicalFile ys" for xs ys
    using map_eq_imp_length_eq [OF that] that by (induction xs ys rule: list_induct2) (auto intro: fileStated_canonical)
  have sorted: "mset (map fileStated (sortLicenseFiles hs)) = image_mset fileStated (mset hs)" for hs
  proof -
    have "fileStated (sortEntryLists h) = fileStated h" for h
      by (simp add: fileStated_def sortEntryLists_def sortSlice_def)
    then show ?thesis by (simp add: sortLicenseFiles_def sortSlice_def image_mset.compositionality comp_def)
  qed
  show ?thesis using arg_cong [OF same [OF assms], of mset] unfolding sorted .
qed

lemma canonical_states:
  assumes "canonicalOf a = canonicalOf b"
  shows "statesTheSame a b"
proof -
  have sorts: "sort (lr_BundledSPDXs a) = sort (lr_BundledSPDXs b)"
    "sort (map signal_int (ps_Signals (lr_Provenance a))) = sort (map signal_int (ps_Signals (lr_Provenance b)))"
    using assms by (simp_all add: canonicalOf_def)
  have "mset (lr_BundledSPDXs a) = mset (lr_BundledSPDXs b)"
    "mset (ps_Signals (lr_Provenance a)) = mset (ps_Signals (lr_Provenance b))"
    using arg_cong [OF sorts(1), of mset] mset_map_inj [OF const_int_inj(4)] arg_cong [OF sorts(2), of mset] by simp_all
  moreover have "lr_Coordinate a = lr_Coordinate b"
    using assms by (cases "lr_Coordinate a"; cases "lr_Coordinate b") (simp add: canonicalOf_def)
  moreover have "image_mset fileStated (mset (lr_LicenseFiles a)) = image_mset fileStated (mset (lr_LicenseFiles b))"
    by (rule files_canonical) (use assms in \<open>simp add: canonicalOf_def\<close>)
  moreover have "lr_OverallStatus a = lr_OverallStatus b" "lr_CopyrightStatus a = lr_CopyrightStatus b"
    "ps_Confidence (lr_Provenance a) = ps_Confidence (lr_Provenance b)"
    using assms by (auto simp: canonicalOf_def dest: const_int_inj(1-3))
  ultimately show ?thesis
    unfolding statesTheSame_def using assms by (intro conjI; simp add: canonicalOf_def)
qed

text \<open>
  C22: The seal covers the record: two records that verify under one content hash state the same, field
  by field, if on these two the hash does not collide and the encoder does not give different canonical
  shapes one text.  What may differ is the order of files and of the lists, what is derived, and the
  time below its stamp.
\<close>

theorem seal_covers_the_record:
  assumes "VerifyContentHash json H a = None" "VerifyContentHash json H b = None"
    "lr_ContentHash a = lr_ContentHash b"
    and collide: "\<And>x y. json (canonicalOf (a\<lparr>lr_ContentHash := []\<rparr>)) = Some x \<Longrightarrow> json (canonicalOf (b\<lparr>lr_ContentHash := []\<rparr>)) = Some y
      \<Longrightarrow> H x = H y \<Longrightarrow> x = y"
    and encoder: "json (canonicalOf (a\<lparr>lr_ContentHash := []\<rparr>)) = json (canonicalOf (b\<lparr>lr_ContentHash := []\<rparr>))
      \<Longrightarrow> canonicalOf (a\<lparr>lr_ContentHash := []\<rparr>) = canonicalOf (b\<lparr>lr_ContentHash := []\<rparr>)"
  shows "statesTheSame a b"
proof -
  obtain x y where xy: "json (canonicalOf (a\<lparr>lr_ContentHash := []\<rparr>)) = Some x"
      "json (canonicalOf (b\<lparr>lr_ContentHash := []\<rparr>)) = Some y" "EncodeToString (H x) = EncodeToString (H y)"
    using Verify_hash [OF assms(1)] Verify_hash [OF assms(2)] assms(3) by auto
  from collide [OF xy(1,2) EncodeToString_inj [OF xy(3)]] xy
  have "canonicalOf (a\<lparr>lr_ContentHash := []\<rparr>) = canonicalOf (b\<lparr>lr_ContentHash := []\<rparr>)" by (intro encoder) simp
  from canonical_states [OF this] show ?thesis by (simp add: statesTheSame_def)
qed

definition exampleJSON :: "canonicalLicenseRecord \<Rightarrow> string option" where
  "exampleJSON c = Some (cl_PrimarySPDX c)"

definition exampleHash :: "string \<Rightarrow> string" where
  "exampleHash s = s"

lemma seal_covers_the_record_witness:
  "statesTheSame (exampleLicenseRecord\<lparr>lr_ContentHash := ''sha256:4f464c2d312e31''\<rparr>)
     (exampleLicenseRecord\<lparr>lr_ContentHash := ''sha256:4f464c2d312e31'', lr_PackageLicenses := []\<rparr>)
   \<and> VerifyContentHash exampleJSON exampleHash (exampleLicenseRecord\<lparr>lr_ContentHash := ''sha256:4f464c2d312e31''\<rparr>) = None"
proof -
  have e: "''sha256:'' @ EncodeToString ''OFL-1.1'' = ''sha256:4f464c2d312e31''" by code_simp
  have v: "VerifyContentHash exampleJSON exampleHash (exampleLicenseRecord\<lparr>lr_ContentHash := ''sha256:4f464c2d312e31''\<rparr>) = None"
    "VerifyContentHash exampleJSON exampleHash
       (exampleLicenseRecord\<lparr>lr_ContentHash := ''sha256:4f464c2d312e31'', lr_PackageLicenses := []\<rparr>) = None"
    using e by (simp_all add: VerifyContentHash_def marshalCanonicalLicense_def exampleJSON_def exampleHash_def
        canonicalOf_def exampleLicenseRecord_def)
  have "statesTheSame (exampleLicenseRecord\<lparr>lr_ContentHash := ''sha256:4f464c2d312e31''\<rparr>)
     (exampleLicenseRecord\<lparr>lr_ContentHash := ''sha256:4f464c2d312e31'', lr_PackageLicenses := []\<rparr>)"
    by (rule seal_covers_the_record [OF v]) (simp_all add: canonicalOf_def exampleJSON_def exampleHash_def)
  with v show ?thesis by blast
qed

subsection \<open>Arrangements\<close>

lemma insert_by_map: "(\<And>x y. lt (f x) (f y) = lt x y) \<Longrightarrow> insert_by lt (f x) (map f xs) = map f (insert_by lt x xs)"
  by (induction xs) auto

lemma stable_sort_map: "(\<And>x y. lt (f x) (f y) = lt x y) \<Longrightarrow> stable_sort lt (map f xs) = map f (stable_sort lt xs)"
  by (induction xs) (auto simp: insert_by_map)

definition uncovered :: "LicenseFileEntry \<Rightarrow> LicenseFileEntry" where
  "uncovered f = f\<lparr>le_Coverage := CoverageNotDetermined\<rparr>"

lemma canonicalFile_uncovered [simp]: "canonicalFile (uncovered f) = canonicalFile f"
  by (simp add: canonicalFile_def uncovered_def)

lemma sortLicenseFiles_uncovered: "sortLicenseFiles (map uncovered fs) = map uncovered (sortLicenseFiles fs)"
proof -
  have "map sortEntryLists (map uncovered fs) = map uncovered (map sortEntryLists fs)"
    by (simp add: sortEntryLists_def uncovered_def)
  moreover have "LicenseFileEntryLess (uncovered x) (uncovered y) = LicenseFileEntryLess x y" for x y
    by (simp add: LicenseFileEntryLess_def uncovered_def)
  ultimately show ?thesis unfolding sortLicenseFiles_def sortSlice_def by (simp only: stable_sort_map)
qed

text \<open>
  One record described twice: the files in any order and each file's lists in any order, the signals
  and the bundled identifiers in any order, and the coverage, effective set and package licences, which
  are derived, whatever they are.
\<close>

definition rearranged :: "LicenseRecord \<Rightarrow> LicenseRecord \<Rightarrow> bool" where
  "rearranged r s \<longleftrightarrow>
     (\<exists>fs. mset (map uncovered (lr_LicenseFiles r)) = mset fs
        \<and> list_all2 sameFileContents fs (map uncovered (lr_LicenseFiles s)))
     \<and> mset (ps_Signals (lr_Provenance r)) = mset (ps_Signals (lr_Provenance s))
     \<and> mset (lr_BundledSPDXs r) = mset (lr_BundledSPDXs s)
     \<and> s = r\<lparr>lr_LicenseFiles := lr_LicenseFiles s, lr_BundledSPDXs := lr_BundledSPDXs s,
            lr_EffectiveSet := lr_EffectiveSet s, lr_PackageLicenses := lr_PackageLicenses s,
            lr_Provenance := (lr_Provenance r)\<lparr>ps_Signals := ps_Signals (lr_Provenance s)\<rparr>\<rparr>"

lemma canonicalOf_rearranged:
  assumes "rearranged r s"
  shows "canonicalOf r = canonicalOf s"
proof -
  obtain fs where fs: "mset (map uncovered (lr_LicenseFiles r)) = mset fs"
      "list_all2 sameFileContents fs (map uncovered (lr_LicenseFiles s))"
    using assms unfolding rearranged_def by blast
  have "sortLicenseFiles (map uncovered (lr_LicenseFiles r)) = sortLicenseFiles (map uncovered (lr_LicenseFiles s))"
    by (rule sortLicenseFiles_same [OF fs]) (simp add: uncovered_def)
  then have "map (canonicalFile \<circ> uncovered) (sortLicenseFiles (lr_LicenseFiles r))
      = map (canonicalFile \<circ> uncovered) (sortLicenseFiles (lr_LicenseFiles s))"
    unfolding sortLicenseFiles_uncovered by (metis map_map)
  then have files: "map canonicalFile (sortLicenseFiles (lr_LicenseFiles r)) = map canonicalFile (sortLicenseFiles (lr_LicenseFiles s))"
    by (simp add: comp_def)
  have sig: "sort (map signal_int (ps_Signals (lr_Provenance r))) = sort (map signal_int (ps_Signals (lr_Provenance s)))"
    "sort (lr_BundledSPDXs r) = sort (lr_BundledSPDXs s)"
    using assms unfolding rearranged_def by (metis mset_map sorted_list_of_multiset_mset)+
  obtain fl bs es pl sg where s: "s = r\<lparr>lr_LicenseFiles := fl, lr_BundledSPDXs := bs, lr_EffectiveSet := es,
      lr_PackageLicenses := pl, lr_Provenance := (lr_Provenance r)\<lparr>ps_Signals := sg\<rparr>\<rparr>"
    using assms unfolding rearranged_def by blast
  show ?thesis using files sig unfolding s by (simp add: canonicalOf_def)
qed

text \<open>The seal is of the contents and not of their arrangement.\<close>

theorem seal_ignores_arrangement:
  assumes "rearranged r s"
  shows "map_sum id lr_ContentHash (SetContentHash json H r) = map_sum id lr_ContentHash (SetContentHash json H s)
    \<and> (VerifyContentHash json H r = None \<longleftrightarrow> VerifyContentHash json H s = None)"
proof -
  have c: "canonicalOf (r\<lparr>lr_ContentHash := []\<rparr>) = canonicalOf (s\<lparr>lr_ContentHash := []\<rparr>)"
    using canonicalOf_rearranged [OF assms] by (simp add: canonicalOf_hash)
  obtain fl bs es pl pv where s: "s = r\<lparr>lr_LicenseFiles := fl, lr_BundledSPDXs := bs, lr_EffectiveSet := es,
      lr_PackageLicenses := pl, lr_Provenance := pv\<rparr>"
    using assms unfolding rearranged_def by blast
  have "lr_ContentHash s = lr_ContentHash r" unfolding s by simp
  with c show ?thesis
    by (simp add: SetContentHash_def VerifyContentHash_def marshalCanonicalLicense_def Let_def split: option.split)
qed

lemma seal_ignores_arrangement_witness:
  "map_sum id lr_ContentHash (SetContentHash exampleJSON exampleHash exampleLicenseRecord)
     = map_sum id lr_ContentHash (SetContentHash exampleJSON exampleHash
         (exampleLicenseRecord\<lparr>lr_LicenseFiles := rev (lr_LicenseFiles exampleLicenseRecord)\<rparr>))"
proof -
  have "rearranged exampleLicenseRecord (exampleLicenseRecord\<lparr>lr_LicenseFiles := rev (lr_LicenseFiles exampleLicenseRecord)\<rparr>)"
    unfolding rearranged_def
    by (intro conjI exI [of _ "map uncovered (rev (lr_LicenseFiles exampleLicenseRecord))"])
      (simp_all add: exampleLicenseRecord_def list_all2_same sameFileContents_def)
  from seal_ignores_arrangement [OF this] show ?thesis by blast
qed

end
