(* ===== verification/License_Diff.thy ===== *)
theory License_Diff
  imports License_Coverage License_Compat
begin

text \<open>
  The difference of two licence records (\<open>internal/license/domain/diff.go\<close>).  Both sides are read
  through what their licences cover.  A Go map of copyright lines is a function with the list of its
  keys; the lines it yields are sorted by a total order, so the order of the range does not matter.
\<close>

record SPDXChange =
  sx_From :: string
  sx_To :: string

record StatusChange =
  st_From :: LicenseStatus
  st_To :: LicenseStatus

record LicenseEscalation =
  ls_From :: CopyleftStrength
  ls_To :: CopyleftStrength

record LicenseDiff =
  ld_RecordA :: LicenseRecord
  ld_RecordB :: LicenseRecord
  ld_SPDXChanged :: "SPDXChange option"
  ld_StatusChanged :: "StatusChange option"
  ld_FilesAdded :: "LicenseFileEntry list"
  ld_FilesRemoved :: "LicenseFileEntry list"
  ld_CopyrightAdded :: "CopyrightStatement list"
  ld_CopyrightRemoved :: "CopyrightStatement list"
  ld_Escalation :: "LicenseEscalation option"
  ld_CoverageA :: CoverageReading
  ld_CoverageB :: CoverageReading

definition HasChanges :: "LicenseDiff \<Rightarrow> bool" where
  "HasChanges d =
     (ld_SPDXChanged d \<noteq> None \<or> ld_StatusChanged d \<noteq> None \<or> length (ld_FilesAdded d) > 0
      \<or> length (ld_FilesRemoved d) > 0 \<or> length (ld_CopyrightAdded d) > 0 \<or> length (ld_CopyrightRemoved d) > 0)"

definition newFiles :: "LicenseFileEntry list \<Rightarrow> LicenseFileEntry list \<Rightarrow> LicenseFileEntry list" where
  "newFiles known files = sortSlice (filter (\<lambda>f. le_Path f \<notin> le_Path ` set known) files) LicenseFileEntryLess"

definition diffFiles ::
  "LicenseFileEntry list \<Rightarrow> LicenseFileEntry list \<Rightarrow> LicenseFileEntry list \<times> LicenseFileEntry list" where
  "diffFiles filesA filesB = (newFiles filesA filesB, newFiles filesB filesA)"

definition statementsOf :: "LicenseFileEntry list \<Rightarrow> CopyrightStatement list" where
  "statementsOf files = concat (map le_CopyrightStatements files)"

definition collectCopyright :: "LicenseFileEntry list \<Rightarrow> (string \<Rightarrow> CopyrightStatement option)" where
  "collectCopyright files = foldl (\<lambda>m s. m(cs_Verbatim s \<mapsto> s)) (\<lambda>v. None) (statementsOf files)"

definition newStatements :: "LicenseFileEntry list \<Rightarrow> LicenseFileEntry list \<Rightarrow> CopyrightStatement list" where
  "newStatements known files =
     sortSlice
       (map (\<lambda>v. the (collectCopyright files v))
         (filter (\<lambda>v. collectCopyright known v = None) (sorted_distinct (map cs_Verbatim (statementsOf files)))))
       CopyrightStatementLess"

definition diffCopyright ::
  "LicenseFileEntry list \<Rightarrow> LicenseFileEntry list \<Rightarrow> CopyrightStatement list \<times> CopyrightStatement list" where
  "diffCopyright filesA filesB = (newStatements filesA filesB, newStatements filesB filesA)"

definition escalation :: "string \<Rightarrow> string \<Rightarrow> LicenseEscalation option" where
  "escalation spdxA spdxB =
     (case CopyleftStrengthOf spdxA of
        None \<Rightarrow> None
      | Some strengthA \<Rightarrow>
          (case CopyleftStrengthOf spdxB of
             None \<Rightarrow> None
           | Some strengthB \<Rightarrow>
               if strengthA = CopyleftNone \<and> strengthB \<noteq> CopyleftNone
               then Some \<lparr>ls_From = strengthA, ls_To = strengthB\<rparr> else None))"

definition DiffRecords :: "LicenseRecord \<Rightarrow> LicenseRecord \<Rightarrow> LicenseDiff" where
  "DiffRecords a b =
     (let covA = ReadCoverage a; covB = ReadCoverage b;
          changed = cv_PrimarySPDX covA \<noteq> cv_PrimarySPDX covB;
          files = diffFiles (lr_LicenseFiles a) (lr_LicenseFiles b);
          lines = diffCopyright (lr_LicenseFiles a) (lr_LicenseFiles b)
      in \<lparr>ld_RecordA = a, ld_RecordB = b,
          ld_SPDXChanged = (if changed then Some \<lparr>sx_From = cv_PrimarySPDX covA, sx_To = cv_PrimarySPDX covB\<rparr> else None),
          ld_StatusChanged = (if lr_OverallStatus a \<noteq> lr_OverallStatus b
            then Some \<lparr>st_From = lr_OverallStatus a, st_To = lr_OverallStatus b\<rparr> else None),
          ld_FilesAdded = fst files, ld_FilesRemoved = snd files,
          ld_CopyrightAdded = fst lines, ld_CopyrightRemoved = snd lines,
          ld_Escalation = (if changed then escalation (cv_PrimarySPDX covA) (cv_PrimarySPDX covB) else None),
          ld_CoverageA = covA, ld_CoverageB = covB\<rparr>)"

subsection \<open>What the difference says\<close>

lemma set_newFiles: "set (newFiles known files) = {f \<in> set files. le_Path f \<notin> le_Path ` set known}"
  by (auto simp: newFiles_def sortSlice_def)

lemma foldl_update:
  "foldl (\<lambda>m s. m(k s \<mapsto> s)) m xs v = (case find (\<lambda>s. k s = v) (rev xs) of Some s \<Rightarrow> Some s | None \<Rightarrow> m v)"
  by (induction xs arbitrary: m rule: rev_induct) auto

lemma collectCopyright_at: "collectCopyright files v = find (\<lambda>s. cs_Verbatim s = v) (rev (statementsOf files))"
  by (simp add: collectCopyright_def foldl_update split: option.split)

lemma collectCopyright_None: "collectCopyright files v = None \<longleftrightarrow> v \<notin> cs_Verbatim ` set (statementsOf files)"
  by (auto simp: collectCopyright_at find_None_iff)

lemma collectCopyright_Some:
  assumes "collectCopyright files v = Some s"
  shows "s \<in> set (statementsOf files)" "cs_Verbatim s = v"
  using assms find_Some_iff [of "\<lambda>s. cs_Verbatim s = v" "rev (statementsOf files)" s]
  by (auto simp: collectCopyright_at) (metis nth_mem length_rev set_rev)

lemma newStatements_verbatim:
  "cs_Verbatim ` set (newStatements known files)
     = cs_Verbatim ` set (statementsOf files) - cs_Verbatim ` set (statementsOf known)"
proof -
  have "cs_Verbatim (the (collectCopyright files v)) = v" if "v \<in> cs_Verbatim ` set (statementsOf files)" for v
    using that collectCopyright_None [of files v] collectCopyright_Some(2) [of files v] by force
  then show ?thesis by (force simp: newStatements_def sortSlice_def collectCopyright_None image_iff)
qed

lemma newStatements_in: "set (newStatements known files) \<subseteq> set (statementsOf files)"
proof
  fix s assume "s \<in> set (newStatements known files)"
  then obtain v where v: "s = the (collectCopyright files v)" "v \<in> cs_Verbatim ` set (statementsOf files)"
    by (auto simp: newStatements_def sortSlice_def)
  then obtain t where "collectCopyright files v = Some t" using collectCopyright_None by blast
  with v(1) show "s \<in> set (statementsOf files)" using collectCopyright_Some(1) by auto
qed

lemma newStatements_once: "distinct (map cs_Verbatim (newStatements known files))"
proof -
  let ?vs = "filter (\<lambda>v. collectCopyright known v = None) (sorted_distinct (map cs_Verbatim (statementsOf files)))"
  have "cs_Verbatim (the (collectCopyright files v)) = v" if "v \<in> set ?vs" for v
    using that collectCopyright_None [of files v] collectCopyright_Some(2) [of files v] by force
  then have "map cs_Verbatim (map (\<lambda>v. the (collectCopyright files v)) ?vs) = ?vs" unfolding map_map by (intro map_idI) (simp only: comp_apply)
  moreover have "mset (map cs_Verbatim (newStatements known files))
      = mset (map cs_Verbatim (map (\<lambda>v. the (collectCopyright files v)) ?vs))"
    unfolding newStatements_def sortSlice_def mset_map mset_stable_sort ..
  moreover have "distinct ?vs" by simp
  ultimately show ?thesis by (metis mset_eq_imp_distinct_iff)
qed

text \<open>
  The difference accounts for both records: the files added are those of the second record at paths
  the first does not have, the copyright lines added those whose text it does not have, each line once;
  the difference the other way round swaps added and removed; the licence changed exactly when the
  licences covering the code differ; and a record does not differ from itself.
\<close>

theorem license_diff_accounts:
  "set (ld_FilesAdded (DiffRecords a b)) = {f \<in> set (lr_LicenseFiles b). le_Path f \<notin> le_Path ` set (lr_LicenseFiles a)}
   \<and> set (ld_CopyrightAdded (DiffRecords a b)) \<subseteq> set (statementsOf (lr_LicenseFiles b))
   \<and> cs_Verbatim ` set (ld_CopyrightAdded (DiffRecords a b))
       = cs_Verbatim ` set (statementsOf (lr_LicenseFiles b)) - cs_Verbatim ` set (statementsOf (lr_LicenseFiles a))
   \<and> distinct (map cs_Verbatim (ld_CopyrightAdded (DiffRecords a b)))
   \<and> ld_FilesRemoved (DiffRecords a b) = ld_FilesAdded (DiffRecords b a)
   \<and> ld_CopyrightRemoved (DiffRecords a b) = ld_CopyrightAdded (DiffRecords b a)
   \<and> (ld_SPDXChanged (DiffRecords a b) = None \<longleftrightarrow> cv_PrimarySPDX (ReadCoverage a) = cv_PrimarySPDX (ReadCoverage b))
   \<and> \<not> HasChanges (DiffRecords a a)"
proof -
  have p: "set (newFiles (lr_LicenseFiles a) (lr_LicenseFiles a)) = {}" by (auto simp: set_newFiles)
  have "cs_Verbatim ` set (newStatements (lr_LicenseFiles a) (lr_LicenseFiles a)) = {}"
    by (simp add: newStatements_verbatim)
  then have "newStatements (lr_LicenseFiles a) (lr_LicenseFiles a) = []" by simp
  with p have "\<not> HasChanges (DiffRecords a a)"
    by (simp add: HasChanges_def DiffRecords_def Let_def diffFiles_def diffCopyright_def)
  then show ?thesis
    using newStatements_in newStatements_once
    by (simp add: DiffRecords_def Let_def diffFiles_def diffCopyright_def set_newFiles newStatements_verbatim)
qed

text \<open>An escalation is reported exactly when the code's licence went from a permissive one to a copyleft one.\<close>

lemma escalation_iff:
  "ld_Escalation (DiffRecords a b) = Some e \<longleftrightarrow>
     CopyleftStrengthOf (cv_PrimarySPDX (ReadCoverage a)) = Some CopyleftNone
     \<and> CopyleftStrengthOf (cv_PrimarySPDX (ReadCoverage b)) = Some (ls_To e)
     \<and> ls_To e \<noteq> CopyleftNone \<and> ls_From e = CopyleftNone"
  by (cases e) (auto simp: DiffRecords_def Let_def escalation_def split: option.splits)

end
