(* ===== verification/Go_Regexp.thy ===== *)
theory Go_Regexp
  imports Prelude
begin

text \<open>
  The part of Go's regexp package the program relies on. A pattern is run on a text by listing
  the ways it can match at the front, in the order the leftmost-first rule prefers them: a
  repetition tries one more round before it stops. The first way of the list is the match Go
  reports. A way consists of the text it used, the groups it captured and the text left over.
\<close>

section \<open>Patterns and the ways they match\<close>

datatype pattern =
    Lit string
  | Class "char \<Rightarrow> bool"
  | Seq pattern pattern
  | Star pattern
  | Group nat pattern
  | AtEnd

type_synonym way = "string \<times> (nat \<times> string) list \<times> string"

definition join_ways :: "way list \<Rightarrow> (string \<Rightarrow> way list) \<Rightarrow> way list" where
  "join_ways ws f = concat (map (\<lambda>(u, g, r). map (\<lambda>(v, h, t). (u @ v, g @ h, t)) (f r)) ws)"

text \<open>A round that uses no text is not repeated, so the length of the text bounds the rounds.\<close>

fun star_ways :: "(string \<Rightarrow> way list) \<Rightarrow> nat \<Rightarrow> string \<Rightarrow> way list" where
  "star_ways f 0 s = [([], [], s)]"
| "star_ways f (Suc n) s =
     join_ways (filter (\<lambda>w. fst w \<noteq> []) (f s)) (star_ways f n) @ [([], [], s)]"

primrec ways :: "pattern \<Rightarrow> string \<Rightarrow> way list" where
  "ways (Lit w) = (\<lambda>s. if HasPrefix s w then [(w, [], drop (length w) s)] else [])"
| "ways (Class ok) = (\<lambda>s. case s of [] \<Rightarrow> [] | c # r \<Rightarrow> if ok c then [([c], [], r)] else [])"
| "ways (Seq a b) = (\<lambda>s. join_ways (ways a s) (ways b))"
| "ways (Star a) = (\<lambda>s. star_ways (ways a) (length s) s)"
| "ways (Group n a) = (\<lambda>s. map (\<lambda>(u, g, r). (u, g @ [(n, u)], r)) (ways a s))"
| "ways AtEnd = (\<lambda>s. if s = [] then [([], [], [])] else [])"

text \<open>One or more, and a pattern given as the list of its parts.\<close>

definition Plus :: "pattern \<Rightarrow> pattern" where
  "Plus a = Seq a (Star a)"

fun Parts :: "pattern list \<Rightarrow> pattern" where
  "Parts [] = Lit []"
| "Parts [p] = p"
| "Parts (p # ps) = Seq p (Parts ps)"

section \<open>Searching\<close>

definition front :: "pattern \<Rightarrow> string \<Rightarrow> way option" where
  "front p s = (case ways p s of [] \<Rightarrow> None | w # _ \<Rightarrow> Some w)"

text \<open>What group \<open>n\<close> captured last; a group that took no part captured nothing.\<close>

definition captured :: "(nat \<times> string) list \<Rightarrow> nat \<Rightarrow> string" where
  "captured g n = (case map_of (rev g) n of None \<Rightarrow> [] | Some u \<Rightarrow> u)"

fun FindSubmatch :: "pattern \<Rightarrow> string \<Rightarrow> (nat \<times> string) list option" where
  "FindSubmatch p s = (case front p s of
     Some (u, g, r) \<Rightarrow> Some g
   | None \<Rightarrow> (case s of [] \<Rightarrow> None | c # t \<Rightarrow> FindSubmatch p t))"

text \<open>
  All matches from the left, each after the text of the one before. A match that uses no text
  moves the search on by one character.
\<close>

function FindAllSubmatch :: "pattern \<Rightarrow> string \<Rightarrow> (nat \<times> string) list list" where
  "FindAllSubmatch p s = (case front p s of
     Some (u, g, r) \<Rightarrow>
       if length r < length s then g # FindAllSubmatch p r
       else g # (case s of [] \<Rightarrow> [] | c # t \<Rightarrow> FindAllSubmatch p t)
   | None \<Rightarrow> (case s of [] \<Rightarrow> [] | c # t \<Rightarrow> FindAllSubmatch p t))"
  by pat_completeness auto
termination by (relation "measure (\<lambda>(p, s). length s)") auto

declare FindSubmatch.simps [simp del] FindAllSubmatch.simps [simp del]

section \<open>The ways of a pattern\<close>

definition splits :: "way list \<Rightarrow> string \<Rightarrow> bool" where
  "splits ws s \<longleftrightarrow> (\<forall>(u, g, r) \<in> set ws. s = u @ r)"

lemma splits_join:
  assumes "splits ws s" "\<And>r. splits (f r) r"
  shows "splits (join_ways ws f) s"
  using assms by (fastforce simp: splits_def join_ways_def)

lemma splits_star: "(\<And>r. splits (f r) r) \<Longrightarrow> splits (star_ways f n s) s"
proof (induction n arbitrary: s)
  case (Suc n)
  have "splits (filter (\<lambda>w. fst w \<noteq> []) (f s)) s" using Suc.prems by (auto simp: splits_def)
  from splits_join [OF this Suc.IH [OF Suc.prems]] show ?case by (auto simp: splits_def)
qed (simp add: splits_def)

text \<open>Every way takes a prefix of the text and leaves the rest.\<close>

lemma splits_ways: "splits (ways p s) s"
proof (induction p arbitrary: s)
  case (Seq a b)
  then show ?case by (simp add: splits_join)
next
  case (Star a)
  then show ?case by (simp add: splits_star)
next
  case (Group n a)
  from Group [of s] show ?case by (fastforce simp: splits_def)
qed (auto simp: splits_def HasPrefix_def split: list.splits elim!: prefixE)

lemma front_split: "front p s = Some (u, g, r) \<Longrightarrow> s = u @ r"
  using splits_ways [of p s] by (auto simp: front_def splits_def split: list.splits)

text \<open>More rounds than the text has characters change nothing.\<close>

lemma join_ways_cong:
  "(\<And>u g r. (u, g, r) \<in> set ws \<Longrightarrow> f r = f' r) \<Longrightarrow> join_ways ws f = join_ways ws f'"
  by (auto simp: join_ways_def intro!: arg_cong [of _ _ concat] map_cong)

lemma star_rounds_enough:
  assumes f: "\<And>r. splits (f r) r" and "length s \<le> n"
  shows "star_ways f n s = star_ways f (length s) s"
proof -
  have "star_ways f n s = star_ways f m s" if "length s \<le> n" "length s \<le> m" for n m s
    using that
  proof (induction n arbitrary: s m)
    case 0
    then have "f [] = [] \<or> (\<forall>w \<in> set (f []). fst w = [])"
      using f [of "[]"] by (auto simp: splits_def)
    with 0 show ?case by (cases m) (auto simp: join_ways_def filter_empty_conv)
  next
    case (Suc n)
    show ?case
    proof (cases m)
      case 0
      with Suc have "s = []" by simp
      with f [of "[]"] 0 show ?thesis by (auto simp: splits_def join_ways_def filter_empty_conv)
    next
      case (Suc k)
      have "star_ways f n r = star_ways f k r"
        if "(u, g, r) \<in> set (filter (\<lambda>w. fst w \<noteq> []) (f s))" for u g r
      proof -
        from that f [of s] have "length r < length s" by (auto simp: splits_def)
        with Suc.prems Suc show ?thesis by (intro Suc.IH) auto
      qed
      then show ?thesis unfolding Suc by (auto intro: join_ways_cong)
    qed
  qed
  from this [OF assms(2) order_refl] show ?thesis .
qed

section \<open>The way that is preferred\<close>

lemma front_Lit [simp]: "front (Lit w) (w @ s) = Some (w, [], s)"
  by (simp add: front_def)

lemma front_Seq:
  assumes "front a s = Some (u, g, r)" "front b r = Some (v, h, t)"
  shows "front (Seq a b) s = Some (u @ v, g @ h, t)"
  using assms by (auto simp: front_def join_ways_def split: list.splits)

lemma front_Group: "front a s = Some (u, g, r) \<Longrightarrow> front (Group n a) s = Some (u, g @ [(n, u)], r)"
  by (auto simp: front_def split: list.splits)

lemma front_Class: "ok c \<Longrightarrow> front (Class ok) (c # s) = Some ([c], [], s)"
  by (simp add: front_def)

lemma front_Star_stop: "ways a s = [] \<Longrightarrow> front (Star a) s = Some ([], [], s)"
  by (cases s) (simp_all add: front_def join_ways_def)

lemma front_Star_more:
  assumes "front a s = Some (u, g, r)" "u \<noteq> []" "front (Star a) r = Some (v, h, t)"
  shows "front (Star a) s = Some (u @ v, g @ h, t)"
proof -
  have s: "s = u @ r" by (rule front_split [OF assms(1)])
  then obtain n where n: "length s = Suc n" "length r \<le> n" using assms(2) by (cases u) auto
  obtain ws where ws: "ways a s = (u, g, r) # ws"
    using assms(1) by (auto simp: front_def split: list.splits)
  have "star_ways (ways a) n r = star_ways (ways a) (length r) r"
    by (rule star_rounds_enough) (auto simp: splits_ways n)
  then show ?thesis
    using assms(2,3) by (auto simp: front_def n ws join_ways_def split: list.splits)
qed

lemma front_Star_Class:
  assumes "\<forall>c \<in> set w. ok c" "s = [] \<or> \<not> ok (hd s)"
  shows "front (Star (Class ok)) (w @ s) = Some (w, [], s)"
  using assms(1)
proof (induction w)
  case Nil
  have "ways (Class ok) s = []" using assms(2) by (cases s) auto
  then show ?case by (simp add: front_Star_stop)
next
  case (Cons c w)
  then have "front (Class ok) (c # w @ s) = Some ([c], [], w @ s)" by (simp add: front_Class)
  from front_Star_more [OF this _ Cons.IH] Cons.prems show ?case by simp
qed

text \<open>A pattern that starts with a literal finds nothing in a text without its characters.\<close>

lemma no_literal:
  assumes "c \<in> set w" "c \<notin> set s"
  shows "ways (Seq (Lit w) p) s = []"
proof -
  have "\<not> HasPrefix s w" using assms by (auto simp: HasPrefix_def elim!: prefixE)
  then show ?thesis by (simp add: join_ways_def)
qed

lemma FindAll_no_literal:
  assumes "c \<in> set w" "c \<notin> set s"
  shows "FindAllSubmatch (Seq (Lit w) p) s = []"
  using assms(2)
proof (induction s)
  case Nil
  show ?case by (subst FindAllSubmatch.simps) (use no_literal [OF assms(1), of "[]"] in \<open>simp add: front_def\<close>)
next
  case (Cons a s)
  show ?case
    by (subst FindAllSubmatch.simps) (use no_literal [OF assms(1) Cons.prems] Cons in \<open>simp add: front_def\<close>)
qed

text \<open>What a way of a sequence and of a repeated class is made of.\<close>

lemma ways_SeqE:
  assumes "(u, g, r) \<in> set (ways (Seq a b) s)"
  obtains x h m y k where "u = x @ y" "g = h @ k" "(x, h, m) \<in> set (ways a s)" "(y, k, r) \<in> set (ways b m)"
  using assms by (fastforce simp: join_ways_def)

lemma ways_Star_Class: "(u, g, r) \<in> set (ways (Star (Class ok)) s) \<Longrightarrow> g = [] \<and> (\<forall>c \<in> set u. ok c)"
proof -
  have "(u, g, r) \<in> set (star_ways (ways (Class ok)) n s) \<Longrightarrow> g = [] \<and> (\<forall>c \<in> set u. ok c)" for n
    by (induction n arbitrary: u g s) (fastforce simp: join_ways_def split: list.splits if_splits)+
  then show "(u, g, r) \<in> set (ways (Star (Class ok)) s) \<Longrightarrow> g = [] \<and> (\<forall>c \<in> set u. ok c)" by simp
qed

lemma ways_Class: "(u, g, r) \<in> set (ways (Class ok) s) \<longleftrightarrow> (\<exists>c. ok c \<and> u = [c] \<and> g = [] \<and> s = c # r)"
  by (auto split: list.splits)

lemma ways_Lit: "(u, g, r) \<in> set (ways (Lit w) s) \<longleftrightarrow> u = w \<and> g = [] \<and> s = w @ r"
  by (auto simp: HasPrefix_def elim!: prefixE)

lemma front_way: "front p s = Some w \<Longrightarrow> w \<in> set (ways p s)"
  by (auto simp: front_def split: list.splits)

lemma FindSubmatch_way:
  assumes "FindSubmatch p s = Some g"
  shows "\<exists>u r t. (u, g, r) \<in> set (ways p t)"
  using assms
proof (induction s)
  case Nil
  then show ?case
    by (cases "front p []") (auto simp: FindSubmatch.simps [of p "[]"] dest: front_way)
next
  case (Cons c s)
  then show ?case
    by (cases "front p (c # s)") (auto simp: FindSubmatch.simps [of p "c # s"] dest: front_way)
qed

end
