(* ===== verification/Go_Toolchain.thy ===== *)
theory Go_Toolchain
  imports Go_Regexp Go_Strings
begin

text \<open>
  Package gotoolchain: the Go toolchain a record names, and the limit an analysing binary meets
  when the source is newer than the Go it was built with. The patterns are Go's, run by the
  leftmost-first matcher; go/version of the standard library is modelled here too. The Go the
  binary was built with is a variable of the package and an argument here.
\<close>

section \<open>go/version\<close>

record gover =
  gv_Major :: string
  gv_Minor :: string
  gv_Patch :: string
  gv_Kind :: string
  gv_Pre :: string

definition gover_zero :: gover where
  "gover_zero = \<lparr>gv_Major = [], gv_Minor = [], gv_Patch = [], gv_Kind = [], gv_Pre = []\<rparr>"

definition is_digit :: "char \<Rightarrow> bool" where
  "is_digit c \<longleftrightarrow> CHR ''0'' \<le> c \<and> c \<le> CHR ''9''"

definition is_lower :: "char \<Rightarrow> bool" where
  "is_lower c \<longleftrightarrow> CHR ''a'' \<le> c \<and> c \<le> CHR ''z''"

text \<open>A leading decimal without a leading zero, and the rest.\<close>

definition cutInt :: "string \<Rightarrow> (string \<times> string) option" where
  "cutInt x = (let n = takeWhile is_digit x in
     if n = [] \<or> hd n = CHR ''0'' \<and> length n \<noteq> 1 then None else Some (n, dropWhile is_digit x))"

definition CmpInt :: "string \<Rightarrow> string \<Rightarrow> int" where
  "CmpInt x y = (if x = y then 0
     else if length x < length y then -1
     else if length y < length x then 1
     else if x < y then -1 else 1)"

definition parsePre :: "gover \<Rightarrow> string \<Rightarrow> gover" where
  "parsePre v x = (let k = takeWhile (\<lambda>c. \<not> is_digit c) x; r = dropWhile (\<lambda>c. \<not> is_digit c) x in
     if k = [] \<or> \<not> list_all is_lower k then gover_zero
     else if r = [] then v\<lparr>gv_Kind := k\<rparr>
     else (case cutInt r of
         Some (n, []) \<Rightarrow> v\<lparr>gv_Kind := k, gv_Pre := n\<rparr>
       | _ \<Rightarrow> gover_zero))"

definition parsePatch :: "gover \<Rightarrow> string \<Rightarrow> gover" where
  "parsePatch v x = (case x of
       [] \<Rightarrow> if CmpInt (gv_Minor v) ''21'' < 0 then v\<lparr>gv_Patch := ''0''\<rparr> else v
     | c # r \<Rightarrow>
         if c = CHR ''.'' then
           (case cutInt r of Some (n, []) \<Rightarrow> v\<lparr>gv_Patch := n\<rparr> | _ \<Rightarrow> gover_zero)
         else parsePre v x)"

definition gover_Parse :: "string \<Rightarrow> gover" where
  "gover_Parse x = (case cutInt x of
       None \<Rightarrow> gover_zero
     | Some (m, []) \<Rightarrow> gover_zero\<lparr>gv_Major := m, gv_Minor := ''0'', gv_Patch := ''0''\<rparr>
     | Some (m, c # r) \<Rightarrow>
         if c \<noteq> CHR ''.'' then gover_zero
         else (case cutInt r of
             None \<Rightarrow> gover_zero
           | Some (n, t) \<Rightarrow> parsePatch (gover_zero\<lparr>gv_Major := m, gv_Minor := n\<rparr>) t))"

definition stripGo :: "string \<Rightarrow> string" where
  "stripGo v = (let w = fst (Cut v (CHR ''-'')) in if HasPrefix w ''go'' then drop 2 w else [])"

definition thenInt :: "int \<Rightarrow> int \<Rightarrow> int" where
  "thenInt a b = (if a \<noteq> 0 then a else b)"

definition version_Compare :: "string \<Rightarrow> string \<Rightarrow> int" where
  "version_Compare x y = (let a = gover_Parse (stripGo x); b = gover_Parse (stripGo y) in
     thenInt (CmpInt (gv_Major a) (gv_Major b))
      (thenInt (CmpInt (gv_Minor a) (gv_Minor b))
        (thenInt (CmpInt (gv_Patch a) (gv_Patch b))
          (thenInt (Compare (gv_Kind a) (gv_Kind b)) (CmpInt (gv_Pre a) (gv_Pre b))))))"

definition version_IsValid :: "string \<Rightarrow> bool" where
  "version_IsValid x \<longleftrightarrow> gover_Parse (stripGo x) \<noteq> gover_zero"

section \<open>The toolchain of a record\<close>

type_synonym toolchain_version = string

definition Unrecorded :: toolchain_version where
  "Unrecorded = []"

definition Recorded :: "toolchain_version \<Rightarrow> bool" where
  "Recorded v \<longleftrightarrow> v \<noteq> Unrecorded"

definition version_String :: "toolchain_version \<Rightarrow> string" where
  "version_String v = (if v = Unrecorded then ''not recorded'' else v)"

definition version_char :: "char \<Rightarrow> bool" where
  "version_char c \<longleftrightarrow> is_digit c \<or> is_lower c \<or> c = CHR ''.''"

text \<open>The pattern \<open>go[0-9][0-9a-z.]*\<close>, which both version patterns hold.\<close>

definition releaseForm :: pattern where
  "releaseForm = Seq (Lit ''go'') (Seq (Class is_digit) (Star (Class version_char)))"

definition versionForm :: pattern where
  "versionForm = Seq releaseForm AtEnd"

datatype version_error = NotAVersion string

definition ParseVersion :: "string \<Rightarrow> version_error + toolchain_version" where
  "ParseVersion s = (if front versionForm s = None then Inl (NotAVersion s) else Inr s)"

definition platform_char :: "char \<Rightarrow> bool" where
  "platform_char c \<longleftrightarrow> is_lower c \<or> is_digit c"

definition toolchainModuleRoot :: pattern where
  "toolchainModuleRoot = Parts
     [Lit ''golang.org/toolchain@v'', Plus (Class (\<lambda>c. is_digit c \<or> c = CHR ''.'')), Lit ''-'',
      Group 1 releaseForm, Lit ''.'', Plus (Class platform_char), Lit ''-'', Plus (Class platform_char), AtEnd]"

definition FromGOROOT :: "string \<Rightarrow> toolchain_version \<times> bool" where
  "FromGOROOT path = (case FindSubmatch toolchainModuleRoot (TrimSuffix path ''/'') of
     None \<Rightarrow> (Unrecorded, False)
   | Some g \<Rightarrow> (captured g 1, True))"

section \<open>The limit of the analysing binary\<close>

record AnalyserLimit =
  al_Required :: string
  al_Built :: string

definition noLimit :: AnalyserLimit where
  "noLimit = \<lparr>al_Required = [], al_Built = []\<rparr>"

text \<open>The pattern \<open>go[0-9]\<close> followed by characters outside a given set.\<close>

definition goUpTo :: "string \<Rightarrow> pattern" where
  "goUpTo stops = Seq (Lit ''go'') (Seq (Class is_digit) (Star (Class (\<lambda>c. c \<notin> set stops))))"

definition newerSourceRefusal :: pattern where
  "newerSourceRefusal = Seq (Lit ''package requires newer Go version '') (Parts
     [Group 1 (goUpTo '' )''), Lit '' (application built with '', Group 2 (goUpTo '' )''), Lit '')''])"

definition newerGoListWarning :: pattern where
  "newerGoListWarning = Seq (Lit ''This application uses version '') (Parts
     [Group 1 (goUpTo '' ''), Lit '' of the source-processing packages but runs version '',
      Group 2 (goUpTo '' ''), Lit ('' of '' @ [CHR 0x27] @ ''go list'' @ [CHR 0x27])])"

definition dottedNumber :: pattern where
  "dottedNumber = Seq (Lit ''.'') (Plus (Class is_digit))"

definition ownStatement :: pattern where
  "ownStatement = Seq (Lit ''this kanonarion cannot read this code: it was built with '') (Parts
     [Group 1 (goUpTo '' ''), Lit '' and the code requires '',
      Group 2 (Seq (goUpTo '' .'') (Star dottedNumber)), Lit ''.''])"

text \<open>The loop over the matches: a match is taken when none was before, or when it requires more.\<close>

definition readLimitStep ::
  "nat \<Rightarrow> nat \<Rightarrow> AnalyserLimit \<times> bool \<Rightarrow> (nat \<times> string) list \<Rightarrow> AnalyserLimit \<times> bool" where
  "readLimitStep req built st m =
     (if \<not> snd st \<or> 0 < version_Compare (captured m req) (al_Required (fst st))
      then (\<lparr>al_Required = captured m req, al_Built = captured m built\<rparr>, True)
      else st)"

definition readLimit ::
  "string \<Rightarrow> pattern \<Rightarrow> nat \<Rightarrow> nat \<Rightarrow> AnalyserLimit \<times> bool \<Rightarrow> AnalyserLimit \<times> bool" where
  "readLimit detail re req built st = foldl (readLimitStep req built) st (FindAllSubmatch re detail)"

definition ReadNewerSourceRefusal :: "string \<Rightarrow> AnalyserLimit \<times> bool" where
  "ReadNewerSourceRefusal detail = readLimit detail newerSourceRefusal 1 2 (noLimit, False)"

definition ReadAnalyserLimit :: "string \<Rightarrow> AnalyserLimit \<times> bool" where
  "ReadAnalyserLimit detail =
     readLimit detail ownStatement 2 1
       (readLimit detail newerGoListWarning 2 1 (ReadNewerSourceRefusal detail))"

definition ClearedBy :: "AnalyserLimit \<Rightarrow> string \<Rightarrow> bool" where
  "ClearedBy l goVersion \<longleftrightarrow> 0 \<le> version_Compare goVersion (al_Required l)"

definition Binds :: "string \<Rightarrow> AnalyserLimit \<Rightarrow> bool" where
  "Binds analysingGo l \<longleftrightarrow> \<not> ClearedBy l analysingGo"

definition MayPredateThisGo :: "string \<Rightarrow> toolchain_version \<Rightarrow> bool" where
  "MayPredateThisGo analysingGo v \<longleftrightarrow>
     version_IsValid analysingGo \<and> (\<not> Recorded v \<or> version_Compare v analysingGo < 0)"

definition limitOver :: "string \<Rightarrow> string \<Rightarrow> AnalyserLimit \<times> bool" where
  "limitOver directive built =
     (if directive = [] \<or> \<not> version_IsValid built then (noLimit, False)
      else let required = ''go'' @ TrimPrefix directive ''go'' in
        if \<not> version_IsValid required \<or> version_Compare required built \<le> 0 then (noLimit, False)
        else (\<lparr>al_Required = required, al_Built = built\<rparr>, True))"

definition LimitForDirective :: "string \<Rightarrow> string \<Rightarrow> AnalyserLimit \<times> bool" where
  "LimitForDirective analysingGo directive = limitOver directive analysingGo"

definition DirectiveNewerThan :: "string \<Rightarrow> string \<Rightarrow> bool" where
  "DirectiveNewerThan directive goVersion \<longleftrightarrow> snd (limitOver directive goVersion)"

definition Clause :: "AnalyserLimit \<Rightarrow> string" where
  "Clause l = ''the kanonarion that ran was built with '' @ al_Built l @ '' and the code requires '' @ al_Required l"

definition Statement_limit :: "AnalyserLimit \<Rightarrow> string" where
  "Statement_limit l = ''this kanonarion cannot read this code: it was built with '' @ al_Built l
     @ '' and the code requires '' @ al_Required l
     @ ''. It reads source with the Go compiled into the binary, so the go on PATH and GOTOOLCHAIN cannot change this; the source was not judged.''"

definition Remedy_limit :: "AnalyserLimit \<Rightarrow> string" where
  "Remedy_limit l = ''Use a kanonarion built with '' @ al_Required l @ '' or newer: a newer release, or ''
     @ ''`go install code.eitanity.com/kanonarion@latest` run with '' @ al_Required l @ '' or newer.''"

definition AnalyserLimitError :: "AnalyserLimit \<Rightarrow> string" where
  "AnalyserLimitError l = Statement_limit l @ '' '' @ Remedy_limit l"

section \<open>Source the binary could not read\<close>

record UnreadSource =
  us_Limit :: AnalyserLimit
  us_Files :: "string list"

definition NewUnreadSource :: "AnalyserLimit \<Rightarrow> string list \<Rightarrow> UnreadSource option" where
  "NewUnreadSource l files = (if files = [] then None else Some \<lparr>us_Limit = l, us_Files = sort files\<rparr>)"

definition plural_noun :: "nat \<Rightarrow> string \<Rightarrow> string" where
  "plural_noun n noun = (if n = 1 then ''1 '' @ noun else Itoa (int n) @ '' '' @ noun @ ''s'')"

definition unread_Summary :: "UnreadSource \<Rightarrow> string" where
  "unread_Summary u = ''not analysed: '' @ plural_noun (length (us_Files u)) ''file''
     @ '' ('' @ Join (us_Files u) '', '' @ ''): '' @ Clause (us_Limit u)"

section \<open>Reading a limit back\<close>

lemma front_goUpTo:
  assumes "is_digit d" "set w \<inter> set stops = {}" "s = [] \<or> hd s \<in> set stops"
  shows "front (goUpTo stops) (''go'' @ d # w @ s) = Some (''go'' @ d # w, [], s)"
proof -
  have "front (Star (Class (\<lambda>c. c \<notin> set stops))) (w @ s) = Some (w, [], s)"
    by (rule front_Star_Class) (use assms in auto)
  from front_Seq [OF front_Class [of is_digit, OF assms(1)] this]
  have "front (Seq (Class is_digit) (Star (Class (\<lambda>c. c \<notin> set stops)))) (d # w @ s) = Some (d # w, [], s)"
    by simp
  from front_Seq [OF front_Lit [of "''go''"] this] show ?thesis by (simp add: goUpTo_def)
qed

lemma front_dottedNumber:
  assumes "n \<noteq> []" "list_all is_digit n" "s = [] \<or> \<not> is_digit (hd s)"
  shows "front dottedNumber (CHR ''.'' # n @ s) = Some (CHR ''.'' # n, [], s)"
proof -
  obtain d m where n: "n = d # m" using assms(1) by (cases n) auto
  have "front (Star (Class is_digit)) (m @ s) = Some (m, [], s)"
    by (rule front_Star_Class) (use assms n in \<open>auto simp: list_all_iff\<close>)
  from front_Seq [OF front_Class [of is_digit d] this]
  have "front (Plus (Class is_digit)) (n @ s) = Some (n, [], s)"
    using assms(2) by (simp add: n Plus_def)
  from front_Seq [OF front_Lit [of "''.''"] this] show ?thesis by (simp add: dottedNumber_def)
qed

text \<open>The dotted numbers of a released version.\<close>

definition dotted :: "string list \<Rightarrow> string" where
  "dotted ns = concat (map (\<lambda>n. CHR ''.'' # n) ns)"

definition released :: "string \<Rightarrow> bool" where
  "released v \<longleftrightarrow> (\<exists>n ns. v = ''go'' @ n @ dotted ns
     \<and> (\<forall>m \<in> set (n # ns). m \<noteq> [] \<and> list_all is_digit m))"

lemma set_dotted: "c \<in> set (dotted ns) \<Longrightarrow> c = CHR ''.'' \<or> (\<exists>n \<in> set ns. c \<in> set n)"
  by (induction ns) (auto simp: dotted_def)

lemma hd_dotted: "hd (dotted ns @ ''. '' @ t) = CHR ''.''"
  by (cases ns) (auto simp: dotted_def)

lemma front_dotted:
  assumes "\<forall>m \<in> set ns. m \<noteq> [] \<and> list_all is_digit m"
  shows "front (Star dottedNumber) (dotted ns @ ''. '' @ t) = Some (dotted ns, [], ''. '' @ t)"
  using assms
proof (induction ns)
  case Nil
  have "ways dottedNumber (''. '' @ t) = []"
    by (simp add: dottedNumber_def Plus_def join_ways_def HasPrefix_def is_digit_def)
  then show ?case by (simp add: dotted_def front_Star_stop)
next
  case (Cons n ns)
  have "front dottedNumber (CHR ''.'' # n @ dotted ns @ ''. '' @ t)
      = Some (CHR ''.'' # n, [], dotted ns @ ''. '' @ t)"
    by (rule front_dottedNumber) (use Cons.prems in \<open>simp_all add: hd_dotted del: append_Cons, simp add: is_digit_def\<close>)
  from front_Star_more [OF this _ Cons.IH] Cons.prems show ?case by (simp add: dotted_def)
qed

lemma front_required:
  assumes "released v"
  shows "front (Seq (goUpTo '' .'') (Star dottedNumber)) (v @ ''. '' @ t) = Some (v, [], ''. '' @ t)"
proof -
  obtain d m ns where v: "v = ''go'' @ d # m @ dotted ns" "is_digit d" "list_all is_digit m"
    "\<forall>m \<in> set ns. m \<noteq> [] \<and> list_all is_digit m"
    using assms by (auto simp: released_def neq_Nil_conv)
  have sep: "dotted ns @ ''. '' @ t = [] \<or> hd (dotted ns @ ''. '' @ t) \<in> set '' .''"
    by (simp add: hd_dotted del: append_Cons)
  have "set m \<inter> set '' .'' = {}" using v(3) by (auto simp: list_all_iff is_digit_def)
  from front_Seq [OF front_goUpTo [OF v(2) this sep] front_dotted [OF v(4)]]
  show ?thesis by (simp add: v(1))
qed

lemma front_built:
  assumes "released v"
  shows "front (goUpTo '' '') (v @ '' '' @ t) = Some (v, [], '' '' @ t)"
proof -
  obtain d m ns where v: "v = ''go'' @ d # m @ dotted ns" "is_digit d" "list_all is_digit m"
    "\<forall>m \<in> set ns. list_all is_digit m"
    using assms by (auto simp: released_def neq_Nil_conv)
  have "set (m @ dotted ns) \<inter> set '' '' = {}"
    using v(3,4) by (force dest!: set_dotted simp: list_all_iff is_digit_def)
  from front_goUpTo [OF v(2) this, of "'' '' @ t"] show ?thesis by (simp add: v(1))
qed

lemma released_chars: "released v \<Longrightarrow> c \<in> set v \<Longrightarrow> c \<in> set ''go.'' \<or> is_digit c"
  by (auto dest!: set_dotted simp: released_def list_all_iff)

lemma own_match:
  assumes "released b" "released q"
  shows "front ownStatement (''this kanonarion cannot read this code: it was built with '' @ b
      @ '' and the code requires '' @ q @ ''. '' @ t)
    = Some (''this kanonarion cannot read this code: it was built with '' @ b @ '' and the code requires '' @ q @ ''.'',
        [(1, b), (2, q)], '' '' @ t)"
proof -
  have q: "front (Group 2 (Seq (goUpTo '' .'') (Star dottedNumber))) (q @ ''. '' @ t)
      = Some (q, [(2, q)], ''.'' @ '' '' @ t)"
    using front_Group [OF front_required [OF assms(2)], of 2] by simp
  have b: "front (Group 1 (goUpTo '' '')) (b @ '' and the code requires '' @ q @ ''. '' @ t)
      = Some (b, [(1, b)], '' and the code requires '' @ q @ ''. '' @ t)"
    using front_Group [OF front_built [OF assms(1), of "''and the code requires '' @ q @ ''. '' @ t"], of 1] by simp
  note rest = front_Seq [OF front_Lit [of "'' and the code requires ''"] front_Seq [OF q front_Lit]]
  from front_Seq [OF front_Lit [of "''this kanonarion cannot read this code: it was built with ''"] front_Seq [OF b rest]]
  show ?thesis by (simp add: ownStatement_def)
qed

lemma FindAll_found:
  assumes "front p s = Some (u, g, r)" "u \<noteq> []"
  shows "FindAllSubmatch p s = g # FindAllSubmatch p r"
proof -
  have "length r < length s" using front_split [OF assms(1)] assms(2) by simp
  then show ?thesis by (subst FindAllSubmatch.simps) (simp add: assms(1))
qed

lemma no_v: "released v \<Longrightarrow> CHR ''v'' \<notin> set v"
  using released_chars [of v "CHR ''v''"] by (auto simp: is_digit_def)

text \<open>
  C31: The statement of a limit between two released versions is read back as that limit.  Both the version
  built with and the one required have to be releases (\<open>go\<close> and dotted numerals, as \<open>go1.26.1\<close>): for a release candidate the claim is
  false, see \<open>candidate_read_as_go1\<close> below.
\<close>

theorem limit_statement_roundtrip:
  assumes "released (al_Built l)" "released (al_Required l)"
  shows "ReadAnalyserLimit (Statement_limit l) = (l, True)"
proof -
  let ?tail = "''It reads source with the Go compiled into the binary, so the go on PATH and GOTOOLCHAIN cannot change this; the source was not judged.''"
  have s: "Statement_limit l = ''this kanonarion cannot read this code: it was built with '' @ al_Built l
      @ '' and the code requires '' @ al_Required l @ ''. '' @ ?tail"
    by (simp add: Statement_limit_def)
  have "CHR ''v'' \<notin> set (Statement_limit l)"
    using no_v [OF assms(1)] no_v [OF assms(2)] by (simp add: s)
  then have none: "FindAllSubmatch newerSourceRefusal (Statement_limit l) = []"
    "FindAllSubmatch newerGoListWarning (Statement_limit l) = []"
    unfolding newerSourceRefusal_def newerGoListWarning_def
    by (simp_all add: FindAll_no_literal [where c = "CHR ''v''"])
  have "FindAllSubmatch ownStatement ('' '' @ ?tail) = []"
    unfolding ownStatement_def by (rule FindAll_no_literal [where c = "CHR '':''"]) simp_all
  from FindAll_found [OF own_match [OF assms, of ?tail]] this
  have "FindAllSubmatch ownStatement (Statement_limit l) = [[(1, al_Built l), (2, al_Required l)]]"
    by (simp add: s)
  then show ?thesis
    by (simp add: ReadAnalyserLimit_def ReadNewerSourceRefusal_def readLimit_def readLimitStep_def none captured_def)
qed

theorem limit_statement_roundtrip_witness:
  "ReadAnalyserLimit (Statement_limit \<lparr>al_Required = ''go1.27.2'', al_Built = ''go1.26''\<rparr>)
     = (\<lparr>al_Required = ''go1.27.2'', al_Built = ''go1.26''\<rparr>, True)"
proof -
  have "released ''go1.26''" unfolding released_def
    by (intro exI [of _ "''1''"] exI [of _ "[''26'']"]) (simp add: dotted_def is_digit_def)
  moreover have "released ''go1.27.2''" unfolding released_def
    by (intro exI [of _ "''1''"] exI [of _ "[''27'', ''2'']"]) (simp add: dotted_def is_digit_def)
  ultimately show ?thesis
    by (intro limit_statement_roundtrip) simp_all
qed

text \<open>
  A release candidate is outside the pattern of the own statement, which then stops at the first
  dot: the limit is read back as requiring \<open>go1\<close>, which every binary clears.
\<close>

lemma candidate_read_as_go1:
  "ReadAnalyserLimit (Statement_limit \<lparr>al_Required = ''go1.27rc1'', al_Built = ''go1.26''\<rparr>)
     = (\<lparr>al_Required = ''go1'', al_Built = ''go1.26''\<rparr>, True)
   \<and> Binds ''go1.26'' \<lparr>al_Required = ''go1.27rc1'', al_Built = ''go1.26''\<rparr>
   \<and> \<not> Binds ''go1.26'' \<lparr>al_Required = ''go1'', al_Built = ''go1.26''\<rparr>"
  by code_simp

section \<open>A toolchain's path\<close>

lemma releaseForm_way: "(u, g, r) \<in> set (ways releaseForm s) \<Longrightarrow> g = [] \<and> front versionForm u \<noteq> None"
proof -
  assume "(u, g, r) \<in> set (ways releaseForm s)"
  then obtain d w where u: "u = ''go'' @ d # w" "g = []" "is_digit d" "\<forall>c \<in> set w. version_char c"
    unfolding releaseForm_def
    by (elim ways_SeqE) (auto simp only: ways_Class ways_Lit append.simps dest!: ways_Star_Class)
  have "front (Star (Class version_char)) (w @ []) = Some (w, [], [])"
    by (rule front_Star_Class) (use u in auto)
  from front_Seq [OF front_Class [of is_digit, OF u(3)] this]
  have "front (Seq (Class is_digit) (Star (Class version_char))) (d # w) = Some (d # w, [], [])" by simp
  from front_Seq [OF front_Lit [of "''go''"] this]
  have "front releaseForm u = Some (u, [], [])" by (simp add: releaseForm_def u)
  moreover have "front AtEnd [] = Some ([], [], [])" by (simp add: front_def)
  ultimately have "front versionForm u = Some (u @ [], [] @ [], [])"
    unfolding versionForm_def by (rule front_Seq)
  with u show ?thesis by simp
qed

lemma plain_ways:
  "(u, g, r) \<in> set (ways (Plus (Class ok)) s) \<Longrightarrow> g = []"
  "(u, g, r) \<in> set (ways AtEnd s) \<Longrightarrow> g = []"
  by (auto simp only: Plus_def ways_Class elim!: ways_SeqE dest!: ways_Star_Class) (simp split: if_splits)

text \<open>What a path states is a version a reader may name.\<close>

theorem goroot_version_parses:
  "case FromGOROOT path of (v, found) \<Rightarrow> found \<longrightarrow> ParseVersion v = Inr v"
proof (cases "FindSubmatch toolchainModuleRoot (TrimSuffix path ''/'')")
  case None
  then show ?thesis by (simp add: FromGOROOT_def)
next
  case (Some g)
  from FindSubmatch_way [OF this] obtain u r t where "(u, g, r) \<in> set (ways toolchainModuleRoot t)" by blast
  then obtain v h q s where v: "(v, h, q) \<in> set (ways releaseForm s)" "g = h @ [(1, v)]"
    unfolding toolchainModuleRoot_def Parts.simps
    by (elim ways_SeqE) (auto simp only: ways_Lit ways.simps(5) set_map append.simps append_Nil2 dest!: plain_ways)
  from releaseForm_way [OF v(1)] v(2) show ?thesis
    by (simp add: FromGOROOT_def Some captured_def ParseVersion_def)
qed

end
