(* ===== verification/Callgraph_Types.thy ===== *)
theory Callgraph_Types
  imports Coordinate Go_Toolchain Fetch_Identity Sorting_Go
begin

text \<open>
  The call-graph record and its parts: completeness levels, statuses, failure causes, scopes,
  build frames, analysis sources, nodes, edges, interfaces and implementations, and the small
  values that ride on a record. The string types of the source are strings, so a value the
  program does not name is a value here too.
\<close>

section \<open>Completeness\<close>

definition CompletenessUnknown :: string where "CompletenessUnknown = []"
definition CompletenessBuiltWithBodies :: string where "CompletenessBuiltWithBodies = ''BUILT_WITH_BODIES''"
definition CompletenessTypeOnly :: string where "CompletenessTypeOnly = ''TYPE_ONLY''"
definition CompletenessMetadataOnly :: string where "CompletenessMetadataOnly = ''METADATA_ONLY''"
definition CompletenessFailed :: string where "CompletenessFailed = ''FAILED''"

definition CompletenessLevels :: "string list" where
  "CompletenessLevels = [CompletenessBuiltWithBodies, CompletenessTypeOnly, CompletenessMetadataOnly,
     CompletenessFailed, CompletenessUnknown]"

definition level_String :: "string \<Rightarrow> string" where
  "level_String l = (if l = CompletenessUnknown then ''Unknown'' else l)"

definition IsBuiltWithBodies :: "string \<Rightarrow> bool" where
  "IsBuiltWithBodies l \<longleftrightarrow> l = CompletenessBuiltWithBodies"

text \<open>The rank is the number of levels from this one to the end of the ladder.\<close>

fun rankIn :: "string list \<Rightarrow> string \<Rightarrow> nat" where
  "rankIn [] l = 0"
| "rankIn (c # cs) l = (if c = l then length (c # cs) else rankIn cs l)"

definition completenessRank :: "string \<Rightarrow> nat" where
  "completenessRank l = rankIn CompletenessLevels l"

definition WeakerCompleteness :: "string \<Rightarrow> string \<Rightarrow> string" where
  "WeakerCompleteness a b = (if completenessRank b < completenessRank a then b else a)"

record CompletenessDescriptor =
  cd_Level :: string
  cd_Algorithm :: string

definition CompletenessParity :: "CompletenessDescriptor \<Rightarrow> CompletenessDescriptor \<Rightarrow> bool \<times> string" where
  "CompletenessParity before after =
     (if cd_Level before \<noteq> cd_Level after then
        (False, ''completeness level differs: before='' @ level_String (cd_Level before)
           @ '' after='' @ level_String (cd_Level after))
      else if cd_Algorithm before \<noteq> cd_Algorithm after then
        (False, ''algorithm/devirt tier differs: before='' @ cd_Algorithm before @ '' after='' @ cd_Algorithm after)
      else (True, []))"

definition PhaseInclusion :: string where "PhaseInclusion = ''inclusion''"
definition PhaseCoding :: string where "PhaseCoding = ''coding''"
definition PhaseDiff :: string where "PhaseDiff = ''diff''"

definition CompletenessCaveat :: "string \<Rightarrow> string \<Rightarrow> string" where
  "CompletenessCaveat level phase =
     (if IsBuiltWithBodies level then []
      else ''call graph is '' @ level_String level @ '', not built with bodies '' @ em_dash @
        (if phase = PhaseCoding then
           '' run `go generate ./...` and `go build ./...`, then re-analyse; answers over this module may be incomplete''
         else if phase = PhaseInclusion then
           '' generators are not run on untrusted code, so this answer is degraded and may be incomplete''
         else if phase = PhaseDiff then
           '' a before/after answer over this module is unresolved unless both sides match''
         else '' answers over this module may be incomplete''))"

section \<open>Scopes, kinds and statuses\<close>

definition TestScopeUnknown :: string where "TestScopeUnknown = []"
definition TestScopeAnalysed :: string where "TestScopeAnalysed = ''Analysed''"
definition TestScopeExcluded :: string where "TestScopeExcluded = ''Excluded''"

definition test_IsMeasured :: "string \<Rightarrow> bool" where
  "test_IsMeasured t \<longleftrightarrow> t = TestScopeAnalysed"

definition ReferenceScopeAnalysed :: string where "ReferenceScopeAnalysed = ''Analysed''"

definition reference_IsMeasured :: "string \<Rightarrow> bool" where
  "reference_IsMeasured r \<longleftrightarrow> r = ReferenceScopeAnalysed"

definition ArtifactLibrary :: string where "ArtifactLibrary = []"
definition ArtifactApplication :: string where "ArtifactApplication = ''Application''"
definition ArtifactNotEstablished :: string where "ArtifactNotEstablished = ''NotEstablished''"

definition kind_String :: "string \<Rightarrow> string" where
  "kind_String k = (if k = ArtifactLibrary then ''Library''
     else if k = ArtifactApplication then ''Application''
     else if k = ArtifactNotEstablished then ''NotEstablished'' else k)"

definition ExclusionReasonConfig :: string where "ExclusionReasonConfig = ''excluded_by_config''"

definition CallGraphStatusUnknown :: int where "CallGraphStatusUnknown = 0"
definition CallGraphStatusExtracted :: int where "CallGraphStatusExtracted = 1"
definition CallGraphStatusPartial :: int where "CallGraphStatusPartial = 2"
definition CallGraphStatusLoadFailed :: int where "CallGraphStatusLoadFailed = 3"
definition CallGraphStatusOutOfMemory :: int where "CallGraphStatusOutOfMemory = 4"
definition CallGraphStatusCancelled :: int where "CallGraphStatusCancelled = 5"
definition CallGraphStatusExtractionFailed :: int where "CallGraphStatusExtractionFailed = 6"
definition CallGraphStatusExcludedByConfig :: int where "CallGraphStatusExcludedByConfig = 7"

definition cgstatus_String :: "int \<Rightarrow> string" where
  "cgstatus_String s =
     (if s = CallGraphStatusExtracted then ''Extracted''
      else if s = CallGraphStatusPartial then ''Partial''
      else if s = CallGraphStatusLoadFailed then ''LoadFailed''
      else if s = CallGraphStatusOutOfMemory then ''OutOfMemory''
      else if s = CallGraphStatusCancelled then ''Cancelled''
      else if s = CallGraphStatusExtractionFailed then ''ExtractionFailed''
      else if s = CallGraphStatusExcludedByConfig then ''ExcludedByConfig''
      else ''Unknown'')"

definition ConfidenceDirect :: string where "ConfidenceDirect = ''Direct''"
definition ConfidenceCHAOverapprox :: string where "ConfidenceCHAOverapprox = ''CHA-overapprox''"
definition ConfidenceVTA :: string where "ConfidenceVTA = ''VTA''"
definition ConfidenceFramework :: string where "ConfidenceFramework = ''Framework''"
definition ConfidenceUnknown_edge :: string where "ConfidenceUnknown_edge = ''Unknown''"

definition EdgeKindCall :: string where "EdgeKindCall = []"
definition EdgeKindReference :: string where "EdgeKindReference = ''Reference''"

definition IsReference :: "string \<Rightarrow> bool" where
  "IsReference k \<longleftrightarrow> k = EdgeKindReference"

text \<open>The stored spelling of a confidence, and whether it recorded a reflective dispatch.\<close>

definition MigrateConfidence :: "string \<Rightarrow> string \<times> bool" where
  "MigrateConfidence stored =
     (if stored = ''DynamicDispatch'' then (ConfidenceCHAOverapprox, False)
      else if stored = ''Reflection'' then (ConfidenceUnknown_edge, True)
      else (stored, False))"

definition ConfidenceRank :: "string \<Rightarrow> nat" where
  "ConfidenceRank c =
     (if c = ConfidenceDirect then 4 else if c = ConfidenceVTA then 3
      else if c = ConfidenceFramework then 2 else if c = ConfidenceCHAOverapprox then 1 else 0)"

definition WeakestConfidence :: "string \<Rightarrow> string \<Rightarrow> string" where
  "WeakestConfidence a b = (if ConfidenceRank b < ConfidenceRank a then b else a)"

section \<open>Failure causes\<close>

definition Cause_Unrecorded :: string where "Cause_Unrecorded = []"
definition Cause_Module :: string where "Cause_Module = ''module''"
definition Cause_Environment :: string where "Cause_Environment = ''environment''"

definition IsEnvironmentLimit :: "string \<Rightarrow> bool" where
  "IsEnvironmentLimit c \<longleftrightarrow> c = Cause_Environment"

definition cause_String :: "string \<Rightarrow> string" where
  "cause_String c = (if c = Cause_Unrecorded then ''not recorded'' else c)"

definition StatusIsFailure :: "int \<Rightarrow> bool" where
  "StatusIsFailure s \<longleftrightarrow> s \<in> {CallGraphStatusUnknown, CallGraphStatusLoadFailed, CallGraphStatusOutOfMemory,
     CallGraphStatusCancelled, CallGraphStatusExtractionFailed}"

definition EnvironmentLimitedGraph :: "int \<Rightarrow> string \<Rightarrow> bool" where
  "EnvironmentLimitedGraph status cause \<longleftrightarrow> IsEnvironmentLimit cause \<and> \<not> StatusIsFailure status"

section \<open>Build frames\<close>

record BuildFrame =
  bf_GOOS :: string
  bf_GOARCH :: string
  bf_GOARM :: string
  bf_TinyGoTarget :: string
  bf_TinyGoVersion :: string
  bf_TinyGoTags :: "string list"

definition frame_IsZero :: "BuildFrame \<Rightarrow> bool" where
  "frame_IsZero f \<longleftrightarrow> bf_GOOS f = [] \<and> bf_GOARCH f = []"

definition frameTextUnrecorded :: string where "frameTextUnrecorded = ''unrecorded''"

definition frame_String_cg :: "BuildFrame \<Rightarrow> string" where
  "frame_String_cg f =
     (if frame_IsZero f then frameTextUnrecorded
      else if bf_TinyGoTarget f \<noteq> [] then
        ''tinygo/'' @ bf_TinyGoTarget f @ '' ('' @ bf_GOOS f @ ''/'' @ bf_GOARCH f @ '')''
      else bf_GOOS f @ ''/'' @ bf_GOARCH f)"

definition FlagSpelling :: "BuildFrame \<Rightarrow> string" where
  "FlagSpelling f =
     (if frame_IsZero f then []
      else if bf_TinyGoTarget f \<noteq> [] then ''--tinygo '' @ bf_TinyGoTarget f
      else ''--target '' @ bf_GOOS f @ ''/'' @ bf_GOARCH f)"

type_synonym frameKey = "string \<times> string \<times> string \<times> string"

definition keyOf :: "BuildFrame \<Rightarrow> frameKey" where
  "keyOf f = (bf_GOOS f, bf_GOARCH f, bf_GOARM f, bf_TinyGoTarget f)"

definition SameFrame :: "BuildFrame \<Rightarrow> BuildFrame \<Rightarrow> bool" where
  "SameFrame a b \<longleftrightarrow> bf_GOOS a = bf_GOOS b \<and> bf_GOARCH a = bf_GOARCH b \<and> bf_GOARM a = bf_GOARM b
     \<and> bf_TinyGoTarget a = bf_TinyGoTarget b"

section \<open>Nodes, edges, interfaces\<close>

record SourcePosition =
  sp_File :: string
  sp_Line :: int

record ExportDirective =
  ed_Kind :: string
  ed_Name :: string

record InterruptHandler =
  ih_Kind :: string
  ih_Site :: SourcePosition

record CallNode =
  cn_ID :: string
  cn_Module :: string
  cn_Package :: string
  cn_Symbol :: string
  cn_Receiver :: string
  cn_IsExternal :: bool
  cn_IsExportedAPI :: bool
  cn_Position :: SourcePosition
  cn_UsesUnsafePointer :: bool
  cn_IsAssemblyOrLinkname :: bool
  cn_UsesPlugin :: bool
  cn_IsTest :: bool
  cn_ExportDirective :: ExportDirective
  cn_InterruptHandler :: InterruptHandler

record InterfaceType =
  it_ID :: string
  it_Package :: string
  it_Name :: string
  it_Methods :: "string list"
  it_Position :: SourcePosition
  it_IsTest :: bool

record ImplementedMethod =
  im_Method :: string
  im_NodeID :: string

record InterfaceImplementation =
  ii_InterfaceID :: string
  ii_TypeID :: string
  ii_Package :: string
  ii_Position :: SourcePosition
  ii_IsTest :: bool
  ii_Methods :: "ImplementedMethod list"

record CallEdge =
  ce_FromID :: string
  ce_ToID :: string
  ce_CallSite :: SourcePosition
  ce_Confidence :: string
  ce_ReflectDispatch :: bool
  ce_Kind :: string

definition MethodID :: "InterfaceType \<Rightarrow> string \<Rightarrow> string" where
  "MethodID i method = it_Package i @ ''.('' @ it_Name i @ '').'' @ method"

section \<open>Export directives and interrupt handlers\<close>

definition ExportWasm :: string where "ExportWasm = ''wasmexport''"
definition ExportC :: string where "ExportC = ''export''"
definition ExportInterrupt :: string where "ExportInterrupt = ''interrupt''"

definition zero_export :: ExportDirective where
  "zero_export = \<lparr>ed_Kind = [], ed_Name = []\<rparr>"

definition export_IsZero :: "ExportDirective \<Rightarrow> bool" where
  "export_IsZero d \<longleftrightarrow> d = zero_export"

datatype export_error =
    ExportNoKind
  | ExportNeedsOneName string string
  | InterruptTakesNoName string
  | ExportUnknownKind string
  | ExportTakesOneName string nat

definition export_Validate :: "ExportDirective \<Rightarrow> export_error option" where
  "export_Validate d =
     (if export_IsZero d then None
      else if ed_Kind d \<in> {ExportWasm, ExportC} then
        (if ed_Name d = [] \<or> list_ex (\<lambda>c. c \<in> {CHR '' '', CHR 0x09, CHR 0x0D, CHR 0x0A}) (ed_Name d)
         then Some (ExportNeedsOneName (ed_Kind d) (ed_Name d)) else None)
      else if ed_Kind d = ExportInterrupt then
        (if ed_Name d \<noteq> [] then Some (InterruptTakesNoName (ed_Name d)) else None)
      else Some (ExportUnknownKind (ed_Kind d)))"

definition NewExportDirective :: "string \<Rightarrow> string \<Rightarrow> export_error + ExportDirective" where
  "NewExportDirective kind name = (let d = \<lparr>ed_Kind = kind, ed_Name = name\<rparr> in
     if export_IsZero d then Inl ExportNoKind
     else case export_Validate d of Some e \<Rightarrow> Inl e | None \<Rightarrow> Inr d)"

definition export_String :: "ExportDirective \<Rightarrow> string" where
  "export_String d =
     (if ed_Kind d = ExportWasm then ''//go:wasmexport '' @ ed_Name d
      else if ed_Kind d = ExportC then ''//export '' @ ed_Name d
      else if ed_Kind d = ExportInterrupt then ''//go:interrupt''
      else [])"

text \<open>\<open>strings.Fields\<close>: the maximal runs of characters that are not white space.\<close>

function Fields :: "string \<Rightarrow> string list" where
  "Fields s = (case dropWhile is_space s of
       [] \<Rightarrow> []
     | c # r \<Rightarrow> takeWhile (\<lambda>x. \<not> is_space x) (c # r) # Fields (dropWhile (\<lambda>x. \<not> is_space x) r))"
  by pat_completeness auto
termination
proof (relation "measure length", goal_cases)
  case (2 s c r)
  have "length (dropWhile (\<lambda>x. \<not> is_space x) r) \<le> length r" by (rule length_dropWhile_le)
  moreover have "length (c # r) \<le> length s" unfolding 2 [symmetric] by (rule length_dropWhile_le)
  ultimately show ?case by simp
qed simp

declare Fields.simps [simp del]

text \<open>The parsed directive, whether the comment is one, and the error of a malformed one.\<close>

definition exportWithName ::
  "string \<Rightarrow> string list \<Rightarrow> ExportDirective \<times> bool \<times> export_error option" where
  "exportWithName kind fs =
     (if length fs \<noteq> 2 then (zero_export, True, Some (ExportTakesOneName (hd fs) (length fs - 1)))
      else (\<lparr>ed_Kind = kind, ed_Name = fs ! 1\<rparr>, True, None))"

definition ParseExportDirective :: "string \<Rightarrow> ExportDirective \<times> bool \<times> export_error option" where
  "ParseExportDirective comment = (case Fields comment of
       [] \<Rightarrow> (zero_export, False, None)
     | f # fs \<Rightarrow>
         if f = ''//go:wasmexport'' then exportWithName ExportWasm (f # fs)
         else if f = ''//export'' \<or> f = ''//go:export'' then exportWithName ExportC (f # fs)
         else if f = ''//go:interrupt'' then (\<lparr>ed_Kind = ExportInterrupt, ed_Name = []\<rparr>, True, None)
         else (zero_export, False, None))"

definition HandlerInterruptNew :: string where "HandlerInterruptNew = ''interrupt.New''"

definition zero_position :: SourcePosition where
  "zero_position = \<lparr>sp_File = [], sp_Line = 0\<rparr>"

definition zero_handler :: InterruptHandler where
  "zero_handler = \<lparr>ih_Kind = [], ih_Site = zero_position\<rparr>"

definition handler_IsZero :: "InterruptHandler \<Rightarrow> bool" where
  "handler_IsZero h \<longleftrightarrow> h = zero_handler"

datatype handler_error = HandlerNoKind | HandlerUnknownKind string | HandlerNeedsSite string string int

definition handler_Validate :: "InterruptHandler \<Rightarrow> handler_error option" where
  "handler_Validate h =
     (if handler_IsZero h then None
      else if ih_Kind h \<noteq> HandlerInterruptNew then Some (HandlerUnknownKind (ih_Kind h))
      else if sp_File (ih_Site h) = [] \<or> sp_Line (ih_Site h) \<le> 0 then
        Some (HandlerNeedsSite (ih_Kind h) (sp_File (ih_Site h)) (sp_Line (ih_Site h)))
      else None)"

definition NewInterruptHandler :: "string \<Rightarrow> SourcePosition \<Rightarrow> handler_error + InterruptHandler" where
  "NewInterruptHandler kind site = (let h = \<lparr>ih_Kind = kind, ih_Site = site\<rparr> in
     if handler_IsZero h then Inl HandlerNoKind
     else case handler_Validate h of Some e \<Rightarrow> Inl e | None \<Rightarrow> Inr h)"

definition SiteString :: "InterruptHandler \<Rightarrow> string" where
  "SiteString h = (if handler_IsZero h then []
     else sp_File (ih_Site h) @ '':'' @ Itoa (sp_Line (ih_Site h)))"

section \<open>What rides on a record\<close>

record ForeignModule =
  fm_Path :: string
  fm_Version :: string

record SynthesisedRequire =
  sr_Path :: string
  sr_Version :: string

record SynthesisedGoMod =
  sg_ModulePath :: string
  sg_GoDirective :: string
  sg_VendorTreePresent :: bool
  sg_Requires :: "SynthesisedRequire list"

record DroppedReplace =
  dr_Path :: string
  dr_Version :: string
  dr_Target :: string

record GenerationDerivation =
  gd_Gate :: string
  gd_Outcome :: string

record AnalyserIdentity =
  ai_Version :: string
  ai_Provenance :: string

definition gomod_IsZero :: "SynthesisedGoMod \<Rightarrow> bool" where
  "gomod_IsZero s \<longleftrightarrow> sg_ModulePath s = [] \<and> sg_GoDirective s = [] \<and> \<not> sg_VendorTreePresent s \<and> sg_Requires s = []"

definition gomod_String :: "SynthesisedGoMod \<Rightarrow> string" where
  "gomod_String s = (if gomod_IsZero s then []
     else ''synthesised go.mod (module '' @ sg_ModulePath s @ '', go '' @ sg_GoDirective s @ '')''
       @ (if sg_Requires s \<noteq> [] then '' ['' @ Itoa (int (length (sg_Requires s))) @ '' require directive''
            @ (if length (sg_Requires s) \<noteq> 1 then ''s'' else [])
            @ '' pinned from a resolved build list, not resolved by the toolchain]'' else [])
       @ (if sg_VendorTreePresent s then '' [vendor tree present, vendor mode disabled]'' else []))"

definition replace_String :: "DroppedReplace \<Rightarrow> string" where
  "replace_String d = dr_Path d @ (if dr_Version d \<noteq> [] then '' '' @ dr_Version d else []) @ '' => '' @ dr_Target d"

definition DroppedReplaceLess :: "DroppedReplace \<Rightarrow> DroppedReplace \<Rightarrow> bool" where
  "DroppedReplaceLess a b =
     (if dr_Path a \<noteq> dr_Path b then dr_Path a < dr_Path b
      else if dr_Version a \<noteq> dr_Version b then dr_Version a < dr_Version b
      else dr_Target a < dr_Target b)"

definition SortDroppedReplaces :: "DroppedReplace list \<Rightarrow> DroppedReplace list" where
  "SortDroppedReplaces ds = stable_sort DroppedReplaceLess ds"

definition DroppedReplacesSummary :: "DroppedReplace list \<Rightarrow> string" where
  "DroppedReplacesSummary ds = (if ds = [] then []
     else Itoa (int (length ds)) @ '' replace directive'' @ (if length ds \<noteq> 1 then ''s'' else [])
       @ '' dropped, each targeting a directory outside the published zip ''
       @ ''and applied by no consumer'' @ [CHR 0x27] @ ''s build: '' @ Join (map replace_String ds) ''; '')"

definition foreign_String :: "ForeignModule \<Rightarrow> string" where
  "foreign_String f = (if fm_Version f = [] then fm_Path f @ '' (no version resolved)'' else fm_Path f @ ''@'' @ fm_Version f)"

definition ForeignModuleLess :: "ForeignModule \<Rightarrow> ForeignModule \<Rightarrow> bool" where
  "ForeignModuleLess a b =
     (if fm_Path a \<noteq> fm_Path b then fm_Path a < fm_Path b else fm_Version a < fm_Version b)"

text \<open>The first module whose path owns the identifier: the path, then a dot or a slash.\<close>

fun ForeignModuleOwning :: "ForeignModule list \<Rightarrow> string \<Rightarrow> ForeignModule option" where
  "ForeignModuleOwning [] i = None"
| "ForeignModuleOwning (m # ms) i =
     (if fm_Path m = [] \<or> \<not> HasPrefix i (fm_Path m) then ForeignModuleOwning ms i
      else let rest = drop (length (fm_Path m)) i in
        if HasPrefix rest ''.'' \<or> HasPrefix rest ''/'' then Some m else ForeignModuleOwning ms i)"

definition foreignModuleColumnSeparator :: char where
  "foreignModuleColumnSeparator = CHR '' ''"

definition ForeignModulesColumn :: "ForeignModule list \<Rightarrow> string" where
  "ForeignModulesColumn mods =
     Join (map (\<lambda>m. fm_Path m @ ''@'' @ fm_Version m)
       (filter (\<lambda>m. fm_Path m \<noteq> []) (stable_sort ForeignModuleLess mods))) [foreignModuleColumnSeparator]"

datatype column_error = MalformedForeignModulesColumn string | MalformedAnalyserColumn string

fun parseForeignModules :: "string list \<Rightarrow> column_error + ForeignModule list" where
  "parseForeignModules [] = Inr []"
| "parseForeignModules (f # fs) = (case LastIndex f ''@'' of
       Some (Suc n) \<Rightarrow>
         (case parseForeignModules fs of
            Inl e \<Rightarrow> Inl e
          | Inr ms \<Rightarrow> Inr (\<lparr>fm_Path = take (Suc n) f, fm_Version = drop (Suc (Suc n)) f\<rparr> # ms))
     | _ \<Rightarrow> Inl (MalformedForeignModulesColumn f))"

definition ParseForeignModulesColumn :: "string \<Rightarrow> column_error + ForeignModule list" where
  "ParseForeignModulesColumn s = (if s = [] then Inr []
     else case parseForeignModules (Split s foreignModuleColumnSeparator) of
       Inl e \<Rightarrow> Inl e | Inr ms \<Rightarrow> Inr (stable_sort ForeignModuleLess ms))"

definition ReuseGateUnrecorded :: string where "ReuseGateUnrecorded = []"
definition ReuseGateWorktree :: string where "ReuseGateWorktree = ''worktree''"
definition ReuseGateLedger :: string where "ReuseGateLedger = ''ledger''"
definition GateOutcomeUnrecorded :: string where "GateOutcomeUnrecorded = []"
definition GateOutcomeConsulted :: string where "GateOutcomeConsulted = ''consulted''"
definition GateOutcomeBypassed :: string where "GateOutcomeBypassed = ''bypassed''"

definition zero_derivation :: GenerationDerivation where
  "zero_derivation = \<lparr>gd_Gate = ReuseGateUnrecorded, gd_Outcome = GateOutcomeUnrecorded\<rparr>"

definition derivation_IsRecorded_cg :: "GenerationDerivation \<Rightarrow> bool" where
  "derivation_IsRecorded_cg d \<longleftrightarrow> d \<noteq> zero_derivation"

definition derivation_String_cg :: "GenerationDerivation \<Rightarrow> string" where
  "derivation_String_cg d =
     (if \<not> derivation_IsRecorded_cg d then ''derivation not recorded''
      else let gate = (if gd_Gate d = ReuseGateUnrecorded then ''unnamed'' else gd_Gate d) in
        if gd_Outcome d = GateOutcomeBypassed then gate @ '' reuse gate bypassed (forced)''
        else if gd_Outcome d = GateOutcomeConsulted then
          gate @ '' reuse gate consulted, held nothing restating this analysis''
        else if gd_Outcome d = GateOutcomeUnrecorded then gate @ '' reuse gate, outcome not recorded''
        else gate @ '' reuse gate: '' @ gd_Outcome d)"

definition DerivationFor :: "string \<Rightarrow> bool \<Rightarrow> GenerationDerivation" where
  "DerivationFor gate forced =
     \<lparr>gd_Gate = gate, gd_Outcome = (if forced then GateOutcomeBypassed else GateOutcomeConsulted)\<rparr>"

section \<open>The analyser library\<close>

definition AnalyserObserved :: string where "AnalyserObserved = ''observed''"
definition AnalyserInferred :: string where "AnalyserInferred = ''inferred''"
definition AnalyserModulePath :: string where "AnalyserModulePath = ''golang.org/x/tools''"

definition zero_analyser :: AnalyserIdentity where
  "zero_analyser = \<lparr>ai_Version = [], ai_Provenance = []\<rparr>"

definition ObservedAnalyser :: "string \<Rightarrow> AnalyserIdentity" where
  "ObservedAnalyser v = (if v = [] then zero_analyser else \<lparr>ai_Version = v, ai_Provenance = AnalyserObserved\<rparr>)"

definition InferredAnalyser :: "string \<Rightarrow> AnalyserIdentity" where
  "InferredAnalyser v = (if v = [] then zero_analyser else \<lparr>ai_Version = v, ai_Provenance = AnalyserInferred\<rparr>)"

definition analyser_Recorded :: "AnalyserIdentity \<Rightarrow> bool" where
  "analyser_Recorded a \<longleftrightarrow> ai_Version a \<noteq> []"

definition analyser_String_cg :: "AnalyserIdentity \<Rightarrow> string" where
  "analyser_String_cg a =
     (if ai_Provenance a = AnalyserObserved then AnalyserModulePath @ '' '' @ ai_Version a
      else if ai_Provenance a = AnalyserInferred then AnalyserModulePath @ '' '' @ ai_Version a
        @ '' (INFERRED from the extraction date; this record never recorded one)''
      else ''not recorded'')"

definition Short :: "AnalyserIdentity \<Rightarrow> string" where
  "Short a = (if \<not> analyser_Recorded a then ''not recorded'' else ai_Version a @ '' ('' @ ai_Provenance a @ '')'')"

definition Column :: "AnalyserIdentity \<Rightarrow> string" where
  "Column a = (if \<not> analyser_Recorded a then [] else ai_Provenance a @ '':'' @ ai_Version a)"

definition ParseAnalyserColumn :: "string \<Rightarrow> column_error + AnalyserIdentity" where
  "ParseAnalyserColumn s = (if s = [] then Inr zero_analyser
     else case Cut s (CHR '':'') of (prov, version, ok) \<Rightarrow>
       if \<not> ok \<or> version = [] then Inl (MalformedAnalyserColumn s)
       else if prov = AnalyserObserved then Inr (ObservedAnalyser version)
       else if prov = AnalyserInferred then Inr (InferredAnalyser version)
       else Inl (MalformedAnalyserColumn s))"

section \<open>The record\<close>

record CallGraphRecord =
  cg_SchemaVersion :: string
  cg_Ecosystem :: string
  cg_Coordinate :: ModuleCoordinate
  cg_Algorithm :: string
  cg_Completeness :: string
  cg_ArtifactKind :: string
  cg_Nodes :: "CallNode list"
  cg_Edges :: "CallEdge list"
  cg_Interfaces :: "InterfaceType list"
  cg_Implementations :: "InterfaceImplementation list"
  cg_TestScope :: string
  cg_TestScopeDetail :: string
  cg_ReferenceScope :: string
  cg_OverallStatus :: int
  cg_FailureDetail :: string
  cg_FailureCause :: string
  cg_FailedPackages :: "string list"
  cg_ExclusionReason :: string
  cg_ExclusionList :: "string list"
  cg_NodeCount :: int
  cg_EdgeCount :: int
  cg_ExtractedAt :: instant
  cg_PipelineVersion :: string
  cg_ContentHash :: string
  cg_ArtefactIdentity :: string
  cg_SourceContentHash :: string
  cg_AnalysisSource :: string
  cg_WorktreeDigest :: string
  cg_WorktreeScanDigest :: string
  cg_AnalysisRoot :: string
  cg_Toolchain :: toolchain_version
  cg_Frame :: BuildFrame
  cg_Analyser :: AnalyserIdentity
  cg_SynthesisedGoMod :: SynthesisedGoMod
  cg_DroppedReplaces :: "DroppedReplace list"
  cg_BuildListSource :: string
  cg_PrefixAttributedPackages :: "string list"
  cg_ForeignModulesBuilt :: "ForeignModule list"
  cg_StdlibPackages :: "string list"
  cg_DependencyPackages :: "string list"
  cg_DerivedBy :: GenerationDerivation

definition RecordCompleteness :: "CallGraphRecord \<Rightarrow> CompletenessDescriptor" where
  "RecordCompleteness r = \<lparr>cd_Level = cg_Completeness r, cd_Algorithm = cg_Algorithm r\<rparr>"

definition RecordIsFailure :: "CallGraphRecord \<Rightarrow> bool" where
  "RecordIsFailure r \<longleftrightarrow> StatusIsFailure (cg_OverallStatus r)"

definition RecordIsIncomplete :: "CallGraphRecord \<Rightarrow> bool" where
  "RecordIsIncomplete r \<longleftrightarrow> cg_OverallStatus r = CallGraphStatusPartial"

definition RecordIsCacheable_cg :: "CallGraphRecord \<Rightarrow> bool" where
  "RecordIsCacheable_cg r =
     (if snd (ReadAnalyserLimit (cg_FailureDetail r)) then False
      else if cg_FailureCause r = Cause_Environment then False
      else if cg_FailureCause r = Cause_Module then True
      else if cg_FailureCause r = Cause_Unrecorded then \<not> RecordIsFailure r \<and> \<not> RecordIsIncomplete r
      else False)"

section \<open>Sources of an analysis\<close>

definition AnalysisSourceUnrecorded :: string where "AnalysisSourceUnrecorded = []"
definition AnalysisSourceModuleZip :: string where "AnalysisSourceModuleZip = ''zip''"
definition AnalysisSourceWorktree :: string where "AnalysisSourceWorktree = ''worktree''"
definition AnalysisSourceToolchainSource :: string where "AnalysisSourceToolchainSource = ''toolchain-source''"

definition source_String :: "string \<Rightarrow> string" where
  "source_String s = (if s = AnalysisSourceUnrecorded then ''not recorded'' else s)"

definition AnalysisSources :: "string list" where
  "AnalysisSources = [AnalysisSourceModuleZip, AnalysisSourceWorktree, AnalysisSourceToolchainSource,
     AnalysisSourceUnrecorded]"

definition analysedFrom :: "CallGraphRecord \<Rightarrow> string" where
  "analysedFrom r = (if cg_AnalysisSource r \<noteq> AnalysisSourceUnrecorded then cg_AnalysisSource r
     else if IsLocal (cg_Coordinate r) then AnalysisSourceWorktree else AnalysisSourceModuleZip)"

definition RecordAnalysisSource :: "CallGraphRecord \<Rightarrow> string \<times> string" where
  "RecordAnalysisSource r =
     (if cg_AnalysisSource r = AnalysisSourceWorktree then (AnalysisSourceWorktree, cg_WorktreeDigest r)
      else if cg_AnalysisSource r = AnalysisSourceToolchainSource then
        (AnalysisSourceToolchainSource, cg_WorktreeDigest r)
      else if cg_AnalysisSource r = AnalysisSourceModuleZip then (AnalysisSourceModuleZip, cg_ArtefactIdentity r)
      else if cg_AnalysisSource r = AnalysisSourceUnrecorded then (AnalysisSourceUnrecorded, [])
      else (cg_AnalysisSource r, []))"

definition NamesAnalysedContent_cg :: "CallGraphRecord \<Rightarrow> bool" where
  "NamesAnalysedContent_cg r \<longleftrightarrow> snd (RecordAnalysisSource r) \<noteq> []"

section \<open>Exclusions\<close>

definition NormaliseExclusions :: "string list \<Rightarrow> string list" where
  "NormaliseExclusions exclude = sort (remdups (filter (\<lambda>e. e \<noteq> []) exclude))"

definition IsModuleExcluded :: "string \<Rightarrow> string list \<Rightarrow> bool" where
  "IsModuleExcluded modulePath exclude \<longleftrightarrow> list_ex (\<lambda>e. e \<noteq> [] \<and> e = modulePath) exclude"

definition CallGraphSchemaVersion :: string where "CallGraphSchemaVersion = ''13''"

definition zero_frame :: BuildFrame where
  "zero_frame = \<lparr>bf_GOOS = [], bf_GOARCH = [], bf_GOARM = [], bf_TinyGoTarget = [], bf_TinyGoVersion = [], bf_TinyGoTags = []\<rparr>"

definition zero_gomod :: SynthesisedGoMod where
  "zero_gomod = \<lparr>sg_ModulePath = [], sg_GoDirective = [], sg_VendorTreePresent = False, sg_Requires = []\<rparr>"

definition zero_callgraph :: CallGraphRecord where
  "zero_callgraph = \<lparr>cg_SchemaVersion = [], cg_Ecosystem = [], cg_Coordinate = zero_coordinate,
     cg_Algorithm = [], cg_Completeness = [], cg_ArtifactKind = [], cg_Nodes = [], cg_Edges = [],
     cg_Interfaces = [], cg_Implementations = [], cg_TestScope = [], cg_TestScopeDetail = [],
     cg_ReferenceScope = [], cg_OverallStatus = 0, cg_FailureDetail = [], cg_FailureCause = [],
     cg_FailedPackages = [], cg_ExclusionReason = [], cg_ExclusionList = [], cg_NodeCount = 0,
     cg_EdgeCount = 0, cg_ExtractedAt = zero_time, cg_PipelineVersion = [], cg_ContentHash = [],
     cg_ArtefactIdentity = [], cg_SourceContentHash = [], cg_AnalysisSource = [], cg_WorktreeDigest = [],
     cg_WorktreeScanDigest = [], cg_AnalysisRoot = [], cg_Toolchain = Unrecorded, cg_Frame = zero_frame,
     cg_Analyser = zero_analyser, cg_SynthesisedGoMod = zero_gomod, cg_DroppedReplaces = [],
     cg_BuildListSource = [], cg_PrefixAttributedPackages = [], cg_ForeignModulesBuilt = [],
     cg_StdlibPackages = [], cg_DependencyPackages = [], cg_DerivedBy = zero_derivation\<rparr>"

definition NewExcludedRecord :: "ModuleCoordinate \<Rightarrow> string \<Rightarrow> string list \<Rightarrow> CallGraphRecord" where
  "NewExcludedRecord coord alg exclusionList = zero_callgraph
     \<lparr>cg_SchemaVersion := CallGraphSchemaVersion, cg_Ecosystem := ''go'', cg_Coordinate := coord,
      cg_Algorithm := alg, cg_ArtifactKind := ArtifactNotEstablished,
      cg_OverallStatus := CallGraphStatusExcludedByConfig, cg_ExclusionReason := ExclusionReasonConfig,
      cg_ExclusionList := exclusionList\<rparr>"

section \<open>Interfaces of a record\<close>

definition InterfaceByID :: "CallGraphRecord \<Rightarrow> string \<Rightarrow> InterfaceType option" where
  "InterfaceByID r i = find (\<lambda>t. it_ID t = i) (cg_Interfaces r)"

text \<open>\<open>None\<close> is an interface the module does not declare.\<close>

definition ImplementersOf :: "CallGraphRecord \<Rightarrow> string \<Rightarrow> InterfaceImplementation list option" where
  "ImplementersOf r i = (if InterfaceByID r i = None then None
     else Some (filter (\<lambda>m. ii_InterfaceID m = i) (cg_Implementations r)))"

text \<open>The interface and the method of an identifier \<open>pkg.(Name).Method\<close>.\<close>

definition ParseInterfaceMethodID :: "string \<Rightarrow> (string \<times> string) option" where
  "ParseInterfaceMethodID i = (case LastIndex i ''.('' of
       None \<Rightarrow> None
     | Some at \<Rightarrow> (case StrIndex (drop at i) '').'' of
           None \<Rightarrow> None
         | Some off \<Rightarrow>
             let name = slice i (at + 2) (at + off); method = drop (at + off + 2) i in
             if name = [] \<or> method = [] \<or> HasPrefix name ''*'' then None
             else if list_ex (\<lambda>c. c \<in> set ''.()'') method then None
             else Some (take at i @ ''.'' @ name, method)))"

section \<open>Reusing the record of a working tree\<close>

record WorktreeIdentity =
  wi_Root :: string
  wi_ScanDigest :: string
  wi_Frame :: BuildFrame

definition worktree_IsZero :: "WorktreeIdentity \<Rightarrow> bool" where
  "worktree_IsZero i \<longleftrightarrow> wi_Root i = [] \<or> wi_ScanDigest i = []"

definition WorktreeRecordAnswersFor :: "CallGraphRecord \<Rightarrow> WorktreeIdentity \<Rightarrow> bool" where
  "WorktreeRecordAnswersFor existing i =
     (if worktree_IsZero i then False
      else if cg_AnalysisSource existing \<noteq> AnalysisSourceWorktree then False
      else if cg_AnalysisRoot existing \<noteq> wi_Root i then False
      else if cg_WorktreeScanDigest existing = [] \<or> cg_WorktreeScanDigest existing \<noteq> wi_ScanDigest i then False
      else if \<not> SameFrame (cg_Frame existing) (wi_Frame i) then False
      else RecordIsCacheable_cg existing)"

section \<open>Facts about the ladder and the stored forms\<close>

lemmas completeness_levels = CompletenessUnknown_def CompletenessBuiltWithBodies_def CompletenessTypeOnly_def
  CompletenessMetadataOnly_def CompletenessFailed_def

text \<open>A conclusion that crossed two graphs is built with bodies only when both were.\<close>

lemma weaker_built_iff: "IsBuiltWithBodies (WeakerCompleteness a b) \<longleftrightarrow> IsBuiltWithBodies a \<and> IsBuiltWithBodies b"
  by (auto simp: IsBuiltWithBodies_def WeakerCompleteness_def completenessRank_def CompletenessLevels_def completeness_levels)

lemma weaker_rank: "completenessRank (WeakerCompleteness a b) = min (completenessRank a) (completenessRank b)"
  by (auto simp: WeakerCompleteness_def)

lemma parity_iff: "fst (CompletenessParity a b) \<longleftrightarrow> a = b"
  by (cases a; cases b) (simp add: CompletenessParity_def)

lemma sort_exclusions: "set (NormaliseExclusions xs) = set xs - {[]} \<and> sorted (NormaliseExclusions xs)
    \<and> distinct (NormaliseExclusions xs)"
  by (auto simp: NormaliseExclusions_def)

lemma excluded_by_list: "IsModuleExcluded m (NormaliseExclusions xs) = IsModuleExcluded m xs"
  by (auto simp: IsModuleExcluded_def NormaliseExclusions_def list_ex_iff)

lemma analyser_column_roundtrip:
  assumes "a \<in> {zero_analyser} \<union> range ObservedAnalyser \<union> range InferredAnalyser"
  shows "ParseAnalyserColumn (Column a) = Inr a"
proof -
  have obs: "Cut (AnalyserObserved @ CHR '':'' # v) (CHR '':'') = (AnalyserObserved, v, True)"
    "Cut (AnalyserInferred @ CHR '':'' # v) (CHR '':'') = (AnalyserInferred, v, True)" for v
    by (rule Cut_no_sep, simp add: AnalyserObserved_def AnalyserInferred_def)+
  from assms show ?thesis
    by (auto simp: Column_def ParseAnalyserColumn_def analyser_Recorded_def ObservedAnalyser_def InferredAnalyser_def
        zero_analyser_def obs)
qed


text \<open>An interface method's identifier is read back, and a concrete method's is not taken for one.\<close>

lemma interface_method_roundtrip:
  assumes "set (it_Name i) \<inter> set ''.()'' = {}" "it_Name i \<noteq> []" "\<not> HasPrefix (it_Name i) ''*''"
    "set m \<inter> set ''.()'' = {}" "m \<noteq> []"
  shows "ParseInterfaceMethodID (MethodID i m) = Some (it_Package i @ ''.'' @ it_Name i, m)"
proof -
  let ?n = "it_Name i" and ?p = "it_Package i"
  have id: "MethodID i m = ?p @ ''.('' @ ?n @ '').'' @ m" by (simp add: MethodID_def)
  have at: "LastIndex (MethodID i m) ''.('' = Some (length ?p)"
    unfolding id
  proof (rule LastIndex_tail)
    show "LastIndex (tl (''.('' @ ?n @ '').'' @ m)) ''.('' = None"
    proof (cases "LastIndex (''('' @ ?n @ '').'' @ m) ''.(''")
      case (Some j)
      from LastIndex_split [OF this] obtain u v where "''('' @ ?n @ '').'' @ m = u @ ''.('' @ v" by blast
      then have "CHR ''('' \<in> set (?n @ '').'' @ m)" by (cases u) auto
      with assms(1,4) show ?thesis by auto
    qed simp
  qed (simp_all add: HasPrefix_def)
  have "StrIndex (''.('' @ ?n @ '').'' @ m) '').'' = Some (2 + length ?n)"
    using StrIndex_first [of "CHR '')''" "''.('' @ ?n" "''.''" m] assms(1) by auto
  then have off: "StrIndex (drop (length ?p) (MethodID i m)) '').'' = Some (2 + length ?n)"
    by (simp add: id)
  have name: "slice (MethodID i m) (length ?p + 2) (length ?p + (2 + length ?n)) = ?n"
    by (simp add: slice_def id)
  have "length (?p @ ''.('' @ ?n @ '').'') = length ?p + (2 + length ?n) + 2" by simp
  moreover have "drop (length (?p @ ''.('' @ ?n @ '').'')) ((?p @ ''.('' @ ?n @ '').'') @ m) = m" by (rule append_eq_conv_conj [THEN iffD1, THEN conjunct2, symmetric]) simp
  ultimately have meth: "drop (length ?p + (2 + length ?n) + 2) (MethodID i m) = m" by (simp add: id)
  have pkg: "take (length ?p) (MethodID i m) = ?p" by (simp add: id)
  have "\<not> list_ex (\<lambda>c. c \<in> set ''.()'') m" using assms(4) by (auto simp: list_ex_iff)
  with assms(2,3,5) show ?thesis
    by (simp only: ParseInterfaceMethodID_def at off name meth pkg Let_def option.case if_False simp_thms)
qed

end
