(* ===== verification/Callgraph_Answer.thy ===== *)
theory Callgraph_Answer
  imports Callgraph_Types
begin

text \<open>
  What an empty answer to a callers or callees query may claim. The sinks are the reasons an
  absence is not proven; an absence is resolved exactly when there is none. The resolution of a
  symbol to the analysed module that owns it and the choice of the roots of a traversal are
  here too.
\<close>

section \<open>Answers and sinks\<close>

definition AnswerResolvedPresent :: string where "AnswerResolvedPresent = ''RESOLVED-PRESENT''"
definition AnswerResolvedAbsent :: string where "AnswerResolvedAbsent = ''RESOLVED-ABSENT''"
definition AnswerUnresolved :: string where "AnswerUnresolved = ''UNRESOLVED''"

definition IsConfidentNegative :: "string \<Rightarrow> bool" where
  "IsConfidentNegative o' \<longleftrightarrow> o' = AnswerResolvedAbsent"

definition SinkInterfaceDispatch :: string where "SinkInterfaceDispatch = ''interface-dispatch''"
definition SinkTypeOnlyCallee :: string where "SinkTypeOnlyCallee = ''type-only-callee''"
definition SinkUnsafePointerLeaf :: string where "SinkUnsafePointerLeaf = ''unsafe-pointer-leaf''"
definition SinkAssemblyOrLinknameLeaf :: string where "SinkAssemblyOrLinknameLeaf = ''assembly-or-linkname-leaf''"
definition SinkPluginLeaf :: string where "SinkPluginLeaf = ''plugin-leaf''"
definition SinkReferenceScopeUnmeasured :: string where "SinkReferenceScopeUnmeasured = ''reference-scope-unmeasured''"
definition SinkTestHarnessEntry :: string where "SinkTestHarnessEntry = ''test-harness-entry''"
definition SinkDroppedPackageEdges :: string where "SinkDroppedPackageEdges = ''dropped-package-edges''"
definition SinkTestScopeUnmeasured :: string where "SinkTestScopeUnmeasured = ''test-scope-unmeasured''"

record SoundnessSink =
  sk_Kind :: string
  sk_Site :: string
  sk_Detail :: string

definition Describe :: "SoundnessSink \<Rightarrow> string" where
  "Describe s = sk_Kind s @ '' at '' @ sk_Site s @ (if sk_Detail s \<noteq> [] then '' ('' @ sk_Detail s @ '')'' else [])"

record Answer =
  an_Outcome :: string
  an_Sinks :: "SoundnessSink list"

definition Reason :: "Answer \<Rightarrow> string" where
  "Reason v = (if an_Sinks v = [] then [] else Join (map Describe (an_Sinks v)) ''; '')"

definition SymbolMethodName :: "string \<Rightarrow> string" where
  "SymbolMethodName symbolID = (case LastIndex symbolID ''.'' of None \<Rightarrow> symbolID | Some i \<Rightarrow> drop (i + 1) symbolID)"

record NegativeAnswerInputs =
  na_MethodName :: string
  na_QueriedNode :: CallNode
  na_Found :: bool
  na_ModuleLevel :: string
  na_Edges :: "CallEdge list"
  na_NodesByID :: "string \<rightharpoonup> CallNode"
  na_ScanDispatch :: bool
  na_TestScope :: string
  na_TestScopeDetail :: string
  na_ReferenceScope :: string
  na_DroppedEdgePackage :: string
  na_DroppedEdgeDetail :: string
  na_TestsExcludedByRequest :: bool

definition DroppedPackageReason :: "string \<Rightarrow> string" where
  "DroppedPackageReason detail = (case ReadAnalyserLimit detail of
     (l, ok) \<Rightarrow> if ok then ''was not analysed: '' @ Clause l else ''did not typecheck'')"

text \<open>The site of a sink that is about the queried symbol.\<close>

definition querySite :: "NegativeAnswerInputs \<Rightarrow> string" where
  "querySite i = (if cn_ID (na_QueriedNode i) = [] then na_MethodName i else cn_ID (na_QueriedNode i))"

definition leafSinks :: "CallNode \<Rightarrow> SoundnessSink list" where
  "leafSinks n =
     (if cn_UsesUnsafePointer n then [\<lparr>sk_Kind = SinkUnsafePointerLeaf, sk_Site = cn_ID n, sk_Detail = []\<rparr>] else [])
     @ (if cn_IsAssemblyOrLinkname n then [\<lparr>sk_Kind = SinkAssemblyOrLinknameLeaf, sk_Site = cn_ID n, sk_Detail = []\<rparr>] else [])
     @ (if cn_UsesPlugin n then [\<lparr>sk_Kind = SinkPluginLeaf, sk_Site = cn_ID n, sk_Detail = []\<rparr>] else [])"

definition isUnresolvedDispatch :: "string \<Rightarrow> bool" where
  "isUnresolvedDispatch c \<longleftrightarrow> c = ConfidenceCHAOverapprox \<or> c = ConfidenceUnknown_edge"

fun interfaceDispatchSinks ::
  "string \<Rightarrow> CallEdge list \<Rightarrow> (string \<rightharpoonup> CallNode) \<Rightarrow> SoundnessSink list" where
  "interfaceDispatchSinks methodName [] nodesByID = []"
| "interfaceDispatchSinks methodName (e # es) nodesByID =
     (if methodName = [] then []
      else if \<not> isUnresolvedDispatch (ce_Confidence e) then interfaceDispatchSinks methodName es nodesByID
      else case nodesByID (ce_ToID e) of
          None \<Rightarrow> interfaceDispatchSinks methodName es nodesByID
        | Some callee \<Rightarrow>
            if cn_Symbol callee \<noteq> methodName then interfaceDispatchSinks methodName es nodesByID
            else \<lparr>sk_Kind = SinkInterfaceDispatch, sk_Site = ce_FromID e,
                  sk_Detail = ''dispatches on '' @ methodName @ '' via '' @ ce_Confidence e\<rparr>
                 # interfaceDispatchSinks methodName es nodesByID)"

definition unmeasuredScopeSinks :: "NegativeAnswerInputs \<Rightarrow> SoundnessSink list \<Rightarrow> SoundnessSink list" where
  "unmeasuredScopeSinks i sinks = sinks
     @ (if \<not> test_IsMeasured (na_TestScope i) \<and> \<not> na_TestsExcludedByRequest i then
          [\<lparr>sk_Kind = SinkTestScopeUnmeasured, sk_Site = querySite i,
            sk_Detail = (if na_TestScopeDetail i = [] then ''_test.go declarations were not analysed for this module''
                         else na_TestScopeDetail i)\<rparr>]
        else [])
     @ (if \<not> reference_IsMeasured (na_ReferenceScope i) then
          [\<lparr>sk_Kind = SinkReferenceScopeUnmeasured, sk_Site = querySite i,
            sk_Detail = ''function-value references were not extracted for this module, so a registered-but-uncalled symbol has no edge to find''\<rparr>]
        else [])"

text \<open>The first sink of each kind and site, in the order of kind and site.\<close>

definition sinkKey :: "SoundnessSink \<Rightarrow> string" where
  "sinkKey s = sk_Kind s @ [CHR 0x00] @ sk_Site s"

fun firstSinks :: "string list \<Rightarrow> SoundnessSink list \<Rightarrow> SoundnessSink list" where
  "firstSinks seen [] = []"
| "firstSinks seen (s # ss) =
     (if sinkKey s \<in> set seen then firstSinks seen ss else s # firstSinks (sinkKey s # seen) ss)"

definition sinkLess :: "SoundnessSink \<Rightarrow> SoundnessSink \<Rightarrow> bool" where
  "sinkLess a b = (if sk_Kind a \<noteq> sk_Kind b then sk_Kind a < sk_Kind b else sk_Site a < sk_Site b)"

definition dedupeSinks :: "SoundnessSink list \<Rightarrow> SoundnessSink list" where
  "dedupeSinks sinks = stable_sort sinkLess (firstSinks [] sinks)"

text \<open>The four prefixes are tried in turn; a name that only starts with one is no entry point.\<close>

fun harnessPrefix :: "string list \<Rightarrow> string \<Rightarrow> bool" where
  "harnessPrefix [] symbol = False"
| "harnessPrefix (p # ps) symbol = (case CutPrefix symbol p of (rest, ok) \<Rightarrow>
     if \<not> ok then harnessPrefix ps symbol
     else case rest of
         [] \<Rightarrow> p = ''Example''
       | c # _ \<Rightarrow> if c < CHR ''a'' \<or> CHR ''z'' < c then True else harnessPrefix ps symbol)"

definition IsTestHarnessEntry :: "CallNode \<Rightarrow> bool" where
  "IsTestHarnessEntry n =
     (if \<not> cn_IsTest n \<or> cn_Receiver n \<noteq> [] then False
      else if cn_Symbol n = ''TestMain'' then True
      else harnessPrefix [''Test'', ''Benchmark'', ''Fuzz'', ''Example''] (cn_Symbol n))"

definition negativeSinks :: "NegativeAnswerInputs \<Rightarrow> SoundnessSink list" where
  "negativeSinks i =
     unmeasuredScopeSinks i
       ((if na_ModuleLevel i \<noteq> CompletenessUnknown \<and> \<not> IsBuiltWithBodies (na_ModuleLevel i) then
           [\<lparr>sk_Kind = SinkTypeOnlyCallee, sk_Site = querySite i,
             sk_Detail = ''module completeness '' @ level_String (na_ModuleLevel i)\<rparr>] else [])
        @ (if na_DroppedEdgePackage i \<noteq> [] then
             [\<lparr>sk_Kind = SinkDroppedPackageEdges, sk_Site = querySite i,
               sk_Detail = ''package '' @ na_DroppedEdgePackage i @ '' ''
                 @ DroppedPackageReason (na_DroppedEdgeDetail i) @ '', so its edges were dropped''\<rparr>] else [])
        @ (if na_Found i then leafSinks (na_QueriedNode i) else []))
     @ (if na_Found i \<and> IsTestHarnessEntry (na_QueriedNode i) then
          [\<lparr>sk_Kind = SinkTestHarnessEntry, sk_Site = cn_ID (na_QueriedNode i),
            sk_Detail = ''the go test harness invokes it through a synthesised main package that is not part of the analysed graph''\<rparr>]
        else [])
     @ (if na_ScanDispatch i then interfaceDispatchSinks (na_MethodName i) (na_Edges i) (na_NodesByID i) else [])"

definition ClassifyNegativeAnswer :: "NegativeAnswerInputs \<Rightarrow> Answer" where
  "ClassifyNegativeAnswer i = (let sinks = dedupeSinks (negativeSinks i) in
     if sinks = [] then \<lparr>an_Outcome = AnswerResolvedAbsent, an_Sinks = []\<rparr>
     else \<lparr>an_Outcome = AnswerUnresolved, an_Sinks = sinks\<rparr>)"

section \<open>The module of a symbol\<close>

definition IsStdlibPackage :: "string \<Rightarrow> bool" where
  "IsStdlibPackage pkgPath \<longleftrightarrow> pkgPath \<noteq> [] \<and> \<not> Contains (fst (Cut pkgPath (CHR ''/''))) ''.''"

text \<open>Whether a symbol lies under a module path.\<close>

definition under :: "string \<Rightarrow> string \<Rightarrow> bool" where
  "under symbolID m \<longleftrightarrow> m \<noteq> [] \<and> HasPrefix symbolID m
     \<and> (length m < length symbolID \<longrightarrow> symbolID ! length m \<in> {CHR ''.'', CHR ''/''})"

fun longestUnder :: "string \<Rightarrow> string \<Rightarrow> string list \<Rightarrow> string" where
  "longestUnder symbolID best [] = best"
| "longestUnder symbolID best (m # ms) =
     (if \<not> under symbolID m then longestUnder symbolID best ms
      else longestUnder symbolID (if length best < length m then m else best) ms)"

definition ResolveSymbolModule :: "string \<Rightarrow> string list \<Rightarrow> string \<times> bool" where
  "ResolveSymbolModule symbolID analysed =
     (let best = longestUnder symbolID [] analysed in (best, best \<noteq> []))"

fun SymbolFailedPackage :: "string \<Rightarrow> string list \<Rightarrow> string \<times> bool" where
  "SymbolFailedPackage symbolID [] = ([], False)"
| "SymbolFailedPackage symbolID (p # ps) =
     (if p = [] \<or> \<not> HasPrefix symbolID p then SymbolFailedPackage symbolID ps
      else if length p < length symbolID \<and> symbolID ! length p = CHR ''.'' then (p, True)
      else SymbolFailedPackage symbolID ps)"

section \<open>The roots of a traversal\<close>

record RootCandidate =
  rc_ID :: string
  rc_Symbol :: string
  rc_Package :: string
  rc_Receiver :: string
  rc_IsExternal :: bool
  rc_IsExportedAPI :: bool
  rc_IsTest :: bool
  rc_Export :: ExportDirective
  rc_Handler :: InterruptHandler

datatype RootScope = RootScopeProduction | RootScopeWithTests

definition IsInitSymbol :: "string \<Rightarrow> bool" where
  "IsInitSymbol symbol \<longleftrightarrow> symbol = ''init'' \<or> HasPrefix symbol ''init#''"

definition IsSyntheticTestMain :: "string \<Rightarrow> string \<Rightarrow> string \<Rightarrow> bool" where
  "IsSyntheticTestMain pkg symbol receiver \<longleftrightarrow> receiver = [] \<and> symbol = ''main'' \<and> HasSuffix pkg ''.test''"

definition ExternalEntryPointReason ::
  "string \<Rightarrow> string \<Rightarrow> ExportDirective \<Rightarrow> InterruptHandler \<Rightarrow> string" where
  "ExternalEntryPointReason symbol receiver export handler =
     (if IsInitSymbol symbol then
        ''package initialisation '' @ em_dash @ '' the runtime runs it when the package is loaded, so it runs unconditionally''
      else if symbol = ''main'' \<and> receiver = [] then
        ''the process entry point '' @ em_dash @ '' the runtime invokes it''
      else if ed_Kind export = ExportWasm then
        ''a function exported to the WebAssembly host ('' @ export_String export @ '') '' @ em_dash @ '' the host invokes it''
      else if ed_Kind export = ExportC then
        ''a function exported to C ('' @ export_String export @ '') '' @ em_dash @ '' C code, assembly or a vector table invokes it''
      else if ed_Kind export = ExportInterrupt then
        ''an interrupt handler ('' @ export_String export @ '') '' @ em_dash @ '' the hardware invokes it''
      else if \<not> handler_IsZero handler then
        ''a hardware interrupt handler, installed by '' @ ih_Kind handler @ '' at '' @ SiteString handler
          @ '' '' @ em_dash @ '' the hardware invokes it''
      else if symbol = ''ServeHTTP'' \<and> receiver \<noteq> [] then
        ''an http.Handler implementation (method named ServeHTTP) '' @ em_dash @ '' an HTTP server invokes it per request''
      else [])"

definition inRootScope :: "RootScope \<Rightarrow> RootCandidate \<Rightarrow> bool" where
  "inRootScope scope c \<longleftrightarrow> \<not> rc_IsExternal c \<and> \<not> (rc_IsTest c \<and> scope = RootScopeProduction)"

definition SelectOwnedRoots :: "RootCandidate list \<Rightarrow> RootScope \<Rightarrow> string list" where
  "SelectOwnedRoots candidates scope = sort (map rc_ID (filter (inRootScope scope) candidates))"

definition SelectReachabilityRoots :: "RootCandidate list \<Rightarrow> string \<Rightarrow> RootScope \<Rightarrow> string list" where
  "SelectReachabilityRoots candidates kind scope =
     (if kind = ArtifactApplication then SelectOwnedRoots candidates scope
      else let roots = map rc_ID (filter (\<lambda>c. inRootScope scope c \<and> (rc_IsExportedAPI c \<or> IsInitSymbol (rc_Symbol c))) candidates) in
        if roots \<noteq> [] then sort roots else SelectOwnedRoots candidates scope)"

definition SelectEntryPointRoots :: "RootCandidate list \<Rightarrow> RootScope \<Rightarrow> string list" where
  "SelectEntryPointRoots candidates scope =
     sort (map rc_ID (filter (\<lambda>c. inRootScope scope c
        \<and> \<not> IsSyntheticTestMain (rc_Package c) (rc_Symbol c) (rc_Receiver c)
        \<and> (rc_IsExportedAPI c \<or> ExternalEntryPointReason (rc_Symbol c) (rc_Receiver c) (rc_Export c) (rc_Handler c) \<noteq> []))
       candidates))"

definition RootSelectionCaveat :: "string \<Rightarrow> string" where
  "RootSelectionCaveat kind =
     (if kind \<noteq> ArtifactNotEstablished then []
      else ''the analysis did not establish whether this module builds a command, so the traversal was ''
        @ ''rooted at its exported API and package init '' @ em_dash @ '' the library rule, applied as the default rather ''
        @ ''than because the module was measured to be one'')"

section \<open>When an absence is resolved\<close>

lemma firstSinks_keys: "set (map sinkKey (firstSinks seen ss)) = sinkKey ` set ss - set seen"
  by (induction seen ss rule: firstSinks.induct) auto

lemma firstSinks_set: "set (firstSinks seen ss) \<subseteq> set ss"
  by (induction seen ss rule: firstSinks.induct) auto

lemma firstSinks_distinct: "distinct (map sinkKey (firstSinks seen ss))"
proof (induction seen ss rule: firstSinks.induct)
  case (2 seen s ss)
  moreover have "sinkKey s \<notin> set (map sinkKey (firstSinks (sinkKey s # seen) ss))" unfolding firstSinks_keys by simp
  ultimately show ?case by simp
qed simp

lemma firstSinks_Nil: "firstSinks [] ss = [] \<longleftrightarrow> ss = []"
  by (cases ss) auto

lemma swo_sinkLess: "swo sinkLess"
  unfolding sinkLess_def by (intro swo_intros)

lemma dispatch_sinks:
  "set (interfaceDispatchSinks m es by) =
     {\<lparr>sk_Kind = SinkInterfaceDispatch, sk_Site = ce_FromID e, sk_Detail = ''dispatches on '' @ m @ '' via '' @ ce_Confidence e\<rparr>
       | e. e \<in> set es \<and> m \<noteq> [] \<and> isUnresolvedDispatch (ce_Confidence e)
          \<and> (\<exists>n. by (ce_ToID e) = Some n \<and> cn_Symbol n = m)}"
proof (induction es)
  case (Cons e es)
  then show ?case by (cases "m = []") (auto split: option.splits)
qed simp

lemmas sink_kinds = SinkInterfaceDispatch_def SinkTypeOnlyCallee_def SinkUnsafePointerLeaf_def
  SinkAssemblyOrLinknameLeaf_def SinkPluginLeaf_def SinkReferenceScopeUnmeasured_def SinkTestHarnessEntry_def
  SinkDroppedPackageEdges_def SinkTestScopeUnmeasured_def

definition knownSinks :: "string set" where
  "knownSinks = {SinkInterfaceDispatch, SinkTypeOnlyCallee, SinkUnsafePointerLeaf, SinkAssemblyOrLinknameLeaf,
     SinkPluginLeaf, SinkReferenceScopeUnmeasured, SinkTestHarnessEntry, SinkDroppedPackageEdges, SinkTestScopeUnmeasured}"

lemma negativeSinks_kind: "s \<in> set (negativeSinks i) \<Longrightarrow> sk_Kind s \<in> knownSinks"
  by (auto simp: negativeSinks_def unmeasuredScopeSinks_def leafSinks_def dispatch_sinks knownSinks_def split: if_splits)

lemma sinkKey_inj:
  assumes "sinkKey a = sinkKey b" "sk_Kind a \<in> knownSinks" "sk_Kind b \<in> knownSinks"
  shows "sk_Kind a = sk_Kind b \<and> sk_Site a = sk_Site b"
proof -
  have nul: "CHR 0x00 \<notin> set k" if "k \<in> knownSinks" for k
    using that by (auto simp: knownSinks_def sink_kinds)
  from assms(1) have "Cut (sinkKey a) (CHR 0x00) = Cut (sinkKey b) (CHR 0x00)" by simp
  with nul [OF assms(2)] nul [OF assms(3)] show ?thesis by (simp add: sinkKey_def Cut_no_sep)
qed

text \<open>What an absence rests on: nothing on the queried node, its module or a dispatch is left open.\<close>

definition nothingOpen :: "NegativeAnswerInputs \<Rightarrow> bool" where
  "nothingOpen i \<longleftrightarrow>
     (na_ModuleLevel i = CompletenessUnknown \<or> IsBuiltWithBodies (na_ModuleLevel i))
     \<and> na_DroppedEdgePackage i = []
     \<and> (na_Found i \<longrightarrow> \<not> cn_UsesUnsafePointer (na_QueriedNode i) \<and> \<not> cn_IsAssemblyOrLinkname (na_QueriedNode i)
          \<and> \<not> cn_UsesPlugin (na_QueriedNode i) \<and> \<not> IsTestHarnessEntry (na_QueriedNode i))
     \<and> (test_IsMeasured (na_TestScope i) \<or> na_TestsExcludedByRequest i)
     \<and> reference_IsMeasured (na_ReferenceScope i)
     \<and> (na_ScanDispatch i \<and> na_MethodName i \<noteq> [] \<longrightarrow>
          (\<forall>e \<in> set (na_Edges i). isUnresolvedDispatch (ce_Confidence e) \<longrightarrow>
             (\<forall>n. na_NodesByID i (ce_ToID e) = Some n \<longrightarrow> cn_Symbol n \<noteq> na_MethodName i)))"

lemma dispatch_none:
  "interfaceDispatchSinks m es by = [] \<longleftrightarrow>
     (m \<noteq> [] \<longrightarrow> (\<forall>e \<in> set es. isUnresolvedDispatch (ce_Confidence e) \<longrightarrow>
        (\<forall>n. by (ce_ToID e) = Some n \<longrightarrow> cn_Symbol n \<noteq> m)))"
  unfolding set_empty [symmetric] dispatch_sinks by blast

lemma negativeSinks_Nil: "negativeSinks i = [] \<longleftrightarrow> nothingOpen i"
  by (auto simp: negativeSinks_def unmeasuredScopeSinks_def leafSinks_def nothingOpen_def dispatch_none)

text \<open>
  C16: An empty answer is a confident negative exactly when nothing on the queried node, its module
  or a dispatch on its name is left open; the reasons given otherwise are the sinks found, each
  kind and site once, in order.
\<close>

theorem negative_absent_iff:
  "let a = ClassifyNegativeAnswer i in
     (IsConfidentNegative (an_Outcome a) \<longleftrightarrow> nothingOpen i)
     \<and> (IsConfidentNegative (an_Outcome a) \<longleftrightarrow> an_Sinks a = [])
     \<and> an_Outcome a \<noteq> AnswerResolvedPresent
     \<and> set (an_Sinks a) \<subseteq> set (negativeSinks i)
     \<and> (\<lambda>s. (sk_Kind s, sk_Site s)) ` set (an_Sinks a) = (\<lambda>s. (sk_Kind s, sk_Site s)) ` set (negativeSinks i)
     \<and> distinct (map (\<lambda>s. (sk_Kind s, sk_Site s)) (an_Sinks a))
     \<and> sorted_wrt (\<lambda>s t. \<not> sinkLess t s) (an_Sinks a)"
proof -
  let ?a = "ClassifyNegativeAnswer i" and ?k = "\<lambda>s. (sk_Kind s, sk_Site s)"
  let ?f = "firstSinks [] (negativeSinks i)"
  have sinks: "an_Sinks ?a = dedupeSinks (negativeSinks i)"
    by (simp add: ClassifyNegativeAnswer_def Let_def)
  have nil: "an_Sinks ?a = [] \<longleftrightarrow> nothingOpen i"
    unfolding sinks dedupeSinks_def stable_sort_Nil_iff firstSinks_Nil by (rule negativeSinks_Nil)
  have outcome: "an_Outcome ?a = (if an_Sinks ?a = [] then AnswerResolvedAbsent else AnswerUnresolved)"
    by (simp add: ClassifyNegativeAnswer_def Let_def)
  have set: "set (an_Sinks ?a) = set ?f" by (simp add: sinks dedupeSinks_def)
  have keys: "?k ` set ?f = ?k ` set (negativeSinks i)"
  proof (intro equalityI subsetI; elim imageE)
    fix x s assume s: "s \<in> set (negativeSinks i)" "x = ?k s"
    then have "sinkKey s \<in> set (map sinkKey ?f)" unfolding firstSinks_keys by simp
    then obtain t where t: "t \<in> set ?f" "sinkKey t = sinkKey s" by auto
    then have "t \<in> set (negativeSinks i)" using firstSinks_set by blast
    from sinkKey_inj [OF t(2) negativeSinks_kind [OF this] negativeSinks_kind [OF s(1)]] s(2)
    have "x = ?k t" by simp
    then show "x \<in> ?k ` set ?f" using t(1) by (rule image_eqI)
  qed (use firstSinks_set in blast)
  have "distinct (map ?k ?f)"
    using firstSinks_distinct [of "[]" "negativeSinks i"]
    by (auto simp: distinct_map inj_on_def sinkKey_def)
  then have dist: "distinct (map ?k (an_Sinks ?a))"
    unfolding sinks dedupeSinks_def by (rule mset_eq_imp_distinct_iff [THEN iffD1, rotated]) simp
  have "sorted_wrt (\<lambda>s t. \<not> sinkLess t s) (an_Sinks ?a)"
    unfolding sinks dedupeSinks_def by (rule sorted_stable_sort [OF swo_sinkLess])
  moreover have "IsConfidentNegative (an_Outcome ?a) \<longleftrightarrow> an_Sinks ?a = []" "an_Outcome ?a \<noteq> AnswerResolvedPresent"
    by (simp_all add: outcome IsConfidentNegative_def AnswerResolvedAbsent_def AnswerUnresolved_def AnswerResolvedPresent_def)
  moreover have "set (an_Sinks ?a) \<subseteq> set (negativeSinks i)" unfolding set by (rule firstSinks_set)
  ultimately show ?thesis using nil dist keys unfolding Let_def set by simp
qed

section \<open>Resolution and roots\<close>

lemma longestUnder_ok:
  "(longestUnder s best ms = best \<or> longestUnder s best ms \<in> set ms \<and> under s (longestUnder s best ms))
   \<and> length best \<le> length (longestUnder s best ms)
   \<and> (\<forall>m \<in> set ms. under s m \<longrightarrow> length m \<le> length (longestUnder s best ms))"
  by (induction s best ms rule: longestUnder.induct) (auto intro: le_trans)

text \<open>C32: A symbol is resolved to the longest analysed module path it lies under, if there is one.\<close>

theorem resolve_symbol_longest:
  "case ResolveSymbolModule symbolID analysed of (m, found) \<Rightarrow>
     (found \<longleftrightarrow> (\<exists>p \<in> set analysed. under symbolID p))
     \<and> (if found then m \<in> set analysed \<and> under symbolID m
          \<and> (\<forall>p \<in> set analysed. under symbolID p \<longrightarrow> length p \<le> length m \<and> prefix p m)
        else m = [])"
proof -
  let ?m = "longestUnder symbolID [] analysed"
  note ok = longestUnder_ok [of symbolID "[]" analysed]
  have pre: "prefix p ?m" if "under symbolID p" "under symbolID ?m" "length p \<le> length ?m" for p
    using that by (auto simp: under_def HasPrefix_def intro: prefix_length_prefix)
  have ne: "p \<noteq> []" if "under symbolID p" for p using that by (simp add: under_def)
  show ?thesis
  proof (cases "?m = []")
    case True
    with ok ne show ?thesis by (auto simp: ResolveSymbolModule_def)
  next
    case False
    with ok have "?m \<in> set analysed" "under symbolID ?m" by auto
    with ok pre False show ?thesis by (auto simp: ResolveSymbolModule_def)
  qed
qed

theorem resolve_symbol_longest_witness:
  "ResolveSymbolModule ''m/x.F'' [''m'', ''m/x''] = (''m/x'', True)
   \<and> under ''m/x.F'' ''m'' \<and> under ''m/x.F'' ''m/x'' \<and> prefix ''m'' ''m/x''"
proof -
  have e: "ResolveSymbolModule ''m/x.F'' [''m'', ''m/x''] = (''m/x'', True)" by code_simp
  have u: "under ''m/x.F'' ''m''" "under ''m/x.F'' ''m/x''" by code_simp+
  from resolve_symbol_longest [where symbolID = "''m/x.F''" and analysed = "[''m'', ''m/x'']", unfolded e] u(1)
  have "prefix ''m'' ''m/x''" by simp
  with e u show ?thesis by blast
qed

lemma sort_Nil: "sort xs = [] \<longleftrightarrow> xs = []"
  by (metis set_sort set_empty)

lemma owned_roots: "set (SelectOwnedRoots cs scope) = rc_ID ` {c \<in> set cs. inRootScope scope c}"
  by (auto simp: SelectOwnedRoots_def)

text \<open>
  The roots of a reachability question are owned and in scope; an application's are all of
  them, a library's the exported and initialising ones unless it has none, and there is no root
  only where nothing is owned.
\<close>

lemma reachability_roots:
  "set (SelectReachabilityRoots cs kind scope) \<subseteq> set (SelectOwnedRoots cs scope)
   \<and> (SelectReachabilityRoots cs kind scope = [] \<longleftrightarrow> SelectOwnedRoots cs scope = [])
   \<and> (\<forall>c \<in> set cs. inRootScope scope c \<and> (kind = ArtifactApplication \<or> rc_IsExportedAPI c \<or> IsInitSymbol (rc_Symbol c))
        \<longrightarrow> rc_ID c \<in> set (SelectReachabilityRoots cs kind scope))"
  by (auto simp: SelectReachabilityRoots_def SelectOwnedRoots_def Let_def filter_empty_conv sort_Nil)

end
