(* ===== verification/Callgraph_Order.thy ===== *)
theory Callgraph_Order
  imports Callgraph_Types Order_Keys
begin

text \<open>
  The canonical orderings of the collections of a call-graph record, and the record brought
  into that order. Each ordering is shown to be total, so the order the analyser emitted its
  elements in does not survive.
\<close>

section \<open>The comparators\<close>

definition exportDirectiveLess :: "ExportDirective \<Rightarrow> ExportDirective \<Rightarrow> bool" where
  "exportDirectiveLess a b = (if ed_Kind a \<noteq> ed_Kind b then ed_Kind a < ed_Kind b else ed_Name a < ed_Name b)"

definition interruptHandlerLess :: "InterruptHandler \<Rightarrow> InterruptHandler \<Rightarrow> bool" where
  "interruptHandlerLess a b =
     (if ih_Kind a \<noteq> ih_Kind b then ih_Kind a < ih_Kind b
      else if sp_File (ih_Site a) \<noteq> sp_File (ih_Site b) then sp_File (ih_Site a) < sp_File (ih_Site b)
      else sp_Line (ih_Site a) < sp_Line (ih_Site b))"

definition CallNodeLess :: "CallNode \<Rightarrow> CallNode \<Rightarrow> bool" where
  "CallNodeLess a b =
     (if cn_ID a \<noteq> cn_ID b then cn_ID a < cn_ID b
      else if cn_Module a \<noteq> cn_Module b then cn_Module a < cn_Module b
      else if cn_Package a \<noteq> cn_Package b then cn_Package a < cn_Package b
      else if cn_Symbol a \<noteq> cn_Symbol b then cn_Symbol a < cn_Symbol b
      else if cn_Receiver a \<noteq> cn_Receiver b then cn_Receiver a < cn_Receiver b
      else if sp_File (cn_Position a) \<noteq> sp_File (cn_Position b) then sp_File (cn_Position a) < sp_File (cn_Position b)
      else if sp_Line (cn_Position a) \<noteq> sp_Line (cn_Position b) then sp_Line (cn_Position a) < sp_Line (cn_Position b)
      else if cn_IsExternal a \<noteq> cn_IsExternal b then \<not> cn_IsExternal a
      else if cn_IsExportedAPI a \<noteq> cn_IsExportedAPI b then \<not> cn_IsExportedAPI a
      else if cn_UsesUnsafePointer a \<noteq> cn_UsesUnsafePointer b then \<not> cn_UsesUnsafePointer a
      else if cn_IsAssemblyOrLinkname a \<noteq> cn_IsAssemblyOrLinkname b then \<not> cn_IsAssemblyOrLinkname a
      else if cn_UsesPlugin a \<noteq> cn_UsesPlugin b then \<not> cn_UsesPlugin a
      else if cn_IsTest a \<noteq> cn_IsTest b then \<not> cn_IsTest a
      else if cn_ExportDirective a \<noteq> cn_ExportDirective b then
        exportDirectiveLess (cn_ExportDirective a) (cn_ExportDirective b)
      else interruptHandlerLess (cn_InterruptHandler a) (cn_InterruptHandler b))"

definition CallEdgeLess :: "CallEdge \<Rightarrow> CallEdge \<Rightarrow> bool" where
  "CallEdgeLess a b =
     (if ce_FromID a \<noteq> ce_FromID b then ce_FromID a < ce_FromID b
      else if ce_ToID a \<noteq> ce_ToID b then ce_ToID a < ce_ToID b
      else if sp_File (ce_CallSite a) \<noteq> sp_File (ce_CallSite b) then sp_File (ce_CallSite a) < sp_File (ce_CallSite b)
      else if sp_Line (ce_CallSite a) \<noteq> sp_Line (ce_CallSite b) then sp_Line (ce_CallSite a) < sp_Line (ce_CallSite b)
      else if ce_Kind a \<noteq> ce_Kind b then ce_Kind a < ce_Kind b
      else if ce_Confidence a \<noteq> ce_Confidence b then ce_Confidence a < ce_Confidence b
      else if ce_ReflectDispatch a \<noteq> ce_ReflectDispatch b then \<not> ce_ReflectDispatch a
      else False)"

definition stringsLess :: "string list \<Rightarrow> string list \<Rightarrow> bool" where
  "stringsLess a b = listLess (<) a b"

definition InterfaceTypeLess :: "InterfaceType \<Rightarrow> InterfaceType \<Rightarrow> bool" where
  "InterfaceTypeLess a b =
     (if it_ID a \<noteq> it_ID b then it_ID a < it_ID b
      else if it_Package a \<noteq> it_Package b then it_Package a < it_Package b
      else if it_Name a \<noteq> it_Name b then it_Name a < it_Name b
      else if sp_File (it_Position a) \<noteq> sp_File (it_Position b) then sp_File (it_Position a) < sp_File (it_Position b)
      else if sp_Line (it_Position a) \<noteq> sp_Line (it_Position b) then sp_Line (it_Position a) < sp_Line (it_Position b)
      else if it_IsTest a \<noteq> it_IsTest b then \<not> it_IsTest a
      else stringsLess (it_Methods a) (it_Methods b))"

definition ImplementedMethodLess :: "ImplementedMethod \<Rightarrow> ImplementedMethod \<Rightarrow> bool" where
  "ImplementedMethodLess a b =
     (if im_Method a \<noteq> im_Method b then im_Method a < im_Method b else im_NodeID a < im_NodeID b)"

definition InterfaceImplementationLess :: "InterfaceImplementation \<Rightarrow> InterfaceImplementation \<Rightarrow> bool" where
  "InterfaceImplementationLess a b =
     (if ii_InterfaceID a \<noteq> ii_InterfaceID b then ii_InterfaceID a < ii_InterfaceID b
      else if ii_TypeID a \<noteq> ii_TypeID b then ii_TypeID a < ii_TypeID b
      else if ii_Package a \<noteq> ii_Package b then ii_Package a < ii_Package b
      else if sp_File (ii_Position a) \<noteq> sp_File (ii_Position b) then sp_File (ii_Position a) < sp_File (ii_Position b)
      else if sp_Line (ii_Position a) \<noteq> sp_Line (ii_Position b) then sp_Line (ii_Position a) < sp_Line (ii_Position b)
      else if ii_IsTest a \<noteq> ii_IsTest b then \<not> ii_IsTest a
      else listLess ImplementedMethodLess (ii_Methods a) (ii_Methods b))"

definition SynthesisedRequireLess :: "SynthesisedRequire \<Rightarrow> SynthesisedRequire \<Rightarrow> bool" where
  "SynthesisedRequireLess a b = (if sr_Path a \<noteq> sr_Path b then sr_Path a < sr_Path b else sr_Version a < sr_Version b)"

section \<open>The record in canonical order\<close>

text \<open>Lists already in order are taken as they are.\<close>

definition edgesInCanonicalOrder :: "CallEdge list \<Rightarrow> bool" where
  "edgesInCanonicalOrder es = inOrder CallEdgeLess es"

definition canonicalEdgeOrder :: "CallEdge list \<Rightarrow> CallEdge list" where
  "canonicalEdgeOrder es = (if edgesInCanonicalOrder es then es else stable_sort CallEdgeLess es)"

definition canonicalNodeOrder :: "CallNode list \<Rightarrow> CallNode list" where
  "canonicalNodeOrder ns = (if inOrder CallNodeLess ns then ns else stable_sort CallNodeLess ns)"

definition sortMethods_type :: "InterfaceType \<Rightarrow> InterfaceType" where
  "sortMethods_type i = i\<lparr>it_Methods := sort (it_Methods i)\<rparr>"

definition sortMethods_impl :: "InterfaceImplementation \<Rightarrow> InterfaceImplementation" where
  "sortMethods_impl m = m\<lparr>ii_Methods := stable_sort ImplementedMethodLess (ii_Methods m)\<rparr>"

definition orderedInterfaces :: "InterfaceType list \<Rightarrow> InterfaceType list" where
  "orderedInterfaces is = stable_sort InterfaceTypeLess (map sortMethods_type is)"

definition orderedImplementations :: "InterfaceImplementation list \<Rightarrow> InterfaceImplementation list" where
  "orderedImplementations ms = stable_sort InterfaceImplementationLess (map sortMethods_impl ms)"

definition canonicalOrder_cg :: "CallGraphRecord \<Rightarrow> CallGraphRecord" where
  "canonicalOrder_cg r = r\<lparr>
     cg_Nodes := stable_sort CallNodeLess (cg_Nodes r),
     cg_Edges := stable_sort CallEdgeLess (cg_Edges r),
     cg_Interfaces := orderedInterfaces (cg_Interfaces r),
     cg_Implementations := orderedImplementations (cg_Implementations r),
     cg_ExclusionList := sort (cg_ExclusionList r),
     cg_FailedPackages := sort (cg_FailedPackages r),
     cg_PrefixAttributedPackages := sort (cg_PrefixAttributedPackages r),
     cg_StdlibPackages := sort (cg_StdlibPackages r),
     cg_DependencyPackages := sort (cg_DependencyPackages r),
     cg_ForeignModulesBuilt := stable_sort ForeignModuleLess (cg_ForeignModulesBuilt r),
     cg_Frame := (cg_Frame r)\<lparr>bf_TinyGoTags := sort (bf_TinyGoTags (cg_Frame r))\<rparr>\<rparr>"

section \<open>The orderings are total\<close>

type_synonym position_key = "string \<times> int"

definition nodeKey :: "CallNode \<Rightarrow> string \<times> string \<times> string \<times> string \<times> string \<times> string \<times> int \<times> bool \<times> bool
    \<times> bool \<times> bool \<times> bool \<times> bool \<times> (string \<times> string) \<times> string \<times> string \<times> int" where
  "nodeKey n = (cn_ID n, cn_Module n, cn_Package n, cn_Symbol n, cn_Receiver n, sp_File (cn_Position n), sp_Line (cn_Position n),
     cn_IsExternal n, cn_IsExportedAPI n, cn_UsesUnsafePointer n, cn_IsAssemblyOrLinkname n, cn_UsesPlugin n, cn_IsTest n,
     (ed_Kind (cn_ExportDirective n), ed_Name (cn_ExportDirective n)),
     ih_Kind (cn_InterruptHandler n), sp_File (ih_Site (cn_InterruptHandler n)), sp_Line (ih_Site (cn_InterruptHandler n)))"

lemma export_key: "exportDirectiveLess a b \<longleftrightarrow> (ed_Kind a, ed_Name a) < (ed_Kind b, ed_Name b)"
  by (simp only: exportDirectiveLess_def less_pair)

lemma export_eq: "a \<noteq> b \<longleftrightarrow> (ed_Kind a, ed_Name a) \<noteq> (ed_Kind b, ed_Name b)" for a b :: ExportDirective
  by (cases a; cases b) simp

lemma CallNodeLess_key: "CallNodeLess a b \<longleftrightarrow> nodeKey a < nodeKey b"
  by (simp only: CallNodeLess_def nodeKey_def less_pair less_flag export_key interruptHandlerLess_def
      export_eq [of "cn_ExportDirective a"])

lemma nodeKey_inj: "nodeKey a = nodeKey b \<Longrightarrow> a = b"
  by (cases a; cases b)
    (auto simp: nodeKey_def intro!: SourcePosition.equality ExportDirective.equality InterruptHandler.equality)

interpretation nodes: canonical_less CallNodeLess
  by (rule canonical_by_key [OF CallNodeLess_key nodeKey_inj])

lemma CallEdgeLess_key:
  "CallEdgeLess a b \<longleftrightarrow>
     (ce_FromID a, ce_ToID a, sp_File (ce_CallSite a), sp_Line (ce_CallSite a), ce_Kind a, ce_Confidence a, ce_ReflectDispatch a)
     < (ce_FromID b, ce_ToID b, sp_File (ce_CallSite b), sp_Line (ce_CallSite b), ce_Kind b, ce_Confidence b, ce_ReflectDispatch b)"
  by (simp only: CallEdgeLess_def less_pair less_flag_last)

interpretation edges: canonical_less CallEdgeLess
  by (rule canonical_by_key [OF CallEdgeLess_key]) (auto intro!: CallEdge.equality SourcePosition.equality)

lemma ImplementedMethodLess_key:
  "ImplementedMethodLess a b \<longleftrightarrow> (im_Method a, im_NodeID a) < (im_Method b, im_NodeID b)"
  by (simp only: ImplementedMethodLess_def less_pair)

lemma method_eq: "(im_Method a, im_NodeID a) = (im_Method b, im_NodeID b) \<Longrightarrow> a = b" for a b :: ImplementedMethod
  by (auto intro!: ImplementedMethod.equality)

interpretation methods: canonical_less ImplementedMethodLess
  by (rule canonical_by_key [OF ImplementedMethodLess_key method_eq])

lemma InterfaceTypeLess_key:
  "InterfaceTypeLess a b \<longleftrightarrow>
     (it_ID a, it_Package a, it_Name a, sp_File (it_Position a), sp_Line (it_Position a), it_IsTest a, length (it_Methods a), map id (it_Methods a))
     < (it_ID b, it_Package b, it_Name b, sp_File (it_Position b), sp_Line (it_Position b), it_IsTest b, length (it_Methods b), map id (it_Methods b))"
proof -
  have m: "stringsLess x y \<longleftrightarrow> (length x, map id x) < (length y, map id y)" for x y
    unfolding stringsLess_def by (rule listLess_key) simp_all
  show ?thesis by (simp only: InterfaceTypeLess_def less_pair less_flag m)
qed

interpretation interfaces: canonical_less InterfaceTypeLess
  by (rule canonical_by_key [OF InterfaceTypeLess_key]) (auto intro!: InterfaceType.equality SourcePosition.equality)

lemma InterfaceImplementationLess_key:
  "InterfaceImplementationLess a b \<longleftrightarrow>
     (ii_InterfaceID a, ii_TypeID a, ii_Package a, sp_File (ii_Position a), sp_Line (ii_Position a), ii_IsTest a,
       length (ii_Methods a), map (\<lambda>m. (im_Method m, im_NodeID m)) (ii_Methods a))
     < (ii_InterfaceID b, ii_TypeID b, ii_Package b, sp_File (ii_Position b), sp_Line (ii_Position b), ii_IsTest b,
       length (ii_Methods b), map (\<lambda>m. (im_Method m, im_NodeID m)) (ii_Methods b))"
  by (simp only: InterfaceImplementationLess_def less_pair less_flag listLess_key [OF ImplementedMethodLess_key method_eq])

interpretation implementations: canonical_less InterfaceImplementationLess
proof (rule canonical_by_key [OF InterfaceImplementationLess_key])
  have "inj (\<lambda>m :: ImplementedMethod. (im_Method m, im_NodeID m))" by (rule injI) (rule method_eq)
  then show "a = b"
    if "(ii_InterfaceID a, ii_TypeID a, ii_Package a, sp_File (ii_Position a), sp_Line (ii_Position a), ii_IsTest a,
       length (ii_Methods a), map (\<lambda>m. (im_Method m, im_NodeID m)) (ii_Methods a))
     = (ii_InterfaceID b, ii_TypeID b, ii_Package b, sp_File (ii_Position b), sp_Line (ii_Position b), ii_IsTest b,
       length (ii_Methods b), map (\<lambda>m. (im_Method m, im_NodeID m)) (ii_Methods b))" for a b :: InterfaceImplementation
    using that by (auto dest: map_injective intro!: InterfaceImplementation.equality SourcePosition.equality)
qed

lemma ForeignModuleLess_key: "ForeignModuleLess a b \<longleftrightarrow> (fm_Path a, fm_Version a) < (fm_Path b, fm_Version b)"
  by (simp only: ForeignModuleLess_def less_pair)

interpretation foreign: canonical_less ForeignModuleLess
  by (rule canonical_by_key [OF ForeignModuleLess_key]) (auto intro!: ForeignModule.equality)

lemma DroppedReplaceLess_key:
  "DroppedReplaceLess a b \<longleftrightarrow> (dr_Path a, dr_Version a, dr_Target a) < (dr_Path b, dr_Version b, dr_Target b)"
  by (simp only: DroppedReplaceLess_def less_pair)

interpretation replaces: canonical_less DroppedReplaceLess
  by (rule canonical_by_key [OF DroppedReplaceLess_key]) (auto intro!: DroppedReplace.equality)

lemma SynthesisedRequireLess_key:
  "SynthesisedRequireLess a b \<longleftrightarrow> (sr_Path a, sr_Version a) < (sr_Path b, sr_Version b)"
  by (simp only: SynthesisedRequireLess_def less_pair)

interpretation requires: canonical_less SynthesisedRequireLess
  by (rule canonical_by_key [OF SynthesisedRequireLess_key]) (auto intro!: SynthesisedRequire.equality)

lemma canonicalEdgeOrder_sort: "canonicalEdgeOrder es = stable_sort CallEdgeLess es"
  unfolding canonicalEdgeOrder_def edgesInCanonicalOrder_def by (rule edges.skip_sort)

lemma canonicalNodeOrder_sort: "canonicalNodeOrder ns = stable_sort CallNodeLess ns"
  unfolding canonicalNodeOrder_def by (rule nodes.skip_sort)

section \<open>One record in any arrangement\<close>

text \<open>The same interface or implementation with its methods listed in another order.\<close>

definition sameInterface :: "InterfaceType \<Rightarrow> InterfaceType \<Rightarrow> bool" where
  "sameInterface a b \<longleftrightarrow> mset (it_Methods a) = mset (it_Methods b) \<and> a\<lparr>it_Methods := []\<rparr> = b\<lparr>it_Methods := []\<rparr>"

definition sameImplementation :: "InterfaceImplementation \<Rightarrow> InterfaceImplementation \<Rightarrow> bool" where
  "sameImplementation a b \<longleftrightarrow> mset (ii_Methods a) = mset (ii_Methods b) \<and> a\<lparr>ii_Methods := []\<rparr> = b\<lparr>ii_Methods := []\<rparr>"

lemma sortMethods_type_same: "sameInterface a b \<Longrightarrow> sortMethods_type a = sortMethods_type b"
  by (cases a; cases b) (auto simp: sameInterface_def sortMethods_type_def InterfaceType.defs intro: properties_for_sort)

lemma sortMethods_impl_same: "sameImplementation a b \<Longrightarrow> sortMethods_impl a = sortMethods_impl b"
  by (cases a; cases b) (auto simp: sameImplementation_def sortMethods_impl_def InterfaceImplementation.defs intro: methods.sort_arrangement)

lemma orderedInterfaces_any: "rearranged sameInterface xs ys \<Longrightarrow> orderedInterfaces xs = orderedInterfaces ys"
  unfolding orderedInterfaces_def by (intro interfaces.sort_arrangement rearranged_mset sortMethods_type_same)

lemma orderedImplementations_any:
  "rearranged sameImplementation xs ys \<Longrightarrow> orderedImplementations xs = orderedImplementations ys"
  unfolding orderedImplementations_def by (intro implementations.sort_arrangement rearranged_mset sortMethods_impl_same)

end
