(* ===== verification/Callgraph_Seal.thy ===== *)
theory Callgraph_Seal
  imports Callgraph_Order Go_Encoding Record_Stamp
begin

text \<open>
  The seal of a call-graph record (\<open>internal/callgraph/domain/hasher.go\<close>): its canonical JSON, the
  hash that is streamed over it without holding the edges, the digest of a stored record, and
  verification. SHA-256 is the parameter \<open>H\<close> from bytes to bytes.
\<close>

section \<open>The canonical JSON of the parts\<close>

definition omitEmpty :: "string \<Rightarrow> string \<Rightarrow> (string \<times> json) list" where
  "omitEmpty k v = (if v = [] then [] else [(k, JStr v)])"

definition omitEmptyStrings :: "string \<Rightarrow> string list \<Rightarrow> (string \<times> json) list" where
  "omitEmptyStrings k vs = (if vs = [] then [] else [(k, JArr (map JStr vs))])"

definition posJson :: "SourcePosition \<Rightarrow> json" where
  "posJson p = JObj [(''file'', JStr (sp_File p)), (''line'', JInt (sp_Line p))]"

definition exportJson :: "ExportDirective \<Rightarrow> (string \<times> json) list" where
  "exportJson d = (if export_IsZero d then []
     else [(''export_directive'', JObj ([(''kind'', JStr (ed_Kind d))] @ omitEmpty ''name'' (ed_Name d)))])"

definition handlerJson :: "InterruptHandler \<Rightarrow> (string \<times> json) list" where
  "handlerJson h = (if handler_IsZero h then []
     else [(''interrupt_handler'', JObj [(''kind'', JStr (ih_Kind h)), (''site'', posJson (ih_Site h))])])"

definition nodeJson :: "CallNode \<Rightarrow> json" where
  "nodeJson n = JObj (exportJson (cn_ExportDirective n)
     @ [(''id'', JStr (cn_ID n)),
        (''is_assembly_or_linkname'', JBool (cn_IsAssemblyOrLinkname n)),
        (''is_exported_api'', JBool (cn_IsExportedAPI n)),
        (''is_external'', JBool (cn_IsExternal n)),
        (''is_test'', JBool (cn_IsTest n))]
     @ handlerJson (cn_InterruptHandler n)
     @ [(''module'', JStr (cn_Module n)),
        (''package'', JStr (cn_Package n)),
        (''position'', posJson (cn_Position n)),
        (''receiver'', JStr (cn_Receiver n)),
        (''symbol'', JStr (cn_Symbol n)),
        (''uses_plugin'', JBool (cn_UsesPlugin n)),
        (''uses_unsafe_pointer'', JBool (cn_UsesUnsafePointer n))])"

definition interfaceJson :: "InterfaceType \<Rightarrow> json" where
  "interfaceJson i = JObj [(''id'', JStr (it_ID i)), (''is_test'', JBool (it_IsTest i)),
     (''methods'', JArr (map JStr (it_Methods i))), (''name'', JStr (it_Name i)),
     (''package'', JStr (it_Package i)), (''position'', posJson (it_Position i))]"

definition implementationJson :: "InterfaceImplementation \<Rightarrow> json" where
  "implementationJson m = JObj [(''interface_id'', JStr (ii_InterfaceID m)), (''is_test'', JBool (ii_IsTest m)),
     (''methods'', JArr (map (\<lambda>x. JObj [(''method'', JStr (im_Method x)), (''node_id'', JStr (im_NodeID x))]) (ii_Methods m))),
     (''package'', JStr (ii_Package m)), (''position'', posJson (ii_Position m)), (''type_id'', JStr (ii_TypeID m))]"

definition canonicalEdgeOf :: "CallEdge \<Rightarrow> json" where
  "canonicalEdgeOf e = JObj ([(''call_site'', posJson (ce_CallSite e)), (''confidence'', JStr (ce_Confidence e)),
     (''from_id'', JStr (ce_FromID e))] @ omitEmpty ''kind'' (ce_Kind e)
     @ [(''reflect_dispatch'', JBool (ce_ReflectDispatch e)), (''to_id'', JStr (ce_ToID e))])"

definition canonicalFrameOf :: "BuildFrame \<Rightarrow> (string \<times> json) list" where
  "canonicalFrameOf f = (if frame_IsZero f then []
     else [(''frame'', JObj ([(''goarch'', JStr (bf_GOARCH f))] @ omitEmpty ''goarm'' (bf_GOARM f)
       @ [(''goos'', JStr (bf_GOOS f))] @ omitEmptyStrings ''tinygo_tags'' (bf_TinyGoTags f)
       @ omitEmpty ''tinygo_target'' (bf_TinyGoTarget f) @ omitEmpty ''tinygo_version'' (bf_TinyGoVersion f)))])"

definition canonicalDerivation :: "GenerationDerivation \<Rightarrow> (string \<times> json) list" where
  "canonicalDerivation d = (if \<not> derivation_IsRecorded_cg d then []
     else [(''derived_by'', JObj (omitEmpty ''gate'' (gd_Gate d) @ omitEmpty ''outcome'' (gd_Outcome d)))])"

definition canonicalForeignModules :: "ForeignModule list \<Rightarrow> (string \<times> json) list" where
  "canonicalForeignModules mods = (if mods = [] then []
     else [(''foreign_modules_built'', JArr (map (\<lambda>m. JObj [(''path'', JStr (fm_Path m)), (''version'', JStr (fm_Version m))])
       (stable_sort ForeignModuleLess mods)))])"

definition canonicalRequires :: "SynthesisedRequire list \<Rightarrow> (string \<times> json) list" where
  "canonicalRequires reqs = (if reqs = [] then []
     else [(''requires'', JArr (map (\<lambda>q. JObj [(''path'', JStr (sr_Path q)), (''version'', JStr (sr_Version q))])
       (stable_sort SynthesisedRequireLess reqs)))])"

definition canonicalSynthesisedGoMod :: "SynthesisedGoMod \<Rightarrow> (string \<times> json) list" where
  "canonicalSynthesisedGoMod g = (if gomod_IsZero g then []
     else [(''synthesised_go_mod'', JObj ([(''go_directive'', JStr (sg_GoDirective g)), (''module_path'', JStr (sg_ModulePath g))]
       @ canonicalRequires (sg_Requires g) @ [(''vendor_tree_present'', JBool (sg_VendorTreePresent g))]))])"

definition canonicalDroppedReplaces :: "DroppedReplace list \<Rightarrow> (string \<times> json) list" where
  "canonicalDroppedReplaces ds = (if ds = [] then []
     else [(''dropped_replaces'', JArr (map (\<lambda>d. JObj ([(''path'', JStr (dr_Path d)), (''target'', JStr (dr_Target d))]
       @ omitEmpty ''version'' (dr_Version d))) (stable_sort DroppedReplaceLess ds)))])"

definition interfacesJson :: "InterfaceType list \<Rightarrow> (string \<times> json) list" where
  "interfacesJson is = (if is = [] then [] else [(''interfaces'', JArr (map interfaceJson (orderedInterfaces is)))])"

definition implementationsJson :: "InterfaceImplementation list \<Rightarrow> (string \<times> json) list" where
  "implementationsJson ms = (if ms = [] then [] else [(''implementations'', JArr (map implementationJson (orderedImplementations ms)))])"

section \<open>The record\<close>

text \<open>The fields before and after the edges, in the order the canonical shape declares them.\<close>

definition shellBefore :: "CallGraphRecord \<Rightarrow> (string \<times> json) list" where
  "shellBefore r =
     [(''algorithm'', JStr (cg_Algorithm r))]
     @ omitEmpty ''analysis_source'' (cg_AnalysisSource r)
     @ omitEmpty ''toolchain'' (cg_Toolchain r)
     @ omitEmpty ''artifact_kind'' (cg_ArtifactKind r)
     @ omitEmpty ''completeness'' (cg_Completeness r)
     @ omitEmpty ''artefact_identity'' (cg_ArtefactIdentity r)
     @ omitEmpty ''build_list_source'' (cg_BuildListSource r)
     @ [(''content_hash'', JStr (cg_ContentHash r)),
        (''coordinate'', JObj [(''path'', JStr (Path (cg_Coordinate r))), (''version'', JStr (Version (cg_Coordinate r)))])]
     @ canonicalDerivation (cg_DerivedBy r)
     @ [(''ecosystem'', JStr (cg_Ecosystem r)), (''edge_count'', JInt (cg_EdgeCount r))]"

definition shellAfter :: "CallGraphRecord \<Rightarrow> (string \<times> json) list" where
  "shellAfter r =
     omitEmptyStrings ''exclusion_list'' (sort (cg_ExclusionList r))
     @ omitEmpty ''exclusion_reason'' (cg_ExclusionReason r)
     @ [(''extracted_at'', JStr (Format (cg_ExtractedAt r)))]
     @ omitEmptyStrings ''failed_packages'' (sort (cg_FailedPackages r))
     @ omitEmpty ''failure_cause'' (cg_FailureCause r)
     @ [(''failure_detail'', JStr (cg_FailureDetail r))]
     @ implementationsJson (cg_Implementations r)
     @ interfacesJson (cg_Interfaces r)
     @ [(''node_count'', JInt (cg_NodeCount r))]
     @ omitEmptyStrings ''prefix_attributed_packages'' (sort (cg_PrefixAttributedPackages r))
     @ canonicalForeignModules (cg_ForeignModulesBuilt r)
     @ canonicalFrameOf (cg_Frame r)
     @ omitEmptyStrings ''stdlib_packages'' (sort (cg_StdlibPackages r))
     @ omitEmptyStrings ''dependency_packages'' (sort (cg_DependencyPackages r))
     @ [(''nodes'', JArr (map nodeJson (canonicalNodeOrder (cg_Nodes r)))),
        (''overall_status'', JInt (cg_OverallStatus r)),
        (''pipeline_version'', JStr (cg_PipelineVersion r)),
        (''schema_version'', JStr (cg_SchemaVersion r))]
     @ omitEmpty ''source_content_hash'' (cg_SourceContentHash r)
     @ canonicalSynthesisedGoMod (cg_SynthesisedGoMod r)
     @ canonicalDroppedReplaces (cg_DroppedReplaces r)
     @ omitEmpty ''reference_scope'' (cg_ReferenceScope r)
     @ omitEmpty ''test_scope'' (cg_TestScope r)
     @ omitEmpty ''test_scope_detail'' (cg_TestScopeDetail r)
     @ omitEmpty ''worktree_digest'' (cg_WorktreeDigest r)
     @ omitEmpty ''worktree_scan_digest'' (cg_WorktreeScanDigest r)
     @ omitEmpty ''analysis_root'' (cg_AnalysisRoot r)"

definition canonicalShell :: "CallGraphRecord \<Rightarrow> (string \<times> json) list" where
  "canonicalShell r = shellBefore r @ [(''edges'', JNull)] @ shellAfter r"

datatype node_error = NodeExport string export_error | NodeHandler string handler_error

fun validateExportDirectives :: "CallNode list \<Rightarrow> node_error option" where
  "validateExportDirectives [] = None"
| "validateExportDirectives (n # ns) = (case export_Validate (cn_ExportDirective n) of
       Some e \<Rightarrow> Some (NodeExport (cn_ID n) e)
     | None \<Rightarrow> (case handler_Validate (cn_InterruptHandler n) of
           Some e \<Rightarrow> Some (NodeHandler (cn_ID n) e)
         | None \<Rightarrow> validateExportDirectives ns))"

datatype seal_error_cg = SealNode node_error | SealEdges | SealMismatch string string

definition marshalCanonical :: "CallGraphRecord \<Rightarrow> seal_error_cg + string" where
  "marshalCanonical r = (case validateExportDirectives (cg_Nodes r) of
       Some e \<Rightarrow> Inl (SealNode e)
     | None \<Rightarrow> Inr (print (JObj (shellBefore r
         @ [(''edges'', JArr (map canonicalEdgeOf (canonicalEdgeOrder (cg_Edges r))))] @ shellAfter r))))"

section \<open>The streamed hash\<close>

definition canonicalEdgeChunk :: nat where "canonicalEdgeChunk = 4096"

definition edgesKey :: string where "edgesKey = [quoteMark] @ ''edges'' @ [quoteMark, CHR '':'']"

definition edgesPlaceholder :: string where "edgesPlaceholder = edgesKey @ ''null''"

definition storedEdgesSpan :: string where "storedEdgesSpan = edgesKey @ ''[]''"

text \<open>A chunk is encoded as an array and a line end; its brackets and the line end are cut off.\<close>

definition chunkText :: "CallEdge list \<Rightarrow> string" where
  "chunkText chunk = (let b = print (JArr (map canonicalEdgeOf chunk)) @ [CHR 0x0A] in slice b 1 (length b - 2))"

function writeChunks :: "bool \<Rightarrow> CallEdge list \<Rightarrow> string" where
  "writeChunks started es = (if es = [] then []
     else (if started then '','' else []) @ chunkText (take canonicalEdgeChunk es)
       @ writeChunks True (drop canonicalEdgeChunk es))"
  by pat_completeness auto
termination by (relation "measure (\<lambda>(_, es). length es)") (auto simp: canonicalEdgeChunk_def)

declare writeChunks.simps [simp del]

definition writeCanonicalEdges :: "CallEdge list \<Rightarrow> string" where
  "writeCanonicalEdges es = ''['' @ writeChunks False es @ '']''"

text \<open>The hash of a text with the edges written in the place of one span, which must occur once.\<close>

definition hashAround :: "(string \<Rightarrow> string) \<Rightarrow> string \<Rightarrow> string \<Rightarrow> CallEdge list \<Rightarrow> seal_error_cg + string" where
  "hashAround H shell span es = (case StrIndex shell span of
       None \<Rightarrow> Inl SealEdges
     | Some at \<Rightarrow>
         if Contains (drop (at + length span) shell) span then Inl SealEdges
         else Inr (''sha256:'' @ EncodeToString
           (H (take at shell @ edgesKey @ writeCanonicalEdges es @ drop (at + length span) shell))))"

definition hashCanonical :: "(string \<Rightarrow> string) \<Rightarrow> CallGraphRecord \<Rightarrow> seal_error_cg + string" where
  "hashCanonical H r = (case validateExportDirectives (cg_Nodes r) of
       Some e \<Rightarrow> Inl (SealNode e)
     | None \<Rightarrow> hashAround H (print (JObj (canonicalShell r))) edgesPlaceholder (canonicalEdgeOrder (cg_Edges r)))"

definition StoredDigest :: "(string \<Rightarrow> string) \<Rightarrow> string \<Rightarrow> CallEdge list \<Rightarrow> seal_error_cg + string" where
  "StoredDigest H blanked es = hashAround H blanked storedEdgesSpan (canonicalEdgeOrder es)"

definition SetContentHash_cg :: "(string \<Rightarrow> string) \<Rightarrow> CallGraphRecord \<Rightarrow> seal_error_cg + CallGraphRecord" where
  "SetContentHash_cg H r = (let c = (canonicalOrder_cg r)\<lparr>cg_ContentHash := []\<rparr> in
     case hashCanonical H c of Inl e \<Rightarrow> Inl e | Inr s \<Rightarrow> Inr (c\<lparr>cg_ContentHash := s\<rparr>))"

definition VerifyContentHash_cg :: "(string \<Rightarrow> string) \<Rightarrow> CallGraphRecord \<Rightarrow> seal_error_cg option" where
  "VerifyContentHash_cg H r = (case hashCanonical H (r\<lparr>cg_ContentHash := []\<rparr>) of
       Inl e \<Rightarrow> Some e
     | Inr expected \<Rightarrow> if cg_ContentHash r \<noteq> expected then Some (SealMismatch (cg_ContentHash r) expected) else None)"

section \<open>The edges are named once\<close>

definition clear :: "string \<Rightarrow> bool" where
  "clear x \<longleftrightarrow> plainName x \<and> \<not> suffix ''edges'' x"

definition clearValue :: "json \<Rightarrow> bool" where
  "clearValue j \<longleftrightarrow> (\<forall>x \<in> set (fieldNames j). clear x)"

lemma clear_names:
    "clear ''file''" "clear ''line''" "clear ''export_directive''" "clear ''kind''"
    "clear ''name''" "clear ''interrupt_handler''" "clear ''site''" "clear ''id''"
    "clear ''is_assembly_or_linkname''" "clear ''is_exported_api''" "clear ''is_external''" "clear ''is_test''"
    "clear ''module''" "clear ''package''" "clear ''position''" "clear ''receiver''"
    "clear ''symbol''" "clear ''uses_plugin''" "clear ''uses_unsafe_pointer''" "clear ''methods''"
    "clear ''interface_id''" "clear ''method''" "clear ''node_id''" "clear ''type_id''"
    "clear ''call_site''" "clear ''confidence''" "clear ''from_id''" "clear ''reflect_dispatch''"
    "clear ''to_id''" "clear ''frame''" "clear ''goarch''" "clear ''goarm''"
    "clear ''goos''" "clear ''tinygo_tags''" "clear ''tinygo_target''" "clear ''tinygo_version''"
    "clear ''derived_by''" "clear ''gate''" "clear ''outcome''" "clear ''foreign_modules_built''"
    "clear ''path''" "clear ''version''" "clear ''requires''" "clear ''synthesised_go_mod''"
    "clear ''go_directive''" "clear ''module_path''" "clear ''vendor_tree_present''" "clear ''dropped_replaces''"
    "clear ''target''" "clear ''interfaces''" "clear ''implementations''" "clear ''algorithm''"
    "clear ''analysis_source''" "clear ''toolchain''" "clear ''artifact_kind''" "clear ''completeness''"
    "clear ''artefact_identity''" "clear ''build_list_source''" "clear ''content_hash''" "clear ''coordinate''"
    "clear ''ecosystem''" "clear ''edge_count''" "clear ''exclusion_list''" "clear ''exclusion_reason''"
    "clear ''extracted_at''" "clear ''failed_packages''" "clear ''failure_cause''" "clear ''failure_detail''"
    "clear ''node_count''" "clear ''prefix_attributed_packages''" "clear ''stdlib_packages''" "clear ''dependency_packages''"
    "clear ''nodes''" "clear ''overall_status''" "clear ''pipeline_version''" "clear ''schema_version''"
    "clear ''source_content_hash''" "clear ''reference_scope''" "clear ''test_scope''" "clear ''test_scope_detail''"
    "clear ''worktree_digest''" "clear ''worktree_scan_digest''" "clear ''analysis_root''"
  by code_simp+

lemma clear_fields [simp]:
  "unnamed ''edges'' []"
  "unnamed ''edges'' ((k, v) # fs) \<longleftrightarrow> clear k \<and> clearValue v \<and> unnamed ''edges'' fs"
  "clearValue (JStr t)" "clearValue (JInt i)" "clearValue (JBool b)" "clearValue JNull"
  "clearValue (JArr js) \<longleftrightarrow> (\<forall>j \<in> set js. clearValue j)"
  "clearValue (JObj fs) \<longleftrightarrow> unnamed ''edges'' fs"
  by (auto simp: unnamed_def clearValue_def clear_def)

lemma clear_omit [simp]:
  "clear k \<Longrightarrow> unnamed ''edges'' (omitEmpty k v)" "clear k \<Longrightarrow> unnamed ''edges'' (omitEmptyStrings k vs)"
  by (auto simp: omitEmpty_def omitEmptyStrings_def)

lemma clear_parts [simp]:
  "clearValue (posJson p)" "unnamed ''edges'' (exportJson d)" "unnamed ''edges'' (handlerJson h)"
  "clearValue (interfaceJson i)" "clearValue (implementationJson m)"
  "unnamed ''edges'' (canonicalFrameOf f)" "unnamed ''edges'' (canonicalDerivation g)"
  "unnamed ''edges'' (canonicalForeignModules mods)" "unnamed ''edges'' (canonicalRequires reqs)"
  "unnamed ''edges'' (canonicalDroppedReplaces ds)"
  by (auto simp: posJson_def exportJson_def handlerJson_def interfaceJson_def implementationJson_def
      canonicalFrameOf_def canonicalDerivation_def canonicalForeignModules_def canonicalRequires_def
      canonicalDroppedReplaces_def unnamed_append clear_names)

lemma clear_collections [simp]:
  "clearValue (nodeJson n)" "unnamed ''edges'' (canonicalSynthesisedGoMod s)"
  "unnamed ''edges'' (interfacesJson is)" "unnamed ''edges'' (implementationsJson ms)"
  by (auto simp: nodeJson_def canonicalSynthesisedGoMod_def interfacesJson_def implementationsJson_def
      unnamed_append clear_names)

lemma clear_before: "unnamed ''edges'' (shellBefore r)"
  by (simp add: shellBefore_def unnamed_append clear_names)

lemma clear_after: "unnamed ''edges'' (shellAfter r)"
  by (simp add: shellAfter_def unnamed_append clear_names)

lemma edges_plain: "plainName ''edges''"
  by code_simp

lemma edgesKey_quote: "edgesKey = quote ''edges'' @ '':''"
  unfolding edgesKey_def quote_plain [OF edges_plain] by simp

section \<open>The streamed array is the array\<close>

lemma chunkText_Join: "chunkText es = Join (map (\<lambda>e. print (canonicalEdgeOf e)) es) '',''"
  by (simp add: chunkText_def slice_def Let_def printAll_map comp_def)

lemma Join_halves:
  assumes "take n es \<noteq> []" "drop n es \<noteq> []"
  shows "Join (map f es) sep = Join (map f (take n es)) sep @ sep @ Join (map f (drop n es)) sep"
proof -
  have "Join (map f (take n es) @ map f (drop n es)) sep
      = Join (map f (take n es)) sep @ sep @ Join (map f (drop n es)) sep"
    by (rule Join_append) (use assms in simp_all)
  then show ?thesis unfolding map_append [symmetric] append_take_drop_id .
qed

lemma writeChunks_Join:
  "writeChunks started es = (if es = [] then []
     else (if started then '','' else []) @ Join (map (\<lambda>e. print (canonicalEdgeOf e)) es) '','')"
proof (induction started es rule: writeChunks.induct)
  case (1 started es)
  show ?case
  proof (cases "drop canonicalEdgeChunk es = []")
    case True
    then show ?thesis by (subst writeChunks.simps) (simp add: chunkText_Join writeChunks.simps [of True "[]"])
  next
    case False
    then have ne: "es \<noteq> []" "take canonicalEdgeChunk es \<noteq> []"
      by (auto simp: canonicalEdgeChunk_def)
    show ?thesis unfolding Join_halves [OF ne(2) False]
      by (subst writeChunks.simps) (simp only: 1 [OF ne(1)] ne(1) False chunkText_Join if_True if_False append_assoc)
  qed
qed

lemma writeCanonicalEdges_print: "writeCanonicalEdges es = print (JArr (map canonicalEdgeOf es))"
  by (simp add: writeCanonicalEdges_def writeChunks_Join printAll_map comp_def)

lemma hashAround_edges:
  assumes "unnamed ''edges'' (B @ A)"
  shows "hashAround H (print (JObj (B @ [(''edges'', v)] @ A))) (edgesKey @ print v) es
    = Inr (''sha256:'' @ EncodeToString (H (print (JObj (B @ [(''edges'', JArr (map canonicalEdgeOf es))] @ A)))))"
proof -
  have i: "StrIndex (print (JObj (B @ [(''edges'', v)] @ A))) (edgesKey @ print v) = Some (length (textBefore B))"
    "\<not> Contains (textAfter A) (edgesKey @ print v)"
    using field_place [OF edges_plain assms] unfolding edgesKey_quote by simp_all
  have t: "print (JObj (B @ [(''edges'', w)] @ A)) = textBefore B @ (edgesKey @ print w) @ textAfter A" for w
    unfolding print_around edgesKey_quote by simp
  show ?thesis
    unfolding hashAround_def t i(1) [unfolded t] using i(2)
    by (simp add: writeCanonicalEdges_print del: print.simps)
qed

lemma around_shell:
  "hashAround H (print (JObj (shellBefore r @ [(''edges'', JNull)] @ shellAfter r))) edgesPlaceholder es
    = Inr (''sha256:'' @ EncodeToString (H (print (JObj (shellBefore r @ [(''edges'', JArr (map canonicalEdgeOf es))] @ shellAfter r)))))"
  "hashAround H (print (JObj (shellBefore r @ [(''edges'', JArr [])] @ shellAfter r))) storedEdgesSpan es
    = Inr (''sha256:'' @ EncodeToString (H (print (JObj (shellBefore r @ [(''edges'', JArr (map canonicalEdgeOf es))] @ shellAfter r)))))"
proof -
  have BA: "unnamed ''edges'' (shellBefore r @ shellAfter r)" by (simp add: unnamed_append clear_before clear_after)
  have spans: "edgesPlaceholder = edgesKey @ print JNull" "storedEdgesSpan = edgesKey @ print (JArr [])"
    by (simp_all add: edgesPlaceholder_def storedEdgesSpan_def)
  show "hashAround H (print (JObj (shellBefore r @ [(''edges'', JNull)] @ shellAfter r))) edgesPlaceholder es
    = Inr (''sha256:'' @ EncodeToString (H (print (JObj (shellBefore r @ [(''edges'', JArr (map canonicalEdgeOf es))] @ shellAfter r)))))"
    "hashAround H (print (JObj (shellBefore r @ [(''edges'', JArr [])] @ shellAfter r))) storedEdgesSpan es
    = Inr (''sha256:'' @ EncodeToString (H (print (JObj (shellBefore r @ [(''edges'', JArr (map canonicalEdgeOf es))] @ shellAfter r)))))"
    unfolding spans by (rule hashAround_edges [OF BA])+
qed

lemma hashCanonical_text:
  "hashCanonical H r = (case marshalCanonical r of
       Inl e \<Rightarrow> Inl e
     | Inr b \<Rightarrow> Inr (''sha256:'' @ EncodeToString (H b)))"
  unfolding hashCanonical_def marshalCanonical_def canonicalShell_def around_shell(1) by (simp split: option.splits)

text \<open>C17: The streamed hash and the hash of a stored record are the hash of the marshalled record: the same
  bytes, the same error.\<close>

theorem streamed_seal:
  "hashCanonical H r = (case marshalCanonical r of
       Inl e \<Rightarrow> Inl e
     | Inr b \<Rightarrow> Inr (''sha256:'' @ EncodeToString (H b)))
   \<and> (case marshalCanonical (r\<lparr>cg_Edges := []\<rparr>) of
       Inl e \<Rightarrow> Inl e
     | Inr b \<Rightarrow> StoredDigest H b (cg_Edges r)) = hashCanonical H r"
proof -
  have e: "canonicalEdgeOrder [] = []" by (simp add: canonicalEdgeOrder_sort)
  have same: "shellBefore (r\<lparr>cg_Edges := []\<rparr>) = shellBefore r" "shellAfter (r\<lparr>cg_Edges := []\<rparr>) = shellAfter r"
    by (simp_all add: shellBefore_def shellAfter_def)
  have "StoredDigest H (print (JObj (shellBefore r @ [(''edges'', JArr [])] @ shellAfter r))) (cg_Edges r)
      = Inr (''sha256:'' @ EncodeToString (H (print (JObj (shellBefore r
          @ [(''edges'', JArr (map canonicalEdgeOf (canonicalEdgeOrder (cg_Edges r))))] @ shellAfter r)))))"
    unfolding StoredDigest_def around_shell(2) ..
  then show ?thesis
    unfolding hashCanonical_text unfolding marshalCanonical_def same
    by (simp add: e del: print.simps split: option.splits)
qed

section \<open>One record, one seal\<close>

text \<open>The same record with its collections in another order.\<close>

definition arrangementOf :: "CallGraphRecord \<Rightarrow> CallGraphRecord \<Rightarrow> bool" where
  "arrangementOf r t \<longleftrightarrow>
     t = r\<lparr>cg_Nodes := cg_Nodes t, cg_Edges := cg_Edges t, cg_Interfaces := cg_Interfaces t,
        cg_Implementations := cg_Implementations t, cg_ExclusionList := cg_ExclusionList t,
        cg_FailedPackages := cg_FailedPackages t, cg_PrefixAttributedPackages := cg_PrefixAttributedPackages t,
        cg_StdlibPackages := cg_StdlibPackages t, cg_DependencyPackages := cg_DependencyPackages t,
        cg_ForeignModulesBuilt := cg_ForeignModulesBuilt t, cg_DroppedReplaces := cg_DroppedReplaces t\<rparr>
     \<and> mset (cg_Nodes r) = mset (cg_Nodes t) \<and> mset (cg_Edges r) = mset (cg_Edges t)
     \<and> rearranged sameInterface (cg_Interfaces r) (cg_Interfaces t)
     \<and> rearranged sameImplementation (cg_Implementations r) (cg_Implementations t)
     \<and> mset (cg_ExclusionList r) = mset (cg_ExclusionList t) \<and> mset (cg_FailedPackages r) = mset (cg_FailedPackages t)
     \<and> mset (cg_PrefixAttributedPackages r) = mset (cg_PrefixAttributedPackages t)
     \<and> mset (cg_StdlibPackages r) = mset (cg_StdlibPackages t)
     \<and> mset (cg_DependencyPackages r) = mset (cg_DependencyPackages t)
     \<and> mset (cg_ForeignModulesBuilt r) = mset (cg_ForeignModulesBuilt t)
     \<and> mset (cg_DroppedReplaces r) = mset (cg_DroppedReplaces t)"

lemma empty_arrangement: "mset xs = mset ys \<Longrightarrow> (xs = []) = (ys = [])"
  by (metis mset_zero_iff)

lemma empty_rearranged: "rearranged same xs ys \<Longrightarrow> (xs = []) = (ys = [])"
  unfolding rearranged_def by (metis empty_arrangement list_all2_Nil list_all2_Nil2)

lemma strings_arrangement: "mset xs = mset ys \<Longrightarrow> omitEmptyStrings k (sort xs) = omitEmptyStrings k (sort ys)"
  by (metis properties_for_sort sorted_sort mset_sort)

lemma validate_None:
  "validateExportDirectives ns = None
     \<longleftrightarrow> (\<forall>n \<in> set ns. export_Validate (cn_ExportDirective n) = None \<and> handler_Validate (cn_InterruptHandler n) = None)"
  by (induction ns) (auto split: option.splits)

lemma arrangementD:
  assumes "arrangementOf r t"
  shows "canonicalNodeOrder (cg_Nodes t) = canonicalNodeOrder (cg_Nodes r)"
    "canonicalEdgeOrder (cg_Edges t) = canonicalEdgeOrder (cg_Edges r)"
    "interfacesJson (cg_Interfaces t) = interfacesJson (cg_Interfaces r)"
    "implementationsJson (cg_Implementations t) = implementationsJson (cg_Implementations r)"
    "canonicalForeignModules (cg_ForeignModulesBuilt t) = canonicalForeignModules (cg_ForeignModulesBuilt r)"
    "canonicalDroppedReplaces (cg_DroppedReplaces t) = canonicalDroppedReplaces (cg_DroppedReplaces r)"
    "set (cg_Nodes t) = set (cg_Nodes r)"
proof -
  note a = assms [unfolded arrangementOf_def]
  then have n: "mset (cg_Nodes t) = mset (cg_Nodes r)" and e: "mset (cg_Edges t) = mset (cg_Edges r)"
    and i: "rearranged sameInterface (cg_Interfaces r) (cg_Interfaces t)"
    and m: "rearranged sameImplementation (cg_Implementations r) (cg_Implementations t)"
    and f: "mset (cg_ForeignModulesBuilt t) = mset (cg_ForeignModulesBuilt r)"
    and d: "mset (cg_DroppedReplaces t) = mset (cg_DroppedReplaces r)" by metis+
  show "canonicalNodeOrder (cg_Nodes t) = canonicalNodeOrder (cg_Nodes r)"
    unfolding canonicalNodeOrder_sort by (rule nodes.sort_arrangement [OF n])
  show "canonicalEdgeOrder (cg_Edges t) = canonicalEdgeOrder (cg_Edges r)"
    unfolding canonicalEdgeOrder_sort by (rule edges.sort_arrangement [OF e])
  show "interfacesJson (cg_Interfaces t) = interfacesJson (cg_Interfaces r)"
    unfolding interfacesJson_def using orderedInterfaces_any [OF i] empty_rearranged [OF i] by auto
  show "implementationsJson (cg_Implementations t) = implementationsJson (cg_Implementations r)"
    unfolding implementationsJson_def using orderedImplementations_any [OF m] empty_rearranged [OF m] by auto
  show "canonicalForeignModules (cg_ForeignModulesBuilt t) = canonicalForeignModules (cg_ForeignModulesBuilt r)"
    unfolding canonicalForeignModules_def using foreign.sort_arrangement [OF f] empty_arrangement [OF f] by auto
  show "canonicalDroppedReplaces (cg_DroppedReplaces t) = canonicalDroppedReplaces (cg_DroppedReplaces r)"
    unfolding canonicalDroppedReplaces_def using replaces.sort_arrangement [OF d] empty_arrangement [OF d] by auto
  show "set (cg_Nodes t) = set (cg_Nodes r)" using n by (rule mset_eq_setD)
qed

lemma shell_arrangement:
  assumes "arrangementOf r t"
  shows "shellBefore t = shellBefore r" "shellAfter t = shellAfter r"
proof -
  note t = assms [unfolded arrangementOf_def, THEN conjunct1]
  show "shellBefore t = shellBefore r" by (subst t) (simp add: shellBefore_def)
  have "omitEmptyStrings k (sort (cg_ExclusionList t)) = omitEmptyStrings k (sort (cg_ExclusionList r))"
    "omitEmptyStrings k (sort (cg_FailedPackages t)) = omitEmptyStrings k (sort (cg_FailedPackages r))"
    "omitEmptyStrings k (sort (cg_PrefixAttributedPackages t)) = omitEmptyStrings k (sort (cg_PrefixAttributedPackages r))"
    "omitEmptyStrings k (sort (cg_StdlibPackages t)) = omitEmptyStrings k (sort (cg_StdlibPackages r))"
    "omitEmptyStrings k (sort (cg_DependencyPackages t)) = omitEmptyStrings k (sort (cg_DependencyPackages r))" for k
    using assms unfolding arrangementOf_def by (metis strings_arrangement)+
  then show "shellAfter t = shellAfter r"
    by (subst t) (simp add: shellAfter_def arrangementD [OF assms])
qed

definition failsAlike :: "'e + 'a \<Rightarrow> 'e + 'a \<Rightarrow> bool" where
  "failsAlike x y \<longleftrightarrow> x = y \<or> (\<exists>e e'. x = Inl e \<and> y = Inl e')"

lemma hash_arrangement:
  assumes "arrangementOf r t"
  shows "failsAlike (hashCanonical H r) (hashCanonical H t)"
proof -
  have "(validateExportDirectives (cg_Nodes r) = None) = (validateExportDirectives (cg_Nodes t) = None)"
    by (simp only: validate_None arrangementD(7) [OF assms])
  then show ?thesis
    unfolding failsAlike_def hashCanonical_def canonicalShell_def shell_arrangement [OF assms] arrangementD(2) [OF assms]
    by (auto split: option.splits)
qed

lemma rearranged_refl: "(\<And>a. same a a) \<Longrightarrow> rearranged same xs xs"
  unfolding rearranged_def by (auto intro!: exI [of _ xs] list_all2_refl)

lemma arrangement_replaces:
  "mset (cg_DroppedReplaces x) = mset ds \<Longrightarrow> arrangementOf x (x\<lparr>cg_DroppedReplaces := ds\<rparr>)"
  unfolding arrangementOf_def
  by (simp add: rearranged_refl sameInterface_def sameImplementation_def)

lemma arrangement_hash:
  assumes "arrangementOf x y"
  shows "cg_ContentHash y = cg_ContentHash x" "arrangementOf (x\<lparr>cg_ContentHash := h\<rparr>) (y\<lparr>cg_ContentHash := h\<rparr>)"
proof -
  note y = assms [unfolded arrangementOf_def, THEN conjunct1]
  show "cg_ContentHash y = cg_ContentHash x" by (subst y) simp
  have "y\<lparr>cg_ContentHash := h\<rparr> = (x\<lparr>cg_ContentHash := h\<rparr>)\<lparr>cg_Nodes := cg_Nodes y, cg_Edges := cg_Edges y,
        cg_Interfaces := cg_Interfaces y,
        cg_Implementations := cg_Implementations y, cg_ExclusionList := cg_ExclusionList y,
        cg_FailedPackages := cg_FailedPackages y, cg_PrefixAttributedPackages := cg_PrefixAttributedPackages y,
        cg_StdlibPackages := cg_StdlibPackages y, cg_DependencyPackages := cg_DependencyPackages y,
        cg_ForeignModulesBuilt := cg_ForeignModulesBuilt y, cg_DroppedReplaces := cg_DroppedReplaces y\<rparr>"
    by (subst y) simp
  with assms show "arrangementOf (x\<lparr>cg_ContentHash := h\<rparr>) (y\<lparr>cg_ContentHash := h\<rparr>)"
    unfolding arrangementOf_def by simp
qed

text \<open>Putting two arrangements in order gives one record, but for the replace directives.\<close>

lemma ordered_arrangement:
  assumes "arrangementOf r t"
  shows "canonicalOrder_cg t = (canonicalOrder_cg r)\<lparr>cg_DroppedReplaces := cg_DroppedReplaces t\<rparr>"
proof -
  note a = assms [unfolded arrangementOf_def]
  note t = a [THEN conjunct1]
  have "sort (cg_ExclusionList t) = sort (cg_ExclusionList r)" "sort (cg_FailedPackages t) = sort (cg_FailedPackages r)"
    "sort (cg_PrefixAttributedPackages t) = sort (cg_PrefixAttributedPackages r)"
    "sort (cg_StdlibPackages t) = sort (cg_StdlibPackages r)" "sort (cg_DependencyPackages t) = sort (cg_DependencyPackages r)"
    using a by (metis properties_for_sort sorted_sort mset_sort)+
  moreover have "stable_sort ForeignModuleLess (cg_ForeignModulesBuilt t) = stable_sort ForeignModuleLess (cg_ForeignModulesBuilt r)"
    using a by (metis foreign.sort_arrangement)
  moreover have "orderedInterfaces (cg_Interfaces t) = orderedInterfaces (cg_Interfaces r)"
    "orderedImplementations (cg_Implementations t) = orderedImplementations (cg_Implementations r)"
    using a by (metis orderedInterfaces_any, metis orderedImplementations_any)
  moreover note arrangementD(1,2) [OF assms, unfolded canonicalNodeOrder_sort canonicalEdgeOrder_sort]
  ultimately show ?thesis by (subst t) (simp add: canonicalOrder_cg_def)
qed

lemma base_arrangement:
  assumes "arrangementOf r t"
  shows "arrangementOf ((canonicalOrder_cg r)\<lparr>cg_ContentHash := h\<rparr>) ((canonicalOrder_cg t)\<lparr>cg_ContentHash := h\<rparr>)"
proof -
  have "mset (cg_DroppedReplaces (canonicalOrder_cg r)) = mset (cg_DroppedReplaces t)"
    using assms by (simp add: arrangementOf_def canonicalOrder_cg_def)
  then show ?thesis
    unfolding ordered_arrangement [OF assms] by (intro arrangement_hash(2) arrangement_replaces)
qed

lemma arranged_verifies:
  assumes "VerifyContentHash_cg H s = None" "arrangementOf s v"
  shows "VerifyContentHash_cg H v = None"
proof -
  obtain h where h: "hashCanonical H (s\<lparr>cg_ContentHash := []\<rparr>) = Inr h" "cg_ContentHash s = h"
    using assms(1) by (auto simp: VerifyContentHash_cg_def split: sum.splits if_splits)
  then have "hashCanonical H (v\<lparr>cg_ContentHash := []\<rparr>) = Inr h"
    using hash_arrangement [OF arrangement_hash(2) [OF assms(2), of "[]"], of H] by (auto simp: failsAlike_def)
  with h(2) arrangement_hash(1) [OF assms(2)] show ?thesis by (simp add: VerifyContentHash_cg_def)
qed

lemma sealed_verifies: "SetContentHash_cg H r = Inr s \<Longrightarrow> VerifyContentHash_cg H s = None"
  by (auto simp: SetContentHash_cg_def VerifyContentHash_cg_def Let_def split: sum.splits)

text \<open>A record that names no malformed directive can be sealed.\<close>

lemma sealed_exists:
  assumes "validateExportDirectives (cg_Nodes r) = None"
  shows "\<exists>s. SetContentHash_cg H r = Inr s \<and> cg_Nodes s = stable_sort CallNodeLess (cg_Nodes r)"
proof -
  have "validateExportDirectives (cg_Nodes ((canonicalOrder_cg r)\<lparr>cg_ContentHash := []\<rparr>)) = None"
    using assms by (simp add: canonicalOrder_cg_def validate_None)
  then obtain h where "hashCanonical H ((canonicalOrder_cg r)\<lparr>cg_ContentHash := []\<rparr>) = Inr h"
    by (simp add: hashCanonical_text marshalCanonical_def)
  then show ?thesis by (simp add: SetContentHash_cg_def canonicalOrder_cg_def Let_def)
qed

text \<open>C30: The seal of a record is the seal of its every arrangement, and a sealed record verifies in its
  every arrangement.\<close>

theorem seal_arrangement:
  assumes "arrangementOf r t"
  shows "case SetContentHash_cg H r of
      Inl _ \<Rightarrow> isl (SetContentHash_cg H t)
    | Inr s \<Rightarrow> (\<forall>v. arrangementOf s v \<longrightarrow> VerifyContentHash_cg H v = None)
        \<and> (\<exists>u. SetContentHash_cg H t = Inr u \<and> cg_ContentHash u = cg_ContentHash s \<and> arrangementOf s u)"
proof -
  let ?b = "\<lambda>x. (canonicalOrder_cg x)\<lparr>cg_ContentHash := []\<rparr>"
  have alike: "failsAlike (hashCanonical H (?b r)) (hashCanonical H (?b t))"
    by (rule hash_arrangement [OF base_arrangement [OF assms]])
  show ?thesis
  proof (cases "SetContentHash_cg H r")
    case (Inl e)
    with alike show ?thesis by (auto simp: SetContentHash_cg_def failsAlike_def Let_def split: sum.splits)
  next
    case (Inr s)
    then obtain h where h: "hashCanonical H (?b r) = Inr h" "s = (canonicalOrder_cg r)\<lparr>cg_ContentHash := h\<rparr>"
      by (auto simp: SetContentHash_cg_def Let_def split: sum.splits)
    with alike have "hashCanonical H (?b t) = Inr h" by (auto simp: failsAlike_def)
    then have "SetContentHash_cg H t = Inr ((canonicalOrder_cg t)\<lparr>cg_ContentHash := h\<rparr>)"
      by (simp add: SetContentHash_cg_def Let_def)
    moreover have "\<forall>v. arrangementOf s v \<longrightarrow> VerifyContentHash_cg H v = None"
      using sealed_verifies [OF Inr] arranged_verifies by blast
    ultimately show ?thesis unfolding Inr using base_arrangement [OF assms, of h] h(2) by simp
  qed
qed

definition witnessRecord :: "string list \<Rightarrow> DroppedReplace list \<Rightarrow> CallGraphRecord" where
  "witnessRecord xs ds = zero_callgraph\<lparr>cg_ExclusionList := xs, cg_DroppedReplaces := ds\<rparr>"

theorem seal_arrangement_witness:
  "arrangementOf (witnessRecord [''b'', ''a''] []) (witnessRecord [''a'', ''b''] [])
   \<and> (case SetContentHash_cg rev (witnessRecord [''b'', ''a''] []) of
      Inl _ \<Rightarrow> isl (SetContentHash_cg rev (witnessRecord [''a'', ''b''] []))
    | Inr s \<Rightarrow> (\<forall>v. arrangementOf s v \<longrightarrow> VerifyContentHash_cg rev v = None)
        \<and> (\<exists>u. SetContentHash_cg rev (witnessRecord [''a'', ''b''] []) = Inr u
            \<and> cg_ContentHash u = cg_ContentHash s \<and> arrangementOf s u))"
proof -
  have "arrangementOf (witnessRecord [''b'', ''a''] []) (witnessRecord [''a'', ''b''] [])"
    unfolding arrangementOf_def
    by (simp add: witnessRecord_def rearranged_refl sameInterface_def sameImplementation_def add.commute)
  from this seal_arrangement [OF this, of rev] show ?thesis by (rule conjI)
qed

text \<open>Sealing puts every collection in the order of its bytes but the dropped replace directives, which
  are handed back as they came.\<close>

lemma replaces_left_as_given:
  "SetContentHash_cg H r = Inr s \<Longrightarrow> cg_DroppedReplaces s = cg_DroppedReplaces r"
  by (auto simp: SetContentHash_cg_def canonicalOrder_cg_def Let_def split: sum.splits)

end
