(* ===== verification/Callgraph_Diff.thy ===== *)
theory Callgraph_Diff
  imports Callgraph_Seal
begin

text \<open>
  What two generations of one coordinate differ about (\<open>internal/callgraph/domain/generationdiff.go\<close>):
  the fields of the record, and for each collection a walk of both sides in canonical order.
  Reading marshalled bytes back as fields is modelled on the value they were printed from.
\<close>

section \<open>The walk of two collections\<close>

record FieldDiff =
  fd_Field :: string
  fd_Left :: string
  fd_Right :: string

record MemberChange =
  mc_ID :: string
  mc_Field :: string
  mc_Left :: string
  mc_Right :: string

record CollectionDiff =
  cd_Kind :: string
  cd_OnlyLeft :: "string list"
  cd_OnlyRight :: "string list"
  cd_Changed :: "MemberChange list"

record GenerationDiff =
  gx_Left :: string
  gx_Right :: string
  gx_Fields :: "FieldDiff list"
  gx_Nodes :: CollectionDiff
  gx_Edges :: CollectionDiff
  gx_Interfaces :: CollectionDiff
  gx_Implementations :: CollectionDiff

definition collection_Empty :: "CollectionDiff \<Rightarrow> bool" where
  "collection_Empty d \<longleftrightarrow> cd_OnlyLeft d = [] \<and> cd_OnlyRight d = [] \<and> cd_Changed d = []"

definition generation_Empty :: "GenerationDiff \<Rightarrow> bool" where
  "generation_Empty d \<longleftrightarrow> gx_Fields d = [] \<and> collection_Empty (gx_Nodes d) \<and> collection_Empty (gx_Edges d)
     \<and> collection_Empty (gx_Interfaces d) \<and> collection_Empty (gx_Implementations d)"

definition MemberChangeLess :: "MemberChange \<Rightarrow> MemberChange \<Rightarrow> bool" where
  "MemberChangeLess a b =
     (if mc_ID a \<noteq> mc_ID b then mc_ID a < mc_ID b
      else if mc_Field a \<noteq> mc_Field b then mc_Field a < mc_Field b
      else if mc_Left a \<noteq> mc_Left b then mc_Left a < mc_Left b
      else mc_Right a < mc_Right b)"

text \<open>The members that share the first one's identity: the last of them, and what follows them.\<close>

definition runLast :: "('a \<Rightarrow> 'a \<Rightarrow> bool) \<Rightarrow> 'a \<Rightarrow> 'a list \<Rightarrow> 'a" where
  "runLast lid x xs = last (x # takeWhile (\<lambda>y. \<not> lid x y) xs)"

definition runEnd :: "('a \<Rightarrow> 'a \<Rightarrow> bool) \<Rightarrow> 'a \<Rightarrow> 'a list \<Rightarrow> 'a list" where
  "runEnd lid x xs = dropWhile (\<lambda>y. \<not> lid x y) xs"

lemma runEnd_length [termination_simp]: "length (runEnd lid x xs) < Suc (length xs)"
  by (simp add: runEnd_def length_dropWhile_le less_Suc_eq_le)

text \<open>\<open>nm\<close> renders a member's identity, \<open>ch\<close> names what two members of one identity differ about.\<close>

fun diffWalk :: "('a \<Rightarrow> 'a \<Rightarrow> bool) \<Rightarrow> ('a \<Rightarrow> 'a \<Rightarrow> bool) \<Rightarrow> ('a \<Rightarrow> 'e + string) \<Rightarrow> ('a \<Rightarrow> 'a \<Rightarrow> 'e + MemberChange)
    \<Rightarrow> CollectionDiff \<Rightarrow> 'a list \<Rightarrow> 'a list \<Rightarrow> 'e + CollectionDiff" where
  "diffWalk lid lt nm ch d [] [] = Inr d"
| "diffWalk lid lt nm ch d (x # xs) [] = (case nm (runLast lid x xs) of
       Inl e \<Rightarrow> Inl e
     | Inr n \<Rightarrow> diffWalk lid lt nm ch (d\<lparr>cd_OnlyLeft := cd_OnlyLeft d @ [n]\<rparr>) (runEnd lid x xs) [])"
| "diffWalk lid lt nm ch d [] (y # ys) = (case nm (runLast lid y ys) of
       Inl e \<Rightarrow> Inl e
     | Inr n \<Rightarrow> diffWalk lid lt nm ch (d\<lparr>cd_OnlyRight := cd_OnlyRight d @ [n]\<rparr>) [] (runEnd lid y ys))"
| "diffWalk lid lt nm ch d (x # xs) (y # ys) =
     (if lid x y then (case nm (runLast lid x xs) of
           Inl e \<Rightarrow> Inl e
         | Inr n \<Rightarrow> diffWalk lid lt nm ch (d\<lparr>cd_OnlyLeft := cd_OnlyLeft d @ [n]\<rparr>) (runEnd lid x xs) (y # ys))
      else if lid y x then (case nm (runLast lid y ys) of
           Inl e \<Rightarrow> Inl e
         | Inr n \<Rightarrow> diffWalk lid lt nm ch (d\<lparr>cd_OnlyRight := cd_OnlyRight d @ [n]\<rparr>) (x # xs) (runEnd lid y ys))
      else let l = runLast lid x xs; r = runLast lid y ys in
        if lt l r \<or> lt r l then (case ch l r of
             Inl e \<Rightarrow> Inl e
           | Inr c \<Rightarrow> diffWalk lid lt nm ch (d\<lparr>cd_Changed := cd_Changed d @ [c]\<rparr>) (runEnd lid x xs) (runEnd lid y ys))
        else diffWalk lid lt nm ch d (runEnd lid x xs) (runEnd lid y ys))"

text \<open>What the fields of a member or a record render as.\<close>

definition renderJSON :: "json \<Rightarrow> string" where
  "renderJSON j = (case j of JNull \<Rightarrow> [] | JStr s \<Rightarrow> validText s | _ \<Rightarrow> print j)"

definition renderField :: "(string \<times> json) list \<Rightarrow> string \<Rightarrow> string" where
  "renderField fs k = (case map_of fs k of None \<Rightarrow> [] | Some j \<Rightarrow> renderJSON j)"

definition sortedKeys :: "(string \<times> json) list \<Rightarrow> (string \<times> json) list \<Rightarrow> string list" where
  "sortedKeys a b = sorted_distinct (map fst a @ map fst b)"

definition collectionIdentity :: "string \<Rightarrow> string list option" where
  "collectionIdentity field =
     (if field = ''nodes'' then Some [''id'']
      else if field = ''edges'' then Some [''from_id'', ''to_id'', ''call_site'', ''kind'']
      else if field = ''interfaces'' then Some [''id'']
      else if field = ''implementations'' then Some [''interface_id'', ''type_id'']
      else None)"

fun identityParts :: "(string \<times> json) list \<Rightarrow> string list \<Rightarrow> string list" where
  "identityParts fs [] = []"
| "identityParts fs (k # ks) = (case map_of fs k of
       None \<Rightarrow> identityParts fs ks
     | Some j \<Rightarrow> (if renderJSON j \<noteq> [] then renderJSON j else [quoteMark, quoteMark]) # identityParts fs ks)"

definition identityOf :: "string \<Rightarrow> (string \<times> json) list \<Rightarrow> string" where
  "identityOf field fs = Join (identityParts fs (case collectionIdentity field of None \<Rightarrow> [] | Some ks \<Rightarrow> ks)) '' ''"

fun firstDifference :: "string \<Rightarrow> (string \<times> json) list \<Rightarrow> (string \<times> json) list \<Rightarrow> string list \<Rightarrow> MemberChange option" where
  "firstDifference i l r [] = None"
| "firstDifference i l r (k # ks) =
     (if renderField l k \<noteq> renderField r k
      then Some \<lparr>mc_ID = i, mc_Field = k, mc_Left = renderField l k, mc_Right = renderField r k\<rparr>
      else firstDifference i l r ks)"

definition memberDifference :: "string \<Rightarrow> ('a \<Rightarrow> 'e + (string \<times> json) list) \<Rightarrow> 'a \<Rightarrow> 'a \<Rightarrow> 'e + MemberChange" where
  "memberDifference field describe left right = (case describe left of
       Inl e \<Rightarrow> Inl e
     | Inr lf \<Rightarrow> (case describe right of
         Inl e \<Rightarrow> Inl e
       | Inr rf \<Rightarrow> Inr (case firstDifference (identityOf field lf) lf rf (sortedKeys lf rf) of
             Some c \<Rightarrow> c
           | None \<Rightarrow> \<lparr>mc_ID = identityOf field lf, mc_Field = ''canonical form'', mc_Left = [], mc_Right = []\<rparr>)))"

definition memberName :: "string \<Rightarrow> ('a \<Rightarrow> 'e + (string \<times> json) list) \<Rightarrow> 'a \<Rightarrow> 'e + string" where
  "memberName field describe v = (case describe v of Inl e \<Rightarrow> Inl e | Inr fs \<Rightarrow> Inr (identityOf field fs))"

definition diffMembers :: "string \<Rightarrow> string \<Rightarrow> 'a list \<Rightarrow> 'a list \<Rightarrow> ('a \<Rightarrow> 'a \<Rightarrow> bool) \<Rightarrow> ('a \<Rightarrow> 'a \<Rightarrow> bool)
    \<Rightarrow> ('a \<Rightarrow> 'e + (string \<times> json) list) \<Rightarrow> 'e + CollectionDiff" where
  "diffMembers field kind left right lid lt describe =
     (case diffWalk lid lt (memberName field describe) (memberDifference field describe)
         \<lparr>cd_Kind = kind, cd_OnlyLeft = [], cd_OnlyRight = [], cd_Changed = []\<rparr> left right of
       Inl e \<Rightarrow> Inl e
     | Inr d \<Rightarrow> Inr (d\<lparr>cd_OnlyLeft := sort (cd_OnlyLeft d), cd_OnlyRight := sort (cd_OnlyRight d),
         cd_Changed := stable_sort MemberChangeLess (cd_Changed d)\<rparr>))"

section \<open>The four collections\<close>

definition nodeIdentityLess :: "CallNode \<Rightarrow> CallNode \<Rightarrow> bool" where
  "nodeIdentityLess a b \<longleftrightarrow> cn_ID a < cn_ID b"

definition edgeIdentityLess :: "CallEdge \<Rightarrow> CallEdge \<Rightarrow> bool" where
  "edgeIdentityLess a b =
     (if ce_FromID a \<noteq> ce_FromID b then ce_FromID a < ce_FromID b
      else if ce_ToID a \<noteq> ce_ToID b then ce_ToID a < ce_ToID b
      else if sp_File (ce_CallSite a) \<noteq> sp_File (ce_CallSite b) then sp_File (ce_CallSite a) < sp_File (ce_CallSite b)
      else if sp_Line (ce_CallSite a) \<noteq> sp_Line (ce_CallSite b) then sp_Line (ce_CallSite a) < sp_Line (ce_CallSite b)
      else ce_Kind a < ce_Kind b)"

definition interfaceIdentityLess :: "InterfaceType \<Rightarrow> InterfaceType \<Rightarrow> bool" where
  "interfaceIdentityLess a b \<longleftrightarrow> it_ID a < it_ID b"

definition implementationIdentityLess :: "InterfaceImplementation \<Rightarrow> InterfaceImplementation \<Rightarrow> bool" where
  "implementationIdentityLess a b =
     (if ii_InterfaceID a \<noteq> ii_InterfaceID b then ii_InterfaceID a < ii_InterfaceID b else ii_TypeID a < ii_TypeID b)"

fun fieldsOf :: "json \<Rightarrow> (string \<times> json) list" where
  "fieldsOf (JObj fs) = fs"
| "fieldsOf _ = []"

definition describeNode :: "CallNode \<Rightarrow> seal_error_cg + (string \<times> json) list" where
  "describeNode n = (case validateExportDirectives [n] of
       Some e \<Rightarrow> Inl (SealNode e)
     | None \<Rightarrow> Inr (fieldsOf (nodeJson n)))"

definition describeEdge :: "CallEdge \<Rightarrow> seal_error_cg + (string \<times> json) list" where
  "describeEdge e = Inr (fieldsOf (canonicalEdgeOf e))"

definition describeInterface :: "InterfaceType \<Rightarrow> seal_error_cg + (string \<times> json) list" where
  "describeInterface i = Inr (fieldsOf (interfaceJson (sortMethods_type i)))"

definition describeImplementation :: "InterfaceImplementation \<Rightarrow> seal_error_cg + (string \<times> json) list" where
  "describeImplementation m = Inr (fieldsOf (implementationJson (sortMethods_impl m)))"

section \<open>The difference\<close>

definition withoutRunCircumstance :: "CallGraphRecord \<Rightarrow> CallGraphRecord" where
  "withoutRunCircumstance r = r\<lparr>cg_ExtractedAt := zero_time, cg_ContentHash := [], cg_DerivedBy := zero_derivation\<rparr>"

definition recordFields :: "CallGraphRecord \<Rightarrow> seal_error_cg + (string \<times> json) list" where
  "recordFields r = (let c = (withoutRunCircumstance r)\<lparr>cg_Nodes := [], cg_Edges := [], cg_Interfaces := [], cg_Implementations := []\<rparr> in
     case validateExportDirectives (cg_Nodes c) of
       Some e \<Rightarrow> Inl (SealNode e)
     | None \<Rightarrow> Inr (shellBefore c @ [(''edges'', JArr [])] @ shellAfter c))"

fun fieldDiffs :: "(string \<times> json) list \<Rightarrow> (string \<times> json) list \<Rightarrow> string list \<Rightarrow> FieldDiff list" where
  "fieldDiffs l r [] = []"
| "fieldDiffs l r (k # ks) =
     (if collectionIdentity k \<noteq> None then fieldDiffs l r ks
      else if renderField l k \<noteq> renderField r k
      then \<lparr>fd_Field = k, fd_Left = renderField l k, fd_Right = renderField r k\<rparr> # fieldDiffs l r ks
      else fieldDiffs l r ks)"

datatype diff_error = ErrUnverifiableGeneration string seal_error_cg | DiffMarshal seal_error_cg

fun firstUnverifiable :: "(string \<Rightarrow> string) \<Rightarrow> CallGraphRecord list \<Rightarrow> diff_error option" where
  "firstUnverifiable H [] = None"
| "firstUnverifiable H (r # rs) = (case VerifyContentHash_cg H r of
       Some e \<Rightarrow> Some (ErrUnverifiableGeneration (cg_ContentHash r) e)
     | None \<Rightarrow> firstUnverifiable H rs)"

definition orElse :: "'e + 'a \<Rightarrow> ('e \<Rightarrow> 'f) \<Rightarrow> ('a \<Rightarrow> 'f + 'b) \<Rightarrow> 'f + 'b" where
  "orElse x f k = (case x of Inl e \<Rightarrow> Inl (f e) | Inr a \<Rightarrow> k a)"

definition DiffGenerations :: "(string \<Rightarrow> string) \<Rightarrow> CallGraphRecord \<Rightarrow> CallGraphRecord \<Rightarrow> diff_error + GenerationDiff" where
  "DiffGenerations H left right = (case firstUnverifiable H [left, right] of
       Some e \<Rightarrow> Inl e
     | None \<Rightarrow>
         orElse (recordFields left) DiffMarshal (\<lambda>lf.
         orElse (recordFields right) DiffMarshal (\<lambda>rf.
         orElse (diffMembers ''nodes'' ''node'' (canonicalNodeOrder (cg_Nodes left)) (canonicalNodeOrder (cg_Nodes right))
           nodeIdentityLess CallNodeLess describeNode) DiffMarshal (\<lambda>ns.
         orElse (diffMembers ''edges'' ''edge'' (canonicalEdgeOrder (cg_Edges left)) (canonicalEdgeOrder (cg_Edges right))
           edgeIdentityLess CallEdgeLess describeEdge) DiffMarshal (\<lambda>es.
         orElse (diffMembers ''interfaces'' ''interface'' (orderedInterfaces (cg_Interfaces left)) (orderedInterfaces (cg_Interfaces right))
           interfaceIdentityLess InterfaceTypeLess describeInterface) DiffMarshal (\<lambda>is.
         orElse (diffMembers ''implementations'' ''implementation'' (orderedImplementations (cg_Implementations left))
           (orderedImplementations (cg_Implementations right))
           implementationIdentityLess InterfaceImplementationLess describeImplementation) DiffMarshal (\<lambda>ms.
         Inr \<lparr>gx_Left = cg_ContentHash left, gx_Right = cg_ContentHash right,
           gx_Fields = fieldDiffs lf rf (sortedKeys lf rf),
           gx_Nodes = ns, gx_Edges = es, gx_Interfaces = is, gx_Implementations = ms\<rparr>)))))))"

definition plural_kind :: "nat \<Rightarrow> string \<Rightarrow> string" where
  "plural_kind n kind = (if n = 1 then ''1 '' @ kind else Itoa (int n) @ '' '' @ kind @ ''s'')"

definition collectionCounts :: "GenerationDiff \<Rightarrow> CollectionDiff \<Rightarrow> string list" where
  "collectionCounts d c =
     (if cd_OnlyLeft c \<noteq> [] then [plural_kind (length (cd_OnlyLeft c)) (cd_Kind c) @ '' only in '' @ gx_Left d] else [])
     @ (if cd_OnlyRight c \<noteq> [] then [plural_kind (length (cd_OnlyRight c)) (cd_Kind c) @ '' only in '' @ gx_Right d] else [])
     @ (if cd_Changed c \<noteq> [] then [plural_kind (length (cd_Changed c)) (cd_Kind c) @ '' described differently''] else [])"

definition Collections :: "GenerationDiff \<Rightarrow> CollectionDiff list" where
  "Collections d = [gx_Nodes d, gx_Edges d, gx_Interfaces d, gx_Implementations d]"

definition Summary :: "GenerationDiff \<Rightarrow> string" where
  "Summary d = (let parts =
       (if gx_Fields d \<noteq> [] then [Join (map fd_Field (gx_Fields d)) '', '' @ '' differ''] else [])
       @ map (\<lambda>c. Join (collectionCounts d c) '', '') (filter (\<lambda>c. \<not> collection_Empty c) (Collections d))
     in if parts = [] then ''the two generations state the same record'' else Join parts ''; '')"

section \<open>What the walk accounts for\<close>

text \<open>
  What a field is shown as: nothing where it is absent or null, a string as its text, and any other
  value as its JSON.  A member is called by the fields that identify it, an empty one as two quotes.
\<close>

definition shown :: "(string \<times> json) list \<Rightarrow> string \<Rightarrow> string" where
  "shown fs k = (if map_of fs k = None \<or> map_of fs k = Some JNull then []
     else case the (map_of fs k) of JStr s \<Rightarrow> validText s | j \<Rightarrow> print j)"

definition calledBy :: "string list \<Rightarrow> (string \<times> json) list \<Rightarrow> string" where
  "calledBy ks fs = Join (map (\<lambda>k. if shown fs k = [] then [quoteMark, quoteMark] else shown fs k)
     (filter (\<lambda>k. k \<in> fst ` set fs) ks)) '' ''"

lemma renderField_shown: "renderField = shown"
  by (auto simp: fun_eq_iff renderField_def shown_def renderJSON_def split: option.split json.split)

lemma identityParts_called: "Join (identityParts fs ks) '' '' = calledBy ks fs"
proof -
  have "identityParts fs ks = map (\<lambda>k. if shown fs k = [] then [quoteMark, quoteMark] else shown fs k) (filter (\<lambda>k. k \<in> fst ` set fs) ks)"
  proof (induction ks)
    case (Cons k ks)
    have "renderJSON j = shown fs k" if "map_of fs k = Some j" for j
      using that by (simp add: renderField_shown [symmetric] renderField_def)
    moreover have "map_of fs k = None \<longleftrightarrow> k \<notin> fst ` set fs" by (rule map_of_eq_None_iff)
    ultimately show ?case using Cons by (auto split: option.split)
  qed simp
  then show ?thesis by (simp add: calledBy_def)
qed

text \<open>
  What is said of two members of one identity that state \<open>l\<close> and \<open>r\<close>: the first field, by name, that
  renders differently, with what it renders as on either side.
\<close>

definition statesChange :: "string \<Rightarrow> (string \<times> json) list \<Rightarrow> (string \<times> json) list \<Rightarrow> MemberChange \<Rightarrow> bool" where
  "statesChange i l r c \<longleftrightarrow> mc_ID c = i
     \<and> (if \<exists>k. shown l k \<noteq> shown r k
        then shown l (mc_Field c) \<noteq> shown r (mc_Field c) \<and> (\<forall>k < mc_Field c. shown l k = shown r k)
          \<and> mc_Left c = shown l (mc_Field c) \<and> mc_Right c = shown r (mc_Field c)
        else mc_Field c = ''canonical form'' \<and> mc_Left c = [] \<and> mc_Right c = [])"

text \<open>
  The pairs of members compared: those of one identity, the greatest of each side when it is
  held more than once, that are not the same.
\<close>

definition differing :: "('a \<Rightarrow> 'a \<Rightarrow> bool) \<Rightarrow> ('a \<Rightarrow> 'k) \<Rightarrow> 'a set \<Rightarrow> 'a set \<Rightarrow> ('a \<times> 'a) set" where
  "differing lt key A B = {(x, y). x \<in> A \<and> (\<forall>z \<in> A. key z = key x \<longrightarrow> \<not> lt x z)
     \<and> y \<in> B \<and> (\<forall>z \<in> B. key z = key y \<longrightarrow> \<not> lt y z) \<and> key x = key y \<and> x \<noteq> y}"

text \<open>
  A collection's difference accounts for two collections: it names each identity held by one side
  only, once; it has one change for each identity both hold and describe differently, and
  nothing else, stating what differs; and where no identity is held twice it is empty only for equal
  collections.  \<open>fs\<close> are the fields a member states.
\<close>

definition accountsFor :: "('a \<Rightarrow> 'a \<Rightarrow> bool) \<Rightarrow> string \<Rightarrow> ('a \<Rightarrow> 'k) \<Rightarrow> ('a \<Rightarrow> string) \<Rightarrow> ('a \<Rightarrow> (string \<times> json) list)
    \<Rightarrow> 'a list \<Rightarrow> 'a list \<Rightarrow> CollectionDiff \<Rightarrow> bool" where
  "accountsFor lt kind key name fs L R d \<longleftrightarrow>
     cd_Kind d = kind
     \<and> set (cd_OnlyLeft d) = name ` {x \<in> set L. key x \<notin> key ` set R}
     \<and> length (cd_OnlyLeft d) = card (key ` set L - key ` set R)
     \<and> set (cd_OnlyRight d) = name ` {y \<in> set R. key y \<notin> key ` set L}
     \<and> length (cd_OnlyRight d) = card (key ` set R - key ` set L)
     \<and> sorted (cd_OnlyLeft d) \<and> sorted (cd_OnlyRight d)
     \<and> (\<exists>change. (\<forall>x y. statesChange (name x) (fs x) (fs y) (change x y))
          \<and> mset (cd_Changed d) = image_mset (\<lambda>(x, y). change x y) (mset_set (differing lt key (set L) (set R))))
     \<and> sorted_wrt (\<lambda>a b. (mc_ID a, mc_Field a, mc_Left a, mc_Right a) \<le> (mc_ID b, mc_Field b, mc_Left b, mc_Right b)) (cd_Changed d)
     \<and> (inj_on key (set L) \<and> inj_on key (set R) \<longrightarrow> (collection_Empty d \<longleftrightarrow> set L = set R))"

lemma firstDifference_states:
  assumes "sorted ks" "\<And>k. k \<notin> set ks \<Longrightarrow> renderField l k = renderField r k"
  shows "statesChange i l r (case firstDifference i l r ks of
      Some c \<Rightarrow> c | None \<Rightarrow> \<lparr>mc_ID = i, mc_Field = ''canonical form'', mc_Left = [], mc_Right = []\<rparr>)"
proof -
  have none: "firstDifference i l r ks = None \<longleftrightarrow> (\<forall>k \<in> set ks. renderField l k = renderField r k)" for ks
    by (induction i l r ks rule: firstDifference.induct) auto
  have some: "mc_ID c = i \<and> mc_Field c \<in> set ks \<and> renderField l (mc_Field c) \<noteq> renderField r (mc_Field c)
      \<and> (\<forall>k \<in> set ks. k < mc_Field c \<longrightarrow> renderField l k = renderField r k)
      \<and> mc_Left c = renderField l (mc_Field c) \<and> mc_Right c = renderField r (mc_Field c)"
    if "firstDifference i l r ks = Some c" "sorted ks" for c ks
    using that by (induction i l r ks rule: firstDifference.induct) (auto split: if_splits)
  show ?thesis
  proof (cases "firstDifference i l r ks")
    case None
    then have "\<not> (\<exists>k. renderField l k \<noteq> renderField r k)" using none [of ks] assms(2) by blast
    with None show ?thesis by (simp add: statesChange_def renderField_shown)
  next
    case (Some c)
    note c = some [OF Some assms(1)]
    then have "\<forall>k < mc_Field c. renderField l k = renderField r k" using assms(2) by blast
    with c Some show ?thesis by (auto simp: statesChange_def renderField_shown)
  qed
qed

lemma unstated: "k \<notin> set (sortedKeys l r) \<Longrightarrow> renderField l k = renderField r k"
  by (auto simp: sortedKeys_def renderField_def map_of_eq_None_iff [symmetric])

lemma MemberChangeLess_key:
  "MemberChangeLess = (\<lambda>a b. (mc_ID a, mc_Field a, mc_Left a, mc_Right a) < (mc_ID b, mc_Field b, mc_Left b, mc_Right b))"
  by (simp only: fun_eq_iff MemberChangeLess_def less_pair) auto

lemma changes_sorted:
  "sorted_wrt (\<lambda>a b. (mc_ID a, mc_Field a, mc_Left a, mc_Right a) \<le> (mc_ID b, mc_Field b, mc_Left b, mc_Right b))
     (stable_sort MemberChangeLess cs)"
  using sorted_stable_sort [OF swo_key, of "\<lambda>a. (mc_ID a, mc_Field a, mc_Left a, mc_Right a)" cs]
  unfolding MemberChangeLess_key not_less .

text \<open>The last member of each identity of a list in order.\<close>

fun lasts :: "('a \<Rightarrow> 'a \<Rightarrow> bool) \<Rightarrow> 'a list \<Rightarrow> 'a list" where
  "lasts lid [] = []"
| "lasts lid (x # xs) = runLast lid x xs # lasts lid (runEnd lid x xs)"

lemma filter_product_skip:
  "\<forall>x \<in> set xs. \<not> P (x, r) \<Longrightarrow> filter P (List.product xs (r # ys)) = filter P (List.product xs ys)"
  by (induction xs) auto

lemma filter_product_none: "\<forall>y \<in> set ys. \<not> P (l, y) \<Longrightarrow> filter P (List.product (l # xs) ys) = filter P (List.product xs ys)"
  by (induction ys) (auto simp: filter_empty_conv)

text \<open>
  The contract of a walk: the identity order is the order of a key, and the canonical order refines
  it and tells any two members apart.
\<close>

locale member_walk = canonical_less lt for lt :: "'a \<Rightarrow> 'a \<Rightarrow> bool" +
  fixes lid :: "'a \<Rightarrow> 'a \<Rightarrow> bool" and key :: "'a \<Rightarrow> 'k::linorder"
  assumes identity: "lid a b \<longleftrightarrow> key a < key b" and leads: "key a < key b \<Longrightarrow> lt a b"
begin

abbreviation inIdentityOrder :: "'a list \<Rightarrow> bool" where
  "inIdentityOrder xs \<equiv> sorted (map key xs)"

lemma sorted_identity: "sorted_wrt (\<lambda>x y. \<not> lt y x) xs \<Longrightarrow> inIdentityOrder xs"
proof -
  have "\<not> lt y x \<Longrightarrow> key x \<le> key y" for x y using leads [of y x] by (meson not_le_imp_less)
  then show "sorted_wrt (\<lambda>x y. \<not> lt y x) xs \<Longrightarrow> inIdentityOrder xs"
    by (induction xs) auto
qed

lemma run:
  assumes "inIdentityOrder (x # xs)"
  shows "key (runLast lid x xs) = key x" "runLast lid x xs \<in> set (x # xs)" "inIdentityOrder (runEnd lid x xs)"
    "\<forall>y \<in> set (runEnd lid x xs). key x < key y" "set (runEnd lid x xs) \<subseteq> set xs"
    "key ` set (x # xs) = insert (key x) (key ` set (runEnd lid x xs))"
proof -
  let ?t = "takeWhile (\<lambda>y. \<not> lid x y) xs" and ?d = "dropWhile (\<lambda>y. \<not> lid x y) xs"
  have le: "\<forall>y \<in> set xs. key x \<le> key y" using assms by simp
  have t: "\<forall>y \<in> set ?t. key y = key x"
  proof
    fix y assume "y \<in> set ?t"
    from set_takeWhileD [OF this] le show "key y = key x" by (auto simp: identity)
  qed
  show "key (runLast lid x xs) = key x" using t by (auto simp: runLast_def)
  show "runLast lid x xs \<in> set (x # xs)"
    unfolding runLast_def by (metis last_in_set list.distinct(1) set_ConsD set_takeWhileD list.set_intros)
  have xs: "xs = ?t @ ?d" by simp
  have sd: "inIdentityOrder ?d" using assms by (simp add: sorted_dropWhile flip: dropWhile_map) (metis sorted_append takeWhile_dropWhile_id map_append)
  then show "inIdentityOrder (runEnd lid x xs)" by (simp add: runEnd_def)
  have d: "\<forall>y \<in> set ?d. key x < key y"
  proof (cases ?d)
    case (Cons z zs)
    then have "key x < key z" using hd_dropWhile [of "\<lambda>y. \<not> lid x y" xs] by (simp add: identity)
    with sd Cons show ?thesis by auto
  next
    case Nil
    then show ?thesis by (simp only: list.set ball_empty)
  qed
  then show "\<forall>y \<in> set (runEnd lid x xs). key x < key y" by (simp add: runEnd_def)
  show "set (runEnd lid x xs) \<subseteq> set xs" by (auto simp: runEnd_def dest: set_dropWhileD)
  have "set xs = set ?t \<union> set ?d" by (metis set_append takeWhile_dropWhile_id)
  with t show "key ` set (x # xs) = insert (key x) (key ` set (runEnd lid x xs))"
    by (auto simp: runEnd_def)
qed

lemma lasts_ok:
  "inIdentityOrder xs \<Longrightarrow> set (lasts lid xs) \<subseteq> set xs \<and> key ` set (lasts lid xs) = key ` set xs
     \<and> sorted_wrt (\<lambda>a b. key a < key b) (lasts lid xs)"
proof (induction "length xs" arbitrary: xs rule: less_induct)
  case less
  show ?case
  proof (cases xs)
    case (Cons x ys)
    note r = run [OF less.prems [unfolded Cons]]
    have IH: "set (lasts lid (runEnd lid x ys)) \<subseteq> set (runEnd lid x ys)"
      "key ` set (lasts lid (runEnd lid x ys)) = key ` set (runEnd lid x ys)"
      "sorted_wrt (\<lambda>a b. key a < key b) (lasts lid (runEnd lid x ys))"
      using less.hyps [of "runEnd lid x ys"] r(3) runEnd_length [of lid x ys] Cons by auto
    have "set (lasts lid xs) \<subseteq> set xs" using IH(1) r(2,5) unfolding Cons by auto
    moreover have "key ` set (lasts lid xs) = key ` set xs"
      unfolding Cons r(6) by (simp add: IH(2) r(1))
    moreover have "\<forall>y \<in> set (lasts lid (runEnd lid x ys)). key x < key y" using IH(1) r(4) by blast
    then have "sorted_wrt (\<lambda>a b. key a < key b) (lasts lid xs)"
      unfolding Cons using IH(3) r(1) by simp
    ultimately show ?thesis by blast
  qed simp
qed

text \<open>In canonical order the last member of an identity is the greatest that has it.\<close>

lemma runLast_greatest:
  assumes "sorted_wrt (\<lambda>x y. \<not> lt y x) (x # xs)" "y \<in> set (x # xs)" "key y = key x"
  shows "\<not> lt (runLast lid x xs) y"
proof -
  let ?t = "takeWhile (\<lambda>y. \<not> lid x y) xs"
  note r = run [OF sorted_identity [OF assms(1)]]
  have "set xs = set ?t \<union> set (runEnd lid x xs)" unfolding runEnd_def by (metis set_append takeWhile_dropWhile_id)
  then have "y \<in> set (x # ?t)" using assms(2,3) r(4) by auto
  moreover have "sorted_wrt (\<lambda>x y. \<not> lt y x) (x # ?t)"
    using assms(1) sorted_wrt_takeWhile set_takeWhileD by fastforce
  moreover have "z \<in> set zs \<Longrightarrow> sorted_wrt (\<lambda>x y. \<not> lt y x) zs \<Longrightarrow> \<not> lt (last zs) z" for z zs
    using swo_irrefl [OF order] by (induction zs) auto
  ultimately show ?thesis unfolding runLast_def by blast
qed

lemma lasts_greatest_sound:
  "sorted_wrt (\<lambda>x y. \<not> lt y x) L \<Longrightarrow> x \<in> set (lasts lid L) \<Longrightarrow> z \<in> set L \<Longrightarrow> key z = key x \<Longrightarrow> \<not> lt x z"
proof (induction "length L" arbitrary: L rule: less_induct)
  case less
  show ?case
  proof (cases L)
    case (Cons y ys)
    note s = less.prems(1) [unfolded Cons] and r = run [OF sorted_identity [OF less.prems(1) [unfolded Cons]]]
    have se: "sorted_wrt (\<lambda>x y. \<not> lt y x) (runEnd lid y ys)" using s sorted_wrt_dropWhile unfolding runEnd_def by auto
    show ?thesis
    proof (cases "x = runLast lid y ys")
      case True
      then show ?thesis using runLast_greatest [OF s] less.prems(3,4) r(1) Cons by metis
    next
      case False
      then have x: "x \<in> set (lasts lid (runEnd lid y ys))" using less.prems(2) Cons by simp
      then have "key y < key x" using r(4) lasts_ok [OF r(3)] by blast
      then have "z \<in> set (runEnd lid y ys)"
        using less.prems(3,4) unfolding Cons runEnd_def
        by (metis identity less_irrefl set_ConsD set_takeWhileD takeWhile_dropWhile_id set_append Un_iff)
      then show ?thesis using less.hyps [OF _ se x] runEnd_length [of lid y ys] less.prems(4) Cons by simp
    qed
  qed (use less.prems in simp)
qed

lemma lasts_greatest:
  assumes "sorted_wrt (\<lambda>x y. \<not> lt y x) L"
  shows "set (lasts lid L) = {x \<in> set L. \<forall>z \<in> set L. key z = key x \<longrightarrow> \<not> lt x z}"
proof -
  note l = lasts_ok [OF sorted_identity [OF assms]]
  have "x \<in> set (lasts lid L)" if x: "x \<in> set L" "\<forall>z \<in> set L. key z = key x \<longrightarrow> \<not> lt x z" for x
  proof -
    obtain y where y: "y \<in> set (lasts lid L)" "key y = key x" using l x(1) by (metis imageE imageI)
    then have "\<not> lt y x" "\<not> lt x y" using lasts_greatest_sound [OF assms y(1) x(1)] x(2) l by auto
    then show ?thesis using tie y(1) by metis
  qed
  then show ?thesis using l lasts_greatest_sound [OF assms] by blast
qed

text \<open>The walk, said as a comprehension over the members each side is left with.\<close>

definition onlyIn :: "'a list \<Rightarrow> 'a list \<Rightarrow> 'a list" where
  "onlyIn L R = filter (\<lambda>x. key x \<notin> key ` set R) (lasts lid L)"

definition changedPairs :: "'a list \<Rightarrow> 'a list \<Rightarrow> ('a \<times> 'a) list" where
  "changedPairs L R = filter (\<lambda>(x, y). key x = key y \<and> x \<noteq> y) (List.product (lasts lid L) (lasts lid R))"

lemma only_left:
  assumes "inIdentityOrder (x # xs)" "inIdentityOrder R" "\<forall>y \<in> set R. key x < key y"
  shows "onlyIn (x # xs) R = runLast lid x xs # onlyIn (runEnd lid x xs) R"
    "onlyIn R (x # xs) = onlyIn R (runEnd lid x xs)"
    "changedPairs (x # xs) R = changedPairs (runEnd lid x xs) R"
    "changedPairs R (x # xs) = changedPairs R (runEnd lid x xs)"
proof -
  note r = run [OF assms(1)]
  have R: "\<forall>y \<in> set (lasts lid R). key x < key y" using lasts_ok [OF assms(2)] assms(3) by blast
  show "onlyIn (x # xs) R = runLast lid x xs # onlyIn (runEnd lid x xs) R"
    using assms(3) r(1) by (auto simp: onlyIn_def)
  show "onlyIn R (x # xs) = onlyIn R (runEnd lid x xs)"
    unfolding onlyIn_def r(6) using R by (intro filter_cong) auto
  show "changedPairs (x # xs) R = changedPairs (runEnd lid x xs) R"
    unfolding changedPairs_def lasts.simps by (rule filter_product_none) (use R r(1) in auto)
  show "changedPairs R (x # xs) = changedPairs R (runEnd lid x xs)"
    unfolding changedPairs_def lasts.simps by (rule filter_product_skip) (use R r(1) in auto)
qed

lemma both_sides:
  assumes "inIdentityOrder (x # xs)" "inIdentityOrder (y # ys)" "key x = key y"
  shows "onlyIn (x # xs) (y # ys) = onlyIn (runEnd lid x xs) (runEnd lid y ys)"
    "changedPairs (x # xs) (y # ys)
       = (if runLast lid x xs \<noteq> runLast lid y ys then [(runLast lid x xs, runLast lid y ys)] else [])
         @ changedPairs (runEnd lid x xs) (runEnd lid y ys)"
proof -
  note rx = run [OF assms(1)] and ry = run [OF assms(2)]
  have lx: "\<forall>z \<in> set (lasts lid (runEnd lid x xs)). key x < key z" using lasts_ok [OF rx(3)] rx(4) by blast
  have ly: "\<forall>z \<in> set (lasts lid (runEnd lid y ys)). key y < key z" using lasts_ok [OF ry(3)] ry(4) by blast
  show "onlyIn (x # xs) (y # ys) = onlyIn (runEnd lid x xs) (runEnd lid y ys)"
    unfolding onlyIn_def ry(6) lasts.simps using rx(1) assms(3) lx by (auto intro!: filter_cong)
  let ?P = "\<lambda>(x, y). key x = key y \<and> x \<noteq> y"
  have "filter ?P (List.product (runLast lid x xs # lasts lid (runEnd lid x xs)) (runLast lid y ys # lasts lid (runEnd lid y ys)))
      = filter ?P [(runLast lid x xs, runLast lid y ys)]
        @ filter ?P (map (Pair (runLast lid x xs)) (lasts lid (runEnd lid y ys)))
        @ filter ?P (List.product (lasts lid (runEnd lid x xs)) (runLast lid y ys # lasts lid (runEnd lid y ys)))"
    by simp
  moreover have "filter ?P (map (Pair (runLast lid x xs)) (lasts lid (runEnd lid y ys))) = []"
    using ly rx(1) assms(3) by (auto simp: filter_empty_conv)
  moreover have "filter ?P (List.product (lasts lid (runEnd lid x xs)) (runLast lid y ys # lasts lid (runEnd lid y ys)))
      = filter ?P (List.product (lasts lid (runEnd lid x xs)) (lasts lid (runEnd lid y ys)))"
    by (rule filter_product_skip) (use lx ry(1) assms(3) in auto)
  ultimately show "changedPairs (x # xs) (y # ys)
       = (if runLast lid x xs \<noteq> runLast lid y ys then [(runLast lid x xs, runLast lid y ys)] else [])
         @ changedPairs (runEnd lid x xs) (runEnd lid y ys)"
    unfolding changedPairs_def lasts.simps using rx(1) ry(1) assms(3) by simp
qed

definition held :: "('a \<Rightarrow> string) \<Rightarrow> ('a \<Rightarrow> 'a \<Rightarrow> MemberChange) \<Rightarrow> 'a list \<Rightarrow> 'a list \<Rightarrow> CollectionDiff \<Rightarrow> CollectionDiff" where
  "held n c L R d = d\<lparr>cd_OnlyLeft := cd_OnlyLeft d @ map n (onlyIn L R), cd_OnlyRight := cd_OnlyRight d @ map n (onlyIn R L),
     cd_Changed := cd_Changed d @ map (\<lambda>(x, y). c x y) (changedPairs L R)\<rparr>"

lemma walk:
  assumes "inIdentityOrder L" "inIdentityOrder R"
    and n: "\<forall>x \<in> set L \<union> set R. nm x = Inr (n x)" and c: "\<forall>x \<in> set L. \<forall>y \<in> set R. ch x y = Inr (c x y)"
  shows "diffWalk lid lt nm ch d L R = Inr (held n c L R d)"
  using assms
proof (induction "length L + length R" arbitrary: L R d rule: less_induct)
  case less
  have IH: "diffWalk lid lt nm ch d' L' R' = Inr (held n c L' R' d')"
    if "length L' + length R' < length L + length R" "inIdentityOrder L'" "inIdentityOrder R'"
      "set L' \<subseteq> set L" "set R' \<subseteq> set R" for L' R' d'
  proof (rule less.hyps [OF that(1-3)])
    show "\<forall>x \<in> set L' \<union> set R'. nm x = Inr (n x)" using that(4,5) less.prems(3) by blast
    show "\<forall>x \<in> set L'. \<forall>y \<in> set R'. ch x y = Inr (c x y)" using that(4,5) less.prems(4) by blast
  qed
  show ?case
  proof (cases L; cases R)
    assume "L = []" "R = []"
    then show ?thesis by (simp add: held_def onlyIn_def changedPairs_def)
  next
    fix x xs assume L: "L = x # xs" and R: "R = []"
    note r = run [OF less.prems(1) [unfolded L]] and o = only_left [OF less.prems(1) [unfolded L], of "[]"]
    have "diffWalk lid lt nm ch d' (runEnd lid x xs) [] = Inr (held n c (runEnd lid x xs) [] d')" for d'
      by (rule IH) (use r(3,5) runEnd_length [of lid x xs] in \<open>auto simp: L R\<close>)
    moreover have "nm (runLast lid x xs) = Inr (n (runLast lid x xs))" using less.prems(3) r(2) L by blast
    ultimately show ?thesis using o by (simp add: L R held_def)
  next
    fix y ys assume L: "L = []" and R: "R = y # ys"
    note r = run [OF less.prems(2) [unfolded R]] and o = only_left [OF less.prems(2) [unfolded R], of "[]"]
    have "diffWalk lid lt nm ch d' [] (runEnd lid y ys) = Inr (held n c [] (runEnd lid y ys) d')" for d'
      by (rule IH) (use r(3,5) runEnd_length [of lid y ys] in \<open>auto simp: L R\<close>)
    moreover have "nm (runLast lid y ys) = Inr (n (runLast lid y ys))" using less.prems(3) r(2) R by blast
    ultimately show ?thesis using o by (simp add: L R held_def)
  next
    fix x xs y ys assume L: "L = x # xs" and R: "R = y # ys"
    note rx = run [OF less.prems(1) [unfolded L]] and ry = run [OF less.prems(2) [unfolded R]]
    have nx: "nm (runLast lid x xs) = Inr (n (runLast lid x xs))" "nm (runLast lid y ys) = Inr (n (runLast lid y ys))"
      using less.prems(3) rx(2) ry(2) unfolding L R by blast+
    have cxy: "ch (runLast lid x xs) (runLast lid y ys) = Inr (c (runLast lid x xs) (runLast lid y ys))"
      using less.prems(4) rx(2) ry(2) unfolding L R by blast
    consider "key x < key y" | "key y < key x" | "key x = key y" by fastforce
    then show ?thesis
    proof cases
      case 1
      then have "\<forall>z \<in> set (y # ys). key x < key z" using less.prems(2) R by auto
      note o = only_left [OF less.prems(1) [unfolded L] less.prems(2) [unfolded R] this]
      have "diffWalk lid lt nm ch d' (runEnd lid x xs) R = Inr (held n c (runEnd lid x xs) R d')" for d'
        by (rule IH) (use rx(3,5) runEnd_length [of lid x xs] less.prems(2) in \<open>auto simp: L R\<close>)
      then show ?thesis using 1 o nx by (simp add: L R held_def identity)
    next
      case 2
      then have "\<forall>z \<in> set (x # xs). key y < key z" using less.prems(1) L by auto
      note o = only_left [OF less.prems(2) [unfolded R] less.prems(1) [unfolded L] this]
      have "diffWalk lid lt nm ch d' L (runEnd lid y ys) = Inr (held n c L (runEnd lid y ys) d')" for d'
        by (rule IH) (use ry(3,5) runEnd_length [of lid y ys] less.prems(1) in \<open>auto simp: L R\<close>)
      moreover have "\<not> lid x y" "lid y x" using 2 by (simp_all add: identity)
      ultimately show ?thesis using o nx by (simp add: L R held_def)
    next
      case 3
      note o = both_sides [OF less.prems(1) [unfolded L] less.prems(2) [unfolded R] 3]
        both_sides(1) [OF less.prems(2) [unfolded R] less.prems(1) [unfolded L] 3 [symmetric]]
      have rest: "diffWalk lid lt nm ch d' (runEnd lid x xs) (runEnd lid y ys)
          = Inr (held n c (runEnd lid x xs) (runEnd lid y ys) d')" for d'
        by (rule IH) (use rx(3,5) ry(3,5) runEnd_length [of lid x xs] runEnd_length [of lid y ys] in \<open>auto simp: L R\<close>)
      have "lt (runLast lid x xs) (runLast lid y ys) \<or> lt (runLast lid y ys) (runLast lid x xs)
          \<longleftrightarrow> runLast lid x xs \<noteq> runLast lid y ys"
        using tie swo_irrefl [OF order] by metis
      then show ?thesis using 3 o cxy rest by (simp add: L R held_def identity Let_def)
    qed
  qed
qed

lemma onlyIn_image:
  assumes "inIdentityOrder L" "\<And>x y. key x = key y \<Longrightarrow> n x = n y"
  shows "n ` set (onlyIn L R) = n ` {x \<in> set L. key x \<notin> key ` set R}"
    "length (onlyIn L R) = card (key ` set L - key ` set R)"
proof -
  have l: "set (lasts lid L) \<subseteq> set L" "key ` set (lasts lid L) = key ` set L" "sorted_wrt (\<lambda>a b. key a < key b) (lasts lid L)"
    using lasts_ok [OF assms(1)] by auto
  show "n ` set (onlyIn L R) = n ` {x \<in> set L. key x \<notin> key ` set R}"
  proof
    show "n ` set (onlyIn L R) \<subseteq> n ` {x \<in> set L. key x \<notin> key ` set R}" using l(1) by (auto simp: onlyIn_def)
    show "n ` {x \<in> set L. key x \<notin> key ` set R} \<subseteq> n ` set (onlyIn L R)"
    proof
      fix z assume "z \<in> n ` {x \<in> set L. key x \<notin> key ` set R}"
      then obtain x where x: "x \<in> set L" "key x \<notin> key ` set R" "z = n x" by auto
      from x(1) have "key x \<in> key ` set (lasts lid L)" unfolding l(2) by simp
      then obtain y where "y \<in> set (lasts lid L)" "key y = key x" by auto
      moreover from this(2) x(3) have "z = n y" using assms(2) [of x y] by simp
      ultimately show "z \<in> n ` set (onlyIn L R)" using x(2) by (auto simp: onlyIn_def)
    qed
  qed
  have "sorted_wrt (<) (map key (onlyIn L R))" using l(3) by (simp add: onlyIn_def sorted_wrt_map sorted_wrt_filter)
  then have "distinct (map key (onlyIn L R))" by (rule strict_sorted_iff [THEN iffD1, THEN conjunct2])
  then have "length (onlyIn L R) = card (key ` set (onlyIn L R))" by (metis distinct_card length_map set_map)
  also have "key ` set (onlyIn L R) = key ` set (lasts lid L) - key ` set R" by (auto simp: onlyIn_def)
  finally show "length (onlyIn L R) = card (key ` set L - key ` set R)" unfolding l(2) .
qed

lemma lasts_all:
  assumes "inIdentityOrder L" "inj_on key (set L)"
  shows "set (lasts lid L) = set L"
proof
  note l = lasts_ok [OF assms(1)]
  show "set (lasts lid L) \<subseteq> set L" using l by simp
  show "set L \<subseteq> set (lasts lid L)"
  proof
    fix x assume x: "x \<in> set L"
    then have "key x \<in> key ` set (lasts lid L)" using l by simp
    then obtain y where y: "y \<in> set (lasts lid L)" "key x = key y" by auto
    then have "y \<in> set L" using l by auto
    then have "x = y" using inj_onD [OF assms(2) y(2) x] by simp
    with y show "x \<in> set (lasts lid L)" by simp
  qed
qed

lemma nothing_changed:
  assumes "inIdentityOrder L" "inIdentityOrder R" "inj_on key (set L)" "inj_on key (set R)"
  shows "onlyIn L R = [] \<and> onlyIn R L = [] \<and> changedPairs L R = [] \<longleftrightarrow> set L = set R"
proof -
  note l = lasts_all [OF assms(1,3)] lasts_all [OF assms(2,4)]
  have only: "onlyIn L R = [] \<longleftrightarrow> (\<forall>x \<in> set L. key x \<in> key ` set R)" "onlyIn R L = [] \<longleftrightarrow> (\<forall>y \<in> set R. key y \<in> key ` set L)"
    by (auto simp: onlyIn_def filter_empty_conv l)
  have changed: "changedPairs L R = [] \<longleftrightarrow> (\<forall>x \<in> set L. \<forall>y \<in> set R. key x = key y \<longrightarrow> x = y)"
    by (auto simp: changedPairs_def filter_empty_conv l)
  show ?thesis
  proof
    assume "onlyIn L R = [] \<and> onlyIn R L = [] \<and> changedPairs L R = []"
    then have a: "\<forall>x \<in> set L. key x \<in> key ` set R" "\<forall>y \<in> set R. key y \<in> key ` set L"
      "\<forall>x \<in> set L. \<forall>y \<in> set R. key x = key y \<longrightarrow> x = y"
      using only changed by blast+
    show "set L = set R"
    proof
      show "set L \<subseteq> set R"
      proof
        fix x assume x: "x \<in> set L"
        with a(1) obtain y where "y \<in> set R" "key x = key y" by auto
        with a(3) x show "x \<in> set R" by metis
      qed
      show "set R \<subseteq> set L"
      proof
        fix y assume y: "y \<in> set R"
        with a(2) obtain x where "x \<in> set L" "key y = key x" by auto
        with a(3) y show "y \<in> set L" by metis
      qed
    qed
  next
    assume e: "set L = set R"
    then have "\<forall>x \<in> set L. \<forall>y \<in> set R. key x = key y \<longrightarrow> x = y" using assms(3) by (metis inj_onD)
    then show "onlyIn L R = [] \<and> onlyIn R L = [] \<and> changedPairs L R = []" unfolding only changed e by auto
  qed
qed

lemma changedPairs_mset:
  assumes "sorted_wrt (\<lambda>x y. \<not> lt y x) L" "sorted_wrt (\<lambda>x y. \<not> lt y x) R"
  shows "mset (changedPairs L R) = mset_set (differing lt key (set L) (set R))"
proof -
  have dist: "distinct (lasts lid xs)" if "sorted_wrt (\<lambda>x y. \<not> lt y x) xs" for xs
    using lasts_ok [OF sorted_identity [OF that]] by (metis distinct_map sorted_wrt_map strict_sorted_iff)
  have "distinct (changedPairs L R)" unfolding changedPairs_def by (intro distinct_filter distinct_product dist assms)
  moreover have "set (changedPairs L R) = differing lt key (set L) (set R)"
    by (auto simp: changedPairs_def differing_def lasts_greatest [OF assms(1)] lasts_greatest [OF assms(2)])
  ultimately show ?thesis by (metis mset_set_set)
qed

lemma sort_Nil_iff: "sort xs = [] \<longleftrightarrow> xs = []"
  by (metis length_0_conv length_sort)

theorem members_accounted:
  fixes describe :: "'a \<Rightarrow> 'e + (string \<times> json) list"
  assumes L: "sorted_wrt (\<lambda>x y. \<not> lt y x) L" and R: "sorted_wrt (\<lambda>x y. \<not> lt y x) R"
    and describe: "\<forall>x \<in> set L \<union> set R. describe x = Inr (fs x)"
    and name: "\<And>x. name x = identityOf field (fs x)" "\<And>x y. key x = key y \<Longrightarrow> name x = name y"
  shows "\<exists>d. diffMembers field kind L R lid lt describe = Inr d \<and> accountsFor lt kind key name fs L R d"
proof -
  note sL = sorted_identity [OF L] and sR = sorted_identity [OF R]
  let ?c = "\<lambda>x y. case memberDifference field (\<lambda>x. Inr (fs x) :: 'e + _) x y of Inr c \<Rightarrow> c"
  have nm: "\<forall>x \<in> set L \<union> set R. memberName field describe x = Inr (name x)"
    using describe by (simp add: memberName_def name(1))
  have ch: "\<forall>x \<in> set L. \<forall>y \<in> set R. memberDifference field describe x y = Inr (?c x y)"
    using describe by (simp add: memberDifference_def)
  have change: "statesChange (name x) (fs x) (fs y) (?c x y)" for x y
    unfolding memberDifference_def name(1) sum.case by (rule firstDifference_states [OF _ unstated]) (simp add: sortedKeys_def)
  let ?d = "held name ?c L R \<lparr>cd_Kind = kind, cd_OnlyLeft = [], cd_OnlyRight = [], cd_Changed = []\<rparr>"
  let ?e = "?d\<lparr>cd_OnlyLeft := sort (cd_OnlyLeft ?d), cd_OnlyRight := sort (cd_OnlyRight ?d),
         cd_Changed := stable_sort MemberChangeLess (cd_Changed ?d)\<rparr>"
  have "diffMembers field kind L R lid lt describe = Inr ?e"
    unfolding diffMembers_def walk [OF sL sR nm ch] by simp
  moreover have "accountsFor lt kind key name fs L R ?e"
    unfolding accountsFor_def
  proof (intro conjI)
    have changed: "cd_Changed ?e = stable_sort MemberChangeLess (cd_Changed ?d)" by simp
    have "mset (cd_Changed ?e) = image_mset (\<lambda>(x, y). ?c x y) (mset_set (differing lt key (set L) (set R)))"
      by (simp add: held_def changedPairs_mset [OF L R, symmetric])
    then show "\<exists>change. (\<forall>x y. statesChange (name x) (fs x) (fs y) (change x y))
        \<and> mset (cd_Changed ?e) = image_mset (\<lambda>(x, y). change x y) (mset_set (differing lt key (set L) (set R)))"
      using change by (intro exI [of _ ?c] conjI allI)
    show "sorted_wrt (\<lambda>a b. (mc_ID a, mc_Field a, mc_Left a, mc_Right a) \<le> (mc_ID b, mc_Field b, mc_Left b, mc_Right b)) (cd_Changed ?e)"
      unfolding changed by (rule changes_sorted)
    have "collection_Empty ?e \<longleftrightarrow> onlyIn L R = [] \<and> onlyIn R L = [] \<and> changedPairs L R = []"
      by (simp add: collection_Empty_def held_def sort_Nil_iff)
    then show "inj_on key (set L) \<and> inj_on key (set R) \<longrightarrow> (collection_Empty ?e \<longleftrightarrow> set L = set R)"
      using nothing_changed [OF sL sR] by blast
  qed (use onlyIn_image [OF sL name(2)] onlyIn_image [OF sR name(2)] in \<open>simp_all add: held_def\<close>)
  ultimately show ?thesis by blast
qed

end

section \<open>The walks of the record's collections\<close>

definition edgeKey :: "CallEdge \<Rightarrow> string \<times> string \<times> string \<times> int \<times> string" where
  "edgeKey e = (ce_FromID e, ce_ToID e, sp_File (ce_CallSite e), sp_Line (ce_CallSite e), ce_Kind e)"

definition implementationKey :: "InterfaceImplementation \<Rightarrow> string \<times> string" where
  "implementationKey m = (ii_InterfaceID m, ii_TypeID m)"

interpretation node_walk: member_walk CallNodeLess nodeIdentityLess cn_ID
proof
  show "nodeIdentityLess a b \<longleftrightarrow> cn_ID a < cn_ID b" for a b by (simp add: nodeIdentityLess_def)
  show "cn_ID a < cn_ID b \<Longrightarrow> CallNodeLess a b" for a b unfolding CallNodeLess_def by (simp only: less_imp_neq if_True not_False_eq_True)
qed

interpretation edge_walk: member_walk CallEdgeLess edgeIdentityLess edgeKey
proof
  show "edgeIdentityLess a b \<longleftrightarrow> edgeKey a < edgeKey b" for a b
    by (simp only: edgeIdentityLess_def edgeKey_def less_pair)
  show "edgeKey a < edgeKey b \<Longrightarrow> CallEdgeLess a b" for a b
    unfolding edgeKey_def CallEdgeLess_def less_pair by (auto split: if_splits)
qed

interpretation interface_walk: member_walk InterfaceTypeLess interfaceIdentityLess it_ID
proof
  show "interfaceIdentityLess a b \<longleftrightarrow> it_ID a < it_ID b" for a b by (simp add: interfaceIdentityLess_def)
  show "it_ID a < it_ID b \<Longrightarrow> InterfaceTypeLess a b" for a b unfolding InterfaceTypeLess_def by (simp only: less_imp_neq if_True not_False_eq_True)
qed

interpretation implementation_walk: member_walk InterfaceImplementationLess implementationIdentityLess implementationKey
proof
  show "implementationIdentityLess a b \<longleftrightarrow> implementationKey a < implementationKey b" for a b
    by (simp only: implementationIdentityLess_def implementationKey_def less_pair)
  show "implementationKey a < implementationKey b \<Longrightarrow> InterfaceImplementationLess a b" for a b
    unfolding implementationKey_def InterfaceImplementationLess_def less_pair by (auto split: if_splits)
qed

text \<open>The fields a member states, and the name a difference reports it by.\<close>

definition nodeFields :: "CallNode \<Rightarrow> (string \<times> json) list" where
  "nodeFields n = fieldsOf (nodeJson n)"

definition edgeFields :: "CallEdge \<Rightarrow> (string \<times> json) list" where
  "edgeFields e = fieldsOf (canonicalEdgeOf e)"

definition interfaceFields :: "InterfaceType \<Rightarrow> (string \<times> json) list" where
  "interfaceFields i = fieldsOf (interfaceJson (sortMethods_type i))"

definition implementationFields :: "InterfaceImplementation \<Rightarrow> (string \<times> json) list" where
  "implementationFields m = fieldsOf (implementationJson (sortMethods_impl m))"

definition nodeName :: "CallNode \<Rightarrow> string" where
  "nodeName n = calledBy [''id''] (nodeFields n)"

definition edgeName :: "CallEdge \<Rightarrow> string" where
  "edgeName e = calledBy [''from_id'', ''to_id'', ''call_site'', ''kind''] (edgeFields e)"

definition interfaceName :: "InterfaceType \<Rightarrow> string" where
  "interfaceName i = calledBy [''id''] (interfaceFields i)"

definition implementationName :: "InterfaceImplementation \<Rightarrow> string" where
  "implementationName m = calledBy [''interface_id'', ''type_id''] (implementationFields m)"

lemma called_identity:
  "nodeName n = identityOf ''nodes'' (nodeFields n)" "edgeName e = identityOf ''edges'' (edgeFields e)"
  "interfaceName i = identityOf ''interfaces'' (interfaceFields i)"
  "implementationName m = identityOf ''implementations'' (implementationFields m)"
  by (simp_all add: identityOf_def collectionIdentity_def identityParts_called
      nodeName_def edgeName_def interfaceName_def implementationName_def del: identityParts.simps)

lemma nodeName_key: "cn_ID a = cn_ID b \<Longrightarrow> nodeName a = nodeName b"
  by (simp add: called_identity(1) nodeFields_def identityOf_def collectionIdentity_def nodeJson_def exportJson_def map_add_def)

lemma edgeName_key: "edgeKey a = edgeKey b \<Longrightarrow> edgeName a = edgeName b"
  by (simp add: called_identity(2) edgeFields_def edgeKey_def identityOf_def collectionIdentity_def canonicalEdgeOf_def omitEmpty_def map_add_def posJson_def)

lemma interfaceName_key: "it_ID a = it_ID b \<Longrightarrow> interfaceName a = interfaceName b"
  by (simp add: called_identity(3) interfaceFields_def identityOf_def collectionIdentity_def interfaceJson_def sortMethods_type_def)

lemma implementationName_key: "implementationKey a = implementationKey b \<Longrightarrow> implementationName a = implementationName b"
  by (simp add: called_identity(4) implementationFields_def implementationKey_def identityOf_def collectionIdentity_def implementationJson_def sortMethods_impl_def)

lemma fieldDiffs_names:
  "set (map fd_Field (fieldDiffs l r ks)) = {k \<in> set ks. collectionIdentity k = None \<and> renderField l k \<noteq> renderField r k}"
  by (induction l r ks rule: fieldDiffs.induct) auto

lemma fieldDiffs_values:
  "f \<in> set (fieldDiffs l r ks) \<Longrightarrow> fd_Left f = renderField l (fd_Field f) \<and> fd_Right f = renderField r (fd_Field f)"
  by (induction l r ks rule: fieldDiffs.induct) (auto split: if_splits)

lemma verified_nodes:
  assumes "VerifyContentHash_cg H r = None"
  shows "\<forall>n \<in> set (cg_Nodes r). describeNode n = Inr (nodeFields n)"
proof -
  have "validateExportDirectives (cg_Nodes r) = None"
    using assms by (auto simp: VerifyContentHash_cg_def hashCanonical_def split: option.splits sum.splits)
  then show ?thesis by (simp add: validate_None describeNode_def nodeFields_def)
qed

definition statedFields :: "CallGraphRecord \<Rightarrow> (string \<times> json) list" where
  "statedFields r = (case recordFields r of Inr fs \<Rightarrow> fs)"

lemma recordFields_stated: "recordFields r = Inr (statedFields r)"
  by (simp add: statedFields_def recordFields_def Let_def)

lemma sorted_edges: "sorted_wrt (\<lambda>x y. \<not> CallEdgeLess y x) (canonicalEdgeOrder es)" "set (canonicalEdgeOrder es) = set es"
  and sorted_nodes: "sorted_wrt (\<lambda>x y. \<not> CallNodeLess y x) (canonicalNodeOrder ns)" "set (canonicalNodeOrder ns) = set ns"
  and sorted_types: "sorted_wrt (\<lambda>x y. \<not> InterfaceTypeLess y x) (orderedInterfaces is)"
    "set (orderedInterfaces is) = set (map sortMethods_type is)"
  and sorted_impls: "sorted_wrt (\<lambda>x y. \<not> InterfaceImplementationLess y x) (orderedImplementations ms)"
    "set (orderedImplementations ms) = set (map sortMethods_impl ms)"
  by (simp_all add: canonicalEdgeOrder_sort canonicalNodeOrder_sort orderedInterfaces_def orderedImplementations_def
      sorted_stable_sort edges.order nodes.order interfaces.order implementations.order)

lemma accountsFor_set:
  "set L = set L' \<Longrightarrow> set R = set R' \<Longrightarrow> accountsFor lt kind key name fs L R d = accountsFor lt kind key name fs L' R' d"
  by (simp add: accountsFor_def)

lemma nodes_accounted:
  assumes "VerifyContentHash_cg H left = None" "VerifyContentHash_cg H right = None"
  shows "\<exists>d. diffMembers ''nodes'' ''node'' (canonicalNodeOrder (cg_Nodes left)) (canonicalNodeOrder (cg_Nodes right)) nodeIdentityLess CallNodeLess describeNode = Inr d
    \<and> accountsFor CallNodeLess ''node'' cn_ID nodeName nodeFields (cg_Nodes left) (cg_Nodes right) d"
  by (rule node_walk.members_accounted [OF sorted_nodes(1) sorted_nodes(1) _ called_identity(1) nodeName_key, unfolded accountsFor_set [OF sorted_nodes(2) sorted_nodes(2)]])
    (use verified_nodes [OF assms(1)] verified_nodes [OF assms(2)] in \<open>auto simp: sorted_nodes(2)\<close>)

lemma edges_accounted:
  shows "\<exists>d. diffMembers ''edges'' ''edge'' (canonicalEdgeOrder ls) (canonicalEdgeOrder rs) edgeIdentityLess CallEdgeLess describeEdge = Inr d
    \<and> accountsFor CallEdgeLess ''edge'' edgeKey edgeName edgeFields ls rs d"
  by (rule edge_walk.members_accounted [OF sorted_edges(1) sorted_edges(1) _ called_identity(2) edgeName_key, unfolded accountsFor_set [OF sorted_edges(2) sorted_edges(2)]])
    (simp_all add: describeEdge_def edgeFields_def)

lemma interfaces_accounted:
  shows "\<exists>d. diffMembers ''interfaces'' ''interface'' (orderedInterfaces ls) (orderedInterfaces rs) interfaceIdentityLess InterfaceTypeLess describeInterface = Inr d
    \<and> accountsFor InterfaceTypeLess ''interface'' it_ID interfaceName interfaceFields (map sortMethods_type ls) (map sortMethods_type rs) d"
  by (rule interface_walk.members_accounted [OF sorted_types(1) sorted_types(1) _ called_identity(3) interfaceName_key, unfolded accountsFor_set [OF sorted_types(2) sorted_types(2)]])
    (simp_all add: describeInterface_def interfaceFields_def)

lemma implementations_accounted:
  shows "\<exists>d. diffMembers ''implementations'' ''implementation'' (orderedImplementations ls) (orderedImplementations rs) implementationIdentityLess InterfaceImplementationLess describeImplementation = Inr d
    \<and> accountsFor InterfaceImplementationLess ''implementation'' implementationKey implementationName implementationFields (map sortMethods_impl ls) (map sortMethods_impl rs) d"
  by (rule implementation_walk.members_accounted [OF sorted_impls(1) sorted_impls(1) _ called_identity(4) implementationName_key, unfolded accountsFor_set [OF sorted_impls(2) sorted_impls(2)]])
    (simp_all add: describeImplementation_def implementationFields_def)

lemma fields_accounted:
  fixes l r
  defines "f \<equiv> fieldDiffs l r (sortedKeys l r)"
  shows "fd_Field ` set f = {k. k \<notin> {''nodes'', ''edges'', ''interfaces'', ''implementations''} \<and> shown l k \<noteq> shown r k}"
    "sorted_wrt (<) (map fd_Field f)"
    "\<forall>x \<in> set f. fd_Left x = shown l (fd_Field x) \<and> fd_Right x = shown r (fd_Field x)"
proof -
  have own: "collectionIdentity k = None \<longleftrightarrow> k \<notin> {''nodes'', ''edges'', ''interfaces'', ''implementations''}" for k
    by (simp add: collectionIdentity_def)
  show "fd_Field ` set f = {k. k \<notin> {''nodes'', ''edges'', ''interfaces'', ''implementations''} \<and> shown l k \<noteq> shown r k}"
    using fieldDiffs_names [of l r "sortedKeys l r"] unstated [of _ l r] unfolding f_def renderField_shown own by (simp only: set_map) blast
  have "map fd_Field (fieldDiffs l r ks) = filter (\<lambda>k. collectionIdentity k = None \<and> renderField l k \<noteq> renderField r k) ks" for ks
    by (induction l r ks rule: fieldDiffs.induct) auto
  then show "sorted_wrt (<) (map fd_Field f)" by (simp add: f_def sortedKeys_def sorted_wrt_filter strict_sorted_iff)
  show "\<forall>x \<in> set f. fd_Left x = shown l (fd_Field x) \<and> fd_Right x = shown r (fd_Field x)"
    using fieldDiffs_values unfolding f_def renderField_shown by blast
qed


definition namedNode :: "string \<Rightarrow> CallNode" where
  "namedNode i = \<lparr>cn_ID = i, cn_Module = [], cn_Package = [], cn_Symbol = [], cn_Receiver = [], cn_IsExternal = False,
     cn_IsExportedAPI = False, cn_Position = zero_position, cn_UsesUnsafePointer = False, cn_IsAssemblyOrLinkname = False,
     cn_UsesPlugin = False, cn_IsTest = False, cn_ExportDirective = zero_export, cn_InterruptHandler = zero_handler\<rparr>"


text \<open>Two edges of one identity in one generation are walked as one: their difference can be missed.\<close>

definition callEdge :: "string \<Rightarrow> string \<Rightarrow> string \<Rightarrow> CallEdge" where
  "callEdge f t c = \<lparr>ce_FromID = f, ce_ToID = t, ce_CallSite = zero_position, ce_Confidence = c, ce_ReflectDispatch = False, ce_Kind = []\<rparr>"

lemma repeated_identity_missed:
  "diffMembers ''edges'' ''edge'' [callEdge ''a'' ''b'' ConfidenceCHAOverapprox, callEdge ''a'' ''b'' ConfidenceDirect]
     [callEdge ''a'' ''b'' ConfidenceDirect] edgeIdentityLess CallEdgeLess describeEdge
   = Inr \<lparr>cd_Kind = ''edge'', cd_OnlyLeft = [], cd_OnlyRight = [], cd_Changed = []\<rparr>"
  by code_simp

text \<open>The gate a generation was derived by is no part of the comparison.\<close>

lemma derivation_not_compared: "recordFields (r\<lparr>cg_DerivedBy := g\<rparr>) = recordFields r"
  by (simp add: recordFields_def withoutRunCircumstance_def)

end
