(* ===== verification/Callgraph_Compose.thy ===== *)
theory Callgraph_Compose
  imports Callgraph_Diff Ledger
begin

text \<open>
  Which call-graph record answers for a coordinate (\<open>internal/callgraph/domain/compose.go\<close>,
  \<open>toolchain.go\<close> and the selection by frame of \<open>buildframe.go\<close>): the records of the frame, the source
  and the toolchain asked for, the refusals when they contradict each other, and the one served.
  Marshalling cannot fail on these records, so the branches that report such a failure are left out;
  the text of an error of sealing is the parameter \<open>errText\<close>.
\<close>

section \<open>Requests, conflicts and toolchains\<close>

definition ConflictFieldAnalysisSource :: string where "ConflictFieldAnalysisSource = ''analysis_source''"
definition ConflictFieldArtefactIdentity :: string where "ConflictFieldArtefactIdentity = ''artefact_identity''"
definition ConflictFieldCallGraph :: string where "ConflictFieldCallGraph = ''call_graph''"
definition ConflictFieldToolchain :: string where "ConflictFieldToolchain = ''toolchain''"
definition ConflictFieldFrame :: string where "ConflictFieldFrame = ''frame''"

definition ConflictFields :: "string list" where
  "ConflictFields = [ConflictFieldAnalysisSource, ConflictFieldArtefactIdentity, ConflictFieldCallGraph,
     ConflictFieldToolchain, ConflictFieldFrame]"

record CallGraphConflict =
  cc_Coordinate :: ModuleCoordinate
  cc_PipelineVersion :: string
  cc_Field :: string
  cc_Completeness :: string
  cc_Values :: "string list"
  cc_ContentHashes :: "string list"
  cc_AnalysisRoot :: string
  cc_Difference :: "GenerationDiff option"
  cc_Frames :: "BuildFrame list"

record ComposeRequest =
  rq_Source :: string
  rq_Toolchain :: string
  rq_ToolchainPreference :: string
  rq_CallerRoot :: string
  rq_Frame :: BuildFrame

record ToolchainIdentity =
  ti_Version :: string
  ti_Root :: string
  ti_Derived :: bool

definition toolchain_Key :: "ToolchainIdentity \<Rightarrow> string" where
  "toolchain_Key t = (if Recorded (ti_Version t) then ti_Version t else [])"

definition rootEvidence :: "ToolchainIdentity \<Rightarrow> string" where
  "rootEvidence t = (if Recorded (ti_Version t) then ti_Version t
     else if ti_Root t \<noteq> [] then ''GOROOT '' @ ti_Root t else [])"

definition toolchain_String :: "ToolchainIdentity \<Rightarrow> string" where
  "toolchain_String t =
     (if Recorded (ti_Version t) \<and> ti_Derived t then ti_Version t @ '' (from the recorded stdlib path)''
      else if Recorded (ti_Version t) then ti_Version t
      else if ti_Root t \<noteq> [] then ''unnamed version at GOROOT '' @ ti_Root t
      else version_String Unrecorded)"

definition firstPathElement :: "string \<Rightarrow> string" where
  "firstPathElement p = (case StrIndex p ''/'' of Some i \<Rightarrow> take i p | None \<Rightarrow> p)"

fun stdlibRoot :: "CallNode list \<Rightarrow> string" where
  "stdlibRoot [] = []"
| "stdlibRoot (n # ns) =
     (if cn_Module n \<noteq> [] \<or> cn_Package n = [] \<or> Contains (firstPathElement (cn_Package n)) ''.'' then stdlibRoot ns
      else case StrIndex (sp_File (cn_Position n)) (''/src/'' @ cn_Package n @ ''/'') of
          Some i \<Rightarrow> if 0 < i then take i (sp_File (cn_Position n)) else stdlibRoot ns
        | None \<Rightarrow> stdlibRoot ns)"

definition RecordToolchain :: "CallGraphRecord \<Rightarrow> ToolchainIdentity" where
  "RecordToolchain r =
     (if Recorded (cg_Toolchain r) then \<lparr>ti_Version = cg_Toolchain r, ti_Root = [], ti_Derived = False\<rparr>
      else let root = stdlibRoot (cg_Nodes r) in
        if root = [] then \<lparr>ti_Version = Unrecorded, ti_Root = [], ti_Derived = False\<rparr>
        else case FromGOROOT root of
            (v, True) \<Rightarrow> \<lparr>ti_Version = v, ti_Root = [], ti_Derived = True\<rparr>
          | (_, False) \<Rightarrow> \<lparr>ti_Version = Unrecorded, ti_Root = root, ti_Derived = True\<rparr>)"

definition withToolchain :: "CallGraphRecord list \<Rightarrow> string \<Rightarrow> CallGraphRecord list" where
  "withToolchain records want = filter (\<lambda>r. ti_Version (RecordToolchain r) = want) records"

fun selectableToolchain :: "string list \<Rightarrow> string" where
  "selectableToolchain [] = []"
| "selectableToolchain (v # vs) = (if \<not> HasPrefix v ''GOROOT '' \<and> v \<noteq> [] then v else selectableToolchain vs)"

section \<open>The order records serve in\<close>

definition completenessRung_cg :: "string \<Rightarrow> nat" where
  "completenessRung_cg l =
     (if l = CompletenessBuiltWithBodies then 4
      else if l = CompletenessTypeOnly then 3
      else if l = CompletenessMetadataOnly then 2
      else if l = CompletenessFailed then 1
      else 0)"

record GenerationRank =
  gr_Completeness :: string
  gr_EnvironmentLimited :: bool
  gr_ExtractedAt :: instant
  gr_AppendOrder :: nat
  gr_ContentHash :: string

definition RankOf :: "CallGraphRecord \<Rightarrow> GenerationRank" where
  "RankOf r = \<lparr>gr_Completeness = cg_Completeness r,
     gr_EnvironmentLimited = EnvironmentLimitedGraph (cg_OverallStatus r) (cg_FailureCause r),
     gr_ExtractedAt = cg_ExtractedAt r, gr_AppendOrder = 0, gr_ContentHash = cg_ContentHash r\<rparr>"

definition ServesBefore :: "GenerationRank \<Rightarrow> GenerationRank \<Rightarrow> bool" where
  "ServesBefore g h =
     (if completenessRung_cg (gr_Completeness g) \<noteq> completenessRung_cg (gr_Completeness h)
      then completenessRung_cg (gr_Completeness h) < completenessRung_cg (gr_Completeness g)
      else if gr_EnvironmentLimited g \<noteq> gr_EnvironmentLimited h then \<not> gr_EnvironmentLimited g
      else if gr_ExtractedAt g \<noteq> gr_ExtractedAt h then gr_ExtractedAt h < gr_ExtractedAt g
      else if gr_AppendOrder g \<noteq> gr_AppendOrder h then gr_AppendOrder h < gr_AppendOrder g
      else gr_ContentHash g < gr_ContentHash h)"

definition ranksInAppendOrder :: "CallGraphRecord list \<Rightarrow> GenerationRank list" where
  "ranksInAppendOrder records = map (\<lambda>(i, r). (RankOf r)\<lparr>gr_AppendOrder := i\<rparr>) (enumerate 0 records)"

text \<open>The loop that keeps the best so far.\<close>

fun keepBest :: "('a \<Rightarrow> 'a \<Rightarrow> bool) \<Rightarrow> 'a \<Rightarrow> 'a list \<Rightarrow> 'a" where
  "keepBest before b [] = b"
| "keepBest before b (x # xs) = keepBest before (if before x b then x else b) xs"

definition rankBefore :: "GenerationRank \<times> CallGraphRecord \<Rightarrow> GenerationRank \<times> CallGraphRecord \<Rightarrow> bool" where
  "rankBefore a b = ServesBefore (fst a) (fst b)"

definition ranked :: "CallGraphRecord list \<Rightarrow> (GenerationRank \<times> CallGraphRecord) list" where
  "ranked records = zip (ranksInAppendOrder records) records"

definition LatestObservation :: "CallGraphRecord list \<Rightarrow> CallGraphRecord" where
  "LatestObservation records = (let l = last records in
     if cg_WorktreeScanDigest l = [] then l
     else snd (keepBest rankBefore (last (ranked records))
       (filter (\<lambda>(_, r). cg_WorktreeScanDigest r = cg_WorktreeScanDigest l \<and> cg_AnalysisRoot r = cg_AnalysisRoot l)
         (ranked records))))"

definition serveRanked :: "CallGraphRecord list \<Rightarrow> CallGraphRecord" where
  "serveRanked candidates = snd (keepBest rankBefore (hd (ranked candidates)) (tl (ranked candidates)))"

section \<open>The group a read is answered from\<close>

definition withSource :: "CallGraphRecord list \<Rightarrow> string list \<Rightarrow> CallGraphRecord list" where
  "withSource records want = filter (\<lambda>r. cg_AnalysisSource r \<in> set want) records"

fun agreedRoot_from :: "string \<Rightarrow> CallGraphRecord list \<Rightarrow> string" where
  "agreedRoot_from root [] = root"
| "agreedRoot_from root (r # rs) =
     (if cg_AnalysisRoot r = [] then agreedRoot_from root rs
      else if root \<noteq> [] \<and> root \<noteq> cg_AnalysisRoot r then []
      else agreedRoot_from (cg_AnalysisRoot r) rs)"

definition agreedAnalysisRoot :: "CallGraphRecord list \<Rightarrow> string" where
  "agreedAnalysisRoot records = agreedRoot_from [] records"

definition conflictIn :: "CallGraphRecord list \<Rightarrow> string \<Rightarrow> string list \<Rightarrow> string list \<Rightarrow> CallGraphConflict" where
  "conflictIn records field vs hs = \<lparr>cc_Coordinate = cg_Coordinate (hd records),
     cc_PipelineVersion = cg_PipelineVersion (hd records), cc_Field = field, cc_Completeness = [],
     cc_Values = vs, cc_ContentHashes = hs, cc_AnalysisRoot = agreedAnalysisRoot records,
     cc_Difference = None, cc_Frames = []\<rparr>"

text \<open>The content hash of the first record that states a value.\<close>

fun firstHash :: "(string \<times> CallGraphRecord) list \<Rightarrow> string \<Rightarrow> string" where
  "firstHash [] v = []"
| "firstHash ((w, r) # wrs) v = (if w = v then cg_ContentHash r else firstHash wrs v)"

definition distinctSources :: "CallGraphRecord list \<Rightarrow> string list" where
  "distinctSources records = sorted_distinct (map (\<lambda>r. source_String (cg_AnalysisSource r)) records)"

definition hashesForSources :: "CallGraphRecord list \<Rightarrow> string list" where
  "hashesForSources records =
     map (firstHash (map (\<lambda>r. (source_String (cg_AnalysisSource r), r)) records)) (distinctSources records)"

definition analysedIn :: "CallGraphRecord list \<Rightarrow> string \<Rightarrow> bool" where
  "analysedIn records root \<longleftrightarrow> root \<noteq> [] \<and> list_ex (\<lambda>r. cg_AnalysisRoot r = root) records"

definition defaultSourceGroup :: "CallGraphRecord list \<Rightarrow> string \<Rightarrow> CallGraphConflict + CallGraphRecord list" where
  "defaultSourceGroup records callerRoot =
     (let zip = withSource records [AnalysisSourceModuleZip]; tree = withSource records [AnalysisSourceWorktree];
        toolchain = withSource records [AnalysisSourceToolchainSource]; silent = withSource records [AnalysisSourceUnrecorded] in
      if length zip + length tree + length toolchain + length silent \<noteq> length records
      then Inl (conflictIn records ConflictFieldAnalysisSource (distinctSources records) (hashesForSources records))
      else if toolchain \<noteq> [] \<and> zip = [] \<and> tree = []
      then Inr (withSource records [AnalysisSourceToolchainSource, AnalysisSourceUnrecorded])
      else if zip \<noteq> [] \<and> tree \<noteq> [] then (if analysedIn tree callerRoot then Inr tree else Inr zip)
      else if zip \<noteq> [] then Inr (withSource records [AnalysisSourceModuleZip, AnalysisSourceUnrecorded])
      else if tree \<noteq> [] then Inr (withSource records [AnalysisSourceWorktree, AnalysisSourceUnrecorded])
      else Inr silent)"

definition isWorktreeSequence :: "CallGraphRecord list \<Rightarrow> bool" where
  "isWorktreeSequence records \<longleftrightarrow>
     list_ex (\<lambda>r. cg_AnalysisSource r = AnalysisSourceWorktree) records \<or> IsLocal (cg_Coordinate (hd records))"

definition identifiedOrAll_cg :: "CallGraphRecord list \<Rightarrow> CallGraphRecord list" where
  "identifiedOrAll_cg records = (let identified = filter (\<lambda>r. cg_ArtefactIdentity r \<noteq> []) records in
     if identified = [] then records else identified)"

section \<open>Frames\<close>

definition withFrame :: "CallGraphRecord list \<Rightarrow> BuildFrame \<Rightarrow> CallGraphRecord list" where
  "withFrame records want = filter (\<lambda>r. SameFrame (cg_Frame r) want) records"

fun distinctFrames :: "frameKey list \<Rightarrow> CallGraphRecord list \<Rightarrow> (BuildFrame \<times> string) list" where
  "distinctFrames seen [] = []"
| "distinctFrames seen (r # rs) =
     (if keyOf (cg_Frame r) \<in> set seen then distinctFrames seen rs
      else (cg_Frame r, cg_ContentHash r) # distinctFrames (keyOf (cg_Frame r) # seen) rs)"

fun comparePairs :: "(string \<times> string) list \<Rightarrow> int" where
  "comparePairs [] = 0"
| "comparePairs ((a, b) # ps) = (if Compare a b \<noteq> 0 then Compare a b else comparePairs ps)"

definition compareFrames :: "BuildFrame \<Rightarrow> BuildFrame \<Rightarrow> int" where
  "compareFrames a b = comparePairs [(bf_GOOS a, bf_GOOS b), (bf_GOARCH a, bf_GOARCH b), (bf_GOARM a, bf_GOARM b),
     (bf_TinyGoTarget a, bf_TinyGoTarget b)]"

definition frameConflict :: "CallGraphRecord list \<Rightarrow> CallGraphConflict option" where
  "frameConflict records = (let fs = distinctFrames [] records in
     if length fs < 2 then None
     else let ordered = stable_sort (\<lambda>a b. compareFrames (fst a) (fst b) < 0) fs in
       Some ((conflictIn records ConflictFieldFrame (map (\<lambda>f. frame_String_cg (fst f)) ordered) (map snd ordered))
         \<lparr>cc_Frames := map fst ordered\<rparr>))"

section \<open>What records claim of the graph\<close>

definition withoutExternalPositions :: "CallNode list \<Rightarrow> CallNode list" where
  "withoutExternalPositions ns = map (\<lambda>n. if cn_IsExternal n then n\<lparr>cn_Position := zero_position\<rparr> else n) ns"

definition forGraphComparison :: "CallGraphRecord \<Rightarrow> CallGraphRecord" where
  "forGraphComparison r = r\<lparr>cg_ContentHash := [], cg_ExtractedAt := zero_time, cg_SourceContentHash := [],
     cg_BuildListSource := [], cg_AnalysisSource := analysedFrom r, cg_AnalysisRoot := [],
     cg_Nodes := withoutExternalPositions (cg_Nodes r), cg_Toolchain := Unrecorded, cg_DerivedBy := zero_derivation\<rparr>"

text \<open>Every list of the record cut down to one member: whether a field is stated does not depend on more.\<close>

definition fieldPresenceProbe :: "CallGraphRecord \<Rightarrow> CallGraphRecord" where
  "fieldPresenceProbe r = r\<lparr>cg_Nodes := take 1 (cg_Nodes r), cg_Edges := take 1 (cg_Edges r),
     cg_Interfaces := take 1 (cg_Interfaces r), cg_Implementations := take 1 (cg_Implementations r),
     cg_FailedPackages := take 1 (cg_FailedPackages r), cg_ExclusionList := take 1 (cg_ExclusionList r),
     cg_DroppedReplaces := take 1 (cg_DroppedReplaces r),
     cg_PrefixAttributedPackages := take 1 (cg_PrefixAttributedPackages r),
     cg_ForeignModulesBuilt := take 1 (cg_ForeignModulesBuilt r), cg_StdlibPackages := take 1 (cg_StdlibPackages r),
     cg_DependencyPackages := take 1 (cg_DependencyPackages r)\<rparr>"

definition graphFieldNames :: "CallGraphRecord \<Rightarrow> string list" where
  "graphFieldNames r = map fst (canonicalShell (forGraphComparison (fieldPresenceProbe r)))"

definition GraphClaimFields :: "string list" where
  "GraphClaimFields = [''edge_count'', ''edges'', ''implementations'', ''interfaces'', ''node_count'', ''nodes'']"

definition sharedFieldsAmong :: "string list list \<Rightarrow> string list \<Rightarrow> string list" where
  "sharedFieldsAmong stated candidates = sort (filter (\<lambda>name. list_all (\<lambda>names. name \<in> set names) stated) candidates)"

text \<open>The text hashed as a record's claim: the named fields of its canonical form, the edges streamed.\<close>

definition claimValue :: "(string \<times> json) list \<Rightarrow> CallEdge list \<Rightarrow> string \<Rightarrow> string" where
  "claimValue shell es name =
     (if name = ''edges'' then writeCanonicalEdges es
      else case map_of shell name of None \<Rightarrow> [] | Some j \<Rightarrow> print j)"

definition claimText :: "CallGraphRecord \<Rightarrow> string list \<Rightarrow> string" where
  "claimText r names = (let g = forGraphComparison r; es = canonicalEdgeOrder (cg_Edges g) in
     ''{'' @ Join (map (\<lambda>name. [quoteMark] @ name @ [quoteMark, CHR '':''] @ claimValue (canonicalShell g) es name) names) '',''
       @ ''}'')"

definition graphClaimDigest :: "(string \<Rightarrow> string) \<Rightarrow> CallGraphRecord \<Rightarrow> string list \<Rightarrow> string" where
  "graphClaimDigest H r names = ''sha256:'' @ EncodeToString (H (claimText r names))"

definition sharedClaims :: "CallGraphRecord list \<Rightarrow> string list" where
  "sharedClaims records = sharedFieldsAmong (map graphFieldNames records) GraphClaimFields"

definition GraphDigest :: "(string \<Rightarrow> string) \<Rightarrow> (seal_error_cg \<Rightarrow> string) \<Rightarrow> CallGraphRecord \<Rightarrow> string" where
  "GraphDigest H errText r = (case hashCanonical H (forGraphComparison r) of
       Inl e \<Rightarrow> ''unhashable:'' @ errText e | Inr d \<Rightarrow> d)"

definition statesAGraph :: "CallGraphRecord \<Rightarrow> bool" where
  "statesAGraph r \<longleftrightarrow> cg_Completeness r = CompletenessBuiltWithBodies \<or> cg_Completeness r = CompletenessTypeOnly
     \<or> cg_Completeness r = CompletenessMetadataOnly"

definition claimsTheModulesGraph :: "CallGraphRecord \<Rightarrow> bool" where
  "claimsTheModulesGraph r = (if EnvironmentLimitedGraph (cg_OverallStatus r) (cg_FailureCause r) then False else statesAGraph r)"

section \<open>Conflicts\<close>

definition disagreementOf :: "CallGraphRecord list \<Rightarrow> string \<Rightarrow> string list \<Rightarrow> CallGraphConflict option" where
  "disagreementOf records field vs = (let distinct = sorted_distinct (filter (\<lambda>v. v \<noteq> []) vs) in
     if length distinct < 2 then None
     else Some (conflictIn records field distinct (map (firstHash (zip vs records)) distinct)))"

definition disagreement_cg :: "CallGraphRecord list \<Rightarrow> string \<Rightarrow> (CallGraphRecord \<Rightarrow> string) \<Rightarrow> CallGraphConflict option" where
  "disagreement_cg records field stated = disagreementOf records field (map stated records)"

text \<open>The last record with a content hash, as a map filled in order has it.\<close>

definition byContentHash :: "CallGraphRecord list \<Rightarrow> string \<Rightarrow> CallGraphRecord option" where
  "byContentHash records h = map_of (rev (map (\<lambda>r. (cg_ContentHash r, r)) records)) h"

definition describingTheDifference :: "(string \<Rightarrow> string) \<Rightarrow> CallGraphConflict \<Rightarrow> CallGraphRecord list \<Rightarrow> CallGraphConflict" where
  "describingTheDifference H c records = (case cc_ContentHashes c of
       a # b # _ \<Rightarrow> (case (byContentHash records a, byContentHash records b) of
           (Some left, Some right) \<Rightarrow> (case DiffGenerations H left right of
               Inl _ \<Rightarrow> c
             | Inr d \<Rightarrow> c\<lparr>cc_Difference := Some d\<rparr>)
         | _ \<Rightarrow> c)
     | _ \<Rightarrow> c)"

definition pairLess :: "string \<times> string \<Rightarrow> string \<times> string \<Rightarrow> bool" where
  "pairLess a b = (if fst a \<noteq> fst b then fst a < fst b else snd a < snd b)"

definition reportedAsWholeDigests :: "(string \<Rightarrow> string) \<Rightarrow> (seal_error_cg \<Rightarrow> string) \<Rightarrow> CallGraphConflict \<Rightarrow> CallGraphRecord list
    \<Rightarrow> CallGraphConflict" where
  "reportedAsWholeDigests H errText c records =
     (let ps = stable_sort pairLess (map (\<lambda>(v, h). (case byContentHash records h of
           Some r \<Rightarrow> GraphDigest H errText r | None \<Rightarrow> v, h)) (zip (cc_Values c) (cc_ContentHashes c)))
      in c\<lparr>cc_Values := map fst ps, cc_ContentHashes := map snd ps\<rparr>)"

definition answeringOneQuestion :: "CallGraphRecord list \<Rightarrow> CallGraphRecord list list" where
  "answeringOneQuestion records =
     (let sources = sorted_distinct (filter (\<lambda>s. s \<noteq> []) (map cg_BuildListSource records)) in
      if length sources < 2 then [records]
      else map (\<lambda>s. filter (\<lambda>r. cg_BuildListSource r = s \<or> cg_BuildListSource r = []) records) sources)"

definition graphDisagreement :: "(string \<Rightarrow> string) \<Rightarrow> (seal_error_cg \<Rightarrow> string) \<Rightarrow> CallGraphRecord list \<Rightarrow> CallGraphConflict option" where
  "graphDisagreement H errText records =
     (if length records < 2 then None
      else case disagreementOf records ConflictFieldCallGraph
          (map (\<lambda>r. graphClaimDigest H r (sharedClaims records)) records) of
        None \<Rightarrow> None
      | Some c \<Rightarrow> let c = c\<lparr>cc_Completeness := cg_Completeness (hd records)\<rparr> in
          Some (describingTheDifference H (reportedAsWholeDigests H errText c records) records))"

text \<open>The first two records whose graphs differ and whose toolchains are known and differ.\<close>

definition clash :: "(string \<Rightarrow> string) \<Rightarrow> string list \<Rightarrow> CallGraphRecord \<Rightarrow> CallGraphRecord \<Rightarrow> bool" where
  "clash H shared a b \<longleftrightarrow> graphClaimDigest H a shared \<noteq> graphClaimDigest H b shared
     \<and> rootEvidence (RecordToolchain a) \<noteq> [] \<and> rootEvidence (RecordToolchain b) \<noteq> []
     \<and> rootEvidence (RecordToolchain a) \<noteq> rootEvidence (RecordToolchain b)"

fun firstClash :: "(CallGraphRecord \<Rightarrow> CallGraphRecord \<Rightarrow> bool) \<Rightarrow> CallGraphRecord list \<Rightarrow> (CallGraphRecord \<times> CallGraphRecord) option" where
  "firstClash P [] = None"
| "firstClash P (a # rs) = (case find (P a) rs of Some b \<Rightarrow> Some (a, b) | None \<Rightarrow> firstClash P rs)"

definition toolchainExplainedGraphDifference :: "(string \<Rightarrow> string) \<Rightarrow> CallGraphRecord list \<Rightarrow> CallGraphConflict option" where
  "toolchainExplainedGraphDifference H records =
     (if length records < 2 then None
      else case firstClash (clash H (sharedClaims records)) records of
        None \<Rightarrow> None
      | Some (a, b) \<Rightarrow>
          let ea = rootEvidence (RecordToolchain a); eb = rootEvidence (RecordToolchain b);
            c = (if eb < ea then conflictIn records ConflictFieldToolchain [eb, ea] [cg_ContentHash b, cg_ContentHash a]
                 else conflictIn records ConflictFieldToolchain [ea, eb] [cg_ContentHash a, cg_ContentHash b])
          in Some (describingTheDifference H (c\<lparr>cc_Completeness := cg_Completeness a\<rparr>) records))"

fun topRung :: "nat \<Rightarrow> CallGraphRecord list \<Rightarrow> nat" where
  "topRung best [] = best"
| "topRung best (r # rs) =
     (let rung = completenessRung_cg (cg_Completeness r) in topRung (if best < rung then rung else best) rs)"

definition tiedAtTop_cg :: "CallGraphRecord list \<Rightarrow> CallGraphRecord list" where
  "tiedAtTop_cg records = (let best = topRung (completenessRung_cg (cg_Completeness (hd records))) (tl records) in
     filter (\<lambda>r. completenessRung_cg (cg_Completeness r) = best \<and> claimsTheModulesGraph r) records)"

fun firstSome :: "('a \<Rightarrow> 'b option) \<Rightarrow> 'a list \<Rightarrow> 'b option" where
  "firstSome f [] = None"
| "firstSome f (x # xs) = (case f x of Some y \<Rightarrow> Some y | None \<Rightarrow> firstSome f xs)"

definition findConflict_cg :: "(string \<Rightarrow> string) \<Rightarrow> (seal_error_cg \<Rightarrow> string) \<Rightarrow> CallGraphRecord list \<Rightarrow> CallGraphConflict option" where
  "findConflict_cg H errText records =
     (if length records < 2 then None
      else case disagreement_cg records ConflictFieldArtefactIdentity cg_ArtefactIdentity of
        Some c \<Rightarrow> Some c
      | None \<Rightarrow> (let tied = tiedAtTop_cg records in
          case toolchainExplainedGraphDifference H tied of
            Some c \<Rightarrow> Some c
          | None \<Rightarrow> firstSome (graphDisagreement H errText) (answeringOneQuestion tied)))"

definition preferredToolchain :: "(string \<Rightarrow> string) \<Rightarrow> (seal_error_cg \<Rightarrow> string) \<Rightarrow> CallGraphRecord list \<Rightarrow> CallGraphConflict \<Rightarrow> string
    \<Rightarrow> CallGraphRecord list option" where
  "preferredToolchain H errText records c want =
     (if \<not> Recorded want \<or> cc_Field c \<noteq> ConflictFieldToolchain then None
      else let kept = withToolchain records want in
        if kept = [] then None
        else case findConflict_cg H errText kept of Some _ \<Rightarrow> None | None \<Rightarrow> Some kept)"

section \<open>Composition\<close>

datatype compose_error_cg = ErrNoRecordsToCompose_cg | ConflictCallGraph CallGraphConflict

definition inFrame :: "CallGraphRecord list \<Rightarrow> BuildFrame \<Rightarrow> compose_error_cg + CallGraphRecord list" where
  "inFrame records want =
     (if \<not> frame_IsZero want then
        (if withFrame records want = [] then Inl ErrNoRecordsToCompose_cg else Inr (withFrame records want))
      else case frameConflict records of Some c \<Rightarrow> Inl (ConflictCallGraph c) | None \<Rightarrow> Inr records)"

definition ofSource :: "CallGraphRecord list \<Rightarrow> ComposeRequest \<Rightarrow> compose_error_cg + CallGraphRecord list" where
  "ofSource records req =
     (if rq_Source req \<noteq> AnalysisSourceUnrecorded then
        (if withSource records [rq_Source req] = [] then Inl ErrNoRecordsToCompose_cg
         else Inr (withSource records [rq_Source req]))
      else case defaultSourceGroup records (rq_CallerRoot req) of
        Inl c \<Rightarrow> Inl (ConflictCallGraph c) | Inr g \<Rightarrow> Inr g)"

definition ofToolchain :: "CallGraphRecord list \<Rightarrow> string \<Rightarrow> compose_error_cg + CallGraphRecord list" where
  "ofToolchain candidates want =
     (if \<not> Recorded want then Inr candidates
      else if withToolchain candidates want = [] then Inl ErrNoRecordsToCompose_cg
      else Inr (withToolchain candidates want))"

definition answerFrom :: "(string \<Rightarrow> string) \<Rightarrow> (seal_error_cg \<Rightarrow> string) \<Rightarrow> CallGraphRecord list \<Rightarrow> string
    \<Rightarrow> compose_error_cg + CallGraphRecord" where
  "answerFrom H errText candidates preference =
     (if isWorktreeSequence candidates then Inr (LatestObservation candidates)
      else let identified = identifiedOrAll_cg candidates in
        case findConflict_cg H errText identified of
          None \<Rightarrow> Inr (serveRanked identified)
        | Some c \<Rightarrow> (case preferredToolchain H errText identified c preference of
              None \<Rightarrow> Inl (ConflictCallGraph c)
            | Some resolved \<Rightarrow> Inr (serveRanked resolved)))"

definition Compose_cg :: "(string \<Rightarrow> string) \<Rightarrow> (seal_error_cg \<Rightarrow> string) \<Rightarrow> CallGraphRecord list \<Rightarrow> ComposeRequest
    \<Rightarrow> compose_error_cg + CallGraphRecord" where
  "Compose_cg H errText records req =
     (if records = [] then Inl ErrNoRecordsToCompose_cg
      else case inFrame records (rq_Frame req) of
        Inl e \<Rightarrow> Inl e
      | Inr framed \<Rightarrow> (case ofSource framed req of
          Inl e \<Rightarrow> Inl e
        | Inr sourced \<Rightarrow> (case ofToolchain sourced (rq_Toolchain req) of
            Inl e \<Rightarrow> Inl e
          | Inr candidates \<Rightarrow> answerFrom H errText candidates (rq_ToolchainPreference req))))"

section \<open>The record served is the strongest\<close>

context serving
begin

lemma keepBest_in: "keepBest before b xs \<in> set (b # xs)"
  by (induction xs arbitrary: b) (auto split: if_splits)

lemma keepBest_least: "x \<in> set (b # xs) \<Longrightarrow> \<not> before x (keepBest before b xs)"
proof (induction xs arbitrary: b x)
  case Nil
  then show ?case using swo_irrefl [OF order] by simp
next
  case (Cons y ys)
  let ?c = "if before y b then y else b"
  have ok: "\<not> before z (keepBest before ?c ys)" if "z \<in> set (?c # ys)" for z
    by (rule Cons.IH) (use that in simp)
  have "\<not> before y ?c" "\<not> before b ?c"
    using swo_irrefl [OF order] swo_asym [OF order, of y b] by auto
  moreover have "\<not> before ?c (keepBest before ?c ys)" by (rule ok) simp
  ultimately have "\<not> before y (keepBest before ?c ys)" "\<not> before b (keepBest before ?c ys)"
    using swo_negtrans [OF order, of _ ?c] by blast+
  moreover have "\<not> before z (keepBest before ?c ys)" if "z \<in> set ys" for z by (rule ok) (simp add: that)
  ultimately show ?case using Cons.prems by auto
qed

end

lemma swo_ServesBefore: "swo ServesBefore"
  unfolding ServesBefore_def [abs_def] by (intro swo_intros)

interpretation ranks: serving rankBefore
proof
  show "swo rankBefore"
    using swo_ServesBefore unfolding rankBefore_def [abs_def] swo_def by meson
qed

text \<open>What a record is preferred for: how far its analysis got, that nothing cut it short, when it was made.\<close>

definition evidence :: "CallGraphRecord \<Rightarrow> nat \<times> nat \<times> instant" where
  "evidence r = (completenessRung_cg (cg_Completeness r),
     if EnvironmentLimitedGraph (cg_OverallStatus r) (cg_FailureCause r) then 0 else 1, cg_ExtractedAt r)"

text \<open>The record with the most evidence, the latest appended of those with as much.\<close>

definition bestOf :: "CallGraphRecord list \<Rightarrow> CallGraphRecord \<Rightarrow> bool" where
  "bestOf cs r \<longleftrightarrow> (\<exists>us vs. cs = us @ r # vs \<and> (\<forall>u \<in> set us. evidence u \<le> evidence r)
     \<and> (\<forall>v \<in> set vs. evidence v < evidence r))"

definition at :: "nat \<Rightarrow> CallGraphRecord \<Rightarrow> GenerationRank" where
  "at i r = (RankOf r)\<lparr>gr_AppendOrder := i\<rparr>"

lemma at_before:
  "ServesBefore (at i a) (at j b) \<longleftrightarrow>
     evidence b < evidence a \<or> evidence a = evidence b \<and> (j < i \<or> i = j \<and> cg_ContentHash a < cg_ContentHash b)"
  by (auto simp: ServesBefore_def at_def RankOf_def evidence_def)

lemma ranked_nth: "length (ranked cs) = length cs" "i < length cs \<Longrightarrow> ranked cs ! i = (at i (cs ! i), cs ! i)"
  by (simp_all add: ranked_def ranksInAppendOrder_def at_def nth_enumerate_eq)

lemma set_ranked: "set (ranked cs) = {(at i (cs ! i), cs ! i) | i. i < length cs}"
  unfolding set_conv_nth ranked_nth(1) by (metis (no_types, lifting) ranked_nth(2))

lemma serveRanked_best:
  assumes "cs \<noteq> []"
  shows "bestOf cs (serveRanked cs)"
proof -
  have "ranked cs \<noteq> []" using assms ranked_nth(1) [of cs] by (metis length_0_conv)
  then have rc: "hd (ranked cs) # tl (ranked cs) = ranked cs" by simp
  let ?k = "keepBest rankBefore (hd (ranked cs)) (tl (ranked cs))"
  have "?k \<in> set (ranked cs)" using ranks.keepBest_in [of "hd (ranked cs)" "tl (ranked cs)"] unfolding rc .
  then obtain i where i: "i < length cs" "?k = (at i (cs ! i), cs ! i)" unfolding set_ranked by blast
  have least: "\<not> ServesBefore (at j (cs ! j)) (at i (cs ! i))" if "j < length cs" for j
  proof -
    have "(at j (cs ! j), cs ! j) \<in> set (hd (ranked cs) # tl (ranked cs))" unfolding rc set_ranked using that by blast
    from ranks.keepBest_least [OF this] show ?thesis unfolding i(2) by (simp add: rankBefore_def)
  qed
  have r: "serveRanked cs = cs ! i" by (simp add: serveRanked_def i(2))
  have "cs = take i cs @ cs ! i # drop (Suc i) cs" by (rule id_take_nth_drop [OF i(1)])
  moreover have "\<forall>u \<in> set (take i cs). evidence u \<le> evidence (cs ! i)"
  proof
    fix u assume "u \<in> set (take i cs)"
    then obtain j where j: "j < i" "u = cs ! j" using i(1) by (auto simp: in_set_conv_nth)
    with least [of j] i(1) show "evidence u \<le> evidence (cs ! i)" by (simp add: at_before not_less)
  qed
  moreover have "\<forall>v \<in> set (drop (Suc i) cs). evidence v < evidence (cs ! i)"
  proof
    fix v assume "v \<in> set (drop (Suc i) cs)"
    then obtain j where j: "j < length cs" "i < j" "v = cs ! j" by (auto simp: in_set_conv_nth) (metis add_Suc_right less_add_Suc1 less_diff_conv add.commute)
    with least [of j] have "\<not> evidence (cs ! i) < evidence v" "evidence v \<noteq> evidence (cs ! i)" by (auto simp: at_before)
    then show "evidence v < evidence (cs ! i)" by simp
  qed
  ultimately show ?thesis unfolding bestOf_def r by blast
qed

text \<open>A working tree is observed in sequence: the last record answers, or the best one of the same tree.\<close>

definition latestOf :: "CallGraphRecord list \<Rightarrow> CallGraphRecord \<Rightarrow> bool" where
  "latestOf cs r \<longleftrightarrow>
     (if cg_WorktreeScanDigest (last cs) = [] then r = last cs
      else r \<in> set cs \<and> cg_WorktreeScanDigest r = cg_WorktreeScanDigest (last cs) \<and> cg_AnalysisRoot r = cg_AnalysisRoot (last cs)
        \<and> (\<forall>q \<in> set cs. cg_WorktreeScanDigest q = cg_WorktreeScanDigest (last cs)
             \<and> cg_AnalysisRoot q = cg_AnalysisRoot (last cs) \<longrightarrow> evidence q \<le> evidence r))"

lemma latest_observation:
  assumes "cs \<noteq> []"
  shows "latestOf cs (LatestObservation cs)"
proof (cases "cg_WorktreeScanDigest (last cs) = []")
  case True
  then show ?thesis by (simp add: latestOf_def LatestObservation_def Let_def)
next
  case False
  let ?P = "\<lambda>(_ :: GenerationRank, q). cg_WorktreeScanDigest q = cg_WorktreeScanDigest (last cs) \<and> cg_AnalysisRoot q = cg_AnalysisRoot (last cs)"
  let ?k = "keepBest rankBefore (last (ranked cs)) (filter ?P (ranked cs))"
  have l: "last (ranked cs) \<in> set (filter ?P (ranked cs))"
  proof -
    have ne: "ranked cs \<noteq> []" using assms ranked_nth(1) [of cs] by (metis length_0_conv)
    have "last (ranked cs) = ranked cs ! (length cs - 1)" using ne by (simp add: last_conv_nth ranked_nth)
    also have "\<dots> = (at (length cs - 1) (last cs), last cs)" using assms by (simp add: ranked_nth last_conv_nth)
    finally have "snd (last (ranked cs)) = last cs" by simp
    with ne show ?thesis by (simp add: case_prod_beta)
  qed
  have in_k: "?k \<in> set (filter ?P (ranked cs))"
    using ranks.keepBest_in [of "last (ranked cs)" "filter ?P (ranked cs)"] l by auto
  then obtain i where i: "i < length cs" "?k = (at i (cs ! i), cs ! i)" "?P (at i (cs ! i), cs ! i)"
    by (auto simp: set_ranked)
  have "evidence q \<le> evidence (cs ! i)" if q: "q \<in> set cs" "?P (at 0 q, q)" for q
  proof -
    obtain j where j: "j < length cs" "q = cs ! j" using q(1) by (auto simp: in_set_conv_nth)
    then have "(at j q, q) \<in> set (filter ?P (ranked cs))" using q(2) by (auto simp: set_ranked)
    then have "\<not> rankBefore (at j q, q) ?k" by (intro ranks.keepBest_least) simp
    then show ?thesis unfolding i(2) by (simp add: rankBefore_def at_before not_less)
  qed
  moreover have "LatestObservation cs = cs ! i"
    using False i(2) by (simp add: LatestObservation_def Let_def)
  ultimately show ?thesis using False i(1,3) by (simp add: latestOf_def)
qed

section \<open>Refusals are contradictions\<close>

lemma distinct_short: "length (sorted_distinct (xs :: 'a::linorder list)) < 2 \<longleftrightarrow> (\<forall>v \<in> set xs. \<forall>w \<in> set xs. v = w)"
  using card_le_Suc0_iff_eq [of "set xs"] by (auto simp: less_Suc_eq_le numeral_2_eq_2)

lemma firstHash_in:
  "length vs = length records \<Longrightarrow> v \<in> set vs \<Longrightarrow> firstHash (zip vs records) v \<in> cg_ContentHash ` set records"
  by (induction vs records rule: list_induct2) auto

lemma disagreementOf_None:
  "disagreementOf records field vs = None \<longleftrightarrow> (\<forall>v \<in> set vs. \<forall>w \<in> set vs. v \<noteq> [] \<and> w \<noteq> [] \<longrightarrow> v = w)"
  unfolding disagreementOf_def Let_def using distinct_short [of "filter (\<lambda>v. v \<noteq> []) vs"] by auto

lemma disagreementOf_Some:
  assumes "disagreementOf records field vs = Some c" "length vs = length records"
  shows "cc_Field c = field" "length (cc_ContentHashes c) = length (cc_Values c)"
    "set (cc_ContentHashes c) \<subseteq> cg_ContentHash ` set records"
    "\<exists>v \<in> set vs. \<exists>w \<in> set vs. v \<noteq> [] \<and> w \<noteq> [] \<and> v \<noteq> w"
proof -
  let ?d = "sorted_distinct (filter (\<lambda>v. v \<noteq> []) vs)"
  have c: "c = conflictIn records field ?d (map (firstHash (zip vs records)) ?d)"
    using assms(1) by (auto simp: disagreementOf_def Let_def split: if_splits)
  show "cc_Field c = field" "length (cc_ContentHashes c) = length (cc_Values c)" by (simp_all add: c conflictIn_def)
  show "set (cc_ContentHashes c) \<subseteq> cg_ContentHash ` set records"
    using firstHash_in [OF assms(2)] by (auto simp: c conflictIn_def)
  have "disagreementOf records field vs \<noteq> None" by (simp add: assms(1))
  then show "\<exists>v \<in> set vs. \<exists>w \<in> set vs. v \<noteq> [] \<and> w \<noteq> [] \<and> v \<noteq> w"
    unfolding disagreementOf_None by blast
qed

lemma difference_keeps [simp]:
  "cc_Field (describingTheDifference H c records) = cc_Field c"
  "cc_ContentHashes (describingTheDifference H c records) = cc_ContentHashes c"
  "cc_Values (describingTheDifference H c records) = cc_Values c"
  by (auto simp: describingTheDifference_def split: list.splits option.splits sum.splits)

lemma whole_digests_keep:
  "cc_Field (reportedAsWholeDigests H e c records) = cc_Field c"
  "set (cc_ContentHashes (reportedAsWholeDigests H e c records)) \<subseteq> set (cc_ContentHashes c)"
  by (auto simp: reportedAsWholeDigests_def Let_def dest: set_zip_rightD)

lemma clash_sym: "clash H ns a b \<longleftrightarrow> clash H ns b a" and clash_irrefl: "\<not> clash H ns a a"
  by (auto simp: clash_def)

lemma firstClash_Some: "firstClash P rs = Some (a, b) \<Longrightarrow> a \<in> set rs \<and> b \<in> set rs \<and> P a b"
  by (induction P rs rule: firstClash.induct) (auto split: option.splits simp: find_Some_iff)

lemma firstClash_None:
  assumes "\<And>a b. P a b \<longleftrightarrow> P b a" "\<And>a. \<not> P a a"
  shows "firstClash P rs = None \<longleftrightarrow> (\<forall>a \<in> set rs. \<forall>b \<in> set rs. \<not> P a b)"
proof (induction rs)
  case (Cons r rs)
  show ?case
  proof (cases "find (P r) rs")
    case None
    then have "\<forall>b \<in> set rs. \<not> P r b" by (auto simp: find_None_iff)
    moreover from this have "\<forall>a \<in> set rs. \<not> P a r" using assms(1) by blast
    moreover have "\<not> P r r" by (rule assms(2))
    ultimately show ?thesis unfolding firstClash.simps None option.case Cons by (simp only: list.set ball_simps) blast
  next
    case (Some b)
    then have "b \<in> set rs" "P r b" by (auto simp: find_Some_iff)
    with Some show ?thesis by auto
  qed
qed simp

lemma short_equal: "length xs < 2 \<Longrightarrow> a \<in> set xs \<Longrightarrow> b \<in> set xs \<Longrightarrow> a = b"
  by (cases xs; cases "tl xs") auto

lemma firstSome_None: "firstSome f xs = None \<longleftrightarrow> (\<forall>x \<in> set xs. f x = None)"
  by (induction f xs rule: firstSome.induct) (auto split: option.splits)

lemma firstSome_Some: "firstSome f xs = Some y \<Longrightarrow> \<exists>x \<in> set xs. f x = Some y"
  by (induction f xs rule: firstSome.induct) (auto split: option.splits)

lemma digest_nonempty: "graphClaimDigest H r ns \<noteq> []"
  by (simp add: graphClaimDigest_def)

lemma graphDisagreement_None:
  "graphDisagreement H e g = None
     \<longleftrightarrow> (\<forall>a \<in> set g. \<forall>b \<in> set g. graphClaimDigest H a (sharedClaims g) = graphClaimDigest H b (sharedClaims g))"
proof -
  have d: "disagreementOf g ConflictFieldCallGraph (map (\<lambda>r. graphClaimDigest H r (sharedClaims g)) g) = None
     \<longleftrightarrow> (\<forall>a \<in> set g. \<forall>b \<in> set g. graphClaimDigest H a (sharedClaims g) = graphClaimDigest H b (sharedClaims g))"
    unfolding disagreementOf_None by (simp add: digest_nonempty)
  show ?thesis
  proof (cases "length g < 2")
    case True
    then show ?thesis using short_equal [OF True] by (simp add: graphDisagreement_def) metis
  next
    case False
    then show ?thesis unfolding d [symmetric] by (simp add: graphDisagreement_def Let_def split: option.splits)
  qed
qed

lemma graphDisagreement_Some:
  assumes "graphDisagreement H e g = Some c"
  shows "cc_Field c = ConflictFieldCallGraph" "set (cc_ContentHashes c) \<subseteq> cg_ContentHash ` set g"
    "\<exists>a \<in> set g. \<exists>b \<in> set g. graphClaimDigest H a (sharedClaims g) \<noteq> graphClaimDigest H b (sharedClaims g)"
proof -
  let ?vs = "map (\<lambda>r. graphClaimDigest H r (sharedClaims g)) g"
  obtain d where d: "disagreementOf g ConflictFieldCallGraph ?vs = Some d"
    "c = describingTheDifference H (reportedAsWholeDigests H e (d\<lparr>cc_Completeness := cg_Completeness (hd g)\<rparr>) g) g"
    using assms by (auto simp: graphDisagreement_def Let_def split: if_splits option.splits)
  note s = disagreementOf_Some [OF d(1)]
  show "cc_Field c = ConflictFieldCallGraph" using s(1) by (simp add: d(2) whole_digests_keep(1))
  show "set (cc_ContentHashes c) \<subseteq> cg_ContentHash ` set g"
    using s(3) whole_digests_keep(2) [of H e "d\<lparr>cc_Completeness := cg_Completeness (hd g)\<rparr>" g] by (simp add: d(2))
  show "\<exists>a \<in> set g. \<exists>b \<in> set g. graphClaimDigest H a (sharedClaims g) \<noteq> graphClaimDigest H b (sharedClaims g)"
    using s(4) by auto
qed

lemma toolchain_None:
  "toolchainExplainedGraphDifference H rs = None \<longleftrightarrow> (\<forall>a \<in> set rs. \<forall>b \<in> set rs. \<not> clash H (sharedClaims rs) a b)"
proof -
  note n = firstClash_None [of "clash H (sharedClaims rs)" rs, OF clash_sym clash_irrefl]
  show ?thesis
  proof (cases "length rs < 2")
    case True
    then show ?thesis using short_equal [OF True] clash_irrefl by (simp add: toolchainExplainedGraphDifference_def) metis
  next
    case False
    then show ?thesis unfolding n [symmetric] by (simp add: toolchainExplainedGraphDifference_def Let_def split: option.splits)
  qed
qed

lemma toolchain_Some:
  assumes "toolchainExplainedGraphDifference H rs = Some c"
  shows "cc_Field c = ConflictFieldToolchain" "set (cc_ContentHashes c) \<subseteq> cg_ContentHash ` set rs"
    "\<exists>a \<in> set rs. \<exists>b \<in> set rs. clash H (sharedClaims rs) a b"
proof -
  obtain a b where ab: "firstClash (clash H (sharedClaims rs)) rs = Some (a, b)"
    using assms by (auto simp: toolchainExplainedGraphDifference_def split: if_splits option.splits)
  from firstClash_Some [OF ab] show "\<exists>a \<in> set rs. \<exists>b \<in> set rs. clash H (sharedClaims rs) a b" by blast
  show "cc_Field c = ConflictFieldToolchain" "set (cc_ContentHashes c) \<subseteq> cg_ContentHash ` set rs"
    using assms firstClash_Some [OF ab] ab
    by (auto simp: toolchainExplainedGraphDifference_def Let_def conflictIn_def split: if_splits)
qed

lemma question_subset: "g \<in> set (answeringOneQuestion rs) \<Longrightarrow> set g \<subseteq> set rs"
  by (auto simp: answeringOneQuestion_def Let_def split: if_splits)

lemma tied_subset: "set (tiedAtTop_cg rs) \<subseteq> set rs"
  by (auto simp: tiedAtTop_cg_def Let_def)

text \<open>
  Records that may be answered from: those that name an artefact name one; no two of the strongest
  state different graphs under different toolchains; and those that answer one question, about one
  build list, claim one graph.
\<close>

definition undisputed :: "(string \<Rightarrow> string) \<Rightarrow> CallGraphRecord list \<Rightarrow> bool" where
  "undisputed H cs \<longleftrightarrow>
     (\<forall>a \<in> set cs. \<forall>b \<in> set cs. cg_ArtefactIdentity a \<noteq> [] \<and> cg_ArtefactIdentity b \<noteq> []
        \<longrightarrow> cg_ArtefactIdentity a = cg_ArtefactIdentity b)
     \<and> (\<forall>a \<in> set (tiedAtTop_cg cs). \<forall>b \<in> set (tiedAtTop_cg cs). \<not> clash H (sharedClaims (tiedAtTop_cg cs)) a b)
     \<and> (\<forall>g \<in> set (answeringOneQuestion (tiedAtTop_cg cs)). \<forall>a \<in> set g. \<forall>b \<in> set g.
          graphClaimDigest H a (sharedClaims g) = graphClaimDigest H b (sharedClaims g))"

text \<open>A conflict is justified when two records contradict each other in the field it names.\<close>

definition justified :: "(string \<Rightarrow> string) \<Rightarrow> CallGraphRecord list \<Rightarrow> CallGraphConflict \<Rightarrow> bool" where
  "justified H cs c \<longleftrightarrow> set (cc_ContentHashes c) \<subseteq> cg_ContentHash ` set cs
     \<and> (cc_Field c = ConflictFieldArtefactIdentity \<and> (\<exists>a \<in> set cs. \<exists>b \<in> set cs. cg_ArtefactIdentity a \<noteq> []
           \<and> cg_ArtefactIdentity b \<noteq> [] \<and> cg_ArtefactIdentity a \<noteq> cg_ArtefactIdentity b)
      \<or> cc_Field c = ConflictFieldToolchain \<and> (\<exists>a \<in> set (tiedAtTop_cg cs). \<exists>b \<in> set (tiedAtTop_cg cs).
           clash H (sharedClaims (tiedAtTop_cg cs)) a b)
      \<or> cc_Field c = ConflictFieldCallGraph \<and> (\<exists>g \<in> set (answeringOneQuestion (tiedAtTop_cg cs)).
           \<exists>a \<in> set g. \<exists>b \<in> set g. graphClaimDigest H a (sharedClaims g) \<noteq> graphClaimDigest H b (sharedClaims g)))"

lemma findConflict_cg_None: "findConflict_cg H e cs = None \<longleftrightarrow> undisputed H cs"
proof (cases "length cs < 2")
  case True
  have small: "a = b" if "a \<in> set cs" "b \<in> set cs" for a b
    by (rule short_equal [OF True that])
  have "undisputed H cs"
    unfolding undisputed_def
  proof (intro conjI ballI impI)
    fix a b assume "a \<in> set (tiedAtTop_cg cs)" "b \<in> set (tiedAtTop_cg cs)"
    then have "a = b" by (intro small) (use tied_subset in auto)
    then show "\<not> clash H (sharedClaims (tiedAtTop_cg cs)) a b" using clash_irrefl by simp
  next
    fix g a b assume "g \<in> set (answeringOneQuestion (tiedAtTop_cg cs))" "a \<in> set g" "b \<in> set g"
    then have "a \<in> set cs" "b \<in> set cs" using tied_subset question_subset by blast+
    then have "a = b" by (rule small)
    then show "graphClaimDigest H a (sharedClaims g) = graphClaimDigest H b (sharedClaims g)" by simp
  next
    fix a b assume "a \<in> set cs" "b \<in> set cs"
    then have "a = b" by (rule small)
    then show "cg_ArtefactIdentity a = cg_ArtefactIdentity b" by simp
  qed
  then show ?thesis using True by (simp add: findConflict_cg_def)
next
  case False
  have "disagreement_cg cs ConflictFieldArtefactIdentity cg_ArtefactIdentity = None
      \<longleftrightarrow> (\<forall>a \<in> set cs. \<forall>b \<in> set cs. cg_ArtefactIdentity a \<noteq> [] \<and> cg_ArtefactIdentity b \<noteq> []
        \<longrightarrow> cg_ArtefactIdentity a = cg_ArtefactIdentity b)"
    by (simp add: disagreement_cg_def disagreementOf_None)
  note id = this
  let ?t = "tiedAtTop_cg cs"
  have "findConflict_cg H e cs = None \<longleftrightarrow> disagreement_cg cs ConflictFieldArtefactIdentity cg_ArtefactIdentity = None
      \<and> toolchainExplainedGraphDifference H ?t = None \<and> (\<forall>g \<in> set (answeringOneQuestion ?t). graphDisagreement H e g = None)"
    using False by (simp add: findConflict_cg_def Let_def firstSome_None split: option.splits)
  then show ?thesis unfolding undisputed_def id toolchain_None graphDisagreement_None .
qed

lemma findConflict_cg_Some:
  assumes "findConflict_cg H e cs = Some c"
  shows "justified H cs c"
proof -
  consider "disagreementOf cs ConflictFieldArtefactIdentity (map cg_ArtefactIdentity cs) = Some c"
    | "toolchainExplainedGraphDifference H (tiedAtTop_cg cs) = Some c"
    | g where "g \<in> set (answeringOneQuestion (tiedAtTop_cg cs))" "graphDisagreement H e g = Some c"
    using assms unfolding findConflict_cg_def disagreement_cg_def
    by (auto simp: Let_def split: if_splits option.splits dest!: firstSome_Some)
  then show ?thesis
  proof cases
    case 1
    from disagreementOf_Some [OF this] show ?thesis by (auto simp: justified_def)
  next
    case 2
    from toolchain_Some [OF this] tied_subset [of cs] show ?thesis by (auto simp: justified_def)
  next
    case 3
    have "set g \<subseteq> set cs" using question_subset [OF 3(1)] tied_subset by blast
    with graphDisagreement_Some [OF 3(2)] 3(1) show ?thesis unfolding justified_def by blast
  qed
qed

section \<open>The frames and the sources of a group\<close>

lemma SameFrame_key: "SameFrame a b \<longleftrightarrow> keyOf a = keyOf b"
  by (simp add: SameFrame_def keyOf_def)

lemma distinctFrames_keys:
  "(\<lambda>f. keyOf (fst f)) ` set (distinctFrames seen rs) = (\<lambda>r. keyOf (cg_Frame r)) ` set rs - set seen"
  by (induction seen rs rule: distinctFrames.induct) auto

lemma distinctFrames_distinct: "distinct (map (\<lambda>f. keyOf (fst f)) (distinctFrames seen rs))"
  using distinctFrames_keys by (induction seen rs rule: distinctFrames.induct) fastforce+

lemma distinctFrames_hashes: "set (map snd (distinctFrames seen rs)) \<subseteq> cg_ContentHash ` set rs"
  by (induction seen rs rule: distinctFrames.induct) auto

lemma frameConflict_None:
  "frameConflict records = None \<longleftrightarrow> (\<forall>a \<in> set records. \<forall>b \<in> set records. SameFrame (cg_Frame a) (cg_Frame b))"
proof -
  let ?k = "map (\<lambda>f. keyOf (fst f)) (distinctFrames [] records)"
  have k: "set ?k = (\<lambda>r. keyOf (cg_Frame r)) ` set records" using distinctFrames_keys [of "[]" records] by simp
  have "length (distinctFrames [] records) = card (set ?k)"
    using distinct_card [OF distinctFrames_distinct [of "[]" records]] by simp
  then have "frameConflict records = None \<longleftrightarrow> card (set ?k) \<le> Suc 0"
    by (simp add: frameConflict_def Let_def)
  also have "\<dots> \<longleftrightarrow> (\<forall>a \<in> set ?k. \<forall>b \<in> set ?k. a = b)" by (rule card_le_Suc0_iff_eq) simp
  finally show ?thesis unfolding k SameFrame_key by simp
qed

lemma frameConflict_Some:
  "frameConflict records = Some c \<Longrightarrow> cc_Field c = ConflictFieldFrame \<and> set (cc_ContentHashes c) \<subseteq> cg_ContentHash ` set records"
  using distinctFrames_hashes [of "[]" records]
  by (auto simp: frameConflict_def Let_def conflictIn_def split: if_splits)

lemma sources_counted:
  "\<forall>r \<in> set records. cg_AnalysisSource r \<in> set AnalysisSources \<Longrightarrow>
     length (withSource records [AnalysisSourceModuleZip]) + length (withSource records [AnalysisSourceWorktree])
     + length (withSource records [AnalysisSourceToolchainSource]) + length (withSource records [AnalysisSourceUnrecorded])
     = length records"
proof (induction records)
  case (Cons r rs)
  have "AnalysisSourceModuleZip \<noteq> AnalysisSourceWorktree" "AnalysisSourceModuleZip \<noteq> AnalysisSourceToolchainSource"
    "AnalysisSourceModuleZip \<noteq> AnalysisSourceUnrecorded" "AnalysisSourceWorktree \<noteq> AnalysisSourceToolchainSource"
    "AnalysisSourceWorktree \<noteq> AnalysisSourceUnrecorded" "AnalysisSourceToolchainSource \<noteq> AnalysisSourceUnrecorded"
    by (simp_all add: AnalysisSourceModuleZip_def AnalysisSourceWorktree_def AnalysisSourceToolchainSource_def
        AnalysisSourceUnrecorded_def)
  with Cons show ?case by (auto simp: withSource_def AnalysisSources_def)
qed (simp add: withSource_def)

lemma defaultSourceGroup_Inl:
  assumes "defaultSourceGroup records root = Inl c"
  shows "cc_Field c = ConflictFieldAnalysisSource" "\<exists>r \<in> set records. cg_AnalysisSource r \<notin> set AnalysisSources"
proof -
  show "cc_Field c = ConflictFieldAnalysisSource"
    using assms by (auto simp: defaultSourceGroup_def Let_def conflictIn_def split: if_splits)
  show "\<exists>r \<in> set records. cg_AnalysisSource r \<notin> set AnalysisSources"
  proof (rule ccontr)
    assume "\<not> ?thesis"
    then have "\<forall>r \<in> set records. cg_AnalysisSource r \<in> set AnalysisSources" by blast
    from sources_counted [OF this] assms show False by (simp add: defaultSourceGroup_def Let_def split: if_splits)
  qed
qed

lemma withSource_more: "set want \<subseteq> set want' \<Longrightarrow> withSource rs want \<noteq> [] \<Longrightarrow> withSource rs want' \<noteq> []"
  by (auto simp: withSource_def filter_empty_conv)

lemma defaultSourceGroup_Inr:
  assumes "defaultSourceGroup records root = Inr g"
  shows "set g \<subseteq> set records" "records \<noteq> [] \<Longrightarrow> g \<noteq> []"
proof -
  show "set g \<subseteq> set records"
    using assms by (auto simp: defaultSourceGroup_def Let_def withSource_def split: if_splits)
  show "g \<noteq> []" if "records \<noteq> []"
    using assms that withSource_more [of "[AnalysisSourceToolchainSource]" "[AnalysisSourceToolchainSource, AnalysisSourceUnrecorded]" records]
      withSource_more [of "[AnalysisSourceModuleZip]" "[AnalysisSourceModuleZip, AnalysisSourceUnrecorded]" records]
      withSource_more [of "[AnalysisSourceWorktree]" "[AnalysisSourceWorktree, AnalysisSourceUnrecorded]" records]
    unfolding defaultSourceGroup_def Let_def by (auto split: if_splits)
qed

section \<open>The answer\<close>

definition namesFrame :: "ComposeRequest \<Rightarrow> bool" where
  "namesFrame req \<longleftrightarrow> \<not> frame_IsZero (rq_Frame req)"

definition namesSource :: "ComposeRequest \<Rightarrow> bool" where
  "namesSource req \<longleftrightarrow> rq_Source req \<noteq> AnalysisSourceUnrecorded"

definition framed :: "CallGraphRecord list \<Rightarrow> ComposeRequest \<Rightarrow> CallGraphRecord list" where
  "framed records req = filter (\<lambda>q. namesFrame req \<longrightarrow> SameFrame (cg_Frame q) (rq_Frame req)) records"

definition ofItsToolchain :: "ComposeRequest \<Rightarrow> CallGraphRecord \<Rightarrow> bool" where
  "ofItsToolchain req q \<longleftrightarrow> (Recorded (rq_Toolchain req) \<longrightarrow> ti_Version (RecordToolchain q) = rq_Toolchain req)"

text \<open>The records a request is answered from: all that meet it, or those of the group a silent request is for.\<close>

definition groupOf :: "CallGraphRecord list \<Rightarrow> ComposeRequest \<Rightarrow> CallGraphRecord list \<Rightarrow> bool" where
  "groupOf records req cs \<longleftrightarrow>
     (\<not> namesFrame req \<longrightarrow> (\<forall>a \<in> set records. \<forall>b \<in> set records. SameFrame (cg_Frame a) (cg_Frame b)))
     \<and> (if namesSource req
        then cs = filter (\<lambda>q. cg_AnalysisSource q = rq_Source req \<and> ofItsToolchain req q) (framed records req)
        else \<exists>g. defaultSourceGroup (framed records req) (rq_CallerRoot req) = Inr g \<and> cs = filter (ofItsToolchain req) g)"

definition answers :: "(string \<Rightarrow> string) \<Rightarrow> CallGraphRecord list \<Rightarrow> ComposeRequest \<Rightarrow> CallGraphRecord \<Rightarrow> bool" where
  "answers H records req r \<longleftrightarrow> (\<exists>cs. groupOf records req cs \<and> r \<in> set cs \<and> set cs \<subseteq> set records
     \<and> (if isWorktreeSequence cs then latestOf cs r
        else \<exists>ds. (ds = identifiedOrAll_cg cs
              \<or> Recorded (rq_ToolchainPreference req) \<and> ds = withToolchain (identifiedOrAll_cg cs) (rq_ToolchainPreference req))
            \<and> undisputed H ds \<and> bestOf ds r))"

definition nothingMeets :: "CallGraphRecord list \<Rightarrow> ComposeRequest \<Rightarrow> bool" where
  "nothingMeets records req \<longleftrightarrow>
     (if namesSource req
      then \<forall>q \<in> set (framed records req). \<not> (cg_AnalysisSource q = rq_Source req \<and> ofItsToolchain req q)
      else framed records req = [] \<or> groupOf records req [])"

definition refusedFor :: "(string \<Rightarrow> string) \<Rightarrow> CallGraphRecord list \<Rightarrow> ComposeRequest \<Rightarrow> CallGraphConflict \<Rightarrow> bool" where
  "refusedFor H records req c \<longleftrightarrow>
     cc_Field c = ConflictFieldFrame \<and> \<not> namesFrame req
       \<and> (\<exists>a \<in> set records. \<exists>b \<in> set records. \<not> SameFrame (cg_Frame a) (cg_Frame b))
     \<or> cc_Field c = ConflictFieldAnalysisSource \<and> \<not> namesSource req
       \<and> (\<exists>q \<in> set records. cg_AnalysisSource q \<notin> set AnalysisSources)
     \<or> (\<exists>cs. groupOf records req cs \<and> justified H (identifiedOrAll_cg cs) c)"

lemma inFrame_Inr:
  assumes "inFrame records (rq_Frame req) = Inr fs" "records \<noteq> []"
  shows "fs = framed records req" "fs \<noteq> []"
    "\<not> namesFrame req \<longrightarrow> (\<forall>a \<in> set records. \<forall>b \<in> set records. SameFrame (cg_Frame a) (cg_Frame b))"
  using assms frameConflict_None [of records]
  by (auto simp: inFrame_def framed_def namesFrame_def withFrame_def split: if_splits option.splits)

lemma inFrame_Inl:
  assumes "inFrame records (rq_Frame req) = Inl e"
  shows "e = ErrNoRecordsToCompose_cg \<and> framed records req = []
    \<or> (\<exists>c. e = ConflictCallGraph c \<and> refusedFor H records req c)"
proof (cases "frame_IsZero (rq_Frame req)")
  case True
  then obtain c where c: "frameConflict records = Some c" "e = ConflictCallGraph c"
    using assms by (auto simp: inFrame_def split: option.splits)
  then have "\<not> (\<forall>a \<in> set records. \<forall>b \<in> set records. SameFrame (cg_Frame a) (cg_Frame b))"
    using frameConflict_None [of records] by auto
  with c frameConflict_Some [OF c(1)] True show ?thesis by (auto simp: refusedFor_def namesFrame_def)
next
  case False
  then show ?thesis using assms
    by (auto simp: inFrame_def framed_def namesFrame_def withFrame_def split: if_splits)
qed

lemma groupOfI:
  assumes "inFrame records (rq_Frame req) = Inr fs" "records \<noteq> []" "ofSource fs req = Inr ss"
    "cs = filter (ofItsToolchain req) ss"
  shows "groupOf records req cs" "set cs \<subseteq> set records"
proof -
  note f = inFrame_Inr [OF assms(1,2)]
  have "if namesSource req then ss = filter (\<lambda>q. cg_AnalysisSource q = rq_Source req) (framed records req)
      else defaultSourceGroup (framed records req) (rq_CallerRoot req) = Inr ss"
    using assms(3) unfolding f(1)
    by (auto simp: ofSource_def namesSource_def withSource_def split: if_splits sum.splits)
  then show "groupOf records req cs" using f(3) assms(4) by (auto simp: groupOf_def split: if_splits)
  have "set ss \<subseteq> set fs"
    using assms(3) defaultSourceGroup_Inr(1) by (auto simp: ofSource_def withSource_def split: if_splits sum.splits)
  then show "set cs \<subseteq> set records" unfolding f(1) assms(4) by (auto simp: framed_def)
qed

lemma identified_ne: "cs \<noteq> [] \<Longrightarrow> identifiedOrAll_cg cs \<noteq> []" and identified_subset: "set (identifiedOrAll_cg cs) \<subseteq> set cs"
  by (auto simp: identifiedOrAll_cg_def Let_def)

lemma bestOf_in: "bestOf cs r \<Longrightarrow> r \<in> set cs" and latestOf_in: "latestOf cs r \<Longrightarrow> cs \<noteq> [] \<Longrightarrow> r \<in> set cs"
  by (auto simp: bestOf_def latestOf_def split: if_splits)

lemma answerFrom_Inr:
  assumes "answerFrom H errText cs pref = Inr r" "cs \<noteq> []"
  shows "r \<in> set cs"
    "if isWorktreeSequence cs then latestOf cs r
     else \<exists>ds. (ds = identifiedOrAll_cg cs \<or> Recorded pref \<and> ds = withToolchain (identifiedOrAll_cg cs) pref)
       \<and> undisputed H ds \<and> bestOf ds r"
proof -
  let ?i = "identifiedOrAll_cg cs"
  show t: "if isWorktreeSequence cs then latestOf cs r
     else \<exists>ds. (ds = ?i \<or> Recorded pref \<and> ds = withToolchain ?i pref) \<and> undisputed H ds \<and> bestOf ds r"
  proof (cases "isWorktreeSequence cs")
    case True
    then show ?thesis using assms(1) latest_observation [OF assms(2)] by (simp add: answerFrom_def)
  next
    case False
    then consider "findConflict_cg H errText ?i = None" "r = serveRanked ?i"
      | c ds where "preferredToolchain H errText ?i c pref = Some ds" "r = serveRanked ds"
      using assms(1) by (auto simp: answerFrom_def Let_def split: option.splits)
    then show ?thesis
    proof cases
      case 1
      then show ?thesis using False serveRanked_best [OF identified_ne [OF assms(2)]] findConflict_cg_None by auto
    next
      case 2
      then have "Recorded pref" "ds = withToolchain ?i pref" "ds \<noteq> []" "findConflict_cg H errText ds = None"
        by (auto simp: preferredToolchain_def Let_def split: if_splits option.splits)
      then show ?thesis using False serveRanked_best [of ds] findConflict_cg_None 2(2) by auto
    qed
  qed
  show "r \<in> set cs"
  proof (cases "isWorktreeSequence cs")
    case True
    with t show ?thesis using latestOf_in [OF _ assms(2)] by simp
  next
    case False
    with t obtain ds where "ds = ?i \<or> ds = withToolchain ?i pref" "r \<in> set ds" using bestOf_in by (metis (full_types))
    then show ?thesis using identified_subset [of cs] by (auto simp: withToolchain_def)
  qed
qed

lemma answerFrom_Inl:
  "answerFrom H errText cs pref = Inl e \<Longrightarrow> \<exists>c. e = ConflictCallGraph c \<and> justified H (identifiedOrAll_cg cs) c"
  using findConflict_cg_Some by (auto simp: answerFrom_def Let_def split: if_splits option.splits)

lemma ofSource_Inl:
  assumes "ofSource fs req = Inl e" "fs = framed records req" "set fs \<subseteq> set records"
  shows "e = ErrNoRecordsToCompose_cg \<and> nothingMeets records req
    \<or> (\<exists>c. e = ConflictCallGraph c \<and> refusedFor H records req c)"
proof (cases "namesSource req")
  case True
  then show ?thesis using assms(1)
    by (auto simp: ofSource_def namesSource_def nothingMeets_def withSource_def assms(2) [symmetric] filter_empty_conv split: if_splits)
next
  case False
  then obtain c where c: "defaultSourceGroup fs (rq_CallerRoot req) = Inl c" "e = ConflictCallGraph c"
    using assms(1) by (auto simp: ofSource_def namesSource_def split: sum.splits)
  from defaultSourceGroup_Inl [OF c(1)] assms(3) False have "refusedFor H records req c"
    unfolding refusedFor_def by blast
  with c(2) show ?thesis by blast
qed

text \<open>
  C5: A request is answered by a record of its group that nothing in the group outranks, and only when
  the records it is chosen from do not contradict each other; a refusal names a contradiction that is
  there; and nothing is found only where nothing meets the request.
\<close>

theorem callgraph_serves_or_refuses:
  "case Compose_cg H errText records req of
      Inr r \<Rightarrow> answers H records req r
    | Inl ErrNoRecordsToCompose_cg \<Rightarrow> nothingMeets records req
    | Inl (ConflictCallGraph c) \<Rightarrow> refusedFor H records req c"
proof (cases "records = []")
  case True
  then show ?thesis by (simp add: Compose_cg_def nothingMeets_def framed_def)
next
  case ne: False
  show ?thesis
  proof (cases "inFrame records (rq_Frame req)")
    case (Inl e)
    from inFrame_Inl [OF Inl, of H] have "e = ErrNoRecordsToCompose_cg \<and> framed records req = []
        \<or> (\<exists>c. e = ConflictCallGraph c \<and> refusedFor H records req c)" .
    with ne Inl show ?thesis by (auto simp: Compose_cg_def nothingMeets_def)
  next
    case fs: (Inr fs)
    note f = inFrame_Inr [OF fs ne]
    have sub: "set fs \<subseteq> set records" unfolding f(1) by (auto simp: framed_def)
    show ?thesis
    proof (cases "ofSource fs req")
      case (Inl e)
      from ofSource_Inl [OF Inl f(1) sub, of H] have "e = ErrNoRecordsToCompose_cg \<and> nothingMeets records req
        \<or> (\<exists>c. e = ConflictCallGraph c \<and> refusedFor H records req c)" .
      with ne fs Inl show ?thesis by (auto simp: Compose_cg_def)
    next
      case ss: (Inr ss)
      let ?cs = "filter (ofItsToolchain req) ss"
      note g = groupOfI [OF fs ne ss refl]
      have t: "ofToolchain ss (rq_Toolchain req) = (if Recorded (rq_Toolchain req) \<and> ?cs = [] then Inl ErrNoRecordsToCompose_cg else Inr ?cs)"
        by (cases "Recorded (rq_Toolchain req)") (simp_all add: ofToolchain_def withToolchain_def ofItsToolchain_def [abs_def])
      show ?thesis
      proof (cases "?cs = []")
        case empty: True
        have "ss \<noteq> []"
          using ss f(2) defaultSourceGroup_Inr(2) by (auto simp: ofSource_def split: if_splits sum.splits)
        with empty have "Recorded (rq_Toolchain req)" by (cases ss) (auto simp: ofItsToolchain_def split: if_splits)
        moreover have "nothingMeets records req"
          using g(1) empty by (auto simp: nothingMeets_def groupOf_def filter_empty_conv empty_filter_conv split: if_splits)
        ultimately show ?thesis using ne fs ss t empty by (simp add: Compose_cg_def)
      next
        case False
        then have c: "Compose_cg H errText records req = answerFrom H errText ?cs (rq_ToolchainPreference req)"
          using ne fs ss t by (simp add: Compose_cg_def)
        show ?thesis
        proof (cases "answerFrom H errText ?cs (rq_ToolchainPreference req)")
          case (Inl e)
          from answerFrom_Inl [OF Inl] g(1) show ?thesis unfolding c Inl by (auto simp: refusedFor_def)
        next
          case (Inr r)
          have "answers H records req r"
            unfolding answers_def using g answerFrom_Inr [OF Inr False] by blast
          then show ?thesis unfolding c Inr by simp
        qed
      qed
    qed
  qed
qed

definition silentRequest :: ComposeRequest where
  "silentRequest = \<lparr>rq_Source = [], rq_Toolchain = [], rq_ToolchainPreference = [], rq_CallerRoot = [], rq_Frame = zero_frame\<rparr>"

definition zipRecord :: "string \<Rightarrow> CallGraphRecord" where
  "zipRecord i = zero_callgraph\<lparr>cg_AnalysisSource := AnalysisSourceModuleZip, cg_ArtefactIdentity := i,
     cg_Completeness := CompletenessFailed\<rparr>"

theorem callgraph_serves_or_refuses_witness:
  "\<exists>c. Compose_cg rev (\<lambda>_. []) [zipRecord ''x'', zipRecord ''y''] silentRequest = Inl (ConflictCallGraph c)
     \<and> cc_Field c = ConflictFieldArtefactIdentity
     \<and> refusedFor rev [zipRecord ''x'', zipRecord ''y''] silentRequest c"
proof -
  have "case Compose_cg rev (\<lambda>_. []) [zipRecord ''x'', zipRecord ''y''] silentRequest of
      Inr r \<Rightarrow> False | Inl ErrNoRecordsToCompose_cg \<Rightarrow> False
    | Inl (ConflictCallGraph c) \<Rightarrow> cc_Field c = ConflictFieldArtefactIdentity"
    by code_simp
  then obtain c where "Compose_cg rev (\<lambda>_. []) [zipRecord ''x'', zipRecord ''y''] silentRequest = Inl (ConflictCallGraph c)"
    "cc_Field c = ConflictFieldArtefactIdentity"
    by (auto split: sum.splits compose_error_cg.splits)
  with callgraph_serves_or_refuses [where H = rev and errText = "\<lambda>_. []"
      and records = "[zipRecord ''x'', zipRecord ''y'']" and req = silentRequest]
  show ?thesis by simp
qed

end
