(* ===== verification/Callgraph_Reuse.thy ===== *)
theory Callgraph_Reuse
  imports Callgraph_Compose Version_Order
begin

text \<open>
  Around composition: when a generation restates one already held (\<open>compose.go\<close>), what a build list
  pins and supersedes (\<open>analysisinputs.go\<close>), disagreeing analysers (\<open>analyser.go\<close>), the frames a
  read missed (\<open>framemiss.go\<close>), and the remedies that are printed (\<open>reanalysis.go\<close>, \<open>compose.go\<close>).
  \<open>semver.Compare\<close> is a parameter; a Go map is the list of its entries in the order it is visited.
\<close>

section \<open>Restating a measurement\<close>

datatype measurement_error = MeasurementSealFailed seal_error_cg | ErrUnsealedMeasurement

definition SealMeasurement :: "(string \<Rightarrow> string) \<Rightarrow> CallGraphRecord \<Rightarrow> measurement_error + string" where
  "SealMeasurement H r = (case hashCanonical H (withoutRunCircumstance r) of
       Inl e \<Rightarrow> Inl (MeasurementSealFailed e) | Inr d \<Rightarrow> Inr d)"

definition SameAs :: "(string \<Rightarrow> string) \<Rightarrow> string \<Rightarrow> CallGraphRecord \<Rightarrow> measurement_error + bool" where
  "SameAs H digest r = (if digest = [] then Inl ErrUnsealedMeasurement
     else case SealMeasurement H r of Inl e \<Rightarrow> Inl e | Inr other \<Rightarrow> Inr (digest = other))"

definition SameMeasurement_cg :: "(string \<Rightarrow> string) \<Rightarrow> CallGraphRecord \<Rightarrow> CallGraphRecord \<Rightarrow> measurement_error + bool" where
  "SameMeasurement_cg H a b = (case SealMeasurement H a of Inl e \<Rightarrow> Inl e | Inr s \<Rightarrow> SameAs H s b)"

definition MeasurementDigest :: "(string \<Rightarrow> string) \<Rightarrow> (measurement_error \<Rightarrow> string) \<Rightarrow> CallGraphRecord \<Rightarrow> string" where
  "MeasurementDigest H errText r = (case SealMeasurement H r of Inl e \<Rightarrow> ''unhashable:'' @ errText e | Inr d \<Rightarrow> d)"

definition withoutFetchProvenance :: "CallGraphRecord \<Rightarrow> CallGraphRecord" where
  "withoutFetchProvenance r = r\<lparr>cg_SourceContentHash := []\<rparr>"

definition SealAnalysis :: "(string \<Rightarrow> string) \<Rightarrow> CallGraphRecord \<Rightarrow> measurement_error + string option" where
  "SealAnalysis H fresh = (if \<not> NamesAnalysedContent_cg fresh then Inr None
     else case SealMeasurement H (withoutFetchProvenance fresh) of Inl e \<Rightarrow> Inl e | Inr s \<Rightarrow> Inr (Some s))"

definition RestatedBy :: "(string \<Rightarrow> string) \<Rightarrow> string \<Rightarrow> CallGraphRecord \<Rightarrow> measurement_error + bool" where
  "RestatedBy H s held = (if \<not> NamesAnalysedContent_cg held then Inr False else SameAs H s (withoutFetchProvenance held))"

definition RestatesAnalysis :: "(string \<Rightarrow> string) \<Rightarrow> CallGraphRecord \<Rightarrow> CallGraphRecord \<Rightarrow> measurement_error + bool" where
  "RestatesAnalysis H fresh held = (case SealAnalysis H fresh of
       Inl e \<Rightarrow> Inl e
     | Inr None \<Rightarrow> Inr False
     | Inr (Some s) \<Rightarrow> RestatedBy H s held)"

section \<open>Pinning requirements from a build list\<close>

record AnalysisInputs =
  in_BuildList :: "ModuleCoordinate list"
  in_Source :: string

definition HasBuildList :: "AnalysisInputs \<Rightarrow> bool" where
  "HasBuildList i \<longleftrightarrow> in_BuildList i \<noteq> []"

definition candidateStep :: "(string \<Rightarrow> string \<Rightarrow> int) \<Rightarrow> ModuleCoordinate \<Rightarrow> (string \<rightharpoonup> string) \<Rightarrow> ModuleCoordinate \<Rightarrow> (string \<rightharpoonup> string)" where
  "candidateStep semver_Compare coord m c =
     (if Path c = Path coord \<or> IsLocal c \<or> Path c = [] \<or> Version c = [] then m
      else case m (Path c) of
        None \<Rightarrow> m(Path c \<mapsto> Version c)
      | Some prev \<Rightarrow> if 0 < semver_Compare (Version c) prev then m(Path c \<mapsto> Version c) else m)"

definition candidateVersions :: "(string \<Rightarrow> string \<Rightarrow> int) \<Rightarrow> ModuleCoordinate \<Rightarrow> ModuleCoordinate list \<Rightarrow> (string \<rightharpoonup> string)" where
  "candidateVersions semver_Compare coord buildList = foldl (candidateStep semver_Compare coord) Map.empty buildList"

definition provides :: "string \<Rightarrow> string \<Rightarrow> bool" where
  "provides importPath path \<longleftrightarrow> importPath = path \<or> HasPrefix importPath (path @ ''/'')"

fun longestProviding :: "string \<Rightarrow> string \<Rightarrow> string list \<Rightarrow> string" where
  "longestProviding importPath best [] = best"
| "longestProviding importPath best (p # ps) =
     (if \<not> provides importPath p then longestProviding importPath best ps
      else longestProviding importPath (if length best < length p then p else best) ps)"

definition providingModulePath :: "string \<Rightarrow> string list \<Rightarrow> string \<times> bool" where
  "providingModulePath importPath paths = (let best = longestProviding importPath [] paths in (best, best \<noteq> []))"

fun pinImports :: "string list \<Rightarrow> (string \<rightharpoonup> string) \<Rightarrow> string list \<Rightarrow> string list \<Rightarrow> (string \<rightharpoonup> string) \<Rightarrow> string list \<times> (string \<rightharpoonup> string)" where
  "pinImports paths candidates [] unpinned selected = (unpinned, selected)"
| "pinImports paths candidates (imp # imps) unpinned selected =
     (case providingModulePath imp paths of
        (path, False) \<Rightarrow> pinImports paths candidates imps (unpinned @ [imp]) selected
      | (path, True) \<Rightarrow> pinImports paths candidates imps unpinned (selected(path := candidates path)))"

text \<open>
  The candidates are visited in the order \<open>paths\<close>, the selected ones in any order: they are sorted.
  The walk reads the build list as its map is visited.
\<close>

definition candidatePaths :: "ModuleCoordinate \<Rightarrow> ModuleCoordinate list \<Rightarrow> string list" where
  "candidatePaths coord buildList = remdups (map Path
     (filter (\<lambda>c. \<not> (Path c = Path coord \<or> IsLocal c \<or> Path c = [] \<or> Version c = [])) buildList))"

definition PinRequires :: "(string \<Rightarrow> string \<Rightarrow> int) \<Rightarrow> ModuleCoordinate \<Rightarrow> string list \<Rightarrow> AnalysisInputs
    \<Rightarrow> SynthesisedRequire list \<times> string list" where
  "PinRequires semver_Compare coord imps inputs =
     (let paths = candidatePaths coord (in_BuildList inputs);
        candidates = candidateVersions semver_Compare coord (in_BuildList inputs);
        (unpinned, selected) = pinImports paths candidates imps [] Map.empty in
      if unpinned \<noteq> [] then ([], sort unpinned)
      else (stable_sort SynthesisedRequireLess
        (concat (map (\<lambda>p. case selected p of None \<Rightarrow> [] | Some v \<Rightarrow> [\<lparr>sr_Path = p, sr_Version = v\<rparr>]) paths)), []))"

definition PinnedAnalysisSupersedes :: "CallGraphRecord \<Rightarrow> AnalysisInputs \<Rightarrow> bool" where
  "PinnedAnalysisSupersedes existing inputs =
     (if \<not> HasBuildList inputs \<or> in_Source inputs = [] then False
      else if cg_BuildListSource existing = in_Source inputs then False
      else if sg_Requires (cg_SynthesisedGoMod existing) \<noteq> [] then True
      else cg_BuildListSource existing = [] \<and> RecordIsFailure existing)"

section \<open>Disagreeing analysers\<close>

record AnalyserDisagreement =
  ad_Coordinate :: ModuleCoordinate
  ad_Served :: AnalyserIdentity
  ad_Identities :: "AnalyserIdentity list"

definition analyserLess :: "AnalyserIdentity \<Rightarrow> AnalyserIdentity \<Rightarrow> bool" where
  "analyserLess a b = (if ai_Version a \<noteq> ai_Version b then ai_Version a < ai_Version b else ai_Provenance a < ai_Provenance b)"

fun firstOccurrences :: "'a list \<Rightarrow> 'a list \<Rightarrow> 'a list" where
  "firstOccurrences seen [] = []"
| "firstOccurrences seen (x # xs) = (if x \<in> set seen then firstOccurrences seen xs else x # firstOccurrences (x # seen) xs)"

definition AnalyserDisagreementAmong :: "AnalyserIdentity list \<Rightarrow> CallGraphRecord \<Rightarrow> AnalyserDisagreement option" where
  "AnalyserDisagreementAmong stated served = (let recorded = filter analyser_Recorded stated in
     if length (remdups (map ai_Version recorded)) < 2 then None
     else Some \<lparr>ad_Coordinate = cg_Coordinate served, ad_Served = cg_Analyser served,
       ad_Identities = stable_sort analyserLess (firstOccurrences [] recorded)\<rparr>)"

definition IsInferred :: "AnalyserIdentity \<Rightarrow> bool" where
  "IsInferred a \<longleftrightarrow> ai_Provenance a = AnalyserInferred"

definition disagreement_Summary :: "AnalyserDisagreement \<Rightarrow> string" where
  "disagreement_Summary d =
     ''the generations of '' @ coord_String (ad_Coordinate d) @ '' were not all parsed by the same '' @ AnalyserModulePath
     @ '': '' @ Join (map Short (ad_Identities d)) '' and '' @ ''; the one served names '' @ Short (ad_Served d)
     @ ''. A library predating a language construct can build a graph that silently omits it, so these generations are not interchangeable evidence''
     @ (if list_ex IsInferred (ad_Identities d)
        then ''. An (inferred) version was reconstructed from the record's extraction date, never recorded by it'' else [])"

section \<open>Re-analysis\<close>

definition lf :: string where "lf = [CHR 0x0A]"

definition UnnamedWorkingTreeLead :: string where
  "UnnamedWorkingTreeLead = ''no stored record names the working tree''"

definition IsReFetchable :: "ModuleCoordinate \<Rightarrow> bool" where
  "IsReFetchable coord \<longleftrightarrow> \<not> IsLocal coord \<and> \<not> IsStdlib coord \<and> \<not> IsZero coord"

definition ReanalysisCommand :: "ModuleCoordinate \<Rightarrow> string \<Rightarrow> bool \<Rightarrow> string \<times> bool" where
  "ReanalysisCommand coord dir force = (let flags = (if force then '' --force'' else []) in
     if IsReFetchable coord then
       (''kanonarion fetch '' @ coord_String coord @ '' && kanonarion callgraph '' @ coord_String coord @ flags, True)
     else if \<not> IsLocal coord then (''kanonarion callgraph '' @ coord_String coord @ flags, True)
     else if dir = [] then ([], False)
     else (''kanonarion local '' @ dir @ flags, True))"

definition reanalysis :: "ModuleCoordinate \<Rightarrow> string \<Rightarrow> string \<Rightarrow> string" where
  "reanalysis coord dir flags = (case ReanalysisCommand coord dir (flags = '' --force'') of
       (line, True) \<Rightarrow> line
     | (_, False) \<Rightarrow> UnnamedWorkingTreeLead @ '', so run kanonarion local'' @ flags @ '' from inside it'')"

definition ReanalysisInstruction :: "ModuleCoordinate \<Rightarrow> string \<Rightarrow> string" where
  "ReanalysisInstruction coord dir = reanalysis coord dir []"

definition ForcedReanalysisInstruction :: "ModuleCoordinate \<Rightarrow> string \<Rightarrow> string" where
  "ForcedReanalysisInstruction coord dir = reanalysis coord dir '' --force''"

definition TinyGoFlag :: string where "TinyGoFlag = '' --tinygo <target>''"

definition TinyGoReanalysisInstruction :: "ModuleCoordinate \<Rightarrow> string \<Rightarrow> string" where
  "TinyGoReanalysisInstruction coord dir = (case ReanalysisCommand coord dir False of
       (line, True) \<Rightarrow> line @ TinyGoFlag
     | (_, False) \<Rightarrow> UnnamedWorkingTreeLead @ '', so run kanonarion local'' @ TinyGoFlag @ '' from inside it'')"

text \<open>\<open>analysing\<close> is the toolchain the running binary was built with.\<close>

definition AnalyserLimitOf :: "string \<Rightarrow> string \<Rightarrow> AnalyserLimit \<times> bool" where
  "AnalyserLimitOf analysing detail = (case ReadAnalyserLimit detail of (l, ok) \<Rightarrow> (l, ok \<and> \<not> ClearedBy l analysing))"

definition AnalyserLimitCaveat :: "string \<Rightarrow> string \<Rightarrow> (string \<times> string) option" where
  "AnalyserLimitCaveat analysing detail = (case ReadAnalyserLimit detail of
       (l, False) \<Rightarrow> None
     | (l, True) \<Rightarrow> Some (Clause l, if snd (AnalyserLimitOf analysing detail) then Remedy_limit l else []))"

definition ColdModuleCacheRemedy :: string where "ColdModuleCacheRemedy = ''go mod download all''"
definition missingChecksumPhrase :: string where "missingChecksumPhrase = ''missing go.sum entry''"
definition missingChecksumRemedy :: string where "missingChecksumRemedy = ''; to add''"
definition MissingChecksumRemedy :: string where "MissingChecksumRemedy = ''go mod tidy''"

definition IsMissingChecksumEntry :: "string \<Rightarrow> bool" where
  "IsMissingChecksumEntry detail \<longleftrightarrow> Contains detail missingChecksumPhrase \<and> Contains detail missingChecksumRemedy"

definition IncompleteGraphRemedy :: "string \<Rightarrow> ModuleCoordinate \<Rightarrow> string \<Rightarrow> string \<Rightarrow> string \<Rightarrow> string" where
  "IncompleteGraphRemedy analysing coord cause detail dir =
     (let rerun = (if cause = Cause_Module \<and> \<not> IsLocal coord then ForcedReanalysisInstruction coord dir
          else ReanalysisInstruction coord dir) in
      case ReadAnalyserLimit detail of
        (l, True) \<Rightarrow>
          if \<not> ClearedBy l analysing then
            ''  '' @ Statement_limit l @ lf @ ''  '' @ Remedy_limit l @ '' Then re-analyse:'' @ lf @ ''  '' @ ReanalysisInstruction coord dir
          else ''  A kanonarion built with '' @ al_Built l @ '' wrote this record and could not read code requiring ''
            @ al_Required l @ ''; this one was built with '' @ analysing @ ''. Re-analyse:'' @ lf @ ''  ''
            @ ReanalysisInstruction coord dir
      | (_, False) \<Rightarrow>
          if IsMissingChecksumEntry detail then
            ''  The tree's go.sum does not cover every module the load needs, so the gap is in the'' @ lf
            @ ''  checksums and not in the source. Close it, then re-analyse:'' @ lf
            @ ''  '' @ MissingChecksumRemedy @ lf @ ''  '' @ rerun
          else if IsLocal coord then
            (if cause = Cause_Environment then
               ''  This host's module cache did not hold every module the load needed, so the gap is in'' @ lf
               @ ''  the environment and not in the source. Make them all available, then re-analyse:'' @ lf
               @ ''  '' @ ColdModuleCacheRemedy @ lf @ ''  '' @ rerun
             else ''  Fix the package so it compiles, then re-analyse:'' @ lf @ ''  '' @ rerun)
          else
            (if cause = Cause_Environment then
               ''  '' @ coord_String coord @ '' is a fetched dependency, and this host's module cache did not hold every module its'' @ lf
               @ ''  analysis needed, so the gap is in the environment and not in what it published.'' @ lf
               @ ''  Populating the cache '' @ [CHR 0xE2, CHR 0x80, CHR 0x94] @ '' '' @ ColdModuleCacheRemedy
               @ '' in a tree that requires it '' @ [CHR 0xE2, CHR 0x80, CHR 0x94] @ '' is what closes it.''
             else ''  '' @ coord_String coord @ '' is a fetched dependency, so the failure is in its own sources, not in your tree.'')
            @ lf @ ''  See it: kanonarion callgraph-show '' @ coord_String coord @ lf @ ''  Re-measure it: '' @ rerun)"

section \<open>A frame that is not held\<close>

fun heldFrames :: "string list \<Rightarrow> CallGraphRecord list \<Rightarrow> BuildFrame \<Rightarrow> (string \<times> string) list" where
  "heldFrames seen [] want = []"
| "heldFrames seen (r # rs) want =
     (if frame_IsZero (cg_Frame r) \<or> SameFrame (cg_Frame r) want \<or> frame_String_cg (cg_Frame r) \<in> set seen
      then heldFrames seen rs want
      else (frame_String_cg (cg_Frame r), FlagSpelling (cg_Frame r)) # heldFrames (frame_String_cg (cg_Frame r) # seen) rs want)"

definition HeldFrames :: "CallGraphRecord list \<Rightarrow> BuildFrame \<Rightarrow> string list \<times> string list" where
  "HeldFrames recs want = (map fst (heldFrames [] recs want), map snd (heldFrames [] recs want))"

fun AgreedRoot_from :: "string \<Rightarrow> CallGraphRecord list \<Rightarrow> string" where
  "AgreedRoot_from root [] = root"
| "AgreedRoot_from root (r # rs) =
     (if cg_AnalysisRoot r = [] then AgreedRoot_from root rs
      else if root = [] then AgreedRoot_from (cg_AnalysisRoot r) rs
      else if root \<noteq> cg_AnalysisRoot r then []
      else AgreedRoot_from root rs)"

definition AgreedRoot :: "CallGraphRecord list \<Rightarrow> string" where
  "AgreedRoot recs = AgreedRoot_from [] recs"

definition FrameMissReason :: "ModuleCoordinate \<Rightarrow> CallGraphRecord list \<Rightarrow> BuildFrame \<Rightarrow> string \<Rightarrow> string \<Rightarrow> (string \<times> string) option" where
  "FrameMissReason coord recs want wantFlag whose = (case HeldFrames recs want of (frames, flags) \<Rightarrow>
     if frames = [] then None
     else Some (''the call graph of '' @ coord_String coord @ '' is held under '' @ Join frames '', ''
         @ '', not under '' @ whose @ '' frame '' @ frame_String_cg want @ ''; read it with '' @ Join flags '' or '',
       case ReanalysisCommand coord (AgreedRoot recs) False of
         (line, True) \<Rightarrow> line @ wantFlag
       | (_, False) \<Rightarrow> ReanalysisInstruction coord []))"

section \<open>The remedy of a conflict\<close>

record Remedy =
  rm_Lead :: string
  rm_Lines :: "string list"

definition remedy_String :: "Remedy \<Rightarrow> string" where
  "remedy_String r = rm_Lead r @ '':'' @ concat (map (\<lambda>l. lf @ ''  '' @ l) (rm_Lines r))"

definition showLine :: "ModuleCoordinate \<Rightarrow> string \<Rightarrow> string" where
  "showLine coord flag = ''kanonarion callgraph-show '' @ coord_String coord @ '' '' @ flag"

definition conflict_Remedy :: "CallGraphConflict \<Rightarrow> Remedy" where
  "conflict_Remedy c = (let coord = cc_Coordinate c; history = showLine coord ''--history'' in
     if cc_Field c = ConflictFieldAnalysisSource then
       \<lparr>rm_Lead = ''A record names a kind of source this build cannot read, so it was written by a newer kanonarion. Upgrade, or read only the sources this build names'',
        rm_Lines = [history, showLine coord (''--source '' @
          (if IsStdlib coord then AnalysisSourceToolchainSource
           else if \<not> IsReFetchable coord then AnalysisSourceWorktree else AnalysisSourceModuleZip))]\<rparr>
     else if cc_Field c = ConflictFieldToolchain then
       (let sel = selectableToolchain (cc_Values c) in
        \<lparr>rm_Lead = ''Two Go toolchains built this coordinate and produced different graphs, and a graph carries the toolchain's own stdlib and vendored trees, so neither answer supersedes the other, and no re-analysis settles it. Name the toolchain you mean, here or on callers, callees, implementers and interface-diff''
           @ (if sel \<noteq> [] then '', and `kanonarion config set callgraph.toolchain '' @ sel @ ''` records the choice for every later read'' else []),
         rm_Lines = history # (if sel \<noteq> [] then [showLine coord (''--toolchain '' @ sel)] else [])\<rparr>)
     else if cc_Field c = ConflictFieldFrame then
       \<lparr>rm_Lead = ''This coordinate holds call graphs extracted under more than one build frame, and a graph of one platform is no answer about another. Name the frame you mean, on this read or on callers, callees and implementers'',
        rm_Lines = history # map (showLine coord) (filter (\<lambda>f. f \<noteq> []) (map FlagSpelling (cc_Frames c)))\<rparr>
     else if cc_Field c = ConflictFieldArtefactIdentity then
       (if \<not> IsReFetchable coord then
          \<lparr>rm_Lead = ''Two records read different bytes for one unpublished coordinate, so two source trees were analysed under one name. Inspect the generations, then analyse the tree you mean'',
           rm_Lines = [history, ReanalysisInstruction coord (cc_AnalysisRoot c)]\<rparr>
        else
          \<lparr>rm_Lead = ''Two records read different bytes for one pinned version, so no re-analysis of the stored bytes settles it. Inspect the generations, then fetch the module again and analyse what that fetch pins'',
           rm_Lines = [history, ''kanonarion fetch '' @ coord_String coord, ForcedReanalysisInstruction coord (cc_AnalysisRoot c)]\<rparr>)
     else if cc_Completeness c = CompletenessBuiltWithBodies then
       \<lparr>rm_Lead = ''Two analyses of the same artefact, offered the same build list, disagree about the graph, and both built it as fully as this analyser can. Re-analysing appends a generation and retires neither, so nothing clears this from the outside '' @ [CHR 0xE2, CHR 0x80, CHR 0x94]
          @ '' compare the generations and decide which measurement to trust'',
        rm_Lines = [showLine coord ''--diff'', history]\<rparr>
     else
       \<lparr>rm_Lead = ''Two analyses of the same artefact at the same completeness disagree about the graph. Only an analysis that gets FURTHER than they did settles it '' @ [CHR 0xE2, CHR 0x80, CHR 0x94]
          @ '' one that fails the same way appends a third generation and the disagreement stands. Compare the generations, then measure again'',
        rm_Lines = [showLine coord ''--diff'', history, ForcedReanalysisInstruction coord (cc_AnalysisRoot c)]\<rparr>)"

definition sliceText :: "string list \<Rightarrow> string" where
  "sliceText vs = ''['' @ Join vs '' '' @ '']''"

definition conflict_Error :: "CallGraphConflict \<Rightarrow> string" where
  "conflict_Error c = ''conflicting call graph records for '' @ coord_String (cc_Coordinate c) @ '' at pipeline ''
     @ cc_PipelineVersion c @ '': '' @ cc_Field c @ '' disagrees ('' @ sliceText (cc_Values c) @ ''; records ''
     @ sliceText (cc_ContentHashes c) @ '')''
     @ (case cc_Difference c of None \<Rightarrow> [] | Some d \<Rightarrow> lf @ ''differing: '' @ Summary d)
     @ lf @ remedy_String (conflict_Remedy c)"

section \<open>A generation restates another\<close>

definition measured :: "CallGraphRecord \<Rightarrow> CallGraphRecord" where
  "measured r = withoutRunCircumstance (withoutFetchProvenance r)"

lemma SealMeasurement_text:
  "SealMeasurement H (withoutFetchProvenance r) = (case marshalCanonical (measured r) of
       Inl e \<Rightarrow> Inl (MeasurementSealFailed e) | Inr b \<Rightarrow> Inr (''sha256:'' @ EncodeToString (H b)))"
  by (simp add: SealMeasurement_def measured_def hashCanonical_text split: sum.splits)

text \<open>
  A generation restates another exactly when both name the content they read and their canonical
  forms, less when, why and from which fetch they were taken, have one hash.
\<close>

theorem restates_iff:
  "RestatesAnalysis H fresh held = Inr True \<longleftrightarrow>
     NamesAnalysedContent_cg fresh \<and> NamesAnalysedContent_cg held
     \<and> (\<exists>a b. marshalCanonical (measured fresh) = Inr a \<and> marshalCanonical (measured held) = Inr b \<and> H a = H b)"
  using EncodeToString_inj
  by (auto simp: RestatesAnalysis_def SealAnalysis_def RestatedBy_def SameAs_def SealMeasurement_text split: sum.splits)

section \<open>What a build list pins\<close>

definition usable :: "ModuleCoordinate \<Rightarrow> ModuleCoordinate list \<Rightarrow> ModuleCoordinate set" where
  "usable coord buildList = {c \<in> set buildList. \<not> (Path c = Path coord \<or> IsLocal c \<or> Path c = [] \<or> Version c = [])}"

lemma candidatePaths_set: "set (candidatePaths coord bl) = Path ` usable coord bl"
  by (auto simp: candidatePaths_def usable_def)

text \<open>The candidate of a path is the highest version the build list has of it.\<close>

definition highest :: "(string \<Rightarrow> string \<Rightarrow> int) \<Rightarrow> ModuleCoordinate set \<Rightarrow> string \<Rightarrow> string \<Rightarrow> bool" where
  "highest semver_Compare cs p v \<longleftrightarrow> (\<exists>c \<in> cs. Path c = p \<and> Version c = v)
     \<and> (\<forall>c \<in> cs. Path c = p \<longrightarrow> semver_Compare (Version c) v \<le> 0)"

lemma candidates_ok:
  assumes cmp: "three_way semver_Compare"
  shows "case candidateVersions semver_Compare coord bl p of
      None \<Rightarrow> p \<notin> Path ` usable coord bl
    | Some v \<Rightarrow> highest semver_Compare (usable coord bl) p v"
proof (induction bl rule: rev_induct)
  case Nil
  then show ?case by (simp add: candidateVersions_def usable_def)
next
  case (snoc c bl)
  let ?m = "candidateVersions semver_Compare coord bl" and ?u = "usable coord bl"
  have m: "candidateVersions semver_Compare coord (bl @ [c]) = candidateStep semver_Compare coord ?m c"
    by (simp add: candidateVersions_def)
  show ?case
  proof (cases "Path c = Path coord \<or> IsLocal c \<or> Path c = [] \<or> Version c = []")
    case True
    then have "usable coord (bl @ [c]) = ?u" by (auto simp: usable_def)
    then show ?thesis using snoc True by (simp add: m candidateStep_def split: option.splits)
  next
    case False
    then have u: "usable coord (bl @ [c]) = insert c ?u" by (auto simp: usable_def)
    show ?thesis
    proof (cases "Path c = p")
      case other: False
      then have "candidateStep semver_Compare coord ?m c p = ?m p"
        using False by (auto simp: candidateStep_def split: option.splits)
      then show ?thesis using snoc other unfolding m u by (auto simp: highest_def split: option.splits)
    next
      case p: True
      show ?thesis
      proof (cases "?m p")
        case None
        with snoc have "p \<notin> Path ` ?u" by simp
        then have "\<forall>d \<in> ?u. Path d \<noteq> p" by auto
        moreover have "candidateStep semver_Compare coord ?m c p = Some (Version c)"
          using False None p by (simp add: candidateStep_def)
        ultimately show ?thesis unfolding m u using p three_way.cmp_refl [OF cmp] by (simp add: highest_def)
      next
        case (Some prev)
        with snoc have h: "highest semver_Compare ?u p prev" by simp
        show ?thesis
        proof (cases "0 < semver_Compare (Version c) prev")
          case True
          have "semver_Compare prev (Version c) \<le> 0" using True three_way.anti [OF cmp, of "Version c" prev] by simp
          then have "highest semver_Compare (insert c ?u) p (Version c)"
            using h p three_way.cmp_refl [OF cmp] three_way.le_trans [OF cmp, of _ prev "Version c"]
            by (auto simp: highest_def)
          then show ?thesis unfolding m u using True False Some p by (simp add: candidateStep_def)
        next
          case small: False
          then have "highest semver_Compare (insert c ?u) p prev" using h by (auto simp: highest_def)
          then show ?thesis unfolding m u using small False Some p by (simp add: candidateStep_def)
        qed
      qed
    qed
  qed
qed

lemma longestProviding_ok:
  "(longestProviding i best ps = best \<or> longestProviding i best ps \<in> set ps \<and> provides i (longestProviding i best ps))
   \<and> length best \<le> length (longestProviding i best ps)
   \<and> (\<forall>p \<in> set ps. provides i p \<longrightarrow> length p \<le> length (longestProviding i best ps))"
  by (induction i best ps rule: longestProviding.induct) (auto intro: le_trans)

text \<open>The module that provides an import: the longest path of the build list the import lies under.\<close>

definition providerOf :: "string set \<Rightarrow> string \<Rightarrow> string \<Rightarrow> bool" where
  "providerOf ps i p \<longleftrightarrow> p \<in> ps \<and> provides i p \<and> (\<forall>q \<in> ps. provides i q \<longrightarrow> length q \<le> length p)"

lemma providingModulePath_ok:
  assumes "[] \<notin> set ps"
  shows "case providingModulePath i ps of
      (p, True) \<Rightarrow> providerOf (set ps) i p
    | (p, False) \<Rightarrow> \<forall>q \<in> set ps. \<not> provides i q"
proof (cases "longestProviding i [] ps = []")
  case True
  with longestProviding_ok [of i "[]" ps] assms show ?thesis by (auto simp: providingModulePath_def)
next
  case False
  with longestProviding_ok [of i "[]" ps] show ?thesis by (simp add: providingModulePath_def providerOf_def)
qed

lemma provider_unique: "providerOf ps i p \<Longrightarrow> providerOf ps i q \<Longrightarrow> p = q"
proof -
  assume p: "providerOf ps i p" and q: "providerOf ps i q"
  then have "length p = length q" by (auto simp: providerOf_def intro: le_antisym)
  moreover have "prefix p i" "prefix q i"
    using p q by (auto simp: providerOf_def provides_def HasPrefix_def dest: append_prefixD)
  ultimately show "p = q" by (metis prefix_length_prefix order_refl prefix_order.antisym)
qed

lemma pinImports_ok:
  assumes "[] \<notin> set ps"
  shows "pinImports ps cand imps unpinned selected
    = (unpinned @ filter (\<lambda>i. \<forall>q \<in> set ps. \<not> provides i q) imps,
       (\<lambda>p. if \<exists>i \<in> set imps. providerOf (set ps) i p then cand p else selected p))"
proof (induction imps arbitrary: unpinned selected)
  case Nil
  then show ?case by simp
next
  case (Cons i imps)
  show ?case
  proof (cases "providingModulePath i ps")
    case (Pair p found)
    show ?thesis
    proof (cases found)
      case True
      with Pair providingModulePath_ok [OF assms, of i] have p: "providerOf (set ps) i p" by simp
      then have "\<not> (\<forall>q \<in> set ps. \<not> provides i q)" by (auto simp: providerOf_def)
      moreover have "providerOf (set ps) i q \<longleftrightarrow> q = p" for q using p provider_unique by blast
      moreover have "(if \<exists>j \<in> set imps. providerOf (set ps) j q then cand q else (selected(p := cand p)) q)
          = (if (\<exists>j \<in> set imps. providerOf (set ps) j q) \<or> q = p then cand q else selected q)" for q by simp
      ultimately show ?thesis using Pair True by (simp add: Cons disj_commute)
    next
      case False
      with Pair providingModulePath_ok [OF assms, of i] have "\<forall>q \<in> set ps. \<not> provides i q" by simp
      moreover from this have "\<not> providerOf (set ps) i q" for q by (auto simp: providerOf_def)
      ultimately show ?thesis using Pair False by (simp add: Cons)
    qed
  qed
qed

text \<open>
  C33: Either some import has no provider in the build list, and then those imports are reported and
  nothing is pinned; or each provider of an import is pinned once, at the highest version the build
  list has of it, in the order of the paths.
\<close>

theorem pin_requires_accounts:
  assumes "three_way semver_Compare"
  shows "case PinRequires semver_Compare coord imps inputs of (pinned, unpinned) \<Rightarrow>
    let cs = usable coord (in_BuildList inputs) in
      unpinned = sort (filter (\<lambda>i. \<forall>c \<in> cs. \<not> provides i (Path c)) imps)
      \<and> (if unpinned \<noteq> [] then pinned = []
         else sorted_wrt (<) (map sr_Path pinned)
           \<and> sr_Path ` set pinned = {p. \<exists>i \<in> set imps. providerOf (Path ` cs) i p}
           \<and> (\<forall>q \<in> set pinned. highest semver_Compare cs (sr_Path q) (sr_Version q)))"
proof -
  let ?bl = "in_BuildList inputs"
  let ?ps = "candidatePaths coord ?bl" and ?c = "candidateVersions semver_Compare coord ?bl" and ?cs = "usable coord ?bl"
  have ps: "set ?ps = Path ` ?cs" "distinct ?ps" by (simp_all add: candidatePaths_set) (simp add: candidatePaths_def)
  then have ne: "[] \<notin> set ?ps" by (auto simp: usable_def)
  let ?un = "filter (\<lambda>i. \<forall>q \<in> set ?ps. \<not> provides i q) imps"
  let ?sel = "\<lambda>p. if \<exists>i \<in> set imps. providerOf (set ?ps) i p then ?c p else None"
  let ?req = "\<lambda>p. case ?sel p of None \<Rightarrow> [] | Some v \<Rightarrow> [\<lparr>sr_Path = p, sr_Version = v\<rparr>]"
  let ?pin = "stable_sort SynthesisedRequireLess (concat (map ?req ?ps))"
  have res: "PinRequires semver_Compare coord imps inputs = (if ?un \<noteq> [] then ([], sort ?un) else (?pin, []))"
    by (simp add: PinRequires_def Let_def pinImports_ok [OF ne])
  have un: "?un = filter (\<lambda>i. \<forall>c \<in> ?cs. \<not> provides i (Path c)) imps" by (simp add: ps(1))
  have some: "\<exists>v. ?c p = Some v \<and> highest semver_Compare ?cs p v" if "p \<in> set ?ps" for p
    using candidates_ok [OF assms, where coord = coord and bl = ?bl and p = p] that ps(1) by (auto split: option.splits)
  have paths: "map sr_Path (concat (map ?req xs)) = filter (\<lambda>p. \<exists>i \<in> set imps. providerOf (set ?ps) i p) xs"
    if "set xs \<subseteq> set ?ps" for xs
    using that
  proof (induction xs)
    case (Cons p xs)
    with some [of p] show ?case by auto
  qed simp
  have mem: "set ?pin = set (concat (map ?req ?ps))" by simp
  have "sr_Path ` set ?pin = set (map sr_Path (concat (map ?req ?ps)))" unfolding mem by (simp only: set_map)
  then have dom: "sr_Path ` set ?pin = {p. \<exists>i \<in> set imps. providerOf (Path ` ?cs) i p}"
    unfolding paths [OF subset_refl] by (auto simp: ps(1) providerOf_def)
  have "distinct (map sr_Path (concat (map ?req ?ps)))" unfolding paths [OF subset_refl] using ps(2) by simp
  moreover have "mset (map sr_Path ?pin) = mset (map sr_Path (concat (map ?req ?ps)))"
    unfolding mset_map mset_stable_sort ..
  ultimately have dist: "distinct (map sr_Path ?pin)" using mset_eq_imp_distinct_iff by blast
  have "sorted_wrt (\<lambda>a b. \<not> SynthesisedRequireLess b a) ?pin" by (rule sorted_stable_sort [OF requires.order])
  then have "sorted_wrt (\<lambda>a b. sr_Path a \<le> sr_Path b) ?pin"
    by (rule sorted_wrt_mono_rel [rotated]) (auto simp: SynthesisedRequireLess_def split: if_splits)
  then have "sorted (map sr_Path ?pin)" by (simp add: sorted_wrt_map)
  with dist have order: "sorted_wrt (<) (map sr_Path ?pin)" by (simp add: strict_sorted_iff)
  have high: "\<forall>q \<in> set ?pin. highest semver_Compare ?cs (sr_Path q) (sr_Version q)"
  proof
    fix q assume "q \<in> set ?pin"
    then obtain p where p: "p \<in> set ?ps" "q \<in> set (?req p)"
      unfolding mem set_concat set_map UN_iff bex_simps by (elim bexE imageE) (rule that, assumption, simp only:)
    obtain v where "?c p = Some v" "highest semver_Compare ?cs p v" using some [OF p(1)] by blast
    with p(2) show "highest semver_Compare ?cs (sr_Path q) (sr_Version q)" by (simp split: if_splits)
  qed
  show ?thesis
  proof (cases "?un = []")
    case True
    then show ?thesis using res order dom high by (simp add: un Let_def)
  next
    case False
    then show ?thesis using res by (simp add: un Let_def node_walk.sort_Nil_iff)
  qed
qed

definition coordinateAt :: "string \<Rightarrow> string \<Rightarrow> ModuleCoordinate" where
  "coordinateAt p v = ModuleCoordinate p v"

theorem pin_requires_accounts_witness:
  "PinRequires Compare (coordinateAt ''m'' ''v1'') [''a/b/c'', ''a/x'']
     \<lparr>in_BuildList = [coordinateAt ''a'' ''v1'', coordinateAt ''a/b'' ''v1'', coordinateAt ''a/b'' ''v2''], in_Source = ''w''\<rparr>
   = ([\<lparr>sr_Path = ''a'', sr_Version = ''v1''\<rparr>, \<lparr>sr_Path = ''a/b'', sr_Version = ''v2''\<rparr>], [])
   \<and> highest Compare (usable (coordinateAt ''m'' ''v1'')
       [coordinateAt ''a'' ''v1'', coordinateAt ''a/b'' ''v1'', coordinateAt ''a/b'' ''v2'']) ''a/b'' ''v2''"
proof -
  let ?in = "\<lparr>in_BuildList = [coordinateAt ''a'' ''v1'', coordinateAt ''a/b'' ''v1'', coordinateAt ''a/b'' ''v2''], in_Source = ''w''\<rparr>"
  have e: "PinRequires Compare (coordinateAt ''m'' ''v1'') [''a/b/c'', ''a/x''] ?in
      = ([\<lparr>sr_Path = ''a'', sr_Version = ''v1''\<rparr>, \<lparr>sr_Path = ''a/b'', sr_Version = ''v2''\<rparr>], [])" by code_simp
  have "three_way (Compare :: string \<Rightarrow> string \<Rightarrow> int)" using three_way_key [of id] by simp
  from pin_requires_accounts [OF this, where coord = "coordinateAt ''m'' ''v1''" and imps = "[''a/b/c'', ''a/x'']" and inputs = ?in, unfolded e]
  show ?thesis using e by (simp add: Let_def)
qed

text \<open>
  Two versions of one path that compare equal are pinned by the order the build list is visited in.
\<close>

lemma equal_versions_by_visit:
  "let c = (\<lambda>_ _. 0) in
     fst (PinRequires c (coordinateAt ''m'' ''v1'') [''a''] \<lparr>in_BuildList = [coordinateAt ''a'' ''v2.0.0'', coordinateAt ''a'' ''v2.0.0+incompatible''], in_Source = []\<rparr>)
       = [\<lparr>sr_Path = ''a'', sr_Version = ''v2.0.0''\<rparr>]
   \<and> fst (PinRequires c (coordinateAt ''m'' ''v1'') [''a''] \<lparr>in_BuildList = [coordinateAt ''a'' ''v2.0.0+incompatible'', coordinateAt ''a'' ''v2.0.0''], in_Source = []\<rparr>)
       = [\<lparr>sr_Path = ''a'', sr_Version = ''v2.0.0+incompatible''\<rparr>]"
  by code_simp

section \<open>A refusal has a way on\<close>

lemma fields_distinct:
  "ConflictFieldFrame \<noteq> ConflictFieldToolchain" "ConflictFieldAnalysisSource \<noteq> ConflictFieldToolchain"
  "ConflictFieldArtefactIdentity \<noteq> ConflictFieldToolchain" "ConflictFieldCallGraph \<noteq> ConflictFieldToolchain"
  "ConflictFieldAnalysisSource \<noteq> ConflictFieldFrame" "ConflictFieldArtefactIdentity \<noteq> ConflictFieldFrame"
  "ConflictFieldCallGraph \<noteq> ConflictFieldFrame"
  by (simp_all add: ConflictFieldFrame_def ConflictFieldToolchain_def ConflictFieldAnalysisSource_def
      ConflictFieldArtefactIdentity_def ConflictFieldCallGraph_def)

lemma justified_field:
  "justified H cs c \<Longrightarrow> cc_Field c = ConflictFieldToolchain \<Longrightarrow> \<exists>a \<in> set cs. \<exists>b \<in> set cs.
     rootEvidence (RecordToolchain a) \<noteq> [] \<and> rootEvidence (RecordToolchain a) \<noteq> rootEvidence (RecordToolchain b)"
  "justified H cs c \<Longrightarrow> cc_Field c \<noteq> ConflictFieldFrame"
proof -
  assume j: "justified H cs c"
  show "\<exists>a \<in> set cs. \<exists>b \<in> set cs. rootEvidence (RecordToolchain a) \<noteq> []
      \<and> rootEvidence (RecordToolchain a) \<noteq> rootEvidence (RecordToolchain b)" if "cc_Field c = ConflictFieldToolchain"
  proof -
    have "\<exists>a \<in> set (tiedAtTop_cg cs). \<exists>b \<in> set (tiedAtTop_cg cs). clash H (sharedClaims (tiedAtTop_cg cs)) a b"
      using j that fields_distinct unfolding justified_def by simp
    then show ?thesis using tied_subset [of cs] unfolding clash_def by blast
  qed
  show "cc_Field c \<noteq> ConflictFieldFrame" using j fields_distinct unfolding justified_def by auto
qed

text \<open>A read is answered, or refused for something else than the field named.\<close>

definition leadsOn :: "(string \<Rightarrow> string) \<Rightarrow> (seal_error_cg \<Rightarrow> string) \<Rightarrow> CallGraphRecord list \<Rightarrow> ComposeRequest \<Rightarrow> string \<Rightarrow> bool" where
  "leadsOn H errText records req field = (case Compose_cg H errText records req of
       Inr _ \<Rightarrow> True
     | Inl ErrNoRecordsToCompose_cg \<Rightarrow> False
     | Inl (ConflictCallGraph c) \<Rightarrow> cc_Field c \<noteq> field)"

lemma compose_steps:
  assumes "records \<noteq> []" "inFrame records (rq_Frame req) = Inr fs" "ofSource fs req = Inr ss" "ofToolchain ss (rq_Toolchain req) = Inr cs"
  shows "Compose_cg H errText records req = answerFrom H errText cs (rq_ToolchainPreference req)"
  using assms by (simp add: Compose_cg_def)

lemma answerFrom_leads:
  assumes "\<And>c. justified H (identifiedOrAll_cg cs) c \<Longrightarrow> cc_Field c \<noteq> field"
  shows "case answerFrom H errText cs pref of
       Inr _ \<Rightarrow> True
     | Inl ErrNoRecordsToCompose_cg \<Rightarrow> False
     | Inl (ConflictCallGraph c) \<Rightarrow> cc_Field c \<noteq> field"
proof (cases "answerFrom H errText cs pref")
  case (Inl e)
  from answerFrom_Inl [OF Inl] obtain c where "e = ConflictCallGraph c" "justified H (identifiedOrAll_cg cs) c" by blast
  with assms Inl show ?thesis by simp
qed simp

lemma toolchain_leads_on:
  assumes "\<And>q. q \<in> set cs \<Longrightarrow> ti_Version (RecordToolchain q) = v" "Recorded v" "justified H (identifiedOrAll_cg cs) c"
  shows "cc_Field c \<noteq> ConflictFieldToolchain"
proof
  assume "cc_Field c = ConflictFieldToolchain"
  with justified_field(1) [OF assms(3)] obtain a b where ab: "a \<in> set (identifiedOrAll_cg cs)" "b \<in> set (identifiedOrAll_cg cs)"
    "rootEvidence (RecordToolchain a) \<noteq> rootEvidence (RecordToolchain b)" by blast
  then have "ti_Version (RecordToolchain a) = v" "ti_Version (RecordToolchain b) = v"
    using assms(1) identified_subset [of cs] by auto
  with ab(3) assms(2) show False by (simp add: rootEvidence_def)
qed

lemma selectable: "selectableToolchain vs = v \<Longrightarrow> v \<noteq> [] \<Longrightarrow> v \<in> set vs \<and> \<not> HasPrefix v ''GOROOT ''"
  by (induction vs rule: selectableToolchain.induct) (auto split: if_splits)

lemma toolchain_values:
  assumes "findConflict_cg H e cs = Some c" "cc_Field c = ConflictFieldToolchain" "v \<in> set (cc_Values c)"
  shows "\<exists>q \<in> set cs. rootEvidence (RecordToolchain q) = v"
proof -
  have "toolchainExplainedGraphDifference H (tiedAtTop_cg cs) = Some c"
    using assms(1,2) fields_distinct
    by (auto simp: findConflict_cg_def disagreement_cg_def Let_def split: if_splits option.splits
        dest!: disagreementOf_Some(1) firstSome_Some graphDisagreement_Some(1))
  then obtain a b where ab: "firstClash (clash H (sharedClaims (tiedAtTop_cg cs))) (tiedAtTop_cg cs) = Some (a, b)"
    "set (cc_Values c) = {rootEvidence (RecordToolchain a), rootEvidence (RecordToolchain b)}"
    by (auto simp: toolchainExplainedGraphDifference_def Let_def conflictIn_def insert_commute split: if_splits option.splits)
  with firstClash_Some [OF ab(1)] tied_subset [of cs] assms(3) show ?thesis by auto
qed

lemma conflict_origin:
  assumes "Compose_cg H e records req = Inl (ConflictCallGraph c)"
  obtains (frame) "frame_IsZero (rq_Frame req)" "frameConflict records = Some c" "records \<noteq> []"
  | (source) fs where "defaultSourceGroup fs (rq_CallerRoot req) = Inl c"
  | (group) fs ss cs where "records \<noteq> []" "inFrame records (rq_Frame req) = Inr fs" "ofSource fs req = Inr ss"
      "ofToolchain ss (rq_Toolchain req) = Inr cs" "findConflict_cg H e (identifiedOrAll_cg cs) = Some c"
proof -
  have ne: "records \<noteq> []" using assms by (auto simp: Compose_cg_def)
  show thesis
  proof (cases "inFrame records (rq_Frame req)")
    case (Inl x)
    with assms ne have "inFrame records (rq_Frame req) = Inl (ConflictCallGraph c)" by (simp add: Compose_cg_def)
    then have "frame_IsZero (rq_Frame req)" "frameConflict records = Some c"
      by (auto simp: inFrame_def split: if_splits option.splits)
    then show thesis using ne by (rule frame)
  next
    case fs: (Inr fs)
    show thesis
    proof (cases "ofSource fs req")
      case (Inl x)
      with assms ne fs have "ofSource fs req = Inl (ConflictCallGraph c)" by (simp add: Compose_cg_def)
      then have "defaultSourceGroup fs (rq_CallerRoot req) = Inl c" by (auto simp: ofSource_def split: if_splits sum.splits)
      then show thesis by (rule source)
    next
      case ss: (Inr ss)
      show thesis
      proof (cases "ofToolchain ss (rq_Toolchain req)")
        case (Inl x)
        with assms ne fs ss show thesis by (auto simp: Compose_cg_def ofToolchain_def split: if_splits)
      next
        case cs: (Inr cs)
        with assms ne fs ss have "answerFrom H e cs (rq_ToolchainPreference req) = Inl (ConflictCallGraph c)"
          by (simp add: Compose_cg_def)
        then have "findConflict_cg H e (identifiedOrAll_cg cs) = Some c"
          by (auto simp: answerFrom_def Let_def split: if_splits option.splits)
        with ne fs ss cs show thesis by (rule group)
      qed
    qed
  qed
qed

lemma named_toolchain_leads_on:
  assumes "Compose_cg H e records req = Inl (ConflictCallGraph c)" "cc_Field c = ConflictFieldToolchain"
    "selectableToolchain (cc_Values c) = v" "v \<noteq> []"
  shows "leadsOn H e records (req\<lparr>rq_Toolchain := v\<rparr>) ConflictFieldToolchain"
  using assms(1)
proof (cases rule: conflict_origin)
  case frame
  with frameConflict_Some [OF frame(2)] assms(2) fields_distinct show ?thesis by simp
next
  case source
  with defaultSourceGroup_Inl(1) [OF source] assms(2) fields_distinct show ?thesis by simp
next
  case (group fs ss cs)
  note sel = selectable [OF assms(3,4)]
  obtain q where q: "q \<in> set (identifiedOrAll_cg cs)" "rootEvidence (RecordToolchain q) = v"
    using toolchain_values [OF group(5) assms(2)] sel by blast
  have "ti_Version (RecordToolchain q) = v"
    using q(2) sel assms(4) by (auto simp: rootEvidence_def HasPrefix_def split: if_splits)
  moreover have "q \<in> set ss"
    using q(1) identified_subset [of cs] group(4) by (auto simp: ofToolchain_def withToolchain_def split: if_splits)
  ultimately have w: "withToolchain ss v \<noteq> []" by (auto simp: withToolchain_def filter_empty_conv)
  have v: "Recorded v" using assms(4) by (simp add: Recorded_def Unrecorded_def)
  have "Compose_cg H e records (req\<lparr>rq_Toolchain := v\<rparr>) = answerFrom H e (withToolchain ss v) (rq_ToolchainPreference req)"
  proof -
    have "ofSource fs (req\<lparr>rq_Toolchain := v\<rparr>) = ofSource fs req" by (simp add: ofSource_def cong: if_cong)
    with group w v compose_steps [of records "req\<lparr>rq_Toolchain := v\<rparr>" fs ss "withToolchain ss v" H e]
    show ?thesis by (simp add: ofToolchain_def)
  qed
  moreover have "cc_Field d \<noteq> ConflictFieldToolchain" if "justified H (identifiedOrAll_cg (withToolchain ss v)) d" for d
    by (rule toolchain_leads_on [OF _ v that]) (simp add: withToolchain_def)
  ultimately show ?thesis unfolding leadsOn_def by (simp add: answerFrom_leads)
qed

lemma conflict_frames:
  assumes "frameConflict records = Some c"
  shows "cc_Frames c = map fst (stable_sort (\<lambda>a b. compareFrames (fst a) (fst b) < 0) (distinctFrames [] records))"
proof (cases "length (distinctFrames [] records) < 2")
  case True
  with assms show ?thesis unfolding frameConflict_def Let_def by simp
next
  case False
  show ?thesis using assms unfolding frameConflict_def Let_def if_not_P [OF False] option.inject by (rule subst) simp
qed

lemma distinctFrames_of: "fst ` set (distinctFrames seen rs) \<subseteq> cg_Frame ` set rs"
  by (induction seen rs rule: distinctFrames.induct) auto

lemma frame_of_conflict:
  assumes "frameConflict records = Some c" "f \<in> set (cc_Frames c)"
  shows "\<exists>q \<in> set records. cg_Frame q = f"
proof -
  from assms(2) have "f \<in> fst ` set (distinctFrames [] records)" unfolding conflict_frames [OF assms(1)] by simp
  then have "f \<in> cg_Frame ` set records" by (rule subsetD [OF distinctFrames_of])
  then show ?thesis by auto
qed

lemma named_frame_leads_on:
  assumes "Compose_cg H e records req = Inl (ConflictCallGraph c)" "cc_Field c = ConflictFieldFrame"
    "f \<in> set (cc_Frames c)" "\<not> frame_IsZero f" "\<not> namesSource req" "\<not> Recorded (rq_Toolchain req)"
  shows "leadsOn H e records (req\<lparr>rq_Frame := f\<rparr>) ConflictFieldFrame"
  using assms(1)
proof (cases rule: conflict_origin)
  case source
  with defaultSourceGroup_Inl(1) [OF source] assms(2) fields_distinct show ?thesis by simp
next
  case group
  with justified_field(2) [OF findConflict_cg_Some [OF group(5)]] assms(2) show ?thesis by simp
next
  case frame
  obtain q where "q \<in> set records" "cg_Frame q = f" using frame_of_conflict [OF frame(2) assms(3)] by blast
  then have w: "withFrame records f \<noteq> []" by (auto simp: withFrame_def filter_empty_conv SameFrame_def)
  then have i: "inFrame records f = Inr (withFrame records f)" using assms(4) by (simp add: inFrame_def)
  show ?thesis
  proof (cases "defaultSourceGroup (withFrame records f) (rq_CallerRoot req)")
    case (Inl d)
    then have "Compose_cg H e records (req\<lparr>rq_Frame := f\<rparr>) = Inl (ConflictCallGraph d)"
      using i frame(3) assms(5) by (simp add: Compose_cg_def ofSource_def namesSource_def)
    with defaultSourceGroup_Inl(1) [OF Inl] fields_distinct show ?thesis by (simp add: leadsOn_def)
  next
    case (Inr g)
    have "Compose_cg H e records (req\<lparr>rq_Frame := f\<rparr>) = answerFrom H e g (rq_ToolchainPreference req)"
      using i frame(3) assms(5,6) Inr by (simp add: Compose_cg_def ofSource_def namesSource_def ofToolchain_def)
    then show ?thesis unfolding leadsOn_def
      using answerFrom_leads [of H g ConflictFieldFrame e, OF justified_field(2)] by simp
  qed
qed

text \<open>
  C11: What a refused read is told to name leads on.  A read refused over toolchains finds records, and is not
  refused over toolchains again, when it names the toolchain the remedy selects, if the remedy has
  one.  A read refused over frames that names no source and no toolchain of its own finds records,
  and is not refused over frames again, when it names any stated frame of those in conflict.
\<close>

theorem refusal_has_a_way_on:
  assumes "Compose_cg H errText records req = Inl (ConflictCallGraph c)"
  shows "(cc_Field c = ConflictFieldToolchain \<and> selectableToolchain (cc_Values c) \<noteq> []
      \<longrightarrow> leadsOn H errText records (req\<lparr>rq_Toolchain := selectableToolchain (cc_Values c)\<rparr>) ConflictFieldToolchain)
    \<and> (cc_Field c = ConflictFieldFrame \<and> \<not> namesSource req \<and> \<not> Recorded (rq_Toolchain req)
      \<longrightarrow> (\<forall>f \<in> set (cc_Frames c). \<not> frame_IsZero f
          \<longrightarrow> leadsOn H errText records (req\<lparr>rq_Frame := f\<rparr>) ConflictFieldFrame))"
  using named_toolchain_leads_on [OF assms] named_frame_leads_on [OF assms] by blast

definition inFrameOf :: "string \<Rightarrow> CallGraphRecord" where
  "inFrameOf os = zero_callgraph\<lparr>cg_Frame := zero_frame\<lparr>bf_GOOS := os, bf_GOARCH := ''arm64''\<rparr>\<rparr>"

theorem refusal_has_a_way_on_witness:
  "(\<exists>c. Compose_cg rev (\<lambda>_. []) [inFrameOf ''linux'', inFrameOf ''darwin''] silentRequest = Inl (ConflictCallGraph c)
       \<and> cc_Field c = ConflictFieldFrame \<and> cg_Frame (inFrameOf ''linux'') \<in> set (cc_Frames c))
   \<and> leadsOn rev (\<lambda>_. []) [inFrameOf ''linux'', inFrameOf ''darwin''] (silentRequest\<lparr>rq_Frame := cg_Frame (inFrameOf ''linux'')\<rparr>)
     ConflictFieldFrame"
proof -
  let ?rs = "[inFrameOf ''linux'', inFrameOf ''darwin'']"
  let ?c = "case Compose_cg rev (\<lambda>_. []) ?rs silentRequest of
      Inl (ConflictCallGraph c) \<Rightarrow> c | _ \<Rightarrow> conflictIn [] [] [] []"
  have e: "case Compose_cg rev (\<lambda>_. []) ?rs silentRequest of
      Inr r \<Rightarrow> False | Inl ErrNoRecordsToCompose_cg \<Rightarrow> False
    | Inl (ConflictCallGraph c) \<Rightarrow> cc_Field c = ConflictFieldFrame \<and> cg_Frame (inFrameOf ''linux'') \<in> set (cc_Frames c)"
    by code_simp
  then obtain c where c: "Compose_cg rev (\<lambda>_. []) ?rs silentRequest = Inl (ConflictCallGraph c)"
    "cc_Field c = ConflictFieldFrame" "cg_Frame (inFrameOf ''linux'') \<in> set (cc_Frames c)"
    by (auto split: sum.splits compose_error_cg.splits)
  have "\<not> frame_IsZero (cg_Frame (inFrameOf ''linux''))" "\<not> namesSource silentRequest" "\<not> Recorded (rq_Toolchain silentRequest)"
    by code_simp+
  with refusal_has_a_way_on [OF c(1)] c show ?thesis by blast
qed

text \<open>
  With a source named the condition is needed: the conflict of frames is found before the source is
  selected, so a frame of the conflict may hold no record of that source.
\<close>

lemma named_frame_without_source:
  fixes records req
  defines "records \<equiv> [(inFrameOf ''linux'')\<lparr>cg_AnalysisSource := AnalysisSourceModuleZip\<rparr>,
      (inFrameOf ''darwin'')\<lparr>cg_AnalysisSource := AnalysisSourceWorktree\<rparr>]"
    and "req \<equiv> silentRequest\<lparr>rq_Source := AnalysisSourceModuleZip\<rparr>"
  shows "case Compose_cg rev (\<lambda>_. []) records req of
      Inl (ConflictCallGraph c) \<Rightarrow> cc_Field c = ConflictFieldFrame \<and> cg_Frame (inFrameOf ''darwin'') \<in> set (cc_Frames c)
    | _ \<Rightarrow> False"
    "\<not> leadsOn rev (\<lambda>_. []) records (req\<lparr>rq_Frame := cg_Frame (inFrameOf ''darwin'')\<rparr>) ConflictFieldFrame"
  unfolding records_def req_def by code_simp+

end
