(* ===== verification/Capability_Sinks.thy ===== *)
theory Capability_Sinks
  imports Callgraph_Answer
begin

text \<open>
  What a reached function can do (\<open>internal/capability/domain/capability.go\<close>, \<open>sinks.go\<close>): the
  taxonomy with its tiers and reaches, the rules that classify a callee by package, receiver and
  symbol, and the capabilities a node witnesses.  A first rune outside ASCII is read as not upper-case.
\<close>

section \<open>The taxonomy\<close>

definition CapabilityExecProcess :: string where "CapabilityExecProcess = ''EXEC_PROCESS''"
definition CapabilityExecDynamic :: string where "CapabilityExecDynamic = ''EXEC_DYNAMIC''"
definition CapabilityNetDial :: string where "CapabilityNetDial = ''NET_DIAL''"
definition CapabilityNetListen :: string where "CapabilityNetListen = ''NET_LISTEN''"
definition CapabilityNetTransfer :: string where "CapabilityNetTransfer = ''NET_TRANSFER''"
definition CapabilityFSRead :: string where "CapabilityFSRead = ''FS_READ''"
definition CapabilityFSWrite :: string where "CapabilityFSWrite = ''FS_WRITE''"
definition CapabilityEnvRead :: string where "CapabilityEnvRead = ''ENV_READ''"
definition CapabilityEnvWrite :: string where "CapabilityEnvWrite = ''ENV_WRITE''"
definition CapabilitySyscallDirect :: string where "CapabilitySyscallDirect = ''SYSCALL_DIRECT''"
definition CapabilityCgoCall :: string where "CapabilityCgoCall = ''CGO_CALL''"
definition CapabilityUnsafePointer :: string where "CapabilityUnsafePointer = ''UNSAFE_POINTER''"
definition CapabilityReflectDynamic :: string where "CapabilityReflectDynamic = ''REFLECT_DYNAMIC''"
definition CapabilityNetInspect :: string where "CapabilityNetInspect = ''NET_INSPECT''"
definition CapabilityFSStream :: string where "CapabilityFSStream = ''FS_STREAM''"
definition CapabilityPathPure :: string where "CapabilityPathPure = ''PATH_PURE''"
definition CapabilityReflectInspect :: string where "CapabilityReflectInspect = ''REFLECT_INSPECT''"
definition CapabilityHostIdentity :: string where "CapabilityHostIdentity = ''HOST_IDENTITY''"
definition CapabilityProcControl :: string where "CapabilityProcControl = ''PROC_CONTROL''"
definition CapabilityLogWrite :: string where "CapabilityLogWrite = ''LOG_WRITE''"
definition CapabilityRuntimeInternal :: string where "CapabilityRuntimeInternal = ''RUNTIME_INTERNAL''"

definition TierAct :: string where "TierAct = ''act''"
definition TierContext :: string where "TierContext = ''context''"
definition TierSuppressed :: string where "TierSuppressed = ''suppressed''"

definition tierRank :: "string \<Rightarrow> nat" where
  "tierRank t = (if t = TierAct then 0 else if t = TierContext then 1 else 2)"

definition capabilityInfo :: "(string \<times> string \<times> string) list" where
  "capabilityInfo =
     [(CapabilityExecProcess, TierAct, ''EXEC''), (CapabilityExecDynamic, TierAct, ''ARBITRARY_EXECUTION''),
      (CapabilityNetDial, TierAct, ''NETWORK''), (CapabilityNetListen, TierAct, ''NETWORK''),
      (CapabilityNetTransfer, TierAct, ''NETWORK''), (CapabilityFSRead, TierAct, ''FILES''),
      (CapabilityFSWrite, TierAct, ''FILES''), (CapabilityEnvRead, TierAct, ''READ_SYSTEM_STATE''),
      (CapabilityEnvWrite, TierAct, ''MODIFY_SYSTEM_STATE''), (CapabilitySyscallDirect, TierAct, ''SYSTEM_CALLS''),
      (CapabilityCgoCall, TierAct, ''CGO''), (CapabilityUnsafePointer, TierAct, ''UNSAFE_POINTER''),
      (CapabilityReflectDynamic, TierAct, ''REFLECT''), (CapabilityNetInspect, TierContext, ''NETWORK''),
      (CapabilityFSStream, TierContext, ''FILES''), (CapabilityPathPure, TierContext, ''FILES''),
      (CapabilityReflectInspect, TierContext, ''REFLECT''), (CapabilityHostIdentity, TierContext, ''READ_SYSTEM_STATE''),
      (CapabilityProcControl, TierContext, ''OPERATING_SYSTEM''), (CapabilityLogWrite, TierContext, ''MODIFY_SYSTEM_STATE''),
      (CapabilityRuntimeInternal, TierSuppressed, ''RUNTIME'')]"

definition AllCapabilities :: "string list" where
  "AllCapabilities =
     [CapabilityExecProcess, CapabilityExecDynamic, CapabilityNetDial, CapabilityNetListen, CapabilityNetTransfer,
      CapabilityFSRead, CapabilityFSWrite, CapabilityEnvRead, CapabilityEnvWrite, CapabilitySyscallDirect,
      CapabilityCgoCall, CapabilityUnsafePointer, CapabilityReflectDynamic, CapabilityNetInspect, CapabilityFSStream,
      CapabilityPathPure, CapabilityReflectInspect, CapabilityHostIdentity, CapabilityProcControl, CapabilityLogWrite,
      CapabilityRuntimeInternal]"

definition capability_Valid :: "string \<Rightarrow> bool" where
  "capability_Valid c \<longleftrightarrow> c \<in> set AllCapabilities"

definition Tier :: "string \<Rightarrow> string" where
  "Tier c = (case map_of capabilityInfo c of Some (t, _) \<Rightarrow> t | None \<Rightarrow> TierSuppressed)"

definition CapslockCategory :: "string \<Rightarrow> string" where
  "CapslockCategory c = (case map_of capabilityInfo c of Some (_, k) \<Rightarrow> k | None \<Rightarrow> [])"

definition capabilityLess :: "string \<Rightarrow> string \<Rightarrow> bool" where
  "capabilityLess a b =
     (if tierRank (Tier a) \<noteq> tierRank (Tier b) then tierRank (Tier a) < tierRank (Tier b) else a < b)"

section \<open>Reach, caller kind and basis\<close>

definition ReachUnanalyzed :: string where "ReachUnanalyzed = ''UNANALYZED''"
definition ReachPkgLinkage :: string where "ReachPkgLinkage = ''PKG_LINKAGE''"
definition ReachRuntimePlumbing :: string where "ReachRuntimePlumbing = ''RUNTIME_PLUMBING''"
definition ReachDirectCall :: string where "ReachDirectCall = ''DIRECT_CALL''"

text \<open>The first rune is upper-case.\<close>

fun exportedSymbol :: "string \<Rightarrow> bool" where
  "exportedSymbol [] = False"
| "exportedSymbol (c # _) \<longleftrightarrow> CHR ''A'' \<le> c \<and> c \<le> CHR ''Z''"

definition IsPlumbing :: "string \<Rightarrow> string \<Rightarrow> bool" where
  "IsPlumbing reach symbol \<longleftrightarrow>
     reach = ReachRuntimePlumbing \<or> (reach = ReachUnanalyzed \<and> \<not> exportedSymbol symbol)"

definition witnessRank :: "string \<Rightarrow> string \<Rightarrow> nat" where
  "witnessRank reach symbol =
     (if reach = ReachDirectCall then 4
      else if reach = ReachUnanalyzed \<and> exportedSymbol symbol then 3
      else if reach = ReachRuntimePlumbing then 2
      else if reach = ReachUnanalyzed then 1
      else 0)"

definition CallerTestInit :: string where "CallerTestInit = ''TEST_INIT''"
definition CallerInit :: string where "CallerInit = ''INIT''"
definition CallerTest :: string where "CallerTest = ''TEST''"
definition CallerMain :: string where "CallerMain = ''MAIN''"
definition CallerExportedAPI :: string where "CallerExportedAPI = ''EXPORTED_API''"
definition CallerInternal :: string where "CallerInternal = ''INTERNAL''"

definition callerKindRank :: "string \<Rightarrow> nat" where
  "callerKindRank k =
     (if k = CallerInit then 0 else if k = CallerTestInit then 1 else if k = CallerExportedAPI then 2
      else if k = CallerTest then 3 else if k = CallerInternal then 4 else 5)"

definition Collapsed :: "string \<Rightarrow> bool" where
  "Collapsed k \<longleftrightarrow> k = CallerTest \<or> k = CallerInternal"

definition ClassifiedByRule :: string where "ClassifiedByRule = ''rule''"
definition ClassifiedByPackageDefault :: string where "ClassifiedByPackageDefault = ''package_default''"

definition BasisUse :: string where "BasisUse = ''use''"
definition BasisLinkageOnly :: string where "BasisLinkageOnly = ''linkage_only''"
definition BasisCalleeBodyFact :: string where "BasisCalleeBodyFact = ''callee_body_fact''"

definition AllCapabilityBases :: "string list" where
  "AllCapabilityBases = [BasisUse, BasisLinkageOnly, BasisCalleeBodyFact]"

definition basis_Explanation :: "string \<Rightarrow> string" where
  "basis_Explanation b =
     (if b = BasisLinkageOnly then ''linkage only: the package is linked and its initialiser ran; nothing in it was called''
      else if b = BasisCalleeBodyFact
      then ''callee body fact: the fact is recorded on that external function, not on this module's code''
      else [])"

section \<open>The rules\<close>

definition envReadSymbols :: "string list" where
  "envReadSymbols = [''Getenv'', ''LookupEnv'', ''Environ'', ''ExpandEnv'']"

definition envWriteSymbols :: "string list" where
  "envWriteSymbols = [''Setenv'', ''Unsetenv'', ''Clearenv'', ''Chdir'']"

definition hostIdentityOS :: "string list" where
  "hostIdentityOS = [''Hostname'', ''Getpid'', ''Getppid'', ''Getuid'', ''Getgid'', ''Geteuid'', ''Getegid'',
     ''Getgroups'', ''Getpagesize'', ''Executable'', ''Getwd'', ''TempDir'', ''UserHomeDir'',
     ''UserConfigDir'', ''UserCacheDir'']"

definition netPackages :: "string list" where
  "netPackages = [''net'', ''net/http'', ''net/textproto'', ''net/rpc'', ''net/smtp'']"

definition netDial :: "string list" where
  "netDial = [''Dial'', ''DialTCP'', ''DialUDP'', ''DialIP'', ''DialUnix'', ''DialTimeout'', ''DialContext'',
     ''FileConn'', ''FilePacketConn'', ''SendMail'', ''NewClient'', ''NewClientWithCodec'',
     ''NewClientConn'', ''RoundTrip'', ''Do'', ''Get'', ''Head'', ''Post'', ''PostForm'']"

definition netDialReceivers :: "string list" where
  "netDialReceivers = ['''', ''Client'', ''Transport'', ''ClientConn'', ''Dialer'', ''Resolver'', ''Conn'']"

definition netListen :: "string list" where
  "netListen = [''Listen'', ''ListenTCP'', ''ListenUDP'', ''ListenIP'', ''ListenUnix'', ''ListenPacket'',
     ''ListenAndServe'', ''ListenAndServeTLS'', ''Serve'', ''ServeTLS'', ''ServeCodec'', ''Accept'',
     ''AcceptTCP'', ''AcceptUnix'', ''HandleHTTP'', ''NewServer'', ''Register'']"

definition netTransfer :: "string list" where
  "netTransfer = [''Cmd'', ''Call'', ''Push'', ''Flush'', ''Hijack'', ''Pipe'', ''ServeContent'', ''ServeFile'',
     ''ServeHTTP'', ''FileServer'', ''FileServerFS'', ''ReadRequest'', ''ReadResponse'', ''CloseWrite'',
     ''SyscallConn'']"

definition netInspect :: "string list" where
  "netInspect = [''ParseIP'', ''ParseCIDR'', ''ParseMAC'', ''SplitHostPort'', ''JoinHostPort'',
     ''CanonicalMIMEHeaderKey'', ''StatusText'', ''NewRequest'', ''LocalAddr'', ''RemoteAddr'',
     ''SetDeadline'']"

definition netInspectHeader :: "string list" where
  "netInspectHeader = [''Get'', ''Set'', ''Add'', ''Del'', ''Values'']"

definition netInspectReceivers :: "string list" where
  "netInspectReceivers = [''IP'', ''IPNet'', ''IPMask'']"

definition pathPure :: "string list" where
  "pathPure = [''Join'', ''Clean'', ''Base'', ''Dir'', ''Ext'', ''Split'', ''SplitList'', ''ToSlash'',
     ''FromSlash'', ''IsAbs'', ''IsLocal'', ''Match'', ''Rel'', ''VolumeName'', ''HasPrefix'',
     ''Localize'']"

definition pathRead :: "string list" where
  "pathRead = [''Abs'', ''EvalSymlinks'', ''Glob'', ''Walk'', ''WalkDir'']"

definition osProcessReceivers :: "string list" where
  "osProcessReceivers = [''Process'', ''ProcessState'']"

definition osProcControl :: "string list" where
  "osProcControl = [''Exit'', ''FindProcess'', ''Kill'', ''Signal'', ''Wait'', ''ExitCode'']"

definition osWrite :: "string list" where
  "osWrite = [''Create'', ''CreateTemp'', ''OpenFile'', ''Mkdir'', ''MkdirAll'', ''MkdirTemp'', ''Remove'',
     ''RemoveAll'', ''Rename'', ''Link'', ''Symlink'', ''Truncate'', ''Chmod'', ''Chown'', ''Chtimes'',
     ''WriteFile'', ''TempFile'', ''Write'', ''WriteAt'', ''WriteString'', ''WriteTo'', ''ReadFrom'',
     ''Sync'']"

definition osRead :: "string list" where
  "osRead = [''Open'', ''OpenRoot'', ''ReadFile'', ''ReadDir'', ''Readdir'', ''Readdirnames'', ''Readlink'',
     ''Lstat'', ''Stat'', ''DirFS'', ''SameFile'']"

definition osStream :: "string list" where
  "osStream = [''Read'', ''ReadAt'', ''Seek'', ''Close'', ''Fd'', ''Name'', ''NewFile'', ''FS'', ''ReadAll'']"

definition execStart :: "string list" where
  "execStart = [''Command'', ''CommandContext'']"

definition execStatusReceivers :: "string list" where
  "execStatusReceivers = [''ExitError'', ''Error'']"

definition reflectDynamic :: "string list" where
  "reflectDynamic = [''Call'', ''CallSlice'', ''Method'', ''MethodByName'', ''Methods'', ''MakeFunc'', ''NewAt'',
     ''Select'', ''Send'', ''Recv'', ''UnsafeAddr'', ''Pointer'']"

definition ioutilSymbols :: "(string \<times> string) list" where
  "ioutilSymbols =
     [(''ReadFile'', CapabilityFSRead), (''ReadDir'', CapabilityFSRead), (''WriteFile'', CapabilityFSWrite),
      (''TempFile'', CapabilityFSWrite), (''TempDir'', CapabilityFSWrite), (''ReadAll'', CapabilityFSStream),
      (''NopCloser'', CapabilityFSStream), (''Discard'', CapabilityFSStream)]"

definition wholePackage :: "(string \<times> string) list" where
  "wholePackage =
     [(''plugin'', CapabilityExecDynamic), (''syscall'', CapabilitySyscallDirect),
      (''golang.org/x/sys/unix'', CapabilitySyscallDirect), (''golang.org/x/sys/windows'', CapabilitySyscallDirect),
      (''log'', CapabilityLogWrite), (''log/syslog'', CapabilityLogWrite), (''os/signal'', CapabilityProcControl),
      (''runtime/cgo'', CapabilityCgoCall), (''runtime'', CapabilityRuntimeInternal)]"

record Classification =
  cl_Capability :: string
  cl_By :: string

definition byRule :: "string \<Rightarrow> Classification option" where
  "byRule c = Some \<lparr>cl_Capability = c, cl_By = ClassifiedByRule\<rparr>"

definition byDefault :: "string \<Rightarrow> Classification option" where
  "byDefault c = Some \<lparr>cl_Capability = c, cl_By = ClassifiedByPackageDefault\<rparr>"

definition bareReceiver :: "string \<Rightarrow> string" where
  "bareReceiver receiver = (let r = TrimPrefix receiver ''*'' in
     case LastIndex r ''.'' of Some i \<Rightarrow> drop (i + 1) r | None \<Rightarrow> r)"

definition envPackage :: "string \<Rightarrow> bool" where
  "envPackage pkg \<longleftrightarrow> pkg = ''os'' \<or> pkg = ''syscall'' \<or> HasPrefix pkg ''golang.org/x/sys/''"

definition isEnvRead :: "string \<Rightarrow> string \<Rightarrow> bool \<Rightarrow> string \<Rightarrow> bool" where
  "isEnvRead pkg bare free symbol =
     (if pkg = ''os/exec'' then bare = ''Cmd'' \<and> symbol = ''Environ''
      else free \<and> envPackage pkg \<and> symbol \<in> set envReadSymbols)"

definition isEnvWrite :: "string \<Rightarrow> string \<Rightarrow> bool \<Rightarrow> string \<Rightarrow> bool" where
  "isEnvWrite pkg bare free symbol =
     (if pkg = ''os'' \<and> bare = ''File'' then symbol = ''Chdir''
      else free \<and> envPackage pkg \<and> symbol \<in> set envWriteSymbols)"

definition isHostIdentity :: "string \<Rightarrow> string \<Rightarrow> bool \<Rightarrow> string \<Rightarrow> bool" where
  "isHostIdentity pkg bare free symbol =
     (if pkg = ''os'' then free \<and> symbol \<in> set hostIdentityOS
      else if pkg = ''os/user'' then True
      else if pkg = ''runtime'' then free \<and> symbol = ''GOROOT''
      else if pkg = ''runtime/debug'' then symbol = ''ReadBuildInfo''
      else if pkg = ''net'' then (if free then HasPrefix symbol ''Interface'' else HasPrefix bare ''Interface'')
      else False)"

definition classifyNet :: "string \<Rightarrow> string \<Rightarrow> Classification option" where
  "classifyNet bare symbol =
     (if symbol \<in> set netDial \<and> bare \<in> set netDialReceivers
         \<or> (HasPrefix symbol ''Lookup'' \<or> HasPrefix symbol ''Resolve'') \<and> bare \<noteq> ''Header''
      then byRule CapabilityNetDial
      else if symbol \<in> set netListen then byRule CapabilityNetListen
      else if HasPrefix symbol ''Read'' \<or> HasPrefix symbol ''Write'' \<or> symbol \<in> set netTransfer
      then byRule CapabilityNetTransfer
      else if symbol \<in> set netInspect \<or> (bare = ''Header'' \<and> symbol \<in> set netInspectHeader) \<or> bare \<in> set netInspectReceivers
      then byRule CapabilityNetInspect
      else byDefault CapabilityNetInspect)"

definition classifyPath :: "string \<Rightarrow> Classification option" where
  "classifyPath symbol =
     (if symbol \<in> set pathPure then byRule CapabilityPathPure
      else if symbol \<in> set pathRead then byRule CapabilityFSRead
      else byDefault CapabilityPathPure)"

definition classifyOS :: "string \<Rightarrow> string \<Rightarrow> Classification option" where
  "classifyOS bare symbol =
     (if bare \<in> set osProcessReceivers then byRule CapabilityProcControl
      else if symbol = ''StartProcess'' then byRule CapabilityExecProcess
      else if symbol \<in> set osProcControl then byRule CapabilityProcControl
      else if symbol \<in> set osWrite then byRule CapabilityFSWrite
      else if symbol \<in> set osRead then byRule CapabilityFSRead
      else if symbol \<in> set osStream then byRule CapabilityFSStream
      else byDefault CapabilityFSStream)"

definition classifyIoutil :: "string \<Rightarrow> Classification option" where
  "classifyIoutil symbol =
     (case map_of ioutilSymbols symbol of Some c \<Rightarrow> byRule c | None \<Rightarrow> byDefault CapabilityFSStream)"

definition classifyReflect :: "string \<Rightarrow> Classification option" where
  "classifyReflect symbol =
     (if symbol \<in> set reflectDynamic \<or> HasPrefix symbol ''Set'' then byRule CapabilityReflectDynamic
      else byDefault CapabilityReflectInspect)"

definition classifyRuntimeDebug :: "string \<Rightarrow> Classification option" where
  "classifyRuntimeDebug symbol =
     (if symbol = ''WriteHeapDump'' then byRule CapabilityFSWrite else byRule CapabilityRuntimeInternal)"

definition classifyExec :: "string \<Rightarrow> string \<Rightarrow> Classification option" where
  "classifyExec bare symbol =
     (if symbol = ''LookPath'' then byRule CapabilityFSRead
      else if bare \<in> set execStatusReceivers then byRule CapabilityProcControl
      else if bare = ''Cmd'' \<or> symbol \<in> set execStart then byRule CapabilityExecProcess
      else byDefault CapabilityExecProcess)"

definition packageRules :: "string \<Rightarrow> (string \<Rightarrow> string \<Rightarrow> Classification option) option" where
  "packageRules pkg =
     (if pkg = ''path/filepath'' then Some (\<lambda>_. classifyPath)
      else if pkg = ''os'' then Some classifyOS
      else if pkg = ''io/ioutil'' then Some (\<lambda>_. classifyIoutil)
      else if pkg = ''os/exec'' then Some classifyExec
      else if pkg = ''reflect'' then Some (\<lambda>_. classifyReflect)
      else if pkg = ''runtime/debug'' then Some (\<lambda>_. classifyRuntimeDebug)
      else None)"

definition SinkCapability :: "string \<Rightarrow> string \<Rightarrow> string \<Rightarrow> Classification option" where
  "SinkCapability pkg receiver symbol = (let bare = bareReceiver receiver; free = (receiver = []) in
     if isEnvRead pkg bare free symbol then byRule CapabilityEnvRead
     else if isEnvWrite pkg bare free symbol then byRule CapabilityEnvWrite
     else if isHostIdentity pkg bare free symbol then byRule CapabilityHostIdentity
     else if pkg \<in> set netPackages then classifyNet bare symbol
     else case packageRules pkg of
         Some classify \<Rightarrow> classify bare symbol
       | None \<Rightarrow> (case map_of wholePackage pkg of Some c \<Rightarrow> byRule c | None \<Rightarrow> None))"

section \<open>What a node witnesses\<close>

definition NodeReach :: "CallNode \<Rightarrow> string" where
  "NodeReach n =
     (if cn_IsAssemblyOrLinkname n then ReachUnanalyzed
      else if IsInitSymbol (cn_Symbol n) then ReachPkgLinkage
      else if \<not> exportedSymbol (cn_Symbol n) then ReachRuntimePlumbing
      else ReachDirectCall)"

definition NodeCallerKind :: "CallNode \<Rightarrow> string" where
  "NodeCallerKind n =
     (if IsInitSymbol (cn_Symbol n) \<and> cn_IsTest n then CallerTestInit
      else if IsInitSymbol (cn_Symbol n) then CallerInit
      else if cn_IsTest n then CallerTest
      else if cn_Symbol n = ''main'' \<and> cn_Receiver n = [] \<and> \<not> IsSyntheticTestMain (cn_Package n) (cn_Symbol n) (cn_Receiver n)
      then CallerMain
      else if cn_IsExportedAPI n \<or> \<not> export_IsZero (cn_ExportDirective n) then CallerExportedAPI
      else CallerInternal)"

definition wrapperPackage :: "string \<Rightarrow> string option" where
  "wrapperPackage i =
     (if \<not> HasPrefix i ''('' then None
      else case StrIndex i '')'' of
        None \<Rightarrow> None
      | Some e \<Rightarrow> let inner = TrimPrefix (slice i 1 e) ''*'';
            inner = (case StrIndex inner ''['' of Some k \<Rightarrow> take k inner | None \<Rightarrow> inner) in
          (case LastIndex inner ''.'' of
             None \<Rightarrow> None
           | Some dot \<Rightarrow> if dot = 0 then None else Some (take dot inner)))"

definition ClassificationPackage :: "CallNode \<Rightarrow> string" where
  "ClassificationPackage n = (case wrapperPackage (cn_ID n) of
       Some p \<Rightarrow> if p \<noteq> cn_Package n \<and> SinkCapability p (cn_Receiver n) (cn_Symbol n) \<noteq> None then p else cn_Package n
     | None \<Rightarrow> cn_Package n)"

record NodeCapability =
  nc_Capability :: string
  nc_Basis :: string
  nc_Reach :: string
  nc_ClassifiedBy :: string

definition NodeCapabilities :: "CallNode \<Rightarrow> NodeCapability list" where
  "NodeCapabilities n =
     (case SinkCapability (ClassificationPackage n) (cn_Receiver n) (cn_Symbol n) of
        None \<Rightarrow> []
      | Some cl \<Rightarrow> [\<lparr>nc_Capability = cl_Capability cl,
            nc_Basis = (if cn_IsExternal n \<and> IsInitSymbol (cn_Symbol n) then BasisLinkageOnly else BasisUse),
            nc_Reach = NodeReach n, nc_ClassifiedBy = cl_By cl\<rparr>])
     @ (if cn_UsesUnsafePointer n then
          [\<lparr>nc_Capability = CapabilityUnsafePointer,
            nc_Basis = (if cn_IsExternal n then BasisCalleeBodyFact else BasisUse),
            nc_Reach = (if cn_IsExternal n then NodeReach n else ReachDirectCall),
            nc_ClassifiedBy = ClassifiedByRule\<rparr>]
        else [])"

section \<open>Labels are of the taxonomy\<close>

text \<open>A label of the taxonomy that is decided from a callee's identity.\<close>

definition identityLabel :: "Classification option \<Rightarrow> bool" where
  "identityLabel c \<longleftrightarrow> (case c of None \<Rightarrow> True
     | Some cl \<Rightarrow> cl_Capability cl \<in> set AllCapabilities \<and> cl_Capability cl \<noteq> CapabilityUnsafePointer)"

lemma identityLabel_by:
  "c \<in> set AllCapabilities \<Longrightarrow> c \<noteq> CapabilityUnsafePointer \<Longrightarrow> identityLabel (byRule c)"
  "c \<in> set AllCapabilities \<Longrightarrow> c \<noteq> CapabilityUnsafePointer \<Longrightarrow> identityLabel (byDefault c)"
  by (simp_all add: identityLabel_def byRule_def byDefault_def)

lemma identityLabels [simp]:
  "identityLabel None" "identityLabel (byRule CapabilityEnvRead)" "identityLabel (byRule CapabilityEnvWrite)"
  "identityLabel (byRule CapabilityHostIdentity)" "identityLabel (byRule CapabilityNetDial)" "identityLabel (byRule CapabilityNetListen)"
  "identityLabel (byRule CapabilityNetTransfer)" "identityLabel (byRule CapabilityNetInspect)" "identityLabel (byDefault CapabilityNetInspect)"
  "identityLabel (byRule CapabilityPathPure)" "identityLabel (byDefault CapabilityPathPure)" "identityLabel (byRule CapabilityFSRead)"
  "identityLabel (byRule CapabilityFSWrite)" "identityLabel (byRule CapabilityFSStream)" "identityLabel (byDefault CapabilityFSStream)"
  "identityLabel (byRule CapabilityProcControl)" "identityLabel (byRule CapabilityExecProcess)" "identityLabel (byDefault CapabilityExecProcess)"
  "identityLabel (byRule CapabilityReflectDynamic)" "identityLabel (byDefault CapabilityReflectInspect)"
  "identityLabel (byRule CapabilityRuntimeInternal)" "identityLabel (byRule CapabilityExecDynamic)" "identityLabel (byRule CapabilitySyscallDirect)"
  "identityLabel (byRule CapabilityLogWrite)" "identityLabel (byRule CapabilityCgoCall)"
  by code_simp+

lemma map_of_all: "\<forall>(k, v) \<in> set xs. P v \<Longrightarrow> map_of xs k = Some v \<Longrightarrow> P v"
  by (drule map_of_SomeD) auto

lemma SinkCapability_label: "identityLabel (SinkCapability pkg receiver symbol)"
proof -
  have "\<forall>(k, v) \<in> set ioutilSymbols. identityLabel (byRule v)" "\<forall>(k, v) \<in> set wholePackage. identityLabel (byRule v)"
    by (simp_all add: ioutilSymbols_def wholePackage_def)
  note io = map_of_all [OF this(1)] and wh = map_of_all [OF this(2)]
  have net: "identityLabel (classifyNet b y)" for b y by (simp add: classifyNet_def)
  have rules: "packageRules p = Some f \<Longrightarrow> identityLabel (f b y)" for p f b y
    by (auto simp: packageRules_def classifyPath_def classifyOS_def classifyIoutil_def classifyExec_def classifyReflect_def
        classifyRuntimeDebug_def io split: if_splits option.split)
  show ?thesis by (auto simp: SinkCapability_def Let_def net rules wh split: option.split)
qed

text \<open>The label by identity, if there is one, and then the fact of the body.\<close>

lemma NodeCapabilities_labels:
  "map nc_Capability (NodeCapabilities n) =
     (case SinkCapability (ClassificationPackage n) (cn_Receiver n) (cn_Symbol n) of None \<Rightarrow> [] | Some cl \<Rightarrow> [cl_Capability cl])
     @ (if cn_UsesUnsafePointer n then [CapabilityUnsafePointer] else [])"
  by (simp add: NodeCapabilities_def split: option.split)

lemma NodeCapabilities_shape:
  "\<exists>cs. map nc_Capability (NodeCapabilities n) = cs @ (if cn_UsesUnsafePointer n then [CapabilityUnsafePointer] else [])
     \<and> distinct cs \<and> set cs \<subseteq> set AllCapabilities - {CapabilityUnsafePointer}"
proof (cases "SinkCapability (ClassificationPackage n) (cn_Receiver n) (cn_Symbol n)")
  case None
  then show ?thesis unfolding NodeCapabilities_labels by (intro exI [of _ "[]"]) simp
next
  case (Some cl)
  with SinkCapability_label [of "ClassificationPackage n" "cn_Receiver n" "cn_Symbol n"]
  show ?thesis unfolding NodeCapabilities_labels by (intro exI [of _ "[cl_Capability cl]"]) (simp add: identityLabel_def)
qed

lemma unsafe_label: "CapabilityUnsafePointer \<in> set AllCapabilities"
  by code_simp

lemma node_labels: "nc \<in> set (NodeCapabilities n) \<Longrightarrow> nc_Capability nc \<in> set AllCapabilities"
proof -
  assume "nc \<in> set (NodeCapabilities n)"
  then have "nc_Capability nc \<in> set (map nc_Capability (NodeCapabilities n))" by simp
  with NodeCapabilities_shape [of n] unsafe_label show ?thesis by (auto split: if_splits simp del: set_map)
qed

text \<open>
  Whatever a node witnesses is a label of the taxonomy, and each once; use of an unsafe pointer is
  witnessed exactly by the fact recorded on its body.
\<close>

theorem node_witnesses_labels:
  "nc_Capability ` set (NodeCapabilities n) \<subseteq> set AllCapabilities \<and> distinct (map nc_Capability (NodeCapabilities n))
   \<and> (CapabilityUnsafePointer \<in> nc_Capability ` set (NodeCapabilities n) \<longleftrightarrow> cn_UsesUnsafePointer n)"
proof -
  obtain cs where cs: "map nc_Capability (NodeCapabilities n) = cs @ (if cn_UsesUnsafePointer n then [CapabilityUnsafePointer] else [])"
    "distinct cs" "set cs \<subseteq> set AllCapabilities - {CapabilityUnsafePointer}"
    using NodeCapabilities_shape [of n] by blast
  then show ?thesis unfolding set_map [symmetric] cs(1) using unsafe_label by auto
qed

end
