(* ===== verification/Keep_Best.thy ===== *)
theory Keep_Best
  imports Sorting_Go
begin

text \<open>
  The loop that keeps one element for each key, the best seen so far: Go's
  \<open>if cur, ok := best[k]; !ok || better(x, cur) { best[k] = x }\<close>.  The map is the list of its elements.
\<close>

fun offerBy :: "('a \<Rightarrow> 'k) \<Rightarrow> ('a \<Rightarrow> 'a \<Rightarrow> bool) \<Rightarrow> 'a \<Rightarrow> 'a list \<Rightarrow> 'a list" where
  "offerBy key better x [] = [x]"
| "offerBy key better x (cur # kept) =
     (if key cur = key x then (if better x cur then x else cur) # kept else cur # offerBy key better x kept)"

lemma offerBy_set: "set (offerBy key better x xs) \<subseteq> insert x (set xs)"
  by (induction xs) auto

lemma fold_offerBy_set: "set (fold (offerBy key better) ys xs) \<subseteq> set xs \<union> set ys"
proof (induction ys arbitrary: xs)
  case (Cons y ys)
  from Cons.IH [of "offerBy key better y xs"] offerBy_set [of key better y xs] show ?case by auto
qed simp

lemma offerBy_keys: "key ` set (offerBy key better x xs) = insert (key x) (key ` set xs)"
  by (induction xs) auto

lemma offerBy_distinct: "distinct (map key xs) \<Longrightarrow> distinct (map key (offerBy key better x xs))"
proof (induction xs)
  case (Cons y ys)
  then show ?case using offerBy_keys [of key better x ys] by (auto simp flip: set_map)
qed simp

locale best_by_key =
  fixes key :: "'a \<Rightarrow> 'k" and better :: "'a \<Rightarrow> 'a \<Rightarrow> bool"
  assumes order: "swo better"
begin

text \<open>The elements kept of those seen: one for each key, and none seen of its key is better.\<close>

definition kept :: "'a set \<Rightarrow> 'a list \<Rightarrow> bool" where
  "kept seen xs \<longleftrightarrow> distinct (map key xs) \<and> set xs \<subseteq> seen \<and> key ` set xs = key ` seen
     \<and> (\<forall>y \<in> seen. \<forall>x \<in> set xs. key y = key x \<longrightarrow> \<not> better y x)"

lemma offer_beats:
  "y \<in> set (offerBy key better x xs) \<Longrightarrow> distinct (map key xs)
   \<Longrightarrow> (key y = key x \<longrightarrow> \<not> better x y)
     \<and> (y \<in> set xs \<or> (y = x \<and> (\<forall>z \<in> set xs. key z = key x \<longrightarrow> better x z)))"
proof (induction xs)
  case Nil
  then show ?case using swo_irrefl [OF order] by auto
next
  case (Cons z xs)
  show ?case
  proof (cases "key z = key x")
    case True
    then have "\<forall>k \<in> set xs. key k \<noteq> key x" using Cons.prems(2) by (force simp: image_iff)
    with True Cons.prems show ?thesis using swo_irrefl [OF order] by (auto split: if_splits)
  next
    case False
    with Cons show ?thesis by auto
  qed
qed

lemma offer_kept:
  assumes "kept seen xs"
  shows "kept (insert x seen) (offerBy key better x xs)"
proof -
  have d: "distinct (map key xs)" and s: "set xs \<subseteq> seen" and c: "key ` set xs = key ` seen"
    and b: "\<And>z y. z \<in> seen \<Longrightarrow> y \<in> set xs \<Longrightarrow> key z = key y \<Longrightarrow> \<not> better z y"
    using assms by (auto simp: kept_def)
  have "\<not> better z y" if z: "z \<in> insert x seen" and y: "y \<in> set (offerBy key better x xs)" "key z = key y" for z y
  proof (cases "z = x")
    case True
    with offer_beats [OF y(1) d] y(2) show ?thesis by auto
  next
    case False
    with z have zs: "z \<in> seen" by simp
    show ?thesis
    proof (cases "y \<in> set xs")
      case True
      with b zs y(2) show ?thesis by blast
    next
      case False
      with offer_beats [OF y(1) d] have yx: "y = x" "\<forall>k \<in> set xs. key k = key x \<longrightarrow> better x k" by auto
      from zs c obtain k where k: "k \<in> set xs" "key k = key z" by (metis imageE imageI)
      with yx y(2) have "better x k" by auto
      moreover have "\<not> better z k" using b [OF zs k(1)] k(2) by simp
      ultimately show ?thesis using yx swo_trans [OF order] by blast
    qed
  qed
  moreover have "set (offerBy key better x xs) \<subseteq> insert x seen" using offerBy_set [of key better x xs] s by blast
  ultimately show ?thesis unfolding kept_def using offerBy_distinct [OF d] offerBy_keys [of key better x xs] c by auto
qed

lemma fold_kept: "kept seen xs \<Longrightarrow> kept (seen \<union> set ys) (fold (offerBy key better) ys xs)"
proof (induction ys arbitrary: seen xs)
  case (Cons y ys)
  from Cons.IH [OF offer_kept [OF Cons.prems]] show ?case by simp
qed simp

lemma best_kept: "kept (set ys) (fold (offerBy key better) ys [])"
  using fold_kept [of "{}" "[]" ys] by (simp add: kept_def)

lemma kept_keys: "kept seen xs \<Longrightarrow> key ` set xs = key ` seen"
  by (simp add: kept_def)

lemma kept_distinct: "kept seen xs \<Longrightarrow> distinct (map key xs)"
  by (simp add: kept_def)

lemma kept_seen: "kept seen xs \<Longrightarrow> x \<in> set xs \<Longrightarrow> x \<in> seen"
  by (auto simp: kept_def)

lemma kept_best: "kept seen xs \<Longrightarrow> x \<in> set xs \<Longrightarrow> y \<in> seen \<Longrightarrow> key y = key x \<Longrightarrow> \<not> better y x"
  by (simp add: kept_def)

end

end
