(* ===== verification/Capability_Search.thy ===== *)
theory Capability_Search
  imports Capability_Sinks Order_Keys Keep_Best
begin

text \<open>
  The search behind a capability report (\<open>internal/capability/domain/analysis.go\<close>): a Dijkstra
  variant that maximises the weakest edge on the way to every reachable node, and the best witness it
  keeps for each capability.  A Go map keyed by node ID is the list of its nodes; the heap is the list
  of its items, of which \<open>heap.Pop\<close> takes a least one.
\<close>

section \<open>Confidence and nodes\<close>

definition rankInf :: nat where "rankInf = 2 ^ 30"

definition confRank :: "string \<Rightarrow> nat" where
  "confRank c =
     (if c = ConfidenceDirect then 4 else if c = ConfidenceVTA then 3
      else if c = ConfidenceFramework then 2 else if c = ConfidenceCHAOverapprox then 1 else 0)"

definition confidenceForRank :: "nat \<Rightarrow> string" where
  "confidenceForRank rank =
     (if 4 \<le> rank then ConfidenceDirect else if rank = 3 then ConfidenceVTA
      else if rank = 2 then ConfidenceFramework else if rank = 1 then ConfidenceCHAOverapprox
      else ConfidenceUnknown_edge)"

text \<open>A map filled in order keeps the last node of an ID.\<close>

fun nodesByID :: "CallNode list \<Rightarrow> CallNode list" where
  "nodesByID [] = []"
| "nodesByID (n # ns) = (if cn_ID n \<in> cn_ID ` set ns then nodesByID ns else n # nodesByID ns)"

definition scopedNodes :: "CallNode list \<Rightarrow> RootScope \<Rightarrow> CallNode list" where
  "scopedNodes ns scope =
     (if scope = RootScopeProduction then filter (\<lambda>n. \<not> cn_IsTest n) (nodesByID ns) else nodesByID ns)"

definition nodeAt :: "CallNode list \<Rightarrow> string \<Rightarrow> CallNode option" where
  "nodeAt nodes i = find (\<lambda>n. cn_ID n = i) nodes"

definition bucketLess :: "CallEdge \<Rightarrow> CallEdge \<Rightarrow> bool" where
  "bucketLess a b =
     (if ce_ToID a \<noteq> ce_ToID b then ce_ToID a < ce_ToID b
      else confRank (ce_Confidence b) < confRank (ce_Confidence a))"

definition buildAdjacency :: "CallEdge list \<Rightarrow> string \<Rightarrow> CallEdge list" where
  "buildAdjacency edges from = stable_sort bucketLess (filter (\<lambda>e. ce_FromID e = from) edges)"

section \<open>The widest paths\<close>

record widestItem =
  wi_ID :: string
  wi_MinRank :: nat
  wi_Depth :: nat
  wi_Pred :: "CallEdge option"

definition predFrom :: "widestItem \<Rightarrow> string" where
  "predFrom it = (case wi_Pred it of None \<Rightarrow> [] | Some e \<Rightarrow> ce_FromID e)"

definition widestLess :: "widestItem \<Rightarrow> widestItem \<Rightarrow> bool" where
  "widestLess a b =
     (if wi_MinRank a \<noteq> wi_MinRank b then wi_MinRank b < wi_MinRank a
      else if wi_Depth a \<noteq> wi_Depth b then wi_Depth a < wi_Depth b
      else if wi_ID a \<noteq> wi_ID b then wi_ID a < wi_ID b
      else predFrom a < predFrom b)"

definition popWidest :: "widestItem list \<Rightarrow> widestItem" where
  "popWidest q = pick_best widestLess (hd q) (tl q)"

definition relaxed :: "CallNode list \<Rightarrow> (string \<times> nat) list \<Rightarrow> widestItem \<Rightarrow> CallEdge list \<Rightarrow> widestItem list" where
  "relaxed nodes dist it es =
     map (\<lambda>e. \<lparr>wi_ID = ce_ToID e, wi_MinRank = min (wi_MinRank it) (confRank (ce_Confidence e)),
            wi_Depth = wi_Depth it + 1, wi_Pred = Some e\<rparr>)
       (filter (\<lambda>e. ce_ToID e \<notin> fst ` set dist \<and> ce_ToID e \<in> cn_ID ` set nodes) es)"

lemma popWidest_in: "q \<noteq> [] \<Longrightarrow> popWidest q \<in> set q"
  unfolding popWidest_def using pick_best_in [of widestLess "hd q" "tl q"] by simp

lemma relaxed_ids: "wi_ID ` set (relaxed nodes dist it es) \<subseteq> cn_ID ` set nodes"
  by (auto simp: relaxed_def)

lemma skip_card: "set rest \<subseteq> set q \<Longrightarrow> card ((cn_ID ` set nodes \<union> wi_ID ` set rest) - S) \<le> card ((cn_ID ` set nodes \<union> wi_ID ` set q) - S)"
  by (rule card_mono) auto

lemma settle_card:
  assumes "set rest \<subseteq> set q" "wi_ID ` set fresh \<subseteq> cn_ID ` set nodes" "it \<in> set q" "wi_ID it \<notin> S"
  shows "card ((cn_ID ` set nodes \<union> wi_ID ` set (rest @ fresh)) - insert (wi_ID it) S)
    < card ((cn_ID ` set nodes \<union> wi_ID ` set q) - S)"
proof (rule psubset_card_mono)
  have "wi_ID ` set (rest @ fresh) \<subseteq> cn_ID ` set nodes \<union> wi_ID ` set q" using assms(1,2) by auto
  moreover have "wi_ID it \<in> wi_ID ` set q" using assms(3) by simp
  ultimately show "(cn_ID ` set nodes \<union> wi_ID ` set (rest @ fresh)) - insert (wi_ID it) S
      \<subset> (cn_ID ` set nodes \<union> wi_ID ` set q) - S"
    using assms(4) by blast
qed simp

lemma rest_shorter: "q \<noteq> [] \<Longrightarrow> length (remove1 (popWidest q) q) < length q"
  using popWidest_in [of q] by (simp add: length_remove1 length_pos_if_in_set)

text \<open>
  A node is settled when it has a rank; the ranks and the predecessor edges are listed latest first.
\<close>

function widestLoop :: "CallNode list \<Rightarrow> (string \<Rightarrow> CallEdge list) \<Rightarrow> (string \<times> nat) list \<Rightarrow> (string \<times> CallEdge) list
    \<Rightarrow> widestItem list \<Rightarrow> (string \<times> nat) list \<times> (string \<times> CallEdge) list" where
  "widestLoop nodes adj dist pred q =
     (if q = [] then (dist, pred)
      else let it = popWidest q; rest = remove1 it q in
        if wi_ID it \<in> fst ` set dist then widestLoop nodes adj dist pred rest
        else let dist' = (wi_ID it, wi_MinRank it) # dist;
               pred' = (case wi_Pred it of None \<Rightarrow> pred | Some e \<Rightarrow> (wi_ID it, e) # pred) in
          widestLoop nodes adj dist' pred' (rest @ relaxed nodes dist' it (adj (wi_ID it))))"
  by pat_completeness auto

termination
proof (relation "measures [\<lambda>(nodes, adj, dist, pred, q). card ((cn_ID ` set nodes \<union> wi_ID ` set q) - fst ` set dist),
    \<lambda>(nodes, adj, dist, pred, q). length q]", goal_cases)
  case 1
  then show ?case by simp
next
  case (2 nodes adj dist pred q it rest)
  then show ?case
    using rest_shorter [of q] skip_card [where rest = rest and q = q and nodes = nodes and S = "fst ` set dist"]
      set_remove1_subset [of it q]
    by (auto simp: less_le)
next
  case (3 nodes adj dist pred q it rest dist' pred')
  have "set rest \<subseteq> set q" "it \<in> set q"
    using 3 set_remove1_subset [of it q] popWidest_in [of q] by simp_all
  from settle_card [OF this(1) relaxed_ids this(2), of "fst ` set dist"] 3(4)
  show ?case unfolding 3(5) by simp
qed

declare widestLoop.simps [simp del]

definition widestPaths :: "string list \<Rightarrow> CallNode list \<Rightarrow> (string \<Rightarrow> CallEdge list)
    \<Rightarrow> (string \<times> nat) list \<times> (string \<times> CallEdge) list" where
  "widestPaths roots nodes adj = widestLoop nodes adj [] []
     (map (\<lambda>r. \<lparr>wi_ID = r, wi_MinRank = rankInf, wi_Depth = 0, wi_Pred = None\<rparr>)
       (filter (\<lambda>r. r \<in> cn_ID ` set nodes) roots))"

text \<open>No path has more edges than there are predecessors.\<close>

fun backFrom :: "nat \<Rightarrow> (string \<times> CallEdge) list \<Rightarrow> string \<Rightarrow> string list" where
  "backFrom 0 pred cur = [cur]"
| "backFrom (Suc k) pred cur =
     (case map_of pred cur of None \<Rightarrow> [cur] | Some e \<Rightarrow> cur # backFrom k pred (ce_FromID e))"

definition reconstructPath :: "string \<Rightarrow> (string \<times> CallEdge) list \<Rightarrow> string list" where
  "reconstructPath sink pred = rev (backFrom (length pred) pred sink)"

section \<open>The best witness of each capability\<close>

record CapabilityFinding =
  cf_Capability :: string
  cf_Path :: "string list"
  cf_SinkPackage :: string
  cf_SinkSymbol :: string
  cf_WeakestConfidence :: string
  cf_Basis :: string
  cf_Reach :: string
  cf_CallerKind :: string
  cf_ClassifiedBy :: string
  cf_PlumbingOnly :: bool

definition finding_Suppressed :: "CapabilityFinding \<Rightarrow> bool" where
  "finding_Suppressed f \<longleftrightarrow> Tier (cf_Capability f) = TierSuppressed"

definition CapabilityFindingLess :: "CapabilityFinding \<Rightarrow> CapabilityFinding \<Rightarrow> bool" where
  "CapabilityFindingLess a b =
     (if cf_Capability a \<noteq> cf_Capability b then capabilityLess (cf_Capability a) (cf_Capability b)
      else if cf_SinkPackage a \<noteq> cf_SinkPackage b then cf_SinkPackage a < cf_SinkPackage b
      else if cf_SinkSymbol a \<noteq> cf_SinkSymbol b then cf_SinkSymbol a < cf_SinkSymbol b
      else if cf_WeakestConfidence a \<noteq> cf_WeakestConfidence b then cf_WeakestConfidence a < cf_WeakestConfidence b
      else if length (cf_Path a) \<noteq> length (cf_Path b) then length (cf_Path a) < length (cf_Path b)
      else if cf_Path a \<noteq> cf_Path b then firstDiff (<) (cf_Path a) (cf_Path b)
      else if cf_Reach a \<noteq> cf_Reach b then cf_Reach a < cf_Reach b
      else if cf_CallerKind a \<noteq> cf_CallerKind b then cf_CallerKind a < cf_CallerKind b
      else if cf_ClassifiedBy a \<noteq> cf_ClassifiedBy b then cf_ClassifiedBy a < cf_ClassifiedBy b
      else if cf_PlumbingOnly a \<noteq> cf_PlumbingOnly b then \<not> cf_PlumbingOnly a
      else cf_Basis a < cf_Basis b)"

definition sortFindings :: "CapabilityFinding list \<Rightarrow> CapabilityFinding list" where
  "sortFindings fs = stable_sort CapabilityFindingLess fs"

definition sinkID :: "CapabilityFinding \<Rightarrow> string" where
  "sinkID f = (if cf_Path f = [] then [] else last (cf_Path f))"

definition strongerFinding :: "CapabilityFinding \<Rightarrow> CapabilityFinding \<Rightarrow> bool" where
  "strongerFinding cand cur =
     (if witnessRank (cf_Reach cand) (cf_SinkSymbol cand) \<noteq> witnessRank (cf_Reach cur) (cf_SinkSymbol cur)
      then witnessRank (cf_Reach cur) (cf_SinkSymbol cur) < witnessRank (cf_Reach cand) (cf_SinkSymbol cand)
      else if confRank (cf_WeakestConfidence cand) \<noteq> confRank (cf_WeakestConfidence cur)
      then confRank (cf_WeakestConfidence cur) < confRank (cf_WeakestConfidence cand)
      else if length (cf_Path cand) \<noteq> length (cf_Path cur) then length (cf_Path cand) < length (cf_Path cur)
      else sinkID cand < sinkID cur)"

text \<open>The last node of the path that the module owns; the path is given from its end.\<close>

fun lastOwnedKind :: "CallNode list \<Rightarrow> string list \<Rightarrow> string" where
  "lastOwnedKind nodes [] = CallerInternal"
| "lastOwnedKind nodes (i # is) = (case nodeAt nodes i of
       Some n \<Rightarrow> if \<not> cn_IsExternal n then NodeCallerKind n else lastOwnedKind nodes is
     | None \<Rightarrow> lastOwnedKind nodes is)"

definition pathCallerKind :: "string list \<Rightarrow> CallNode list \<Rightarrow> string" where
  "pathCallerKind path nodes = lastOwnedKind nodes (rev path)"

definition findingOf :: "CallNode list \<Rightarrow> (string \<times> CallEdge) list \<Rightarrow> CallNode \<Rightarrow> nat \<Rightarrow> NodeCapability \<Rightarrow> CapabilityFinding" where
  "findingOf nodes pred n rank nc = (let path = reconstructPath (cn_ID n) pred in
     \<lparr>cf_Capability = nc_Capability nc, cf_Path = path, cf_SinkPackage = ClassificationPackage n,
      cf_SinkSymbol = cn_Symbol n, cf_WeakestConfidence = confidenceForRank rank, cf_Basis = nc_Basis nc,
      cf_Reach = nc_Reach nc, cf_CallerKind = pathCallerKind path nodes, cf_ClassifiedBy = nc_ClassifiedBy nc,
      cf_PlumbingOnly = False\<rparr>)"

text \<open>The findings kept so far are one for each capability.\<close>

definition offerFinding :: "CapabilityFinding \<Rightarrow> CapabilityFinding list \<Rightarrow> CapabilityFinding list" where
  "offerFinding = offerBy cf_Capability strongerFinding"

text \<open>The witnesses that the settled nodes give, in the order the ranks are visited.\<close>

definition witnesses :: "CallNode list \<Rightarrow> (string \<times> CallEdge) list \<Rightarrow> (string \<times> nat) list \<Rightarrow> CapabilityFinding list" where
  "witnesses nodes pred dist = concat (map (\<lambda>(i, rank). (case nodeAt nodes i of
       None \<Rightarrow> [] | Some n \<Rightarrow> map (findingOf nodes pred n rank) (NodeCapabilities n))) dist)"

definition collectFindings :: "(string \<times> nat) list \<Rightarrow> (string \<times> CallEdge) list \<Rightarrow> CallNode list
    \<Rightarrow> CapabilityFinding list \<times> CapabilityFinding list" where
  "collectFindings dist pred nodes =
     (let ws = witnesses nodes pred dist;
        best = fold offerFinding (filter (\<lambda>f. cf_Basis f = BasisUse) ws) [];
        weak = fold offerFinding (filter (\<lambda>f. cf_Basis f \<noteq> BasisUse) ws) [];
        nonPlumbing = map cf_Capability (filter (\<lambda>f. cf_Basis f = BasisUse \<and> \<not> IsPlumbing (cf_Reach f) (cf_SinkSymbol f)) ws)
      in (sortFindings (map (\<lambda>f. f\<lparr>cf_PlumbingOnly := cf_Capability f \<notin> set nonPlumbing\<rparr>) best),
          sortFindings (filter (\<lambda>f. cf_Capability f \<notin> cf_Capability ` set best) weak)))"

lemma nodesByID_ids: "cn_ID ` set (nodesByID ns) = cn_ID ` set ns"
  by (induction ns) auto

lemma nodesByID_subset: "set (nodesByID ns) \<subseteq> set ns"
  by (induction ns) auto

lemma nodesByID_distinct: "distinct (map cn_ID (nodesByID ns))"
  by (induction ns) (auto simp: nodesByID_ids)

lemma scopedNodes_distinct: "distinct (map cn_ID (scopedNodes ns scope))"
  using nodesByID_distinct [of ns] by (auto simp: scopedNodes_def intro: distinct_map_filter)

lemma nodeAt_Some: "distinct (map cn_ID nodes) \<Longrightarrow> nodeAt nodes i = Some n \<longleftrightarrow> n \<in> set nodes \<and> cn_ID n = i"
  by (induction nodes) (auto simp: nodeAt_def image_iff)

end
