(* ===== verification/Capability_Paths.thy ===== *)
theory Capability_Paths
  imports Capability_Search
begin

text \<open>
  The search of a capability report computes widest paths: a node is settled exactly when a path
  leads to it, with the rank of the best of its paths, and the predecessors spell a path of that rank.
\<close>

section \<open>Paths and their ranks\<close>

text \<open>A path from a root inside the graph, with the weakest rank of its edges.\<close>

inductive route :: "string set \<Rightarrow> string set \<Rightarrow> CallEdge set \<Rightarrow> string list \<Rightarrow> nat \<Rightarrow> bool"
  for ids roots E where
  root: "r \<in> roots \<Longrightarrow> r \<in> ids \<Longrightarrow> route ids roots E [r] rankInf"
| step: "route ids roots E p w \<Longrightarrow> e \<in> E \<Longrightarrow> last p = ce_FromID e \<Longrightarrow> ce_ToID e \<in> ids
    \<Longrightarrow> route ids roots E (p @ [ce_ToID e]) (min w (confRank (ce_Confidence e)))"

lemma route_nonempty: "route ids roots E p w \<Longrightarrow> p \<noteq> []"
  by (induction rule: route.induct) auto

lemma route_ids: "route ids roots E p w \<Longrightarrow> set p \<subseteq> ids"
  by (induction rule: route.induct) auto

lemma route_hd: "route ids roots E p w \<Longrightarrow> hd p \<in> roots"
  by (induction rule: route.induct) (auto dest: route_nonempty)

lemma set_buildAdjacency: "set (buildAdjacency edges u) = {e \<in> set edges. ce_FromID e = u}"
  by (simp add: buildAdjacency_def)

lemma swo_widestLess: "swo widestLess"
  unfolding widestLess_def [abs_def] by (intro swo_intros)

lemma popWidest_max:
  assumes "x \<in> set q"
  shows "wi_MinRank x \<le> wi_MinRank (popWidest q)"
proof -
  from assms have "x \<in> set (hd q # tl q)" by (cases q) auto
  from pick_best_least [OF swo_widestLess this] show ?thesis
    by (auto simp: popWidest_def widestLess_def split: if_splits)
qed

section \<open>The invariant of the search\<close>

definition queued :: "string set \<Rightarrow> string set \<Rightarrow> CallEdge set \<Rightarrow> (string \<times> nat) list \<Rightarrow> widestItem \<Rightarrow> bool" where
  "queued ids roots E dist it \<longleftrightarrow> wi_ID it \<in> ids \<and> (case wi_Pred it of
       None \<Rightarrow> wi_ID it \<in> roots \<and> wi_MinRank it = rankInf
     | Some e \<Rightarrow> e \<in> E \<and> ce_ToID e = wi_ID it
         \<and> (\<exists>u. (ce_FromID e, u) \<in> set dist \<and> wi_MinRank it = min u (confRank (ce_Confidence e))))"

text \<open>A node has at least this rank, or will get it.\<close>

definition owed :: "(string \<times> nat) list \<Rightarrow> widestItem list \<Rightarrow> string \<Rightarrow> nat \<Rightarrow> bool" where
  "owed dist q i w \<longleftrightarrow> (if i \<in> fst ` set dist then \<exists>v. (i, v) \<in> set dist \<and> w \<le> v
     else \<exists>it \<in> set q. wi_ID it = i \<and> w \<le> wi_MinRank it)"

definition onTrail :: "string set \<Rightarrow> string set \<Rightarrow> CallEdge set \<Rightarrow> (string \<times> nat) list \<Rightarrow> (string \<times> CallEdge) list \<Rightarrow> bool" where
  "onTrail ids roots E dist pred \<longleftrightarrow>
     (\<forall>(i, e) \<in> set pred. i \<in> fst ` set dist \<and> ce_FromID e \<in> fst ` set dist)
     \<and> (\<forall>(i, v) \<in> set dist. \<forall>k \<ge> length pred. route ids roots E (rev (backFrom k pred i)) v)"

definition searching :: "string set \<Rightarrow> string set \<Rightarrow> CallEdge set \<Rightarrow> (string \<times> nat) list \<Rightarrow> (string \<times> CallEdge) list
    \<Rightarrow> widestItem list \<Rightarrow> bool" where
  "searching ids roots E dist pred q \<longleftrightarrow> distinct (map fst dist)
     \<and> (\<forall>it \<in> set q. queued ids roots E dist it)
     \<and> (\<forall>r \<in> roots \<inter> ids. owed dist q r rankInf)
     \<and> (\<forall>e \<in> E. \<forall>u. (ce_FromID e, u) \<in> set dist \<and> ce_ToID e \<in> ids \<longrightarrow> owed dist q (ce_ToID e) (min u (confRank (ce_Confidence e))))
     \<and> (\<forall>(i, v) \<in> set dist. \<forall>it \<in> set q. wi_MinRank it \<le> v)
     \<and> onTrail ids roots E dist pred"

lemma kept: "x \<in> set q \<Longrightarrow> wi_ID x \<noteq> wi_ID it \<Longrightarrow> x \<in> set (remove1 it q)"
  by (subst in_set_remove1) auto

lemma owed_skip:
  assumes "owed dist q i w" "wi_ID it \<in> fst ` set dist"
  shows "owed dist (remove1 it q) i w"
proof (cases "i \<in> fst ` set dist")
  case True
  with assms(1) show ?thesis by (simp add: owed_def)
next
  case False
  with assms(1) obtain x where x: "x \<in> set q" "wi_ID x = i" "w \<le> wi_MinRank x" by (auto simp: owed_def)
  with False assms(2) have "wi_ID x \<noteq> wi_ID it" by metis
  from kept [OF x(1) this] x False show ?thesis by (auto simp: owed_def)
qed

lemma owed_settle:
  assumes "owed dist q i w" "it \<in> set q" "wi_ID it \<notin> fst ` set dist" "\<forall>x \<in> set q. wi_MinRank x \<le> wi_MinRank it"
  shows "owed ((wi_ID it, wi_MinRank it) # dist) (remove1 it q @ fresh) i w"
proof (cases "i = wi_ID it")
  case True
  with assms show ?thesis by (auto simp: owed_def intro: le_trans)
next
  case False
  with assms(1) kept [of _ q it] show ?thesis by (auto simp: owed_def split: if_splits)
qed

lemma queued_settle: "queued ids roots E dist it \<Longrightarrow> queued ids roots E (d # dist) it"
  by (auto simp: queued_def split: option.splits)

lemma relaxed_queued:
  assumes "e \<in> set (buildAdjacency edges (wi_ID it))"
    "x \<in> set (relaxed nodes ((wi_ID it, wi_MinRank it) # dist) it (buildAdjacency edges (wi_ID it)))"
  shows "queued (cn_ID ` set nodes) roots (set edges) ((wi_ID it, wi_MinRank it) # dist) x" "wi_MinRank x \<le> wi_MinRank it"
  using assms by (auto simp: relaxed_def queued_def set_buildAdjacency)

lemma backFrom_old:
  assumes "\<forall>(i, e) \<in> set pred. ce_FromID e \<in> D" "i0 \<notin> D" "cur \<in> D"
  shows "backFrom k ((i0, e0) # pred) cur = backFrom k pred cur"
  using assms(3)
proof (induction k arbitrary: cur)
  case (Suc k)
  from Suc.prems assms(2) have "cur \<noteq> i0" by auto
  moreover have "ce_FromID e \<in> D" if "map_of pred cur = Some e" for e
    using assms(1) map_of_SomeD [OF that] by auto
  ultimately show ?case using Suc.IH by (auto split: option.splits)
qed simp

lemma trail_settle:
  assumes tr: "onTrail ids roots E dist pred" and it: "queued ids roots E dist it" "wi_ID it \<notin> fst ` set dist"
  shows "onTrail ids roots E ((wi_ID it, wi_MinRank it) # dist)
    (case wi_Pred it of None \<Rightarrow> pred | Some e \<Rightarrow> (wi_ID it, e) # pred)"
proof (cases "wi_Pred it")
  case None
  have "wi_ID it \<notin> fst ` set pred" using tr it(2) by (auto simp: onTrail_def)
  then have "map_of pred (wi_ID it) = None" by (simp add: map_of_eq_None_iff)
  then have "backFrom k pred (wi_ID it) = [wi_ID it]" for k by (cases k) auto
  with None it(1) tr show ?thesis by (auto simp: onTrail_def queued_def intro!: route.root)
next
  case (Some e)
  let ?pred = "(wi_ID it, e) # pred"
  from it(1) Some obtain u where e: "e \<in> E" "ce_ToID e = wi_ID it" "wi_ID it \<in> ids" "(ce_FromID e, u) \<in> set dist"
    "wi_MinRank it = min u (confRank (ce_Confidence e))" by (auto simp: queued_def)
  then have from_settled: "ce_FromID e \<in> fst ` set dist" by force
  have old: "backFrom k ?pred i = backFrom k pred i" if "i \<in> fst ` set dist" for i k
    using backFrom_old [OF _ it(2) that] tr by (fastforce simp: onTrail_def)
  have "route ids roots E (rev (backFrom k ?pred (wi_ID it))) (wi_MinRank it)" if k: "k \<ge> length ?pred" for k
  proof -
    from k obtain k' where k': "k = Suc k'" "k' \<ge> length pred" by (cases k) auto
    have "route ids roots E (rev (backFrom k' pred (ce_FromID e))) u"
      using tr e(4) k'(2) unfolding onTrail_def by blast
    moreover have "last (rev (backFrom k' pred (ce_FromID e))) = ce_FromID e"
      by (cases k') (auto split: option.splits)
    ultimately have "route ids roots E (rev (backFrom k' pred (ce_FromID e)) @ [ce_ToID e]) (min u (confRank (ce_Confidence e)))"
      using e by (intro route.step) auto
    then show ?thesis using e old [OF from_settled] k' by simp
  qed
  moreover have "route ids roots E (rev (backFrom k ?pred i)) v" if "(i, v) \<in> set dist" "k \<ge> length ?pred" for i v k
  proof -
    have "i \<in> fst ` set dist" using that(1) by force
    from old [OF this] show ?thesis using tr that unfolding onTrail_def by auto
  qed
  ultimately show ?thesis using Some tr from_settled unfolding onTrail_def by auto
qed

lemma searching_skip:
  assumes "searching ids roots E dist pred q" "wi_ID it \<in> fst ` set dist"
  shows "searching ids roots E dist pred (remove1 it q)"
  using assms(1) owed_skip [OF _ assms(2)] set_remove1_subset [of it q] unfolding searching_def
  by (elim conjE, intro conjI) (assumption | blast)+

lemma searching_settle:
  fixes nodes edges
  defines "N \<equiv> cn_ID ` set nodes" and "E \<equiv> set edges"
  assumes inv: "searching N roots E dist pred q" and ne: "q \<noteq> []"
    and it: "it = popWidest q" "wi_ID it \<notin> fst ` set dist" and d: "dist' = (wi_ID it, wi_MinRank it) # dist"
    and p: "pred' = (case wi_Pred it of None \<Rightarrow> pred | Some e \<Rightarrow> (wi_ID it, e) # pred)"
  shows "searching N roots E dist' pred' (remove1 it q @ relaxed nodes dist' it (buildAdjacency edges (wi_ID it)))"
proof -
  let ?fresh = "relaxed nodes dist' it (buildAdjacency edges (wi_ID it))"
  have itq: "it \<in> set q" using popWidest_in [OF ne] it(1) by simp
  have mx: "\<forall>x \<in> set q. wi_MinRank x \<le> wi_MinRank it" using popWidest_max it(1) by simp
  note owes = owed_settle [OF _ itq it(2) mx, of _ _ ?fresh, folded d]
  have fresh: "queued N roots E dist' x" "wi_MinRank x \<le> wi_MinRank it" if "x \<in> set ?fresh" for x
    using that by (auto simp: relaxed_def queued_def set_buildAdjacency N_def E_def d)
  show ?thesis unfolding searching_def
  proof (intro conjI ballI allI impI)
    show "distinct (map fst dist')" using inv it(2) by (auto simp: searching_def d)
    show "onTrail N roots E dist' pred'"
      unfolding d p using inv itq it(2) by (intro trail_settle) (auto simp: searching_def)
  next
    fix x assume "x \<in> set (remove1 it q @ ?fresh)"
    then show "queued N roots E dist' x"
      using inv fresh(1) queued_settle set_remove1_subset [of it q] unfolding searching_def d by auto
  next
    fix r assume "r \<in> roots \<inter> N"
    then show "owed dist' (remove1 it q @ ?fresh) r rankInf"
      using inv by (intro owes) (auto simp: searching_def)
  next
    fix e u assume e: "e \<in> E" "(ce_FromID e, u) \<in> set dist' \<and> ce_ToID e \<in> N"
    show "owed dist' (remove1 it q @ ?fresh) (ce_ToID e) (min u (confRank (ce_Confidence e)))"
    proof (cases "(ce_FromID e, u) \<in> set dist")
      case True
      with inv e show ?thesis by (intro owes) (auto simp: searching_def)
    next
      case False
      with e(2) have u: "ce_FromID e = wi_ID it" "u = wi_MinRank it" by (auto simp: d)
      show ?thesis
      proof (cases "ce_ToID e \<in> fst ` set dist'")
        case True
        then obtain v where v: "(ce_ToID e, v) \<in> set dist'" by auto
        then have "u \<le> v" using inv itq u by (auto simp: searching_def d)
        with True v show ?thesis by (auto simp: owed_def min_le_iff_disj)
      next
        case False
        with e u have "\<exists>x \<in> set ?fresh. wi_ID x = ce_ToID e \<and> wi_MinRank x = min u (confRank (ce_Confidence e))"
          by (auto simp: relaxed_def set_buildAdjacency N_def E_def)
        with False show ?thesis by (auto simp: owed_def)
      qed
    qed
  next
    fix iv assume iv: "iv \<in> set dist'"
    obtain i v where iv_eq: "iv = (i, v)" by (cases iv)
    have "wi_MinRank it \<le> v" using iv inv itq unfolding iv_eq d searching_def by auto
    moreover have "wi_MinRank x \<le> wi_MinRank it" if "x \<in> set (remove1 it q @ ?fresh)" for x
      using that fresh(2) mx set_remove1_subset [of it q] by auto
    ultimately show "case iv of (i, v) \<Rightarrow> \<forall>x \<in> set (remove1 it q @ ?fresh). wi_MinRank x \<le> v"
      unfolding iv_eq by (auto intro: le_trans)
  qed
qed

lemma searching_loop:
  "searching (cn_ID ` set nodes) roots (set edges) dist pred q \<Longrightarrow> adj = buildAdjacency edges
   \<Longrightarrow> widestLoop nodes adj dist pred q = (d, p) \<Longrightarrow> searching (cn_ID ` set nodes) roots (set edges) d p []"
proof (induction nodes adj dist pred q rule: widestLoop.induct)
  case (1 nodes adj dist pred q)
  note inv = "1.prems"(1) and adj = "1.prems"(2) and run = "1.prems"(3)
  show ?case
  proof (cases "q = []")
    case True
    with inv run show ?thesis by (simp add: widestLoop.simps)
  next
    case ne: False
    define it where "it = popWidest q"
    show ?thesis
    proof (cases "wi_ID it \<in> fst ` set dist")
      case True
      from ne True have "widestLoop nodes adj dist pred q = widestLoop nodes adj dist pred (remove1 it q)"
        by (subst widestLoop.simps) (simp add: it_def Let_def)
      with run have "widestLoop nodes adj dist pred (remove1 it q) = (d, p)" by simp
      from "1.IH"(1) [OF ne it_def refl True searching_skip [OF inv True] adj this] show ?thesis .
    next
      case False
      define dist' pred' where "dist' = (wi_ID it, wi_MinRank it) # dist"
        and "pred' = (case wi_Pred it of None \<Rightarrow> pred | Some e \<Rightarrow> (wi_ID it, e) # pred)"
      have "widestLoop nodes adj dist pred q
          = widestLoop nodes adj dist' pred' (remove1 it q @ relaxed nodes dist' it (adj (wi_ID it)))"
        unfolding dist'_def pred'_def it_def
        using ne False [unfolded it_def] by (subst widestLoop.simps) (simp add: Let_def)
      with run have "widestLoop nodes adj dist' pred' (remove1 it q @ relaxed nodes dist' it (adj (wi_ID it))) = (d, p)" by simp
      from "1.IH"(2) [OF ne it_def refl False dist'_def pred'_def _ adj this]
        searching_settle [OF inv ne it_def False dist'_def pred'_def] adj
      show ?thesis by simp
    qed
  qed
qed

lemma widest_searched:
  assumes "widestPaths roots nodes (buildAdjacency edges) = (dist, pred)"
  shows "searching (cn_ID ` set nodes) (set roots) (set edges) dist pred []"
proof (rule searching_loop [OF _ refl assms [unfolded widestPaths_def]])
  show "searching (cn_ID ` set nodes) (set roots) (set edges) [] []
      (map (\<lambda>r. \<lparr>wi_ID = r, wi_MinRank = rankInf, wi_Depth = 0, wi_Pred = None\<rparr>) (filter (\<lambda>r. r \<in> cn_ID ` set nodes) roots))"
    by (auto simp: searching_def onTrail_def queued_def owed_def)
qed

section \<open>What the search finds\<close>

lemma backFrom_length: "length (backFrom k pred i) \<le> Suc k"
  by (induction k arbitrary: i) (auto split: option.splits)

text \<open>Every node on a path is settled with at least the rank of the path.\<close>

lemma searched_route:
  assumes "searching ids roots E dist pred []"
  shows "route ids roots E p w \<Longrightarrow> \<exists>v. (last p, v) \<in> set dist \<and> w \<le> v"
proof (induction rule: route.induct)
  case (root r)
  with assms have "owed dist [] r rankInf" by (auto simp: searching_def)
  then show ?case by (auto simp: owed_def split: if_splits)
next
  case (step p w e)
  then obtain u where u: "(ce_FromID e, u) \<in> set dist" "w \<le> u" by auto
  with step assms have "owed dist [] (ce_ToID e) (min u (confRank (ce_Confidence e)))" by (auto simp: searching_def)
  then obtain v where "(ce_ToID e, v) \<in> set dist" "min u (confRank (ce_Confidence e)) \<le> v"
    by (auto simp: owed_def split: if_splits)
  with u(2) show ?case by (intro exI [of _ v]) auto
qed

lemma last_reconstructPath: "last (reconstructPath i pred) = i"
  by (cases pred) (auto simp: reconstructPath_def split: option.splits)

text \<open>The rank of the best path to a node.\<close>

definition widestTo :: "string set \<Rightarrow> string set \<Rightarrow> CallEdge set \<Rightarrow> string \<Rightarrow> nat \<Rightarrow> bool" where
  "widestTo ids roots E i w \<longleftrightarrow> (\<exists>p. route ids roots E p w \<and> last p = i)
     \<and> (\<forall>p v. route ids roots E p v \<and> last p = i \<longrightarrow> v \<le> w)"

lemma widestTo_unique: "widestTo ids roots E i v \<Longrightarrow> widestTo ids roots E i w \<Longrightarrow> v = w"
  unfolding widestTo_def by (elim conjE exE) (rule le_antisym; simp)

lemma settled_once: "searching ids roots E dist pred [] \<Longrightarrow> distinct (map fst dist)"
  by (simp add: searching_def)

lemma settled_path:
  "searching ids roots E dist pred [] \<Longrightarrow> (i, w) \<in> set dist \<Longrightarrow> route ids roots E (reconstructPath i pred) w"
  by (auto simp: searching_def onTrail_def reconstructPath_def)

lemma settled_widest:
  assumes inv: "searching ids roots E dist pred []"
  shows "(i, w) \<in> set dist \<longleftrightarrow> widestTo ids roots E i w"
proof
  assume iw: "(i, w) \<in> set dist"
  have "v \<le> w" if "route ids roots E p v" "last p = i" for p v
    using searched_route [OF inv that(1)] that(2) iw settled_once [OF inv] by (auto dest: eq_key_imp_eq_value)
  with settled_path [OF inv iw] last_reconstructPath [of i pred]
  show "widestTo ids roots E i w" unfolding widestTo_def by blast
next
  assume w: "widestTo ids roots E i w"
  then obtain p where p: "route ids roots E p w" "last p = i"
    unfolding widestTo_def by blast
  from searched_route [OF inv p(1)] p(2) obtain v where v: "(i, v) \<in> set dist" "w \<le> v" by blast
  have "route ids roots E (reconstructPath i pred) v" by (rule settled_path [OF inv v(1)])
  with w last_reconstructPath [of i pred] have "v \<le> w" unfolding widestTo_def by blast
  with v show "(i, w) \<in> set dist" by simp
qed

end
