(* ===== verification/Capability_Findings.thy ===== *)
theory Capability_Findings
  imports Capability_Paths
begin

text \<open>
  The findings collected from a search: one for each capability some reached node witnesses, each
  with a widest path to a witness that no other one beats.
\<close>

lemma swo_strongerFinding: "swo strongerFinding"
  unfolding strongerFinding_def [abs_def] by (intro swo_intros)

interpretation witness: best_by_key cf_Capability strongerFinding
  by unfold_locales (rule swo_strongerFinding)

section \<open>The witnesses of a search\<close>

text \<open>A node the roots reach, with the rank of the best path to it.\<close>

definition reaches :: "CallNode list \<Rightarrow> string set \<Rightarrow> CallEdge set \<Rightarrow> CallNode \<Rightarrow> nat \<Rightarrow> bool" where
  "reaches nodes roots E n w \<longleftrightarrow> n \<in> set nodes \<and> widestTo (cn_ID ` set nodes) roots E (cn_ID n) w"

lemma set_witnesses:
  assumes "searching (cn_ID ` set nodes) roots E dist pred []" "distinct (map cn_ID nodes)"
  shows "f \<in> set (witnesses nodes pred dist)
    \<longleftrightarrow> (\<exists>n w nc. f = findingOf nodes pred n w nc \<and> reaches nodes roots E n w \<and> nc \<in> set (NodeCapabilities n))"
proof
  assume "f \<in> set (witnesses nodes pred dist)"
  then obtain i w where i: "(i, w) \<in> set dist"
    "f \<in> set (case nodeAt nodes i of None \<Rightarrow> [] | Some n \<Rightarrow> map (findingOf nodes pred n w) (NodeCapabilities n))"
    by (auto simp: witnesses_def)
  then obtain n nc where f: "(i, w) \<in> set dist" "nodeAt nodes i = Some n" "nc \<in> set (NodeCapabilities n)"
    "f = findingOf nodes pred n w nc"
    by (cases "nodeAt nodes i") auto
  from f(2) have "n \<in> set nodes" "cn_ID n = i" using nodeAt_Some [OF assms(2)] by simp_all
  with f(1) have "reaches nodes roots E n w" using settled_widest [OF assms(1)] by (simp add: reaches_def)
  with f show "\<exists>n w nc. f = findingOf nodes pred n w nc \<and> reaches nodes roots E n w \<and> nc \<in> set (NodeCapabilities n)" by blast
next
  assume "\<exists>n w nc. f = findingOf nodes pred n w nc \<and> reaches nodes roots E n w \<and> nc \<in> set (NodeCapabilities n)"
  then obtain n w nc where f: "f = findingOf nodes pred n w nc" "reaches nodes roots E n w" "nc \<in> set (NodeCapabilities n)"
    by blast
  have "(cn_ID n, w) \<in> set dist" "nodeAt nodes (cn_ID n) = Some n"
    using f(2) settled_widest [OF assms(1)] nodeAt_Some [OF assms(2)] by (simp_all add: reaches_def)
  with f show "f \<in> set (witnesses nodes pred dist)" by (force simp: witnesses_def)
qed

section \<open>What is reported\<close>

text \<open>A capability that a reached node witnesses as the module's own, and how it does.\<close>

definition uses :: "CallNode list \<Rightarrow> string set \<Rightarrow> CallEdge set \<Rightarrow> string \<Rightarrow> CallNode \<Rightarrow> nat \<Rightarrow> NodeCapability \<Rightarrow> bool" where
  "uses nodes roots E c n w nc \<longleftrightarrow> reaches nodes roots E n w \<and> nc \<in> set (NodeCapabilities n) \<and> nc_Capability nc = c
     \<and> nc_Basis nc = BasisUse"

text \<open>How good a witness is: how deliberate its reach, then how certain its path.\<close>

definition deliberate :: "CallNode \<Rightarrow> nat \<Rightarrow> NodeCapability \<Rightarrow> nat \<times> nat" where
  "deliberate n w nc = (witnessRank (nc_Reach nc) (cn_Symbol n), min 4 w)"

text \<open>What a finding says of the witness it was taken from.\<close>

definition describes :: "CapabilityFinding \<Rightarrow> CallNode \<Rightarrow> nat \<Rightarrow> NodeCapability \<Rightarrow> bool" where
  "describes f n w nc \<longleftrightarrow> cf_Capability f = nc_Capability nc \<and> cf_Basis f = nc_Basis nc \<and> cf_Reach f = nc_Reach nc
     \<and> cf_ClassifiedBy f = nc_ClassifiedBy nc \<and> cf_SinkPackage f = ClassificationPackage n
     \<and> cf_SinkSymbol f = cn_Symbol n \<and> cf_WeakestConfidence f = confidenceForRank w \<and> last (cf_Path f) = cn_ID n"

lemma confRank_rank: "confRank (confidenceForRank w) = min 4 w"
  by (auto simp: confRank_def confidenceForRank_def ConfidenceDirect_def ConfidenceVTA_def ConfidenceFramework_def
      ConfidenceCHAOverapprox_def ConfidenceUnknown_edge_def)

lemma findingOf_describes: "describes (findingOf nodes pred n w nc) n w nc"
  by (simp add: describes_def findingOf_def Let_def last_reconstructPath)

lemma findingOf_fields:
  "cf_Basis (findingOf nodes pred n w nc) = nc_Basis nc" "cf_Capability (findingOf nodes pred n w nc) = nc_Capability nc"
  "cf_Reach (findingOf nodes pred n w nc) = nc_Reach nc" "cf_SinkSymbol (findingOf nodes pred n w nc) = cn_Symbol n"
  by (simp_all add: findingOf_def Let_def)

lemma not_stronger:
  "describes f n w nc \<Longrightarrow> describes g m v mc \<Longrightarrow> \<not> strongerFinding g f \<Longrightarrow> deliberate m v mc \<le> deliberate n w nc"
  by (auto simp: strongerFinding_def describes_def deliberate_def confRank_rank split: if_splits)

lemma findingOf_path:
  "searching (cn_ID ` set nodes) roots E dist pred [] \<Longrightarrow> reaches nodes roots E n w
   \<Longrightarrow> route (cn_ID ` set nodes) roots E (cf_Path (findingOf nodes pred n w nc)) w"
  by (auto simp: findingOf_def Let_def reaches_def settled_widest [symmetric] intro: settled_path)

lemma set_sortFindings [simp]: "set (sortFindings fs) = set fs"
  by (simp add: sortFindings_def)

lemma distinct_sortFindings: "distinct (map cf_Capability fs) \<Longrightarrow> distinct (map cf_Capability (sortFindings fs))"
  by (metis mset_map mset_stable_sort sortFindings_def mset_eq_imp_distinct_iff)

lemma findings_of_search:
  assumes inv: "searching (cn_ID ` set nodes) roots E dist pred []" and d: "distinct (map cn_ID nodes)"
    and run: "collectFindings dist pred nodes = (findings, observations)"
  shows "distinct (map cf_Capability findings)"
    "cf_Capability ` set findings = {c. \<exists>n w nc. uses nodes roots E c n w nc}"
    "f \<in> set findings \<Longrightarrow> \<exists>n w nc. uses nodes roots E (cf_Capability f) n w nc \<and> describes f n w nc
       \<and> route (cn_ID ` set nodes) roots E (cf_Path f) w
       \<and> (\<forall>m v mc. uses nodes roots E (cf_Capability f) m v mc \<longrightarrow> deliberate m v mc \<le> deliberate n w nc)"
    "f \<in> set findings \<Longrightarrow> cf_PlumbingOnly f
       \<longleftrightarrow> (\<forall>n w nc. uses nodes roots E (cf_Capability f) n w nc \<longrightarrow> IsPlumbing (nc_Reach nc) (cn_Symbol n))"
    "cf_Capability ` set observations = {c. (\<exists>n w nc. reaches nodes roots E n w \<and> nc \<in> set (NodeCapabilities n)
         \<and> nc_Capability nc = c \<and> nc_Basis nc \<noteq> BasisUse) \<and> \<not> (\<exists>n w nc. uses nodes roots E c n w nc)}"
proof -
  define ws where "ws = witnesses nodes pred dist"
  define us where "us = filter (\<lambda>f. cf_Basis f = BasisUse) ws"
  define vs where "vs = filter (\<lambda>f. cf_Basis f \<noteq> BasisUse) ws"
  define best where "best = fold offerFinding us []"
  define mark where "mark f = f\<lparr>cf_PlumbingOnly := cf_Capability f \<notin> cf_Capability ` {g \<in> set ws. cf_Basis g = BasisUse \<and> \<not> IsPlumbing (cf_Reach g) (cf_SinkSymbol g)}\<rparr>" for f :: CapabilityFinding
  have fs: "findings = sortFindings (map mark best)"
    and os: "observations = sortFindings (filter (\<lambda>f. cf_Capability f \<notin> cf_Capability ` set best) (fold offerFinding vs []))"
    using run by (auto simp: collectFindings_def Let_def ws_def us_def vs_def best_def mark_def [abs_def])
  note ws_iff = set_witnesses [OF inv d, folded ws_def]
  have k: "witness.kept (set us) best" "witness.kept (set vs) (fold offerFinding vs [])"
    unfolding best_def offerFinding_def by (rule witness.best_kept)+
  have us_iff: "f \<in> set us \<longleftrightarrow> (\<exists>n w nc. f = findingOf nodes pred n w nc \<and> uses nodes roots E (cf_Capability f) n w nc)" for f
    unfolding us_def set_filter mem_Collect_eq ws_iff uses_def
    by (rule iffI; elim exE conjE; (intro exI conjI)?; (assumption | simp add: findingOf_fields)?)
  have us_in: "findingOf nodes pred n w nc \<in> set us" "c = cf_Capability (findingOf nodes pred n w nc)"
    if "uses nodes roots E c n w nc" for c n w nc
  proof -
    from that have c: "c = nc_Capability nc" by (simp add: uses_def)
    then show "c = cf_Capability (findingOf nodes pred n w nc)" by (simp add: findingOf_fields(2))
    show "findingOf nodes pred n w nc \<in> set us"
      unfolding us_iff findingOf_fields(2) using that [unfolded c] by blast
  qed
  have mark: "cf_Capability (mark g) = cf_Capability g" "cf_Path (mark g) = cf_Path g"
    "describes (mark g) n w nc \<longleftrightarrow> describes g n w nc" for g n w nc
    by (simp_all add: mark_def describes_def)
  have "map cf_Capability (map mark best) = map cf_Capability best" by (simp add: mark(1))
  moreover have "distinct (map cf_Capability best)" using k(1) by (simp add: witness.kept_def)
  ultimately have "distinct (map cf_Capability (map mark best))" by (rule ssubst)
  then show "distinct (map cf_Capability findings)" unfolding fs by (rule distinct_sortFindings)
  have caps: "cf_Capability ` set findings = cf_Capability ` set best" by (simp add: fs image_image mark)
  have used: "c \<in> cf_Capability ` set us \<longleftrightarrow> (\<exists>n w nc. uses nodes roots E c n w nc)" for c
  proof
    assume "c \<in> cf_Capability ` set us"
    then obtain f where "f \<in> set us" "c = cf_Capability f" by blast
    then show "\<exists>n w nc. uses nodes roots E c n w nc" using us_iff [of f] by blast
  next
    assume "\<exists>n w nc. uses nodes roots E c n w nc"
    then obtain n w nc where "uses nodes roots E c n w nc" by blast
    from us_in [OF this] show "c \<in> cf_Capability ` set us" by (rule rev_image_eqI)
  qed
  have best_used: "c \<in> cf_Capability ` set best \<longleftrightarrow> (\<exists>n w nc. uses nodes roots E c n w nc)" for c
    using k(1) used by (simp add: witness.kept_def)
  then show "cf_Capability ` set findings = {c. \<exists>n w nc. uses nodes roots E c n w nc}" unfolding caps by blast
  show "\<exists>n w nc. uses nodes roots E (cf_Capability f) n w nc \<and> describes f n w nc
       \<and> route (cn_ID ` set nodes) roots E (cf_Path f) w
       \<and> (\<forall>m v mc. uses nodes roots E (cf_Capability f) m v mc \<longrightarrow> deliberate m v mc \<le> deliberate n w nc)"
    if f: "f \<in> set findings"
  proof -
    from f obtain g where g: "g \<in> set best" "f = mark g" by (auto simp: fs)
    then have gus: "g \<in> set us" using k(1) by (auto simp: witness.kept_def)
    then obtain n w nc where n: "g = findingOf nodes pred n w nc" "uses nodes roots E (cf_Capability g) n w nc"
      unfolding us_iff by blast
    have "deliberate m v mc \<le> deliberate n w nc" if u: "uses nodes roots E (cf_Capability f) m v mc" for m v mc
    proof (rule not_stronger [OF findingOf_describes [of nodes pred n w nc] findingOf_describes [of nodes pred m v mc]])
      have h: "findingOf nodes pred m v mc \<in> set us" "cf_Capability (findingOf nodes pred m v mc) = cf_Capability g"
        using us_in [OF u] g(2) by (simp_all add: mark(1))
      with k(1) g(1) show "\<not> strongerFinding (findingOf nodes pred m v mc) (findingOf nodes pred n w nc)"
        unfolding witness.kept_def n(1) [symmetric] by blast
    qed
    moreover have "describes f n w nc" unfolding g(2) mark(3) n(1) by (rule findingOf_describes)
    moreover have "route (cn_ID ` set nodes) roots E (cf_Path f) w"
      unfolding g(2) mark(2) n(1) using n(2) by (intro findingOf_path [OF inv]) (simp add: uses_def)
    ultimately show ?thesis using n(2) unfolding g(2) mark(1) by blast
  qed
  show "cf_PlumbingOnly f
       \<longleftrightarrow> (\<forall>n w nc. uses nodes roots E (cf_Capability f) n w nc \<longrightarrow> IsPlumbing (nc_Reach nc) (cn_Symbol n))"
    if f: "f \<in> set findings"
  proof -
    from f obtain g where g: "f = mark g" by (auto simp: fs)
    have "cf_PlumbingOnly f \<longleftrightarrow> (\<forall>h \<in> set us. cf_Capability h = cf_Capability f \<longrightarrow> IsPlumbing (cf_Reach h) (cf_SinkSymbol h))"
      unfolding g by (auto simp: mark_def image_iff us_def)
    also have "\<dots> \<longleftrightarrow> (\<forall>n w nc. uses nodes roots E (cf_Capability f) n w nc \<longrightarrow> IsPlumbing (nc_Reach nc) (cn_Symbol n))"
    proof
      assume all: "\<forall>h \<in> set us. cf_Capability h = cf_Capability f \<longrightarrow> IsPlumbing (cf_Reach h) (cf_SinkSymbol h)"
      show "\<forall>n w nc. uses nodes roots E (cf_Capability f) n w nc \<longrightarrow> IsPlumbing (nc_Reach nc) (cn_Symbol n)"
      proof (intro allI impI)
        fix n w nc assume "uses nodes roots E (cf_Capability f) n w nc"
        from us_in [OF this] all have "IsPlumbing (cf_Reach (findingOf nodes pred n w nc)) (cf_SinkSymbol (findingOf nodes pred n w nc))"
          by auto
        then show "IsPlumbing (nc_Reach nc) (cn_Symbol n)" by (simp add: findingOf_fields)
      qed
    next
      assume all: "\<forall>n w nc. uses nodes roots E (cf_Capability f) n w nc \<longrightarrow> IsPlumbing (nc_Reach nc) (cn_Symbol n)"
      show "\<forall>h \<in> set us. cf_Capability h = cf_Capability f \<longrightarrow> IsPlumbing (cf_Reach h) (cf_SinkSymbol h)"
      proof (intro ballI impI)
        fix h assume h: "h \<in> set us" "cf_Capability h = cf_Capability f"
        then obtain n w nc where "h = findingOf nodes pred n w nc" "uses nodes roots E (cf_Capability f) n w nc"
          unfolding us_iff by auto
        with all show "IsPlumbing (cf_Reach h) (cf_SinkSymbol h)" by (simp add: findingOf_fields)
      qed
    qed
    finally show ?thesis .
  qed
  have weak_iff: "c \<in> cf_Capability ` set (fold offerFinding vs [])
      \<longleftrightarrow> (\<exists>n w nc. reaches nodes roots E n w \<and> nc \<in> set (NodeCapabilities n) \<and> nc_Capability nc = c \<and> nc_Basis nc \<noteq> BasisUse)" for c
  proof -
    have "c \<in> cf_Capability ` set (fold offerFinding vs []) \<longleftrightarrow> c \<in> cf_Capability ` set vs" using k(2) by (simp add: witness.kept_def)
    also have "\<dots> \<longleftrightarrow> (\<exists>f. f \<in> set ws \<and> cf_Basis f \<noteq> BasisUse \<and> cf_Capability f = c)" by (auto simp: vs_def)
    also have "\<dots> \<longleftrightarrow> (\<exists>n w nc. reaches nodes roots E n w \<and> nc \<in> set (NodeCapabilities n) \<and> nc_Capability nc = c \<and> nc_Basis nc \<noteq> BasisUse)"
      unfolding ws_iff by (fastforce simp: findingOf_def Let_def)
    finally show ?thesis .
  qed
  have out: "cf_Capability ` set observations = cf_Capability ` set (fold offerFinding vs []) - cf_Capability ` set best"
    unfolding os by auto
  have obs: "c \<in> cf_Capability ` set observations \<longleftrightarrow>
      (\<exists>n w nc. reaches nodes roots E n w \<and> nc \<in> set (NodeCapabilities n) \<and> nc_Capability nc = c \<and> nc_Basis nc \<noteq> BasisUse)
      \<and> \<not> (\<exists>n w nc. uses nodes roots E c n w nc)" for c
    unfolding out Diff_iff weak_iff best_used by (rule refl)
  show "cf_Capability ` set observations = {c. (\<exists>n w nc. reaches nodes roots E n w \<and> nc \<in> set (NodeCapabilities n)
         \<and> nc_Capability nc = c \<and> nc_Basis nc \<noteq> BasisUse) \<and> \<not> (\<exists>n w nc. uses nodes roots E c n w nc)}"
    by (rule set_eqI) (unfold mem_Collect_eq, rule obs)
qed

end
