(* ===== verification/Capability_Rows.thy ===== *)
theory Capability_Rows
  imports Capability_Search
begin

text \<open>
  The evidence rows of a capability report and what is rolled up from them
  (\<open>internal/capability/domain/rows.go\<close>): one row for each owned caller and classified callee, which rows
  a reader is shown, the sensitive calls, and where collection and egress meet.  A map that groups rows
  is the list of its keys in the order they are first seen.
\<close>

section \<open>Witness rows\<close>

record WitnessRow =
  wr_Caller :: string
  wr_CallerKind :: string
  wr_Capability :: string
  wr_Reach :: string
  wr_Callee :: string
  wr_CalleePackage :: string
  wr_BodyFact :: bool
  wr_ClassifiedBy :: string
  wr_Confidence :: string
  wr_Suppressed :: bool
  wr_PlumbingOnly :: bool
  wr_isPlumbing :: bool

definition rowKey :: "WitnessRow \<Rightarrow> string" where
  "rowKey r = wr_CallerKind r @ [CHR 0x00] @ wr_Capability r @ [CHR 0x00] @ wr_Reach r @ [CHR 0x00]
     @ wr_Callee r @ [CHR 0x00] @ wr_Caller r"

definition RowLess :: "WitnessRow \<Rightarrow> WitnessRow \<Rightarrow> bool" where
  "RowLess a b =
     (if callerKindRank (wr_CallerKind a) \<noteq> callerKindRank (wr_CallerKind b)
      then callerKindRank (wr_CallerKind a) < callerKindRank (wr_CallerKind b)
      else if tierRank (Tier (wr_Capability a)) \<noteq> tierRank (Tier (wr_Capability b))
      then tierRank (Tier (wr_Capability a)) < tierRank (Tier (wr_Capability b))
      else if confRank (wr_Confidence a) \<noteq> confRank (wr_Confidence b)
      then confRank (wr_Confidence b) < confRank (wr_Confidence a)
      else if wr_Capability a \<noteq> wr_Capability b then capabilityLess (wr_Capability a) (wr_Capability b)
      else if wr_Callee a \<noteq> wr_Callee b then wr_Callee a < wr_Callee b
      else if wr_Caller a \<noteq> wr_Caller b then wr_Caller a < wr_Caller b
      else wr_Reach a < wr_Reach b)"

definition sortRows :: "WitnessRow list \<Rightarrow> WitnessRow list" where
  "sortRows rows = stable_sort RowLess rows"

text \<open>\<open>slices.Sort\<close> and \<open>slices.Compact\<close> of the roots, and the owned nodes among them.\<close>

definition ownedRoots :: "string list \<Rightarrow> CallNode list \<Rightarrow> CallNode list" where
  "ownedRoots roots nodes = concat (map (\<lambda>i. (case nodeAt nodes i of
       Some n \<Rightarrow> if \<not> cn_IsExternal n then [n] else [] | None \<Rightarrow> [])) (sorted_distinct roots))"

definition bodyRow :: "CallNode \<Rightarrow> WitnessRow" where
  "bodyRow caller = \<lparr>wr_Caller = cn_ID caller, wr_CallerKind = NodeCallerKind caller,
     wr_Capability = CapabilityUnsafePointer, wr_Reach = ReachDirectCall, wr_Callee = cn_ID caller,
     wr_CalleePackage = cn_Package caller, wr_BodyFact = True, wr_ClassifiedBy = ClassifiedByRule,
     wr_Confidence = ConfidenceDirect, wr_Suppressed = False, wr_PlumbingOnly = False, wr_isPlumbing = False\<rparr>"

definition edgeRow :: "CallNode \<Rightarrow> CallEdge \<Rightarrow> CallNode \<Rightarrow> NodeCapability \<Rightarrow> WitnessRow" where
  "edgeRow caller e callee nc = \<lparr>wr_Caller = cn_ID caller, wr_CallerKind = NodeCallerKind caller,
     wr_Capability = nc_Capability nc, wr_Reach = nc_Reach nc, wr_Callee = cn_ID callee,
     wr_CalleePackage = ClassificationPackage callee, wr_BodyFact = False, wr_ClassifiedBy = nc_ClassifiedBy nc,
     wr_Confidence = ce_Confidence e, wr_Suppressed = False, wr_PlumbingOnly = False,
     wr_isPlumbing = IsPlumbing (nc_Reach nc) (cn_Symbol callee)\<rparr>"

text \<open>The rows kept so far, one for each key: the body fact is set, the row of an edge only if it is stronger.\<close>

fun setRow :: "WitnessRow \<Rightarrow> WitnessRow list \<Rightarrow> WitnessRow list" where
  "setRow r [] = [r]"
| "setRow r (cur # rows) = (if rowKey cur = rowKey r then r # rows else cur # setRow r rows)"

definition offerRow :: "WitnessRow \<Rightarrow> WitnessRow list \<Rightarrow> WitnessRow list" where
  "offerRow = offerBy rowKey (\<lambda>r cur. confRank (wr_Confidence cur) < confRank (wr_Confidence r))"

definition externalCallees :: "CallNode list \<Rightarrow> (string \<Rightarrow> CallEdge list) \<Rightarrow> CallNode \<Rightarrow> (CallEdge \<times> CallNode) list" where
  "externalCallees nodes adj caller = concat (map (\<lambda>e. (case nodeAt nodes (ce_ToID e) of
       Some callee \<Rightarrow> if cn_IsExternal callee then [(e, callee)] else [] | None \<Rightarrow> [])) (adj (cn_ID caller)))"

definition edgeRows :: "CallNode list \<Rightarrow> (string \<Rightarrow> CallEdge list) \<Rightarrow> CallNode \<Rightarrow> WitnessRow list" where
  "edgeRows nodes adj caller = concat (map (\<lambda>(e, callee). map (edgeRow caller e callee)
       (filter (\<lambda>nc. nc_Basis nc = BasisUse) (NodeCapabilities callee))) (externalCallees nodes adj caller))"

definition callerStep :: "CallNode list \<Rightarrow> (string \<Rightarrow> CallEdge list) \<Rightarrow> CallNode \<Rightarrow> WitnessRow list \<Rightarrow> WitnessRow list" where
  "callerStep nodes adj caller rows = fold offerRow (edgeRows nodes adj caller)
     (if cn_UsesUnsafePointer caller then setRow (bodyRow caller) rows else rows)"

text \<open>\<open>promoted\<close> holds the capabilities of which a row was promoted already.\<close>

fun markLoop :: "string list \<Rightarrow> string list \<Rightarrow> WitnessRow list \<Rightarrow> WitnessRow list" where
  "markLoop hasOther promoted [] = []"
| "markLoop hasOther promoted (r # rows) =
     (if wr_isPlumbing r \<and> wr_Capability r \<notin> set hasOther \<and> wr_Capability r \<notin> set promoted
      then r\<lparr>wr_PlumbingOnly := True, wr_Suppressed := (Tier (wr_Capability r) = TierSuppressed)\<rparr>
        # markLoop hasOther (wr_Capability r # promoted) rows
      else r\<lparr>wr_Suppressed := (Tier (wr_Capability r) = TierSuppressed \<or> wr_isPlumbing r)\<rparr>
        # markLoop hasOther promoted rows)"

definition markSuppression :: "WitnessRow list \<Rightarrow> WitnessRow list" where
  "markSuppression rows = markLoop (map wr_Capability (filter (\<lambda>r. \<not> wr_isPlumbing r) rows)) [] rows"

definition collectRows :: "CallNode list \<Rightarrow> CallNode list \<Rightarrow> (string \<Rightarrow> CallEdge list)
    \<Rightarrow> WitnessRow list \<times> string list \<times> nat" where
  "collectRows owned nodes adj =
     (markSuppression (sortRows (fold (callerStep nodes adj) owned [])),
      map cn_ID (filter cn_IsAssemblyOrLinkname owned),
      length (remdups (map cn_ID (filter (\<lambda>n. NodeCapabilities n = [] \<and> cn_IsAssemblyOrLinkname n)
        (concat (map (\<lambda>c. map snd (externalCallees nodes adj c)) owned))))))"

section \<open>What is rolled up from the rows\<close>

record PackageDefault =
  pd_Package :: string
  pd_Callees :: nat

definition packageDefaultLess :: "PackageDefault \<Rightarrow> PackageDefault \<Rightarrow> bool" where
  "packageDefaultLess a b = (if pd_Package a \<noteq> pd_Package b then pd_Package a < pd_Package b else pd_Callees a < pd_Callees b)"

definition packageDefaults :: "WitnessRow list \<Rightarrow> PackageDefault list" where
  "packageDefaults rows = (let ds = filter (\<lambda>r. wr_ClassifiedBy r = ClassifiedByPackageDefault) rows in
     stable_sort packageDefaultLess (map (\<lambda>p. \<lparr>pd_Package = p,
         pd_Callees = length (remdups (map wr_Callee (filter (\<lambda>r. wr_CalleePackage r = p) ds)))\<rparr>)
       (remdups (map wr_CalleePackage ds))))"

definition sensitiveCapabilities :: "string list" where
  "sensitiveCapabilities = [CapabilityExecProcess, CapabilityExecDynamic, CapabilityNetDial, CapabilityNetListen,
     CapabilityNetTransfer, CapabilityFSRead, CapabilityFSWrite, CapabilityEnvRead, CapabilityCgoCall, CapabilityReflectDynamic]"

definition collectionCapabilities :: "string list" where
  "collectionCapabilities = [CapabilityEnvRead, CapabilityFSRead]"

definition egressCapabilities :: "string list" where
  "egressCapabilities = [CapabilityNetDial, CapabilityNetTransfer]"

definition ioutilAliases :: "(string \<times> string) list" where
  "ioutilAliases = [(''io/ioutil.ReadFile'', ''os.ReadFile''), (''io/ioutil.ReadDir'', ''os.ReadDir''),
     (''io/ioutil.WriteFile'', ''os.WriteFile''), (''io/ioutil.TempFile'', ''os.CreateTemp''),
     (''io/ioutil.TempDir'', ''os.MkdirTemp'')]"

definition NormaliseCallee :: "string \<Rightarrow> string" where
  "NormaliseCallee i = (case map_of ioutilAliases i of Some t \<Rightarrow> t | None \<Rightarrow> i)"

record SensitiveCall =
  sc_Callee :: string
  sc_Capability :: string
  sc_CallerKinds :: "string list"
  sc_Callers :: nat

definition sensitive_key :: "SensitiveCall \<Rightarrow> string" where
  "sensitive_key s = sc_Callee s @ [CHR 0x00] @ sc_Capability s"

definition callerKindLess :: "string \<Rightarrow> string \<Rightarrow> bool" where
  "callerKindLess a b = (if callerKindRank a \<noteq> callerKindRank b then callerKindRank a < callerKindRank b else a < b)"

definition sensitiveLess :: "SensitiveCall \<Rightarrow> SensitiveCall \<Rightarrow> bool" where
  "sensitiveLess a b = (if sc_Capability a \<noteq> sc_Capability b then capabilityLess (sc_Capability a) (sc_Capability b)
     else sc_Callee a < sc_Callee b)"

definition sensitiveOf :: "WitnessRow \<Rightarrow> SensitiveCall" where
  "sensitiveOf r = \<lparr>sc_Callee = NormaliseCallee (wr_Callee r), sc_Capability = wr_Capability r, sc_CallerKinds = [], sc_Callers = 0\<rparr>"

definition isSensitiveRow :: "WitnessRow \<Rightarrow> bool" where
  "isSensitiveRow r \<longleftrightarrow> wr_Capability r \<in> set sensitiveCapabilities \<and> wr_Reach r = ReachDirectCall"

text \<open>The rows of each key, in the order the keys are first seen.\<close>

fun groupsBy :: "('a \<Rightarrow> string) \<Rightarrow> 'a list \<Rightarrow> 'a list list" where
  "groupsBy k [] = []"
| "groupsBy k (r # rows) = (r # filter (\<lambda>x. k x = k r) rows) # groupsBy k (filter (\<lambda>x. k x \<noteq> k r) rows)"

definition sensitiveCalls :: "WitnessRow list \<Rightarrow> SensitiveCall list" where
  "sensitiveCalls rows = stable_sort sensitiveLess (map (\<lambda>g. (sensitiveOf (hd g))\<lparr>
       sc_CallerKinds := stable_sort callerKindLess (remdups (map wr_CallerKind g)),
       sc_Callers := length (remdups (map wr_Caller g))\<rparr>)
     (filter (list_ex (\<lambda>r. wr_Confidence r = ConfidenceDirect))
       (groupsBy (\<lambda>r. sensitive_key (sensitiveOf r)) (filter isSensitiveRow rows))))"

text \<open>The capability of a member, as the map of the sensitive calls has it.\<close>

definition membersOf :: "SensitiveCall list \<Rightarrow> string \<Rightarrow> string option" where
  "membersOf calls = map_of (rev (map (\<lambda>s. (sc_Callee s, sc_Capability s)) calls))"

record CoLocation =
  co_Function :: string
  co_CallerKind :: string
  co_Collection :: "string list"
  co_Egress :: "string list"

definition coLocationLess :: "CoLocation \<Rightarrow> CoLocation \<Rightarrow> bool" where
  "coLocationLess a b =
     (if co_Function a \<noteq> co_Function b then co_Function a < co_Function b
      else if co_CallerKind a \<noteq> co_CallerKind b then co_CallerKind a < co_CallerKind b
      else if co_Collection a \<noteq> co_Collection b then co_Collection a < co_Collection b
      else co_Egress a < co_Egress b)"

definition isMemberRow :: "(string \<Rightarrow> string option) \<Rightarrow> WitnessRow \<Rightarrow> bool" where
  "isMemberRow memberOf r \<longleftrightarrow> wr_Confidence r = ConfidenceDirect \<and> memberOf (NormaliseCallee (wr_Callee r)) = Some (wr_Capability r)"

text \<open>The callees of the rows with one of the capabilities, once each and sorted.\<close>

definition calleesWith :: "string list \<Rightarrow> WitnessRow list \<Rightarrow> string list" where
  "calleesWith caps g = sorted_distinct (map (\<lambda>r. NormaliseCallee (wr_Callee r)) (filter (\<lambda>r. wr_Capability r \<in> set caps) g))"

definition collectsAndEgresses :: "WitnessRow list \<Rightarrow> (string \<Rightarrow> string option) \<Rightarrow> CoLocation list" where
  "collectsAndEgresses rows memberOf = stable_sort coLocationLess
     (filter (\<lambda>c. co_Collection c \<noteq> [] \<and> co_Egress c \<noteq> [])
       (map (\<lambda>g. \<lparr>co_Function = wr_Caller (hd g), co_CallerKind = wr_CallerKind (hd g),
           co_Collection = calleesWith collectionCapabilities g, co_Egress = calleesWith egressCapabilities g\<rparr>)
         (groupsBy wr_Caller (filter (isMemberRow memberOf) rows))))"

section \<open>Initialisers that reach both\<close>

record InitReach =
  ir_Init :: string
  ir_CallerKind :: string
  ir_Depth :: nat
  ir_CollectionDepth :: nat
  ir_EgressDepth :: nat
  ir_Collection :: string
  ir_Egress :: string

definition init_key :: "InitReach \<Rightarrow> string" where
  "init_key r = ir_Init r @ [CHR 0x00] @ ir_Collection r @ [CHR 0x00] @ ir_Egress r"

text \<open>
  A round of the walk: the nodes that an unsettled edge leads back to, each with the smallest member
  of those the frontier has.  The result lists each settled node with its distance and its member.
\<close>

definition nearerThan :: "string \<times> string \<Rightarrow> string \<times> string \<Rightarrow> bool" where
  "nearerThan a b \<longleftrightarrow> snd a < snd b"

definition nextLayer :: "(string \<times> string) list \<Rightarrow> string set \<Rightarrow> (string \<times> string) list \<Rightarrow> (string \<times> string) list" where
  "nextLayer reverse settled frontier = fold (offerBy fst nearerThan)
     (concat (map (\<lambda>(u, m). map (\<lambda>(_, p). (p, m)) (filter (\<lambda>(t, p). t = u \<and> p \<notin> settled) reverse)) frontier)) []"

lemma nextLayer_subset: "fst ` set (nextLayer reverse settled frontier) \<subseteq> snd ` set reverse - settled"
  unfolding nextLayer_def
  by (rule subset_trans [OF image_mono [OF fold_offerBy_set]]) force

text \<open>The edges are listed as pairs of a callee and its caller; \<open>d\<close> is the distance of the next layer.\<close>

function nearLoop :: "(string \<times> string) list \<Rightarrow> nat \<Rightarrow> (string \<times> nat \<times> string) list \<Rightarrow> (string \<times> string) list
    \<Rightarrow> (string \<times> nat \<times> string) list" where
  "nearLoop reverse d settled frontier =
     (if frontier = [] then settled
      else let nearer = nextLayer reverse (fst ` set settled) frontier in
        nearLoop reverse (d + 1) (settled @ map (\<lambda>(p, m). (p, d, m)) nearer) (sort_key fst nearer))"
  by pat_completeness auto
termination
proof (relation "measures [\<lambda>(reverse, d, settled, frontier). card (snd ` set reverse - fst ` set settled),
    \<lambda>(reverse, d, settled, frontier). length frontier]", goal_cases)
  case 1
  then show ?case by simp
next
  case (2 reverse d settled frontier nearer)
  have ids: "fst ` (\<lambda>(p, m). (p, d, m)) ` set nearer = fst ` set nearer" by force
  have n: "fst ` set nearer \<subseteq> snd ` set reverse - fst ` set settled" using 2(2) nextLayer_subset by simp
  show ?case
  proof (cases "nearer = []")
    case True
    with 2(1) show ?thesis by simp
  next
    case False
    then have "snd ` set reverse - (fst ` set settled \<union> fst ` set nearer) \<subset> snd ` set reverse - fst ` set settled"
      using n by (cases nearer) auto
    then have "card (snd ` set reverse - (fst ` set settled \<union> fst ` set nearer)) < card (snd ` set reverse - fst ` set settled)"
      by (intro psubset_card_mono) auto
    then show ?thesis by (simp add: image_Un ids)
  qed
qed

declare nearLoop.simps [simp del]

definition nearestMember :: "string list \<Rightarrow> (string \<times> string) list \<Rightarrow> (string \<times> nat \<times> string) list" where
  "nearestMember sources reverse =
     nearLoop reverse 1 (map (\<lambda>s. (s, 0, s)) (sort sources)) (map (\<lambda>s. (s, s)) (sort sources))"

definition isMemberNode :: "(string \<Rightarrow> string option) \<Rightarrow> string list \<Rightarrow> CallNode \<Rightarrow> bool" where
  "isMemberNode memberOf caps n \<longleftrightarrow> list_ex (\<lambda>nc. nc_Basis nc = BasisUse
     \<and> memberOf (NormaliseCallee (cn_ID n)) = Some (nc_Capability nc) \<and> nc_Capability nc \<in> set caps) (NodeCapabilities n)"

definition memberNodes :: "CallNode list \<Rightarrow> (string \<Rightarrow> string option) \<Rightarrow> string list \<times> string list" where
  "memberNodes nodes memberOf = (map cn_ID (filter (isMemberNode memberOf collectionCapabilities) nodes),
     map cn_ID (filter (isMemberNode memberOf egressCapabilities) nodes))"

definition reverseEdges :: "CallNode list \<Rightarrow> CallEdge list \<Rightarrow> (string \<times> string) list" where
  "reverseEdges nodes edges = map (\<lambda>e. (ce_ToID e, ce_FromID e))
     (filter (\<lambda>e. ce_ToID e \<in> cn_ID ` set nodes \<and> ce_Confidence e = ConfidenceDirect) edges)"

definition initReachesBoth :: "CallNode list \<Rightarrow> CallNode list \<Rightarrow> CallEdge list \<Rightarrow> (string \<Rightarrow> string option) \<Rightarrow> InitReach list" where
  "initReachesBoth owned nodes edges memberOf = (case memberNodes nodes memberOf of (collection, egress) \<Rightarrow>
     if collection = [] \<or> egress = [] then []
     else let reverse = reverseEdges nodes edges;
         c = map_of (nearestMember collection reverse); e = map_of (nearestMember egress reverse) in
       concat (map (\<lambda>n. if \<not> IsInitSymbol (cn_Symbol n) then [] else (case (c (cn_ID n), e (cn_ID n)) of
           (Some (cd, cm), Some (ed, em)) \<Rightarrow> [\<lparr>ir_Init = cn_ID n, ir_CallerKind = NodeCallerKind n, ir_Depth = max cd ed,
               ir_CollectionDepth = cd, ir_EgressDepth = ed,
               ir_Collection = NormaliseCallee cm, ir_Egress = NormaliseCallee em\<rparr>]
         | _ \<Rightarrow> [])) owned))"

section \<open>The rows that are kept and shown\<close>

lemma confRank_le: "confRank c \<le> 4"
  by (simp add: confRank_def)

interpretation rows: best_by_key rowKey "\<lambda>r cur. confRank (wr_Confidence cur) < confRank (wr_Confidence r)"
  by unfold_locales (rule swo_key_desc)

interpretation nearer: best_by_key fst nearerThan
  by unfold_locales (simp add: nearerThan_def [abs_def] swo_key)

text \<open>What a caller states: its own body's fact, and its uses of external callees.\<close>

definition stated :: "CallNode list \<Rightarrow> CallEdge set \<Rightarrow> CallNode \<Rightarrow> WitnessRow set" where
  "stated nodes E caller = (if cn_UsesUnsafePointer caller then {bodyRow caller} else {})
     \<union> {edgeRow caller e callee nc |e callee nc. e \<in> E \<and> ce_FromID e = cn_ID caller \<and> callee \<in> set nodes
          \<and> cn_ID callee = ce_ToID e \<and> cn_IsExternal callee \<and> nc \<in> set (NodeCapabilities callee) \<and> nc_Basis nc = BasisUse}"

lemma setRow_is_offer:
  "setRow r rows = offerBy rowKey (\<lambda>_ _. True) r rows"
  by (induction rows) auto

lemma setRow_mem: "distinct (map rowKey rows) \<Longrightarrow> x \<in> set (setRow r rows) \<longleftrightarrow> x = r \<or> (x \<in> set rows \<and> rowKey x \<noteq> rowKey r)"
proof (induction rows)
  case (Cons y ys)
  then show ?case by (force simp: image_iff)
qed simp

lemma setRow_kept:
  assumes "rows.kept seen xs" "confRank (wr_Confidence r) = 4"
  shows "rows.kept (insert r seen) (setRow r xs)"
proof -
  have "\<not> 4 < confRank c" for c using confRank_le [of c] by simp
  then show ?thesis
    using assms offerBy_distinct [of rowKey xs "\<lambda>_ _. True" r] offerBy_keys [of rowKey "\<lambda>_ _. True" r xs]
      setRow_mem [OF rows.kept_distinct [OF assms(1)], of _ r]
    unfolding rows.kept_def setRow_is_offer [symmetric] by auto
qed

lemma callerStep_kept:
  assumes "rows.kept seen xs"
  shows "rows.kept (seen \<union> (if cn_UsesUnsafePointer c then {bodyRow c} else {}) \<union> set (edgeRows nodes adj c)) (callerStep nodes adj c xs)"
proof (cases "cn_UsesUnsafePointer c")
  case True
  have "rows.kept (insert (bodyRow c) seen) (setRow (bodyRow c) xs)"
    by (rule setRow_kept [OF assms]) (simp add: bodyRow_def confRank_def)
  from rows.fold_kept [OF this] True show ?thesis by (simp add: callerStep_def offerRow_def)
next
  case False
  with rows.fold_kept [OF assms] show ?thesis by (simp add: callerStep_def offerRow_def)
qed

lemma externalCallees_mem:
  "(e, n) \<in> set (externalCallees nodes adj c) \<longleftrightarrow> e \<in> set (adj (cn_ID c)) \<and> nodeAt nodes (ce_ToID e) = Some n \<and> cn_IsExternal n"
proof -
  have "x \<in> set (case nodeAt nodes i of Some callee \<Rightarrow> if cn_IsExternal callee then [(d, callee)] else [] | None \<Rightarrow> [])
      \<longleftrightarrow> fst x = d \<and> nodeAt nodes i = Some (snd x) \<and> cn_IsExternal (snd x)" for x i and d :: CallEdge
    by (cases "nodeAt nodes i"; cases x) auto
  then show ?thesis by (auto simp: externalCallees_def)
qed

lemma set_edgeRows:
  assumes "distinct (map cn_ID nodes)" "\<And>u. set (adj u) = {e \<in> E. ce_FromID e = u}"
  shows "(if cn_UsesUnsafePointer c then {bodyRow c} else {}) \<union> set (edgeRows nodes adj c) = stated nodes E c"
proof -
  have "r \<in> set (edgeRows nodes adj c) \<longleftrightarrow> (\<exists>e callee nc. r = edgeRow c e callee nc \<and> (e, callee) \<in> set (externalCallees nodes adj c)
      \<and> nc \<in> set (NodeCapabilities callee) \<and> nc_Basis nc = BasisUse)" for r
    by (force simp: edgeRows_def)
  then have "set (edgeRows nodes adj c) = {edgeRow c e callee nc |e callee nc. e \<in> E \<and> ce_FromID e = cn_ID c \<and> callee \<in> set nodes
       \<and> cn_ID callee = ce_ToID e \<and> cn_IsExternal callee \<and> nc \<in> set (NodeCapabilities callee) \<and> nc_Basis nc = BasisUse}"
    unfolding externalCallees_mem assms(2) nodeAt_Some [OF assms(1)] set_eq_iff mem_Collect_eq by (simp only: conj_assoc simp_thms)
  then show ?thesis unfolding stated_def by (simp only:)
qed

lemma fold_callers:
  assumes "distinct (map cn_ID nodes)" "\<And>u. set (adj u) = {e \<in> E. ce_FromID e = u}"
  shows "rows.kept seen xs \<Longrightarrow> rows.kept (seen \<union> (\<Union>c \<in> set owned. stated nodes E c)) (fold (callerStep nodes adj) owned xs)"
proof (induction owned arbitrary: seen xs)
  case (Cons c owned)
  from Cons.IH [OF callerStep_kept [OF Cons.prems, of c nodes adj]] show ?case
    using set_edgeRows [OF assms, of c] by (simp add: Un_assoc)
qed simp

text \<open>A row as it was before it was marked.\<close>

definition unmarked :: "WitnessRow \<Rightarrow> WitnessRow" where
  "unmarked r = r\<lparr>wr_Suppressed := False, wr_PlumbingOnly := False\<rparr>"

lemma markLoop_rows: "map unmarked (markLoop others promoted rs) = map unmarked rs"
  by (induction others promoted rs rule: markLoop.induct) (simp_all add: unmarked_def)

lemma markLoop_shown:
  "r \<in> set (markLoop others promoted rs) \<Longrightarrow> \<forall>q \<in> set rs. \<not> wr_PlumbingOnly q
   \<Longrightarrow> (wr_Suppressed r \<longleftrightarrow> Tier (wr_Capability r) = TierSuppressed \<or> (wr_isPlumbing r \<and> \<not> wr_PlumbingOnly r))
     \<and> (wr_PlumbingOnly r \<longrightarrow> wr_isPlumbing r)"
  by (induction others promoted rs rule: markLoop.induct) (auto split: if_splits)

text \<open>Exactly the first row of a capability of which no row is shown on its own is promoted.\<close>

lemma markLoop_promotes:
  "\<forall>q \<in> set rs. \<not> wr_PlumbingOnly q \<Longrightarrow> \<forall>q \<in> set rs. \<not> wr_isPlumbing q \<longrightarrow> wr_Capability q \<in> set others
   \<Longrightarrow> length (filter (\<lambda>r. wr_PlumbingOnly r \<and> wr_Capability r = c) (markLoop others promoted rs))
     = (if c \<in> wr_Capability ` set rs \<and> c \<notin> set others \<and> c \<notin> set promoted then 1 else 0)"
proof (induction others promoted rs rule: markLoop.induct)
  case (2 others promoted r rs)
  show ?case
  proof (cases "wr_isPlumbing r \<and> wr_Capability r \<notin> set others \<and> wr_Capability r \<notin> set promoted")
    case True
    with 2 show ?thesis by auto
  next
    case False
    have "length (filter (\<lambda>r. wr_PlumbingOnly r \<and> wr_Capability r = c) (markLoop others promoted rs))
        = (if c \<in> wr_Capability ` set rs \<and> c \<notin> set others \<and> c \<notin> set promoted then 1 else 0)"
      using 2(2) [OF False] 2(3,4) by simp
    moreover have "c = wr_Capability r \<Longrightarrow> c \<in> set others \<or> c \<in> set promoted" using False 2(4) by auto
    ultimately show ?thesis using False 2(3) by auto
  qed
qed simp

end
