(* ===== verification/Capability_Near.thy ===== *)
theory Capability_Near
  imports Capability_Rows
begin

text \<open>
  The walk behind the initialisers of a capability report finds, for every node that leads to a
  member, the hop count to the nearest members and the smallest of them.
\<close>

section \<open>Distance\<close>

text \<open>\<open>m\<close> is the smallest of the sources nearest to \<open>p\<close>, \<open>d\<close> calls away.\<close>

definition calls :: "(string \<times> string) list \<Rightarrow> (string \<times> string) set" where
  "calls reverse = {(p, u). (u, p) \<in> set reverse}"

definition nearest :: "string set \<Rightarrow> (string \<times> string) list \<Rightarrow> string \<Rightarrow> nat \<Rightarrow> string \<Rightarrow> bool" where
  "nearest sources reverse p d m \<longleftrightarrow> m \<in> sources \<and> (p, m) \<in> calls reverse ^^ d
     \<and> (\<forall>k s. s \<in> sources \<and> (p, s) \<in> calls reverse ^^ k \<longrightarrow> d \<le> k \<and> (k = d \<longrightarrow> m \<le> s))"

lemma nearest_unique:
  "nearest S R p d m \<Longrightarrow> nearest S R p e n \<Longrightarrow> d = e \<and> m = n"
  unfolding nearest_def by (metis order_antisym)

lemma nearest_exists:
  assumes "s \<in> S" "(p, s) \<in> calls R ^^ k" "finite S"
  shows "\<exists>d m. nearest S R p d m"
proof -
  let ?P = "\<lambda>d. \<exists>s \<in> S. (p, s) \<in> calls R ^^ d"
  define d where "d = (LEAST d. ?P d)"
  have d: "?P d" unfolding d_def using assms(1,2) by (intro LeastI [of ?P k]) blast
  have least: "d \<le> j" if "s \<in> S" "(p, s) \<in> calls R ^^ j" for s j unfolding d_def using that by (intro Least_le) blast
  let ?M = "{s \<in> S. (p, s) \<in> calls R ^^ d}"
  have "finite ?M" "?M \<noteq> {}" using assms(3) d by auto
  from Min_in [OF this] \<open>finite ?M\<close> have "Min ?M \<in> ?M" "\<forall>s \<in> ?M. Min ?M \<le> s" by simp_all
  with least have "nearest S R p d (Min ?M)" unfolding nearest_def by auto
  then show ?thesis by blast
qed

lemma nearest_0: "nearest S R p 0 m \<longleftrightarrow> p \<in> S \<and> m = p"
  by (auto simp: nearest_def)

text \<open>The first call of a shortest way leads to a node one call nearer, to the same member.\<close>

lemma nearest_Suc:
  assumes "nearest S R p (Suc d) m" "finite S"
  shows "\<exists>u. (p, u) \<in> calls R \<and> nearest S R u d m"
proof -
  from assms(1) have m: "m \<in> S" "(p, m) \<in> calls R ^^ Suc d" by (simp_all add: nearest_def del: relpow.simps)
  from relpow_Suc_D2 [OF m(2)] obtain u where u: "(p, u) \<in> calls R" "(u, m) \<in> calls R ^^ d" by blast
  have "d \<le> k \<and> (k = d \<longrightarrow> m \<le> s)" if "s \<in> S" "(u, s) \<in> calls R ^^ k" for k s
  proof -
    from u(1) that(2) have "(p, s) \<in> calls R ^^ Suc k" by (rule relpow_Suc_I2)
    with assms(1) that(1) show ?thesis unfolding nearest_def by force
  qed
  with u m(1) show ?thesis unfolding nearest_def by blast
qed

lemma nearest_step:
  assumes "(p, u) \<in> calls R" "nearest S R u d n" "\<And>e m. nearest S R p e m \<Longrightarrow> d < e" "finite S"
    "\<And>v n'. (p, v) \<in> calls R \<Longrightarrow> nearest S R v d n' \<Longrightarrow> n \<le> n'"
  shows "nearest S R p (Suc d) n"
proof -
  have n: "n \<in> S" "(u, n) \<in> calls R ^^ d" using assms(2) by (simp_all add: nearest_def)
  from assms(1) n(2) have way: "(p, n) \<in> calls R ^^ Suc d" by (rule relpow_Suc_I2)
  from nearest_exists [OF n(1) way assms(4)] obtain e m where em: "nearest S R p e m" by blast
  then have "e \<le> Suc d" using n(1) way unfolding nearest_def by blast
  with assms(3) [OF em] have e: "e = Suc d" by simp
  from nearest_Suc [OF em [unfolded e] assms(4)] obtain v where "(p, v) \<in> calls R" "nearest S R v d m" by blast
  from assms(5) [OF this] have "n \<le> m" .
  moreover have "m \<le> n" using em n(1) way unfolding nearest_def e by blast
  ultimately show ?thesis using em e by simp
qed

section \<open>The walk\<close>

text \<open>The next layer lists each unsettled caller of the frontier once, with the smallest member called.\<close>

lemma nextLayer_mem:
  "(p, m) \<in> set (nextLayer R settled F) \<longleftrightarrow> p \<notin> settled \<and> (\<exists>u. (u, m) \<in> set F \<and> (p, u) \<in> calls R)
     \<and> (\<forall>u n. (u, n) \<in> set F \<and> (p, u) \<in> calls R \<longrightarrow> m \<le> n)"
  and nextLayer_distinct: "distinct (map fst (nextLayer R settled F))"
proof -
  let ?xs = "concat (map (\<lambda>(u, m). map (\<lambda>(_, p). (p, m)) (filter (\<lambda>(t, p). t = u \<and> p \<notin> settled) R)) F)"
  have xs: "(p, m) \<in> set ?xs \<longleftrightarrow> p \<notin> settled \<and> (\<exists>u. (u, m) \<in> set F \<and> (p, u) \<in> calls R)" for p m
    by (auto simp: calls_def image_iff Bex_def)
  have k: "nearer.kept (set ?xs) (nextLayer R settled F)" unfolding nextLayer_def by (rule nearer.best_kept)
  from nearer.kept_distinct [OF k] show "distinct (map fst (nextLayer R settled F))" .
  show "(p, m) \<in> set (nextLayer R settled F) \<longleftrightarrow> p \<notin> settled \<and> (\<exists>u. (u, m) \<in> set F \<and> (p, u) \<in> calls R)
     \<and> (\<forall>u n. (u, n) \<in> set F \<and> (p, u) \<in> calls R \<longrightarrow> m \<le> n)"
  proof
    assume pm: "(p, m) \<in> set (nextLayer R settled F)"
    from nearer.kept_seen [OF k pm] have seen: "p \<notin> settled \<and> (\<exists>u. (u, m) \<in> set F \<and> (p, u) \<in> calls R)" unfolding xs .
    have "m \<le> n" if "(u, n) \<in> set F" "(p, u) \<in> calls R" for u n
    proof -
      have "(p, n) \<in> set ?xs" unfolding xs using seen that by blast
      from nearer.kept_best [OF k pm this] show ?thesis by (simp add: nearerThan_def)
    qed
    with seen show "p \<notin> settled \<and> (\<exists>u. (u, m) \<in> set F \<and> (p, u) \<in> calls R)
       \<and> (\<forall>u n. (u, n) \<in> set F \<and> (p, u) \<in> calls R \<longrightarrow> m \<le> n)" by blast
  next
    assume pm: "p \<notin> settled \<and> (\<exists>u. (u, m) \<in> set F \<and> (p, u) \<in> calls R)
       \<and> (\<forall>u n. (u, n) \<in> set F \<and> (p, u) \<in> calls R \<longrightarrow> m \<le> n)"
    then have x: "(p, m) \<in> set ?xs" unfolding xs by blast
    then have "p \<in> fst ` set ?xs" by (rule rev_image_eqI) simp
    then have "p \<in> fst ` set (nextLayer R settled F)" unfolding nearer.kept_keys [OF k] .
    then obtain n where n: "(p, n) \<in> set (nextLayer R settled F)" by auto
    from nearer.kept_seen [OF k n] have "m \<le> n" unfolding xs using pm by blast
    moreover from nearer.kept_best [OF k n x] have "n \<le> m" by (simp add: nearerThan_def)
    ultimately show "(p, m) \<in> set (nextLayer R settled F)" using n by simp
  qed
qed

text \<open>Before the layer at distance \<open>d\<close>: what is settled is what is nearer, and the frontier is the layer before.\<close>

definition walked :: "string set \<Rightarrow> (string \<times> string) list \<Rightarrow> nat \<Rightarrow> (string \<times> nat \<times> string) list \<Rightarrow> (string \<times> string) list \<Rightarrow> bool" where
  "walked S R d settled F \<longleftrightarrow> (\<forall>p k m. (p, k, m) \<in> set settled \<longleftrightarrow> k < d \<and> nearest S R p k m)
     \<and> (\<forall>p m. (p, m) \<in> set F \<longleftrightarrow> nearest S R p (d - 1) m) \<and> 0 < d"

lemma next_layer:
  assumes w: "walked S R d settled F" and f: "finite S"
  shows "(p, m) \<in> set (nextLayer R (fst ` set settled) F) \<longleftrightarrow> nearest S R p d m"
proof -
  obtain c where c: "d = Suc c" using w by (cases d) (auto simp: walked_def)
  have fr: "(u, n) \<in> set F \<longleftrightarrow> nearest S R u c n" for u n using w by (simp add: walked_def c)
  have st: "p \<in> fst ` set settled \<longleftrightarrow> (\<exists>k n. k < Suc c \<and> nearest S R p k n)"
  proof -
    have "(p, k, n) \<in> set settled \<longleftrightarrow> k < Suc c \<and> nearest S R p k n" for k n using w by (simp add: walked_def c)
    moreover have "p \<in> fst ` set settled \<longleftrightarrow> (\<exists>k n. (p, k, n) \<in> set settled)" by force
    ultimately show ?thesis by simp
  qed
  show ?thesis unfolding nextLayer_mem fr st c
  proof
    assume l: "\<not> (\<exists>k n. k < Suc c \<and> nearest S R p k n) \<and> (\<exists>u. nearest S R u c m \<and> (p, u) \<in> calls R)
      \<and> (\<forall>u n. nearest S R u c n \<and> (p, u) \<in> calls R \<longrightarrow> m \<le> n)"
    then obtain u where "nearest S R u c m" "(p, u) \<in> calls R" by blast
    with l f show "nearest S R p (Suc c) m" by (intro nearest_step [of p u]) (auto simp: not_less_eq)
  next
    assume n: "nearest S R p (Suc c) m"
    have "\<not> nearest S R p k n" if "k < Suc c" for k n using nearest_unique [OF n] that by blast
    moreover have "m \<le> n" if "nearest S R u c n" "(p, u) \<in> calls R" for u n
    proof -
      from that have "n \<in> S" "(u, n) \<in> calls R ^^ c" by (simp_all add: nearest_def)
      with that(2) have "(p, n) \<in> calls R ^^ Suc c" by (blast intro: relpow_Suc_I2)
      with \<open>n \<in> S\<close> n show ?thesis unfolding nearest_def by blast
    qed
    moreover obtain u where "(p, u) \<in> calls R" "nearest S R u c m" using nearest_Suc [OF n f] by blast
    ultimately show "\<not> (\<exists>k n. k < Suc c \<and> nearest S R p k n) \<and> (\<exists>u. nearest S R u c m \<and> (p, u) \<in> calls R)
      \<and> (\<forall>u n. nearest S R u c n \<and> (p, u) \<in> calls R \<longrightarrow> m \<le> n)" by blast
  qed
qed

lemma walked_step:
  assumes "walked S R d settled F" "finite S"
  shows "walked S R (d + 1) (settled @ map (\<lambda>(p, m). (p, d, m)) (nextLayer R (fst ` set settled) F))
    (sort_key fst (nextLayer R (fst ` set settled) F))"
proof -
  have "(p, k, m) \<in> set (map (\<lambda>(p, m). (p, d, m)) (nextLayer R (fst ` set settled) F)) \<longleftrightarrow> k = d \<and> nearest S R p k m" for p k m
    using next_layer [OF assms, of p m] by auto
  with assms(1) next_layer [OF assms] show ?thesis unfolding walked_def by (auto simp: less_Suc_eq)
qed

text \<open>Where one layer is empty, nothing is farther.\<close>

lemma empty_layer: "finite S \<Longrightarrow> (\<And>p m. \<not> nearest S R p d m) \<Longrightarrow> nearest S R p k m \<Longrightarrow> k < d"
proof (induction k arbitrary: p m)
  case 0
  then show ?case by (cases d) auto
next
  case (Suc k)
  from nearest_Suc [OF Suc.prems(3,1)] obtain u where "nearest S R u k m" by blast
  from Suc.IH [OF Suc.prems(1,2) this] Suc.prems show ?case by (metis Suc_lessI)
qed

lemma walk_ends:
  "walked S R d settled F \<Longrightarrow> finite S \<Longrightarrow> (p, k, m) \<in> set (nearLoop R d settled F) \<longleftrightarrow> nearest S R p k m"
proof (induction R d settled F rule: nearLoop.induct)
  case (1 R d settled F)
  show ?case
  proof (cases "F = []")
    case True
    with "1.prems" have none: "\<not> nearest S R p (d - 1) m" "0 < d" for p m by (auto simp: walked_def)
    have "nearest S R p k m \<longrightarrow> k < d" using empty_layer [OF "1.prems"(2) none(1), of p k m] by auto
    with True "1.prems" show ?thesis by (auto simp: nearLoop.simps walked_def)
  next
    case False
    from "1.IH" [OF False refl walked_step [OF "1.prems"] "1.prems"(2)] False show ?thesis
      by (subst nearLoop.simps) (simp add: Let_def)
  qed
qed

lemma walk_mem: "(p, d, m) \<in> set (nearestMember sources reverse) \<longleftrightarrow> nearest (set sources) reverse p d m"
proof -
  have "walked (set sources) reverse 1 (map (\<lambda>s. (s, 0, s)) (sort sources)) (map (\<lambda>s. (s, s)) (sort sources))"
    by (auto simp: walked_def nearest_0)
  from walk_ends [OF this] show ?thesis by (simp add: nearestMember_def)
qed

lemma map_of_relation:
  assumes "\<And>v w. (k, v) \<in> set xs \<Longrightarrow> (k, w) \<in> set xs \<Longrightarrow> v = w"
  shows "map_of xs k = Some v \<longleftrightarrow> (k, v) \<in> set xs"
proof
  show "map_of xs k = Some v \<Longrightarrow> (k, v) \<in> set xs" by (rule map_of_SomeD)
  assume kv: "(k, v) \<in> set xs"
  then obtain w where w: "map_of xs k = Some w" by (cases "map_of xs k") (auto simp: map_of_eq_None_iff image_iff)
  from assms [OF kv map_of_SomeD [OF w]] w show "map_of xs k = Some v" by simp
qed

lemma nearest_lookup:
  "map_of (nearestMember sources reverse) p = Some (d, m) \<longleftrightarrow> nearest (set sources) reverse p d m"
proof -
  have "v = w" if "(p, v) \<in> set (nearestMember sources reverse)" "(p, w) \<in> set (nearestMember sources reverse)" for v w
  proof -
    obtain d m e n where "v = (d, m)" "w = (e, n)" by (cases v; cases w)
    with that nearest_unique show ?thesis by (simp add: walk_mem)
  qed
  from map_of_relation [of p, OF this] show ?thesis by (simp add: walk_mem)
qed

end
