(* ===== verification/Capability_Report.thy ===== *)
theory Capability_Report
  imports Capability_Findings Capability_Near Callgraph_Reuse
begin

text \<open>
  The capability report of a call graph and the difference of two reports
  (\<open>internal/capability/domain/analysis.go\<close>, \<open>rows.go\<close> and \<open>diff.go\<close>).
\<close>

section \<open>The report\<close>

record CapabilityReport =
  cr_Findings :: "CapabilityFinding list"
  cr_Observations :: "CapabilityFinding list"
  cr_Rows :: "WitnessRow list"
  cr_SensitiveCalls :: "SensitiveCall list"
  cr_CollectsAndEgresses :: "CoLocation list"
  cr_InitReachesBoth :: "InitReach list"
  cr_Unanalyzed :: "string list"
  cr_UnanalyzedCallees :: nat
  cr_PackageDefaults :: "PackageDefault list"
  cr_Partial :: bool
  cr_Caveat :: string

definition report_Capabilities :: "CapabilityReport \<Rightarrow> string list" where
  "report_Capabilities r = sort (map cf_Capability (cr_Findings r))"

definition SelectRoots :: "CallGraphRecord \<Rightarrow> RootScope \<Rightarrow> string list" where
  "SelectRoots rec scope = SelectOwnedRoots (map (\<lambda>n. \<lparr>rc_ID = cn_ID n, rc_Symbol = [], rc_Package = [],
     rc_Receiver = [], rc_IsExternal = cn_IsExternal n, rc_IsExportedAPI = False, rc_IsTest = cn_IsTest n,
     rc_Export = zero_export, rc_Handler = zero_handler\<rparr>) (cg_Nodes rec)) scope"

definition statusCaveat :: "int \<Rightarrow> string" where
  "statusCaveat s =
     (if s = CallGraphStatusExtracted then []
      else if s = CallGraphStatusExcludedByConfig then
        ''this module is excluded from call-graph analysis by configuration, so no graph was produced and no capability was searched for; the empty set here is not a measurement''
      else if s \<in> {CallGraphStatusUnknown, CallGraphStatusPartial, CallGraphStatusLoadFailed, CallGraphStatusOutOfMemory,
          CallGraphStatusCancelled, CallGraphStatusExtractionFailed} then
        ''call graph did not fully resolve (status '' @ cgstatus_String s @ ''); capability set is a lower bound and may be incomplete''
      else ''call graph carries a status this build does not recognise ('' @ cgstatus_String s
        @ ''); capability set is a lower bound and may be incomplete'')"

definition reportCaveat :: "string \<Rightarrow> CallGraphRecord \<Rightarrow> string" where
  "reportCaveat analysing rec = (case AnalyserLimitCaveat analysing (cg_FailureDetail rec) of
       Some (clause, remedy) \<Rightarrow>
         if cg_OverallStatus rec \<noteq> CallGraphStatusExtracted then
           TrimSpace (''call graph did not fully resolve (status '' @ cgstatus_String (cg_OverallStatus rec) @ ''): '' @ clause
             @ ''; capability set is a lower bound and may be incomplete. '' @ remedy)
         else statusCaveat (cg_OverallStatus rec)
     | None \<Rightarrow> statusCaveat (cg_OverallStatus rec))"

definition addRowEvidence :: "CapabilityReport \<Rightarrow> string list \<Rightarrow> CallNode list \<Rightarrow> CallEdge list \<Rightarrow> CapabilityReport" where
  "addRowEvidence report roots nodes edges =
     (let owned = ownedRoots roots nodes in
      case collectRows owned nodes (buildAdjacency edges) of (rows, unanalyzed, callees) \<Rightarrow>
        let sensitive = sensitiveCalls rows; memberOf = membersOf sensitive in
        report\<lparr>cr_Rows := rows, cr_Unanalyzed := unanalyzed, cr_UnanalyzedCallees := callees,
          cr_PackageDefaults := packageDefaults rows, cr_SensitiveCalls := sensitive,
          cr_CollectsAndEgresses := collectsAndEgresses rows memberOf,
          cr_InitReachesBoth := initReachesBoth owned nodes edges memberOf\<rparr>)"

text \<open>\<open>analysing\<close> is the Go version of the analysing binary, which the package holds.\<close>

definition Analyse :: "string \<Rightarrow> CallGraphRecord \<Rightarrow> string list \<Rightarrow> RootScope \<Rightarrow> CapabilityReport" where
  "Analyse analysing rec roots scope =
     (let nodes = scopedNodes (cg_Nodes rec) scope in
      case widestPaths roots nodes (buildAdjacency (cg_Edges rec)) of (dist, pred) \<Rightarrow>
      case collectFindings dist pred nodes of (findings, observations) \<Rightarrow>
        addRowEvidence \<lparr>cr_Findings = findings, cr_Observations = observations, cr_Rows = [], cr_SensitiveCalls = [],
            cr_CollectsAndEgresses = [], cr_InitReachesBoth = [], cr_Unanalyzed = [], cr_UnanalyzedCallees = 0,
            cr_PackageDefaults = [], cr_Partial = (cg_OverallStatus rec \<noteq> CallGraphStatusExtracted),
            cr_Caveat = reportCaveat analysing rec\<rparr>
          roots nodes (cg_Edges rec))"

section \<open>What a report finds\<close>

lemma addRowEvidence_findings [simp]:
  "cr_Findings (addRowEvidence r roots nodes edges) = cr_Findings r"
  "cr_Observations (addRowEvidence r roots nodes edges) = cr_Observations r"
  by (simp_all add: addRowEvidence_def Let_def split: prod.splits)

text \<open>
  C6: A report has one finding for each capability that code of the module uses on some path from a
  root through nodes in scope, and its finding carries a real path to a use that no other use beats:
  none is reached more deliberately, and none as deliberately over a more certain path.  It is
  marked as plumbing when every use is.  An observation is reported for a capability that is linked, or a fact of
  a callee's body, and that no code of the module uses.
\<close>

theorem report_finds_every_capability:
  fixes rec roots scope
  defines "nodes \<equiv> scopedNodes (cg_Nodes rec) scope" and "E \<equiv> set (cg_Edges rec)"
  defines "used \<equiv> uses nodes (set roots) E"
  shows "distinct (map cf_Capability (cr_Findings (Analyse analysing rec roots scope)))
    \<and> cf_Capability ` set (cr_Findings (Analyse analysing rec roots scope)) = {c. \<exists>n w nc. used c n w nc}
    \<and> (\<forall>f \<in> set (cr_Findings (Analyse analysing rec roots scope)).
        (\<exists>n w nc. used (cf_Capability f) n w nc \<and> describes f n w nc
           \<and> route (cn_ID ` set nodes) (set roots) E (cf_Path f) w
           \<and> (\<forall>m v mc. used (cf_Capability f) m v mc \<longrightarrow> deliberate m v mc \<le> deliberate n w nc))
        \<and> (cf_PlumbingOnly f \<longleftrightarrow> (\<forall>n w nc. used (cf_Capability f) n w nc \<longrightarrow> IsPlumbing (nc_Reach nc) (cn_Symbol n))))
    \<and> cf_Capability ` set (cr_Observations (Analyse analysing rec roots scope))
        = {c. (\<exists>n w nc. reaches nodes (set roots) E n w \<and> nc \<in> set (NodeCapabilities n) \<and> nc_Capability nc = c
            \<and> nc_Basis nc \<noteq> BasisUse) \<and> \<not> (\<exists>n w nc. used c n w nc)}"
proof -
  obtain dist pred where run: "widestPaths roots nodes (buildAdjacency (cg_Edges rec)) = (dist, pred)" by fastforce
  obtain fs os where col: "collectFindings dist pred nodes = (fs, os)" by fastforce
  have fs: "cr_Findings (Analyse analysing rec roots scope) = fs" "cr_Observations (Analyse analysing rec roots scope) = os"
    by (simp_all add: Analyse_def nodes_def [symmetric] run col Let_def)
  note found = findings_of_search [OF widest_searched [OF run, folded E_def] scopedNodes_distinct [of "cg_Nodes rec" scope, folded nodes_def] col,
      folded used_def]
  show ?thesis unfolding fs by (intro conjI ballI found(1,2,5)) (erule found(3,4))+
qed

lemma reached_widest:
  fixes nodes :: "CallNode list"
  assumes "route (cn_ID ` set nodes) (set roots) (set edges) p w"
  shows "\<exists>v. widestTo (cn_ID ` set nodes) (set roots) (set edges) (last p) v"
proof -
  obtain dist pred where run: "widestPaths roots nodes (buildAdjacency edges) = (dist, pred)" by fastforce
  from searched_route [OF widest_searched [OF run] assms] settled_widest [OF widest_searched [OF run]] show ?thesis by blast
qed

definition mainNode :: CallNode where
  "mainNode = namedNode ''m.main''\<lparr>cn_Package := ''m'', cn_Symbol := ''main''\<rparr>"

definition readNode :: CallNode where
  "readNode = namedNode ''os.ReadFile''\<lparr>cn_Package := ''os'', cn_Symbol := ''ReadFile'', cn_IsExternal := True\<rparr>"

definition readingModule :: CallGraphRecord where
  "readingModule = zero_callgraph\<lparr>cg_Nodes := [mainNode, readNode],
     cg_Edges := [\<lparr>ce_FromID = ''m.main'', ce_ToID = ''os.ReadFile'', ce_CallSite = zero_position,
       ce_Confidence = ConfidenceVTA, ce_ReflectDispatch = False, ce_Kind = EdgeKindCall\<rparr>]\<rparr>"

theorem report_finds_every_capability_witness:
  "\<exists>f n w nc. f \<in> set (cr_Findings (Analyse [] readingModule [''m.main''] RootScopeProduction))
     \<and> cf_Capability f = CapabilityFSRead
     \<and> uses (scopedNodes (cg_Nodes readingModule) RootScopeProduction) (set [''m.main'']) (set (cg_Edges readingModule))
         CapabilityFSRead n w nc \<and> describes f n w nc"
proof -
  let ?nodes = "scopedNodes (cg_Nodes readingModule) RootScopeProduction" and ?E = "set (cg_Edges readingModule)"
  let ?uses = "uses ?nodes (set [''m.main'']) ?E CapabilityFSRead"
  have nodes: "?nodes = [mainNode, readNode]" by code_simp
  have "route (cn_ID ` set ?nodes) (set [''m.main'']) ?E [''m.main''] rankInf"
    unfolding nodes by (intro route.root) (simp_all add: mainNode_def namedNode_def)
  from route.step [OF this, of "hd (cg_Edges readingModule)"]
  have "\<exists>p w. route (cn_ID ` set ?nodes) (set [''m.main'']) ?E p w \<and> last p = cn_ID readNode"
    unfolding nodes by (auto simp: readingModule_def readNode_def namedNode_def)
  then obtain v where "widestTo (cn_ID ` set ?nodes) (set [''m.main'']) ?E (cn_ID readNode) v"
    using reached_widest by metis
  then have r: "reaches ?nodes (set [''m.main'']) ?E readNode v" by (simp add: reaches_def nodes)
  have "list_ex (\<lambda>nc. nc_Capability nc = CapabilityFSRead \<and> nc_Basis nc = BasisUse) (NodeCapabilities readNode)" by code_simp
  with r have u: "\<exists>n w nc. ?uses n w nc" unfolding uses_def list_ex_iff by blast
  note all = report_finds_every_capability [where analysing = "[]" and rec = readingModule and roots = "[''m.main'']"
      and scope = RootScopeProduction]
  have "CapabilityFSRead \<in> cf_Capability ` set (cr_Findings (Analyse [] readingModule [''m.main''] RootScopeProduction))"
    unfolding all [THEN conjunct2, THEN conjunct1] mem_Collect_eq by (rule u)
  then obtain f where f: "f \<in> set (cr_Findings (Analyse [] readingModule [''m.main''] RootScopeProduction))"
    "cf_Capability f = CapabilityFSRead" by (elim imageE) simp
  from all [THEN conjunct2, THEN conjunct2, THEN conjunct1, THEN bspec, OF f(1), THEN conjunct1]
  obtain n w nc where "?uses n w nc" "describes f n w nc" unfolding f(2) by (elim exE conjE)
  with f show ?thesis by (intro exI conjI)
qed

section \<open>What a reader is shown\<close>

lemma set_ownedRoots:
  "distinct (map cn_ID nodes) \<Longrightarrow> set (ownedRoots roots nodes) = {n \<in> set nodes. cn_ID n \<in> set roots \<and> \<not> cn_IsExternal n}"
proof -
  assume d: "distinct (map cn_ID nodes)"
  have "n \<in> set (case nodeAt nodes i of Some n \<Rightarrow> if \<not> cn_IsExternal n then [n] else [] | None \<Rightarrow> [])
      \<longleftrightarrow> nodeAt nodes i = Some n \<and> \<not> cn_IsExternal n" for i n
    by (cases "nodeAt nodes i") auto
  then show ?thesis by (auto simp: ownedRoots_def nodeAt_Some [OF d])
qed

lemma addRowEvidence_rows:
  "cr_Rows (addRowEvidence r roots nodes edges) = fst (collectRows (ownedRoots roots nodes) nodes (buildAdjacency edges))"
  by (simp add: addRowEvidence_def Let_def split: prod.splits)

lemma Analyse_Rows:
  "cr_Rows (Analyse analysing rec roots scope) = fst (collectRows (ownedRoots roots (scopedNodes (cg_Nodes rec) scope))
     (scopedNodes (cg_Nodes rec) scope) (buildAdjacency (cg_Edges rec)))"
  unfolding Analyse_def Let_def by (simp only: prod.case_eq_if addRowEvidence_rows)

lemma unmarked_fields [simp]: "rowKey (unmarked r) = rowKey r" "wr_Confidence (unmarked r) = wr_Confidence r"
  "wr_Capability (unmarked r) = wr_Capability r" "wr_isPlumbing (unmarked r) = wr_isPlumbing r"
  by (simp_all add: unmarked_def rowKey_def)

lemma stated_unmarked: "r \<in> stated nodes E c \<Longrightarrow> unmarked r = r \<and> \<not> wr_PlumbingOnly r"
  by (auto simp: stated_def bodyRow_def edgeRow_def unmarked_def split: if_splits)

lemma markLoop_unmarked: "unmarked ` set (markLoop others promoted rs) = unmarked ` set rs"
  unfolding set_map [symmetric] markLoop_rows ..

text \<open>Marking hides no capability: one of its rows is shown, unless its tier hides all of them.\<close>

lemma markSuppression_shows:
  assumes fresh: "\<forall>q \<in> set rs. \<not> wr_PlumbingOnly q" and c: "c \<in> wr_Capability ` set rs" "Tier c \<noteq> TierSuppressed"
  shows "\<exists>r \<in> set (markSuppression rs). wr_Capability r = c \<and> \<not> wr_Suppressed r"
proof (cases "\<exists>q \<in> set rs. wr_Capability q = c \<and> \<not> wr_isPlumbing q")
  case True
  then obtain q where q: "q \<in> set rs" "wr_Capability q = c" "\<not> wr_isPlumbing q" by blast
  have "unmarked q \<in> unmarked ` set (markSuppression rs)"
    unfolding markSuppression_def markLoop_unmarked using q(1) by (rule imageI)
  then obtain r where r: "r \<in> set (markSuppression rs)" "unmarked r = unmarked q" by (elim imageE) simp
  have "wr_Capability r = c" "\<not> wr_isPlumbing r" using arg_cong [OF r(2), of wr_Capability] arg_cong [OF r(2), of wr_isPlumbing] q by simp_all
  with r(1) markLoop_shown [of r _ "[]" rs] fresh c(2) show ?thesis unfolding markSuppression_def by blast
next
  case False
  let ?others = "map wr_Capability (filter (\<lambda>r. \<not> wr_isPlumbing r) rs)"
  have "\<forall>q \<in> set rs. \<not> wr_isPlumbing q \<longrightarrow> wr_Capability q \<in> set ?others" by auto
  moreover have "c \<notin> set ?others" using False by auto
  ultimately have "filter (\<lambda>r. wr_PlumbingOnly r \<and> wr_Capability r = c) (markSuppression rs) \<noteq> []"
    using markLoop_promotes [OF fresh, of ?others c "[]"] c(1) unfolding markSuppression_def
    by (metis (no_types, lifting) empty_iff list.set(1) list.size(3) zero_neq_one)
  then obtain r where r: "r \<in> set (markSuppression rs)" "wr_PlumbingOnly r" "wr_Capability r = c"
    by (auto simp: filter_empty_conv)
  with markLoop_shown [of r ?others "[]" rs] fresh c(2) show ?thesis unfolding markSuppression_def by blast
qed

text \<open>The parts of a row's key that come from a fixed vocabulary hold no separator, so keys keep them apart.\<close>

lemma capability_plain: "c \<in> set AllCapabilities \<Longrightarrow> CHR 0x00 \<notin> set c"
proof -
  have "list_all (\<lambda>c. CHR 0x00 \<notin> set c) AllCapabilities" by code_simp
  then show "c \<in> set AllCapabilities \<Longrightarrow> CHR 0x00 \<notin> set c" by (auto simp: list_all_iff)
qed

lemma kind_plain: "CHR 0x00 \<notin> set (NodeCallerKind n)"
  by (simp add: NodeCallerKind_def CallerTestInit_def CallerInit_def CallerTest_def CallerMain_def CallerExportedAPI_def CallerInternal_def)

lemma stated_vocabulary:
  assumes "r \<in> stated nodes E c"
  shows "CHR 0x00 \<notin> set (wr_CallerKind r)" "CHR 0x00 \<notin> set (wr_Capability r)"
proof -
  have "wr_Capability r \<in> set AllCapabilities \<and> wr_CallerKind r = NodeCallerKind c"
    using assms node_labels by (fastforce simp: stated_def bodyRow_def edgeRow_def AllCapabilities_def split: if_splits)
  then show "CHR 0x00 \<notin> set (wr_CallerKind r)" "CHR 0x00 \<notin> set (wr_Capability r)" by (auto simp: capability_plain kind_plain)
qed

lemma first_part: "c \<notin> set a \<Longrightarrow> c \<notin> set b \<Longrightarrow> a @ c # x = b @ c # y \<Longrightarrow> a = b \<and> x = y"
proof (induction a arbitrary: b)
  case Nil
  then show ?case by (cases b) auto
next
  case (Cons u a)
  then show ?case by (cases b) auto
qed

lemma rowKey_capability:
  assumes "r \<in> stated nodes E c" "q \<in> stated nodes E d" "rowKey r = rowKey q"
  shows "wr_Capability r = wr_Capability q"
  using assms(3) first_part [OF stated_vocabulary(1) [OF assms(1)] stated_vocabulary(1) [OF assms(2)]]
    first_part [OF stated_vocabulary(2) [OF assms(1)] stated_vocabulary(2) [OF assms(2)]]
  unfolding rowKey_def append_Cons append_Nil by blast

text \<open>
  C7: A report's rows tell every use by the code of the module that is in scope: there is one row for
  each caller kind, capability, reach, callee and caller, with the most certain edge it rests on.
  A row is hidden for its tier, or as plumbing unless it stands for its capability; and a
  capability that is used and not hidden for its tier has a row that is shown.
\<close>

theorem rows_tell_every_use:
  fixes rec roots scope
  defines "nodes \<equiv> scopedNodes (cg_Nodes rec) scope"
  defines "S \<equiv> (\<Union>c \<in> {n \<in> set nodes. cn_ID n \<in> set roots \<and> \<not> cn_IsExternal n}. stated nodes (set (cg_Edges rec)) c)"
  shows "distinct (map rowKey (cr_Rows (Analyse analysing rec roots scope)))
    \<and> rowKey ` set (cr_Rows (Analyse analysing rec roots scope)) = rowKey ` S
    \<and> (\<forall>r \<in> set (cr_Rows (Analyse analysing rec roots scope)). unmarked r \<in> S
        \<and> (\<forall>q \<in> S. rowKey q = rowKey r \<longrightarrow> confRank (wr_Confidence q) \<le> confRank (wr_Confidence r))
        \<and> (wr_Suppressed r \<longleftrightarrow> Tier (wr_Capability r) = TierSuppressed \<or> (wr_isPlumbing r \<and> \<not> wr_PlumbingOnly r)))
    \<and> (\<forall>q \<in> S. Tier (wr_Capability q) \<noteq> TierSuppressed
        \<longrightarrow> (\<exists>r \<in> set (cr_Rows (Analyse analysing rec roots scope)). wr_Capability r = wr_Capability q \<and> \<not> wr_Suppressed r))"
proof -
  have d: "distinct (map cn_ID nodes)" unfolding nodes_def by (rule scopedNodes_distinct)
  define xs where "xs = fold (callerStep nodes (buildAdjacency (cg_Edges rec))) (ownedRoots roots nodes) []"
  define ys where "ys = sortRows xs"
  have rows: "cr_Rows (Analyse analysing rec roots scope) = markSuppression ys"
    unfolding Analyse_Rows nodes_def [symmetric] by (simp add: collectRows_def xs_def ys_def)
  have k: "rows.kept S xs"
    using fold_callers [OF d set_buildAdjacency [of "cg_Edges rec"], where seen = "{}" and xs = "[]" and owned = "ownedRoots roots nodes"]
    by (simp add: rows.kept_def [of "{}" "[]"] set_ownedRoots [OF d] S_def xs_def)
  have ys: "set ys = set xs" "mset ys = mset xs" by (simp_all add: ys_def sortRows_def)
  have um: "unmarked r = r" "\<not> wr_PlumbingOnly r" if "r \<in> set ys" for r
    using that rows.kept_seen [OF k] stated_unmarked unfolding ys S_def by blast+
  have seen: "unmarked ` set (markSuppression ys) = set ys"
    unfolding markSuppression_def markLoop_unmarked using um(1) by force
  have keys: "map rowKey (markSuppression ys) = map rowKey ys"
    using arg_cong [OF markLoop_rows [of "map wr_Capability (filter (\<lambda>r. \<not> wr_isPlumbing r) ys)" "[]" ys], of "map rowKey"]
    by (simp add: markSuppression_def o_def)
  have 1: "distinct (map rowKey (markSuppression ys))"
    unfolding keys using rows.kept_distinct [OF k] ys(2) by (metis mset_map mset_eq_imp_distinct_iff)
  have 2: "rowKey ` set (markSuppression ys) = rowKey ` S"
    using arg_cong [OF keys, of set] rows.kept_keys [OF k] by (simp add: ys(1))
  have 3: "unmarked r \<in> S \<and> (\<forall>q \<in> S. rowKey q = rowKey r \<longrightarrow> confRank (wr_Confidence q) \<le> confRank (wr_Confidence r))
        \<and> (wr_Suppressed r \<longleftrightarrow> Tier (wr_Capability r) = TierSuppressed \<or> (wr_isPlumbing r \<and> \<not> wr_PlumbingOnly r))"
    if r: "r \<in> set (markSuppression ys)" for r
  proof -
    have u: "unmarked r \<in> set xs" using r seen ys(1) by blast
    then have "unmarked r \<in> S" by (rule rows.kept_seen [OF k])
    moreover have "confRank (wr_Confidence q) \<le> confRank (wr_Confidence r)" if "q \<in> S" "rowKey q = rowKey r" for q
      using rows.kept_best [OF k u that(1)] that(2) by simp
    ultimately show ?thesis
      using markLoop_shown [of r _ "[]" ys] r um(2) unfolding markSuppression_def by blast
  qed
  have 4: "\<exists>r \<in> set (markSuppression ys). wr_Capability r = wr_Capability q \<and> \<not> wr_Suppressed r"
    if q: "q \<in> S" "Tier (wr_Capability q) \<noteq> TierSuppressed" for q
  proof -
    from q(1) rows.kept_keys [OF k] obtain x where x: "x \<in> set xs" "rowKey x = rowKey q" by (metis imageE imageI)
    from rows.kept_seen [OF k x(1)] q(1) rowKey_capability x(2) have c: "wr_Capability x = wr_Capability q" unfolding S_def by blast
    have "wr_Capability q \<in> wr_Capability ` set ys" unfolding ys(1) c [symmetric] using x(1) by (rule imageI)
    from markSuppression_shows [OF _ this q(2)] um(2) show ?thesis by blast
  qed
  show ?thesis unfolding rows using 1 2 3 4 by blast
qed

theorem rows_tell_every_use_witness:
  "\<exists>r \<in> set (cr_Rows (Analyse [] readingModule [''m.main''] RootScopeProduction)).
     wr_Capability r = CapabilityFSRead \<and> \<not> wr_Suppressed r"
proof -
  let ?nodes = "scopedNodes (cg_Nodes readingModule) RootScopeProduction" and ?e = "hd (cg_Edges readingModule)"
  have nodes: "?nodes = [mainNode, readNode]" by code_simp
  have "list_ex (\<lambda>nc. nc_Capability nc = CapabilityFSRead \<and> nc_Basis nc = BasisUse) (NodeCapabilities readNode)" by code_simp
  then obtain nc where nc: "nc \<in> set (NodeCapabilities readNode)" "nc_Capability nc = CapabilityFSRead" "nc_Basis nc = BasisUse"
    by (auto simp: list_ex_iff)
  have e: "?e \<in> set (cg_Edges readingModule)" "ce_FromID ?e = cn_ID mainNode" "cn_ID readNode = ce_ToID ?e" "cn_IsExternal readNode"
    "\<not> cn_IsExternal mainNode" "cn_ID mainNode = ''m.main''"
    by (simp_all add: readingModule_def mainNode_def readNode_def namedNode_def)
  have "edgeRow mainNode ?e readNode nc \<in> stated ?nodes (set (cg_Edges readingModule)) mainNode"
    unfolding stated_def nodes by (intro UnI2 CollectI exI conjI refl) (use nc e in simp_all)
  then have s: "edgeRow mainNode ?e readNode nc \<in> (\<Union>c \<in> {n \<in> set ?nodes. cn_ID n \<in> set [''m.main''] \<and> \<not> cn_IsExternal n}.
      stated ?nodes (set (cg_Edges readingModule)) c)"
    by (rule UN_I [rotated]) (simp add: nodes e)
  have c: "wr_Capability (edgeRow mainNode ?e readNode nc) = CapabilityFSRead" by (simp add: edgeRow_def nc)
  have t: "Tier CapabilityFSRead \<noteq> TierSuppressed" by code_simp
  note all = rows_tell_every_use [where analysing = "[]" and rec = readingModule and roots = "[''m.main'']"
      and scope = RootScopeProduction]
  from all [THEN conjunct2, THEN conjunct2, THEN conjunct2, THEN bspec, OF s, unfolded c, THEN mp, OF t] show ?thesis .
qed

section \<open>Initialisers\<close>

lemma in_concat_map: "r \<in> set (concat (map f xs)) \<longleftrightarrow> (\<exists>n \<in> set xs. r \<in> set (f n))"
  by auto

text \<open>
  C19: An initialiser is named exactly when calls lead from it to a collection and to an egress member; the
  members named are the nearest ones, the smallest of those as near, with their hop counts.
\<close>

theorem initialisers_reach_both:
  "r \<in> set (initReachesBoth owned nodes edges memberOf) \<longleftrightarrow>
     (\<exists>n cd cm ed em. n \<in> set owned \<and> IsInitSymbol (cn_Symbol n)
        \<and> nearest (set (fst (memberNodes nodes memberOf))) (reverseEdges nodes edges) (cn_ID n) cd cm
        \<and> nearest (set (snd (memberNodes nodes memberOf))) (reverseEdges nodes edges) (cn_ID n) ed em
        \<and> r = \<lparr>ir_Init = cn_ID n, ir_CallerKind = NodeCallerKind n, ir_Depth = max cd ed, ir_CollectionDepth = cd,
             ir_EgressDepth = ed, ir_Collection = NormaliseCallee cm, ir_Egress = NormaliseCallee em\<rparr>)"
proof -
  obtain C G where m: "memberNodes nodes memberOf = (C, G)" by (cases "memberNodes nodes memberOf")
  let ?R = "reverseEdges nodes edges"
  let ?c = "map_of (nearestMember C ?R)" and ?e = "map_of (nearestMember G ?R)"
  let ?at = "\<lambda>n. if \<not> IsInitSymbol (cn_Symbol n) then [] else (case (?c (cn_ID n), ?e (cn_ID n)) of
           (Some (cd, cm), Some (ed, em)) \<Rightarrow> [\<lparr>ir_Init = cn_ID n, ir_CallerKind = NodeCallerKind n, ir_Depth = max cd ed,
               ir_CollectionDepth = cd, ir_EgressDepth = ed,
               ir_Collection = NormaliseCallee cm, ir_Egress = NormaliseCallee em\<rparr>]
         | _ \<Rightarrow> [])"
  have none: "\<not> nearest (set []) R p d q" for R p d q by (simp add: nearest_def)
  have at: "r \<in> set (?at n) \<longleftrightarrow> IsInitSymbol (cn_Symbol n) \<and> (\<exists>cd cm ed em. nearest (set C) ?R (cn_ID n) cd cm
      \<and> nearest (set G) ?R (cn_ID n) ed em
      \<and> r = \<lparr>ir_Init = cn_ID n, ir_CallerKind = NodeCallerKind n, ir_Depth = max cd ed, ir_CollectionDepth = cd,
             ir_EgressDepth = ed, ir_Collection = NormaliseCallee cm, ir_Egress = NormaliseCallee em\<rparr>)" for n
    unfolding nearest_lookup [symmetric] by (cases "?c (cn_ID n)"; cases "?e (cn_ID n)") auto
  show ?thesis
  proof (cases "C = [] \<or> G = []")
    case True
    then show ?thesis unfolding initReachesBoth_def m using none by auto
  next
    case False
    then have "initReachesBoth owned nodes edges memberOf = concat (map ?at owned)"
      unfolding initReachesBoth_def m by (simp add: Let_def)
    then have "r \<in> set (initReachesBoth owned nodes edges memberOf) \<longleftrightarrow> (\<exists>n \<in> set owned. r \<in> set (?at n))"
      by (simp only: in_concat_map)
    then show ?thesis unfolding at m fst_conv snd_conv by blast
  qed
qed

end
