(* ===== verification/Capability_Diff.thy ===== *)
theory Capability_Diff
  imports Capability_Report
begin

text \<open>
  What changed between two capability reports, and how rows are grouped for a reader
  (\<open>internal/capability/domain/diff.go\<close>).
\<close>

section \<open>The difference\<close>

record InitReachDepthChange =
  dc_From :: InitReach
  dc_To :: InitReach

record CapabilityDiff =
  xd_Added :: "string list"
  xd_Removed :: "string list"
  xd_Common :: "string list"
  xd_RowsAdded :: "WitnessRow list"
  xd_RowsRemoved :: "WitnessRow list"
  xd_FromRows :: nat
  xd_ToRows :: nat
  xd_SensitiveAdded :: "SensitiveCall list"
  xd_SensitiveRemoved :: "SensitiveCall list"
  xd_CollectsAdded :: "CoLocation list"
  xd_CollectsRemoved :: "CoLocation list"
  xd_InitAdded :: "InitReach list"
  xd_InitRemoved :: "InitReach list"
  xd_InitDepthChanged :: "InitReachDepthChange list"
  xd_UnanalyzedAdded :: "string list"
  xd_UnanalyzedRemoved :: "string list"
  xd_ParityOK :: bool
  xd_Caveat :: string

definition Unchanged :: "CapabilityDiff \<Rightarrow> bool" where
  "Unchanged d \<longleftrightarrow> xd_Added d = [] \<and> xd_Removed d = [] \<and> xd_RowsAdded d = [] \<and> xd_RowsRemoved d = []
     \<and> xd_SensitiveAdded d = [] \<and> xd_SensitiveRemoved d = [] \<and> xd_CollectsAdded d = [] \<and> xd_CollectsRemoved d = []
     \<and> xd_InitAdded d = [] \<and> xd_InitRemoved d = [] \<and> xd_InitDepthChanged d = []
     \<and> xd_UnanalyzedAdded d = [] \<and> xd_UnanalyzedRemoved d = []"

definition onlyOn :: "('a \<Rightarrow> string) \<Rightarrow> 'a list \<Rightarrow> 'a list \<Rightarrow> 'a list \<times> 'a list" where
  "onlyOn key old new = (filter (\<lambda>x. key x \<notin> key ` set old) new, filter (\<lambda>x. key x \<notin> key ` set new) old)"

definition depthChanges :: "InitReach list \<Rightarrow> InitReach list \<Rightarrow> InitReachDepthChange list" where
  "depthChanges old new = (let byKey = map_of (rev (map (\<lambda>r. (init_key r, r)) old)) in
     concat (map (\<lambda>r. (case byKey (init_key r) of
         Some f \<Rightarrow> if ir_Depth f \<noteq> ir_Depth r then [\<lparr>dc_From = f, dc_To = r\<rparr>] else []
       | None \<Rightarrow> [])) new))"

definition capabilitySet :: "CapabilityReport \<Rightarrow> string set" where
  "capabilitySet r = cf_Capability ` set (cr_Findings r)"

definition DiffCapabilities :: "CapabilityReport \<Rightarrow> CapabilityReport \<Rightarrow> CapabilityDiff" where
  "DiffCapabilities old new =
     (let oldCaps = sorted_distinct (map cf_Capability (cr_Findings old)); newCaps = sorted_distinct (map cf_Capability (cr_Findings new));
        ok = \<not> cr_Partial old \<and> \<not> cr_Partial new;
        rows = onlyOn rowKey (cr_Rows old) (cr_Rows new);
        calls = onlyOn sensitive_key (cr_SensitiveCalls old) (cr_SensitiveCalls new);
        meets = onlyOn co_Function (cr_CollectsAndEgresses old) (cr_CollectsAndEgresses new);
        inits = onlyOn init_key (cr_InitReachesBoth old) (cr_InitReachesBoth new);
        opaque = onlyOn (\<lambda>i. i) (cr_Unanalyzed old) (cr_Unanalyzed new) in
      \<lparr>xd_Added = filter (\<lambda>c. c \<notin> capabilitySet old) newCaps, xd_Removed = filter (\<lambda>c. c \<notin> capabilitySet new) oldCaps,
       xd_Common = filter (\<lambda>c. c \<in> capabilitySet old) newCaps,
       xd_RowsAdded = fst rows, xd_RowsRemoved = snd rows,
       xd_FromRows = length (cr_Rows old), xd_ToRows = length (cr_Rows new),
       xd_SensitiveAdded = fst calls, xd_SensitiveRemoved = snd calls,
       xd_CollectsAdded = fst meets, xd_CollectsRemoved = snd meets,
       xd_InitAdded = fst inits, xd_InitRemoved = snd inits,
       xd_InitDepthChanged = depthChanges (cr_InitReachesBoth old) (cr_InitReachesBoth new),
       xd_UnanalyzedAdded = fst opaque, xd_UnanalyzedRemoved = snd opaque, xd_ParityOK = ok,
       xd_Caveat = (if ok then []
         else ''capability diff is not valid: at least one version was analysed over a Partial call graph; re-analyse both at equal completeness before trusting added/removed'')\<rparr>)"

section \<open>Groups of rows\<close>

record RowGroup =
  rg_CallerKind :: string
  rg_Capability :: string
  rg_Reach :: string
  rg_Callee :: string
  rg_BodyFact :: bool
  rg_Callers :: "string list"
  rg_Confidence :: string
  rg_Suppressed :: bool
  rg_PlumbingOnly :: bool

definition groupKey :: "WitnessRow \<Rightarrow> string" where
  "groupKey r = (if Collapsed (wr_CallerKind r)
     then Join [wr_CallerKind r, wr_Capability r, wr_Reach r, wr_Callee r] [CHR 0x00] else rowKey r)"

definition groupOfRows :: "WitnessRow list \<Rightarrow> RowGroup" where
  "groupOfRows g = \<lparr>rg_CallerKind = wr_CallerKind (hd g), rg_Capability = wr_Capability (hd g), rg_Reach = wr_Reach (hd g),
     rg_Callee = wr_Callee (hd g), rg_BodyFact = wr_BodyFact (hd g), rg_Callers = sort (map wr_Caller g),
     rg_Confidence = wr_Confidence (hd g), rg_Suppressed = list_all wr_Suppressed g, rg_PlumbingOnly = list_ex wr_PlumbingOnly g\<rparr>"

definition GroupRows :: "WitnessRow list \<Rightarrow> RowGroup list" where
  "GroupRows rows = map groupOfRows (groupsBy groupKey (sortRows rows))"

section \<open>What a difference says\<close>

lemma onlyOn_Nil: "fst (onlyOn key old new) = [] \<and> snd (onlyOn key old new) = [] \<longleftrightarrow> key ` set old = key ` set new"
  by (auto simp: onlyOn_def filter_empty_conv image_iff)

text \<open>
  A list names what \<open>new\<close> has and \<open>old\<close> lacks, by a key: those elements of \<open>new\<close> and no others, as often
  and in the order \<open>new\<close> has them.
\<close>

definition listsOnly :: "('a \<Rightarrow> string) \<Rightarrow> 'a list \<Rightarrow> 'a list \<Rightarrow> 'a list \<Rightarrow> bool" where
  "listsOnly key old new xs \<longleftrightarrow> subseq xs new \<and> mset xs = {#x \<in># mset new. \<forall>y \<in> set old. key y \<noteq> key x#}"

text \<open>The last reach an earlier report states for an initialiser and its two members.\<close>

definition latest :: "InitReach list \<Rightarrow> string \<Rightarrow> InitReach \<Rightarrow> bool" where
  "latest old k f \<longleftrightarrow> find (\<lambda>g. init_key g = k) (rev old) = Some f"

text \<open>A list pairs each reach of the later report with the earlier one, where both have it at another depth.\<close>

definition pairsDepths :: "InitReach list \<Rightarrow> InitReach list \<Rightarrow> InitReachDepthChange list \<Rightarrow> bool" where
  "pairsDepths old new cs \<longleftrightarrow> subseq (map dc_To cs) new
     \<and> mset (map dc_To cs) = {#r \<in># mset new. \<exists>f. latest old (init_key r) f \<and> ir_Depth f \<noteq> ir_Depth r#}
     \<and> (\<forall>c \<in> set cs. latest old (init_key (dc_To c)) (dc_From c))"

lemma onlyOn_lists: "listsOnly key old new (fst (onlyOn key old new))" "listsOnly key new old (snd (onlyOn key old new))"
proof -
  have "listsOnly key old new (filter (\<lambda>x. key x \<notin> key ` set old) new)" for old new
    by (auto simp: listsOnly_def mset_filter image_iff intro!: filter_mset_cong)
  then show "listsOnly key old new (fst (onlyOn key old new))" "listsOnly key new old (snd (onlyOn key old new))"
    by (simp_all add: onlyOn_def)
qed

lemma last_stated: "map_of (rev (map (\<lambda>r. (init_key r, r)) old)) k = Some f \<longleftrightarrow> latest old k f"
proof -
  have "map_of (map (\<lambda>r. (init_key r, r)) rs) k = find (\<lambda>r. init_key r = k) rs" for rs by (induction rs) simp_all
  then show ?thesis by (simp add: latest_def rev_map)
qed

definition sameDepths :: "InitReach list \<Rightarrow> InitReach list \<Rightarrow> bool" where
  "sameDepths old new \<longleftrightarrow> (\<forall>r \<in> set new. \<forall>f. latest old (init_key r) f \<longrightarrow> ir_Depth f = ir_Depth r)"

lemma depthChanges_pairs: "pairsDepths old new (depthChanges old new)"
proof -
  let ?m = "map_of (rev (map (\<lambda>r. (init_key r, r)) old))"
  let ?at = "\<lambda>r. case ?m (init_key r) of Some f \<Rightarrow> if ir_Depth f \<noteq> ir_Depth r then [\<lparr>dc_From = f, dc_To = r\<rparr>] else [] | None \<Rightarrow> []"
  have to: "map dc_To (concat (map ?at rs)) = filter (\<lambda>r. \<exists>f. latest old (init_key r) f \<and> ir_Depth f \<noteq> ir_Depth r) rs" for rs
    by (induction rs) (auto simp: last_stated [symmetric] split: option.split)
  have "\<forall>c \<in> set (depthChanges old new). latest old (init_key (dc_To c)) (dc_From c)"
    by (auto simp: depthChanges_def Let_def last_stated [symmetric] split: option.splits if_splits)
  moreover have "depthChanges old new = concat (map ?at new)" by (simp add: depthChanges_def)
  ultimately show ?thesis unfolding pairsDepths_def by (simp add: to mset_filter)
qed

lemma depthChanges_none: "depthChanges old new = [] \<longleftrightarrow> sameDepths old new"
  by (auto simp: sameDepths_def depthChanges_def Let_def last_stated [symmetric] split: option.splits)

text \<open>The lists of a difference.\<close>

lemma capability_lists:
  fixes old new
  defines "d \<equiv> DiffCapabilities old new"
  shows "xd_RowsAdded d = fst (onlyOn rowKey (cr_Rows old) (cr_Rows new))"
    "xd_RowsRemoved d = snd (onlyOn rowKey (cr_Rows old) (cr_Rows new))"
    "xd_SensitiveAdded d = fst (onlyOn sensitive_key (cr_SensitiveCalls old) (cr_SensitiveCalls new))"
    "xd_SensitiveRemoved d = snd (onlyOn sensitive_key (cr_SensitiveCalls old) (cr_SensitiveCalls new))"
    "xd_CollectsAdded d = fst (onlyOn co_Function (cr_CollectsAndEgresses old) (cr_CollectsAndEgresses new))"
    "xd_CollectsRemoved d = snd (onlyOn co_Function (cr_CollectsAndEgresses old) (cr_CollectsAndEgresses new))"
    "xd_InitAdded d = fst (onlyOn init_key (cr_InitReachesBoth old) (cr_InitReachesBoth new))"
    "xd_InitRemoved d = snd (onlyOn init_key (cr_InitReachesBoth old) (cr_InitReachesBoth new))"
    "xd_UnanalyzedAdded d = fst (onlyOn (\<lambda>i. i) (cr_Unanalyzed old) (cr_Unanalyzed new))"
    "xd_UnanalyzedRemoved d = snd (onlyOn (\<lambda>i. i) (cr_Unanalyzed old) (cr_Unanalyzed new))"
    "xd_InitDepthChanged d = depthChanges (cr_InitReachesBoth old) (cr_InitReachesBoth new)"
    "xd_FromRows d = length (cr_Rows old)" "xd_ToRows d = length (cr_Rows new)"
  by (simp_all add: d_def DiffCapabilities_def Let_def)

lemma capability_sets:
  fixes old new
  defines "d \<equiv> DiffCapabilities old new"
  shows "set (xd_Added d) = capabilitySet new - capabilitySet old" "set (xd_Removed d) = capabilitySet old - capabilitySet new"
    "set (xd_Common d) = capabilitySet old \<inter> capabilitySet new"
    "sorted_wrt (<) (xd_Added d)" "sorted_wrt (<) (xd_Removed d)" "sorted_wrt (<) (xd_Common d)"
    "xd_ParityOK d \<longleftrightarrow> \<not> (cr_Partial old \<or> cr_Partial new)" "xd_ParityOK d \<longleftrightarrow> xd_Caveat d = []"
  by (auto simp: d_def DiffCapabilities_def Let_def capabilitySet_def sorted_distinct_def strict_sorted_iff sorted_wrt_filter)

lemma Unchanged_iff:
  "Unchanged (DiffCapabilities old new) \<longleftrightarrow> capabilitySet old = capabilitySet new \<and> rowKey ` set (cr_Rows old) = rowKey ` set (cr_Rows new)
     \<and> sensitive_key ` set (cr_SensitiveCalls old) = sensitive_key ` set (cr_SensitiveCalls new)
     \<and> co_Function ` set (cr_CollectsAndEgresses old) = co_Function ` set (cr_CollectsAndEgresses new)
     \<and> init_key ` set (cr_InitReachesBoth old) = init_key ` set (cr_InitReachesBoth new)
     \<and> sameDepths (cr_InitReachesBoth old) (cr_InitReachesBoth new)
     \<and> set (cr_Unanalyzed old) = set (cr_Unanalyzed new)"
proof -
  have caps: "xd_Added (DiffCapabilities old new) = [] \<and> xd_Removed (DiffCapabilities old new) = []
      \<longleftrightarrow> capabilitySet old = capabilitySet new"
    using capability_sets(1,2) [of old new] by (simp only: set_empty [symmetric]) blast
  have "Unchanged d \<longleftrightarrow> (xd_Added d = [] \<and> xd_Removed d = []) \<and> (xd_RowsAdded d = [] \<and> xd_RowsRemoved d = [])
      \<and> (xd_SensitiveAdded d = [] \<and> xd_SensitiveRemoved d = []) \<and> (xd_CollectsAdded d = [] \<and> xd_CollectsRemoved d = [])
      \<and> (xd_InitAdded d = [] \<and> xd_InitRemoved d = []) \<and> xd_InitDepthChanged d = []
      \<and> (xd_UnanalyzedAdded d = [] \<and> xd_UnanalyzedRemoved d = [])" for d
    unfolding Unchanged_def by blast
  from this [of "DiffCapabilities old new"] show ?thesis unfolding caps capability_lists onlyOn_Nil depthChanges_none image_ident .
qed


end
