(* ===== verification/Stamp_Parse.thy ===== *)
theory Stamp_Parse
  imports Record_Stamp "HOL-Library.Monad_Syntax"
begin

text \<open>
  Reading a stamp back: \<open>Parse\<close> of \<open>internal/recordstamp/recordstamp.go\<close> and the \<open>time.Parse\<close> it calls with
  the layout \<open>time.RFC3339\<close>.  The standard library's parser is written out with what it tolerates: an hour of
  one digit, a fraction of any length behind a period or a comma, offsets up to 24:60.
\<close>

section \<open>The fields\<close>

definition isDigit :: "char \<Rightarrow> bool" where
  "isDigit c \<longleftrightarrow> 48 \<le> (of_char c :: nat) \<and> (of_char c :: nat) \<le> 57"

definition digitValue :: "char \<Rightarrow> int" where
  "digitValue c = int (of_char c) - 48"

definition digitsValue :: "string \<Rightarrow> int" where
  "digitsValue ds = foldl (\<lambda>n c. 10 * n + digitValue c) 0 ds"

fun getnum :: "bool \<Rightarrow> string \<Rightarrow> (int \<times> string) option" where
  "getnum fixed (a # b # r) =
     (if \<not> isDigit a then None
      else if \<not> isDigit b then (if fixed then None else Some (digitValue a, b # r))
      else Some (10 * digitValue a + digitValue b, r))"
| "getnum fixed [a] = (if isDigit a \<and> \<not> fixed then Some (digitValue a, []) else None)"
| "getnum fixed [] = None"

definition getnumIn :: "bool \<Rightarrow> int \<Rightarrow> int \<Rightarrow> string \<Rightarrow> (int \<times> string) option" where
  "getnumIn fixed lo hi s = do {
     (n, r) \<leftarrow> getnum fixed s;
     if lo \<le> n \<and> n \<le> hi then Some (n, r) else None }"

definition longYear :: "string \<Rightarrow> (int \<times> string) option" where
  "longYear s = (if length s < 4 \<or> \<not> list_all isDigit (take 4 s) then None
     else Some (digitsValue (take 4 s), drop 4 s))"

definition skip :: "char \<Rightarrow> string \<Rightarrow> string option" where
  "skip c s = (case s of [] \<Rightarrow> None | x # r \<Rightarrow> if x = c then Some r else None)"

text \<open>Nine digits of a fraction count; a shorter one is scaled.\<close>

definition parseNanoseconds :: "string \<Rightarrow> int" where
  "parseNanoseconds ds = (let d = take 9 ds in digitsValue d * 10 ^ (9 - length d))"

definition fraction :: "string \<Rightarrow> int \<times> string" where
  "fraction s = (case s of
       p # d # _ \<Rightarrow> if (p = CHR ''.'' \<or> p = CHR '','') \<and> isDigit d
         then (parseNanoseconds (takeWhile isDigit (tl s)), dropWhile isDigit (tl s)) else (0, s)
     | _ \<Rightarrow> (0, s))"

text \<open>The offset from UTC in seconds; the text must end with it.\<close>

definition zoneOffset :: "string \<Rightarrow> int option" where
  "zoneOffset s =
     (if s = ''Z'' then Some 0
      else case s of
        [sign, a, b, colon, c, d] \<Rightarrow>
          if colon \<noteq> CHR '':'' \<or> sign \<notin> {CHR ''+'', CHR ''-''} then None
          else do {
            (hr, _) \<leftarrow> getnumIn True 0 24 [a, b];
            (mm, _) \<leftarrow> getnumIn True 0 60 [c, d];
            Some (if sign = CHR ''+'' then (hr * 60 + mm) * 60 else - ((hr * 60 + mm) * 60)) }
      | _ \<Rightarrow> None)"

section \<open>The instant\<close>

text \<open>Days of the year before a month, and the length of the month.\<close>

definition month_start :: "bool \<Rightarrow> int \<Rightarrow> int" where
  "month_start lp m =
     (let l = (if lp then 1 else 0) in
      if m = 1 then 0 else if m = 2 then 31 else if m = 3 then 59 + l else if m = 4 then 90 + l
      else if m = 5 then 120 + l else if m = 6 then 151 + l else if m = 7 then 181 + l
      else if m = 8 then 212 + l else if m = 9 then 243 + l else if m = 10 then 273 + l
      else if m = 11 then 304 + l else 334 + l)"

definition daysIn :: "bool \<Rightarrow> int \<Rightarrow> int" where
  "daysIn lp m = (if m = 2 then (if lp then 29 else 28) else if m \<in> {4, 6, 9, 11} then 30 else 31)"

definition time_Parse :: "string \<Rightarrow> instant option" where
  "time_Parse s0 = do {
     (y, s1) \<leftarrow> longYear s0;
     s2 \<leftarrow> skip CHR ''-'' s1;
     (m, s3) \<leftarrow> getnumIn True 1 12 s2;
     s4 \<leftarrow> skip CHR ''-'' s3;
     (d, s5) \<leftarrow> getnum True s4;
     s6 \<leftarrow> skip CHR ''T'' s5;
     (h, s7) \<leftarrow> getnumIn False 0 23 s6;
     s8 \<leftarrow> skip CHR '':'' s7;
     (mi, s9) \<leftarrow> getnumIn True 0 59 s8;
     s10 \<leftarrow> skip CHR '':'' s9;
     (sec, s11) \<leftarrow> getnumIn True 0 59 s10;
     let (ns, s12) = fraction s11;
     off \<leftarrow> zoneOffset s12;
     if d < 1 \<or> daysIn (leap y) m < d then None
     else Some ((((year_start y + month_start (leap y) m + d - 1) * 86400 + h * 3600 + mi * 60 + sec) - off)
            * 1000000000 + ns) }"

text \<open>A time parsed is a time in UTC already: an instant has no zone here.\<close>

definition stamp_Parse :: "string \<Rightarrow> instant option" where
  "stamp_Parse s = time_Parse s"

section \<open>Reading what was written\<close>

lemma digit_char_range: "0 \<le> n \<Longrightarrow> n < 10 \<Longrightarrow> isDigit (digit_char n) \<and> digitValue (digit_char n) = n"
  by (auto simp: isDigit_def digitValue_def digit_char_code le_nat_iff nat_le_iff)

lemma digit_mod [simp]: "isDigit (digit_char (n mod 10))" "digitValue (digit_char (n mod 10)) = n mod 10"
  using digit_char_range [of "n mod 10"] by simp_all

lemma pad_digits: "list_all isDigit (pad w n)"
  by (induction w arbitrary: n) simp_all

lemma pad_value: "0 \<le> n \<Longrightarrow> n < 10 ^ w \<Longrightarrow> digitsValue (pad w n) = n"
proof (induction w arbitrary: n)
  case (Suc w)
  have "n div 10 < 10 ^ w" "0 \<le> n div 10" using Suc.prems by auto
  with Suc.IH [of "n div 10"] show ?case by (simp add: digitsValue_def)
qed (simp add: digitsValue_def)

lemma longYear_pad: "0 \<le> y \<Longrightarrow> y < 10000 \<Longrightarrow> longYear (pad 4 y @ r) = Some (y, r)"
  using pad_value [of y 4] pad_digits [of 4 y] by (simp add: longYear_def)

lemma getnum_pad: "0 \<le> n \<Longrightarrow> n < 100 \<Longrightarrow> getnum f (pad 2 n @ r) = Some (n, r)"
proof -
  assume n: "0 \<le> n" "n < 100"
  have "pad 2 n = [digit_char (n div 10 mod 10), digit_char (n mod 10)]" by (simp add: numeral_2_eq_2)
  moreover have "10 * (n div 10) + n mod 10 = n" by simp
  moreover have "isDigit (digit_char (n div 10)) \<and> digitValue (digit_char (n div 10)) = n div 10"
    by (rule digit_char_range) (use n in auto)
  moreover have "n div 10 mod 10 = n div 10" using n by simp
  ultimately show ?thesis by simp
qed

lemma getnumIn_pad: "lo \<le> n \<Longrightarrow> n \<le> hi \<Longrightarrow> 0 \<le> lo \<Longrightarrow> hi < 100 \<Longrightarrow> getnumIn f lo hi (pad 2 n @ r) = Some (n, r)"
  by (simp add: getnumIn_def getnum_pad)

lemma skip_Cons [simp]: "skip c (c # r) = Some r"
  by (simp add: skip_def)

lemma month_day_start:
  assumes "month_day lp n = (m, d)" "0 \<le> n" "n < (if lp then 366 else 365)"
  shows "month_start lp m + d - 1 = n \<and> 1 \<le> m \<and> m \<le> 12 \<and> 1 \<le> d \<and> d \<le> daysIn lp m"
  using assms by (cases lp) (auto simp: month_day_def month_start_def daysIn_def Let_def split: if_splits)

lemma fraction_Z: "fraction ''Z'' = (0, ''Z'')"
  by (simp add: fraction_def)

lemma fraction_pad:
  assumes "0 \<le> n" "n < 1000000000"
  shows "fraction (''.'' @ pad 9 n @ ''Z'') = (n, ''Z'')"
proof -
  have nd: "\<not> isDigit CHR ''Z''" by (simp add: isDigit_def)
  have tw: "takeWhile isDigit (pad 9 n @ ''Z'') = pad 9 n" "dropWhile isDigit (pad 9 n @ ''Z'') = ''Z''"
    using pad_digits [of 9 n] nd by (simp_all add: takeWhile_append2 dropWhile_append2 list_all_iff)
  obtain d ds where p: "pad 9 n = d # ds" using length_pad [of 9 n] by (cases "pad 9 n") auto
  then have "isDigit d" using pad_digits [of 9 n] by simp
  moreover have "parseNanoseconds (pad 9 n) = n" using pad_value [of n 9] assms by (simp add: parseNanoseconds_def)
  ultimately show ?thesis using tw p by (simp add: fraction_def)
qed

text \<open>The fields \<open>date_time\<close> writes, and what they add up to.\<close>

lemma date_time_fields:
  assumes "stampable t"
  obtains y m d h mi se where
    "date_time t = pad 4 y @ ''-'' @ pad 2 m @ ''-'' @ pad 2 d @ ''T'' @ pad 2 h @ '':'' @ pad 2 mi @ '':'' @ pad 2 se"
    "1 \<le> y" "y < 10000" "1 \<le> m" "m \<le> 12" "1 \<le> d" "d \<le> daysIn (leap y) m"
    "0 \<le> h" "h \<le> 23" "0 \<le> mi" "mi \<le> 59" "0 \<le> se" "se \<le> 59"
    "((year_start y + month_start (leap y) m + d - 1) * 86400 + h * 3600 + mi * 60 + se) * 1000000000 = t - nanosecond t"
proof -
  define S where "S = t div 1000000000"
  define s where "s = S mod 86400"
  obtain y n where yn: "year_day (S div 86400) = (y, n)" by fastforce
  obtain m d where md: "month_day (leap y) n = (m, d)" by fastforce
  have y: "1 \<le> y" "y < 10000" using stampable_year [OF assms(1) yn [unfolded S_def]] by blast+
  have ok: "year_start y + n = S div 86400" "0 \<le> n" "n < (if leap y then 366 else 365)"
    using year_day_ok [OF yn] by auto
  note md' = month_day_start [OF md ok(2,3)]
  have b: "0 \<le> s" "s < 86400" by (simp_all add: s_def)
  have h: "0 \<le> s div 3600" "s div 3600 \<le> 23" using b by (simp_all add: pos_imp_zdiv_nonneg_iff)
  have "0 \<le> s mod 3600" "s mod 3600 < 3600" by simp_all
  then have mi: "0 \<le> s mod 3600 div 60" "s mod 3600 div 60 \<le> 59" by (simp_all add: pos_imp_zdiv_nonneg_iff)
  have se: "0 \<le> s mod 60" "s mod 60 \<le> 59" using pos_mod_bound [of 60 s] by simp_all
  have written: "date_time t = pad 4 y @ ''-'' @ pad 2 m @ ''-'' @ pad 2 d @ ''T'' @ pad 2 (s div 3600)
      @ '':'' @ pad 2 (s mod 3600 div 60) @ '':'' @ pad 2 (s mod 60)"
    by (simp only: date_time_def Let_def S_def [symmetric] s_def [symmetric] yn md prod.case)
  have "s mod 3600 mod 60 = s mod 60" by (simp add: mod_mod_cancel)
  then have clock: "s div 3600 * 3600 + s mod 3600 div 60 * 60 + s mod 60 = s" by (metis add.assoc div_mult_mod_eq)
  have "year_start y + month_start (leap y) m + d - 1 = S div 86400" using md' ok(1) by linarith
  moreover have "S div 86400 * 86400 + s = S" by (simp add: s_def)
  ultimately have "(year_start y + month_start (leap y) m + d - 1) * 86400 + s div 3600 * 3600 + s mod 3600 div 60 * 60 + s mod 60 = S"
    using clock by (metis add.assoc)
  moreover have "S * 1000000000 = t - nanosecond t" unfolding S_def nanosecond_def by (rule minus_mod_eq_div_mult [symmetric])
  ultimately have sum: "((year_start y + month_start (leap y) m + d - 1) * 86400 + s div 3600 * 3600
      + s mod 3600 div 60 * 60 + s mod 60) * 1000000000 = t - nanosecond t" by (simp only:)
  show ?thesis by (rule that [OF written y _ _ _ _ h mi se sum]) (use md' in simp_all)
qed

lemma time_Parse_date_time:
  assumes "stampable t" "fraction r = (ns, r')" "zoneOffset r' = Some 0"
  shows "time_Parse (date_time t @ r) = Some (t - nanosecond t + ns)"
proof -
  obtain y m d h mi se where
    f: "date_time t = pad 4 y @ ''-'' @ pad 2 m @ ''-'' @ pad 2 d @ ''T'' @ pad 2 h @ '':'' @ pad 2 mi @ '':'' @ pad 2 se"
    "1 \<le> y" "y < 10000" "1 \<le> m" "m \<le> 12" "1 \<le> d" "d \<le> daysIn (leap y) m"
    "0 \<le> h" "h \<le> 23" "0 \<le> mi" "mi \<le> 59" "0 \<le> se" "se \<le> 59"
    "((year_start y + month_start (leap y) m + d - 1) * 86400 + h * 3600 + mi * 60 + se) * 1000000000 = t - nanosecond t"
    by (rule date_time_fields [OF assms(1)])
  have d31: "d \<le> 31" using f(7) by (simp add: daysIn_def split: if_splits)
  have g: "longYear (pad 4 y @ z) = Some (y, z)" "getnumIn True 1 12 (pad 2 m @ z) = Some (m, z)"
    "getnum True (pad 2 d @ z) = Some (d, z)" "getnumIn False 0 23 (pad 2 h @ z) = Some (h, z)"
    "getnumIn True 0 59 (pad 2 mi @ z) = Some (mi, z)" "getnumIn True 0 59 (pad 2 se @ z) = Some (se, z)" for z
    by (rule longYear_pad getnumIn_pad getnum_pad, use f(2-13) d31 in simp_all)+
  have day: "(d < 1 \<or> daysIn (leap y) m < d) = False" using f(6,7) by auto
  show ?thesis
    unfolding f(1) time_Parse_def append_assoc append_Cons append_Nil g Option.bind_lunit prod.case skip_Cons assms(2,3)
      Let_def day if_False diff_zero f(14) by (rule refl)
qed

text \<open>C28: A stamp is read back as the instant it was written for, whole second or not.\<close>

theorem stamp_roundtrip:
  assumes "stampable t"
  shows "stamp_Parse (Format t) = Some t"
proof (cases "nanosecond t = 0")
  case True
  then show ?thesis
    using time_Parse_date_time [OF assms fraction_Z] by (simp add: stamp_Parse_def Format_def zoneOffset_def)
next
  case False
  have "fraction (''.'' @ pad 9 (nanosecond t) @ ''Z'') = (nanosecond t, ''Z'')"
    by (rule fraction_pad) (use nanosecond_range [of t] in simp_all)
  from time_Parse_date_time [OF assms this] False show ?thesis
    by (simp add: stamp_Parse_def Format_def zoneOffset_def)
qed

lemma stamp_roundtrip_witness: "stamp_Parse (Format 1500000000) = Some 1500000000"
  by (rule stamp_roundtrip) (simp add: stampable_def year_start_def)

text \<open>Layout RFC 3339 writes whole seconds: what was below a second is gone when the text is read.\<close>

lemma rfc3339_truncates:
  assumes "stampable t"
  shows "time_Parse (date_time t @ ''Z'') = Some (t - nanosecond t)"
  using time_Parse_date_time [OF assms fraction_Z] by (simp add: zoneOffset_def)

text \<open>A stamp to the second says nothing of what is below it.\<close>

lemma date_time_truncated: "stampable t \<Longrightarrow> date_time (t - nanosecond t) = date_time t"
proof -
  assume t: "stampable t"
  then have "stampable (t - nanosecond t)"
    using pos_mod_sign [of 1000000000 t] by (auto simp: stampable_def nanosecond_def minus_mod_eq_div_mult pos_imp_zdiv_nonneg_iff)
  moreover have "(t - nanosecond t) div 1000000000 = t div 1000000000" by (simp add: nanosecond_def minus_mod_eq_div_mult)
  ultimately show ?thesis using date_time_eq t by blast
qed

end
