(* ===== verification/Iface_Types.thy ===== *)
theory Iface_Types
  imports Coordinate Order_Keys Fetch_Identity Go_Toolchain
begin

text \<open>
  The public API of a module as a record (\<open>internal/iface/domain\<close>: \<open>types.go\<close>, \<open>artefact.go\<close>,
  \<open>cacheable.go\<close>, \<open>signature.go\<close>) and the canonical order of each of its collections
  (\<open>ordering.go\<close>).  Statuses and kinds are the integers that are stored.
\<close>

section \<open>Values\<close>

definition InterfaceStatusUnknown :: int where "InterfaceStatusUnknown = 0"
definition InterfaceStatusExtracted :: int where "InterfaceStatusExtracted = 1"
definition InterfaceStatusPartial :: int where "InterfaceStatusPartial = 2"
definition InterfaceStatusExtractionFailed :: int where "InterfaceStatusExtractionFailed = 3"
definition InterfaceStatusCancelled :: int where "InterfaceStatusCancelled = 4"

definition interface_status_String :: "int \<Rightarrow> string" where
  "interface_status_String s =
     (if s = InterfaceStatusExtracted then ''Extracted''
      else if s = InterfaceStatusPartial then ''Partial''
      else if s = InterfaceStatusExtractionFailed then ''ExtractionFailed''
      else if s = InterfaceStatusCancelled then ''Cancelled''
      else ''Unknown'')"

definition TypeKindStruct :: int where "TypeKindStruct = 1"
definition TypeKindInterface :: int where "TypeKindInterface = 2"
definition TypeKindAlias :: int where "TypeKindAlias = 3"
definition TypeKindDefined :: int where "TypeKindDefined = 4"
definition TypeKindGeneric :: int where "TypeKindGeneric = 5"

definition type_kind_String :: "int \<Rightarrow> string" where
  "type_kind_String k =
     (if k = TypeKindStruct then ''struct''
      else if k = TypeKindInterface then ''interface''
      else if k = TypeKindAlias then ''alias''
      else if k = TypeKindDefined then ''defined''
      else if k = TypeKindGeneric then ''generic''
      else ''unknown'')"

record ApiFrame =
  af_GOOS :: string
  af_GOARCH :: string
  af_CgoEnabled :: bool

definition api_frame_IsZero :: "ApiFrame \<Rightarrow> bool" where
  "api_frame_IsZero f \<longleftrightarrow> af_GOOS f = [] \<and> af_GOARCH f = []"

definition api_frame_String :: "ApiFrame \<Rightarrow> string" where
  "api_frame_String f =
     (if api_frame_IsZero f then ''unrecorded''
      else af_GOOS f @ ''/'' @ af_GOARCH f @ '' ('' @ (if af_CgoEnabled f then ''cgo on'' else ''cgo off'') @ '')'')"

record ApiPosition =
  ap_File :: string
  ap_Line :: int

record TypeParam =
  tp_Name :: string
  tp_Constraint :: string

record FieldDecl =
  fd_Name :: string
  fd_Type :: string
  fd_Tag :: string
  fd_Doc :: string
  fd_Embedded :: bool
  fd_Position :: ApiPosition
  fd_IsGenerated :: bool

record MethodDecl =
  md_Name :: string
  md_Signature :: string
  md_Doc :: string
  md_Position :: ApiPosition
  md_PtrReceiver :: bool

record TypeDecl =
  td_Name :: string
  td_Kind :: int
  td_Signature :: string
  td_Doc :: string
  td_TypeParams :: "TypeParam list"
  td_Fields :: "FieldDecl list"
  td_Methods :: "MethodDecl list"
  td_EmbeddedTypes :: "string list"
  td_Position :: ApiPosition
  td_IsGenerated :: bool

record FuncDecl =
  fn_Name :: string
  fn_Signature :: string
  fn_Doc :: string
  fn_TypeParams :: "TypeParam list"
  fn_Position :: ApiPosition
  fn_IsGenerated :: bool

record ValueDecl =
  vd_Name :: string
  vd_Type :: string
  vd_Doc :: string
  vd_Position :: ApiPosition
  vd_IsGenerated :: bool

record ParseFailure =
  pf_File :: string
  pf_Error :: string

record PackageInterface =
  pi_ImportPath :: string
  pi_Name :: string
  pi_Doc :: string
  pi_Types :: "TypeDecl list"
  pi_Funcs :: "FuncDecl list"
  pi_Consts :: "ValueDecl list"
  pi_Vars :: "ValueDecl list"
  pi_ParseFailures :: "ParseFailure list"
  pi_IsInternal :: bool
  pi_IsMain :: bool
  pi_OutOfFrame :: bool

record InterfaceRecord =
  ir_SchemaVersion :: string
  ir_Ecosystem :: string
  ir_Coordinate :: ModuleCoordinate
  ir_Packages :: "PackageInterface list"
  ir_OverallStatus :: int
  ir_FailureDetail :: string
  ir_BuildFrame :: ApiFrame
  ir_Toolchain :: string
  ir_ExtractedAt :: instant
  ir_PipelineVersion :: string
  ir_ContentHash :: string
  ir_ArtefactIdentity :: string
  ir_SourceContentHash :: string
  ir_AnalyserLimit :: "UnreadSource option"

section \<open>What a record was derived from, and whether it may answer again\<close>

definition RecordArtefactIdentity_if :: "InterfaceRecord \<Rightarrow> fetch_error + ArtefactIdentity" where
  "RecordArtefactIdentity_if r = StoredArtefactIdentity (ir_ArtefactIdentity r)"

definition NamesAnalysedContent_if :: "InterfaceRecord \<Rightarrow> bool" where
  "NamesAnalysedContent_if r =
     (case RecordArtefactIdentity_if r of Inl err \<Rightarrow> False | Inr i \<Rightarrow> \<not> identity_IsZero i)"

text \<open>\<open>analysingGo\<close> is the version of the Go the binary was built with, which the runtime reports.\<close>

definition RecordIsCacheable_if :: "string \<Rightarrow> InterfaceRecord \<Rightarrow> bool" where
  "RecordIsCacheable_if analysingGo r =
     (if ir_AnalyserLimit r \<noteq> None then False
      else if list_ex (\<lambda>p. pi_ParseFailures p \<noteq> []) (ir_Packages r)
      then \<not> MayPredateThisGo analysingGo (ir_Toolchain r)
      else True)"

definition newline :: char where "newline = CHR 0x0A"

definition NormalizeSignature :: "string \<Rightarrow> string" where
  "NormalizeSignature s =
     TrimSpace (Join (dropWhile (\<lambda>l. HasPrefix (TrimSpace l) ''//'') (Split s newline)) [newline])"

section \<open>The comparators\<close>

definition positionLess_if :: "ApiPosition \<Rightarrow> ApiPosition \<Rightarrow> bool" where
  "positionLess_if a b = (if ap_File a \<noteq> ap_File b then ap_File a < ap_File b else ap_Line a < ap_Line b)"

definition stringLess_if :: "string \<Rightarrow> string \<Rightarrow> bool" where
  "stringLess_if a b = (a < b)"

definition TypeParamLess :: "TypeParam \<Rightarrow> TypeParam \<Rightarrow> bool" where
  "TypeParamLess a b =
     (if tp_Name a \<noteq> tp_Name b then tp_Name a < tp_Name b else tp_Constraint a < tp_Constraint b)"

definition FieldDeclLess :: "FieldDecl \<Rightarrow> FieldDecl \<Rightarrow> bool" where
  "FieldDeclLess a b =
     (if fd_Name a \<noteq> fd_Name b then fd_Name a < fd_Name b
      else if fd_Type a \<noteq> fd_Type b then fd_Type a < fd_Type b
      else if fd_Tag a \<noteq> fd_Tag b then fd_Tag a < fd_Tag b
      else if fd_Doc a \<noteq> fd_Doc b then fd_Doc a < fd_Doc b
      else if fd_Embedded a \<noteq> fd_Embedded b then \<not> fd_Embedded a
      else if fd_IsGenerated a \<noteq> fd_IsGenerated b then \<not> fd_IsGenerated a
      else positionLess_if (fd_Position a) (fd_Position b))"

definition MethodDeclLess :: "MethodDecl \<Rightarrow> MethodDecl \<Rightarrow> bool" where
  "MethodDeclLess a b =
     (if md_Name a \<noteq> md_Name b then md_Name a < md_Name b
      else if md_Signature a \<noteq> md_Signature b then md_Signature a < md_Signature b
      else if md_Doc a \<noteq> md_Doc b then md_Doc a < md_Doc b
      else if md_PtrReceiver a \<noteq> md_PtrReceiver b then \<not> md_PtrReceiver a
      else positionLess_if (md_Position a) (md_Position b))"

definition ValueDeclLess :: "ValueDecl \<Rightarrow> ValueDecl \<Rightarrow> bool" where
  "ValueDeclLess a b =
     (if vd_Name a \<noteq> vd_Name b then vd_Name a < vd_Name b
      else if vd_Type a \<noteq> vd_Type b then vd_Type a < vd_Type b
      else if vd_Doc a \<noteq> vd_Doc b then vd_Doc a < vd_Doc b
      else if vd_IsGenerated a \<noteq> vd_IsGenerated b then \<not> vd_IsGenerated a
      else positionLess_if (vd_Position a) (vd_Position b))"

definition ParseFailureLess :: "ParseFailure \<Rightarrow> ParseFailure \<Rightarrow> bool" where
  "ParseFailureLess a b = (if pf_File a \<noteq> pf_File b then pf_File a < pf_File b else pf_Error a < pf_Error b)"

definition FuncDeclLess :: "FuncDecl \<Rightarrow> FuncDecl \<Rightarrow> bool" where
  "FuncDeclLess a b =
     (if fn_Name a \<noteq> fn_Name b then fn_Name a < fn_Name b
      else if fn_Signature a \<noteq> fn_Signature b then fn_Signature a < fn_Signature b
      else if fn_Doc a \<noteq> fn_Doc b then fn_Doc a < fn_Doc b
      else if fn_IsGenerated a \<noteq> fn_IsGenerated b then \<not> fn_IsGenerated a
      else if fn_Position a \<noteq> fn_Position b then positionLess_if (fn_Position a) (fn_Position b)
      else fst (sliceLess (fn_TypeParams a) (fn_TypeParams b) TypeParamLess))"

definition TypeDeclLess :: "TypeDecl \<Rightarrow> TypeDecl \<Rightarrow> bool" where
  "TypeDeclLess a b =
     (if td_Name a \<noteq> td_Name b then td_Name a < td_Name b
      else if td_Kind a \<noteq> td_Kind b then td_Kind a < td_Kind b
      else if td_Signature a \<noteq> td_Signature b then td_Signature a < td_Signature b
      else if td_Doc a \<noteq> td_Doc b then td_Doc a < td_Doc b
      else if td_IsGenerated a \<noteq> td_IsGenerated b then \<not> td_IsGenerated a
      else if td_Position a \<noteq> td_Position b then positionLess_if (td_Position a) (td_Position b)
      else if snd (sliceLess (td_TypeParams a) (td_TypeParams b) TypeParamLess)
        then fst (sliceLess (td_TypeParams a) (td_TypeParams b) TypeParamLess)
      else if snd (sliceLess (td_Fields a) (td_Fields b) FieldDeclLess)
        then fst (sliceLess (td_Fields a) (td_Fields b) FieldDeclLess)
      else if snd (sliceLess (td_Methods a) (td_Methods b) MethodDeclLess)
        then fst (sliceLess (td_Methods a) (td_Methods b) MethodDeclLess)
      else fst (sliceLess (td_EmbeddedTypes a) (td_EmbeddedTypes b) stringLess_if))"

definition PackageInterfaceLess :: "PackageInterface \<Rightarrow> PackageInterface \<Rightarrow> bool" where
  "PackageInterfaceLess a b =
     (if pi_ImportPath a \<noteq> pi_ImportPath b then pi_ImportPath a < pi_ImportPath b
      else if pi_Name a \<noteq> pi_Name b then pi_Name a < pi_Name b
      else if pi_Doc a \<noteq> pi_Doc b then pi_Doc a < pi_Doc b
      else if pi_IsInternal a \<noteq> pi_IsInternal b then \<not> pi_IsInternal a
      else if pi_IsMain a \<noteq> pi_IsMain b then \<not> pi_IsMain a
      else if pi_OutOfFrame a \<noteq> pi_OutOfFrame b then \<not> pi_OutOfFrame a
      else if snd (sliceLess (pi_Types a) (pi_Types b) TypeDeclLess)
        then fst (sliceLess (pi_Types a) (pi_Types b) TypeDeclLess)
      else if snd (sliceLess (pi_Funcs a) (pi_Funcs b) FuncDeclLess)
        then fst (sliceLess (pi_Funcs a) (pi_Funcs b) FuncDeclLess)
      else if snd (sliceLess (pi_Consts a) (pi_Consts b) ValueDeclLess)
        then fst (sliceLess (pi_Consts a) (pi_Consts b) ValueDeclLess)
      else if snd (sliceLess (pi_Vars a) (pi_Vars b) ValueDeclLess)
        then fst (sliceLess (pi_Vars a) (pi_Vars b) ValueDeclLess)
      else fst (sliceLess (pi_ParseFailures a) (pi_ParseFailures b) ParseFailureLess))"

section \<open>A record in canonical order\<close>

definition sortType :: "TypeDecl \<Rightarrow> TypeDecl" where
  "sortType t = t\<lparr>td_TypeParams := stable_sort TypeParamLess (td_TypeParams t),
     td_Fields := stable_sort FieldDeclLess (td_Fields t),
     td_Methods := stable_sort MethodDeclLess (td_Methods t),
     td_EmbeddedTypes := sort (td_EmbeddedTypes t)\<rparr>"

definition sortFunc :: "FuncDecl \<Rightarrow> FuncDecl" where
  "sortFunc f = f\<lparr>fn_TypeParams := stable_sort TypeParamLess (fn_TypeParams f)\<rparr>"

definition sortPackage :: "PackageInterface \<Rightarrow> PackageInterface" where
  "sortPackage p = p\<lparr>pi_Types := stable_sort TypeDeclLess (map sortType (pi_Types p)),
     pi_Funcs := stable_sort FuncDeclLess (map sortFunc (pi_Funcs p)),
     pi_Consts := stable_sort ValueDeclLess (pi_Consts p),
     pi_Vars := stable_sort ValueDeclLess (pi_Vars p),
     pi_ParseFailures := stable_sort ParseFailureLess (pi_ParseFailures p)\<rparr>"

definition sortPackages :: "PackageInterface list \<Rightarrow> PackageInterface list" where
  "sortPackages pkgs = stable_sort PackageInterfaceLess (map sortPackage pkgs)"

definition record_Sort_if :: "InterfaceRecord \<Rightarrow> InterfaceRecord" where
  "record_Sort_if r = r\<lparr>ir_Packages := sortPackages (ir_Packages r)\<rparr>"

end
