(* ===== verification/Iface_Order.thy ===== *)
theory Iface_Order
  imports Iface_Types
begin

text \<open>
  The orderings of \<open>internal/iface/domain/ordering.go\<close> are total: each is the order of a key that
  determines the declaration.  A sorted record is therefore a function of what was declared and not of the
  order the extractor met it in.
\<close>

section \<open>The keys\<close>

definition posKey :: "ApiPosition \<Rightarrow> string \<times> int" where
  "posKey p = (ap_File p, ap_Line p)"

definition paramKey :: "TypeParam \<Rightarrow> string \<times> string" where
  "paramKey p = (tp_Name p, tp_Constraint p)"

definition fieldKey where
  "fieldKey (f :: FieldDecl) = (fd_Name f, fd_Type f, fd_Tag f, fd_Doc f, fd_Embedded f, fd_IsGenerated f, posKey (fd_Position f))"

definition methodKey where
  "methodKey (m :: MethodDecl) = (md_Name m, md_Signature m, md_Doc m, md_PtrReceiver m, posKey (md_Position m))"

definition valueKey where
  "valueKey (v :: ValueDecl) = (vd_Name v, vd_Type v, vd_Doc v, vd_IsGenerated v, posKey (vd_Position v))"

definition failureKey where
  "failureKey (f :: ParseFailure) = (pf_File f, pf_Error f)"

definition funcKey where
  "funcKey (f :: FuncDecl) = (fn_Name f, fn_Signature f, fn_Doc f, fn_IsGenerated f, posKey (fn_Position f), sliceKey paramKey (fn_TypeParams f))"

definition typeKey where
  "typeKey (t :: TypeDecl) = (td_Name t, td_Kind t, td_Signature t, td_Doc t, td_IsGenerated t, posKey (td_Position t),
     sliceKey paramKey (td_TypeParams t), sliceKey fieldKey (td_Fields t), sliceKey methodKey (td_Methods t),
     sliceKey id (td_EmbeddedTypes t))"

definition packageKey where
  "packageKey (p :: PackageInterface) = (pi_ImportPath p, pi_Name p, pi_Doc p, pi_IsInternal p, pi_IsMain p, pi_OutOfFrame p,
     sliceKey typeKey (pi_Types p), sliceKey funcKey (pi_Funcs p), sliceKey valueKey (pi_Consts p),
     sliceKey valueKey (pi_Vars p), sliceKey failureKey (pi_ParseFailures p))"

named_theorems key_inj \<open>a key determines the value\<close>
named_theorems key_less \<open>a comparator is the order of a key\<close>

lemma posKey_inj [key_inj]: "posKey a = posKey b \<Longrightarrow> a = b"
  by (auto simp: posKey_def intro: ApiPosition.equality)

lemma paramKey_inj [key_inj]: "paramKey a = paramKey b \<Longrightarrow> a = b"
  by (auto simp: paramKey_def intro: TypeParam.equality)

lemma fieldKey_inj [key_inj]: "fieldKey a = fieldKey b \<Longrightarrow> a = b"
  by (auto simp: fieldKey_def intro: FieldDecl.equality posKey_inj)

lemma methodKey_inj [key_inj]: "methodKey a = methodKey b \<Longrightarrow> a = b"
  by (auto simp: methodKey_def intro: MethodDecl.equality posKey_inj)

lemma valueKey_inj [key_inj]: "valueKey a = valueKey b \<Longrightarrow> a = b"
  by (auto simp: valueKey_def intro: ValueDecl.equality posKey_inj)

lemma failureKey_inj [key_inj]: "failureKey a = failureKey b \<Longrightarrow> a = b"
  by (auto simp: failureKey_def intro: ParseFailure.equality)

lemma funcKey_inj [key_inj]: "funcKey a = funcKey b \<Longrightarrow> a = b"
  unfolding funcKey_def prod.inject by (elim conjE, rule FuncDecl.equality) (auto intro: posKey_inj sliceKey_inj paramKey_inj)

lemma typeKey_inj [key_inj]: "typeKey a = typeKey b \<Longrightarrow> a = b"
  unfolding typeKey_def prod.inject
  by (elim conjE, rule TypeDecl.equality)
    (auto intro: posKey_inj sliceKey_inj [of paramKey] sliceKey_inj [of fieldKey] sliceKey_inj [of methodKey]
      sliceKey_inj [of id] paramKey_inj fieldKey_inj methodKey_inj)

lemma packageKey_inj [key_inj]: "packageKey a = packageKey b \<Longrightarrow> a = b"
  unfolding packageKey_def prod.inject
  by (elim conjE, rule PackageInterface.equality)
    (auto intro: sliceKey_inj [of typeKey] sliceKey_inj [of funcKey] sliceKey_inj [of valueKey]
      sliceKey_inj [of failureKey] typeKey_inj funcKey_inj valueKey_inj failureKey_inj)

section \<open>The comparators are the orders of the keys\<close>

lemma positionLess_key [key_less]: "positionLess_if a b \<longleftrightarrow> posKey a < posKey b"
  by (simp only: positionLess_if_def posKey_def less_pair)

lemma position_neq [key_less]: "a \<noteq> b \<longleftrightarrow> posKey a \<noteq> posKey b" for a b :: ApiPosition
  using posKey_inj by blast

lemma TypeParamLess_key [key_less]: "TypeParamLess a b \<longleftrightarrow> paramKey a < paramKey b"
  by (simp only: TypeParamLess_def paramKey_def less_pair)

lemma FieldDeclLess_key [key_less]: "FieldDeclLess a b \<longleftrightarrow> fieldKey a < fieldKey b"
  by (simp only: FieldDeclLess_def fieldKey_def less_pair less_flag positionLess_key)

lemma MethodDeclLess_key [key_less]: "MethodDeclLess a b \<longleftrightarrow> methodKey a < methodKey b"
  by (simp only: MethodDeclLess_def methodKey_def less_pair less_flag positionLess_key)

lemma ValueDeclLess_key [key_less]: "ValueDeclLess a b \<longleftrightarrow> valueKey a < valueKey b"
  by (simp only: ValueDeclLess_def valueKey_def less_pair less_flag positionLess_key)

lemma ParseFailureLess_key [key_less]: "ParseFailureLess a b \<longleftrightarrow> failureKey a < failureKey b"
  by (simp only: ParseFailureLess_def failureKey_def less_pair)

lemma stringLess_key: "stringLess_if a b \<longleftrightarrow> id a < id b"
  by (simp add: stringLess_if_def)

lemmas slice_params = sliceLess_key [of TypeParamLess paramKey, OF TypeParamLess_key paramKey_inj]
lemmas slice_fields = sliceLess_key [of FieldDeclLess fieldKey, OF FieldDeclLess_key fieldKey_inj]
lemmas slice_methods = sliceLess_key [of MethodDeclLess methodKey, OF MethodDeclLess_key methodKey_inj]
lemmas slice_values = sliceLess_key [of ValueDeclLess valueKey, OF ValueDeclLess_key valueKey_inj]
lemmas slice_failures = sliceLess_key [of ParseFailureLess failureKey, OF ParseFailureLess_key failureKey_inj]

lemma slice_strings:
  "fst (sliceLess a b stringLess_if) \<longleftrightarrow> sliceKey id a < sliceKey id b"
  by (rule sliceLess_key(1) [OF stringLess_key]) simp

lemma FuncDeclLess_key [key_less]: "FuncDeclLess a b \<longleftrightarrow> funcKey a < funcKey b"
  by (simp only: FuncDeclLess_def funcKey_def less_pair less_flag positionLess_key position_neq slice_params)

lemma TypeDeclLess_key [key_less]: "TypeDeclLess a b \<longleftrightarrow> typeKey a < typeKey b"
  by (simp only: TypeDeclLess_def typeKey_def less_pair less_flag positionLess_key position_neq
      slice_params slice_fields slice_methods slice_strings)

lemmas slice_types = sliceLess_key [of TypeDeclLess typeKey, OF TypeDeclLess_key typeKey_inj]
lemmas slice_funcs = sliceLess_key [of FuncDeclLess funcKey, OF FuncDeclLess_key funcKey_inj]

lemma PackageInterfaceLess_key [key_less]: "PackageInterfaceLess a b \<longleftrightarrow> packageKey a < packageKey b"
  by (simp only: PackageInterfaceLess_def packageKey_def less_pair less_flag
      slice_types slice_funcs slice_values slice_failures)

interpretation params: canonical_less TypeParamLess
  by (rule canonical_by_key [OF TypeParamLess_key paramKey_inj])
interpretation struct_fields: canonical_less FieldDeclLess
  by (rule canonical_by_key [OF FieldDeclLess_key fieldKey_inj])
interpretation type_methods: canonical_less MethodDeclLess
  by (rule canonical_by_key [OF MethodDeclLess_key methodKey_inj])
interpretation api_values: canonical_less ValueDeclLess
  by (rule canonical_by_key [OF ValueDeclLess_key valueKey_inj])
interpretation failures: canonical_less ParseFailureLess
  by (rule canonical_by_key [OF ParseFailureLess_key failureKey_inj])
interpretation funcs: canonical_less FuncDeclLess
  by (rule canonical_by_key [OF FuncDeclLess_key funcKey_inj])
interpretation type_decls: canonical_less TypeDeclLess
  by (rule canonical_by_key [OF TypeDeclLess_key typeKey_inj])
interpretation packages: canonical_less PackageInterfaceLess
  by (rule canonical_by_key [OF PackageInterfaceLess_key packageKey_inj])

section \<open>One API in any arrangement\<close>

text \<open>The same declaration or package with its lists in another order.\<close>

definition sameType :: "TypeDecl \<Rightarrow> TypeDecl \<Rightarrow> bool" where
  "sameType a b \<longleftrightarrow> mset (td_TypeParams a) = mset (td_TypeParams b) \<and> mset (td_Fields a) = mset (td_Fields b)
     \<and> mset (td_Methods a) = mset (td_Methods b) \<and> mset (td_EmbeddedTypes a) = mset (td_EmbeddedTypes b)
     \<and> a\<lparr>td_TypeParams := [], td_Fields := [], td_Methods := [], td_EmbeddedTypes := []\<rparr>
       = b\<lparr>td_TypeParams := [], td_Fields := [], td_Methods := [], td_EmbeddedTypes := []\<rparr>"

definition sameFunc :: "FuncDecl \<Rightarrow> FuncDecl \<Rightarrow> bool" where
  "sameFunc a b \<longleftrightarrow> mset (fn_TypeParams a) = mset (fn_TypeParams b) \<and> a\<lparr>fn_TypeParams := []\<rparr> = b\<lparr>fn_TypeParams := []\<rparr>"

definition samePackage :: "PackageInterface \<Rightarrow> PackageInterface \<Rightarrow> bool" where
  "samePackage a b \<longleftrightarrow> rearranged sameType (pi_Types a) (pi_Types b) \<and> rearranged sameFunc (pi_Funcs a) (pi_Funcs b)
     \<and> mset (pi_Consts a) = mset (pi_Consts b) \<and> mset (pi_Vars a) = mset (pi_Vars b)
     \<and> mset (pi_ParseFailures a) = mset (pi_ParseFailures b)
     \<and> a\<lparr>pi_Types := [], pi_Funcs := [], pi_Consts := [], pi_Vars := [], pi_ParseFailures := []\<rparr>
       = b\<lparr>pi_Types := [], pi_Funcs := [], pi_Consts := [], pi_Vars := [], pi_ParseFailures := []\<rparr>"

lemma sortType_same: "sameType a b \<Longrightarrow> sortType a = sortType b"
  by (cases a; cases b)
    (auto simp: sameType_def sortType_def TypeDecl.defs intro: params.sort_arrangement struct_fields.sort_arrangement
      type_methods.sort_arrangement properties_for_sort)

lemma sortFunc_same: "sameFunc a b \<Longrightarrow> sortFunc a = sortFunc b"
  by (cases a; cases b) (auto simp: sameFunc_def sortFunc_def FuncDecl.defs intro: params.sort_arrangement)

lemma sortPackage_same:
  assumes "samePackage a b"
  shows "sortPackage a = sortPackage b"
proof -
  have types: "stable_sort TypeDeclLess (map sortType (pi_Types a)) = stable_sort TypeDeclLess (map sortType (pi_Types b))"
    by (rule type_decls.sort_arrangement, rule rearranged_mset [OF _ sortType_same]) (use assms in \<open>auto simp: samePackage_def\<close>)
  have funcs: "stable_sort FuncDeclLess (map sortFunc (pi_Funcs a)) = stable_sort FuncDeclLess (map sortFunc (pi_Funcs b))"
    by (rule funcs.sort_arrangement, rule rearranged_mset [OF _ sortFunc_same]) (use assms in \<open>auto simp: samePackage_def\<close>)
  show ?thesis using assms types funcs
    by (cases a; cases b)
      (auto simp: samePackage_def sortPackage_def PackageInterface.defs intro: api_values.sort_arrangement failures.sort_arrangement)
qed

lemma sortPackages_any: "rearranged samePackage ps qs \<Longrightarrow> sortPackages ps = sortPackages qs"
  unfolding sortPackages_def by (intro packages.sort_arrangement rearranged_mset sortPackage_same)

section \<open>Sorting is idempotent\<close>

lemma sortType_idem: "sortType (sortType t) = sortType t"
  by (simp add: sortType_def params.sort_idem struct_fields.sort_idem type_methods.sort_idem sorted_sort_id)

lemma sortFunc_idem: "sortFunc (sortFunc f) = sortFunc f"
  by (simp add: sortFunc_def params.sort_idem)

lemma map_fixed: "(\<And>x. f (f x) = f x) \<Longrightarrow> set ys = set (map f xs) \<Longrightarrow> map f ys = ys"
  by (rule map_idI) auto

lemma sortPackage_idem: "sortPackage (sortPackage p) = sortPackage p"
proof -
  have "map sortType (stable_sort TypeDeclLess (map sortType ts)) = stable_sort TypeDeclLess (map sortType ts)" for ts
    by (rule map_fixed [of _ _ ts]) (simp_all add: sortType_idem)
  moreover have "map sortFunc (stable_sort FuncDeclLess (map sortFunc fs)) = stable_sort FuncDeclLess (map sortFunc fs)" for fs
    by (rule map_fixed [of _ _ fs]) (simp_all add: sortFunc_idem)
  ultimately show ?thesis
    by (simp add: sortPackage_def type_decls.sort_idem funcs.sort_idem api_values.sort_idem failures.sort_idem)
qed

lemma sortPackages_idem: "sortPackages (sortPackages ps) = sortPackages ps"
proof -
  have "map sortPackage (stable_sort PackageInterfaceLess (map sortPackage ps)) = stable_sort PackageInterfaceLess (map sortPackage ps)"
    by (rule map_fixed [of _ _ ps]) (simp_all add: sortPackage_idem)
  then show ?thesis by (simp add: sortPackages_def packages.sort_idem)
qed

end
