(* ===== verification/Go_Decoding.thy ===== *)
theory Go_Decoding
  imports Go_Encoding "HOL-Library.Monad_Syntax"
begin

text \<open>
  How encoding/json fills a Go value from a JSON tree, as far as the records of the program use it: a
  missing field and \<open>null\<close> leave the zero value, a value of another kind is an error, and a number must
  fit the width of an \<open>int\<close>.  An object whose names repeat keeps the last of each.  Names are matched as
  they are written; that the library also accepts another case of a name is left out.
\<close>

definition int64 :: "int \<Rightarrow> bool" where
  "int64 i \<longleftrightarrow> - (2 ^ 63) \<le> i \<and> i < 2 ^ 63"

fun readString :: "json \<Rightarrow> string option" where
  "readString (JStr s) = Some s"
| "readString JNull = Some []"
| "readString _ = None"

fun readBool :: "json \<Rightarrow> bool option" where
  "readBool (JBool b) = Some b"
| "readBool JNull = Some False"
| "readBool _ = None"

fun readInt :: "json \<Rightarrow> int option" where
  "readInt (JInt i) = (if int64 i then Some i else None)"
| "readInt JNull = Some 0"
| "readInt _ = None"

fun readAll :: "('a \<Rightarrow> 'b option) \<Rightarrow> 'a list \<Rightarrow> 'b list option" where
  "readAll f [] = Some []"
| "readAll f (x # xs) = do { y \<leftarrow> f x; ys \<leftarrow> readAll f xs; Some (y # ys) }"

fun readArray :: "(json \<Rightarrow> 'b option) \<Rightarrow> json \<Rightarrow> 'b list option" where
  "readArray f (JArr js) = readAll f js"
| "readArray f JNull = Some []"
| "readArray f _ = None"

fun readObject :: "json \<Rightarrow> (string \<times> json) list option" where
  "readObject (JObj fs) = Some fs"
| "readObject JNull = Some []"
| "readObject _ = None"

text \<open>A field behind a pointer: absent and \<open>null\<close> are nil.\<close>

definition readPointer :: "(json \<Rightarrow> 'a option) \<Rightarrow> json \<Rightarrow> 'a option option" where
  "readPointer f j = (if j = JNull then Some None else map_option Some (f j))"

definition field :: "(string \<times> json) list \<Rightarrow> string \<Rightarrow> json" where
  "field fs name = (case map_of (rev fs) name of None \<Rightarrow> JNull | Some j \<Rightarrow> j)"

named_theorems decoding \<open>what a field of a written object reads as\<close>

lemma readAll_map: "(\<And>x. x \<in> set xs \<Longrightarrow> f (g x) = Some (h x)) \<Longrightarrow> readAll f (map g xs) = Some (map h xs)"
  by (induction xs) auto

lemma readArray_map:
  "(\<And>x. x \<in> set xs \<Longrightarrow> f (g x) = Some (h x)) \<Longrightarrow> readArray f (JArr (map g xs)) = Some (map h xs)"
  by (simp add: readAll_map)

lemma readArray_id: "(\<And>x. x \<in> set xs \<Longrightarrow> f (g x) = Some x) \<Longrightarrow> readArray f (JArr (map g xs)) = Some xs"
  using readArray_map [of xs f g id] by simp

lemma readArray_strings: "readArray readString (JArr (map JStr xs)) = Some xs"
  by (rule readArray_id) simp

text \<open>The names of an object are distinct, so the first entry decides as well as the last.\<close>

lemma field_distinct: "distinct (map fst fs) \<Longrightarrow> field fs n = (case map_of fs n of None \<Rightarrow> JNull | Some j \<Rightarrow> j)"
proof -
  assume "distinct (map fst fs)"
  then have "map_of (rev fs) = map_of fs" by (intro map_of_inject_set [THEN iffD2]) (simp_all add: rev_map [symmetric])
  then show ?thesis by (simp add: field_def)
qed

text \<open>A field written only under a condition.\<close>

definition unless :: "bool \<Rightarrow> string \<Rightarrow> json \<Rightarrow> (string \<times> json) list" where
  "unless c k j = (if c then [] else [(k, j)])"

lemma map_of_unless [decoding]:
  "n \<noteq> k \<Longrightarrow> map_of (unless c k j @ fs) n = map_of fs n"
  "k \<notin> fst ` set fs \<Longrightarrow> map_of (unless c k j @ fs) k = (if c then None else Some j)"
  "n \<noteq> k \<Longrightarrow> map_of (unless c k j) n = None"
  "map_of (unless c k j) k = (if c then None else Some j)"
  by (auto simp: unless_def map_of_eq_None_iff)

text \<open>What is left out when it is the zero value reads as the zero value.\<close>

lemma read_unless_empty [decoding]:
  "readString (case if s = [] then None else Some (JStr s) of None \<Rightarrow> JNull | Some j \<Rightarrow> j) = Some s"
  by simp

lemma readPointer_null [decoding]: "readPointer f JNull = Some None"
  by (simp add: readPointer_def)

lemma unless_names [decoding]: "n \<in> fst ` set (unless c k j) \<longleftrightarrow> n = k \<and> \<not> c" "distinct (map fst (unless c k j))"
  by (auto simp: unless_def)

end
