(* ===== verification/Sealed_Json.thy ===== *)
theory Sealed_Json
  imports Coordinate Go_Toolchain Go_Decoding
begin

text \<open>
  What the sealed texts of several ledgers share: the ecosystem they are for, the limit of the analyser (the same
  shape in \<open>hasher.go\<close> of \<open>internal/iface/domain\<close> and of \<open>internal/example/domain\<close>), and why a stored text
  is refused.
\<close>

definition EcosystemGo :: string where "EcosystemGo = ''go''"

definition toCanonicalLimit :: "UnreadSource \<Rightarrow> json" where
  "toCanonicalLimit u = JObj [(''built'', JStr (al_Built (us_Limit u))), (''files'', JArr (map JStr (us_Files u))),
     (''required'', JStr (al_Required (us_Limit u)))]"

definition limitToDomain :: "json \<Rightarrow> UnreadSource option" where
  "limitToDomain j = do {
     fs \<leftarrow> readObject j;
     built \<leftarrow> readString (field fs ''built''); files \<leftarrow> readArray readString (field fs ''files'');
     required \<leftarrow> readString (field fs ''required'');
     Some \<lparr>us_Limit = \<lparr>al_Required = required, al_Built = built\<rparr>, us_Files = files\<rparr> }"

datatype unmarshal_error =
    MalformedRecord
  | UnsupportedEcosystem string
  | MalformedTime string
  | MalformedCoordinate coordinate_error

text \<open>A limit is read back, and its absence is.\<close>

lemma read_limit [decoding]: "limitToDomain (toCanonicalLimit u) = Some u"
  by (cases u; cases "us_Limit u")
    (simp add: toCanonicalLimit_def limitToDomain_def field_distinct readArray_strings del: readArray.simps)

lemma read_limit_field:
  "readPointer limitToDomain (case if L = None then None else Some (case L of None \<Rightarrow> JNull
      | Some u \<Rightarrow> toCanonicalLimit u) of None \<Rightarrow> JNull | Some j \<Rightarrow> j) = Some L"
proof (cases L)
  case (Some u)
  have "toCanonicalLimit u \<noteq> JNull" by (simp add: toCanonicalLimit_def)
  with Some show ?thesis by (simp add: readPointer_def read_limit)
qed (simp add: readPointer_def)

end
