(* ===== verification/Iface_Seal.thy ===== *)
theory Iface_Seal
  imports Iface_Order Sealed_Json Stamp_Parse
begin

text \<open>
  The seal of an interface record and its stored text (\<open>internal/iface/domain/hasher.go\<close>): the canonical
  JSON, the content hash over it, and the record read back.  SHA-256 is the parameter \<open>H\<close> from bytes to
  bytes; the parser that turns text into a JSON tree is the parameter \<open>decode\<close>.
\<close>

section \<open>The canonical JSON\<close>

definition canonicalPos :: "ApiPosition \<Rightarrow> json" where
  "canonicalPos p = JObj [(''file'', JStr (ap_File p)), (''line'', JInt (ap_Line p))]"

definition canonicalTP :: "TypeParam \<Rightarrow> json" where
  "canonicalTP p = JObj [(''constraint'', JStr (tp_Constraint p)), (''name'', JStr (tp_Name p))]"

definition canonicalField :: "FieldDecl \<Rightarrow> json" where
  "canonicalField f = JObj [(''doc'', JStr (fd_Doc f)), (''embedded'', JBool (fd_Embedded f)),
     (''is_generated'', JBool (fd_IsGenerated f)), (''name'', JStr (fd_Name f)), (''position'', canonicalPos (fd_Position f)),
     (''tag'', JStr (fd_Tag f)), (''type'', JStr (fd_Type f))]"

definition canonicalMethod :: "MethodDecl \<Rightarrow> json" where
  "canonicalMethod m = JObj [(''doc'', JStr (md_Doc m)), (''name'', JStr (md_Name m)),
     (''position'', canonicalPos (md_Position m)), (''ptr_receiver'', JBool (md_PtrReceiver m)),
     (''signature'', JStr (md_Signature m))]"

definition canonicalValue :: "ValueDecl \<Rightarrow> json" where
  "canonicalValue v = JObj [(''doc'', JStr (vd_Doc v)), (''is_generated'', JBool (vd_IsGenerated v)),
     (''name'', JStr (vd_Name v)), (''position'', canonicalPos (vd_Position v)), (''type'', JStr (vd_Type v))]"

definition canonicalFailure :: "ParseFailure \<Rightarrow> json" where
  "canonicalFailure f = JObj [(''error'', JStr (pf_Error f)), (''file'', JStr (pf_File f))]"

definition canonicalFunc :: "FuncDecl \<Rightarrow> json" where
  "canonicalFunc f = JObj [(''doc'', JStr (fn_Doc f)), (''is_generated'', JBool (fn_IsGenerated f)),
     (''name'', JStr (fn_Name f)), (''position'', canonicalPos (fn_Position f)), (''signature'', JStr (fn_Signature f)),
     (''type_params'', JArr (map canonicalTP (fn_TypeParams f)))]"

definition canonicalType :: "TypeDecl \<Rightarrow> json" where
  "canonicalType t = JObj [(''doc'', JStr (td_Doc t)), (''embedded_types'', JArr (map JStr (sort (td_EmbeddedTypes t)))),
     (''fields'', JArr (map canonicalField (td_Fields t))), (''is_generated'', JBool (td_IsGenerated t)),
     (''kind'', JInt (td_Kind t)), (''methods'', JArr (map canonicalMethod (td_Methods t))), (''name'', JStr (td_Name t)),
     (''position'', canonicalPos (td_Position t)), (''signature'', JStr (td_Signature t)),
     (''type_params'', JArr (map canonicalTP (td_TypeParams t)))]"

definition packageFields :: "PackageInterface \<Rightarrow> (string \<times> json) list" where
  "packageFields p =
     [(''consts'', JArr (map canonicalValue (pi_Consts p))), (''doc'', JStr (pi_Doc p)),
      (''funcs'', JArr (map canonicalFunc (pi_Funcs p))), (''import_path'', JStr (pi_ImportPath p)),
      (''is_internal'', JBool (pi_IsInternal p)), (''is_main'', JBool (pi_IsMain p))]
     @ unless (\<not> pi_OutOfFrame p) ''out_of_frame'' (JBool (pi_OutOfFrame p))
     @ [(''name'', JStr (pi_Name p)), (''parse_failures'', JArr (map canonicalFailure (pi_ParseFailures p))),
        (''types'', JArr (map canonicalType (pi_Types p))), (''vars'', JArr (map canonicalValue (pi_Vars p)))]"

definition toCanonicalPackage :: "PackageInterface \<Rightarrow> json" where
  "toCanonicalPackage p = JObj (packageFields p)"

definition canonicalFrame :: "ApiFrame \<Rightarrow> json" where
  "canonicalFrame f = JObj [(''cgo_enabled'', JBool (af_CgoEnabled f)), (''goarch'', JStr (af_GOARCH f)),
     (''goos'', JStr (af_GOOS f))]"

definition recordFields_if :: "InterfaceRecord \<Rightarrow> (string \<times> json) list" where
  "recordFields_if r =
     unless (ir_AnalyserLimit r = None) ''analyser_limit''
       (case ir_AnalyserLimit r of None \<Rightarrow> JNull | Some u \<Rightarrow> toCanonicalLimit u)
     @ unless (ir_ArtefactIdentity r = []) ''artefact_identity'' (JStr (ir_ArtefactIdentity r))
     @ unless (api_frame_IsZero (ir_BuildFrame r)) ''build_frame'' (canonicalFrame (ir_BuildFrame r))
     @ [(''content_hash'', JStr (ir_ContentHash r)),
        (''coordinate'', JObj [(''path'', JStr (Path (ir_Coordinate r))), (''version'', JStr (Version (ir_Coordinate r)))]),
        (''ecosystem'', JStr (ir_Ecosystem r)), (''extracted_at'', JStr (date_time (ir_ExtractedAt r) @ ''Z'')),
        (''failure_detail'', JStr (ir_FailureDetail r)), (''overall_status'', JInt (ir_OverallStatus r)),
        (''packages'', JArr (map toCanonicalPackage (sortPackages (ir_Packages r)))),
        (''pipeline_version'', JStr (ir_PipelineVersion r)), (''schema_version'', JStr (ir_SchemaVersion r))]
     @ unless (ir_SourceContentHash r = []) ''source_content_hash'' (JStr (ir_SourceContentHash r))
     @ unless (ir_Toolchain r = []) ''toolchain'' (JStr (ir_Toolchain r))"

definition canonicalRecord :: "InterfaceRecord \<Rightarrow> json" where
  "canonicalRecord r = JObj (recordFields_if r)"

definition marshalCanonical_if :: "InterfaceRecord \<Rightarrow> string" where
  "marshalCanonical_if r = print (canonicalRecord r)"

section \<open>The content hash\<close>

definition sealOf_if :: "(string \<Rightarrow> string) \<Rightarrow> InterfaceRecord \<Rightarrow> string" where
  "sealOf_if H r = ''sha256:'' @ EncodeToString (H (marshalCanonical_if (r\<lparr>ir_ContentHash := []\<rparr>)))"

definition SetContentHash_if :: "(string \<Rightarrow> string) \<Rightarrow> InterfaceRecord \<Rightarrow> InterfaceRecord" where
  "SetContentHash_if H r = r\<lparr>ir_ContentHash := sealOf_if H r\<rparr>"

text \<open>The stored and the computed hash of a record that does not verify.\<close>

definition VerifyContentHash_if :: "(string \<Rightarrow> string) \<Rightarrow> InterfaceRecord \<Rightarrow> (string \<times> string) option" where
  "VerifyContentHash_if H r = (if ir_ContentHash r \<noteq> sealOf_if H r then Some (ir_ContentHash r, sealOf_if H r) else None)"

section \<open>The record read back\<close>

definition readPos :: "json \<Rightarrow> ApiPosition option" where
  "readPos j = do {
     fs \<leftarrow> readObject j;
     file \<leftarrow> readString (field fs ''file''); line \<leftarrow> readInt (field fs ''line'');
     Some \<lparr>ap_File = file, ap_Line = line\<rparr> }"

definition readTP :: "json \<Rightarrow> TypeParam option" where
  "readTP j = do {
     fs \<leftarrow> readObject j;
     constraint \<leftarrow> readString (field fs ''constraint''); name \<leftarrow> readString (field fs ''name'');
     Some \<lparr>tp_Name = name, tp_Constraint = constraint\<rparr> }"

definition readField :: "json \<Rightarrow> FieldDecl option" where
  "readField j = do {
     fs \<leftarrow> readObject j;
     doc \<leftarrow> readString (field fs ''doc''); embedded \<leftarrow> readBool (field fs ''embedded'');
     generated \<leftarrow> readBool (field fs ''is_generated''); name \<leftarrow> readString (field fs ''name'');
     position \<leftarrow> readPos (field fs ''position''); tag \<leftarrow> readString (field fs ''tag'');
     declared \<leftarrow> readString (field fs ''type'');
     Some \<lparr>fd_Name = name, fd_Type = declared, fd_Tag = tag, fd_Doc = doc, fd_Embedded = embedded,
           fd_Position = position, fd_IsGenerated = generated\<rparr> }"

definition readMethod :: "json \<Rightarrow> MethodDecl option" where
  "readMethod j = do {
     fs \<leftarrow> readObject j;
     doc \<leftarrow> readString (field fs ''doc''); name \<leftarrow> readString (field fs ''name'');
     position \<leftarrow> readPos (field fs ''position''); ptr \<leftarrow> readBool (field fs ''ptr_receiver'');
     signature \<leftarrow> readString (field fs ''signature'');
     Some \<lparr>md_Name = name, md_Signature = signature, md_Doc = doc, md_Position = position, md_PtrReceiver = ptr\<rparr> }"

definition readValue :: "json \<Rightarrow> ValueDecl option" where
  "readValue j = do {
     fs \<leftarrow> readObject j;
     doc \<leftarrow> readString (field fs ''doc''); generated \<leftarrow> readBool (field fs ''is_generated'');
     name \<leftarrow> readString (field fs ''name''); position \<leftarrow> readPos (field fs ''position'');
     declared \<leftarrow> readString (field fs ''type'');
     Some \<lparr>vd_Name = name, vd_Type = declared, vd_Doc = doc, vd_Position = position, vd_IsGenerated = generated\<rparr> }"

definition readFailure :: "json \<Rightarrow> ParseFailure option" where
  "readFailure j = do {
     fs \<leftarrow> readObject j;
     err \<leftarrow> readString (field fs ''error''); file \<leftarrow> readString (field fs ''file'');
     Some \<lparr>pf_File = file, pf_Error = err\<rparr> }"

definition readFunc :: "json \<Rightarrow> FuncDecl option" where
  "readFunc j = do {
     fs \<leftarrow> readObject j;
     doc \<leftarrow> readString (field fs ''doc''); generated \<leftarrow> readBool (field fs ''is_generated'');
     name \<leftarrow> readString (field fs ''name''); position \<leftarrow> readPos (field fs ''position'');
     signature \<leftarrow> readString (field fs ''signature''); params \<leftarrow> readArray readTP (field fs ''type_params'');
     Some \<lparr>fn_Name = name, fn_Signature = signature, fn_Doc = doc, fn_TypeParams = params, fn_Position = position,
           fn_IsGenerated = generated\<rparr> }"

definition readType :: "json \<Rightarrow> TypeDecl option" where
  "readType j = do {
     fs \<leftarrow> readObject j;
     doc \<leftarrow> readString (field fs ''doc''); embedded \<leftarrow> readArray readString (field fs ''embedded_types'');
     members \<leftarrow> readArray readField (field fs ''fields''); generated \<leftarrow> readBool (field fs ''is_generated'');
     kind \<leftarrow> readInt (field fs ''kind''); methods \<leftarrow> readArray readMethod (field fs ''methods'');
     name \<leftarrow> readString (field fs ''name''); position \<leftarrow> readPos (field fs ''position'');
     signature \<leftarrow> readString (field fs ''signature''); params \<leftarrow> readArray readTP (field fs ''type_params'');
     Some \<lparr>td_Name = name, td_Kind = kind, td_Signature = signature, td_Doc = doc, td_TypeParams = params,
           td_Fields = members, td_Methods = methods, td_EmbeddedTypes = embedded, td_Position = position,
           td_IsGenerated = generated\<rparr> }"

definition fromCanonicalPackage :: "json \<Rightarrow> PackageInterface option" where
  "fromCanonicalPackage j = do {
     fs \<leftarrow> readObject j;
     consts \<leftarrow> readArray readValue (field fs ''consts''); doc \<leftarrow> readString (field fs ''doc'');
     funcs \<leftarrow> readArray readFunc (field fs ''funcs''); path \<leftarrow> readString (field fs ''import_path'');
     internal \<leftarrow> readBool (field fs ''is_internal''); isMain \<leftarrow> readBool (field fs ''is_main'');
     outOfFrame \<leftarrow> readBool (field fs ''out_of_frame''); name \<leftarrow> readString (field fs ''name'');
     failures \<leftarrow> readArray readFailure (field fs ''parse_failures'');
     types \<leftarrow> readArray readType (field fs ''types''); vars \<leftarrow> readArray readValue (field fs ''vars'');
     Some \<lparr>pi_ImportPath = path, pi_Name = name, pi_Doc = doc, pi_Types = types, pi_Funcs = funcs, pi_Consts = consts,
           pi_Vars = vars, pi_ParseFailures = failures, pi_IsInternal = internal, pi_IsMain = isMain,
           pi_OutOfFrame = outOfFrame\<rparr> }"

definition readFrame :: "json \<Rightarrow> ApiFrame option" where
  "readFrame j = do {
     fs \<leftarrow> readObject j;
     cgo \<leftarrow> readBool (field fs ''cgo_enabled''); goarch \<leftarrow> readString (field fs ''goarch'');
     goos \<leftarrow> readString (field fs ''goos'');
     Some \<lparr>af_GOOS = goos, af_GOARCH = goarch, af_CgoEnabled = cgo\<rparr> }"

definition zero_api_frame :: ApiFrame where
  "zero_api_frame = \<lparr>af_GOOS = [], af_GOARCH = [], af_CgoEnabled = False\<rparr>"

text \<open>The wire record: the record without its coordinate and time, and those as they are written.\<close>

definition readRecord :: "json \<Rightarrow> ((string \<times> string \<times> string) \<times> InterfaceRecord) option" where
  "readRecord j = do {
     fs \<leftarrow> readObject j;
     limit \<leftarrow> readPointer limitToDomain (field fs ''analyser_limit'');
     artefact \<leftarrow> readString (field fs ''artefact_identity'');
     frame \<leftarrow> readPointer readFrame (field fs ''build_frame'');
     hash \<leftarrow> readString (field fs ''content_hash'');
     coord \<leftarrow> readObject (field fs ''coordinate'');
     path \<leftarrow> readString (field coord ''path''); version \<leftarrow> readString (field coord ''version'');
     ecosystem \<leftarrow> readString (field fs ''ecosystem''); at \<leftarrow> readString (field fs ''extracted_at'');
     detail \<leftarrow> readString (field fs ''failure_detail''); status \<leftarrow> readInt (field fs ''overall_status'');
     pkgs \<leftarrow> readArray fromCanonicalPackage (field fs ''packages'');
     pipeline \<leftarrow> readString (field fs ''pipeline_version''); schema \<leftarrow> readString (field fs ''schema_version'');
     source \<leftarrow> readString (field fs ''source_content_hash''); toolchain \<leftarrow> readString (field fs ''toolchain'');
     Some ((path, version, at),
       \<lparr>ir_SchemaVersion = schema, ir_Ecosystem = ecosystem, ir_Coordinate = zero_coordinate, ir_Packages = pkgs,
        ir_OverallStatus = status, ir_FailureDetail = detail,
        ir_BuildFrame = (case frame of None \<Rightarrow> zero_api_frame | Some f \<Rightarrow> f), ir_Toolchain = toolchain,
        ir_ExtractedAt = zero_time, ir_PipelineVersion = pipeline, ir_ContentHash = hash, ir_ArtefactIdentity = artefact,
        ir_SourceContentHash = source, ir_AnalyserLimit = limit\<rparr>) }"

definition Unmarshal_if ::
  "(string \<Rightarrow> bool) \<Rightarrow> (string \<Rightarrow> json option) \<Rightarrow> string \<Rightarrow> unmarshal_error + InterfaceRecord" where
  "Unmarshal_if semver_IsValid decode data =
     (case Option.bind (decode data) readRecord of
        None \<Rightarrow> Inl MalformedRecord
      | Some ((path, version, at), c) \<Rightarrow>
          if ir_Ecosystem c \<noteq> EcosystemGo then Inl (UnsupportedEcosystem (ir_Ecosystem c))
          else (case time_Parse at of
              None \<Rightarrow> Inl (MalformedTime at)
            | Some t \<Rightarrow> (case NewModuleCoordinate semver_IsValid path version of
                Inl e \<Rightarrow> Inl (MalformedCoordinate e)
              | Inr coord \<Rightarrow> Inr (c\<lparr>ir_ExtractedAt := t, ir_Coordinate := coord\<rparr>))))"

end
