(* ===== verification/Iface_Roundtrip.thy ===== *)
theory Iface_Roundtrip
  imports Iface_Seal
begin

text \<open>
  A stored interface record is read back as the record that was stored, in canonical order; the seal
  covers everything but the order of the lists and what is below a second.
\<close>

section \<open>Each part is read back\<close>

text \<open>The numbers of a record are Go \<open>int\<close>s.\<close>

definition fits_pos :: "ApiPosition \<Rightarrow> bool" where
  "fits_pos p \<longleftrightarrow> int64 (ap_Line p)"

definition fits_type :: "TypeDecl \<Rightarrow> bool" where
  "fits_type t \<longleftrightarrow> int64 (td_Kind t) \<and> fits_pos (td_Position t)
     \<and> (\<forall>f \<in> set (td_Fields t). fits_pos (fd_Position f)) \<and> (\<forall>m \<in> set (td_Methods t). fits_pos (md_Position m))"

definition fits_package :: "PackageInterface \<Rightarrow> bool" where
  "fits_package p \<longleftrightarrow> (\<forall>t \<in> set (pi_Types p). fits_type t) \<and> (\<forall>f \<in> set (pi_Funcs p). fits_pos (fn_Position f))
     \<and> (\<forall>v \<in> set (pi_Consts p). fits_pos (vd_Position v)) \<and> (\<forall>v \<in> set (pi_Vars p). fits_pos (vd_Position v))"

definition fits_record :: "InterfaceRecord \<Rightarrow> bool" where
  "fits_record r \<longleftrightarrow> int64 (ir_OverallStatus r) \<and> (\<forall>p \<in> set (ir_Packages r). fits_package p)"

lemma read_pos [decoding]: "fits_pos p \<Longrightarrow> readPos (canonicalPos p) = Some p"
  by (cases p) (simp add: canonicalPos_def readPos_def field_distinct fits_pos_def)

lemma read_tp [decoding]: "readTP (canonicalTP p) = Some p"
  by (cases p) (simp add: canonicalTP_def readTP_def field_distinct)

lemma read_field [decoding]: "fits_pos (fd_Position f) \<Longrightarrow> readField (canonicalField f) = Some f"
  by (cases f) (simp add: canonicalField_def readField_def field_distinct decoding)

lemma read_method [decoding]: "fits_pos (md_Position m) \<Longrightarrow> readMethod (canonicalMethod m) = Some m"
  by (cases m) (simp add: canonicalMethod_def readMethod_def field_distinct decoding)

lemma read_value [decoding]: "fits_pos (vd_Position v) \<Longrightarrow> readValue (canonicalValue v) = Some v"
  by (cases v) (simp add: canonicalValue_def readValue_def field_distinct decoding)

lemma read_failure [decoding]: "readFailure (canonicalFailure f) = Some f"
  by (cases f) (simp add: canonicalFailure_def readFailure_def field_distinct)

lemmas read_params = readArray_id [of _ readTP canonicalTP, OF read_tp]

lemma read_func [decoding]: "fits_pos (fn_Position f) \<Longrightarrow> readFunc (canonicalFunc f) = Some f"
  by (cases f) (simp add: canonicalFunc_def readFunc_def field_distinct decoding read_params del: readArray.simps)

lemma read_type [decoding]:
  assumes "fits_type t"
  shows "readType (canonicalType t) = Some (t\<lparr>td_EmbeddedTypes := sort (td_EmbeddedTypes t)\<rparr>)"
proof -
  have "readArray readField (JArr (map canonicalField (td_Fields t))) = Some (td_Fields t)"
    by (rule readArray_id, rule read_field) (use assms in \<open>simp add: fits_type_def\<close>)
  moreover have "readArray readMethod (JArr (map canonicalMethod (td_Methods t))) = Some (td_Methods t)"
    by (rule readArray_id, rule read_method) (use assms in \<open>simp add: fits_type_def\<close>)
  moreover have "fits_pos (td_Position t)" "int64 (td_Kind t)" using assms by (simp_all add: fits_type_def)
  ultimately show ?thesis
    by (cases t) (simp add: canonicalType_def readType_def field_distinct decoding read_params readArray_strings del: readArray.simps)
qed

lemma packageFields_distinct: "distinct (map fst (packageFields p))"
  by (simp add: packageFields_def unless_def)

lemma read_package [decoding]:
  assumes "fits_package p" "\<forall>t \<in> set (pi_Types p). sort (td_EmbeddedTypes t) = td_EmbeddedTypes t"
  shows "fromCanonicalPackage (toCanonicalPackage p) = Some p"
proof -
  have arrays: "readArray readValue (JArr (map canonicalValue (pi_Consts p))) = Some (pi_Consts p)"
    "readArray readValue (JArr (map canonicalValue (pi_Vars p))) = Some (pi_Vars p)"
    "readArray readFunc (JArr (map canonicalFunc (pi_Funcs p))) = Some (pi_Funcs p)"
    "readArray readFailure (JArr (map canonicalFailure (pi_ParseFailures p))) = Some (pi_ParseFailures p)"
    by (rule readArray_id, rule read_value read_func read_failure; use assms(1) in \<open>simp add: fits_package_def\<close>)+
  have types: "readArray readType (JArr (map canonicalType (pi_Types p))) = Some (pi_Types p)"
  proof (rule readArray_id)
    fix t assume t: "t \<in> set (pi_Types p)"
    then have "readType (canonicalType t) = Some (t\<lparr>td_EmbeddedTypes := sort (td_EmbeddedTypes t)\<rparr>)"
      using assms(1) by (intro read_type) (simp add: fits_package_def)
    with t assms(2) show "readType (canonicalType t) = Some t" by simp
  qed
  show ?thesis
    unfolding toCanonicalPackage_def fromCanonicalPackage_def readObject.simps Option.bind_lunit
      field_distinct [OF packageFields_distinct]
    by (cases "pi_OutOfFrame p") (simp_all add: packageFields_def decoding arrays types image_Un del: readArray.simps map_of_append)
qed

lemma read_frame [decoding]: "readFrame (canonicalFrame f) = Some f"
  by (cases f) (simp add: canonicalFrame_def readFrame_def field_distinct)

section \<open>The record is read back\<close>

lemma recordFields_distinct: "distinct (map fst (recordFields_if r))"
  by (simp add: recordFields_if_def unless_def)

lemma sortPackage_embedded: "\<forall>t \<in> set (pi_Types (sortPackage p)). sort (td_EmbeddedTypes t) = td_EmbeddedTypes t"
  by (simp add: sortPackage_def sortType_def sorted_sort_id)

lemma fits_sortType: "fits_type t \<Longrightarrow> fits_type (sortType t)"
  by (simp add: fits_type_def sortType_def)

lemma fits_sortPackage: "fits_package p \<Longrightarrow> fits_package (sortPackage p)"
  by (simp add: fits_package_def sortPackage_def sortFunc_def fits_sortType)

text \<open>What a record is once it has been stored.\<close>

definition stored_if :: "InterfaceRecord \<Rightarrow> InterfaceRecord" where
  "stored_if r = r\<lparr>ir_Packages := sortPackages (ir_Packages r), ir_ExtractedAt := ir_ExtractedAt r - nanosecond (ir_ExtractedAt r),
     ir_BuildFrame := (if api_frame_IsZero (ir_BuildFrame r) then zero_api_frame else ir_BuildFrame r)\<rparr>"

lemma read_record:
  assumes "fits_record r"
  shows "readRecord (canonicalRecord r) =
    Some ((Path (ir_Coordinate r), Version (ir_Coordinate r), date_time (ir_ExtractedAt r) @ ''Z''),
      (stored_if r)\<lparr>ir_Coordinate := zero_coordinate, ir_ExtractedAt := zero_time\<rparr>)"
proof -
  have pkgs: "readArray fromCanonicalPackage (JArr (map toCanonicalPackage (sortPackages (ir_Packages r))))
      = Some (sortPackages (ir_Packages r))"
  proof (rule readArray_id)
    fix p assume "p \<in> set (sortPackages (ir_Packages r))"
    then obtain q where "q \<in> set (ir_Packages r)" "p = sortPackage q" by (auto simp: sortPackages_def)
    with assms show "fromCanonicalPackage (toCanonicalPackage p) = Some p"
      by (intro read_package) (simp_all add: fits_record_def fits_sortPackage sortPackage_embedded)
  qed
  have coord: "field [(''path'', JStr a), (''version'', JStr b)] ''path'' = JStr a"
    "field [(''path'', JStr a), (''version'', JStr b)] ''version'' = JStr b" for a b
    by (simp_all add: field_distinct)
  have frame: "readPointer readFrame (case if api_frame_IsZero f then None else Some (canonicalFrame f) of None \<Rightarrow> JNull
      | Some j \<Rightarrow> j) = Some (if api_frame_IsZero f then None else Some f)" for f
  proof -
    have "canonicalFrame f \<noteq> JNull" by (simp add: canonicalFrame_def)
    then show ?thesis by (simp add: readPointer_def decoding)
  qed
  have framed: "(case if api_frame_IsZero f then None else Some f of None \<Rightarrow> zero_api_frame | Some g \<Rightarrow> g)
      = (if api_frame_IsZero f then zero_api_frame else f)" for f by simp
  have rebuilt: "\<lparr>ir_SchemaVersion = ir_SchemaVersion r, ir_Ecosystem = ir_Ecosystem r, ir_Coordinate = zero_coordinate,
      ir_Packages = ps, ir_OverallStatus = ir_OverallStatus r, ir_FailureDetail = ir_FailureDetail r, ir_BuildFrame = f,
      ir_Toolchain = ir_Toolchain r, ir_ExtractedAt = zero_time, ir_PipelineVersion = ir_PipelineVersion r,
      ir_ContentHash = ir_ContentHash r, ir_ArtefactIdentity = ir_ArtefactIdentity r,
      ir_SourceContentHash = ir_SourceContentHash r, ir_AnalyserLimit = ir_AnalyserLimit r\<rparr>
    = r\<lparr>ir_Packages := ps, ir_BuildFrame := f, ir_Coordinate := zero_coordinate, ir_ExtractedAt := zero_time\<rparr>" for ps f
    by (cases r) simp
  have status: "int64 (ir_OverallStatus r)" using assms by (simp add: fits_record_def)
  show ?thesis
    unfolding canonicalRecord_def readRecord_def readObject.simps Option.bind_lunit field_distinct [OF recordFields_distinct]
    by (simp add: recordFields_if_def decoding pkgs coord read_limit_field frame framed status rebuilt stored_if_def image_Un
        del: readArray.simps map_of_append)
qed

lemma stored_hash: "stored_if (r\<lparr>ir_ContentHash := h\<rparr>) = (stored_if r)\<lparr>ir_ContentHash := h\<rparr>"
  by (simp add: stored_if_def)

text \<open>A record that was stored has the text it had before.\<close>

lemma stored_text:
  assumes "stampable (ir_ExtractedAt r)"
  shows "canonicalRecord (stored_if r) = canonicalRecord r"
    "canonicalRecord ((stored_if r)\<lparr>ir_ContentHash := h\<rparr>) = canonicalRecord (r\<lparr>ir_ContentHash := h\<rparr>)"
proof -
  have "date_time (ir_ExtractedAt r - nanosecond (ir_ExtractedAt r)) = date_time (ir_ExtractedAt r)"
    by (rule date_time_truncated [OF assms])
  moreover have "api_frame_IsZero (if api_frame_IsZero f then zero_api_frame else f) = api_frame_IsZero f"
    "unless (api_frame_IsZero f) k (canonicalFrame (if api_frame_IsZero f then zero_api_frame else f))
      = unless (api_frame_IsZero f) k (canonicalFrame f)" for f k
    by (simp_all add: zero_api_frame_def api_frame_IsZero_def unless_def)
  ultimately have "recordFields_if ((stored_if r)\<lparr>ir_ContentHash := h\<rparr>) = recordFields_if (r\<lparr>ir_ContentHash := h\<rparr>)" for h
    by (simp add: recordFields_if_def stored_if_def sortPackages_idem del: if_split)
  from this [of "ir_ContentHash r"] this [of h]
  show "canonicalRecord (stored_if r) = canonicalRecord r"
    "canonicalRecord ((stored_if r)\<lparr>ir_ContentHash := h\<rparr>) = canonicalRecord (r\<lparr>ir_ContentHash := h\<rparr>)"
    by (simp_all add: canonicalRecord_def stored_if_def)
qed

text \<open>
  C27: A record that is written and read again comes back in canonical order, to the second, and with an
  unrecorded frame empty.  It has the text it had, so it verifies exactly when the one written did.
\<close>

theorem interface_record_roundtrip:
  assumes "fits_record r" "stampable (ir_ExtractedAt r)" "ir_Ecosystem r = EcosystemGo"
    "NewModuleCoordinate v path version = Inr (ir_Coordinate r)"
    "decode (marshalCanonical_if r) = Some (canonicalRecord r)"
  shows "Unmarshal_if v decode (marshalCanonical_if r) = Inr (stored_if r)
    \<and> marshalCanonical_if (stored_if r) = marshalCanonical_if r
    \<and> (VerifyContentHash_if H (stored_if r) = None \<longleftrightarrow> VerifyContentHash_if H r = None)"
proof -
  have c: "NewModuleCoordinate v (Path (ir_Coordinate r)) (Version (ir_Coordinate r)) = Inr (ir_Coordinate r)"
    using assms(4) by (auto simp: NewModuleCoordinate_Inr)
  have "Unmarshal_if v decode (marshalCanonical_if r) = Inr (stored_if r)"
    unfolding Unmarshal_if_def assms(5) Option.bind_lunit read_record [OF assms(1)]
    using assms(3) rfc3339_truncates [OF assms(2)] c by (simp add: stored_if_def)
  moreover have "sealOf_if H (stored_if r) = sealOf_if H r"
    by (simp add: sealOf_if_def marshalCanonical_if_def stored_text(2) [OF assms(2)])
  ultimately show ?thesis
    using stored_text(1) [OF assms(2)] by (simp add: marshalCanonical_if_def VerifyContentHash_if_def stored_if_def)
qed

definition exampleInterface :: InterfaceRecord where
  "exampleInterface = \<lparr>ir_SchemaVersion = ''2'', ir_Ecosystem = ''go'', ir_Coordinate = ModuleCoordinate ''m'' ''v1.0.0'',
     ir_Packages = [\<lparr>pi_ImportPath = ''m'', pi_Name = ''m'', pi_Doc = [],
        pi_Types = [\<lparr>td_Name = ''T'', td_Kind = TypeKindInterface, td_Signature = ''type T interface'', td_Doc = [],
          td_TypeParams = [], td_Fields = [], td_Methods = [], td_EmbeddedTypes = [''b'', ''a''],
          td_Position = \<lparr>ap_File = ''m.go'', ap_Line = 3\<rparr>, td_IsGenerated = False\<rparr>],
        pi_Funcs = [], pi_Consts = [], pi_Vars = [], pi_ParseFailures = [], pi_IsInternal = False, pi_IsMain = False,
        pi_OutOfFrame = True\<rparr>],
     ir_OverallStatus = InterfaceStatusExtracted, ir_FailureDetail = [],
     ir_BuildFrame = \<lparr>af_GOOS = ''linux'', af_GOARCH = ''amd64'', af_CgoEnabled = True\<rparr>, ir_Toolchain = ''go1.26.1'',
     ir_ExtractedAt = 1500000000, ir_PipelineVersion = ''1'', ir_ContentHash = [], ir_ArtefactIdentity = ''zip:h1:aa'',
     ir_SourceContentHash = ''s'', ir_AnalyserLimit = None\<rparr>"

lemma interface_record_roundtrip_witness:
  "\<exists>decode. Unmarshal_if (\<lambda>s. True) decode (marshalCanonical_if exampleInterface) = Inr (stored_if exampleInterface)
     \<and> ir_ExtractedAt (stored_if exampleInterface) = 1000000000
     \<and> map td_EmbeddedTypes (pi_Types (hd (ir_Packages (stored_if exampleInterface)))) = [[''a'', ''b'']]"
proof -
  have "fits_record exampleInterface"
    by (simp add: exampleInterface_def fits_record_def fits_package_def fits_type_def fits_pos_def int64_def
        InterfaceStatusExtracted_def TypeKindInterface_def)
  moreover have "stampable (ir_ExtractedAt exampleInterface)" by (simp add: exampleInterface_def stampable_def year_start_def)
  moreover have "NewModuleCoordinate (\<lambda>s. True) ''m'' ''v1.0.0'' = Inr (ir_Coordinate exampleInterface)"
    by (simp add: exampleInterface_def NewModuleCoordinate_def)
  moreover have "ir_Ecosystem exampleInterface = EcosystemGo" by (simp add: exampleInterface_def EcosystemGo_def)
  ultimately have "Unmarshal_if (\<lambda>s. True) (\<lambda>d. Some (canonicalRecord exampleInterface)) (marshalCanonical_if exampleInterface)
      = Inr (stored_if exampleInterface)"
    using interface_record_roundtrip [of exampleInterface "\<lambda>s. True" "''m''" "''v1.0.0''" "\<lambda>d. Some (canonicalRecord exampleInterface)"]
    by simp
  moreover have "ir_ExtractedAt (stored_if exampleInterface) = 1000000000"
    "map td_EmbeddedTypes (pi_Types (hd (ir_Packages (stored_if exampleInterface)))) = [[''a'', ''b'']]"
    by (simp_all add: exampleInterface_def stored_if_def nanosecond_def sortPackages_def sortPackage_def sortType_def)
  ultimately show ?thesis by (intro exI conjI)
qed

section \<open>What the seal covers\<close>

text \<open>Two records with one canonical tree are one record once stored.\<close>

lemma canonicalRecord_stored:
  assumes "fits_record a" "fits_record b" "stampable (ir_ExtractedAt a)" "stampable (ir_ExtractedAt b)"
    "canonicalRecord a = canonicalRecord b"
  shows "stored_if a = stored_if b"
proof -
  have eq: "((Path (ir_Coordinate a), Version (ir_Coordinate a), date_time (ir_ExtractedAt a) @ ''Z''),
        (stored_if a)\<lparr>ir_Coordinate := zero_coordinate, ir_ExtractedAt := zero_time\<rparr>)
      = ((Path (ir_Coordinate b), Version (ir_Coordinate b), date_time (ir_ExtractedAt b) @ ''Z''),
        (stored_if b)\<lparr>ir_Coordinate := zero_coordinate, ir_ExtractedAt := zero_time\<rparr>)"
    using read_record [OF assms(1)] read_record [OF assms(2)] assms(5) by simp
  then have "ir_ExtractedAt a - nanosecond (ir_ExtractedAt a) = ir_ExtractedAt b - nanosecond (ir_ExtractedAt b)"
    using date_time_eq [OF assms(3,4)] by (simp add: nanosecond_def minus_mod_eq_div_mult)
  then have t: "ir_ExtractedAt (stored_if a) = ir_ExtractedAt (stored_if b)" by (simp add: stored_if_def)
  have "ir_Coordinate a = ir_Coordinate b" using eq by (auto intro: ModuleCoordinate.expand)
  then have c: "ir_Coordinate (stored_if a) = ir_Coordinate (stored_if b)" by (simp add: stored_if_def)
  have "(stored_if a)\<lparr>ir_Coordinate := zero_coordinate, ir_ExtractedAt := zero_time\<rparr>
      = (stored_if b)\<lparr>ir_Coordinate := zero_coordinate, ir_ExtractedAt := zero_time\<rparr>" using eq by simp
  with t c show ?thesis by (cases "stored_if a"; cases "stored_if b") simp
qed

text \<open>
  Two records that verify under one content hash are one record once stored, unless the hash collides on the two
  texts hashed.
\<close>

theorem interface_seal_covers:
  assumes "fits_record a" "fits_record b" "stampable (ir_ExtractedAt a)" "stampable (ir_ExtractedAt b)"
    "VerifyContentHash_if H a = None" "VerifyContentHash_if H b = None" "ir_ContentHash a = ir_ContentHash b"
    "decode (marshalCanonical_if (a\<lparr>ir_ContentHash := []\<rparr>)) = Some (canonicalRecord (a\<lparr>ir_ContentHash := []\<rparr>))"
    "decode (marshalCanonical_if (b\<lparr>ir_ContentHash := []\<rparr>)) = Some (canonicalRecord (b\<lparr>ir_ContentHash := []\<rparr>))"
  shows "stored_if a = stored_if b \<or> (\<exists>x y. x \<noteq> y \<and> H x = H y
    \<and> x = marshalCanonical_if (a\<lparr>ir_ContentHash := []\<rparr>) \<and> y = marshalCanonical_if (b\<lparr>ir_ContentHash := []\<rparr>))"
proof (cases "marshalCanonical_if (a\<lparr>ir_ContentHash := []\<rparr>) = marshalCanonical_if (b\<lparr>ir_ContentHash := []\<rparr>)")
  case True
  then have "canonicalRecord (a\<lparr>ir_ContentHash := []\<rparr>) = canonicalRecord (b\<lparr>ir_ContentHash := []\<rparr>)"
    using assms(8,9) by simp
  then have "stored_if (a\<lparr>ir_ContentHash := []\<rparr>) = stored_if (b\<lparr>ir_ContentHash := []\<rparr>)"
    using assms(1-4) by (intro canonicalRecord_stored) (simp_all add: fits_record_def)
  then have "(stored_if a)\<lparr>ir_ContentHash := []\<rparr> = (stored_if b)\<lparr>ir_ContentHash := []\<rparr>" by (simp only: stored_hash)
  moreover have "ir_ContentHash (stored_if a) = ir_ContentHash (stored_if b)" using assms(7) by (simp add: stored_if_def)
  ultimately have "stored_if a = stored_if b" by (cases "stored_if a"; cases "stored_if b") simp
  then show ?thesis ..
next
  case False
  have "sealOf_if H a = sealOf_if H b" using assms(5-7) by (auto simp: VerifyContentHash_if_def split: if_splits)
  then have "EncodeToString (H (marshalCanonical_if (a\<lparr>ir_ContentHash := []\<rparr>)))
      = EncodeToString (H (marshalCanonical_if (b\<lparr>ir_ContentHash := []\<rparr>)))"
    unfolding sealOf_if_def by (rule append_eq_append_conv [THEN iffD1, THEN conjunct2, rotated]) simp
  from EncodeToString_inj [OF this] False show ?thesis by blast
qed

text \<open>The seal does not depend on the order the extractor met the declarations in.\<close>

theorem interface_seal_arrangement:
  assumes "rearranged samePackage (ir_Packages r) pkgs"
  shows "sealOf_if H (r\<lparr>ir_Packages := pkgs\<rparr>) = sealOf_if H r"
  using sortPackages_any [OF assms]
  by (simp add: sealOf_if_def marshalCanonical_if_def canonicalRecord_def recordFields_if_def)

end
