(* ===== verification/Iface_Compose.thy ===== *)
theory Iface_Compose
  imports Iface_Seal Disagreement
begin

text \<open>
  Which interface record answers for a coordinate (\<open>internal/iface/domain/compose.go\<close>): the best extraction,
  then the latest, unless the records name different artefacts or build frames, or the best of them
  disagree on the API.  Marshalling cannot fail on these records, so the branches that report it are left out.
\<close>

section \<open>Conflicts\<close>

record InterfaceConflict =
  xc_Coordinate :: ModuleCoordinate
  xc_PipelineVersion :: string
  xc_Field :: string
  xc_Values :: "string list"
  xc_ContentHashes :: "string list"

datatype interface_compose_error = NoInterfaceRecords | ConflictingInterfaces InterfaceConflict

definition identifiedOrAll_if :: "InterfaceRecord list \<Rightarrow> InterfaceRecord list" where
  "identifiedOrAll_if records = identifiedFirst ir_ArtefactIdentity records"

definition disagreement_if ::
  "InterfaceRecord list \<Rightarrow> string \<Rightarrow> (InterfaceRecord \<Rightarrow> string) \<Rightarrow> InterfaceConflict option" where
  "disagreement_if records name f = map_option (\<lambda>(vs, hs).
     \<lparr>xc_Coordinate = ir_Coordinate (hd records), xc_PipelineVersion = ir_PipelineVersion (hd records),
      xc_Field = name, xc_Values = vs, xc_ContentHashes = hs\<rparr>) (disagreeing ir_ContentHash f records)"

text \<open>What a record says of the API, leaving aside when and from which fetch and toolchain.\<close>

definition APIDigest :: "(string \<Rightarrow> string) \<Rightarrow> InterfaceRecord \<Rightarrow> string" where
  "APIDigest H r0 =
     (let r = r0\<lparr>ir_ContentHash := [], ir_ExtractedAt := zero_time, ir_SourceContentHash := [], ir_Toolchain := Unrecorded\<rparr>
      in ''sha256:'' @ EncodeToString (H (marshalCanonical_if r)))"

definition rank_if :: "InterfaceRecord \<Rightarrow> nat" where
  "rank_if r =
     (if ir_OverallStatus r = InterfaceStatusExtracted then 3
      else if ir_OverallStatus r = InterfaceStatusPartial then (if ir_AnalyserLimit r \<noteq> None then 1 else 2)
      else 0)"

fun topRank :: "nat \<Rightarrow> InterfaceRecord list \<Rightarrow> nat" where
  "topRank best [] = best"
| "topRank best (r # rs) = topRank (if best < rank_if r then rank_if r else best) rs"

definition tiedAtTop_if :: "InterfaceRecord list \<Rightarrow> InterfaceRecord list" where
  "tiedAtTop_if records = (let best = topRank (rank_if (hd records)) (tl records)
     in filter (\<lambda>r. rank_if r = best \<and> 0 < rank_if r) records)"

definition findConflict_if :: "(string \<Rightarrow> string) \<Rightarrow> InterfaceRecord list \<Rightarrow> InterfaceConflict option" where
  "findConflict_if H records =
     (if length records < 2 then None
      else case disagreement_if records ''artefact_identity'' ir_ArtefactIdentity of
        Some c \<Rightarrow> Some c
      | None \<Rightarrow>
          (case disagreement_if records ''build_frame'' (\<lambda>r. api_frame_String (ir_BuildFrame r)) of
             Some c \<Rightarrow> Some c
           | None \<Rightarrow> (let tied = tiedAtTop_if records in
               case disagreement_if tied ''public_api'' (APIDigest H) of
                 None \<Rightarrow> None
               | Some api \<Rightarrow> (case disagreement_if tied ''toolchain'' ir_Toolchain of
                   Some tc \<Rightarrow> Some tc
                 | None \<Rightarrow> Some api))))"

section \<open>Composition\<close>

definition servesBefore_if :: "InterfaceRecord \<Rightarrow> InterfaceRecord \<Rightarrow> bool" where
  "servesBefore_if a b =
     (if rank_if a \<noteq> rank_if b then rank_if b < rank_if a
      else if ir_ExtractedAt a \<noteq> ir_ExtractedAt b then ir_ExtractedAt b < ir_ExtractedAt a
      else ir_ContentHash a < ir_ContentHash b)"

definition Compose_if :: "(string \<Rightarrow> string) \<Rightarrow> InterfaceRecord list \<Rightarrow> interface_compose_error + InterfaceRecord" where
  "Compose_if H records =
     (if records = [] then Inl NoInterfaceRecords
      else if IsLocal (ir_Coordinate (hd records)) then Inr (last records)
      else let candidates = identifiedOrAll_if records
           in case findConflict_if H candidates of
                Some c \<Rightarrow> Inl (ConflictingInterfaces c)
              | None \<Rightarrow> Inr (serve servesBefore_if candidates))"

section \<open>One measurement or two\<close>

definition forMeasurementComparison_if :: "InterfaceRecord \<Rightarrow> InterfaceRecord" where
  "forMeasurementComparison_if r = r\<lparr>ir_ExtractedAt := zero_time, ir_ContentHash := [], ir_SourceContentHash := []\<rparr>"

text \<open>The digest of a measurement, for a record that names what it read.\<close>

definition SealMeasurement_if :: "(string \<Rightarrow> string) \<Rightarrow> InterfaceRecord \<Rightarrow> string option" where
  "SealMeasurement_if H r =
     (if \<not> NamesAnalysedContent_if r then None
      else Some (EncodeToString (H (marshalCanonical_if (forMeasurementComparison_if r)))))"

datatype measurement_error_if = UnsealedMeasurement_if

definition SameAs_if :: "(string \<Rightarrow> string) \<Rightarrow> string \<Rightarrow> InterfaceRecord \<Rightarrow> measurement_error_if + bool" where
  "SameAs_if H digest r =
     (if digest = [] then Inl UnsealedMeasurement_if
      else case SealMeasurement_if H r of None \<Rightarrow> Inr False | Some other \<Rightarrow> Inr (digest = other))"

definition SameMeasurement_if :: "(string \<Rightarrow> string) \<Rightarrow> InterfaceRecord \<Rightarrow> InterfaceRecord \<Rightarrow> measurement_error_if + bool" where
  "SameMeasurement_if H a b =
     (case SealMeasurement_if H a of None \<Rightarrow> Inr False | Some digest \<Rightarrow> SameAs_if H digest b)"

section \<open>The serving order\<close>

interpretation api: sealed_serving servesBefore_if ir_ContentHash
proof unfold_locales
  show "swo servesBefore_if" unfolding servesBefore_if_def [abs_def] by (intro swo_intros)
  show "\<not> servesBefore_if a b \<Longrightarrow> \<not> servesBefore_if b a \<Longrightarrow> ir_ContentHash a = ir_ContentHash b" for a b
    by (auto simp: servesBefore_if_def split: if_splits)
qed

text \<open>What a record is preferred for.\<close>

definition evidence_if :: "InterfaceRecord \<Rightarrow> nat \<times> instant" where
  "evidence_if r = (rank_if r, ir_ExtractedAt r)"

lemma not_served_before:
  "\<not> servesBefore_if b r \<Longrightarrow> evidence_if b < evidence_if r \<or> evidence_if b = evidence_if r \<and> ir_ContentHash r \<le> ir_ContentHash b"
  by (auto simp: servesBefore_if_def evidence_if_def split: if_splits)

section \<open>When the records contradict each other\<close>

definition agreeOn_if :: "(InterfaceRecord \<Rightarrow> string) \<Rightarrow> InterfaceRecord set \<Rightarrow> bool" where
  "agreeOn_if f A \<longleftrightarrow> (\<forall>a \<in> A. \<forall>b \<in> A. f a = [] \<or> f b = [] \<or> f a = f b)"

text \<open>The records of the best extraction, if any extraction says anything.\<close>

definition bestExtracted :: "InterfaceRecord set \<Rightarrow> InterfaceRecord set" where
  "bestExtracted A = {r \<in> A. rank_if r = Max (rank_if ` A) \<and> 0 < rank_if r}"

definition consistent_if :: "(string \<Rightarrow> string) \<Rightarrow> InterfaceRecord set \<Rightarrow> bool" where
  "consistent_if H A \<longleftrightarrow> agreeOn_if ir_ArtefactIdentity A \<and> agreeOn_if (\<lambda>r. api_frame_String (ir_BuildFrame r)) A
     \<and> agreeOn_if (APIDigest H) (bestExtracted A)"

lemma disagreement_if_None: "disagreement_if records n f = None \<longleftrightarrow> agreeOn_if f (set records)"
  by (simp add: disagreement_if_def disagreeing_None agreeOn_if_def)

lemma disagreement_if_Some:
  "disagreement_if records n f = Some c \<Longrightarrow> xc_Field c = n \<and> reports ir_ContentHash f (set records) (xc_Values c) (xc_ContentHashes c)"
  by (auto simp: disagreement_if_def intro: disagreeing_Some)

lemma topRank_max: "topRank t rs = Max (insert t (rank_if ` set rs))"
proof (induction rs arbitrary: t)
  case (Cons r rs)
  have "topRank t (r # rs) = Max (insert (max t (rank_if r)) (rank_if ` set rs))" by (simp add: Cons.IH max_def)
  also have "\<dots> = Max (insert t (insert (rank_if r) (rank_if ` set rs)))"
    by (cases "set rs = {}") (simp_all add: max.assoc)
  finally show ?case by simp
qed simp

lemma tiedAtTop_if_set: "records \<noteq> [] \<Longrightarrow> set (tiedAtTop_if records) = bestExtracted (set records)"
  by (cases records) (auto simp: tiedAtTop_if_def bestExtracted_def topRank_max Let_def)

lemma agree_few: "length records < 2 \<Longrightarrow> agreeOn_if f (set records)"
  by (cases records; cases "tl records") (auto simp: agreeOn_if_def)

lemma findConflict_if_None:
  assumes "records \<noteq> []"
  shows "findConflict_if H records = None \<longleftrightarrow> consistent_if H (set records)"
proof (cases "length records < 2")
  case True
  then obtain x where "records = [x]" using assms by (cases records; cases "tl records") auto
  then show ?thesis by (simp add: findConflict_if_def consistent_if_def agreeOn_if_def bestExtracted_def)
next
  case False
  note none = disagreement_if_None [of records "''artefact_identity''" ir_ArtefactIdentity]
    disagreement_if_None [of records "''build_frame''" "\<lambda>r. api_frame_String (ir_BuildFrame r)"]
    disagreement_if_None [of "tiedAtTop_if records" "''public_api''" "APIDigest H", unfolded tiedAtTop_if_set [OF assms]]
  have "findConflict_if H records = None \<longleftrightarrow> disagreement_if records ''artefact_identity'' ir_ArtefactIdentity = None
      \<and> disagreement_if records ''build_frame'' (\<lambda>r. api_frame_String (ir_BuildFrame r)) = None
      \<and> disagreement_if (tiedAtTop_if records) ''public_api'' (APIDigest H) = None"
    using False by (simp add: findConflict_if_def Let_def split: option.split)
  then show ?thesis unfolding none consistent_if_def .
qed

text \<open>
  The conflict reported is one the records have: of the artefacts, of the frames, of the APIs of the best
  extractions, or of the toolchains of those, where their APIs differ.
\<close>

definition conflict_of :: "(string \<Rightarrow> string) \<Rightarrow> InterfaceRecord set \<Rightarrow> InterfaceConflict \<Rightarrow> bool" where
  "conflict_of H A c \<longleftrightarrow>
     (xc_Field c = ''artefact_identity'' \<and> reports ir_ContentHash ir_ArtefactIdentity A (xc_Values c) (xc_ContentHashes c))
   \<or> (xc_Field c = ''build_frame'' \<and> agreeOn_if ir_ArtefactIdentity A
        \<and> reports ir_ContentHash (\<lambda>r. api_frame_String (ir_BuildFrame r)) A (xc_Values c) (xc_ContentHashes c))
   \<or> (agreeOn_if ir_ArtefactIdentity A \<and> agreeOn_if (\<lambda>r. api_frame_String (ir_BuildFrame r)) A
        \<and> \<not> agreeOn_if (APIDigest H) (bestExtracted A)
        \<and> (xc_Field c = ''toolchain'' \<and> reports ir_ContentHash ir_Toolchain (bestExtracted A) (xc_Values c) (xc_ContentHashes c)
         \<or> xc_Field c = ''public_api'' \<and> agreeOn_if ir_Toolchain (bestExtracted A)
             \<and> reports ir_ContentHash (APIDigest H) (bestExtracted A) (xc_Values c) (xc_ContentHashes c)))"

lemma findConflict_if_Some:
  assumes "records \<noteq> []" "findConflict_if H records = Some c"
  shows "conflict_of H (set records) c"
proof -
  let ?frame = "\<lambda>r. api_frame_String (ir_BuildFrame r)" and ?tied = "tiedAtTop_if records"
  have tied: "set ?tied = bestExtracted (set records)" by (rule tiedAtTop_if_set [OF assms(1)])
  have c: "(case disagreement_if records ''artefact_identity'' ir_ArtefactIdentity of Some c \<Rightarrow> Some c
    | None \<Rightarrow> (case disagreement_if records ''build_frame'' ?frame of Some c \<Rightarrow> Some c
      | None \<Rightarrow> (case disagreement_if ?tied ''public_api'' (APIDigest H) of None \<Rightarrow> None
        | Some a \<Rightarrow> (case disagreement_if ?tied ''toolchain'' ir_Toolchain of Some tc \<Rightarrow> Some tc | None \<Rightarrow> Some a)))) = Some c"
    using assms(2) unfolding findConflict_if_def Let_def by (simp split: if_splits)
  show ?thesis
  proof (cases "disagreement_if records ''artefact_identity'' ir_ArtefactIdentity")
    case (Some d)
    with c disagreement_if_Some [OF Some] show ?thesis by (simp add: conflict_of_def)
  next
    case art: None
    show ?thesis
    proof (cases "disagreement_if records ''build_frame'' ?frame")
      case (Some d)
      with c art disagreement_if_Some [OF Some] show ?thesis by (simp add: conflict_of_def disagreement_if_None)
    next
      case frame: None
      then obtain a where a: "disagreement_if ?tied ''public_api'' (APIDigest H) = Some a"
        using c art by (auto split: option.splits)
      have no: "\<not> agreeOn_if (APIDigest H) (bestExtracted (set records))"
        using a disagreement_if_None [of ?tied "''public_api''" "APIDigest H"] tied by simp
      note yes = art [unfolded disagreement_if_None] frame [unfolded disagreement_if_None]
      show ?thesis
      proof (cases "disagreement_if ?tied ''toolchain'' ir_Toolchain")
        case None
        with c art frame a have "a = c" by simp
        with None disagreement_if_Some [OF a] yes no show ?thesis
          unfolding conflict_of_def disagreement_if_None tied by simp
      next
        case (Some d)
        with c art frame a have "d = c" by simp
        with disagreement_if_Some [OF Some] yes no show ?thesis unfolding conflict_of_def tied by simp
      qed
    qed
  qed
qed

text \<open>
  C26: A coordinate that pins content is answered by the best evidenced record exactly when the records that
  compete are consistent, and refused with a contradiction they have otherwise.  A toolchain alone never
  refuses.  Of a local coordinate the last record answers.
\<close>

theorem interface_serves_or_refuses:
  assumes "records \<noteq> []"
  shows "case Compose_if H records of
      Inr r \<Rightarrow> (IsLocal (ir_Coordinate (hd records)) \<and> r = last records)
        \<or> (\<not> IsLocal (ir_Coordinate (hd records)) \<and> consistent_if H (competing ir_ArtefactIdentity (set records))
           \<and> r \<in> competing ir_ArtefactIdentity (set records)
           \<and> (\<forall>b \<in> competing ir_ArtefactIdentity (set records). evidence_if b < evidence_if r
                \<or> evidence_if b = evidence_if r \<and> ir_ContentHash r \<le> ir_ContentHash b))
    | Inl NoInterfaceRecords \<Rightarrow> False
    | Inl (ConflictingInterfaces c) \<Rightarrow> \<not> IsLocal (ir_Coordinate (hd records))
        \<and> \<not> consistent_if H (competing ir_ArtefactIdentity (set records))
        \<and> conflict_of H (competing ir_ArtefactIdentity (set records)) c"
proof (cases "IsLocal (ir_Coordinate (hd records))")
  case True
  then show ?thesis using assms by (simp add: Compose_if_def)
next
  case False
  let ?cs = "identifiedOrAll_if records"
  have ne: "?cs \<noteq> []" unfolding identifiedOrAll_if_def by (rule identifiedFirst_nonempty [OF assms])
  have cs: "set ?cs = competing ir_ArtefactIdentity (set records)"
    unfolding identifiedOrAll_if_def by (rule identifiedFirst_set)
  show ?thesis
  proof (cases "findConflict_if H ?cs")
    case None
    then have "Compose_if H records = Inr (serve servesBefore_if ?cs)" using False assms by (simp add: Compose_if_def)
    moreover have "consistent_if H (set ?cs)" using None findConflict_if_None [OF ne] by simp
    moreover have "\<forall>b \<in> set ?cs. evidence_if b < evidence_if (serve servesBefore_if ?cs)
        \<or> evidence_if b = evidence_if (serve servesBefore_if ?cs) \<and> ir_ContentHash (serve servesBefore_if ?cs) \<le> ir_ContentHash b"
      using api.nothing_before_served not_served_before by blast
    ultimately show ?thesis using False api.served_in [OF ne] unfolding cs by simp
  next
    case (Some c)
    then have "Compose_if H records = Inl (ConflictingInterfaces c)" using False assms by (simp add: Compose_if_def)
    moreover have "\<not> consistent_if H (set ?cs)" using Some findConflict_if_None [OF ne, of H] by simp
    moreover have "conflict_of H (set ?cs) c" by (rule findConflict_if_Some [OF ne Some])
    ultimately show ?thesis using False unfolding cs by simp
  qed
qed

text \<open>A failed extraction beside a later complete one: the complete one answers.\<close>

definition exampleExtraction :: "int \<Rightarrow> instant \<Rightarrow> InterfaceRecord" where
  "exampleExtraction status at = \<lparr>ir_SchemaVersion = ''2'', ir_Ecosystem = ''go'', ir_Coordinate = ModuleCoordinate ''m'' ''v1.0.0'',
     ir_Packages = [], ir_OverallStatus = status, ir_FailureDetail = [],
     ir_BuildFrame = \<lparr>af_GOOS = ''linux'', af_GOARCH = ''amd64'', af_CgoEnabled = True\<rparr>, ir_Toolchain = ''go1.26.1'',
     ir_ExtractedAt = at, ir_PipelineVersion = ''1'', ir_ContentHash = ''h'', ir_ArtefactIdentity = ''zip:h1:aa'',
     ir_SourceContentHash = [], ir_AnalyserLimit = None\<rparr>"

lemma interface_serves_or_refuses_witness:
  "let failed = exampleExtraction InterfaceStatusExtractionFailed 7; extracted = exampleExtraction InterfaceStatusExtracted 9 in
     Compose_if (\<lambda>_. ''d'') [failed, extracted] = Inr extracted \<and> evidence_if failed < evidence_if extracted
     \<and> consistent_if (\<lambda>_. ''d'') (competing ir_ArtefactIdentity {failed, extracted})"
proof -
  define failed where "failed = exampleExtraction InterfaceStatusExtractionFailed 7"
  define extracted where "extracted = exampleExtraction InterfaceStatusExtracted 9"
  have served: "Compose_if (\<lambda>_. ''d'') [failed, extracted] = Inr extracted" "\<not> IsLocal (ir_Coordinate failed)"
    and ev: "evidence_if failed < evidence_if extracted"
    unfolding failed_def extracted_def by code_simp+
  have "consistent_if (\<lambda>_. ''d'') (competing ir_ArtefactIdentity (set [failed, extracted]))"
    using interface_serves_or_refuses [of "[failed, extracted]" "\<lambda>_. ''d''"] unfolding served(1) by (simp add: served(2))
  with served ev show ?thesis unfolding failed_def [symmetric] extracted_def [symmetric] Let_def by simp
qed

text \<open>The order rows are listed in does not change the answer.\<close>

theorem interface_compose_any_order:
  assumes "set records = set others" "records \<noteq> []" "inj_on ir_ContentHash (set records)"
    "\<forall>r \<in> set records. \<not> IsLocal (ir_Coordinate r)"
  shows "(\<exists>r. Compose_if H records = Inr r \<and> Compose_if H others = Inr r)
    \<or> (\<exists>c d. Compose_if H records = Inl (ConflictingInterfaces c) \<and> Compose_if H others = Inl (ConflictingInterfaces d))"
proof -
  let ?a = "identifiedOrAll_if records" and ?b = "identifiedOrAll_if others"
  have ne: "others \<noteq> []" using assms(1,2) by (metis set_empty)
  have ns: "?a \<noteq> []" "?b \<noteq> []" using assms(2) ne identifiedFirst_nonempty by (auto simp: identifiedOrAll_if_def)
  have set: "set ?a = set ?b" using assms(1) by (simp add: identifiedOrAll_if_def identifiedFirst_set)
  have inj: "inj_on ir_ContentHash (set ?a)"
    using assms(3) by (rule inj_on_subset) (auto simp: identifiedOrAll_if_def identifiedFirst_set competing_def split: if_splits)
  have "findConflict_if H ?a = None \<longleftrightarrow> findConflict_if H ?b = None" using findConflict_if_None ns set by simp
  moreover have "serve servesBefore_if ?a = serve servesBefore_if ?b" by (rule api.served_any_order [OF set ns(1) inj])
  moreover have "\<not> IsLocal (ir_Coordinate (hd records))" "\<not> IsLocal (ir_Coordinate (hd others))"
    using assms ne by (metis hd_in_set)+
  ultimately show ?thesis
    using assms(2) ne by (cases "findConflict_if H ?a"; cases "findConflict_if H ?b") (auto simp: Compose_if_def)
qed

text \<open>Two records state one measurement when both name what they read and agree on everything compared.\<close>

lemma same_measurement_iff:
  assumes "\<And>x. H x \<noteq> []" "\<And>x y. H x = H y \<Longrightarrow> x = y"
  shows "SameMeasurement_if H a b = Inr (NamesAnalysedContent_if a \<and> NamesAnalysedContent_if b
    \<and> marshalCanonical_if (forMeasurementComparison_if a) = marshalCanonical_if (forMeasurementComparison_if b))"
proof -
  have ne: "EncodeToString (H x) \<noteq> []" for x
    using assms(1) [of x] EncodeToString_inj [of "H x" "[]"] by (auto simp: EncodeToString_def)
  have inj: "EncodeToString (H x) = EncodeToString (H y) \<longleftrightarrow> x = y" for x y
    using EncodeToString_inj [of "H x" "H y"] assms(2) by auto
  show ?thesis by (simp add: SameMeasurement_if_def SealMeasurement_if_def SameAs_if_def ne inj)
qed

end
