(* ===== verification/Iface_Diff.thy ===== *)
theory Iface_Diff
  imports Iface_Order Go_Strings "HOL-Library.AList" "HOL-Library.Monad_Syntax"
begin

text \<open>
  The difference of two interface records (\<open>internal/iface/domain/diff.go\<close>).  The reader of signature
  texts is an interface of the code and the parameter \<open>reader\<close>; the index of identities is filled in the
  order a map is visited in, the parameter \<open>visit\<close>.
\<close>

section \<open>Symbols\<close>

definition SymbolFunc :: string where "SymbolFunc = ''func''"
definition SymbolType :: string where "SymbolType = ''type''"
definition SymbolMethod :: string where "SymbolMethod = ''method''"
definition SymbolConst :: string where "SymbolConst = ''const''"
definition SymbolVar :: string where "SymbolVar = ''var''"

record SymbolID =
  si_Package :: string
  si_Kind :: string
  si_Name :: string

definition symbol_String :: "SymbolID \<Rightarrow> string" where
  "symbol_String s = si_Package s @ ''.'' @ si_Name s @ '' ('' @ si_Kind s @ '')''"

record Symbol =
  sy_ID :: SymbolID
  sy_Signature :: string
  sy_Position :: ApiPosition
  sy_PtrReceiver :: bool

definition zero_symbol_id :: SymbolID where
  "zero_symbol_id = \<lparr>si_Package = [], si_Kind = [], si_Name = []\<rparr>"

record SignatureChange =
  sc_Symbol :: SymbolID
  sc_From :: string
  sc_To :: string
  sc_PtrReceiver :: bool
  sc_MovedTo :: SymbolID

record RenamedSymbol =
  rs_From :: SymbolID
  rs_To :: SymbolID
  rs_Signature :: string
  rs_PtrReceiver :: bool

definition RegistryInA :: string where "RegistryInA = ''A''"
definition RegistryInB :: string where "RegistryInB = ''B''"
definition RegistryInBoth :: string where "RegistryInBoth = ''both''"

record RegistrySurface =
  sf_Symbol :: SymbolID
  sf_Shape :: string
  sf_Side :: string

text \<open>The port the texts are read through.\<close>

record SignatureReader =
  DiffersOnlyInSpelling :: "string \<Rightarrow> string \<Rightarrow> bool"
  RegistryShape :: "string \<Rightarrow> (string \<Rightarrow> string option) \<Rightarrow> string option"
  ResultRegistryShape :: "string \<Rightarrow> (string \<Rightarrow> string option) \<Rightarrow> string option"

definition unreadSignatures :: SignatureReader where
  "unreadSignatures = \<lparr>DiffersOnlyInSpelling = (\<lambda>_ _. False), RegistryShape = (\<lambda>_ _. None), ResultRegistryShape = (\<lambda>_ _. None)\<rparr>"

record InterfaceDiff =
  id_RecordA :: InterfaceRecord
  id_RecordB :: InterfaceRecord
  id_PackagesAdded :: "string list"
  id_PackagesRemoved :: "string list"
  id_Added :: "Symbol list"
  id_Removed :: "Symbol list"
  id_Changed :: "SignatureChange list"
  id_Spelling :: "SignatureChange list"
  id_RenamedPath :: "RenamedSymbol list"
  id_MajorPathPair :: bool
  id_Registries :: "RegistrySurface list"
  id_ExcludedTestdataPackages :: "string list"
  id_FrameMismatch :: bool

definition SameFrame_if :: "InterfaceRecord \<Rightarrow> InterfaceRecord \<Rightarrow> bool" where
  "SameFrame_if a b = (if api_frame_IsZero (ir_BuildFrame a) \<or> api_frame_IsZero (ir_BuildFrame b) then False
     else ir_BuildFrame a = ir_BuildFrame b)"

definition BreakingCount :: "InterfaceDiff \<Rightarrow> nat" where
  "BreakingCount d = length (id_Removed d) + length (id_Changed d)"

definition HasChanges_if :: "InterfaceDiff \<Rightarrow> bool" where
  "HasChanges_if d \<longleftrightarrow> 0 < length (id_Added d) \<or> 0 < length (id_Removed d) \<or> 0 < length (id_Changed d)
     \<or> 0 < length (id_Spelling d) \<or> 0 < length (id_RenamedPath d)"

definition ZeroBreakingOverNonTrivialDelta :: "InterfaceDiff \<Rightarrow> bool" where
  "ZeroBreakingOverNonTrivialDelta d \<longleftrightarrow> BreakingCount d = 0 \<and> HasChanges_if d"

section \<open>Module paths under two majors\<close>

definition stripMajorSuffix :: "string \<Rightarrow> string" where
  "stripMajorSuffix path =
     (case LastIndex path ''/v'' of
        None \<Rightarrow> path
      | Some i \<Rightarrow> (let digits = drop (i + 2) path in
          if length digits = 0 \<or> digits = ''0'' \<or> digits = ''1'' \<or> hd digits = CHR ''0'' then path
          else if list_ex (\<lambda>r. r < CHR ''0'' \<or> CHR ''9'' < r) digits then path
          else take i path))"

definition isMajorPathPair :: "string \<Rightarrow> string \<Rightarrow> bool" where
  "isMajorPathPair a b \<longleftrightarrow> a \<noteq> b \<and> stripMajorSuffix a = stripMajorSuffix b"

definition relativePackage :: "string \<Rightarrow> string \<Rightarrow> string" where
  "relativePackage importPath modulePath =
     (if modulePath = [] then importPath
      else if importPath = modulePath then []
      else case CutPrefix importPath (modulePath @ ''/'') of
          (rest, True) \<Rightarrow> ''/'' @ rest
        | (_, False) \<Rightarrow> importPath)"

type_synonym symbolIdentity = "string \<times> string \<times> string"

definition identityOf_if :: "SymbolID \<Rightarrow> string \<Rightarrow> symbolIdentity" where
  "identityOf_if s modulePath = (relativePackage (si_Package s) modulePath, si_Kind s, si_Name s)"

section \<open>Collecting\<close>

definition isTestdataPackage :: "string \<Rightarrow> bool" where
  "isTestdataPackage importPath \<longleftrightarrow> List.member (Split importPath CHR ''/'') ''testdata''"

definition comparablePackages :: "InterfaceRecord \<Rightarrow> PackageInterface list \<times> string list" where
  "comparablePackages r = (filter (\<lambda>p. \<not> isTestdataPackage (pi_ImportPath p)) (ir_Packages r),
     map pi_ImportPath (filter (\<lambda>p. isTestdataPackage (pi_ImportPath p)) (ir_Packages r)))"

definition symbolAt :: "PackageInterface \<Rightarrow> string \<Rightarrow> string \<Rightarrow> string \<Rightarrow> ApiPosition \<Rightarrow> bool \<Rightarrow> Symbol" where
  "symbolAt p kind name signature position ptr =
     \<lparr>sy_ID = \<lparr>si_Package = pi_ImportPath p, si_Kind = kind, si_Name = name\<rparr>, sy_Signature = signature,
      sy_Position = position, sy_PtrReceiver = ptr\<rparr>"

text \<open>The declarations of a package in the order they are collected.\<close>

definition packageSymbols :: "PackageInterface \<Rightarrow> Symbol list" where
  "packageSymbols p =
     map (\<lambda>f. symbolAt p SymbolFunc (fn_Name f) (fn_Signature f) (fn_Position f) False) (pi_Funcs p)
     @ concat (map (\<lambda>t. symbolAt p SymbolType (td_Name t) (td_Signature t) (td_Position t) False
         # map (\<lambda>m. symbolAt p SymbolMethod (td_Name t @ ''.'' @ md_Name m) (md_Signature m) (md_Position m) (md_PtrReceiver m))
             (td_Methods t)) (pi_Types p))
     @ map (\<lambda>c. symbolAt p SymbolConst (vd_Name c) (vd_Type c) (vd_Position c) False) (pi_Consts p)
     @ map (\<lambda>v. symbolAt p SymbolVar (vd_Name v) (vd_Type v) (vd_Position v) False) (pi_Vars p)"

text \<open>A map is an association list with distinct keys; a key set twice keeps the later value.\<close>

type_synonym symbols = "(SymbolID \<times> Symbol) list"

definition collectSymbols :: "PackageInterface list \<Rightarrow> symbols" where
  "collectSymbols pkgs = fold (\<lambda>s m. AList.update (sy_ID s) s m) (concat (map packageSymbols pkgs)) []"

definition symbolIDLess :: "SymbolID \<Rightarrow> SymbolID \<Rightarrow> bool" where
  "symbolIDLess x y =
     ((if Compare (si_Package x) (si_Package y) \<noteq> 0 then Compare (si_Package x) (si_Package y)
       else if Compare (si_Kind x) (si_Kind y) \<noteq> 0 then Compare (si_Kind x) (si_Kind y)
       else Compare (si_Name x) (si_Name y)) < 0)"

definition sortedIDs :: "symbols \<Rightarrow> SymbolID list" where
  "sortedIDs m = stable_sort symbolIDLess (map fst m)"

definition indexByIdentity :: "(SymbolID list \<Rightarrow> SymbolID list) \<Rightarrow> symbols \<Rightarrow> string \<Rightarrow> symbolIdentity \<Rightarrow> SymbolID option" where
  "indexByIdentity visit m modulePath = map_of (rev (map (\<lambda>i. (identityOf_if i modulePath, i)) (visit (map fst m))))"

definition missingFrom :: "PackageInterface list \<Rightarrow> PackageInterface list \<Rightarrow> string \<Rightarrow> string \<Rightarrow> string list" where
  "missingFrom want have wantModule haveModule =
     sort (map pi_ImportPath (filter (\<lambda>p. relativePackage (pi_ImportPath p) wantModule
         \<notin> set (map (\<lambda>q. relativePackage (pi_ImportPath q) haveModule) have)) want))"

definition mergeSorted :: "string list \<Rightarrow> string list \<Rightarrow> string list" where
  "mergeSorted a b = sorted_distinct (a @ b)"

section \<open>Registries\<close>

definition localTypeUnderlying :: "PackageInterface \<Rightarrow> string \<Rightarrow> string option" where
  "localTypeUnderlying p = fold (\<lambda>t m. case StrIndex (td_Signature t) (''type '' @ td_Name t) of
       None \<Rightarrow> m
     | Some i \<Rightarrow> m(td_Name t \<mapsto> TrimSpace (TrimPrefix
         (TrimSpace (drop (i + length (''type '' @ td_Name t)) (td_Signature t))) ''=''))) (pi_Types p) Map.empty"

definition surfaceAt :: "PackageInterface \<Rightarrow> string \<Rightarrow> string \<Rightarrow> string \<Rightarrow> string option \<Rightarrow> RegistrySurface list" where
  "surfaceAt p side kind name shape = (case shape of None \<Rightarrow> []
     | Some s \<Rightarrow> [\<lparr>sf_Symbol = \<lparr>si_Package = pi_ImportPath p, si_Kind = kind, si_Name = name\<rparr>, sf_Shape = s, sf_Side = side\<rparr>])"

definition registrySurfacesOf :: "PackageInterface list \<Rightarrow> string \<Rightarrow> SignatureReader \<Rightarrow> RegistrySurface list" where
  "registrySurfacesOf pkgs side reader = concat (map (\<lambda>p. let lcl = localTypeUnderlying p in
     concat (map (\<lambda>v. surfaceAt p side SymbolVar (vd_Name v) (RegistryShape reader (vd_Type v) lcl)) (pi_Vars p))
     @ concat (map (\<lambda>c. surfaceAt p side SymbolConst (vd_Name c) (RegistryShape reader (vd_Type c) lcl)) (pi_Consts p))
     @ concat (map (\<lambda>f. surfaceAt p side SymbolFunc (fn_Name f) (ResultRegistryShape reader (fn_Signature f) lcl)) (pi_Funcs p))
     @ concat (map (\<lambda>t. concat (map (\<lambda>m. surfaceAt p side SymbolMethod (td_Name t @ ''.'' @ md_Name m)
         (ResultRegistryShape reader (md_Signature m) lcl)) (td_Methods t))) (pi_Types p))) pkgs)"

definition recordSurface :: "string \<Rightarrow> RegistrySurface \<Rightarrow> (SymbolID \<times> RegistrySurface) list \<Rightarrow> (SymbolID \<times> RegistrySurface) list" where
  "recordSurface side s found =
     (case map_of found (sf_Symbol s) of
        Some prev \<Rightarrow> if sf_Side prev \<noteq> side then AList.update (sf_Symbol s) (prev\<lparr>sf_Side := RegistryInBoth\<rparr>) found
          else AList.update (sf_Symbol s) s found
      | None \<Rightarrow> AList.update (sf_Symbol s) s found)"

definition detectRegistries :: "PackageInterface list \<Rightarrow> PackageInterface list \<Rightarrow> SignatureReader \<Rightarrow> RegistrySurface list" where
  "detectRegistries pkgsA pkgsB reader =
     (let inA = fold (recordSurface RegistryInA) (registrySurfacesOf pkgsA RegistryInA reader) [];
          found = fold (recordSurface RegistryInB) (registrySurfacesOf pkgsB RegistryInB reader) inA
      in stable_sort (\<lambda>x y. symbolIDLess (sf_Symbol x) (sf_Symbol y)) (map snd found))"

section \<open>The comparison\<close>

text \<open>What the loop makes of one symbol of A.\<close>

datatype comparison =
    Unmatched
  | Unchanged SymbolID
  | Renamed RenamedSymbol
  | Respelled SignatureChange
  | Resigned SignatureChange

definition lookupSymbol :: "symbols \<Rightarrow> SymbolID \<Rightarrow> Symbol" where
  "lookupSymbol m i = (case map_of m i of Some s \<Rightarrow> s
     | None \<Rightarrow> \<lparr>sy_ID = zero_symbol_id, sy_Signature = [], sy_Position = \<lparr>ap_File = [], ap_Line = 0\<rparr>, sy_PtrReceiver = False\<rparr>)"

definition compareSymbol ::
  "SignatureReader \<Rightarrow> symbols \<Rightarrow> symbols \<Rightarrow> (symbolIdentity \<Rightarrow> SymbolID option) \<Rightarrow> string \<Rightarrow> SymbolID \<Rightarrow> comparison" where
  "compareSymbol reader symsA symsB keyedB relA idA =
     (case keyedB (identityOf_if idA relA) of
        None \<Rightarrow> Unmatched
      | Some idB \<Rightarrow>
          (let symA = lookupSymbol symsA idA; symB = lookupSymbol symsB idB in
           if sy_Signature symA = sy_Signature symB then
             (if idA \<noteq> idB then Renamed \<lparr>rs_From = idA, rs_To = idB, rs_Signature = sy_Signature symB,
                  rs_PtrReceiver = sy_PtrReceiver symB\<rparr>
              else Unchanged idB)
           else
             (let change = \<lparr>sc_Symbol = idA, sc_From = sy_Signature symA, sc_To = sy_Signature symB,
                  sc_PtrReceiver = sy_PtrReceiver symB, sc_MovedTo = (if idA \<noteq> idB then idB else zero_symbol_id)\<rparr> in
              if DiffersOnlyInSpelling reader (sc_From change) (sc_To change) then Respelled change else Resigned change)))"

definition matchedB :: "(symbolIdentity \<Rightarrow> SymbolID option) \<Rightarrow> string \<Rightarrow> SymbolID list \<Rightarrow> SymbolID list" where
  "matchedB keyedB relA ids = List.map_filter (\<lambda>i. keyedB (identityOf_if i relA)) ids"

definition matchedA :: "(symbolIdentity \<Rightarrow> SymbolID option) \<Rightarrow> string \<Rightarrow> SymbolID list \<Rightarrow> SymbolID list" where
  "matchedA keyedB relA ids = filter (\<lambda>i. keyedB (identityOf_if i relA) \<noteq> None) ids"

definition DiffRecords_if ::
  "(SymbolID list \<Rightarrow> SymbolID list) \<Rightarrow> InterfaceRecord \<Rightarrow> InterfaceRecord \<Rightarrow> SignatureReader option \<Rightarrow> InterfaceDiff" where
  "DiffRecords_if visit a b reader0 =
     (let reader = (case reader0 of None \<Rightarrow> unreadSignatures | Some rd \<Rightarrow> rd);
          (pkgsA, exclA) = comparablePackages a; (pkgsB, exclB) = comparablePackages b;
          pathA = Path (ir_Coordinate a); pathB = Path (ir_Coordinate b);
          pair = isMajorPathPair pathA pathB;
          relA = (if pair then pathA else []); relB = (if pair then pathB else []);
          symsA = collectSymbols pkgsA; symsB = collectSymbols pkgsB;
          keyedB = indexByIdentity visit symsB relB;
          compared = map (compareSymbol reader symsA symsB keyedB relA) (sortedIDs symsA)
      in \<lparr>id_RecordA = a, id_RecordB = b,
          id_PackagesAdded = missingFrom pkgsB pkgsA relB relA,
          id_PackagesRemoved = missingFrom pkgsA pkgsB relA relB,
          id_Added = map (lookupSymbol symsB) (filter (\<lambda>i. i \<notin> set (matchedB keyedB relA (sortedIDs symsA))) (sortedIDs symsB)),
          id_Removed = map (lookupSymbol symsA) (filter (\<lambda>i. i \<notin> set (matchedA keyedB relA (sortedIDs symsA))) (sortedIDs symsA)),
          id_Changed = List.map_filter (\<lambda>c. case c of Resigned x \<Rightarrow> Some x | _ \<Rightarrow> None) compared,
          id_Spelling = List.map_filter (\<lambda>c. case c of Respelled x \<Rightarrow> Some x | _ \<Rightarrow> None) compared,
          id_RenamedPath = List.map_filter (\<lambda>c. case c of Renamed x \<Rightarrow> Some x | _ \<Rightarrow> None) compared,
          id_MajorPathPair = pair,
          id_Registries = detectRegistries pkgsA pkgsB reader,
          id_ExcludedTestdataPackages = mergeSorted exclA exclB,
          id_FrameMismatch = \<not> SameFrame_if a b\<rparr>)"

section \<open>Identities\<close>

lemma symbolID_eq: "i = j \<longleftrightarrow> si_Package i = si_Package j \<and> si_Kind i = si_Kind j \<and> si_Name i = si_Name j" for i j :: SymbolID
  by (auto intro: SymbolID.equality)

definition symbolKey :: "SymbolID \<Rightarrow> string \<times> string \<times> string" where
  "symbolKey i = (si_Package i, si_Kind i, si_Name i)"

lemma symbolIDLess_key: "symbolIDLess x y \<longleftrightarrow> symbolKey x < symbolKey y"
  by (auto simp: symbolIDLess_def symbolKey_def Compare_def)

lemma symbolKey_inj: "symbolKey x = symbolKey y \<Longrightarrow> x = y"
  by (simp add: symbolKey_def symbolID_eq)

interpretation symbol_ids: canonical_less symbolIDLess
  by (rule canonical_by_key [OF symbolIDLess_key symbolKey_inj])

text \<open>An import path as Go has them: not empty and not beginning with a slash.\<close>

definition import_ok :: "string \<Rightarrow> bool" where
  "import_ok p \<longleftrightarrow> p \<noteq> [] \<and> hd p \<noteq> CHR ''/''"

definition imports_ok :: "InterfaceRecord \<Rightarrow> bool" where
  "imports_ok r \<longleftrightarrow> (\<forall>p \<in> set (ir_Packages r). import_ok (pi_ImportPath p))"

lemma relativePackage_cases:
  assumes "import_ok p"
  obtains "m = []" "relativePackage p m = p"
    | "m \<noteq> []" "p = m" "relativePackage p m = []"
    | r where "m \<noteq> []" "p = m @ ''/'' @ r" "relativePackage p m = ''/'' @ r"
    | "m \<noteq> []" "\<not> prefix (m @ ''/'') p" "p \<noteq> m" "relativePackage p m = p"
proof -
  consider "m = []" | "m \<noteq> []" "p = m" | "m \<noteq> []" "p \<noteq> m" "prefix (m @ ''/'') p" | "m \<noteq> []" "p \<noteq> m" "\<not> prefix (m @ ''/'') p"
    by blast
  then show ?thesis
  proof cases
    case 1
    then show ?thesis using that(1) by (simp add: relativePackage_def)
  next
    case 2
    then show ?thesis using that(2) by (simp add: relativePackage_def)
  next
    case 3
    then obtain r where "p = m @ ''/'' @ r" by (auto simp: prefix_def)
    with 3 show ?thesis using that(3) [of r] by (simp add: relativePackage_def CutPrefix_def HasPrefix_def)
  next
    case 4
    then show ?thesis using that(4) by (simp add: relativePackage_def CutPrefix_def HasPrefix_def)
  qed
qed

text \<open>The package relative to its module determines the package.\<close>

definition unrelative :: "string \<Rightarrow> string \<Rightarrow> string" where
  "unrelative rel m = (if m = [] then rel else if rel = [] then m else if hd rel = CHR ''/'' then m @ rel else rel)"

lemma unrelative_relative: "import_ok p \<Longrightarrow> unrelative (relativePackage p m) m = p"
  by (rule relativePackage_cases [of p m]) (simp_all add: unrelative_def import_ok_def)

lemma identityOf_inj:
  assumes "import_ok (si_Package i)" "import_ok (si_Package j)" "identityOf_if i m = identityOf_if j m"
  shows "i = j"
proof -
  have "relativePackage (si_Package i) m = relativePackage (si_Package j) m" "si_Kind i = si_Kind j" "si_Name i = si_Name j"
    using assms(3) by (simp_all only: identityOf_if_def prod.inject)
  moreover from this(1) have "si_Package i = si_Package j" using unrelative_relative assms(1,2) by metis
  ultimately show ?thesis unfolding symbolID_eq by blast
qed

section \<open>The collected API\<close>

lemma fold_update_keys: "fst ` set (fold (\<lambda>s m. AList.update (k s) s m) xs m) = fst ` set m \<union> k ` set xs"
  by (induction xs arbitrary: m) (auto simp: dom_update)

lemma fold_update_distinct: "distinct (map fst m) \<Longrightarrow> distinct (map fst (fold (\<lambda>s m. AList.update (k s) s m) xs m))"
  by (induction xs arbitrary: m) (simp_all add: distinct_update)

lemma fold_update_lookup:
  "\<forall>i s. map_of m i = Some s \<longrightarrow> k s = i \<Longrightarrow> map_of (fold (\<lambda>s m. AList.update (k s) s m) xs m) i = Some t \<Longrightarrow> k t = i"
proof (induction xs arbitrary: m)
  case (Cons x xs)
  have "\<forall>i s. map_of (AList.update (k x) x m) i = Some s \<longrightarrow> k s = i"
    using Cons.prems(1) by (simp add: update_conv)
  from Cons.IH [OF this] Cons.prems(2) show ?case by simp
qed simp

text \<open>The API a record is compared by: its comparable packages.\<close>

definition apiOf :: "InterfaceRecord \<Rightarrow> symbols" where
  "apiOf r = collectSymbols (fst (comparablePackages r))"

definition idsOf :: "InterfaceRecord \<Rightarrow> SymbolID set" where
  "idsOf r = fst ` set (apiOf r)"

definition signatureOf :: "InterfaceRecord \<Rightarrow> SymbolID \<Rightarrow> string" where
  "signatureOf r i = sy_Signature (lookupSymbol (apiOf r) i)"

lemma apiOf_distinct: "distinct (map fst (apiOf r))"
  unfolding apiOf_def collectSymbols_def by (rule fold_update_distinct) simp

lemma lookup_ID: "i \<in> idsOf r \<Longrightarrow> sy_ID (lookupSymbol (apiOf r) i) = i"
proof -
  assume "i \<in> idsOf r"
  then obtain t where t: "map_of (apiOf r) i = Some t" unfolding idsOf_def by (metis map_of_eq_None_iff not_None_eq)
  then have "sy_ID t = i" unfolding apiOf_def collectSymbols_def by (rule fold_update_lookup [rotated]) simp
  with t show ?thesis by (simp add: lookupSymbol_def)
qed

lemma idsOf_import:
  assumes "imports_ok r" "i \<in> idsOf r"
  shows "import_ok (si_Package i)"
proof -
  have "si_Package (sy_ID s) = pi_ImportPath p" if "s \<in> set (packageSymbols p)" for s p
    using that by (auto simp: packageSymbols_def symbolAt_def)
  moreover obtain p s where "p \<in> set (fst (comparablePackages r))" "s \<in> set (packageSymbols p)" "i = sy_ID s"
    using assms(2) by (auto simp: idsOf_def apiOf_def collectSymbols_def fold_update_keys)
  ultimately show ?thesis using assms(1) by (auto simp: imports_ok_def comparablePackages_def)
qed

lemma sortedIDs_apiOf: "set (sortedIDs (apiOf r)) = idsOf r" "distinct (sortedIDs (apiOf r))"
proof -
  show "set (sortedIDs (apiOf r)) = idsOf r" by (simp add: sortedIDs_def idsOf_def)
  show "distinct (sortedIDs (apiOf r))"
    using apiOf_distinct [of r] unfolding sortedIDs_def by (metis mset_stable_sort mset_eq_imp_distinct_iff)
qed

text \<open>
  One declaration in two records: the same symbol, or under two majors of one module path the symbol at
  the same place in the module.
\<close>

definition sameDeclaration :: "InterfaceRecord \<Rightarrow> InterfaceRecord \<Rightarrow> SymbolID \<Rightarrow> SymbolID \<Rightarrow> bool" where
  "sameDeclaration a b i j \<longleftrightarrow>
     (if isMajorPathPair (Path (ir_Coordinate a)) (Path (ir_Coordinate b))
      then identityOf_if i (Path (ir_Coordinate a)) = identityOf_if j (Path (ir_Coordinate b)) else i = j)"

definition relOf :: "InterfaceRecord \<Rightarrow> InterfaceRecord \<Rightarrow> InterfaceRecord \<Rightarrow> string" where
  "relOf a b r = (if isMajorPathPair (Path (ir_Coordinate a)) (Path (ir_Coordinate b)) then Path (ir_Coordinate r) else [])"

lemma identityOf_empty: "identityOf_if i [] = (si_Package i, si_Kind i, si_Name i)"
  by (simp add: identityOf_if_def relativePackage_def)

lemma sameDeclaration_identity:
  "sameDeclaration a b i j \<longleftrightarrow> identityOf_if i (relOf a b a) = identityOf_if j (relOf a b b)"
  by (auto simp: sameDeclaration_def relOf_def identityOf_empty symbolID_eq)

lemma sameDeclaration_unique:
  assumes "imports_ok b" "j \<in> idsOf b" "k \<in> idsOf b" "sameDeclaration a b i j" "sameDeclaration a b i k"
  shows "j = k"
  by (rule identityOf_inj [of _ _ "relOf a b b"]) (use assms idsOf_import in \<open>simp_all add: sameDeclaration_identity\<close>)

text \<open>The index finds the counterpart of a symbol, whatever order it was filled in.\<close>

lemma keyed_counterpart:
  assumes "imports_ok b" "\<And>xs. set (visit xs) = set xs"
  shows "indexByIdentity visit (apiOf b) (relOf a b b) (identityOf_if i (relOf a b a)) = Some j
    \<longleftrightarrow> j \<in> idsOf b \<and> sameDeclaration a b i j"
proof -
  let ?m = "rev (map (\<lambda>i. (identityOf_if i (relOf a b b), i)) (visit (map fst (apiOf b))))"
  have set: "(k, x) \<in> set ?m \<longleftrightarrow> x \<in> idsOf b \<and> k = identityOf_if x (relOf a b b)" for k x
    using assms(2) by (auto simp: idsOf_def)
  have one: "x = y" if "(k, x) \<in> set ?m" "(k, y) \<in> set ?m" for k x y
  proof -
    from that have "x \<in> idsOf b" "y \<in> idsOf b" "identityOf_if x (relOf a b b) = identityOf_if y (relOf a b b)"
      unfolding set by simp_all
    then show ?thesis by (rule identityOf_inj [OF idsOf_import [OF assms(1)] idsOf_import [OF assms(1)]])
  qed
  have "map_of ?m k = Some x \<longleftrightarrow> (k, x) \<in> set ?m" for k x
  proof
    assume kx: "(k, x) \<in> set ?m"
    from weak_map_of_SomeI [OF kx] obtain y where y: "map_of ?m k = Some y" by (elim exE)
    with one [OF map_of_SomeD [OF y] kx] show "map_of ?m k = Some x" by simp
  qed (rule map_of_SomeD)
  then have "map_of ?m (identityOf_if i (relOf a b a)) = Some j
      \<longleftrightarrow> j \<in> idsOf b \<and> identityOf_if i (relOf a b a) = identityOf_if j (relOf a b b)"
    unfolding set .
  then show ?thesis unfolding indexByIdentity_def sameDeclaration_identity .
qed

section \<open>The difference accounts for both sides\<close>

lemma map_filter_pick:
  "(\<And>i x. f (c i) = Some x \<Longrightarrow> g x = i) \<Longrightarrow> map g (List.map_filter f (map c is)) = filter (\<lambda>i. f (c i) \<noteq> None) is"
  by (induction "is") (auto simp: List.map_filter_simps split: option.splits)

lemma filter_member: "filter (\<lambda>i. i \<in> set is \<longrightarrow> P i) is = filter P is"
  by (rule filter_cong) auto

text \<open>The difference of two records, over their APIs.\<close>

lemma DiffRecords_api:
  fixes rd :: "SignatureReader option"
  defines "reader \<equiv> (case rd of None \<Rightarrow> unreadSignatures | Some x \<Rightarrow> x)"
  defines "keyed visit a b \<equiv> indexByIdentity visit (apiOf b) (relOf a b b)"
  defines "compared visit a b \<equiv> map (compareSymbol reader (apiOf a) (apiOf b) (keyed visit a b) (relOf a b a)) (sortedIDs (apiOf a))"
  shows "id_Added (DiffRecords_if visit a b rd) = map (lookupSymbol (apiOf b))
      (filter (\<lambda>i. i \<notin> set (matchedB (keyed visit a b) (relOf a b a) (sortedIDs (apiOf a)))) (sortedIDs (apiOf b)))"
    "id_Removed (DiffRecords_if visit a b rd) = map (lookupSymbol (apiOf a))
      (filter (\<lambda>i. keyed visit a b (identityOf_if i (relOf a b a)) = None) (sortedIDs (apiOf a)))"
    "id_Changed (DiffRecords_if visit a b rd) = List.map_filter (\<lambda>c. case c of Resigned x \<Rightarrow> Some x | _ \<Rightarrow> None) (compared visit a b)"
    "id_Spelling (DiffRecords_if visit a b rd) = List.map_filter (\<lambda>c. case c of Respelled x \<Rightarrow> Some x | _ \<Rightarrow> None) (compared visit a b)"
    "id_RenamedPath (DiffRecords_if visit a b rd) = List.map_filter (\<lambda>c. case c of Renamed x \<Rightarrow> Some x | _ \<Rightarrow> None) (compared visit a b)"
  unfolding reader_def keyed_def compared_def
  by (simp_all add: DiffRecords_if_def Let_def apiOf_def relOf_def case_prod_beta matchedA_def filter_member)

text \<open>What the loop makes of a symbol that has a counterpart.\<close>

lemma compareSymbol_cases:
  assumes "keyed (identityOf_if i rel) = Some j"
  shows "compareSymbol reader ma mb keyed rel i =
    (let sa = sy_Signature (lookupSymbol ma i); sb = sy_Signature (lookupSymbol mb j); p = sy_PtrReceiver (lookupSymbol mb j);
         c = \<lparr>sc_Symbol = i, sc_From = sa, sc_To = sb, sc_PtrReceiver = p, sc_MovedTo = (if i \<noteq> j then j else zero_symbol_id)\<rparr> in
     if sa = sb then (if i \<noteq> j then Renamed \<lparr>rs_From = i, rs_To = j, rs_Signature = sb, rs_PtrReceiver = p\<rparr> else Unchanged j)
     else if DiffersOnlyInSpelling reader sa sb then Respelled c else Resigned c)"
  using assms by (simp add: compareSymbol_def Let_def)

lemma compareSymbol_from:
  "compareSymbol reader ma mb keyed rel i = Resigned c \<Longrightarrow> sc_Symbol c = i"
  "compareSymbol reader ma mb keyed rel i = Respelled c \<Longrightarrow> sc_Symbol c = i"
  "compareSymbol reader ma mb keyed rel i = Renamed n \<Longrightarrow> rs_From n = i"
  by (auto simp: compareSymbol_def Let_def split: option.splits if_splits)

text \<open>The symbols of A whose counterpart in B has a property.\<close>

definition matchedWhere :: "InterfaceRecord \<Rightarrow> InterfaceRecord \<Rightarrow> (SymbolID \<Rightarrow> SymbolID \<Rightarrow> bool) \<Rightarrow> SymbolID set" where
  "matchedWhere a b P = {i \<in> idsOf a. \<exists>j \<in> idsOf b. sameDeclaration a b i j \<and> P i j}"

definition respells :: "SignatureReader option \<Rightarrow> string \<Rightarrow> string \<Rightarrow> bool" where
  "respells rd s t \<longleftrightarrow> (case rd of None \<Rightarrow> False | Some reader \<Rightarrow> DiffersOnlyInSpelling reader s t)"

lemma compared_where:
  fixes a b :: InterfaceRecord
  assumes b: "imports_ok b" and visit: "\<And>xs. set (visit xs) = set xs"
  defines "keyed \<equiv> indexByIdentity visit (apiOf b) (relOf a b b)"
  assumes pick: "\<And>c. f c \<noteq> None \<Longrightarrow> c \<noteq> Unmatched"
    and holds: "\<And>i j. i \<in> idsOf a \<Longrightarrow> j \<in> idsOf b \<Longrightarrow> keyed (identityOf_if i (relOf a b a)) = Some j
      \<Longrightarrow> f (compareSymbol reader (apiOf a) (apiOf b) keyed (relOf a b a) i) \<noteq> None \<longleftrightarrow> P i j"
  shows "{i \<in> idsOf a. f (compareSymbol reader (apiOf a) (apiOf b) keyed (relOf a b a) i) \<noteq> None} = matchedWhere a b P"
proof (intro set_eqI)
  fix i
  note found = keyed_counterpart [OF b visit, where i = i and a = a, folded keyed_def]
  show "i \<in> {i \<in> idsOf a. f (compareSymbol reader (apiOf a) (apiOf b) keyed (relOf a b a) i) \<noteq> None} \<longleftrightarrow> i \<in> matchedWhere a b P"
  proof (cases "keyed (identityOf_if i (relOf a b a))")
    case None
    then have "compareSymbol reader (apiOf a) (apiOf b) keyed (relOf a b a) i = Unmatched" by (simp add: compareSymbol_def)
    moreover have "f Unmatched = None" using pick [of Unmatched] by blast
    moreover have "\<not> (j \<in> idsOf b \<and> sameDeclaration a b i j)" for j using None found [of j] by simp
    ultimately show ?thesis by (auto simp: matchedWhere_def)
  next
    case (Some j)
    then have j: "j \<in> idsOf b" "sameDeclaration a b i j" using found by blast+
    have only: "k = j" if "k \<in> idsOf b" "sameDeclaration a b i k" for k
      using that found Some by (metis option.inject)
    show ?thesis
    proof (cases "i \<in> idsOf a")
      case True
      from holds [OF this j(1) Some] True j only show ?thesis unfolding matchedWhere_def by blast
    qed (simp add: matchedWhere_def)
  qed
qed

text \<open>The identifiers of the symbols the loop files under one outcome.\<close>

lemma picked_symbols:
  fixes a b :: InterfaceRecord and reader :: SignatureReader and visit :: "SymbolID list \<Rightarrow> SymbolID list"
  assumes b: "imports_ok b" and visit: "\<And>xs. set (visit xs) = set xs"
  defines "cmp \<equiv> compareSymbol reader (apiOf a) (apiOf b) (indexByIdentity visit (apiOf b) (relOf a b b)) (relOf a b a)"
  assumes from_i: "\<And>i x. f (cmp i) = Some x \<Longrightarrow> g x = i"
    and pick: "\<And>c. f c \<noteq> None \<Longrightarrow> c \<noteq> Unmatched"
    and holds: "\<And>i j. indexByIdentity visit (apiOf b) (relOf a b b) (identityOf_if i (relOf a b a)) = Some j
      \<Longrightarrow> f (cmp i) \<noteq> None \<longleftrightarrow> P i j"
  shows "g ` set (List.map_filter f (map cmp (sortedIDs (apiOf a)))) = matchedWhere a b P"
    "distinct (map g (List.map_filter f (map cmp (sortedIDs (apiOf a)))))"
proof -
  have m: "map g (List.map_filter f (map cmp (sortedIDs (apiOf a)))) = filter (\<lambda>i. f (cmp i) \<noteq> None) (sortedIDs (apiOf a))"
    by (rule map_filter_pick) (rule from_i)
  have "g ` set (List.map_filter f (map cmp (sortedIDs (apiOf a)))) = {i \<in> idsOf a. f (cmp i) \<noteq> None}"
    unfolding set_map [symmetric] m by (simp add: sortedIDs_apiOf)
  also have "\<dots> = matchedWhere a b P"
    unfolding cmp_def
    by (rule compared_where [where f = f and P = P, OF b visit]) (erule pick, erule holds [unfolded cmp_def])
  finally show "g ` set (List.map_filter f (map cmp (sortedIDs (apiOf a)))) = matchedWhere a b P" .
  show "distinct (map g (List.map_filter f (map cmp (sortedIDs (apiOf a)))))"
    unfolding m by (simp add: sortedIDs_apiOf)
qed

lemma diff_removed:
  assumes "imports_ok b" "\<And>xs. set (visit xs) = set xs"
  shows "sy_ID ` set (id_Removed (DiffRecords_if visit a b rd)) = idsOf a - matchedWhere a b (\<lambda>_ _. True)"
    "distinct (map sy_ID (id_Removed (DiffRecords_if visit a b rd)))"
proof -
  let ?k = "indexByIdentity visit (apiOf b) (relOf a b b)"
  let ?ids = "filter (\<lambda>i. ?k (identityOf_if i (relOf a b a)) = None) (sortedIDs (apiOf a))"
  have "map (\<lambda>i. sy_ID (lookupSymbol (apiOf a) i)) ?ids = ?ids"
    by (rule map_idI) (simp add: sortedIDs_apiOf lookup_ID)
  then have ids: "map sy_ID (id_Removed (DiffRecords_if visit a b rd)) = ?ids" unfolding DiffRecords_api(2) by (simp add: comp_def)
  show "distinct (map sy_ID (id_Removed (DiffRecords_if visit a b rd)))" unfolding ids by (simp add: sortedIDs_apiOf)
  have "?k (identityOf_if i (relOf a b a)) = None \<longleftrightarrow> \<not> (\<exists>j \<in> idsOf b. sameDeclaration a b i j)" for i
    using keyed_counterpart [where visit = visit, OF assms, of a i] by (cases "?k (identityOf_if i (relOf a b a))") auto
  then show "sy_ID ` set (id_Removed (DiffRecords_if visit a b rd)) = idsOf a - matchedWhere a b (\<lambda>_ _. True)"
    unfolding set_map [symmetric] ids by (auto simp: sortedIDs_apiOf matchedWhere_def)
qed

lemma diff_added:
  assumes "imports_ok b" "\<And>xs. set (visit xs) = set xs"
  shows "sy_ID ` set (id_Added (DiffRecords_if visit a b rd)) = {j \<in> idsOf b. \<not> (\<exists>i \<in> idsOf a. sameDeclaration a b i j)}"
    "distinct (map sy_ID (id_Added (DiffRecords_if visit a b rd)))"
proof -
  let ?m = "matchedB (indexByIdentity visit (apiOf b) (relOf a b b)) (relOf a b a) (sortedIDs (apiOf a))"
  let ?ids = "filter (\<lambda>i. i \<notin> set ?m) (sortedIDs (apiOf b))"
  have "map (\<lambda>i. sy_ID (lookupSymbol (apiOf b) i)) ?ids = ?ids"
    by (rule map_idI) (simp add: sortedIDs_apiOf lookup_ID)
  then have ids: "map sy_ID (id_Added (DiffRecords_if visit a b rd)) = ?ids" unfolding DiffRecords_api(1) by (simp add: comp_def)
  show "distinct (map sy_ID (id_Added (DiffRecords_if visit a b rd)))" unfolding ids by (simp add: sortedIDs_apiOf)
  have "j \<in> set ?m \<longleftrightarrow> j \<in> idsOf b \<and> (\<exists>i \<in> idsOf a. sameDeclaration a b i j)" for j
  proof -
    have "j \<in> set ?m \<longleftrightarrow> (\<exists>i \<in> idsOf a. indexByIdentity visit (apiOf b) (relOf a b b) (identityOf_if i (relOf a b a)) = Some j)"
      by (auto simp: matchedB_def List.map_filter_def sortedIDs_apiOf image_iff)
    then show ?thesis unfolding keyed_counterpart [where visit = visit, OF assms] by blast
  qed
  then show "sy_ID ` set (id_Added (DiffRecords_if visit a b rd)) = {j \<in> idsOf b. \<not> (\<exists>i \<in> idsOf a. sameDeclaration a b i j)}"
    unfolding set_map [symmetric] ids by (auto simp: sortedIDs_apiOf)
qed

text \<open>
  C25: Every declaration of either record is accounted for once.  Removed are those of A without a counterpart in
  B, added those of B without one in A; of those with a counterpart the signature is the same, respelled, or
  changed, and a symbol that only moved with the module path is renamed.  Nothing breaks exactly when
  every declaration of A has a counterpart with its signature or a respelling of it.
\<close>

theorem interface_diff_accounts:
  assumes "imports_ok a" "imports_ok b" "\<And>xs. set (visit xs) = set xs"
  shows "let d = DiffRecords_if visit a b rd in
      sy_ID ` set (id_Removed d) = {i \<in> idsOf a. \<not> (\<exists>j \<in> idsOf b. sameDeclaration a b i j)}
    \<and> sy_ID ` set (id_Added d) = {j \<in> idsOf b. \<not> (\<exists>i \<in> idsOf a. sameDeclaration a b i j)}
    \<and> sc_Symbol ` set (id_Changed d) = matchedWhere a b (\<lambda>i j. signatureOf a i \<noteq> signatureOf b j
        \<and> \<not> respells rd (signatureOf a i) (signatureOf b j))
    \<and> sc_Symbol ` set (id_Spelling d) = matchedWhere a b (\<lambda>i j. signatureOf a i \<noteq> signatureOf b j
        \<and> respells rd (signatureOf a i) (signatureOf b j))
    \<and> rs_From ` set (id_RenamedPath d) = matchedWhere a b (\<lambda>i j. signatureOf a i = signatureOf b j \<and> i \<noteq> j)
    \<and> distinct (map sy_ID (id_Removed d)) \<and> distinct (map sy_ID (id_Added d)) \<and> distinct (map sc_Symbol (id_Changed d))
    \<and> (BreakingCount d = 0 \<longleftrightarrow> matchedWhere a b (\<lambda>i j. signatureOf a i = signatureOf b j
        \<or> respells rd (signatureOf a i) (signatureOf b j)) = idsOf a)"
proof -
  let ?d = "DiffRecords_if visit a b rd"
  let ?reader = "case rd of None \<Rightarrow> unreadSignatures | Some x \<Rightarrow> x"
  have spell: "DiffersOnlyInSpelling ?reader s t = respells rd s t" for s t
    by (cases rd) (simp_all add: respells_def unreadSignatures_def)
  have removed: "sy_ID ` set (id_Removed ?d) = {i \<in> idsOf a. \<not> (\<exists>j \<in> idsOf b. sameDeclaration a b i j)}"
    using diff_removed(1) [OF assms(2,3), of a rd] by (auto simp: matchedWhere_def)
  note pick = picked_symbols [where visit = visit and reader = ?reader and a = a, OF assms(2,3)]
  have changed: "sc_Symbol ` set (id_Changed ?d) = matchedWhere a b (\<lambda>i j. signatureOf a i \<noteq> signatureOf b j
        \<and> \<not> respells rd (signatureOf a i) (signatureOf b j))" "distinct (map sc_Symbol (id_Changed ?d))"
    unfolding DiffRecords_api(3)
    by (rule pick; auto simp: compareSymbol_cases Let_def signatureOf_def spell split: comparison.splits dest: compareSymbol_from)+
  have spelled: "sc_Symbol ` set (id_Spelling ?d) = matchedWhere a b (\<lambda>i j. signatureOf a i \<noteq> signatureOf b j
        \<and> respells rd (signatureOf a i) (signatureOf b j))"
    unfolding DiffRecords_api(4)
    by (rule pick; auto simp: compareSymbol_cases Let_def signatureOf_def spell split: comparison.splits dest: compareSymbol_from)+
  have renamed: "rs_From ` set (id_RenamedPath ?d) = matchedWhere a b (\<lambda>i j. signatureOf a i = signatureOf b j \<and> i \<noteq> j)"
    unfolding DiffRecords_api(5)
    by (rule pick; auto simp: compareSymbol_cases Let_def signatureOf_def spell split: comparison.splits dest: compareSymbol_from)+
  have "BreakingCount ?d = 0 \<longleftrightarrow> sy_ID ` set (id_Removed ?d) = {} \<and> sc_Symbol ` set (id_Changed ?d) = {}"
    by (simp add: BreakingCount_def)
  also have "\<dots> \<longleftrightarrow> matchedWhere a b (\<lambda>i j. signatureOf a i = signatureOf b j
        \<or> respells rd (signatureOf a i) (signatureOf b j)) = idsOf a"
    unfolding removed changed(1) matchedWhere_def using sameDeclaration_unique [OF assms(2)] by blast
  finally show ?thesis
    using removed changed spelled renamed diff_added [OF assms(2,3), of a rd] diff_removed(2) [OF assms(2,3), of a rd]
    by (simp add: Let_def)
qed

text \<open>A module under its second and its third major: one function moves with the path, one changes, one goes.\<close>

definition exampleMajor :: "string \<Rightarrow> (string \<times> string) list \<Rightarrow> InterfaceRecord" where
  "exampleMajor path funcs = \<lparr>ir_SchemaVersion = ''2'', ir_Ecosystem = ''go'', ir_Coordinate = ModuleCoordinate path ''v9.0.0'',
     ir_Packages = [\<lparr>pi_ImportPath = path @ ''/p'', pi_Name = ''p'', pi_Doc = [], pi_Types = [],
        pi_Funcs = map (\<lambda>(n, s). \<lparr>fn_Name = n, fn_Signature = s, fn_Doc = [], fn_TypeParams = [],
          fn_Position = \<lparr>ap_File = ''p.go'', ap_Line = 1\<rparr>, fn_IsGenerated = False\<rparr>) funcs,
        pi_Consts = [], pi_Vars = [], pi_ParseFailures = [], pi_IsInternal = False, pi_IsMain = False, pi_OutOfFrame = False\<rparr>],
     ir_OverallStatus = InterfaceStatusExtracted, ir_FailureDetail = [],
     ir_BuildFrame = \<lparr>af_GOOS = ''linux'', af_GOARCH = ''amd64'', af_CgoEnabled = True\<rparr>, ir_Toolchain = ''go1.26.1'',
     ir_ExtractedAt = 0, ir_PipelineVersion = ''1'', ir_ContentHash = [], ir_ArtefactIdentity = [],
     ir_SourceContentHash = [], ir_AnalyserLimit = None\<rparr>"

lemma interface_diff_accounts_witness:
  "let a = exampleMajor ''m/v2'' [(''F'', ''func F()''), (''G'', ''func G()''), (''H'', ''func H()'')];
       b = exampleMajor ''m/v3'' [(''F'', ''func F()''), (''G'', ''func G(int)'')];
       d = DiffRecords_if rev a b None;
       f = \<lambda>m n. \<lparr>si_Package = m @ ''/p'', si_Kind = ''func'', si_Name = n\<rparr>
   in sy_ID ` set (id_Removed d) = {f ''m/v2'' ''H''} \<and> id_Added d = [] \<and> BreakingCount d = 2
     \<and> {i \<in> idsOf a. \<not> (\<exists>j \<in> idsOf b. sameDeclaration a b i j)} = {f ''m/v2'' ''H''}
     \<and> matchedWhere a b (\<lambda>i j. signatureOf a i = signatureOf b j \<and> i \<noteq> j) = {f ''m/v2'' ''F''}"
proof -
  define a where "a = exampleMajor ''m/v2'' [(''F'', ''func F()''), (''G'', ''func G()''), (''H'', ''func H()'')]"
  define b where "b = exampleMajor ''m/v3'' [(''F'', ''func F()''), (''G'', ''func G(int)'')]"
  have "imports_ok a" "imports_ok b" by (simp_all add: a_def b_def exampleMajor_def imports_ok_def import_ok_def)
  note accounts = interface_diff_accounts [of a b rev None, OF this set_rev, unfolded Let_def]
  have "sy_ID ` set (id_Removed (DiffRecords_if rev a b None)) = {i \<in> idsOf a. \<not> (\<exists>j \<in> idsOf b. sameDeclaration a b i j)}"
    "rs_From ` set (id_RenamedPath (DiffRecords_if rev a b None))
      = matchedWhere a b (\<lambda>i j. signatureOf a i = signatureOf b j \<and> i \<noteq> j)"
    by (rule conjunct1 [OF accounts],
        rule conjunct1 [OF conjunct2 [OF conjunct2 [OF conjunct2 [OF conjunct2 [OF accounts]]]]])
  moreover have "map sy_ID (id_Removed (DiffRecords_if rev a b None)) = [\<lparr>si_Package = ''m/v2/p'', si_Kind = ''func'', si_Name = ''H''\<rparr>]"
    "map rs_From (id_RenamedPath (DiffRecords_if rev a b None)) = [\<lparr>si_Package = ''m/v2/p'', si_Kind = ''func'', si_Name = ''F''\<rparr>]"
    "id_Added (DiffRecords_if rev a b None) = []" "BreakingCount (DiffRecords_if rev a b None) = 2"
    unfolding a_def b_def by code_simp+
  ultimately show ?thesis unfolding a_def [symmetric] b_def [symmetric] Let_def
    by (simp add: set_map [symmetric] del: set_map)
qed

end
