(* ===== verification/Example_Types.thy ===== *)
theory Example_Types
  imports Coordinate Order_Keys Fetch_Identity Go_Toolchain Go_Strings
begin

text \<open>
  The testable examples of a module as a record (\<open>internal/example/domain\<close>: \<open>types.go\<close>, \<open>artefact.go\<close>,
  \<open>cacheable.go\<close>), the symbol an example's name stands for, and the canonical order of the lists
  (\<open>ordering.go\<close>).  Statuses are the integers that are stored.
\<close>

section \<open>Values\<close>

definition ExampleStatusUnknown :: int where "ExampleStatusUnknown = 0"
definition ExampleStatusFound :: int where "ExampleStatusFound = 1"
definition ExampleStatusNone :: int where "ExampleStatusNone = 2"
definition ExampleStatusExtractionFailed :: int where "ExampleStatusExtractionFailed = 3"
definition ExampleStatusCancelled :: int where "ExampleStatusCancelled = 4"

definition example_status_String :: "int \<Rightarrow> string" where
  "example_status_String s =
     (if s = ExampleStatusFound then ''Found''
      else if s = ExampleStatusNone then ''None''
      else if s = ExampleStatusExtractionFailed then ''ExtractionFailed''
      else if s = ExampleStatusCancelled then ''Cancelled''
      else ''Unknown'')"

record ExamplePosition =
  xp_File :: string
  xp_Line :: int

record ExampleEntry =
  ee_Name :: string
  ee_Package :: string
  ee_AssociatedSymbol :: string
  ee_SubExample :: string
  ee_Body :: string
  ee_Output :: string
  ee_Imports :: "string list"
  ee_Doc :: string
  ee_Position :: ExamplePosition
  ee_Validates :: bool

record TestFailure =
  xf_File :: string
  xf_Error :: string

record ExampleRecord =
  er_SchemaVersion :: string
  er_Ecosystem :: string
  er_Coordinate :: ModuleCoordinate
  er_Examples :: "ExampleEntry list"
  er_ParseFailures :: "TestFailure list"
  er_OverallStatus :: int
  er_FailureDetail :: string
  er_ExtractedAt :: instant
  er_PipelineVersion :: string
  er_ContentHash :: string
  er_ArtefactIdentity :: string
  er_SourceContentHash :: string
  er_AnalyserLimit :: "UnreadSource option"

definition RecordArtefactIdentity_ex :: "ExampleRecord \<Rightarrow> fetch_error + ArtefactIdentity" where
  "RecordArtefactIdentity_ex r = StoredArtefactIdentity (er_ArtefactIdentity r)"

definition NamesAnalysedContent_ex :: "ExampleRecord \<Rightarrow> bool" where
  "NamesAnalysedContent_ex r =
     (case RecordArtefactIdentity_ex r of Inl err \<Rightarrow> False | Inr i \<Rightarrow> \<not> identity_IsZero i)"

definition RecordIsCacheable_ex :: "ExampleRecord \<Rightarrow> string \<Rightarrow> string \<Rightarrow> bool" where
  "RecordIsCacheable_ex r goDirective oldestWriterGo =
     (if er_AnalyserLimit r \<noteq> None then False
      else length (er_ParseFailures r) = 0 \<or> \<not> DirectiveNewerThan goDirective oldestWriterGo)"

section \<open>The symbol of an example\<close>

text \<open>An upper-case letter is one of ASCII.\<close>

definition upperFirst :: "string \<Rightarrow> bool" where
  "upperFirst p \<longleftrightarrow> (case p of [] \<Rightarrow> False | c # _ \<Rightarrow> CHR ''A'' \<le> c \<and> c \<le> CHR ''Z'')"

text \<open>The loop over the parts: the parts of the symbol, of the suffix, and whether a suffix was met.\<close>

fun deriveParts :: "string list \<Rightarrow> string list \<Rightarrow> bool \<Rightarrow> string list \<Rightarrow> string list \<times> string list" where
  "deriveParts syms subs hitLower [] = (syms, subs)"
| "deriveParts syms subs hitLower (p # ps) =
     (if p = [] then deriveParts syms subs hitLower ps
      else if \<not> hitLower \<and> upperFirst p then deriveParts (syms @ [p]) subs hitLower ps
      else deriveParts syms (subs @ [p]) True ps)"

definition DeriveAssociatedSymbol :: "string \<Rightarrow> string \<times> string" where
  "DeriveAssociatedSymbol funcName =
     (case CutPrefix funcName ''Example'' of
        (after, found) \<Rightarrow>
          if \<not> found \<or> after = [] then (funcName, [])
          else (case deriveParts [] [] False (Split after CHR ''_'') of
              (syms, subs) \<Rightarrow> (Join syms ''.'', Join subs ''_'')))"

section \<open>The comparators\<close>

definition stringLess_ex :: "string \<Rightarrow> string \<Rightarrow> bool" where
  "stringLess_ex a b = (a < b)"

definition ExampleEntryLess :: "ExampleEntry \<Rightarrow> ExampleEntry \<Rightarrow> bool" where
  "ExampleEntryLess a b =
     (if ee_Package a \<noteq> ee_Package b then ee_Package a < ee_Package b
      else if ee_AssociatedSymbol a \<noteq> ee_AssociatedSymbol b then ee_AssociatedSymbol a < ee_AssociatedSymbol b
      else if ee_Name a \<noteq> ee_Name b then ee_Name a < ee_Name b
      else if ee_SubExample a \<noteq> ee_SubExample b then ee_SubExample a < ee_SubExample b
      else if xp_File (ee_Position a) \<noteq> xp_File (ee_Position b) then xp_File (ee_Position a) < xp_File (ee_Position b)
      else if xp_Line (ee_Position a) \<noteq> xp_Line (ee_Position b) then xp_Line (ee_Position a) < xp_Line (ee_Position b)
      else if ee_Body a \<noteq> ee_Body b then ee_Body a < ee_Body b
      else if ee_Output a \<noteq> ee_Output b then ee_Output a < ee_Output b
      else if ee_Doc a \<noteq> ee_Doc b then ee_Doc a < ee_Doc b
      else if ee_Validates a \<noteq> ee_Validates b then \<not> ee_Validates a
      else fst (sliceLess (ee_Imports a) (ee_Imports b) stringLess_ex))"

definition ParseFailureLess_ex :: "TestFailure \<Rightarrow> TestFailure \<Rightarrow> bool" where
  "ParseFailureLess_ex a b = (if xf_File a \<noteq> xf_File b then xf_File a < xf_File b else xf_Error a < xf_Error b)"

definition sortImports :: "ExampleEntry \<Rightarrow> ExampleEntry" where
  "sortImports e = e\<lparr>ee_Imports := sort (ee_Imports e)\<rparr>"

definition sortExamples :: "ExampleEntry list \<Rightarrow> ExampleEntry list" where
  "sortExamples examples = stable_sort ExampleEntryLess (map sortImports examples)"

definition SortExamples :: "ExampleRecord \<Rightarrow> ExampleRecord" where
  "SortExamples r = r\<lparr>er_Examples := sortExamples (er_Examples r),
     er_ParseFailures := stable_sort ParseFailureLess_ex (er_ParseFailures r)\<rparr>"

section \<open>The name of an example\<close>

lemma deriveParts_symbols:
  "\<forall>p \<in> set ps. upperFirst p \<Longrightarrow> deriveParts syms subs False (ps @ qs) = deriveParts (syms @ ps) subs False qs"
  by (induction ps arbitrary: syms) (auto simp: upperFirst_def)

lemma deriveParts_lower:
  "deriveParts syms subs True qs = (syms, subs @ filter (\<lambda>p. p \<noteq> []) qs)"
  by (induction qs arbitrary: subs) auto

lemma deriveParts_all:
  "deriveParts syms subs False qs = (let ps = filter (\<lambda>p. p \<noteq> []) qs in
     (syms @ takeWhile upperFirst ps, subs @ dropWhile upperFirst ps))"
  by (induction qs arbitrary: syms) (auto simp: deriveParts_lower Let_def)

text \<open>
  The convention of the testing package: a name of capitalised components and a suffix that begins with another
  letter stands for the components as a selector, and the suffix is kept.
\<close>

lemma example_name_roundtrip:
  assumes "comps \<noteq> []" "\<forall>p \<in> set comps. upperFirst p \<and> CHR ''_'' \<notin> set p"
    "\<forall>q \<in> set sfx. q \<noteq> [] \<and> CHR ''_'' \<notin> set q" "sfx \<noteq> [] \<Longrightarrow> \<not> upperFirst (hd sfx)"
  shows "DeriveAssociatedSymbol (''Example'' @ Join (comps @ sfx) ''_'') = (Join comps ''.'', Join sfx ''_'')"
proof -
  have split: "Split (Join (comps @ sfx) ''_'') CHR ''_'' = comps @ sfx"
    using assms by (intro Split_Join) auto
  have "filter (\<lambda>p. p \<noteq> []) (comps @ sfx) = comps @ sfx"
    by (rule filter_True) (use assms in \<open>auto simp: upperFirst_def\<close>)
  moreover have "takeWhile upperFirst (comps @ sfx) = comps" "dropWhile upperFirst (comps @ sfx) = sfx"
    using assms(2,4) by (cases sfx; simp add: takeWhile_append dropWhile_append)+
  moreover have "Join (comps @ sfx) ''_'' \<noteq> []"
    using split assms(1,2) by (cases comps) (auto simp: upperFirst_def)
  ultimately show ?thesis
    by (simp add: DeriveAssociatedSymbol_def CutPrefix_def HasPrefix_def split deriveParts_all Let_def)
qed

section \<open>The orders are total\<close>

definition entryKey where
  "entryKey (e :: ExampleEntry) = (ee_Package e, ee_AssociatedSymbol e, ee_Name e, ee_SubExample e, xp_File (ee_Position e),
     xp_Line (ee_Position e), ee_Body e, ee_Output e, ee_Doc e, ee_Validates e, sliceKey id (ee_Imports e))"

definition testFailureKey where
  "testFailureKey (f :: TestFailure) = (xf_File f, xf_Error f)"

lemma entryKey_inj: "entryKey a = entryKey b \<Longrightarrow> a = b"
  unfolding entryKey_def prod.inject
  by (elim conjE, rule ExampleEntry.equality) (auto intro: ExamplePosition.equality sliceKey_inj [of id])

lemma testFailureKey_inj: "testFailureKey a = testFailureKey b \<Longrightarrow> a = b"
  by (auto simp: testFailureKey_def intro: TestFailure.equality)

lemma slice_strings_ex: "fst (sliceLess a b stringLess_ex) \<longleftrightarrow> sliceKey id a < sliceKey id b"
  by (rule sliceLess_key(1)) (simp_all add: stringLess_ex_def)

lemma ExampleEntryLess_key: "ExampleEntryLess a b \<longleftrightarrow> entryKey a < entryKey b"
  by (simp only: ExampleEntryLess_def entryKey_def less_pair less_flag slice_strings_ex)

lemma ParseFailureLess_ex_key: "ParseFailureLess_ex a b \<longleftrightarrow> testFailureKey a < testFailureKey b"
  by (simp only: ParseFailureLess_ex_def testFailureKey_def less_pair)

interpretation examples: canonical_less ExampleEntryLess
  by (rule canonical_by_key [OF ExampleEntryLess_key entryKey_inj])
interpretation test_failures: canonical_less ParseFailureLess_ex
  by (rule canonical_by_key [OF ParseFailureLess_ex_key testFailureKey_inj])

text \<open>One example with its imports in another order; one record with its lists in another order.\<close>

definition sameExample :: "ExampleEntry \<Rightarrow> ExampleEntry \<Rightarrow> bool" where
  "sameExample a b \<longleftrightarrow> mset (ee_Imports a) = mset (ee_Imports b) \<and> a\<lparr>ee_Imports := []\<rparr> = b\<lparr>ee_Imports := []\<rparr>"

definition rearranged_ex :: "ExampleRecord \<Rightarrow> ExampleRecord \<Rightarrow> bool" where
  "rearranged_ex r s \<longleftrightarrow> rearranged sameExample (er_Examples r) (er_Examples s)
     \<and> mset (er_ParseFailures r) = mset (er_ParseFailures s)
     \<and> r\<lparr>er_Examples := [], er_ParseFailures := []\<rparr> = s\<lparr>er_Examples := [], er_ParseFailures := []\<rparr>"

lemma sortImports_same: "sameExample a b \<Longrightarrow> sortImports a = sortImports b"
  by (cases a; cases b) (auto simp: sameExample_def sortImports_def ExampleEntry.defs intro: properties_for_sort)

lemma sortExamples_any: "rearranged sameExample es fs \<Longrightarrow> sortExamples es = sortExamples fs"
  unfolding sortExamples_def by (intro examples.sort_arrangement rearranged_mset sortImports_same)

lemma SortExamples_any:
  assumes "rearranged_ex r s"
  shows "SortExamples r = SortExamples s"
proof -
  have e: "sortExamples (er_Examples r) = sortExamples (er_Examples s)"
    "stable_sort ParseFailureLess_ex (er_ParseFailures r) = stable_sort ParseFailureLess_ex (er_ParseFailures s)"
    "r\<lparr>er_Examples := [], er_ParseFailures := []\<rparr> = s\<lparr>er_Examples := [], er_ParseFailures := []\<rparr>"
    using assms sortExamples_any test_failures.sort_arrangement unfolding rearranged_ex_def by blast+
  then show ?thesis by (cases r; cases s) (simp add: SortExamples_def ExampleRecord.defs)
qed

lemma sortExamples_idem: "sortExamples (sortExamples es) = sortExamples es"
proof -
  have "map sortImports (stable_sort ExampleEntryLess (map sortImports es)) = stable_sort ExampleEntryLess (map sortImports es)"
    by (rule map_idI) (auto simp: sortImports_def sorted_sort_id)
  then show ?thesis by (simp add: sortExamples_def examples.sort_idem)
qed

end
