(* ===== verification/Example_Seal.thy ===== *)
theory Example_Seal
  imports Example_Types Sealed_Json Stamp_Parse
begin

text \<open>
  The seal of an example record and its stored text (\<open>internal/example/domain/hasher.go\<close>): the canonical JSON,
  the content hash over it, and the record read back.  SHA-256 is the parameter \<open>H\<close> from bytes to bytes; the
  parser of JSON text is the parameter \<open>decode\<close>.
\<close>

section \<open>The canonical JSON\<close>

definition canonicalPos_ex :: "ExamplePosition \<Rightarrow> json" where
  "canonicalPos_ex p = JObj [(''file'', JStr (xp_File p)), (''line'', JInt (xp_Line p))]"

definition canonicalExampleEntry :: "ExampleEntry \<Rightarrow> json" where
  "canonicalExampleEntry e = JObj
     [(''associated_symbol'', JStr (ee_AssociatedSymbol e)), (''body'', JStr (ee_Body e)), (''doc'', JStr (ee_Doc e)),
      (''imports'', JArr (map JStr (sort (ee_Imports e)))), (''name'', JStr (ee_Name e)), (''output'', JStr (ee_Output e)),
      (''package'', JStr (ee_Package e)), (''position'', canonicalPos_ex (ee_Position e)),
      (''sub_example'', JStr (ee_SubExample e)), (''validates'', JBool (ee_Validates e))]"

definition canonicalParseFailure :: "TestFailure \<Rightarrow> json" where
  "canonicalParseFailure f = JObj [(''error'', JStr (xf_Error f)), (''file'', JStr (xf_File f))]"

definition recordFields_ex :: "ExampleRecord \<Rightarrow> (string \<times> json) list" where
  "recordFields_ex r =
     unless (er_AnalyserLimit r = None) ''analyser_limit''
       (case er_AnalyserLimit r of None \<Rightarrow> JNull | Some u \<Rightarrow> toCanonicalLimit u)
     @ unless (er_ArtefactIdentity r = []) ''artefact_identity'' (JStr (er_ArtefactIdentity r))
     @ [(''content_hash'', JStr (er_ContentHash r)),
        (''coordinate'', JObj [(''path'', JStr (Path (er_Coordinate r))), (''version'', JStr (Version (er_Coordinate r)))]),
        (''ecosystem'', JStr (er_Ecosystem r)),
        (''examples'', JArr (map canonicalExampleEntry (sortExamples (er_Examples r)))),
        (''extracted_at'', JStr (date_time (er_ExtractedAt r) @ ''Z'')),
        (''failure_detail'', JStr (er_FailureDetail r)), (''overall_status'', JInt (er_OverallStatus r)),
        (''parse_failures'', JArr (map canonicalParseFailure (stable_sort ParseFailureLess_ex (er_ParseFailures r)))),
        (''pipeline_version'', JStr (er_PipelineVersion r)), (''schema_version'', JStr (er_SchemaVersion r))]
     @ unless (er_SourceContentHash r = []) ''source_content_hash'' (JStr (er_SourceContentHash r))"

definition canonicalExampleRecord :: "ExampleRecord \<Rightarrow> json" where
  "canonicalExampleRecord r = JObj (recordFields_ex r)"

definition marshalCanonicalExample :: "ExampleRecord \<Rightarrow> string" where
  "marshalCanonicalExample r = print (canonicalExampleRecord r)"

section \<open>The content hash\<close>

definition sealOf_ex :: "(string \<Rightarrow> string) \<Rightarrow> ExampleRecord \<Rightarrow> string" where
  "sealOf_ex H r = ''sha256:'' @ EncodeToString (H (marshalCanonicalExample (r\<lparr>er_ContentHash := []\<rparr>)))"

definition SetContentHash_ex :: "(string \<Rightarrow> string) \<Rightarrow> ExampleRecord \<Rightarrow> ExampleRecord" where
  "SetContentHash_ex H r = r\<lparr>er_ContentHash := sealOf_ex H r\<rparr>"

text \<open>The stored and the computed hash of a record that does not verify.\<close>

definition VerifyContentHash_ex :: "(string \<Rightarrow> string) \<Rightarrow> ExampleRecord \<Rightarrow> (string \<times> string) option" where
  "VerifyContentHash_ex H r = (if er_ContentHash r \<noteq> sealOf_ex H r then Some (er_ContentHash r, sealOf_ex H r) else None)"

section \<open>The record read back\<close>

definition readPos_ex :: "json \<Rightarrow> ExamplePosition option" where
  "readPos_ex j = do {
     fs \<leftarrow> readObject j;
     file \<leftarrow> readString (field fs ''file''); line \<leftarrow> readInt (field fs ''line'');
     Some \<lparr>xp_File = file, xp_Line = line\<rparr> }"

definition readEntry :: "json \<Rightarrow> ExampleEntry option" where
  "readEntry j = do {
     fs \<leftarrow> readObject j;
     symbol \<leftarrow> readString (field fs ''associated_symbol''); body \<leftarrow> readString (field fs ''body'');
     doc \<leftarrow> readString (field fs ''doc''); packages \<leftarrow> readArray readString (field fs ''imports'');
     name \<leftarrow> readString (field fs ''name''); output \<leftarrow> readString (field fs ''output'');
     package \<leftarrow> readString (field fs ''package''); position \<leftarrow> readPos_ex (field fs ''position'');
     sub \<leftarrow> readString (field fs ''sub_example''); validates \<leftarrow> readBool (field fs ''validates'');
     Some \<lparr>ee_Name = name, ee_Package = package, ee_AssociatedSymbol = symbol, ee_SubExample = sub, ee_Body = body,
           ee_Output = output, ee_Imports = packages, ee_Doc = doc, ee_Position = position, ee_Validates = validates\<rparr> }"

definition readTestFailure :: "json \<Rightarrow> TestFailure option" where
  "readTestFailure j = do {
     fs \<leftarrow> readObject j;
     err \<leftarrow> readString (field fs ''error''); file \<leftarrow> readString (field fs ''file'');
     Some \<lparr>xf_File = file, xf_Error = err\<rparr> }"

text \<open>The wire record: the record without its coordinate and time, and those as they are written.\<close>

definition readRecord_ex :: "json \<Rightarrow> ((string \<times> string \<times> string) \<times> ExampleRecord) option" where
  "readRecord_ex j = do {
     fs \<leftarrow> readObject j;
     limit \<leftarrow> readPointer limitToDomain (field fs ''analyser_limit'');
     artefact \<leftarrow> readString (field fs ''artefact_identity''); hash \<leftarrow> readString (field fs ''content_hash'');
     coord \<leftarrow> readObject (field fs ''coordinate'');
     path \<leftarrow> readString (field coord ''path''); version \<leftarrow> readString (field coord ''version'');
     ecosystem \<leftarrow> readString (field fs ''ecosystem''); entries \<leftarrow> readArray readEntry (field fs ''examples'');
     at \<leftarrow> readString (field fs ''extracted_at''); detail \<leftarrow> readString (field fs ''failure_detail'');
     status \<leftarrow> readInt (field fs ''overall_status'');
     fails \<leftarrow> readArray readTestFailure (field fs ''parse_failures'');
     pipeline \<leftarrow> readString (field fs ''pipeline_version''); schema \<leftarrow> readString (field fs ''schema_version'');
     source \<leftarrow> readString (field fs ''source_content_hash'');
     Some ((path, version, at),
       \<lparr>er_SchemaVersion = schema, er_Ecosystem = ecosystem, er_Coordinate = zero_coordinate, er_Examples = entries,
        er_ParseFailures = fails, er_OverallStatus = status, er_FailureDetail = detail, er_ExtractedAt = zero_time,
        er_PipelineVersion = pipeline, er_ContentHash = hash, er_ArtefactIdentity = artefact,
        er_SourceContentHash = source, er_AnalyserLimit = limit\<rparr>) }"

definition Unmarshal_ex ::
  "(string \<Rightarrow> bool) \<Rightarrow> (string \<Rightarrow> json option) \<Rightarrow> string \<Rightarrow> unmarshal_error + ExampleRecord" where
  "Unmarshal_ex semver_IsValid decode data =
     (case Option.bind (decode data) readRecord_ex of
        None \<Rightarrow> Inl MalformedRecord
      | Some ((path, version, at), c) \<Rightarrow>
          if er_Ecosystem c \<noteq> EcosystemGo then Inl (UnsupportedEcosystem (er_Ecosystem c))
          else (case time_Parse at of
              None \<Rightarrow> Inl (MalformedTime at)
            | Some t \<Rightarrow> (case NewModuleCoordinate semver_IsValid path version of
                Inl e \<Rightarrow> Inl (MalformedCoordinate e)
              | Inr coord \<Rightarrow> Inr (c\<lparr>er_ExtractedAt := t, er_Coordinate := coord\<rparr>))))"

section \<open>Each part is read back\<close>

definition fits_example :: "ExampleRecord \<Rightarrow> bool" where
  "fits_example r \<longleftrightarrow> int64 (er_OverallStatus r) \<and> (\<forall>e \<in> set (er_Examples r). int64 (xp_Line (ee_Position e)))"

lemma read_pos_ex: "int64 (xp_Line p) \<Longrightarrow> readPos_ex (canonicalPos_ex p) = Some p"
  by (cases p) (simp add: canonicalPos_ex_def readPos_ex_def field_distinct)

lemma read_entry:
  assumes "int64 (xp_Line (ee_Position e))"
  shows "readEntry (canonicalExampleEntry e) = Some (sortImports e)"
  using assms by (cases e)
    (simp add: canonicalExampleEntry_def readEntry_def field_distinct readArray_strings read_pos_ex sortImports_def
      ExampleEntry.defs del: readArray.simps)

lemma read_test_failure: "readTestFailure (canonicalParseFailure f) = Some f"
  by (cases f) (simp add: canonicalParseFailure_def readTestFailure_def field_distinct)

lemma recordFields_ex_distinct: "distinct (map fst (recordFields_ex r))"
  by (simp add: recordFields_ex_def unless_def)

section \<open>The record is read back\<close>

text \<open>What a record is once it has been stored.\<close>

definition stored_ex :: "ExampleRecord \<Rightarrow> ExampleRecord" where
  "stored_ex r = (SortExamples r)\<lparr>er_ExtractedAt := er_ExtractedAt r - nanosecond (er_ExtractedAt r)\<rparr>"

lemma sorted_imports: "e \<in> set (sortExamples es) \<Longrightarrow> sortImports e = e"
  by (auto simp: sortExamples_def sortImports_def sorted_sort_id)

lemma read_record_ex:
  assumes "fits_example r"
  shows "readRecord_ex (canonicalExampleRecord r) =
    Some ((Path (er_Coordinate r), Version (er_Coordinate r), date_time (er_ExtractedAt r) @ ''Z''),
      (stored_ex r)\<lparr>er_Coordinate := zero_coordinate, er_ExtractedAt := zero_time\<rparr>)"
proof -
  have entries: "readArray readEntry (JArr (map canonicalExampleEntry (sortExamples (er_Examples r))))
      = Some (sortExamples (er_Examples r))"
  proof (rule readArray_id)
    fix e assume e: "e \<in> set (sortExamples (er_Examples r))"
    then have "int64 (xp_Line (ee_Position e))"
      using assms by (auto simp: sortExamples_def sortImports_def fits_example_def)
    with read_entry sorted_imports [OF e] show "readEntry (canonicalExampleEntry e) = Some e" by simp
  qed
  have fails: "readArray readTestFailure (JArr (map canonicalParseFailure fs)) = Some fs" for fs
    by (rule readArray_id) (rule read_test_failure)
  have coord: "field [(''path'', JStr a), (''version'', JStr b)] ''path'' = JStr a"
    "field [(''path'', JStr a), (''version'', JStr b)] ''version'' = JStr b" for a b
    by (simp_all add: field_distinct)
  have rebuilt: "\<lparr>er_SchemaVersion = er_SchemaVersion r, er_Ecosystem = er_Ecosystem r, er_Coordinate = zero_coordinate,
      er_Examples = es, er_ParseFailures = fs, er_OverallStatus = er_OverallStatus r,
      er_FailureDetail = er_FailureDetail r, er_ExtractedAt = zero_time, er_PipelineVersion = er_PipelineVersion r,
      er_ContentHash = er_ContentHash r, er_ArtefactIdentity = er_ArtefactIdentity r,
      er_SourceContentHash = er_SourceContentHash r, er_AnalyserLimit = er_AnalyserLimit r\<rparr>
    = r\<lparr>er_Examples := es, er_ParseFailures := fs, er_Coordinate := zero_coordinate, er_ExtractedAt := zero_time\<rparr>" for es fs
    by (cases r) simp
  have status: "int64 (er_OverallStatus r)" using assms by (simp add: fits_example_def)
  show ?thesis
    unfolding canonicalExampleRecord_def readRecord_ex_def readObject.simps Option.bind_lunit
      field_distinct [OF recordFields_ex_distinct]
    by (simp add: recordFields_ex_def decoding entries fails coord read_limit_field status rebuilt stored_ex_def
        SortExamples_def image_Un del: readArray.simps map_of_append)
qed

text \<open>A record that was stored has the text it had before.\<close>

lemma stored_text_ex:
  assumes "stampable (er_ExtractedAt r)"
  shows "canonicalExampleRecord ((stored_ex r)\<lparr>er_ContentHash := h\<rparr>) = canonicalExampleRecord (r\<lparr>er_ContentHash := h\<rparr>)"
    "canonicalExampleRecord (stored_ex r) = canonicalExampleRecord r"
proof -
  have all: "canonicalExampleRecord ((stored_ex r)\<lparr>er_ContentHash := h\<rparr>) = canonicalExampleRecord (r\<lparr>er_ContentHash := h\<rparr>)" for h
    by (simp add: canonicalExampleRecord_def recordFields_ex_def stored_ex_def SortExamples_def sortExamples_idem
        test_failures.sort_idem date_time_truncated [OF assms])
  then show "canonicalExampleRecord ((stored_ex r)\<lparr>er_ContentHash := h\<rparr>) = canonicalExampleRecord (r\<lparr>er_ContentHash := h\<rparr>)" .
  from all [of "er_ContentHash r"] show "canonicalExampleRecord (stored_ex r) = canonicalExampleRecord r"
    by (simp add: stored_ex_def SortExamples_def)
qed

text \<open>
  A record that is written and read again comes back in canonical order and to the second.  It has the text
  it had, so it verifies exactly when the one written did.
\<close>

theorem example_record_roundtrip:
  assumes "fits_example r" "stampable (er_ExtractedAt r)" "er_Ecosystem r = EcosystemGo"
    "NewModuleCoordinate v path version = Inr (er_Coordinate r)"
    "decode (marshalCanonicalExample r) = Some (canonicalExampleRecord r)"
  shows "Unmarshal_ex v decode (marshalCanonicalExample r) = Inr (stored_ex r)
    \<and> marshalCanonicalExample (stored_ex r) = marshalCanonicalExample r
    \<and> (VerifyContentHash_ex H (stored_ex r) = None \<longleftrightarrow> VerifyContentHash_ex H r = None)"
proof -
  have c: "NewModuleCoordinate v (Path (er_Coordinate r)) (Version (er_Coordinate r)) = Inr (er_Coordinate r)"
    using assms(4) by (auto simp: NewModuleCoordinate_Inr)
  have "Unmarshal_ex v decode (marshalCanonicalExample r) = Inr (stored_ex r)"
    unfolding Unmarshal_ex_def assms(5) Option.bind_lunit read_record_ex [OF assms(1)]
    using assms(3) rfc3339_truncates [OF assms(2)] c by (simp add: stored_ex_def SortExamples_def)
  moreover have "sealOf_ex H (stored_ex r) = sealOf_ex H r"
    by (simp add: sealOf_ex_def marshalCanonicalExample_def stored_text_ex(1) [OF assms(2)])
  ultimately show ?thesis
    using stored_text_ex(2) [OF assms(2)]
    by (simp add: marshalCanonicalExample_def VerifyContentHash_ex_def stored_ex_def SortExamples_def)
qed

text \<open>The seal does not depend on how the lists are arranged.\<close>

lemma example_seal_arrangement:
  assumes "rearranged_ex r s"
  shows "marshalCanonicalExample r = marshalCanonicalExample s" "sealOf_ex H r = sealOf_ex H s"
    "VerifyContentHash_ex H ((SetContentHash_ex H r)\<lparr>er_Examples := er_Examples s, er_ParseFailures := er_ParseFailures s\<rparr>) = None"
proof -
  have text_of: "canonicalExampleRecord (a\<lparr>er_ContentHash := h\<rparr>) = canonicalExampleRecord ((SortExamples a)\<lparr>er_ContentHash := h\<rparr>)" for a h
    by (simp add: canonicalExampleRecord_def recordFields_ex_def SortExamples_def sortExamples_idem test_failures.sort_idem)
  have same: "canonicalExampleRecord (r\<lparr>er_ContentHash := h\<rparr>) = canonicalExampleRecord (s\<lparr>er_ContentHash := h\<rparr>)" for h
    unfolding text_of [where a = r] text_of [where a = s] SortExamples_any [OF assms] ..
  have seal: "er_ContentHash r = er_ContentHash s"
    using assms unfolding rearranged_ex_def by (elim conjE) (drule arg_cong [of _ _ er_ContentHash], simp)
  have "r\<lparr>er_ContentHash := er_ContentHash r\<rparr> = r" "s\<lparr>er_ContentHash := er_ContentHash r\<rparr> = s" by (simp_all add: seal)
  with same [of "er_ContentHash r"] show "marshalCanonicalExample r = marshalCanonicalExample s"
    by (simp only: marshalCanonicalExample_def)
  show sealed: "sealOf_ex H r = sealOf_ex H s" by (simp add: sealOf_ex_def marshalCanonicalExample_def same)
  have "(SetContentHash_ex H r)\<lparr>er_Examples := er_Examples s, er_ParseFailures := er_ParseFailures s\<rparr>
      = s\<lparr>er_ContentHash := sealOf_ex H r\<rparr>"
    using assms unfolding rearranged_ex_def SetContentHash_ex_def by (cases r; cases s) simp
  then show "VerifyContentHash_ex H ((SetContentHash_ex H r)\<lparr>er_Examples := er_Examples s,
      er_ParseFailures := er_ParseFailures s\<rparr>) = None"
    by (simp add: VerifyContentHash_ex_def sealed) (simp add: sealOf_ex_def)
qed

end
