(* ===== verification/Example_Compose.thy ===== *)
theory Example_Compose
  imports Example_Seal Disagreement Ledger
begin

text \<open>
  Which example record answers for a coordinate (\<open>internal/example/domain/compose.go\<close>): a completed
  extraction, one that could read every file, the fewest parse failures, then the latest; records that name
  different artefacts are a conflict.  Marshalling cannot fail on these records, so the branches that
  report it are left out.
\<close>

section \<open>Conflicts\<close>

record ExampleConflict =
  yc_Coordinate :: ModuleCoordinate
  yc_PipelineVersion :: string
  yc_Field :: string
  yc_Values :: "string list"
  yc_ContentHashes :: "string list"

datatype example_compose_error = NoExampleRecords | ConflictingExamples ExampleConflict

definition identifiedOrAll_ex :: "ExampleRecord list \<Rightarrow> ExampleRecord list" where
  "identifiedOrAll_ex records = identifiedFirst er_ArtefactIdentity records"

definition findConflict_ex :: "ExampleRecord list \<Rightarrow> ExampleConflict option" where
  "findConflict_ex records = map_option (\<lambda>(vs, hs).
     \<lparr>yc_Coordinate = er_Coordinate (hd records), yc_PipelineVersion = er_PipelineVersion (hd records),
      yc_Field = ''artefact_identity'', yc_Values = vs, yc_ContentHashes = hs\<rparr>)
     (disagreeing er_ContentHash er_ArtefactIdentity records)"

section \<open>Composition\<close>

definition completed :: "ExampleRecord \<Rightarrow> bool" where
  "completed r \<longleftrightarrow> er_OverallStatus r = ExampleStatusFound \<or> er_OverallStatus r = ExampleStatusNone"

definition servesBefore_ex :: "ExampleRecord \<Rightarrow> ExampleRecord \<Rightarrow> bool" where
  "servesBefore_ex a b =
     (if completed a \<noteq> completed b then completed a
      else if (er_AnalyserLimit a \<noteq> None) \<noteq> (er_AnalyserLimit b \<noteq> None) then er_AnalyserLimit b \<noteq> None
      else if length (er_ParseFailures a) \<noteq> length (er_ParseFailures b)
        then length (er_ParseFailures a) < length (er_ParseFailures b)
      else if er_ExtractedAt a \<noteq> er_ExtractedAt b then er_ExtractedAt b < er_ExtractedAt a
      else er_ContentHash a < er_ContentHash b)"

definition Compose_ex :: "ExampleRecord list \<Rightarrow> example_compose_error + ExampleRecord" where
  "Compose_ex records =
     (if records = [] then Inl NoExampleRecords
      else if IsLocal (er_Coordinate (hd records)) then Inr (last records)
      else let candidates = identifiedOrAll_ex records
           in case findConflict_ex candidates of
                Some c \<Rightarrow> Inl (ConflictingExamples c)
              | None \<Rightarrow> Inr (serve servesBefore_ex candidates))"

definition forMeasurementComparison_ex :: "ExampleRecord \<Rightarrow> ExampleRecord" where
  "forMeasurementComparison_ex r = r\<lparr>er_ExtractedAt := zero_time, er_ContentHash := [], er_SourceContentHash := []\<rparr>"

definition SameMeasurement_ex :: "ExampleRecord \<Rightarrow> ExampleRecord \<Rightarrow> bool" where
  "SameMeasurement_ex a b \<longleftrightarrow>
     (if \<not> NamesAnalysedContent_ex a \<or> \<not> NamesAnalysedContent_ex b then False
      else marshalCanonicalExample (forMeasurementComparison_ex a) = marshalCanonicalExample (forMeasurementComparison_ex b))"

section \<open>What is served\<close>

interpretation example_ledger: sealed_serving servesBefore_ex er_ContentHash
proof unfold_locales
  show "swo servesBefore_ex" unfolding servesBefore_ex_def [abs_def] by (intro swo_intros)
  show "\<not> servesBefore_ex a b \<Longrightarrow> \<not> servesBefore_ex b a \<Longrightarrow> er_ContentHash a = er_ContentHash b" for a b
    by (auto simp: servesBefore_ex_def split: if_splits)
qed

text \<open>What a record is preferred for, the greater the better.\<close>

definition evidence_ex :: "ExampleRecord \<Rightarrow> bool \<times> bool \<times> int \<times> instant" where
  "evidence_ex r = (completed r, er_AnalyserLimit r = None, - int (length (er_ParseFailures r)), er_ExtractedAt r)"

lemma not_served_before_ex:
  "\<not> servesBefore_ex b r \<Longrightarrow> evidence_ex b < evidence_ex r \<or> evidence_ex b = evidence_ex r \<and> er_ContentHash r \<le> er_ContentHash b"
  by (auto simp: servesBefore_ex_def evidence_ex_def split: if_splits)

definition oneArtefact :: "ExampleRecord set \<Rightarrow> bool" where
  "oneArtefact A \<longleftrightarrow> (\<forall>a \<in> A. \<forall>b \<in> A. er_ArtefactIdentity a = [] \<or> er_ArtefactIdentity b = []
     \<or> er_ArtefactIdentity a = er_ArtefactIdentity b)"

lemma findConflict_ex_None: "findConflict_ex records = None \<longleftrightarrow> oneArtefact (set records)"
  by (simp add: findConflict_ex_def disagreeing_None oneArtefact_def)

lemma findConflict_ex_Some:
  "findConflict_ex records = Some c \<Longrightarrow> reports er_ContentHash er_ArtefactIdentity (set records) (yc_Values c) (yc_ContentHashes c)"
  by (auto simp: findConflict_ex_def intro: disagreeing_Some)

text \<open>
  A coordinate that pins content is answered by the best evidenced record exactly when the records that
  compete are of one artefact, and refused with the artefacts they name otherwise: a failed run never hides a
  finished one, and a run that met fewer failures is not displaced by a later one that met more.  Of a
  local coordinate the last record answers.
\<close>

theorem example_serves_or_refuses:
  assumes "records \<noteq> []"
  shows "case Compose_ex records of
      Inr r \<Rightarrow> (IsLocal (er_Coordinate (hd records)) \<and> r = last records)
        \<or> (\<not> IsLocal (er_Coordinate (hd records)) \<and> oneArtefact (competing er_ArtefactIdentity (set records))
           \<and> r \<in> competing er_ArtefactIdentity (set records)
           \<and> (\<forall>b \<in> competing er_ArtefactIdentity (set records). evidence_ex b < evidence_ex r
                \<or> evidence_ex b = evidence_ex r \<and> er_ContentHash r \<le> er_ContentHash b))
    | Inl NoExampleRecords \<Rightarrow> False
    | Inl (ConflictingExamples c) \<Rightarrow> \<not> IsLocal (er_Coordinate (hd records))
        \<and> \<not> oneArtefact (competing er_ArtefactIdentity (set records))
        \<and> reports er_ContentHash er_ArtefactIdentity (competing er_ArtefactIdentity (set records))
             (yc_Values c) (yc_ContentHashes c)"
proof (cases "IsLocal (er_Coordinate (hd records))")
  case True
  then show ?thesis using assms by (simp add: Compose_ex_def)
next
  case False
  let ?cs = "identifiedOrAll_ex records"
  have ne: "?cs \<noteq> []" unfolding identifiedOrAll_ex_def by (rule identifiedFirst_nonempty [OF assms])
  have cs: "set ?cs = competing er_ArtefactIdentity (set records)"
    unfolding identifiedOrAll_ex_def by (rule identifiedFirst_set)
  have best: "\<forall>b \<in> set ?cs. evidence_ex b < evidence_ex (serve servesBefore_ex ?cs)
      \<or> evidence_ex b = evidence_ex (serve servesBefore_ex ?cs) \<and> er_ContentHash (serve servesBefore_ex ?cs) \<le> er_ContentHash b"
    using example_ledger.nothing_before_served not_served_before_ex by blast
  show ?thesis
  proof (cases "findConflict_ex ?cs")
    case None
    with best example_ledger.served_in [OF ne] False assms show ?thesis
      unfolding findConflict_ex_None cs by (simp add: Compose_ex_def None)
  next
    case (Some c)
    then have "\<not> oneArtefact (set ?cs)" using findConflict_ex_None [of ?cs] by simp
    with findConflict_ex_Some [OF Some] Some False assms show ?thesis unfolding cs by (simp add: Compose_ex_def)
  qed
qed

text \<open>A failed run that came later, and a finished one: the finished one answers.\<close>

definition exampleRun :: "int \<Rightarrow> instant \<Rightarrow> ExampleRecord" where
  "exampleRun status at = \<lparr>er_SchemaVersion = ''2'', er_Ecosystem = ''go'', er_Coordinate = ModuleCoordinate ''m'' ''v1.0.0'',
     er_Examples = [\<lparr>ee_Name = ''ExampleF'', ee_Package = ''p'', ee_AssociatedSymbol = ''F'', ee_SubExample = [], ee_Body = [],
       ee_Output = [], ee_Imports = [''os'', ''fmt''], ee_Doc = [], ee_Position = \<lparr>xp_File = ''p/f_test.go'', xp_Line = 3\<rparr>,
       ee_Validates = False\<rparr>],
     er_ParseFailures = [], er_OverallStatus = status, er_FailureDetail = [], er_ExtractedAt = at,
     er_PipelineVersion = ''1'', er_ContentHash = ''h'', er_ArtefactIdentity = ''zip:h1:aa'', er_SourceContentHash = [],
     er_AnalyserLimit = None\<rparr>"

lemma example_serves_or_refuses_witness:
  "let failed = exampleRun ExampleStatusExtractionFailed 9; found = exampleRun ExampleStatusFound 7 in
     Compose_ex [failed, found] = Inr found \<and> evidence_ex failed < evidence_ex found
     \<and> oneArtefact (competing er_ArtefactIdentity {failed, found})"
proof -
  define failed where "failed = exampleRun ExampleStatusExtractionFailed 9"
  define found where "found = exampleRun ExampleStatusFound 7"
  have served: "Compose_ex [failed, found] = Inr found" "\<not> IsLocal (er_Coordinate failed)"
    and ev: "evidence_ex failed < evidence_ex found"
    unfolding failed_def found_def by code_simp+
  have "oneArtefact (competing er_ArtefactIdentity (set [failed, found]))"
    using example_serves_or_refuses [of "[failed, found]"] unfolding served(1) by (simp add: served(2))
  with served ev show ?thesis unfolding failed_def [symmetric] found_def [symmetric] Let_def by simp
qed

text \<open>A record is stored and read back with its imports sorted and its time in seconds.\<close>

lemma example_record_roundtrip_witness:
  "\<exists>decode. Unmarshal_ex (\<lambda>s. True) decode (marshalCanonicalExample (exampleRun ExampleStatusFound 1500000000))
      = Inr (stored_ex (exampleRun ExampleStatusFound 1500000000))
     \<and> er_ExtractedAt (stored_ex (exampleRun ExampleStatusFound 1500000000)) = 1000000000
     \<and> map ee_Imports (er_Examples (stored_ex (exampleRun ExampleStatusFound 1500000000))) = [[''fmt'', ''os'']]"
proof -
  define r where "r = exampleRun ExampleStatusFound 1500000000"
  have "fits_example r" "stampable (er_ExtractedAt r)" "er_Ecosystem r = EcosystemGo"
    "NewModuleCoordinate (\<lambda>s. True) ''m'' ''v1.0.0'' = Inr (er_Coordinate r)"
    by (simp_all add: r_def exampleRun_def fits_example_def int64_def ExampleStatusFound_def stampable_def year_start_def
        EcosystemGo_def NewModuleCoordinate_def)
  then have "Unmarshal_ex (\<lambda>s. True) (\<lambda>d. Some (canonicalExampleRecord r)) (marshalCanonicalExample r) = Inr (stored_ex r)"
    using example_record_roundtrip [of r "\<lambda>s. True" "''m''" "''v1.0.0''" "\<lambda>d. Some (canonicalExampleRecord r)"] by simp
  moreover have "er_ExtractedAt (stored_ex r) = 1000000000" "map ee_Imports (er_Examples (stored_ex r)) = [[''fmt'', ''os'']]"
    by (simp_all add: r_def exampleRun_def stored_ex_def nanosecond_def SortExamples_def sortExamples_def sortImports_def)
  ultimately show ?thesis unfolding r_def [symmetric] by (intro exI conjI)
qed

text \<open>The order rows are listed in does not change the answer.\<close>

lemma example_compose_any_order:
  assumes "set records = set others" "records \<noteq> []" "inj_on er_ContentHash (set records)"
    "\<forall>r \<in> set records. \<not> IsLocal (er_Coordinate r)"
  shows "(\<exists>r. Compose_ex records = Inr r \<and> Compose_ex others = Inr r)
    \<or> (\<exists>c d. Compose_ex records = Inl (ConflictingExamples c) \<and> Compose_ex others = Inl (ConflictingExamples d)
        \<and> yc_Values c = yc_Values d)"
proof -
  let ?a = "identifiedOrAll_ex records" and ?b = "identifiedOrAll_ex others"
  have ne: "others \<noteq> []" using assms(1,2) by (metis set_empty)
  have ns: "?a \<noteq> []" using assms(2) identifiedFirst_nonempty by (auto simp: identifiedOrAll_ex_def)
  have set: "set ?a = set ?b" using assms(1) by (simp add: identifiedOrAll_ex_def identifiedFirst_set)
  have inj: "inj_on er_ContentHash (set ?a)"
    using assms(3) by (rule inj_on_subset) (auto simp: identifiedOrAll_ex_def identifiedFirst_set competing_def split: if_splits)
  have loc: "\<not> IsLocal (er_Coordinate (hd records))" "\<not> IsLocal (er_Coordinate (hd others))"
    using assms ne by (metis hd_in_set)+
  have served: "serve servesBefore_ex ?a = serve servesBefore_ex ?b"
    by (rule example_ledger.served_any_order [OF set ns inj])
  show ?thesis
  proof (cases "disagreeing er_ContentHash er_ArtefactIdentity ?a")
    case None
    then have "disagreeing er_ContentHash er_ArtefactIdentity ?b = None" by (simp add: disagreeing_None set)
    with None served assms(2) ne loc show ?thesis by (simp add: Compose_ex_def findConflict_ex_def)
  next
    case (Some p)
    then obtain vs hs where "disagreeing er_ContentHash er_ArtefactIdentity ?a = Some (vs, hs)" by (cases p) simp
    moreover from disagreeing_same_values [OF set this]
    obtain ks where "disagreeing er_ContentHash er_ArtefactIdentity ?b = Some (vs, ks)" by (elim exE)
    ultimately show ?thesis using assms(2) ne loc by (simp add: Compose_ex_def findConflict_ex_def Let_def)
  qed
qed

end
