(* ===== verification/Json_Tokens.thy ===== *)
theory Json_Tokens
  imports Go_Decoding Stamp_Parse
begin

text \<open>
  The token reader of encoding/json (\<open>Decoder.Token\<close>), which reads a text piece by piece and says how far it has
  come, and the reading of a quoted string.  A reader is its state, the states it will return to, and the text
  that is left.  The numbers of the text must fit a \<open>float64\<close>, as every number read into an interface must.
\<close>

section \<open>Strings\<close>

definition isJSONSpace :: "char \<Rightarrow> bool" where
  "isJSONSpace c \<longleftrightarrow> c = CHR '' '' \<or> c = CHR 0x09 \<or> c = CHR 0x0A \<or> c = CHR 0x0D"

definition hexValue :: "char \<Rightarrow> nat option" where
  "hexValue c = (let n = byte c in
     if 48 \<le> n \<and> n \<le> 57 then Some (n - 48)
     else if 97 \<le> n \<and> n \<le> 102 then Some (n - 87)
     else if 65 \<le> n \<and> n \<le> 70 then Some (n - 55)
     else None)"

text \<open>The simple escapes and the byte each stands for.\<close>

definition simpleEscape :: "char \<Rightarrow> char option" where
  "simpleEscape e =
     (if e = quoteMark \<or> e = backslash \<or> e = CHR ''/'' then Some e
      else if e = CHR ''b'' then Some CHR 0x08
      else if e = CHR ''f'' then Some CHR 0x0C
      else if e = CHR ''n'' then Some CHR 0x0A
      else if e = CHR ''r'' then Some CHR 0x0D
      else if e = CHR ''t'' then Some CHR 0x09
      else None)"

text \<open>Four hexadecimal digits, and the text after them.\<close>

fun getu4 :: "string \<Rightarrow> (nat \<times> string) option" where
  "getu4 (a # b # c # d # r) =
     (case (hexValue a, hexValue b, hexValue c, hexValue d) of
        (Some i, Some j, Some k, Some l) \<Rightarrow> Some (((i * 16 + j) * 16 + k) * 16 + l, r)
      | _ \<Rightarrow> None)"
| "getu4 _ = None"

lemma getu4_shorter: "getu4 s = Some (n, r) \<Longrightarrow> length r < length s"
  by (induction s rule: getu4.induct) (auto split: option.splits)

text \<open>The body of a string up to its closing mark, and the text after the mark.\<close>

definition onto :: "string \<Rightarrow> (string \<times> string) option \<Rightarrow> (string \<times> string) option" where
  "onto u found = (case found of None \<Rightarrow> None | Some (b, t) \<Rightarrow> Some (u @ b, t))"

lemma onto_simps [simp]: "onto [] f = f" "onto u (onto v f) = onto (u @ v) f" "onto u (Some (b, t)) = Some (u @ b, t)"
  by (auto simp: onto_def split: option.splits)

function scanString :: "string \<Rightarrow> (string \<times> string) option" where
  "scanString [] = None"
| "scanString (c # r) =
     (if c = quoteMark then Some ([], r)
      else if c = backslash then
        (case r of
           [] \<Rightarrow> None
         | e # s \<Rightarrow>
             if simpleEscape e \<noteq> None then onto [c, e] (scanString s)
             else if e = CHR ''u'' \<and> getu4 s \<noteq> None
               then onto (c # e # take 4 s) (scanString (drop 4 s))
             else None)
      else if byte c < 32 then None
      else onto [c] (scanString r))"
  by pat_completeness auto
termination by (relation "measure length") auto

text \<open>A character as UTF-8; a surrogate and what is above the last character are the replacement character.\<close>

definition replacementRune :: string where
  "replacementRune = [CHR 0xEF, CHR 0xBF, CHR 0xBD]"

definition EncodeRune :: "nat \<Rightarrow> string" where
  "EncodeRune n =
     (if n < 128 then [char_of n]
      else if n < 2048 then [char_of (192 + n div 64), char_of (128 + n mod 64)]
      else if 55296 \<le> n \<and> n < 57344 \<or> 1114111 < n then replacementRune
      else if n < 65536 then [char_of (224 + n div 4096), char_of (128 + n div 64 mod 64), char_of (128 + n mod 64)]
      else [char_of (240 + n div 262144), char_of (128 + n div 4096 mod 64), char_of (128 + n div 64 mod 64), char_of (128 + n mod 64)])"

text \<open>The second half of a surrogate pair, where one follows.\<close>

definition lowSurrogate :: "nat \<Rightarrow> string \<Rightarrow> nat option" where
  "lowSurrogate hi s =
     (case s of
        x # y # s' \<Rightarrow> if x \<noteq> backslash \<or> y \<noteq> CHR ''u'' then None else
          (case getu4 s' of
             None \<Rightarrow> None
           | Some (lo, _) \<Rightarrow> if 55296 \<le> hi \<and> hi < 56320 \<and> 56320 \<le> lo \<and> lo < 57344
               then Some ((hi - 55296) * 1024 + (lo - 56320) + 65536) else None)
      | _ \<Rightarrow> None)"

function unquote :: "string \<Rightarrow> string" where
  "unquote [] = []"
| "unquote (c # r) =
     (if c = backslash then
        (case r of
           [] \<Rightarrow> []
         | e # s \<Rightarrow>
             (case simpleEscape e of
                Some b \<Rightarrow> b # unquote s
              | None \<Rightarrow>
                 (case getu4 s of
                    None \<Rightarrow> []
                  | Some (n, _) \<Rightarrow>
                      if 55296 \<le> n \<and> n < 57344 then
                        (case lowSurrogate n (drop 4 s) of
                           Some m \<Rightarrow> EncodeRune m @ unquote (drop 10 s)
                         | None \<Rightarrow> replacementRune @ unquote (drop 4 s))
                      else EncodeRune n @ unquote (drop 4 s))))
      else if byte c < 128 then c # unquote r
      else case runeTail c r of
          None \<Rightarrow> replacementRune @ unquote r
        | Some n \<Rightarrow> c # take n r @ unquote (drop n r))"
  by pat_completeness auto
termination by (relation "measure length") auto

section \<open>Numbers\<close>

text \<open>The digits before and after the point, the exponent, and the text after the number.\<close>

definition fractionPart :: "string \<Rightarrow> (string \<times> string) option" where
  "fractionPart s = (case s of
       p # r \<Rightarrow> if p = CHR ''.'' then (if takeWhile isDigit r = [] then None else Some (takeWhile isDigit r, dropWhile isDigit r))
         else Some ([], s)
     | [] \<Rightarrow> Some ([], s))"

definition exponentPart :: "string \<Rightarrow> (int \<times> string) option" where
  "exponentPart s = (case s of
       p # r \<Rightarrow> if p = CHR ''e'' \<or> p = CHR ''E'' then
           (let signed = (r \<noteq> [] \<and> (hd r = CHR ''+'' \<or> hd r = CHR ''-''));
                ds = (if signed then tl r else r)
            in if takeWhile isDigit ds = [] then None
               else Some ((if signed \<and> hd r = CHR ''-'' then - 1 else 1) * digitsValue (takeWhile isDigit ds), dropWhile isDigit ds))
         else Some (0, s)
     | [] \<Rightarrow> Some (0, s))"

text \<open>Whether \<open>digits * 10 ^ e\<close> rounds to a finite \<open>float64\<close>.\<close>

definition floatFits :: "int \<Rightarrow> int \<Rightarrow> bool" where
  "floatFits digits e \<longleftrightarrow>
     (if 0 \<le> e then digits * 10 ^ nat e < 2 ^ 1024 - 2 ^ 970 else digits < (2 ^ 1024 - 2 ^ 970) * 10 ^ nat (- e))"

text \<open>The text after a number, if it is one and it fits.\<close>

definition scanNumber :: "string \<Rightarrow> string option" where
  "scanNumber s =
     (let s1 = (if s \<noteq> [] \<and> hd s = CHR ''-'' then tl s else s) in
      case s1 of
        [] \<Rightarrow> None
      | d # r \<Rightarrow>
          if \<not> isDigit d then None
          else let ds = (if d = CHR ''0'' then [d] else takeWhile isDigit s1);
                   s2 = (if d = CHR ''0'' then r else dropWhile isDigit s1)
               in do {
                 (frac, s3) \<leftarrow> fractionPart s2;
                 (e, s4) \<leftarrow> exponentPart s3;
                 if floatFits (digitsValue (ds @ frac)) (e - int (length frac)) then Some s4 else None })"

section \<open>Tokens\<close>

datatype token = Delim char | Str string | Scalar

datatype tokState =
    TopValue | ArrayStart | ArrayValue | ArrayComma
  | ObjectStart | ObjectKey | ObjectColon | ObjectValue | ObjectComma

datatype token_error = EndOfInput | Malformed

record decoder =
  dc_State :: tokState
  dc_Stack :: "tokState list"
  dc_Rest :: string

definition valueAllowed :: "tokState \<Rightarrow> bool" where
  "valueAllowed s \<longleftrightarrow> s = TopValue \<or> s = ArrayStart \<or> s = ArrayValue \<or> s = ObjectValue"

definition valueEnd :: "tokState \<Rightarrow> tokState" where
  "valueEnd s = (if s = ArrayStart \<or> s = ArrayValue then ArrayComma else if s = ObjectValue then ObjectComma else s)"

text \<open>A value that is no array and no object, beginning with the byte \<open>c\<close>.\<close>

definition scanScalar :: "char \<Rightarrow> string \<Rightarrow> (token \<times> string) option" where
  "scanScalar c r =
     (if c = quoteMark then map_option (\<lambda>(b, t). (Str (unquote b), t)) (scanString r)
      else if c = CHR ''t'' then (if prefix ''rue'' r then Some (Scalar, drop 3 r) else None)
      else if c = CHR ''f'' then (if prefix ''alse'' r then Some (Scalar, drop 4 r) else None)
      else if c = CHR ''n'' then (if prefix ''ull'' r then Some (Scalar, drop 3 r) else None)
      else map_option (\<lambda>t. (Scalar, t)) (scanNumber (c # r)))"

definition openAs :: "tokState \<Rightarrow> char \<Rightarrow> decoder \<Rightarrow> string \<Rightarrow> token_error + (token \<times> decoder)" where
  "openAs s c d r =
     (if valueAllowed (dc_State d) then Inr (Delim c, \<lparr>dc_State = s, dc_Stack = dc_State d # dc_Stack d, dc_Rest = r\<rparr>)
      else Inl Malformed)"

definition closeAs :: "tokState \<Rightarrow> tokState \<Rightarrow> char \<Rightarrow> decoder \<Rightarrow> string \<Rightarrow> token_error + (token \<times> decoder)" where
  "closeAs s t c d r =
     (if dc_State d \<noteq> s \<and> dc_State d \<noteq> t then Inl Malformed
      else case dc_Stack d of
          [] \<Rightarrow> Inl Malformed
        | p # ps \<Rightarrow> Inr (Delim c, \<lparr>dc_State = valueEnd p, dc_Stack = ps, dc_Rest = r\<rparr>))"

lemma dropWhile_shorter: "dropWhile P xs = c # r \<Longrightarrow> length r < length xs"
  using length_dropWhile_le [of P xs] by simp

function Token :: "decoder \<Rightarrow> token_error + (token \<times> decoder)" where
  "Token d =
     (case dropWhile isJSONSpace (dc_Rest d) of
        [] \<Rightarrow> Inl EndOfInput
      | c # r \<Rightarrow>
          if c = CHR ''['' then openAs ArrayStart c d r
          else if c = CHR '']'' then closeAs ArrayStart ArrayComma c d r
          else if c = CHR ''{'' then openAs ObjectStart c d r
          else if c = CHR ''}'' then closeAs ObjectStart ObjectComma c d r
          else if c = CHR '':'' then
            (if dc_State d = ObjectColon then Token (d\<lparr>dc_State := ObjectValue, dc_Rest := r\<rparr>) else Inl Malformed)
          else if c = CHR '','' then
            (if dc_State d = ArrayComma then Token (d\<lparr>dc_State := ArrayValue, dc_Rest := r\<rparr>)
             else if dc_State d = ObjectComma then Token (d\<lparr>dc_State := ObjectKey, dc_Rest := r\<rparr>)
             else Inl Malformed)
          else if c = quoteMark \<and> (dc_State d = ObjectStart \<or> dc_State d = ObjectKey) then
            (case scanString r of
               None \<Rightarrow> Inl Malformed
             | Some (b, t) \<Rightarrow> Inr (Str (unquote b), d\<lparr>dc_State := ObjectColon, dc_Rest := t\<rparr>))
          else if \<not> valueAllowed (dc_State d) then Inl Malformed
          else (case scanScalar c r of
               None \<Rightarrow> Inl Malformed
             | Some (x, t) \<Rightarrow> Inr (x, d\<lparr>dc_State := valueEnd (dc_State d), dc_Rest := t\<rparr>)))"
  by pat_completeness auto
termination
  by (relation "measure (\<lambda>d. length (dc_Rest d))") (auto dest: dropWhile_shorter)

declare Token.simps [simp del]

section \<open>What was quoted is read\<close>

lemma hexValue_digit: "n < 16 \<Longrightarrow> hexValue (hexDigit n) = Some n"
  by (auto simp: hexValue_def hexDigit_def byte_def Let_def)

lemma byte_less: "byte c < 256"
  using nat_of_char_less_256 [of c] by (simp add: byte_def)

lemma getu4_byte: "getu4 (CHR ''0'' # CHR ''0'' # hexByte c @ r) = Some (byte c, r)"
proof -
  have "byte c div 16 < 16" "byte c mod 16 < 16" using byte_less [of c] by simp_all
  moreover have "hexValue CHR ''0'' = Some 0" by (simp add: hexValue_def byte_def)
  ultimately show ?thesis by (simp add: hexByte_def Let_def hexValue_digit byte_def [symmetric])
qed

text \<open>A piece of the body of a string: it is scanned whole, and read as \<open>v\<close>.\<close>

definition piece :: "string \<Rightarrow> string \<Rightarrow> bool" where
  "piece u v \<longleftrightarrow> (\<forall>x. scanString (u @ x) = onto u (scanString x) \<and> unquote (u @ x) = v @ unquote x)"

lemma piece_simple:
  assumes "simpleEscape e = Some b"
  shows "piece [backslash, e] [b]"
  using assms by (auto simp: piece_def backslash_def quoteMark_def)

lemma piece_hex: "byte c < 128 \<Longrightarrow> piece ([backslash] @ ''u00'' @ hexByte c) [c]"
proof -
  assume c: "byte c < 128"
  have len: "length (hexByte c) = 2" by (simp add: hexByte_def Let_def)
  then obtain h l where hl: "hexByte c = [h, l]" by (auto simp: length_Suc_conv numeral_2_eq_2)
  note g = getu4_byte [of c, unfolded hl, simplified append.simps]
  have "simpleEscape CHR ''u'' = None" by (simp add: simpleEscape_def quoteMark_def backslash_def)
  moreover have "EncodeRune (byte c) = [c]" using c by (simp add: EncodeRune_def byte_def)
  ultimately show ?thesis using c unfolding hl
    by (auto simp: piece_def g backslash_def quoteMark_def simp del: getu4.simps)
qed

lemma piece_ascii: "byte c < 128 \<Longrightarrow> 32 \<le> byte c \<Longrightarrow> c \<noteq> backslash \<Longrightarrow> c \<noteq> quoteMark \<Longrightarrow> piece [c] [c]"
  by (simp add: piece_def)

lemma piece_escapeByte:
  assumes "byte c < 128"
  shows "piece (escapeByte c) [c]"
proof -
  consider "c \<in> {backslash, quoteMark}" | "c \<notin> {backslash, quoteMark}" "c = CHR 0x08" | "c = CHR 0x0C" | "c = CHR 0x0A"
    | "c = CHR 0x0D" | "c = CHR 0x09"
    | "c \<notin> {backslash, quoteMark, CHR 0x08, CHR 0x0C, CHR 0x0A, CHR 0x0D, CHR 0x09}" "byte c < 32 \<or> c \<in> {CHR ''<'', CHR ''>'', CHR ''&''}"
    | "c \<notin> {backslash, quoteMark, CHR 0x08, CHR 0x0C, CHR 0x0A, CHR 0x0D, CHR 0x09}" "\<not> (byte c < 32 \<or> c \<in> {CHR ''<'', CHR ''>'', CHR ''&''})"
    by blast
  then show ?thesis
  proof cases
    case 7
    then have "escapeByte c = [backslash] @ ''u00'' @ hexByte c" by (auto simp: escapeByte_def)
    with piece_hex [OF assms] show ?thesis by simp
  next
    case 8
    then have "escapeByte c = [c]" by (simp add: escapeByte_def)
    with 8 assms show ?thesis by (simp add: piece_ascii)
  qed (auto simp: escapeByte_def simpleEscape_def backslash_def quoteMark_def intro!: piece_simple [unfolded backslash_def])
qed

lemma runeTail_high: "runeTail c r = Some n \<Longrightarrow> 128 \<le> byte c \<and> n \<le> length r \<and> (\<forall>b \<in> set (take n r). 128 \<le> byte b)"
  by (auto simp: runeTail_def second_ok_def continues_def split: if_splits list.splits)

lemma runeTail_take: "runeTail c r = Some n \<Longrightarrow> runeTail c (take n r @ x) = Some n"
  by (auto simp: runeTail_def split: if_splits list.splits)

lemma scan_high:
  "\<forall>b \<in> set w. 128 \<le> byte b \<Longrightarrow> scanString (w @ x) = onto w (scanString x)"
proof (induction w)
  case (Cons b w)
  then have "128 \<le> byte b" "b \<noteq> quoteMark" "b \<noteq> backslash" by (auto simp: quoteMark_def backslash_def byte_def)
  with Cons show ?case by (simp add:)
qed simp

lemma piece_rune:
  assumes "runeTail c r = Some n"
  shows "piece (c # take n r) (c # take n r)"
proof -
  note high = runeTail_high [OF assms]
  have "scanString ((c # take n r) @ x) = onto (c # take n r) (scanString x)" for x
    by (rule scan_high) (use high in auto)
  moreover have "c \<noteq> backslash" using high by (auto simp: backslash_def byte_def)
  then have "unquote ((c # take n r) @ x) = (c # take n r) @ unquote x" for x
    using runeTail_take [OF assms, of x] high by simp
  ultimately show ?thesis unfolding piece_def by blast
qed

lemma piece_u: "getu4 h = Some (n, []) \<Longrightarrow> length h = 4 \<Longrightarrow> \<not> (55296 \<le> n \<and> n < 57344)
    \<Longrightarrow> piece (backslash # CHR ''u'' # h) (EncodeRune n)"
proof -
  assume h: "getu4 h = Some (n, [])" "length h = 4" "\<not> (55296 \<le> n \<and> n < 57344)"
  obtain p q r s where "h = [p, q, r, s]" using h(2) by (auto simp: length_Suc_conv numeral_eq_Suc)
  with h(1) have "getu4 (h @ x) = Some (n, x)" for x by (auto split: option.splits)
  moreover have "simpleEscape CHR ''u'' = None" by (simp add: simpleEscape_def quoteMark_def backslash_def)
  ultimately show ?thesis using h(2,3)
    by (auto simp: piece_def backslash_def quoteMark_def)
qed

lemma char_number: "char_of n = c \<longleftrightarrow> n mod 256 = byte c" for n :: nat
  by (metis byte_def char_of_char of_char_of)

lemma piece_escapeRune: "runeTail c r = Some n \<Longrightarrow> piece (escapeRune (c # take n r)) (c # take n r)"
proof -
  assume r: "runeTail c r = Some n"
  have "piece (backslash # CHR ''u'' # ''2028'') (EncodeRune 8232)" "piece (backslash # CHR ''u'' # ''2029'') (EncodeRune 8233)"
    by (rule piece_u; simp add: hexValue_def byte_def)+
  moreover have "EncodeRune 8232 = [CHR 0xE2, CHR 0x80, CHR 0xA8]" "EncodeRune 8233 = [CHR 0xE2, CHR 0x80, CHR 0xA9]"
    by (simp_all add: EncodeRune_def char_number byte_def)
  ultimately show ?thesis using piece_rune [OF r] by (auto simp: escapeRune_def)
qed

lemma piece_replaced: "piece ([backslash] @ ''ufffd'') replacementRune"
proof -
  have "piece (backslash # CHR ''u'' # ''fffd'') (EncodeRune 65533)" by (rule piece_u) (simp_all add: hexValue_def byte_def)
  moreover have "EncodeRune 65533 = replacementRune"
    by (simp add: EncodeRune_def replacementRune_def char_number byte_def)
  ultimately show ?thesis by simp
qed

lemma piece_append: "piece u v \<Longrightarrow> piece u' v' \<Longrightarrow> piece (u @ u') (v @ v')"
  unfolding piece_def by (simp add:)

lemma piece_body: "piece (quoteBody s) (validText s)"
proof (induction s rule: quoteBody.induct)
  case 1
  show ?case by (simp add: piece_def)
next
  case (2 c r)
  show ?case
  proof (cases "byte c < 128")
    case True
    with piece_append [OF piece_escapeByte [OF True] 2(1) [OF True]] show ?thesis by simp
  next
    case high: False
    show ?thesis
    proof (cases "runeTail c r")
      case None
      with piece_append [OF piece_replaced 2(2) [OF high None]] high show ?thesis by (simp add: replacementRune_def)
    next
      case (Some n)
      with piece_append [OF piece_escapeRune [OF Some] 2(3) [OF high Some]] high show ?thesis by simp
    qed
  qed
qed

text \<open>A quoted string is read as the text it was, but for the bytes that were not of a character.\<close>

theorem quoted_string_roundtrip:
  "scanString (quoteBody s @ quoteMark # t) = Some (quoteBody s, t) \<and> unquote (quoteBody s) = validText s"
proof -
  have "scanString (quoteBody s @ quoteMark # t) = Some (quoteBody s, t)"
    using piece_body [of s] unfolding piece_def by (auto dest: spec [of _ "quoteMark # t"])
  moreover have "unquote (quoteBody s) = validText s"
    using piece_body [of s] unfolding piece_def by (auto dest: spec [of _ "[]"])
  ultimately show ?thesis ..
qed

section \<open>What was printed is read, token by token\<close>

lemma decimal_digit: "c \<in> set (decimal n) \<Longrightarrow> isDigit c"
  using set_decimal [of c n] by (auto simp: isDigit_def byte_def)

lemma decimal_value: "digitsValue (decimal n) = int n"
proof (induction n rule: decimal.induct)
  case (1 n)
  have d: "digitValue (char_of (48 + n mod 10)) = int (n mod 10)" by (simp add: digitValue_def)
  show ?case
  proof (cases "n < 10")
    case True
    then show ?thesis by (simp add: decimal.simps [of n] digitsValue_def digitValue_def)
  next
    case False
    with 1 have "digitsValue (decimal n) = 10 * int (n div 10) + int (n mod 10)"
      by (simp add: decimal.simps [of n] digitsValue_def d)
    also have "\<dots> = int (10 * (n div 10) + n mod 10)" by (simp only: of_nat_add of_nat_mult of_nat_numeral)
    finally show ?thesis by simp
  qed
qed

lemma decimal_nonempty: "decimal n \<noteq> []"
  by (simp add: decimal.simps [of n])

lemma decimal_lead: "0 < n \<Longrightarrow> hd (decimal n) \<noteq> CHR ''0''"
proof (induction n rule: decimal.induct)
  case (1 n)
  show ?case
  proof (cases "n < 10")
    case True
    with 1(2) show ?thesis by (simp add: decimal.simps [of n] char_number byte_def)
  next
    case False
    with 1 show ?thesis by (simp add: decimal.simps [of n] decimal_nonempty)
  qed
qed

lemma decimal_zero: "decimal 0 = ''0''"
  by (simp add: decimal.simps [of 0] char_number byte_def)

text \<open>What may follow a number.\<close>

definition endsNumber :: "string \<Rightarrow> bool" where
  "endsNumber s \<longleftrightarrow> (case s of [] \<Rightarrow> True | c # _ \<Rightarrow> \<not> isDigit c \<and> c \<noteq> CHR ''.'' \<and> c \<noteq> CHR ''e'' \<and> c \<noteq> CHR ''E'')"

lemma scanNumber_digits:
  assumes "ds \<noteq> []" "\<forall>c \<in> set ds. isDigit c" "hd ds = CHR ''0'' \<Longrightarrow> ds = ''0''" "endsNumber s" "floatFits (digitsValue ds) 0"
  shows "scanNumber (ds @ s) = Some s" "scanNumber (CHR ''-'' # ds @ s) = Some s"
proof -
  obtain d r where ds: "ds = d # r" using assms(1) by (cases ds) auto
  have stop: "takeWhile isDigit s = []" "dropWhile isDigit s = s" "fractionPart s = Some ([], s)" "exponentPart s = Some (0, s)"
    using assms(4) by (auto simp: endsNumber_def fractionPart_def exponentPart_def split: list.splits)
  have tk: "takeWhile isDigit (ds @ s) = ds" "dropWhile isDigit (ds @ s) = s"
    using assms(2) stop(1,2) by (simp_all add: takeWhile_append dropWhile_append)
  have d: "isDigit d" "d \<noteq> CHR ''-''" using assms(2) ds by (auto simp: isDigit_def)
  show "scanNumber (ds @ s) = Some s" "scanNumber (CHR ''-'' # ds @ s) = Some s"
    using d stop(3,4) assms(3,5) tk unfolding ds by (auto simp: scanNumber_def Let_def)
qed

lemma scanNumber_Itoa: "floatFits \<bar>i\<bar> 0 \<Longrightarrow> endsNumber s \<Longrightarrow> scanNumber (Itoa i @ s) = Some s"
proof -
  assume fits: "floatFits \<bar>i\<bar> 0" and s: "endsNumber s"
  let ?n = "nat \<bar>i\<bar>"
  have n: "digitsValue (decimal ?n) = \<bar>i\<bar>" by (simp add: decimal_value)
  have lead: "hd (decimal ?n) = CHR ''0'' \<Longrightarrow> decimal ?n = ''0''"
    using decimal_lead [of ?n] decimal_zero by (cases "?n = 0") auto
  note sc = scanNumber_digits [OF decimal_nonempty _ lead s, unfolded n, OF _ _ fits]
  show ?thesis using sc decimal_digit by (cases "i < 0") (auto simp: Itoa_def)
qed

text \<open>A number of 64 bits fits.\<close>

lemma int64_fits: "int64 i \<Longrightarrow> floatFits \<bar>i\<bar> 0"
  by (auto simp: int64_def floatFits_def abs_if)

end
