(* ===== verification/Seal_Bytes.thy ===== *)
theory Seal_Bytes
  imports Json_Tokens
begin

text \<open>
  The check of a seal on the stored bytes alone (\<open>internal/adapters/recordseal\<close>: \<open>recordseal.go\<close>,
  \<open>filed.go\<close>): the content hash of the outermost object is found by reading tokens, it is blanked in place, and
  the rest of the text stays as it was written.  SHA-256 is the parameter \<open>H\<close>.  The texts of errors are not modelled.
\<close>

section \<open>Values passed over\<close>

lemma openAs_shorter: "openAs s c d r = Inr (t, d') \<Longrightarrow> dc_Rest d' = r"
  by (auto simp: openAs_def split: if_splits)

lemma closeAs_shorter: "closeAs s u c d r = Inr (t, d') \<Longrightarrow> dc_Rest d' = r"
  by (auto simp: closeAs_def split: if_splits list.splits)

lemma scanString_shorter: "scanString s = Some (b, t) \<Longrightarrow> length t < length s"
proof (induction s arbitrary: b t rule: scanString.induct)
  case (2 c r)
  have o: "onto u f = Some (b, t) \<Longrightarrow> \<exists>b'. f = Some (b', t)" for u f b t by (auto simp: onto_def split: option.splits)
  from 2 show ?case
    by (auto split: if_splits list.splits dest!: o) (force | fastforce dest: less_le_trans [OF _ length_drop [THEN eq_imp_le]])+
qed simp

lemma scanNumber_shorter: "scanNumber (c # r) = Some t \<Longrightarrow> length t \<le> length r"
proof -
  assume a: "scanNumber (c # r) = Some t"
  have f: "fractionPart s = Some (x, u) \<Longrightarrow> length u \<le> length s" for s x u
    by (auto simp: fractionPart_def split: list.splits if_splits intro: le_SucI length_dropWhile_le)
  have e: "exponentPart s = Some (x, u) \<Longrightarrow> length u \<le> length s" for s x u
  proof (cases s)
    case (Cons p q)
    moreover assume "exponentPart s = Some (x, u)"
    ultimately show ?thesis using length_dropWhile_le [of isDigit q] length_dropWhile_le [of isDigit "tl q"]
      by (auto simp: exponentPart_def Let_def split: if_splits)
  qed (simp add: exponentPart_def)
  define s1 where "s1 = (if c = CHR ''-'' then r else c # r)"
  obtain d q where dq: "s1 = d # q" "isDigit d" using a by (auto simp: scanNumber_def s1_def Let_def split: list.splits if_splits)
  define s2 where "s2 = (if d = CHR ''0'' then q else dropWhile isDigit s1)"
  obtain x s3 y where "fractionPart s2 = Some (x, s3)" "exponentPart s3 = Some (y, t)"
    using a dq unfolding s2_def s1_def by (auto simp: scanNumber_def Let_def split: list.splits if_splits bind_splits)
  then have "length t \<le> length s2" using f e by (meson le_trans)
  also have "length s2 \<le> length q" using dq length_dropWhile_le [of isDigit q] by (auto simp: s2_def)
  also have "length q \<le> length r" using dq(1) by (auto simp: s1_def split: if_splits)
  finally show ?thesis .
qed

lemma scanScalar_shorter: "scanScalar c r = Some (t, u) \<Longrightarrow> length u \<le> length r"
  by (auto simp: scanScalar_def split: if_splits dest: scanString_shorter scanNumber_shorter)

text \<open>A token is at least one byte.\<close>

lemma Token_shorter: "Token d = Inr (t, d') \<Longrightarrow> length (dc_Rest d') < length (dc_Rest d)"
proof (induction d rule: Token.induct)
  case (1 d)
  show ?case
  proof (cases "dropWhile isJSONSpace (dc_Rest d)")
    case Nil
    with 1(4) show ?thesis by (simp add: Token.simps [of d])
  next
    case (Cons c r)
    note sh = dropWhile_shorter [OF Cons]
    note IH = 1(1-3) [OF Cons]
    from 1(4) show ?thesis using sh IH unfolding Token.simps [of d] Cons list.case
      by (auto split: if_splits option.splits dest: openAs_shorter closeAs_shorter scanString_shorter scanScalar_shorter
          intro: less_trans)
  qed
qed

function skipLoop :: "nat \<Rightarrow> decoder \<Rightarrow> token_error + decoder" where
  "skipLoop 0 d = Inr d"
| "skipLoop (Suc depth) d =
     (case Token d of
        Inl e \<Rightarrow> Inl e
      | Inr (Delim c, d') \<Rightarrow> if c = CHR ''{'' \<or> c = CHR ''['' then skipLoop (Suc (Suc depth)) d' else skipLoop depth d'
      | Inr (Str x, d') \<Rightarrow> skipLoop (Suc depth) d'
      | Inr (Scalar, d') \<Rightarrow> skipLoop (Suc depth) d')"
  by pat_completeness auto
termination by (relation "measure (\<lambda>(n, d). length (dc_Rest d))") (auto dest: Token_shorter)

definition skipValue :: "decoder \<Rightarrow> token_error + decoder" where
  "skipValue d =
     (case Token d of
        Inl e \<Rightarrow> Inl e
      | Inr (Delim c, d') \<Rightarrow> if c = CHR ''{'' \<or> c = CHR ''['' then skipLoop 1 d' else Inr d'
      | Inr (_, d') \<Rightarrow> Inr d')"

lemma skipLoop_shorter: "skipLoop n d = Inr d' \<Longrightarrow> length (dc_Rest d') \<le> length (dc_Rest d)"
proof (induction n d rule: skipLoop.induct)
  case (2 depth d)
  obtain t d1 where t: "Token d = Inr (t, d1)" using 2(5) by (auto split: sum.splits)
  have "length (dc_Rest d') \<le> length (dc_Rest d1)"
  proof (cases t)
    case (Delim c)
    with t 2(1) [OF t refl Delim] 2(2) [OF t refl Delim] 2(5) show ?thesis by (auto split: if_splits)
  next
    case (Str x)
    with t 2(3) [OF t refl Str] 2(5) show ?thesis by simp
  next
    case Scalar
    with t 2(4) [OF t refl Scalar] 2(5) show ?thesis by simp
  qed
  with Token_shorter [OF t] show ?case by simp
qed simp

lemma skipValue_shorter: "skipValue d = Inr d' \<Longrightarrow> length (dc_Rest d') < length (dc_Rest d)"
proof -
  assume a: "skipValue d = Inr d'"
  then obtain t d1 where t: "Token d = Inr (t, d1)" by (auto simp: skipValue_def split: sum.splits)
  with a have "d' = d1 \<or> skipLoop 1 d1 = Inr d'" by (auto simp: skipValue_def split: token.splits if_splits)
  with Token_shorter [OF t] skipLoop_shorter [of 1 d1 d'] show ?thesis by auto
qed

section \<open>The content hash in its place\<close>

datatype splice_error =
    UnreadableJSON token_error
  | NotAnObject
  | NoContentHash
  | UnexpectedToken
  | NoStringValue

definition contentHashKey :: string where "contentHashKey = ''content_hash''"

text \<open>How far a reader of \<open>raw\<close> has come, and the first quotation mark from a place on.\<close>

definition InputOffset :: "string \<Rightarrow> decoder \<Rightarrow> nat" where
  "InputOffset raw d = length raw - length (dc_Rest d)"

definition quoteFrom :: "string \<Rightarrow> nat \<Rightarrow> nat option" where
  "quoteFrom raw n = (if quoteMark \<in> set (drop n raw) then Some (n + length (takeWhile (\<lambda>c. c \<noteq> quoteMark) (drop n raw))) else None)"

definition replaceContentHashValue :: "decoder \<Rightarrow> string \<Rightarrow> nat \<Rightarrow> string \<Rightarrow> splice_error + string \<times> string" where
  "replaceContentHashValue d raw afterKey val =
     (case quoteFrom raw afterKey of
        None \<Rightarrow> Inl NoStringValue
      | Some start \<Rightarrow>
          (case Token d of
             Inl e \<Rightarrow> Inl (UnreadableJSON e)
           | Inr (Str old, d') \<Rightarrow> Inr (take start raw @ quote val @ drop (InputOffset raw d') raw, old)
           | Inr _ \<Rightarrow> Inl NoStringValue))"

function spliceLoop :: "string \<Rightarrow> string \<Rightarrow> decoder \<Rightarrow> splice_error + string \<times> string" where
  "spliceLoop raw val d =
     (case Token d of
        Inl e \<Rightarrow> Inl (if e = EndOfInput then NoContentHash else UnreadableJSON e)
      | Inr (Delim c, d') \<Rightarrow> Inl (if c = CHR ''}'' then NoContentHash else UnexpectedToken)
      | Inr (Scalar, d') \<Rightarrow> Inl UnexpectedToken
      | Inr (Str key, d') \<Rightarrow>
          if key \<noteq> contentHashKey then
            (case skipValue d' of
               Inl e \<Rightarrow> Inl (UnreadableJSON e)
             | Inr d'' \<Rightarrow> spliceLoop raw val d'')
          else replaceContentHashValue d' raw (InputOffset raw d') val)"
  by pat_completeness auto
termination
  by (relation "measure (\<lambda>(raw, val, d). length (dc_Rest d))") (auto dest!: Token_shorter skipValue_shorter)

declare spliceLoop.simps [simp del]

definition NewDecoder :: "string \<Rightarrow> decoder" where
  "NewDecoder raw = \<lparr>dc_State = TopValue, dc_Stack = [], dc_Rest = raw\<rparr>"

text \<open>The reader inside the outermost object.\<close>

definition openObject :: "string \<Rightarrow> splice_error + decoder" where
  "openObject raw =
     (case Token (NewDecoder raw) of
        Inl e \<Rightarrow> Inl (UnreadableJSON e)
      | Inr (Delim c, d) \<Rightarrow> if c = CHR ''{'' then Inr d else Inl NotAnObject
      | Inr _ \<Rightarrow> Inl NotAnObject)"

definition spliceTopLevelContentHash :: "string \<Rightarrow> string \<Rightarrow> splice_error + string \<times> string" where
  "spliceTopLevelContentHash raw val =
     (case openObject raw of
        Inl e \<Rightarrow> Inl e
      | Inr d \<Rightarrow> spliceLoop raw val d)"

definition ReplaceTopLevelContentHash :: "string \<Rightarrow> string \<Rightarrow> splice_error + string \<times> string" where
  "ReplaceTopLevelContentHash raw val = spliceTopLevelContentHash raw val"

definition splitTopLevelContentHash :: "string \<Rightarrow> splice_error + string \<times> string" where
  "splitTopLevelContentHash raw = spliceTopLevelContentHash raw []"

section \<open>A member taken out\<close>

text \<open>The first place from \<open>i\<close> on, and the last up to \<open>i\<close>, that white space does not reach.\<close>

definition skipSpaceForward :: "string \<Rightarrow> nat \<Rightarrow> nat" where
  "skipSpaceForward raw i = i + length (takeWhile isJSONSpace (drop i raw))"

definition skipSpaceBackward :: "string \<Rightarrow> nat \<Rightarrow> nat" where
  "skipSpaceBackward raw i = i - length (takeWhile isJSONSpace (rev (take i raw)))"

definition spliceOutMember :: "string \<Rightarrow> nat \<Rightarrow> nat \<Rightarrow> string" where
  "spliceOutMember raw start stop =
     (let after = skipSpaceForward raw stop; before = skipSpaceBackward raw start in
      if after < length raw \<and> raw ! after = CHR '','' then take start raw @ drop (after + 1) raw
      else if 0 < before \<and> raw ! (before - 1) = CHR '','' then take (before - 1) raw @ drop stop raw
      else take start raw @ drop stop raw)"

function deleteLoop :: "string \<Rightarrow> string \<Rightarrow> nat \<Rightarrow> decoder \<Rightarrow> splice_error + string" where
  "deleteLoop raw key prevEnd d =
     (case Token d of
        Inl e \<Rightarrow> if e = EndOfInput then Inr raw else Inl (UnreadableJSON e)
      | Inr (Delim c, d') \<Rightarrow> if c = CHR ''}'' then Inr raw else Inl UnexpectedToken
      | Inr (Scalar, d') \<Rightarrow> Inl UnexpectedToken
      | Inr (Str name, d') \<Rightarrow>
          (case quoteFrom raw prevEnd of
             None \<Rightarrow> Inl NoStringValue
           | Some start \<Rightarrow>
               (case skipValue d' of
                  Inl e \<Rightarrow> Inl (UnreadableJSON e)
                | Inr d'' \<Rightarrow>
                    if name = key then Inr (spliceOutMember raw start (InputOffset raw d''))
                    else deleteLoop raw key (InputOffset raw d'') d'')))"
  by pat_completeness auto
termination
  by (relation "measure (\<lambda>(raw, key, prevEnd, d). length (dc_Rest d))") (auto dest!: Token_shorter skipValue_shorter)

declare deleteLoop.simps [simp del]

definition deleteTopLevelMember :: "string \<Rightarrow> string \<Rightarrow> splice_error + string" where
  "deleteTopLevelMember raw key =
     (case openObject raw of
        Inl e \<Rightarrow> Inl e
      | Inr d \<Rightarrow> deleteLoop raw key (InputOffset raw d) d)"

section \<open>The checks\<close>

text \<open>The fields a ledger leaves out of its seal beside the hash itself.\<close>

type_synonym Exclusions = "string list"

fun deleteMembers :: "Exclusions \<Rightarrow> string \<Rightarrow> splice_error + string" where
  "deleteMembers [] raw = Inr raw"
| "deleteMembers (f # fs) raw = (case deleteTopLevelMember raw f of Inl e \<Rightarrow> Inl e | Inr out \<Rightarrow> deleteMembers fs out)"

definition sealedBytes :: "Exclusions \<Rightarrow> string \<Rightarrow> splice_error + string \<times> string" where
  "sealedBytes x raw =
     (case splitTopLevelContentHash raw of
        Inl e \<Rightarrow> Inl e
      | Inr (sealed, embedded) \<Rightarrow>
          (case deleteMembers x sealed of Inl e \<Rightarrow> Inl e | Inr out \<Rightarrow> Inr (out, embedded)))"

definition isDigest :: "string \<Rightarrow> string \<Rightarrow> bool" where
  "isDigest stated digest \<longleftrightarrow> stated = ''sha256:'' @ digest \<or> stated = digest"

definition SelfConsistent :: "(string \<Rightarrow> string) \<Rightarrow> Exclusions \<Rightarrow> string \<Rightarrow> string \<Rightarrow> splice_error + bool" where
  "SelfConsistent H x raw storedHash =
     (if storedHash = [] then Inr False
      else case sealedBytes x raw of
          Inl e \<Rightarrow> Inl e
        | Inr (sealed, _) \<Rightarrow> Inr (isDigest storedHash (EncodeToString (H sealed))))"

datatype blob_error =
    UnverifiableBlob splice_error
  | BlobMismatch string string
  | StoredMismatch string string
  | NotationMismatch string string

definition VerifyBlob :: "(string \<Rightarrow> string) \<Rightarrow> Exclusions \<Rightarrow> string \<Rightarrow> string \<Rightarrow> blob_error option" where
  "VerifyBlob H x raw storedHash =
     (case sealedBytes x raw of
        Inl e \<Rightarrow> Some (UnverifiableBlob e)
      | Inr (sealed, embedded) \<Rightarrow>
          (let digest = EncodeToString (H sealed); expected = ''sha256:'' @ digest in
           if \<not> isDigest embedded digest then Some (BlobMismatch embedded expected)
           else if \<not> isDigest storedHash digest then Some (StoredMismatch storedHash expected)
           else if embedded \<noteq> storedHash then Some (NotationMismatch embedded storedHash)
           else None))"

text \<open>A failed check is the drift of a canonical shape where the bytes hash to their own seal.\<close>

datatype 'e classified = Drift 'e | Altered 'e

definition Classify ::
  "(string \<Rightarrow> string) \<Rightarrow> Exclusions \<Rightarrow> string \<Rightarrow> string \<Rightarrow> 'e option \<Rightarrow> 'e classified option" where
  "Classify H x raw storedHash verifyErr =
     (case verifyErr of
        None \<Rightarrow> None
      | Some err \<Rightarrow> Some (if SelfConsistent H x raw storedHash = Inr True then Drift err else Altered err))"

section \<open>A record under the wrong key\<close>

record Filed =
  fl_Column :: string
  fl_Field :: string
  fl_Filed :: string
  fl_Sealed :: string

definition filed_Key :: "string \<Rightarrow> string \<Rightarrow> Filed" where
  "filed_Key filed sealed = \<lparr>fl_Column = [], fl_Field = [], fl_Filed = filed, fl_Sealed = sealed\<rparr>"

definition filed_Column :: "string \<Rightarrow> string \<Rightarrow> string \<Rightarrow> string \<Rightarrow> Filed" where
  "filed_Column column name filed sealed = \<lparr>fl_Column = column, fl_Field = name, fl_Filed = filed, fl_Sealed = sealed\<rparr>"

record Misfiled =
  mf_Kind :: string
  mf_Table :: string
  mf_Store :: string
  mf_Value :: Filed
  mf_Remedy :: string

text \<open>Where the store is, the running process says.\<close>

definition CheckFiled :: "string \<Rightarrow> string \<Rightarrow> string \<Rightarrow> string \<Rightarrow> Filed list \<Rightarrow> Misfiled option" where
  "CheckFiled store kind table remedy vals = map_option (\<lambda>v. \<lparr>mf_Kind = kind, mf_Table = table, mf_Store = store, mf_Value = v,
     mf_Remedy = remedy\<rparr>) (find (\<lambda>v. fl_Filed v \<noteq> fl_Sealed v) vals)"

end
