(* ===== verification/Seal_Verify.thy ===== *)
theory Seal_Verify
  imports Seal_Bytes "HOL-Library.AList"
begin

text \<open>
  What the byte checks of Seal_Bytes find in the text of a record: they reach the content hash of the outermost
  object, whatever the values hold, so blanking it gives the text that was sealed.
\<close>

section \<open>The tokens of a printed value\<close>

abbreviation reader :: "tokState \<Rightarrow> tokState list \<Rightarrow> string \<Rightarrow> decoder" where
  "reader s k r \<equiv> \<lparr>dc_State = s, dc_Stack = k, dc_Rest = r\<rparr>"

named_theorems tokens \<open>what the reader finds next\<close>

lemma token_open [tokens]:
  "valueAllowed s \<Longrightarrow> Token (reader s k (CHR ''['' # r)) = Inr (Delim CHR ''['', reader ArrayStart (s # k) r)"
  "valueAllowed s \<Longrightarrow> Token (reader s k (CHR ''{'' # r)) = Inr (Delim CHR ''{'', reader ObjectStart (s # k) r)"
  by (simp_all add: Token.simps isJSONSpace_def openAs_def)

lemma token_close [tokens]:
  "s = ArrayStart \<or> s = ArrayComma \<Longrightarrow> Token (reader s (p # k) (CHR '']'' # r)) = Inr (Delim CHR '']'', reader (valueEnd p) k r)"
  "s = ObjectStart \<or> s = ObjectComma \<Longrightarrow> Token (reader s (p # k) (CHR ''}'' # r)) = Inr (Delim CHR ''}'', reader (valueEnd p) k r)"
  by (auto simp: Token.simps isJSONSpace_def closeAs_def)

lemma token_separator [tokens]:
  "Token (reader ArrayComma k (CHR '','' # r)) = Token (reader ArrayValue k r)"
  "Token (reader ObjectComma k (CHR '','' # r)) = Token (reader ObjectKey k r)"
  "Token (reader ObjectColon k (CHR '':'' # r)) = Token (reader ObjectValue k r)"
  by (simp_all add: Token.simps [of "reader _ _ (_ # _)"] isJSONSpace_def)

lemma token_key [tokens]:
  "s = ObjectStart \<or> s = ObjectKey \<Longrightarrow> Token (reader s k (quote x @ r)) = Inr (Str (validText x), reader ObjectColon k r)"
  using quoted_string_roundtrip [of x r] by (auto simp: Token.simps isJSONSpace_def quote_def quoteMark_def)

lemma token_string [tokens]:
  "valueAllowed s \<Longrightarrow> Token (reader s k (quote x @ r)) = Inr (Str (validText x), reader (valueEnd s) k r)"
  using quoted_string_roundtrip [of x r]
  by (auto simp: Token.simps isJSONSpace_def quote_def quoteMark_def valueAllowed_def scanScalar_def)

lemma token_literal [tokens]:
  "valueAllowed s \<Longrightarrow> Token (reader s k (''null'' @ r)) = Inr (Scalar, reader (valueEnd s) k r)"
  "valueAllowed s \<Longrightarrow> Token (reader s k (''true'' @ r)) = Inr (Scalar, reader (valueEnd s) k r)"
  "valueAllowed s \<Longrightarrow> Token (reader s k (''false'' @ r)) = Inr (Scalar, reader (valueEnd s) k r)"
  by (simp_all add: Token.simps isJSONSpace_def scanScalar_def quoteMark_def)

lemma Itoa_head: "\<exists>c r. Itoa i = c # r \<and> (c = CHR ''-'' \<or> isDigit c)"
proof -
  obtain c r where "decimal (nat i) = c # r" using decimal_nonempty [of "nat i"] by (cases "decimal (nat i)") auto
  then show ?thesis using decimal_digit [of _ "nat i"] by (auto simp: Itoa_def)
qed

lemma token_number [tokens]:
  assumes "valueAllowed s" "floatFits \<bar>i\<bar> 0" "endsNumber r"
  shows "Token (reader s k (Itoa i @ r)) = Inr (Scalar, reader (valueEnd s) k r)"
proof -
  obtain c t where c: "Itoa i = c # t" "c = CHR ''-'' \<or> isDigit c" using Itoa_head by blast
  then have "c \<notin> set ''[]{}:,tfn'' \<and> c \<noteq> quoteMark \<and> \<not> isJSONSpace c"
    by (auto simp: isDigit_def quoteMark_def isJSONSpace_def)
  moreover have "scanNumber (c # t @ r) = Some r" using scanNumber_Itoa [OF assms(2,3)] c(1) by simp
  ultimately show ?thesis using assms(1) unfolding c(1) by (simp add: Token.simps scanScalar_def)
qed

section \<open>A printed value is passed over\<close>

text \<open>Every number of a value fits a \<open>float64\<close>.\<close>

fun numbersFit :: "json \<Rightarrow> bool" where
  "numbersFit (JInt i) = floatFits \<bar>i\<bar> 0"
| "numbersFit (JArr js) = list_all numbersFit js"
| "numbersFit (JObj fs) = list_all (\<lambda>(k, v). numbersFit v) fs"
| "numbersFit _ = True"

lemma skip_same: "Token d = Token e \<Longrightarrow> skipLoop (Suc n) d = skipLoop (Suc n) e"
  by simp

lemma Join_more: "Join (x # xs) sep = x @ concat (map (\<lambda>y. sep @ y) xs)"
  by (induction xs arbitrary: x) auto

definition passes :: "json \<Rightarrow> bool" where
  "passes v \<longleftrightarrow> (\<forall>s k r n. valueAllowed s \<longrightarrow> endsNumber r
     \<longrightarrow> skipLoop (Suc n) (reader s k (print v @ r)) = skipLoop (Suc n) (reader (valueEnd s) k r))"

lemma passesD: "passes v \<Longrightarrow> valueAllowed s \<Longrightarrow> endsNumber r
    \<Longrightarrow> skipLoop (Suc n) (reader s k (print v @ r)) = skipLoop (Suc n) (reader (valueEnd s) k r)"
  unfolding passes_def by blast

lemma ends_with [simp]: "endsNumber (CHR '','' # r)" "endsNumber (CHR '']'' # r)" "endsNumber (CHR ''}'' # r)"
  by (simp_all add: endsNumber_def isDigit_def)

lemma ends_list: "endsNumber (concat (map (\<lambda>y. '','' @ f y) xs) @ CHR '']'' # r)"
  "endsNumber (concat (map (\<lambda>y. '','' @ f y) xs) @ CHR ''}'' # r)"
  by (cases xs; simp)+

lemma array_rest:
  "\<forall>j \<in> set js. passes j \<Longrightarrow>
    skipLoop (Suc n) (reader ArrayComma (s # k) (concat (map (\<lambda>j. '','' @ print j) js) @ CHR '']'' # r)) = skipLoop n (reader (valueEnd s) k r)"
proof (induction js)
  case Nil
  show ?case by (simp add: tokens)
next
  case (Cons j js)
  let ?r = "concat (map (\<lambda>j. '','' @ print j) js) @ CHR '']'' # r"
  have "skipLoop (Suc n) (reader ArrayComma (s # k) (CHR '','' # print j @ ?r)) = skipLoop (Suc n) (reader ArrayValue (s # k) (print j @ ?r))"
    by (rule skip_same) (rule tokens)
  also have "\<dots> = skipLoop (Suc n) (reader (valueEnd ArrayValue) (s # k) ?r)"
    by (rule passesD) (use Cons.prems ends_list in \<open>auto simp: valueAllowed_def\<close>)
  finally show ?case using Cons by (simp add: valueEnd_def)
qed

lemma array_inside:
  assumes "\<forall>j \<in> set js. passes j"
  shows "skipLoop (Suc n) (reader ArrayStart (s # k) (Join (printAll js) '','' @ CHR '']'' # r)) = skipLoop n (reader (valueEnd s) k r)"
proof (cases js)
  case Nil
  then show ?thesis by (simp add: tokens)
next
  case (Cons j xs)
  let ?r = "concat (map (\<lambda>j. '','' @ print j) xs) @ CHR '']'' # r"
  have "Join (printAll js) '','' @ CHR '']'' # r = print j @ ?r"
    by (simp add: Cons printAll_map Join_more comp_def del: Join.simps)
  moreover have "skipLoop (Suc n) (reader ArrayStart (s # k) (print j @ ?r)) = skipLoop (Suc n) (reader (valueEnd ArrayStart) (s # k) ?r)"
    by (rule passesD) (use assms Cons ends_list in \<open>auto simp: valueAllowed_def\<close>)
  ultimately show ?thesis using array_rest [of xs n s k r] assms Cons by (simp add: valueEnd_def)
qed

text \<open>A member is a name, a colon and a value.\<close>

definition member :: "string \<times> json \<Rightarrow> string" where
  "member m = quote (fst m) @ CHR '':'' # print (snd m)"

lemma printFields_member: "printFields fs = map member fs"
  by (simp add: printFields_map member_def case_prod_beta)

lemma member_inside:
  assumes "passes v" "s = ObjectStart \<or> s = ObjectKey" "endsNumber r"
  shows "skipLoop (Suc n) (reader s k (member (x, v) @ r)) = skipLoop (Suc n) (reader ObjectComma k r)"
proof -
  have "skipLoop (Suc n) (reader s k (member (x, v) @ r)) = skipLoop (Suc n) (reader ObjectColon k (CHR '':'' # print v @ r))"
    using assms(2) by (simp add: member_def tokens)
  also have "\<dots> = skipLoop (Suc n) (reader ObjectValue k (print v @ r))" by (rule skip_same) (rule tokens)
  also have "\<dots> = skipLoop (Suc n) (reader (valueEnd ObjectValue) k r)"
    by (rule passesD) (use assms in \<open>simp_all add: valueAllowed_def\<close>)
  finally show ?thesis by (simp add: valueEnd_def)
qed

lemma object_rest:
  "\<forall>(x, v) \<in> set fs. passes v \<Longrightarrow>
    skipLoop (Suc n) (reader ObjectComma (s # k) (concat (map (\<lambda>m. '','' @ member m) fs) @ CHR ''}'' # r)) = skipLoop n (reader (valueEnd s) k r)"
proof (induction fs)
  case Nil
  show ?case by (simp add: tokens)
next
  case (Cons m fs)
  obtain x v where m: "m = (x, v)" by (cases m)
  let ?r = "concat (map (\<lambda>m. '','' @ member m) fs) @ CHR ''}'' # r"
  have "skipLoop (Suc n) (reader ObjectComma (s # k) (CHR '','' # member m @ ?r)) = skipLoop (Suc n) (reader ObjectKey (s # k) (member m @ ?r))"
    by (rule skip_same) (rule tokens)
  also have "\<dots> = skipLoop (Suc n) (reader ObjectComma (s # k) ?r)"
    unfolding m by (rule member_inside) (use Cons.prems m ends_list in auto)
  finally show ?case using Cons by simp
qed

lemma object_inside:
  assumes "\<forall>(x, v) \<in> set fs. passes v"
  shows "skipLoop (Suc n) (reader ObjectStart (s # k) (Join (printFields fs) '','' @ CHR ''}'' # r)) = skipLoop n (reader (valueEnd s) k r)"
proof (cases fs)
  case Nil
  then show ?thesis by (simp add: tokens)
next
  case (Cons m gs)
  obtain x v where m: "m = (x, v)" by (cases m)
  let ?r = "concat (map (\<lambda>m. '','' @ member m) gs) @ CHR ''}'' # r"
  have "Join (printFields fs) '','' @ CHR ''}'' # r = member m @ ?r"
    by (simp add: Cons printFields_member Join_more comp_def del: Join.simps)
  moreover have "skipLoop (Suc n) (reader ObjectStart (s # k) (member m @ ?r)) = skipLoop (Suc n) (reader ObjectComma (s # k) ?r)"
    unfolding m by (rule member_inside) (use assms Cons m ends_list in auto)
  ultimately show ?thesis using object_rest [of gs n s k r] assms Cons by simp
qed

lemma printed_passes: "numbersFit v \<Longrightarrow> passes v"
proof (induction v)
  case (JInt i)
  then show ?case by (simp add: passes_def tokens)
next
  case (JArr js)
  then have "\<forall>j \<in> set js. passes j" by (simp add: list_all_iff)
  from array_inside [OF this] show ?case by (simp add: passes_def tokens)
next
  case (JObj fs)
  then have "\<forall>(x, v) \<in> set fs. passes v" by (fastforce simp: list_all_iff)
  from object_inside [OF this] show ?case by (simp add: passes_def tokens)
next
  case (JBool b)
  show ?case using token_literal(2,3) by (simp add: passes_def)
next
  case JNull
  show ?case using token_literal(1) by (simp add: passes_def)
qed (simp add: passes_def tokens)

lemma skipValue_printed:
  assumes "numbersFit v" "valueAllowed s" "endsNumber r"
  shows "skipValue (reader s k (print v @ r)) = Inr (reader (valueEnd s) k r)"
proof (cases v)
  case (JArr js)
  with assms(1) printed_passes have "\<forall>j \<in> set js. passes j" by (simp add: list_all_iff)
  from array_inside [OF this, of 0] show ?thesis using assms by (simp add: JArr skipValue_def tokens)
next
  case (JObj fs)
  with assms(1) printed_passes have "\<forall>(x, v) \<in> set fs. passes v" by (fastforce simp: list_all_iff)
  from object_inside [OF this, of 0] show ?thesis using assms by (simp add: JObj skipValue_def tokens)
next
  case (JBool b)
  then show ?thesis using token_literal(2,3) [OF assms(2)] by (simp add: skipValue_def)
next
  case JNull
  then show ?thesis using token_literal(1) [OF assms(2)] by (simp add: skipValue_def)
qed (use assms in \<open>simp_all add: skipValue_def tokens\<close>)

section \<open>The content hash is found\<close>

text \<open>The members after the first, each behind a comma.\<close>

definition following :: "(string \<times> json) list \<Rightarrow> string" where
  "following fs = concat (map (\<lambda>m. CHR '','' # member m) fs)"

lemma following_simps [simp]:
  "following [] = []" "following (m # fs) = CHR '','' # member m @ following fs" "following (fs @ gs) = following fs @ following gs"
  by (simp_all add: following_def)

lemma print_members: "print (JObj (m # fs)) = CHR ''{'' # member m @ following fs @ ''}''"
  by (simp add: printFields_member Join_more following_def comp_def del: Join.simps)

lemma print_open: "print (JObj fs) = CHR ''{'' # tl (print (JObj fs))"
  by simp

lemma ends_following [simp]: "endsNumber (following fs @ CHR ''}'' # r)"
  by (cases fs) simp_all

lemma open_printed: "openObject (print (JObj fs)) = Inr (reader ObjectStart [TopValue] (tl (print (JObj fs))))"
  using token_open(2) [of TopValue "[]" "tl (print (JObj fs))"]
  by (simp add: openObject_def NewDecoder_def valueAllowed_def)

lemma skipValue_member:
  "numbersFit v \<Longrightarrow> endsNumber r \<Longrightarrow> skipValue (reader ObjectColon k (CHR '':'' # print v @ r)) = Inr (reader ObjectComma k r)"
  using skipValue_printed [of v ObjectValue r k]
  by (simp add: skipValue_def tokens valueAllowed_def valueEnd_def)

lemma member_split: "member (x, v) @ r = quote x @ CHR '':'' # print v @ r"
  by (simp add: member_def)

text \<open>A member of another name is passed over.\<close>

definition other :: "string \<Rightarrow> string \<times> json \<Rightarrow> bool" where
  "other key m \<longleftrightarrow> validText (fst m) \<noteq> key \<and> numbersFit (snd m)"

lemma spliceLoop_other:
  assumes "other contentHashKey m" "s = ObjectStart \<or> s = ObjectKey" "endsNumber r"
  shows "spliceLoop raw val (reader s k (member m @ r)) = spliceLoop raw val (reader ObjectComma k r)"
  using assms by (cases m) (simp add: spliceLoop.simps [of _ _ "reader s _ _"] member_split tokens skipValue_member other_def)

lemma spliceLoop_same: "Token d = Token e \<Longrightarrow> spliceLoop raw val d = spliceLoop raw val e"
  by (simp add: spliceLoop.simps)

lemma quoteFrom_next:
  assumes "quoteMark \<notin> set w"
  shows "quoteFrom (u @ w @ quoteMark # r) (length u) = Some (length u + length w)"
proof -
  have "\<forall>c \<in> set w. c \<noteq> quoteMark" using assms by auto
  then show ?thesis by (simp add: quoteFrom_def takeWhile_append)
qed

lemma InputOffset_at: "InputOffset (u @ r) (reader s k r) = length u"
  by (simp add: InputOffset_def)

lemma validText_key: "validText contentHashKey = contentHashKey"
  by (simp add: contentHashKey_def byte_def)

lemma spliceLoop_found:
  assumes "s = ObjectStart \<or> s = ObjectKey"
  shows "spliceLoop (u @ member (contentHashKey, JStr h) @ r) val (reader s k (member (contentHashKey, JStr h) @ r))
    = Inr (u @ member (contentHashKey, JStr val) @ r, validText h)"
proof -
  let ?key = "quote contentHashKey"
  let ?raw = "u @ member (contentHashKey, JStr h) @ r"
  have raw: "?raw = (u @ ?key) @ CHR '':'' # quote h @ r" "?raw = (u @ ?key @ CHR '':'' # quote h) @ r"
    by (simp_all add: member_def)
  have start: "quoteFrom ?raw (length (u @ ?key)) = Some (length (u @ ?key) + 1)"
    using quoteFrom_next [of "'':''" "u @ ?key" "quoteBody h @ quoteMark # r"] unfolding raw(1)
    by (simp add: quote_def) (simp add: quoteMark_def)
  have off: "InputOffset (u @ ?key @ CHR '':'' # quote h @ r) (reader ObjectColon k (CHR '':'' # quote h @ r)) = length u + length ?key"
    by (simp add: InputOffset_def)
  have stop: "InputOffset ?raw (reader ObjectComma k r) = length (u @ ?key @ CHR '':'' # quote h)"
    unfolding raw(2) by (rule InputOffset_at)
  have value_token: "Token (reader ObjectColon k (CHR '':'' # quote h @ r)) = Inr (Str (validText h), reader ObjectComma k r)"
    by (simp add: tokens valueAllowed_def valueEnd_def)
  have "take (length (u @ ?key) + 1) ?raw = u @ ?key @ [CHR '':'']" unfolding raw(1) by simp
  moreover have "drop (length (u @ ?key @ CHR '':'' # quote h)) ?raw = r" unfolding raw(2) by simp
  ultimately have "replaceContentHashValue (reader ObjectColon k (CHR '':'' # quote h @ r)) ?raw (length (u @ ?key)) val
      = Inr (u @ ?key @ CHR '':'' # quote val @ r, validText h)"
    unfolding replaceContentHashValue_def start option.case value_token sum.case prod.case token.case stop by simp
  moreover have "Token (reader s k (member (contentHashKey, JStr h) @ r))
      = Inr (Str contentHashKey, reader ObjectColon k (CHR '':'' # quote h @ r))"
    using assms by (simp add: member_split tokens validText_key)
  ultimately show ?thesis by (simp add: spliceLoop.simps [of _ _ "reader s _ _"] off member_def)
qed

lemma spliceLoop_finds:
  assumes "\<forall>m \<in> set B. other contentHashKey m"
  shows "spliceLoop (u @ following (B @ (contentHashKey, JStr h) # A) @ ''}'') val
      (reader ObjectComma k (following (B @ (contentHashKey, JStr h) # A) @ ''}''))
    = Inr (u @ following (B @ (contentHashKey, JStr val) # A) @ ''}'', validText h)"
  using assms
proof (induction B arbitrary: u)
  case Nil
  let ?m = "member (contentHashKey, JStr h)"
  have "spliceLoop raw val (reader ObjectComma k (CHR '','' # ?m @ following A @ ''}''))
      = spliceLoop raw val (reader ObjectKey k (?m @ following A @ ''}''))" for raw
    by (rule spliceLoop_same) (rule tokens)
  with spliceLoop_found [of ObjectKey "u @ '',''" h "following A @ ''}''" val k] show ?case by simp
next
  case (Cons m B)
  let ?r = "following (B @ (contentHashKey, JStr h) # A) @ ''}''"
  have "spliceLoop raw val (reader ObjectComma k (CHR '','' # member m @ ?r)) = spliceLoop raw val (reader ObjectComma k ?r)" for raw
  proof -
    have "spliceLoop raw val (reader ObjectComma k (CHR '','' # member m @ ?r)) = spliceLoop raw val (reader ObjectKey k (member m @ ?r))"
      by (rule spliceLoop_same) (rule tokens)
    also have "\<dots> = spliceLoop raw val (reader ObjectComma k ?r)"
      by (rule spliceLoop_other [OF _ _ ends_following]) (use Cons.prems in simp_all)
    finally show ?thesis .
  qed
  with Cons.IH [of "u @ CHR '','' # member m"] Cons.prems show ?case by simp
qed

text \<open>
  In the text of a record the hash of the outermost object is replaced and returned, and nothing else changes: no
  hash within a value is taken for it, and the members after it need not even be readable.
\<close>

theorem content_hash_in_place:
  assumes "\<forall>m \<in> set B. other contentHashKey m"
  shows "spliceTopLevelContentHash (print (JObj (B @ (contentHashKey, JStr h) # A))) val
    = Inr (print (JObj (B @ (contentHashKey, JStr val) # A)), validText h)"
proof (cases B)
  case Nil
  show ?thesis
    using spliceLoop_found [of ObjectStart "''{''" h "following A @ ''}''" val "[TopValue]"]
    unfolding spliceTopLevelContentHash_def open_printed sum.case unfolding Nil append_Nil print_members by simp
next
  case (Cons m C)
  let ?r = "following (C @ (contentHashKey, JStr h) # A) @ ''}''"
  have "spliceLoop raw val (reader ObjectStart [TopValue] (member m @ ?r)) = spliceLoop raw val (reader ObjectComma [TopValue] ?r)" for raw
    by (rule spliceLoop_other [OF _ _ ends_following]) (use assms Cons in simp_all)
  with spliceLoop_finds [of C "CHR ''{'' # member m" h A val "[TopValue]"] assms show ?thesis
    unfolding spliceTopLevelContentHash_def open_printed sum.case unfolding Cons append_Cons print_members by simp
qed

section \<open>A member is taken out\<close>

lemma deleteLoop_same: "Token d = Token e \<Longrightarrow> deleteLoop raw key n d = deleteLoop raw key n e"
  by (simp add: deleteLoop.simps)

text \<open>What stands between the end of a member and the next one: nothing after the brace, else a comma.\<close>

definition between :: "tokState \<Rightarrow> string" where
  "between s = (if s = ObjectStart then [] else '','')"

lemma between_quote: "quoteMark \<notin> set (between s)"
  by (simp add: between_def quoteMark_def)

lemma between_token:
  "s = ObjectStart \<or> s = ObjectComma \<Longrightarrow> Token (reader s k (between s @ member (x, v) @ r))
    = Inr (Str (validText x), reader ObjectColon k (CHR '':'' # print v @ r))"
  by (auto simp: between_def tokens member_split)

lemma deleteLoop_step:
  fixes x r :: string and v :: json and s :: tokState
  assumes "numbersFit v" "s = ObjectStart \<or> s = ObjectComma" "endsNumber r"
  defines "raw u \<equiv> u @ between s @ member (x, v) @ r"
  shows "deleteLoop (raw u) key (length u) (reader s k (between s @ member (x, v) @ r))
    = (if validText x = key then Inr (spliceOutMember (raw u) (length (u @ between s)) (length (u @ between s @ member (x, v))))
       else deleteLoop (raw u) key (length (u @ between s @ member (x, v))) (reader ObjectComma k r))"
proof -
  have start: "quoteFrom (raw u) (length u) = Some (length (u @ between s))"
    using quoteFrom_next [OF between_quote, of u s "quoteBody x @ quoteMark # CHR '':'' # print v @ r"]
    by (simp add: raw_def member_def quote_def)
  have stop: "InputOffset (raw u) (reader ObjectComma k r) = length (u @ between s @ member (x, v))"
    using InputOffset_at [of "u @ between s @ member (x, v)" r ObjectComma k] by (simp add: raw_def)
  show ?thesis
    unfolding deleteLoop.simps [of _ _ _ "reader s k _"] between_token [OF assms(2)] sum.case prod.case token.case start option.case
      skipValue_member [OF assms(1,3)] stop ..
qed

lemma spliceOut_member:
  assumes "p \<noteq> []" "\<not> isJSONSpace (last p)" "r = c # q" "c = CHR '','' \<or> c = CHR ''}''"
  shows "spliceOutMember (p @ w @ r) (length p) (length (p @ w))
    = (if c = CHR '','' then p @ q else if last p = CHR '','' then butlast p @ r else p @ r)"
proof -
  have "\<not> isJSONSpace c" using assms(4) by (auto simp: isJSONSpace_def)
  then have after: "skipSpaceForward (p @ w @ r) (length (p @ w)) = length (p @ w)"
    using assms(3) by (simp add: skipSpaceForward_def)
  obtain l m where p: "p = m @ [l]" using assms(1) by (cases p rule: rev_cases) auto
  then have before: "skipSpaceBackward (p @ w @ r) (length p) = length p"
    using assms(2) by (simp add: skipSpaceBackward_def)
  have at: "(p @ w @ r) ! length (p @ w) = c" "(p @ w @ r) ! (length p - 1) = last p"
    using assms(3) p by (simp_all add: nth_append)
  have cut: "take (length p - 1) (p @ w @ r) = butlast p" "take (length p) (p @ w @ r) = p"
    "drop (length (p @ w)) (p @ w @ r) = r" "drop (length (p @ w) + 1) (p @ w @ r) = q"
    using p assms(3) by simp_all
  show ?thesis unfolding spliceOutMember_def after before Let_def at cut using assms(3) p by simp
qed

lemma following_head: "\<exists>c q. following A @ ''}'' = c # q \<and> (c = CHR '','' \<or> c = CHR ''}'')
    \<and> (c = CHR '','' \<longleftrightarrow> A \<noteq> []) \<and> (A \<noteq> [] \<longrightarrow> q = tl (following A) @ ''}'') \<and> (A = [] \<longrightarrow> q = [])"
  by (cases A) auto

lemma deleteLoop_rest:
  assumes "\<forall>m \<in> set B. other key m" "validText x = key" "numbersFit v" "u \<noteq> []"
  shows "deleteLoop (u @ following (B @ (x, v) # A) @ ''}'') key (length u) (reader ObjectComma k (following (B @ (x, v) # A) @ ''}''))
    = Inr (u @ following (B @ A) @ ''}'')"
  using assms(1,4)
proof (induction B arbitrary: u)
  case Nil
  let ?r = "following A @ ''}''"
  obtain c q where c: "?r = c # q" "c = CHR '','' \<or> c = CHR ''}''" "c = CHR '','' \<longleftrightarrow> A \<noteq> []" "A \<noteq> [] \<longrightarrow> q = tl (following A) @ ''}''"
    using following_head by blast
  have "spliceOutMember ((u @ '','') @ member (x, v) @ ?r) (length (u @ '','')) (length ((u @ '','') @ member (x, v))) = u @ ?r"
    using spliceOut_member [of "u @ '',''" ?r c q "member (x, v)"] c
    by (cases A) (auto simp: isJSONSpace_def butlast_append)
  with deleteLoop_step [of v ObjectComma ?r u x key k] assms(2,3) show ?case by (simp add: between_def)
next
  case (Cons m B)
  obtain y w where m: "m = (y, w)" by (cases m)
  let ?r = "following (B @ (x, v) # A) @ ''}''"
  have "deleteLoop (u @ '','' @ member m @ ?r) key (length u) (reader ObjectComma k ('','' @ member m @ ?r))
      = deleteLoop (u @ '','' @ member m @ ?r) key (length (u @ '','' @ member m)) (reader ObjectComma k ?r)"
    using deleteLoop_step [of w ObjectComma ?r u y key k] Cons.prems(1) m ends_following
    by (simp add: between_def other_def del: following_simps)
  with Cons.IH [of "u @ '','' @ member m"] Cons.prems show ?case by simp
qed

lemma deleteLoop_absent:
  assumes "\<forall>m \<in> set B. other key m"
  shows "deleteLoop (u @ following B @ ''}'') key (length u) (reader ObjectComma [p] (following B @ ''}'')) = Inr (u @ following B @ ''}'')"
  using assms
proof (induction B arbitrary: u)
  case Nil
  show ?case by (simp add: deleteLoop.simps tokens)
next
  case (Cons m B)
  obtain y w where m: "m = (y, w)" by (cases m)
  let ?r = "following B @ ''}''"
  have "deleteLoop (u @ '','' @ member m @ ?r) key (length u) (reader ObjectComma [p] ('','' @ member m @ ?r))
      = deleteLoop (u @ '','' @ member m @ ?r) key (length (u @ '','' @ member m)) (reader ObjectComma [p] ?r)"
    using deleteLoop_step [of w ObjectComma ?r u y key "[p]"] Cons.prems m ends_following
    by (simp add: between_def other_def del: following_simps)
  with Cons.IH [of "u @ '','' @ member m"] Cons.prems show ?case by simp
qed

text \<open>The reader stands behind the brace.\<close>

lemma delete_opened:
  "deleteTopLevelMember (print (JObj fs)) key
    = deleteLoop (print (JObj fs)) key (length ''{'') (reader ObjectStart [TopValue] (tl (print (JObj fs))))"
  by (simp add: deleteTopLevelMember_def open_printed InputOffset_def del: print.simps)
    (simp add: InputOffset_def)

theorem member_taken_out:
  assumes "\<forall>m \<in> set B. other key m" "validText x = key" "numbersFit v"
  shows "deleteTopLevelMember (print (JObj (B @ (x, v) # A))) key = Inr (print (JObj (B @ A)))"
proof (cases B)
  case Nil
  let ?r = "following A @ ''}''"
  obtain c q where c: "?r = c # q" "c = CHR '','' \<or> c = CHR ''}''" "c = CHR '','' \<longleftrightarrow> A \<noteq> []" "A \<noteq> [] \<longrightarrow> q = tl (following A) @ ''}''"
    using following_head by blast
  have "spliceOutMember (''{'' @ member (x, v) @ ?r) (length ''{'') (length (''{'' @ member (x, v))) = print (JObj A)"
    using spliceOut_member [of "''{''" ?r c q "member (x, v)"] c print_members
    by (cases A) (auto simp: isJSONSpace_def)
  with deleteLoop_step [of v ObjectStart ?r "''{''" x key "[TopValue]"] assms(2,3) show ?thesis
    unfolding delete_opened unfolding Nil append_Nil print_members by (simp add: between_def)
next
  case (Cons m C)
  obtain y w where m: "m = (y, w)" by (cases m)
  let ?r = "following (C @ (x, v) # A) @ ''}''"
  have "deleteLoop (''{'' @ member m @ ?r) key (length ''{'') (reader ObjectStart [TopValue] (member m @ ?r))
      = deleteLoop (''{'' @ member m @ ?r) key (length (''{'' @ member m)) (reader ObjectComma [TopValue] ?r)"
    using deleteLoop_step [of w ObjectStart ?r "''{''" y key "[TopValue]"] assms(1) m Cons ends_following
    by (simp add: between_def other_def del: following_simps)
  also have "\<dots> = Inr (''{'' @ member m @ following (C @ A) @ ''}'')"
    using deleteLoop_rest [of C key x v "''{'' @ member m" A "[TopValue]"] assms Cons by simp
  finally show ?thesis unfolding delete_opened unfolding Cons append_Cons print_members by simp
qed

lemma member_absent:
  assumes "\<forall>m \<in> set fs. other key m"
  shows "deleteTopLevelMember (print (JObj fs)) key = Inr (print (JObj fs))"
proof (cases fs)
  case Nil
  then show ?thesis by (simp add: delete_opened deleteLoop.simps tokens del: print.simps) (simp add: tokens)
next
  case (Cons m C)
  obtain y w where m: "m = (y, w)" by (cases m)
  let ?r = "following C @ ''}''"
  have "deleteLoop (''{'' @ member m @ ?r) key (length ''{'') (reader ObjectStart [TopValue] (member m @ ?r))
      = deleteLoop (''{'' @ member m @ ?r) key (length (''{'' @ member m)) (reader ObjectComma [TopValue] ?r)"
    using deleteLoop_step [of w ObjectStart ?r "''{''" y key "[TopValue]"] assms(1) m Cons ends_following
    by (simp add: between_def other_def del: following_simps)
  also have "\<dots> = Inr (''{'' @ member m @ ?r)"
    using deleteLoop_absent [of C key "''{'' @ member m" TopValue] assms Cons by simp
  finally show ?thesis unfolding delete_opened unfolding Cons print_members by simp
qed

section \<open>The seal of a stored text\<close>

text \<open>An object as the ledgers write them: names that are text, none of them twice, and numbers that fit.\<close>

definition wellNamed :: "(string \<times> json) list \<Rightarrow> bool" where
  "wellNamed fs \<longleftrightarrow> distinct (map fst fs) \<and> (\<forall>m \<in> set fs. validText (fst m) = fst m \<and> numbersFit (snd m))"

text \<open>What a seal covers: the record with its hash blanked and without what the ledger excludes.\<close>

definition sealedFields :: "Exclusions \<Rightarrow> (string \<times> json) list \<Rightarrow> (string \<times> json) list" where
  "sealedFields x fs = filter (\<lambda>m. fst m \<notin> set x) (map (\<lambda>(k, v). if k = contentHashKey then (k, JStr []) else (k, v)) fs)"

lemma wellNamed_filter: "wellNamed fs \<Longrightarrow> wellNamed (filter P fs)"
  by (auto simp: wellNamed_def distinct_map_filter)

lemma split_named:
  assumes "wellNamed (B @ (k, v) # A)"
  shows "\<forall>m \<in> set (B @ A). fst m \<noteq> k" "\<forall>m \<in> set B. other k m" "k \<notin> fst ` set B" "validText k = k" "numbersFit v"
proof -
  have "k \<notin> fst ` set (B @ A)" and all: "\<forall>m \<in> set (B @ (k, v) # A). validText (fst m) = fst m \<and> numbersFit (snd m)"
    using assms unfolding wellNamed_def by auto
  then show ne: "\<forall>m \<in> set (B @ A). fst m \<noteq> k" and "k \<notin> fst ` set B" by auto
  from ne all show "\<forall>m \<in> set B. other k m" by (simp add: other_def)
  from all show "validText k = k" "numbersFit v" by simp_all
qed

lemma deleteMembers_printed:
  "wellNamed fs \<Longrightarrow> deleteMembers x (print (JObj fs)) = Inr (print (JObj (filter (\<lambda>m. fst m \<notin> set x) fs)))"
proof (induction x arbitrary: fs)
  case (Cons f x)
  let ?gs = "filter (\<lambda>m. fst m \<noteq> f) fs"
  have "deleteTopLevelMember (print (JObj fs)) f = Inr (print (JObj ?gs))"
  proof (cases "f \<in> fst ` set fs")
    case True
    then obtain v where "(f, v) \<in> set fs" by auto
    then obtain B A where fs: "fs = B @ (f, v) # A" by (meson split_list)
    from split_named [OF Cons.prems [unfolded fs]] show ?thesis using member_taken_out [of B f f v A] unfolding fs by (simp add: filter_id_conv del: print.simps)
  next
    case False
    then have "\<forall>m \<in> set fs. other f m" "?gs = fs" using Cons.prems by (auto simp: wellNamed_def other_def filter_id_conv)
    then show ?thesis by (simp only: member_absent)
  qed
  with Cons.IH [OF wellNamed_filter [OF Cons.prems], of "\<lambda>m. fst m \<noteq> f"] show ?case
    by (simp add: filter_filter conj_commute del: print.simps)
qed simp

lemma sealedBytes_printed:
  assumes "wellNamed fs" "map_of fs contentHashKey = Some (JStr h)"
  shows "sealedBytes x (print (JObj fs)) = Inr (print (JObj (sealedFields x fs)), validText h)"
proof -
  obtain B A where fs: "fs = B @ (contentHashKey, JStr h) # A" using map_of_SomeD [OF assms(2)] by (meson split_list)
  let ?gs = "B @ (contentHashKey, JStr []) # A"
  note names = split_named(2,1) [OF assms(1) [unfolded fs]]
  have "map (\<lambda>(k, v). if k = contentHashKey then (k, JStr []) else (k, v)) B = B"
    "map (\<lambda>(k, v). if k = contentHashKey then (k, JStr []) else (k, v)) A = A"
    using names(2) by (auto intro!: map_idI dest: bspec)
  then have blank: "sealedFields x fs = filter (\<lambda>m. fst m \<notin> set x) ?gs" unfolding sealedFields_def fs by simp
  have "wellNamed ?gs" using assms(1) unfolding fs wellNamed_def by auto
  from deleteMembers_printed [OF this, of x] content_hash_in_place [OF names(1), of h A "[]"] show ?thesis
    unfolding blank unfolding fs sealedBytes_def splitTopLevelContentHash_def by (simp del: print.simps filter_append filter.simps)
qed



end
