(* ===== verification/Seal_Ledgers.thy ===== *)
theory Seal_Ledgers
  imports Seal_Verify Iface_Roundtrip Example_Compose
begin

text \<open>
  The check of a stored record on its bytes, which the interface store makes on every read, against the check
  through the record, which the hashers make (\<open>internal/iface/domain/hasher.go\<close>,
  \<open>internal/example/domain/hasher.go\<close>): on the text a ledger writes they agree.
\<close>

section \<open>What the ledgers write is well named\<close>

lemma ball_unless: "(\<forall>m \<in> set (unless c k v). P m) \<longleftrightarrow> c \<or> P (k, v)"
  by (simp add: unless_def)

lemma numbers_pos: "fits_pos p \<Longrightarrow> numbersFit (canonicalPos p)"
  by (simp add: canonicalPos_def fits_pos_def int64_fits)

lemma numbers_strings: "list_all numbersFit (map JStr xs)"
  by (induction xs) auto

lemma numbers_type: "fits_type t \<Longrightarrow> numbersFit (canonicalType t)"
  by (auto simp: canonicalType_def canonicalField_def canonicalMethod_def canonicalTP_def fits_type_def list_all_iff int64_fits
      intro: numbers_pos)

lemma numbers_package:
  assumes "fits_package p"
  shows "numbersFit (toCanonicalPackage p)"
proof -
  have "numbersFit (canonicalFunc f)" if "f \<in> set (pi_Funcs p)" for f
    using assms that numbers_pos by (auto simp: canonicalFunc_def canonicalTP_def fits_package_def list_all_iff)
  moreover have "numbersFit (canonicalValue v)" if "v \<in> set (pi_Consts p) \<union> set (pi_Vars p)" for v
    using assms that numbers_pos by (auto simp: canonicalValue_def fits_package_def list_all_iff)
  moreover have "numbersFit (canonicalType t)" if "t \<in> set (pi_Types p)" for t
    using assms that numbers_type by (simp add: fits_package_def)
  ultimately show ?thesis
    by (auto simp: toCanonicalPackage_def packageFields_def unless_def canonicalFailure_def list_all_iff)
qed

lemma numbers_limit: "numbersFit (toCanonicalLimit u)"
  by (simp add: toCanonicalLimit_def numbers_strings)

lemma named_interface: "fits_record r \<Longrightarrow> wellNamed (recordFields_if r)"
proof -
  assume fits: "fits_record r"
  then have "list_all numbersFit (map toCanonicalPackage (sortPackages (ir_Packages r)))"
    using fits_sortPackage numbers_package by (auto simp: list_all_iff sortPackages_def fits_record_def)
  then show ?thesis using fits recordFields_distinct [of r] unfolding wellNamed_def
    by (cases "ir_AnalyserLimit r")
      (simp_all add: recordFields_if_def ball_Un ball_unless canonicalFrame_def numbers_limit fits_record_def int64_fits byte_def)
qed

lemma named_example: "fits_example r \<Longrightarrow> wellNamed (recordFields_ex r)"
proof -
  assume fits: "fits_example r"
  then have "list_all numbersFit (map canonicalExampleEntry (sortExamples (er_Examples r)))"
    by (auto simp: list_all_iff sortExamples_def sortImports_def canonicalExampleEntry_def canonicalPos_ex_def fits_example_def
        numbers_strings [unfolded list_all_iff] int64_fits)
  moreover have "list_all numbersFit (map canonicalParseFailure fs)" for fs
    by (simp add: list_all_iff canonicalParseFailure_def)
  ultimately show ?thesis using fits recordFields_ex_distinct [of r] unfolding wellNamed_def
    by (cases "er_AnalyserLimit r")
      (simp_all add: recordFields_ex_def ball_Un ball_unless numbers_limit fits_example_def int64_fits byte_def)
qed

section \<open>The text without its hash\<close>

lemma blank_interface: "sealedFields [] (recordFields_if r) = recordFields_if (r\<lparr>ir_ContentHash := []\<rparr>)"
  by (simp add: sealedFields_def recordFields_if_def unless_def contentHashKey_def)

lemma blank_example: "sealedFields [] (recordFields_ex r) = recordFields_ex (r\<lparr>er_ContentHash := []\<rparr>)"
  by (simp add: sealedFields_def recordFields_ex_def unless_def contentHashKey_def)

lemma hash_of_interface: "map_of (recordFields_if r) contentHashKey = Some (JStr (ir_ContentHash r))"
  by (simp add: recordFields_if_def unless_def contentHashKey_def)

lemma hash_of_example: "map_of (recordFields_ex r) contentHashKey = Some (JStr (er_ContentHash r))"
  by (simp add: recordFields_ex_def unless_def contentHashKey_def)

lemma hex_text: "validText (EncodeToString bs) = EncodeToString bs"
proof -
  have h: "byte (hexDigit n) < 128" if "n < 16" for n using that by (simp add: hexDigit_def byte_def)
  have "byte c div 16 < 16" for c using byte_less [of c] by simp
  then have "\<forall>b \<in> set (hexByte c). byte b < 128" for c using h by (simp add: hexByte_def byte_def [symmetric] Let_def)
  then have "\<forall>b \<in> set (EncodeToString bs). byte b < 128" by (auto simp: EncodeToString_def)
  moreover have "validText s = s" if "\<forall>b \<in> set s. byte b < 128" for s using that by (induction s) auto
  ultimately show ?thesis by blast
qed

text \<open>
  On the text a store holds of an interface record, and of an example record, the two checks agree: a record
  that verifies as a record verifies by its bytes, and a text that verifies by its bytes is of a record that verifies,
  but for the hash written without its prefix.  A record sealed here is accepted under its own hash only.
\<close>

theorem byte_check_agrees:
  assumes "fits_record r" "fits_example e"
  shows "(VerifyBlob H [] (marshalCanonical_if r) (ir_ContentHash r) = None
        \<longleftrightarrow> VerifyContentHash_if H r = None \<or> ''sha256:'' @ ir_ContentHash r = sealOf_if H r)
    \<and> (VerifyBlob H [] (marshalCanonicalExample e) (er_ContentHash e) = None
        \<longleftrightarrow> VerifyContentHash_ex H e = None \<or> ''sha256:'' @ er_ContentHash e = sealOf_ex H e)
    \<and> (VerifyBlob H [] (marshalCanonical_if (SetContentHash_if H r)) stored = None \<longleftrightarrow> stored = sealOf_if H r)"
proof -
  have clean: "validText (''sha256:'' @ EncodeToString bs) = ''sha256:'' @ EncodeToString bs" for bs
    using hex_text [of bs] by (simp add: byte_def)
  have blob: "VerifyBlob H [] (print (JObj fs)) stored = None
      \<longleftrightarrow> stored = validText h \<and> (validText h = ''sha256:'' @ EncodeToString (H t) \<or> validText h = EncodeToString (H t))"
    if "wellNamed fs" "map_of fs contentHashKey = Some (JStr h)" "print (JObj (sealedFields [] fs)) = t" for fs h t stored
    unfolding VerifyBlob_def sealedBytes_printed [OF that(1,2)] that(3) sum.case prod.case Let_def isDigest_def by auto
  have own: "VerifyBlob H [] (print (JObj fs)) h = None
      \<longleftrightarrow> h = ''sha256:'' @ EncodeToString (H t) \<or> h = EncodeToString (H t)"
    if "wellNamed fs" "map_of fs contentHashKey = Some (JStr h)" "print (JObj (sealedFields [] fs)) = t" for fs h t
    unfolding blob [OF that] using clean hex_text by metis
  have if_blank: "print (JObj (sealedFields [] (recordFields_if x))) = marshalCanonical_if (x\<lparr>ir_ContentHash := []\<rparr>)" for x
    by (simp only: blank_interface marshalCanonical_if_def canonicalRecord_def)
  have ex_blank: "print (JObj (sealedFields [] (recordFields_ex x))) = marshalCanonicalExample (x\<lparr>er_ContentHash := []\<rparr>)" for x
    by (simp only: blank_example marshalCanonicalExample_def canonicalExampleRecord_def)
  have "VerifyBlob H [] (marshalCanonical_if r) (ir_ContentHash r) = None
      \<longleftrightarrow> VerifyContentHash_if H r = None \<or> ''sha256:'' @ ir_ContentHash r = sealOf_if H r"
    using own [OF named_interface [OF assms(1)] hash_of_interface if_blank]
    by (auto simp: VerifyContentHash_if_def sealOf_if_def marshalCanonical_if_def canonicalRecord_def simp del: print.simps)
  moreover have "VerifyBlob H [] (marshalCanonicalExample e) (er_ContentHash e) = None
      \<longleftrightarrow> VerifyContentHash_ex H e = None \<or> ''sha256:'' @ er_ContentHash e = sealOf_ex H e"
    using own [OF named_example [OF assms(2)] hash_of_example ex_blank]
    by (auto simp: VerifyContentHash_ex_def sealOf_ex_def marshalCanonicalExample_def canonicalExampleRecord_def simp del: print.simps)
  moreover have "VerifyBlob H [] (marshalCanonical_if (SetContentHash_if H r)) stored = None \<longleftrightarrow> stored = sealOf_if H r"
  proof -
    let ?s = "SetContentHash_if H r"
    have fits: "fits_record ?s" using assms(1) by (simp add: fits_record_def SetContentHash_if_def)
    have h: "ir_ContentHash ?s = sealOf_if H r" "?s\<lparr>ir_ContentHash := []\<rparr> = r\<lparr>ir_ContentHash := []\<rparr>"
      by (simp_all add: SetContentHash_if_def)
    have "validText (sealOf_if H r) = sealOf_if H r" unfolding sealOf_if_def by (rule clean)
    then show ?thesis
      using blob [OF named_interface [OF fits] hash_of_interface if_blank, of stored] unfolding h
      by (auto simp: sealOf_if_def marshalCanonical_if_def canonicalRecord_def simp del: print.simps)
  qed
  ultimately show ?thesis by blast
qed

lemma byte_check_agrees_witness:
  "let r = SetContentHash_if (\<lambda>_. ''k'') exampleInterface; e = exampleRun ExampleStatusFound 7 in
     VerifyBlob (\<lambda>_. ''k'') [] (marshalCanonical_if r) (ir_ContentHash r) = None
     \<and> VerifyBlob (\<lambda>_. ''k'') [] (marshalCanonicalExample e) (er_ContentHash e) \<noteq> None"
proof -
  define r where "r = SetContentHash_if (\<lambda>_. ''k'') exampleInterface"
  define e where "e = exampleRun ExampleStatusFound 7"
  have "fits_record r" "fits_example e"
    by (simp_all add: r_def e_def SetContentHash_if_def exampleInterface_def exampleRun_def fits_record_def fits_package_def
        fits_type_def fits_pos_def fits_example_def int64_def InterfaceStatusExtracted_def TypeKindInterface_def ExampleStatusFound_def)
  note agrees = byte_check_agrees [OF this, of "\<lambda>_. ''k''"]
  have "VerifyContentHash_if (\<lambda>_. ''k'') r = None" by (simp add: r_def VerifyContentHash_if_def SetContentHash_if_def sealOf_if_def)
  then have accepted: "VerifyBlob (\<lambda>_. ''k'') [] (marshalCanonical_if r) (ir_ContentHash r) = None"
    by (intro conjunct1 [OF agrees, THEN iffD2] disjI1)
  have "VerifyContentHash_ex (\<lambda>_. ''k'') e \<noteq> None" "''sha256:'' @ er_ContentHash e \<noteq> sealOf_ex (\<lambda>_. ''k'') e"
    by (simp_all add: e_def exampleRun_def VerifyContentHash_ex_def sealOf_ex_def EncodeToString_def hexByte_def)
  then have refused: "VerifyBlob (\<lambda>_. ''k'') [] (marshalCanonicalExample e) (er_ContentHash e) \<noteq> None"
    unfolding conjunct1 [OF conjunct2 [OF agrees]] by (simp only: de_Morgan_disj not_False_eq_True simp_thms)
  show ?thesis unfolding r_def [symmetric] e_def [symmetric] Let_def by (rule conjI [OF accepted refused])
qed

end
