(* ===== verification/Spec2Isabelle.thy ===== *)
theory Spec2Isabelle
  imports Version_Order Merkle Fetch_Compose Walk_Query Walk_TinyGo Vuln_Compose Vuln_Merge Vuln_Soundness
    Vuln_Diff Vuln_Timeline Vuln_Toolchain License_Compat License_Seal License_Diff
    Callgraph_Answer Callgraph_Reuse Capability_Diff Stamp_Parse Iface_Roundtrip Iface_Compose Iface_Diff Example_Compose Seal_Ledgers
begin

text \<open>
  \<^bold>\<open>Kanonarion: the decisions of an assurance tool for Go modules\<close>

  Kanonarion fetches Go modules, records what it measured of them, and answers questions from the
  records.  Everything it establishes is a record of an append-only ledger: the facts of a fetch, the
  walk of a dependency graph, vulnerability scans, licences, call graphs, interfaces.  A record is sealed with
  a hash of its canonical JSON; several records of one subject are composed into the one that answers, or
  refused where they contradict each other; two records are compared; and the answers built on
  them state what they rest on and what they could not establish.  The packages that decide
  these things are pure Go (\<open>src/internal/*/domain\<close> and a few beside them), and they are what
  this development models.  Storage, transport and the command line only carry their values.

  \<^bold>\<open>Conventions\<close>

  A Go struct is a record (or a datatype where the fields are unexported behind constructors), a
  string type with named constants is \<open>string\<close>, a list of bytes, and Go's \<open><\<close> on strings is the
  order of List_Lexorder.  A \<open>time.Time\<close> is an \<open>int\<close> of nanoseconds whose zero is Go's zero time; a
  \<open>float64\<close> is NaN or a rational.  A Go error is the left of a sum or an option.  Go \<open>int\<close>s that only
  count are \<open>nat\<close>; no modelled arithmetic comes near the width of a machine integer, the widest is
  the index of a Merkle proof, which is read as a natural number.  A slice is a list and its
  absent value the empty list.  A map that is read by key is a HOL map or an association list; where the code
  ranges over a map, the order is that of a list given as an argument, and theorems show that
  it does not matter, or a finding says that it does.  \<open>sort.Slice\<close> and its relatives are
  the stable insertion sort of Sorting_Go: Order_Keys gives the contract under which any sort has that result.

  What is not under \<open>src\<close> is a parameter: SHA-256 (\<open>H\<close>, about which only functionality is used, so the
  theorems name collisions), \<open>golang.org/x/mod/semver\<close> (\<open>semver_Compare\<close>, assumed to be a
  three-way order), and the text of some errors.  The standard library is modelled as far as it is
  used: \<open>strings\<close> (Prelude, Go_Strings), \<open>encoding/json\<close> and \<open>encoding/hex\<close> as writers (Go_Encoding), the reading of a decoded tree into structs (Go_Decoding) and
  the token reader (Json_Tokens),
  \<open>regexp\<close> (Go_Regexp), \<open>go/version\<close> (Go_Toolchain), \<open>time\<close> formatting and parsing (Record_Stamp, Stamp_Parse).
  Case mapping and letter classes are those of ASCII.

  \<^bold>\<open>The theories, and what they model\<close>

  \<^item> Prelude, Go_Strings, Go_Decoding, Sorting_Go, Order_Keys, Keep_Best, Ledger, Disagreement: what the components share.  Locales state
    the interfaces: \<open>serving\<close> (Ledger: an order that chooses the record served), \<open>canonical_less\<close> (Order_Keys:
    a comparator that ties on equal elements only), \<open>best_by_key\<close> (Keep_Best: a loop that keeps the best
    element of each key); each component interprets them on its own comparators.  Disagreement is the conflict several
    ledgers report when their records state different values.
  \<^item> Coordinate (\<open>internal/coordinate\<close>), Version_Order (\<open>internal/versionorder\<close>), Record_Stamp,
    Stamp_Parse (\<open>internal/recordstamp\<close>): coordinates and their text, the order of pipeline and module
    versions, time stamps, how they sort and how they are read back.
  \<^item> Merkle (\<open>internal/fetch/domain/merkle.go\<close>): the tree over a record set, its proofs and their verifier.
  \<^item> Fetch_Identity, Fetch_Compose (\<open>internal/fetch/domain\<close>: \<open>hash.go\<close>, \<open>identity.go\<close>, \<open>factrecord.go\<close>,
    \<open>composite.go\<close>, \<open>divergence.go\<close>, \<open>localgeneration.go\<close>): artefact identities, and the fact served for a module.
  \<^item> Walk_Graph, Walk_Query, Walk_TinyGo (\<open>internal/walk/domain\<close>): the dependency graph, its queries, and the
    custody of the files of a TinyGo build.
  \<^item> Vuln_Types, Vuln_Record, Vuln_Compose, Vuln_Merge, Vuln_Soundness, Vuln_Diff, Vuln_Timeline, Vuln_Toolchain
    (\<open>internal/vuln/domain\<close>): findings, records and frames; which record answers; the merge of coordinate
    matches and the order of findings; when a negative is confirmed; differences of runs and
    timelines; the judgment of a toolchain against its advisories.
  \<^item> License_Types, License_Compound, License_Expression, License_Effective, License_Coverage, License_Compat,
    License_Compose, License_Seal, License_Diff (\<open>internal/license/domain\<close>): what the texts of a module grant, the
    licence set in effect, what each grant covers, compatibility of a closure, composition, seal, difference.
  \<^item> Go_Toolchain (\<open>internal/gotoolchain\<close>): toolchain versions and the limit of the analysing binary.
  \<^item> Callgraph_Types, Callgraph_Order, Callgraph_Seal, Callgraph_Diff, Callgraph_Compose, Callgraph_Reuse,
    Callgraph_Answer (\<open>internal/callgraph/domain\<close>): the record and its values; canonical orders;
    the streamed seal; the difference of two generations; the record that answers a read, or
    the refusal and the way on it names; when an analysis restates another, and the requires pinned
    for it; what an empty answer may claim.
  \<^item> Capability_Sinks, Capability_Search, Capability_Paths, Capability_Findings, Capability_Rows, Capability_Near,
    Capability_Report, Capability_Diff (\<open>internal/capability/domain\<close>): the labels of callees, the widest-path
    search for the best witness of each capability, the rows and the roll-ups, and differences.
  \<^item> Iface_Types, Iface_Order, Iface_Seal, Iface_Roundtrip, Iface_Compose, Iface_Diff (\<open>internal/iface/domain\<close>): the
    public API of a module, its canonical JSON and the record read back from it, the record that answers,
    and what changed between two APIs.  Sealed_Json holds what its texts share with those of the next.
  \<^item> Example_Types, Example_Seal, Example_Compose (\<open>internal/example/domain\<close>): the examples of a module, the
    symbols their names stand for, the seal, and the record that answers.
  \<^item> Json_Tokens, Seal_Bytes, Seal_Verify, Seal_Ledgers (\<open>internal/adapters/recordseal\<close>): the reader of JSON tokens, the check
    of a seal on the stored bytes with the splicing it rests on, what that check decides of any canonical text, and
    its agreement with the check through the record for interfaces and examples.

  \<^bold>\<open>How the components meet\<close>

  Coordinates and identities key every ledger.  The composition of each ledger serves a record by
  the \<open>serving\<close> contract and refuses by the disagreement of its records; the seals rest on Go_Encoding and on the
  canonical orders; Vuln_Toolchain and Callgraph_Reuse use the versions of Go_Toolchain; Capability_Report
  runs on a call-graph record and states the limit of the analyser that Callgraph_Reuse reads.

  \<^bold>\<open>What is shown\<close>

  For each ledger: which record is served and that nothing outranks it; that a refusal names a
  contradiction that is there, and (for call graphs) that what it tells to do leads on; that
  the seal covers the record and does not depend on how its lists are arranged.  For each
  answer: when a negative is confirmed or absent, when a closure is clean, when a grant is set
  aside.  For each difference: exactly what it lists, on both sides.  For the algorithms: Merkle proofs are complete and short,
  sound when the size of the tree is known (a proof replayed at another size is accepted), and verification returns; the graph search returns exactly what non-empty
  paths lead to, the origin left out; the widest-path search and the layered walk meet their specifications as paths; text forms round-trip.

  \<^bold>\<open>Loops\<close>

  All functions are structural or end by a measure, except \<open>evenShift\<close> and the Merkle replay, which
  the code writes as loops that need not end: they are partial functions shown to return.  The
  rounds of a starred pattern are bounded by the length of the text, and the steps of \<open>reconstructPath\<close> by the
  number of predecessors; lemmas show both bounds to be enough.

  \<^bold>\<open>Not modelled\<close>

  The stores (\<open>adapters/store\<close>, SQL), the fetchers and analysers that run tools or read archives, the
  application services that sequence them, and the command line (\<open>internal/cli\<close>, \<open>pkg\<close>) are
  input and output around these decisions.  The text of JSON is read back into a record for interfaces only, with the decoder of the text as a parameter; of
  the adapters only the check of seals on stored bytes is modelled, without the reports of generations set aside.  The copyright and provenance patterns of
  licences, notices and obligations, and the packages listed in the manifest with their reasons
  are not modelled.
\<close>

end
